(* ===== verification/Captain_Prelude.thy ===== *)
theory Captain_Prelude
  imports Main "HOL-Library.Word"
begin

text \<open>
  Shared vocabulary of the development.  C++ failures (exceptions, failed assertions and the
  undefined behaviours that the code can run into) are values of \<open>cpp_error\<close>; a fallible
  operation returns \<open>'a result\<close>, with \<open>Inl\<close> for the failure.  The rest are facts on lists
  that several components use: overwriting a range of a list (\<^verbatim>\<open>memcpy\<close> into a buffer) and
  the concatenation of equally long blocks (a chain of memory nodes seen as one flat buffer).
\<close>

named_theorems block_simps \<open>flat view of a chain of equally long blocks\<close>

type_synonym byte = "8 word"

datatype cpp_error =
    Out_of_range string
  | Logic_error string
  | Invalid_argument string
  | Assert_failed string
  | Null_deref
  | Div_by_zero
  | Oob_access
  | Bad_length
  | Bad_shift
  | Signed_overflow
  | Undefined string
  | Diverges

type_synonym 'a result = "cpp_error + 'a"

definition rbind :: "'a result \<Rightarrow> ('a \<Rightarrow> 'b result) \<Rightarrow> 'b result" where
  "rbind m f = (case m of Inl e \<Rightarrow> Inl e | Inr a \<Rightarrow> f a)"

lemma rbind_simps [simp]: "rbind (Inl e) f = Inl e" "rbind (Inr a) f = f a"
  by (simp_all add: rbind_def)

lemma rbind_eq_Inr_iff: "rbind m f = Inr b \<longleftrightarrow> (\<exists>a. m = Inr a \<and> f a = Inr b)"
  by (cases m) auto

lemma rbind_cong [fundef_cong]:
  "m = m' \<Longrightarrow> (\<And>a. m' = Inr a \<Longrightarrow> f a = g a) \<Longrightarrow> rbind m f = rbind m' g"
  by (cases m') (auto simp: rbind_def)

text \<open>Subtraction of two \<^verbatim>\<open>size_t\<close> values: it wraps around at \<open>2 ^ 64\<close>.\<close>

definition size_sub :: "nat \<Rightarrow> nat \<Rightarrow> nat" where
  "size_sub a b = (if b \<le> a then a - b else 2 ^ 64 + a - b)"

lemma size_sub_le [simp]: "b \<le> a \<Longrightarrow> size_sub a b = a - b"
  by (simp add: size_sub_def)

subsection \<open>Overwriting a range of a list\<close>

definition overwrite :: "'a list \<Rightarrow> nat \<Rightarrow> 'a list \<Rightarrow> 'a list" where
  "overwrite xs p ys = take p xs @ ys @ drop (p + length ys) xs"

lemma length_overwrite [simp]:
  "p + length ys \<le> length xs \<Longrightarrow> length (overwrite xs p ys) = length xs"
  by (simp add: overwrite_def)

lemma overwrite_Nil [simp]: "overwrite xs p [] = xs"
  by (simp add: overwrite_def)

lemma overwrite_overwrite:
  assumes "p + length ys + length zs \<le> length xs"
  shows "overwrite (overwrite xs p ys) (p + length ys) zs = overwrite xs p (ys @ zs)"
  using assms by (simp add: overwrite_def min_absorb2 ac_simps)

lemma slice_overwrite:
  "p + length ys \<le> length xs \<Longrightarrow> take (length ys) (drop p (overwrite xs p ys)) = ys"
  by (simp add: overwrite_def)

lemma take_overwrite:
  "p \<le> length xs \<Longrightarrow> take p (overwrite xs p ys) = take p xs"
  by (simp add: overwrite_def)

lemma drop_overwrite:
  "p \<le> length xs \<Longrightarrow> drop (p + length ys) (overwrite xs p ys) = drop (p + length ys) xs"
  by (simp add: overwrite_def)

lemma overwrite_append:
  "p + length ys \<le> length xs \<Longrightarrow> overwrite (xs @ zs) p ys = overwrite xs p ys @ zs"
  by (simp add: overwrite_def)

lemma take_max_overwrite:
  assumes "p \<le> s" "s \<le> length xs"
  shows "take (max s (p + length ys)) (overwrite (xs @ zs) p ys) = overwrite (take s xs) p ys"
proof (cases "p + length ys \<le> s")
  case True
  then have "max s (p + length ys) = p + (length ys + (s - p - length ys))" by simp
  with True assms show ?thesis
    by (simp add: overwrite_def min_absorb1 drop_take max_absorb1)
next
  case False
  then have "max s (p + length ys) = p + length ys" by simp
  with False assms show ?thesis by (simp add: overwrite_def min_absorb1)
qed

subsection \<open>Chains of equally long blocks\<close>

definition blocks :: "nat \<Rightarrow> 'a list list \<Rightarrow> bool" where
  "blocks n xss \<longleftrightarrow> (\<forall>xs \<in> set xss. length xs = n)"

lemma blocks_simps [simp]:
  "blocks n []"
  "blocks n (xs # xss) \<longleftrightarrow> length xs = n \<and> blocks n xss"
  "blocks n (xss @ yss) \<longleftrightarrow> blocks n xss \<and> blocks n yss"
  by (auto simp: blocks_def)

lemma blocks_nth: "blocks n xss \<Longrightarrow> i < length xss \<Longrightarrow> length (xss ! i) = n"
  by (simp add: blocks_def)

lemma blocks_update:
  "blocks n xss \<Longrightarrow> length xs = n \<Longrightarrow> blocks n (xss[i := xs])"
  unfolding blocks_def using set_update_subset_insert[of xss i xs] by blast

lemma blocks_take: "blocks n xss \<Longrightarrow> blocks n (take k xss)"
  by (auto simp: blocks_def dest: in_set_takeD)

lemma length_concat_blocks [block_simps]:
  "blocks n xss \<Longrightarrow> length (concat xss) = n * length xss"
  by (induction xss) auto

lemma concat_split_block:
  assumes "blocks n xss" "i < length xss"
  shows "concat xss = concat (take i xss) @ xss ! i @ concat (drop (Suc i) xss)"
    and "length (concat (take i xss)) = i * n"
proof -
  show "concat xss = concat (take i xss) @ xss ! i @ concat (drop (Suc i) xss)"
    using id_take_nth_drop[OF assms(2)]
    by (metis concat.simps(2) concat_append)
  show "length (concat (take i xss)) = i * n"
    using length_concat_blocks[OF blocks_take[OF assms(1), of i]] assms(2)
    by (simp add: mult.commute)
qed

lemma concat_update_block:
  assumes "blocks n xss" "i < length xss" "p + length ys \<le> n"
  shows "concat (xss[i := overwrite (xss ! i) p ys]) = overwrite (concat xss) (i * n + p) ys"
proof -
  have len: "length (xss ! i) = n" using assms by (simp add: blocks_nth)
  have "concat (xss[i := overwrite (xss ! i) p ys]) =
      concat (take i xss) @ overwrite (xss ! i) p ys @ concat (drop (Suc i) xss)"
    using assms(2) by (simp add: upd_conv_take_nth_drop)
  also have "\<dots> = overwrite (concat xss) (i * n + p) ys"
    using concat_split_block[OF assms(1,2)] len assms(3)
    by (simp add: overwrite_def)
  finally show ?thesis .
qed

lemma slice_block:
  assumes "blocks n xss" "i < length xss" "p + k \<le> n"
  shows "take k (drop p (xss ! i)) = take k (drop (i * n + p) (concat xss))"
  using concat_split_block[OF assms(1,2)] blocks_nth[OF assms(1,2)] assms(3) by simp

lemma div_less_blocks: "0 < n \<Longrightarrow> p < n * m \<Longrightarrow> p div n < m" for n p m :: nat
  by (simp add: less_mult_imp_div_less mult.commute)

lemma take_append_take_drop:
  "a \<le> n \<Longrightarrow> take a (drop p xs) @ take (n - a) (drop (p + a) xs) = take n (drop p xs)"
  by (metis add.commute drop_drop le_add_diff_inverse take_add)

subsection \<open>Decimal numbers\<close>

text \<open>What \<^verbatim>\<open>operator<<\<close> prints for an integer, and the value of a string of digits.\<close>

definition dec_digit :: "nat \<Rightarrow> char" where
  "dec_digit n = ''0123456789'' ! n"

fun show_nat :: "nat \<Rightarrow> string" where
  "show_nat n = (if n < 10 then [dec_digit n] else show_nat (n div 10) @ [dec_digit (n mod 10)])"

declare show_nat.simps [simp del]

definition show_int :: "int \<Rightarrow> string" where
  "show_int i = (if i < 0 then CHR ''-'' # show_nat (nat (- i)) else show_nat (nat i))"

definition show_bool :: "bool \<Rightarrow> string" where
  "show_bool b = (if b then ''1'' else ''0'')"

definition is_digit :: "char \<Rightarrow> bool" where
  "is_digit c \<longleftrightarrow> 48 \<le> (of_char c :: nat) \<and> (of_char c :: nat) \<le> 57"

definition dec_val :: "string \<Rightarrow> nat" where
  "dec_val s = foldl (\<lambda>a c. a * 10 + (of_char c - 48)) 0 s"

lemma of_char_dec_digit: "n < 10 \<Longrightarrow> of_char (dec_digit n) = (48 + n :: nat)"
proof -
  assume "n < 10"
  then have "n \<in> {0, 1, 2, 3, 4, 5, 6, 7, 8, 9}" by auto
  then show ?thesis by (auto simp: dec_digit_def)
qed

lemma is_digit_dec_digit [simp]: "n < 10 \<Longrightarrow> is_digit (dec_digit n)"
  by (simp add: is_digit_def of_char_dec_digit)

lemma dec_val_show_nat [simp]: "dec_val (show_nat n) = n"
proof (induction n rule: show_nat.induct)
  case (1 n)
  then show ?case
    by (subst show_nat.simps) (auto simp: dec_val_def of_char_dec_digit)
qed

lemma show_nat_digits: "\<forall>c \<in> set (show_nat n). is_digit c" "show_nat n \<noteq> []"
proof -
  show "\<forall>c \<in> set (show_nat n). is_digit c"
  proof (induction n rule: show_nat.induct)
    case (1 n)
    then show ?case by (subst show_nat.simps) auto
  qed
  show "show_nat n \<noteq> []" by (subst show_nat.simps) simp
qed

subsection \<open>Strings and their bytes\<close>

text \<open>The part of a string that a C function sees.\<close>

definition c_str :: "string \<Rightarrow> string" where
  "c_str s = takeWhile (\<lambda>c. c \<noteq> CHR 0x00) s"

definition chars :: "byte list \<Rightarrow> string" where
  "chars bs = map (\<lambda>b. char_of (unat b)) bs"

definition bytes :: "string \<Rightarrow> byte list" where
  "bytes s = map (\<lambda>c. of_nat (of_char c)) s"

lemma length_chars [simp]: "length (chars bs) = length bs" "length (bytes s) = length s"
  by (simp_all add: chars_def bytes_def)

lemma bytes_chars [simp]: "bytes (chars bs) = bs"
proof -
  have "of_nat (of_char (char_of (unat b) :: char)) = b" for b :: byte
  proof -
    have "unat b < 2 ^ 8" using unsigned_less[of b, where ?'a = nat] by simp
    then show ?thesis by (simp add: of_char_of)
  qed
  then show ?thesis by (simp add: bytes_def chars_def comp_def)
qed

text \<open>Texts are determined by their bytes.\<close>

lemma chars_bytes: "chars (bytes s) = s"
proof -
  have "unat (of_nat (of_char c) :: byte) = of_char c" for c :: char by (simp add: unat_of_nat)
  then show ?thesis by (simp add: chars_def bytes_def comp_def)
qed

lemma bytes_append [simp]: "bytes (s @ t) = bytes s @ bytes t"
  by (simp add: bytes_def)

lemma bytes_take_drop: "bytes (take n s) = take n (bytes s)" "bytes (drop n s) = drop n (bytes s)"
  by (simp_all add: bytes_def take_map drop_map)

subsection \<open>Short runs\<close>

lemma three_steps: "r a b \<Longrightarrow> r b c \<Longrightarrow> r c d \<Longrightarrow> r\<^sup>*\<^sup>* a d"
  by (blast intro: rtranclp.rtrancl_into_rtrancl)

lemma four_steps: "r a b \<Longrightarrow> r b c \<Longrightarrow> r c d \<Longrightarrow> r d e \<Longrightarrow> r\<^sup>*\<^sup>* a e"
  by (blast intro: three_steps rtranclp.rtrancl_into_rtrancl)

end
