(* ===== verification/Endian.thy ===== *)
theory Endian
  imports Captain_Prelude
begin

text \<open>
  Byte order: \<^verbatim>\<open>captain/include/endian.h\<close>.  The byte order of the machine,
  \<^verbatim>\<open>CAPTAIN_BYTE_ORDER\<close>, is a compile-time constant of the build; here it is the argument \<open>bo\<close>
  of every definition that depends on it, so that the theorems hold on both kinds of machine.
  \<open>mem_bytes bo w\<close> is the object representation of the integer \<open>w\<close> (what \<^verbatim>\<open>memcpy\<close> of it
  copies), \<open>mem_word bo bs\<close> the integer with that representation.
\<close>

unbundle bit_operations_syntax

datatype endian = CAPTAIN_LITTLE_ENDIAN | CAPTAIN_BIG_ENDIAN

subsection \<open>Object representation of integers\<close>

definition le_bytes :: "'a::len word \<Rightarrow> byte list" where
  "le_bytes w = map (\<lambda>i. ucast (drop_bit (8 * i) w)) [0..<LENGTH('a) div 8]"

primrec le_word :: "byte list \<Rightarrow> 'a::len word" where
  "le_word [] = 0"
| "le_word (b # bs) = ucast b OR push_bit 8 (le_word bs)"

definition mem_bytes :: "endian \<Rightarrow> 'a::len word \<Rightarrow> byte list" where
  "mem_bytes bo w = (if bo = CAPTAIN_LITTLE_ENDIAN then le_bytes w else rev (le_bytes w))"

definition mem_word :: "endian \<Rightarrow> byte list \<Rightarrow> 'a::len word" where
  "mem_word bo bs = (if bo = CAPTAIN_LITTLE_ENDIAN then le_word bs else le_word (rev bs))"

definition byteswap :: "'a::len word \<Rightarrow> 'a word" where
  "byteswap w = le_word (rev (le_bytes w))"

definition byteswapOnLittleEndian :: "endian \<Rightarrow> 'a::len word \<Rightarrow> 'a word" where
  "byteswapOnLittleEndian bo t = (if bo = CAPTAIN_BIG_ENDIAN then t else byteswap t)"

definition byteswapOnBigEndian :: "endian \<Rightarrow> 'a::len word \<Rightarrow> 'a word" where
  "byteswapOnBigEndian bo t = (if bo = CAPTAIN_BIG_ENDIAN then byteswap t else t)"

subsection \<open>The two representations determine each other\<close>

lemma length_le_bytes [simp]: "length (le_bytes (w :: 'a::len word)) = LENGTH('a) div 8"
  by (simp add: le_bytes_def)

lemma length_mem_bytes [simp]: "length (mem_bytes bo (w :: 'a::len word)) = LENGTH('a) div 8"
  by (simp add: mem_bytes_def)

lemma bit_le_word:
  "bit (le_word bs :: 'a::len word) n \<longleftrightarrow>
     n < LENGTH('a) \<and> n div 8 < length bs \<and> bit (bs ! (n div 8)) (n mod 8)"
proof (induction bs arbitrary: n)
  case Nil
  then show ?case by simp
next
  case (Cons b bs)
  show ?case
  proof (cases "n < 8")
    case True
    then show ?thesis
      by (auto simp: bit_simps)
  next
    case False
    then obtain k where k: "n = 8 + k" using le_Suc_ex by (metis not_less)
    then have "\<not> bit b n" by (auto simp: bit_simps dest: bit_imp_le_length)
    moreover have "n div 8 = Suc (k div 8)" "n mod 8 = k mod 8" by (simp_all add: k)
    ultimately show ?thesis using Cons.IH[of k]
      by (auto simp: k bit_simps dest: bit_imp_le_length)
  qed
qed

lemma le_word_le_bytes:
  fixes w :: "'a::len word"
  assumes "8 dvd LENGTH('a)"
  shows "le_word (le_bytes w) = w"
proof (rule bit_word_eqI)
  fix n assume n: "n < LENGTH('a)"
  from assms n have "n div 8 < LENGTH('a) div 8"
    by (metis dvd_div_mult_self less_mult_imp_div_less)
  then show "bit (le_word (le_bytes w) :: 'a word) n \<longleftrightarrow> bit w n"
    using n by (simp add: bit_le_word le_bytes_def bit_simps)
qed

lemma le_bytes_le_word:
  assumes "LENGTH('a) = 8 * length bs"
  shows "le_bytes (le_word bs :: 'a::len word) = bs"
proof (rule nth_equalityI)
  show "length (le_bytes (le_word bs :: 'a word)) = length bs" using assms by simp
  fix i assume "i < length (le_bytes (le_word bs :: 'a word))"
  then have i: "i < length bs" using assms by simp
  show "le_bytes (le_word bs :: 'a word) ! i = bs ! i"
  proof (rule bit_word_eqI)
    fix n assume n: "n < LENGTH(8)"
    have "8 * i + n < LENGTH('a)" using i n assms by simp
    moreover have "(8 * i + n) div 8 = i" "(8 * i + n) mod 8 = n" using n by simp_all
    ultimately show "bit (le_bytes (le_word bs :: 'a word) ! i) n \<longleftrightarrow> bit (bs ! i) n"
      using i n assms by (simp add: le_bytes_def bit_simps bit_le_word)
  qed
qed

lemma mem_word_mem_bytes [simp]:
  "8 dvd LENGTH('a) \<Longrightarrow> mem_word bo (mem_bytes bo (w :: 'a::len word)) = w"
  by (simp add: mem_word_def mem_bytes_def le_word_le_bytes)

lemma mem_bytes_mem_word:
  "LENGTH('a) = 8 * length bs \<Longrightarrow> mem_bytes bo (mem_word bo bs :: 'a::len word) = bs"
  by (simp add: mem_word_def mem_bytes_def le_bytes_le_word)

lemma le_bytes_byteswap:
  "8 dvd LENGTH('a) \<Longrightarrow> le_bytes (byteswap w) = rev (le_bytes (w :: 'a::len word))"
  by (simp add: byteswap_def le_bytes_le_word)

lemma byteswap_byteswap:
  "8 dvd LENGTH('a) \<Longrightarrow> byteswap (byteswap (w :: 'a::len word)) = w"
  unfolding byteswap_def[of "byteswap w"]
  by (simp add: le_bytes_byteswap le_word_le_bytes)

lemma mem_bytes_byteswap:
  "8 dvd LENGTH('a) \<Longrightarrow> mem_bytes bo (byteswap w) = rev (mem_bytes bo (w :: 'a::len word))"
  by (simp add: mem_bytes_def le_bytes_byteswap)

text \<open>
  The value a wire format sees: on either machine \<open>byteswapOnLittleEndian\<close> yields an integer
  whose object representation is big-endian (network order).
\<close>

lemma mem_bytes_network_order:
  "8 dvd LENGTH('a) \<Longrightarrow>
   mem_bytes bo (byteswapOnLittleEndian bo (w :: 'a::len word)) = rev (le_bytes w)"
  by (cases bo) (simp_all add: byteswapOnLittleEndian_def le_bytes_byteswap mem_bytes_def)

lemma byteswapOnLittleEndian_involution:
  "8 dvd LENGTH('a) \<Longrightarrow>
   byteswapOnLittleEndian bo (byteswapOnLittleEndian bo (w :: 'a::len word)) = w"
  by (simp add: byteswapOnLittleEndian_def byteswap_byteswap)

end
