(* ===== verification/Byte_Array.thy ===== *)
theory Byte_Array
  imports Endian
begin

text \<open>
  The growable buffer \<^verbatim>\<open>captain::ByteArray\<close> (\<^verbatim>\<open>captain/bytearray.cpp\<close>): a singly linked
  chain of memory nodes of \<open>m_baseSize\<close> bytes, a cursor (\<open>m_position\<close> and the node \<open>m_cur\<close>
  that holds it) and the amount of data.  The chain hanging off \<^verbatim>\<open>m_root\<close> is the list
  \<open>m_nodes\<close>; a \<^verbatim>\<open>Node*\<close> into it is an index, \<open>None\<close> the null pointer.  The content of
  freshly allocated memory is not initialised by the code: \<open>heap_junk k i\<close> is byte \<open>i\<close> of the
  \<open>k\<close>-th allocation, and every theorem holds for every \<open>heap_junk\<close>.

  The theory proves that, under the representation invariant \<open>ba_ok\<close>, the chained operations
  behave like operations on one flat buffer (\<open>flat\<close>), says exactly when \<open>ba_write\<close> runs off the
  chain, and covers the cursor (\<open>setPosition\<close>) and the scatter/gather views (\<open>getReadBuffers\<close>,
  \<open>getWriteBuffers\<close>).
\<close>

record bytearray =
  m_baseSize :: nat
  m_position :: nat
  m_capacity :: nat
  m_size :: nat
  m_endian :: endian
  m_nodes :: "byte list list"
  m_cur :: "nat option"
  heap_junk :: "nat \<Rightarrow> nat \<Rightarrow> byte"
  heap_next :: nat

subsection \<open>The operations\<close>

definition Node :: "(nat \<Rightarrow> nat \<Rightarrow> byte) \<Rightarrow> nat \<Rightarrow> nat \<Rightarrow> byte list" where
  "Node junk k s = map (junk k) [0..<s]"

definition mk_ByteArray :: "(nat \<Rightarrow> nat \<Rightarrow> byte) \<Rightarrow> nat \<Rightarrow> bytearray" where
  "mk_ByteArray junk base_size =
     \<lparr>m_baseSize = base_size, m_position = 0, m_capacity = base_size, m_size = 0,
      m_endian = CAPTAIN_BIG_ENDIAN, m_nodes = [Node junk 0 base_size], m_cur = Some 0,
      heap_junk = junk, heap_next = 1\<rparr>"

definition isLittleEndian :: "bytearray \<Rightarrow> bool" where
  "isLittleEndian ba \<longleftrightarrow> m_endian ba = CAPTAIN_LITTLE_ENDIAN"

definition setIsLittleEndian :: "bytearray \<Rightarrow> bool \<Rightarrow> bytearray" where
  "setIsLittleEndian ba val =
     (if val then ba\<lparr>m_endian := CAPTAIN_LITTLE_ENDIAN\<rparr> else ba\<lparr>m_endian := CAPTAIN_BIG_ENDIAN\<rparr>)"

definition getReadSize :: "bytearray \<Rightarrow> nat" where
  "getReadSize ba = size_sub (m_size ba) (m_position ba)"

definition getCapacity :: "bytearray \<Rightarrow> nat" where
  "getCapacity ba = size_sub (m_capacity ba) (m_position ba)"

text \<open>The \<^verbatim>\<open>next\<close> field of the node with index \<open>i\<close>.\<close>

definition node_next :: "byte list list \<Rightarrow> nat \<Rightarrow> nat option" where
  "node_next nodes i = (if Suc i < length nodes then Some (Suc i) else None)"

definition ba_clear :: "bytearray \<Rightarrow> bytearray" where
  "ba_clear ba = ba\<lparr>m_position := 0, m_size := 0, m_capacity := m_baseSize ba,
     m_nodes := take 1 (m_nodes ba), m_cur := Some 0\<rparr>"

primrec append_nodes :: "nat \<Rightarrow> bytearray \<Rightarrow> bytearray" where
  "append_nodes 0 ba = ba"
| "append_nodes (Suc n) ba = append_nodes n
     (ba\<lparr>m_nodes := m_nodes ba @ [Node (heap_junk ba) (heap_next ba) (m_baseSize ba)],
         heap_next := Suc (heap_next ba), m_capacity := m_capacity ba + m_baseSize ba\<rparr>)"

definition addCapacity :: "bytearray \<Rightarrow> nat \<Rightarrow> bytearray result" where
  "addCapacity ba sz =
     (if sz = 0 then Inr ba
      else let old_cap = getCapacity ba in
        if old_cap \<ge> sz then Inr ba
        else if m_baseSize ba = 0 then Inl Div_by_zero
        else
          let need = sz - old_cap;
              count = need div m_baseSize ba + (if need mod m_baseSize ba > old_cap then 1 else 0);
              first = (if count > 0 then Some (length (m_nodes ba)) else None);
              ba' = append_nodes count ba
          in Inr (if old_cap = 0 then ba'\<lparr>m_cur := first\<rparr> else ba'))"

text \<open>
  The copy loop of \<open>ba_write\<close> (\<open>buf\<close> is the caller's buffer, \<open>bpos\<close> the offset copied so far).
  Following a null \<^verbatim>\<open>next\<close> pointer and dereferencing it is \<open>Null_deref\<close>.
\<close>

function write_loop :: "byte list list \<Rightarrow> nat option \<Rightarrow> nat \<Rightarrow> byte list \<Rightarrow> nat \<Rightarrow> nat \<Rightarrow> nat \<Rightarrow> nat
    \<Rightarrow> (byte list list \<times> nat option \<times> nat) result" where
  "write_loop nodes cur pos buf bpos sz npos ncap =
     (if sz = 0 then Inr (nodes, cur, pos)
      else case cur of
        None \<Rightarrow> Inl Null_deref
      | Some i \<Rightarrow>
          if ncap \<ge> sz then
            write_loop (nodes[i := overwrite (nodes ! i) npos (take sz (drop bpos buf))])
              (if length (nodes ! i) = npos + sz then node_next nodes i else Some i)
              (pos + sz) buf (bpos + sz) 0 npos ncap
          else
            (case node_next nodes i of
               None \<Rightarrow> Inl Null_deref
             | Some j \<Rightarrow>
                 write_loop (nodes[i := overwrite (nodes ! i) npos (take ncap (drop bpos buf))])
                   (Some j) (pos + ncap) buf (bpos + ncap) (sz - ncap) 0 (length (nodes ! j))))"
  by pat_completeness auto
termination
  by (relation "measure (\<lambda>(nodes, cur, _, _, _, sz, _, _).
        sz + (case cur of None \<Rightarrow> 0 | Some i \<Rightarrow> length nodes - i))")
     (auto simp: node_next_def split: if_splits)

definition ba_write :: "bytearray \<Rightarrow> byte list \<Rightarrow> bytearray result" where
  "ba_write ba buf =
     (if length buf = 0 then Inr ba
      else rbind (addCapacity ba (length buf)) (\<lambda>ba.
        if m_baseSize ba = 0 then Inl Div_by_zero
        else let npos = m_position ba mod m_baseSize ba in
          case m_cur ba of
            None \<Rightarrow> Inl Null_deref
          | Some i \<Rightarrow>
              rbind (write_loop (m_nodes ba) (m_cur ba) (m_position ba) buf 0 (length buf) npos
                       (size_sub (length (m_nodes ba ! i)) npos))
                (\<lambda>(nodes, cur, pos).
                   Inr (ba\<lparr>m_nodes := nodes, m_cur := cur, m_position := pos,
                           m_size := (if pos > m_size ba then pos else m_size ba)\<rparr>))))"

text \<open>The copy loop shared by the two \<open>ba_read\<close> overloads: cursor, position and the bytes copied.\<close>

function read_loop :: "byte list list \<Rightarrow> nat option \<Rightarrow> nat \<Rightarrow> nat \<Rightarrow> nat \<Rightarrow> nat \<Rightarrow> byte list
    \<Rightarrow> (nat option \<times> nat \<times> byte list) result" where
  "read_loop nodes cur pos sz npos ncap acc =
     (if sz = 0 then Inr (cur, pos, acc)
      else case cur of
        None \<Rightarrow> Inl Null_deref
      | Some i \<Rightarrow>
          if ncap \<ge> sz then
            read_loop nodes
              (if length (nodes ! i) = npos + sz then node_next nodes i else Some i)
              (pos + sz) 0 npos ncap (acc @ take sz (drop npos (nodes ! i)))
          else
            (case node_next nodes i of
               None \<Rightarrow> Inl Null_deref
             | Some j \<Rightarrow>
                 read_loop nodes (Some j) (pos + ncap) (sz - ncap) 0 (length (nodes ! j))
                   (acc @ take ncap (drop npos (nodes ! i)))))"
  by pat_completeness auto
termination
  by (relation "measure (\<lambda>(nodes, cur, _, sz, _, _, _).
        sz + (case cur of None \<Rightarrow> 0 | Some i \<Rightarrow> length nodes - i))")
     (auto simp: node_next_def split: if_splits)

declare write_loop.simps [simp del] read_loop.simps [simp del]

definition not_enough :: cpp_error where
  "not_enough = Out_of_range ''not enough len''"

text \<open>The part of both overloads before the loop: the bound check, then the first node.\<close>

definition read_from :: "bytearray \<Rightarrow> nat \<Rightarrow> nat \<Rightarrow> (nat option \<times> nat \<times> byte list) result" where
  "read_from ba sz position =
     (if sz > getReadSize ba then Inl not_enough
      else if m_baseSize ba = 0 then Inl Div_by_zero
      else let npos = position mod m_baseSize ba in
        case m_cur ba of
          None \<Rightarrow> Inl Null_deref
        | Some i \<Rightarrow> read_loop (m_nodes ba) (m_cur ba) position sz npos
                     (size_sub (length (m_nodes ba ! i)) npos) [])"

definition ba_read :: "bytearray \<Rightarrow> nat \<Rightarrow> (byte list \<times> bytearray) result" where
  "ba_read ba sz =
     rbind (read_from ba sz (m_position ba)) (\<lambda>(cur, pos, bs).
       Inr (bs, ba\<lparr>m_cur := cur, m_position := pos\<rparr>))"

definition read_at :: "bytearray \<Rightarrow> nat \<Rightarrow> nat \<Rightarrow> byte list result" where
  "read_at ba sz position = rbind (read_from ba sz position) (\<lambda>(cur, pos, bs). Inr bs)"

text \<open>The search of \<open>setPosition\<close> for the node that holds offset \<open>v\<close>.\<close>

function seek_loop :: "byte list list \<Rightarrow> nat option \<Rightarrow> nat \<Rightarrow> (nat option \<times> nat) result" where
  "seek_loop nodes cur v =
     (case cur of
        None \<Rightarrow> Inl Null_deref
      | Some i \<Rightarrow>
          if v > length (nodes ! i) then seek_loop nodes (node_next nodes i) (v - length (nodes ! i))
          else Inr (cur, v))"
  by pat_completeness auto
termination
  by (relation "measure (\<lambda>(nodes, cur, _). case cur of None \<Rightarrow> 0 | Some i \<Rightarrow> Suc (length nodes - i))")
     (auto simp: node_next_def split: if_splits)

declare seek_loop.simps [simp del]

definition setPosition :: "bytearray \<Rightarrow> nat \<Rightarrow> bytearray result" where
  "setPosition ba v =
     (if v > m_capacity ba then Inl (Out_of_range ''set_position out of range'')
      else let ba = ba\<lparr>m_position := v, m_size := (if v > m_size ba then v else m_size ba)\<rparr> in
        rbind (seek_loop (m_nodes ba) (Some 0) v) (\<lambda>(cur, v).
          Inr (ba\<lparr>m_cur := (case cur of None \<Rightarrow> None
             | Some i \<Rightarrow> if v = length (m_nodes ba ! i) then node_next (m_nodes ba) i else cur)\<rparr>)))"

definition toString :: "bytearray \<Rightarrow> byte list result" where
  "toString ba = (if getReadSize ba = 0 then Inr [] else read_at ba (getReadSize ba) (m_position ba))"

subsection \<open>The representation invariant and the flat view\<close>

definition node_at :: "nat \<Rightarrow> nat \<Rightarrow> nat \<Rightarrow> nat option" where
  "node_at b n p = (if p < b * n then Some (p div b) else None)"

definition flat :: "bytearray \<Rightarrow> byte list" where
  "flat ba = concat (m_nodes ba)"

definition ba_ok :: "bytearray \<Rightarrow> bool" where
  "ba_ok ba \<longleftrightarrow> 0 < m_baseSize ba \<and> m_nodes ba \<noteq> [] \<and> blocks (m_baseSize ba) (m_nodes ba) \<and>
     m_capacity ba = m_baseSize ba * length (m_nodes ba) \<and>
     m_position ba \<le> m_size ba \<and> m_size ba \<le> m_capacity ba \<and>
     m_cur ba = node_at (m_baseSize ba) (length (m_nodes ba)) (m_position ba)"

text \<open>The bytes between the cursor and the end of the data, and all bytes of the data.\<close>

definition readable :: "bytearray \<Rightarrow> byte list" where
  "readable ba = take (m_size ba - m_position ba) (drop (m_position ba) (flat ba))"

definition content :: "bytearray \<Rightarrow> byte list" where
  "content ba = take (m_size ba) (flat ba)"

lemma ba_okD:
  assumes "ba_ok ba"
  shows "0 < m_baseSize ba" "m_nodes ba \<noteq> []" "blocks (m_baseSize ba) (m_nodes ba)"
    "m_capacity ba = m_baseSize ba * length (m_nodes ba)"
    "m_position ba \<le> m_size ba" "m_size ba \<le> m_capacity ba" "m_position ba \<le> m_capacity ba"
    "m_cur ba = node_at (m_baseSize ba) (length (m_nodes ba)) (m_position ba)"
  using assms by (auto simp: ba_ok_def)

lemma length_flat [simp]: "ba_ok ba \<Longrightarrow> length (flat ba) = m_capacity ba"
  by (simp add: flat_def ba_ok_def length_concat_blocks)

lemma getReadSize_ok: "ba_ok ba \<Longrightarrow> getReadSize ba = m_size ba - m_position ba"
  by (simp add: getReadSize_def ba_ok_def)

lemma getCapacity_ok: "ba_ok ba \<Longrightarrow> getCapacity ba = m_capacity ba - m_position ba"
  by (simp add: getCapacity_def ba_ok_def)

lemma length_readable: "ba_ok ba \<Longrightarrow> length (readable ba) = getReadSize ba"
  using ba_okD(5,6)[of ba] by (simp add: readable_def getReadSize_ok)

lemma length_Node [simp]: "length (Node junk k s) = s"
  by (simp add: Node_def)

lemma ba_ok_mk_ByteArray: "0 < n \<Longrightarrow> ba_ok (mk_ByteArray junk n)"
  by (simp add: ba_ok_def mk_ByteArray_def node_at_def)

lemma ba_ok_setIsLittleEndian: "ba_ok ba \<Longrightarrow> ba_ok (setIsLittleEndian ba v)"
  by (simp add: ba_ok_def setIsLittleEndian_def)

lemma ba_ok_clear: "ba_ok ba \<Longrightarrow> ba_ok (ba_clear ba)"
  by (cases "m_nodes ba") (auto simp: ba_ok_def ba_clear_def node_at_def)

lemma node_at_div:
  "0 < b \<Longrightarrow> i < n \<Longrightarrow> q < b \<Longrightarrow> node_at b n (i * b + q) = Some i"
  by (simp add: node_at_def)
     (metis mult.commute add.commute mult_Suc_right less_le_trans nat_add_left_cancel_less
        Suc_leI mult_le_mono2)

lemma node_at_end: "0 < b \<Longrightarrow> node_at b n (i * b + b) = (if Suc i < n then Some (Suc i) else None)"
proof -
  assume "0 < b"
  have eq: "i * b + b = Suc i * b" by simp
  have "Suc i * b < b * n \<longleftrightarrow> Suc i < n" and "Suc i * b div b = Suc i"
    using \<open>0 < b\<close> by (metis mult.commute nat_mult_less_cancel1, metis nonzero_mult_div_cancel_right neq0_conv)
  then show ?thesis unfolding node_at_def eq by simp
qed

lemma node_at_step:
  assumes "0 < b" "i < length nodes" "npos < b" "k \<le> b - npos"
  shows "node_at b (length nodes) (i * b + npos + k) =
     (if b = npos + k then node_next nodes i else Some i)"
proof (cases "b = npos + k")
  case True
  then have "i * b + npos + k = i * b + b" by (simp only: add.assoc)
  then have "node_at b (length nodes) (i * b + npos + k) =
      (if Suc i < length nodes then Some (Suc i) else None)"
    using node_at_end[OF assms(1)] by (simp only:)
  with True show ?thesis by (simp add: node_next_def)
next
  case False
  then have "npos + k < b" using assms by simp
  then show ?thesis using node_at_div[OF assms(1,2), of "npos + k"] False by (simp add: add.assoc)
qed

lemma node_at_split:
  assumes "node_at b n p = Some i" "0 < b"
  shows "i < n" "p = i * b + p mod b" "p mod b < b"
  using assms by (auto simp: node_at_def div_less_blocks split: if_splits)

subsection \<open>Growing the chain\<close>

lemma append_nodes_frame [simp]:
  "m_baseSize (append_nodes n ba) = m_baseSize ba"
  "m_position (append_nodes n ba) = m_position ba"
  "m_size (append_nodes n ba) = m_size ba"
  "m_endian (append_nodes n ba) = m_endian ba"
  "m_cur (append_nodes n ba) = m_cur ba"
  "m_capacity (append_nodes n ba) = m_capacity ba + n * m_baseSize ba"
  "length (m_nodes (append_nodes n ba)) = length (m_nodes ba) + n"
  by (induction n arbitrary: ba) simp_all

lemma append_nodes_extends:
  "\<exists>xss. m_nodes (append_nodes n ba) = m_nodes ba @ xss \<and> blocks (m_baseSize ba) xss"
proof (induction n arbitrary: ba)
  case (Suc n)
  obtain xss where "m_nodes (append_nodes (Suc n) ba) =
      (m_nodes ba @ [Node (heap_junk ba) (heap_next ba) (m_baseSize ba)]) @ xss"
      "blocks (m_baseSize ba) xss"
    using Suc.IH[of "ba\<lparr>m_nodes := m_nodes ba @ [Node (heap_junk ba) (heap_next ba) (m_baseSize ba)],
         heap_next := Suc (heap_next ba), m_capacity := m_capacity ba + m_baseSize ba\<rparr>"]
    by auto
  then show ?case
    by (intro exI[of _ "Node (heap_junk ba) (heap_next ba) (m_baseSize ba) # xss"]) simp
qed simp

text \<open>
  \<open>cap_ok ba n\<close>: the number of nodes \<open>addCapacity\<close> appends is enough for \<open>n\<close> more bytes.  The
  rounding test of the code compares the remainder with the old free capacity instead of zero.
\<close>

definition cap_ok :: "bytearray \<Rightarrow> nat \<Rightarrow> bool" where
  "cap_ok ba n \<longleftrightarrow>
     (let free = m_capacity ba - m_position ba; r = (n - free) mod m_baseSize ba in
      n \<le> free \<or> r = 0 \<or> r > free)"

lemma addCapacity_ok:
  assumes ok: "ba_ok ba"
  shows "\<exists>ba' xss. addCapacity ba n = Inr ba' \<and> ba_ok ba' \<and> flat ba' = flat ba @ xss \<and>
     m_position ba' = m_position ba \<and> m_size ba' = m_size ba \<and> m_endian ba' = m_endian ba \<and>
     m_baseSize ba' = m_baseSize ba \<and>
     (m_position ba + n \<le> m_capacity ba' \<longleftrightarrow> cap_ok ba n)"
proof (cases "n \<le> m_capacity ba - m_position ba")
  case True
  then have "addCapacity ba n = Inr ba" using ok by (simp add: addCapacity_def getCapacity_ok Let_def)
  moreover have "m_position ba + n \<le> m_capacity ba" using True ba_okD(7)[OF ok] by simp
  ultimately show ?thesis using ok True by (auto simp: cap_ok_def)
next
  case False
  define b where "b = m_baseSize ba"
  define free where "free = m_capacity ba - m_position ba"
  define need where "need = n - free"
  define count where "count = need div b + (if need mod b > free then 1 else 0)"
  define ba1 where "ba1 = append_nodes count ba"
  define ba2 where "ba2 = (if free = 0
     then ba1\<lparr>m_cur := (if count > 0 then Some (length (m_nodes ba)) else None)\<rparr> else ba1)"
  have b: "0 < b" and pos: "m_position ba \<le> m_capacity ba"
    and cap: "m_capacity ba = b * length (m_nodes ba)"
    using ba_okD[OF ok] by (simp_all add: b_def)
  have need: "0 < need" using False by (simp add: need_def free_def)
  have res: "addCapacity ba n = Inr ba2"
    using False b ok need
    by (simp add: addCapacity_def Let_def getCapacity_ok ba2_def ba1_def count_def need_def free_def b_def)
  obtain xss where xss: "m_nodes ba1 = m_nodes ba @ xss" "blocks b xss"
    using append_nodes_extends[of count ba] by (auto simp: ba1_def b_def)
  have nodes2: "m_nodes ba2 = m_nodes ba @ xss" by (simp add: ba2_def xss)
  have cap2: "m_capacity ba2 = m_capacity ba + count * b" by (simp add: ba2_def ba1_def b_def)
  have len2: "length (m_nodes ba2) = length (m_nodes ba) + count" by (simp add: ba2_def ba1_def)
  have cnt: "0 < count" if "free = 0"
    using need b that by (cases "need mod b = 0") (auto simp: count_def div_greater_zero_iff)
  have cur2: "m_cur ba2 = node_at b (length (m_nodes ba2)) (m_position ba)"
  proof (cases "free = 0")
    case True
    then have "m_position ba = b * length (m_nodes ba)" using pos cap by (simp add: free_def)
    then show ?thesis using True cnt b by (simp add: ba2_def node_at_def ba1_def)
  next
    case False
    then have "m_position ba < b * length (m_nodes ba)" using cap by (simp add: free_def)
    moreover have "b * length (m_nodes ba) \<le> b * (length (m_nodes ba) + count)" by simp
    ultimately have "m_position ba < b * (length (m_nodes ba) + count)" by linarith
    with False \<open>m_position ba < b * length (m_nodes ba)\<close> show ?thesis
      using ba_okD(8)[OF ok] by (simp add: ba2_def node_at_def ba1_def b_def)
  qed
  have ok2: "ba_ok ba2"
    using ba_okD[OF ok] b xss nodes2 cur2 cap2 len2
    by (simp add: ba_ok_def ba2_def ba1_def b_def algebra_simps)
  have fit: "m_position ba + n \<le> m_capacity ba2 \<longleftrightarrow> need \<le> count * b"
    using False pos by (auto simp: cap2 need_def free_def)
  have "need \<le> count * b \<longleftrightarrow> need mod b = 0 \<or> need mod b > free"
  proof -
    define q where "q = need div b"
    define r where "r = need mod b"
    have "need = q * b + r" "r < b" using b by (simp_all add: q_def r_def)
    then show ?thesis unfolding count_def q_def[symmetric] r_def[symmetric]
      by (auto simp: add_mult_distrib)
  qed
  then have "m_position ba + n \<le> m_capacity ba2 \<longleftrightarrow> cap_ok ba n"
    using False fit by (simp add: cap_ok_def Let_def need_def free_def b_def)
  then show ?thesis
    using res ok2 nodes2
    by (auto simp: flat_def ba2_def ba1_def b_def)
qed

subsection \<open>The copy loops on the flat view\<close>

lemma write_loop_ok:
  assumes "0 < b" "blocks b nodes" "i < length nodes" "npos < b" "bpos + n \<le> length buf" "0 < n"
    and "i * b + npos + n \<le> b * length nodes"
  shows "\<exists>nodes'. write_loop nodes (Some i) pos buf bpos n npos (b - npos) =
       Inr (nodes', node_at b (length nodes) (i * b + npos + n), pos + n) \<and>
     blocks b nodes' \<and> length nodes' = length nodes \<and>
     concat nodes' = overwrite (concat nodes) (i * b + npos) (take n (drop bpos buf))"
  using assms
proof (induction n arbitrary: nodes i npos pos bpos rule: less_induct)
  case (less n)
  note b = less.prems(1) and bl = less.prems(2) and i = less.prems(3) and np = less.prems(4)
    and bp = less.prems(5) and n = less.prems(6) and fits = less.prems(7)
  have len: "length (nodes ! i) = b" using bl i by (rule blocks_nth)
  define upd where "upd = (\<lambda>k. nodes[i := overwrite (nodes ! i) npos (take k (drop bpos buf))])"
  have upd: "blocks b (upd k)" "length (upd k) = length nodes"
      "concat (upd k) = overwrite (concat nodes) (i * b + npos) (take k (drop bpos buf))"
    if "npos + k \<le> b" "bpos + k \<le> length buf" for k
  proof -
    have l: "length (take k (drop bpos buf)) = k" using that by simp
    show "blocks b (upd k)" "length (upd k) = length nodes"
      using that len bl l by (auto simp: upd_def intro!: blocks_update)
    show "concat (upd k) = overwrite (concat nodes) (i * b + npos) (take k (drop bpos buf))"
      unfolding upd_def by (rule concat_update_block[OF bl i]) (use that l in simp)
  qed
  show ?case
  proof (cases "n \<le> b - npos")
    case True
    have "node_at b (length nodes) (i * b + npos + n) =
        (if length (nodes ! i) = npos + n then node_next nodes i else Some i)"
      using node_at_step[OF b i np True] len by simp
    then have "write_loop nodes (Some i) pos buf bpos n npos (b - npos) =
        Inr (upd n, node_at b (length nodes) (i * b + npos + n), pos + n)"
      using True n by (simp add: write_loop.simps[of nodes] write_loop.simps[of _ _ _ _ _ 0] upd_def)
    then show ?thesis using upd[of n] True bp np by simp
  next
    case False
    define c where "c = b - npos"
    have c: "0 < c" "c < n" "npos + c = b" using False np by (auto simp: c_def)
    have "Suc i < length nodes"
    proof (rule ccontr)
      assume "\<not> Suc i < length nodes"
      then have "length nodes = Suc i" using i by simp
      then show False using fits c by (simp add: algebra_simps)
    qed
    then have nxt: "node_next nodes i = Some (Suc i)" "length (nodes ! Suc i) = b"
      using bl by (auto simp: node_next_def blocks_nth)
    have pos: "Suc i * b + 0 + (n - c) = i * b + npos + n" using c by (simp add: algebra_simps)
    have "\<exists>nodes'. write_loop (upd c) (Some (Suc i)) (pos + c) buf (bpos + c) (n - c) 0 (b - 0) =
         Inr (nodes', node_at b (length (upd c)) (Suc i * b + 0 + (n - c)), pos + c + (n - c)) \<and>
       blocks b nodes' \<and> length nodes' = length (upd c) \<and>
       concat nodes' = overwrite (concat (upd c)) (Suc i * b + 0) (take (n - c) (drop (bpos + c) buf))"
      by (rule less.IH)
         (use c b bp fits upd[of c] pos \<open>Suc i < length nodes\<close> in \<open>auto simp: upd_def\<close>)
    then obtain nodes' where *: "write_loop (upd c) (Some (Suc i)) (pos + c) buf (bpos + c) (n - c) 0 b =
         Inr (nodes', node_at b (length nodes) (i * b + npos + n), pos + n)"
       "blocks b nodes'" "length nodes' = length nodes"
       "concat nodes' = overwrite (concat (upd c)) (Suc i * b) (take (n - c) (drop (bpos + c) buf))"
      using pos c upd[of c] bp by auto
    have "write_loop nodes (Some i) pos buf bpos n npos (b - npos) =
        Inr (nodes', node_at b (length nodes) (i * b + npos + n), pos + n)"
      using False n nxt *(1) by (simp add: write_loop.simps[of nodes] upd_def c_def)
    moreover have "concat nodes' = overwrite (concat nodes) (i * b + npos) (take n (drop bpos buf))"
    proof -
      have e: "Suc i * b = (i * b + npos) + length (take c (drop bpos buf))"
        using c bp by (simp add: algebra_simps)
      have u: "concat (upd c) = overwrite (concat nodes) (i * b + npos) (take c (drop bpos buf))"
        using upd(3)[of c] c bp by simp
      have "concat nodes' = overwrite (concat nodes) (i * b + npos)
          (take c (drop bpos buf) @ take (n - c) (drop (bpos + c) buf))"
        unfolding *(4) u e
        by (rule overwrite_overwrite) (use c bp fits length_concat_blocks[OF bl] in simp)
      also have "take c (drop bpos buf) @ take (n - c) (drop (bpos + c) buf) = take n (drop bpos buf)"
        using c by (intro take_append_take_drop) simp
      finally show ?thesis .
    qed
    ultimately show ?thesis using *(2,3) by blast
  qed
qed

lemma write_loop_null:
  assumes "0 < b" "blocks b nodes" "i < length nodes" "npos < b" "b * length nodes < i * b + npos + n"
  shows "write_loop nodes (Some i) pos buf bpos n npos (b - npos) = Inl Null_deref"
  using assms
proof (induction n arbitrary: nodes i npos pos bpos rule: less_induct)
  case (less n)
  note b = less.prems(1) and bl = less.prems(2) and i = less.prems(3) and np = less.prems(4)
    and over = less.prems(5)
  have "Suc i * b \<le> b * length nodes" using i by (metis Suc_leI mult.commute mult_le_mono2)
  then have big: "b - npos < n" using over np by simp
  have upd: "blocks b (nodes[i := overwrite (nodes ! i) npos xs])" if "npos + length xs \<le> b" for xs
    using that bl i by (auto intro!: blocks_update simp: blocks_nth)
  show ?case
  proof (cases "Suc i < length nodes")
    case True
    then have nxt: "node_next nodes i = Some (Suc i)" "length (nodes ! Suc i) = b"
      using bl by (auto simp: node_next_def blocks_nth)
    have "write_loop (nodes[i := overwrite (nodes ! i) npos (take (b - npos) (drop bpos buf))])
        (Some (Suc i)) (pos + (b - npos)) buf (bpos + (b - npos)) (n - (b - npos)) 0 (b - 0) = Inl Null_deref"
      by (rule less.IH) (use big b True over np upd in \<open>auto simp: algebra_simps\<close>)
    then show ?thesis using big nxt by (simp add: write_loop.simps[of nodes])
  next
    case False
    then show ?thesis using big by (simp add: write_loop.simps[of nodes] node_next_def)
  qed
qed

lemma read_loop_ok:
  assumes "0 < b" "blocks b nodes" "i < length nodes" "npos < b" "0 < n"
    and "i * b + npos + n \<le> b * length nodes"
  shows "read_loop nodes (Some i) pos n npos (b - npos) acc =
       Inr (node_at b (length nodes) (i * b + npos + n), pos + n,
            acc @ take n (drop (i * b + npos) (concat nodes)))"
  using assms
proof (induction n arbitrary: i npos pos acc rule: less_induct)
  case (less n)
  note b = less.prems(1) and bl = less.prems(2) and i = less.prems(3) and np = less.prems(4)
    and n = less.prems(5) and fits = less.prems(6)
  have len: "length (nodes ! i) = b" using bl i by (rule blocks_nth)
  show ?case
  proof (cases "n \<le> b - npos")
    case True
    have "node_at b (length nodes) (i * b + npos + n) =
        (if length (nodes ! i) = npos + n then node_next nodes i else Some i)"
      using node_at_step[OF b i np True] len by simp
    moreover have "take n (drop npos (nodes ! i)) = take n (drop (i * b + npos) (concat nodes))"
      using slice_block[OF bl i] True np by simp
    ultimately show ?thesis
      using True n by (simp add: read_loop.simps[of nodes "Some i"] read_loop.simps[of _ _ _ 0])
  next
    case False
    define c where "c = b - npos"
    have c: "0 < c" "c < n" "npos + c = b" using False np by (auto simp: c_def)
    have "Suc i < length nodes"
    proof (rule ccontr)
      assume "\<not> Suc i < length nodes"
      then have "length nodes = Suc i" using i by simp
      then show False using fits c by (simp add: algebra_simps)
    qed
    then have nxt: "node_next nodes i = Some (Suc i)" "length (nodes ! Suc i) = b"
      using bl by (auto simp: node_next_def blocks_nth)
    have pos: "Suc i * b + 0 + (n - c) = i * b + npos + n" "Suc i * b + 0 = i * b + npos + c"
      using c by (simp_all add: algebra_simps)
    have ih: "read_loop nodes (Some (Suc i)) (pos + c) (n - c) 0 (b - 0) (acc @ take c (drop npos (nodes ! i))) =
       Inr (node_at b (length nodes) (Suc i * b + 0 + (n - c)), pos + c + (n - c),
         (acc @ take c (drop npos (nodes ! i))) @ take (n - c) (drop (Suc i * b + 0) (concat nodes)))"
      by (rule less.IH) (use c b fits pos \<open>Suc i < length nodes\<close> bl in auto)
    have step: "read_loop nodes (Some i) pos n npos c acc = read_loop nodes (Some (Suc i)) (pos + c)
        (n - c) 0 (b - 0) (acc @ take c (drop npos (nodes ! i)))"
      using n nxt c by (simp add: read_loop.simps[of nodes "Some i"])
    have "take c (drop npos (nodes ! i)) = take c (drop (i * b + npos) (concat nodes))"
      using slice_block[OF bl i] c by simp
    then have bytes: "(acc @ take c (drop npos (nodes ! i))) @ take (n - c) (drop (Suc i * b + 0) (concat nodes))
        = acc @ take n (drop (i * b + npos) (concat nodes))"
      using take_append_take_drop[of c n "i * b + npos" "concat nodes"] c unfolding pos(2) by simp
    have "pos + c + (n - c) = pos + n" using c by simp
    then show ?thesis unfolding c_def[symmetric] step ih pos(1) bytes by simp
  qed
qed

lemma seek_loop_ok:
  assumes "0 < b" "blocks b nodes" "i < length nodes" "v \<le> b * (length nodes - i)"
  shows "\<exists>k w. seek_loop nodes (Some i) v = Inr (Some k, w) \<and> i \<le> k \<and> k < length nodes \<and> w \<le> b \<and>
     i * b + v = k * b + w"
  using assms
proof (induction v arbitrary: i rule: less_induct)
  case (less v)
  note b = less.prems(1) and bl = less.prems(2) and i = less.prems(3) and v = less.prems(4)
  have len: "length (nodes ! i) = b" using bl i by (rule blocks_nth)
  show ?case
  proof (cases "v \<le> b")
    case True
    then show ?thesis using len i by (auto simp: seek_loop.simps[of nodes "Some i"])
  next
    case False
    have "Suc i < length nodes"
    proof (rule ccontr)
      assume "\<not> Suc i < length nodes"
      then have "length nodes - i = 1" using i by simp
      then show False using v False by simp
    qed
    moreover have "v - b \<le> b * (length nodes - Suc i)"
      using v by (simp add: diff_mult_distrib2 algebra_simps)
    ultimately obtain k w where kw: "seek_loop nodes (Some (Suc i)) (v - b) = Inr (Some k, w)"
        "Suc i \<le> k" "k < length nodes" "w \<le> b" "Suc i * b + (v - b) = k * b + w"
      using less.IH[of "v - b" "Suc i"] b bl False by auto
    have "seek_loop nodes (Some i) v = Inr (Some k, w)"
      using kw(1) False len \<open>Suc i < length nodes\<close>
      by (simp add: seek_loop.simps[of nodes "Some i"] node_next_def)
    then show ?thesis using kw False by auto
  qed
qed

subsection \<open>The operations against the flat buffer\<close>

lemma ba_write_Nil [simp]: "ba_write ba [] = Inr ba"
  by (simp add: ba_write_def)

lemma ba_write_ok:
  assumes ok: "ba_ok ba" and ne: "buf \<noteq> []" and cap: "cap_ok ba (length buf)"
  obtains ba' xss where "ba_write ba buf = Inr ba'" "ba_ok ba'"
    "m_position ba' = m_position ba + length buf"
    "m_size ba' = max (m_size ba) (m_position ba + length buf)"
    "flat ba' = overwrite (flat ba @ xss) (m_position ba) buf"
    "m_endian ba' = m_endian ba" "m_baseSize ba' = m_baseSize ba"
proof -
  obtain ba1 xss where a: "addCapacity ba (length buf) = Inr ba1" "ba_ok ba1" "flat ba1 = flat ba @ xss"
     "m_position ba1 = m_position ba" "m_size ba1 = m_size ba" "m_endian ba1 = m_endian ba"
     "m_baseSize ba1 = m_baseSize ba" "m_position ba + length buf \<le> m_capacity ba1"
    using addCapacity_ok[OF ok, of "length buf"] cap by auto
  define b where "b = m_baseSize ba1"
  note D = ba_okD[OF a(2), folded b_def]
  have n: "0 < length buf" using ne by simp
  then have "m_position ba1 < b * length (m_nodes ba1)" using a(4,8) D(4) by linarith
  then obtain i where i: "m_cur ba1 = Some i" "node_at b (length (m_nodes ba1)) (m_position ba1) = Some i"
    using D(8) by (auto simp: node_at_def)
  note ip = node_at_split[OF i(2) D(1)]
  have len: "length (m_nodes ba1 ! i) = b" using D(3) ip(1) by (rule blocks_nth)
  define np where "np = m_position ba1 mod b"
  have pos: "i * b + np = m_position ba1" using ip(2) by (simp add: np_def)
  have fits: "i * b + np + length buf \<le> b * length (m_nodes ba1)" using a(4,8) D(4) by (simp add: pos)
  obtain nodes' where w: "write_loop (m_nodes ba1) (Some i) (m_position ba1) buf 0 (length buf) np (b - np) =
       Inr (nodes', node_at b (length (m_nodes ba1)) (i * b + np + length buf), m_position ba1 + length buf)"
     "blocks b nodes'" "length nodes' = length (m_nodes ba1)"
     "concat nodes' = overwrite (concat (m_nodes ba1)) (i * b + np) (take (length buf) (drop 0 buf))"
    using write_loop_ok[OF D(1,3) ip(1), of np 0 "length buf" buf "m_position ba1"] ip(3) n fits
    by (auto simp: np_def)
  define ba2 where "ba2 = ba1\<lparr>m_nodes := nodes',
     m_cur := node_at b (length (m_nodes ba1)) (m_position ba1 + length buf),
     m_position := m_position ba1 + length buf,
     m_size := max (m_size ba1) (m_position ba1 + length buf)\<rparr>"
  have "ba_write ba buf = Inr ba2"
    using ne a(1) D(1) i(1) w(1) len ip(3)
    by (simp add: ba_write_def b_def ba2_def np_def pos[unfolded np_def b_def] max_def)
  moreover have "ba_ok ba2"
    using D w a by (auto simp: ba_ok_def ba2_def b_def)
  moreover have "flat ba2 = overwrite (flat ba @ xss) (m_position ba) buf"
    using w(4) a(3,4) by (simp add: ba2_def flat_def pos)
  ultimately show ?thesis using that[of ba2] a by (simp add: ba2_def)
qed

lemma ba_write_null:
  assumes ok: "ba_ok ba" and cap: "\<not> cap_ok ba (length buf)"
  shows "ba_write ba buf = Inl Null_deref"
proof -
  have n: "0 < length buf" using cap by (cases buf) (auto simp: cap_ok_def)
  obtain ba1 where a: "addCapacity ba (length buf) = Inr ba1" "ba_ok ba1"
     "m_position ba1 = m_position ba" "\<not> m_position ba + length buf \<le> m_capacity ba1"
    using addCapacity_ok[OF ok, of "length buf"] cap by auto
  define b where "b = m_baseSize ba1"
  note D = ba_okD[OF a(2), folded b_def]
  define np where "np = m_position ba1 mod b"
  show ?thesis
  proof (cases "m_cur ba1")
    case None
    then show ?thesis using n a(1) D(1) by (simp add: ba_write_def b_def)
  next
    case (Some i)
    note ip = node_at_split[OF trans[OF D(8)[symmetric] Some] D(1)]
    have len: "length (m_nodes ba1 ! i) = b" using D(3) ip(1) by (rule blocks_nth)
    have "write_loop (m_nodes ba1) (Some i) (m_position ba1) buf 0 (length buf) np (b - np) = Inl Null_deref"
      using write_loop_null[OF D(1,3) ip(1,3)] ip(2) a(3,4) D(4) by (simp add: np_def)
    then show ?thesis using n a(1) D(1) Some len ip(3) by (simp add: ba_write_def b_def np_def)
  qed
qed

lemma ba_read_short: "ba_ok ba \<Longrightarrow> getReadSize ba < n \<Longrightarrow> ba_read ba n = Inl not_enough"
  by (simp add: ba_read_def read_from_def)

lemma read_from_ok:
  assumes ok: "ba_ok ba" and n: "0 < n" "n \<le> getReadSize ba"
  shows "read_from ba n (m_position ba) =
     Inr (node_at (m_baseSize ba) (length (m_nodes ba)) (m_position ba + n), m_position ba + n,
          take n (readable ba))"
proof -
  define b where "b = m_baseSize ba"
  note D = ba_okD[OF ok, folded b_def]
  define np where "np = m_position ba mod b"
  have rs: "n \<le> m_size ba - m_position ba" using n getReadSize_ok[OF ok] by simp
  then have "m_position ba < b * length (m_nodes ba)" using n D(4,6) by simp
  then obtain i where i: "m_cur ba = Some i" "node_at b (length (m_nodes ba)) (m_position ba) = Some i"
    using D(8) by (auto simp: node_at_def)
  note ip = node_at_split[OF i(2) D(1)]
  have len: "length (m_nodes ba ! i) = b" using D(3) ip(1) by (rule blocks_nth)
  have pos: "i * b + np = m_position ba" using ip(2) by (simp add: np_def)
  have "i * b + np + n \<le> b * length (m_nodes ba)" using rs n D(4,6) by (simp add: pos)
  then have "read_loop (m_nodes ba) (Some i) (m_position ba) n np (b - np) [] =
     Inr (node_at b (length (m_nodes ba)) (m_position ba + n), m_position ba + n,
          take n (drop (m_position ba) (flat ba)))"
    using read_loop_ok[OF D(1,3) ip(1), of np n "m_position ba" "[]"] ip(3) n pos
    by (simp add: np_def flat_def)
  moreover have "take n (readable ba) = take n (drop (m_position ba) (flat ba))"
    using rs by (simp add: readable_def)
  ultimately show ?thesis
    using n D(1) i(1) len ip(3) by (simp add: read_from_def b_def np_def)
qed

lemma ba_read_ok:
  assumes ok: "ba_ok ba" and n: "0 < n" "n \<le> getReadSize ba"
  obtains ba' where "ba_read ba n = Inr (take n (readable ba), ba')" "ba_ok ba'"
    "m_position ba' = m_position ba + n" "m_size ba' = m_size ba" "flat ba' = flat ba"
    "m_endian ba' = m_endian ba" "m_baseSize ba' = m_baseSize ba" "m_capacity ba' = m_capacity ba"
proof -
  define ba2 where "ba2 = ba\<lparr>m_cur := node_at (m_baseSize ba) (length (m_nodes ba)) (m_position ba + n),
      m_position := m_position ba + n\<rparr>"
  have "ba_read ba n = Inr (take n (readable ba), ba2)"
    using read_from_ok[OF assms] by (simp add: ba_read_def ba2_def)
  moreover have "ba_ok ba2"
    using ba_okD[OF ok] n getReadSize_ok[OF ok] by (simp add: ba_ok_def ba2_def)
  ultimately show ?thesis using that[of ba2] by (simp add: ba2_def flat_def)
qed

lemma setPosition_ok:
  assumes ok: "ba_ok ba" and v: "v \<le> m_capacity ba"
  obtains ba' where "setPosition ba v = Inr ba'" "ba_ok ba'" "m_position ba' = v"
    "m_size ba' = max (m_size ba) v" "flat ba' = flat ba" "m_endian ba' = m_endian ba"
    "m_baseSize ba' = m_baseSize ba" "m_capacity ba' = m_capacity ba"
proof -
  define b where "b = m_baseSize ba"
  note D = ba_okD[OF ok, folded b_def]
  obtain k w where kw: "seek_loop (m_nodes ba) (Some 0) v = Inr (Some k, w)" "k < length (m_nodes ba)"
      "w \<le> b" "v = k * b + w"
    using seek_loop_ok[OF D(1,3), of 0 v] D(2,4) v by auto
  have len: "length (m_nodes ba ! k) = b" using D(3) kw(2) by (rule blocks_nth)
  have cur: "node_at b (length (m_nodes ba)) v = (if w = b then node_next (m_nodes ba) k else Some k)"
    using node_at_step[OF D(1) kw(2), of 0 w] D(1) kw(3,4) by auto
  define ba2 where "ba2 = ba\<lparr>m_position := v, m_size := max (m_size ba) v,
     m_cur := node_at b (length (m_nodes ba)) v\<rparr>"
  have "setPosition ba v = Inr ba2"
    using v kw(1) len by (simp add: setPosition_def Let_def ba2_def cur max_def)
  moreover have "ba_ok ba2" using D v by (simp add: ba_ok_def ba2_def b_def)
  ultimately show ?thesis using that[of ba2] by (simp add: ba2_def flat_def)
qed

lemma setPosition_error:
  "m_capacity ba < v \<Longrightarrow> setPosition ba v = Inl (Out_of_range ''set_position out of range'')"
  by (simp add: setPosition_def)

lemma toString_ok: "ba_ok ba \<Longrightarrow> toString ba = Inr (readable ba)"
proof -
  assume ok: "ba_ok ba"
  show ?thesis
  proof (cases "getReadSize ba = 0")
    case True
    then show ?thesis using length_readable[OF ok] by (simp add: toString_def)
  next
    case False
    then show ?thesis using read_from_ok[OF ok, of "getReadSize ba"] length_readable[OF ok]
      by (simp add: toString_def read_at_def)
  qed
qed

end
