(* ===== verification/Byte_Codec.thy ===== *)
theory Byte_Codec
  imports Byte_Array
begin

text \<open>
  The typed layer of \<^verbatim>\<open>captain::ByteArray\<close>: fixed-width integers in the array's byte order,
  zigzag and base-128 variable-length integers, floating point numbers (by their object
  representation) and length-prefixed strings.  Signed integers are words read in two's complement.

  What the readers need of the array is the interface \<open>byte_source\<close> (a reader that hands out
  pending bytes in order) and its extension \<open>typed_source\<close> (which has a byte order); the decoding
  lemmas are proved once inside it and the array is shown to be an instance.  What the writers
  leave behind is the relation \<open>wrote\<close>.  Together they give the round trips.
\<close>

unbundle bit_operations_syntax

subsection \<open>Zigzag and base-128 coding\<close>

text \<open>
  The source computes \<^verbatim>\<open>-v\<close> and \<^verbatim>\<open>v * 2\<close> in signed arithmetic, which overflows at the ends of the
  range; the model takes the wrap-around of two's complement, as the compiled code does.
\<close>

definition EncodeZigzag :: "'a::len word \<Rightarrow> 'a word" where
  "EncodeZigzag v = (if sint v < 0 then (- v) * 2 - 1 else v * 2)"

definition DecodeZigzag :: "'a::len word \<Rightarrow> 'a word" where
  "DecodeZigzag v = drop_bit 1 v XOR (- (v AND 1))"

lemma unat_drop_bit_7: "unat (drop_bit 7 v) = unat v div 128" for v :: "'a::len word"
proof -
  have "unat (drop_bit 7 v) = drop_bit 7 (unat v)" by (rule unat_drop_bit_eq)
  also have "\<dots> = unat v div 2 ^ 7" by (rule drop_bit_eq_div)
  finally show ?thesis by simp
qed

text \<open>The bytes collected in \<^verbatim>\<open>tmp\<close> by the loop of \<open>writeUint32\<close> and \<open>writeUint64\<close>.\<close>

function varint_bytes :: "'a::len word \<Rightarrow> byte list" where
  "varint_bytes v =
     (if unat v \<ge> 0x80 then (ucast (v AND 0x7F) OR 0x80) # varint_bytes (drop_bit 7 v)
      else [ucast v])"
  by pat_completeness auto
termination
proof (relation "measure unat")
  fix v :: "'a word" assume "128 \<le> unat v"
  then have "unat (drop_bit 7 v) < unat v" unfolding unat_drop_bit_7 by simp
  then show "(drop_bit 7 v, v) \<in> measure unat" by (simp only: in_measure)
qed simp

function read_varint :: "('s \<Rightarrow> (byte \<times> 's) result) \<Rightarrow> 's \<Rightarrow> nat \<Rightarrow> 'a::len word \<Rightarrow> ('a word \<times> 's) result" where
  "read_varint rd1 s i res =
     (if i < LENGTH('a) then
        rbind (rd1 s) (\<lambda>(b, s').
          if b < 0x80 then Inr (res OR push_bit i (ucast b), s')
          else read_varint rd1 s' (i + 7) (res OR push_bit i (ucast (b AND 0x7f))))
      else Inr (res, s))"
  by pat_completeness auto
termination
  by (relation "measure (\<lambda>(_, _, i, res). size res - i)") (auto simp: word_size)

declare varint_bytes.simps [simp del] read_varint.simps [simp del]

subsection \<open>The writers\<close>

definition writeF8 :: "bytearray \<Rightarrow> byte \<Rightarrow> bytearray result" where
  "writeF8 ba v = ba_write ba [v]"

definition writeF :: "endian \<Rightarrow> bytearray \<Rightarrow> 'a::len word \<Rightarrow> bytearray result" where
  "writeF bo ba v =
     (let v' = (if m_endian ba \<noteq> bo then byteswap v else v) in ba_write ba (mem_bytes bo v'))"

definition writeFint16 :: "endian \<Rightarrow> bytearray \<Rightarrow> 16 word \<Rightarrow> bytearray result" where
  "writeFint16 = writeF"

definition writeFuint16 :: "endian \<Rightarrow> bytearray \<Rightarrow> 16 word \<Rightarrow> bytearray result" where
  "writeFuint16 = writeF"

definition writeFint32 :: "endian \<Rightarrow> bytearray \<Rightarrow> 32 word \<Rightarrow> bytearray result" where
  "writeFint32 = writeF"

definition writeFuint32 :: "endian \<Rightarrow> bytearray \<Rightarrow> 32 word \<Rightarrow> bytearray result" where
  "writeFuint32 = writeF"

definition writeFint64 :: "endian \<Rightarrow> bytearray \<Rightarrow> 64 word \<Rightarrow> bytearray result" where
  "writeFint64 = writeF"

definition writeFuint64 :: "endian \<Rightarrow> bytearray \<Rightarrow> 64 word \<Rightarrow> bytearray result" where
  "writeFuint64 = writeF"

definition writeUint32 :: "bytearray \<Rightarrow> 32 word \<Rightarrow> bytearray result" where
  "writeUint32 ba v = ba_write ba (varint_bytes v)"

definition writeUint64 :: "bytearray \<Rightarrow> 64 word \<Rightarrow> bytearray result" where
  "writeUint64 ba v = ba_write ba (varint_bytes v)"

definition writeInt32 :: "bytearray \<Rightarrow> 32 word \<Rightarrow> bytearray result" where
  "writeInt32 ba v = writeUint32 ba (EncodeZigzag v)"

definition writeInt64 :: "bytearray \<Rightarrow> 64 word \<Rightarrow> bytearray result" where
  "writeInt64 ba v = writeUint64 ba (EncodeZigzag v)"

definition writeFloat :: "endian \<Rightarrow> bytearray \<Rightarrow> 32 word \<Rightarrow> bytearray result" where
  "writeFloat bo ba value_bits = writeFuint32 bo ba value_bits"

definition writeDouble :: "endian \<Rightarrow> bytearray \<Rightarrow> 64 word \<Rightarrow> bytearray result" where
  "writeDouble bo ba value_bits = writeFuint64 bo ba value_bits"

definition writeStringF16 :: "endian \<Rightarrow> bytearray \<Rightarrow> byte list \<Rightarrow> bytearray result" where
  "writeStringF16 bo ba str =
     rbind (writeFuint16 bo ba (of_nat (length str))) (\<lambda>ba. ba_write ba str)"

definition writeStringF32 :: "endian \<Rightarrow> bytearray \<Rightarrow> byte list \<Rightarrow> bytearray result" where
  "writeStringF32 bo ba str =
     rbind (writeFuint32 bo ba (of_nat (length str))) (\<lambda>ba. ba_write ba str)"

definition writeStringF64 :: "endian \<Rightarrow> bytearray \<Rightarrow> byte list \<Rightarrow> bytearray result" where
  "writeStringF64 bo ba str =
     rbind (writeFuint64 bo ba (of_nat (length str))) (\<lambda>ba. ba_write ba str)"

definition writeStringVint :: "bytearray \<Rightarrow> byte list \<Rightarrow> bytearray result" where
  "writeStringVint ba str =
     rbind (writeUint64 ba (of_nat (length str))) (\<lambda>ba. ba_write ba str)"

definition writeStringWithoutLength :: "bytearray \<Rightarrow> byte list \<Rightarrow> bytearray result" where
  "writeStringWithoutLength ba str = ba_write ba str"

subsection \<open>The readers\<close>

text \<open>
  The readers over any source \<open>rd\<close> of bytes with byte order \<open>en\<close>: \<open>read_byte\<close>, the macro
  \<^verbatim>\<open>XX\<close> as \<open>read_word\<close>, and a length-prefixed string as \<open>read_str\<close>.
\<close>

definition read_byte :: "('s \<Rightarrow> nat \<Rightarrow> (byte list \<times> 's) result) \<Rightarrow> 's \<Rightarrow> (byte \<times> 's) result" where
  "read_byte rd s = rbind (rd s 1) (\<lambda>(bs, s'). Inr (hd bs, s'))"

definition read_word :: "('s \<Rightarrow> nat \<Rightarrow> (byte list \<times> 's) result) \<Rightarrow> ('s \<Rightarrow> endian) \<Rightarrow> endian \<Rightarrow> 's
    \<Rightarrow> ('a::len word \<times> 's) result" where
  "read_word rd en bo s = rbind (rd s (LENGTH('a) div 8)) (\<lambda>(bs, s').
     let v = mem_word bo bs in Inr (if en s' = bo then v else byteswap v, s'))"

definition read_str :: "('s \<Rightarrow> nat \<Rightarrow> (byte list \<times> 's) result) \<Rightarrow> ('s \<Rightarrow> ('a::len word \<times> 's) result) \<Rightarrow> 's
    \<Rightarrow> (byte list \<times> 's) result" where
  "read_str rd rdlen s = rbind (rdlen s) (\<lambda>(len, s'). rd s' (unat len))"

definition readF8 :: "bytearray \<Rightarrow> (byte \<times> bytearray) result" where
  "readF8 = read_byte ba_read"

definition readFint16 :: "endian \<Rightarrow> bytearray \<Rightarrow> (16 word \<times> bytearray) result" where
  "readFint16 = read_word ba_read m_endian"

definition readFuint16 :: "endian \<Rightarrow> bytearray \<Rightarrow> (16 word \<times> bytearray) result" where
  "readFuint16 = read_word ba_read m_endian"

definition readFint32 :: "endian \<Rightarrow> bytearray \<Rightarrow> (32 word \<times> bytearray) result" where
  "readFint32 = read_word ba_read m_endian"

definition readFuint32 :: "endian \<Rightarrow> bytearray \<Rightarrow> (32 word \<times> bytearray) result" where
  "readFuint32 = read_word ba_read m_endian"

definition readFint64 :: "endian \<Rightarrow> bytearray \<Rightarrow> (64 word \<times> bytearray) result" where
  "readFint64 = read_word ba_read m_endian"

definition readFuint64 :: "endian \<Rightarrow> bytearray \<Rightarrow> (64 word \<times> bytearray) result" where
  "readFuint64 = read_word ba_read m_endian"

definition readUint32 :: "bytearray \<Rightarrow> (32 word \<times> bytearray) result" where
  "readUint32 ba = read_varint readF8 ba 0 0"

definition readUint64 :: "bytearray \<Rightarrow> (64 word \<times> bytearray) result" where
  "readUint64 ba = read_varint readF8 ba 0 0"

definition readInt32 :: "bytearray \<Rightarrow> (32 word \<times> bytearray) result" where
  "readInt32 ba = rbind (readUint32 ba) (\<lambda>(v, ba). Inr (DecodeZigzag v, ba))"

definition readInt64 :: "bytearray \<Rightarrow> (64 word \<times> bytearray) result" where
  "readInt64 ba = rbind (readUint64 ba) (\<lambda>(v, ba). Inr (DecodeZigzag v, ba))"

definition readFloat :: "endian \<Rightarrow> bytearray \<Rightarrow> (32 word \<times> bytearray) result" where
  "readFloat bo ba = readFuint32 bo ba"

definition readDouble :: "endian \<Rightarrow> bytearray \<Rightarrow> (64 word \<times> bytearray) result" where
  "readDouble bo ba = readFuint64 bo ba"

definition readStringF16 :: "endian \<Rightarrow> bytearray \<Rightarrow> (byte list \<times> bytearray) result" where
  "readStringF16 bo = read_str ba_read (readFuint16 bo)"

definition readStringF32 :: "endian \<Rightarrow> bytearray \<Rightarrow> (byte list \<times> bytearray) result" where
  "readStringF32 bo = read_str ba_read (readFuint32 bo)"

definition readStringF64 :: "endian \<Rightarrow> bytearray \<Rightarrow> (byte list \<times> bytearray) result" where
  "readStringF64 bo = read_str ba_read (readFuint64 bo)"

definition readStringVint :: "bytearray \<Rightarrow> (byte list \<times> bytearray) result" where
  "readStringVint = read_str ba_read readUint64"

subsection \<open>Properties of the codings\<close>

lemma sint_neg_iff_bit: "sint (v :: 'a::len word) < 0 \<longleftrightarrow> bit v (LENGTH('a) - 1)"
  using bit_last_iff[of v] by simp

lemma bit_double_Suc: "bit (v * 2) (Suc n) \<longleftrightarrow> Suc n < LENGTH('a) \<and> bit v n" for v :: "'a::len word"
proof -
  have "v * 2 = push_bit 1 v" by simp
  then show ?thesis by (simp only: bit_push_bit_iff) simp
qed

lemma minus_and_one: "- (v AND 1) = (if bit v 0 then - 1 else 0)" for v :: "'a::len word"
  by (simp add: and_one_eq bit_0 mod_2_eq_odd)

lemma EncodeZigzag_neg: "(- v) * 2 - 1 = NOT (push_bit 1 v)" for v :: "'a::len word"
  by (simp add: not_eq_complement)

lemma DecodeZigzag_EncodeZigzag: "DecodeZigzag (EncodeZigzag v) = (v :: 'a::len word)"
proof (cases "sint v < 0")
  case True
  then have top: "bit v (LENGTH('a) - 1)" by (simp add: sint_neg_iff_bit)
  have "bit (NOT (push_bit 1 v)) 0" by (simp add: bit_simps bit_0)
  then have "DecodeZigzag (EncodeZigzag v) = drop_bit 1 (NOT (push_bit 1 v)) XOR - 1"
    using True by (simp only: DecodeZigzag_def EncodeZigzag_def EncodeZigzag_neg minus_and_one if_True)
  also have "\<dots> = v"
  proof (rule bit_word_eqI)
    fix n assume "n < LENGTH('a)"
    then show "bit (drop_bit 1 (NOT (push_bit 1 v)) XOR - 1) n \<longleftrightarrow> bit v n"
      using top by (cases "n = LENGTH('a) - 1") (auto simp: bit_simps bit_double_Suc)
  qed
  finally show ?thesis .
next
  case False
  then have top: "\<not> bit v (LENGTH('a) - 1)" by (simp add: sint_neg_iff_bit)
  have e: "v * 2 = push_bit 1 v" by simp
  have "\<not> bit (push_bit 1 v) 0" by (simp only: bit_push_bit_iff) simp
  then have "DecodeZigzag (EncodeZigzag v) = drop_bit 1 (push_bit 1 v) XOR 0"
    using False by (simp only: DecodeZigzag_def EncodeZigzag_def e minus_and_one if_False)
  also have "\<dots> = v"
  proof (rule bit_word_eqI)
    fix n assume "n < LENGTH('a)"
    then show "bit (drop_bit 1 (push_bit 1 v) XOR 0) n \<longleftrightarrow> bit v n"
      using top by (cases "n = LENGTH('a) - 1") (auto simp: bit_simps bit_double_Suc)
  qed
  finally show ?thesis .
qed

lemma varint_bytes_nonempty [simp]: "varint_bytes v \<noteq> []"
  by (subst varint_bytes.simps) simp

lemma length_varint_bytes: "unat v < 2 ^ (7 * k) \<Longrightarrow> 0 < k \<Longrightarrow> length (varint_bytes v) \<le> k"
proof (induction k arbitrary: v)
  case (Suc k)
  show ?case
  proof (cases "unat v \<ge> 0x80")
    case True
    then have "0 < k" using Suc.prems by (cases k) auto
    have "unat (drop_bit 7 v) < 2 ^ (7 * k)"
      unfolding unat_drop_bit_7 using Suc.prems(1) by (simp add: power_add less_mult_imp_div_less)
    then show ?thesis using True Suc.IH[OF _ \<open>0 < k\<close>] by (subst varint_bytes.simps) simp
  next
    case False
    then show ?thesis by (subst varint_bytes.simps) simp
  qed
qed simp

subsection \<open>Decoding what was encoded\<close>

lemma take_or_push_drop: "take_bit i v OR push_bit i (drop_bit i v) = v" for v :: "'a::len word"
proof (rule bit_word_eqI)
  fix n assume "n < LENGTH('a)"
  then show "bit (take_bit i v OR push_bit i (drop_bit i v)) n \<longleftrightarrow> bit v n"
    by (cases "n < i") (simp_all add: bit_simps)
qed

lemma take_or_push_chunk:
  "take_bit i v OR push_bit i (drop_bit i v AND 0x7F) = take_bit (i + 7) v" for v :: "'a::len word"
proof -
  have m: "(0x7F :: 'a word) = mask 7" by (simp add: mask_eq_exp_minus_1)
  show ?thesis unfolding m by (intro bit_word_eqI) (auto simp: bit_simps not_less)
qed

lemma varint_tail_byte:
  fixes w :: "'a::len word"
  assumes "unat w < 0x80"
  shows "ucast w < (0x80 :: byte)" "ucast (ucast w :: byte) = w"
proof -
  have u: "unat (ucast w :: byte) = unat w" using assms by (simp add: unsigned_ucast_eq take_bit_nat_eq_self)
  then show "ucast w < (0x80 :: byte)" using assms by (simp add: word_less_nat_alt)
  have "unat (ucast (ucast w :: byte) :: 'a word) = unat w"
    by (metis u unsigned_ucast_eq take_bit_of_nat unsigned_take_bit_eq take_bit_length_eq of_nat_id)
  then show "ucast (ucast w :: byte) = w" by (rule unsigned_word_eqI)
qed

lemma varint_cont_byte:
  fixes w :: "'a::len word"
  defines "b \<equiv> (ucast (w AND 0x7F) OR 0x80 :: byte)"
  shows "\<not> b < 0x80" "ucast (b AND 0x7F) = w AND 0x7F"
proof -
  have m: "(0x7F :: 'a word) = mask 7" "(0x7F :: byte) = mask 7" "(0x80 :: byte) = push_bit 7 1"
    by (simp_all add: mask_eq_exp_minus_1)
  have top: "bit (0x80 :: byte) n \<longleftrightarrow> n = 7" for n
    unfolding m(3) by (simp only: bit_push_bit_iff bit_1_iff) auto
  have "bit b 7" unfolding b_def by (simp add: bit_simps top)
  then have "bit (unat b) 7" by (simp add: bit_unsigned_iff)
  then have "odd (unat b div 2 ^ 7)" by (rule bit_iff_odd[THEN iffD1])
  then have "\<not> unat b < 2 ^ 7" by (metis div_less even_zero)
  then have "\<not> unat b < 128" by simp
  then show "\<not> b < 0x80" by (simp add: word_less_nat_alt)
  show "ucast (b AND 0x7F) = w AND 0x7F"
    unfolding b_def m(1,2) 
    by (rule bit_word_eqI) (simp only: bit_and_iff bit_or_iff bit_unsigned_iff bit_mask_iff top, auto)
qed

subsection \<open>What a reader relies on\<close>

text \<open>
  A source of bytes: a request for at least one and at most the pending number of bytes hands
  them out in order; a request for more fails with \<open>not_enough\<close>.  (A request for no bytes is not
  covered: the code dereferences the cursor before it looks at the size.)
\<close>

locale byte_source =
  fixes inv :: "'s \<Rightarrow> bool" and pend :: "'s \<Rightarrow> byte list"
    and rd :: "'s \<Rightarrow> nat \<Rightarrow> (byte list \<times> 's) result"
  assumes rd_ok: "inv s \<Longrightarrow> 0 < n \<Longrightarrow> n \<le> length (pend s) \<Longrightarrow>
      \<exists>s'. rd s n = Inr (take n (pend s), s') \<and> inv s' \<and> pend s' = drop n (pend s)"
    and rd_short: "inv s \<Longrightarrow> length (pend s) < n \<Longrightarrow> rd s n = Inl not_enough"
begin

lemma rd_prefix:
  "inv s \<Longrightarrow> pend s = bs @ rest \<Longrightarrow> bs \<noteq> [] \<Longrightarrow>
   \<exists>s'. rd s (length bs) = Inr (bs, s') \<and> inv s' \<and> pend s' = rest"
  using rd_ok[of s "length bs"] by auto

lemma read_byte_Cons:
  "inv s \<Longrightarrow> pend s = b # rest \<Longrightarrow>
   \<exists>s'. read_byte rd s = Inr (b, s') \<and> inv s' \<and> pend s' = rest"
  using rd_prefix[of s "[b]" rest] by (auto simp: read_byte_def)

lemma read_byte_Nil: "inv s \<Longrightarrow> pend s = [] \<Longrightarrow> read_byte rd s = Inl not_enough"
  by (simp add: read_byte_def rd_short)

lemma read_varint_decode:
  fixes v :: "'a::len word"
  assumes "inv s" "pend s = varint_bytes (drop_bit i v) @ rest" "i < LENGTH('a)"
  shows "\<exists>s'. read_varint (read_byte rd) s i (take_bit i v) = Inr (v, s') \<and> inv s' \<and> pend s' = rest"
  using assms
proof (induction "LENGTH('a) - i" arbitrary: i s rule: less_induct)
  case less
  define w where "w = drop_bit i v"
  show ?case
  proof (cases "unat w \<ge> 0x80")
    case False
    then have "pend s = ucast w # rest"
      using less.prems(2) by (simp add: w_def varint_bytes.simps[of "drop_bit i v"])
    then obtain s' where s': "read_byte rd s = Inr (ucast w, s')" "inv s'" "pend s' = rest"
      using read_byte_Cons[OF less.prems(1)] by blast
    then show ?thesis
      using False less.prems(3) varint_tail_byte[of w]
      by (simp add: read_varint.simps[of _ s] w_def take_or_push_drop)
  next
    case True
    define b where "b = (ucast (w AND 0x7F) OR 0x80 :: byte)"
    have w7: "drop_bit 7 w = drop_bit (i + 7) v" by (simp add: w_def add.commute drop_bit_drop_bit)
    have "pend s = b # varint_bytes (drop_bit (i + 7) v) @ rest"
      using True less.prems(2) by (simp add: b_def varint_bytes.simps[of w] flip: w_def w7)
    then obtain s' where s': "read_byte rd s = Inr (b, s')" "inv s'"
        "pend s' = varint_bytes (drop_bit (i + 7) v) @ rest"
      using read_byte_Cons[OF less.prems(1)] by blast
    have i7: "i + 7 < LENGTH('a)"
    proof (rule ccontr)
      assume "\<not> i + 7 < LENGTH('a)"
      then have "drop_bit (i + 7) v = 0" by (intro bit_word_eqI) (auto simp: bit_simps dest: bit_imp_le_length)
      then have "unat w div 128 = 0" using w7 unat_drop_bit_7[of w] by simp
      then show False using True by simp
    qed
    have step: "read_varint (read_byte rd) s i (take_bit i v) =
        read_varint (read_byte rd) s' (i + 7) (take_bit (i + 7) v)"
      using s'(1) less.prems(3) varint_cont_byte[of w] take_or_push_chunk[of i v]
      by (simp add: read_varint.simps[of _ s] w_def b_def)
    show ?thesis unfolding step using less.hyps[OF _ s'(2,3) i7] i7 by simp
  qed
qed

lemma read_varint_varint_bytes:
  fixes v :: "'a::len word"
  assumes "inv s" "pend s = varint_bytes v @ rest"
  shows "\<exists>s'. read_varint (read_byte rd) s 0 0 = Inr (v, s') \<and> inv s' \<and> pend s' = rest"
  using read_varint_decode[of s 0 v rest] assms by simp

lemma read_str_decode:
  assumes "inv s" "\<exists>s'. rdlen s = Inr (of_nat (length str) :: 'a::len word, s') \<and> inv s' \<and> pend s' = str @ rest"
    and "str \<noteq> []" "length str < 2 ^ LENGTH('a)"
  shows "\<exists>s'. read_str rd rdlen s = Inr (str, s') \<and> inv s' \<and> pend s' = rest"
proof -
  have "unat (of_nat (length str) :: 'a word) = length str"
    using assms(4) by (simp add: unsigned_of_nat take_bit_nat_eq_self)
  then show ?thesis using assms rd_prefix by (fastforce simp: read_str_def)
qed

end

text \<open>A source that also has a byte order, which reading leaves alone.\<close>

locale typed_source = byte_source inv pend rd
  for inv :: "'s \<Rightarrow> bool" and pend rd +
  fixes en :: "'s \<Rightarrow> endian"
  assumes rd_en: "inv s \<Longrightarrow> rd s n = Inr (bs, s') \<Longrightarrow> en s' = en s"
begin

lemma read_word_decode:
  fixes v :: "'a::len word"
  assumes "inv s" "pend s = mem_bytes (en s) v @ rest" "8 dvd LENGTH('a)"
  shows "\<exists>s'. read_word rd en bo s = Inr (v, s') \<and> inv s' \<and> pend s' = rest \<and> en s' = en s"
proof -
  have "mem_bytes (en s) v \<noteq> []"
    using assms(3) by (metis dvd_div_eq_0_iff length_0_conv length_mem_bytes len_gt_0 neq0_conv)
  then obtain s' where s': "rd s (LENGTH('a) div 8) = Inr (mem_bytes (en s) v, s')" "inv s'" "pend s' = rest"
    using rd_prefix[OF assms(1,2)] by auto
  have "en s' = en s" using rd_en[OF assms(1) s'(1)] .
  moreover have "mem_bytes (en s) v = (if en s = bo then mem_bytes bo v else mem_bytes bo (byteswap v))"
    using assms(3) by (cases "en s"; cases bo) (simp_all add: mem_bytes_def le_bytes_byteswap)
  ultimately show ?thesis using s' assms(3)
    by (simp add: read_word_def Let_def byteswap_byteswap)
qed

end

subsection \<open>The array as a source, and what a writer leaves behind\<close>

lemma ba_read_pend:
  assumes "ba_ok ba" "0 < n" "n \<le> length (readable ba)"
  shows "\<exists>ba'. ba_read ba n = Inr (take n (readable ba), ba') \<and> ba_ok ba' \<and>
     readable ba' = drop n (readable ba) \<and> m_endian ba' = m_endian ba"
proof -
  obtain ba' where *: "ba_read ba n = Inr (take n (readable ba), ba')" "ba_ok ba'"
    "m_position ba' = m_position ba + n" "m_size ba' = m_size ba" "flat ba' = flat ba"
    "m_endian ba' = m_endian ba"
    using ba_read_ok[OF assms(1,2)] assms(3) length_readable[OF assms(1)] by metis
  moreover have "readable ba' = drop n (readable ba)"
    using * by (simp add: readable_def drop_take add.commute)
  ultimately show ?thesis by blast
qed

lemma ba_read_endian: "ba_read ba n = Inr (bs, ba') \<Longrightarrow> m_endian ba' = m_endian ba"
  by (auto simp: ba_read_def rbind_eq_Inr_iff)

interpretation ba: typed_source ba_ok readable ba_read m_endian
proof unfold_locales
  fix ba :: bytearray and n assume ok: "ba_ok ba"
  show "\<exists>ba'. ba_read ba n = Inr (take n (readable ba), ba') \<and> ba_ok ba' \<and> readable ba' = drop n (readable ba)"
    if "0 < n" "n \<le> length (readable ba)"
    using ba_read_pend[OF ok that] by blast
  show "ba_read ba n = Inl not_enough" if "length (readable ba) < n"
    using ba_read_short[OF ok] that length_readable[OF ok] by simp
  show "m_endian ba' = m_endian ba" if "ba_read ba n = Inr (bs, ba')" for bs ba'
    using that by (rule ba_read_endian)
qed

definition wrote :: "bytearray \<Rightarrow> byte list \<Rightarrow> bytearray \<Rightarrow> bool" where
  "wrote ba bs ba' \<longleftrightarrow> ba_ok ba' \<and> m_position ba' = m_position ba + length bs \<and>
     content ba' = overwrite (content ba) (m_position ba) bs \<and>
     m_size ba' = max (m_size ba) (m_position ba + length bs) \<and>
     m_endian ba' = m_endian ba \<and> m_baseSize ba' = m_baseSize ba"

lemma wroteD:
  assumes "wrote ba bs ba'"
  shows "ba_ok ba'" "m_position ba' = m_position ba + length bs"
     "content ba' = overwrite (content ba) (m_position ba) bs"
     "m_size ba' = max (m_size ba) (m_position ba + length bs)"
     "m_endian ba' = m_endian ba" "m_baseSize ba' = m_baseSize ba"
  using assms by (auto simp: wrote_def)

lemma length_content [simp]: "ba_ok ba \<Longrightarrow> length (content ba) = m_size ba"
  by (simp add: content_def ba_ok_def min_absorb2)

lemma readable_content: "ba_ok ba \<Longrightarrow> readable ba = drop (m_position ba) (content ba)"
  by (simp add: readable_def content_def drop_take)

lemma ba_write_wrote:
  assumes ok: "ba_ok ba" and cap: "cap_ok ba (length buf)"
  shows "\<exists>ba'. ba_write ba buf = Inr ba' \<and> wrote ba buf ba'"
proof (cases "buf = []")
  case True
  then show ?thesis using ok ba_okD(5)[OF ok] by (simp add: wrote_def)
next
  case False
  then obtain ba' xss where *: "ba_write ba buf = Inr ba'" "ba_ok ba'"
    "m_position ba' = m_position ba + length buf"
    "m_size ba' = max (m_size ba) (m_position ba + length buf)"
    "flat ba' = overwrite (flat ba @ xss) (m_position ba) buf"
    "m_endian ba' = m_endian ba" "m_baseSize ba' = m_baseSize ba"
    using ba_write_ok[OF ok _ cap] by metis
  note D = ba_okD[OF ok]
  have "content ba' = overwrite (content ba) (m_position ba) buf"
    using D(5,6,7) ok *(4,5) by (simp add: content_def take_max_overwrite)
  then show ?thesis using * by (auto simp: wrote_def)
qed

lemma wrote_trans:
  assumes ok: "ba_ok ba" and w: "wrote ba xs ba1" "wrote ba1 ys ba2"
  shows "wrote ba (xs @ ys) ba2"
proof -
  have "m_position ba \<le> length (content ba)" using ok ba_okD(5)[OF ok] by simp
  then have "overwrite (overwrite (content ba) (m_position ba) xs) (m_position ba + length xs) ys =
     overwrite (content ba) (m_position ba) (xs @ ys)"
    by (simp add: overwrite_def ac_simps)
  then show ?thesis using wroteD[OF w(1)] wroteD[OF w(2)]
    by (auto simp: wrote_def)
qed

text \<open>Going back to where the writing began makes the written bytes the next ones to be read.\<close>

lemma wrote_rewind:
  assumes ok: "ba_ok ba" and w: "wrote ba bs ba1"
  shows "\<exists>ba2. setPosition ba1 (m_position ba) = Inr ba2 \<and> ba_ok ba2 \<and> m_endian ba2 = m_endian ba \<and>
     readable ba2 = bs @ drop (length bs) (readable ba)"
proof -
  note W = wroteD[OF w]
  note D = ba_okD[OF ok] and D1 = ba_okD[OF W(1)]
  have "m_position ba \<le> m_capacity ba1" using W(4) D1(6) by simp
  then obtain ba2 where s: "setPosition ba1 (m_position ba) = Inr ba2" "ba_ok ba2"
    "m_position ba2 = m_position ba" "m_size ba2 = max (m_size ba1) (m_position ba)" "flat ba2 = flat ba1"
    "m_endian ba2 = m_endian ba1"
    using setPosition_ok[OF W(1)] by metis
  have "m_size ba2 = m_size ba1" using s(4) W(4) D(5) by simp
  then have "content ba2 = overwrite (content ba) (m_position ba) bs" using s(5) W(3) by (simp add: content_def)
  then have "readable ba2 = bs @ drop (length bs) (readable ba)"
    using s(2,3) ok D(5) by (simp add: readable_content overwrite_def add.commute)
  then show ?thesis using s W(5) by auto
qed

subsection \<open>Round trips\<close>

text \<open>
  \<open>reads_back ba ba1 rd v\<close>: moving the cursor of \<open>ba1\<close> back to where it stood in \<open>ba\<close> and reading
  with \<open>rd\<close> yields \<open>v\<close> and leaves exactly the bytes unread that \<open>ba1\<close> has.
\<close>

definition reads_back :: "bytearray \<Rightarrow> bytearray \<Rightarrow> (bytearray \<Rightarrow> ('v \<times> bytearray) result) \<Rightarrow> 'v \<Rightarrow> bool" where
  "reads_back ba ba1 rd v \<longleftrightarrow> (\<exists>ba2 ba3. setPosition ba1 (m_position ba) = Inr ba2 \<and>
     rd ba2 = Inr (v, ba3) \<and> ba_ok ba3 \<and> readable ba3 = readable ba1)"

lemma ba_write_InrD: "ba_ok ba \<Longrightarrow> ba_write ba bs = Inr ba' \<Longrightarrow> wrote ba bs ba'"
  using ba_write_null[of ba bs] ba_write_wrote[of ba bs] by (cases "cap_ok ba (length bs)") auto

lemma readable_wrote:
  "ba_ok ba \<Longrightarrow> wrote ba bs ba' \<Longrightarrow> readable ba' = drop (length bs) (readable ba)"
  using ba_okD(5)[of ba] by (auto simp: readable_content wrote_def overwrite_def add.commute)

lemma reads_backI:
  assumes ok: "ba_ok ba" and w: "wrote ba bs ba1"
    and rd: "\<And>ba2. ba_ok ba2 \<Longrightarrow> m_endian ba2 = m_endian ba \<Longrightarrow>
       readable ba2 = bs @ readable ba1 \<Longrightarrow>
       \<exists>ba3. rd ba2 = Inr (v, ba3) \<and> ba_ok ba3 \<and> readable ba3 = readable ba1"
  shows "reads_back ba ba1 rd v"
  using wrote_rewind[OF ok w] readable_wrote[OF ok w] rd unfolding reads_back_def by metis

lemma writeF_bytes: "8 dvd LENGTH('a) \<Longrightarrow> writeF bo ba v = ba_write ba (mem_bytes (m_endian ba) v)"
  for v :: "'a::len word"
  by (cases bo; cases "m_endian ba") (simp_all add: writeF_def mem_bytes_def le_bytes_byteswap)

lemma writeF_reads_back:
  fixes v :: "'a::len word"
  assumes ok: "ba_ok ba" and l: "8 dvd LENGTH('a)" and w: "writeF bo ba v = Inr ba1"
  shows "reads_back ba ba1 (read_word ba_read m_endian bo') v"
proof -
  have "wrote ba (mem_bytes (m_endian ba) v) ba1" using ba_write_InrD[OF ok] w writeF_bytes[OF l] by metis
  then show ?thesis
    by (rule reads_backI[OF ok]) (metis ba.read_word_decode[where v = v and bo = bo'] l)
qed

lemma varint_reads_back:
  fixes v :: "'a::len word"
  assumes ok: "ba_ok ba" and w: "ba_write ba (varint_bytes v) = Inr ba1"
  shows "reads_back ba ba1 (\<lambda>ba. read_varint readF8 ba 0 0) v"
  using ba.read_varint_varint_bytes[where v = v] ba_write_InrD[OF ok w]
  by (intro reads_backI[OF ok]) (auto simp: readF8_def)

lemma reads_back_map:
  "reads_back ba ba1 rd v \<Longrightarrow> reads_back ba ba1 (\<lambda>ba. rbind (rd ba) (\<lambda>(v, ba). Inr (f v, ba))) (f v)"
  unfolding reads_back_def by fastforce

lemma str_reads_back:
  assumes ok: "ba_ok ba" and w: "rbind (ba_write ba pre) (\<lambda>ba. ba_write ba str) = Inr ba1"
    and ne: "str \<noteq> []" "length str < 2 ^ LENGTH('a)"
    and dec: "\<And>ba2 rest. ba_ok ba2 \<Longrightarrow> m_endian ba2 = m_endian ba \<Longrightarrow> readable ba2 = pre @ rest \<Longrightarrow>
       \<exists>ba3. rdlen ba2 = Inr (of_nat (length str) :: 'a::len word, ba3) \<and> ba_ok ba3 \<and> readable ba3 = rest"
  shows "reads_back ba ba1 (read_str ba_read rdlen) str"
proof -
  obtain ba0 where b: "ba_write ba pre = Inr ba0" "ba_write ba0 str = Inr ba1"
    using w by (auto simp: rbind_eq_Inr_iff)
  have w0: "wrote ba pre ba0" using ba_write_InrD[OF ok b(1)] .
  have "wrote ba0 str ba1" using ba_write_InrD[OF wroteD(1)[OF w0] b(2)] .
  then have "wrote ba (pre @ str) ba1" using wrote_trans[OF ok w0] by blast
  then show ?thesis
  proof (rule reads_backI[OF ok])
    fix ba2 assume 2: "ba_ok ba2" "m_endian ba2 = m_endian ba" "readable ba2 = (pre @ str) @ readable ba1"
    show "\<exists>ba3. read_str ba_read rdlen ba2 = Inr (str, ba3) \<and> ba_ok ba3 \<and> readable ba3 = readable ba1"
      using dec[of ba2 "str @ readable ba1"] 2 ne by (intro ba.read_str_decode) simp_all
  qed
qed

subsection \<open>The typed operations: properties\<close>

text \<open>
  C1: Writing refines a write to one flat buffer.  For a well-formed array, \<open>ba_write\<close> of any
  buffer either returns an array whose content is the old content with the buffer written over it
  at the cursor (cursor, size, byte order and invariant as they should be), or runs off the end
  of the chain; it does the latter exactly when the rounding test of \<open>addCapacity\<close> drops a node.
\<close>

theorem write_refines_flat:
  assumes "ba_ok ba"
  shows "if cap_ok ba (length buf) then \<exists>ba'. ba_write ba buf = Inr ba' \<and> wrote ba buf ba'
         else ba_write ba buf = Inl Null_deref"
  using ba_write_wrote[OF assms] ba_write_null[OF assms] by simp

theorem write_refines_flat_witness:
  "(\<exists>ba'. ba_write (mk_ByteArray (\<lambda>_ _. 0) 4) [1, 2, 3] = Inr ba' \<and> wrote (mk_ByteArray (\<lambda>_ _. 0) 4) [1, 2, 3] ba')
   \<and> ba_write (mk_ByteArray (\<lambda>_ _. 0) 4) [1, 2, 3, 4, 5] = Inl Null_deref"
  using write_refines_flat[OF ba_ok_mk_ByteArray[of 4 "\<lambda>_ _. 0"], of "[1, 2, 3]"]
    write_refines_flat[OF ba_ok_mk_ByteArray[of 4 "\<lambda>_ _. 0"], of "[1, 2, 3, 4, 5]"]
  by (simp add: cap_ok_def mk_ByteArray_def)



text \<open>
  C21: Fixed-width integers round-trip, and the stored bytes depend on the array's byte order
  only: what a machine of byte order \<open>bo\<close> writes, a machine of any byte order \<open>bo'\<close> reads back,
  for all three widths.
\<close>

theorem fixed_int_roundtrip:
  assumes "ba_ok ba"
  shows "(\<forall>v ba1. writeFint16 bo ba v = Inr ba1 \<longrightarrow> reads_back ba ba1 (readFint16 bo') v) \<and>
         (\<forall>v ba1. writeFint32 bo ba v = Inr ba1 \<longrightarrow> reads_back ba ba1 (readFint32 bo') v) \<and>
         (\<forall>v ba1. writeFuint64 bo ba v = Inr ba1 \<longrightarrow> reads_back ba ba1 (readFuint64 bo') v)"
  using writeF_reads_back[OF assms, where 'a = 16] writeF_reads_back[OF assms, where 'a = 32]
    writeF_reads_back[OF assms, where 'a = 64]
  by (simp add: writeFint16_def readFint16_def writeFint32_def readFint32_def
        writeFuint64_def readFuint64_def)

text \<open>A writer that is known to return on a concrete array.\<close>

abbreviation ba8 :: bytearray where "ba8 \<equiv> mk_ByteArray (\<lambda>_ _. 0) 8"

lemma ba8_ok: "ba_ok ba8"
  by (simp add: ba_ok_mk_ByteArray)

lemma ba8_write: "length bs \<le> 8 \<Longrightarrow> \<exists>ba1. ba_write ba8 bs = Inr ba1"
  using ba_write_wrote[OF ba8_ok, of bs] by (auto simp: cap_ok_def mk_ByteArray_def)

theorem fixed_int_roundtrip_witness:
  "\<exists>ba1. writeFint32 CAPTAIN_LITTLE_ENDIAN ba8 0xDEADBEEF = Inr ba1 \<and>
     reads_back ba8 ba1 (readFint32 CAPTAIN_BIG_ENDIAN) 0xDEADBEEF"
proof -
  obtain ba1 where "writeFint32 CAPTAIN_LITTLE_ENDIAN ba8 0xDEADBEEF = Inr ba1"
    using ba8_write[of "mem_bytes (m_endian ba8) (0xDEADBEEF :: 32 word)"]
    by (auto simp: writeFint32_def writeF_bytes)
  then show ?thesis using fixed_int_roundtrip[OF ba8_ok] by blast
qed

text \<open>
  C20: Variable-length integers round-trip: the base-128 coding of the unsigned and the zigzag
  coding of the signed integers, at both widths, negative numbers and the extremes included.
\<close>

theorem varint_roundtrip:
  assumes "ba_ok ba"
  shows "(\<forall>v ba1. writeUint32 ba v = Inr ba1 \<longrightarrow> reads_back ba ba1 readUint32 v) \<and>
         (\<forall>v ba1. writeInt32 ba v = Inr ba1 \<longrightarrow> reads_back ba ba1 readInt32 v) \<and>
         (\<forall>v ba1. writeUint64 ba v = Inr ba1 \<longrightarrow> reads_back ba ba1 readUint64 v) \<and>
         (\<forall>v ba1. writeInt64 ba v = Inr ba1 \<longrightarrow> reads_back ba ba1 readInt64 v)"
proof -
  have u32: "writeUint32 ba v = Inr ba1 \<Longrightarrow> reads_back ba ba1 readUint32 v" for v ba1
    using varint_reads_back[OF assms, of v ba1] by (simp add: writeUint32_def readUint32_def[abs_def])
  have u64: "writeUint64 ba v = Inr ba1 \<Longrightarrow> reads_back ba ba1 readUint64 v" for v ba1
    using varint_reads_back[OF assms, of v ba1] by (simp add: writeUint64_def readUint64_def[abs_def])
  have "writeInt32 ba v = Inr ba1 \<Longrightarrow> reads_back ba ba1 readInt32 v" for v ba1
    using reads_back_map[OF u32, of "EncodeZigzag v" ba1 DecodeZigzag]
    by (simp add: writeInt32_def readInt32_def[abs_def] DecodeZigzag_EncodeZigzag)
  moreover have "writeInt64 ba v = Inr ba1 \<Longrightarrow> reads_back ba ba1 readInt64 v" for v ba1
    using reads_back_map[OF u64, of "EncodeZigzag v" ba1 DecodeZigzag]
    by (simp add: writeInt64_def readInt64_def[abs_def] DecodeZigzag_EncodeZigzag)
  ultimately show ?thesis using u32 u64 by blast
qed

lemma varint_length_bounds:
  "length (varint_bytes (v32 :: 32 word)) \<le> 5" "length (varint_bytes (v64 :: 64 word)) \<le> 10"
proof -
  have "unat v32 < 2 ^ 32" "unat v64 < 2 ^ 64"
    using unsigned_less[of v32, where 'a = nat] unsigned_less[of v64, where 'a = nat] by simp_all
  then show "length (varint_bytes v32) \<le> 5" "length (varint_bytes v64) \<le> 10"
    using length_varint_bytes[of v32 5] length_varint_bytes[of v64 10] by simp_all
qed

theorem varint_roundtrip_witness:
  "\<exists>ba1. writeInt32 ba8 (- 2147483648) = Inr ba1 \<and> reads_back ba8 ba1 readInt32 (- 2147483648)"
proof -
  obtain ba1 where "writeInt32 ba8 (- 2147483648) = Inr ba1"
    using ba8_write[of "varint_bytes (EncodeZigzag (- 2147483648 :: 32 word))"]
      varint_length_bounds(1)[of "EncodeZigzag (- 2147483648 :: 32 word)"]
    by (auto simp: writeInt32_def writeUint32_def)
  then show ?thesis using varint_roundtrip[OF ba8_ok] by blast
qed

text \<open>
  The scratch buffers \<^verbatim>\<open>tmp[5]\<close> and \<^verbatim>\<open>tmp[10]\<close> of \<open>writeUint32\<close> and \<open>writeUint64\<close> are
  never overrun: the coding of a 32-bit integer has at most 5 bytes, of a 64-bit integer at most 10,
  and at least one.
\<close>

theorem varint_tmp_bounds:
  "length (varint_bytes (v32 :: 32 word)) \<in> {1..5} \<and> length (varint_bytes (v64 :: 64 word)) \<in> {1..10}"
  using varint_length_bounds varint_bytes_nonempty[of v32] varint_bytes_nonempty[of v64]
  by (simp add: Suc_le_eq del: varint_bytes_nonempty)

lemma read_len_word:
  "8 dvd LENGTH('a) \<Longrightarrow> ba_ok ba2 \<Longrightarrow> m_endian ba2 = m_endian ba \<Longrightarrow>
   readable ba2 = mem_bytes (m_endian ba) (of_nat n :: 'a::len word) @ rest \<Longrightarrow>
   \<exists>ba3. read_word ba_read m_endian bo' ba2 = Inr (of_nat n :: 'a word, ba3) \<and> ba_ok ba3 \<and> readable ba3 = rest"
  using ba.read_word_decode[of ba2 "of_nat n :: 'a word" rest bo'] by auto

text \<open>
  Length-prefixed strings round-trip: a non-empty string comes back from each of the four
  formats, whichever byte orders the two machines have, as long as its length fits the prefix.
\<close>

theorem string_roundtrip:
  assumes "ba_ok ba" "str \<noteq> []" "length str < 2 ^ 64"
  shows "(\<forall>ba1. length str < 2 ^ 16 \<longrightarrow> writeStringF16 bo ba str = Inr ba1 \<longrightarrow>
            reads_back ba ba1 (readStringF16 bo') str) \<and>
         (\<forall>ba1. length str < 2 ^ 32 \<longrightarrow> writeStringF32 bo ba str = Inr ba1 \<longrightarrow>
            reads_back ba ba1 (readStringF32 bo') str) \<and>
         (\<forall>ba1. writeStringF64 bo ba str = Inr ba1 \<longrightarrow> reads_back ba ba1 (readStringF64 bo') str) \<and>
         (\<forall>ba1. writeStringVint ba str = Inr ba1 \<longrightarrow> reads_back ba ba1 readStringVint str)"
proof (intro conjI allI impI)
  note word = read_len_word[where ba = ba and bo' = bo' and n = "length str"]
  fix ba1
  show "reads_back ba ba1 (readStringF16 bo') str" if "length str < 2 ^ 16" "writeStringF16 bo ba str = Inr ba1"
    unfolding readStringF16_def using that assms(2) word[where 'a = 16]
    by (intro str_reads_back[OF assms(1), where pre = "mem_bytes (m_endian ba) (of_nat (length str) :: 16 word)"])
       (simp_all add: writeStringF16_def writeFuint16_def writeF_bytes readFuint16_def)
  show "reads_back ba ba1 (readStringF32 bo') str" if "length str < 2 ^ 32" "writeStringF32 bo ba str = Inr ba1"
    unfolding readStringF32_def using that assms(2) word[where 'a = 32]
    by (intro str_reads_back[OF assms(1), where pre = "mem_bytes (m_endian ba) (of_nat (length str) :: 32 word)"])
       (simp_all add: writeStringF32_def writeFuint32_def writeF_bytes readFuint32_def)
  show "reads_back ba ba1 (readStringF64 bo') str" if "writeStringF64 bo ba str = Inr ba1"
    unfolding readStringF64_def using that assms(2,3) word[where 'a = 64]
    by (intro str_reads_back[OF assms(1), where pre = "mem_bytes (m_endian ba) (of_nat (length str) :: 64 word)"])
       (simp_all add: writeStringF64_def writeFuint64_def writeF_bytes readFuint64_def)
  show "reads_back ba ba1 readStringVint str" if "writeStringVint ba str = Inr ba1"
    unfolding readStringVint_def using that assms(2,3) ba.read_varint_varint_bytes
    by (intro str_reads_back[OF assms(1), where pre = "varint_bytes (of_nat (length str) :: 64 word)"])
       (simp_all add: writeStringVint_def writeUint64_def readUint64_def readF8_def)
qed

theorem string_roundtrip_witness:
  "case writeStringF16 CAPTAIN_LITTLE_ENDIAN ba8 [104, 105] of Inl _ \<Rightarrow> False
   | Inr ba1 \<Rightarrow> reads_back ba8 ba1 (readStringF16 CAPTAIN_BIG_ENDIAN) [104, 105]"
proof -
  have "\<not> isl (writeStringF16 CAPTAIN_LITTLE_ENDIAN ba8 [104, 105])" by code_simp
  then show ?thesis
    using string_roundtrip[OF ba8_ok, of "[104, 105]" CAPTAIN_LITTLE_ENDIAN CAPTAIN_BIG_ENDIAN]
    by (auto split: sum.splits)
qed

end
