(* ===== verification/Byte_Buffers.thy ===== *)
theory Byte_Buffers
  imports Byte_Codec
begin

text \<open>
  The views of a \<^verbatim>\<open>ByteArray\<close> that other code moves bytes through: the scatter/gather vectors
  that \<open>SocketStream\<close> hands to the socket (\<open>getReadBuffers\<close>, \<open>getWriteBuffers\<close>), the file
  dump (\<open>writeToFile\<close>, \<open>readFromFile\<close>) and the hexadecimal print (\<open>toHexString\<close>).  An
  \<^verbatim>\<open>iovec\<close> is a node of the chain with an offset and a length.  Files are byte lists, and whether
  the stream could be opened is an argument.
\<close>

record iovec =
  iov_node :: nat
  iov_off :: nat
  iov_len :: nat

subsection \<open>Operations\<close>

text \<open>The loop that the three functions share.\<close>

function iov_loop :: "byte list list \<Rightarrow> nat \<Rightarrow> nat \<Rightarrow> nat \<Rightarrow> nat \<Rightarrow> iovec list \<Rightarrow> iovec list result" where
  "iov_loop nodes cur npos ncap len buffers =
     (if len = 0 then Inr buffers
      else if ncap \<ge> len then
        iov_loop nodes cur npos ncap 0 (buffers @ [\<lparr>iov_node = cur, iov_off = npos, iov_len = len\<rparr>])
      else case node_next nodes cur of
        None \<Rightarrow> Inl Null_deref
      | Some nxt \<Rightarrow> iov_loop nodes nxt 0 (length (nodes ! nxt)) (len - ncap)
          (buffers @ [\<lparr>iov_node = cur, iov_off = npos, iov_len = ncap\<rparr>]))"
  by pat_completeness auto
termination
  by (relation "measure (\<lambda>(nodes, cur, _, _, len, _). len + (length nodes - cur))")
     (auto simp: node_next_def split: if_splits)

declare iov_loop.simps [simp del]

definition getReadBuffers :: "bytearray \<Rightarrow> nat \<Rightarrow> (nat \<times> iovec list) result" where
  "getReadBuffers ba len =
     (let len = (if len > getReadSize ba then getReadSize ba else len) in
      if len = 0 then Inr (0, [])
      else if m_baseSize ba = 0 then Inl Div_by_zero
      else let npos = m_position ba mod m_baseSize ba in
        case m_cur ba of
          None \<Rightarrow> Inl Null_deref
        | Some cur \<Rightarrow> rbind (iov_loop (m_nodes ba) cur npos (size_sub (length (m_nodes ba ! cur)) npos) len [])
            (\<lambda>buffers. Inr (len, buffers)))"

text \<open>Following \<open>count\<close> links from the first node; a missing node is dereferenced on the next step.\<close>

definition getReadBuffers_at :: "bytearray \<Rightarrow> nat \<Rightarrow> nat \<Rightarrow> (nat \<times> iovec list) result" where
  "getReadBuffers_at ba len position =
     (let len = (if len > getReadSize ba then getReadSize ba else len) in
      if len = 0 then Inr (0, [])
      else if m_baseSize ba = 0 then Inl Div_by_zero
      else let npos = position mod m_baseSize ba; cur = position div m_baseSize ba in
        if cur < length (m_nodes ba)
        then rbind (iov_loop (m_nodes ba) cur npos (size_sub (length (m_nodes ba ! cur)) npos) len [])
               (\<lambda>buffers. Inr (len, buffers))
        else Inl Null_deref)"

definition getWriteBuffers :: "bytearray \<Rightarrow> nat \<Rightarrow> (nat \<times> iovec list \<times> bytearray) result" where
  "getWriteBuffers ba len =
     (if len = 0 then Inr (0, [], ba)
      else rbind (addCapacity ba len) (\<lambda>ba.
        if m_baseSize ba = 0 then Inl Div_by_zero
        else let npos = m_position ba mod m_baseSize ba in
          case m_cur ba of
            None \<Rightarrow> Inl Null_deref
          | Some cur \<Rightarrow> rbind (iov_loop (m_nodes ba) cur npos (size_sub (length (m_nodes ba ! cur)) npos) len [])
              (\<lambda>buffers. Inr (len, buffers, ba))))"

text \<open>
  The loop of \<open>writeToFile\<close> over the signed \<^verbatim>\<open>read_size\<close> and \<^verbatim>\<open>len\<close>; writing a negative
  number of bytes is \<open>Bad_length\<close>.
\<close>

function file_loop :: "byte list list \<Rightarrow> nat \<Rightarrow> nat option \<Rightarrow> nat \<Rightarrow> int \<Rightarrow> byte list \<Rightarrow> byte list result" where
  "file_loop nodes base cur pos read_size ofs =
     (if read_size \<le> 0 then Inr ofs
      else if base = 0 then Inl Div_by_zero
      else case cur of
        None \<Rightarrow> Inl Null_deref
      | Some i \<Rightarrow>
          let diff = pos mod base;
              len = (if read_size > int base then int base else read_size) - int diff
          in if len < 0 then Inl Bad_length
             else file_loop nodes base (node_next nodes i) (pos + nat len) (read_size - len)
                    (ofs @ take (nat len) (drop diff (nodes ! i))))"
  by pat_completeness auto
termination
  by (relation "measure (\<lambda>(nodes, _, cur, _, _, _). case cur of None \<Rightarrow> 0 | Some i \<Rightarrow> Suc (length nodes - i))")
     (auto simp: node_next_def split: if_splits)

declare file_loop.simps [simp del]

definition writeToFile :: "bool \<Rightarrow> bytearray \<Rightarrow> (bool \<times> byte list) result" where
  "writeToFile opened ba =
     (if \<not> opened then Inr (False, [])
      else rbind (file_loop (m_nodes ba) (m_baseSize ba) (m_cur ba) (m_position ba) (int (getReadSize ba)) [])
        (\<lambda>ofs. Inr (True, ofs)))"

text \<open>
  One turn reads up to \<open>m_baseSize\<close> bytes; the end-of-file flag is set by a read that asks for more
  than is left.  With a base size of 0 it is never set.
\<close>

function load_loop :: "nat \<Rightarrow> bytearray \<Rightarrow> byte list \<Rightarrow> bytearray result" where
  "load_loop base ba ifs =
     (if base = 0 then Inl Diverges
      else rbind (ba_write ba (take base ifs)) (\<lambda>ba.
        if length ifs < base then Inr ba else load_loop base ba (drop base ifs)))"
  by pat_completeness auto
termination
  by (relation "measure (\<lambda>(_, _, ifs). length ifs)") auto

declare load_loop.simps [simp del]

definition readFromFile :: "byte list option \<Rightarrow> bytearray \<Rightarrow> (bool \<times> bytearray) result" where
  "readFromFile file ba =
     (case file of
        None \<Rightarrow> Inr (False, ba)
      | Some ifs \<Rightarrow> rbind (load_loop (m_baseSize ba) ba ifs) (\<lambda>ba. Inr (True, ba)))"

definition hex_digit :: "nat \<Rightarrow> char" where
  "hex_digit n = ''0123456789abcdef'' ! n"

definition hex_byte :: "byte \<Rightarrow> string" where
  "hex_byte b = [hex_digit (unat b div 16), hex_digit (unat b mod 16), CHR '' '']"

fun hex_loop :: "nat \<Rightarrow> byte list \<Rightarrow> string" where
  "hex_loop i [] = []"
| "hex_loop i (b # bs) = (if i > 0 \<and> i mod 32 = 0 then [CHR 0x0A] else []) @ hex_byte b @ hex_loop (Suc i) bs"

definition toHexString :: "bytearray \<Rightarrow> string result" where
  "toHexString ba = rbind (toString ba) (\<lambda>str. Inr (hex_loop 0 str))"

subsection \<open>Gathering and scattering\<close>

definition iov_ok :: "byte list list \<Rightarrow> iovec \<Rightarrow> bool" where
  "iov_ok nodes iov \<longleftrightarrow> iov_node iov < length nodes \<and>
     iov_off iov + iov_len iov \<le> length (nodes ! iov_node iov)"

definition gather :: "byte list list \<Rightarrow> iovec list \<Rightarrow> byte list" where
  "gather nodes iovs =
     concat (map (\<lambda>v. take (iov_len v) (drop (iov_off v) (nodes ! iov_node v))) iovs)"

primrec scatter :: "byte list list \<Rightarrow> iovec list \<Rightarrow> byte list \<Rightarrow> byte list list" where
  "scatter nodes [] bs = nodes"
| "scatter nodes (v # iovs) bs =
     scatter (nodes[iov_node v := overwrite (nodes ! iov_node v) (iov_off v) (take (iov_len v) bs)]) iovs
       (drop (iov_len v) bs)"

definition iov_total :: "iovec list \<Rightarrow> nat" where
  "iov_total iovs = sum_list (map iov_len iovs)"

text \<open>The vectors are consecutive slices of the flat buffer that start at \<open>p\<close>.\<close>

fun consecutive :: "nat \<Rightarrow> nat \<Rightarrow> iovec list \<Rightarrow> bool" where
  "consecutive b p [] \<longleftrightarrow> True"
| "consecutive b p (v # iovs) \<longleftrightarrow> iov_node v * b + iov_off v = p \<and> consecutive b (p + iov_len v) iovs"

lemma iov_loop_acc: "iov_loop nodes cur npos ncap len (xs @ ys) =
    rbind (iov_loop nodes cur npos ncap len ys) (\<lambda>zs. Inr (xs @ zs))"
proof (induction nodes cur npos ncap len ys rule: iov_loop.induct)
  case (1 nodes cur npos ncap len ys)
  show ?case
    using 1 by (subst (1 2) iov_loop.simps) (auto split: option.splits)
qed

lemma iov_loop_ok:
  assumes "0 < b" "blocks b nodes" "i < length nodes" "npos < b" "i * b + npos + len \<le> b * length nodes"
  shows "\<exists>iovs. iov_loop nodes i npos (b - npos) len [] = Inr iovs \<and> list_all (iov_ok nodes) iovs \<and>
     iov_total iovs = len \<and> consecutive b (i * b + npos) iovs"
  using assms
proof (induction len arbitrary: i npos rule: less_induct)
  case (less len)
  have len: "length (nodes ! i) = b" using less.prems(2,3) by (rule blocks_nth)
  consider "len = 0" | "0 < len" "len \<le> b - npos" | "\<not> len \<le> b - npos" by linarith
  then show ?case
  proof cases
    case 1
    then show ?thesis by (simp add: iov_loop.simps iov_total_def)
  next
    case 2
    then show ?thesis using less.prems len
      by (simp add: iov_loop.simps[of _ _ _ _ len] iov_loop.simps[of _ _ _ _ 0] iov_total_def iov_ok_def)
  next
    case 3
    have "Suc i * b < b * length nodes" using 3 less.prems(5) by simp
    then have j: "Suc i < length nodes" by (metis mult.commute mult_less_cancel2)
    have *: "len - (b - npos) < len" "Suc i * b + 0 + (len - (b - npos)) \<le> b * length nodes"
      using 3 less.prems(4,5) by auto
    obtain iovs where iovs: "iov_loop nodes (Suc i) 0 b (len - (b - npos)) [] = Inr iovs"
        "list_all (iov_ok nodes) iovs" "iov_total iovs = len - (b - npos)" "consecutive b (Suc i * b) iovs"
      using less.IH[OF *(1) less.prems(1,2) j _ *(2)] less.prems(1) by auto
    define v where "v = \<lparr>iov_node = i, iov_off = npos, iov_len = b - npos\<rparr>"
    have "iov_loop nodes i npos (b - npos) len [] = iov_loop nodes (Suc i) 0 b (len - (b - npos)) ([v] @ [])"
      using 3 j blocks_nth[OF less.prems(2) j]
      by (simp add: iov_loop.simps[of _ _ _ _ len] node_next_def v_def)
    also have "\<dots> = Inr (v # iovs)" unfolding iov_loop_acc iovs(1) by simp
    finally have "iov_loop nodes i npos (b - npos) len [] = Inr (v # iovs)" .
    moreover have "iov_ok nodes v" using less.prems(3,4) len by (simp add: iov_ok_def v_def)
    moreover have "iov_total (v # iovs) = len" using iovs(3) 3 by (simp add: iov_total_def v_def)
    moreover have "consecutive b (i * b + npos) (v # iovs)"
      using iovs(4) less.prems(4) by (simp add: v_def add.commute)
    ultimately show ?thesis using iovs(2) by auto
  qed
qed

lemma gather_consecutive:
  "blocks b nodes \<Longrightarrow> list_all (iov_ok nodes) iovs \<Longrightarrow> consecutive b p iovs \<Longrightarrow>
   gather nodes iovs = take (iov_total iovs) (drop p (concat nodes))"
proof (induction iovs arbitrary: p)
  case (Cons v iovs)
  have "take (iov_len v) (drop (iov_off v) (nodes ! iov_node v)) = take (iov_len v) (drop p (concat nodes))"
    using Cons.prems slice_block[of b nodes "iov_node v" "iov_off v" "iov_len v"]
      blocks_nth[of b nodes "iov_node v"] by (auto simp: iov_ok_def)
  then show ?case using Cons.IH[of "p + iov_len v"] Cons.prems
      take_append_take_drop[of "iov_len v" "iov_total (v # iovs)" p "concat nodes"]
    by (simp add: gather_def iov_total_def)
qed (simp add: gather_def iov_total_def)

lemma iov_ok_update:
  "blocks b nodes \<Longrightarrow> length xs = b \<Longrightarrow> iov_ok (nodes[i := xs]) v \<longleftrightarrow> iov_ok nodes v"
  by (cases "iov_node v = i") (auto simp: iov_ok_def blocks_nth)

lemma scatter_Nil [simp]: "scatter nodes iovs [] = nodes"
  by (induction iovs arbitrary: nodes) simp_all

lemma scatter_consecutive:
  assumes "blocks b nodes" "list_all (iov_ok nodes) iovs" "consecutive b p iovs" "length bs \<le> iov_total iovs"
    "p + length bs \<le> b * length nodes"
  shows "blocks b (scatter nodes iovs bs) \<and> length (scatter nodes iovs bs) = length nodes \<and>
     concat (scatter nodes iovs bs) = overwrite (concat nodes) p bs"
  using assms
proof (induction iovs arbitrary: p nodes bs)
  case (Cons v iovs)
  define hd' where "hd' = take (iov_len v) bs"
  define nodes' where "nodes' = nodes[iov_node v := overwrite (nodes ! iov_node v) (iov_off v) hd']"
  have l: "length hd' \<le> iov_len v" "bs = hd' @ drop (iov_len v) bs" by (simp_all add: hd'_def)
  have v: "iov_node v < length nodes" "iov_off v + iov_len v \<le> b" "length (nodes ! iov_node v) = b"
    "iov_node v * b + iov_off v = p"
    using Cons.prems(1,2,3) by (auto simp: iov_ok_def blocks_nth)
  have len': "length (overwrite (nodes ! iov_node v) (iov_off v) hd') = b"
    using v l by simp
  have bl: "blocks b nodes'" "length nodes' = length nodes"
    using blocks_update[OF Cons.prems(1) len'] by (simp_all add: nodes'_def)
  have c: "concat nodes' = overwrite (concat nodes) p hd'"
    using concat_update_block[OF Cons.prems(1) v(1), of "iov_off v" hd'] v l by (simp add: nodes'_def)
  show ?case
  proof (cases "length bs \<le> iov_len v")
    case True
    then show ?thesis using bl c by (simp add: hd'_def nodes'_def)
  next
    case False
    then have lh: "length hd' = iov_len v" by (simp add: hd'_def)
    have ok: "list_all (iov_ok nodes') iovs"
      using Cons.prems(2) iov_ok_update[OF Cons.prems(1) len']
      by (simp add: nodes'_def list_all_iff)
    have ih: "blocks b (scatter nodes' iovs (drop (iov_len v) bs)) \<and>
       length (scatter nodes' iovs (drop (iov_len v) bs)) = length nodes' \<and>
       concat (scatter nodes' iovs (drop (iov_len v) bs)) =
         overwrite (concat nodes') (p + iov_len v) (drop (iov_len v) bs)"
      using Cons.IH[OF bl(1) ok, of "p + iov_len v" "drop (iov_len v) bs"] Cons.prems(3,4,5) bl(2) False
      by (simp add: iov_total_def)
    have "overwrite (overwrite (concat nodes) p hd') (p + length hd') (drop (iov_len v) bs) =
        overwrite (concat nodes) p (hd' @ drop (iov_len v) bs)"
      using Cons.prems(1,5) False lh by (intro overwrite_overwrite) (simp add: length_concat_blocks)
    then show ?thesis using ih c bl l(2) lh by (simp add: nodes'_def hd'_def)
  qed
qed (simp add: iov_total_def)

subsection \<open>The vectors of an array\<close>

lemma iov_from_ok:
  assumes ok: "ba_ok ba" and p: "p < m_capacity ba" "p + n \<le> m_capacity ba"
  shows "p div m_baseSize ba < length (m_nodes ba)"
    and "\<exists>iovs. iov_loop (m_nodes ba) (p div m_baseSize ba) (p mod m_baseSize ba)
        (size_sub (length (m_nodes ba ! (p div m_baseSize ba))) (p mod m_baseSize ba)) n [] = Inr iovs \<and>
       list_all (iov_ok (m_nodes ba)) iovs \<and> iov_total iovs = n \<and> consecutive (m_baseSize ba) p iovs"
proof -
  note D = ba_okD[OF ok]
  define b where "b = m_baseSize ba"
  show i: "p div m_baseSize ba < length (m_nodes ba)" using D(1,4) p by (simp add: div_less_blocks)
  have m: "p mod b < b" and e: "p div b * b + p mod b = p" using D(1) by (simp_all add: b_def)
  have "length (m_nodes ba ! (p div b)) = b" using D(3) i by (simp add: b_def blocks_nth)
  then show "\<exists>iovs. iov_loop (m_nodes ba) (p div m_baseSize ba) (p mod m_baseSize ba)
        (size_sub (length (m_nodes ba ! (p div m_baseSize ba))) (p mod m_baseSize ba)) n [] = Inr iovs \<and>
       list_all (iov_ok (m_nodes ba)) iovs \<and> iov_total iovs = n \<and> consecutive (m_baseSize ba) p iovs"
    using iov_loop_ok[OF D(1,3) i, of "p mod b" n] p D(4) m e by (simp add: b_def)
qed

lemma cursor_node: "ba_ok ba \<Longrightarrow> m_position ba < m_capacity ba \<Longrightarrow> m_cur ba = Some (m_position ba div m_baseSize ba)"
  by (simp add: ba_ok_def node_at_def)

lemma getReadBuffers_ok:
  assumes ok: "ba_ok ba"
  shows "\<exists>iovs. getReadBuffers ba len = Inr (min len (getReadSize ba), iovs) \<and>
     list_all (iov_ok (m_nodes ba)) iovs \<and> gather (m_nodes ba) iovs = take len (readable ba)"
proof (cases "min len (getReadSize ba) = 0")
  case True
  then show ?thesis using length_readable[OF ok]
    by (auto simp: getReadBuffers_def gather_def Let_def min_def split: if_splits)
next
  case False
  define n where "n = min len (getReadSize ba)"
  note D = ba_okD[OF ok]
  have n: "0 < n" "m_position ba + n \<le> m_capacity ba" "m_position ba < m_capacity ba"
    using False D(5,6) by (auto simp: n_def getReadSize_ok[OF ok])
  obtain iovs where iovs: "iov_loop (m_nodes ba) (m_position ba div m_baseSize ba) (m_position ba mod m_baseSize ba)
        (size_sub (length (m_nodes ba ! (m_position ba div m_baseSize ba))) (m_position ba mod m_baseSize ba)) n []
        = Inr iovs" "list_all (iov_ok (m_nodes ba)) iovs" "iov_total iovs = n"
        "consecutive (m_baseSize ba) (m_position ba) iovs"
    using iov_from_ok(2)[OF ok n(3,2)] by auto
  have nn: "(if len > getReadSize ba then getReadSize ba else len) = n" by (simp add: n_def)
  have "getReadBuffers ba len = Inr (n, iovs)"
    unfolding getReadBuffers_def nn Let_def using n(1) D(1) cursor_node[OF ok n(3)] iovs(1) by simp
  moreover have "gather (m_nodes ba) iovs = take len (readable ba)"
    using gather_consecutive[OF D(3) iovs(2,4)] iovs(3) length_readable[OF ok]
    by (simp add: n_def readable_def flat_def getReadSize_ok[OF ok])
  ultimately show ?thesis using iovs(2) by (auto simp: n_def)
qed

lemma getWriteBuffers_ok:
  assumes ok: "ba_ok ba" and cap: "cap_ok ba len"
  shows "\<exists>iovs ba'. getWriteBuffers ba len = Inr (len, iovs, ba') \<and> ba_ok ba' \<and>
     m_position ba' = m_position ba \<and> m_position ba + len \<le> m_capacity ba' \<and> content ba' = content ba \<and>
     m_size ba' = m_size ba \<and> m_endian ba' = m_endian ba \<and> m_baseSize ba' = m_baseSize ba \<and> iov_total iovs = len \<and>
     (\<forall>bs. length bs \<le> len \<longrightarrow> (let ba2 = ba'\<lparr>m_nodes := scatter (m_nodes ba') iovs bs\<rparr> in
        ba_ok ba2 \<and> flat ba2 = overwrite (flat ba') (m_position ba) bs))"
proof (cases "len = 0")
  case True
  then show ?thesis using ok ba_okD(7)[OF ok] by (simp add: getWriteBuffers_def iov_total_def)
next
  case False
  obtain ba1 xss where a: "addCapacity ba len = Inr ba1" "ba_ok ba1" "flat ba1 = flat ba @ xss"
     "m_position ba1 = m_position ba" "m_size ba1 = m_size ba" "m_position ba + len \<le> m_capacity ba1"
     "m_endian ba1 = m_endian ba" "m_baseSize ba1 = m_baseSize ba"
    using addCapacity_ok[OF ok, of len] cap by auto
  note D = ba_okD[OF a(2)]
  have p: "m_position ba1 < m_capacity ba1" "m_position ba1 + len \<le> m_capacity ba1" using False a(4,6) by auto
  obtain iovs where iovs: "iov_loop (m_nodes ba1) (m_position ba1 div m_baseSize ba1) (m_position ba1 mod m_baseSize ba1)
        (size_sub (length (m_nodes ba1 ! (m_position ba1 div m_baseSize ba1))) (m_position ba1 mod m_baseSize ba1)) len []
        = Inr iovs" "list_all (iov_ok (m_nodes ba1)) iovs" "iov_total iovs = len"
        "consecutive (m_baseSize ba1) (m_position ba1) iovs"
    using iov_from_ok(2)[OF a(2) p] by auto
  have "getWriteBuffers ba len = Inr (len, iovs, ba1)"
    using False a(1) D(1) cursor_node[OF a(2) p(1)] iovs(1) by (simp add: getWriteBuffers_def Let_def)
  moreover have "content ba1 = content ba" using a(3,5) ba_okD(6)[OF ok] ok by (simp add: content_def)
  moreover have "ba_ok (ba1\<lparr>m_nodes := scatter (m_nodes ba1) iovs bs\<rparr>) \<and>
      flat (ba1\<lparr>m_nodes := scatter (m_nodes ba1) iovs bs\<rparr>) = overwrite (flat ba1) (m_position ba) bs"
    if "length bs \<le> len" for bs
  proof -
    have "m_position ba1 + length bs \<le> m_baseSize ba1 * length (m_nodes ba1)" using p(2) D(4) that by simp
    from scatter_consecutive[OF D(3) iovs(2,4) _ this] that iovs(3) D a(4) show ?thesis
      by (auto simp: ba_ok_def flat_def)
  qed
  ultimately show ?thesis using a iovs(3) by (auto simp: Let_def)
qed

subsection \<open>Files\<close>

lemma file_loop_step:
  assumes "0 < b" "blocks b nodes" "0 < rs" "pos + rs \<le> b * length nodes" "pos mod b = 0 \<or> b \<le> rs"
  defines "l \<equiv> min rs b - pos mod b"
  shows "file_loop nodes b (node_at b (length nodes) pos) pos (int rs) acc =
     file_loop nodes b (node_next nodes (pos div b)) (pos + l) (int (rs - l)) (acc @ take l (drop pos (concat nodes)))"
proof -
  have p: "pos < b * length nodes" using assms by simp
  then have i: "pos div b < length nodes" using assms(1) by (simp add: div_less_blocks)
  have m: "pos mod b < b" "pos mod b \<le> min rs b" "pos mod b + l \<le> b" using assms by (auto simp: min_def)
  then have l: "(if int rs > int b then int b else int rs) - int (pos mod b) = int l"
    by (auto simp: l_def of_nat_diff min_def)
  have rs: "int rs - int l = int (rs - l)" using m by (simp add: l_def of_nat_diff min_def)
  have sl: "take l (drop (pos mod b) (nodes ! (pos div b))) = take l (drop pos (concat nodes))"
    using slice_block[OF assms(2) i m(3)] by simp
  have c: "\<not> int rs \<le> 0" "b \<noteq> 0" "node_at b (length nodes) pos = Some (pos div b)" "\<not> int l < 0"
    using p assms(1,3) by (simp_all add: node_at_def)
  show ?thesis
    by (subst file_loop.simps) (simp only: Let_def l c rs sl if_False option.case nat_int)
qed

lemma file_loop_aligned:
  assumes "0 < b" "blocks b nodes" "pos mod b = 0" "pos + rs \<le> b * length nodes"
  shows "file_loop nodes b (node_at b (length nodes) pos) pos (int rs) acc =
     Inr (acc @ take rs (drop pos (concat nodes)))"
  using assms(3,4)
proof (induction rs arbitrary: pos acc rule: less_induct)
  case (less rs)
  show ?case
  proof (cases "rs \<le> b")
    case True
    then show ?thesis
      using file_loop_step[OF assms(1,2) _ less.prems(2), of acc] less.prems(1)
      by (cases "rs = 0") (simp_all add: file_loop.simps[of _ _ _ _ 0])
  next
    case False
    have nx: "node_next nodes (pos div b) = node_at b (length nodes) (pos + b)"
    proof -
      have "pos div b * b = pos" using less.prems(1) by auto
      then show ?thesis using node_at_end[OF assms(1), of "length nodes" "pos div b"]
        by (simp add: node_next_def)
    qed
    have "file_loop nodes b (node_at b (length nodes) pos) pos (int rs) acc =
        Inr ((acc @ take b (drop pos (concat nodes))) @ take (rs - b) (drop (pos + b) (concat nodes)))"
      using file_loop_step[OF assms(1,2) _ less.prems(2), of acc] less.prems False assms(1)
        less.IH[of "rs - b" "pos + b"] by (simp add: nx min_def)
    then show ?thesis using False take_append_take_drop[of b rs pos "concat nodes"] by simp
  qed
qed

lemma writeToFile_ok:
  assumes ok: "ba_ok ba" and al: "m_position ba mod m_baseSize ba = 0 \<or> m_baseSize ba \<le> getReadSize ba"
  shows "writeToFile True ba = Inr (True, readable ba)"
proof -
  note D = ba_okD[OF ok]
  define b where "b = m_baseSize ba"
  define p where "p = m_position ba"
  define rs where "rs = getReadSize ba"
  have fits: "p + rs \<le> b * length (m_nodes ba)"
    using D by (simp add: getReadSize_ok[OF ok] rs_def p_def b_def)
  have "file_loop (m_nodes ba) b (m_cur ba) p (int rs) [] = Inr (take rs (drop p (concat (m_nodes ba))))"
  proof (cases "p mod b = 0")
    case True
    then show ?thesis using file_loop_aligned[OF D(1,3) _ fits[unfolded b_def]] D(8)
      by (simp add: b_def p_def)
  next
    case False
    then have "b \<le> rs" using al by (simp add: b_def p_def rs_def)
    define l where "l = b - p mod b"
    have l: "p mod b < b" "l \<le> rs" "l = min rs b - p mod b" "0 < rs" using D(1) \<open>b \<le> rs\<close>
      by (simp_all add: b_def l_def min_absorb2)
    have pl: "p + l = (p div b) * b + b"
      using l(1) minus_mod_eq_div_mult[of p b] mod_less_eq_dividend[of p b] unfolding l_def by linarith
    then have "(p + l) mod b = 0" by simp
    moreover have "node_next (m_nodes ba) (p div b) = node_at b (length (m_nodes ba)) (p + l)"
      using node_at_end[OF D(1)] unfolding pl b_def by (simp add: node_next_def)
    moreover have "file_loop (m_nodes ba) b (m_cur ba) p (int rs) [] =
        file_loop (m_nodes ba) b (node_next (m_nodes ba) (p div b)) (p + l) (int (rs - l))
          ([] @ take l (drop p (concat (m_nodes ba))))"
      using file_loop_step[OF D(1,3) l(4) fits[unfolded b_def], of "[]"] D(8) \<open>b \<le> rs\<close> l(3)
      by (simp add: b_def p_def)
    moreover have "p + l + (rs - l) \<le> b * length (m_nodes ba)" using fits l(2) by simp
    ultimately show ?thesis
      using file_loop_aligned[OF D(1,3), of "p + l" "rs - l"] take_append_take_drop[OF l(2), of p "concat (m_nodes ba)"]
      by (simp add: b_def)
  qed
  then show ?thesis using getReadSize_ok[OF ok]
    by (simp add: writeToFile_def readable_def flat_def b_def p_def rs_def)
qed

lemma cap_ok_aligned:
  assumes "ba_ok ba" "m_position ba mod m_baseSize ba = 0" "n \<le> m_baseSize ba"
  shows "cap_ok ba n"
proof -
  note D = ba_okD[OF assms(1)]
  obtain q where q: "m_position ba = m_baseSize ba * q" using assms(2) by (metis mod_0_imp_dvd dvdE)
  have "m_capacity ba - m_position ba = m_baseSize ba * (length (m_nodes ba) - q)"
    using D(4) q by (simp add: diff_mult_distrib2)
  moreover have "m_baseSize ba \<le> m_baseSize ba * (length (m_nodes ba) - q) \<or>
      m_baseSize ba * (length (m_nodes ba) - q) = 0" by (cases "length (m_nodes ba) - q") auto
  ultimately show ?thesis using assms(3)
    unfolding cap_ok_def Let_def by (metis diff_zero le_trans neq0_conv)
qed

lemma load_loop_ok:
  assumes "ba_ok ba" "m_position ba mod m_baseSize ba = 0"
  shows "\<exists>ba'. load_loop (m_baseSize ba) ba ifs = Inr ba' \<and> wrote ba ifs ba'"
  using assms
proof (induction ifs arbitrary: ba rule: length_induct)
  case (1 ifs)
  define b where "b = m_baseSize ba"
  have b: "0 < b" using ba_okD(1)[OF 1(2)] by (simp add: b_def)
  obtain ba1 where w: "ba_write ba (take b ifs) = Inr ba1" "wrote ba (take b ifs) ba1"
    using ba_write_wrote[OF 1(2) cap_ok_aligned[OF 1(2,3)], of "take b ifs"] by (auto simp: b_def)
  note W = wroteD[OF w(2)]
  show ?case
  proof (cases "length ifs < b")
    case True
    then show ?thesis using w b by (simp add: load_loop.simps[of _ ba] flip: b_def)
  next
    case False
    have "m_position ba1 mod m_baseSize ba1 = 0" using W(2,6) 1(3) False b
      by (simp add: b_def min_absorb2)
    then obtain ba' where "load_loop (m_baseSize ba1) ba1 (drop b ifs) = Inr ba'" "wrote ba1 (drop b ifs) ba'"
      using 1(1)[rule_format, of "drop b ifs" ba1] W(1) False b
      by (cases ifs) auto
    then have "load_loop b ba ifs = Inr ba'" "wrote ba (take b ifs @ drop b ifs) ba'"
      using w(1) b W(6) False wrote_trans[OF 1(2) w(2)] by (simp add: load_loop.simps[of _ ba] b_def, blast)
    then show ?thesis by (simp add: b_def)
  qed
qed

subsection \<open>Hexadecimal print\<close>

definition hex_val :: "char \<Rightarrow> nat" where
  "hex_val c = (if of_char c < (58 :: nat) then of_char c - 48 else of_char c - 87)"

text \<open>A reader for the print: it drops the line breaks and takes three characters per byte.\<close>

fun parse_hex :: "string \<Rightarrow> byte list" where
  "parse_hex (c # d # e # cs) =
     (if c = CHR 0x0A then parse_hex (d # e # cs)
      else of_nat (16 * hex_val c + hex_val d) # parse_hex cs)"
| "parse_hex _ = []"

lemma hex_val_hex_digit: "n < 16 \<Longrightarrow> hex_val (hex_digit n) = n \<and> hex_digit n \<noteq> CHR 0x0A"
proof -
  have "list_all (\<lambda>n. hex_val (hex_digit n) = n \<and> hex_digit n \<noteq> CHR 0x0A) [0..<16]" by code_simp
  moreover assume "n < 16"
  ultimately show ?thesis by (simp add: list_all_iff)
qed

lemma parse_hex_hex_loop: "parse_hex (hex_loop i bs) = bs"
proof (induction bs arbitrary: i)
  case (Cons b bs)
  have b: "unat b < 256" using unsigned_less[of b, where 'a = nat] by simp
  then have d: "hex_val (hex_digit (unat b div 16)) = unat b div 16" "hex_digit (unat b div 16) \<noteq> CHR 0x0A"
    "hex_val (hex_digit (unat b mod 16)) = unat b mod 16"
    using hex_val_hex_digit[of "unat b div 16"] hex_val_hex_digit[of "unat b mod 16"]
    by (simp_all add: less_mult_imp_div_less)
  have "of_nat (16 * (unat b div 16) + unat b mod 16) = b" by simp
  then show ?case using Cons.IH[of "Suc i"] d by (simp add: hex_byte_def)
qed simp

subsection \<open>Properties\<close>

text \<open>
  The scatter/gather views are faithful.  \<open>getReadBuffers\<close> always succeeds on a well-formed
  array, its vectors lie inside their nodes and gather exactly the next bytes to be read;
  \<open>getWriteBuffers\<close>, whenever the chain can be grown, leaves content and cursor alone, and bytes
  scattered into its vectors land in the flat buffer at the cursor.
\<close>

theorem buffers_gather_scatter:
  assumes "ba_ok ba"
  shows "(\<exists>iovs. getReadBuffers ba len = Inr (min len (getReadSize ba), iovs) \<and>
            list_all (iov_ok (m_nodes ba)) iovs \<and> gather (m_nodes ba) iovs = take len (readable ba)) \<and>
         (cap_ok ba len \<longrightarrow> (\<exists>iovs ba'. getWriteBuffers ba len = Inr (len, iovs, ba') \<and> ba_ok ba' \<and>
            m_position ba' = m_position ba \<and> content ba' = content ba \<and>
            (\<forall>bs. length bs \<le> len \<longrightarrow> (let ba2 = ba'\<lparr>m_nodes := scatter (m_nodes ba') iovs bs\<rparr> in
               ba_ok ba2 \<and> flat ba2 = overwrite (flat ba') (m_position ba) bs))))"
  using getReadBuffers_ok[OF assms, of len] getWriteBuffers_ok[OF assms, of len] by fast

theorem buffers_gather_scatter_witness:
  "\<exists>iovs ba'. getWriteBuffers ba8 5 = Inr (5, iovs, ba') \<and> ba_ok ba'"
proof -
  have "cap_ok ba8 5" by (simp add: cap_ok_def mk_ByteArray_def)
  then show ?thesis using buffers_gather_scatter[OF ba8_ok, of 5] by blast
qed

text \<open>
  Dumping to a file and loading it back.  From a cursor on a node boundary \<open>writeToFile\<close> writes
  exactly the unread bytes, and \<open>readFromFile\<close> of any file returns with the whole file written over
  the array at the cursor; a file that cannot be opened gives false and changes nothing.
\<close>

theorem file_roundtrip:
  assumes "ba_ok ba" "m_position ba mod m_baseSize ba = 0"
  shows "writeToFile True ba = Inr (True, readable ba) \<and>
         (\<exists>ba'. readFromFile (Some ifs) ba = Inr (True, ba') \<and> wrote ba ifs ba') \<and>
         writeToFile False ba = Inr (False, []) \<and> readFromFile None ba = Inr (False, ba)"
  using writeToFile_ok[OF assms(1)] load_loop_ok[OF assms, of ifs] assms(2)
  by (auto simp: readFromFile_def writeToFile_def)

theorem file_roundtrip_witness:
  "\<exists>ba'. readFromFile (Some [1, 2, 3, 4, 5, 6, 7, 8, 9]) ba8 = Inr (True, ba') \<and>
     wrote ba8 [1, 2, 3, 4, 5, 6, 7, 8, 9] ba'"
proof -
  have "m_position ba8 mod m_baseSize ba8 = 0" by (simp add: mk_ByteArray_def)
  then show ?thesis using file_roundtrip[OF ba8_ok, of "[1, 2, 3, 4, 5, 6, 7, 8, 9]"] by simp
qed

text \<open>
  \<open>toString\<close> returns the unread bytes without moving the cursor, and the hexadecimal print of
  \<open>toHexString\<close> determines them: dropping its line breaks and reading it back gives the same bytes.
\<close>

theorem hex_print_faithful:
  assumes "ba_ok ba"
  shows "toString ba = Inr (readable ba) \<and> (\<exists>s. toHexString ba = Inr s \<and> parse_hex s = readable ba)"
  using toString_ok[OF assms] by (simp add: toHexString_def parse_hex_hex_loop)

theorem hex_print_faithful_witness: "\<exists>s. toHexString ba8 = Inr s \<and> parse_hex s = readable ba8"
  using hex_print_faithful[OF ba8_ok] by blast

end
