(* ===== verification/Fiber.thy ===== *)
theory Fiber
  imports Captain_Prelude
begin

text \<open>
  Fibers: \<^verbatim>\<open>captain/fiber.cpp\<close>.  Fiber objects live on a heap shared by the threads (\<open>fibers\<close>, with
  the two global counters); a thread has its thread-local variables and the fiber whose context is
  on its processor (\<open>thread_ctx\<close>).  \<^verbatim>\<open>swapcontext(from, to)\<close> is the transfer of the processor to
  \<open>to\<close>; the user function of a fiber is not modelled, only how it gives up the processor
  (\<open>YieldToReady\<close>, \<open>YieldToHold\<close>, a plain \<open>swapOut\<close>, or its end, normal or by an exception).
  \<^verbatim>\<open>getcontext\<close>, \<^verbatim>\<open>makecontext\<close> and \<^verbatim>\<open>swapcontext\<close> are taken to succeed.
\<close>

datatype fstate = INIT | HOLD | EXEC | FTERM | READY | EXCEPT

datatype entry_point = Entry_none | Entry_MainFunc | Entry_CallerMainFunc

text \<open>
  \<open>FTERM\<close> is the state \<^verbatim>\<open>TERM\<close>; the fields of a fiber are named with \<open>f_\<close> for \<^verbatim>\<open>m_\<close>.  Only whether a
  stack was allocated is kept of \<^verbatim>\<open>m_stack\<close>, and only the entry function of \<^verbatim>\<open>m_ctx\<close>.
\<close>

record 'c fiber =
  f_id :: nat
  f_stacksize :: nat
  f_state :: fstate
  f_stack :: bool
  f_cb :: "'c option"
  f_ctx :: entry_point

record 'c fibers =
  f_heap :: "nat \<Rightarrow> 'c fiber"
  s_fiber_id :: nat
  s_fiber_count :: nat

record thread_ctx =
  t_fiber :: "nat option"
  t_threadFiber :: "nat option"
  t_main :: nat
  on_cpu :: nat

text \<open>How a user function ends.\<close>

datatype fn_end = Returns | Throws

subsection \<open>Operations\<close>

definition upd_fiber :: "'c fibers \<Rightarrow> nat \<Rightarrow> ('c fiber \<Rightarrow> 'c fiber) \<Rightarrow> 'c fibers" where
  "upd_fiber fs a g = fs\<lparr>f_heap := (f_heap fs)(a := g (f_heap fs a))\<rparr>"

definition SetThis :: "nat option \<Rightarrow> thread_ctx \<Rightarrow> thread_ctx" where
  "SetThis f th = th\<lparr>t_fiber := f\<rparr>"

definition GetFiberId :: "'c fibers \<Rightarrow> thread_ctx \<Rightarrow> nat" where
  "GetFiberId fs th = (case t_fiber th of Some f \<Rightarrow> f_id (f_heap fs f) | None \<Rightarrow> 0)"

definition Fiber_main :: "nat \<Rightarrow> 'c fibers \<Rightarrow> thread_ctx \<Rightarrow> 'c fibers \<times> thread_ctx" where
  "Fiber_main this fs th =
     (fs\<lparr>f_heap := (f_heap fs)(this := \<lparr>f_id = 0, f_stacksize = 0, f_state = EXEC, f_stack = False,
            f_cb = None, f_ctx = Entry_none\<rparr>), s_fiber_count := s_fiber_count fs + 1\<rparr>,
      SetThis (Some this) th)"

definition mk_Fiber :: "nat \<Rightarrow> nat \<Rightarrow> 'c option \<Rightarrow> nat \<Rightarrow> bool \<Rightarrow> 'c fibers \<Rightarrow> 'c fibers" where
  "mk_Fiber g_fiber_stack_size this cb stacksize use_caller fs =
     fs\<lparr>f_heap := (f_heap fs)(this := \<lparr>f_id = s_fiber_id fs + 1,
          f_stacksize = (if stacksize \<noteq> 0 then stacksize else g_fiber_stack_size),
          f_state = INIT, f_stack = True, f_cb = cb,
          f_ctx = (if \<not> use_caller then Entry_MainFunc else Entry_CallerMainFunc)\<rparr>),
        s_fiber_id := s_fiber_id fs + 1, s_fiber_count := s_fiber_count fs + 1\<rparr>"

definition resettable :: "fstate \<Rightarrow> bool" where
  "resettable s \<longleftrightarrow> s = FTERM \<or> s = EXCEPT \<or> s = INIT"

definition destroy_Fiber :: "nat \<Rightarrow> 'c fibers \<Rightarrow> thread_ctx \<Rightarrow> ('c fibers \<times> thread_ctx) result" where
  "destroy_Fiber this fs th =
     (let fs = fs\<lparr>s_fiber_count := size_sub (s_fiber_count fs) 1\<rparr>; f = f_heap fs this in
      if f_stack f then
        (if resettable (f_state f) then Inr (fs, th) else Inl (Assert_failed ''m_state''))
      else if f_cb f \<noteq> None then Inl (Assert_failed ''!m_cb'')
      else if f_state f \<noteq> EXEC then Inl (Assert_failed ''m_state == EXEC'')
      else Inr (fs, if t_fiber th = Some this then SetThis None th else th))"

definition fiber_reset :: "nat \<Rightarrow> 'c option \<Rightarrow> 'c fibers \<Rightarrow> 'c fibers result" where
  "fiber_reset this cb fs =
     (let f = f_heap fs this in
      if \<not> f_stack f then Inl (Assert_failed ''m_stack'')
      else if \<not> resettable (f_state f) then Inl (Assert_failed ''m_state'')
      else Inr (upd_fiber fs this (\<lambda>f. f\<lparr>f_cb := cb, f_ctx := Entry_MainFunc, f_state := INIT\<rparr>)))"

definition fiber_call :: "nat \<Rightarrow> 'c fibers \<Rightarrow> thread_ctx \<Rightarrow> ('c fibers \<times> thread_ctx) result" where
  "fiber_call this fs th =
     (if t_threadFiber th = None then Inl Null_deref
      else Inr (upd_fiber fs this (\<lambda>f. f\<lparr>f_state := EXEC\<rparr>), (SetThis (Some this) th)\<lparr>on_cpu := this\<rparr>))"

definition fiber_back :: "nat \<Rightarrow> thread_ctx \<Rightarrow> thread_ctx result" where
  "fiber_back this th =
     (case t_threadFiber th of
        None \<Rightarrow> Inl Null_deref
      | Some m \<Rightarrow> Inr ((SetThis (Some m) th)\<lparr>on_cpu := m\<rparr>))"

definition swapIn :: "nat \<Rightarrow> 'c fibers \<Rightarrow> thread_ctx \<Rightarrow> ('c fibers \<times> thread_ctx) result" where
  "swapIn this fs th =
     (let th = SetThis (Some this) th in
      if f_state (f_heap fs this) = EXEC then Inl (Assert_failed ''m_state != EXEC'')
      else Inr (upd_fiber fs this (\<lambda>f. f\<lparr>f_state := EXEC\<rparr>), th\<lparr>on_cpu := this\<rparr>))"

definition swapOut :: "thread_ctx \<Rightarrow> thread_ctx" where
  "swapOut th = (SetThis (Some (t_main th)) th)\<lparr>on_cpu := t_main th\<rparr>"

text \<open>\<open>addr\<close> is where a new main fiber is allocated if the thread has none.\<close>

definition fiber_GetThis :: "nat \<Rightarrow> 'c fibers \<Rightarrow> thread_ctx \<Rightarrow> nat \<times> 'c fibers \<times> thread_ctx" where
  "fiber_GetThis addr fs th =
     (case t_fiber th of
        Some f \<Rightarrow> (f, fs, th)
      | None \<Rightarrow> let (fs, th) = Fiber_main addr fs th in (addr, fs, th\<lparr>t_threadFiber := Some addr\<rparr>))"

definition yield_with :: "fstate \<Rightarrow> nat \<Rightarrow> 'c fibers \<Rightarrow> thread_ctx \<Rightarrow> 'c fibers \<times> thread_ctx" where
  "yield_with st addr fs th =
     (let (cur, fs, th) = fiber_GetThis addr fs th
      in (upd_fiber fs cur (\<lambda>f. f\<lparr>f_state := st\<rparr>), swapOut th))"

definition YieldToReady :: "nat \<Rightarrow> 'c fibers \<Rightarrow> thread_ctx \<Rightarrow> 'c fibers \<times> thread_ctx" where
  "YieldToReady = yield_with READY"

definition YieldToHold :: "nat \<Rightarrow> 'c fibers \<Rightarrow> thread_ctx \<Rightarrow> 'c fibers \<times> thread_ctx" where
  "YieldToHold = yield_with HOLD"

definition TotalFibers :: "'c fibers \<Rightarrow> nat" where
  "TotalFibers fs = s_fiber_count fs"

text \<open>The \<^verbatim>\<open>try\<close> block that both entry points share, for a function that has ended.\<close>

definition fiber_end :: "fn_end \<Rightarrow> 'c fiber \<Rightarrow> 'c fiber" where
  "fiber_end e f = (case e of Returns \<Rightarrow> f\<lparr>f_cb := None, f_state := FTERM\<rparr> | Throws \<Rightarrow> f\<lparr>f_state := EXCEPT\<rparr>)"

definition MainFunc :: "fn_end \<Rightarrow> nat \<Rightarrow> 'c fibers \<Rightarrow> thread_ctx \<Rightarrow> 'c fibers \<times> thread_ctx" where
  "MainFunc e addr fs th =
     (let (cur, fs, th) = fiber_GetThis addr fs th in (upd_fiber fs cur (fiber_end e), swapOut th))"

definition CallerMainFunc :: "fn_end \<Rightarrow> nat \<Rightarrow> 'c fibers \<Rightarrow> thread_ctx \<Rightarrow> ('c fibers \<times> thread_ctx) result" where
  "CallerMainFunc e addr fs th =
     (let (cur, fs, th) = fiber_GetThis addr fs th;
          fs = upd_fiber fs cur (fiber_end e)
      in rbind (fiber_back cur th) (\<lambda>th. Inr (fs, th)))"

text \<open>The ways in which a running fiber hands the processor back to the thread's main fiber.\<close>

datatype leave = Yield_ready | Yield_hold | Swap_out | End fn_end

definition fiber_leave :: "leave \<Rightarrow> 'c fibers \<Rightarrow> thread_ctx \<Rightarrow> 'c fibers \<times> thread_ctx" where
  "fiber_leave l fs th =
     (case l of
        Yield_ready \<Rightarrow> YieldToReady 0 fs th
      | Yield_hold \<Rightarrow> YieldToHold 0 fs th
      | Swap_out \<Rightarrow> (fs, swapOut th)
      | End e \<Rightarrow> MainFunc e 0 fs th)"

fun left_state :: "leave \<Rightarrow> fstate" where
  "left_state Yield_ready = READY"
| "left_state Yield_hold = HOLD"
| "left_state Swap_out = EXEC"
| "left_state (End Returns) = FTERM"
| "left_state (End Throws) = EXCEPT"

subsection \<open>Switching in and out\<close>

lemma upd_fiber_heap [simp]: "f_heap (upd_fiber fs a g) b = (if b = a then g (f_heap fs a) else f_heap fs b)"
  by (simp add: upd_fiber_def)

lemma upd_fiber_counts [simp]:
  "s_fiber_count (upd_fiber fs a g) = s_fiber_count fs" "s_fiber_id (upd_fiber fs a g) = s_fiber_id fs"
  by (simp_all add: upd_fiber_def)

lemma fiber_leave_current:
  assumes "t_fiber th = Some f"
  shows "f_heap (fst (fiber_leave l fs th)) b =
      (if b = f then (f_heap fs f)\<lparr>f_state := (case l of Swap_out \<Rightarrow> f_state (f_heap fs f) | _ \<Rightarrow> left_state l),
                              f_cb := (if l = End Returns then None else f_cb (f_heap fs f))\<rparr>
       else f_heap fs b)"
    and "snd (fiber_leave l fs th) = th\<lparr>t_fiber := Some (t_main th), on_cpu := t_main th\<rparr>"
  using assms
  by (auto simp: fiber_leave_def YieldToReady_def YieldToHold_def yield_with_def MainFunc_def fiber_GetThis_def
        fiber_end_def swapOut_def SetThis_def split: leave.splits fn_end.splits)

text \<open>
  A fiber that is switched in and leaves by any of its ways gives the processor and the
  thread-local current fiber back to the thread's main fiber, with its own state set as the way of
  leaving says and every other fiber untouched; a fiber that ended can be reset and destroyed, one
  that only yielded cannot.
\<close>

theorem fiber_switch_roundtrip:
  assumes "f_state (f_heap fs f) \<noteq> EXEC" "f_stack (f_heap fs f)"
  shows "\<exists>fs1 th1. swapIn f fs th = Inr (fs1, th1) \<and> on_cpu th1 = f \<and> t_fiber th1 = Some f \<and>
     f_state (f_heap fs1 f) = EXEC \<and>
     (let (fs2, th2) = fiber_leave l fs1 th1 in
        on_cpu th2 = t_main th \<and> t_fiber th2 = Some (t_main th) \<and>
        f_state (f_heap fs2 f) = left_state l \<and> (\<forall>g. g \<noteq> f \<longrightarrow> f_heap fs2 g = f_heap fs g) \<and>
        ((\<exists>fs3. fiber_reset f cb fs2 = Inr fs3) \<longleftrightarrow> (\<exists>e. l = End e)) \<and>
        ((\<exists>r. destroy_Fiber f fs2 th2 = Inr r) \<longleftrightarrow> (\<exists>e. l = End e)))"
proof -
  define fs1 where "fs1 = upd_fiber fs f (\<lambda>f. f\<lparr>f_state := EXEC\<rparr>)"
  define th1 where "th1 = th\<lparr>t_fiber := Some f, on_cpu := f\<rparr>"
  have 1: "swapIn f fs th = Inr (fs1, th1)"
    using assms(1) by (simp add: swapIn_def fs1_def th1_def SetThis_def)
  have st: "resettable (left_state l) \<longleftrightarrow> (\<exists>e. l = End e)"
    by (cases l) (auto simp: resettable_def intro: left_state.elims)
  obtain fs2 th2 where 2: "fiber_leave l fs1 th1 = (fs2, th2)" by fastforce
  have h: "f_heap fs2 b = (if b = f then (f_heap fs1 f)\<lparr>f_state := left_state l,
       f_cb := (if l = End Returns then None else f_cb (f_heap fs1 f))\<rparr> else f_heap fs1 b)" for b
    using fiber_leave_current(1)[of th1 f l fs1 b] 2 by (auto simp: th1_def fs1_def split: leave.splits)
  have th2: "th2 = th1\<lparr>t_fiber := Some (t_main th), on_cpu := t_main th\<rparr>"
    using fiber_leave_current(2)[of th1 f l fs1] 2 by (simp add: th1_def)
  have "f_stack (f_heap fs2 f)" using h[of f] assms(2) by (simp add: fs1_def)
  then have "(\<exists>fs3. fiber_reset f cb fs2 = Inr fs3) \<longleftrightarrow> (\<exists>e. l = End e)"
    "(\<exists>r. destroy_Fiber f fs2 th2 = Inr r) \<longleftrightarrow> (\<exists>e. l = End e)"
    using h[of f] st by (auto simp: fiber_reset_def destroy_Fiber_def Let_def)
  then show ?thesis using 1 2 h th2 by (simp add: fs1_def th1_def)
qed

definition no_fibers :: "unit fibers" where
  "no_fibers = \<lparr>f_heap = (\<lambda>_. \<lparr>f_id = 0, f_stacksize = 0, f_state = FTERM, f_stack = False, f_cb = None,
     f_ctx = Entry_none\<rparr>), s_fiber_id = 0, s_fiber_count = 0\<rparr>"

definition main_thread :: thread_ctx where
  "main_thread = \<lparr>t_fiber = Some 1, t_threadFiber = Some 1, t_main = 1, on_cpu = 1\<rparr>"

theorem fiber_switch_roundtrip_witness:
  "\<exists>fs1 th1. swapIn 7 (mk_Fiber 1024 7 (Some ()) 0 False no_fibers) main_thread = Inr (fs1, th1) \<and> on_cpu th1 = 7"
proof -
  have "f_state (f_heap (mk_Fiber 1024 7 (Some ()) 0 False no_fibers) 7) \<noteq> EXEC"
    "f_stack (f_heap (mk_Fiber 1024 7 (Some ()) 0 False no_fibers) 7)"
    by (simp_all add: mk_Fiber_def)
  from fiber_switch_roundtrip[OF this, of main_thread Yield_hold] show ?thesis by blast
qed

end
