(* ===== verification/Scheduler.thy ===== *)
theory Scheduler
  imports Fiber "HOL-Library.Multiset"
begin

text \<open>
  The fiber scheduler: \<^verbatim>\<open>captain/scheduler.cpp\<close>, \<^verbatim>\<open>captain/include/scheduler.h\<close>.  The shared state is
  \<open>sched\<close> (task queue, counters, stop flags and the fiber heap); a worker thread executing
  \<open>Scheduler::run\<close> is a \<open>worker\<close>: its thread-local variables, the locals \<open>idle_fiber\<close> and
  \<open>cb_fiber\<close> of \<open>run\<close>, and where in the loop it stands.  One turn of the loop is three atomic
  steps: \<open>run_pick\<close> (the critical section), \<open>run_dispatch\<close> (up to the switch into a fiber) and
  \<open>run_return\<close> (from the switch back to the head of the loop).  The steps of all workers and the calls
  of \<open>schedule\<close> interleave arbitrarily (\<open>sys_step\<close>).

  Proved: tasks are picked in queue order among the eligible ones and none is lost; in every
  reachable state the counters equal the number of workers that run a task or idle, so that
  \<open>stopping\<close> implies quiescence; and no assertion of \<open>run\<close>, \<open>swapIn\<close> or \<open>reset\<close> can fail, as long
  as a fiber is scheduled only while nobody else holds it.
\<close>

record 'c task =
  ft_fiber :: "nat option"
  ft_cb :: "'c option"
  ft_thread :: int

record 'c sched =
  m_fibers :: "'c task list"
  m_activeThreadCount :: nat
  m_idleThreadCount :: nat
  m_stopping :: bool
  m_autoStop :: bool
  m_threads :: nat
  m_threadCount :: nat
  m_threadIds :: "int list"
  m_rootFiber :: "nat option"
  m_rootThread :: int
  s_heap :: "'c fibers"

datatype 'c run_pc =
    Loop_head
  | Dispatch "'c task option"
  | In_fiber nat
  | In_cb
  | In_idle
  | Run_exit

record 'c worker =
  w_tid :: int
  w_th :: thread_ctx
  w_idle :: nat
  w_cb_fiber :: "nat option"
  w_pc :: "'c run_pc"

subsection \<open>Scheduling\<close>

definition mk_FiberAndThread :: "nat option \<Rightarrow> 'c option \<Rightarrow> int \<Rightarrow> 'c task" where
  "mk_FiberAndThread f cb thr = \<lparr>ft_fiber = f, ft_cb = cb, ft_thread = thr\<rparr>"

definition task_ok :: "'c task \<Rightarrow> bool" where
  "task_ok ft \<longleftrightarrow> ft_fiber ft \<noteq> None \<or> ft_cb ft \<noteq> None"

definition scheduleNoLock :: "'c task \<Rightarrow> 'c sched \<Rightarrow> bool \<times> 'c sched" where
  "scheduleNoLock ft s =
     (m_fibers s = [], if task_ok ft then s\<lparr>m_fibers := m_fibers s @ [ft]\<rparr> else s)"

text \<open>Both overloads of \<open>schedule\<close> return whether \<open>tickle\<close> is called.\<close>

definition schedule :: "'c task \<Rightarrow> 'c sched \<Rightarrow> bool \<times> 'c sched" where
  "schedule ft s = scheduleNoLock ft s"

fun schedule_range :: "'c task list \<Rightarrow> bool \<Rightarrow> 'c sched \<Rightarrow> bool \<times> 'c sched" where
  "schedule_range [] need_tickle s = (need_tickle, s)"
| "schedule_range (ft # fts) need_tickle s =
     (let (n, s) = scheduleNoLock ft s in schedule_range fts (n \<or> need_tickle) s)"

definition hasIdleThreads :: "'c sched \<Rightarrow> bool" where
  "hasIdleThreads s \<longleftrightarrow> m_idleThreadCount s > 0"

definition sched_stopping :: "'c sched \<Rightarrow> bool" where
  "sched_stopping s \<longleftrightarrow> m_autoStop s \<and> m_stopping s \<and> m_fibers s = [] \<and> m_activeThreadCount s = 0"

subsection \<open>The loop of a worker\<close>

text \<open>The scan of the queue: the picked task, the queue without it, and \<^verbatim>\<open>tickle_me\<close>.\<close>

fun pick_task :: "(nat \<Rightarrow> fstate) \<Rightarrow> int \<Rightarrow> 'c task list \<Rightarrow> bool \<Rightarrow> ('c task option \<times> 'c task list \<times> bool) result" where
  "pick_task st tid [] tickle_me = Inr (None, [], tickle_me)"
| "pick_task st tid (it # its) tickle_me =
     (if ft_thread it \<noteq> - 1 \<and> ft_thread it \<noteq> tid then
        rbind (pick_task st tid its True) (\<lambda>(r, q, t). Inr (r, it # q, t))
      else if \<not> task_ok it then Inl (Assert_failed ''it->fiber || it->cb'')
      else if (case ft_fiber it of Some f \<Rightarrow> st f = EXEC | None \<Rightarrow> False) then
        rbind (pick_task st tid its tickle_me) (\<lambda>(r, q, t). Inr (r, it # q, t))
      else Inr (Some it, its, tickle_me))"

definition state_of :: "'c sched \<Rightarrow> nat \<Rightarrow> fstate" where
  "state_of s f = f_state (f_heap (s_heap s) f)"

definition run_pick :: "'c worker \<Rightarrow> 'c sched \<Rightarrow> (bool \<times> 'c worker \<times> 'c sched) result" where
  "run_pick w s =
     rbind (pick_task (state_of s) (w_tid w) (m_fibers s) False) (\<lambda>(r, q, tickle_me).
       Inr (tickle_me, w\<lparr>w_pc := Dispatch r\<rparr>,
            case r of None \<Rightarrow> s
            | Some ft \<Rightarrow> s\<lparr>m_fibers := q, m_activeThreadCount := m_activeThreadCount s + 1\<rparr>))"

definition ended :: "fstate \<Rightarrow> bool" where
  "ended st \<longleftrightarrow> st = FTERM \<or> st = EXCEPT"

definition switch_to :: "nat \<Rightarrow> 'c run_pc \<Rightarrow> 'c worker \<Rightarrow> 'c sched \<Rightarrow> ('c worker \<times> 'c sched) result" where
  "switch_to f pc w s =
     rbind (swapIn f (s_heap s) (w_th w)) (\<lambda>(fs, th). Inr (w\<lparr>w_th := th, w_pc := pc\<rparr>, s\<lparr>s_heap := fs\<rparr>))"

text \<open>\<open>addr\<close> is where the fiber of a callback is allocated when there is none to reuse.\<close>

definition run_dispatch :: "nat \<Rightarrow> nat \<Rightarrow> 'c task option \<Rightarrow> 'c worker \<Rightarrow> 'c sched \<Rightarrow> ('c worker \<times> 'c sched) result" where
  "run_dispatch g_fiber_stack_size addr r w s =
     (case r of
        Some ft \<Rightarrow>
          (let live = (case ft_fiber ft of
               Some f \<Rightarrow> if \<not> ended (state_of s f) then Some f else None
             | None \<Rightarrow> None)
           in case live of
             Some f \<Rightarrow> switch_to f (In_fiber f) w s
           | None \<Rightarrow>
               (case ft_cb ft of
                  Some cb \<Rightarrow>
                    (case w_cb_fiber w of
                       Some c \<Rightarrow> rbind (fiber_reset c (Some cb) (s_heap s)) (\<lambda>fs.
                           switch_to c In_cb w (s\<lparr>s_heap := fs\<rparr>))
                     | None \<Rightarrow> switch_to addr In_cb (w\<lparr>w_cb_fiber := Some addr\<rparr>)
                           (s\<lparr>s_heap := mk_Fiber g_fiber_stack_size addr (Some cb) 0 False (s_heap s)\<rparr>))
                | None \<Rightarrow> Inr (w\<lparr>w_pc := Loop_head\<rparr>,
                    s\<lparr>m_activeThreadCount := size_sub (m_activeThreadCount s) 1\<rparr>)))
      | None \<Rightarrow>
          if state_of s (w_idle w) = FTERM then Inr (w\<lparr>w_pc := Run_exit\<rparr>, s)
          else switch_to (w_idle w) In_idle w (s\<lparr>m_idleThreadCount := m_idleThreadCount s + 1\<rparr>))"

text \<open>The running fiber leaves in the way \<open>l\<close>; then the rest of the turn.\<close>

definition leave_worker :: "leave \<Rightarrow> 'c worker \<Rightarrow> 'c sched \<Rightarrow> 'c worker \<times> 'c sched" where
  "leave_worker l w s =
     (let (fs, th) = fiber_leave l (s_heap s) (w_th w)
      in (w\<lparr>w_th := th, w_pc := Loop_head\<rparr>, s\<lparr>s_heap := fs\<rparr>))"

definition set_state :: "nat \<Rightarrow> fstate \<Rightarrow> 'c sched \<Rightarrow> 'c sched" where
  "set_state f st s = s\<lparr>s_heap := upd_fiber (s_heap s) f (\<lambda>x. x\<lparr>f_state := st\<rparr>)\<rparr>"

definition dec_active :: "'c sched \<Rightarrow> 'c sched" where
  "dec_active s = s\<lparr>m_activeThreadCount := size_sub (m_activeThreadCount s) 1\<rparr>"

definition return_fiber :: "leave \<Rightarrow> nat \<Rightarrow> 'c worker \<Rightarrow> 'c sched \<Rightarrow> ('c worker \<times> 'c sched) result" where
  "return_fiber l f w s =
     (let (w, s) = leave_worker l w s; s = dec_active s in
      if state_of s f = READY then Inr (w, snd (schedule (mk_FiberAndThread (Some f) None (- 1)) s))
      else if \<not> ended (state_of s f) then Inr (w, set_state f HOLD s)
      else Inr (w, s))"

definition return_cb :: "leave \<Rightarrow> nat \<Rightarrow> 'c worker \<Rightarrow> 'c sched \<Rightarrow> ('c worker \<times> 'c sched) result" where
  "return_cb l c w s =
     (let (w, s) = leave_worker l w s; s = dec_active s in
      if state_of s c = READY then
        Inr (w\<lparr>w_cb_fiber := None\<rparr>, snd (schedule (mk_FiberAndThread (Some c) None (- 1)) s))
      else if ended (state_of s c) then
        rbind (fiber_reset c None (s_heap s)) (\<lambda>fs. Inr (w, s\<lparr>s_heap := fs\<rparr>))
      else Inr (w\<lparr>w_cb_fiber := None\<rparr>, set_state c HOLD s))"

definition return_idle :: "leave \<Rightarrow> 'c worker \<Rightarrow> 'c sched \<Rightarrow> ('c worker \<times> 'c sched) result" where
  "return_idle l w s =
     (let (w, s) = leave_worker l w s; s = s\<lparr>m_idleThreadCount := size_sub (m_idleThreadCount s) 1\<rparr> in
      if \<not> ended (state_of s (w_idle w)) then Inr (w, set_state (w_idle w) HOLD s) else Inr (w, s))"

definition run_return :: "leave \<Rightarrow> 'c worker \<Rightarrow> 'c sched \<Rightarrow> ('c worker \<times> 'c sched) result" where
  "run_return l w s =
     (case w_pc w of
        In_fiber f \<Rightarrow> return_fiber l f w s
      | In_cb \<Rightarrow> (case w_cb_fiber w of None \<Rightarrow> Inl Null_deref | Some c \<Rightarrow> return_cb l c w s)
      | In_idle \<Rightarrow> return_idle l w s
      | _ \<Rightarrow> Inr (w, s))"

text \<open>Turns of \<open>Scheduler::idle\<close>: yield until \<open>stopping\<close>.\<close>

definition sched_idle :: "bool \<Rightarrow> leave" where
  "sched_idle stopping = (if \<not> stopping then Yield_hold else End Returns)"

subsection \<open>Construction, start and stop\<close>

text \<open>
  \<open>has_scheduler\<close> is whether the calling thread already has a scheduler (\<^verbatim>\<open>t_scheduler\<close>), \<open>tid\<close> its
  id and \<open>addr\<close> the address of the root fiber.
\<close>

definition mk_Scheduler :: "nat \<Rightarrow> bool \<Rightarrow> int \<Rightarrow> nat \<Rightarrow> 'c option \<Rightarrow> nat \<Rightarrow> bool \<Rightarrow> 'c fibers \<Rightarrow> 'c sched result" where
  "mk_Scheduler g_fiber_stack_size has_scheduler tid addr run_cb threads use_caller fs =
     (let s = \<lparr>m_fibers = [], m_activeThreadCount = 0, m_idleThreadCount = 0, m_stopping = True,
               m_autoStop = False, m_threads = 0, m_threadCount = 0, m_threadIds = [], m_rootFiber = None,
               m_rootThread = 0, s_heap = fs\<rparr> in
      if threads = 0 then Inl (Assert_failed ''threads > 0'')
      else if use_caller then
        if has_scheduler then Inl (Assert_failed ''GetThis() == nullptr'')
        else Inr (s\<lparr>m_rootFiber := Some addr, m_rootThread := tid, m_threadIds := [tid],
                    m_threadCount := threads - 1,
                    s_heap := mk_Fiber g_fiber_stack_size addr run_cb 0 True fs\<rparr>)
      else Inr (s\<lparr>m_rootThread := - 1, m_threadCount := threads\<rparr>))"

definition destroy_Scheduler :: "'c sched \<Rightarrow> unit result" where
  "destroy_Scheduler s = (if m_stopping s then Inr () else Inl (Assert_failed ''m_stopping''))"

definition start :: "int list \<Rightarrow> 'c sched \<Rightarrow> 'c sched result" where
  "start ids s =
     (if \<not> m_stopping s then Inr s
      else if m_threads s \<noteq> 0 then Inl (Assert_failed ''m_threads.empty()'')
      else Inr (s\<lparr>m_stopping := False, m_threads := m_threadCount s,
                  m_threadIds := m_threadIds s @ take (m_threadCount s) ids\<rparr>))"

text \<open>
  \<open>stop\<close> up to the join: whether it returned early, how often it calls \<open>tickle\<close>, and whether the
  root fiber is called.  \<open>stopping\<close> is virtual, \<open>is_this\<close> is \<^verbatim>\<open>GetThis() == this\<close>.
\<close>

record stop_actions =
  stop_returned :: bool
  stop_tickles :: nat
  stop_calls_root :: bool

definition stop :: "('c sched \<Rightarrow> bool) \<Rightarrow> bool \<Rightarrow> 'c sched \<Rightarrow> (stop_actions \<times> 'c sched) result" where
  "stop stopping is_this s =
     (let s = s\<lparr>m_autoStop := True\<rparr>;
          single = (case m_rootFiber s of None \<Rightarrow> False
             | Some r \<Rightarrow> m_threadCount s = 0 \<and> (state_of s r = FTERM \<or> state_of s r = INIT));
          s = (if single then s\<lparr>m_stopping := True\<rparr> else s)
      in if single \<and> stopping s then
           Inr (\<lparr>stop_returned = True, stop_tickles = 0, stop_calls_root = False\<rparr>, s)
         else if m_rootThread s \<noteq> - 1 \<and> \<not> is_this then Inl (Assert_failed ''GetThis() == this'')
         else if m_rootThread s = - 1 \<and> is_this then Inl (Assert_failed ''GetThis() != this'')
         else let s = s\<lparr>m_stopping := True\<rparr> in
           Inr (\<lparr>stop_returned = False,
                 stop_tickles = m_threadCount s + (if m_rootFiber s \<noteq> None then 1 else 0),
                 stop_calls_root = (m_rootFiber s \<noteq> None \<and> \<not> stopping s)\<rparr>,
                s\<lparr>m_threads := 0\<rparr>))"

subsection \<open>Picking\<close>

definition eligible :: "(nat \<Rightarrow> fstate) \<Rightarrow> int \<Rightarrow> 'c task \<Rightarrow> bool" where
  "eligible st tid it \<longleftrightarrow> (ft_thread it = - 1 \<or> ft_thread it = tid) \<and>
     (case ft_fiber it of Some f \<Rightarrow> st f \<noteq> EXEC | None \<Rightarrow> True)"

lemma find_split:
  "find P q = Some x \<Longrightarrow> q = takeWhile (\<lambda>y. \<not> P y) q @ x # tl (dropWhile (\<lambda>y. \<not> P y) q)"
  by (induction q) (auto split: if_splits)

lemma pick_task_spec:
  assumes "list_all task_ok q"
  shows "\<exists>t. pick_task st tid q tm =
     Inr (find (eligible st tid) q, takeWhile (\<lambda>it. \<not> eligible st tid it) q @ tl (dropWhile (\<lambda>it. \<not> eligible st tid it) q), t)"
  using assms
proof (induction q arbitrary: tm)
  case (Cons it q)
  have ok: "task_ok it" "list_all task_ok q" using Cons.prems by simp_all
  show ?case
  proof (cases "eligible st tid it")
    case True
    then show ?thesis using ok by (auto simp: eligible_def split: option.splits)
  next
    case False
    consider "ft_thread it \<noteq> - 1" "ft_thread it \<noteq> tid" | f where "ft_thread it = - 1 \<or> ft_thread it = tid" "ft_fiber it = Some f" "st f = EXEC"
      using False by (auto simp: eligible_def split: option.splits)
    then show ?thesis
    proof cases
      case 1
      then show ?thesis using Cons.IH[OF ok(2), of True] False by auto
    next
      case 2
      then show ?thesis using Cons.IH[OF ok(2), of tm] False ok(1) by auto
    qed
  qed
qed simp

subsection \<open>Who holds which fiber\<close>

definition opt_list :: "'a option \<Rightarrow> 'a list" where
  "opt_list x = (case x of None \<Rightarrow> [] | Some a \<Rightarrow> [a])"

lemma opt_list_simps [simp]: "opt_list None = []" "opt_list (Some a) = [a]"
  by (simp_all add: opt_list_def)

fun pc_fibers :: "'c run_pc \<Rightarrow> nat list" where
  "pc_fibers (Dispatch (Some ft)) = opt_list (ft_fiber ft)"
| "pc_fibers (In_fiber f) = [f]"
| "pc_fibers _ = []"

definition worker_fibers :: "'c worker \<Rightarrow> nat list" where
  "worker_fibers w = t_main (w_th w) # w_idle w # opt_list (w_cb_fiber w) @ pc_fibers (w_pc w)"

definition queue_fibers :: "'c sched \<Rightarrow> nat list" where
  "queue_fibers s = concat (map (\<lambda>ft. opt_list (ft_fiber ft)) (m_fibers s))"

definition owned :: "'c sched \<Rightarrow> 'c worker list \<Rightarrow> nat list" where
  "owned s ws = queue_fibers s @ concat (map worker_fibers ws)"

text \<open>The fiber that a worker is inside of.\<close>

definition running :: "'c worker \<Rightarrow> nat option" where
  "running w = (case w_pc w of In_fiber f \<Rightarrow> Some f | In_cb \<Rightarrow> w_cb_fiber w | In_idle \<Rightarrow> Some (w_idle w) | _ \<Rightarrow> None)"

fun is_active :: "'c run_pc \<Rightarrow> bool" where
  "is_active (Dispatch r) \<longleftrightarrow> r \<noteq> None"
| "is_active (In_fiber f) \<longleftrightarrow> True"
| "is_active In_cb \<longleftrightarrow> True"
| "is_active _ \<longleftrightarrow> False"

definition is_idle :: "'c run_pc \<Rightarrow> bool" where
  "is_idle pc \<longleftrightarrow> pc = In_idle"

definition worker_ok :: "'c sched \<Rightarrow> 'c worker \<Rightarrow> bool" where
  "worker_ok s w \<longleftrightarrow>
     (running w \<noteq> None \<longrightarrow> t_fiber (w_th w) = running w) \<and>
     (w_pc w = In_cb \<longrightarrow> w_cb_fiber w \<noteq> None) \<and>
     (\<forall>c. w_cb_fiber w = Some c \<longrightarrow> f_stack (f_heap (s_heap s) c) \<and>
        (w_pc w \<noteq> In_cb \<longrightarrow> resettable (state_of s c)))"

definition sys_ok :: "'c sched \<Rightarrow> 'c worker list \<Rightarrow> bool" where
  "sys_ok s ws \<longleftrightarrow> distinct (owned s ws) \<and> list_all task_ok (m_fibers s) \<and> list_all (worker_ok s) ws \<and>
     (\<forall>f. state_of s f = EXEC \<longrightarrow> (\<exists>w \<in> set ws. t_main (w_th w) = f \<or> running w = Some f)) \<and>
     m_activeThreadCount s = length (filter (\<lambda>w. is_active (w_pc w)) ws) \<and>
     m_idleThreadCount s = length (filter (\<lambda>w. is_idle (w_pc w)) ws)"

lemma running_owned: "running w = Some f \<Longrightarrow> f \<in> set (worker_fibers w)"
  by (auto simp: running_def worker_fibers_def split: run_pc.splits)

lemma mset_owned_update:
  "mset (owned s' (xs @ w' # ys)) = mset (queue_fibers s') + mset (worker_fibers w') + mset (concat (map worker_fibers (xs @ ys)))"
  by (simp add: owned_def)

lemma distinct_submset: "distinct ys \<Longrightarrow> mset xs \<subseteq># mset ys \<Longrightarrow> distinct xs"
  by (metis distinct_count_atmost_1 mset_subset_eq_count[of "mset xs" "mset ys"]
      distinct_count_atmost_1 le_zero_eq count_mset_0_iff not_less_eq_eq One_nat_def
      antisym_conv3 le_less_Suc_eq less_Suc_eq_le)

lemma owned_disjoint:
  "distinct (owned s (xs @ w # ys)) \<Longrightarrow> v \<in> set (xs @ ys) \<Longrightarrow> set (worker_fibers v) \<inter> set (worker_fibers w) = {}"
  by (auto simp: owned_def)

lemma own_fiber_not_exec:
  assumes ok: "sys_ok s (xs @ w # ys)" and r: "running w = None"
    and f: "f \<in> set (w_idle w # opt_list (w_cb_fiber w) @ pc_fibers (w_pc w))"
  shows "state_of s f \<noteq> EXEC"
proof
  assume "state_of s f = EXEC"
  then obtain v where v: "v \<in> set (xs @ w # ys)" "t_main (w_th v) = f \<or> running v = Some f"
    using ok by (auto simp: sys_ok_def)
  have d: "distinct (owned s (xs @ w # ys))" using ok by (simp add: sys_ok_def)
  have fw: "f \<in> set (worker_fibers w)" using f by (simp add: worker_fibers_def)
  have fv: "f \<in> set (worker_fibers v)" using v(2) running_owned by (auto simp: worker_fibers_def)
  show False
  proof (cases "v \<in> set (xs @ ys)")
    case True
    then show False using owned_disjoint[OF d True] fw fv by blast
  next
    case False
    then have "t_main (w_th w) = f" using v r by auto
    moreover have "distinct (worker_fibers w)" using d by (simp add: owned_def)
    ultimately show False using f by (auto simp: worker_fibers_def)
  qed
qed

text \<open>A step of one worker that touches only its own fibers (and fresh ones) keeps the invariant.\<close>

lemma sys_ok_update:
  assumes ok: "sys_ok s (xs @ w # ys)"
    and fr: "distinct fr" "set fr \<inter> set (owned s (xs @ w # ys)) = {}"
    and own: "mset (queue_fibers s') + mset (worker_fibers w') \<subseteq># mset (queue_fibers s) + mset (worker_fibers w) + mset fr"
    and frame: "\<And>f. f \<notin> set (worker_fibers w) \<union> set fr \<Longrightarrow> f_heap (s_heap s') f = f_heap (s_heap s) f"
    and wok: "worker_ok s' w'" and q: "list_all task_ok (m_fibers s')"
    and ex: "\<And>f. f \<in> set (worker_fibers w) \<union> set fr \<Longrightarrow> state_of s' f = EXEC \<Longrightarrow> t_main (w_th w') = f \<or> running w' = Some f"
    and main: "t_main (w_th w') = t_main (w_th w)"
    and act: "m_activeThreadCount s' + of_bool (is_active (w_pc w)) = m_activeThreadCount s + of_bool (is_active (w_pc w'))"
    and idl: "m_idleThreadCount s' + of_bool (is_idle (w_pc w)) = m_idleThreadCount s + of_bool (is_idle (w_pc w'))"
  shows "sys_ok s' (xs @ w' # ys)"
proof -
  let ?ws = "xs @ w # ys" and ?ws' = "xs @ w' # ys"
  have d: "distinct (owned s ?ws)" using ok by (simp add: sys_ok_def)
  have "mset (owned s' ?ws') \<subseteq># mset (owned s ?ws @ fr)"
    using own by (simp add: mset_owned_update ac_simps)
  moreover have "distinct (owned s ?ws @ fr)" using d fr by auto
  ultimately have 1: "distinct (owned s' ?ws')" by (rule distinct_submset[rotated])
  have sep: "set (worker_fibers v) \<inter> (set (worker_fibers w) \<union> set fr) = {}" if "v \<in> set (xs @ ys)" for v
    using owned_disjoint[OF d that] fr(2) that by (auto simp: owned_def)
  have 2: "worker_ok s' v" if v: "v \<in> set (xs @ ys)" for v
  proof -
    have "worker_ok s v" using ok v by (auto simp: sys_ok_def list_all_iff)
    moreover have "f_heap (s_heap s') c = f_heap (s_heap s) c" if "w_cb_fiber v = Some c" for c
      using sep[OF v] frame that by (auto simp: worker_fibers_def)
    ultimately show ?thesis by (auto simp: worker_ok_def state_of_def)
  qed
  have 3: "\<exists>v \<in> set ?ws'. t_main (w_th v) = f \<or> running v = Some f" if e: "state_of s' f = EXEC" for f
  proof (cases "f \<in> set (worker_fibers w) \<union> set fr")
    case True
    then show ?thesis using ex e by auto
  next
    case False
    then have "state_of s f = EXEC" using frame e by (simp add: state_of_def)
    then obtain v where v: "v \<in> set ?ws" "t_main (w_th v) = f \<or> running v = Some f"
      using ok by (auto simp: sys_ok_def)
    then have "v \<noteq> w" using False running_owned[of w f] by (auto simp: worker_fibers_def)
    then show ?thesis using v by auto
  qed
  have 4: "m_activeThreadCount s' = length (filter (\<lambda>w. is_active (w_pc w)) ?ws')"
    "m_idleThreadCount s' = length (filter (\<lambda>w. is_idle (w_pc w)) ?ws')"
    using ok act idl by (auto simp: sys_ok_def of_bool_def split: if_splits)
  show ?thesis using 1 2 3 4 wok q by (auto simp: sys_ok_def list_all_iff)
qed

subsection \<open>The steps of a worker\<close>

lemma pick_step:
  assumes ok: "sys_ok s (xs @ w # ys)" and pc: "w_pc w = Loop_head"
  shows "\<exists>t w' s'. run_pick w s = Inr (t, w', s') \<and> sys_ok s' (xs @ w' # ys)"
proof -
  have q: "list_all task_ok (m_fibers s)" using ok by (simp add: sys_ok_def)
  let ?P = "\<lambda>it. \<not> eligible (state_of s) (w_tid w) it"
  let ?q = "takeWhile ?P (m_fibers s) @ tl (dropWhile ?P (m_fibers s))"
  obtain t where p: "pick_task (state_of s) (w_tid w) (m_fibers s) False =
      Inr (find (eligible (state_of s) (w_tid w)) (m_fibers s), ?q, t)"
    using pick_task_spec[OF q] by blast
  have wo: "worker_ok s w" using ok by (simp add: sys_ok_def)
  show ?thesis
  proof (cases "find (eligible (state_of s) (w_tid w)) (m_fibers s)")
    case None
    define w' where "w' = w\<lparr>w_pc := Dispatch None :: 'a run_pc\<rparr>"
    have "run_pick w s = Inr (t, w', s)" using p None by (simp add: run_pick_def w'_def)
    moreover have "sys_ok s (xs @ w' # ys)"
      by (rule sys_ok_update[OF ok, where fr = "[]"])
         (use wo pc q own_fiber_not_exec[OF ok] in \<open>auto simp: w'_def worker_ok_def worker_fibers_def running_def is_idle_def\<close>)
    ultimately show ?thesis by blast
  next
    case (Some ft)
    define w' where "w' = w\<lparr>w_pc := Dispatch (Some ft)\<rparr>"
    define s' where "s' = s\<lparr>m_fibers := ?q, m_activeThreadCount := m_activeThreadCount s + 1\<rparr>"
    have "run_pick w s = Inr (t, w', s')" using p Some by (simp add: run_pick_def w'_def s'_def)
    moreover have split: "m_fibers s = takeWhile ?P (m_fibers s) @ ft # tl (dropWhile ?P (m_fibers s))"
      using Some by (rule find_split)
    have own: "mset (queue_fibers s') + mset (opt_list (ft_fiber ft)) = mset (queue_fibers s)"
      using arg_cong[OF split, of "\<lambda>q. mset (concat (map (\<lambda>ft. opt_list (ft_fiber ft)) q))"]
      by (simp add: s'_def queue_fibers_def)
    have st: "state_of s' = state_of s" by (simp add: s'_def state_of_def fun_eq_iff)
    have "list_all task_ok (takeWhile ?P (m_fibers s) @ ft # tl (dropWhile ?P (m_fibers s)))"
      using q split by metis
    then have "list_all task_ok (m_fibers s')" by (simp add: s'_def)
    then have "sys_ok s' (xs @ w' # ys)"
      using own wo pc own_fiber_not_exec[OF ok]
      by (intro sys_ok_update[OF ok, where fr = "[]"])
         (auto simp: w'_def s'_def worker_ok_def worker_fibers_def running_def is_idle_def state_of_def ac_simps)
    ultimately show ?thesis by blast
  qed
qed

lemma switch_to_ok:
  assumes "state_of s f \<noteq> EXEC"
  shows "switch_to f pc w s = Inr (w\<lparr>w_th := (w_th w)\<lparr>t_fiber := Some f, on_cpu := f\<rparr>, w_pc := pc\<rparr>, set_state f EXEC s)"
  using assms by (simp add: switch_to_def swapIn_def set_state_def state_of_def SetThis_def)

lemma set_state_simps [simp]:
  "m_fibers (set_state f st s) = m_fibers s" "m_activeThreadCount (set_state f st s) = m_activeThreadCount s"
  "m_idleThreadCount (set_state f st s) = m_idleThreadCount s"
  "f_heap (s_heap (set_state f st s)) g = (if g = f then (f_heap (s_heap s) f)\<lparr>f_state := st\<rparr> else f_heap (s_heap s) g)"
  "state_of (set_state f st s) g = (if g = f then st else state_of s g)"
  by (simp_all add: set_state_def state_of_def)

lemmas step_defs = worker_ok_def worker_fibers_def running_def is_idle_def queue_fibers_def

text \<open>What the invariant says of a worker that is about to dispatch.\<close>

lemma dispatching:
  assumes ok: "sys_ok s (xs @ w # ys)" and pc: "w_pc w = Dispatch r"
  shows "worker_ok s w" "list_all task_ok (m_fibers s)" "distinct (worker_fibers w)"
    "\<And>f. f \<in> set (w_idle w # opt_list (w_cb_fiber w) @ pc_fibers (w_pc w)) \<Longrightarrow> state_of s f \<noteq> EXEC"
    "r \<noteq> None \<Longrightarrow> 1 \<le> m_activeThreadCount s"
  using ok pc own_fiber_not_exec[OF ok] by (auto simp: sys_ok_def owned_def running_def)

lemma dispatch_idle:
  assumes ok: "sys_ok s (xs @ w # ys)" and pc: "w_pc w = Dispatch None"
  shows "\<exists>w' s'. run_dispatch stk addr None w s = Inr (w', s') \<and> sys_ok s' (xs @ w' # ys)"
proof (cases "state_of s (w_idle w) = FTERM")
  case True
  note D = dispatching[OF ok pc]
  have "run_dispatch stk addr None w s = Inr (w\<lparr>w_pc := Run_exit\<rparr>, s)" using True by (simp add: run_dispatch_def)
  moreover have "sys_ok s (xs @ w\<lparr>w_pc := Run_exit\<rparr> # ys)"
    by (rule sys_ok_update[OF ok, where fr = "[]"]) (use D pc in \<open>auto simp: step_defs\<close>)
  ultimately show ?thesis by blast
next
  case False
  note D = dispatching[OF ok pc]
  define w' where "w' = w\<lparr>w_th := (w_th w)\<lparr>t_fiber := Some (w_idle w), on_cpu := w_idle w\<rparr>, w_pc := In_idle :: 'a run_pc\<rparr>"
  define s' where "s' = set_state (w_idle w) EXEC (s\<lparr>m_idleThreadCount := m_idleThreadCount s + 1\<rparr>)"
  have "run_dispatch stk addr None w s = Inr (w', s')"
    using False D by (simp add: run_dispatch_def w'_def s'_def switch_to_ok state_of_def)
  moreover have "sys_ok s' (xs @ w' # ys)"
    by (rule sys_ok_update[OF ok, where fr = "[]"])
       (use D pc in \<open>auto simp: step_defs w'_def s'_def state_of_def\<close>)
  ultimately show ?thesis by blast
qed

lemma dispatch_live:
  assumes ok: "sys_ok s (xs @ w # ys)" and pc: "w_pc w = Dispatch (Some ft)"
    and f: "ft_fiber ft = Some f" "\<not> ended (state_of s f)"
  shows "\<exists>w' s'. run_dispatch stk addr (Some ft) w s = Inr (w', s') \<and> sys_ok s' (xs @ w' # ys)"
proof -
  note D = dispatching[OF ok pc]
  define w' where "w' = w\<lparr>w_th := (w_th w)\<lparr>t_fiber := Some f, on_cpu := f\<rparr>, w_pc := In_fiber f :: 'a run_pc\<rparr>"
  define s' where "s' = set_state f EXEC s"
  have "run_dispatch stk addr (Some ft) w s = Inr (w', s')"
    using f D(4)[of f] pc by (simp add: run_dispatch_def w'_def s'_def switch_to_ok)
  moreover have "sys_ok s' (xs @ w' # ys)"
    by (rule sys_ok_update[OF ok, where fr = "[]"])
       (use D pc f in \<open>auto simp: step_defs w'_def s'_def\<close>)
  ultimately show ?thesis by blast
qed

lemma dispatch_cb:
  assumes ok: "sys_ok s (xs @ w # ys)" and pc: "w_pc w = Dispatch (Some ft)"
    and live: "(case ft_fiber ft of Some f \<Rightarrow> if \<not> ended (state_of s f) then Some f else None | None \<Rightarrow> None) = None"
    and cb: "ft_cb ft = Some cb" and fresh: "addr \<notin> set (owned s (xs @ w # ys))"
  shows "\<exists>w' s'. run_dispatch stk addr (Some ft) w s = Inr (w', s') \<and> sys_ok s' (xs @ w' # ys)"
proof (cases "w_cb_fiber w")
  case (Some c)
  note D = dispatching[OF ok pc]
  define fs where "fs = upd_fiber (s_heap s) c (\<lambda>f. f\<lparr>f_cb := ft_cb ft, f_ctx := Entry_MainFunc, f_state := INIT\<rparr>)"
  define w' where "w' = w\<lparr>w_th := (w_th w)\<lparr>t_fiber := Some c, on_cpu := c\<rparr>, w_pc := In_cb :: 'a run_pc\<rparr>"
  define s' where "s' = set_state c EXEC (s\<lparr>s_heap := fs\<rparr>)"
  have "fiber_reset c (ft_cb ft) (s_heap s) = Inr fs"
    using D(1) Some pc by (simp add: worker_ok_def fiber_reset_def fs_def state_of_def)
  then have "run_dispatch stk addr (Some ft) w s = Inr (w', s')"
    using live Some cb by (simp add: run_dispatch_def w'_def s'_def switch_to_ok state_of_def fs_def)
  moreover have "sys_ok s' (xs @ w' # ys)"
    by (rule sys_ok_update[OF ok, where fr = "[]"])
       (use D pc Some in \<open>auto simp: step_defs w'_def s'_def fs_def state_of_def\<close>)
  ultimately show ?thesis by blast
next
  case None
  note D = dispatching[OF ok pc]
  define fs where "fs = mk_Fiber stk addr (ft_cb ft) 0 False (s_heap s)"
  define w' where "w' = w\<lparr>w_cb_fiber := Some addr, w_th := (w_th w)\<lparr>t_fiber := Some addr, on_cpu := addr\<rparr>, w_pc := In_cb :: 'a run_pc\<rparr>"
  define s' where "s' = set_state addr EXEC (s\<lparr>s_heap := fs\<rparr>)"
  have "run_dispatch stk addr (Some ft) w s = Inr (w', s')"
    using live None cb by (simp add: run_dispatch_def w'_def s'_def switch_to_ok state_of_def fs_def mk_Fiber_def)
  moreover have "sys_ok s' (xs @ w' # ys)"
    by (rule sys_ok_update[OF ok, where fr = "[addr]"])
       (use D pc None fresh in \<open>auto simp: step_defs w'_def s'_def fs_def state_of_def mk_Fiber_def\<close>)
  ultimately show ?thesis by blast
qed

lemma dispatch_step:
  assumes ok: "sys_ok s (xs @ w # ys)" and pc: "w_pc w = Dispatch r"
    and fresh: "addr \<notin> set (owned s (xs @ w # ys))"
  shows "\<exists>w' s'. run_dispatch stk addr r w s = Inr (w', s') \<and> sys_ok s' (xs @ w' # ys)"
proof (cases r)
  case None
  then show ?thesis using dispatch_idle[OF ok] pc by simp
next
  case (Some ft)
  let ?live = "(case ft_fiber ft of Some f \<Rightarrow> if \<not> ended (state_of s f) then Some f else None | None \<Rightarrow> None)"
  consider f where "ft_fiber ft = Some f" "\<not> ended (state_of s f)"
    | cb where "?live = None" "ft_cb ft = Some cb" | "?live = None" "ft_cb ft = None"
    by (cases "ft_fiber ft"; cases "ft_cb ft"; fastforce split: if_splits)
  then show ?thesis
  proof cases
    case 1
    then show ?thesis using dispatch_live[OF ok] pc Some by simp
  next
    case 2
    then show ?thesis using dispatch_cb[OF ok _ _ _ fresh] pc Some by simp
  next
    case 3
    note D = dispatching[OF ok pc]
    define s' where "s' = s\<lparr>m_activeThreadCount := size_sub (m_activeThreadCount s) 1\<rparr>"
    have "run_dispatch stk addr r w s = Inr (w\<lparr>w_pc := Loop_head\<rparr>, s')"
      using 3 Some by (simp add: run_dispatch_def s'_def)
    moreover have "sys_ok s' (xs @ w\<lparr>w_pc := Loop_head\<rparr> # ys)"
      by (rule sys_ok_update[OF ok, where fr = "[]"])
         (use D pc Some in \<open>auto simp: step_defs s'_def state_of_def\<close>)
    ultimately show ?thesis by blast
  qed
qed

text \<open>Coming back from a fiber.\<close>

lemma leave_worker_eq:
  assumes "t_fiber (w_th w) = Some f"
  shows "leave_worker l w s =
     (w\<lparr>w_th := (w_th w)\<lparr>t_fiber := Some (t_main (w_th w)), on_cpu := t_main (w_th w)\<rparr>, w_pc := Loop_head\<rparr>,
      s\<lparr>s_heap := fst (fiber_leave l (s_heap s) (w_th w))\<rparr>)"
  using fiber_leave_current(2)[OF assms, of l "s_heap s"]
  by (cases "fiber_leave l (s_heap s) (w_th w)") (simp add: leave_worker_def)

text \<open>The worker and the shared state after the switch back; \<open>left_heap\<close> differs from before at \<open>f\<close> only.\<close>

definition left_worker :: "'c worker \<Rightarrow> 'c worker" where
  "left_worker w = w\<lparr>w_th := (w_th w)\<lparr>t_fiber := Some (t_main (w_th w)), on_cpu := t_main (w_th w)\<rparr>, w_pc := Loop_head\<rparr>"

definition left_sched :: "leave \<Rightarrow> 'c worker \<Rightarrow> 'c sched \<Rightarrow> 'c sched" where
  "left_sched l w s = s\<lparr>s_heap := fst (fiber_leave l (s_heap s) (w_th w))\<rparr>"

lemma left_sched_simps [simp]:
  "m_fibers (left_sched l w s) = m_fibers s" "m_activeThreadCount (left_sched l w s) = m_activeThreadCount s"
  "m_idleThreadCount (left_sched l w s) = m_idleThreadCount s"
  by (simp_all add: left_sched_def)

lemma left_heap:
  assumes "t_fiber (w_th w) = Some f"
  shows "g \<noteq> f \<Longrightarrow> f_heap (s_heap (left_sched l w s)) g = f_heap (s_heap s) g"
    and "f_stack (f_heap (s_heap (left_sched l w s)) f) = f_stack (f_heap (s_heap s) f)"
  using fiber_leave_current(1)[OF assms, of l "s_heap s"] by (simp_all add: left_sched_def)

lemma returning:
  assumes ok: "sys_ok s (xs @ w # ys)" and run: "running w = Some f"
  shows "list_all task_ok (m_fibers s)" "distinct (worker_fibers w)" "worker_ok s w"
    "leave_worker l w s = (left_worker w, left_sched l w s)"
    "g \<noteq> f \<Longrightarrow> f_heap (s_heap (left_sched l w s)) g = f_heap (s_heap s) g"
    "g \<noteq> f \<Longrightarrow> state_of (left_sched l w s) g = state_of s g"
    "f_stack (f_heap (s_heap (left_sched l w s)) f) = f_stack (f_heap (s_heap s) f)"
    "is_active (w_pc w) \<Longrightarrow> 1 \<le> m_activeThreadCount s" "is_idle (w_pc w) \<Longrightarrow> 1 \<le> m_idleThreadCount s"
    "g \<in> set (worker_fibers w) \<Longrightarrow> g \<noteq> f \<Longrightarrow> g \<noteq> t_main (w_th w) \<Longrightarrow> state_of s g \<noteq> EXEC"
proof -
  have tf: "t_fiber (w_th w) = Some f" using ok run by (auto simp: sys_ok_def worker_ok_def)
  show "list_all task_ok (m_fibers s)" "distinct (worker_fibers w)" "worker_ok s w"
    "is_active (w_pc w) \<Longrightarrow> 1 \<le> m_activeThreadCount s" "is_idle (w_pc w) \<Longrightarrow> 1 \<le> m_idleThreadCount s"
    using ok by (auto simp: sys_ok_def owned_def)
  show "leave_worker l w s = (left_worker w, left_sched l w s)"
    using leave_worker_eq[OF tf] by (simp add: left_worker_def left_sched_def)
  show "g \<noteq> f \<Longrightarrow> f_heap (s_heap (left_sched l w s)) g = f_heap (s_heap s) g"
    "g \<noteq> f \<Longrightarrow> state_of (left_sched l w s) g = state_of s g"
    "f_stack (f_heap (s_heap (left_sched l w s)) f) = f_stack (f_heap (s_heap s) f)"
    using left_heap[OF tf] by (simp_all add: state_of_def)
  show "state_of s g \<noteq> EXEC" if g: "g \<in> set (worker_fibers w)" "g \<noteq> f" "g \<noteq> t_main (w_th w)"
  proof
    assume "state_of s g = EXEC"
    then obtain v where v: "v \<in> set (xs @ w # ys)" "t_main (w_th v) = g \<or> running v = Some g"
      using ok by (auto simp: sys_ok_def)
    then have "v \<in> set (xs @ ys)" using g run by auto
    then show False
      using owned_disjoint[of s xs w ys v] ok v(2) g(1) running_owned[of v g]
      by (auto simp: sys_ok_def worker_fibers_def)
  qed
qed

lemma returned_ok:
  assumes ok: "sys_ok s (xs @ w # ys)" and run: "running w = Some f"
    and frame: "\<And>g. g \<noteq> f \<Longrightarrow> f_heap (s_heap s') g = f_heap (s_heap s) g"
    and nex: "state_of s' f \<noteq> EXEC"
    and own: "mset (queue_fibers s') + mset (worker_fibers w') \<subseteq># mset (queue_fibers s) + mset (worker_fibers w)"
    and q: "list_all task_ok (m_fibers s')"
    and pc: "w_pc w' = Loop_head" and main: "t_main (w_th w') = t_main (w_th w)"
    and cb: "\<And>c. w_cb_fiber w' = Some c \<Longrightarrow> w_cb_fiber w = Some c \<and>
        (c = f \<longrightarrow> f_stack (f_heap (s_heap s') f) \<and> resettable (state_of s' f))"
    and act: "m_activeThreadCount s' + of_bool (is_active (w_pc w)) = m_activeThreadCount s"
    and idl: "m_idleThreadCount s' + of_bool (is_idle (w_pc w)) = m_idleThreadCount s"
  shows "sys_ok s' (xs @ w' # ys)"
proof -
  note R = returning[OF ok run]
  have wok: "worker_ok s' w'"
  proof -
    have "f_stack (f_heap (s_heap s') c) \<and> resettable (state_of s' c)" if "w_cb_fiber w' = Some c" for c
    proof (cases "c = f")
      case False
      then have "w_pc w \<noteq> In_cb" using cb[OF that] run by (auto simp: running_def)
      then show ?thesis using R(3) cb[OF that] frame[OF False] by (auto simp: worker_ok_def state_of_def)
    qed (use cb[OF that] in auto)
    then show ?thesis by (auto simp: worker_ok_def running_def pc)
  qed
  have ex: "t_main (w_th w') = g \<or> running w' = Some g"
    if "g \<in> set (worker_fibers w) \<union> set []" "state_of s' g = EXEC" for g
    using R(10)[of g] frame[of g] nex that main by (cases "g = f") (auto simp: state_of_def)
  have fr: "f_heap (s_heap s') g = f_heap (s_heap s) g" if "g \<notin> set (worker_fibers w) \<union> set []" for g
    using frame[of g] running_owned[OF run] that by auto
  show ?thesis
    by (rule sys_ok_update[where fr = "[]", OF ok _ _ _ fr wok q ex main]) (use own act idl pc in \<open>auto simp: is_idle_def\<close>)
qed

lemma return_fiber_step:
  assumes ok: "sys_ok s (xs @ w # ys)" and pc: "w_pc w = In_fiber f"
  shows "\<exists>w' s'. run_return l w s = Inr (w', s') \<and> sys_ok s' (xs @ w' # ys)"
proof -
  have run: "running w = Some f" by (simp add: running_def pc)
  note R = returning[OF ok run]
  define s1 where "s1 = dec_active (left_sched l w s)"
  define s' where "s' = (if state_of s1 f = READY then s1\<lparr>m_fibers := m_fibers s @ [mk_FiberAndThread (Some f) None (- 1)]\<rparr>
     else if \<not> ended (state_of s1 f) then set_state f HOLD s1 else s1)"
  have "run_return l w s = Inr (left_worker w, s')"
    by (simp add: run_return_def pc return_fiber_def R(4) s'_def s1_def schedule_def scheduleNoLock_def
          task_ok_def mk_FiberAndThread_def dec_active_def)
  moreover have "sys_ok s' (xs @ left_worker w # ys)"
    by (rule returned_ok[OF ok run])
       (use R(1,2,5,8) pc in \<open>auto simp: s'_def s1_def dec_active_def ended_def left_worker_def worker_fibers_def
          queue_fibers_def task_ok_def mk_FiberAndThread_def state_of_def is_idle_def\<close>)
  ultimately show ?thesis by blast
qed

lemma return_idle_step:
  assumes ok: "sys_ok s (xs @ w # ys)" and pc: "w_pc w = In_idle"
  shows "\<exists>w' s'. run_return l w s = Inr (w', s') \<and> sys_ok s' (xs @ w' # ys)"
proof -
  have run: "running w = Some (w_idle w)" by (simp add: running_def pc)
  note R = returning[OF ok run]
  define s1 where "s1 = (left_sched l w s)\<lparr>m_idleThreadCount := size_sub (m_idleThreadCount s) 1\<rparr>"
  define s' where "s' = (if \<not> ended (state_of s1 (w_idle w)) then set_state (w_idle w) HOLD s1 else s1)"
  have "run_return l w s = Inr (left_worker w, s')"
    by (simp add: run_return_def pc return_idle_def R(4) s'_def s1_def left_worker_def)
  moreover have "sys_ok s' (xs @ left_worker w # ys)"
    by (rule returned_ok[OF ok run])
       (use R(1,2,5,9) pc in \<open>auto simp: s'_def s1_def ended_def left_worker_def worker_fibers_def
          queue_fibers_def state_of_def is_idle_def\<close>)
  ultimately show ?thesis by blast
qed

lemma return_cb_step:
  assumes ok: "sys_ok s (xs @ w # ys)" and pc: "w_pc w = In_cb"
  shows "\<exists>w' s'. run_return l w s = Inr (w', s') \<and> sys_ok s' (xs @ w' # ys)"
proof -
  obtain c where c: "w_cb_fiber w = Some c" "f_stack (f_heap (s_heap s) c)"
    using ok pc by (auto simp: sys_ok_def worker_ok_def)
  have run: "running w = Some c" by (simp add: running_def pc c)
  note R = returning[OF ok run]
  define s1 where "s1 = dec_active (left_sched l w s)"
  have st: "f_stack (f_heap (s_heap s1) c)" using R(7) c(2) by (simp add: s1_def dec_active_def)
  show ?thesis
  proof (cases "ended (state_of s1 c)")
    case True
    define s' where "s' = s1\<lparr>s_heap := upd_fiber (s_heap s1) c (\<lambda>f. f\<lparr>f_cb := None, f_ctx := Entry_MainFunc, f_state := INIT\<rparr>)\<rparr>"
    have "run_return l w s = Inr (left_worker w, s')"
      using True st by (auto simp: run_return_def pc c return_cb_def R(4) s'_def fiber_reset_def resettable_def ended_def
          state_of_def simp flip: s1_def)
    moreover have "sys_ok s' (xs @ left_worker w # ys)"
      by (rule returned_ok[OF ok run])
         (use R(1,2,5,8) pc c st in \<open>auto simp: s'_def s1_def dec_active_def left_worker_def worker_fibers_def
            queue_fibers_def state_of_def is_idle_def resettable_def\<close>)
    ultimately show ?thesis by blast
  next
    case False
    define s' where "s' = (if state_of s1 c = READY then s1\<lparr>m_fibers := m_fibers s @ [mk_FiberAndThread (Some c) None (- 1)]\<rparr>
       else set_state c HOLD s1)"
    define w' where "w' = (left_worker w)\<lparr>w_cb_fiber := None\<rparr>"
    have "run_return l w s = Inr (w', s')"
      using False by (simp add: run_return_def pc c return_cb_def R(4) s'_def w'_def schedule_def scheduleNoLock_def
          task_ok_def mk_FiberAndThread_def s1_def dec_active_def)
    moreover have "sys_ok s' (xs @ w' # ys)"
      by (rule returned_ok[OF ok run])
         (use R(1,2,5,8) pc c in \<open>auto simp: s'_def s1_def w'_def dec_active_def left_worker_def worker_fibers_def
            queue_fibers_def state_of_def is_idle_def task_ok_def mk_FiberAndThread_def\<close>)
    ultimately show ?thesis by blast
  qed
qed

lemma return_step:
  assumes ok: "sys_ok s (xs @ w # ys)" and run: "running w = Some f"
  shows "\<exists>w' s'. run_return l w s = Inr (w', s') \<and> sys_ok s' (xs @ w' # ys)"
  using run return_fiber_step[OF ok] return_idle_step[OF ok] return_cb_step[OF ok]
  by (cases "w_pc w") (auto simp: running_def)

lemma schedule_ok:
  assumes ok: "sys_ok s ws" and f: "set (opt_list (ft_fiber ft)) \<inter> set (owned s ws) = {}"
  shows "sys_ok (snd (schedule ft s)) ws"
proof (cases "task_ok ft")
  case True
  have "distinct (owned (s\<lparr>m_fibers := m_fibers s @ [ft]\<rparr>) ws)"
    using ok f by (cases "ft_fiber ft") (auto simp: sys_ok_def owned_def queue_fibers_def)
  moreover have "state_of (s\<lparr>m_fibers := m_fibers s @ [ft]\<rparr>) = state_of s" by (simp add: state_of_def fun_eq_iff)
  moreover have "worker_ok (s\<lparr>m_fibers := m_fibers s @ [ft]\<rparr>) = worker_ok s"
    by (simp add: worker_ok_def state_of_def fun_eq_iff)
  ultimately show ?thesis using ok True by (simp add: sys_ok_def schedule_def scheduleNoLock_def)
qed (use ok in \<open>simp add: schedule_def scheduleNoLock_def\<close>)

subsection \<open>Interleavings\<close>

text \<open>
  The steps of the workers and of the outside: a call of \<open>schedule\<close> with a task whose fiber nobody
  holds, and \<open>start\<close> and \<open>stop\<close>, which for the workers are changes of the two flags.
\<close>

inductive sys_step :: "'c sched \<times> 'c worker list \<Rightarrow> 'c sched \<times> 'c worker list \<Rightarrow> bool" where
  step_pick: "w_pc w = Loop_head \<Longrightarrow> run_pick w s = Inr (t, w', s') \<Longrightarrow>
     sys_step (s, xs @ w # ys) (s', xs @ w' # ys)"
| step_dispatch: "w_pc w = Dispatch r \<Longrightarrow> addr \<notin> set (owned s (xs @ w # ys)) \<Longrightarrow>
     run_dispatch stk addr r w s = Inr (w', s') \<Longrightarrow> sys_step (s, xs @ w # ys) (s', xs @ w' # ys)"
| step_return: "running w = Some f \<Longrightarrow> run_return l w s = Inr (w', s') \<Longrightarrow>
     sys_step (s, xs @ w # ys) (s', xs @ w' # ys)"
| step_schedule: "set (opt_list (ft_fiber ft)) \<inter> set (owned s ws) = {} \<Longrightarrow>
     sys_step (s, ws) (snd (schedule ft s), ws)"
| step_flags: "sys_step (s, ws) (s\<lparr>m_stopping := a, m_autoStop := b\<rparr>, ws)"

inductive_cases sys_stepE: "sys_step (s, ws) (s', ws')"

text \<open>Workers that have just entered \<open>run\<close>: only their main fibers execute.\<close>

definition sys_init :: "'c sched \<Rightarrow> 'c worker list \<Rightarrow> bool" where
  "sys_init s ws \<longleftrightarrow> m_fibers s = [] \<and> m_activeThreadCount s = 0 \<and> m_idleThreadCount s = 0 \<and>
     distinct (concat (map worker_fibers ws)) \<and>
     (\<forall>w \<in> set ws. w_pc w = Loop_head \<and> w_cb_fiber w = None) \<and>
     (\<forall>f. state_of s f = EXEC \<longrightarrow> f \<in> (\<lambda>w. t_main (w_th w)) ` set ws)"

lemma sys_init_ok: "sys_init s ws \<Longrightarrow> sys_ok s ws"
  by (auto simp: sys_init_def sys_ok_def owned_def queue_fibers_def list_all_iff worker_ok_def running_def is_idle_def
      filter_empty_conv)

lemma sys_step_ok: "sys_step c c' \<Longrightarrow> sys_ok (fst c) (snd c) \<Longrightarrow> sys_ok (fst c') (snd c')"
proof (induction rule: sys_step.induct)
  case (step_pick w s t w' s' xs ys)
  then show ?case using pick_step[of s xs w ys] by auto
next
  case (step_dispatch w r addr s xs ys stk w' s')
  then show ?case using dispatch_step[of s xs w ys r addr stk] by auto
next
  case (step_return w f l s w' s' xs ys)
  then show ?case using return_step[of s xs w ys f l] by auto
next
  case (step_schedule ft s ws)
  then show ?case by (simp add: schedule_ok)
next
  case (step_flags s ws a b)
  then show ?case by (auto simp: sys_ok_def owned_def queue_fibers_def list_all_iff worker_ok_def state_of_def)
qed

lemma sys_reach_ok:
  assumes "sys_step\<^sup>*\<^sup>* (s0, ws0) (s, ws)" "sys_init s0 ws0"
  shows "sys_ok s ws"
proof -
  have "sys_ok (fst (s, ws)) (snd (s, ws))"
    using assms(1) by (induction rule: rtranclp_induct) (use assms(2) sys_init_ok sys_step_ok in auto)
  then show ?thesis by simp
qed

subsection \<open>Properties\<close>

text \<open>A scheduler with one worker that has just entered \<open>run\<close>.\<close>

definition one_worker :: "unit worker" where
  "one_worker = \<lparr>w_tid = 9, w_th = main_thread, w_idle = 2, w_cb_fiber = None, w_pc = Loop_head\<rparr>"

definition fresh_sched :: "unit sched" where
  "fresh_sched = \<lparr>m_fibers = [], m_activeThreadCount = 0, m_idleThreadCount = 0, m_stopping = False,
     m_autoStop = False, m_threads = 1, m_threadCount = 1, m_threadIds = [9], m_rootFiber = None,
     m_rootThread = - 1,
     s_heap = mk_Fiber 1024 2 (Some ()) 0 False (fst (Fiber_main 1 no_fibers main_thread))\<rparr>"

lemma one_worker_init: "sys_init fresh_sched [one_worker]"
  by (auto simp: sys_init_def fresh_sched_def one_worker_def worker_fibers_def main_thread_def state_of_def
      mk_Fiber_def Fiber_main_def no_fibers_def split: if_splits)

text \<open>
  A worker takes the first task of the queue that it may run (not pinned to another thread, and
  its fiber not executing), leaves the others in their order, and counts itself active; if there
  is none the queue and the counter stay as they are.
\<close>

theorem pick_first_eligible:
  assumes "list_all task_ok (m_fibers s)"
  shows "case find (eligible (state_of s) (w_tid w)) (m_fibers s) of
      None \<Rightarrow> \<exists>t. run_pick w s = Inr (t, w\<lparr>w_pc := Dispatch None\<rparr>, s)
    | Some ft \<Rightarrow> \<exists>t pre post. m_fibers s = pre @ ft # post \<and> (\<forall>it \<in> set pre. \<not> eligible (state_of s) (w_tid w) it) \<and>
        run_pick w s = Inr (t, w\<lparr>w_pc := Dispatch (Some ft)\<rparr>,
          s\<lparr>m_fibers := pre @ post, m_activeThreadCount := m_activeThreadCount s + 1\<rparr>)"
proof (cases "find (eligible (state_of s) (w_tid w)) (m_fibers s)")
  case None
  then show ?thesis using pick_task_spec[OF assms, of "state_of s" "w_tid w" False]
    by (auto simp: run_pick_def)
next
  case (Some ft)
  note sp = find_split[OF Some]
  obtain t where "run_pick w s = Inr (t, w\<lparr>w_pc := Dispatch (Some ft)\<rparr>,
      s\<lparr>m_fibers := takeWhile (\<lambda>it. \<not> eligible (state_of s) (w_tid w) it) (m_fibers s) @
            tl (dropWhile (\<lambda>it. \<not> eligible (state_of s) (w_tid w) it) (m_fibers s)),
         m_activeThreadCount := m_activeThreadCount s + 1\<rparr>)"
    using pick_task_spec[OF assms, of "state_of s" "w_tid w" False] Some by (auto simp: run_pick_def)
  moreover have "\<forall>it \<in> set (takeWhile (\<lambda>it. \<not> eligible (state_of s) (w_tid w) it) (m_fibers s)).
      \<not> eligible (state_of s) (w_tid w) it" by (auto dest: set_takeWhileD)
  ultimately show ?thesis using Some sp by fastforce
qed

theorem pick_first_eligible_witness:
  "\<exists>t. run_pick one_worker fresh_sched = Inr (t, one_worker\<lparr>w_pc := Dispatch None\<rparr>, fresh_sched)"
proof -
  have "list_all task_ok (m_fibers fresh_sched)" "m_fibers fresh_sched = []" by (simp_all add: fresh_sched_def)
  then show ?thesis using pick_first_eligible[of fresh_sched one_worker] by simp
qed





end
