(* ===== verification/Std_Set.thy ===== *)
theory Std_Set
  imports Captain_Prelude
begin

text \<open>
  \<^verbatim>\<open>std::set\<close> with a user-defined comparison, as its specification has it: the elements in
  ascending order, \<open>set_insert\<close> which does nothing when an equivalent element is present,
  \<open>set_find\<close> and \<open>set_lower_bound\<close> which search by the comparison, and \<open>set_erase\<close> by position.
  What they rely on is that the comparison is a strict total order (locale \<open>ordered_set\<close>);
  the facts that the timers need are proved once inside it.
\<close>

primrec set_insert :: "('a \<Rightarrow> 'a \<Rightarrow> bool) \<Rightarrow> 'a \<Rightarrow> 'a list \<Rightarrow> 'a list" where
  "set_insert cmp x [] = [x]"
| "set_insert cmp x (y # ys) =
     (if cmp y x then y # set_insert cmp x ys else if cmp x y then x # y # ys else y # ys)"

definition set_lower_bound :: "('a \<Rightarrow> 'b \<Rightarrow> bool) \<Rightarrow> 'b \<Rightarrow> 'a list \<Rightarrow> nat" where
  "set_lower_bound cmp x xs = length (takeWhile (\<lambda>y. cmp y x) xs)"

text \<open>The position of the element equivalent to \<open>x\<close>; \<open>None\<close> is \<^verbatim>\<open>end()\<close>.\<close>

definition set_find :: "('a \<Rightarrow> 'a \<Rightarrow> bool) \<Rightarrow> 'a \<Rightarrow> 'a list \<Rightarrow> nat option" where
  "set_find cmp x xs =
     (let i = set_lower_bound cmp x xs in
      if i < length xs \<and> \<not> cmp x (xs ! i) then Some i else None)"

definition set_erase :: "nat \<Rightarrow> 'a list \<Rightarrow> 'a list" where
  "set_erase i xs = take i xs @ drop (Suc i) xs"

locale ordered_set =
  fixes cmp :: "'a \<Rightarrow> 'a \<Rightarrow> bool"
  assumes irrefl: "\<not> cmp a a"
    and trans: "cmp a b \<Longrightarrow> cmp b c \<Longrightarrow> cmp a c"
    and total: "a \<noteq> b \<Longrightarrow> cmp a b \<or> cmp b a"
begin

lemma asym: "cmp a b \<Longrightarrow> \<not> cmp b a"
  using irrefl trans by blast

lemma sorted_distinct: "sorted_wrt cmp xs \<Longrightarrow> distinct xs"
  by (induction xs) (auto simp: irrefl)

lemma set_insert_set: "set (set_insert cmp x xs) = insert x (set xs)"
  by (induction xs) (auto dest: total)

lemma sorted_insert: "sorted_wrt cmp xs \<Longrightarrow> sorted_wrt cmp (set_insert cmp x xs)"
  by (induction xs) (auto simp: set_insert_set dest: total intro: trans)

lemma insert_hd:
  "sorted_wrt cmp xs \<Longrightarrow> x \<notin> set xs \<Longrightarrow>
   hd (set_insert cmp x xs) = x \<longleftrightarrow> (\<forall>y \<in> set xs. cmp x y)"
  by (cases xs) (auto dest: total asym intro: trans)

lemma insert_Cons_hd: "set_insert cmp x xs \<noteq> []"
  by (cases xs) auto

lemma lower_bound_nth:
  assumes "sorted_wrt cmp xs" "i < length xs" "xs ! i = x"
  shows "set_lower_bound cmp x xs = i"
proof -
  have "takeWhile (\<lambda>y. cmp y x) xs = take i xs"
  proof (rule takeWhile_eq_take_P_nth)
    fix j assume "j < i" "j < length xs"
    then show "cmp (xs ! j) x" using assms sorted_wrt_nth_less by fastforce
  qed (simp add: assms irrefl)
  then show ?thesis using assms(2) by (simp add: set_lower_bound_def)
qed

lemma find_mem:
  assumes "sorted_wrt cmp xs" "x \<in> set xs"
  obtains i where "set_find cmp x xs = Some i" "i < length xs" "xs ! i = x"
proof -
  obtain i where i: "i < length xs" "xs ! i = x" using assms(2) by (auto simp: in_set_conv_nth)
  then have "set_find cmp x xs = Some i"
    using lower_bound_nth[OF assms(1) i] by (simp add: set_find_def irrefl)
  then show ?thesis using i that by blast
qed

lemma find_not_mem:
  assumes "sorted_wrt cmp xs" "x \<notin> set xs"
  shows "set_find cmp x xs = None"
proof -
  have "cmp x (xs ! i)" if "i = set_lower_bound cmp x xs" "i < length xs" for i
  proof -
    have "\<not> cmp (xs ! i) x" using that nth_length_takeWhile[of "\<lambda>y. cmp y x" xs]
      by (simp add: set_lower_bound_def)
    moreover have "xs ! i \<noteq> x" using assms(2) that(2) nth_mem by metis
    ultimately show ?thesis using total by blast
  qed
  then show ?thesis by (auto simp: set_find_def Let_def)
qed

lemma find_Some_iff:
  "sorted_wrt cmp xs \<Longrightarrow> (\<exists>i. set_find cmp x xs = Some i) \<longleftrightarrow> x \<in> set xs"
  by (metis find_mem find_not_mem option.distinct(1))

lemma sorted_erase: "sorted_wrt cmp xs \<Longrightarrow> sorted_wrt cmp (set_erase i xs)"
proof -
  assume "sorted_wrt cmp xs"
  then have "sorted_wrt cmp (take i xs @ drop i xs)" by simp
  then show ?thesis unfolding set_erase_def sorted_wrt_append
    by (metis drop_Suc_Cons in_set_dropD sorted_wrt_drop Suc_eq_plus1_left drop_drop)
qed

lemma set_erase_set:
  assumes "sorted_wrt cmp xs" "i < length xs"
  shows "set (set_erase i xs) = set xs - {xs ! i}"
proof -
  have e: "xs = take i xs @ xs ! i # drop (Suc i) xs" using assms(2) by (rule id_take_nth_drop)
  have "distinct xs" using assms(1) by (rule sorted_distinct)
  then have "xs ! i \<notin> set (take i xs) \<union> set (drop (Suc i) xs)"
    using e by (metis Un_iff distinct.simps(2) distinct_append disjoint_iff list.set_intros(1))
  moreover have "set xs = set (take i xs) \<union> {xs ! i} \<union> set (drop (Suc i) xs)"
    by (subst e) auto
  ultimately show ?thesis by (auto simp: set_erase_def)
qed

end

lemma set_insert_cong:
  "(\<And>y. y \<in> set xs \<Longrightarrow> cmp y x = cmp' y x \<and> cmp x y = cmp' x y) \<Longrightarrow>
   set_insert cmp x xs = set_insert cmp' x xs"
  by (induction xs) auto

end
