(* ===== verification/Timer.thy ===== *)
theory Timer
  imports Std_Set
begin

text \<open>
  Timers: \<^verbatim>\<open>captain/timer.cpp\<close>.  A \<open>Timer\<close> object lives at an address of \<open>t_heap\<close>; the manager's
  \<open>m_timers\<close> is a \<^verbatim>\<open>std::set\<close> of addresses ordered by \<open>Comparator\<close> on the objects they point to.
  A \<^verbatim>\<open>std::function\<close> is an optional \<open>timer_fn\<close> (\<open>None\<close> is the empty function); \<open>now\<close> is the
  value of \<^verbatim>\<open>GetCurrentMS()\<close> and the address of a new object is an argument.  The bodies of the
  critical sections are the atomic steps.  \<open>onTimerInsertedAtFront\<close> is a virtual function of the
  derived class: \<open>addTimer_locked\<close> returns whether it is called.

  Proved: the invariant \<open>tm_ok\<close> (the set is strictly ascending and holds exactly the timers with a
  callback) along every sequence of operations, that \<open>listExpiredCb\<close> hands out exactly the due
  callbacks in order of their deadlines, and that \<open>getNextTimer\<close> is the distance to the earliest
  deadline.
\<close>

datatype 'c timer_fn = Fn 'c | OnTimer_bind nat 'c

text \<open>The calls a callback makes, given which condition objects are still alive.\<close>

definition OnTimer :: "bool \<Rightarrow> 'c \<Rightarrow> 'c list" where
  "OnTimer tmp cb = (if tmp then [cb] else [])"

fun run_fn :: "(nat \<Rightarrow> bool) \<Rightarrow> 'c timer_fn \<Rightarrow> 'c list" where
  "run_fn alive (Fn cb) = [cb]"
| "run_fn alive (OnTimer_bind weak_cond cb) = OnTimer (alive weak_cond) cb"

record 'c timer =
  m_recurring :: bool
  m_ms :: "64 word"
  m_next :: "64 word"
  m_cb :: "'c timer_fn option"

record 'c timer_manager =
  t_heap :: "nat \<Rightarrow> 'c timer"
  m_timers :: "nat list"
  m_tickled :: bool
  m_previouseTime :: "64 word"

subsection \<open>Operations\<close>

definition Comparator :: "(nat \<times> 'c timer) option \<Rightarrow> (nat \<times> 'c timer) option \<Rightarrow> bool" where
  "Comparator lhs rhs =
     (case (lhs, rhs) of
        (None, None) \<Rightarrow> False
      | (None, Some _) \<Rightarrow> True
      | (Some _, None) \<Rightarrow> False
      | (Some (la, l), Some (ra, r)) \<Rightarrow>
          if m_next l < m_next r then True
          else if m_next r < m_next l then False
          else la < ra)"

definition tless :: "(nat \<Rightarrow> 'c timer) \<Rightarrow> nat \<Rightarrow> nat \<Rightarrow> bool" where
  "tless h a b = Comparator (Some (a, h a)) (Some (b, h b))"

definition mk_Timer :: "64 word \<Rightarrow> 64 word \<Rightarrow> 'c timer_fn option \<Rightarrow> bool \<Rightarrow> 'c timer" where
  "mk_Timer now ms cb recurring = \<lparr>m_recurring = recurring, m_ms = ms, m_next = now + ms, m_cb = cb\<rparr>"

definition mk_Timer_at :: "64 word \<Rightarrow> 'c timer" where
  "mk_Timer_at nxt = \<lparr>m_recurring = False, m_ms = 0, m_next = nxt, m_cb = None\<rparr>"

definition mk_TimerManager :: "64 word \<Rightarrow> 'c timer_manager" where
  "mk_TimerManager now = \<lparr>t_heap = (\<lambda>_. mk_Timer_at 0), m_timers = [], m_tickled = False, m_previouseTime = now\<rparr>"

definition addTimer_locked :: "'c timer_manager \<Rightarrow> nat \<Rightarrow> bool \<times> 'c timer_manager" where
  "addTimer_locked tm val =
     (let timers = set_insert (tless (t_heap tm)) val (m_timers tm);
          at_front = (set_find (tless (t_heap tm)) val timers = Some 0 \<and> \<not> m_tickled tm)
      in (at_front, tm\<lparr>m_timers := timers, m_tickled := (if at_front then True else m_tickled tm)\<rparr>))"

definition addTimer :: "64 word \<Rightarrow> nat \<Rightarrow> 'c timer_manager \<Rightarrow> 64 word \<Rightarrow> 'c timer_fn option \<Rightarrow> bool
    \<Rightarrow> bool \<times> 'c timer_manager" where
  "addTimer now addr tm ms cb recurring =
     addTimer_locked (tm\<lparr>t_heap := (t_heap tm)(addr := mk_Timer now ms cb recurring)\<rparr>) addr"

definition addConditionTimer :: "64 word \<Rightarrow> nat \<Rightarrow> 'c timer_manager \<Rightarrow> 64 word \<Rightarrow> 'c \<Rightarrow> nat \<Rightarrow> bool
    \<Rightarrow> bool \<times> 'c timer_manager" where
  "addConditionTimer now addr tm ms cb weak_cond recurring =
     addTimer now addr tm ms (Some (OnTimer_bind weak_cond cb)) recurring"

definition cancel :: "'c timer_manager \<Rightarrow> nat \<Rightarrow> (bool \<times> 'c timer_manager) result" where
  "cancel tm this =
     (if m_cb (t_heap tm this) \<noteq> None then
        let h = (t_heap tm)(this := (t_heap tm this)\<lparr>m_cb := None\<rparr>) in
        case set_find (tless h) this (m_timers tm) of
          None \<Rightarrow> Inl Oob_access
        | Some it \<Rightarrow> Inr (True, tm\<lparr>t_heap := h, m_timers := set_erase it (m_timers tm)\<rparr>)
      else Inr (False, tm))"

definition refresh :: "64 word \<Rightarrow> 'c timer_manager \<Rightarrow> nat \<Rightarrow> bool \<times> 'c timer_manager" where
  "refresh now tm this =
     (if m_cb (t_heap tm this) = None then (False, tm)
      else case set_find (tless (t_heap tm)) this (m_timers tm) of
        None \<Rightarrow> (False, tm)
      | Some it \<Rightarrow>
          let timers = set_erase it (m_timers tm);
              h = (t_heap tm)(this := (t_heap tm this)\<lparr>m_next := now + m_ms (t_heap tm this)\<rparr>)
          in (True, tm\<lparr>t_heap := h, m_timers := set_insert (tless h) this timers\<rparr>))"

text \<open>\<open>reset\<close> returns its result and whether \<open>onTimerInsertedAtFront\<close> is called.\<close>

definition reset :: "64 word \<Rightarrow> 'c timer_manager \<Rightarrow> nat \<Rightarrow> 64 word \<Rightarrow> bool \<Rightarrow> bool \<times> bool \<times> 'c timer_manager" where
  "reset now tm this ms from_now =
     (if ms = m_ms (t_heap tm this) \<and> \<not> from_now then (True, False, tm)
      else if m_cb (t_heap tm this) = None then (False, False, tm)
      else case set_find (tless (t_heap tm)) this (m_timers tm) of
        None \<Rightarrow> (False, False, tm)
      | Some it \<Rightarrow>
          let timers = set_erase it (m_timers tm);
              start = (if from_now then now else m_next (t_heap tm this) - m_ms (t_heap tm this));
              h = (t_heap tm)(this := (t_heap tm this)\<lparr>m_ms := ms, m_next := start + ms\<rparr>)
          in (True, addTimer_locked (tm\<lparr>t_heap := h, m_timers := timers\<rparr>) this))"

definition getNextTimer :: "64 word \<Rightarrow> 'c timer_manager \<Rightarrow> 64 word \<times> 'c timer_manager" where
  "getNextTimer now_ms tm =
     (let tm = tm\<lparr>m_tickled := False\<rparr> in
      if m_timers tm = [] then (- 1, tm)
      else let nxt = t_heap tm (hd (m_timers tm)) in
        if now_ms \<ge> m_next nxt then (0, tm) else (m_next nxt - now_ms, tm))"

definition detectClockRollover :: "64 word \<Rightarrow> 'c timer_manager \<Rightarrow> bool \<times> 'c timer_manager" where
  "detectClockRollover now_ms tm =
     (let rollover = (now_ms < m_previouseTime tm \<and> now_ms < m_previouseTime tm - 60 * 60 * 1000)
      in (rollover, tm\<lparr>m_previouseTime := now_ms\<rparr>))"

text \<open>The loop over the expired timers, on the heap and the set.\<close>

fun expire_loop :: "64 word \<Rightarrow> nat list \<Rightarrow> (nat \<Rightarrow> 'c timer) \<Rightarrow> nat list \<Rightarrow> 'c timer_fn option list
    \<Rightarrow> (nat \<Rightarrow> 'c timer) \<times> nat list \<times> 'c timer_fn option list" where
  "expire_loop now_ms [] h timers cbs = (h, timers, cbs)"
| "expire_loop now_ms (timer # expired) h timers cbs =
     (let cbs = cbs @ [m_cb (h timer)] in
      if m_recurring (h timer) then
        let h = h(timer := (h timer)\<lparr>m_next := now_ms + m_ms (h timer)\<rparr>)
        in expire_loop now_ms expired h (set_insert (tless h) timer timers) cbs
      else expire_loop now_ms expired (h(timer := (h timer)\<lparr>m_cb := None\<rparr>)) timers cbs)"

text \<open>
  The part of \<open>listExpiredCb\<close> under the write lock; \<open>now_addr\<close> is where the temporary
  \<^verbatim>\<open>now_timer\<close> happens to be allocated.  Reading \<^verbatim>\<open>*begin()\<close> of an empty set is \<open>Oob_access\<close>.
\<close>

definition listExpired_locked :: "64 word \<Rightarrow> nat \<Rightarrow> 'c timer_manager
    \<Rightarrow> ('c timer_fn option list \<times> 'c timer_manager) result" where
  "listExpired_locked now_ms now_addr tm0 =
     (let (rollover, tm) = detectClockRollover now_ms tm0 in
      if \<not> rollover \<and> m_timers tm = [] then Inl Oob_access
      else if \<not> rollover \<and> m_next (t_heap tm (hd (m_timers tm))) > now_ms then Inr ([], tm)
      else
        let it0 = (if rollover then length (m_timers tm)
                   else set_lower_bound (\<lambda>a x. Comparator (Some (a, t_heap tm a)) x)
                          (Some (now_addr, mk_Timer_at now_ms)) (m_timers tm));
            it = it0 + length (takeWhile (\<lambda>a. m_next (t_heap tm a) = now_ms) (drop it0 (m_timers tm)));
            expired = take it (m_timers tm);
            (h, timers, cbs) = expire_loop now_ms expired (t_heap tm) (drop it (m_timers tm)) []
        in Inr (cbs, tm\<lparr>t_heap := h, m_timers := timers\<rparr>))"

definition listExpiredCb :: "64 word \<Rightarrow> nat \<Rightarrow> 'c timer_manager
    \<Rightarrow> ('c timer_fn option list \<times> 'c timer_manager) result" where
  "listExpiredCb now_ms now_addr tm =
     (if m_timers tm = [] then Inr ([], tm) else listExpired_locked now_ms now_addr tm)"

definition hasTimer :: "'c timer_manager \<Rightarrow> bool" where
  "hasTimer tm \<longleftrightarrow> m_timers tm \<noteq> []"

subsection \<open>The order of the set\<close>

lemma tless_def2: "tless h a b \<longleftrightarrow> m_next (h a) < m_next (h b) \<or> m_next (h a) = m_next (h b) \<and> a < b"
  by (auto simp: tless_def Comparator_def)

interpretation tset: ordered_set "tless h" for h :: "nat \<Rightarrow> 'c timer"
  by unfold_locales (auto simp: tless_def2)

lemma tless_cong: "m_next (h a) = m_next (h' a) \<Longrightarrow> m_next (h b) = m_next (h' b) \<Longrightarrow> tless h a b = tless h' a b"
  by (simp add: tless_def2)

lemma sorted_tless_cong:
  "(\<And>a. a \<in> set xs \<Longrightarrow> m_next (h a) = m_next (h' a)) \<Longrightarrow> sorted_wrt (tless h) xs = sorted_wrt (tless h') xs"
  by (metis (no_types, lifting) sorted_wrt_mono_rel tless_cong)

subsection \<open>The invariant\<close>

definition tm_ok :: "'c timer_manager \<Rightarrow> bool" where
  "tm_ok tm \<longleftrightarrow> sorted_wrt (tless (t_heap tm)) (m_timers tm) \<and>
     (\<forall>a. a \<in> set (m_timers tm) \<longleftrightarrow> m_cb (t_heap tm a) \<noteq> None)"

lemma tm_okD:
  assumes "tm_ok tm"
  shows "sorted_wrt (tless (t_heap tm)) (m_timers tm)" "a \<in> set (m_timers tm) \<longleftrightarrow> m_cb (t_heap tm a) \<noteq> None"
  using assms by (auto simp: tm_ok_def)

lemma tm_ok_init: "tm_ok (mk_TimerManager now)"
  by (simp add: tm_ok_def mk_TimerManager_def mk_Timer_at_def)

lemma addTimer_locked_set:
  "m_timers (snd (addTimer_locked tm a)) = set_insert (tless (t_heap tm)) a (m_timers tm)"
  "t_heap (snd (addTimer_locked tm a)) = t_heap tm"
  "m_previouseTime (snd (addTimer_locked tm a)) = m_previouseTime tm"
  by (simp_all add: addTimer_locked_def Let_def)

lemma tm_ok_insert:
  assumes s: "sorted_wrt (tless h) xs" and cb: "\<And>b. b \<in> insert a (set xs) \<longleftrightarrow> m_cb (h' b) \<noteq> None"
    and eq: "\<And>b. b \<in> set xs \<Longrightarrow> m_next (h' b) = m_next (h b)"
  shows "tm_ok (tm\<lparr>t_heap := h', m_timers := set_insert (tless h') a xs\<rparr>)"
  using tset.sorted_insert[of h' xs a] sorted_tless_cong[of xs h h'] s eq cb
  by (simp add: tm_ok_def tset.set_insert_set)

lemma tm_ok_addTimer:
  assumes ok: "tm_ok tm" and a: "addr \<notin> set (m_timers tm)"
  shows "tm_ok (snd (addTimer now addr tm ms (Some cb) recurring))"
proof -
  define h where "h = (t_heap tm)(addr := mk_Timer now ms (Some cb) recurring)"
  have "tm_ok (tm\<lparr>t_heap := h, m_timers := set_insert (tless h) addr (m_timers tm)\<rparr>)"
    using tm_okD[OF ok] a by (intro tm_ok_insert[of "t_heap tm"]) (auto simp: h_def mk_Timer_def)
  then show ?thesis by (simp add: addTimer_def addTimer_locked_set tm_ok_def h_def)
qed

lemma cancel_ok:
  assumes ok: "tm_ok tm"
  shows "\<exists>tm'. cancel tm a = Inr (a \<in> set (m_timers tm), tm') \<and> tm_ok tm' \<and>
     set (m_timers tm') = set (m_timers tm) - {a} \<and> m_tickled tm' = m_tickled tm"
proof (cases "a \<in> set (m_timers tm)")
  case True
  define h where "h = (t_heap tm)(a := (t_heap tm a)\<lparr>m_cb := None\<rparr>)"
  have s: "sorted_wrt (tless h) (m_timers tm)"
    using tm_okD(1)[OF ok] sorted_tless_cong[of "m_timers tm" "t_heap tm" h] by (simp add: h_def)
  obtain i where i: "set_find (tless h) a (m_timers tm) = Some i" "i < length (m_timers tm)" "m_timers tm ! i = a"
    using tset.find_mem[OF s True] .
  have se: "set (set_erase i (m_timers tm)) = set (m_timers tm) - {a}"
    using tset.set_erase_set[OF s i(2)] i(3) by simp
  have "tm_ok (tm\<lparr>t_heap := h, m_timers := set_erase i (m_timers tm)\<rparr>)"
    using tset.sorted_erase[OF s, of i] tm_okD(2)[OF ok] se by (auto simp: tm_ok_def h_def)
  then show ?thesis using True tm_okD(2)[OF ok] i(1) se by (simp add: cancel_def Let_def flip: h_def)
next
  case False
  then show ?thesis using tm_okD(2)[OF ok] ok by (simp add: cancel_def)
qed

lemma move_ok:
  assumes ok: "tm_ok tm" and a: "a \<in> set (m_timers tm)" and cb: "m_cb t = m_cb (t_heap tm a)"
  defines "h \<equiv> (t_heap tm)(a := t)"
  obtains i where "set_find (tless (t_heap tm)) a (m_timers tm) = Some i"
    "tm_ok (tm\<lparr>t_heap := h, m_timers := set_insert (tless h) a (set_erase i (m_timers tm))\<rparr>)"
    "set (set_insert (tless h) a (set_erase i (m_timers tm))) = set (m_timers tm)"
proof -
  note s = tm_okD(1)[OF ok]
  obtain i where i: "set_find (tless (t_heap tm)) a (m_timers tm) = Some i" "i < length (m_timers tm)" "m_timers tm ! i = a"
    using tset.find_mem[OF s a] .
  have se: "set (set_erase i (m_timers tm)) = set (m_timers tm) - {a}"
    using tset.set_erase_set[OF s i(2)] i(3) by simp
  have "tm_ok (tm\<lparr>t_heap := h, m_timers := set_insert (tless h) a (set_erase i (m_timers tm))\<rparr>)"
    using tm_okD(2)[OF ok] a cb se tset.sorted_erase[OF s, of i]
    by (intro tm_ok_insert[of "t_heap tm"]) (auto simp: h_def)
  then show ?thesis using that i(1) se a by (auto simp: tset.set_insert_set)
qed

lemma refresh_ok:
  assumes ok: "tm_ok tm"
  shows "fst (refresh now tm a) = (a \<in> set (m_timers tm)) \<and> tm_ok (snd (refresh now tm a)) \<and>
     set (m_timers (snd (refresh now tm a))) = set (m_timers tm)"
proof (cases "a \<in> set (m_timers tm)")
  case True
  define t where "t = (t_heap tm a)\<lparr>m_next := now + m_ms (t_heap tm a)\<rparr>"
  obtain i where "set_find (tless (t_heap tm)) a (m_timers tm) = Some i"
    "tm_ok (tm\<lparr>t_heap := (t_heap tm)(a := t), m_timers := set_insert (tless ((t_heap tm)(a := t))) a (set_erase i (m_timers tm))\<rparr>)"
    "set (set_insert (tless ((t_heap tm)(a := t))) a (set_erase i (m_timers tm))) = set (m_timers tm)"
    using move_ok[OF ok True, of t] by (auto simp: t_def)
  then show ?thesis using True tm_okD(2)[OF ok, of a]
    by (simp add: refresh_def Let_def flip: t_def)
next
  case False
  then show ?thesis using ok tm_okD(2)[OF ok, of a] by (simp add: refresh_def)
qed

lemma reset_ok:
  assumes ok: "tm_ok tm"
  shows "tm_ok (snd (snd (reset now tm a ms from_now))) \<and>
     set (m_timers (snd (snd (reset now tm a ms from_now)))) = set (m_timers tm)"
proof (cases "a \<in> set (m_timers tm) \<and> \<not> (ms = m_ms (t_heap tm a) \<and> \<not> from_now)")
  case True
  define start where "start = (if from_now then now else m_next (t_heap tm a) - m_ms (t_heap tm a))"
  define t where "t = (t_heap tm a)\<lparr>m_ms := ms, m_next := start + ms\<rparr>"
  obtain i where "set_find (tless (t_heap tm)) a (m_timers tm) = Some i"
    "tm_ok (tm\<lparr>t_heap := (t_heap tm)(a := t), m_timers := set_insert (tless ((t_heap tm)(a := t))) a (set_erase i (m_timers tm))\<rparr>)"
    "set (set_insert (tless ((t_heap tm)(a := t))) a (set_erase i (m_timers tm))) = set (m_timers tm)"
    using move_ok[OF ok, of a t] True by (auto simp: t_def)
  moreover have "\<not> (ms = m_ms (t_heap tm a) \<and> \<not> from_now)" "m_cb (t_heap tm a) \<noteq> None"
    using True tm_okD(2)[OF ok, of a] by simp_all
  ultimately show ?thesis
    unfolding reset_def Let_def
    by (simp only: if_False if_True option.case snd_conv addTimer_locked_set flip: start_def t_def)
       (simp add: tm_ok_def addTimer_locked_set)
next
  case False
  then show ?thesis using ok tm_okD(2)[OF ok, of a] by (auto simp: reset_def)
qed

subsection \<open>Expiry\<close>

definition due :: "64 word \<Rightarrow> (nat \<Rightarrow> 'c timer) \<Rightarrow> nat \<Rightarrow> bool" where
  "due now h a \<longleftrightarrow> m_next (h a) \<le> now"

text \<open>What expiry does to one timer object.\<close>

definition expire_one :: "64 word \<Rightarrow> 'c timer \<Rightarrow> 'c timer" where
  "expire_one now t = (if m_recurring t then t\<lparr>m_next := now + m_ms t\<rparr> else t\<lparr>m_cb := None\<rparr>)"

lemma sorted_next_mono:
  "sorted_wrt (tless h) (x # xs) \<Longrightarrow> y \<in> set (x # xs) \<Longrightarrow> m_next (h x) \<le> m_next (h y)"
  by (auto simp: tless_def2)

lemma takeWhile_due:
  "sorted_wrt (tless h) xs \<Longrightarrow> takeWhile (due now h) xs = filter (due now h) xs"
proof (induction xs)
  case (Cons x xs)
  show ?case
  proof (cases "due now h x")
    case False
    then have "\<not> due now h y" if "y \<in> set xs" for y
      using sorted_next_mono[OF Cons.prems, of y] that by (auto simp: due_def)
    then show ?thesis using False by simp
  qed (use Cons in simp)
qed simp

lemma expired_prefix:
  fixes h :: "nat \<Rightarrow> 'c timer" and na :: nat and now :: "64 word"
  assumes "sorted_wrt (tless h) xs"
  defines "it0 \<equiv> set_lower_bound (\<lambda>a x. Comparator (Some (a, h a)) x) (Some (na, mk_Timer_at now)) xs"
  shows "it0 + length (takeWhile (\<lambda>a. m_next (h a) = now) (drop it0 xs)) = length (filter (due now h) xs)"
proof -
  define P where "P = (\<lambda>a. m_next (h a) < now \<or> m_next (h a) = now \<and> a < na)"
  have it0: "it0 = length (takeWhile P xs)"
    unfolding it0_def set_lower_bound_def
    by (rule arg_cong[where f = length], rule takeWhile_cong)
       (auto simp: Comparator_def mk_Timer_at_def P_def)
  have "takeWhile P xs @ takeWhile (\<lambda>a. m_next (h a) = now) (dropWhile P xs) = takeWhile (due now h) xs"
    using assms(1)
  proof (induction xs)
    case (Cons x xs)
    show ?case
    proof (cases "P x")
      case True
      then have "due now h x" by (auto simp: P_def due_def)
      then show ?thesis using True Cons by simp
    next
      case False
      then have "now \<le> m_next (h x)" by (auto simp: P_def not_less)
      then have "m_next (h y) = now \<longleftrightarrow> due now h y" if "y \<in> set (x # xs)" for y
        using sorted_next_mono[OF Cons.prems that] by (auto simp: due_def)
      then have "takeWhile (\<lambda>a. m_next (h a) = now) (x # xs) = takeWhile (due now h) (x # xs)"
        by (intro takeWhile_cong) auto
      then show ?thesis using False by simp
    qed
  qed simp
  then show ?thesis
    using takeWhile_due[OF assms(1)] by (metis it0 dropWhile_eq_drop length_append)
qed

lemma take_filter_due:
  assumes "sorted_wrt (tless h) xs"
  shows "take (length (filter (due now h) xs)) xs = filter (due now h) xs"
    and "drop (length (filter (due now h) xs)) xs = filter (\<lambda>a. \<not> due now h a) xs"
proof -
  let ?n = "length (filter (due now h) xs)"
  show t: "take ?n xs = filter (due now h) xs"
    using takeWhile_due[OF assms] by (metis takeWhile_eq_take)
  have "drop ?n xs = dropWhile (due now h) xs" by (metis takeWhile_due[OF assms] dropWhile_eq_drop)
  moreover have "dropWhile (due now h) xs = filter (\<lambda>a. \<not> due now h a) xs"
    using assms
  proof (induction xs)
    case (Cons x xs)
    show ?case
    proof (cases "due now h x")
      case False
      then have "\<not> due now h y" if "y \<in> set xs" for y
        using sorted_next_mono[OF Cons.prems, of y] that by (auto simp: due_def)
      then show ?thesis using False by simp
    qed (use Cons in simp)
  qed simp
  ultimately show "drop ?n xs = filter (\<lambda>a. \<not> due now h a) xs" by simp
qed

lemma expire_loop_spec:
  assumes "distinct xs" "set xs \<inter> set ts = {}" "sorted_wrt (tless h) ts"
    "expire_loop now xs h ts cbs = (h', ts', cbs')"
  shows "cbs' = cbs @ map (\<lambda>a. m_cb (h a)) xs \<and>
     h' = (\<lambda>a. if a \<in> set xs then expire_one now (h a) else h a) \<and>
     set ts' = set ts \<union> {a \<in> set xs. m_recurring (h a)} \<and> sorted_wrt (tless h') ts'"
  using assms
proof (induction xs arbitrary: h ts cbs)
  case (Cons x xs)
  define h1 where "h1 = h(x := expire_one now (h x))"
  define ts1 where "ts1 = (if m_recurring (h x) then set_insert (tless h1) x ts else ts)"
  have step: "expire_loop now xs h1 ts1 (cbs @ [m_cb (h x)]) = (h', ts', cbs')"
    using Cons.prems(4) by (simp add: Let_def h1_def ts1_def expire_one_def split: if_splits)
  have same: "h1 a = h a" if "a \<noteq> x" for a using that by (simp add: h1_def)
  have s1: "sorted_wrt (tless h1) ts1"
  proof -
    have "sorted_wrt (tless h1) ts"
      using Cons.prems(2,3) sorted_tless_cong[of ts h1 h] same by (metis disjoint_iff list.set_intros(1))
    then show ?thesis by (simp add: ts1_def tset.sorted_insert)
  qed
  have set1: "set ts1 = set ts \<union> {a. a = x \<and> m_recurring (h x)}"
    by (auto simp: ts1_def tset.set_insert_set)
  have "set xs \<inter> set ts1 = {}" using Cons.prems(1,2) set1 by auto
  note IH = Cons.IH[OF _ this s1 step]
  have ih: "cbs' = (cbs @ [m_cb (h x)]) @ map (\<lambda>a. m_cb (h1 a)) xs"
     "h' = (\<lambda>a. if a \<in> set xs then expire_one now (h1 a) else h1 a)"
     "set ts' = set ts1 \<union> {a \<in> set xs. m_recurring (h1 a)}" "sorted_wrt (tless h') ts'" using IH Cons.prems(1) by auto
  have "map (\<lambda>a. m_cb (h1 a)) xs = map (\<lambda>a. m_cb (h a)) xs"
    using Cons.prems(1) by (intro map_cong) (auto simp: h1_def)
  moreover have "h' = (\<lambda>a. if a \<in> set (x # xs) then expire_one now (h a) else h a)"
    using Cons.prems(1) ih(2) by (auto simp: h1_def fun_eq_iff)
  moreover have "set ts' = set ts \<union> {a \<in> set (x # xs). m_recurring (h a)}"
    using Cons.prems(1) ih(3) set1 by (auto simp: h1_def split: if_splits)
  ultimately show ?case using ih by simp
qed simp

text \<open>The timers that \<open>listExpiredCb\<close> fires: all of them after a clock rollover, else the due ones.\<close>

definition rolled_over :: "64 word \<Rightarrow> 'c timer_manager \<Rightarrow> bool" where
  "rolled_over now tm = fst (detectClockRollover now tm)"

definition fires :: "64 word \<Rightarrow> 'c timer_manager \<Rightarrow> nat \<Rightarrow> bool" where
  "fires now tm a \<longleftrightarrow> rolled_over now tm \<or> due now (t_heap tm) a"

lemma listExpiredCb_spec:
  assumes ok: "tm_ok tm" and r: "listExpiredCb now na tm = Inr (cbs, tm')"
  defines "exp \<equiv> filter (fires now tm) (m_timers tm)"
  shows "cbs = map (\<lambda>a. m_cb (t_heap tm a)) exp \<and>
     t_heap tm' = (\<lambda>a. if a \<in> set exp then expire_one now (t_heap tm a) else t_heap tm a) \<and>
     set (m_timers tm') = {a \<in> set (m_timers tm). \<not> fires now tm a \<or> m_recurring (t_heap tm a)} \<and> tm_ok tm'"
proof -
  define h where "h = t_heap tm"
  define xs where "xs = m_timers tm"
  note s = tm_okD(1)[OF ok, folded h_def xs_def]
  have core: ?thesis
    if e: "expire_loop now exp h (filter (\<lambda>a. \<not> fires now tm a) xs) [] = (h', ts', cbs)"
      "tm' = tm\<lparr>m_previouseTime := p, t_heap := h', m_timers := ts'\<rparr>" for h' ts' p
  proof -
    have "distinct exp" "set exp \<inter> set (filter (\<lambda>a. \<not> fires now tm a) xs) = {}"
      "sorted_wrt (tless h) (filter (\<lambda>a. \<not> fires now tm a) xs)"
      using tset.sorted_distinct[OF s] s by (auto simp: exp_def xs_def sorted_wrt_filter)
    from expire_loop_spec[OF this e(1)]
    have sp: "cbs = map (\<lambda>a. m_cb (h a)) exp" "h' = (\<lambda>a. if a \<in> set exp then expire_one now (h a) else h a)"
      "set ts' = {a \<in> set xs. \<not> fires now tm a \<or> m_recurring (h a)}" "sorted_wrt (tless h') ts'"
      by (auto simp: exp_def xs_def)
    have "a \<in> set ts' \<longleftrightarrow> m_cb (h' a) \<noteq> None" for a
      using tm_okD(2)[OF ok, of a] sp(2,3)
      by (auto simp: expire_one_def exp_def h_def xs_def)
    then show ?thesis using sp e(2) by (auto simp: tm_ok_def h_def xs_def)
  qed
  show ?thesis
  proof (cases "xs = []")
    case True
    then have "cbs = []" "tm' = tm" using r by (auto simp: listExpiredCb_def xs_def)
    then show ?thesis using True ok by (auto simp: exp_def xs_def)
  next
    case False
    define tm1 where "tm1 = tm\<lparr>m_previouseTime := now\<rparr>"
    have d: "detectClockRollover now tm = (rolled_over now tm, tm1)"
      by (simp add: rolled_over_def detectClockRollover_def tm1_def Let_def)
    have r1: "listExpired_locked now na tm = Inr (cbs, tm')" using r False by (simp add: listExpiredCb_def xs_def)
    show ?thesis
    proof (cases "rolled_over now tm")
      case True
      then have f: "fires now tm = (\<lambda>a. True)" by (auto simp: fires_def)
      obtain h' ts' where "expire_loop now xs h [] [] = (h', ts', cbs)"
          "tm' = tm1\<lparr>t_heap := h', m_timers := ts'\<rparr>"
        using r1 True d by (auto simp: listExpired_locked_def Let_def tm1_def xs_def h_def split: prod.splits)
      then show ?thesis by (intro core[of h' ts' now]) (simp_all add: exp_def tm1_def xs_def f)
    next
      case nr: False
      then have f: "fires now tm = due now h" by (auto simp: fires_def h_def)
      show ?thesis
      proof (cases "m_next (h (hd xs)) > now")
        case True
        then have "cbs = []" "tm' = tm1"
          using r1 nr d False by (auto simp: listExpired_locked_def tm1_def xs_def h_def Let_def)
        moreover have "\<not> due now h a" if "a \<in> set xs" for a
          using sorted_next_mono[of h "hd xs" "tl xs" a] s False True that by (auto simp: due_def)
        ultimately show ?thesis using ok f by (auto simp: exp_def xs_def tm1_def tm_ok_def filter_empty_conv)
      next
        case np: False
        obtain h' ts' where "expire_loop now (filter (due now h) xs) h (filter (\<lambda>a. \<not> due now h a) xs) [] = (h', ts', cbs)"
            "tm' = tm1\<lparr>t_heap := h', m_timers := ts'\<rparr>"
          using r1 nr d False np expired_prefix[OF s, of na now] take_filter_due[OF s, of now]
          by (auto simp: listExpired_locked_def Let_def tm1_def xs_def h_def split: prod.splits)
        then show ?thesis by (intro core[of h' ts' now]) (simp_all add: exp_def tm1_def xs_def f)
      qed
    qed
  qed
qed

lemma listExpiredCb_returns: "\<exists>cbs tm'. listExpiredCb now na tm = Inr (cbs, tm')"
  by (auto simp: listExpiredCb_def listExpired_locked_def detectClockRollover_def Let_def split: prod.splits)

subsection \<open>Sequences of operations\<close>

inductive tm_step :: "'c timer_manager \<Rightarrow> 'c timer_manager \<Rightarrow> bool" where
  step_add: "addr \<notin> set (m_timers tm) \<Longrightarrow> tm_step tm (snd (addTimer now addr tm ms (Some cb) recurring))"
| step_cancel: "cancel tm a = Inr (r, tm') \<Longrightarrow> tm_step tm tm'"
| step_refresh: "tm_step tm (snd (refresh now tm a))"
| step_reset: "tm_step tm (snd (snd (reset now tm a ms from_now)))"
| step_next: "tm_step tm (snd (getNextTimer now tm))"
| step_expire: "listExpiredCb now na tm = Inr (cbs, tm') \<Longrightarrow> tm_step tm tm'"

lemma getNextTimer_frame:
  "m_timers (snd (getNextTimer now tm)) = m_timers tm" "t_heap (snd (getNextTimer now tm)) = t_heap tm"
  "m_tickled (snd (getNextTimer now tm)) = False"
  by (simp_all add: getNextTimer_def Let_def)

lemma tm_step_ok: "tm_step tm tm' \<Longrightarrow> tm_ok tm \<Longrightarrow> tm_ok tm'"
proof (induction rule: tm_step.induct)
  case (step_cancel tm a r tm')
  then show ?case using cancel_ok[of tm a] by auto
next
  case (step_next tm now)
  then show ?case by (simp add: tm_ok_def getNextTimer_frame)
next
  case (step_expire now na tm cbs tm')
  then show ?case using listExpiredCb_spec by blast
qed (simp_all add: tm_ok_addTimer refresh_ok reset_ok)

lemma tm_reach_ok: "tm_step\<^sup>*\<^sup>* tm tm' \<Longrightarrow> tm_ok tm \<Longrightarrow> tm_ok tm'"
  by (induction rule: rtranclp_induct) (auto intro: tm_step_ok)

lemma getNextTimer_min:
  assumes ok: "tm_ok tm" and a: "a \<in> set (m_timers tm)"
  shows "unat (fst (getNextTimer now tm)) \<le> unat (m_next (t_heap tm a)) - unat now"
    and "\<exists>b \<in> set (m_timers tm). unat (fst (getNextTimer now tm)) = unat (m_next (t_heap tm b)) - unat now"
proof -
  obtain x xs where xs: "m_timers tm = x # xs" using a by (cases "m_timers tm") auto
  have v: "unat (fst (getNextTimer now tm)) = unat (m_next (t_heap tm x)) - unat now"
    using xs by (auto simp: getNextTimer_def Let_def unat_sub word_le_nat_alt)
  have "m_next (t_heap tm x) \<le> m_next (t_heap tm a)"
    using sorted_next_mono[of "t_heap tm" x xs a] tm_okD(1)[OF ok] a xs by simp
  then show "unat (fst (getNextTimer now tm)) \<le> unat (m_next (t_heap tm a)) - unat now"
    unfolding v by (simp add: word_le_nat_alt diff_le_mono)
  show "\<exists>b \<in> set (m_timers tm). unat (fst (getNextTimer now tm)) = unat (m_next (t_heap tm b)) - unat now"
    using v xs by auto
qed

lemma addTimer_front:
  fixes tm :: "'c timer_manager" and now ms :: "64 word" and cb :: "'c timer_fn option" and recurring :: bool
  assumes ok: "tm_ok tm" and a: "addr \<notin> set (m_timers tm)"
  defines "h \<equiv> (t_heap tm)(addr := mk_Timer now ms cb recurring)"
  shows "fst (addTimer now addr tm ms cb recurring) \<longleftrightarrow>
     \<not> m_tickled tm \<and> (\<forall>b \<in> set (m_timers tm). tless h addr b)"
proof -
  have s: "sorted_wrt (tless h) (m_timers tm)"
  proof -
    have "m_next (h b) = m_next (t_heap tm b)" if "b \<in> set (m_timers tm)" for b
      using a that by (auto simp: h_def)
    then show ?thesis using sorted_tless_cong[of "m_timers tm" h "t_heap tm"] tm_okD(1)[OF ok] by blast
  qed
  define ts where "ts = set_insert (tless h) addr (m_timers tm)"
  have ts: "sorted_wrt (tless h) ts" "addr \<in> set ts" "ts \<noteq> []"
    using tset.sorted_insert[OF s] tset.insert_Cons_hd by (auto simp: ts_def tset.set_insert_set)
  obtain i where i: "set_find (tless h) addr ts = Some i" "i < length ts" "ts ! i = addr"
    using tset.find_mem[OF ts(1,2)] .
  have "i = 0 \<longleftrightarrow> hd ts = addr"
    using i ts(3) tset.sorted_distinct[OF ts(1)] by (auto simp: hd_conv_nth nth_eq_iff_index_eq)
  also have "\<dots> \<longleftrightarrow> (\<forall>b \<in> set (m_timers tm). tless h addr b)"
    using tset.insert_hd[OF s a] by (simp add: ts_def)
  finally show ?thesis using i(1) by (auto simp: addTimer_def addTimer_locked_def Let_def ts_def h_def)
qed

subsection \<open>Properties\<close>

text \<open>
  C15: In every state that any sequence of timer operations can reach, the set is strictly ascending
  by deadline and holds exactly the timers that have a callback; so \<open>cancel\<close> never erases
  \<^verbatim>\<open>end()\<close> and reports true exactly for the pending timers, which it removes.
\<close>

theorem timer_invariant:
  assumes "tm_step\<^sup>*\<^sup>* (mk_TimerManager now0) tm"
  shows "tm_ok tm \<and> (\<exists>tm'. cancel tm a = Inr (a \<in> set (m_timers tm), tm') \<and>
     set (m_timers tm') = set (m_timers tm) - {a})"
proof -
  have ok: "tm_ok tm" using tm_reach_ok[OF assms tm_ok_init] .
  then show ?thesis using cancel_ok[OF ok, of a] by auto
qed

theorem timer_invariant_witness:
  "tm_ok (snd (addTimer 5 1 (mk_TimerManager 0) 10 (Some (Fn True)) False)) \<and>
   tm_step\<^sup>*\<^sup>* (mk_TimerManager 0) (snd (addTimer 5 1 (mk_TimerManager 0) 10 (Some (Fn True)) False))"
proof -
  have "tm_step\<^sup>*\<^sup>* (mk_TimerManager 0) (snd (addTimer 5 1 (mk_TimerManager 0) 10 (Some (Fn True)) False))"
    by (intro r_into_rtranclp step_add) (simp add: mk_TimerManager_def)
  then show ?thesis using timer_invariant by blast
qed

text \<open>
  C7: \<open>listExpiredCb\<close> always returns, hands out exactly the callbacks of the timers that are due
  (all of them when the clock was set back by more than an hour), in ascending order of deadline,
  re-arms the recurring ones at \<open>now\<close> plus their period, and retires the others.
\<close>

theorem expired_exact:
  assumes "tm_ok tm"
  shows "\<exists>tm'. listExpiredCb now na tm =
           Inr (map (\<lambda>a. m_cb (t_heap tm a)) (filter (fires now tm) (m_timers tm)), tm') \<and>
         tm_ok tm' \<and>
         set (m_timers tm') = {a \<in> set (m_timers tm). \<not> fires now tm a \<or> m_recurring (t_heap tm a)} \<and>
         (\<forall>a. t_heap tm' a = (if a \<in> set (m_timers tm) \<and> fires now tm a
                              then expire_one now (t_heap tm a) else t_heap tm a)) \<and>
         sorted (map (\<lambda>a. unat (m_next (t_heap tm a))) (filter (fires now tm) (m_timers tm)))"
proof -
  obtain cbs tm' where r: "listExpiredCb now na tm = Inr (cbs, tm')" using listExpiredCb_returns by blast
  have "sorted_wrt (tless (t_heap tm)) (filter (fires now tm) (m_timers tm))"
    using tm_okD(1)[OF assms] by (rule sorted_wrt_filter)
  then have "sorted (map (\<lambda>a. unat (m_next (t_heap tm a))) (filter (fires now tm) (m_timers tm)))"
    unfolding sorted_map by (rule sorted_wrt_mono_rel[rotated]) (auto simp: tless_def2 word_less_nat_alt)
  then show ?thesis using listExpiredCb_spec[OF assms r] r by auto
qed

theorem expired_exact_witness:
  "\<exists>tm'. listExpiredCb 20 0 (snd (addTimer 5 1 (mk_TimerManager 0) 10 (Some (Fn True)) False)) =
     Inr ([Some (Fn True)], tm')"
proof -
  define tm where "tm = snd (addTimer 5 1 (mk_TimerManager 0) 10 (Some (Fn True)) False)"
  have ok: "tm_ok tm" unfolding tm_def by (rule tm_ok_addTimer[OF tm_ok_init]) (simp add: mk_TimerManager_def)
  have t: "m_timers tm = [1]" "t_heap tm 1 = mk_Timer 5 10 (Some (Fn True)) False"
    by (simp_all add: tm_def addTimer_def addTimer_locked_set mk_TimerManager_def)
  then have "fires 20 tm 1" by (simp add: fires_def due_def mk_Timer_def)
  then have "\<exists>tm'. listExpiredCb 20 0 tm = Inr ([Some (Fn True)], tm')"
    using expired_exact[OF ok, of 20 0] t by (auto simp: mk_Timer_def)
  then show ?thesis by (simp only: tm_def)
qed

text \<open>
  \<open>getNextTimer\<close> is the time left to the earliest deadline: no pending timer is due sooner,
  some pending timer is due exactly then (at once if it is already late), and the answer is
  \<^verbatim>\<open>~0ull\<close> when nothing is pending.
\<close>

theorem next_timer_exact:
  assumes "tm_ok tm"
  shows "if m_timers tm = [] then fst (getNextTimer now tm) = - 1
         else unat (fst (getNextTimer now tm)) =
              Min ((\<lambda>a. unat (m_next (t_heap tm a)) - unat now) ` set (m_timers tm))"
proof (cases "m_timers tm = []")
  case True
  then show ?thesis by (simp add: getNextTimer_def)
next
  case False
  then have "hd (m_timers tm) \<in> set (m_timers tm)" by simp
  then have "unat (fst (getNextTimer now tm)) \<in> (\<lambda>a. unat (m_next (t_heap tm a)) - unat now) ` set (m_timers tm)"
    using getNextTimer_min(2)[OF assms, of _ now] by blast
  then have "Min ((\<lambda>a. unat (m_next (t_heap tm a)) - unat now) ` set (m_timers tm)) =
      unat (fst (getNextTimer now tm))"
    using getNextTimer_min(1)[OF assms, of _ now] by (intro Min_eqI) auto
  then show ?thesis using False by simp
qed

theorem next_timer_exact_witness: "fst (getNextTimer 7 (mk_TimerManager 0 :: bool timer_manager)) = - 1"
  using next_timer_exact[OF tm_ok_init[of 0, where 'a = bool], of 7] by (simp add: mk_TimerManager_def)

text \<open>
  Adding a timer wakes the poller (\<open>onTimerInsertedAtFront\<close>) exactly when the new timer comes
  before every pending one and no wake-up is outstanding; whenever it becomes the earliest, a
  wake-up is outstanding afterwards.
\<close>

theorem front_insert_wakes:
  assumes "tm_ok tm" "addr \<notin> set (m_timers tm)"
  shows "let h = (t_heap tm)(addr := mk_Timer now ms cb recurring);
             earliest = (\<forall>b \<in> set (m_timers tm). tless h addr b);
             (woken, tm') = addTimer now addr tm ms cb recurring
         in (woken \<longleftrightarrow> earliest \<and> \<not> m_tickled tm) \<and> (earliest \<longrightarrow> m_tickled tm')"
proof -
  have t: "m_tickled (snd (addTimer now addr tm ms cb recurring)) \<longleftrightarrow>
      fst (addTimer now addr tm ms cb recurring) \<or> m_tickled tm"
    by (auto simp: addTimer_def addTimer_locked_def Let_def)
  show ?thesis using addTimer_front[OF assms, of now ms cb recurring] t
    by (auto simp: Let_def split: prod.splits)
qed

theorem front_insert_wakes_witness:
  "fst (addTimer 5 1 (mk_TimerManager 0) 10 (Some (Fn True)) False)"
proof -
  have "1 \<notin> set (m_timers (mk_TimerManager 0 :: bool timer_manager))" by (simp add: mk_TimerManager_def)
  from front_insert_wakes[OF tm_ok_init this, of 5 10 "Some (Fn True)" False] show ?thesis
    by (simp add: Let_def mk_TimerManager_def split: prod.splits)
qed

text \<open>
  The check for an empty set is made under the read lock and the set is used under the write lock:
  a \<open>cancel\<close> of the last timer in between leaves \<open>listExpiredCb\<close> dereferencing \<^verbatim>\<open>begin()\<close> of an
  empty set.
\<close>

lemma listExpired_locked_race:
  "m_timers tm = [] \<Longrightarrow> \<not> rolled_over now tm \<Longrightarrow> listExpired_locked now na tm = Inl Oob_access"
  by (auto simp: listExpired_locked_def rolled_over_def detectClockRollover_def Let_def)

end
