(* ===== verification/IOManager.thy ===== *)
theory IOManager
  imports Scheduler Timer
begin

text \<open>
  The epoll-driven scheduler: \<^verbatim>\<open>captain/iomanager.cpp\<close>.  An \<open>fd_ctx\<close> is an \<^verbatim>\<open>FdContext\<close>, with the set
  of registered events as a bit mask and one \<open>event_ctx\<close> for reading and one for writing.  The kernel's
  interest list is \<open>k_interest\<close> and whether a call of \<^verbatim>\<open>epoll_ctl\<close> succeeds is an argument \<open>rt\<close>
  (non-zero is an error); the schedulers of the process are \<open>io_scheds\<close>, indexed by identity, because
  an event is handed to the scheduler of the thread that registered it.

  Proved: the invariant \<open>io_ok\<close> (a context is filled exactly for the registered events, the interest
  list agrees with them, and \<open>m_pendingEventCount\<close> is their number) is kept by every operation;
  cancelling and triggering hand exactly the registered callback or fiber to its scheduler; and the
  exact condition under which the event loop fails an assertion.
\<close>

unbundle bit_operations_syntax

type_synonym event = "32 word"

definition NONE :: event where "NONE = 0x0"
definition READ :: event where "READ = 0x1"
definition WRITE :: event where "WRITE = 0x4"

definition EPOLLIN :: event where "EPOLLIN = 0x1"
definition EPOLLOUT :: event where "EPOLLOUT = 0x4"
definition EPOLLERR :: event where "EPOLLERR = 0x8"
definition EPOLLHUP :: event where "EPOLLHUP = 0x10"
definition EPOLLET :: event where "EPOLLET = 0x80000000"

record 'c event_ctx =
  ev_scheduler :: "nat option"
  ev_fiber :: "nat option"
  ev_cb :: "'c option"

record 'c fd_ctx =
  fd_read :: "'c event_ctx"
  fd_write :: "'c event_ctx"
  fd_fd :: nat
  fd_events :: event

record 'c iomanager =
  io_this :: nat
  io_scheds :: "nat \<Rightarrow> 'c timer_fn sched"
  io_timers :: "'c timer_manager"
  m_fdContexts :: "'c timer_fn fd_ctx list"
  m_pendingEventCount :: nat
  k_interest :: "nat \<Rightarrow> event option"
  tickle_pipe :: nat

definition empty_ctx :: "'c event_ctx" where
  "empty_ctx = \<lparr>ev_scheduler = None, ev_fiber = None, ev_cb = None\<rparr>"

subsection \<open>Event contexts\<close>

definition getContext :: "event \<Rightarrow> 'c fd_ctx \<Rightarrow> 'c event_ctx result" where
  "getContext event c =
     (if event = READ then Inr (fd_read c)
      else if event = WRITE then Inr (fd_write c)
      else Inl (Assert_failed ''getContext''))"

text \<open>Assigning through the reference that \<open>getContext\<close> returns.\<close>

definition putContext :: "event \<Rightarrow> 'c event_ctx \<Rightarrow> 'c fd_ctx \<Rightarrow> 'c fd_ctx" where
  "putContext event x c = (if event = READ then c\<lparr>fd_read := x\<rparr> else c\<lparr>fd_write := x\<rparr>)"

definition resetContext :: "'c event_ctx \<Rightarrow> 'c event_ctx" where
  "resetContext ctx = ctx\<lparr>ev_scheduler := None, ev_fiber := None, ev_cb := None\<rparr>"

text \<open>
  The task is made by swapping the callback (or else the fiber) out of the context; the result is the
  scheduler it goes to, the task and the context afterwards.
\<close>

definition triggerEvent :: "event \<Rightarrow> 'c fd_ctx \<Rightarrow> (nat \<times> 'c task \<times> 'c fd_ctx) result" where
  "triggerEvent event c =
     (if fd_events c AND event = 0 then Inl (Assert_failed ''events & event'')
      else let c = c\<lparr>fd_events := fd_events c AND NOT event\<rparr> in
        rbind (getContext event c) (\<lambda>ctx.
          case ev_scheduler ctx of
            None \<Rightarrow> Inl Null_deref
          | Some sch \<Rightarrow>
              (if ev_cb ctx \<noteq> None
               then Inr (sch, mk_FiberAndThread None (ev_cb ctx) (- 1),
                         putContext event (ctx\<lparr>ev_cb := None, ev_scheduler := None\<rparr>) c)
               else Inr (sch, mk_FiberAndThread (ev_fiber ctx) None (- 1),
                         putContext event (ctx\<lparr>ev_fiber := None, ev_scheduler := None\<rparr>) c))))"

text \<open>Growing the table; the loop fills the new slots (no slot is ever null afterwards).\<close>

definition new_fd_ctx :: "nat \<Rightarrow> 'c fd_ctx" where
  "new_fd_ctx i = \<lparr>fd_read = empty_ctx, fd_write = empty_ctx, fd_fd = i, fd_events = NONE\<rparr>"

definition contextResize :: "nat \<Rightarrow> 'c iomanager \<Rightarrow> 'c iomanager" where
  "contextResize sz io =
     io\<lparr>m_fdContexts := take sz (m_fdContexts io) @ map new_fd_ctx [length (m_fdContexts io)..<sz]\<rparr>"

definition set_ctx :: "nat \<Rightarrow> 'c timer_fn fd_ctx \<Rightarrow> 'c iomanager \<Rightarrow> 'c iomanager" where
  "set_ctx fd c io = io\<lparr>m_fdContexts := (m_fdContexts io)[fd := c]\<rparr>"

text \<open>A successful \<^verbatim>\<open>epoll_ctl\<close>: an empty event set is a removal, as in all callers.\<close>

definition epoll_set :: "nat \<Rightarrow> event \<Rightarrow> 'c iomanager \<Rightarrow> 'c iomanager" where
  "epoll_set fd evs io =
     io\<lparr>k_interest := (k_interest io)(fd := if evs = 0 then None else Some (EPOLLET OR evs))\<rparr>"

subsection \<open>Operations\<close>

definition tickle :: "'c iomanager \<Rightarrow> 'c iomanager" where
  "tickle io =
     (if hasIdleThreads (io_scheds io (io_this io)) then io
      else io\<lparr>tickle_pipe := tickle_pipe io + 1\<rparr>)"

definition onTimerInsertedAtFront :: "'c iomanager \<Rightarrow> 'c iomanager" where
  "onTimerInsertedAtFront io = tickle io"

text \<open>\<open>schedule\<close> on the scheduler \<open>sch\<close>; an \<open>IOManager\<close> is woken through its pipe.\<close>

definition io_schedule :: "nat \<Rightarrow> 'c timer_fn task \<Rightarrow> 'c iomanager \<Rightarrow> 'c iomanager" where
  "io_schedule sch ft io =
     (let (need_tickle, s) = schedule ft (io_scheds io sch);
          io = io\<lparr>io_scheds := (io_scheds io)(sch := s)\<rparr>
      in if need_tickle \<and> sch = io_this io then tickle io else io)"

text \<open>
  \<open>cur_sched\<close> is \<^verbatim>\<open>Scheduler::GetThis()\<close>, \<open>cur\<close> the current fiber with its state.  The size of the
  grown table is \<^verbatim>\<open>fd * 1.5\<close>, truncated.
\<close>

definition addEvent :: "int \<Rightarrow> nat option \<Rightarrow> nat \<times> fstate \<Rightarrow> int \<Rightarrow> event \<Rightarrow> 'c timer_fn option \<Rightarrow> 'c iomanager
    \<Rightarrow> (int \<times> 'c iomanager) result" where
  "addEvent rt cur_sched cur fd event cb io =
     (if fd < 0 then Inl Oob_access
      else
        let n = nat fd;
            io = (if length (m_fdContexts io) > n then io else contextResize (n * 3 div 2) io)
        in if length (m_fdContexts io) \<le> n then Inl Oob_access
        else let c = m_fdContexts io ! n in
          if fd_events c AND event \<noteq> 0 then Inl (Assert_failed ''!(fd_ctx->events & event)'')
          else if rt \<noteq> 0 then Inr (- 1, io)
          else
            let io = epoll_set n (fd_events c OR event) io;
                io = io\<lparr>m_pendingEventCount := m_pendingEventCount io + 1\<rparr>;
                c = c\<lparr>fd_events := fd_events c OR event\<rparr>
            in rbind (getContext event c) (\<lambda>ctx.
              if ev_scheduler ctx \<noteq> None \<or> ev_fiber ctx \<noteq> None \<or> ev_cb ctx \<noteq> None
              then Inl (Assert_failed ''event_ctx is empty'')
              else if cb \<noteq> None then
                Inr (0, set_ctx n (putContext event (ctx\<lparr>ev_scheduler := cur_sched, ev_cb := cb\<rparr>) c) io)
              else if snd cur \<noteq> EXEC then Inl (Assert_failed ''getState() == Fiber::EXEC'')
              else Inr (0, set_ctx n (putContext event (ctx\<lparr>ev_scheduler := cur_sched, ev_fiber := Some (fst cur)\<rparr>) c) io)))"

definition delEvent :: "int \<Rightarrow> int \<Rightarrow> event \<Rightarrow> 'c iomanager \<Rightarrow> (bool \<times> 'c iomanager) result" where
  "delEvent rt fd event io =
     (if int (length (m_fdContexts io)) \<le> fd then Inr (False, io)
      else if fd < 0 then Inl Oob_access
      else
        let n = nat fd; c = m_fdContexts io ! n in
        if fd_events c AND event = 0 then Inr (False, io)
        else if rt \<noteq> 0 then Inr (False, io)
        else
          let new_events = fd_events c AND NOT event;
              io = epoll_set n new_events io;
              io = io\<lparr>m_pendingEventCount := size_sub (m_pendingEventCount io) 1\<rparr>;
              c = c\<lparr>fd_events := new_events\<rparr>
          in rbind (getContext event c) (\<lambda>ctx.
            Inr (True, set_ctx n (putContext event (resetContext ctx) c) io)))"

text \<open>\<open>triggerEvent\<close> followed by the decrement of the counter, as its callers have them.\<close>

definition trigger_on :: "nat \<Rightarrow> event \<Rightarrow> 'c iomanager \<Rightarrow> 'c iomanager result" where
  "trigger_on n event io =
     rbind (triggerEvent event (m_fdContexts io ! n)) (\<lambda>(sch, ft, c).
       Inr ((io_schedule sch ft (set_ctx n c io))
              \<lparr>m_pendingEventCount := size_sub (m_pendingEventCount io) 1\<rparr>))"

definition cancelEvent :: "int \<Rightarrow> int \<Rightarrow> event \<Rightarrow> 'c iomanager \<Rightarrow> (bool \<times> 'c iomanager) result" where
  "cancelEvent rt fd event io =
     (if int (length (m_fdContexts io)) \<le> fd then Inr (False, io)
      else if fd < 0 then Inl Oob_access
      else
        let n = nat fd; c = m_fdContexts io ! n in
        if fd_events c AND event = 0 then Inr (False, io)
        else if rt \<noteq> 0 then Inr (False, io)
        else
          let new_events = fd_events c AND NOT event in
          rbind (trigger_on n event (epoll_set n new_events io)) (\<lambda>io. Inr (True, io)))"

definition cancelAll :: "int \<Rightarrow> int \<Rightarrow> 'c iomanager \<Rightarrow> (bool \<times> 'c iomanager) result" where
  "cancelAll rt fd io =
     (if int (length (m_fdContexts io)) \<le> fd then Inr (False, io)
      else if fd < 0 then Inl Oob_access
      else
        let n = nat fd in
        if fd_events (m_fdContexts io ! n) = 0 then Inr (False, io)
        else if rt \<noteq> 0 then Inr (False, io)
        else
          rbind (let io = epoll_set n 0 io in
                 if fd_events (m_fdContexts io ! n) AND READ \<noteq> 0 then trigger_on n READ io else Inr io) (\<lambda>io.
          rbind (if fd_events (m_fdContexts io ! n) AND WRITE \<noteq> 0 then trigger_on n WRITE io else Inr io) (\<lambda>io.
          if fd_events (m_fdContexts io ! n) \<noteq> 0 then Inl (Assert_failed ''fd_ctx->events == 0'')
          else Inr (True, io))))"

definition io_stopping :: "64 word \<Rightarrow> 'c iomanager \<Rightarrow> bool \<times> 64 word \<times> 'c iomanager" where
  "io_stopping now io =
     (let (timeout, tm) = getNextTimer now (io_timers io);
          io = io\<lparr>io_timers := tm\<rparr>
      in (timeout = - 1 \<and> m_pendingEventCount io = 0 \<and> sched_stopping (io_scheds io (io_this io)), timeout, io))"

text \<open>The timeout that \<open>idle\<close> hands to \<^verbatim>\<open>epoll_wait\<close>, an \<^verbatim>\<open>int\<close>.\<close>

definition io_timeout :: "64 word \<Rightarrow> 32 word" where
  "io_timeout next_timeout =
     (let MAX_TIMEOUT = 3000 :: 64 word;
          t = (if next_timeout \<noteq> - 1
               then (if sint (ucast next_timeout :: 32 word) > 3000 then MAX_TIMEOUT else next_timeout)
               else MAX_TIMEOUT)
      in ucast t)"

text \<open>One entry of the array filled by \<^verbatim>\<open>epoll_wait\<close>: the wake-up pipe, or a context with its events.\<close>

datatype epoll_entry = Tickle_fd | Ready nat event

definition real_events :: "event \<Rightarrow> event" where
  "real_events evs =
     (let evs = (if evs AND (EPOLLERR OR EPOLLHUP) \<noteq> 0 then evs OR EPOLLIN OR EPOLLOUT else evs);
          r = NONE;
          r = (if evs AND EPOLLIN \<noteq> 0 then r OR READ else r)
      in if evs AND EPOLLOUT \<noteq> 0 then r OR WRITE else r)"

text \<open>The two conditional calls of \<open>triggerEvent\<close> at the end of the loop body.\<close>

definition trigger_mask :: "nat \<Rightarrow> event \<Rightarrow> 'c iomanager \<Rightarrow> 'c iomanager result" where
  "trigger_mask n r io =
     rbind (if r AND READ \<noteq> 0 then trigger_on n READ io else Inr io) (\<lambda>io.
       if r AND WRITE \<noteq> 0 then trigger_on n WRITE io else Inr io)"

definition handle_event :: "int \<Rightarrow> epoll_entry \<Rightarrow> 'c iomanager \<Rightarrow> 'c iomanager result" where
  "handle_event rt2 e io =
     (case e of
        Tickle_fd \<Rightarrow> Inr (io\<lparr>tickle_pipe := 0\<rparr>)
      | Ready n evs \<Rightarrow>
          let c = m_fdContexts io ! n; r = real_events evs in
          if fd_events c AND r = NONE then Inr io
          else
            let left_events = fd_events c AND NOT r in
            if rt2 \<noteq> 0 then Inr io
            else trigger_mask n r (epoll_set n left_events io))"

fun handle_events :: "(epoll_entry \<times> int) list \<Rightarrow> 'c iomanager \<Rightarrow> 'c iomanager result" where
  "handle_events [] io = Inr io"
| "handle_events ((e, rt2) # es) io = rbind (handle_event rt2 e io) (handle_events es)"

text \<open>The expired timers: their callbacks are scheduled in one batch.\<close>

definition schedule_timers :: "64 word \<Rightarrow> nat \<Rightarrow> 'c iomanager \<Rightarrow> 'c iomanager result" where
  "schedule_timers now na io =
     rbind (listExpiredCb now na (io_timers io)) (\<lambda>(cbs, tm).
       let io = io\<lparr>io_timers := tm\<rparr> in
       if cbs = [] then Inr io
       else
         let (need_tickle, s) = schedule_range (map (\<lambda>cb. mk_FiberAndThread None cb (- 1)) cbs) False
               (io_scheds io (io_this io));
             io = io\<lparr>io_scheds := (io_scheds io)(io_this io := s)\<rparr>
         in Inr (if need_tickle then tickle io else io))"

text \<open>
  One turn of the loop of \<open>idle\<close>, for the clock at the call of \<open>stopping\<close> and after \<^verbatim>\<open>epoll_wait\<close> and
  the entries that it returned (none if it failed): how the fiber leaves, and the state.
\<close>

definition idle_turn :: "64 word \<Rightarrow> 64 word \<Rightarrow> nat \<Rightarrow> (32 word \<Rightarrow> (epoll_entry \<times> int) list) \<Rightarrow> 'c iomanager
    \<Rightarrow> (leave \<times> 'c iomanager) result" where
  "idle_turn now now' na epoll_wait io =
     (let (stop, next_timeout, io) = io_stopping now io in
      if stop then Inr (End Returns, io)
      else
        let es = epoll_wait (io_timeout next_timeout) in
        rbind (schedule_timers now' na io) (\<lambda>io.
        rbind (handle_events es io) (\<lambda>io. Inr (Swap_out, io))))"

subsection \<open>The invariant\<close>

lemmas event_defs = NONE_def READ_def WRITE_def EPOLLIN_def EPOLLOUT_def EPOLLERR_def EPOLLHUP_def

definition ctx_of :: "event \<Rightarrow> 'c fd_ctx \<Rightarrow> 'c event_ctx" where
  "ctx_of event c = (if event = READ then fd_read c else fd_write c)"

definition nev :: "event \<Rightarrow> nat" where
  "nev e = of_bool (e AND READ \<noteq> 0) + of_bool (e AND WRITE \<noteq> 0)"

definition ctx_ok :: "bool \<Rightarrow> 'c event_ctx \<Rightarrow> bool" where
  "ctx_ok registered ctx \<longleftrightarrow>
     (if registered then ev_scheduler ctx \<noteq> None \<and> (ev_cb ctx = None \<longleftrightarrow> ev_fiber ctx \<noteq> None)
      else ctx = empty_ctx)"

definition fd_ok :: "nat \<Rightarrow> 'c fd_ctx \<Rightarrow> bool" where
  "fd_ok i c \<longleftrightarrow> fd_fd c = i \<and> fd_events c \<in> {0, READ, WRITE, READ OR WRITE} \<and>
     ctx_ok (fd_events c AND READ \<noteq> 0) (fd_read c) \<and> ctx_ok (fd_events c AND WRITE \<noteq> 0) (fd_write c)"

definition io_ok :: "'c iomanager \<Rightarrow> bool" where
  "io_ok io \<longleftrightarrow> (\<forall>n < length (m_fdContexts io). fd_ok n (m_fdContexts io ! n)) \<and>
     m_pendingEventCount io = sum_list (map (\<lambda>c. nev (fd_events c)) (m_fdContexts io)) \<and>
     (\<forall>n. k_interest io n =
        (if n < length (m_fdContexts io) \<and> fd_events (m_fdContexts io ! n) \<noteq> 0
         then Some (EPOLLET OR fd_events (m_fdContexts io ! n)) else None)) \<and>
     tm_ok (io_timers io)"

lemma event_cases:
  assumes "e \<in> {0, READ, WRITE, READ OR WRITE}"
  obtains "e = 0" | "e = 1" | "e = 4" | "e = 5"
  using assms by (auto simp: event_defs)

lemma ctx_ok_empty [simp]: "ctx_ok False ctx \<longleftrightarrow> ctx = empty_ctx"
  by (simp add: ctx_ok_def)

lemma io_ok_fd: "io_ok io \<Longrightarrow> n < length (m_fdContexts io) \<Longrightarrow> fd_ok n (m_fdContexts io ! n)"
  by (simp add: io_ok_def)

text \<open>One descriptor changes, and the counter and the interest list with it.\<close>

lemma io_ok_update:
  assumes ok: "io_ok io" and n: "n < length (m_fdContexts io)"
    and ctxs: "m_fdContexts io' = (m_fdContexts io)[n := c]" and c: "fd_ok n c"
    and cnt: "m_pendingEventCount io' + nev (fd_events (m_fdContexts io ! n)) = m_pendingEventCount io + nev (fd_events c)"
    and k: "k_interest io' = (k_interest io)(n := if fd_events c = 0 then None else Some (EPOLLET OR fd_events c))"
    and tm: "io_timers io' = io_timers io"
  shows "io_ok io'"
proof -
  let ?g = "\<lambda>c. nev (fd_events c)"
  have "?g (m_fdContexts io ! n) \<le> sum_list (map ?g (m_fdContexts io))"
    using n by (metis elem_le_sum_list length_map nth_map)
  then have "m_pendingEventCount io' = sum_list (map ?g (m_fdContexts io'))"
    using ok cnt n by (simp add: io_ok_def ctxs map_update sum_list_update)
  then show ?thesis using ok c k tm n
    by (auto simp: io_ok_def ctxs nth_list_update)
qed

subsection \<open>Handing events to their schedulers\<close>

text \<open>The task that a context stands for.\<close>

definition ctx_task :: "'c event_ctx \<Rightarrow> 'c task" where
  "ctx_task ctx = mk_FiberAndThread (ev_fiber ctx) (ev_cb ctx) (- 1)"

definition cleared :: "event \<Rightarrow> 'c fd_ctx \<Rightarrow> 'c fd_ctx" where
  "cleared event c = putContext event empty_ctx (c\<lparr>fd_events := fd_events c AND NOT event\<rparr>)"

lemma fd_ok_cleared:
  assumes "fd_ok n c" "event = READ \<or> event = WRITE" "fd_events c AND event \<noteq> 0"
  shows "fd_ok n (cleared event c)" "nev (fd_events (cleared event c)) + 1 = nev (fd_events c)"
    "fd_events (cleared event c) = fd_events c AND NOT event"
proof -
  have "fd_events c \<in> {0, READ, WRITE, READ OR WRITE}" using assms(1) by (simp add: fd_ok_def)
  then show "fd_ok n (cleared event c)" "nev (fd_events (cleared event c)) + 1 = nev (fd_events c)"
    "fd_events (cleared event c) = fd_events c AND NOT event"
    using assms by (cases rule: event_cases; auto simp: fd_ok_def cleared_def putContext_def event_defs nev_def)+
qed

lemma triggerEvent_ok:
  assumes ok: "fd_ok n c" and ev: "event = READ \<or> event = WRITE" and reg: "fd_events c AND event \<noteq> 0"
  shows "\<exists>sch. ev_scheduler (ctx_of event c) = Some sch \<and> task_ok (ctx_task (ctx_of event c)) \<and>
     triggerEvent event c = Inr (sch, ctx_task (ctx_of event c), cleared event c)"
proof -
  define ctx where "ctx = ctx_of event c"
  have ctx: "ctx_ok True ctx" using ok ev reg by (auto simp: fd_ok_def ctx_def ctx_of_def)
  then obtain sch where sch: "ev_scheduler ctx = Some sch" by (auto simp: ctx_ok_def)
  have get: "getContext event (c\<lparr>fd_events := e\<rparr>) = Inr ctx" for e
    using ev by (auto simp: getContext_def ctx_def ctx_of_def event_defs)
  show ?thesis
  proof (cases "ev_cb ctx")
    case None
    then have e: "ctx\<lparr>ev_fiber := None, ev_scheduler := None\<rparr> = empty_ctx" by (simp add: empty_ctx_def)
    show ?thesis using None sch ctx reg get e
      by (simp add: triggerEvent_def cleared_def ctx_task_def ctx_ok_def task_ok_def mk_FiberAndThread_def flip: ctx_def)
  next
    case (Some cb)
    then have f: "ev_fiber ctx = None" using ctx by (auto simp: ctx_ok_def)
    then have e: "ctx\<lparr>ev_cb := None, ev_scheduler := None\<rparr> = empty_ctx" by (simp add: empty_ctx_def)
    show ?thesis using Some f sch reg get e
      by (simp add: triggerEvent_def cleared_def ctx_task_def task_ok_def mk_FiberAndThread_def flip: ctx_def)
  qed
qed

text \<open>What the clients of a scheduler rely on: a valid task is appended to its queue.\<close>

locale task_sink =
  fixes submit :: "'t \<Rightarrow> 's \<Rightarrow> 's" and pending :: "'s \<Rightarrow> 't list" and valid :: "'t \<Rightarrow> bool"
  assumes submit_valid: "valid t \<Longrightarrow> pending (submit t s) = pending s @ [t]"
    and submit_invalid: "\<not> valid t \<Longrightarrow> pending (submit t s) = pending s"
begin

lemma submit_all: "pending (fold submit ts s) = pending s @ filter valid ts"
  by (induction ts arbitrary: s) (simp_all add: submit_valid submit_invalid)

end

interpretation sch: task_sink "\<lambda>ft s. snd (schedule ft s)" m_fibers task_ok
  by unfold_locales (simp_all add: schedule_def scheduleNoLock_def)

lemma schedule_range_fold: "snd (schedule_range fts b s) = fold (\<lambda>ft s. snd (schedule ft s)) fts s"
  by (induction fts b s rule: schedule_range.induct) (auto simp: schedule_def split: prod.splits)

lemma schedule_range_tickle:
  "fts \<noteq> [] \<Longrightarrow> m_fibers s = [] \<Longrightarrow> fst (schedule_range fts b s)"
proof -
  have "fst (schedule_range fts True s)" for fts :: "'a task list" and s
    by (induction fts arbitrary: s) (auto simp: scheduleNoLock_def split: prod.splits)
  then show "fts \<noteq> [] \<Longrightarrow> m_fibers s = [] \<Longrightarrow> fst (schedule_range fts b s)"
    by (cases fts) (auto simp: scheduleNoLock_def)
qed

definition queue_of :: "'c iomanager \<Rightarrow> nat \<Rightarrow> 'c timer_fn task list" where
  "queue_of io sch = m_fibers (io_scheds io sch)"

lemma tickle_frame [simp]:
  "m_fdContexts (tickle io) = m_fdContexts io" "k_interest (tickle io) = k_interest io"
  "io_timers (tickle io) = io_timers io" "m_pendingEventCount (tickle io) = m_pendingEventCount io"
  "io_scheds (tickle io) = io_scheds io" "io_this (tickle io) = io_this io"
  by (simp_all add: tickle_def)

lemma io_schedule_frame [simp]:
  "m_fdContexts (io_schedule sch ft io) = m_fdContexts io" "k_interest (io_schedule sch ft io) = k_interest io"
  "io_timers (io_schedule sch ft io) = io_timers io" "m_pendingEventCount (io_schedule sch ft io) = m_pendingEventCount io"
  "io_this (io_schedule sch ft io) = io_this io"
  by (auto simp: io_schedule_def Let_def split: prod.splits)

lemma io_schedule_queue:
  assumes "task_ok ft"
  shows "queue_of (io_schedule sch ft io) i = queue_of io i @ (if i = sch then [ft] else [])"
proof -
  have "m_fibers (snd (schedule ft (io_scheds io sch))) = m_fibers (io_scheds io sch) @ [ft]"
    using assms by (rule sch.submit_valid)
  then show ?thesis by (auto simp: io_schedule_def queue_of_def Let_def split: prod.splits)
qed

lemma trigger_on_ok:
  assumes n: "n < length (m_fdContexts io)" and ok: "fd_ok n (m_fdContexts io ! n)"
    and ev: "event = READ \<or> event = WRITE" and reg: "fd_events (m_fdContexts io ! n) AND event \<noteq> 0"
  shows "\<exists>sch io'. ev_scheduler (ctx_of event (m_fdContexts io ! n)) = Some sch \<and> trigger_on n event io = Inr io' \<and>
     m_fdContexts io' = (m_fdContexts io)[n := cleared event (m_fdContexts io ! n)] \<and>
     m_pendingEventCount io' = size_sub (m_pendingEventCount io) 1 \<and> k_interest io' = k_interest io \<and>
     io_timers io' = io_timers io \<and>
     (\<forall>i. queue_of io' i = queue_of io i @ (if i = sch then [ctx_task (ctx_of event (m_fdContexts io ! n))] else []))"
proof -
  obtain sch where sch: "ev_scheduler (ctx_of event (m_fdContexts io ! n)) = Some sch"
      "task_ok (ctx_task (ctx_of event (m_fdContexts io ! n)))"
      "triggerEvent event (m_fdContexts io ! n) =
         Inr (sch, ctx_task (ctx_of event (m_fdContexts io ! n)), cleared event (m_fdContexts io ! n))"
    using triggerEvent_ok[OF ok ev reg] by blast
  show ?thesis using sch io_schedule_queue[OF sch(2)]
    by (auto simp: trigger_on_def set_ctx_def queue_of_def)
qed

lemma trigger_on_unregistered:
  "fd_events (m_fdContexts io ! n) AND event = 0 \<Longrightarrow> trigger_on n event io = Inl (Assert_failed ''events & event'')"
  by (simp add: trigger_on_def triggerEvent_def)

subsection \<open>The operations keep the invariant\<close>

lemma epoll_set_frame [simp]:
  "m_fdContexts (epoll_set n e io) = m_fdContexts io" "io_timers (epoll_set n e io) = io_timers io"
  "m_pendingEventCount (epoll_set n e io) = m_pendingEventCount io" "io_scheds (epoll_set n e io) = io_scheds io"
  "queue_of (epoll_set n e io) = queue_of io" "io_this (epoll_set n e io) = io_this io"
  "k_interest (epoll_set n e io) = (k_interest io)(n := if e = 0 then None else Some (EPOLLET OR e))"
  by (simp_all add: epoll_set_def queue_of_def fun_eq_iff)

lemma pending_pos:
  assumes "io_ok io" "n < length (m_fdContexts io)"
  shows "nev (fd_events (m_fdContexts io ! n)) \<le> m_pendingEventCount io"
proof -
  have "nev (fd_events (m_fdContexts io ! n)) \<le> sum_list (map (\<lambda>c. nev (fd_events c)) (m_fdContexts io))"
    using assms(2) by (metis (no_types, lifting) elem_le_sum_list length_map nth_map)
  then show ?thesis using assms(1) by (simp add: io_ok_def)
qed

text \<open>Removing one registered event: the part that \<open>delEvent\<close> and \<open>cancelEvent\<close> share.\<close>

lemma io_ok_cleared:
  assumes ok: "io_ok io" and n: "n < length (m_fdContexts io)"
    and ev: "event = READ \<or> event = WRITE" and reg: "fd_events (m_fdContexts io ! n) AND event \<noteq> 0"
    and io': "m_fdContexts io' = (m_fdContexts io)[n := cleared event (m_fdContexts io ! n)]"
      "m_pendingEventCount io' = size_sub (m_pendingEventCount io) 1"
      "k_interest io' = k_interest (epoll_set n (fd_events (m_fdContexts io ! n) AND NOT event) io)"
      "io_timers io' = io_timers io"
  shows "io_ok io' \<and> m_pendingEventCount io' + 1 = m_pendingEventCount io"
proof -
  note C = fd_ok_cleared[OF io_ok_fd[OF ok n] ev reg]
  have "1 \<le> m_pendingEventCount io" using pending_pos[OF ok n] C(2) by simp
  then have cnt: "m_pendingEventCount io' + 1 = m_pendingEventCount io" using io'(2) by simp
  have "io_ok io'"
    by (rule io_ok_update[OF ok n io'(1) C(1)]) (use C io' cnt in auto)
  then show ?thesis using cnt by simp
qed

lemma contextResize_ok:
  assumes "io_ok io" "length (m_fdContexts io) \<le> sz"
  shows "io_ok (contextResize sz io)" "length (m_fdContexts (contextResize sz io)) = sz"
    "n < length (m_fdContexts io) \<Longrightarrow> m_fdContexts (contextResize sz io) ! n = m_fdContexts io ! n"
    "length (m_fdContexts io) \<le> n \<Longrightarrow> n < sz \<Longrightarrow> m_fdContexts (contextResize sz io) ! n = new_fd_ctx n"
proof -
  show l: "length (m_fdContexts (contextResize sz io)) = sz" using assms(2) by (simp add: contextResize_def)
  show old: "n < length (m_fdContexts io) \<Longrightarrow> m_fdContexts (contextResize sz io) ! n = m_fdContexts io ! n" for n
    using assms(2) by (simp add: contextResize_def nth_append)
  show new: "length (m_fdContexts io) \<le> n \<Longrightarrow> n < sz \<Longrightarrow> m_fdContexts (contextResize sz io) ! n = new_fd_ctx n" for n
    using assms(2) by (simp add: contextResize_def nth_append)
  have nw: "fd_ok n (new_fd_ctx n)" "fd_events (new_fd_ctx n) = 0" for n
    by (simp_all add: fd_ok_def new_fd_ctx_def event_defs)
  have sum0: "sum_list (map (\<lambda>c. nev (fd_events c)) (map new_fd_ctx ks)) = 0" for ks
    by (induction ks) (simp_all add: new_fd_ctx_def event_defs nev_def)
  have "m_pendingEventCount (contextResize sz io) =
      sum_list (map (\<lambda>c. nev (fd_events c)) (m_fdContexts (contextResize sz io)))"
    using assms sum0[of "[length (m_fdContexts io)..<sz]"] by (simp add: io_ok_def contextResize_def)
  moreover have "fd_ok n (m_fdContexts (contextResize sz io) ! n)" if "n < sz" for n
    using that old[of n] new[of n] nw(1)[of n] io_ok_fd[OF assms(1), of n]
    by (cases "n < length (m_fdContexts io)") auto
  moreover have "k_interest (contextResize sz io) n = (if n < sz \<and> fd_events (m_fdContexts (contextResize sz io) ! n) \<noteq> 0
         then Some (EPOLLET OR fd_events (m_fdContexts (contextResize sz io) ! n)) else None)" for n
  proof -
    have "k_interest (contextResize sz io) = k_interest io" by (simp add: contextResize_def)
    then show ?thesis using assms old[of n] new[of n] nw(2)[of n]
      by (cases "n < length (m_fdContexts io)"; cases "n < sz") (auto simp: io_ok_def)
  qed
  moreover have "io_timers (contextResize sz io) = io_timers io" by (simp add: contextResize_def)
  ultimately show "io_ok (contextResize sz io)" using assms(1) l by (simp add: io_ok_def)
qed

text \<open>The state that \<open>addEvent\<close> works on, grown to hold \<open>n\<close> if need be.\<close>

definition grown :: "nat \<Rightarrow> 'c iomanager \<Rightarrow> 'c iomanager" where
  "grown n io = (if length (m_fdContexts io) > n then io else contextResize (n * 3 div 2) io)"

lemma grown_ok:
  assumes "io_ok io" "2 \<le> length (m_fdContexts io)"
  shows "io_ok (grown n io)" "n < length (m_fdContexts (grown n io))"
    "queue_of (grown n io) = queue_of io" "m_pendingEventCount (grown n io) = m_pendingEventCount io"
    "k_interest (grown n io) = k_interest io" "io_timers (grown n io) = io_timers io"
proof -
  have "length (m_fdContexts io) \<le> n * 3 div 2" "n < n * 3 div 2" if "\<not> length (m_fdContexts io) > n"
    using that assms(2) by simp_all
  then show "io_ok (grown n io)" "n < length (m_fdContexts (grown n io))"
    using contextResize_ok[OF assms(1), of "n * 3 div 2"] assms(1) by (auto simp: grown_def)
  show "queue_of (grown n io) = queue_of io" "m_pendingEventCount (grown n io) = m_pendingEventCount io"
    "k_interest (grown n io) = k_interest io" "io_timers (grown n io) = io_timers io"
    by (simp_all add: grown_def contextResize_def queue_of_def fun_eq_iff)
qed

definition filled :: "nat \<Rightarrow> 'c option \<Rightarrow> nat \<Rightarrow> 'c event_ctx" where
  "filled sch cb cur = \<lparr>ev_scheduler = Some sch, ev_fiber = (if cb = None then Some cur else None), ev_cb = cb\<rparr>"

lemma unregistered_empty:
  "fd_ok n c \<Longrightarrow> event = READ \<or> event = WRITE \<Longrightarrow> fd_events c AND event = 0 \<Longrightarrow> ctx_of event c = empty_ctx"
  by (auto simp: fd_ok_def ctx_of_def)

lemma fd_ok_filled:
  fixes c :: "'c fd_ctx" and sch cur :: nat and cb :: "'c option"
  assumes "fd_ok n c" "event = READ \<or> event = WRITE" "fd_events c AND event = 0"
  defines "c' \<equiv> putContext event (filled sch cb cur) (c\<lparr>fd_events := fd_events c OR event\<rparr>)"
  shows "fd_ok n c'" "nev (fd_events c') = nev (fd_events c) + 1" "ctx_of event c' = filled sch cb cur"
    "fd_events c' = fd_events c OR event" "fd_events c' \<noteq> 0" "cleared event c' = c"
proof -
  have "fd_events c \<in> {0, READ, WRITE, READ OR WRITE}" using assms(1) by (simp add: fd_ok_def)
  then show "fd_ok n c'" "nev (fd_events c') = nev (fd_events c) + 1" "ctx_of event c' = filled sch cb cur"
    "fd_events c' = fd_events c OR event" "fd_events c' \<noteq> 0" "cleared event c' = c"
    using assms
    by (cases rule: event_cases; auto simp: fd_ok_def c'_def putContext_def ctx_of_def filled_def ctx_ok_def event_defs
          nev_def cleared_def)+
qed

lemma addEvent_ok:
  assumes ok: "io_ok io" "2 \<le> length (m_fdContexts io)" and ev: "event = READ \<or> event = WRITE"
    and free: "fd_events (m_fdContexts (grown n io) ! n) AND event = 0" and cur: "cb = None \<Longrightarrow> snd cur = EXEC"
  shows "\<exists>io'. addEvent 0 (Some sch) cur (int n) event cb io = Inr (0, io') \<and> io_ok io' \<and>
     m_fdContexts io' = (m_fdContexts (grown n io))[n := putContext event (filled sch cb (fst cur))
        ((m_fdContexts (grown n io) ! n)\<lparr>fd_events := fd_events (m_fdContexts (grown n io) ! n) OR event\<rparr>)] \<and>
     m_pendingEventCount io' = m_pendingEventCount io + 1 \<and> queue_of io' = queue_of io \<and>
     k_interest io' = k_interest (epoll_set n (fd_events (m_fdContexts (grown n io) ! n) OR event) io) \<and>
     io_timers io' = io_timers io"
proof -
  define io1 where "io1 = grown n io"
  define c where "c = m_fdContexts io1 ! n"
  note G = grown_ok[OF ok, of n, folded io1_def]
  note F = fd_ok_filled[where sch = sch and cb = cb and cur = "fst cur", OF io_ok_fd[OF G(1,2)] ev free[folded io1_def],
      folded c_def]
  define c' where "c' = putContext event (filled sch cb (fst cur)) (c\<lparr>fd_events := fd_events c OR event\<rparr>)"
  define io' where "io' = set_ctx n c' ((epoll_set n (fd_events c OR event) io1)\<lparr>m_pendingEventCount := m_pendingEventCount io1 + 1\<rparr>)"
  have get: "getContext event (c\<lparr>fd_events := e\<rparr>) = Inr empty_ctx" for e
    using ev unregistered_empty[OF io_ok_fd[OF G(1,2)] ev free[folded io1_def]]
    by (auto simp: getContext_def ctx_of_def event_defs c_def)
  have eq: "addEvent 0 (Some sch) cur (int n) event cb io = Inr (0, io')"
    using free G(2) get cur
    by (cases cb) (simp_all add: addEvent_def Let_def io'_def c'_def c_def filled_def empty_ctx_def
          flip: grown_def io1_def)
  have io': "m_fdContexts io' = (m_fdContexts io1)[n := c']" "m_pendingEventCount io' = m_pendingEventCount io1 + 1"
    "k_interest io' = k_interest (epoll_set n (fd_events c OR event) io1)" "io_timers io' = io_timers io1"
    "queue_of io' = queue_of io1"
    by (simp_all add: io'_def set_ctx_def queue_of_def fun_eq_iff)
  have "io_ok io'"
    by (rule io_ok_update[OF G(1,2) io'(1)]) (use F io' in \<open>auto simp: c'_def c_def\<close>)
  then show ?thesis using eq io' G by (auto simp: c'_def c_def io1_def)
qed

subsection \<open>Triggering several events\<close>

text \<open>The tasks that the events \<open>r\<close> of a context put into the queue of scheduler \<open>i\<close>, in order.\<close>

definition tasks_for :: "event \<Rightarrow> 'c fd_ctx \<Rightarrow> nat \<Rightarrow> 'c task list" where
  "tasks_for r c i =
     (if r AND READ \<noteq> 0 \<and> ev_scheduler (fd_read c) = Some i then [ctx_task (fd_read c)] else []) @
     (if r AND WRITE \<noteq> 0 \<and> ev_scheduler (fd_write c) = Some i then [ctx_task (fd_write c)] else [])"

definition triggered :: "nat \<Rightarrow> event \<Rightarrow> 'c iomanager \<Rightarrow> 'c iomanager \<Rightarrow> bool" where
  "triggered n r io io' \<longleftrightarrow>
     (\<exists>c'. m_fdContexts io' = (m_fdContexts io)[n := c'] \<and> fd_ok n c' \<and>
        fd_events c' = fd_events (m_fdContexts io ! n) AND NOT r) \<and>
     m_pendingEventCount io' + nev r = m_pendingEventCount io \<and> k_interest io' = k_interest io \<and>
     io_timers io' = io_timers io \<and>
     (\<forall>i. queue_of io' i = queue_of io i @ tasks_for r (m_fdContexts io ! n) i)"

lemma trigger_one:
  assumes n: "n < length (m_fdContexts io)" and ok: "fd_ok n (m_fdContexts io ! n)"
    and cnt: "nev (fd_events (m_fdContexts io ! n)) \<le> m_pendingEventCount io"
    and ev: "event = READ \<or> event = WRITE" and reg: "fd_events (m_fdContexts io ! n) AND event \<noteq> 0"
  shows "\<exists>io'. trigger_on n event io = Inr io' \<and> triggered n event io io' \<and>
     m_fdContexts io' = (m_fdContexts io)[n := cleared event (m_fdContexts io ! n)]"
proof -
  let ?c = "m_fdContexts io ! n"
  obtain sch io' where *: "ev_scheduler (ctx_of event ?c) = Some sch" "trigger_on n event io = Inr io'"
     "m_fdContexts io' = (m_fdContexts io)[n := cleared event ?c]"
     "m_pendingEventCount io' = size_sub (m_pendingEventCount io) 1" "k_interest io' = k_interest io"
     "io_timers io' = io_timers io"
     "\<forall>i. queue_of io' i = queue_of io i @ (if i = sch then [ctx_task (ctx_of event ?c)] else [])"
    using trigger_on_ok[OF n ok ev reg] by blast
  note C = fd_ok_cleared[OF ok ev reg]
  have "nev event = 1" using ev by (auto simp: nev_def event_defs)
  moreover have "1 \<le> m_pendingEventCount io" using C(2) cnt by simp
  moreover have "tasks_for event ?c i = (if i = sch then [ctx_task (ctx_of event ?c)] else [])" for i
    using ev *(1) by (auto simp: tasks_for_def ctx_of_def event_defs)
  ultimately show ?thesis using * C unfolding triggered_def by auto
qed

lemma trigger_mask_ok:
  assumes n: "n < length (m_fdContexts io)" and ok: "fd_ok n (m_fdContexts io ! n)"
    and cnt: "nev (fd_events (m_fdContexts io ! n)) \<le> m_pendingEventCount io"
    and r: "r \<in> {0, READ, WRITE, READ OR WRITE}" and sub: "r AND NOT (fd_events (m_fdContexts io ! n)) = 0"
  shows "\<exists>io'. trigger_mask n r io = Inr io' \<and> triggered n r io io'"
proof -
  let ?c = "m_fdContexts io ! n"
  have evs: "fd_events ?c \<in> {0, READ, WRITE, READ OR WRITE}" using ok by (simp add: fd_ok_def)
  consider "r = 0" | "r = READ" | "r = WRITE" | "r = READ OR WRITE" using r by blast
  then show ?thesis
  proof cases
    case 1
    then show ?thesis using ok n
      by (auto simp: trigger_mask_def triggered_def tasks_for_def nev_def intro!: exI[of _ "m_fdContexts io ! n"])
  next
    case 2
    then have "fd_events ?c AND READ \<noteq> 0" using evs sub by (auto simp: event_defs)
    from trigger_one[OF n ok cnt _ this] show ?thesis using 2 by (auto simp: trigger_mask_def event_defs)
  next
    case 3
    then have "fd_events ?c AND WRITE \<noteq> 0" using evs sub by (auto simp: event_defs)
    from trigger_one[OF n ok cnt _ this] show ?thesis using 3 by (auto simp: trigger_mask_def event_defs)
  next
    case 4
    then have e: "fd_events ?c = READ OR WRITE" using evs sub by (auto simp: event_defs)
    then have reg: "fd_events ?c AND READ \<noteq> 0" by (simp add: event_defs)
    obtain io1 where 1: "trigger_on n READ io = Inr io1" "triggered n READ io io1"
        "m_fdContexts io1 = (m_fdContexts io)[n := cleared READ ?c]"
      using trigger_one[OF n ok cnt _ reg] by blast
    have c1: "m_fdContexts io1 ! n = cleared READ ?c" "n < length (m_fdContexts io1)" using 1(3) n by simp_all
    note C = fd_ok_cleared[OF ok _ reg]
    have w: "fd_write (cleared READ ?c) = fd_write ?c" "fd_events (cleared READ ?c) = WRITE"
      using C(3) e by (simp_all add: cleared_def putContext_def event_defs)
    have "nev (fd_events (m_fdContexts io1 ! n)) \<le> m_pendingEventCount io1"
      using 1(2) cnt e w c1 by (simp add: triggered_def nev_def event_defs)
    moreover have "fd_events (m_fdContexts io1 ! n) AND WRITE \<noteq> 0" using w c1 by (simp add: event_defs)
    ultimately obtain io2 where 2: "trigger_on n WRITE io1 = Inr io2" "triggered n WRITE io1 io2"
      using trigger_one[OF c1(2)] C(1) c1(1) by (metis)
    have "trigger_mask n r io = Inr io2" using 4 1(1) 2(1) by (simp add: trigger_mask_def event_defs)
    moreover have "triggered n r io io2"
      using 1(2,3) 2(2) c1(1) w 4 e n
      by (auto simp: triggered_def tasks_for_def nev_def event_defs)
    ultimately show ?thesis by blast
  qed
qed

lemma io_ok_triggered:
  assumes ok: "io_ok io" and n: "n < length (m_fdContexts io)"
    and t: "triggered n r (epoll_set n (fd_events (m_fdContexts io ! n) AND NOT r) io) io'"
    and r: "r \<in> {0, READ, WRITE, READ OR WRITE}" "r AND NOT (fd_events (m_fdContexts io ! n)) = 0"
  shows "io_ok io'"
proof -
  obtain c' where c': "m_fdContexts io' = (m_fdContexts io)[n := c']" "fd_ok n c'"
     "fd_events c' = fd_events (m_fdContexts io ! n) AND NOT r"
    using t by (auto simp: triggered_def)
  have evs: "fd_events (m_fdContexts io ! n) \<in> {0, READ, WRITE, READ OR WRITE}"
    using io_ok_fd[OF ok n] by (simp add: fd_ok_def)
  have "nev (fd_events c') + nev r = nev (fd_events (m_fdContexts io ! n))"
    using evs r unfolding c'(3)
    by (cases rule: event_cases; auto simp: event_defs nev_def)
  then show ?thesis
    by (intro io_ok_update[OF ok n c'(1,2)]) (use t c'(3) in \<open>auto simp: triggered_def\<close>)
qed

lemma real_events_mask: "real_events evs \<in> {0, READ, WRITE, READ OR WRITE}"
  by (auto simp: real_events_def Let_def NONE_def)

lemma cancelAll_trigger_mask:
  assumes "fd_ok n (m_fdContexts io ! n)" "n < length (m_fdContexts io)"
    "nev (fd_events (m_fdContexts io ! n)) \<le> m_pendingEventCount io"
    and e: "e = fd_events (m_fdContexts io ! n)"
  shows "\<exists>io'. (rbind (if fd_events (m_fdContexts io ! n) AND READ \<noteq> 0 then trigger_on n READ io else Inr io) (\<lambda>io.
          rbind (if fd_events (m_fdContexts io ! n) AND WRITE \<noteq> 0 then trigger_on n WRITE io else Inr io) (\<lambda>io.
          if fd_events (m_fdContexts io ! n) \<noteq> 0 then Inl (Assert_failed ''fd_ctx->events == 0'')
          else Inr (True, io)))) = Inr (True, io') \<and> triggered n e io io'"
proof -
  have evs: "e \<in> {0, READ, WRITE, READ OR WRITE}" using assms(1) e by (simp add: fd_ok_def)
  obtain io' where io': "trigger_mask n e io = Inr io'" "triggered n e io io'"
    using trigger_mask_ok[OF assms(2,1,3) evs] e by auto
  have fin: "fd_events (m_fdContexts io' ! n) = 0" using io'(2) assms(2) e by (auto simp: triggered_def)
  have keep: "fd_events (m_fdContexts io1 ! n) AND WRITE = e AND WRITE"
    if "trigger_on n READ io = Inr io1" "e AND READ \<noteq> 0" for io1
  proof -
    have "m_fdContexts io1 = (m_fdContexts io)[n := cleared READ (m_fdContexts io ! n)]"
      using trigger_one[OF assms(2,1,3), of READ] that e by auto
    then show ?thesis using fd_ok_cleared(3)[OF assms(1), of READ] that(2) e assms(2) evs by (auto simp: event_defs)
  qed
  show ?thesis
  proof (cases "e AND READ \<noteq> 0")
    case True
    then obtain io1 where 1: "trigger_on n READ io = Inr io1" using io'(1) by (cases "trigger_on n READ io") (auto simp: trigger_mask_def)
    then show ?thesis using True io' fin keep[OF 1 True] e by (auto simp: trigger_mask_def)
  next
    case False
    then show ?thesis using io' fin e by (auto simp: trigger_mask_def)
  qed
qed

subsection \<open>Properties\<close>

text \<open>
  Registering an event and cancelling it hands the registered callback (or the current fiber) to
  the scheduler that registered it exactly once, and restores the contexts, the interest list and
  the count of pending events; the invariant holds in between and afterwards.
\<close>

theorem add_cancel_roundtrip:
  assumes "io_ok io" "2 \<le> length (m_fdContexts io)" "event = READ \<or> event = WRITE"
    "fd_events (m_fdContexts (grown n io) ! n) AND event = 0" "cb = None \<Longrightarrow> snd cur = EXEC"
  shows "\<exists>io1 io2. addEvent 0 (Some sch) cur (int n) event cb io = Inr (0, io1) \<and> io_ok io1 \<and>
     cancelEvent 0 (int n) event io1 = Inr (True, io2) \<and> io_ok io2 \<and>
     m_fdContexts io2 = m_fdContexts (grown n io) \<and> k_interest io2 = k_interest io \<and>
     m_pendingEventCount io2 = m_pendingEventCount io \<and>
     (\<forall>i. queue_of io2 i = queue_of io i @ (if i = sch
        then [mk_FiberAndThread (if cb = None then Some (fst cur) else None) cb (- 1)] else []))"
proof -
  note G = grown_ok[OF assms(1,2), of n]
  let ?c = "m_fdContexts (grown n io) ! n"
  define c' where "c' = putContext event (filled sch cb (fst cur)) (?c\<lparr>fd_events := fd_events ?c OR event\<rparr>)"
  obtain io1 where 1: "addEvent 0 (Some sch) cur (int n) event cb io = Inr (0, io1)" "io_ok io1"
     "m_fdContexts io1 = (m_fdContexts (grown n io))[n := c']"
     "m_pendingEventCount io1 = m_pendingEventCount io + 1" "queue_of io1 = queue_of io"
    using addEvent_ok[OF assms(1-4), of cb cur sch] assms(5) by (auto simp: c'_def)
  note F = fd_ok_filled[where sch = sch and cb = cb and cur = "fst cur", OF io_ok_fd[OF G(1,2)] assms(3,4), folded c'_def]
  have c1: "m_fdContexts io1 ! n = c'" "n < length (m_fdContexts io1)" using 1(3) G(2) by simp_all
  have reg: "fd_events (m_fdContexts io1 ! n) AND event \<noteq> 0"
  proof -
    have "(fd_events ?c OR event) AND event = event" by (simp add: and.commute bit_eq_iff bit_simps)
    then show ?thesis using F(4) c1 assms(3) by (auto simp: event_defs)
  qed
  define e where "e = fd_events c' AND NOT event"
  have fd': "fd_ok n (m_fdContexts (epoll_set n e io1) ! n)" using F(1) c1 by simp
  obtain s' io2 where 2: "ev_scheduler (ctx_of event c') = Some s'" "trigger_on n event (epoll_set n e io1) = Inr io2"
     "m_fdContexts io2 = (m_fdContexts io1)[n := cleared event c']"
     "m_pendingEventCount io2 = size_sub (m_pendingEventCount io1) 1"
     "k_interest io2 = k_interest (epoll_set n e io1)" "io_timers io2 = io_timers io1"
     "\<forall>i. queue_of io2 i = queue_of io1 i @ (if i = s' then [ctx_task (ctx_of event c')] else [])"
    using trigger_on_ok[OF _ fd' assms(3)] reg c1 by auto
  have can: "cancelEvent 0 (int n) event io1 = Inr (True, io2)"
    using c1 reg 2(2) by (simp add: cancelEvent_def Let_def e_def)
  have io2: "io_ok io2"
    using io_ok_cleared[OF 1(2) c1(2) assms(3) reg] 2 c1 by (auto simp: e_def)
  have ctxs: "m_fdContexts io2 = m_fdContexts (grown n io)" using 2(3) 1(3) F(6) by simp
  have "k_interest io2 = k_interest (grown n io)" using io2 G(1) ctxs by (auto simp: io_ok_def fun_eq_iff)
  moreover have "s' = sch" "ctx_task (ctx_of event c') = mk_FiberAndThread (if cb = None then Some (fst cur) else None) cb (- 1)"
    using 2(1) F(3) by (simp_all add: filled_def ctx_task_def)
  ultimately show ?thesis using 1 2 can io2 ctxs G(5) by auto
qed

text \<open>The events registered for a descriptor.\<close>

definition events_of :: "'c iomanager \<Rightarrow> nat \<Rightarrow> event" where
  "events_of io n = (if n < length (m_fdContexts io) then fd_events (m_fdContexts io ! n) else 0)"

lemma resetContext_empty [simp]: "resetContext ctx = empty_ctx"
  by (cases ctx) (simp add: resetContext_def empty_ctx_def)

lemma delEvent_exact:
  assumes ok: "io_ok io" and ev: "event = READ \<or> event = WRITE"
  shows "\<exists>io'. delEvent rt (int n) event io = Inr (events_of io n AND event \<noteq> 0 \<and> rt = 0, io') \<and> io_ok io' \<and>
     queue_of io' = queue_of io"
proof (cases "events_of io n AND event \<noteq> 0 \<and> rt = 0")
  case True
  then have n: "n < length (m_fdContexts io)" and evs: "events_of io n = fd_events (m_fdContexts io ! n)"
    by (auto simp: events_of_def split: if_splits)
  define io' where "io' = set_ctx n (cleared event (m_fdContexts io ! n)) ((epoll_set n (events_of io n AND NOT event) io)
      \<lparr>m_pendingEventCount := size_sub (m_pendingEventCount io) 1\<rparr>)"
  have "delEvent rt (int n) event io = Inr (True, io')"
    using True n ev
    by (auto simp: delEvent_def Let_def evs io'_def getContext_def cleared_def event_defs)
  moreover have "io_ok io'"
    by (rule conjunct1, rule io_ok_cleared[OF ok n ev]) (use True evs in \<open>simp_all add: io'_def set_ctx_def\<close>)
  moreover have "queue_of io' = queue_of io" by (simp add: io'_def set_ctx_def queue_of_def fun_eq_iff)
  ultimately show ?thesis using True by auto
next
  case False
  then show ?thesis using ok by (auto simp: delEvent_def Let_def events_of_def split: if_splits)
qed

lemma cancelEvent_exact:
  assumes ok: "io_ok io" and ev: "event = READ \<or> event = WRITE"
  shows "\<exists>io'. cancelEvent rt (int n) event io = Inr (events_of io n AND event \<noteq> 0 \<and> rt = 0, io') \<and> io_ok io' \<and>
     (\<forall>i. queue_of io' i = queue_of io i @
        (if events_of io n AND event \<noteq> 0 \<and> rt = 0 then tasks_for event (m_fdContexts io ! n) i else []))"
proof (cases "events_of io n AND event \<noteq> 0 \<and> rt = 0")
  case True
  then have n: "n < length (m_fdContexts io)" and evs: "events_of io n = fd_events (m_fdContexts io ! n)"
    by (auto simp: events_of_def split: if_splits)
  note fd = io_ok_fd[OF ok n] and cnt = pending_pos[OF ok n]
  have em: "events_of io n \<in> {0, READ, WRITE, READ OR WRITE}" using fd evs by (simp add: fd_ok_def)
  obtain io' where io': "trigger_on n event (epoll_set n (events_of io n AND NOT event) io) = Inr io'"
      "triggered n event (epoll_set n (events_of io n AND NOT event) io) io'"
    using trigger_one[of n "epoll_set n (events_of io n AND NOT event) io" event] n fd cnt ev True evs by auto
  have "event AND NOT (events_of io n) = 0" "event \<in> {0, READ, WRITE, READ OR WRITE}"
    using True em ev by (auto simp: event_defs)
  then have "io_ok io'" using io_ok_triggered[OF ok n] io'(2) evs by simp
  then show ?thesis using True n io' evs by (auto simp: cancelEvent_def Let_def triggered_def)
next
  case False
  then show ?thesis using ok by (auto simp: cancelEvent_def Let_def events_of_def split: if_splits)
qed

lemma cancelAll_exact:
  assumes ok: "io_ok io"
  shows "\<exists>io'. cancelAll rt (int n) io = Inr (events_of io n \<noteq> 0 \<and> rt = 0, io') \<and> io_ok io' \<and>
     (\<forall>i. queue_of io' i = queue_of io i @
        (if events_of io n \<noteq> 0 \<and> rt = 0 then tasks_for (events_of io n) (m_fdContexts io ! n) i else []))"
proof (cases "events_of io n \<noteq> 0 \<and> rt = 0")
  case True
  then have n: "n < length (m_fdContexts io)" and evs: "events_of io n = fd_events (m_fdContexts io ! n)"
    by (auto simp: events_of_def split: if_splits)
  note fd = io_ok_fd[OF ok n] and cnt = pending_pos[OF ok n]
  have em: "events_of io n \<in> {0, READ, WRITE, READ OR WRITE}" using fd evs by (simp add: fd_ok_def)
  obtain io' where io': "cancelAll rt (int n) io = Inr (True, io')" "triggered n (events_of io n) (epoll_set n 0 io) io'"
    using cancelAll_trigger_mask[of n "epoll_set n 0 io" "events_of io n"] n fd cnt True evs
    by (auto simp: cancelAll_def Let_def)
  have "io_ok io'" using io_ok_triggered[OF ok n _ em] io'(2) evs by simp
  then show ?thesis using True io' by (auto simp: triggered_def)
next
  case False
  then show ?thesis using ok by (auto simp: cancelAll_def Let_def events_of_def split: if_splits)
qed

text \<open>
  C11: For every descriptor that is not negative, registered or not, and whether or not \<^verbatim>\<open>epoll_ctl\<close>
  succeeds, \<open>delEvent\<close>, \<open>cancelEvent\<close> and \<open>cancelAll\<close> return without failing an assertion and keep
  the invariant; they report true exactly when something registered was removed, \<open>delEvent\<close>
  schedules nothing, and the other two schedule exactly the registered tasks, reader first.
\<close>

theorem event_ops_exact:
  assumes "io_ok io" "event = READ \<or> event = WRITE"
  shows "(\<exists>io'. delEvent rt (int n) event io = Inr (events_of io n AND event \<noteq> 0 \<and> rt = 0, io') \<and> io_ok io' \<and>
            queue_of io' = queue_of io) \<and>
     (\<exists>io'. cancelEvent rt (int n) event io = Inr (events_of io n AND event \<noteq> 0 \<and> rt = 0, io') \<and> io_ok io' \<and>
        (\<forall>i. queue_of io' i = queue_of io i @
           (if events_of io n AND event \<noteq> 0 \<and> rt = 0 then tasks_for event (m_fdContexts io ! n) i else []))) \<and>
     (\<exists>io'. cancelAll rt (int n) io = Inr (events_of io n \<noteq> 0 \<and> rt = 0, io') \<and> io_ok io' \<and>
        (\<forall>i. queue_of io' i = queue_of io i @
           (if events_of io n \<noteq> 0 \<and> rt = 0 then tasks_for (events_of io n) (m_fdContexts io ! n) i else [])))"
  using delEvent_exact[OF assms] cancelEvent_exact[OF assms] cancelAll_exact[OF assms(1)] by blast

text \<open>A manager as its constructor leaves it: 32 empty contexts.\<close>

definition fresh_io :: "bool iomanager" where
  "fresh_io = contextResize 32 \<lparr>io_this = 0,
     io_scheds = (\<lambda>_. \<lparr>m_fibers = [], m_activeThreadCount = 0, m_idleThreadCount = 0, m_stopping = False,
       m_autoStop = False, m_threads = 1, m_threadCount = 1, m_threadIds = [9], m_rootFiber = None,
       m_rootThread = - 1, s_heap = \<lparr>f_heap = (\<lambda>_. \<lparr>f_id = 0, f_stacksize = 0, f_state = INIT, f_stack = False,
         f_cb = None, f_ctx = Entry_none\<rparr>), s_fiber_id = 0, s_fiber_count = 0\<rparr>\<rparr>),
     io_timers = mk_TimerManager 0, m_fdContexts = [], m_pendingEventCount = 0, k_interest = (\<lambda>_. None),
     tickle_pipe = 0\<rparr>"

lemma fresh_io_ok: "io_ok fresh_io" "length (m_fdContexts fresh_io) = 32"
  "n < 32 \<Longrightarrow> m_fdContexts fresh_io ! n = new_fd_ctx n"
proof -
  define io0 where "io0 = fresh_io\<lparr>m_fdContexts := []\<rparr>"
  have "io_ok io0" by (simp add: io_ok_def io0_def fresh_io_def contextResize_def tm_ok_init)
  moreover have e: "fresh_io = contextResize 32 io0" by (simp add: io0_def fresh_io_def contextResize_def)
  moreover have l: "length (m_fdContexts io0) = 0" by (simp add: io0_def)
  ultimately show "io_ok fresh_io" "length (m_fdContexts fresh_io) = 32"
    "n < 32 \<Longrightarrow> m_fdContexts fresh_io ! n = new_fd_ctx n"
    using contextResize_ok[of io0 32] by simp_all
qed

theorem add_cancel_roundtrip_witness:
  "\<exists>io1 io2. addEvent 0 (Some 0) (3, EXEC) 7 READ (Some (Fn True)) fresh_io = Inr (0, io1) \<and>
     cancelEvent 0 7 READ io1 = Inr (True, io2) \<and> m_pendingEventCount io2 = m_pendingEventCount fresh_io"
proof -
  have g: "grown 7 fresh_io = fresh_io" using fresh_io_ok(2) by (simp add: grown_def)
  have "fd_events (m_fdContexts (grown 7 fresh_io) ! 7) AND READ = 0"
    using fresh_io_ok(3)[of 7] g by (simp add: new_fd_ctx_def event_defs)
  from add_cancel_roundtrip[of fresh_io READ 7 "Some (Fn True)" "(3, EXEC)" 0, OF fresh_io_ok(1) _ _ this]
  show ?thesis using fresh_io_ok(2) by auto
qed

theorem event_ops_exact_witness:
  "\<exists>io'. delEvent 0 7 READ fresh_io = Inr (False, io') \<and> io_ok io' \<and> queue_of io' = queue_of fresh_io"
  using event_ops_exact[OF fresh_io_ok(1), of READ 0 7] fresh_io_ok(2) fresh_io_ok(3)[of 7]
  by (simp add: events_of_def new_fd_ctx_def event_defs)

text \<open>
  C40: Handling one entry of \<^verbatim>\<open>epoll_wait\<close>.  If none of the reported events is registered, or
  \<^verbatim>\<open>epoll_ctl\<close> fails, nothing changes.  If all of them are registered, exactly they are removed, their
  tasks are scheduled (reader first) and the invariant holds.  If only some are registered, which an
  error or hang-up on a descriptor registered for one direction makes happen, the assertion of
  \<open>triggerEvent\<close> fails.
\<close>

theorem handle_event_exact:
  assumes "io_ok io" "n < length (m_fdContexts io)"
  shows "let evs = events_of io n; r = real_events reported in
     if evs AND r = 0 \<or> rt2 \<noteq> 0 then handle_event rt2 (Ready n reported) io = Inr io
     else if r AND NOT evs = 0 then
       \<exists>io'. handle_event rt2 (Ready n reported) io = Inr io' \<and> io_ok io' \<and> events_of io' n = evs AND NOT r \<and>
         (\<forall>i. queue_of io' i = queue_of io i @ tasks_for r (m_fdContexts io ! n) i)
     else handle_event rt2 (Ready n reported) io = Inl (Assert_failed ''events & event'')"
proof -
  let ?c = "m_fdContexts io ! n"
  define r where "r = real_events reported"
  have evs: "events_of io n = fd_events ?c" using assms(2) by (simp add: events_of_def)
  have r: "r \<in> {0, READ, WRITE, READ OR WRITE}" unfolding r_def by (rule real_events_mask)
  note fd = io_ok_fd[OF assms] and cnt = pending_pos[OF assms]
  have em: "fd_events ?c \<in> {0, READ, WRITE, READ OR WRITE}" using fd by (simp add: fd_ok_def)
  define io1 where "io1 = epoll_set n (fd_events ?c AND NOT r) io"
  have io1: "m_fdContexts io1 = m_fdContexts io" "m_pendingEventCount io1 = m_pendingEventCount io"
    "queue_of io1 = queue_of io" by (simp_all add: io1_def)
  have run: "handle_event rt2 (Ready n reported) io = trigger_mask n r io1"
    if "fd_events ?c AND r \<noteq> 0" "rt2 = 0"
    using that by (simp add: handle_event_def Let_def NONE_def r_def io1_def)
  have ok: "\<exists>io'. handle_event rt2 (Ready n reported) io = Inr io' \<and> io_ok io' \<and> events_of io' n = fd_events ?c AND NOT r \<and>
         (\<forall>i. queue_of io' i = queue_of io i @ tasks_for r ?c i)"
    if c: "fd_events ?c AND r \<noteq> 0" "rt2 = 0" "r AND NOT (fd_events ?c) = 0"
  proof -
    obtain io' where io': "trigger_mask n r io1 = Inr io'" "triggered n r io1 io'"
      using trigger_mask_ok[of n io1 r] assms(2) fd cnt r c(3) io1 by auto
    have "io_ok io'" using io_ok_triggered[OF assms _ r c(3)] io'(2) by (simp add: io1_def)
    then show ?thesis using run[OF c(1,2)] io' io1 assms(2) by (auto simp: triggered_def events_of_def)
  qed
  have bad: "handle_event rt2 (Ready n reported) io = Inl (Assert_failed ''events & event'')"
    if c: "fd_events ?c AND r \<noteq> 0" "rt2 = 0" "r AND NOT (fd_events ?c) \<noteq> 0"
  proof -
    have rw: "r = READ OR WRITE" and one: "fd_events ?c = READ \<or> fd_events ?c = WRITE"
      using c r em by (auto simp: event_defs)
    show ?thesis
    proof (cases "fd_events ?c = READ")
      case True
      obtain io2 where "trigger_on n READ io1 = Inr io2" "m_fdContexts io2 = (m_fdContexts io)[n := cleared READ ?c]"
        using trigger_one[of n io1 READ] assms(2) fd cnt True io1 by (auto simp: event_defs)
      moreover have "fd_events (cleared READ ?c) = 0" using True by (simp add: cleared_def putContext_def event_defs)
      ultimately show ?thesis
        using run[OF c(1,2)] rw assms(2) by (simp add: trigger_mask_def trigger_on_unregistered event_defs)
    next
      case False
      then have "fd_events (m_fdContexts io1 ! n) AND READ = 0" using one io1 by (auto simp: event_defs)
      then show ?thesis using run[OF c(1,2)] rw trigger_on_unregistered[of io1 n READ]
        by (simp add: trigger_mask_def event_defs)
    qed
  qed
  show ?thesis
    using ok bad by (auto simp: Let_def evs handle_event_def NONE_def simp flip: r_def)
qed

theorem handle_event_exact_witness: "handle_event 0 (Ready 7 EPOLLIN) fresh_io = Inr fresh_io"
  using handle_event_exact[OF fresh_io_ok(1), of 7 EPOLLIN 0] fresh_io_ok(2) fresh_io_ok(3)[of 7]
  by (simp add: events_of_def new_fd_ctx_def event_defs)

text \<open>
  The timeout handed to \<^verbatim>\<open>epoll_wait\<close> is the distance to the next timer capped at three seconds,
  as long as that distance is below \<open>2 ^ 31\<close> milliseconds or there is no timer.
\<close>

theorem epoll_timeout_bounds:
  assumes "unat t < 2 ^ 31 \<or> t = - 1"
  shows "sint (io_timeout t) = min 3000 (uint t)"
proof (cases "t = - 1")
  case True
  then show ?thesis by (simp add: io_timeout_def unsigned_minus_1_eq_mask mask_eq_exp_minus_1)
next
  case False
  then have "unat t < 2 ^ 31" using assms by blast
  then have "int (unat t) < int (2 ^ 31)" by (rule of_nat_less_iff[THEN iffD2])
  moreover have "int (unat t) = uint t" by (rule of_nat_unat)
  ultimately have "uint t < int (2 ^ 31)" by (simp only:)
  then have "uint t < 2 ^ 31" by simp
  then have u: "sint (ucast t :: 32 word) = uint t"
    by (simp add: sint_uint unsigned_ucast_eq take_bit_int_eq_self signed_take_bit_eq_if_positive bit_iff_odd)
  then show ?thesis using False by (auto simp: io_timeout_def Let_def)
qed

theorem epoll_timeout_bounds_witness: "sint (io_timeout 10) = min 3000 (uint (10 :: 64 word))"
  using epoll_timeout_bounds[of 10] by simp

text \<open>
  One turn of the idle loop schedules exactly the callbacks of the timers that fire, in order
  of their deadlines, on the manager's own scheduler, and leaves a well-formed timer set; it wakes
  the manager through the pipe only if the queue was empty and no thread idles.
\<close>

theorem timers_scheduled:
  assumes "tm_ok (io_timers io)"
  shows "\<exists>io'. schedule_timers now na io = Inr io' \<and> tm_ok (io_timers io') \<and>
     queue_of io' (io_this io) = queue_of io (io_this io) @
       map (\<lambda>a. mk_FiberAndThread None (timer.m_cb (t_heap (io_timers io) a)) (- 1))
         (filter (fires now (io_timers io)) (m_timers (io_timers io))) \<and>
     (tickle_pipe io' \<noteq> tickle_pipe io \<longrightarrow> \<not> hasIdleThreads (io_scheds io' (io_this io)))"
proof -
  define tm where "tm = io_timers io"
  define ex where "ex = filter (fires now tm) (m_timers tm)"
  define cbs where "cbs = map (\<lambda>a. timer.m_cb (t_heap tm a)) ex"
  obtain cbs0 tm' where r0: "listExpiredCb now na tm = Inr (cbs0, tm')" using listExpiredCb_returns by blast
  have r: "listExpiredCb now na tm = Inr (cbs, tm')" "tm_ok tm'"
    using listExpiredCb_spec[OF _ r0] r0 assms by (simp_all add: tm_def cbs_def ex_def)
  define fts where "fts = map (\<lambda>cb. mk_FiberAndThread None cb (- 1)) cbs"
  have valid: "filter task_ok fts = fts"
  proof -
    have "timer.m_cb (t_heap tm a) \<noteq> None" if "a \<in> set ex" for a
      using that tm_okD(2)[of tm a] assms by (auto simp: ex_def tm_def)
    then show ?thesis
      by (auto simp: fts_def cbs_def filter_id_conv task_ok_def mk_FiberAndThread_def)
  qed
  have q: "m_fibers (snd (schedule_range fts False s)) = m_fibers s @ fts" for s :: "'a timer_fn sched"
    unfolding schedule_range_fold sch.submit_all valid ..
  have fts: "fts = map (\<lambda>a. mk_FiberAndThread None (timer.m_cb (t_heap tm a)) (- 1)) ex"
    by (simp add: fts_def cbs_def)
  show ?thesis
  proof (cases "cbs = []")
    case True
    then show ?thesis using r fts by (simp add: schedule_timers_def fts_def cbs_def queue_of_def flip: tm_def ex_def)
  next
    case False
    obtain b s where bs: "schedule_range fts False (io_scheds io (io_this io)) = (b, s)" by fastforce
    define io1 where "io1 = io\<lparr>io_timers := tm', io_scheds := (io_scheds io)(io_this io := s)\<rparr>"
    have "schedule_timers now na io = Inr (if b then tickle io1 else io1)"
      using r False bs by (simp add: schedule_timers_def Let_def io1_def fts_def flip: tm_def)
    moreover have "m_fibers s = m_fibers (io_scheds io (io_this io)) @ fts"
      using q[of "io_scheds io (io_this io)"] bs by simp
    ultimately show ?thesis using r(2) fts
      by (auto simp: queue_of_def io1_def tickle_def simp flip: tm_def ex_def)
  qed
qed

theorem timers_scheduled_witness: "\<exists>io'. schedule_timers 5 0 fresh_io = Inr io' \<and> tm_ok (io_timers io')"
proof -
  have "tm_ok (io_timers fresh_io)" using fresh_io_ok(1) by (simp add: io_ok_def)
  then show ?thesis using timers_scheduled by blast
qed

text \<open>
  A manager with an idle thread, that is one blocked in \<^verbatim>\<open>epoll_wait\<close>, is not woken: the test of
  \<open>tickle\<close> is inverted, and new work waits for the end of the current timeout.
\<close>

lemma tickle_lost: "hasIdleThreads (io_scheds io (io_this io)) \<Longrightarrow> tickle io = io"
  by (simp add: tickle_def)

end
