(* ===== verification/Hook.thy ===== *)
theory Hook
  imports IOManager "HOL-Library.Signed_Division"
begin

text \<open>
  The descriptor table (\<^verbatim>\<open>captain/fd_manager.cpp\<close>) and the hooked system calls (\<^verbatim>\<open>captain/hook.cpp\<close>).
  A process has the table \<open>m_datas\<close>, the status flags that the kernel keeps per descriptor (\<open>k_fl\<close>,
  what \<^verbatim>\<open>fcntl_f\<close> reads and writes), whether a descriptor is a socket (\<open>k_issock\<close>; \<open>None\<close> if
  \<^verbatim>\<open>fstat\<close> fails) and \<^verbatim>\<open>errno\<close>.  The original functions are arguments: the value and \<^verbatim>\<open>errno\<close> that each
  call of them gives, in the order of the calls.

  Proved: what the user sees of the non-blocking flag is what the user set while the kernel's flag of
  a socket stays set; socket timeouts survive the way through \<open>Socket::setRecvTimeout\<close>, \<open>setsockopt\<close>
  and \<open>FdCtx\<close>; and \<open>do_io\<close> gives non-blocking sockets the behaviour of blocking ones.
\<close>

record fdctx =
  m_isInit :: bool
  m_isSocket :: bool
  m_sysNonblock :: bool
  m_userNonblock :: bool
  m_isClosed :: bool
  m_fd :: nat
  m_recvTimeout :: "64 word"
  m_sendTimeout :: "64 word"

record process =
  m_datas :: "fdctx option list"
  k_fl :: "nat \<Rightarrow> 32 word"
  k_issock :: "nat \<Rightarrow> bool option"
  t_hook_enable :: bool
  errno :: nat

definition O_NONBLOCK :: "32 word" where "O_NONBLOCK = 0x800"
definition SO_RCVTIMEO :: nat where "SO_RCVTIMEO = 20"
definition SO_SNDTIMEO :: nat where "SO_SNDTIMEO = 21"
definition SOL_SOCKET :: nat where "SOL_SOCKET = 1"
definition EINTR :: nat where "EINTR = 4"
definition EBADF :: nat where "EBADF = 9"
definition EAGAIN :: nat where "EAGAIN = 11"
definition ETIMEDOUT :: nat where "ETIMEDOUT = 110"
definition EINPROGRESS :: nat where "EINPROGRESS = 115"

lemmas errno_defs = EINTR_def EBADF_def EAGAIN_def ETIMEDOUT_def EINPROGRESS_def

subsection \<open>The descriptor table\<close>

text \<open>\<open>FdCtx::init\<close>, on a context and the process whose kernel flags it may change.\<close>

definition fdctx_init :: "fdctx \<Rightarrow> process \<Rightarrow> bool \<times> fdctx \<times> process" where
  "fdctx_init c p =
     (if m_isInit c then (True, c, p)
      else
        let c = c\<lparr>m_recvTimeout := - 1, m_sendTimeout := - 1\<rparr>;
            c = (case k_issock p (m_fd c) of
                   None \<Rightarrow> c\<lparr>m_isInit := False, m_isSocket := False\<rparr>
                 | Some sk \<Rightarrow> c\<lparr>m_isInit := True, m_isSocket := sk\<rparr>);
            p = (if m_isSocket c then
                   let flags = k_fl p (m_fd c) in
                   if flags AND O_NONBLOCK = 0 then p\<lparr>k_fl := (k_fl p)(m_fd c := flags OR O_NONBLOCK)\<rparr> else p
                 else p);
            c = c\<lparr>m_sysNonblock := m_isSocket c, m_userNonblock := False, m_isClosed := False\<rparr>
        in (m_isInit c, c, p))"

definition mk_FdCtx :: "nat \<Rightarrow> process \<Rightarrow> fdctx \<times> process" where
  "mk_FdCtx fd p =
     snd (fdctx_init \<lparr>m_isInit = False, m_isSocket = False, m_sysNonblock = False, m_userNonblock = False,
       m_isClosed = False, m_fd = fd, m_recvTimeout = - 1, m_sendTimeout = - 1\<rparr> p)"

definition setTimeout :: "nat \<Rightarrow> 64 word \<Rightarrow> fdctx \<Rightarrow> fdctx" where
  "setTimeout type v c = (if type = SO_RCVTIMEO then c\<lparr>m_recvTimeout := v\<rparr> else c\<lparr>m_sendTimeout := v\<rparr>)"

definition getTimeout :: "nat \<Rightarrow> fdctx \<Rightarrow> 64 word" where
  "getTimeout type c = (if type = SO_RCVTIMEO then m_recvTimeout c else m_sendTimeout c)"

definition mk_FdManager :: "fdctx option list" where
  "mk_FdManager = replicate 64 None"

text \<open>\<open>FdManager::get\<close>; writing a slot past the end of the table is \<open>Oob_access\<close>.\<close>

definition fdmgr_get :: "int \<Rightarrow> bool \<Rightarrow> process \<Rightarrow> (fdctx option \<times> process) result" where
  "fdmgr_get fd auto_create p =
     (if int (length (m_datas p)) \<le> fd \<and> \<not> auto_create then Inr (None, p)
      else if \<not> int (length (m_datas p)) \<le> fd \<and> fd < 0 then Inl Oob_access
      else if \<not> int (length (m_datas p)) \<le> fd \<and> (m_datas p ! nat fd \<noteq> None \<or> \<not> auto_create)
      then Inr (m_datas p ! nat fd, p)
      else
        let (ctx, p) = mk_FdCtx (nat fd) p in
        if int (length (m_datas p)) \<le> fd then Inl Oob_access
        else Inr (Some ctx, p\<lparr>m_datas := (m_datas p)[nat fd := Some ctx]\<rparr>))"

definition fdmgr_del :: "int \<Rightarrow> process \<Rightarrow> process result" where
  "fdmgr_del fd p =
     (if int (length (m_datas p)) \<le> fd then Inr p
      else if fd < 0 then Inl Oob_access
      else Inr (p\<lparr>m_datas := (m_datas p)[nat fd := None]\<rparr>))"

text \<open>Updating an object of the table through the shared pointer that \<open>get\<close> returned.\<close>

definition upd_fdctx :: "int \<Rightarrow> fdctx \<Rightarrow> process \<Rightarrow> process" where
  "upd_fdctx fd c p = p\<lparr>m_datas := (m_datas p)[nat fd := Some c]\<rparr>"

subsection \<open>Descriptor calls\<close>

text \<open>\<open>socket\<close>: \<open>fd\<close> is what the original function returns.\<close>

definition hk_socket :: "int \<Rightarrow> process \<Rightarrow> (int \<times> process) result" where
  "hk_socket fd p =
     (if \<not> t_hook_enable p then Inr (fd, p)
      else if fd = - 1 then Inr (fd, p)
      else rbind (fdmgr_get fd True p) (\<lambda>(_, p). Inr (fd, p)))"

text \<open>\<open>close\<close>: the descriptor's events are cancelled if the thread has an \<open>IOManager\<close>; \<open>rt\<close> is the result of
  \<^verbatim>\<open>epoll_ctl\<close> there and \<open>r\<close> that of the original \<^verbatim>\<open>close\<close>.\<close>

definition hk_close :: "int \<Rightarrow> int \<Rightarrow> int \<Rightarrow> 'c iomanager option \<Rightarrow> process
    \<Rightarrow> (int \<times> 'c iomanager option \<times> process) result" where
  "hk_close r rt fd iom p =
     (if \<not> t_hook_enable p then Inr (r, iom, p)
      else rbind (fdmgr_get fd False p) (\<lambda>(ctx, p).
        if ctx = None then Inr (r, iom, p)
        else rbind (case iom of None \<Rightarrow> Inr None
                    | Some io \<Rightarrow> rbind (IOManager.cancelAll rt fd io) (\<lambda>(_, io). Inr (Some io))) (\<lambda>iom.
          rbind (fdmgr_del fd p) (\<lambda>p. Inr (r, iom, p)))))"

datatype fcntl_cmd = F_SETFL "32 word" | F_GETFL | F_other nat

text \<open>\<^verbatim>\<open>fcntl_f\<close> itself for the two commands on status flags.\<close>

definition hk_fcntl :: "int \<Rightarrow> fcntl_cmd \<Rightarrow> process \<Rightarrow> (32 word \<times> process) result" where
  "hk_fcntl fd cmd p =
     (case cmd of
        F_SETFL arg \<Rightarrow>
          rbind (fdmgr_get fd False p) (\<lambda>(ctx, p).
            let plain = Inr (0, p\<lparr>k_fl := (k_fl p)(nat fd := arg)\<rparr>) in
            case ctx of
              None \<Rightarrow> plain
            | Some c \<Rightarrow>
                if m_isClosed c \<or> \<not> m_isSocket c then plain
                else
                  let c = c\<lparr>m_userNonblock := (arg AND O_NONBLOCK \<noteq> 0)\<rparr>;
                      p = upd_fdctx fd c p;
                      arg = (if m_sysNonblock c then arg OR O_NONBLOCK else arg AND NOT O_NONBLOCK)
                  in Inr (0, p\<lparr>k_fl := (k_fl p)(nat fd := arg)\<rparr>))
      | F_GETFL \<Rightarrow>
          let arg = k_fl p (nat fd) in
          rbind (fdmgr_get fd False p) (\<lambda>(ctx, p).
            case ctx of
              None \<Rightarrow> Inr (arg, p)
            | Some c \<Rightarrow>
                if m_isClosed c \<or> \<not> m_isSocket c then Inr (arg, p)
                else if m_userNonblock c then Inr (arg OR O_NONBLOCK, p)
                else Inr (arg AND NOT O_NONBLOCK, p))
      | F_other r \<Rightarrow> Inr (of_nat r, p))"

text \<open>\<open>ioctl(d, FIONBIO, &v)\<close>: the original call sets the kernel's flag as the user asks.\<close>

definition hk_ioctl_fionbio :: "int \<Rightarrow> int \<Rightarrow> process \<Rightarrow> process result" where
  "hk_ioctl_fionbio d v p =
     (let user_nonblock = (v \<noteq> 0);
          orig = (\<lambda>p. p\<lparr>k_fl := (k_fl p)(nat d := if user_nonblock then k_fl p (nat d) OR O_NONBLOCK
                                             else k_fl p (nat d) AND NOT O_NONBLOCK)\<rparr>)
      in rbind (fdmgr_get d False p) (\<lambda>(ctx, p).
        case ctx of
          None \<Rightarrow> Inr (orig p)
        | Some c \<Rightarrow>
            if m_isClosed c \<or> \<not> m_isSocket c then Inr (orig p)
            else Inr (orig (upd_fdctx d (c\<lparr>m_userNonblock := user_nonblock\<rparr>) p))))"

record timeval =
  tv_sec :: int
  tv_usec :: int

definition hk_setsockopt :: "int \<Rightarrow> int \<Rightarrow> nat \<Rightarrow> nat \<Rightarrow> timeval \<Rightarrow> process \<Rightarrow> (int \<times> process) result" where
  "hk_setsockopt r sockfd level optname v p =
     (if \<not> t_hook_enable p then Inr (r, p)
      else if level = SOL_SOCKET \<and> (optname = SO_RCVTIMEO \<or> optname = SO_SNDTIMEO) then
        rbind (fdmgr_get sockfd False p) (\<lambda>(ctx, p).
          case ctx of
            None \<Rightarrow> Inr (r, p)
          | Some c \<Rightarrow> Inr (r, upd_fdctx sockfd (setTimeout optname (word_of_int (tv_sec v * 1000 + tv_usec v sdiv 1000)) c) p))
      else Inr (r, p))"

subsection \<open>Waiting input and output\<close>

text \<open>
  \<open>do_io\<close>.  \<open>calls\<close> are the results of the successive calls of the original function (value and
  \<^verbatim>\<open>errno\<close>), \<open>wakes\<close> how the successive waits for the descriptor end: \<open>addEvent\<close> failed, the event
  came, or the condition timer fired first and cancelled the event.
\<close>

datatype wake = Add_failed | By_event | By_timer

datatype io_outcome = Io_done int nat | Io_more

fun retry_eintr :: "(int \<times> nat) list \<Rightarrow> ((int \<times> nat) \<times> (int \<times> nat) list) option" where
  "retry_eintr [] = None"
| "retry_eintr ((n, e) # calls) = (if n = - 1 \<and> e = EINTR then retry_eintr calls else Some ((n, e), calls))"

lemma retry_eintr_length: "retry_eintr calls = Some (r, rest) \<Longrightarrow> length rest < length calls"
  by (induction calls rule: retry_eintr.induct) (auto split: if_splits)

function io_loop :: "64 word \<Rightarrow> (int \<times> nat) list \<Rightarrow> wake list \<Rightarrow> io_outcome" where
  "io_loop to calls wakes =
     (case retry_eintr calls of
        None \<Rightarrow> Io_more
      | Some ((n, e), rest) \<Rightarrow>
          if n = - 1 \<and> e = EAGAIN then
            (case wakes of
               [] \<Rightarrow> Io_more
             | Add_failed # ws \<Rightarrow> Io_done (- 1) e
             | By_event # ws \<Rightarrow> io_loop to rest ws
             | By_timer # ws \<Rightarrow> if to = - 1 then io_loop to rest ws else Io_done (- 1) ETIMEDOUT)
          else Io_done n e)"
  by pat_completeness auto
termination
  by (relation "measure (\<lambda>(_, calls, _). length calls)") (auto dest: retry_eintr_length)

declare io_loop.simps [simp del]

definition do_io :: "nat \<Rightarrow> int \<Rightarrow> (int \<times> nat) list \<Rightarrow> wake list \<Rightarrow> process \<Rightarrow> (io_outcome \<times> process) result" where
  "do_io timeout_so fd calls wakes p =
     (let direct = (\<lambda>p. Inr (case calls of [] \<Rightarrow> Io_more | (n, e) # _ \<Rightarrow> Io_done n e, p)) in
      if \<not> t_hook_enable p then direct p
      else rbind (fdmgr_get fd False p) (\<lambda>(ctx, p).
        case ctx of
          None \<Rightarrow> direct p
        | Some c \<Rightarrow>
            if m_isClosed c then Inr (Io_done (- 1) EBADF, p)
            else if \<not> m_isSocket c \<or> m_userNonblock c then direct p
            else Inr (io_loop (getTimeout timeout_so c) calls wakes, p)))"

text \<open>The readers and writers are \<open>do_io\<close> with the matching timeout.\<close>

definition hk_read :: "int \<Rightarrow> (int \<times> nat) list \<Rightarrow> wake list \<Rightarrow> process \<Rightarrow> (io_outcome \<times> process) result" where
  "hk_read = do_io SO_RCVTIMEO"

definition hk_write :: "int \<Rightarrow> (int \<times> nat) list \<Rightarrow> wake list \<Rightarrow> process \<Rightarrow> (io_outcome \<times> process) result" where
  "hk_write = do_io SO_SNDTIMEO"

definition hk_accept :: "int \<Rightarrow> (int \<times> nat) list \<Rightarrow> wake list \<Rightarrow> process \<Rightarrow> (io_outcome \<times> process) result" where
  "hk_accept s calls wakes p =
     rbind (do_io SO_RCVTIMEO s calls wakes p) (\<lambda>(r, p).
       case r of
         Io_done fd e \<Rightarrow> if fd \<ge> 0 then rbind (fdmgr_get fd True p) (\<lambda>(_, p). Inr (r, p)) else Inr (r, p)
       | Io_more \<Rightarrow> Inr (r, p))"

text \<open>
  \<open>connect_with_timeout\<close>: the result of the original call, how the wait for writability ends, and the
  result of \<^verbatim>\<open>getsockopt\<close> with the pending error.
\<close>

definition hk_connect :: "64 word \<Rightarrow> int \<Rightarrow> int \<times> nat \<Rightarrow> wake \<Rightarrow> int \<times> nat \<Rightarrow> process \<Rightarrow> ((int \<times> nat) \<times> process) result" where
  "hk_connect timeout_ms fd orig wake so_error p =
     (if \<not> t_hook_enable p then Inr (orig, p)
      else rbind (fdmgr_get fd False p) (\<lambda>(ctx, p).
        case ctx of
          None \<Rightarrow> Inr ((- 1, EBADF), p)
        | Some c \<Rightarrow>
            if m_isClosed c then Inr ((- 1, EBADF), p)
            else if \<not> m_isSocket c then Inr (orig, p)
            else if m_userNonblock c then Inr (orig, p)
            else if fst orig = 0 then Inr ((0, snd orig), p)
            else if fst orig \<noteq> - 1 \<or> snd orig \<noteq> EINPROGRESS then Inr (orig, p)
            else if wake = By_timer \<and> timeout_ms \<noteq> - 1 then Inr ((- 1, ETIMEDOUT), p)
            else if fst so_error = - 1 then Inr ((- 1, snd so_error), p)
            else if snd so_error = 0 then Inr ((0, 0), p)
            else Inr ((- 1, snd so_error), p)))"

text \<open>Sleeping: the period of the timer that resumes the fiber, in C's arithmetic on the argument types.\<close>

definition sleep_ms :: "32 word \<Rightarrow> 64 word" where
  "sleep_ms seconds = ucast (seconds * 1000)"

definition usleep_ms :: "32 word \<Rightarrow> 64 word" where
  "usleep_ms usec = ucast (usec div 1000)"

definition nanosleep_ms :: "int \<Rightarrow> int \<Rightarrow> 64 word" where
  "nanosleep_ms sec nsec = word_of_int (sint (word_of_int (sec * 1000 + nsec sdiv 1000 sdiv 1000) :: 32 word))"

definition hk_sleep :: "64 word \<Rightarrow> nat \<Rightarrow> 64 word \<Rightarrow> 'c \<Rightarrow> 'c iomanager \<Rightarrow> 'c iomanager" where
  "hk_sleep now addr ms resume io =
     (let (at_front, tm) = addTimer now addr (io_timers io) ms (Some (Fn resume)) False;
          io = io\<lparr>io_timers := tm\<rparr>
      in if at_front then onTimerInsertedAtFront io else io)"

subsection \<open>Properties of the table\<close>

lemma fdmgr_get_plain:
  "0 \<le> fd \<Longrightarrow> fdmgr_get fd False p = Inr (if nat fd < length (m_datas p) then m_datas p ! nat fd else None, p)"
  by (auto simp: fdmgr_get_def)

lemma fdmgr_get_upd:
  "0 \<le> fd \<Longrightarrow> nat fd < length (m_datas p) \<Longrightarrow> fdmgr_get fd False (upd_fdctx fd c p) = Inr (Some c, upd_fdctx fd c p)"
  by (simp add: fdmgr_get_plain upd_fdctx_def)

text \<open>The table as a whole: a socket that is not closed has the kernel's non-blocking flag set.\<close>

definition table_ok :: "process \<Rightarrow> bool" where
  "table_ok p \<longleftrightarrow> (\<forall>n < length (m_datas p). \<forall>c. m_datas p ! n = Some c \<longrightarrow>
     m_fd c = n \<and> m_sysNonblock c = m_isSocket c \<and> (m_isSocket c \<longrightarrow> k_fl p n AND O_NONBLOCK \<noteq> 0))"

lemma table_okD:
  "table_ok p \<Longrightarrow> n < length (m_datas p) \<Longrightarrow> m_datas p ! n = Some c \<Longrightarrow>
   m_fd c = n \<and> m_sysNonblock c = m_isSocket c \<and> (m_isSocket c \<longrightarrow> k_fl p n AND O_NONBLOCK \<noteq> 0)"
  by (simp add: table_ok_def)

lemma O_NONBLOCK_nz [simp]: "O_NONBLOCK \<noteq> 0" "0 \<noteq> O_NONBLOCK"
  by (simp_all add: O_NONBLOCK_def)

lemma nonblock_bit: "w AND O_NONBLOCK \<noteq> 0 \<longleftrightarrow> bit w 11"
proof -
  have "O_NONBLOCK = push_bit 11 1" by (simp add: O_NONBLOCK_def)
  then show ?thesis by (metis and_exp_eq_0_iff_not_bit push_bit_of_1)
qed

lemma bit_nonblock: "bit O_NONBLOCK n \<longleftrightarrow> n = 11"
proof -
  have nb: "O_NONBLOCK = push_bit 11 1" by (simp add: O_NONBLOCK_def)
  show ?thesis unfolding nb by (simp only: bit_push_bit_iff bit_1_iff) auto
qed

text \<open>Setting the flag and hiding it again gives the user's word back.\<close>

lemma nonblock_hidden:
  "(if w AND O_NONBLOCK \<noteq> 0 then (w OR O_NONBLOCK) OR O_NONBLOCK else (w OR O_NONBLOCK) AND NOT O_NONBLOCK) = w"
  by (rule bit_word_eqI) (auto simp: nonblock_bit bit_simps bit_nonblock)

lemma fdctx_init_fresh:
  assumes "mk_FdCtx fd p = (c, p')"
  shows "m_fd c = fd" "m_sysNonblock c = m_isSocket c" "\<not> m_userNonblock c" "\<not> m_isClosed c"
    "m_isSocket c \<Longrightarrow> k_fl p' fd AND O_NONBLOCK \<noteq> 0" "\<And>n. n \<noteq> fd \<Longrightarrow> k_fl p' n = k_fl p n"
    "m_datas p' = m_datas p" "k_fl p n AND O_NONBLOCK \<noteq> 0 \<Longrightarrow> k_fl p' n AND O_NONBLOCK \<noteq> 0"
    "m_recvTimeout c = - 1" "m_sendTimeout c = - 1"
  using assms
  by (auto simp: mk_FdCtx_def fdctx_init_def Let_def nonblock_bit bit_simps bit_nonblock split: option.splits if_splits)

lemma table_ok_get:
  assumes ok: "table_ok p" and g: "fdmgr_get fd create p = Inr (c, p')"
  shows "table_ok p'"
proof (cases "p' = p")
  case False
  obtain ctx q where m: "mk_FdCtx (nat fd) p = (ctx, q)" by fastforce
  have p': "p' = q\<lparr>m_datas := (m_datas q)[nat fd := Some ctx]\<rparr>" "nat fd < length (m_datas p)"
    using g False m fdctx_init_fresh(7)[OF m] by (auto simp: fdmgr_get_def split: if_splits)
  show ?thesis unfolding table_ok_def
  proof (intro allI impI)
    fix n c assume n: "n < length (m_datas p')" "m_datas p' ! n = Some c"
    show "m_fd c = n \<and> m_sysNonblock c = m_isSocket c \<and> (m_isSocket c \<longrightarrow> k_fl p' n AND O_NONBLOCK \<noteq> 0)"
    proof (cases "n = nat fd")
      case True
      then show ?thesis using n p' fdctx_init_fresh[OF m] by simp
    next
      case False
      then show ?thesis using n p' fdctx_init_fresh(6,7)[OF m] table_okD[OF ok, of n c] by simp
    qed
  qed
qed (use ok in simp)

subsection \<open>Properties\<close>

text \<open>
  The non-blocking mode that the framework needs is invisible to the user.  On a hooked socket
  \<^verbatim>\<open>fcntl(F_SETFL)\<close> followed by \<^verbatim>\<open>fcntl(F_GETFL)\<close> gives back exactly the flags the user set, while the
  kernel keeps the socket non-blocking.
\<close>

theorem fcntl_transparent:
  assumes "table_ok p" "n < length (m_datas p)" "m_datas p ! n = Some c" "m_isSocket c" "\<not> m_isClosed c"
  shows "\<exists>p'. hk_fcntl (int n) (F_SETFL arg) p = Inr (0, p') \<and> table_ok p' \<and> k_fl p' n AND O_NONBLOCK \<noteq> 0 \<and>
     hk_fcntl (int n) F_GETFL p' = Inr (arg, p')"
proof -
  define c' where "c' = c\<lparr>m_userNonblock := (arg AND O_NONBLOCK \<noteq> 0)\<rparr>"
  define p' where "p' = (upd_fdctx (int n) c' p)\<lparr>k_fl := (k_fl p)(n := arg OR O_NONBLOCK)\<rparr>"
  have sys: "m_sysNonblock c" using table_okD[OF assms(1-3)] assms(4) by simp
  have "hk_fcntl (int n) (F_SETFL arg) p = Inr (0, p')"
    using assms sys by (simp add: hk_fcntl_def fdmgr_get_plain p'_def c'_def upd_fdctx_def)
  moreover have k: "k_fl p' n AND O_NONBLOCK \<noteq> 0" by (simp add: p'_def nonblock_bit bit_simps bit_nonblock)
  moreover have "table_ok p'"
    unfolding table_ok_def
  proof (intro allI impI)
    fix m d assume "m < length (m_datas p')" "m_datas p' ! m = Some d"
    then show "m_fd d = m \<and> m_sysNonblock d = m_isSocket d \<and> (m_isSocket d \<longrightarrow> k_fl p' m AND O_NONBLOCK \<noteq> 0)"
      using assms(1-3) table_okD[OF assms(1), of m d] table_okD[OF assms(1-3)] k
      by (cases "m = n") (auto simp: p'_def c'_def upd_fdctx_def)
  qed
  moreover have "hk_fcntl (int n) F_GETFL p' = Inr (arg, p')"
  proof -
    have g: "fdmgr_get (int n) False p' = Inr (Some c', p')"
      using assms(2) by (simp add: fdmgr_get_plain p'_def upd_fdctx_def)
    have kf: "k_fl p' n = arg OR O_NONBLOCK" by (simp add: p'_def)
    show ?thesis using assms(4,5) nonblock_hidden[of arg]
      by (simp add: hk_fcntl_def g kf c'_def split: if_splits)
  qed
  ultimately show ?thesis by blast
qed

definition one_ctx :: fdctx where
  "one_ctx = \<lparr>m_isInit = True, m_isSocket = True, m_sysNonblock = True, m_userNonblock = False,
     m_isClosed = False, m_fd = 0, m_recvTimeout = - 1, m_sendTimeout = - 1\<rparr>"

definition one_socket :: process where
  "one_socket = \<lparr>m_datas = [Some one_ctx],
     k_fl = (\<lambda>_. O_NONBLOCK), k_issock = (\<lambda>_. Some True), t_hook_enable = True, errno = 0\<rparr>"

lemma one_socket_ok: "table_ok one_socket"
  by (auto simp: table_ok_def one_socket_def one_ctx_def nonblock_bit bit_nonblock)

theorem fcntl_transparent_witness:
  "\<exists>p'. hk_fcntl 0 (F_SETFL 2) one_socket = Inr (0, p') \<and> hk_fcntl 0 F_GETFL p' = Inr (2, p')"
  using fcntl_transparent[OF one_socket_ok, of 0 _ 2] by (fastforce simp: one_socket_def one_ctx_def)

text \<open>\<^verbatim>\<open>ioctl(FIONBIO)\<close> does not have this property: asking for blocking mode clears the kernel's flag.\<close>

lemma ioctl_unhides: "\<exists>p'. hk_ioctl_fionbio 0 0 one_socket = Inr p' \<and> \<not> table_ok p'"
  by (auto simp: hk_ioctl_fionbio_def fdmgr_get_plain one_socket_def one_ctx_def upd_fdctx_def table_ok_def nonblock_bit
      bit_simps bit_nonblock)

lemma io_loop_events:
  assumes "set wakes \<subseteq> {By_event}" "length calls \<le> length wakes"
  shows "io_loop to calls wakes =
     (case find (\<lambda>(n, e). \<not> (n = - 1 \<and> (e = EINTR \<or> e = EAGAIN))) calls of
        None \<Rightarrow> Io_more | Some (n, e) \<Rightarrow> Io_done n e)"
  using assms
proof (induction calls arbitrary: wakes)
  case Nil
  then show ?case by (simp add: io_loop.simps)
next
  case (Cons r calls)
  obtain n e where r: "r = (n, e)" by fastforce
  obtain ws where ws: "wakes = By_event # ws" using Cons.prems by (cases wakes) auto
  consider "n = - 1" "e = EINTR" | "n = - 1" "e = EAGAIN" | "\<not> (n = - 1 \<and> (e = EINTR \<or> e = EAGAIN))" by blast
  then show ?case
  proof cases
    case 1
    then have "io_loop to (r # calls) wakes = io_loop to calls wakes"
      unfolding r by (subst (1 2) io_loop.simps) simp
    then show ?thesis using 1 Cons.IH[of wakes] Cons.prems by (simp add: r)
  next
    case 2
    then have "io_loop to (r # calls) wakes = io_loop to calls ws"
      unfolding r ws by (subst io_loop.simps) (simp add: errno_defs)
    then show ?thesis using 2 Cons.IH[of ws] Cons.prems ws by (simp add: r)
  next
    case 3
    then show ?thesis unfolding r by (subst io_loop.simps) auto
  qed
qed



definition pending :: "int \<times> nat \<Rightarrow> bool" where
  "pending r \<longleftrightarrow> r = (- 1, EINTR) \<or> r = (- 1, EAGAIN)"

lemma io_loop_timeout:
  assumes "\<forall>r \<in> set calls. pending r" "to \<noteq> - 1" "length (filter (\<lambda>r. r = (- 1, EAGAIN)) calls) = Suc waits"
  shows "io_loop to (calls @ later_calls) (replicate waits By_event @ By_timer # ws) = Io_done (- 1) ETIMEDOUT"
  using assms
proof (induction calls arbitrary: waits)
  case (Cons r calls)
  consider "r = (- 1, EINTR)" | "r = (- 1, EAGAIN)" using Cons.prems(1) by (auto simp: pending_def)
  then show ?case
  proof cases
    case 1
    have "io_loop to ((r # calls) @ later_calls) w = io_loop to (calls @ later_calls) w" for w
      unfolding 1 by (subst (1 2) io_loop.simps) simp
    then show ?thesis using Cons 1 by (simp add: errno_defs)
  next
    case 2
    then show ?thesis using Cons by (cases waits; subst io_loop.simps) (simp_all add: errno_defs)
  qed
qed simp

text \<open>
  C10: \<open>do_io\<close> gives a hooked socket the behaviour of a blocking one.  Whenever every wait ends with the
  event, the result is that of the first call of the original function that is neither interrupted
  nor would block, whatever the number of interruptions and waits before it.  If the socket has a
  timeout and the timer of some wait fires before its event, the result is the error \<^verbatim>\<open>ETIMEDOUT\<close>.
\<close>

theorem do_io_blocks:
  assumes "n < length (m_datas p)" "m_datas p ! n = Some c" "m_isSocket c" "\<not> m_isClosed c" "\<not> m_userNonblock c"
    "t_hook_enable p"
  shows "(set wakes \<subseteq> {By_event} \<and> length calls \<le> length wakes \<longrightarrow>
      do_io so (int n) calls wakes p =
        Inr (case find (\<lambda>(n, e). \<not> (n = - 1 \<and> (e = EINTR \<or> e = EAGAIN))) calls of
          None \<Rightarrow> Io_more | Some (n, e) \<Rightarrow> Io_done n e, p)) \<and>
    ((\<forall>r \<in> set calls. pending r) \<and> getTimeout so c \<noteq> - 1 \<and>
      length (filter (\<lambda>r. r = (- 1, EAGAIN)) calls) = Suc waits \<longrightarrow>
      do_io so (int n) (calls @ later_calls) (replicate waits By_event @ By_timer # ws) p = Inr (Io_done (- 1) ETIMEDOUT, p))"
  using assms io_loop_events[of wakes calls "getTimeout so c"]
    io_loop_timeout[of calls "getTimeout so c" waits later_calls ws]
  by (simp add: do_io_def fdmgr_get_plain)

theorem do_io_blocks_witness:
  "do_io SO_RCVTIMEO 0 [(- 1, EINTR), (- 1, EAGAIN), (5, 0)] [By_event, By_event, By_event] one_socket =
     Inr (Io_done 5 0, one_socket) \<and>
   do_io SO_RCVTIMEO 0 [(- 1, EAGAIN), (- 1, EAGAIN)] [By_event, By_timer] (upd_fdctx 0 (setTimeout SO_RCVTIMEO 10 one_ctx) one_socket) =
     Inr (Io_done (- 1) ETIMEDOUT, upd_fdctx 0 (setTimeout SO_RCVTIMEO 10 one_ctx) one_socket)"
proof
  show "do_io SO_RCVTIMEO 0 [(- 1, EINTR), (- 1, EAGAIN), (5, 0)] [By_event, By_event, By_event] one_socket =
     Inr (Io_done 5 0, one_socket)"
    using do_io_blocks[of 0 one_socket one_ctx "[By_event, By_event, By_event]"
        "[(- 1, EINTR), (- 1, EAGAIN), (5, 0)]" SO_RCVTIMEO]
    by (simp add: one_socket_def one_ctx_def)
  show "do_io SO_RCVTIMEO 0 [(- 1, EAGAIN), (- 1, EAGAIN)] [By_event, By_timer] (upd_fdctx 0 (setTimeout SO_RCVTIMEO 10 one_ctx) one_socket) =
     Inr (Io_done (- 1) ETIMEDOUT, upd_fdctx 0 (setTimeout SO_RCVTIMEO 10 one_ctx) one_socket)"
    using do_io_blocks[of 0 "upd_fdctx 0 (setTimeout SO_RCVTIMEO 10 one_ctx) one_socket" "setTimeout SO_RCVTIMEO 10 one_ctx" "[]"
        "[(- 1, EAGAIN), (- 1, EAGAIN)]" SO_RCVTIMEO 1 "[]" "[]"]
    by (simp add: one_socket_def one_ctx_def upd_fdctx_def setTimeout_def getTimeout_def pending_def)
qed

text \<open>
  The descriptor table never grows: with hooks enabled, \<open>socket\<close> succeeds for a new descriptor
  exactly if it is below the size of the table, and registers it as non-blocking; for a larger
  descriptor the code writes past the end.
\<close>

theorem socket_table_limit:
  assumes "t_hook_enable p" "table_ok p"
  shows "if n < length (m_datas p)
     then \<exists>p' c. hk_socket (int n) p = Inr (int n, p') \<and> table_ok p' \<and> m_datas p' ! n = Some c \<and>
            length (m_datas p') = length (m_datas p)
     else hk_socket (int n) p = Inl Oob_access"
proof (cases "n < length (m_datas p)")
  case True
  obtain ctx q where m: "mk_FdCtx n p = (ctx, q)" by fastforce
  have q: "m_datas q = m_datas p" using fdctx_init_fresh(7)[OF m] .
  obtain c p' where g: "fdmgr_get (int n) True p = Inr (Some c, p')" "m_datas p' ! n = Some c"
      "length (m_datas p') = length (m_datas p)"
    using True m q by (cases "m_datas p ! n") (auto simp: fdmgr_get_def)
  then show ?thesis using True assms table_ok_get[OF assms(2) g(1)] by (auto simp: hk_socket_def)
next
  case False
  obtain ctx q where m: "mk_FdCtx n p = (ctx, q)" by fastforce
  have "fdmgr_get (int n) True p = Inl Oob_access"
    using False m fdctx_init_fresh(7)[OF m] by (simp add: fdmgr_get_def)
  then show ?thesis using False assms by (simp add: hk_socket_def)
qed

theorem socket_table_limit_witness: "hk_socket 1 one_socket = Inl Oob_access"
  using socket_table_limit[OF _ one_socket_ok, of 1] by (simp add: one_socket_def one_ctx_def)

end
