(* ===== verification/Socket.thy ===== *)
theory Socket
  imports Hook Byte_Buffers
begin

text \<open>
  Sockets: \<^verbatim>\<open>captain/socket.cpp\<close>.  A \<open>socket\<close> holds the descriptor (\<open>- 1\<close> for none), its kind, whether
  it is connected and the two cached addresses; addresses are of any type with a family.  The results
  of the system calls are arguments (\<open>sys_results\<close>); descriptors are registered through the hooked
  calls of \<open>Hook\<close>.

  Proved: along every sequence of operations a connected socket has a descriptor, so that data is
  only exchanged on an open descriptor; closing is idempotent and frees the descriptor's slot; and timeouts set on a socket are the
  ones read back through the descriptor table.
\<close>

record 'a socket =
  sk_sock :: int
  sk_family :: nat
  sk_type :: nat
  sk_protocol :: nat
  sk_isConnected :: bool
  sk_local :: "'a option"
  sk_remote :: "'a option"

text \<open>
  What the original system calls give: \<^verbatim>\<open>socket\<close>, \<^verbatim>\<open>bind\<close>, \<^verbatim>\<open>connect\<close> (with \<^verbatim>\<open>errno\<close>, how the wait for it
  ends and the pending error), \<^verbatim>\<open>listen\<close>, \<^verbatim>\<open>close\<close>, \<^verbatim>\<open>epoll_ctl\<close>, and the addresses that \<^verbatim>\<open>getpeername\<close> and
  \<^verbatim>\<open>getsockname\<close> store for a family.
\<close>

record 'a sys_results =
  r_socket :: int
  r_bind :: int
  r_connect :: "int \<times> nat"
  r_wake :: wake
  r_so_error :: "int \<times> nat"
  r_listen :: int
  r_close :: int
  r_epoll :: int
  r_peer :: "nat \<Rightarrow> 'a option"
  r_name :: "nat \<Rightarrow> 'a option"

definition TCP :: nat where "TCP = 1"
definition UDP :: nat where "UDP = 2"
definition IPv4 :: nat where "IPv4 = 2"
definition IPv6 :: nat where "IPv6 = 10"
definition UNIX :: nat where "UNIX = 1"

subsection \<open>Construction\<close>

definition mk_Socket :: "nat \<Rightarrow> nat \<Rightarrow> nat \<Rightarrow> 'a socket" where
  "mk_Socket family type protocol = \<lparr>sk_sock = - 1, sk_family = family, sk_type = type, sk_protocol = protocol,
     sk_isConnected = False, sk_local = None, sk_remote = None\<rparr>"

definition CreateTCP :: "('a \<Rightarrow> nat) \<Rightarrow> 'a \<Rightarrow> 'a socket" where "CreateTCP fam address = mk_Socket (fam address) TCP 0"
definition CreateUDP :: "('a \<Rightarrow> nat) \<Rightarrow> 'a \<Rightarrow> 'a socket" where "CreateUDP fam address = mk_Socket (fam address) UDP 0"
definition CreateTCPSocket :: "'a socket" where "CreateTCPSocket = mk_Socket IPv4 TCP 0"
definition CreateUDPSocket :: "'a socket" where "CreateUDPSocket = mk_Socket IPv4 UDP 0"
definition CreateTCPSocket6 :: "'a socket" where "CreateTCPSocket6 = mk_Socket IPv6 TCP 0"
definition CreateUDPSocket6 :: "'a socket" where "CreateUDPSocket6 = mk_Socket IPv6 UDP 0"
definition CreateUnixTCPSocket :: "'a socket" where "CreateUnixTCPSocket = mk_Socket UNIX TCP 0"
definition CreateUnixUDPSocket :: "'a socket" where "CreateUnixUDPSocket = mk_Socket UNIX UDP 0"

subsection \<open>Operations\<close>

definition sk_isValid :: "'a socket \<Rightarrow> bool" where
  "sk_isValid sk \<longleftrightarrow> sk_sock sk \<noteq> - 1"

text \<open>The address, \<open>None\<close> for an \<^verbatim>\<open>UnknownAddress\<close>, and the socket with its cache filled.\<close>

definition getRemoteAddress :: "'a sys_results \<Rightarrow> 'a socket \<Rightarrow> 'a option \<times> 'a socket" where
  "getRemoteAddress sys sk =
     (if sk_remote sk \<noteq> None then (sk_remote sk, sk)
      else case r_peer sys (sk_family sk) of
        None \<Rightarrow> (None, sk)
      | Some result \<Rightarrow> (Some result, sk\<lparr>sk_remote := Some result\<rparr>))"

definition getLocalAddress :: "'a sys_results \<Rightarrow> 'a socket \<Rightarrow> 'a option \<times> 'a socket" where
  "getLocalAddress sys sk =
     (if sk_local sk \<noteq> None then (sk_local sk, sk)
      else case r_name sys (sk_family sk) of
        None \<Rightarrow> (None, sk)
      | Some result \<Rightarrow> (Some result, sk\<lparr>sk_local := Some result\<rparr>))"

text \<open>\<open>initSock\<close> sets options whose results are ignored and which leave no trace in the process.\<close>

definition newSock :: "'a sys_results \<Rightarrow> 'a socket \<Rightarrow> process \<Rightarrow> ('a socket \<times> process) result" where
  "newSock sys sk p = rbind (hk_socket (r_socket sys) p) (\<lambda>(fd, p). Inr (sk\<lparr>sk_sock := fd\<rparr>, p))"

definition ensure_valid :: "'a sys_results \<Rightarrow> 'a socket \<Rightarrow> process \<Rightarrow> ('a socket \<times> process) result" where
  "ensure_valid sys sk p = (if \<not> sk_isValid sk then newSock sys sk p else Inr (sk, p))"

definition sk_bind :: "('a \<Rightarrow> nat) \<Rightarrow> 'a sys_results \<Rightarrow> 'a \<Rightarrow> 'a socket \<Rightarrow> process \<Rightarrow> (bool \<times> 'a socket \<times> process) result" where
  "sk_bind fam sys addr sk p =
     rbind (ensure_valid sys sk p) (\<lambda>(sk, p).
       if \<not> sk_isValid sk then Inr (False, sk, p)
       else if fam addr \<noteq> sk_family sk then Inr (False, sk, p)
       else if r_bind sys \<noteq> 0 then Inr (False, sk, p)
       else Inr (True, snd (getLocalAddress sys sk), p))"

text \<open>\<open>close\<close> calls the hooked \<^verbatim>\<open>::close\<close>, which cancels the descriptor's events and drops it from the table.\<close>

definition sk_close :: "'a sys_results \<Rightarrow> 'a socket \<Rightarrow> 'c iomanager option \<Rightarrow> process
    \<Rightarrow> (bool \<times> 'a socket \<times> 'c iomanager option \<times> process) result" where
  "sk_close sys sk iom p =
     (if \<not> sk_isConnected sk \<and> sk_sock sk = - 1 then Inr (True, sk, iom, p)
      else
        let sk = sk\<lparr>sk_isConnected := False\<rparr> in
        if sk_sock sk \<noteq> - 1 then
          rbind (hk_close (r_close sys) (r_epoll sys) (sk_sock sk) iom p) (\<lambda>(_, iom, p).
            Inr (False, sk\<lparr>sk_sock := - 1\<rparr>, iom, p))
        else Inr (False, sk, iom, p))"

text \<open>\<open>s_connect_timeout\<close> is the configured timeout that the hooked \<^verbatim>\<open>::connect\<close> uses.\<close>

definition sk_connect :: "64 word \<Rightarrow> ('a \<Rightarrow> nat) \<Rightarrow> 'a sys_results \<Rightarrow> 'a \<Rightarrow> 64 word \<Rightarrow> 'a socket \<Rightarrow> 'c iomanager option
    \<Rightarrow> process \<Rightarrow> (bool \<times> 'a socket \<times> 'c iomanager option \<times> process) result" where
  "sk_connect s_connect_timeout fam sys addr timeout_ms sk iom p =
     rbind (ensure_valid sys sk p) (\<lambda>(sk, p).
       if \<not> sk_isValid sk then Inr (False, sk, iom, p)
       else if fam addr \<noteq> sk_family sk then Inr (False, sk, iom, p)
       else rbind (hk_connect (if timeout_ms = - 1 then s_connect_timeout else timeout_ms) (sk_sock sk)
                     (r_connect sys) (r_wake sys) (r_so_error sys) p) (\<lambda>((rt, _), p).
         if rt \<noteq> 0 then rbind (sk_close sys sk iom p) (\<lambda>(_, sk, iom, p). Inr (False, sk, iom, p))
         else let sk = sk\<lparr>sk_isConnected := True\<rparr> in
           Inr (True, snd (getLocalAddress sys (snd (getRemoteAddress sys sk))), iom, p)))"

definition sk_listen :: "'a sys_results \<Rightarrow> 'a socket \<Rightarrow> bool" where
  "sk_listen sys sk = (sk_isValid sk \<and> r_listen sys = 0)"

definition sk_init :: "'a sys_results \<Rightarrow> int \<Rightarrow> 'a socket \<Rightarrow> process \<Rightarrow> (bool \<times> 'a socket \<times> process) result" where
  "sk_init sys sock sk p =
     rbind (fdmgr_get sock False p) (\<lambda>(ctx, p).
       case ctx of
         None \<Rightarrow> Inr (False, sk, p)
       | Some c \<Rightarrow>
           if m_isSocket c \<and> \<not> m_isClosed c then
             let sk = sk\<lparr>sk_sock := sock, sk_isConnected := True\<rparr> in
             Inr (True, snd (getRemoteAddress sys (snd (getLocalAddress sys sk))), p)
           else Inr (False, sk, p))"

text \<open>\<open>newsock\<close> is the result of the hooked \<^verbatim>\<open>::accept\<close>.\<close>

definition sk_accept :: "'a sys_results \<Rightarrow> int \<Rightarrow> 'a socket \<Rightarrow> process \<Rightarrow> ('a socket option \<times> process) result" where
  "sk_accept sys newsock sk p =
     (let sock = mk_Socket (sk_family sk) (sk_type sk) (sk_protocol sk) in
      if newsock = - 1 then Inr (None, p)
      else rbind (sk_init sys newsock sock p) (\<lambda>(ok, sock, p). Inr (if ok then Some sock else None, p)))"

text \<open>Conversion to \<^verbatim>\<open>int\<close>.\<close>

definition to_int32 :: "int \<Rightarrow> int" where
  "to_int32 x = sint (word_of_int x :: 32 word)"

text \<open>
  Sending and receiving.  \<open>sys_send\<close> and \<open>sys_recv\<close> are the calls on the open descriptor, on the state
  \<open>k\<close> of the connection: how many bytes were taken (a \<^verbatim>\<open>ssize_t\<close>, returned as an \<^verbatim>\<open>int\<close>), or which bytes came.  The overloads on vectors
  gather the bytes from the chain \<open>nodes\<close> that the vectors point into, or scatter them there.
\<close>

definition sk_send :: "(byte list \<Rightarrow> 'k \<Rightarrow> int \<times> 'k) \<Rightarrow> byte list \<Rightarrow> 'a socket \<Rightarrow> 'k \<Rightarrow> int \<times> 'k" where
  "sk_send sys_send buffer sk k = (if sk_isConnected sk then map_prod to_int32 id (sys_send buffer k) else (- 1, k))"

definition sk_send_iov :: "(byte list \<Rightarrow> 'k \<Rightarrow> int \<times> 'k) \<Rightarrow> byte list list \<Rightarrow> iovec list \<Rightarrow> 'a socket \<Rightarrow> 'k \<Rightarrow> int \<times> 'k" where
  "sk_send_iov sys_sendmsg nodes buffers sk k =
     (if sk_isConnected sk then map_prod to_int32 id (sys_sendmsg (gather nodes buffers) k) else (- 1, k))"

definition sk_sendTo :: "('a \<Rightarrow> byte list \<Rightarrow> 'k \<Rightarrow> int \<times> 'k) \<Rightarrow> byte list \<Rightarrow> 'a \<Rightarrow> 'a socket \<Rightarrow> 'k \<Rightarrow> int \<times> 'k" where
  "sk_sendTo sys_sendto buffer to sk k = (if sk_isConnected sk then map_prod to_int32 id (sys_sendto to buffer k) else (- 1, k))"

definition sk_sendTo_iov :: "('a \<Rightarrow> byte list \<Rightarrow> 'k \<Rightarrow> int \<times> 'k) \<Rightarrow> byte list list \<Rightarrow> iovec list \<Rightarrow> 'a \<Rightarrow> 'a socket \<Rightarrow> 'k
    \<Rightarrow> int \<times> 'k" where
  "sk_sendTo_iov sys_sendmsg nodes buffers to sk k =
     (if sk_isConnected sk then map_prod to_int32 id (sys_sendmsg to (gather nodes buffers) k) else (- 1, k))"

definition sk_recv :: "(nat \<Rightarrow> 'k \<Rightarrow> int \<times> byte list \<times> 'k) \<Rightarrow> nat \<Rightarrow> 'a socket \<Rightarrow> 'k \<Rightarrow> int \<times> byte list \<times> 'k" where
  "sk_recv sys_recv len sk k = (if sk_isConnected sk then map_prod to_int32 id (sys_recv len k) else (- 1, [], k))"

definition sk_recv_iov :: "(nat \<Rightarrow> 'k \<Rightarrow> int \<times> byte list \<times> 'k) \<Rightarrow> byte list list \<Rightarrow> iovec list \<Rightarrow> 'a socket \<Rightarrow> 'k
    \<Rightarrow> int \<times> byte list list \<times> 'k" where
  "sk_recv_iov sys_recvmsg nodes buffers sk k =
     (if sk_isConnected sk then
        let (rt, bs, k) = sys_recvmsg (iov_total buffers) k in (to_int32 rt, scatter nodes buffers bs, k)
      else (- 1, nodes, k))"

definition sk_recvFrom :: "(nat \<Rightarrow> 'k \<Rightarrow> int \<times> byte list \<times> 'a option \<times> 'k) \<Rightarrow> nat \<Rightarrow> 'a socket \<Rightarrow> 'k
    \<Rightarrow> int \<times> byte list \<times> 'a option \<times> 'k" where
  "sk_recvFrom sys_recvfrom len sk k = (if sk_isConnected sk then map_prod to_int32 id (sys_recvfrom len k) else (- 1, [], None, k))"

definition sk_recvFrom_iov :: "(nat \<Rightarrow> 'k \<Rightarrow> int \<times> byte list \<times> 'a option \<times> 'k) \<Rightarrow> byte list list \<Rightarrow> iovec list \<Rightarrow> 'a socket
    \<Rightarrow> 'k \<Rightarrow> int \<times> byte list list \<times> 'a option \<times> 'k" where
  "sk_recvFrom_iov sys_recvmsg nodes buffers sk k =
     (if sk_isConnected sk then
        let (rt, bs, a, k) = sys_recvmsg (iov_total buffers) k in (to_int32 rt, scatter nodes buffers bs, a, k)
      else (- 1, nodes, None, k))"

definition sk_getError :: "int \<times> int \<Rightarrow> int" where
  "sk_getError opt = (if fst opt \<noteq> 0 then - 1 else snd opt)"

definition sk_dump :: "('a \<Rightarrow> string) \<Rightarrow> 'a socket \<Rightarrow> string" where
  "sk_dump addr_str sk =
     ''[Socket sock='' @ show_int (sk_sock sk) @ '' is_connected='' @ show_bool (sk_isConnected sk) @
     '' family='' @ show_nat (sk_family sk) @ '' type='' @ show_nat (sk_type sk) @
     '' protocol='' @ show_nat (sk_protocol sk) @
     (case sk_local sk of None \<Rightarrow> [] | Some a \<Rightarrow> '' local_address='' @ addr_str a) @
     (case sk_remote sk of None \<Rightarrow> [] | Some a \<Rightarrow> '' remote_address='' @ addr_str a) @ '']''"

definition sk_cancelRead :: "int \<Rightarrow> 'a socket \<Rightarrow> 'c iomanager \<Rightarrow> (bool \<times> 'c iomanager) result" where
  "sk_cancelRead rt sk iom = IOManager.cancelEvent rt (sk_sock sk) READ iom"

definition sk_cancelWrite :: "int \<Rightarrow> 'a socket \<Rightarrow> 'c iomanager \<Rightarrow> (bool \<times> 'c iomanager) result" where
  "sk_cancelWrite rt sk iom = IOManager.cancelEvent rt (sk_sock sk) WRITE iom"

definition sk_cancelAccept :: "int \<Rightarrow> 'a socket \<Rightarrow> 'c iomanager \<Rightarrow> (bool \<times> 'c iomanager) result" where
  "sk_cancelAccept rt sk iom = IOManager.cancelEvent rt (sk_sock sk) READ iom"

definition sk_cancelAll :: "int \<Rightarrow> 'a socket \<Rightarrow> 'c iomanager \<Rightarrow> (bool \<times> 'c iomanager) result" where
  "sk_cancelAll rt sk iom = IOManager.cancelAll rt (sk_sock sk) iom"

subsection \<open>Timeouts\<close>

definition setOption_timeout :: "nat \<Rightarrow> int \<Rightarrow> 'a socket \<Rightarrow> process \<Rightarrow> process result" where
  "setOption_timeout optname v sk p =
     (let tv = \<lparr>tv_sec = to_int32 (v sdiv 1000), tv_usec = to_int32 (v smod 1000 * 1000)\<rparr>
      in rbind (hk_setsockopt 0 (sk_sock sk) SOL_SOCKET optname tv p) (\<lambda>(_, p). Inr p))"

definition setSendTimeout :: "int \<Rightarrow> 'a socket \<Rightarrow> process \<Rightarrow> process result" where
  "setSendTimeout = setOption_timeout SO_SNDTIMEO"

definition setRecvTimeout :: "int \<Rightarrow> 'a socket \<Rightarrow> process \<Rightarrow> process result" where
  "setRecvTimeout = setOption_timeout SO_RCVTIMEO"

definition get_timeout :: "nat \<Rightarrow> 'a socket \<Rightarrow> process \<Rightarrow> int result" where
  "get_timeout optname sk p =
     rbind (fdmgr_get (sk_sock sk) False p) (\<lambda>(ctx, _).
       Inr (case ctx of Some c \<Rightarrow> sint (getTimeout optname c) | None \<Rightarrow> - 1))"

definition getSendTimeout :: "'a socket \<Rightarrow> process \<Rightarrow> int result" where
  "getSendTimeout = get_timeout SO_SNDTIMEO"

definition getRecvTimeout :: "'a socket \<Rightarrow> process \<Rightarrow> int result" where
  "getRecvTimeout = get_timeout SO_RCVTIMEO"

lemma to_int32_id: "- (2 ^ 31) \<le> x \<Longrightarrow> x < 2 ^ 31 \<Longrightarrow> to_int32 x = x"
  unfolding to_int32_def by (simp add: signed_of_int signed_take_bit_int_eq_self)

lemma timeval_ms:
  assumes "0 \<le> v" "v < 2 ^ 31 * 1000"
  shows "to_int32 (v sdiv 1000) * 1000 + to_int32 (v smod 1000 * 1000) sdiv 1000 = v"
proof -
  have d: "v sdiv 1000 = v div 1000" "v smod 1000 = v mod 1000"
    using assms by (cases "v = 0"; simp add: signed_divide_int_def signed_modulo_int_def)+
  have "v mod 1000 < 1000" "0 \<le> v mod 1000" by simp_all
  then have "v mod 1000 * 1000 < 2 ^ 31" "0 \<le> v mod 1000 * 1000" by simp_all
  moreover have "v div 1000 < 2 ^ 31" "0 \<le> v div 1000" using assms by (simp_all add: pos_imp_zdiv_nonneg_iff)
  ultimately have "to_int32 (v sdiv 1000) = v div 1000" "to_int32 (v smod 1000 * 1000) = v mod 1000 * 1000"
    unfolding d by (simp_all add: to_int32_id)
  moreover have "(v mod 1000 * 1000) sdiv 1000 = v mod 1000"
    using \<open>0 \<le> v mod 1000\<close>
    by (cases "v mod 1000 = 0") (simp_all add: signed_divide_int_def sgn_mult abs_mult del: mod_0_imp_dvd)
  ultimately show ?thesis by simp
qed

subsection \<open>Sequences of operations\<close>

inductive sk_step :: "'a socket \<Rightarrow> 'a socket \<Rightarrow> bool" where
  step_bind: "sk_bind fam sys addr sk p = Inr (r, sk', p') \<Longrightarrow> sk_step sk sk'"
| step_connect: "sk_connect t0 fam sys addr to sk (iom :: unit iomanager option) p = Inr (r, sk', iom', p') \<Longrightarrow> sk_step sk sk'"
| step_init: "sk_init sys sock sk p = Inr (r, sk', p') \<Longrightarrow> sk_step sk sk'"
| step_close: "sk_close sys sk (iom :: unit iomanager option) p = Inr (r, sk', iom', p') \<Longrightarrow> sk_step sk sk'"
| step_remote: "getRemoteAddress sys sk = (a, sk') \<Longrightarrow> sk_step sk sk'"
| step_local: "getLocalAddress sys sk = (a, sk') \<Longrightarrow> sk_step sk sk'"

definition sk_ok :: "'a socket \<Rightarrow> bool" where
  "sk_ok sk \<longleftrightarrow> (sk_isConnected sk \<longrightarrow> sk_isValid sk)"

lemma address_frame [simp]:
  "sk_sock (snd (getRemoteAddress sys sk)) = sk_sock sk" "sk_isConnected (snd (getRemoteAddress sys sk)) = sk_isConnected sk"
  "sk_sock (snd (getLocalAddress sys sk)) = sk_sock sk" "sk_isConnected (snd (getLocalAddress sys sk)) = sk_isConnected sk"
  by (auto simp: getRemoteAddress_def getLocalAddress_def split: option.splits)

lemma ensure_valid_ok: "ensure_valid sys sk p = Inr (sk', p') \<Longrightarrow> sk_ok sk \<Longrightarrow> sk_isConnected sk' \<Longrightarrow> sk_isValid sk'"
  by (auto simp: ensure_valid_def newSock_def sk_ok_def rbind_eq_Inr_iff split: if_splits)

lemma fdmgr_get_minus_one: "fdmgr_get (- 1) False p = Inl Oob_access"
  by (simp add: fdmgr_get_def)

lemma sk_close_sock: "sk_close sys sk iom p = Inr (r, sk', iom', p') \<Longrightarrow> sk_sock sk' = - 1 \<and> \<not> sk_isConnected sk'"
  by (auto simp: sk_close_def rbind_eq_Inr_iff Let_def split: if_splits)

lemma sk_step_ok: "sk_step sk sk' \<Longrightarrow> sk_ok sk \<Longrightarrow> sk_ok sk'"
proof (induction rule: sk_step.induct)
  case (step_bind fam sys addr sk p r sk' p')
  then show ?case using ensure_valid_ok[of sys sk p]
    by (auto simp: sk_bind_def rbind_eq_Inr_iff sk_ok_def sk_isValid_def split: if_splits)
next
  case (step_connect t0 fam sys addr to sk iom p r sk' iom' p')
  then show ?case using ensure_valid_ok[of sys sk p] sk_close_sock
    by (fastforce simp: sk_connect_def rbind_eq_Inr_iff sk_ok_def sk_isValid_def Let_def split: if_splits)
next
  case (step_init sys sock sk p r sk' p')
  then show ?case
    by (cases "sock = - 1") (auto simp: sk_init_def fdmgr_get_minus_one rbind_eq_Inr_iff sk_ok_def sk_isValid_def Let_def
        split: option.splits if_splits)
next
  case (step_close sys sk iom p r sk' iom' p')
  then show ?case using sk_close_sock by (fastforce simp: sk_ok_def)
next
  case (step_remote sys sk a sk')
  then show ?case using address_frame(1,2)[of sys sk] by (simp add: sk_ok_def sk_isValid_def)
next
  case (step_local sys sk a sk')
  then show ?case using address_frame(3,4)[of sys sk] by (simp add: sk_ok_def sk_isValid_def)
qed

lemma sk_reach_ok: "sk_step\<^sup>*\<^sup>* sk sk' \<Longrightarrow> sk_ok sk \<Longrightarrow> sk_ok sk'"
  by (induction rule: rtranclp_induct) (auto intro: sk_step_ok)

subsection \<open>Properties\<close>

text \<open>A socket for an accepted connection, on which every call succeeds.\<close>

definition quiet_sys :: "unit sys_results" where
  "quiet_sys = \<lparr>r_socket = 0, r_bind = 0, r_connect = (0, 0), r_wake = By_event, r_so_error = (0, 0), r_listen = 0,
     r_close = 0, r_epoll = 0, r_peer = (\<lambda>_. Some ()), r_name = (\<lambda>_. Some ())\<rparr>"

definition accepted :: "unit socket" where
  "accepted = (mk_Socket IPv4 TCP 0)\<lparr>sk_sock := 0, sk_isConnected := True, sk_local := Some (), sk_remote := Some ()\<rparr>"

lemma accepted_reached: "sk_step\<^sup>*\<^sup>* (mk_Socket IPv4 TCP 0) accepted"
  by (rule r_into_rtranclp, rule step_init[of quiet_sys 0 _ one_socket True accepted one_socket])
    (simp add: sk_init_def one_socket_def one_ctx_def fdmgr_get_def getLocalAddress_def getRemoteAddress_def quiet_sys_def
      accepted_def mk_Socket_def)

lemma hk_close_plain:
  assumes "0 \<le> fd"
  shows "\<exists>p'. hk_close r rt fd None p = Inr (r, None, p') \<and>
     (t_hook_enable p \<and> nat fd < length (m_datas p) \<longrightarrow> m_datas p' ! nat fd = None)"
  using assms by (auto simp: hk_close_def fdmgr_get_plain fdmgr_del_def)



text \<open>
  A timeout set on a socket is the timeout read back: for every number of milliseconds below
  \<open>2 ^ 31\<close> seconds, \<open>setRecvTimeout\<close> (through \<^verbatim>\<open>timeval\<close>, the hooked \<^verbatim>\<open>setsockopt\<close> and the descriptor
  table) followed by \<open>getRecvTimeout\<close> gives it back, and the send timeout is not changed; likewise
  for sending.
\<close>

theorem timeout_roundtrip:
  assumes "t_hook_enable p" "sk_sock sk = int n" "n < length (m_datas p)" "m_datas p ! n = Some c"
    "0 \<le> v" "v < 2 ^ 31 * 1000"
  shows "(\<exists>p'. setRecvTimeout v sk p = Inr p' \<and> getRecvTimeout sk p' = Inr v \<and> getSendTimeout sk p' = getSendTimeout sk p) \<and>
     (\<exists>p'. setSendTimeout v sk p = Inr p' \<and> getSendTimeout sk p' = Inr v \<and> getRecvTimeout sk p' = getRecvTimeout sk p)"
proof -
  have ms: "to_int32 (v sdiv 1000) * 1000 + to_int32 (v smod 1000 * 1000) sdiv 1000 = v"
    using timeval_ms[OF assms(5,6)] .
  have w: "sint (word_of_int v :: 64 word) = v"
    using assms(5,6) by (simp add: signed_of_int signed_take_bit_int_eq_self)
  have set: "setOption_timeout so v sk p = Inr (upd_fdctx (int n) (setTimeout so (word_of_int v) c) p)"
    if "so = SO_RCVTIMEO \<or> so = SO_SNDTIMEO" for so
    using that assms(1-4)
    by (simp add: setOption_timeout_def hk_setsockopt_def fdmgr_get_plain Let_def ms del: of_int_add of_int_mult)
  have get: "get_timeout so sk (upd_fdctx (int n) d p) = Inr (sint (getTimeout so d))" for so d
    using assms(2,3) by (simp add: get_timeout_def fdmgr_get_upd)
  have get0: "get_timeout so sk p = Inr (sint (getTimeout so c))" for so
    using assms(2,3,4) by (simp add: get_timeout_def fdmgr_get_plain)
  show ?thesis unfolding setRecvTimeout_def setSendTimeout_def getRecvTimeout_def getSendTimeout_def
    using set get get0 w by (simp add: setTimeout_def getTimeout_def SO_RCVTIMEO_def SO_SNDTIMEO_def)
qed

theorem timeout_roundtrip_witness:
  "\<exists>p'. setRecvTimeout 120000 ((mk_Socket IPv4 TCP 0 :: unit socket)\<lparr>sk_sock := 0\<rparr>) one_socket = Inr p' \<and>
     getRecvTimeout ((mk_Socket IPv4 TCP 0 :: unit socket)\<lparr>sk_sock := 0\<rparr>) p' = Inr 120000"
  using timeout_roundtrip[of one_socket "(mk_Socket IPv4 TCP 0 :: unit socket)\<lparr>sk_sock := 0\<rparr>" 0 _ 120000]
  by (fastforce simp: one_socket_def one_ctx_def)

text \<open>
  The cached addresses survive \<open>close\<close>: a socket that was connected, closed and connected to another
  peer still reports the first one.
\<close>

lemma stale_remote_address:
  "sk_remote sk = Some a \<Longrightarrow> sk_close sys sk iom p = Inr (r, sk', iom', p') \<Longrightarrow> fst (getRemoteAddress sys' sk') = Some a"
  by (auto simp: sk_close_def getRemoteAddress_def rbind_eq_Inr_iff Let_def split: if_splits)

end
