(* ===== verification/Stream.thy ===== *)
theory Stream
  imports Socket
begin

text \<open>
  Streams: \<^verbatim>\<open>captain/stream.cpp\<close> and \<^verbatim>\<open>captain/streams/socket_stream.cpp\<close>.  \<open>readFixSize\<close> and \<open>writeFixSize\<close>
  repeat the virtual \<open>read\<close> and \<open>write\<close> until the requested number of bytes is through; \<open>SocketStream\<close>
  implements these on a socket, for plain buffers and for byte arrays (through their scatter/gather
  vectors).  The stream's state \<open>k\<close> is the kernel's state of the connection.

  The contracts are locales: \<open>kernel_recv\<close> and \<open>kernel_send\<close> say what the calls \<^verbatim>\<open>recv\<close> and \<^verbatim>\<open>send\<close> promise on a
  connection, \<open>byte_reader\<close> and \<open>byte_writer\<close> what the loops need of \<open>read\<close> and \<open>write\<close>; a connected
  \<open>SocketStream\<close> over such a kernel is such a reader and writer.

  Proved: fixed-size reads and writes move exactly the requested bytes, in order and without loss,
  or stop at the first error having moved a prefix.
\<close>

definition to_int64 :: "int \<Rightarrow> int" where
  "to_int64 x = sint (word_of_int x :: 64 word)"

lemma to_int64_small: "0 \<le> x \<Longrightarrow> x < 2 ^ 63 \<Longrightarrow> to_int64 x = x"
  unfolding to_int64_def by (simp add: signed_of_int signed_take_bit_int_eq_self)

subsection \<open>Fixed-size transfers\<close>

text \<open>The loop over a plain buffer: bytes are stored at \<open>offset\<close>.\<close>

function readFix_loop :: "(nat \<Rightarrow> 'k \<Rightarrow> int \<times> byte list \<times> 'k) \<Rightarrow> nat \<Rightarrow> byte list \<Rightarrow> nat \<Rightarrow> int \<Rightarrow> 'k
    \<Rightarrow> int \<times> byte list \<times> 'k" where
  "readFix_loop rd len buffer offset left k =
     (if left > 0 then
        let (n, bs, k) = rd (nat left) k; buffer = overwrite buffer offset bs in
        if n \<le> 0 then (to_int32 n, buffer, k)
        else readFix_loop rd len buffer (offset + nat n) (left - n) k
      else (to_int32 (int len), buffer, k))"
  by pat_completeness auto
termination
  by (relation "measure (\<lambda>(_, _, _, _, left, _). nat left)") auto

declare readFix_loop.simps [simp del]

definition readFixSize :: "(nat \<Rightarrow> 'k \<Rightarrow> int \<times> byte list \<times> 'k) \<Rightarrow> byte list \<Rightarrow> nat \<Rightarrow> 'k \<Rightarrow> int \<times> byte list \<times> 'k" where
  "readFixSize rd buffer len k = readFix_loop rd len buffer 0 (to_int64 (int len)) k"

text \<open>The loop on a byte array, which keeps its own cursor; \<open>readFixSize\<close> and \<open>writeFixSize\<close> differ in \<open>op\<close>.\<close>

function fix_loop_ba :: "(bytearray \<Rightarrow> nat \<Rightarrow> 'k \<Rightarrow> (int \<times> bytearray \<times> 'k) result) \<Rightarrow> nat \<Rightarrow> bytearray \<Rightarrow> int \<Rightarrow> 'k
    \<Rightarrow> (int \<times> bytearray \<times> 'k) result" where
  "fix_loop_ba op len ba left k =
     (if left > 0 then
        rbind (op ba (nat left) k) (\<lambda>(n, ba, k).
          if n \<le> 0 then Inr (to_int32 n, ba, k)
          else fix_loop_ba op len ba (left - n) k)
      else Inr (to_int32 (int len), ba, k))"
  by pat_completeness auto
termination
  by (relation "measure (\<lambda>(_, _, _, left, _). nat left)") auto

declare fix_loop_ba.simps [simp del]

definition readFixSize_ba :: "(bytearray \<Rightarrow> nat \<Rightarrow> 'k \<Rightarrow> (int \<times> bytearray \<times> 'k) result) \<Rightarrow> bytearray \<Rightarrow> nat \<Rightarrow> 'k
    \<Rightarrow> (int \<times> bytearray \<times> 'k) result" where
  "readFixSize_ba rd ba len k = fix_loop_ba rd len ba (to_int64 (int len)) k"

function writeFix_loop :: "(byte list \<Rightarrow> 'k \<Rightarrow> int \<times> 'k) \<Rightarrow> nat \<Rightarrow> byte list \<Rightarrow> nat \<Rightarrow> int \<Rightarrow> 'k \<Rightarrow> int \<times> 'k" where
  "writeFix_loop wr len buffer offset left k =
     (if left > 0 then
        let (n, k) = wr (take (nat left) (drop offset buffer)) k in
        if n \<le> 0 then (to_int32 n, k)
        else writeFix_loop wr len buffer (offset + nat n) (left - n) k
      else (to_int32 (int len), k))"
  by pat_completeness auto
termination
  by (relation "measure (\<lambda>(_, _, _, _, left, _). nat left)") auto

declare writeFix_loop.simps [simp del]

definition writeFixSize :: "(byte list \<Rightarrow> 'k \<Rightarrow> int \<times> 'k) \<Rightarrow> byte list \<Rightarrow> nat \<Rightarrow> 'k \<Rightarrow> int \<times> 'k" where
  "writeFixSize wr buffer len k = writeFix_loop wr len buffer 0 (to_int64 (int len)) k"

definition writeFixSize_ba :: "(bytearray \<Rightarrow> nat \<Rightarrow> 'k \<Rightarrow> (int \<times> bytearray \<times> 'k) result) \<Rightarrow> bytearray \<Rightarrow> nat \<Rightarrow> 'k
    \<Rightarrow> (int \<times> bytearray \<times> 'k) result" where
  "writeFixSize_ba wr ba len k = fix_loop_ba wr len ba (to_int64 (int len)) k"

subsection \<open>Streams on sockets\<close>

record 'a socket_stream =
  ss_socket :: "'a socket option"
  ss_owner :: bool

definition mk_SocketStream :: "'a socket option \<Rightarrow> bool \<Rightarrow> 'a socket_stream" where
  "mk_SocketStream sock owner = \<lparr>ss_socket = sock, ss_owner = owner\<rparr>"

definition ss_isConnected :: "'a socket_stream \<Rightarrow> bool" where
  "ss_isConnected st = (case ss_socket st of None \<Rightarrow> False | Some sk \<Rightarrow> sk_isConnected sk)"

definition ss_read :: "(nat \<Rightarrow> 'k \<Rightarrow> int \<times> byte list \<times> 'k) \<Rightarrow> 'a socket_stream \<Rightarrow> nat \<Rightarrow> 'k \<Rightarrow> int \<times> byte list \<times> 'k" where
  "ss_read sys_recv st len k =
     (if \<not> ss_isConnected st then (- 1, [], k) else sk_recv sys_recv len (the (ss_socket st)) k)"

definition ss_read_ba :: "(nat \<Rightarrow> 'k \<Rightarrow> int \<times> byte list \<times> 'k) \<Rightarrow> 'a socket_stream \<Rightarrow> bytearray \<Rightarrow> nat \<Rightarrow> 'k
    \<Rightarrow> (int \<times> bytearray \<times> 'k) result" where
  "ss_read_ba sys_recv st ba len k =
     (if \<not> ss_isConnected st then Inr (- 1, ba, k)
      else rbind (getWriteBuffers ba len) (\<lambda>(_, iovs, ba).
        let (rt, nodes, k) = sk_recv_iov sys_recv (m_nodes ba) iovs (the (ss_socket st)) k;
            ba = ba\<lparr>m_nodes := nodes\<rparr>
        in if rt > 0 then rbind (setPosition ba (m_position ba + nat rt)) (\<lambda>ba. Inr (rt, ba, k))
           else Inr (rt, ba, k)))"

definition ss_write :: "(byte list \<Rightarrow> 'k \<Rightarrow> int \<times> 'k) \<Rightarrow> 'a socket_stream \<Rightarrow> byte list \<Rightarrow> 'k \<Rightarrow> int \<times> 'k" where
  "ss_write sys_send st buffer k =
     (if \<not> ss_isConnected st then (- 1, k) else sk_send sys_send buffer (the (ss_socket st)) k)"

definition ss_write_ba :: "(byte list \<Rightarrow> 'k \<Rightarrow> int \<times> 'k) \<Rightarrow> 'a socket_stream \<Rightarrow> bytearray \<Rightarrow> nat \<Rightarrow> 'k
    \<Rightarrow> (int \<times> bytearray \<times> 'k) result" where
  "ss_write_ba sys_send st ba len k =
     (if \<not> ss_isConnected st then Inr (- 1, ba, k)
      else rbind (getReadBuffers ba len) (\<lambda>(_, iovs).
        let (rt, k) = sk_send_iov sys_send (m_nodes ba) iovs (the (ss_socket st)) k in
        if rt > 0 then rbind (setPosition ba (m_position ba + nat rt)) (\<lambda>ba. Inr (rt, ba, k))
        else Inr (rt, ba, k)))"

definition ss_close :: "'a sys_results \<Rightarrow> 'a socket_stream \<Rightarrow> 'c iomanager option \<Rightarrow> process
    \<Rightarrow> ('a socket_stream \<times> 'c iomanager option \<times> process) result" where
  "ss_close sys st iom p =
     (case ss_socket st of
        None \<Rightarrow> Inr (st, iom, p)
      | Some sk \<Rightarrow> rbind (sk_close sys sk iom p) (\<lambda>(_, sk, iom, p). Inr (st\<lparr>ss_socket := Some sk\<rparr>, iom, p)))"

text \<open>The destructor closes a socket that the stream owns.\<close>

definition ss_destroy :: "'a sys_results \<Rightarrow> 'a socket_stream \<Rightarrow> 'c iomanager option \<Rightarrow> process
    \<Rightarrow> ('a socket_stream \<times> 'c iomanager option \<times> process) result" where
  "ss_destroy sys st iom p = (if ss_owner st \<and> ss_socket st \<noteq> None then ss_close sys st iom p else Inr (st, iom, p))"

text \<open>\<open>None\<close> is the null pointer, \<open>Some None\<close> an \<^verbatim>\<open>UnknownAddress\<close>.\<close>

definition ss_getRemoteAddress :: "'a sys_results \<Rightarrow> 'a socket_stream \<Rightarrow> 'a option option \<times> 'a socket_stream" where
  "ss_getRemoteAddress sys st =
     (case ss_socket st of
        None \<Rightarrow> (None, st)
      | Some sk \<Rightarrow> let (a, sk) = getRemoteAddress sys sk in (Some a, st\<lparr>ss_socket := Some sk\<rparr>))"

definition ss_getLocalAddress :: "'a sys_results \<Rightarrow> 'a socket_stream \<Rightarrow> 'a option option \<times> 'a socket_stream" where
  "ss_getLocalAddress sys st =
     (case ss_socket st of
        None \<Rightarrow> (None, st)
      | Some sk \<Rightarrow> let (a, sk) = getLocalAddress sys sk in (Some a, st\<lparr>ss_socket := Some sk\<rparr>))"

definition ss_getRemoteAddressString :: "('a option \<Rightarrow> string) \<Rightarrow> 'a sys_results \<Rightarrow> 'a socket_stream \<Rightarrow> string" where
  "ss_getRemoteAddressString addr_str sys st =
     (case fst (ss_getRemoteAddress sys st) of Some a \<Rightarrow> addr_str a | None \<Rightarrow> '''')"

definition ss_getLocalAddressString :: "('a option \<Rightarrow> string) \<Rightarrow> 'a sys_results \<Rightarrow> 'a socket_stream \<Rightarrow> string" where
  "ss_getLocalAddressString addr_str sys st =
     (case fst (ss_getLocalAddress sys st) of Some a \<Rightarrow> addr_str a | None \<Rightarrow> '''')"

subsection \<open>What the loops need of a stream\<close>

locale byte_reader =
  fixes rd :: "nat \<Rightarrow> 'k \<Rightarrow> int \<times> byte list \<times> 'k"
    and incoming :: "'k \<Rightarrow> byte list"
  assumes rd_some: "rd n k = (r, bs, k') \<Longrightarrow> n < 2 ^ 31 \<Longrightarrow> 0 < r \<Longrightarrow>
      nat r = length bs \<and> length bs \<le> n \<and> incoming k = bs @ incoming k'"
    and rd_none: "rd n k = (r, bs, k') \<Longrightarrow> n < 2 ^ 31 \<Longrightarrow> r \<le> 0 \<Longrightarrow> - 1 \<le> r \<and> bs = [] \<and> incoming k' = incoming k"
begin

lemma readFix_loop_ok:
  assumes "readFix_loop rd len buffer offset (int left) k = (r, buffer', k')" "left < 2 ^ 31"
    "offset + left \<le> length buffer"
  shows "\<exists>bs. incoming k = bs @ incoming k' \<and> buffer' = overwrite buffer offset bs \<and>
     (length bs = left \<and> r = to_int32 (int len) \<or> length bs < left \<and> - 1 \<le> r \<and> r \<le> 0)"
  using assms
proof (induction left arbitrary: buffer offset k rule: less_induct)
  case (less left)
  obtain n bs k1 where rd: "rd left k = (n, bs, k1)" by (metis prod_cases3)
  have n: "to_int32 n = n" if "n \<le> 0"
    using rd_none[OF rd less.prems(2) that] that by (intro to_int32_id) auto
  consider "left = 0" | "0 < left" "n \<le> 0" | "0 < left" "0 < n" by linarith
  then show ?case
  proof cases
    case 1
    then show ?thesis using less.prems(1) by (simp add: readFix_loop.simps)
  next
    case 2
    then show ?thesis using less.prems(1) rd rd_none[OF rd less.prems(2) 2(2)] n
      by (subst (asm) readFix_loop.simps) auto
  next
    case 3
    note R = rd_some[OF rd less.prems(2) 3(2)]
    then have l: "int left - n = int (left - length bs)" "left - length bs < left" "nat n = length bs"
      using 3 by auto
    have "readFix_loop rd len (overwrite buffer offset bs) (offset + length bs) (int (left - length bs)) k1 = (r, buffer', k')"
      using less.prems(1) 3 rd l by (subst (asm) readFix_loop.simps) simp
    moreover have "left - length bs < 2 ^ 31" "offset + length bs + (left - length bs) \<le> length (overwrite buffer offset bs)"
      using R less.prems(2,3) by simp_all
    ultimately obtain cs where cs: "incoming k1 = cs @ incoming k'"
      "buffer' = overwrite (overwrite buffer offset bs) (offset + length bs) cs"
      "length cs = left - length bs \<and> r = to_int32 (int len) \<or> length cs < left - length bs \<and> - 1 \<le> r \<and> r \<le> 0"
      using less.IH[OF l(2)] by blast
    have "overwrite (overwrite buffer offset bs) (offset + length bs) cs = overwrite buffer offset (bs @ cs)"
      using cs(3) R less.prems(3) by (intro overwrite_overwrite) auto
    then show ?thesis using cs R by (intro exI[of _ "bs @ cs"]) auto
  qed
qed

end

locale byte_writer =
  fixes wr :: "byte list \<Rightarrow> 'k \<Rightarrow> int \<times> 'k"
    and sent :: "'k \<Rightarrow> byte list"
  assumes wr_some: "wr bs k = (n, k') \<Longrightarrow> length bs < 2 ^ 31 \<Longrightarrow> 0 < n \<Longrightarrow>
      nat n \<le> length bs \<and> sent k' = sent k @ take (nat n) bs"
    and wr_none: "wr bs k = (n, k') \<Longrightarrow> length bs < 2 ^ 31 \<Longrightarrow> n \<le> 0 \<Longrightarrow> - 1 \<le> n \<and> sent k' = sent k"
begin

lemma writeFix_loop_ok:
  assumes "writeFix_loop wr len buffer offset (int left) k = (r, k')" "left < 2 ^ 31" "offset + left \<le> length buffer"
  shows "\<exists>m. sent k' = sent k @ take m (drop offset buffer) \<and>
     (m = left \<and> r = to_int32 (int len) \<or> m < left \<and> - 1 \<le> r \<and> r \<le> 0)"
  using assms
proof (induction left arbitrary: offset k rule: less_induct)
  case (less left)
  define bs where "bs = take left (drop offset buffer)"
  have bs: "length bs = left" "length bs < 2 ^ 31" using less.prems(2,3) by (simp_all add: bs_def)
  obtain n k1 where wr: "wr bs k = (n, k1)" by fastforce
  have n: "to_int32 n = n" if "n \<le> 0"
    using wr_none[OF wr bs(2) that] that by (intro to_int32_id) auto
  consider "left = 0" | "0 < left" "n \<le> 0" | "0 < left" "0 < n" by linarith
  then show ?case
  proof cases
    case 1
    then show ?thesis using less.prems(1) by (simp add: writeFix_loop.simps)
  next
    case 2
    then show ?thesis using less.prems(1) wr wr_none[OF wr bs(2) 2(2)] n
      by (subst (asm) writeFix_loop.simps) (auto simp: bs_def)
  next
    case 3
    note R = wr_some[OF wr bs(2) 3(2)]
    then have l: "int left - n = int (left - nat n)" "left - nat n < left" using 3 bs by auto
    have "writeFix_loop wr len buffer offset (int left) k = writeFix_loop wr len buffer (offset + nat n) (int left - n) k1"
      using 3 wr by (subst writeFix_loop.simps) (simp add: bs_def)
    then have "writeFix_loop wr len buffer (offset + nat n) (int (left - nat n)) k1 = (r, k')"
      using less.prems(1) unfolding l(1) by simp
    moreover have "left - nat n < 2 ^ 31" "offset + nat n + (left - nat n) \<le> length buffer"
      using R bs less.prems(2,3) by simp_all
    ultimately obtain m where m: "sent k' = sent k1 @ take m (drop (offset + nat n) buffer)"
      "m = left - nat n \<and> r = to_int32 (int len) \<or> m < left - nat n \<and> - 1 \<le> r \<and> r \<le> 0"
      using less.IH[OF l(2)] by blast
    have "take (nat n) bs @ take m (drop (offset + nat n) buffer) = take (nat n + m) (drop offset buffer)"
      using R bs by (simp add: bs_def take_add add.commute[of _ offset])
    then show ?thesis using m R bs by (intro exI[of _ "nat n + m"]) auto
  qed
qed

end

text \<open>The same contracts for transfers into and out of a byte array.\<close>

locale array_reader =
  fixes rd :: "bytearray \<Rightarrow> nat \<Rightarrow> 'k \<Rightarrow> (int \<times> bytearray \<times> 'k) result"
    and incoming :: "'k \<Rightarrow> byte list"
  assumes rd_array: "ba_ok ba \<Longrightarrow> cap_ok ba n \<Longrightarrow> n < 2 ^ 31 \<Longrightarrow>
      \<exists>r bs ba' k'. rd ba n k = Inr (r, ba', k') \<and> incoming k = bs @ incoming k' \<and> wrote ba bs ba' \<and>
        m_position ba + n \<le> m_capacity ba' \<and> length bs \<le> n \<and> (0 < r \<and> nat r = length bs \<or> - 1 \<le> r \<and> r \<le> 0 \<and> bs = [])"
begin

lemma array_read_ok:
  assumes "ba_ok ba" "cap_ok ba left" "left < 2 ^ 31"
  shows "\<exists>r bs ba' k'. fix_loop_ba rd len ba (int left) k = Inr (r, ba', k') \<and> incoming k = bs @ incoming k' \<and>
     wrote ba bs ba' \<and> (length bs = left \<and> r = to_int32 (int len) \<or> length bs < left \<and> - 1 \<le> r \<and> r \<le> 0)"
  using assms
proof (induction left arbitrary: ba k rule: less_induct)
  case (less left)
  obtain n bs ba1 k1 where rd: "rd ba left k = Inr (n, ba1, k1)" "incoming k = bs @ incoming k1" "wrote ba bs ba1"
    "m_position ba + left \<le> m_capacity ba1" "length bs \<le> left"
    "0 < n \<and> nat n = length bs \<or> - 1 \<le> n \<and> n \<le> 0 \<and> bs = []"
    using rd_array[OF less.prems, of k] by blast
  consider "left = 0" | "0 < left" "- 1 \<le> n" "n \<le> 0" "bs = []" | "0 < left" "0 < n" "nat n = length bs"
    using rd(6) by linarith
  then show ?case
  proof cases
    case 1
    then show ?thesis using less.prems(1) ba_okD(5)[OF less.prems(1)] by (simp add: fix_loop_ba.simps wrote_def)
  next
    case 2
    then have "fix_loop_ba rd len ba (int left) k = Inr (n, ba1, k1)"
      using rd(1) by (subst fix_loop_ba.simps) (simp add: to_int32_id)
    then show ?thesis using rd(2,3) 2 by auto
  next
    case 3
    note W = wroteD[OF rd(3)]
    have l: "int left - n = int (left - length bs)" "left - length bs < left" using 3 rd(5) by auto
    have "cap_ok ba1 (left - length bs)" using rd(4,5) W(2) by (simp add: cap_ok_def Let_def)
    moreover have "left - length bs < 2 ^ 31" using less.prems(3) by simp
    ultimately obtain r cs ba2 k2 where IH: "fix_loop_ba rd len ba1 (int (left - length bs)) k1 = Inr (r, ba2, k2)"
      "incoming k1 = cs @ incoming k2" "wrote ba1 cs ba2"
      "length cs = left - length bs \<and> r = to_int32 (int len) \<or> length cs < left - length bs \<and> - 1 \<le> r \<and> r \<le> 0"
      using less.IH[OF l(2) W(1), of k1] by blast
    have "fix_loop_ba rd len ba (int left) k = Inr (r, ba2, k2)"
      using 3 rd(1) IH(1) l(1) by (subst fix_loop_ba.simps) simp
    moreover have "wrote ba (bs @ cs) ba2" using wrote_trans[OF less.prems(1) rd(3) IH(3)] .
    ultimately show ?thesis using IH(2,4) rd(2,5) by (intro exI[of _ r] exI[of _ "bs @ cs"]) auto
  qed
qed

end

definition consumed :: "bytearray \<Rightarrow> nat \<Rightarrow> bytearray \<Rightarrow> bool" where
  "consumed ba m ba' \<longleftrightarrow> ba_ok ba' \<and> content ba' = content ba \<and> m_position ba' = m_position ba + m \<and>
     readable ba' = drop m (readable ba)"

locale array_writer =
  fixes wr :: "bytearray \<Rightarrow> nat \<Rightarrow> 'k \<Rightarrow> (int \<times> bytearray \<times> 'k) result"
    and sent :: "'k \<Rightarrow> byte list"
  assumes wr_array: "ba_ok ba \<Longrightarrow> n < 2 ^ 31 \<Longrightarrow>
      \<exists>r m ba' k'. wr ba n k = Inr (r, ba', k') \<and> sent k' = sent k @ take m (readable ba) \<and> consumed ba m ba' \<and>
        m \<le> n \<and> m \<le> length (readable ba) \<and> (0 < r \<and> nat r = m \<or> - 1 \<le> r \<and> r \<le> 0 \<and> m = 0)"
begin

lemma array_write_ok:
  assumes "ba_ok ba" "left < 2 ^ 31"
  shows "\<exists>r m ba' k'. fix_loop_ba wr len ba (int left) k = Inr (r, ba', k') \<and> sent k' = sent k @ take m (readable ba) \<and>
     consumed ba m ba' \<and> m \<le> length (readable ba) \<and>
     (m = left \<and> r = to_int32 (int len) \<or> m < left \<and> - 1 \<le> r \<and> r \<le> 0)"
  using assms
proof (induction left arbitrary: ba k rule: less_induct)
  case (less left)
  obtain n m ba1 k1 where wr: "wr ba left k = Inr (n, ba1, k1)" "sent k1 = sent k @ take m (readable ba)" "consumed ba m ba1"
    "m \<le> left" "m \<le> length (readable ba)" "0 < n \<and> nat n = m \<or> - 1 \<le> n \<and> n \<le> 0 \<and> m = 0"
    using wr_array[OF less.prems, of k] by blast
  consider "left = 0" | "0 < left" "- 1 \<le> n" "n \<le> 0" "m = 0" | "0 < left" "0 < n" "nat n = m"
    using wr(6) by linarith
  then show ?case
  proof cases
    case 1
    then show ?thesis using less.prems(1) by (simp add: fix_loop_ba.simps consumed_def)
  next
    case 2
    then have "fix_loop_ba wr len ba (int left) k = Inr (n, ba1, k1)"
      using wr(1) by (subst fix_loop_ba.simps) (simp add: to_int32_id)
    then show ?thesis using wr(2,3) 2 by auto
  next
    case 3
    have l: "int left - n = int (left - m)" "left - m < left" using 3 wr(4) by auto
    have "left - m < 2 ^ 31" "ba_ok ba1" using less.prems(2) wr(3) by (simp_all add: consumed_def)
    then obtain r j ba2 k2 where IH: "fix_loop_ba wr len ba1 (int (left - m)) k1 = Inr (r, ba2, k2)"
      "sent k2 = sent k1 @ take j (readable ba1)" "consumed ba1 j ba2" "j \<le> length (readable ba1)"
      "j = left - m \<and> r = to_int32 (int len) \<or> j < left - m \<and> - 1 \<le> r \<and> r \<le> 0"
      using less.IH[OF l(2), of ba1 k1] by blast
    have "fix_loop_ba wr len ba (int left) k = Inr (r, ba2, k2)"
      using 3 wr(1) IH(1) l(1) by (subst fix_loop_ba.simps) simp
    moreover have "sent k2 = sent k @ take (m + j) (readable ba)" "consumed ba (m + j) ba2" "m + j \<le> length (readable ba)"
      using wr(2,3,5) IH(2,3,4) by (auto simp: consumed_def take_add add.commute[of j])
    ultimately show ?thesis using IH(5) wr(4) by (intro exI[of _ r] exI[of _ "m + j"]) auto
  qed
qed

end

subsection \<open>A connected socket as a stream\<close>

text \<open>
  The documented behaviour of \<^verbatim>\<open>recv\<close> and \<^verbatim>\<open>recvmsg\<close> on a stream socket: a positive result is the number of
  bytes delivered, at most as many as there is room for and the next ones of the connection;
  otherwise the connection is at its end (0) or the call failed (\<open>- 1\<close>) and nothing is consumed.
\<close>

locale kernel_recv =
  fixes sys_recv :: "nat \<Rightarrow> 'k \<Rightarrow> int \<times> byte list \<times> 'k"
    and incoming :: "'k \<Rightarrow> byte list"
  assumes recv_some: "sys_recv n k = (r, bs, k') \<Longrightarrow> 0 < r \<Longrightarrow>
      nat r = length bs \<and> length bs \<le> n \<and> incoming k = bs @ incoming k'"
    and recv_none: "sys_recv n k = (r, bs, k') \<Longrightarrow> r \<le> 0 \<Longrightarrow> - 1 \<le> r \<and> bs = [] \<and> incoming k' = incoming k"

locale kernel_send =
  fixes sys_send :: "byte list \<Rightarrow> 'k \<Rightarrow> int \<times> 'k"
    and sent :: "'k \<Rightarrow> byte list"
  assumes send_some: "sys_send bs k = (n, k') \<Longrightarrow> 0 < n \<Longrightarrow> nat n \<le> length bs \<and> sent k' = sent k @ take (nat n) bs"
    and send_none: "sys_send bs k = (n, k') \<Longrightarrow> n \<le> 0 \<Longrightarrow> - 1 \<le> n \<and> sent k' = sent k"

lemma connected_socket: "ss_isConnected st \<Longrightarrow> \<exists>sk. ss_socket st = Some sk \<and> sk_isConnected sk"
  by (auto simp: ss_isConnected_def split: option.splits)

lemma setPosition_consumed:
  assumes ok: "ba_ok ba" and m: "m \<le> length (readable ba)"
  shows "\<exists>ba'. setPosition ba (m_position ba + m) = Inr ba' \<and> consumed ba m ba'"
proof -
  have *: "m_position ba + m \<le> m_size ba" using m length_readable[OF ok] getReadSize_ok[OF ok] ba_okD(5)[OF ok] by simp
  obtain ba' where s: "setPosition ba (m_position ba + m) = Inr ba'" "ba_ok ba'" "m_position ba' = m_position ba + m"
    "m_size ba' = max (m_size ba) (m_position ba + m)" "flat ba' = flat ba"
    using setPosition_ok[OF ok, of "m_position ba + m"] * ba_okD(6)[OF ok] by auto
  then have "content ba' = content ba" using * by (simp add: content_def)
  then show ?thesis using s ok by (simp add: consumed_def readable_content add.commute)
qed

locale stream_recv = kernel_recv sys_recv incoming
  for sys_recv :: "nat \<Rightarrow> 'k \<Rightarrow> int \<times> byte list \<times> 'k" and incoming +
  fixes st :: "'a socket_stream"
  assumes connected: "ss_isConnected st"
begin

lemma ss_read_recv: "ss_read sys_recv st n k = map_prod to_int32 id (sys_recv n k)"
  using connected_socket[OF connected] connected by (auto simp: ss_read_def sk_recv_def)

lemma ss_read_ba_ok:
  assumes ok: "ba_ok ba" "cap_ok ba n" "n < 2 ^ 31"
  shows "\<exists>r bs ba' k'. ss_read_ba sys_recv st ba n k = Inr (r, ba', k') \<and> incoming k = bs @ incoming k' \<and> wrote ba bs ba' \<and>
     m_position ba + n \<le> m_capacity ba' \<and> length bs \<le> n \<and> (0 < r \<and> nat r = length bs \<or> - 1 \<le> r \<and> r \<le> 0 \<and> bs = [])"
proof -
  obtain sk where sk: "ss_socket st = Some sk" "sk_isConnected sk" using connected_socket[OF connected] by blast
  obtain iovs ba1 where g: "getWriteBuffers ba n = Inr (n, iovs, ba1)" "ba_ok ba1" "m_position ba1 = m_position ba"
    "m_position ba + n \<le> m_capacity ba1" "content ba1 = content ba" "m_size ba1 = m_size ba" "m_endian ba1 = m_endian ba"
    "m_baseSize ba1 = m_baseSize ba" "iov_total iovs = n"
    and sc: "length bs \<le> n \<Longrightarrow> ba_ok (ba1\<lparr>m_nodes := scatter (m_nodes ba1) iovs bs\<rparr>) \<and>
       flat (ba1\<lparr>m_nodes := scatter (m_nodes ba1) iovs bs\<rparr>) = overwrite (flat ba1) (m_position ba) bs" for bs
    using getWriteBuffers_ok[OF ok(1,2)] by (auto simp: Let_def)
  obtain r bs k1 where rc: "sys_recv n k = (r, bs, k1)" by (metis prod_cases3)
  show ?thesis
  proof (cases "r \<le> 0")
    case True
    note N = recv_none[OF rc True]
    have "ss_read_ba sys_recv st ba n k = Inr (r, ba1, k1)"
      using connected sk g(1,9) rc True N by (simp add: ss_read_ba_def sk_recv_iov_def to_int32_id)
    moreover have "wrote ba [] ba1" using g ba_okD(5)[OF ok(1)] by (simp add: wrote_def)
    ultimately show ?thesis using N True g(4) by fastforce
  next
    case False
    define ba2 where "ba2 = ba1\<lparr>m_nodes := scatter (m_nodes ba1) iovs bs\<rparr>"
    have bs: "nat r = length bs" "length bs \<le> n" "incoming k = bs @ incoming k1" "to_int32 r = r"
      using recv_some[OF rc] False ok(3) by (auto intro!: to_int32_id)
    have b2: "ba_ok ba2" "flat ba2 = overwrite (flat ba1) (m_position ba) bs" "m_position ba2 = m_position ba"
      "m_size ba2 = m_size ba" "m_capacity ba2 = m_capacity ba1" "m_endian ba2 = m_endian ba" "m_baseSize ba2 = m_baseSize ba"
      using sc[OF bs(2)] g by (simp_all add: ba2_def)
    obtain ba3 where s: "setPosition ba2 (m_position ba + length bs) = Inr ba3" "ba_ok ba3"
      "m_position ba3 = m_position ba + length bs" "m_size ba3 = max (m_size ba) (m_position ba + length bs)"
      "flat ba3 = flat ba2" "m_endian ba3 = m_endian ba" "m_baseSize ba3 = m_baseSize ba" "m_capacity ba3 = m_capacity ba1"
      using setPosition_ok[OF b2(1), of "m_position ba + length bs"] b2 g(4) bs(2) by auto
    have "ss_read_ba sys_recv st ba n k = Inr (r, ba3, k1)"
      using connected sk g(1,9) rc False bs s(1) b2(3)
      by (simp add: ss_read_ba_def sk_recv_iov_def ba2_def)
    moreover have "content ba3 = overwrite (content ba) (m_position ba) bs"
      using s(4,5) b2(2) g(5,6) ba_okD(5,6)[OF g(2)] g(2,3)
        take_max_overwrite[of "m_position ba" "m_size ba" "flat ba1" bs "[]"]
      by (simp add: content_def)
    ultimately show ?thesis using s bs False g(4) by (intro exI[of _ r] exI[of _ bs]) (auto simp: wrote_def)
  qed
qed

end

sublocale stream_recv \<subseteq> reader: byte_reader "ss_read sys_recv st" incoming
proof
  fix n k r bs k'
  assume *: "ss_read sys_recv st n k = (r, bs, k')" "n < (2 :: nat) ^ 31"
  obtain r0 where r0: "sys_recv n k = (r0, bs, k')" "r = to_int32 r0"
    using *(1) by (cases "sys_recv n k") (auto simp: ss_read_recv)
  have r: "r = r0"
    using r0 recv_some[OF r0(1)] recv_none[OF r0(1)] *(2) by (cases "0 < r0") (auto intro!: to_int32_id)
  show "nat r = length bs \<and> length bs \<le> n \<and> incoming k = bs @ incoming k'" if "0 < r"
    using recv_some[OF r0(1)] that r by simp
  show "- 1 \<le> r \<and> bs = [] \<and> incoming k' = incoming k" if "r \<le> 0"
    using recv_none[OF r0(1)] that r by simp
qed

sublocale stream_recv \<subseteq> areader: array_reader "ss_read_ba sys_recv st" incoming
  by unfold_locales (rule ss_read_ba_ok)

context stream_recv
begin

lemma fixed_read_buffer:
  assumes "len < 2 ^ 31" "len \<le> length buffer"
  shows "\<exists>r buffer' k' bs. readFixSize (ss_read sys_recv st) buffer len k = (r, buffer', k') \<and>
     incoming k = bs @ incoming k' \<and> buffer' = overwrite buffer 0 bs \<and>
     (length bs = len \<and> r = int len \<or> length bs < len \<and> - 1 \<le> r \<and> r \<le> 0)"
proof -
  obtain r buffer' k' where e: "readFix_loop (ss_read sys_recv st) len buffer 0 (int len) k = (r, buffer', k')"
    by (metis prod_cases3)
  show ?thesis using reader.readFix_loop_ok[OF e] assms e
    by (auto simp: readFixSize_def to_int64_small to_int32_id)
qed

lemma fixed_read_array:
  assumes "len < 2 ^ 31" "ba_ok ba" "cap_ok ba len"
  shows "\<exists>r ba' k' bs. readFixSize_ba (ss_read_ba sys_recv st) ba len k = Inr (r, ba', k') \<and>
     incoming k = bs @ incoming k' \<and> wrote ba bs ba' \<and>
     (length bs = len \<and> r = int len \<or> length bs < len \<and> - 1 \<le> r \<and> r \<le> 0)"
  using areader.array_read_ok[OF assms(2,3,1), of len k] assms(1)
  by (auto simp: readFixSize_ba_def to_int64_small to_int32_id)

end

locale stream_send = kernel_send sys_send sent
  for sys_send :: "byte list \<Rightarrow> 'k \<Rightarrow> int \<times> 'k" and sent +
  fixes st :: "'a socket_stream"
  assumes connected: "ss_isConnected st"
begin

lemma ss_write_send: "ss_write sys_send st bs k = map_prod to_int32 id (sys_send bs k)"
  using connected_socket[OF connected] connected by (auto simp: ss_write_def sk_send_def)

lemma ss_write_ba_ok:
  assumes ok: "ba_ok ba" "n < 2 ^ 31"
  shows "\<exists>r m ba' k'. ss_write_ba sys_send st ba n k = Inr (r, ba', k') \<and> sent k' = sent k @ take m (readable ba) \<and>
     consumed ba m ba' \<and> m \<le> n \<and> m \<le> length (readable ba) \<and> (0 < r \<and> nat r = m \<or> - 1 \<le> r \<and> r \<le> 0 \<and> m = 0)"
proof -
  obtain sk where sk: "ss_socket st = Some sk" "sk_isConnected sk" using connected_socket[OF connected] by blast
  obtain iovs where g: "getReadBuffers ba n = Inr (min n (getReadSize ba), iovs)"
    "gather (m_nodes ba) iovs = take n (readable ba)"
    using getReadBuffers_ok[OF ok(1)] by blast
  obtain r k1 where sd: "sys_send (take n (readable ba)) k = (r, k1)" by fastforce
  show ?thesis
  proof (cases "r \<le> 0")
    case True
    note N = send_none[OF sd True]
    have "ss_write_ba sys_send st ba n k = Inr (r, ba, k1)"
      using connected sk g sd True N by (simp add: ss_write_ba_def sk_send_iov_def to_int32_id)
    moreover have "consumed ba 0 ba" using ok by (simp add: consumed_def)
    ultimately show ?thesis using N True by fastforce
  next
    case False
    then have R: "nat r \<le> n" "nat r \<le> length (readable ba)" "sent k1 = sent k @ take (nat r) (readable ba)" "to_int32 r = r"
      using send_some[OF sd] ok(2) by (auto simp: min_absorb1 intro!: to_int32_id)
    obtain ba' where s: "setPosition ba (m_position ba + nat r) = Inr ba'" "consumed ba (nat r) ba'"
      using setPosition_consumed[OF ok(1) R(2)] by blast
    have "ss_write_ba sys_send st ba n k = Inr (r, ba', k1)"
      using connected sk g sd False R(4) s(1) by (simp add: ss_write_ba_def sk_send_iov_def)
    then show ?thesis using R s(2) False by (intro exI[of _ r] exI[of _ "nat r"]) auto
  qed
qed

end

sublocale stream_send \<subseteq> writer: byte_writer "ss_write sys_send st" sent
proof
  fix bs k n k'
  assume *: "ss_write sys_send st bs k = (n, k')" "length bs < (2 :: nat) ^ 31"
  obtain n0 where n0: "sys_send bs k = (n0, k')" "n = to_int32 n0"
    using *(1) by (cases "sys_send bs k") (auto simp: ss_write_send)
  have n: "n = n0"
    using n0 send_some[OF n0(1)] send_none[OF n0(1)] *(2) by (cases "0 < n0") (auto intro!: to_int32_id)
  show "nat n \<le> length bs \<and> sent k' = sent k @ take (nat n) bs" if "0 < n"
    using send_some[OF n0(1)] that n by simp
  show "- 1 \<le> n \<and> sent k' = sent k" if "n \<le> 0"
    using send_none[OF n0(1)] that n by simp
qed

sublocale stream_send \<subseteq> awriter: array_writer "ss_write_ba sys_send st" sent
  by unfold_locales (rule ss_write_ba_ok)

context stream_send
begin

lemma fixed_write_buffer:
  assumes "len < 2 ^ 31" "len \<le> length buffer"
  shows "\<exists>r k' m. writeFixSize (ss_write sys_send st) buffer len k = (r, k') \<and> sent k' = sent k @ take m buffer \<and>
     (m = len \<and> r = int len \<or> m < len \<and> - 1 \<le> r \<and> r \<le> 0)"
proof -
  obtain r k' where e: "writeFix_loop (ss_write sys_send st) len buffer 0 (int len) k = (r, k')" by fastforce
  show ?thesis using writer.writeFix_loop_ok[OF e] assms e
    by (auto simp: writeFixSize_def to_int64_small to_int32_id)
qed

lemma fixed_write_array:
  assumes "len < 2 ^ 31" "ba_ok ba"
  shows "\<exists>r ba' k' m. writeFixSize_ba (ss_write_ba sys_send st) ba len k = Inr (r, ba', k') \<and>
     sent k' = sent k @ take m (readable ba) \<and> consumed ba m ba' \<and>
     (m = len \<and> r = int len \<or> m < len \<and> - 1 \<le> r \<and> r \<le> 0)"
  using awriter.array_write_ok[OF assms(2,1), of len k] assms(1)
  by (auto simp: writeFixSize_ba_def to_int64_small to_int32_id)

end

text \<open>
  A connection as two queues, on which every call moves at most \<open>mtu\<close> bytes, with the stream on the
  accepted socket: the contracts hold of it.
\<close>

record wire =
  w_mtu :: nat
  w_in :: "byte list"
  w_out :: "byte list"

definition wire_recv :: "nat \<Rightarrow> wire \<Rightarrow> int \<times> byte list \<times> wire" where
  "wire_recv n w = (let m = min (min n (w_mtu w)) (length (w_in w)) in (int m, take m (w_in w), w\<lparr>w_in := drop m (w_in w)\<rparr>))"

definition wire_send :: "byte list \<Rightarrow> wire \<Rightarrow> int \<times> wire" where
  "wire_send bs w = (let m = min (w_mtu w) (length bs) in (int m, w\<lparr>w_out := w_out w @ take m bs\<rparr>))"

definition accepted_stream :: "unit socket_stream" where
  "accepted_stream = mk_SocketStream (Some accepted) True"

lemma accepted_stream_connected: "ss_isConnected accepted_stream"
  by (simp add: accepted_stream_def ss_isConnected_def mk_SocketStream_def accepted_def)

interpretation wire_in: stream_recv wire_recv w_in accepted_stream
proof
  show "nat r = length bs \<and> length bs \<le> n \<and> w_in k = bs @ w_in k'" if "wire_recv n k = (r, bs, k')" for n k r bs k'
    using that by (auto simp: wire_recv_def Let_def)
  show "- 1 \<le> r \<and> bs = [] \<and> w_in k' = w_in k" if "wire_recv n k = (r, bs, k')" "r \<le> 0" for n k r bs k'
    using that by (auto simp: wire_recv_def Let_def)
qed (rule accepted_stream_connected)

interpretation wire_out: stream_send wire_send w_out accepted_stream
proof
  show "nat n \<le> length bs \<and> w_out k' = w_out k @ take (nat n) bs" if "wire_send bs k = (n, k')" for bs k n k'
    using that by (auto simp: wire_send_def Let_def)
  show "- 1 \<le> n \<and> w_out k' = w_out k" if "wire_send bs k = (n, k')" "n \<le> 0" for bs k n k'
    using that by (auto simp: wire_send_def Let_def)
qed (rule accepted_stream_connected)

subsection \<open>Properties\<close>



text \<open>
  A fixed-size write on a connected socket always returns, and what has been sent is a prefix of
  the buffer, or of the unread bytes of the array, whose cursor has moved past exactly these bytes:
  all of the requested length if the result is that length, less if it is \<open>0\<close> or \<open>- 1\<close>.
\<close>

theorem fixed_write_exact:
  assumes "stream_send sys_send sent st" "len < 2 ^ 31" "len \<le> length buffer" "ba_ok ba"
  shows "(\<exists>r k' m. writeFixSize (ss_write sys_send st) buffer len k = (r, k') \<and> sent k' = sent k @ take m buffer \<and>
       (m = len \<and> r = int len \<or> m < len \<and> - 1 \<le> r \<and> r \<le> 0)) \<and>
     (\<exists>r ba' k' m. writeFixSize_ba (ss_write_ba sys_send st) ba len k = Inr (r, ba', k') \<and>
       sent k' = sent k @ take m (readable ba) \<and> consumed ba m ba' \<and>
       (m = len \<and> r = int len \<or> m < len \<and> - 1 \<le> r \<and> r \<le> 0))"
  using stream_send.fixed_write_buffer[OF assms(1-3)] stream_send.fixed_write_array[OF assms(1,2,4)] by blast

theorem fixed_write_exact_witness:
  "\<exists>r k' m. writeFixSize (ss_write wire_send accepted_stream) [7, 8, 9] 3 \<lparr>w_mtu = 2, w_in = [], w_out = []\<rparr> = (r, k') \<and>
     w_out k' = take m [7, 8, 9]"
proof -
  have "3 < (2 :: nat) ^ 31" "3 \<le> length [7 :: byte, 8, 9]" by simp_all
  from fixed_write_exact[OF wire_out.stream_send_axioms this ba8_ok, of "\<lparr>w_mtu = 2, w_in = [], w_out = []\<rparr>"]
  obtain r k' m where "writeFixSize (ss_write wire_send accepted_stream) [7, 8, 9] 3 \<lparr>w_mtu = 2, w_in = [], w_out = []\<rparr> = (r, k')"
    "w_out k' = take m [7, 8, 9]" by (metis append_Nil wire.select_convs(3))
  then show ?thesis by blast
qed

end
