(* ===== verification/Std_Map.thy ===== *)
theory Std_Map
  imports Captain_Prelude
begin

text \<open>
  \<^verbatim>\<open>std::map\<close> with a user-defined comparison: the entries in ascending order of their keys.  Keys of
  which neither is smaller are the same key of the map, even where they are different values (header
  names that differ in case only): \<open>map_set\<close>, which is \<^verbatim>\<open>m[key] = val\<close>, then keeps the key that is
  there and replaces its value.  The locale \<open>ordered_map\<close> asks of the comparison what the standard
  asks (a strict weak order) and proves what clients of a map use: ordering is kept, and a lookup
  after an update or an erasure depends on the key only up to equivalence.
\<close>

type_synonym ('k, 'v) amap = "('k \<times> 'v) list"

primrec map_find :: "('k \<Rightarrow> 'k \<Rightarrow> bool) \<Rightarrow> 'k \<Rightarrow> ('k, 'v) amap \<Rightarrow> 'v option" where
  "map_find lt k [] = None"
| "map_find lt k (e # m) = (if \<not> lt k (fst e) \<and> \<not> lt (fst e) k then Some (snd e) else map_find lt k m)"

primrec map_set :: "('k \<Rightarrow> 'k \<Rightarrow> bool) \<Rightarrow> 'k \<Rightarrow> 'v \<Rightarrow> ('k, 'v) amap \<Rightarrow> ('k, 'v) amap" where
  "map_set lt k v [] = [(k, v)]"
| "map_set lt k v (e # m) =
     (if lt (fst e) k then e # map_set lt k v m
      else if lt k (fst e) then (k, v) # e # m
      else (fst e, v) # m)"

definition map_erase :: "('k \<Rightarrow> 'k \<Rightarrow> bool) \<Rightarrow> 'k \<Rightarrow> ('k, 'v) amap \<Rightarrow> ('k, 'v) amap" where
  "map_erase lt k m = filter (\<lambda>e. lt k (fst e) \<or> lt (fst e) k) m"

locale ordered_map =
  fixes lt :: "'k \<Rightarrow> 'k \<Rightarrow> bool"
  assumes irrefl: "\<not> lt a a"
    and trans: "lt a b \<Longrightarrow> lt b c \<Longrightarrow> lt a c"
    and incomparable_trans: "\<not> lt a b \<Longrightarrow> \<not> lt b c \<Longrightarrow> \<not> lt a c"
begin

definition same :: "'k \<Rightarrow> 'k \<Rightarrow> bool" where
  "same a b \<longleftrightarrow> \<not> lt a b \<and> \<not> lt b a"

definition ordered :: "('k, 'v) amap \<Rightarrow> bool" where
  "ordered m \<longleftrightarrow> sorted_wrt lt (map fst m)"

lemma asym: "lt a b \<Longrightarrow> \<not> lt b a"
  using irrefl trans by blast

lemma same_trans: "same a b \<Longrightarrow> same b c \<Longrightarrow> same a c"
  unfolding same_def using incomparable_trans by blast

lemma find_simp: "map_find lt k (e # m) = (if same k (fst e) then Some (snd e) else map_find lt k m)"
  by (simp add: same_def)

lemma find_same: "same k k' \<Longrightarrow> map_find lt k m = map_find lt k' m"
  by (induction m) (auto simp: same_def dest: incomparable_trans)

lemma keys_set: "x \<in> set (map fst (map_set lt k v m)) \<Longrightarrow> x = k \<or> x \<in> set (map fst m)"
  by (induction m) (auto split: if_splits)

lemma ordered_set: "ordered m \<Longrightarrow> ordered (map_set lt k v m)"
proof (induction m)
  case (Cons e m)
  then have IH: "ordered (map_set lt k v m)" "\<forall>x \<in> set (map fst m). lt (fst e) x" by (auto simp: ordered_def)
  show ?case
  proof (cases "lt (fst e) k")
    case True
    then have "\<forall>x \<in> set (map fst (map_set lt k v m)). lt (fst e) x" using IH(2) keys_set[of _ k v m] by metis
    then show ?thesis using True IH(1) by (simp add: ordered_def)
  next
    case False
    then show ?thesis using Cons.prems by (auto simp: ordered_def intro: trans)
  qed
qed (simp add: ordered_def)

lemma ordered_erase: "ordered m \<Longrightarrow> ordered (map_erase lt k m)"
  unfolding ordered_def map_erase_def by (induction m) auto

lemma find_set: "map_find lt k (map_set lt k' v m) = (if same k k' then Some v else map_find lt k m)"
proof (induction m)
  case (Cons e m)
  consider "lt (fst e) k'" | "lt k' (fst e)" "\<not> lt (fst e) k'" | "same k' (fst e)" by (auto simp: same_def)
  then show ?case
  proof cases
    case 1
    then have "\<not> (same k (fst e) \<and> same k k')" by (metis same_def same_trans)
    then show ?thesis using 1 Cons by (auto simp: find_simp simp del: map_find.simps)
  next
    case 2
    then show ?thesis by (simp add: find_simp del: map_find.simps)
  next
    case 3
    then have "same k (fst e) \<longleftrightarrow> same k k'" by (metis same_def same_trans)
    then show ?thesis using 3 by (simp add: find_simp same_def del: map_find.simps)
  qed
qed (simp add: same_def)

lemma find_erase: "map_find lt k (map_erase lt k' m) = (if same k k' then None else map_find lt k m)"
proof (induction m)
  case (Cons e m)
  have "same k (fst e) \<Longrightarrow> same k' (fst e) \<longleftrightarrow> same k k'" by (metis same_def same_trans)
  then show ?case using Cons by (auto simp: map_erase_def find_simp same_def)
qed (simp add: map_erase_def)

text \<open>Setting the entries of an ordered map one after the other: its values win, the others stay.\<close>

lemma find_other: "ordered (e # m) \<Longrightarrow> same k (fst e) \<Longrightarrow> map_find lt k m = None"
proof (induction m)
  case (Cons d m)
  then have "lt (fst e) (fst d)" by (simp add: ordered_def)
  then have "\<not> same k (fst d)" using Cons.prems(2) incomparable_trans unfolding same_def by blast
  then show ?case using Cons by (auto simp: find_simp ordered_def simp del: map_find.simps(2))
qed simp

lemma find_fold_set:
  "ordered l \<Longrightarrow> map_find lt k (fold (\<lambda>(k, v). map_set lt k v) l m) =
     (case map_find lt k l of None \<Rightarrow> map_find lt k m | Some v \<Rightarrow> Some v)"
proof (induction l arbitrary: m)
  case (Cons e l)
  then have "ordered l" by (simp add: ordered_def)
  then show ?case
    using Cons.IH[of "map_set lt (fst e) (snd e) m"] find_other[OF Cons.prems]
    by (cases e) (auto simp: find_simp find_set simp del: map_find.simps(2) split: option.splits)
qed simp

lemma find_kept:
  assumes "\<And>a b. same a b \<Longrightarrow> P a = P b"
  shows "map_find lt k (filter (\<lambda>e. P (fst e)) m) = (if P k then map_find lt k m else None)"
  using assms by (induction m) (auto simp: find_simp simp del: map_find.simps(2))

lemma ordered_filter: "ordered m \<Longrightarrow> ordered (filter P m)"
  unfolding ordered_def by (induction m) auto

end

end
