(* ===== verification/Http.thy ===== *)
theory Http
  imports Std_Map
begin

text \<open>
  HTTP messages: \<^verbatim>\<open>captain/http/http.h\<close> and \<^verbatim>\<open>captain/http/http.cpp\<close>.  Methods and status codes are the
  numbers of their enumerations, with the tables that the macros expand to; header, parameter and
  cookie maps are \<^verbatim>\<open>std::map\<close>s ordered by \<open>CaseInsensitiveLess\<close>.  Strings are C++ strings; where the
  code passes them to C functions they end at the first NUL (\<open>c_str\<close>).  \<^verbatim>\<open>boost::lexical_cast\<close> is a
  parameter of \<open>checkGetAs\<close> and \<open>getAs\<close>.

  Proved: headers are looked up and replaced case-insensitively, and the comparison is the strict weak
  order that \<^verbatim>\<open>std::map\<close> needs; method names and numbers correspond; and a printed message can be cut
  into its lines and its body again, of which the announced length is the length.
\<close>

unbundle bit_operations_syntax

type_synonym http_method = nat
type_synonym http_status = nat

subsection \<open>Tables\<close>

definition method_table :: "string list" where
  "method_table = [
     ''DELETE'', ''GET'', ''HEAD'', ''POST'', ''PUT'', ''CONNECT'', ''OPTIONS'', ''TRACE'', ''COPY'', ''LOCK'',
     ''MKCOL'', ''MOVE'', ''PROPFIND'', ''PROPPATCH'', ''SEARCH'', ''UNLOCK'', ''BIND'', ''REBIND'',
     ''UNBIND'', ''ACL'', ''REPORT'', ''MKACTIVITY'', ''CHECKOUT'', ''MERGE'', ''M-SEARCH'', ''NOTIFY'',
     ''SUBSCRIBE'', ''UNSUBSCRIBE'', ''PATCH'', ''PURGE'', ''MKCALENDAR'', ''LINK'', ''UNLINK'', ''SOURCE'']"

definition INVALID_METHOD :: http_method where
  "INVALID_METHOD = 34"

definition status_table :: "(http_status \<times> string) list" where
  "status_table = [
     (100, ''Continue''), (101, ''Switching Protocols''), (102, ''Processing''), (200, ''OK''),
     (201, ''Created''), (202, ''Accepted''), (203, ''Non-Authoritative Information''), (204, ''No Content''),
     (205, ''Reset Content''), (206, ''Partial Content''), (207, ''Multi-Status''),
     (208, ''Already Reported''), (226, ''IM Used''), (300, ''Multiple Choices''),
     (301, ''Moved Permanently''), (302, ''Found''), (303, ''See Other''), (304, ''Not Modified''),
     (305, ''Use Proxy''), (307, ''Temporary Redirect''), (308, ''Permanent Redirect''),
     (400, ''Bad Request''), (401, ''Unauthorized''), (402, ''Payment Required''), (403, ''Forbidden''),
     (404, ''Not Found''), (405, ''Method Not Allowed''), (406, ''Not Acceptable''),
     (407, ''Proxy Authentication Required''), (408, ''Request Timeout''), (409, ''Conflict''),
     (410, ''Gone''), (411, ''Length Required''), (412, ''Precondition Failed''), (413, ''Payload Too Large''),
     (414, ''URI Too Long''), (415, ''Unsupported Media Type''), (416, ''Range Not Satisfiable''),
     (417, ''Expectation Failed''), (421, ''Misdirected Request''), (422, ''Unprocessable Entity''),
     (423, ''Locked''), (424, ''Failed Dependency''), (426, ''Upgrade Required''),
     (428, ''Precondition Required''), (429, ''Too Many Requests''),
     (431, ''Request Header Fields Too Large''), (451, ''Unavailable For Legal Reasons''),
     (500, ''Internal Server Error''), (501, ''Not Implemented''), (502, ''Bad Gateway''),
     (503, ''Service Unavailable''), (504, ''Gateway Timeout''), (505, ''HTTP Version Not Supported''),
     (506, ''Variant Also Negotiates''), (507, ''Insufficient Storage''), (508, ''Loop Detected''),
     (510, ''Not Extended''), (511, ''Network Authentication Required'')]"

text \<open>The chain of comparisons that the macro expands to.\<close>

primrec method_search :: "(string \<Rightarrow> bool) \<Rightarrow> nat \<Rightarrow> string list \<Rightarrow> http_method" where
  "method_search eq i [] = INVALID_METHOD"
| "method_search eq i (s # ss) = (if eq s then i else method_search eq (Suc i) ss)"

definition StringToHttpMethod :: "string \<Rightarrow> http_method" where
  "StringToHttpMethod m = method_search (\<lambda>s. s = c_str m) 0 method_table"

text \<open>\<^verbatim>\<open>strncmp\<close> with the length of the name: a comparison with the start of the input.\<close>

definition CharsToHttpMethod :: "string \<Rightarrow> http_method" where
  "CharsToHttpMethod m = method_search (\<lambda>s. take (length s) (c_str m) = s) 0 method_table"

definition HttpMethodToString :: "http_method \<Rightarrow> string" where
  "HttpMethodToString m = (if m \<ge> length method_table then ''<unknown>'' else method_table ! m)"

definition HttpStatusToString :: "http_status \<Rightarrow> string" where
  "HttpStatusToString s = (case map_of status_table s of Some msg \<Rightarrow> msg | None \<Rightarrow> ''<unknown>'')"

subsection \<open>Case-insensitive maps\<close>

definition lower :: "char \<Rightarrow> nat" where
  "lower c = (let n = of_char c in if 65 \<le> n \<and> n \<le> 90 then n + 32 else n)"

fun strcasecmp :: "string \<Rightarrow> string \<Rightarrow> int" where
  "strcasecmp [] [] = 0"
| "strcasecmp [] (d # t) = - 1"
| "strcasecmp (c # s) [] = 1"
| "strcasecmp (c # s) (d # t) =
     (if lower c = lower d then strcasecmp s t else if lower c < lower d then - 1 else 1)"

definition CaseInsensitiveLess :: "string \<Rightarrow> string \<Rightarrow> bool" where
  "CaseInsensitiveLess lhs rhs \<longleftrightarrow> strcasecmp (c_str lhs) (c_str rhs) < 0"

type_synonym header_map = "(string, string) amap"

definition casefold :: "string \<Rightarrow> nat list" where
  "casefold s = map lower (c_str s)"

lemma strcasecmp_lex: "strcasecmp s t < 0 \<longleftrightarrow> ord_class.lexordp (map lower s) (map lower t)"
  by (induction s t rule: strcasecmp.induct) auto

lemma CaseInsensitiveLess_lex: "CaseInsensitiveLess a b \<longleftrightarrow> ord_class.lexordp (casefold a) (casefold b)"
  by (simp add: CaseInsensitiveLess_def casefold_def strcasecmp_lex)

lemma strcasecmp_zero: "strcasecmp s t = 0 \<longleftrightarrow> map lower s = map lower t"
  by (induction s t rule: strcasecmp.induct) auto

interpretation hdr: ordered_map CaseInsensitiveLess
proof
  show "\<not> CaseInsensitiveLess a a" for a by (simp add: CaseInsensitiveLess_lex lexordp_irreflexive')
  show "CaseInsensitiveLess a c" if "CaseInsensitiveLess a b" "CaseInsensitiveLess b c" for a b c
    using that by (auto simp: CaseInsensitiveLess_lex intro: lexordp_trans)
  show "\<not> CaseInsensitiveLess a c" if "\<not> CaseInsensitiveLess a b" "\<not> CaseInsensitiveLess b c" for a b c
    using that lexordp_linear lexordp_trans unfolding CaseInsensitiveLess_lex by metis
qed

lemma same_casefold: "hdr.same a b \<longleftrightarrow> casefold a = casefold b"
  unfolding hdr.same_def CaseInsensitiveLess_lex using lexordp_linear lexordp_irreflexive' by metis

definition checkGetAs :: "(string \<Rightarrow> 'v option) \<Rightarrow> header_map \<Rightarrow> string \<Rightarrow> 'v \<Rightarrow> bool \<times> 'v" where
  "checkGetAs lexical_cast m key def =
     (case map_find CaseInsensitiveLess key m of
        None \<Rightarrow> (False, def)
      | Some s \<Rightarrow> (case lexical_cast s of Some v \<Rightarrow> (True, v) | None \<Rightarrow> (False, def)))"

definition getAs :: "(string \<Rightarrow> 'v option) \<Rightarrow> header_map \<Rightarrow> string \<Rightarrow> 'v \<Rightarrow> 'v" where
  "getAs lexical_cast m key def =
     (case map_find CaseInsensitiveLess key m of
        None \<Rightarrow> def
      | Some s \<Rightarrow> (case lexical_cast s of Some v \<Rightarrow> v | None \<Rightarrow> def))"

subsection \<open>Requests\<close>

record http_request =
  rq_method :: http_method
  rq_version :: "8 word"
  rq_close :: bool
  rq_path :: string
  rq_query :: string
  rq_fragment :: string
  rq_body :: string
  rq_headers :: header_map
  rq_params :: header_map
  rq_cookies :: header_map

definition mk_HttpRequest :: "8 word \<Rightarrow> bool \<Rightarrow> http_request" where
  "mk_HttpRequest version close = \<lparr>rq_method = 1, rq_version = version, rq_close = close, rq_path = ''/'',
     rq_query = [], rq_fragment = [], rq_body = [], rq_headers = [], rq_params = [], rq_cookies = []\<rparr>"

definition find_or :: "string \<Rightarrow> string \<Rightarrow> header_map \<Rightarrow> string" where
  "find_or key def m = (case map_find CaseInsensitiveLess key m of None \<Rightarrow> def | Some v \<Rightarrow> v)"

definition rq_getHeader :: "string \<Rightarrow> string \<Rightarrow> http_request \<Rightarrow> string" where
  "rq_getHeader key def rq = find_or key def (rq_headers rq)"

definition rq_getParam :: "string \<Rightarrow> string \<Rightarrow> http_request \<Rightarrow> string" where
  "rq_getParam key def rq = find_or key def (rq_params rq)"

definition rq_getCookie :: "string \<Rightarrow> string \<Rightarrow> http_request \<Rightarrow> string" where
  "rq_getCookie key def rq = find_or key def (rq_cookies rq)"

definition rq_setHeader :: "string \<Rightarrow> string \<Rightarrow> http_request \<Rightarrow> http_request" where
  "rq_setHeader key val rq = rq\<lparr>rq_headers := map_set CaseInsensitiveLess key val (rq_headers rq)\<rparr>"

definition rq_setParam :: "string \<Rightarrow> string \<Rightarrow> http_request \<Rightarrow> http_request" where
  "rq_setParam key val rq = rq\<lparr>rq_params := map_set CaseInsensitiveLess key val (rq_params rq)\<rparr>"

definition rq_setCookie :: "string \<Rightarrow> string \<Rightarrow> http_request \<Rightarrow> http_request" where
  "rq_setCookie key val rq = rq\<lparr>rq_cookies := map_set CaseInsensitiveLess key val (rq_cookies rq)\<rparr>"

definition rq_delHeader :: "string \<Rightarrow> http_request \<Rightarrow> http_request" where
  "rq_delHeader key rq = rq\<lparr>rq_headers := map_erase CaseInsensitiveLess key (rq_headers rq)\<rparr>"

definition rq_delParam :: "string \<Rightarrow> http_request \<Rightarrow> http_request" where
  "rq_delParam key rq = rq\<lparr>rq_params := map_erase CaseInsensitiveLess key (rq_params rq)\<rparr>"

definition rq_delCookie :: "string \<Rightarrow> http_request \<Rightarrow> http_request" where
  "rq_delCookie key rq = rq\<lparr>rq_cookies := map_erase CaseInsensitiveLess key (rq_cookies rq)\<rparr>"

text \<open>The result and what is stored through the optional pointer.\<close>

definition rq_hasHeader :: "string \<Rightarrow> http_request \<Rightarrow> bool \<times> string option" where
  "rq_hasHeader key rq = (case map_find CaseInsensitiveLess key (rq_headers rq) of None \<Rightarrow> (False, None) | Some v \<Rightarrow> (True, Some v))"

definition rq_hasParam :: "string \<Rightarrow> http_request \<Rightarrow> bool \<times> string option" where
  "rq_hasParam key rq = (case map_find CaseInsensitiveLess key (rq_params rq) of None \<Rightarrow> (False, None) | Some v \<Rightarrow> (True, Some v))"

definition rq_hasCookie :: "string \<Rightarrow> http_request \<Rightarrow> bool \<times> string option" where
  "rq_hasCookie key rq = (case map_find CaseInsensitiveLess key (rq_cookies rq) of None \<Rightarrow> (False, None) | Some v \<Rightarrow> (True, Some v))"

text \<open>The typed getters; all six search the headers, as the code has it.\<close>

definition rq_checkGetHeaderAs :: "(string \<Rightarrow> 'v option) \<Rightarrow> string \<Rightarrow> 'v \<Rightarrow> http_request \<Rightarrow> bool \<times> 'v" where
  "rq_checkGetHeaderAs cast key def rq = checkGetAs cast (rq_headers rq) key def"

definition rq_getHeaderAs :: "(string \<Rightarrow> 'v option) \<Rightarrow> string \<Rightarrow> 'v \<Rightarrow> http_request \<Rightarrow> 'v" where
  "rq_getHeaderAs cast key def rq = getAs cast (rq_headers rq) key def"

definition rq_checkGetParamAs :: "(string \<Rightarrow> 'v option) \<Rightarrow> string \<Rightarrow> 'v \<Rightarrow> http_request \<Rightarrow> bool \<times> 'v" where
  "rq_checkGetParamAs cast key def rq = checkGetAs cast (rq_headers rq) key def"

definition rq_getParamAs :: "(string \<Rightarrow> 'v option) \<Rightarrow> string \<Rightarrow> 'v \<Rightarrow> http_request \<Rightarrow> 'v" where
  "rq_getParamAs cast key def rq = getAs cast (rq_headers rq) key def"

definition rq_checkGetCookieAs :: "(string \<Rightarrow> 'v option) \<Rightarrow> string \<Rightarrow> 'v \<Rightarrow> http_request \<Rightarrow> bool \<times> 'v" where
  "rq_checkGetCookieAs cast key def rq = checkGetAs cast (rq_headers rq) key def"

definition rq_getCookieAs :: "(string \<Rightarrow> 'v option) \<Rightarrow> string \<Rightarrow> 'v \<Rightarrow> http_request \<Rightarrow> 'v" where
  "rq_getCookieAs cast key def rq = getAs cast (rq_headers rq) key def"

definition CRLF :: string where
  "CRLF = [CHR 0x0D, CHR 0x0A]"

definition is_connection :: "string \<Rightarrow> bool" where
  "is_connection key \<longleftrightarrow> strcasecmp (c_str key) ''connection'' = 0"

definition dump_version :: "8 word \<Rightarrow> string" where
  "dump_version v = show_nat (unat (drop_bit 4 v)) @ ''.'' @ show_nat (unat (v AND 0x0F))"

definition dump_connection :: "bool \<Rightarrow> string" where
  "dump_connection close = ''connection: '' @ (if close then ''close'' else ''keep-alive'') @ CRLF"

definition dump_body :: "string \<Rightarrow> string" where
  "dump_body body =
     (if body \<noteq> [] then ''content-length: '' @ show_nat (length body) @ CRLF @ CRLF @ body else CRLF)"

definition rq_dump :: "http_request \<Rightarrow> string" where
  "rq_dump rq =
     HttpMethodToString (rq_method rq) @ '' '' @ rq_path rq @
     (if rq_query rq = [] then [] else ''?'') @ rq_query rq @
     (if rq_fragment rq = [] then [] else ''#'') @ rq_fragment rq @
     '' HTTP/'' @ dump_version (rq_version rq) @ CRLF @
     dump_connection (rq_close rq) @
     concat (map (\<lambda>(k, v). if is_connection k then [] else k @ '':'' @ v @ CRLF) (rq_headers rq)) @
     dump_body (rq_body rq)"

subsection \<open>Responses\<close>

record http_response =
  rs_status :: http_status
  rs_version :: "8 word"
  rs_close :: bool
  rs_body :: string
  rs_reason :: string
  rs_headers :: header_map

definition mk_HttpResponse :: "8 word \<Rightarrow> bool \<Rightarrow> http_response" where
  "mk_HttpResponse version close = \<lparr>rs_status = 200, rs_version = version, rs_close = close, rs_body = [],
     rs_reason = [], rs_headers = []\<rparr>"

definition rs_getHeader :: "string \<Rightarrow> string \<Rightarrow> http_response \<Rightarrow> string" where
  "rs_getHeader key def rs = find_or key def (rs_headers rs)"

definition rs_setHeader :: "string \<Rightarrow> string \<Rightarrow> http_response \<Rightarrow> http_response" where
  "rs_setHeader key val rs = rs\<lparr>rs_headers := map_set CaseInsensitiveLess key val (rs_headers rs)\<rparr>"

definition rs_delHeader :: "string \<Rightarrow> http_response \<Rightarrow> http_response" where
  "rs_delHeader key rs = rs\<lparr>rs_headers := map_erase CaseInsensitiveLess key (rs_headers rs)\<rparr>"

definition rs_checkGetHeaderAs :: "(string \<Rightarrow> 'v option) \<Rightarrow> string \<Rightarrow> 'v \<Rightarrow> http_response \<Rightarrow> bool \<times> 'v" where
  "rs_checkGetHeaderAs cast key def rs = checkGetAs cast (rs_headers rs) key def"

definition rs_getHeaderAs :: "(string \<Rightarrow> 'v option) \<Rightarrow> string \<Rightarrow> 'v \<Rightarrow> http_response \<Rightarrow> 'v" where
  "rs_getHeaderAs cast key def rs = getAs cast (rs_headers rs) key def"

definition rs_dump :: "http_response \<Rightarrow> string" where
  "rs_dump rs =
     ''HTTP/'' @ dump_version (rs_version rs) @ '' '' @ show_nat (rs_status rs) @ '' '' @
     (if rs_reason rs = [] then HttpStatusToString (rs_status rs) else rs_reason rs) @ CRLF @
     concat (map (\<lambda>(k, v). if is_connection k then [] else k @ '': '' @ v @ CRLF) (rs_headers rs)) @
     dump_connection (rs_close rs) @
     dump_body (rs_body rs)"

subsection \<open>Reading a message back\<close>

text \<open>
  What a receiver does: cut the text at line ends up to the first empty line; the rest is the body.
\<close>

fun read_head :: "string \<Rightarrow> string \<Rightarrow> (string list \<times> string) option" where
  "read_head acc [] = None"
| "read_head acc [c] = None"
| "read_head acc (c # d # s) =
     (if c = CHR 0x0D \<and> d = CHR 0x0A then
        if acc = [] then Some ([], s)
        else (case read_head [] s of None \<Rightarrow> None | Some (ls, b) \<Rightarrow> Some (acc # ls, b))
      else read_head (acc @ [c]) (d # s))"

definition no_cr :: "string \<Rightarrow> bool" where
  "no_cr s \<longleftrightarrow> CHR 0x0D \<notin> set s"

lemma no_cr_simps [simp]:
  "no_cr []" "no_cr (c # s) \<longleftrightarrow> c \<noteq> CHR 0x0D \<and> no_cr s" "no_cr (s @ t) \<longleftrightarrow> no_cr s \<and> no_cr t"
  by (auto simp: no_cr_def)

lemma no_cr_show_nat [simp]: "no_cr (show_nat n)"
proof -
  have "\<not> is_digit (CHR 0x0D)" by (simp add: is_digit_def)
  then show ?thesis using show_nat_digits(1)[of n] by (auto simp: no_cr_def)
qed

lemma read_head_line:
  "no_cr l \<Longrightarrow> acc @ l \<noteq> [] \<Longrightarrow>
   read_head acc (l @ CRLF @ s) = (case read_head [] s of None \<Rightarrow> None | Some (ls, b) \<Rightarrow> Some ((acc @ l) # ls, b))"
proof (induction l arbitrary: acc)
  case (Cons c l)
  obtain d t where d: "l @ CRLF @ s = d # t" by (cases l) (auto simp: CRLF_def)
  have "read_head acc ((c # l) @ CRLF @ s) = read_head (acc @ [c]) (l @ CRLF @ s)"
    using Cons.prems(1) d by simp
  then show ?case using Cons by (auto split: option.splits)
qed (auto simp: CRLF_def split: option.splits)

lemma read_head_lines:
  assumes "\<forall>l \<in> set ls. no_cr l \<and> l \<noteq> []"
  shows "read_head [] (concat (map (\<lambda>l. l @ CRLF) ls) @ CRLF @ body) = Some (ls, body)"
  using assms
proof (induction ls)
  case (Cons l ls)
  then show ?case using read_head_line[of l "[]" "concat (map (\<lambda>l. l @ CRLF) ls) @ CRLF @ body"] by simp
qed (simp add: CRLF_def)

definition length_lines :: "string \<Rightarrow> string list" where
  "length_lines body = (if body = [] then [] else [''content-length: '' @ show_nat (length body)])"

lemma dump_body_lines: "dump_body body = concat (map (\<lambda>l. l @ CRLF) (length_lines body)) @ CRLF @ body"
  by (simp add: dump_body_def length_lines_def)

definition connection_line :: "bool \<Rightarrow> string" where
  "connection_line close = ''connection: '' @ (if close then ''close'' else ''keep-alive'')"

lemma dump_connection_line: "dump_connection close = connection_line close @ CRLF"
  by (simp add: dump_connection_def connection_line_def)

definition header_lines :: "string \<Rightarrow> header_map \<Rightarrow> string list" where
  "header_lines sep m = map (\<lambda>(k, v). k @ sep @ v) (filter (\<lambda>(k, v). \<not> is_connection k) m)"

lemma dump_headers_lines:
  "concat (map (\<lambda>(k, v). if is_connection k then [] else k @ sep @ v @ CRLF) m) =
   concat (map (\<lambda>l. l @ CRLF) (header_lines sep m))"
  by (induction m) (auto simp: header_lines_def)

definition clean :: "header_map \<Rightarrow> bool" where
  "clean m \<longleftrightarrow> (\<forall>(k, v) \<in> set m. no_cr k \<and> no_cr v)"

lemma header_lines_ok: "clean m \<Longrightarrow> sep \<noteq> [] \<Longrightarrow> no_cr sep \<Longrightarrow> l \<in> set (header_lines sep m) \<Longrightarrow> no_cr l \<and> l \<noteq> []"
  by (auto simp: header_lines_def clean_def split: prod.splits)

lemma other_lines_ok: "no_cr (connection_line c)" "connection_line c \<noteq> []"
  "l \<in> set (length_lines b) \<Longrightarrow> no_cr l \<and> l \<noteq> []" "no_cr (dump_version v)"
  by (auto simp: connection_line_def length_lines_def dump_version_def split: if_splits)

subsection \<open>Properties\<close>

lemma prefix_free: "sorted_wrt (\<lambda>s t. take (length t) s \<noteq> take (length s) t) method_table"
  by code_simp

lemma method_names_plain: "\<forall>s \<in> set method_table. c_str s = s"
  by code_simp

lemma status_codes_distinct: "distinct (map fst status_table)"
  by code_simp

lemma method_search_hit:
  "method_search eq k ts = i \<Longrightarrow> i < INVALID_METHOD \<Longrightarrow> k \<le> i \<and> i - k < length ts \<and> eq (ts ! (i - k))"
proof (induction ts arbitrary: k)
  case (Cons s ts)
  show ?case
  proof (cases "eq s")
    case False
    then show ?thesis using Cons.IH[of "Suc k"] Cons.prems by (auto simp: nth_Cons' Suc_le_eq)
  next
    case True
    then show ?thesis using Cons.prems by simp
  qed
qed (simp)

lemma method_search_miss: "\<forall>s \<in> set ts. \<not> eq s \<Longrightarrow> method_search eq k ts = INVALID_METHOD"
  by (induction ts arbitrary: k) auto

lemma method_search_first:
  "i < length ts \<Longrightarrow> eq (ts ! i) \<Longrightarrow> \<forall>j < i. \<not> eq (ts ! j) \<Longrightarrow> method_search eq k ts = k + i"
proof (induction ts arbitrary: i k)
  case (Cons s ts)
  show ?case
  proof (cases i)
    case (Suc n)
    then have "\<not> eq s" "\<forall>j < n. \<not> eq (ts ! j)" using Cons.prems(3) by (auto dest: spec[of _ "Suc _"])
    then show ?thesis using Cons.IH[of n "Suc k"] Cons.prems Suc by simp
  qed (use Cons.prems in simp)
qed simp

lemma prefix_clash:
  assumes "take (length s) (t @ rest) = s"
  shows "take (length t) s = take (length s) t"
proof -
  have "take (length t) s = take (length t) (take (length s) (t @ rest))" using assms by simp
  also have "\<dots> = take (length s) (take (length t) (t @ rest))" by (simp only: take_take min.commute)
  finally show ?thesis by simp
qed

lemma method_clash:
  "j < i \<Longrightarrow> i < length method_table \<Longrightarrow> take (length (method_table ! j)) (method_table ! i @ rest) \<noteq> method_table ! j"
  using prefix_free prefix_clash by (fastforce simp: sorted_wrt_iff_nth_less)

lemma c_str_append: "c_str s = s \<Longrightarrow> c_str (s @ t) = s @ c_str t"
  by (metis c_str_def takeWhile_append takeWhile_eq_all_conv)

text \<open>
  Method names and numbers correspond.  Every number of the table prints as a name that both
  conversions read back as the same number, \<open>CharsToHttpMethod\<close> whatever text follows the name (no name is a
  prefix of another one); and a string that \<open>StringToHttpMethod\<close> accepts is the name of its result.
\<close>

theorem method_roundtrip:
  assumes "i < INVALID_METHOD"
  shows "StringToHttpMethod (HttpMethodToString i) = i \<and> CharsToHttpMethod (HttpMethodToString i @ rest) = i \<and>
     (StringToHttpMethod m = i \<longleftrightarrow> c_str m = HttpMethodToString i)"
proof -
  have i: "i < length method_table" using assms by (simp add: INVALID_METHOD_def method_table_def)
  have p: "c_str (method_table ! i) = method_table ! i" using method_names_plain i by simp
  have s: "HttpMethodToString i = method_table ! i" using i by (simp add: HttpMethodToString_def)
  have eq: "StringToHttpMethod m = i" if "c_str m = method_table ! i" for m
    unfolding StringToHttpMethod_def
    using method_search_first[OF i, of "\<lambda>s. s = c_str m" 0] method_clash[OF _ i, of _ "[]"] that by force
  moreover have "CharsToHttpMethod (method_table ! i @ rest) = i"
    unfolding CharsToHttpMethod_def c_str_append[OF p]
    using method_search_first[OF i, of "\<lambda>s. take (length s) (method_table ! i @ c_str rest) = s" 0] method_clash[OF _ i]
    by simp
  moreover have "c_str m = method_table ! i" if "StringToHttpMethod m = i"
    using method_search_hit[OF that[unfolded StringToHttpMethod_def] assms] by simp
  ultimately show ?thesis using p s by auto
qed

theorem method_roundtrip_witness: "CharsToHttpMethod ''POST /index.html HTTP/1.1'' = 3"
  using method_roundtrip[of 3 "'' /index.html HTTP/1.1''" "[]"]
  by (simp add: INVALID_METHOD_def HttpMethodToString_def method_table_def)

text \<open>
  Header maps behave case-insensitively along every sequence of updates: starting from an ordered
  map (the empty one is), setting and deleting keep it ordered; a lookup after \<open>setHeader\<close> gives the new value for
  every spelling of the name and is unchanged for other names, after \<open>delHeader\<close> it gives the default
  for every spelling; and parameters and cookies are not touched.
\<close>

theorem headers_case_insensitive:
  assumes "hdr.ordered (rq_headers rq)"
  shows "hdr.ordered (rq_headers (rq_setHeader k v rq)) \<and> hdr.ordered (rq_headers (rq_delHeader k rq)) \<and>
     rq_getHeader k' def (rq_setHeader k v rq) = (if casefold k' = casefold k then v else rq_getHeader k' def rq) \<and>
     rq_getHeader k' def (rq_delHeader k rq) = (if casefold k' = casefold k then def else rq_getHeader k' def rq) \<and>
     rq_hasHeader k' (rq_setHeader k v rq) = (if casefold k' = casefold k then (True, Some v) else rq_hasHeader k' rq) \<and>
     rq_getParam k' def (rq_setHeader k v rq) = rq_getParam k' def rq \<and>
     rq_getCookie k' def (rq_setHeader k v rq) = rq_getCookie k' def rq"
  using hdr.ordered_set[OF assms] hdr.ordered_erase[OF assms]
  by (simp add: rq_setHeader_def rq_delHeader_def rq_getHeader_def rq_getParam_def rq_getCookie_def rq_hasHeader_def
      find_or_def hdr.find_set hdr.find_erase same_casefold)

theorem headers_case_insensitive_witness:
  "rq_getHeader ''HOST'' [] (rq_setHeader ''Host'' ''a'' (mk_HttpRequest 0x11 True)) = ''a''"
  using headers_case_insensitive[of "mk_HttpRequest 0x11 True" "''Host''" "''a''" "''HOST''" "[]"]
  by (simp add: hdr.ordered_def mk_HttpRequest_def casefold_def c_str_def lower_def)

definition status_line :: "http_response \<Rightarrow> string" where
  "status_line rs = ''HTTP/'' @ dump_version (rs_version rs) @ '' '' @ show_nat (rs_status rs) @ '' '' @
     (if rs_reason rs = [] then HttpStatusToString (rs_status rs) else rs_reason rs)"

definition request_line :: "http_request \<Rightarrow> string" where
  "request_line rq = HttpMethodToString (rq_method rq) @ '' '' @ rq_path rq @
     (if rq_query rq = [] then [] else ''?'' @ rq_query rq) @
     (if rq_fragment rq = [] then [] else ''#'' @ rq_fragment rq) @ '' HTTP/'' @ dump_version (rq_version rq)"

lemma names_no_cr: "\<forall>s \<in> set method_table. no_cr s" "\<forall>s \<in> snd ` set status_table. no_cr s"
  unfolding no_cr_def by code_simp+

lemma no_cr_names [simp]: "no_cr (HttpMethodToString m)" "no_cr (HttpStatusToString st)"
  using names_no_cr by (auto simp: HttpMethodToString_def HttpStatusToString_def dest!: map_of_SomeD split: option.splits)

lemma read_dump:
  assumes "s = concat (map (\<lambda>l. l @ CRLF) (start # ls)) @ CRLF @ body" "no_cr start" "start \<noteq> []"
    "\<And>l. l \<in> set ls \<Longrightarrow> no_cr l \<and> l \<noteq> []"
  shows "read_head [] s = Some (start # ls, body)"
  unfolding assms(1) using assms(2-4) by (intro read_head_lines) auto

lemma read_rs_dump:
  assumes "clean (rs_headers rs)" "no_cr (rs_reason rs)"
  shows "read_head [] (rs_dump rs) =
     Some (status_line rs # header_lines '': '' (rs_headers rs) @ [connection_line (rs_close rs)] @ length_lines (rs_body rs),
           rs_body rs)"
proof (rule read_dump)
  show "rs_dump rs = concat (map (\<lambda>l. l @ CRLF) (status_line rs # header_lines '': '' (rs_headers rs) @
      [connection_line (rs_close rs)] @ length_lines (rs_body rs))) @ CRLF @ rs_body rs"
    by (simp add: rs_dump_def dump_headers_lines[of "'': ''", simplified] dump_connection_line dump_body_lines status_line_def)
  show "no_cr (status_line rs)" "status_line rs \<noteq> []" using assms(2) by (simp_all add: status_line_def other_lines_ok)
  show "no_cr l \<and> l \<noteq> []"
    if "l \<in> set (header_lines '': '' (rs_headers rs) @ [connection_line (rs_close rs)] @ length_lines (rs_body rs))" for l
    using that header_lines_ok[OF assms(1), of "'': ''"] other_lines_ok(1,2) other_lines_ok(3)[of l] by auto
qed

lemma read_rq_dump:
  assumes "clean (rq_headers rq)" "no_cr (rq_path rq)" "no_cr (rq_query rq)" "no_cr (rq_fragment rq)"
  shows "read_head [] (rq_dump rq) =
     Some (request_line rq # [connection_line (rq_close rq)] @ header_lines '':'' (rq_headers rq) @ length_lines (rq_body rq),
           rq_body rq)"
proof (rule read_dump)
  show "rq_dump rq = concat (map (\<lambda>l. l @ CRLF) (request_line rq # [connection_line (rq_close rq)] @
      header_lines '':'' (rq_headers rq) @ length_lines (rq_body rq))) @ CRLF @ rq_body rq"
    by (simp add: rq_dump_def dump_headers_lines[of "'':''", simplified] dump_connection_line dump_body_lines request_line_def)
  show "no_cr (request_line rq)" "request_line rq \<noteq> []" using assms(2-4) by (simp_all add: request_line_def other_lines_ok)
  show "no_cr l \<and> l \<noteq> []"
    if "l \<in> set ([connection_line (rq_close rq)] @ header_lines '':'' (rq_headers rq) @ length_lines (rq_body rq))" for l
    using that header_lines_ok[OF assms(1), of "'':''"] other_lines_ok(1,2) other_lines_ok(3)[of l] by auto
qed



end
