(* ===== verification/Servlet.thy ===== *)
theory Servlet
  imports Http
begin

text \<open>
  Servlets and their dispatcher: \<^verbatim>\<open>captain/http/servlet.cpp\<close>.  A servlet is a \<open>FunctionServlet\<close> with the
  user's callback or a \<open>NotFoundServlet\<close>; a callback answers through the request and response objects
  it is given.  The dispatcher has a table of exact paths (\<^verbatim>\<open>std::unordered_map\<close>), a list of
  patterns in the order of their registration and a default; \<^verbatim>\<open>nullptr\<close> is \<open>None\<close>.  Whether a
  path matches a pattern (\<^verbatim>\<open>fnmatch\<close>) is a parameter.

  Proved: registering and removing servlets changes the dispatch of exactly the paths concerned, with
  exact paths before patterns and older patterns before newer ones, and what a request without a
  servlet is answered.
\<close>

datatype servlet =
    FunctionServlet "http_request \<Rightarrow> http_response \<Rightarrow> int \<times> http_request \<times> http_response"
  | NotFoundServlet string string

record dispatch =
  d_datas :: "string \<rightharpoonup> servlet option"
  d_globs :: "(string \<times> servlet option) list"
  d_default :: "servlet option"

subsection \<open>Servlets\<close>

definition mk_NotFoundServlet :: "string \<Rightarrow> servlet" where
  "mk_NotFoundServlet name = NotFoundServlet name
     (''<html><head><title>404 Not Found'' @
      ''</title></head><body><center><h1>404 Not Found</h1></center>'' @
      ''<hr><center>'' @ name @ ''</center></body></html>'')"

definition NotFoundServlet_handle :: "string \<Rightarrow> http_request \<Rightarrow> http_response \<Rightarrow> int \<times> http_request \<times> http_response" where
  "NotFoundServlet_handle content request response =
     (let response = response\<lparr>rs_status := 404\<rparr>;
          response = rs_setHeader ''Server'' ''captain/1.0.0'' response;
          response = rs_setHeader ''Content-Type'' ''text/html'' response;
          response = response\<lparr>rs_body := content\<rparr>
      in (0, request, response))"

fun servlet_handle :: "servlet \<Rightarrow> http_request \<Rightarrow> http_response \<Rightarrow> int \<times> http_request \<times> http_response" where
  "servlet_handle (FunctionServlet cb) request response = cb request response"
| "servlet_handle (NotFoundServlet name content) request response = NotFoundServlet_handle content request response"

subsection \<open>The dispatcher\<close>

definition mk_ServletDispatch :: dispatch where
  "mk_ServletDispatch = \<lparr>d_datas = Map.empty, d_globs = [], d_default = Some (mk_NotFoundServlet ''captain/1.0.0'')\<rparr>"

definition addServlet :: "string \<Rightarrow> servlet option \<Rightarrow> dispatch \<Rightarrow> dispatch" where
  "addServlet uri slt d = d\<lparr>d_datas := (d_datas d)(uri \<mapsto> slt)\<rparr>"

definition addServlet_cb :: "string \<Rightarrow> (http_request \<Rightarrow> http_response \<Rightarrow> int \<times> http_request \<times> http_response)
    \<Rightarrow> dispatch \<Rightarrow> dispatch" where
  "addServlet_cb uri cb d = d\<lparr>d_datas := (d_datas d)(uri \<mapsto> Some (FunctionServlet cb))\<rparr>"

text \<open>The loop that erases the first entry of a pattern.\<close>

primrec glob_erase :: "string \<Rightarrow> (string \<times> servlet option) list \<Rightarrow> (string \<times> servlet option) list" where
  "glob_erase uri [] = []"
| "glob_erase uri (e # globs) = (if fst e = uri then globs else e # glob_erase uri globs)"

definition addGlobServlet :: "string \<Rightarrow> servlet option \<Rightarrow> dispatch \<Rightarrow> dispatch" where
  "addGlobServlet uri slt d = d\<lparr>d_globs := glob_erase uri (d_globs d) @ [(uri, slt)]\<rparr>"

definition addGlobServlet_cb :: "string \<Rightarrow> (http_request \<Rightarrow> http_response \<Rightarrow> int \<times> http_request \<times> http_response)
    \<Rightarrow> dispatch \<Rightarrow> dispatch" where
  "addGlobServlet_cb uri cb d = addGlobServlet uri (Some (FunctionServlet cb)) d"

definition delServlet :: "string \<Rightarrow> dispatch \<Rightarrow> dispatch" where
  "delServlet uri d = d\<lparr>d_datas := (d_datas d)(uri := None)\<rparr>"

definition delGlobServlet :: "string \<Rightarrow> dispatch \<Rightarrow> dispatch" where
  "delGlobServlet uri d = d\<lparr>d_globs := glob_erase uri (d_globs d)\<rparr>"

definition getServlet :: "string \<Rightarrow> dispatch \<Rightarrow> servlet option" where
  "getServlet uri d = (case d_datas d uri of None \<Rightarrow> None | Some slt \<Rightarrow> slt)"

definition getGlobServlet :: "string \<Rightarrow> dispatch \<Rightarrow> servlet option" where
  "getGlobServlet uri d = (case find (\<lambda>e. fst e = uri) (d_globs d) of None \<Rightarrow> None | Some e \<Rightarrow> snd e)"

definition getMatchedServlet :: "(string \<Rightarrow> string \<Rightarrow> bool) \<Rightarrow> string \<Rightarrow> dispatch \<Rightarrow> servlet option" where
  "getMatchedServlet fnmatch uri d =
     (case d_datas d uri of
        Some slt \<Rightarrow> slt
      | None \<Rightarrow>
          (case find (\<lambda>e. fnmatch (fst e) uri) (d_globs d) of
             Some e \<Rightarrow> snd e
           | None \<Rightarrow> d_default d))"

definition dispatch_handle :: "(string \<Rightarrow> string \<Rightarrow> bool) \<Rightarrow> dispatch \<Rightarrow> http_request \<Rightarrow> http_response
    \<Rightarrow> int \<times> http_request \<times> http_response" where
  "dispatch_handle fnmatch d request response =
     (case getMatchedServlet fnmatch (rq_path request) d of
        Some slt \<Rightarrow> let (_, request, response) = servlet_handle slt request response in (0, request, response)
      | None \<Rightarrow> (0, request, response))"

definition setDefault :: "servlet option \<Rightarrow> dispatch \<Rightarrow> dispatch" where
  "setDefault v d = d\<lparr>d_default := v\<rparr>"

subsection \<open>Sequences of registrations\<close>

inductive registered :: "dispatch \<Rightarrow> bool" where
  reg_new: "registered mk_ServletDispatch"
| reg_add: "registered d \<Longrightarrow> registered (addServlet uri slt d)"
| reg_add_cb: "registered d \<Longrightarrow> registered (addServlet_cb uri cb d)"
| reg_add_glob: "registered d \<Longrightarrow> registered (addGlobServlet uri slt d)"
| reg_add_glob_cb: "registered d \<Longrightarrow> registered (addGlobServlet_cb uri cb d)"
| reg_del: "registered d \<Longrightarrow> registered (delServlet uri d)"
| reg_del_glob: "registered d \<Longrightarrow> registered (delGlobServlet uri d)"
| reg_default: "registered d \<Longrightarrow> registered (setDefault v d)"

lemma glob_erase_filter: "distinct (map fst g) \<Longrightarrow> glob_erase uri g = filter (\<lambda>e. fst e \<noteq> uri) g"
  by (induction g) (auto simp: image_iff intro!: filter_True[symmetric])

lemma registered_distinct: "registered d \<Longrightarrow> distinct (map fst (d_globs d))"
proof (induction rule: registered.induct)
qed (auto simp: mk_ServletDispatch_def addServlet_def addServlet_cb_def addGlobServlet_def addGlobServlet_cb_def
    delServlet_def delGlobServlet_def setDefault_def glob_erase_filter distinct_map_filter)

lemma find_filter: "find P (filter Q xs) = find (\<lambda>x. P x \<and> Q x) xs"
  by (induction xs) auto

lemma find_glob_erase:
  "distinct (map fst g) \<Longrightarrow> find P (glob_erase uri g) = find (\<lambda>e. P e \<and> fst e \<noteq> uri) g"
  by (simp add: glob_erase_filter find_filter)

lemma find_append: "find P (xs @ ys) = (case find P xs of None \<Rightarrow> find P ys | Some x \<Rightarrow> Some x)"
  by (induction xs) auto

text \<open>What is dispatched without the exact entry of a path.\<close>

definition by_pattern :: "(string \<Rightarrow> string \<Rightarrow> bool) \<Rightarrow> string \<Rightarrow> dispatch \<Rightarrow> servlet option" where
  "by_pattern fnmatch uri d =
     (case find (\<lambda>e. fnmatch (fst e) uri) (d_globs d) of Some e \<Rightarrow> snd e | None \<Rightarrow> d_default d)"

subsection \<open>Properties\<close>

text \<open>
  C24: Registering and removing servlets, in every dispatcher that a sequence of these operations
  makes.  An exact servlet answers its path, before every pattern, and no other path changes; removing
  it leaves the patterns to answer.  Adding a pattern again replaces the old entry, at the end: it
  answers the paths it matches that no exact entry and no other pattern answers, in place of
  the default.  After removing a pattern the dispatch is as if it matched nothing.
\<close>

theorem dispatch_updates:
  assumes "registered d"
  shows "getMatchedServlet fnmatch u (addServlet uri slt d) = (if u = uri then slt else getMatchedServlet fnmatch u d) \<and>
     getMatchedServlet fnmatch u (delServlet uri d) = (if u = uri then by_pattern fnmatch u d else getMatchedServlet fnmatch u d) \<and>
     getMatchedServlet fnmatch u (addGlobServlet g slt d) =
       getMatchedServlet (\<lambda>p x. fnmatch p x \<and> p \<noteq> g) u (d\<lparr>d_default := if fnmatch g u then slt else d_default d\<rparr>) \<and>
     getMatchedServlet fnmatch u (delGlobServlet g d) = getMatchedServlet (\<lambda>p x. fnmatch p x \<and> p \<noteq> g) u d"
  using registered_distinct[OF assms]
  by (auto simp: getMatchedServlet_def addServlet_def delServlet_def by_pattern_def addGlobServlet_def delGlobServlet_def
      find_append find_glob_erase split: option.splits)

theorem dispatch_updates_witness:
  "getMatchedServlet (=) ''/a'' (addServlet ''/a'' None mk_ServletDispatch) = None"
  using dispatch_updates[OF reg_new, of "(=)" "''/a''" "''/a''" None] by simp

text \<open>A request that no entry matches gets the page of the default servlet.\<close>

lemma unmatched_not_found:
  assumes "d_datas d (rq_path rq) = None" "\<forall>e \<in> set (d_globs d). \<not> fnmatch (fst e) (rq_path rq)"
    "d_default d = Some (NotFoundServlet name content)"
  shows "\<exists>rs'. dispatch_handle fnmatch d rq rs = (0, rq, rs') \<and> rs_status rs' = 404 \<and> rs_body rs' = content \<and>
     rs_getHeader ''content-type'' [] rs' = ''text/html'' \<and> rs_close rs' = rs_close rs"
proof -
  have "getMatchedServlet fnmatch (rq_path rq) d = Some (NotFoundServlet name content)"
  proof -
    have "find (\<lambda>e. fnmatch (fst e) (rq_path rq)) (d_globs d) = None" using assms(2) by (force simp: find_None_iff)
    then show ?thesis using assms(1,3) by (simp add: getMatchedServlet_def)
  qed
  then show ?thesis
    by (simp add: dispatch_handle_def NotFoundServlet_handle_def rs_setHeader_def rs_getHeader_def find_or_def
        hdr.find_set same_casefold casefold_def c_str_def lower_def)
qed

end
