(* ===== verification/Http_Parser.thy ===== *)
theory Http_Parser
  imports Http
begin

text \<open>
  The parsers of requests and responses: \<^verbatim>\<open>captain/http/http_parser.cpp\<close>, the callbacks and the
  buffer handling around the generated state machines.  A generated parser is a parameter, the record
  \<open>ragel\<close> of its four functions: executing it on a buffer gives the number of bytes consumed, the new
  state and the callbacks it made, in their order.  A callback's text is what stands in the buffer from
  the pointer \<^verbatim>\<open>at\<close> on, and its length.

  The lemmas say that a callback changes one field of the message only, and that the parsers never
  touch the flag that says whether the connection is to be closed.
\<close>

subsection \<open>Configured sizes\<close>

record http_limits =
  s_http_request_buffer_size :: "64 word"
  s_http_request_max_body_size :: "64 word"
  s_http_response_buffer_size :: "64 word"
  s_http_response_max_body_size :: "64 word"

datatype http_var = Request_buffer_size | Request_max_body_size | Response_buffer_size | Response_max_body_size

text \<open>The default values of the four configuration variables.\<close>

definition g_http_default :: "http_var \<Rightarrow> 64 word" where
  "g_http_default v = (case v of
     Request_buffer_size \<Rightarrow> 4 * 1024 | Request_max_body_size \<Rightarrow> 64 * 1024 * 1024
   | Response_buffer_size \<Rightarrow> 4 * 1024 | Response_max_body_size \<Rightarrow> 64 * 1024 * 1024)"

text \<open>\<open>_RequestSizeIniter\<close> copies the variables and installs a listener on each of them.\<close>

definition RequestSizeIniter :: "(http_var \<Rightarrow> 64 word) \<Rightarrow> http_limits" where
  "RequestSizeIniter getValue = \<lparr>s_http_request_buffer_size = getValue Request_buffer_size,
     s_http_request_max_body_size = getValue Request_max_body_size,
     s_http_response_buffer_size = getValue Response_buffer_size,
     s_http_response_max_body_size = getValue Response_max_body_size\<rparr>"

definition size_listener :: "http_var \<Rightarrow> 64 word \<Rightarrow> 64 word \<Rightarrow> http_limits \<Rightarrow> http_limits" where
  "size_listener v ov nv l = (case v of
     Request_buffer_size \<Rightarrow> l\<lparr>s_http_request_buffer_size := nv\<rparr>
   | Request_max_body_size \<Rightarrow> l\<lparr>s_http_request_max_body_size := nv\<rparr>
   | Response_buffer_size \<Rightarrow> l\<lparr>s_http_response_buffer_size := nv\<rparr>
   | Response_max_body_size \<Rightarrow> l\<lparr>s_http_response_max_body_size := nv\<rparr>)"

lemma sizes_follow_config:
  "size_listener v (cfg v) nv (RequestSizeIniter cfg) = RequestSizeIniter (cfg(v := nv))"
  by (cases v) (simp_all add: size_listener_def RequestSizeIniter_def)

subsection \<open>C string functions\<close>

text \<open>\<^verbatim>\<open>strncmp(s, t, n) == 0\<close>.\<close>

definition strncmp_eq :: "string \<Rightarrow> string \<Rightarrow> nat \<Rightarrow> bool" where
  "strncmp_eq s t n \<longleftrightarrow> take n (c_str s) = take n (c_str t)"

definition is_space :: "char \<Rightarrow> bool" where
  "is_space c \<longleftrightarrow> (of_char c :: nat) = 32 \<or> 9 \<le> (of_char c :: nat) \<and> (of_char c :: nat) \<le> 13"

text \<open>\<^verbatim>\<open>atoi\<close>, for values that fit an \<^verbatim>\<open>int\<close>.\<close>

definition atoi :: "string \<Rightarrow> int" where
  "atoi s =
     (let s = dropWhile is_space (c_str s) in
      case s of
        [] \<Rightarrow> 0
      | c # t \<Rightarrow>
          if c = CHR ''-'' then - int (dec_val (takeWhile is_digit t))
          else if c = CHR ''+'' then int (dec_val (takeWhile is_digit t))
          else int (dec_val (takeWhile is_digit s)))"

subsection \<open>Requests\<close>

datatype request_event =
    Request_method string nat
  | Request_uri string nat
  | Request_fragment string nat
  | Request_path string nat
  | Request_query string nat
  | Request_version string nat
  | Request_header_done string nat
  | Request_field string nat string nat

record ('p, 'e) ragel =
  rg_init :: 'p
  rg_execute :: "'p \<Rightarrow> string \<Rightarrow> nat \<times> 'p \<times> 'e list"
  rg_finish :: "'p \<Rightarrow> int"
  rg_has_error :: "'p \<Rightarrow> bool"

record 'p request_parser =
  rp_parser :: 'p
  rp_data :: http_request
  rp_error :: int

definition mk_HttpRequestParser :: "('p, request_event) ragel \<Rightarrow> 'p request_parser" where
  "mk_HttpRequestParser rg = \<lparr>rp_parser = rg_init rg, rp_data = mk_HttpRequest 0x11 True, rp_error = 0\<rparr>"

definition on_request_method :: "string \<Rightarrow> nat \<Rightarrow> 'p request_parser \<Rightarrow> 'p request_parser" where
  "on_request_method at len parser =
     (let m = CharsToHttpMethod at in
      if m = INVALID_METHOD then parser\<lparr>rp_error := 1000\<rparr>
      else parser\<lparr>rp_data := (rp_data parser)\<lparr>rq_method := m\<rparr>\<rparr>)"

definition on_request_fragment :: "string \<Rightarrow> nat \<Rightarrow> 'p request_parser \<Rightarrow> 'p request_parser" where
  "on_request_fragment at len parser = parser\<lparr>rp_data := (rp_data parser)\<lparr>rq_fragment := take len at\<rparr>\<rparr>"

definition on_request_path :: "string \<Rightarrow> nat \<Rightarrow> 'p request_parser \<Rightarrow> 'p request_parser" where
  "on_request_path at len parser = parser\<lparr>rp_data := (rp_data parser)\<lparr>rq_path := take len at\<rparr>\<rparr>"

definition on_request_query :: "string \<Rightarrow> nat \<Rightarrow> 'p request_parser \<Rightarrow> 'p request_parser" where
  "on_request_query at len parser = parser\<lparr>rp_data := (rp_data parser)\<lparr>rq_query := take len at\<rparr>\<rparr>"

definition on_request_version :: "string \<Rightarrow> nat \<Rightarrow> 'p request_parser \<Rightarrow> 'p request_parser" where
  "on_request_version at len parser =
     (if strncmp_eq at ''HTTP/1.1'' len then parser\<lparr>rp_data := (rp_data parser)\<lparr>rq_version := 0x11\<rparr>\<rparr>
      else if strncmp_eq at ''HTTP/1.0'' len then parser\<lparr>rp_data := (rp_data parser)\<lparr>rq_version := 0x10\<rparr>\<rparr>
      else parser\<lparr>rp_error := 1001\<rparr>)"

definition on_request_http_field :: "string \<Rightarrow> nat \<Rightarrow> string \<Rightarrow> nat \<Rightarrow> 'p request_parser \<Rightarrow> 'p request_parser" where
  "on_request_http_field field flen val vlen parser =
     (if flen = 0 then parser
      else parser\<lparr>rp_data := rq_setHeader (take flen field) (take vlen val) (rp_data parser)\<rparr>)"

fun on_request :: "request_event \<Rightarrow> 'p request_parser \<Rightarrow> 'p request_parser" where
  "on_request (Request_method at len) = on_request_method at len"
| "on_request (Request_uri at len) = id"
| "on_request (Request_fragment at len) = on_request_fragment at len"
| "on_request (Request_path at len) = on_request_path at len"
| "on_request (Request_query at len) = on_request_query at len"
| "on_request (Request_version at len) = on_request_version at len"
| "on_request (Request_header_done at len) = id"
| "on_request (Request_field field flen val vlen) = on_request_http_field field flen val vlen"

text \<open>The offset, what \<^verbatim>\<open>memmove\<close> leaves at the start of the buffer, and the parser.\<close>

definition rp_execute :: "('p, request_event) ragel \<Rightarrow> string \<Rightarrow> 'p request_parser \<Rightarrow> nat \<times> string \<times> 'p request_parser" where
  "rp_execute rg data parser =
     (let (offset, p, evs) = rg_execute rg (rp_parser parser) data
      in (offset, drop offset data, fold on_request evs parser\<lparr>rp_parser := p\<rparr>))"

definition rp_isFinished :: "('p, request_event) ragel \<Rightarrow> 'p request_parser \<Rightarrow> int" where
  "rp_isFinished rg parser = rg_finish rg (rp_parser parser)"

definition rp_hasError :: "('p, request_event) ragel \<Rightarrow> 'p request_parser \<Rightarrow> bool" where
  "rp_hasError rg parser \<longleftrightarrow> rp_error parser \<noteq> 0 \<or> rg_has_error rg (rp_parser parser)"

definition rp_getContentLength :: "(string \<Rightarrow> 64 word option) \<Rightarrow> 'p request_parser \<Rightarrow> 64 word" where
  "rp_getContentLength lexical_cast parser = rq_getHeaderAs lexical_cast ''content-length'' 0 (rp_data parser)"

subsection \<open>Responses\<close>

datatype response_event =
    Response_reason string nat
  | Response_status string nat
  | Response_chunk string nat
  | Response_version string nat
  | Response_header_done string nat
  | Response_last_chunk string nat
  | Response_field string nat string nat

record 'p response_parser =
  sp_parser :: 'p
  sp_data :: http_response
  sp_error :: int

definition mk_HttpResponseParser :: "('p, response_event) ragel \<Rightarrow> 'p response_parser" where
  "mk_HttpResponseParser rg = \<lparr>sp_parser = rg_init rg, sp_data = mk_HttpResponse 0x11 True, sp_error = 0\<rparr>"

definition on_response_reason :: "string \<Rightarrow> nat \<Rightarrow> 'p response_parser \<Rightarrow> 'p response_parser" where
  "on_response_reason at len parser = parser\<lparr>sp_data := (sp_data parser)\<lparr>rs_reason := take len at\<rparr>\<rparr>"

definition on_response_status :: "string \<Rightarrow> nat \<Rightarrow> 'p response_parser \<Rightarrow> 'p response_parser" where
  "on_response_status at len parser = parser\<lparr>sp_data := (sp_data parser)\<lparr>rs_status := nat (atoi at)\<rparr>\<rparr>"

definition on_response_version :: "string \<Rightarrow> nat \<Rightarrow> 'p response_parser \<Rightarrow> 'p response_parser" where
  "on_response_version at len parser =
     (if strncmp_eq at ''HTTP/1.1'' len then parser\<lparr>sp_data := (sp_data parser)\<lparr>rs_version := 0x11\<rparr>\<rparr>
      else if strncmp_eq at ''HTTP/1.0'' len then parser\<lparr>sp_data := (sp_data parser)\<lparr>rs_version := 0x10\<rparr>\<rparr>
      else parser\<lparr>sp_error := 1001\<rparr>)"

definition on_response_http_field :: "string \<Rightarrow> nat \<Rightarrow> string \<Rightarrow> nat \<Rightarrow> 'p response_parser \<Rightarrow> 'p response_parser" where
  "on_response_http_field field flen val vlen parser =
     (if flen = 0 then parser
      else parser\<lparr>sp_data := rs_setHeader (take flen field) (take vlen val) (sp_data parser)\<rparr>)"

fun on_response :: "response_event \<Rightarrow> 'p response_parser \<Rightarrow> 'p response_parser" where
  "on_response (Response_reason at len) = on_response_reason at len"
| "on_response (Response_status at len) = on_response_status at len"
| "on_response (Response_chunk at len) = id"
| "on_response (Response_version at len) = on_response_version at len"
| "on_response (Response_header_done at len) = id"
| "on_response (Response_last_chunk at len) = id"
| "on_response (Response_field field flen val vlen) = on_response_http_field field flen val vlen"

text \<open>With \<open>chunck\<close> the state machine starts anew.\<close>

definition sp_execute :: "('p, response_event) ragel \<Rightarrow> string \<Rightarrow> bool \<Rightarrow> 'p response_parser \<Rightarrow> nat \<times> string \<times> 'p response_parser" where
  "sp_execute rg data chunck parser =
     (let p0 = (if chunck then rg_init rg else sp_parser parser);
          (offset, p, evs) = rg_execute rg p0 data
      in (offset, drop offset data, fold on_response evs parser\<lparr>sp_parser := p\<rparr>))"

definition sp_isFinished :: "('p, response_event) ragel \<Rightarrow> 'p response_parser \<Rightarrow> int" where
  "sp_isFinished rg parser = rg_finish rg (sp_parser parser)"

definition sp_hasError :: "('p, response_event) ragel \<Rightarrow> 'p response_parser \<Rightarrow> bool" where
  "sp_hasError rg parser \<longleftrightarrow> sp_error parser \<noteq> 0 \<or> rg_has_error rg (sp_parser parser)"

definition sp_getContentLength :: "(string \<Rightarrow> 64 word option) \<Rightarrow> 'p response_parser \<Rightarrow> 64 word" where
  "sp_getContentLength lexical_cast parser = rs_getHeaderAs lexical_cast ''content-length'' 0 (sp_data parser)"

subsection \<open>What the callbacks keep\<close>

text \<open>
  A request in the making: it is to be closed (no callback clears the flag that the constructor
  sets), has no body yet, its method is one of the table, its version is 1.0 or 1.1 and its headers are in order.
\<close>

definition parsed_ok :: "http_request \<Rightarrow> bool" where
  "parsed_ok rq \<longleftrightarrow> rq_close rq \<and> rq_body rq = [] \<and> rq_method rq < INVALID_METHOD \<and> rq_version rq \<in> {0x10, 0x11} \<and>
     hdr.ordered (rq_headers rq) \<and> rq_params rq = [] \<and> rq_cookies rq = []"

lemma parsed_ok_init: "parsed_ok (rp_data (mk_HttpRequestParser rg))"
  by (simp add: mk_HttpRequestParser_def parsed_ok_def mk_HttpRequest_def INVALID_METHOD_def hdr.ordered_def)

lemma method_search_bound: "k + length ts \<le> INVALID_METHOD \<Longrightarrow> method_search eq k ts \<le> INVALID_METHOD"
  by (induction ts arbitrary: k) auto

lemma CharsToHttpMethod_bound: "CharsToHttpMethod at \<noteq> INVALID_METHOD \<Longrightarrow> CharsToHttpMethod at < INVALID_METHOD"
proof -
  have "CharsToHttpMethod at \<le> INVALID_METHOD"
    unfolding CharsToHttpMethod_def by (rule method_search_bound) (simp add: method_table_def INVALID_METHOD_def)
  then show "CharsToHttpMethod at \<noteq> INVALID_METHOD \<Longrightarrow> CharsToHttpMethod at < INVALID_METHOD" by simp
qed

lemma on_request_ok: "parsed_ok (rp_data parser) \<Longrightarrow> parsed_ok (rp_data (on_request e parser))"
  by (cases e) (auto simp: on_request_method_def on_request_fragment_def on_request_path_def on_request_query_def
      on_request_version_def on_request_http_field_def parsed_ok_def rq_setHeader_def Let_def CharsToHttpMethod_bound hdr.ordered_set)

lemma fold_on_request_ok: "parsed_ok (rp_data parser) \<Longrightarrow> parsed_ok (rp_data (fold on_request evs parser))"
  by (induction evs arbitrary: parser) (auto intro: on_request_ok)

lemma rp_execute_ok:
  "rp_execute rg data parser = (n, rest, parser') \<Longrightarrow> parsed_ok (rp_data parser) \<Longrightarrow>
   parsed_ok (rp_data parser') \<and> rest = drop n data"
  by (auto simp: rp_execute_def intro!: fold_on_request_ok split: prod.splits)

end
