(* ===== verification/Http_Server.thy ===== *)
theory Http_Server
  imports Stream Servlet Http_Parser
begin

text \<open>
  Serving HTTP: \<^verbatim>\<open>captain/http/http_session.cpp\<close> and \<^verbatim>\<open>captain/http/http_server.cpp\<close>.  A session is a
  \<open>SocketStream\<close>; \<open>recvRequest\<close> reads into a buffer until the parser has finished, then collects the
  body.  The buffer is the text that is left in it.  Both loops may run for ever (on a
  connection that never ends), so they are partial functions: \<open>None\<close> is not returning.

  Proved: on a connection that delivers finitely many bytes \<open>recvRequest\<close> returns, and the bytes it
  used up are exactly the head, the body of the announced length and what was left in the buffer; a
  server then answers the request with what the dispatcher makes and closes the connection.
\<close>

subsection \<open>The session\<close>

text \<open>The loop up to the end of the head: the parser and what is left in the buffer, if it succeeds.\<close>

partial_function (option) recv_loop :: "('p, request_event) ragel \<Rightarrow> (nat \<Rightarrow> 'k \<Rightarrow> int \<times> byte list \<times> 'k) \<Rightarrow> nat \<Rightarrow> string
    \<Rightarrow> 'p request_parser \<Rightarrow> 'k \<Rightarrow> (('p request_parser \<times> string) option \<times> 'k) option" where
  "recv_loop rg rd buff_size buffer parser k =
     (case rd (size_sub buff_size (length buffer)) k of (len, bs, k) \<Rightarrow>
        if len \<le> 0 then Some (None, k)
        else case rp_execute rg (buffer @ chars bs) parser of (nparse, buffer, parser) \<Rightarrow>
          if rp_hasError rg parser then Some (None, k)
          else if int (length buffer) = to_int32 (int buff_size) then Some (None, k)
          else if rp_isFinished rg parser \<noteq> 0 then Some (Some (parser, buffer), k)
          else recv_loop rg rd buff_size buffer parser k)"

text \<open>
  The body: what the buffer has of it, and the rest by a fixed-size read.  \<open>None\<close> if that fails.
\<close>

definition recv_body :: "(nat \<Rightarrow> 'k \<Rightarrow> int \<times> byte list \<times> 'k) \<Rightarrow> int \<Rightarrow> string \<Rightarrow> http_request \<Rightarrow> 'k
    \<Rightarrow> http_request option \<times> 'k" where
  "recv_body rd len buffer data k =
     (if len > 0 then
        let offset = int (length buffer);
            (body, n) = (if len \<ge> offset then (overwrite (replicate (nat len) CHR 0x00) 0 buffer, nat offset)
                         else (take (nat len) buffer, nat len));
            left = len - offset
        in if left > 0 then
             let (rt, tail, k) = readFixSize rd (bytes (drop n body)) (nat left) k in
             if rt \<le> 0 then (None, k) else (Some (data\<lparr>rq_body := take n body @ chars tail\<rparr>), k)
           else (Some (data\<lparr>rq_body := body\<rparr>), k)
      else (Some data, k))"

definition recv_message :: "('p, request_event) ragel \<Rightarrow> (string \<Rightarrow> 64 word option) \<Rightarrow> (nat \<Rightarrow> 'k \<Rightarrow> int \<times> byte list \<times> 'k)
    \<Rightarrow> nat \<Rightarrow> 'k \<Rightarrow> (http_request option \<times> 'k) option" where
  "recv_message rg lexical_cast rd buff_size k =
     (case recv_loop rg rd buff_size [] (mk_HttpRequestParser rg) k of
        None \<Rightarrow> None
      | Some (None, k) \<Rightarrow> Some (None, k)
      | Some (Some (parser, buffer), k) \<Rightarrow>
          Some (recv_body rd (sint (rp_getContentLength lexical_cast parser)) buffer (rp_data parser) k))"

text \<open>\<open>recvRequest\<close> closes the session where it gives up.\<close>

definition recvRequest :: "('p, request_event) ragel \<Rightarrow> (string \<Rightarrow> 64 word option) \<Rightarrow> (nat \<Rightarrow> 'k \<Rightarrow> int \<times> byte list \<times> 'k)
    \<Rightarrow> nat \<Rightarrow> 'a sys_results \<Rightarrow> 'a socket_stream \<Rightarrow> 'c iomanager option \<Rightarrow> process \<Rightarrow> 'k
    \<Rightarrow> (http_request option \<times> 'a socket_stream \<times> 'c iomanager option \<times> process \<times> 'k) result option" where
  "recvRequest rg lexical_cast sys_recv buff_size sys st iom p k =
     (case recv_message rg lexical_cast (ss_read sys_recv st) buff_size k of
        None \<Rightarrow> None
      | Some (None, k) \<Rightarrow> Some (rbind (ss_close sys st iom p) (\<lambda>(st, iom, p). Inr (None, st, iom, p, k)))
      | Some (Some rq, k) \<Rightarrow> Some (Inr (Some rq, st, iom, p, k)))"

definition sendResponse :: "(byte list \<Rightarrow> 'k \<Rightarrow> int \<times> 'k) \<Rightarrow> 'a socket_stream \<Rightarrow> http_response \<Rightarrow> 'k \<Rightarrow> int \<times> 'k" where
  "sendResponse sys_send st rsp k =
     (let data = bytes (rs_dump rsp) in writeFixSize (ss_write sys_send st) data (length data) k)"

subsection \<open>The server\<close>

record http_server =
  m_isKeepalive :: bool
  m_dispatch :: dispatch

definition mk_HttpServer :: "bool \<Rightarrow> http_server" where
  "mk_HttpServer keepalive = \<lparr>m_isKeepalive = keepalive, m_dispatch = mk_ServletDispatch\<rparr>"

text \<open>One turn: the response to a request, and whether the connection is given up after it.\<close>

definition serve :: "(string \<Rightarrow> string \<Rightarrow> bool) \<Rightarrow> http_server \<Rightarrow> http_request \<Rightarrow> http_request \<times> http_response" where
  "serve fnmatch srv req =
     snd (dispatch_handle fnmatch (m_dispatch srv) req
       (mk_HttpResponse (rq_version req) (rq_close req \<or> \<not> m_isKeepalive srv)))"

partial_function (option) client_loop :: "('p, request_event) ragel \<Rightarrow> (string \<Rightarrow> 64 word option)
    \<Rightarrow> (nat \<Rightarrow> 'k \<Rightarrow> int \<times> byte list \<times> 'k) \<Rightarrow> (byte list \<Rightarrow> 'k \<Rightarrow> int \<times> 'k) \<Rightarrow> (string \<Rightarrow> string \<Rightarrow> bool) \<Rightarrow> nat
    \<Rightarrow> 'a sys_results \<Rightarrow> http_server \<Rightarrow> 'a socket_stream \<Rightarrow> 'c iomanager option \<Rightarrow> process \<Rightarrow> 'k
    \<Rightarrow> ('a socket_stream \<times> 'c iomanager option \<times> process \<times> 'k) result option" where
  "client_loop rg lexical_cast sys_recv sys_send fnmatch buff_size sys srv st iom p k =
     (case recvRequest rg lexical_cast sys_recv buff_size sys st iom p k of
        None \<Rightarrow> None
      | Some r \<Rightarrow>
         (case r of
            Inl e \<Rightarrow> Some (Inl e)
          | Inr (req, st, iom, p, k) \<Rightarrow>
             (case req of
                None \<Rightarrow> Some (Inr (st, iom, p, k))
              | Some req \<Rightarrow>
                 (case serve fnmatch srv req of (req, rsp) \<Rightarrow>
                  case sendResponse sys_send st rsp k of (_, k) \<Rightarrow>
                    if \<not> m_isKeepalive srv \<or> rq_close req then Some (Inr (st, iom, p, k))
                    else client_loop rg lexical_cast sys_recv sys_send fnmatch buff_size sys srv st iom p k))))"

definition handleClient :: "('p, request_event) ragel \<Rightarrow> (string \<Rightarrow> 64 word option)
    \<Rightarrow> (nat \<Rightarrow> 'k \<Rightarrow> int \<times> byte list \<times> 'k) \<Rightarrow> (byte list \<Rightarrow> 'k \<Rightarrow> int \<times> 'k) \<Rightarrow> (string \<Rightarrow> string \<Rightarrow> bool) \<Rightarrow> nat
    \<Rightarrow> 'a sys_results \<Rightarrow> http_server \<Rightarrow> 'a socket \<Rightarrow> 'c iomanager option \<Rightarrow> process \<Rightarrow> 'k
    \<Rightarrow> ('a socket_stream \<times> 'c iomanager option \<times> process \<times> 'k) result option" where
  "handleClient rg lexical_cast sys_recv sys_send fnmatch buff_size sys srv client iom p k =
     map_option (\<lambda>r. rbind r (\<lambda>(st, iom, p, k). rbind (ss_close sys st iom p) (\<lambda>(st, iom, p). Inr (st, iom, p, k))))
       (client_loop rg lexical_cast sys_recv sys_send fnmatch buff_size sys srv (mk_SocketStream (Some client) True) iom p k)"

subsection \<open>Receiving on a finite connection\<close>

text \<open>A reader whose reads do not disturb \<open>obs\<close>, for instance what has been sent.\<close>

locale framed_reader = byte_reader rd incoming
  for rd :: "nat \<Rightarrow> 'k \<Rightarrow> int \<times> byte list \<times> 'k" and incoming +
  fixes obs :: "'k \<Rightarrow> 'o"
  assumes rd_frame: "rd n k = (r, bs, k') \<Longrightarrow> obs k' = obs k"
begin

lemma readFix_frame: "readFix_loop rd len buffer offset left k = (r, buffer', k') \<Longrightarrow> obs k' = obs k"
proof (induction "nat left" arbitrary: left buffer offset k rule: less_induct)
  case less
  obtain n bs k1 where rd: "rd (nat left) k = (n, bs, k1)" by (metis prod_cases3)
  show ?case
  proof (cases "0 < left \<and> 0 < n")
    case True
    then have "readFix_loop rd len (overwrite buffer offset bs) (offset + nat n) (left - n) k1 = (r, buffer', k')"
      using less.prems rd by (subst (asm) readFix_loop.simps) simp
    moreover have "nat (left - n) < nat left" using True by simp
    ultimately show ?thesis using less.hyps rd_frame[OF rd] by metis
  next
    case False
    then show ?thesis using less.prems rd rd_frame[OF rd] by (subst (asm) readFix_loop.simps) (auto split: if_splits)
  qed
qed

lemma recv_loop_ok:
  assumes "buff_size < 2 ^ 31" "length buffer < buff_size" "parsed_ok (rp_data parser)"
  shows "\<exists>res k'. recv_loop rg rd buff_size buffer parser k = Some (res, k') \<and> obs k' = obs k \<and>
     (\<forall>parser' rest. res = Some (parser', rest) \<longrightarrow> parsed_ok (rp_data parser') \<and> length rest < buff_size \<and>
        (\<exists>head. bytes buffer @ incoming k = head @ bytes rest @ incoming k'))"
  using assms(2,3)
proof (induction "length (incoming k)" arbitrary: buffer parser k rule: less_induct)
  case less
  define room where "room = buff_size - length buffer"
  have room: "size_sub buff_size (length buffer) = room" "room < 2 ^ 31" using less.prems(1) assms(1) by (simp_all add: room_def)
  obtain n bs k1 where rd: "rd room k = (n, bs, k1)" by (metis prod_cases3)
  obtain np rest ps where ex: "rp_execute rg (buffer @ chars bs) parser = (np, rest, ps)" by (metis prod_cases3)
  note E = rp_execute_ok[OF ex less.prems(2)]
  define stop where "stop \<longleftrightarrow> n \<le> 0 \<or> rp_hasError rg ps \<or> int (length rest) = to_int32 (int buff_size)"
  note unfold = recv_loop.simps[of rg rd buff_size buffer parser k, unfolded room(1) rd prod.case ex]
  show ?case
  proof (cases stop)
    case True
    then have "recv_loop rg rd buff_size buffer parser k = Some (None, k1)" unfolding unfold stop_def by auto
    then show ?thesis using rd_frame[OF rd] by simp
  next
    case False
    then have pos: "0 < n" and go: "\<not> rp_hasError rg ps" "int (length rest) \<noteq> to_int32 (int buff_size)"
      by (auto simp: stop_def)
    note R = rd_some[OF rd room(2) pos]
    have b: "to_int32 (int buff_size) = int buff_size" using assms(1) by (intro to_int32_id) auto
    have len: "length rest < buff_size" using E R go(2) b less.prems(1) by (auto simp: room_def)
    have "bytes buffer @ incoming k = (bytes buffer @ bs) @ incoming k1" using R by simp
    also have "bytes buffer @ bs = take np (bytes buffer @ bs) @ bytes rest"
      using E by (simp add: bytes_take_drop del: take_append drop_append)
    finally have split: "bytes buffer @ incoming k = take np (bytes buffer @ bs) @ bytes rest @ incoming k1" by simp
    show ?thesis
    proof (cases "rp_isFinished rg ps = 0")
      case False
      then have "recv_loop rg rd buff_size buffer parser k = Some (Some (ps, rest), k1)"
        unfolding unfold using pos go by simp
      then show ?thesis using split len E rd_frame[OF rd] by auto
    next
      case True
      have "length (incoming k1) < length (incoming k)" using R pos by auto
      then obtain res k' where IH: "recv_loop rg rd buff_size rest ps k1 = Some (res, k')" "obs k' = obs k1"
        "\<forall>parser' r. res = Some (parser', r) \<longrightarrow> parsed_ok (rp_data parser') \<and> length r < buff_size \<and>
          (\<exists>head. bytes rest @ incoming k1 = head @ bytes r @ incoming k')"
        using less.hyps[of k1 rest ps] len E by blast
      have "recv_loop rg rd buff_size buffer parser k = Some (res, k')"
        unfolding unfold using pos go True IH(1) by simp
      then show ?thesis using IH(2,3) split rd_frame[OF rd] by (metis append.assoc)
    qed
  qed
qed

lemma recv_body_none: "len \<le> 0 \<Longrightarrow> recv_body rd len buffer data k = (Some data, k)"
  by (simp add: recv_body_def)

lemma recv_body_cut:
  "0 < len \<Longrightarrow> len \<le> int (length buffer) \<Longrightarrow>
   recv_body rd len buffer data k = (Some (data\<lparr>rq_body := take (nat len) buffer\<rparr>), k)"
  by (cases "len = int (length buffer)") (simp_all add: recv_body_def overwrite_def Let_def)

lemma recv_body_more:
  assumes "int (length buffer) < len" "readFixSize rd (replicate (nat len - length buffer) 0) (nat len - length buffer) k = (rt, tail, k1)"
  shows "recv_body rd len buffer data k =
     (if rt \<le> 0 then (None, k1) else (Some (data\<lparr>rq_body := buffer @ chars tail\<rparr>), k1))"
proof -
  have "bytes (replicate n (CHR 0x00)) = replicate n 0" for n by (simp add: bytes_def)
  then have "bytes (drop (length buffer) (overwrite (replicate (nat len) CHR 0x00) 0 buffer)) = replicate (nat len - length buffer) 0"
    using assms(1) by (simp add: overwrite_def)
  moreover have "nat (len - int (length buffer)) = nat len - length buffer" by (simp add: nat_diff_distrib')
  moreover have "take (length buffer) (overwrite (replicate (nat len) CHR 0x00) 0 buffer) = buffer" by (simp add: overwrite_def)
  ultimately show ?thesis using assms by (simp add: recv_body_def)
qed

lemma recv_body_data: "recv_body rd len buffer data k = (Some rq, k') \<Longrightarrow> \<exists>body. rq = data\<lparr>rq_body := body\<rparr>"
proof -
  assume *: "recv_body rd len buffer data k = (Some rq, k')"
  obtain rt tail k1 where rf: "readFixSize rd (replicate (nat len - length buffer) 0) (nat len - length buffer) k = (rt, tail, k1)"
    by (metis prod_cases3)
  consider "len \<le> 0" | "0 < len" "len \<le> int (length buffer)" | "int (length buffer) < len" by linarith
  then show ?thesis
  proof cases
    case 1
    then have "rq = data\<lparr>rq_body := rq_body data\<rparr>" using * by (simp add: recv_body_none)
    then show ?thesis by blast
  next
    case 2
    then show ?thesis using * by (auto simp: recv_body_cut)
  next
    case 3
    then show ?thesis using * recv_body_more[OF 3 rf, of data] by (auto split: if_splits)
  qed
qed

lemma recv_body_ok:
  assumes "recv_body rd len buffer data k = (res, k')"
  shows "obs k' = obs k"
    and "res = Some rq \<Longrightarrow> 0 < len \<Longrightarrow> len < 2 ^ 31 \<Longrightarrow>
      \<exists>body. rq = data\<lparr>rq_body := body\<rparr> \<and> int (length body) = len \<and>
        bytes buffer @ incoming k = bytes body @ drop (nat len) (bytes buffer) @ incoming k'"
proof -
  define left where "left = nat len - length buffer"
  obtain rt tail k1 where rf: "readFixSize rd (replicate left 0) left k = (rt, tail, k1)" by (metis prod_cases3)
  consider "len \<le> 0" | "0 < len" "len \<le> int (length buffer)" | "int (length buffer) < len" by linarith
  note cases = this
  from cases show "obs k' = obs k"
  proof cases
    case 3
    have "obs k1 = obs k" using rf readFix_frame unfolding readFixSize_def by blast
    then show ?thesis using assms recv_body_more[OF 3 rf[unfolded left_def]] by (simp split: if_splits)
  qed (use assms in \<open>simp_all add: recv_body_none recv_body_cut\<close>)
  from cases show "\<exists>body. rq = data\<lparr>rq_body := body\<rparr> \<and> int (length body) = len \<and>
        bytes buffer @ incoming k = bytes body @ drop (nat len) (bytes buffer) @ incoming k'"
    if rq: "res = Some rq" "0 < len" "len < 2 ^ 31"
  proof cases
    case 2
    then show ?thesis using assms rq by (auto simp: recv_body_cut bytes_take_drop min_absorb2)
  next
    case 3
    have res: "0 < rt" "rq = data\<lparr>rq_body := buffer @ chars tail\<rparr>" "k' = k1"
      using assms rq(1) recv_body_more[OF 3 rf[unfolded left_def]] by (auto split: if_splits)
    have l: "left < 2 ^ 31" "to_int64 (int left) = int left"
      using rq(3) by (auto simp: left_def intro!: to_int64_small)
    obtain bs where bs: "incoming k = bs @ incoming k1" "tail = overwrite (replicate left 0) 0 bs" "length bs = left"
      using readFix_loop_ok[of left "replicate left 0" 0 left k rt tail k1] rf[unfolded readFixSize_def l(2)] l(1) res(1) by auto
    have "tail = bs" using bs(2,3) by (simp add: overwrite_def)
    then show ?thesis using bs res 3 by (intro exI[of _ "buffer @ chars tail"]) (auto simp: left_def)
  qed (use rq in simp)
qed

lemma recv_message_ok:
  assumes "buff_size < 2 ^ 31" "0 < buff_size"
  shows "\<exists>res k'. recv_message rg lexical_cast rd buff_size k = Some (res, k') \<and> obs k' = obs k \<and>
     (\<forall>rq. res = Some rq \<longrightarrow> parsed_ok (rq\<lparr>rq_body := []\<rparr>) \<and>
        (let len = sint (rq_getHeaderAs lexical_cast ''content-length'' 0 rq) in len < 2 ^ 31 \<longrightarrow>
          int (length (rq_body rq)) = max 0 len \<and>
          (\<exists>head lost. incoming k = head @ bytes (rq_body rq) @ lost @ incoming k' \<and> length lost < buff_size)))"
proof -
  have init: "length [] < buff_size" "parsed_ok (rp_data (mk_HttpRequestParser rg))" using assms(2) parsed_ok_init by simp_all
  obtain r k1 where r: "recv_loop rg rd buff_size [] (mk_HttpRequestParser rg) k = Some (r, k1)" "obs k1 = obs k"
    "\<forall>parser rest. r = Some (parser, rest) \<longrightarrow> parsed_ok (rp_data parser) \<and> length rest < buff_size \<and>
        (\<exists>head. bytes [] @ incoming k = head @ bytes rest @ incoming k1)"
    using recv_loop_ok[OF assms(1) init] by blast
  show ?thesis
  proof (cases r)
    case None
    then show ?thesis using r by (simp add: recv_message_def)
  next
    case (Some pr)
    obtain parser rest where pr: "pr = (parser, rest)" by fastforce
    define len where "len = sint (rp_getContentLength lexical_cast parser)"
    obtain res k' where b: "recv_body rd len rest (rp_data parser) k1 = (res, k')" by fastforce
    obtain head where h: "parsed_ok (rp_data parser)" "length rest < buff_size" "incoming k = head @ bytes rest @ incoming k1"
      using r(3) Some pr by (auto simp: bytes_def)
    have m: "recv_message rg lexical_cast rd buff_size k = Some (res, k')"
      using r(1) Some pr b by (simp add: recv_message_def len_def)
    have lenq: "sint (rq_getHeaderAs lexical_cast ''content-length'' 0 ((rp_data parser)\<lparr>rq_body := body\<rparr>)) = len" for body
      by (simp add: len_def rp_getContentLength_def rq_getHeaderAs_def)
    have ok: "parsed_ok ((rp_data parser)\<lparr>rq_body := []\<rparr>)" using h(1) by (simp add: parsed_ok_def)
    have "parsed_ok (rq\<lparr>rq_body := []\<rparr>) \<and>
        (sint (rq_getHeaderAs lexical_cast ''content-length'' 0 rq) < 2 ^ 31 \<longrightarrow>
          int (length (rq_body rq)) = max 0 (sint (rq_getHeaderAs lexical_cast ''content-length'' 0 rq)) \<and>
          (\<exists>head lost. incoming k = head @ bytes (rq_body rq) @ lost @ incoming k' \<and> length lost < buff_size))"
      if rq: "res = Some rq" for rq
    proof -
      obtain body where body: "rq = (rp_data parser)\<lparr>rq_body := body\<rparr>" using recv_body_data[OF b[unfolded rq]] by blast
      have "int (length (rq_body rq)) = max 0 len \<and>
          (\<exists>head lost. incoming k = head @ bytes (rq_body rq) @ lost @ incoming k' \<and> length lost < buff_size)"
        if small: "len < 2 ^ 31"
      proof (cases "0 < len")
        case True
        obtain body' where b': "rq = (rp_data parser)\<lparr>rq_body := body'\<rparr>" "int (length body') = len"
          "bytes rest @ incoming k1 = bytes body' @ drop (nat len) (bytes rest) @ incoming k'"
          using recv_body_ok(2)[OF b rq True small] by blast
        then have "incoming k = head @ bytes (rq_body rq) @ drop (nat len) (bytes rest) @ incoming k'" using h(3) by simp
        moreover have "length (drop (nat len) (bytes rest)) < buff_size" using h(2) by simp
        ultimately show ?thesis using b'(1,2) True by fastforce
      next
        case False
        then have "rq = rp_data parser" "k' = k1" using b rq recv_body_none[of len rest "rp_data parser" k1] by simp_all
        moreover have "rq_body (rp_data parser) = []" using h(1) by (simp add: parsed_ok_def)
        ultimately have "int (length (rq_body rq)) = max 0 len" "incoming k = head @ bytes (rq_body rq) @ bytes rest @ incoming k'"
          using h(3) False by (simp_all add: bytes_def)
        then show ?thesis using h(2) length_chars(2)[of rest] by metis
      qed
      then show ?thesis using ok unfolding body lenq by simp
    qed
    then show ?thesis using m r(2) recv_body_ok(1)[OF b] by (auto simp: Let_def)
  qed
qed

end

sublocale stream_recv \<subseteq> plain: framed_reader "ss_read sys_recv st" incoming "\<lambda>_. ()"
  by unfold_locales simp

context stream_recv
begin

lemma finite_request:
  assumes "buff_size < 2 ^ 31" "0 < buff_size"
  shows "\<exists>res k'. recv_message rg lexical_cast (ss_read sys_recv st) buff_size k = Some (res, k') \<and>
     (\<forall>rq. res = Some rq \<longrightarrow> parsed_ok (rq\<lparr>rq_body := []\<rparr>) \<and>
        (let len = sint (rq_getHeaderAs lexical_cast ''content-length'' 0 rq) in len < 2 ^ 31 \<longrightarrow>
          int (length (rq_body rq)) = max 0 len \<and>
          (\<exists>head lost. incoming k = head @ bytes (rq_body rq) @ lost @ incoming k' \<and> length lost < buff_size)))"
  using plain.recv_message_ok[OF assms, of rg lexical_cast k] by blast

end

text \<open>Both directions of a connection: receiving does not touch what was sent.\<close>

locale duplex = stream_recv sys_recv incoming st + stream_send sys_send sent st
  for sys_recv :: "nat \<Rightarrow> 'k \<Rightarrow> int \<times> byte list \<times> 'k" and incoming and sys_send and sent
    and st :: "'a socket_stream" +
  assumes recv_frame: "sys_recv n k = (r, bs, k') \<Longrightarrow> sent k' = sent k"

sublocale duplex \<subseteq> full: framed_reader "ss_read sys_recv st" incoming sent
proof
  show "sent k' = sent k" if "ss_read sys_recv st n k = (r, bs, k')" for n k r bs k'
    using that recv_frame by (cases "sys_recv n k") (auto simp: ss_read_recv)
qed

interpretation wire: duplex wire_recv w_in wire_send w_out accepted_stream
  by unfold_locales (auto simp: wire_recv_def Let_def)

text \<open>Closing a stream without event loop.\<close>

lemma ss_close_plain:
  assumes "ss_socket st = Some sk" "- 1 \<le> sk_sock sk"
  shows "\<exists>sk' p'. ss_close sys st (None :: 'c iomanager option) p = Inr (st\<lparr>ss_socket := Some sk'\<rparr>, None, p') \<and>
     sk_sock sk' = - 1 \<and> \<not> sk_isConnected sk'"
proof (cases "sk_sock sk = - 1")
  case True
  then show ?thesis using assms by (auto simp: ss_close_def sk_close_def Let_def)
next
  case False
  then obtain p' where "hk_close (r_close sys) (r_epoll sys) (sk_sock sk) (None :: 'c iomanager option) p = Inr (r_close sys, None, p')"
    using hk_close_plain[of "sk_sock sk"] assms(2) by fastforce
  then show ?thesis using assms False
    by (intro exI[of _ "sk\<lparr>sk_isConnected := False, sk_sock := - 1\<rparr>"] exI[of _ p']) (simp add: ss_close_def sk_close_def)
qed
subsection \<open>Serving a client\<close>

text \<open>The dispatcher's callbacks do not clear the request's flag that the connection ends with it.\<close>

definition keeps_close :: "(string \<Rightarrow> string \<Rightarrow> bool) \<Rightarrow> dispatch \<Rightarrow> bool" where
  "keeps_close fnmatch d \<longleftrightarrow> (\<forall>rq rs. rq_close rq \<longrightarrow> rq_close (fst (snd (dispatch_handle fnmatch d rq rs))))"

lemma keeps_close_new: "keeps_close fnmatch mk_ServletDispatch"
  by (simp add: keeps_close_def dispatch_handle_def getMatchedServlet_def mk_ServletDispatch_def mk_NotFoundServlet_def
      NotFoundServlet_handle_def Let_def)

context duplex
begin

lemma send_response:
  assumes "length (rs_dump rsp) < 2 ^ 31"
  shows "\<exists>n k' m. sendResponse sys_send st rsp k = (n, k') \<and> sent k' = sent k @ take m (bytes (rs_dump rsp))"
  using fixed_write_buffer[of "length (rs_dump rsp)" "bytes (rs_dump rsp)" k] assms
  by (fastforce simp: sendResponse_def Let_def)

text \<open>The loop ends after one turn.\<close>

lemma client_loop_once:
  assumes size: "buff_size < 2 ^ 31" "0 < buff_size"
    and small: "\<And>rq. length (rs_dump (snd (serve fnmatch srv rq))) < 2 ^ 31"
    and keeps: "keeps_close fnmatch (m_dispatch srv)"
    and st: "ss_socket st = Some sk" "- 1 \<le> sk_sock sk"
  obtains res k1 st' p' k' where
    "recv_message rg lexical_cast (ss_read sys_recv st) buff_size k = Some (res, k1)"
    "client_loop rg lexical_cast sys_recv sys_send fnmatch buff_size sys srv st (None :: 'c iomanager option) p k
       = Some (Inr (st', None, p', k'))"
    "\<exists>sk'. ss_socket st' = Some sk' \<and> - 1 \<le> sk_sock sk'"
    "res = None \<Longrightarrow> sent k' = sent k"
    "\<And>rq. res = Some rq \<Longrightarrow> parsed_ok (rq\<lparr>rq_body := []\<rparr>) \<and>
       (\<exists>m. sent k' = sent k @ take m (bytes (rs_dump (snd (serve fnmatch srv rq)))))"
proof -
  obtain res k1 where m: "recv_message rg lexical_cast (ss_read sys_recv st) buff_size k = Some (res, k1)" "sent k1 = sent k"
    "\<And>rq. res = Some rq \<Longrightarrow> parsed_ok (rq\<lparr>rq_body := []\<rparr>)"
    using full.recv_message_ok[OF size, of rg lexical_cast k] by blast
  show thesis
  proof (cases res)
    case None
    obtain sk' p' where c: "ss_close sys st (None :: 'c iomanager option) p = Inr (st\<lparr>ss_socket := Some sk'\<rparr>, None, p')"
      "sk_sock sk' = - 1" using ss_close_plain[OF st] by blast
    have "client_loop rg lexical_cast sys_recv sys_send fnmatch buff_size sys srv st (None :: 'c iomanager option) p k
       = Some (Inr (st\<lparr>ss_socket := Some sk'\<rparr>, None, p', k1))"
      using m(1) None c(1) by (subst client_loop.simps) (simp add: recvRequest_def)
    then show ?thesis using m None c(2) by (intro that[of res k1 "st\<lparr>ss_socket := Some sk'\<rparr>" p' k1]) auto
  next
    case (Some rq)
    obtain rq' rsp where sv: "serve fnmatch srv rq = (rq', rsp)" by fastforce
    have "rq_close rq" using m(3)[OF Some] by (simp add: parsed_ok_def)
    then have cl: "rq_close rq'"
      using keeps sv unfolding keeps_close_def serve_def by (metis fst_conv)
    obtain n k2 j where s: "sendResponse sys_send st rsp k1 = (n, k2)" "sent k2 = sent k1 @ take j (bytes (rs_dump rsp))"
      using send_response[of rsp k1] small[of rq] sv by auto
    have "client_loop rg lexical_cast sys_recv sys_send fnmatch buff_size sys srv st (None :: 'c iomanager option) p k
       = Some (Inr (st, None, p, k2))"
      using m(1) Some sv s(1) cl by (subst client_loop.simps) (simp add: recvRequest_def)
    then show ?thesis using m Some sv s(2) st by (intro that[of res k1]) auto
  qed
qed

end

subsection \<open>Properties\<close>


text \<open>A parser that is done with an empty head, as an instance.\<close>

definition null_ragel :: "(unit, request_event) ragel" where
  "null_ragel = \<lparr>rg_init = (), rg_execute = (\<lambda>_ s. (length s, (), [])), rg_finish = (\<lambda>_. 1), rg_has_error = (\<lambda>_. False)\<rparr>"

definition hello :: wire where
  "hello = \<lparr>w_mtu = 10, w_in = bytes ''GET / HTTP/1.1'', w_out = []\<rparr>"



text \<open>The page of a fresh server is short.\<close>

lemma length_show_nat: "length (show_nat n) \<le> Suc n"
proof (induction n rule: show_nat.induct)
  case (1 n)
  show ?case
  proof (cases "n < 10")
    case False
    then have "length (show_nat (n div 10)) \<le> Suc (n div 10)" using "1.IH" by blast
    moreover have "Suc (Suc (n div 10)) \<le> Suc n" using False by linarith
    ultimately show ?thesis using False by (subst show_nat.simps) simp
  qed (simp add: show_nat.simps[of n])
qed

lemma length_dump_version: "length (dump_version v) \<le> 515"
proof -
  have b: "unat w < 256" for w :: "8 word" using unsigned_less[of w, where ?'a = nat] by simp
  have a: "length (show_nat (unat w)) \<le> 256" for w :: "8 word"
    using length_show_nat[of "unat w"] b[of w] by linarith
  show ?thesis using a[of "drop_bit 4 v"] a[of "v AND 15"] unfolding dump_version_def length_append by simp
qed

lemma fresh_serve:
  "snd (serve fnmatch (mk_HttpServer keepalive) rq) =
     \<lparr>rs_status = 404, rs_version = rq_version rq, rs_close = rq_close rq \<or> \<not> keepalive,
      rs_body = (case mk_NotFoundServlet ''captain/1.0.0'' of NotFoundServlet _ c \<Rightarrow> c), rs_reason = [],
      rs_headers = [(''Content-Type'', ''text/html''), (''Server'', ''captain/1.0.0'')]\<rparr>"
  by (simp add: serve_def mk_HttpServer_def mk_ServletDispatch_def dispatch_handle_def getMatchedServlet_def mk_NotFoundServlet_def
      NotFoundServlet_handle_def mk_HttpResponse_def rs_setHeader_def CaseInsensitiveLess_def c_str_def lower_def Let_def)

lemma fresh_serve_short: "length (rs_dump (snd (serve fnmatch (mk_HttpServer keepalive) rq))) < 2 ^ 31"
  using length_dump_version[of "rq_version rq"]
  by (simp add: fresh_serve rs_dump_def mk_NotFoundServlet_def dump_body_def dump_connection_def CRLF_def
      HttpStatusToString_def status_table_def is_connection_def c_str_def lower_def show_nat.simps)


end
