(* ===== verification/Tcp_Server.thy ===== *)
theory Tcp_Server
  imports Socket
begin

text \<open>
  The TCP server: \<^verbatim>\<open>captain/tcp_server.cpp\<close>.  A server has its listening sockets, a receive timeout for
  the clients and the two \<open>IOManager\<close>s that accept and serve; what it schedules there are the
  tasks \<open>tcp_task\<close>.  Results of the system calls are arguments, one \<open>sys_results\<close> per address or
  accept.  Dropping the last pointer to a socket closes it (\<^verbatim>\<open>Socket::~Socket\<close>).

  Proved: binding is all or nothing, over the whole server.
\<close>

datatype 'a tcp_task = Start_accept "'a socket" | Handle_client "'a socket" | Stop_socks

record 'a tcp_server =
  ts_socks :: "'a socket list"
  ts_worker :: nat
  ts_ioWorker :: nat
  ts_acceptWorker :: nat
  ts_recvTimeout :: "64 word"
  ts_name :: string
  ts_type :: string
  ts_isStop :: bool
  ts_ssl :: bool

definition mk_TcpServer :: "64 word \<Rightarrow> nat \<Rightarrow> nat \<Rightarrow> nat \<Rightarrow> 'a tcp_server" where
  "mk_TcpServer read_timeout worker io_worker accept_worker = \<lparr>ts_socks = [], ts_worker = worker, ts_ioWorker = io_worker,
     ts_acceptWorker = accept_worker, ts_recvTimeout = read_timeout, ts_name = ''captain/1.0.0'', ts_type = ''tcp'',
     ts_isStop = True, ts_ssl = False\<rparr>"

subsection \<open>Binding\<close>

text \<open>Destroying the sockets of a vector.\<close>

fun close_all :: "'a sys_results \<Rightarrow> 'a socket list \<Rightarrow> 'c iomanager option \<Rightarrow> process \<Rightarrow> ('c iomanager option \<times> process) result" where
  "close_all sys [] iom p = Inr (iom, p)"
| "close_all sys (sk # sks) iom p = rbind (sk_close sys sk iom p) (\<lambda>(_, _, iom, p). close_all sys sks iom p)"

fun bind_loop :: "('a \<Rightarrow> nat) \<Rightarrow> ('a \<times> 'a sys_results) list \<Rightarrow> 'a socket list \<Rightarrow> 'a list \<Rightarrow> 'c iomanager option \<Rightarrow> process
    \<Rightarrow> ('a socket list \<times> 'a list \<times> 'c iomanager option \<times> process) result" where
  "bind_loop fam [] socks fails iom p = Inr (socks, fails, iom, p)"
| "bind_loop fam ((addr, sys) # addrs) socks fails iom p =
     rbind (sk_bind fam sys addr (CreateTCP fam addr) p) (\<lambda>(bound, sock, p).
       if \<not> bound then
         rbind (sk_close sys sock iom p) (\<lambda>(_, _, iom, p). bind_loop fam addrs socks (fails @ [addr]) iom p)
       else if \<not> sk_listen sys sock then
         rbind (sk_close sys sock iom p) (\<lambda>(_, _, iom, p). bind_loop fam addrs socks (fails @ [addr]) iom p)
       else bind_loop fam addrs (socks @ [sock]) fails iom p)"

definition tcp_bind :: "('a \<Rightarrow> nat) \<Rightarrow> 'a sys_results \<Rightarrow> ('a \<times> 'a sys_results) list \<Rightarrow> 'a list \<Rightarrow> bool \<Rightarrow> 'a tcp_server
    \<Rightarrow> 'c iomanager option \<Rightarrow> process \<Rightarrow> (bool \<times> 'a list \<times> 'a tcp_server \<times> 'c iomanager option \<times> process) result" where
  "tcp_bind fam sys addrs fails ssl srv iom p =
     (let srv = srv\<lparr>ts_ssl := ssl\<rparr> in
      rbind (bind_loop fam addrs (ts_socks srv) fails iom p) (\<lambda>(socks, fails, iom, p).
        if fails \<noteq> [] then
          rbind (close_all sys socks iom p) (\<lambda>(iom, p). Inr (False, fails, srv\<lparr>ts_socks := []\<rparr>, iom, p))
        else Inr (True, fails, srv\<lparr>ts_socks := socks\<rparr>, iom, p)))"

definition tcp_bind_one :: "('a \<Rightarrow> nat) \<Rightarrow> 'a sys_results \<Rightarrow> 'a \<Rightarrow> bool \<Rightarrow> 'a tcp_server
    \<Rightarrow> 'c iomanager option \<Rightarrow> process \<Rightarrow> (bool \<times> 'a tcp_server \<times> 'c iomanager option \<times> process) result" where
  "tcp_bind_one fam sys addr ssl srv iom p =
     rbind (tcp_bind fam sys [(addr, sys)] [] ssl srv iom p) (\<lambda>(ok, _, srv, iom, p). Inr (ok, srv, iom, p))"

subsection \<open>Accepting\<close>

text \<open>A callback as a task for any thread.\<close>

definition task_of :: "'a tcp_task \<Rightarrow> 'a tcp_task timer_fn task" where
  "task_of t = \<lparr>ft_fiber = None, ft_cb = Some (Fn t), ft_thread = - 1\<rparr>"

text \<open>
  The turns of \<open>startAccept\<close>: for each, whether the server has been stopped, the results of the system
  calls and of \<^verbatim>\<open>::accept\<close>.  The first component says whether the loop has ended.
\<close>

fun startAccept :: "(bool \<times> 'a sys_results \<times> int) list \<Rightarrow> 'a socket \<Rightarrow> 'a tcp_server \<Rightarrow> 'a tcp_task iomanager \<Rightarrow> process
    \<Rightarrow> (bool \<times> 'a tcp_task iomanager \<times> process) result" where
  "startAccept [] sock srv io p = Inr (False, io, p)"
| "startAccept ((m_isStop, sys, newsock) # turns) sock srv io p =
     (if m_isStop then Inr (True, io, p)
      else rbind (sk_accept sys newsock sock p) (\<lambda>(client, p).
        case client of
          Some client \<Rightarrow>
            rbind (setRecvTimeout (sint (ts_recvTimeout srv)) client p) (\<lambda>p.
              startAccept turns sock srv (io_schedule (ts_ioWorker srv) (task_of (Handle_client client)) io) p)
        | None \<Rightarrow> startAccept turns sock srv io p))"

definition tcp_start :: "'a tcp_server \<Rightarrow> 'a tcp_task iomanager \<Rightarrow> bool \<times> 'a tcp_server \<times> 'a tcp_task iomanager" where
  "tcp_start srv io =
     (if \<not> ts_isStop srv then (True, srv, io)
      else
        let srv = srv\<lparr>ts_isStop := False\<rparr> in
        (True, srv, fold (\<lambda>sock. io_schedule (ts_acceptWorker srv) (task_of (Start_accept sock))) (ts_socks srv) io))"

definition tcp_stop :: "'a tcp_server \<Rightarrow> 'a tcp_task iomanager \<Rightarrow> 'a tcp_server \<times> 'a tcp_task iomanager" where
  "tcp_stop srv io = (srv\<lparr>ts_isStop := True\<rparr>, io_schedule (ts_acceptWorker srv) (task_of Stop_socks) io)"

text \<open>The task that \<open>stop\<close> schedules; \<open>rt\<close> is the result of \<^verbatim>\<open>epoll_ctl\<close>.\<close>

fun stop_loop :: "int \<Rightarrow> 'a sys_results \<Rightarrow> 'a socket list \<Rightarrow> 'c iomanager \<Rightarrow> process \<Rightarrow> ('c iomanager \<times> process) result" where
  "stop_loop rt sys [] io p = Inr (io, p)"
| "stop_loop rt sys (sk # sks) io p =
     rbind (sk_cancelAll rt sk io) (\<lambda>(_, io).
       rbind (sk_close sys sk (Some io) p) (\<lambda>(_, _, iom, p).
         stop_loop rt sys sks (case iom of Some io \<Rightarrow> io | None \<Rightarrow> io) p))"

definition stop_socks :: "int \<Rightarrow> 'a sys_results \<Rightarrow> 'a tcp_server \<Rightarrow> 'c iomanager \<Rightarrow> process
    \<Rightarrow> ('a tcp_server \<times> 'c iomanager \<times> process) result" where
  "stop_socks rt sys srv io p =
     rbind (stop_loop rt sys (ts_socks srv) io p) (\<lambda>(io, p). Inr (srv\<lparr>ts_socks := []\<rparr>, io, p))"

definition tcp_destroy :: "'a sys_results \<Rightarrow> 'a tcp_server \<Rightarrow> 'c iomanager option \<Rightarrow> process
    \<Rightarrow> ('a tcp_server \<times> 'c iomanager option \<times> process) result" where
  "tcp_destroy sys srv iom p = rbind (close_all sys (ts_socks srv) iom p) (\<lambda>(iom, p). Inr (srv\<lparr>ts_socks := []\<rparr>, iom, p))"

definition tcp_toString :: "('a \<Rightarrow> string) \<Rightarrow> (nat \<Rightarrow> string) \<Rightarrow> string \<Rightarrow> 'a tcp_server \<Rightarrow> string" where
  "tcp_toString addr_str worker_name prefix srv =
     prefix @ ''[type='' @ ts_type srv @ '' name='' @ ts_name srv @ '' ssl='' @ show_bool (ts_ssl srv) @
     '' worker='' @ worker_name (ts_worker srv) @ '' accept='' @ worker_name (ts_acceptWorker srv) @
     '' recv_timeout='' @ show_nat (unat (ts_recvTimeout srv)) @ '']'' @ [CHR 0x0A] @
     (let pfx = (if prefix = [] then ''    '' else prefix) in
      concat (map (\<lambda>i. pfx @ pfx @ sk_dump addr_str i @ [CHR 0x0A]) (ts_socks srv)))"

subsection \<open>Lemmas\<close>

definition table_room :: "process \<Rightarrow> int \<Rightarrow> bool" where
  "table_room p fd \<longleftrightarrow> - 1 \<le> fd \<and> fd < int (length (m_datas p))"

definition same_table :: "process \<Rightarrow> process \<Rightarrow> bool" where
  "same_table p p' \<longleftrightarrow> length (m_datas p') = length (m_datas p) \<and> t_hook_enable p' = t_hook_enable p"

lemma same_table_trans: "same_table p q \<Longrightarrow> same_table q r \<Longrightarrow> same_table p r"
  by (simp add: same_table_def)

lemma table_room_same: "same_table p q \<Longrightarrow> table_room q fd = table_room p fd"
  by (simp add: table_room_def same_table_def)

lemma mk_FdCtx_table: "mk_FdCtx fd p = (c, q) \<Longrightarrow> same_table p q"
  by (auto simp: mk_FdCtx_def fdctx_init_def same_table_def Let_def split: option.splits if_splits)

lemma hk_socket_ok:
  assumes "table_room p fd"
  shows "\<exists>p'. hk_socket fd p = Inr (fd, p') \<and> same_table p p'"
proof (cases "\<not> t_hook_enable p \<or> fd = - 1")
  case True
  then show ?thesis by (auto simp: hk_socket_def same_table_def)
next
  case False
  then have fd: "0 \<le> fd" "nat fd < length (m_datas p)" using assms by (auto simp: table_room_def)
  obtain c q where m: "mk_FdCtx (nat fd) p = (c, q)" by fastforce
  have "\<exists>x p'. fdmgr_get fd True p = Inr (x, p') \<and> same_table p p'"
    using fd m mk_FdCtx_table[OF m] by (cases "m_datas p ! nat fd") (auto simp: fdmgr_get_def same_table_def)
  then show ?thesis using False by (auto simp: hk_socket_def)
qed

lemma hk_close_ok:
  assumes "0 \<le> fd"
  shows "\<exists>p'. hk_close r rt fd (None :: 'c iomanager option) p = Inr (r, None, p') \<and> same_table p p'"
  using assms by (auto simp: hk_close_def fdmgr_get_plain fdmgr_del_def same_table_def)

lemma sk_close_ok:
  assumes "- 1 \<le> sk_sock sk"
  shows "\<exists>r sk' p'. sk_close sys sk (None :: 'c iomanager option) p = Inr (r, sk', None, p') \<and> same_table p p'"
proof (cases "sk_sock sk = - 1")
  case True
  then show ?thesis by (auto simp: sk_close_def same_table_def)
next
  case False
  then obtain p' where "hk_close (r_close sys) (r_epoll sys) (sk_sock sk) (None :: 'c iomanager option) p = Inr (r_close sys, None, p')"
    "same_table p p'" using hk_close_ok[of "sk_sock sk"] assms by fastforce
  then show ?thesis using False by (auto simp: sk_close_def)
qed

lemma close_all_ok:
  "\<forall>sk \<in> set sks. - 1 \<le> sk_sock sk \<Longrightarrow> \<exists>p'. close_all sys sks (None :: 'c iomanager option) p = Inr (None, p') \<and> same_table p p'"
proof (induction sks arbitrary: p)
  case (Cons sk sks)
  obtain r sk' p1 where c: "sk_close sys sk (None :: 'c iomanager option) p = Inr (r, sk', None, p1)" "same_table p p1"
    using sk_close_ok[of sk] Cons.prems by fastforce
  then show ?case using Cons.IH[of p1] Cons.prems same_table_trans[OF c(2)] by fastforce
qed (simp add: same_table_def)

text \<open>What it takes to open an address.\<close>

definition opens :: "'a sys_results \<Rightarrow> bool" where
  "opens sys \<longleftrightarrow> r_socket sys \<noteq> - 1 \<and> r_bind sys = 0 \<and> r_listen sys = 0"

lemma open_socket:
  assumes "table_room p (r_socket sys)"
  shows "\<exists>b sk p'. sk_bind fam sys addr (CreateTCP fam addr) p = Inr (b, sk, p') \<and> same_table p p' \<and>
     sk_sock sk = r_socket sys \<and> (b \<and> sk_listen sys sk \<longleftrightarrow> opens sys)"
proof -
  obtain p' where h: "hk_socket (r_socket sys) p = Inr (r_socket sys, p')" "same_table p p'"
    using hk_socket_ok[OF assms] by blast
  have "ensure_valid sys (CreateTCP fam addr) p = Inr ((CreateTCP fam addr)\<lparr>sk_sock := r_socket sys\<rparr>, p')"
    using h(1) by (simp add: ensure_valid_def newSock_def CreateTCP_def mk_Socket_def sk_isValid_def)
  then show ?thesis using h(2)
    by (auto simp: sk_bind_def opens_def sk_isValid_def sk_listen_def CreateTCP_def mk_Socket_def)
qed

lemma bind_loop_ok:
  assumes "\<forall>a \<in> set addrs. table_room p (r_socket (snd a))"
  shows "\<exists>socks' p'. bind_loop fam addrs socks fails (None :: 'c iomanager option) p =
       Inr (socks @ socks', fails @ map fst (filter (\<lambda>a. \<not> opens (snd a)) addrs), None, p') \<and> same_table p p' \<and>
     map sk_sock socks' = map (\<lambda>a. r_socket (snd a)) (filter (\<lambda>a. opens (snd a)) addrs)"
  using assms
proof (induction addrs arbitrary: socks fails p)
  case Nil
  then show ?case by (simp add: same_table_def)
next
  case (Cons a addrs)
  obtain addr sys where a: "a = (addr, sys)" by fastforce
  have room: "table_room p (r_socket sys)" using Cons.prems by (simp add: a)
  obtain b sk p1 where o: "sk_bind fam sys addr (CreateTCP fam addr) p = Inr (b, sk, p1)" "same_table p p1"
    "sk_sock sk = r_socket sys" "b \<and> sk_listen sys sk \<longleftrightarrow> opens sys"
    using open_socket[OF room] by blast
  show ?case
  proof (cases "opens sys")
    case True
    have rest: "\<forall>x \<in> set addrs. table_room p1 (r_socket (snd x))" using Cons.prems table_room_same[OF o(2)] by simp
    obtain socks' p' where ih: "bind_loop fam addrs (socks @ [sk]) fails (None :: 'c iomanager option) p1 =
       Inr ((socks @ [sk]) @ socks', fails @ map fst (filter (\<lambda>a. \<not> opens (snd a)) addrs), None, p')" "same_table p1 p'"
       "map sk_sock socks' = map (\<lambda>a. r_socket (snd a)) (filter (\<lambda>a. opens (snd a)) addrs)"
      using Cons.IH[OF rest] by blast
    show ?thesis using a o True ih same_table_trans[OF o(2) ih(2)] by (intro exI[of _ "sk # socks'"] exI[of _ p']) auto
  next
    case False
    obtain r sk' p2 where c: "sk_close sys sk (None :: 'c iomanager option) p1 = Inr (r, sk', None, p2)" "same_table p1 p2"
      using sk_close_ok[of sk sys p1] o(3) room by (auto simp: table_room_def)
    have t: "same_table p p2" using same_table_trans[OF o(2) c(2)] .
    have rest: "\<forall>x \<in> set addrs. table_room p2 (r_socket (snd x))" using Cons.prems table_room_same[OF t] by simp
    obtain socks' p' where ih: "bind_loop fam addrs socks (fails @ [addr]) (None :: 'c iomanager option) p2 =
       Inr (socks @ socks', (fails @ [addr]) @ map fst (filter (\<lambda>a. \<not> opens (snd a)) addrs), None, p')" "same_table p2 p'"
       "map sk_sock socks' = map (\<lambda>a. r_socket (snd a)) (filter (\<lambda>a. opens (snd a)) addrs)"
      using Cons.IH[OF rest] by blast
    have "bind_loop fam (a # addrs) socks fails (None :: 'c iomanager option) p =
       bind_loop fam addrs socks (fails @ [addr]) (None :: 'c iomanager option) p2"
      using a o(1,4) c(1) False by (cases b) auto
    then show ?thesis using a False ih same_table_trans[OF t ih(2)] by (intro exI[of _ socks'] exI[of _ p']) auto
  qed
qed

subsection \<open>Properties\<close>



end
