(* ===== verification/Address.thy ===== *)
theory Address
  imports Endian "HOL-Library.List_Lexorder"
begin

text \<open>
  Socket addresses: \<^verbatim>\<open>captain/address.cpp\<close>.  The structures of the system are records whose integer
  fields hold what the memory of the machine holds: ports and IPv4 addresses stand there in network
  order and go through \<open>byteswapOnLittleEndian\<close>.  The four classes are the constructors of \<open>address\<close>;
  a pointer that may be null is an option.  \<^verbatim>\<open>getaddrinfo\<close>, \<^verbatim>\<open>getifaddrs\<close> and \<^verbatim>\<open>inet_pton\<close> are parameters,
  with raw memory (\<open>byte list\<close>) where the system returns a \<^verbatim>\<open>sockaddr*\<close>.

  Proved: what the prefix operations compute, bit by bit, and where they are undefined; counting the
  bits of a mask gives the length of its prefix; a printed address is taken apart and read back;
  the comparison of addresses is the lexicographic order of their memory images.
\<close>

section \<open>Masks\<close>

text \<open>
  \<^verbatim>\<open>(1 << (sizeof(T) * 8 - bits)) - 1\<close>: the literal is an \<^verbatim>\<open>int\<close> of 32 bits, the distance a \<^verbatim>\<open>size_t\<close>.
  A distance of 32 or more is undefined, and with 31 the subtraction overflows.
\<close>

definition CreateMask :: "32 word \<Rightarrow> 'a::len word result" where
  "CreateMask bits =
     (let n = size_sub LENGTH('a) (unat bits) in
      if n \<ge> 32 then Inl Bad_shift
      else if n = 31 then Inl Signed_overflow
      else Inr (word_of_int (push_bit n 1 - 1)))"

text \<open>Clearing the lowest bit, on numbers: their number of ones goes down by one.\<close>

fun ones :: "nat \<Rightarrow> nat" where
  "ones n = (if n = 0 then 0 else n mod 2 + ones (n div 2))"

declare ones.simps [simp del]

lemma ones_double: "ones (2 * n) = ones n" "ones (Suc (2 * n)) = Suc (ones n)"
  by (subst ones.simps, simp add: ones.simps[of 0])+

lemma and_pred_nat:
  fixes n :: nat
  assumes "0 < n"
  shows "n AND (n - 1) < n" "ones n = Suc (ones (n AND (n - 1)))"
proof -
  have "n AND (n - 1) < n \<and> ones n = Suc (ones (n AND (n - 1)))"
    using assms
  proof (induction n rule: less_induct)
    case (less n)
    consider m where "n = 2 * m" "0 < m" | m where "n = Suc (2 * m)"
      using less.prems by (metis gr0I evenE mult_0_right oddE Suc_eq_plus1)
    then show ?case
    proof cases
      case 1
      then have e: "n AND (n - 1) = 2 * (m AND (m - 1))"
        using and_rec[of n "n - 1"] 1 by (cases m) simp_all
      from less.IH[of m] 1 show ?thesis unfolding e by (simp add: 1 ones_double)
    next
      case 2
      then have e: "n AND (n - 1) = 2 * m" using and_rec[of n "n - 1"] by simp
      show ?thesis unfolding e by (simp add: 2 ones_double)
    qed
  qed
  then show "n AND (n - 1) < n" "ones n = Suc (ones (n AND (n - 1)))" by simp_all
qed

lemma unat_and_pred:
  "value \<noteq> 0 \<Longrightarrow> unat (value AND (value - 1)) = unat value AND (unat value - 1)" for "value" :: "'a::len word"
  by (simp add: unsigned_and_eq unat_minus_one)

lemma and_pred_less: "value \<noteq> 0 \<Longrightarrow> unat (value AND (value - 1)) < unat value" for "value" :: "'a::len word"
  by (metis and_pred_nat(1) unat_and_pred unat_gt_0)

function count_loop :: "'a::len word \<Rightarrow> 32 word \<Rightarrow> 32 word" where
  "count_loop value result = (if value = 0 then result else count_loop (value AND (value - 1)) (result + 1))"
  by auto
termination by (relation "measure (\<lambda>(v, _). unat v)") (auto simp: and_pred_less)

declare count_loop.simps [simp del]

definition CountBytes :: "'a::len word \<Rightarrow> 32 word" where
  "CountBytes value = count_loop value 0"

section \<open>The structures\<close>

definition AF_UNSPEC :: "16 word" where "AF_UNSPEC = 0"
definition AF_UNIX :: "16 word" where "AF_UNIX = 1"
definition AF_INET :: "16 word" where "AF_INET = 2"
definition AF_INET6 :: "16 word" where "AF_INET6 = 10"

record sockaddr_in =
  sin_family :: "16 word"
  sin_port :: "16 word"
  sin_addr :: "32 word"
  sin_zero :: "byte list"

record sockaddr_in6 =
  sin6_family :: "16 word"
  sin6_port :: "16 word"
  sin6_flowinfo :: "32 word"
  sin6_addr :: "byte list"
  sin6_scope_id :: "32 word"

record sockaddr_un =
  sun_family :: "16 word"
  sun_path :: "byte list"

record sockaddr =
  sa_family :: "16 word"
  sa_data :: "byte list"

text \<open>Their representation in memory, on a machine of byte order \<open>bo\<close>.\<close>

definition in_image :: "endian \<Rightarrow> sockaddr_in \<Rightarrow> byte list" where
  "in_image bo a = mem_bytes bo (sin_family a) @ mem_bytes bo (sin_port a) @ mem_bytes bo (sin_addr a) @ sin_zero a"

definition in6_image :: "endian \<Rightarrow> sockaddr_in6 \<Rightarrow> byte list" where
  "in6_image bo a = mem_bytes bo (sin6_family a) @ mem_bytes bo (sin6_port a) @ mem_bytes bo (sin6_flowinfo a) @
     sin6_addr a @ mem_bytes bo (sin6_scope_id a)"

definition un_image :: "endian \<Rightarrow> sockaddr_un \<Rightarrow> byte list" where
  "un_image bo a = mem_bytes bo (sun_family a) @ sun_path a"

definition sa_image :: "endian \<Rightarrow> sockaddr \<Rightarrow> byte list" where
  "sa_image bo a = mem_bytes bo (sa_family a) @ sa_data a"

text \<open>Memory read through a pointer to a structure.\<close>

definition mem_range :: "byte list \<Rightarrow> nat \<Rightarrow> nat \<Rightarrow> byte list" where
  "mem_range m i n = take n (drop i m)"

definition in_at :: "endian \<Rightarrow> byte list \<Rightarrow> sockaddr_in result" where
  "in_at bo m =
     (if length m < 16 then Inl Oob_access
      else Inr \<lparr>sin_family = mem_word bo (mem_range m 0 2), sin_port = mem_word bo (mem_range m 2 2),
        sin_addr = mem_word bo (mem_range m 4 4), sin_zero = mem_range m 8 8\<rparr>)"

definition in6_at :: "endian \<Rightarrow> byte list \<Rightarrow> sockaddr_in6 result" where
  "in6_at bo m =
     (if length m < 28 then Inl Oob_access
      else Inr \<lparr>sin6_family = mem_word bo (mem_range m 0 2), sin6_port = mem_word bo (mem_range m 2 2),
        sin6_flowinfo = mem_word bo (mem_range m 4 4), sin6_addr = mem_range m 8 16,
        sin6_scope_id = mem_word bo (mem_range m 24 4)\<rparr>)"

definition sa_at :: "endian \<Rightarrow> byte list \<Rightarrow> sockaddr result" where
  "sa_at bo m =
     (if length m < 16 then Inl Oob_access
      else Inr \<lparr>sa_family = mem_word bo (mem_range m 0 2), sa_data = mem_range m 2 14\<rparr>)"

definition family_at :: "endian \<Rightarrow> byte list \<Rightarrow> 16 word result" where
  "family_at bo m = (if length m < 2 then Inl Oob_access else Inr (mem_word bo (mem_range m 0 2)))"

section \<open>The classes\<close>

datatype address = IPv4Address sockaddr_in | IPv6Address sockaddr_in6 | UnixAddress sockaddr_un "32 word" | UnknownAddress sockaddr

definition zeros :: "nat \<Rightarrow> byte list" where
  "zeros n = replicate n 0"

definition getFamily :: "address \<Rightarrow> 16 word" where
  "getFamily a = (case a of IPv4Address m_addr \<Rightarrow> sin_family m_addr | IPv6Address m_addr \<Rightarrow> sin6_family m_addr
     | UnixAddress m_addr _ \<Rightarrow> sun_family m_addr | UnknownAddress m_addr \<Rightarrow> sa_family m_addr)"

definition getAddr :: "endian \<Rightarrow> address \<Rightarrow> byte list" where
  "getAddr bo a = (case a of IPv4Address m_addr \<Rightarrow> in_image bo m_addr | IPv6Address m_addr \<Rightarrow> in6_image bo m_addr
     | UnixAddress m_addr _ \<Rightarrow> un_image bo m_addr | UnknownAddress m_addr \<Rightarrow> sa_image bo m_addr)"

definition getAddrLen :: "address \<Rightarrow> 32 word" where
  "getAddrLen a = (case a of IPv4Address _ \<Rightarrow> 16 | IPv6Address _ \<Rightarrow> 28 | UnixAddress _ m_length \<Rightarrow> m_length | UnknownAddress _ \<Rightarrow> 16)"

text \<open>\<^verbatim>\<open>Address::Create\<close>: it goes by the family alone, whatever the length the system gave.\<close>

definition Address_Create :: "endian \<Rightarrow> byte list option \<Rightarrow> 32 word \<Rightarrow> address option result" where
  "Address_Create bo addr addrlen =
     (case addr of
        None \<Rightarrow> Inr None
      | Some m \<Rightarrow>
          rbind (family_at bo m) (\<lambda>family.
            if family = AF_INET then rbind (in_at bo m) (\<lambda>a. Inr (Some (IPv4Address a)))
            else if family = AF_INET6 then rbind (in6_at bo m) (\<lambda>a. Inr (Some (IPv6Address a)))
            else rbind (sa_at bo m) (\<lambda>a. Inr (Some (UnknownAddress a)))))"

subsection \<open>Comparison\<close>

text \<open>\<^verbatim>\<open>memcmp\<close> of \<open>n\<close> bytes; reading behind either block is undefined.\<close>

fun memcmp_bytes :: "byte list \<Rightarrow> byte list \<Rightarrow> int" where
  "memcmp_bytes (x # xs) (y # ys) = (if x < y then - 1 else if y < x then 1 else memcmp_bytes xs ys)"
| "memcmp_bytes _ _ = 0"

definition memcmp :: "byte list \<Rightarrow> byte list \<Rightarrow> nat \<Rightarrow> int result" where
  "memcmp s t n = (if length s < n \<or> length t < n then Inl Oob_access else Inr (memcmp_bytes (take n s) (take n t)))"

definition address_less :: "endian \<Rightarrow> address \<Rightarrow> address \<Rightarrow> bool result" where
  "address_less bo lhs rhs =
     (let minlen = min (getAddrLen lhs) (getAddrLen rhs) in
      rbind (memcmp (getAddr bo lhs) (getAddr bo rhs) (unat minlen)) (\<lambda>result.
        if result < 0 then Inr True
        else if result > 0 then Inr False
        else if getAddrLen lhs < getAddrLen rhs then Inr True
        else Inr False))"

definition address_eq :: "endian \<Rightarrow> address \<Rightarrow> address \<Rightarrow> bool result" where
  "address_eq bo lhs rhs =
     (if getAddrLen lhs = getAddrLen rhs then
        rbind (memcmp (getAddr bo lhs) (getAddr bo rhs) (unat (getAddrLen lhs))) (\<lambda>result. Inr (result = 0))
      else Inr False)"

definition address_neq :: "endian \<Rightarrow> address \<Rightarrow> address \<Rightarrow> bool result" where
  "address_neq bo lhs rhs = rbind (address_eq bo lhs rhs) (\<lambda>eq. Inr (\<not> eq))"

section \<open>IPv4\<close>

definition mk_IPv4Address :: "endian \<Rightarrow> 32 word \<Rightarrow> 16 word \<Rightarrow> sockaddr_in" where
  "mk_IPv4Address bo address port = \<lparr>sin_family = AF_INET, sin_port = byteswapOnLittleEndian bo port,
     sin_addr = byteswapOnLittleEndian bo address, sin_zero = zeros 8\<rparr>"

text \<open>\<^verbatim>\<open>inet_pton\<close> gives a result and, if that is positive, the bytes of the address.\<close>

definition IPv4Address_Create :: "endian \<Rightarrow> (string \<Rightarrow> int \<times> byte list) \<Rightarrow> string \<Rightarrow> 16 word \<Rightarrow> sockaddr_in option" where
  "IPv4Address_Create bo inet_pton address port =
     (let rt = (mk_IPv4Address bo 0 0)\<lparr>sin_port := byteswapOnLittleEndian bo port\<rparr>;
          (result, a) = inet_pton address
      in if result \<le> 0 then None else Some (rt\<lparr>sin_addr := mem_word bo a\<rparr>))"

definition ip4_insert :: "endian \<Rightarrow> sockaddr_in \<Rightarrow> string" where
  "ip4_insert bo m_addr =
     (let addr = byteswapOnLittleEndian bo (sin_addr m_addr) in
      show_nat (unat (drop_bit 24 addr AND 0xFF)) @ ''.'' @ show_nat (unat (drop_bit 16 addr AND 0xFF)) @ ''.'' @
      show_nat (unat (drop_bit 8 addr AND 0xFF)) @ ''.'' @ show_nat (unat (addr AND 0xFF)) @
      '':'' @ show_nat (unat (byteswapOnLittleEndian bo (sin_port m_addr))))"

definition ip4_broadcastAddress :: "endian \<Rightarrow> 32 word \<Rightarrow> sockaddr_in \<Rightarrow> sockaddr_in option result" where
  "ip4_broadcastAddress bo prefix_len m_addr =
     (if prefix_len > 32 then Inr None
      else rbind (CreateMask prefix_len) (\<lambda>mask.
        Inr (Some (m_addr\<lparr>sin_addr := sin_addr m_addr OR byteswapOnLittleEndian bo mask\<rparr>))))"

definition ip4_networdAddress :: "endian \<Rightarrow> 32 word \<Rightarrow> sockaddr_in \<Rightarrow> sockaddr_in option result" where
  "ip4_networdAddress bo prefix_len m_addr =
     (if prefix_len > 32 then Inr None
      else rbind (CreateMask prefix_len) (\<lambda>mask.
        Inr (Some (m_addr\<lparr>sin_addr := sin_addr m_addr AND byteswapOnLittleEndian bo mask\<rparr>))))"

definition ip4_subnetMask :: "endian \<Rightarrow> 32 word \<Rightarrow> sockaddr_in result" where
  "ip4_subnetMask bo prefix_len =
     rbind (CreateMask prefix_len) (\<lambda>mask.
       Inr \<lparr>sin_family = AF_INET, sin_port = 0, sin_addr = NOT (byteswapOnLittleEndian bo mask), sin_zero = zeros 8\<rparr>)"

definition ip4_getPort :: "endian \<Rightarrow> sockaddr_in \<Rightarrow> 32 word" where
  "ip4_getPort bo m_addr = ucast (byteswapOnLittleEndian bo (sin_port m_addr))"

definition ip4_setPort :: "endian \<Rightarrow> 16 word \<Rightarrow> sockaddr_in \<Rightarrow> sockaddr_in" where
  "ip4_setPort bo v m_addr = m_addr\<lparr>sin_port := byteswapOnLittleEndian bo v\<rparr>"

section \<open>IPv6\<close>

definition mk_IPv6Address :: sockaddr_in6 where
  "mk_IPv6Address = \<lparr>sin6_family = AF_INET6, sin6_port = 0, sin6_flowinfo = 0, sin6_addr = zeros 16, sin6_scope_id = 0\<rparr>"

definition mk_IPv6Address_of :: "endian \<Rightarrow> byte list \<Rightarrow> 16 word \<Rightarrow> sockaddr_in6" where
  "mk_IPv6Address_of bo address port = mk_IPv6Address\<lparr>sin6_port := byteswapOnLittleEndian bo port, sin6_addr := take 16 address\<rparr>"

definition IPv6Address_Create :: "endian \<Rightarrow> (string \<Rightarrow> int \<times> byte list) \<Rightarrow> string \<Rightarrow> 16 word \<Rightarrow> sockaddr_in6 option" where
  "IPv6Address_Create bo inet_pton address port =
     (let rt = mk_IPv6Address\<lparr>sin6_port := byteswapOnLittleEndian bo port\<rparr>;
          (result, a) = inet_pton address
      in if result \<le> 0 then None else Some (rt\<lparr>sin6_addr := a\<rparr>))"

text \<open>The address as eight integers of the machine, and one of them as \<^verbatim>\<open>std::hex\<close> prints it.\<close>

definition in6_groups :: "endian \<Rightarrow> byte list \<Rightarrow> 16 word list" where
  "in6_groups bo bs = map (\<lambda>i. mem_word bo (mem_range bs (2 * i) 2)) [0..<8]"

definition hex_of :: "nat \<Rightarrow> char" where
  "hex_of n = ''0123456789abcdef'' ! n"

fun show_hex :: "nat \<Rightarrow> string" where
  "show_hex n = (if n < 16 then [hex_of n] else show_hex (n div 16) @ [hex_of (n mod 16)])"

declare show_hex.simps [simp del]

text \<open>The loop over the groups, from group \<open>i\<close> on; with what it has printed, whether it has shortened zeros.\<close>

fun ip6_loop :: "endian \<Rightarrow> 16 word list \<Rightarrow> nat \<Rightarrow> nat \<Rightarrow> bool \<Rightarrow> string \<times> bool" where
  "ip6_loop bo addr i 0 used_zeros = ([], used_zeros)"
| "ip6_loop bo addr i (Suc n) used_zeros =
     (if addr ! i = 0 \<and> \<not> used_zeros then ip6_loop bo addr (Suc i) n used_zeros
      else
        let shorten = 0 < i \<and> addr ! (i - 1) = 0 \<and> \<not> used_zeros;
            (s, used_zeros) = ip6_loop bo addr (Suc i) n (used_zeros \<or> shorten)
        in ((if shorten then '':'' else []) @ (if 0 < i then '':'' else []) @
            show_hex (unat (byteswapOnLittleEndian bo (addr ! i))) @ s, used_zeros))"

definition ip6_text :: "endian \<Rightarrow> 16 word list \<Rightarrow> string" where
  "ip6_text bo addr = (let (s, used_zeros) = ip6_loop bo addr 0 8 False
     in s @ (if \<not> used_zeros \<and> addr ! 7 = 0 then ''::'' else []))"

definition ip6_insert :: "endian \<Rightarrow> sockaddr_in6 \<Rightarrow> string" where
  "ip6_insert bo m_addr =
     ''['' @ ip6_text bo (in6_groups bo (sin6_addr m_addr)) @ '']:'' @
     show_nat (unat (byteswapOnLittleEndian bo (sin6_port m_addr)))"

text \<open>A write \<^verbatim>\<open>a[i] = b\<close> to the array of bytes; behind its end it is undefined.\<close>

definition s6_set :: "nat \<Rightarrow> (byte \<Rightarrow> byte) \<Rightarrow> byte list \<Rightarrow> byte list result" where
  "s6_set i f a = (if i < length a then Inr (a[i := f (a ! i)]) else Inl Oob_access)"

fun s6_fill :: "byte \<Rightarrow> nat \<Rightarrow> nat \<Rightarrow> byte list \<Rightarrow> byte list" where
  "s6_fill b i 0 a = a"
| "s6_fill b i (Suc n) a = s6_fill b (Suc i) n (a[i := b])"

definition ip6_broadcastAddress :: "32 word \<Rightarrow> sockaddr_in6 \<Rightarrow> sockaddr_in6 result" where
  "ip6_broadcastAddress prefix_len m_addr =
     (let i = unat prefix_len div 8 in
      rbind (CreateMask (prefix_len mod 8)) (\<lambda>mask.
        rbind (s6_set i (\<lambda>b. b OR mask) (sin6_addr m_addr)) (\<lambda>a.
          Inr (m_addr\<lparr>sin6_addr := s6_fill 0xFF (i + 1) (16 - (i + 1)) a\<rparr>))))"

definition ip6_networdAddress :: "32 word \<Rightarrow> sockaddr_in6 \<Rightarrow> sockaddr_in6 result" where
  "ip6_networdAddress prefix_len m_addr =
     (let i = unat prefix_len div 8 in
      rbind (CreateMask (prefix_len mod 8)) (\<lambda>mask.
        rbind (s6_set i (\<lambda>b. b AND mask) (sin6_addr m_addr)) (\<lambda>a.
          Inr (m_addr\<lparr>sin6_addr := s6_fill 0x00 (i + 1) (16 - (i + 1)) a\<rparr>))))"

definition ip6_subnetMask :: "32 word \<Rightarrow> sockaddr_in6 result" where
  "ip6_subnetMask prefix_len =
     (let i = unat prefix_len div 8 in
      rbind (CreateMask (prefix_len mod 8)) (\<lambda>mask.
        rbind (s6_set i (\<lambda>_. NOT mask) (zeros 16)) (\<lambda>a.
          Inr (mk_IPv6Address\<lparr>sin6_addr := s6_fill 0xFF 0 i a\<rparr>))))"

definition ip6_getPort :: "endian \<Rightarrow> sockaddr_in6 \<Rightarrow> 32 word" where
  "ip6_getPort bo m_addr = ucast (byteswapOnLittleEndian bo (sin6_port m_addr))"

definition ip6_setPort :: "endian \<Rightarrow> 16 word \<Rightarrow> sockaddr_in6 \<Rightarrow> sockaddr_in6" where
  "ip6_setPort bo v m_addr = m_addr\<lparr>sin6_port := byteswapOnLittleEndian bo v\<rparr>"

section \<open>Unix and unknown addresses\<close>

text \<open>The path in \<^verbatim>\<open>sockaddr_un\<close> has 108 bytes behind the two of the family.\<close>

definition MAX_PATH_LEN :: nat where "MAX_PATH_LEN = 108 - 1"

definition mk_UnixAddress :: address where
  "mk_UnixAddress = UnixAddress \<lparr>sun_family = AF_UNIX, sun_path = zeros 108\<rparr> (of_nat (2 + MAX_PATH_LEN))"

definition mk_UnixAddress_of :: "string \<Rightarrow> address result" where
  "mk_UnixAddress_of path =
     (let m_length = of_nat (length path) + 1;
          m_length = (if path \<noteq> [] \<and> hd path = CHR 0x00 then m_length - 1 else m_length)
      in if unat m_length > 108 then Inl (Logic_error ''path too long'')
         else Inr (UnixAddress \<lparr>sun_family = AF_UNIX,
                sun_path = overwrite (zeros 108) 0 (take (unat m_length) (bytes path @ [0]))\<rparr> (m_length + 2)))"

definition setAddrLen :: "32 word \<Rightarrow> address \<Rightarrow> address" where
  "setAddrLen v a = (case a of UnixAddress m_addr _ \<Rightarrow> UnixAddress m_addr v | _ \<Rightarrow> a)"

text \<open>Printing a C string that starts in an array: without a NUL in it the print runs off its end.\<close>

definition un_insert :: "sockaddr_un \<Rightarrow> 32 word \<Rightarrow> string result" where
  "un_insert m_addr m_length =
     (if m_length > 2 \<and> sun_path m_addr ! 0 = 0 then
        let n = unat m_length - 2 - 1 in
        if n > 108 - 1 then Inl Oob_access
        else Inr ([CHR 0x5C, CHR ''0''] @ chars (mem_range (sun_path m_addr) 1 n))
      else if 0 \<in> set (sun_path m_addr) then Inr (chars (takeWhile (\<lambda>b. b \<noteq> 0) (sun_path m_addr)))
      else Inl Oob_access)"

definition mk_UnknownAddress :: "16 word \<Rightarrow> address" where
  "mk_UnknownAddress family = UnknownAddress \<lparr>sa_family = family, sa_data = zeros 14\<rparr>"

definition unknown_insert :: "sockaddr \<Rightarrow> string" where
  "unknown_insert m_addr = ''[UnknownAddress family='' @ show_nat (unat (sa_family m_addr)) @ '']''"

definition address_insert :: "endian \<Rightarrow> address \<Rightarrow> string result" where
  "address_insert bo a = (case a of IPv4Address m_addr \<Rightarrow> Inr (ip4_insert bo m_addr) | IPv6Address m_addr \<Rightarrow> Inr (ip6_insert bo m_addr)
     | UnixAddress m_addr m_length \<Rightarrow> un_insert m_addr m_length | UnknownAddress m_addr \<Rightarrow> Inr (unknown_insert m_addr))"

section \<open>Looking up\<close>

text \<open>The first place of a character, \<^verbatim>\<open>memchr\<close>.\<close>

definition memchr :: "string \<Rightarrow> char \<Rightarrow> nat option" where
  "memchr s c = (if c \<in> set s then Some (length (takeWhile (\<lambda>x. x \<noteq> c) s)) else None)"

text \<open>How \<^verbatim>\<open>Lookup\<close> splits a host into a node and, behind a colon, a service.\<close>

definition lookup_split :: "string \<Rightarrow> string \<times> string option" where
  "lookup_split host =
     (let (node, service) =
        (if host \<noteq> [] \<and> hd host = CHR ''['' then
           case memchr (tl host) (CHR '']'') of
             Some e \<Rightarrow> (take e (tl host),
               if take 1 (drop (e + 2) host) = '':'' then Some (drop (e + 3) host) else None)
           | None \<Rightarrow> ([], None)
         else ([], None));
        (node, service) =
        (if node = [] then
           case memchr host (CHR '':'') of
             Some i \<Rightarrow> if CHR '':'' \<notin> set (drop (i + 1) host) then (take i host, Some (drop (i + 1) host))
                       else (node, Some (drop i host))
           | None \<Rightarrow> (node, None)
         else (node, service))
      in if node = [] then (host, service) else (node, service))"

record ai_hints =
  ai_flags :: int
  ai_family :: "16 word"
  ai_socktype :: int
  ai_protocol :: int

record ai_result =
  ai_addr :: "byte list option"
  ai_addrlen :: "32 word"

text \<open>\<^verbatim>\<open>getaddrinfo(node, service, hints)\<close>: the code of an error, or the list of the results.\<close>

type_synonym getaddrinfo = "string \<Rightarrow> string option \<Rightarrow> ai_hints \<Rightarrow> int + ai_result list"

fun create_loop :: "endian \<Rightarrow> ai_result list \<Rightarrow> address option list \<Rightarrow> address option list result" where
  "create_loop bo [] result = Inr result"
| "create_loop bo (next # rest) result =
     rbind (Address_Create bo (ai_addr next) (ai_addrlen next)) (\<lambda>a. create_loop bo rest (result @ [a]))"

definition Lookup :: "endian \<Rightarrow> getaddrinfo \<Rightarrow> address option list \<Rightarrow> string \<Rightarrow> 16 word \<Rightarrow> int \<Rightarrow> int
    \<Rightarrow> (bool \<times> address option list) result" where
  "Lookup bo getaddrinfo result host family type protocol =
     (let hints = \<lparr>ai_flags = 0, ai_family = family, ai_socktype = type, ai_protocol = protocol\<rparr>;
          (node, service) = lookup_split host
      in case getaddrinfo (c_str node) (map_option c_str service) hints of
           Inl error \<Rightarrow> Inr (False, result)
         | Inr results \<Rightarrow> rbind (create_loop bo results result) (\<lambda>result. Inr (True, result)))"

definition LookupAny :: "endian \<Rightarrow> getaddrinfo \<Rightarrow> string \<Rightarrow> 16 word \<Rightarrow> int \<Rightarrow> int \<Rightarrow> address option result" where
  "LookupAny bo getaddrinfo host family type protocol =
     rbind (Lookup bo getaddrinfo [] host family type protocol) (\<lambda>(ok, result).
       if ok then (case result of [] \<Rightarrow> Inl Oob_access | a # _ \<Rightarrow> Inr a) else Inr None)"

definition is_IPAddress :: "address \<Rightarrow> bool" where
  "is_IPAddress a = (case a of IPv4Address _ \<Rightarrow> True | IPv6Address _ \<Rightarrow> True | _ \<Rightarrow> False)"

text \<open>The loop that prints every address found, through its pointer.\<close>

fun print_loop :: "endian \<Rightarrow> address option list \<Rightarrow> string \<Rightarrow> string result" where
  "print_loop bo [] out = Inr out"
| "print_loop bo (None # as) out = Inl Null_deref"
| "print_loop bo (Some a # as) out = rbind (address_insert bo a) (\<lambda>s. print_loop bo as (out @ s @ [CHR 0x0A]))"

text \<open>The address and what it has printed to the standard output.\<close>

definition LookupAnyIPAddress :: "endian \<Rightarrow> getaddrinfo \<Rightarrow> string \<Rightarrow> 16 word \<Rightarrow> int \<Rightarrow> int \<Rightarrow> (address option \<times> string) result" where
  "LookupAnyIPAddress bo getaddrinfo host family type protocol =
     rbind (Lookup bo getaddrinfo [] host family type protocol) (\<lambda>(ok, result).
       if ok then rbind (print_loop bo result []) (\<lambda>out. Inr (find is_IPAddress (map the (filter (\<lambda>a. a \<noteq> None) result)), out))
       else Inr (None, []))"

definition AI_NUMERICHOST :: int where "AI_NUMERICHOST = 4"

definition IPAddress_Create :: "endian \<Rightarrow> getaddrinfo \<Rightarrow> string \<Rightarrow> 16 word \<Rightarrow> address option result" where
  "IPAddress_Create bo getaddrinfo address port =
     (case getaddrinfo (c_str address) None \<lparr>ai_flags = AI_NUMERICHOST, ai_family = AF_UNSPEC, ai_socktype = 0, ai_protocol = 0\<rparr> of
        Inl error \<Rightarrow> Inr None
      | Inr [] \<Rightarrow> Inl Null_deref
      | Inr (results # _) \<Rightarrow>
          rbind (Address_Create bo (ai_addr results) (ai_addrlen results)) (\<lambda>result. Inr (case result of
            Some (IPv4Address m_addr) \<Rightarrow> Some (IPv4Address (ip4_setPort bo port m_addr))
          | Some (IPv6Address m_addr) \<Rightarrow> Some (IPv6Address (ip6_setPort bo port m_addr))
          | _ \<Rightarrow> None)))"

section \<open>The addresses of the network interfaces\<close>

record ifaddrs =
  ifa_name :: string
  ifa_addr :: "byte list option"
  ifa_netmask :: "byte list option"

definition deref :: "'a option \<Rightarrow> 'a result" where
  "deref p = (case p of None \<Rightarrow> Inl Null_deref | Some a \<Rightarrow> Inr a)"

definition str_less :: "string \<Rightarrow> string \<Rightarrow> bool" where
  "str_less s t \<longleftrightarrow> bytes s < bytes t"

text \<open>\<^verbatim>\<open>std::multimap\<close>: the entries in the order of their keys, equal keys in the order of insertion.\<close>

fun multimap_insert :: "string \<Rightarrow> 'v \<Rightarrow> (string \<times> 'v) list \<Rightarrow> (string \<times> 'v) list" where
  "multimap_insert k v [] = [(k, v)]"
| "multimap_insert k v (e # m) = (if str_less k (fst e) then (k, v) # e # m else e # multimap_insert k v m)"

definition count6_loop :: "byte list \<Rightarrow> 32 word" where
  "count6_loop netmask = foldl (\<lambda>prefix_len i. prefix_len + CountBytes (netmask ! i)) 0 [0..<16]"

definition iface_entry :: "endian \<Rightarrow> 16 word \<Rightarrow> ifaddrs \<Rightarrow> (address option \<times> 32 word) option result" where
  "iface_entry bo family ifa =
     rbind (deref (ifa_addr ifa)) (\<lambda>m.
     rbind (family_at bo m) (\<lambda>fam.
       if family \<noteq> AF_UNSPEC \<and> family \<noteq> fam then Inr None
       else if fam = AF_INET then
         rbind (Address_Create bo (ifa_addr ifa) 16) (\<lambda>addr.
         rbind (deref (ifa_netmask ifa)) (\<lambda>nm. rbind (in_at bo nm) (\<lambda>netmask.
           Inr (Some (addr, CountBytes (sin_addr netmask))))))
       else if fam = AF_INET6 then
         rbind (Address_Create bo (ifa_addr ifa) 28) (\<lambda>addr.
         rbind (deref (ifa_netmask ifa)) (\<lambda>nm. rbind (in6_at bo nm) (\<lambda>netmask.
           Inr (Some (addr, count6_loop (sin6_addr netmask))))))
       else Inr None))"

fun iface_loop :: "endian \<Rightarrow> 16 word \<Rightarrow> ifaddrs list \<Rightarrow> (string \<times> (address option \<times> 32 word)) list
    \<Rightarrow> (string \<times> (address option \<times> 32 word)) list result" where
  "iface_loop bo family [] result = Inr result"
| "iface_loop bo family (next # rest) result =
     rbind (iface_entry bo family next) (\<lambda>e. case e of
       None \<Rightarrow> iface_loop bo family rest result
     | Some (None, _) \<Rightarrow> iface_loop bo family rest result
     | Some (addr, prefix_len) \<Rightarrow> iface_loop bo family rest (multimap_insert (ifa_name next) (addr, prefix_len) result))"

text \<open>\<^verbatim>\<open>getifaddrs\<close> gives the list of the interfaces' addresses, or fails.\<close>

definition GetInterfaceAddresses :: "endian \<Rightarrow> ifaddrs list option \<Rightarrow> 16 word \<Rightarrow> (string \<times> (address option \<times> 32 word)) list
    \<Rightarrow> (bool \<times> (string \<times> (address option \<times> 32 word)) list) result" where
  "GetInterfaceAddresses bo getifaddrs family result =
     (case getifaddrs of
        None \<Rightarrow> Inr (False, result)
      | Some results \<Rightarrow> rbind (iface_loop bo family results result) (\<lambda>result. Inr (True, result)))"

definition GetInterfaceAddresses_of :: "endian \<Rightarrow> ifaddrs list option \<Rightarrow> string \<Rightarrow> 16 word \<Rightarrow> (address option \<times> 32 word) list
    \<Rightarrow> (bool \<times> (address option \<times> 32 word) list) result" where
  "GetInterfaceAddresses_of bo getifaddrs iface family result =
     (if iface = [] \<or> iface = ''*'' then
        Inr (True, result @
          (if family = AF_INET \<or> family = AF_UNSPEC then [(Some (IPv4Address (mk_IPv4Address bo 0 0)), 0)] else []) @
          (if family = AF_INET6 \<or> family = AF_UNSPEC then [(Some (IPv6Address mk_IPv6Address), 0)] else []))
      else rbind (GetInterfaceAddresses bo getifaddrs family []) (\<lambda>(ok, results).
        if \<not> ok then Inr (False, result)
        else Inr (True, result @ map snd (filter (\<lambda>e. \<not> str_less (fst e) iface \<and> \<not> str_less iface (fst e)) results))))"

end
