(* ===== verification/Address_Laws.thy ===== *)
theory Address_Laws
  imports Address
begin

text \<open>
  What socket addresses promise, over the model of \<^verbatim>\<open>captain/address.cpp\<close> in theory \<open>Address\<close>: the prefix
  operations, the text of an address, the order of addresses and their reading from memory.
\<close>

section \<open>Lemmas: masks and prefixes\<close>

lemma count_loop_ones: "count_loop value result = result + of_nat (ones (unat value))"
proof (induction "value" result rule: count_loop.induct)
  case (1 "value" result)
  show ?case
  proof (cases "value = 0")
    case True
    then show ?thesis by (simp add: count_loop.simps ones.simps)
  next
    case False
    then have "ones (unat value) = Suc (ones (unat (value AND (value - 1))))"
      by (metis and_pred_nat(2) unat_and_pred unat_gt_0)
    then show ?thesis using False 1 by (simp add: count_loop.simps[of "value"])
  qed
qed

lemma ones_card: "finite {i. bit n i} \<and> ones n = card {i. bit n i}" for n :: nat
proof (induction n rule: less_induct)
  case (less n)
  show ?case
  proof (cases "n = 0")
    case True
    then show ?thesis by (simp add: ones.simps)
  next
    case False
    then have IH: "finite {i. bit (n div 2) i}" "ones (n div 2) = card {i. bit (n div 2) i}" using less[of "n div 2"] by auto
    have e: "{i. bit n i} = (if odd n then {0} else {}) \<union> Suc ` {i. bit (n div 2) i}"
      by (auto simp: image_iff bit_Suc bit_0 elim: not0_implies_Suc split: if_splits) (metis bit_0 bit_Suc not0_implies_Suc)+
    have "card (Suc ` {i. bit (n div 2) i}) = ones (n div 2)" using IH by (simp add: card_image)
    then show ?thesis using False IH(1) unfolding e by (subst ones.simps) (auto simp: odd_iff_mod_2_eq_one)
  qed
qed

lemma CountBytes_card: "CountBytes value = of_nat (card {i. bit value i})"
  using ones_card[of "unat value"] by (simp add: CountBytes_def count_loop_ones bit_unsigned_iff)

lemma CreateMask_word:
  "2 \<le> unat p \<Longrightarrow> unat p \<le> 32 \<Longrightarrow> (CreateMask p :: 32 word result) = Inr (mask (32 - unat p))"
  "unat p = 0 \<Longrightarrow> (CreateMask p :: 32 word result) = Inl Bad_shift"
  "unat p = 1 \<Longrightarrow> (CreateMask p :: 32 word result) = Inl Signed_overflow"
  "32 < unat p \<Longrightarrow> (CreateMask p :: 32 word result) = Inl Bad_shift"
  using unsigned_less[of p, where ?'a = nat]
  by (auto simp: CreateMask_def Let_def size_sub_def mask_eq_exp_minus_1 push_bit_of_1)

lemma CreateMask_byte: "(CreateMask (p mod 8) :: byte result) = Inr (mask (8 - unat p mod 8))"
proof -
  have "unat (p mod 8) = unat p mod 8" by (simp add: unat_mod_distrib)
  moreover have "\<not> 32 \<le> 8 - unat p mod 8" "8 - unat p mod 8 \<noteq> 31" by linarith+
  ultimately show ?thesis by (simp add: CreateMask_def Let_def mask_eq_exp_minus_1 push_bit_of_1 less_imp_le)
qed

lemma bit_byteswap:
  fixes w :: "'a::len word"
  assumes "8 dvd LENGTH('a)" "n < LENGTH('a)"
  shows "bit (byteswap w) n \<longleftrightarrow> bit w (8 * (LENGTH('a) div 8 - Suc (n div 8)) + n mod 8)"
proof -
  have "n div 8 < LENGTH('a) div 8" using assms by (metis dvd_div_mult_self less_mult_imp_div_less)
  then show ?thesis using assms(2)
    by (simp add: byteswap_def bit_le_word rev_nth le_bytes_def bit_simps)
qed

lemma byteswapOnLittleEndian_bitwise:
  fixes v w :: "'a::len word"
  assumes "8 dvd LENGTH('a)"
  shows "byteswapOnLittleEndian bo (v OR w) = byteswapOnLittleEndian bo v OR byteswapOnLittleEndian bo w"
    "byteswapOnLittleEndian bo (v AND w) = byteswapOnLittleEndian bo v AND byteswapOnLittleEndian bo w"
    "byteswapOnLittleEndian bo (NOT v) = NOT (byteswapOnLittleEndian bo v)"
proof -
  have *: "8 * (LENGTH('a) div 8 - Suc (n div 8)) + n mod 8 < LENGTH('a)" if n: "n < LENGTH('a)" for n
  proof -
    obtain m where m: "LENGTH('a) = 8 * m" using assms by (elim dvdE)
    then have "n div 8 < m" using n by simp
    then show ?thesis using m by simp
  qed
  have "byteswap (v OR w) = byteswap v OR byteswap w" "byteswap (v AND w) = byteswap v AND byteswap w"
    "byteswap (NOT v) = NOT (byteswap v)"
    by (rule bit_word_eqI; simp add: bit_byteswap[OF assms] bit_or_iff bit_and_iff bit_not_iff *)+
  then show "byteswapOnLittleEndian bo (v OR w) = byteswapOnLittleEndian bo v OR byteswapOnLittleEndian bo w"
    "byteswapOnLittleEndian bo (v AND w) = byteswapOnLittleEndian bo v AND byteswapOnLittleEndian bo w"
    "byteswapOnLittleEndian bo (NOT v) = NOT (byteswapOnLittleEndian bo v)"
    by (simp_all add: byteswapOnLittleEndian_def)
qed

lemma s6_fill_nth:
  "i + n \<le> length a \<Longrightarrow> length (s6_fill b i n a) = length a \<and>
     (\<forall>j < length a. s6_fill b i n a ! j = (if i \<le> j \<and> j < i + n then b else a ! j))"
  by (induction n arbitrary: i a) (auto simp: nth_list_update)

text \<open>Addresses as the numbers they stand for: what follows a prefix are the low bits.\<close>

definition ip4_value :: "endian \<Rightarrow> sockaddr_in \<Rightarrow> 32 word" where
  "ip4_value bo a = byteswapOnLittleEndian bo (sin_addr a)"

definition ip6_value :: "sockaddr_in6 \<Rightarrow> 128 word" where
  "ip6_value a = le_word (rev (sin6_addr a))"

lemma bit_ip6_value:
  "length (sin6_addr a) = 16 \<Longrightarrow> bit (ip6_value a) n \<longleftrightarrow> n < 128 \<and> bit (sin6_addr a ! (15 - n div 8)) (n mod 8)"
  by (auto simp: ip6_value_def bit_le_word rev_nth)

lemma ip4_prefix:
  assumes "2 \<le> unat p" "unat p \<le> 32"
  shows "\<exists>b. ip4_broadcastAddress bo p a = Inr (Some (a\<lparr>sin_addr := b\<rparr>)) \<and>
      ip4_value bo (a\<lparr>sin_addr := b\<rparr>) = ip4_value bo a OR mask (32 - unat p)"
    "\<exists>b. ip4_networdAddress bo p a = Inr (Some (a\<lparr>sin_addr := b\<rparr>)) \<and>
      ip4_value bo (a\<lparr>sin_addr := b\<rparr>) = ip4_value bo a AND mask (32 - unat p)"
    "\<exists>s. ip4_subnetMask bo p = Inr s \<and> sin_family s = AF_INET \<and> ip4_value bo s = NOT (mask (32 - unat p))"
proof -
  have "\<not> 32 < p" using assms(2) by (simp add: word_less_nat_alt)
  then show "\<exists>b. ip4_broadcastAddress bo p a = Inr (Some (a\<lparr>sin_addr := b\<rparr>)) \<and>
      ip4_value bo (a\<lparr>sin_addr := b\<rparr>) = ip4_value bo a OR mask (32 - unat p)"
    "\<exists>b. ip4_networdAddress bo p a = Inr (Some (a\<lparr>sin_addr := b\<rparr>)) \<and>
      ip4_value bo (a\<lparr>sin_addr := b\<rparr>) = ip4_value bo a AND mask (32 - unat p)"
    using CreateMask_word(1)[OF assms]
    by (auto simp: ip4_broadcastAddress_def ip4_networdAddress_def ip4_value_def byteswapOnLittleEndian_bitwise
      byteswapOnLittleEndian_involution)
  show "\<exists>s. ip4_subnetMask bo p = Inr s \<and> sin_family s = AF_INET \<and> ip4_value bo s = NOT (mask (32 - unat p))"
    using CreateMask_word(1)[OF assms]
    by (simp add: ip4_subnetMask_def ip4_value_def byteswapOnLittleEndian_bitwise byteswapOnLittleEndian_involution)
qed

lemma ip4_prefix_edge:
  "unat p = 0 \<Longrightarrow> ip4_broadcastAddress bo p a = Inl Bad_shift \<and> ip4_networdAddress bo p a = Inl Bad_shift \<and>
     ip4_subnetMask bo p = Inl Bad_shift"
  "unat p = 1 \<Longrightarrow> ip4_broadcastAddress bo p a = Inl Signed_overflow \<and> ip4_networdAddress bo p a = Inl Signed_overflow \<and>
     ip4_subnetMask bo p = Inl Signed_overflow"
  "32 < unat p \<Longrightarrow> ip4_broadcastAddress bo p a = Inr None \<and> ip4_networdAddress bo p a = Inr None \<and>
     ip4_subnetMask bo p = Inl Bad_shift"
  using CreateMask_word[of p]
  by (auto simp: ip4_broadcastAddress_def ip4_networdAddress_def ip4_subnetMask_def word_less_nat_alt)

text \<open>Where bit \<open>n\<close> of the number lies relative to a prefix of \<open>p\<close> bits, byte and bit in it.\<close>

lemma prefix_position:
  fixes n p :: nat
  assumes "n < 128" "p < 128"
  shows "n < 128 - p \<longleftrightarrow> p div 8 < 15 - n div 8 \<or> 15 - n div 8 = p div 8 \<and> n mod 8 < 8 - p mod 8"
proof -
  have "n = 8 * (n div 8) + n mod 8" "n mod 8 < 8" "p = 8 * (p div 8) + p mod 8" "p mod 8 < 8" by simp_all
  then show ?thesis using assms by linarith
qed

lemma prefix_byte:
  fixes n q :: nat
  assumes "n < 128" "q < 16"
  shows "n < 128 - q * 8 \<longleftrightarrow> q \<le> 15 - n div 8" "n < 120 - q * 8 \<longleftrightarrow> q < 15 - n div 8"
proof -
  have "n = 8 * (n div 8) + n mod 8" "n mod 8 < 8" by simp_all
  then show "n < 128 - q * 8 \<longleftrightarrow> q \<le> 15 - n div 8" "n < 120 - q * 8 \<longleftrightarrow> q < 15 - n div 8"
    using assms by linarith+
qed

lemma ip6_prefix:
  assumes p: "unat p < 128" and len: "length (sin6_addr a) = 16"
  shows "\<exists>b. ip6_broadcastAddress p a = Inr (a\<lparr>sin6_addr := b\<rparr>) \<and> length b = 16 \<and>
      ip6_value (a\<lparr>sin6_addr := b\<rparr>) = ip6_value a OR mask (128 - unat p)"
    "\<exists>b. ip6_networdAddress p a = Inr (a\<lparr>sin6_addr := b\<rparr>) \<and> length b = 16 \<and>
      ip6_value (a\<lparr>sin6_addr := b\<rparr>) = ip6_value a AND
        (NOT (mask (128 - unat p div 8 * 8)) OR mask (128 - unat p) AND NOT (mask (120 - unat p div 8 * 8)))"
    "\<exists>s. ip6_subnetMask p = Inr s \<and> sin6_family s = AF_INET6 \<and> length (sin6_addr s) = 16 \<and>
      ip6_value s = NOT (mask (128 - unat p))"
proof -
  define q where "q = unat p div 8"
  have q: "q < 16" using p by (simp add: q_def)
  define b1 where "b1 = s6_fill 0xFF (q + 1) (16 - (q + 1)) ((sin6_addr a)[q := sin6_addr a ! q OR mask (8 - unat p mod 8)])"
  define b2 where "b2 = s6_fill 0x00 (q + 1) (16 - (q + 1)) ((sin6_addr a)[q := sin6_addr a ! q AND mask (8 - unat p mod 8)])"
  define b3 where "b3 = s6_fill 0xFF 0 q ((zeros 16)[q := NOT (mask (8 - unat p mod 8))])"
  have z: "length (zeros 16) = 16" "\<And>j. j < 16 \<Longrightarrow> zeros 16 ! j = 0" by (simp_all add: zeros_def)
  have b1: "length b1 = 16" "\<And>j. j < 16 \<Longrightarrow> b1 ! j = (if q < j then 0xFF else if j = q then sin6_addr a ! q OR mask (8 - unat p mod 8) else sin6_addr a ! j)"
    using s6_fill_nth[of "q + 1" "16 - (q + 1)" "(sin6_addr a)[q := sin6_addr a ! q OR mask (8 - unat p mod 8)]" "0xFF"] q len
    by (auto simp: b1_def nth_list_update)
  have b2: "length b2 = 16" "\<And>j. j < 16 \<Longrightarrow> b2 ! j = (if q < j then 0 else if j = q then sin6_addr a ! q AND mask (8 - unat p mod 8) else sin6_addr a ! j)"
    using s6_fill_nth[of "q + 1" "16 - (q + 1)" "(sin6_addr a)[q := sin6_addr a ! q AND mask (8 - unat p mod 8)]" "0"] q len
    by (auto simp: b2_def nth_list_update)
  have b3: "length b3 = 16" "\<And>j. j < 16 \<Longrightarrow> b3 ! j = (if j < q then 0xFF else if j = q then NOT (mask (8 - unat p mod 8)) else 0)"
    using s6_fill_nth[of 0 q "(zeros 16)[q := NOT (mask (8 - unat p mod 8))]" "0xFF"] q z
    by (auto simp: b3_def nth_list_update)
  have FF: "(0xFF :: byte) = mask 8" by (simp add: mask_eq_exp_minus_1)
  show "\<exists>b. ip6_broadcastAddress p a = Inr (a\<lparr>sin6_addr := b\<rparr>) \<and> length b = 16 \<and>
      ip6_value (a\<lparr>sin6_addr := b\<rparr>) = ip6_value a OR mask (128 - unat p)"
  proof (intro exI[of _ b1] conjI)
    show "ip6_broadcastAddress p a = Inr (a\<lparr>sin6_addr := b1\<rparr>)"
      using q len by (simp add: ip6_broadcastAddress_def Let_def CreateMask_byte s6_set_def b1_def q_def[symmetric])
    show "ip6_value (a\<lparr>sin6_addr := b1\<rparr>) = ip6_value a OR mask (128 - unat p)"
      by (rule bit_word_eqI)
        (auto simp: bit_ip6_value b1 len bit_or_iff bit_mask_iff FF prefix_position[OF _ p] q_def)
  qed (rule b1)
  show "\<exists>b. ip6_networdAddress p a = Inr (a\<lparr>sin6_addr := b\<rparr>) \<and> length b = 16 \<and>
      ip6_value (a\<lparr>sin6_addr := b\<rparr>) = ip6_value a AND
        (NOT (mask (128 - unat p div 8 * 8)) OR mask (128 - unat p) AND NOT (mask (120 - unat p div 8 * 8)))"
  proof (intro exI[of _ b2] conjI)
    show "ip6_networdAddress p a = Inr (a\<lparr>sin6_addr := b2\<rparr>)"
      using q len by (simp add: ip6_networdAddress_def Let_def CreateMask_byte s6_set_def b2_def q_def[symmetric])
    show "ip6_value (a\<lparr>sin6_addr := b2\<rparr>) = ip6_value a AND
        (NOT (mask (128 - unat p div 8 * 8)) OR mask (128 - unat p) AND NOT (mask (120 - unat p div 8 * 8)))"
      by (rule bit_word_eqI)
        (auto simp: bit_ip6_value b2 len bit_or_iff bit_and_iff bit_not_iff bit_mask_iff prefix_position[OF _ p]
          prefix_byte[OF _ q] q_def[symmetric])
  qed (rule b2)
  show "\<exists>s. ip6_subnetMask p = Inr s \<and> sin6_family s = AF_INET6 \<and> length (sin6_addr s) = 16 \<and>
      ip6_value s = NOT (mask (128 - unat p))"
  proof (intro exI[of _ "mk_IPv6Address\<lparr>sin6_addr := b3\<rparr>"] conjI)
    show "ip6_subnetMask p = Inr (mk_IPv6Address\<lparr>sin6_addr := b3\<rparr>)"
      using q z by (simp add: ip6_subnetMask_def Let_def CreateMask_byte s6_set_def b3_def q_def[symmetric])
    show "ip6_value (mk_IPv6Address\<lparr>sin6_addr := b3\<rparr>) = NOT (mask (128 - unat p))"
      by (rule bit_word_eqI)
        (auto simp: bit_ip6_value b3 bit_not_iff bit_mask_iff FF prefix_position[OF _ p] q_def)
  qed (simp_all add: mk_IPv6Address_def b3)
qed

lemma ip6_prefix_edge:
  assumes "128 \<le> unat p" "length (sin6_addr a) = 16"
  shows "ip6_broadcastAddress p a = Inl Oob_access" "ip6_networdAddress p a = Inl Oob_access" "ip6_subnetMask p = Inl Oob_access"
proof -
  have "\<not> unat p div 8 < 16" using assms(1) by linarith
  then show "ip6_broadcastAddress p a = Inl Oob_access" "ip6_networdAddress p a = Inl Oob_access" "ip6_subnetMask p = Inl Oob_access"
    using assms(2) by (simp_all add: ip6_broadcastAddress_def ip6_networdAddress_def ip6_subnetMask_def Let_def
      CreateMask_byte s6_set_def zeros_def)
qed

subsection \<open>Counting the bits of a mask\<close>

lemma CountBytes_byteswap: "CountBytes (byteswap w) = CountBytes (w :: 32 word)"
proof -
  define f :: "nat \<Rightarrow> nat" where "f n = 8 * (3 - n div 8) + n mod 8" for n
  have f: "f n < 32" "f (f n) = n" if n: "n < 32" for n
  proof -
    define k m where "k = n div 8" and "m = n mod 8"
    then have km: "n = 8 * k + m" "m < 8" "k < 4" using n by auto
    then have "f n = 8 * (3 - k) + m" by (simp add: f_def)
    then show "f n < 32" "f (f n) = n" using km by (simp_all add: f_def)
  qed
  have bit: "bit (byteswap w) n \<longleftrightarrow> n < 32 \<and> bit w (f n)" for n
    using bit_byteswap[of n w] bit_imp_le_length[of "byteswap w" n] by (auto simp: f_def)
  have w: "n < 32" if "bit w n" for n using bit_imp_le_length[OF that] by simp
  have "bij_betw f {i. bit (byteswap w) i} {i. bit w i}"
    by (rule bij_betw_byWitness[where f' = f]) (auto simp: bit f f[OF w] dest: w)
  then show ?thesis by (simp add: CountBytes_card bij_betw_same_card)
qed

lemma CountBytes_swapped: "CountBytes (byteswapOnLittleEndian bo w) = CountBytes (w :: 32 word)"
  by (simp add: byteswapOnLittleEndian_def CountBytes_byteswap)

lemma card_prefix: "n \<le> LENGTH('a) \<Longrightarrow> card {i. bit (NOT (mask (LENGTH('a) - n)) :: 'a::len word) i} = n"
proof -
  assume n: "n \<le> LENGTH('a)"
  have "{i. bit (NOT (mask (LENGTH('a) - n)) :: 'a word) i} = {LENGTH('a) - n..<LENGTH('a)}"
    by (auto simp: bit_not_iff bit_mask_iff)
  then show ?thesis using n by simp
qed

lemma subnet4_count: "2 \<le> unat p \<Longrightarrow> unat p \<le> 32 \<Longrightarrow> ip4_subnetMask bo p = Inr s \<Longrightarrow> CountBytes (sin_addr s) = p"
  using ip4_prefix(3)[of p bo] card_prefix[where 'a = 32, of "unat p"] CountBytes_swapped[of bo "sin_addr s"]
  by (auto simp: ip4_value_def CountBytes_card)

lemma count6_sum: "count6_loop netmask = sum_list (map (\<lambda>i. CountBytes (netmask ! i)) [0..<16])"
proof -
  have "foldl (\<lambda>a i. a + f i) r xs = r + sum_list (map f xs)" for f :: "nat \<Rightarrow> 32 word" and r xs
    by (induction xs arbitrary: r) simp_all
  then show ?thesis by (simp add: count6_loop_def)
qed

lemma sum_blocks: "sum_list (map (\<lambda>i. if i < q then 8 else if i = q then r else 0) [0..<n]) = (if q < n then of_nat (8 * q) + r else of_nat (8 * n))"
  for r :: "32 word"
  by (induction n) auto

lemma subnet6_count:
  assumes p: "unat p < 128" and s: "ip6_subnetMask p = Inr s"
  shows "count6_loop (sin6_addr s) = p"
proof -
  define q where "q = unat p div 8"
  have q: "q < 16" using p by (simp add: q_def)
  have "sin6_addr s = s6_fill 0xFF 0 q ((zeros 16)[q := NOT (mask (8 - unat p mod 8))])"
    using s q by (auto simp: ip6_subnetMask_def Let_def CreateMask_byte s6_set_def zeros_def q_def[symmetric])
  then have b: "\<And>j. j < 16 \<Longrightarrow> sin6_addr s ! j = (if j < q then NOT (mask (8 - 8)) else if j = q then NOT (mask (8 - unat p mod 8)) else NOT (mask (8 - 0)))"
    using s6_fill_nth[of 0 q "(zeros 16)[q := NOT (mask (8 - unat p mod 8))]" "0xFF"] q
    by (auto simp: zeros_def nth_list_update mask_eq_exp_minus_1)
  have c: "CountBytes (NOT (mask (8 - k)) :: byte) = of_nat k" if "k \<le> 8" for k
    using card_prefix[where 'a = 8, of k] that by (simp add: CountBytes_card)
  have "map (\<lambda>i. CountBytes (sin6_addr s ! i)) [0..<16] =
      map (\<lambda>i. if i < q then 8 else if i = q then of_nat (unat p mod 8) else 0) [0..<16]"
    using c[of 8] c[of 0] c[of "unat p mod 8"] by (intro map_cong) (auto simp: b)
  then have "count6_loop (sin6_addr s) = of_nat (8 * q) + of_nat (unat p mod 8)"
    using q by (simp only: count6_sum sum_blocks if_True)
  also have "\<dots> = of_nat (8 * q + unat p mod 8)" by simp
  also have "8 * q + unat p mod 8 = unat p" by (simp add: q_def)
  also have "of_nat (unat p) = p" by simp
  finally show ?thesis .
qed

section \<open>Addresses in memory\<close>

text \<open>Addresses as the system and the constructors make them.\<close>

fun addr_ok :: "address \<Rightarrow> bool" where
  "addr_ok (IPv4Address a) \<longleftrightarrow> sin_family a = AF_INET \<and> length (sin_zero a) = 8"
| "addr_ok (IPv6Address a) \<longleftrightarrow> sin6_family a = AF_INET6 \<and> length (sin6_addr a) = 16"
| "addr_ok (UnixAddress a n) \<longleftrightarrow> sun_family a = AF_UNIX \<and> length (sun_path a) = 108 \<and> n \<le> 110"
| "addr_ok (UnknownAddress a) \<longleftrightarrow> length (sa_data a) = 14"

lemma images_read_back:
  "length (sin_zero a4) = 8 \<Longrightarrow> in_at bo (in_image bo a4) = Inr a4"
  "length (sin6_addr a6) = 16 \<Longrightarrow> in6_at bo (in6_image bo a6) = Inr a6"
  "length (sa_data sa) = 14 \<Longrightarrow> sa_at bo (sa_image bo sa) = Inr sa"
  by (simp_all add: in_at_def in_image_def in6_at_def in6_image_def sa_at_def sa_image_def mem_range_def)

lemma family_image:
  "family_at bo (in_image bo a4) = Inr (sin_family a4)"
  "family_at bo (in6_image bo a6) = Inr (sin6_family a6)"
  "family_at bo (un_image bo un) = Inr (sun_family un)"
  "family_at bo (sa_image bo sa) = Inr (sa_family sa)"
  by (simp_all add: family_at_def in_image_def in6_image_def un_image_def sa_image_def mem_range_def)

lemma create_image:
  "addr_ok (IPv4Address a4) \<Longrightarrow> Address_Create bo (Some (in_image bo a4)) n = Inr (Some (IPv4Address a4))"
  "addr_ok (IPv6Address a6) \<Longrightarrow> Address_Create bo (Some (in6_image bo a6)) n = Inr (Some (IPv6Address a6))"
  by (simp_all add: Address_Create_def family_image images_read_back AF_INET_def AF_INET6_def)

lemma length_getAddr: "addr_ok a \<Longrightarrow> unat (getAddrLen a) \<le> length (getAddr bo a)"
  by (cases a) (auto simp: getAddrLen_def getAddr_def in_image_def in6_image_def un_image_def sa_image_def word_le_nat_alt)

lemma memcmp_less: "length s = length t \<Longrightarrow> (memcmp_bytes s t < 0) = (s < t) \<and> (0 < memcmp_bytes s t) = (t < s)"
proof (induction s t rule: memcmp_bytes.induct)
  case (1 x xs y ys)
  then show ?case by auto
qed auto

lemma less_take:
  fixes s t :: "byte list"
  defines "m \<equiv> min (length s) (length t)"
  shows "s < t \<longleftrightarrow> take m s < take m t \<or> take m s = take m t \<and> length s < length t"
  unfolding m_def
proof (induction s arbitrary: t)
  case Nil
  then show ?case by (cases t) auto
next
  case (Cons x s)
  show ?case
  proof (cases t)
    case (Cons y u)
    then show ?thesis using Cons.IH[of u] by auto
  qed simp
qed

text \<open>The bytes of an address that count.\<close>

definition addr_image :: "endian \<Rightarrow> address \<Rightarrow> byte list" where
  "addr_image bo a = take (unat (getAddrLen a)) (getAddr bo a)"

lemma length_addr_image: "addr_ok a \<Longrightarrow> length (addr_image bo a) = unat (getAddrLen a)"
  using length_getAddr[of a bo] by (simp add: addr_image_def)

lemma address_less_lex:
  assumes "addr_ok a" "addr_ok b"
  shows "address_less bo a b = Inr (addr_image bo a < addr_image bo b)"
proof -
  let ?m = "min (unat (getAddrLen a)) (unat (getAddrLen b))"
  have m: "unat (min (getAddrLen a) (getAddrLen b)) = ?m" by (simp add: min_def word_le_nat_alt)
  have l: "?m \<le> length (getAddr bo a)" "?m \<le> length (getAddr bo b)"
    using length_getAddr[OF assms(1), of bo] length_getAddr[OF assms(2), of bo] by linarith+
  define s t where "s = take ?m (getAddr bo a)" and "t = take ?m (getAddr bo b)"
  have st: "length s = length t" using l by (simp add: s_def t_def)
  have c: "memcmp (getAddr bo a) (getAddr bo b) (unat (min (getAddrLen a) (getAddrLen b))) = Inr (memcmp_bytes s t)"
  proof -
    have "\<not> (length (getAddr bo a) < ?m \<or> length (getAddr bo b) < ?m)" using l by linarith
    then show ?thesis by (simp only: memcmp_def m s_def t_def if_False)
  qed
  have "take ?m (addr_image bo a) = s" "take ?m (addr_image bo b) = t"
    by (simp_all add: addr_image_def s_def t_def)
  then have A: "addr_image bo a < addr_image bo b \<longleftrightarrow> s < t \<or> s = t \<and> getAddrLen a < getAddrLen b"
    using less_take[of "addr_image bo a" "addr_image bo b"]
    by (simp only: length_addr_image[OF assms(1)] length_addr_image[OF assms(2)] word_less_nat_alt)
  have B: "address_less bo a b = Inr (if s < t then True else if t < s then False else getAddrLen a < getAddrLen b)"
    by (simp add: address_less_def Let_def c memcmp_less[OF st])
  show ?thesis unfolding A B by (cases rule: linorder_cases[of s t]) auto
qed

lemma address_eq_image:
  assumes "addr_ok a" "addr_ok b"
  shows "address_eq bo a b = Inr (addr_image bo a = addr_image bo b)"
proof (cases "getAddrLen a = getAddrLen b")
  case True
  define s t where "s = addr_image bo a" and "t = addr_image bo b"
  have st: "length s = length t" using True length_addr_image assms by (simp add: s_def t_def)
  have "memcmp (getAddr bo a) (getAddr bo b) (unat (getAddrLen a)) = Inr (memcmp_bytes s t)"
    using length_getAddr[OF assms(1), of bo] length_getAddr[OF assms(2), of bo] True
    by (simp add: memcmp_def s_def t_def addr_image_def)
  moreover have "memcmp_bytes s t = 0 \<longleftrightarrow> s = t" using memcmp_less[OF st] by auto
  ultimately show ?thesis using True by (simp add: address_eq_def s_def t_def)
next
  case False
  then have "length (addr_image bo a) \<noteq> length (addr_image bo b)" using length_addr_image assms by (simp add: word_unat_eq_iff)
  then show ?thesis using False by (auto simp: address_eq_def)
qed

section \<open>Addresses as text\<close>

text \<open>A reader for the printed forms, the specification: texts between separators, with gaps for zeros.\<close>

primrec split_on :: "char \<Rightarrow> string \<Rightarrow> string list" where
  "split_on c [] = [[]]"
| "split_on c (x # s) = (if x = c then [] # split_on c s else (case split_on c s of p # ps \<Rightarrow> (x # p) # ps | [] \<Rightarrow> []))"

fun join :: "char \<Rightarrow> string list \<Rightarrow> string" where
  "join c [] = []"
| "join c [p] = p"
| "join c (p # ps) = p @ c # join c ps"

definition hex_digit_val :: "char \<Rightarrow> nat" where
  "hex_digit_val c = (let n = of_char c in if n < 58 then n - 48 else n - 87)"

definition read_hex :: "string \<Rightarrow> nat" where
  "read_hex s = foldl (\<lambda>a c. a * 16 + hex_digit_val c) 0 s"

definition read_ip4 :: "string \<Rightarrow> byte list" where
  "read_ip4 s = map (\<lambda>p. of_nat (dec_val p)) (split_on (CHR ''.'') s)"

definition read_ip6 :: "string \<Rightarrow> 16 word list" where
  "read_ip6 s =
     (let ps = split_on (CHR '':'') s;
          a = takeWhile (\<lambda>p. p \<noteq> []) ps;
          b = rev (takeWhile (\<lambda>p. p \<noteq> []) (rev ps));
          value = map (\<lambda>p. of_nat (read_hex p))
      in if [] \<in> set ps then value a @ replicate (8 - length a - length b) 0 @ value b else value ps)"

lemma split_on_prefix: "c \<notin> set p \<Longrightarrow> split_on c (p @ c # s) = p # split_on c s"
  by (induction p) auto

lemma split_on_plain: "c \<notin> set p \<Longrightarrow> split_on c p = [p]"
  by (induction p) auto

lemma split_on_join: "\<forall>p \<in> set ps. c \<notin> set p \<Longrightarrow> ps \<noteq> [] \<Longrightarrow> split_on c (join c ps) = ps"
  by (induction c ps rule: join.induct) (auto simp: split_on_plain split_on_prefix)

lemma split_on_join_append:
  "\<forall>p \<in> set ps. c \<notin> set p \<Longrightarrow> ps \<noteq> [] \<Longrightarrow> split_on c (join c ps @ c # s) = ps @ split_on c s"
  by (induction c ps rule: join.induct) (auto simp: split_on_prefix)

lemma join_concat: "join c (p # ps) = p @ concat (map (\<lambda>q. c # q) ps)"
  by (induction ps arbitrary: p) auto

lemma hex_of_props:
  "n < 16 \<Longrightarrow> hex_digit_val (hex_of n) = n \<and> hex_of n \<noteq> CHR '':'' \<and> hex_of n \<noteq> CHR '']'' \<and> hex_of n \<noteq> CHR ''[''"
proof -
  assume "n < 16"
  then have "n \<in> {0, 1, 2, 3, 4, 5, 6, 7, 8, 9, 10, 11, 12, 13, 14, 15}" by simp presburger
  then show ?thesis by (auto simp: hex_of_def hex_digit_val_def)
qed

lemma read_show_hex [simp]: "read_hex (show_hex n) = n"
proof (induction n rule: show_hex.induct)
  case (1 n)
  then show ?case by (subst show_hex.simps) (auto simp: read_hex_def hex_of_props)
qed

lemma show_hex_chars: "\<forall>c \<in> set (show_hex n). c \<noteq> CHR '':'' \<and> c \<noteq> CHR '']'' \<and> c \<noteq> CHR ''[''"
proof (induction n rule: show_hex.induct)
  case (1 n)
  then show ?case by (subst show_hex.simps) (auto simp: hex_of_props)
qed

lemma show_hex_nonempty: "show_hex n \<noteq> []"
  by (subst show_hex.simps) simp

lemma show_nat_chars: "c \<in> set (show_nat n) \<Longrightarrow> c \<noteq> CHR '':'' \<and> c \<noteq> CHR ''.'' \<and> c \<noteq> CHR ''[''"
  using show_nat_digits(1)[of n] by (auto simp: is_digit_def)

subsection \<open>Splitting a host\<close>

lemma lookup_split_plain:
  assumes "CHR '':'' \<notin> set h" "h \<noteq> []" "hd h \<noteq> CHR ''[''"
  shows "lookup_split h = (h, None)"
    "CHR '':'' \<notin> set p \<Longrightarrow> lookup_split (h @ CHR '':'' # p) = (h, Some p)"
proof -
  have t: "takeWhile (\<lambda>x. x \<noteq> CHR '':'') (h @ CHR '':'' # p) = h" using assms(1) by (subst takeWhile_append2) auto
  show "lookup_split h = (h, None)" using assms by (simp add: lookup_split_def memchr_def)
  show "lookup_split (h @ CHR '':'' # p) = (h, Some p)" if "CHR '':'' \<notin> set p"
    using assms that by (simp add: lookup_split_def memchr_def t)
qed

lemma lookup_split_bracket:
  assumes "CHR '']'' \<notin> set h" "h \<noteq> []"
  shows "lookup_split (CHR ''['' # h @ [CHR '']'']) = (h, None)"
    "lookup_split (CHR ''['' # h @ CHR '']'' # CHR '':'' # p) = (h, Some p)"
proof -
  have t: "takeWhile (\<lambda>x. x \<noteq> CHR '']'') (h @ CHR '']'' # s) = h" for s using assms(1) by (subst takeWhile_append2) auto
  show "lookup_split (CHR ''['' # h @ [CHR '']'']) = (h, None)"
    "lookup_split (CHR ''['' # h @ CHR '']'' # CHR '':'' # p) = (h, Some p)"
    using assms by (simp_all add: lookup_split_def memchr_def t numeral_3_eq_3 numeral_2_eq_2)
qed

text \<open>An IPv6 address without brackets is taken whole, but leaves a service behind, which starts with a colon.\<close>

lemma lookup_split_unbracketed:
  assumes "CHR '':'' \<notin> set g" "hd (g @ '':'') \<noteq> CHR ''[''" "CHR '':'' \<in> set rest"
  shows "lookup_split (g @ CHR '':'' # rest) = (g @ CHR '':'' # rest, Some (CHR '':'' # rest))"
proof -
  have t: "takeWhile (\<lambda>x. x \<noteq> CHR '':'') (g @ CHR '':'' # rest) = g" using assms(1) by (subst takeWhile_append2) auto
  have "hd (g @ CHR '':'' # rest) \<noteq> CHR ''[''" using assms(2) by (cases g) simp_all
  then show ?thesis using assms(3) by (simp add: lookup_split_def memchr_def t)
qed

subsection \<open>IPv4\<close>

lemma unat_port: "unat (ucast (w :: 16 word) :: 32 word) = unat w"
  using unsigned_less[of w, where ?'a = nat] by (simp add: unsigned_ucast_eq take_bit_nat_eq_self)

lemma ip4_insert_join:
  "ip4_insert bo a = join (CHR ''.'') (map (\<lambda>b. show_nat (unat b)) (mem_bytes bo (sin_addr a))) @ CHR '':'' #
     show_nat (unat (byteswapOnLittleEndian bo (sin_port a)))"
proof -
  define w where "w = byteswapOnLittleEndian bo (sin_addr a)"
  have "sin_addr a = byteswapOnLittleEndian bo w" by (simp add: w_def byteswapOnLittleEndian_involution)
  then have m: "mem_bytes bo (sin_addr a) = rev (le_bytes w)" by (simp add: mem_bytes_network_order)
  have u: "unat (ucast v :: byte) = unat (v AND 0xFF)" for v :: "32 word"
  proof -
    have "v AND 0xFF = take_bit 8 v" by (simp add: take_bit_eq_mask mask_eq_exp_minus_1)
    then show ?thesis by (simp add: unsigned_ucast_eq unsigned_take_bit_eq)
  qed
  have "[0..<4] = [0, 1, 2, 3 :: nat]" by (simp add: upt_rec)
  then show ?thesis
    by (simp add: ip4_insert_def Let_def m le_bytes_def u w_def[symmetric])
qed

lemma ip4_text:
  "\<exists>host. lookup_split (ip4_insert bo a) = (host, Some (show_nat (unat (ip4_getPort bo a)))) \<and>
     read_ip4 host = mem_bytes bo (sin_addr a)"
proof -
  define ps where "ps = map (\<lambda>b. show_nat (unat b)) (mem_bytes bo (sin_addr a))"
  define host where "host = join (CHR ''.'') ps"
  have "length ps = 4" by (simp add: ps_def)
  then obtain p qs where p: "ps = p # qs" by (cases ps) simp_all
  have c: "\<forall>q \<in> set ps. \<forall>c \<in> set q. c \<noteq> CHR '':'' \<and> c \<noteq> CHR ''.'' \<and> c \<noteq> CHR ''[''" "\<forall>q \<in> set ps. q \<noteq> []"
    using show_nat_chars show_nat_digits(2) by (auto simp: ps_def)
  have h: "CHR '':'' \<notin> set host" "host \<noteq> []" "hd host \<noteq> CHR ''[''"
    using c by (auto simp: host_def p join_concat)
  have "ip4_insert bo a = host @ CHR '':'' # show_nat (unat (ip4_getPort bo a))"
    by (simp add: ip4_insert_join host_def ps_def ip4_getPort_def unat_port)
  moreover have "CHR '':'' \<notin> set (show_nat n)" for n using show_nat_chars by blast
  ultimately have "lookup_split (ip4_insert bo a) = (host, Some (show_nat (unat (ip4_getPort bo a))))"
    using lookup_split_plain(2)[OF h] by simp
  moreover have "split_on (CHR ''.'') host = ps"
    unfolding host_def using c(1) by (intro split_on_join) (auto simp: p)
  then have "read_ip4 host = mem_bytes bo (sin_addr a)" by (simp add: read_ip4_def ps_def comp_def)
  ultimately show ?thesis by blast
qed

subsection \<open>IPv6\<close>

text \<open>A group as it is printed, and groups each behind a colon.\<close>

definition group_text :: "endian \<Rightarrow> 16 word \<Rightarrow> string" where
  "group_text bo g = show_hex (unat (byteswapOnLittleEndian bo g))"

definition colon_groups :: "endian \<Rightarrow> 16 word list \<Rightarrow> string" where
  "colon_groups bo gs = concat (map (\<lambda>g. CHR '':'' # group_text bo g) gs)"

lemma colon_groups_simps [simp]:
  "colon_groups bo [] = []" "colon_groups bo (g # gs) = CHR '':'' # group_text bo g @ colon_groups bo gs"
  by (simp_all add: colon_groups_def)

lemma join_groups: "join (CHR '':'') (map (group_text bo) (g # gs)) = group_text bo g @ colon_groups bo gs"
  by (simp add: join_concat colon_groups_def comp_def del: join.simps)

lemma nth_at: "length pre = i \<Longrightarrow> (pre @ g # rest) ! i = g"
  by auto

text \<open>The loop in its three phases: zeros have been shortened; the first run of zeros; before any zero.\<close>

lemma ip6_loop_used:
  "length pre = i \<Longrightarrow> 0 < i \<Longrightarrow> ip6_loop bo (pre @ rest) i (length rest) True = (colon_groups bo rest, True)"
proof (induction rest arbitrary: pre i)
  case (Cons g rest)
  then show ?case using Cons.IH[of "pre @ [g]" "Suc i"] by (simp add: nth_at group_text_def)
qed simp

lemma ip6_loop_zeros:
  "length pre = i \<Longrightarrow> 0 < i \<Longrightarrow> (pre @ rest) ! (i - 1) = 0 \<Longrightarrow> ip6_loop bo (pre @ rest) i (length rest) False =
     (let b = dropWhile (\<lambda>g. g = 0) rest in if b = [] then ([], False) else (CHR '':'' # colon_groups bo b, True))"
proof (induction rest arbitrary: pre i)
  case (Cons g rest)
  show ?case
  proof (cases "g = 0")
    case True
    then show ?thesis using Cons.IH[of "pre @ [g]" "Suc i"] Cons.prems by (simp add: nth_append)
  next
    case False
    then show ?thesis using ip6_loop_used[of "pre @ [g]" "Suc i" bo rest] Cons.prems
      by (simp add: nth_at group_text_def Let_def)
  qed
qed simp

lemma ip6_loop_groups:
  "length pre = i \<Longrightarrow> 0 < i \<Longrightarrow> (pre @ rest) ! (i - 1) \<noteq> 0 \<Longrightarrow> ip6_loop bo (pre @ rest) i (length rest) False =
     (let a = takeWhile (\<lambda>g. g \<noteq> 0) rest; b = dropWhile (\<lambda>g. g = 0) (dropWhile (\<lambda>g. g \<noteq> 0) rest)
      in if b = [] then (colon_groups bo a, False) else (colon_groups bo a @ CHR '':'' # colon_groups bo b, True))"
proof (induction rest arbitrary: pre i)
  case (Cons g rest)
  show ?case
  proof (cases "g = 0")
    case True
    then show ?thesis using ip6_loop_zeros[of "pre @ [g]" "Suc i" rest bo] Cons.prems
      by (simp add: nth_append Let_def)
  next
    case False
    have A: "ip6_loop bo (pre @ g # rest) i (length (g # rest)) False =
        (case ip6_loop bo (pre @ g # rest) (Suc i) (length rest) False of (s, used_zeros) \<Rightarrow>
          (CHR '':'' # group_text bo g @ s, used_zeros))"
      using Cons.prems False by (simp add: nth_at group_text_def)
    have B: "ip6_loop bo (pre @ g # rest) (Suc i) (length rest) False =
        (let a = takeWhile (\<lambda>g. g \<noteq> 0) rest; b = dropWhile (\<lambda>g. g = 0) (dropWhile (\<lambda>g. g \<noteq> 0) rest)
         in if b = [] then (colon_groups bo a, False) else (colon_groups bo a @ CHR '':'' # colon_groups bo b, True))"
      using Cons.IH[of "pre @ [g]" "Suc i"] Cons.prems(1) False by (simp add: nth_append)
    show ?thesis unfolding A B using False by (simp add: Let_def del: dropWhile_eq_Nil_conv)
  qed
qed simp

definition ip6_reference :: "endian \<Rightarrow> 16 word list \<Rightarrow> string" where
  "ip6_reference bo gs =
     (let a = takeWhile (\<lambda>g. g \<noteq> 0) gs; b = dropWhile (\<lambda>g. g = 0) (dropWhile (\<lambda>g. g \<noteq> 0) gs);
          text = (\<lambda>gs. join (CHR '':'') (map (group_text bo) gs))
      in if 0 \<in> set gs then text a @ ''::'' @ text b else text gs)"

lemma ip6_text_reference:
  assumes "length gs = 8"
  shows "ip6_text bo gs = ip6_reference bo gs"
proof -
  obtain g rest where g: "gs = g # rest" "length rest = 7" using assms by (cases gs) auto
  define b where "b = dropWhile (\<lambda>g. g = 0) (dropWhile (\<lambda>g. g \<noteq> 0) gs)"
  have last: "gs ! 7 = last gs" using assms g(1) last_conv_nth[of gs] by simp
  have zero_end: "last gs = 0 \<longleftrightarrow> 0 \<in> set gs" if b: "b = []"
  proof -
    define z where "z = dropWhile (\<lambda>g. g \<noteq> 0) gs"
    have gs: "gs = takeWhile (\<lambda>g. g \<noteq> 0) gs @ z" by (simp add: z_def)
    have z: "\<forall>g \<in> set z. g = 0" using b unfolding b_def z_def by (simp only: dropWhile_eq_Nil_conv)
    show ?thesis
    proof (cases "z = []")
      case True
      then have "\<forall>g \<in> set gs. g \<noteq> 0" by (simp add: z_def dropWhile_eq_Nil_conv)
      then show ?thesis using g(1) last_in_set[of gs] by auto
    next
      case False
      then have "last gs = last z" by (subst gs) simp
      moreover have "last z \<in> set z" "set z \<subseteq> set gs" using False gs by (auto simp: z_def dest: set_dropWhileD)
      ultimately show ?thesis using z by (metis subsetD)
    qed
  qed
  have loop: "ip6_loop bo gs 0 8 False =
      (let a = takeWhile (\<lambda>g. g \<noteq> 0) gs in
       if b = [] then (join (CHR '':'') (map (group_text bo) a), False)
       else (join (CHR '':'') (map (group_text bo) a) @ CHR '':'' # colon_groups bo b, True))"
  proof (cases "g = 0")
    case True
    then show ?thesis using ip6_loop_zeros[of "[g]" 1 rest bo] g
      by (simp add: b_def Let_def numeral_eq_Suc)
  next
    case False
    have A: "ip6_loop bo gs 0 8 False = (case ip6_loop bo ([g] @ rest) 1 (length rest) False of (s, used_zeros) \<Rightarrow>
        (group_text bo g @ s, used_zeros))"
      using False g by (simp add: group_text_def eval_nat_numeral(2,3))
    have B: "join (CHR '':'') (map (group_text bo) (takeWhile (\<lambda>g. g \<noteq> 0) gs)) =
        group_text bo g @ colon_groups bo (takeWhile (\<lambda>g. g \<noteq> 0) rest)"
      using False join_groups by (simp add: g(1))
    have C: "b = dropWhile (\<lambda>g. g = 0) (dropWhile (\<lambda>g. g \<noteq> 0) rest)" using False by (simp add: b_def g(1))
    have D: "ip6_loop bo ([g] @ rest) 1 (length rest) False =
        (let a = takeWhile (\<lambda>g. g \<noteq> 0) rest
         in if b = [] then (colon_groups bo a, False) else (colon_groups bo a @ CHR '':'' # colon_groups bo b, True))"
      using ip6_loop_groups[of "[g]" 1 rest bo] False unfolding C by simp
    show ?thesis unfolding A D Let_def B by (simp del: dropWhile_eq_Nil_conv)
  qed
  have zero: "0 \<in> set gs" if "b \<noteq> []"
    using that unfolding b_def by (metis (mono_tags, lifting) dropWhile_eq_Nil_conv dropWhile.simps(1))
  have all: "takeWhile (\<lambda>g. g \<noteq> 0) gs = gs" if "0 \<notin> set gs" using that by (auto intro!: takeWhile_eq_all_conv[THEN iffD2])
  show ?thesis
  proof (cases "b = []")
    case True
    have l: "ip6_loop bo gs 0 8 False = (join (CHR '':'') (map (group_text bo) (takeWhile (\<lambda>g. g \<noteq> 0) gs)), False)"
      unfolding loop Let_def using True by simp
    show ?thesis
    proof (cases "0 \<in> set gs")
      case z: True
      then show ?thesis using zero_end[OF True] l True
        by (simp add: ip6_text_def ip6_reference_def b_def[symmetric] Let_def last)
    next
      case z: False
      then show ?thesis using zero_end[OF True] l[unfolded all[OF z]]
        by (simp add: ip6_text_def ip6_reference_def Let_def last)
    qed
  next
    case False
    then obtain x xs where b: "b = x # xs" unfolding neq_Nil_conv by blast
    have "ip6_reference bo gs = join (CHR '':'') (map (group_text bo) (takeWhile (\<lambda>g. g \<noteq> 0) gs)) @ ''::'' @
        join (CHR '':'') (map (group_text bo) b)"
      using zero[OF False] by (simp add: ip6_reference_def Let_def b_def[symmetric])
    also have "\<dots> = ip6_text bo gs"
      using loop unfolding b join_groups by (simp add: ip6_text_def Let_def)
    finally show ?thesis by simp
  qed
qed

text \<open>Reading back: the texts between the colons are those of the groups, with empty ones for the gap.\<close>

lemma group_text_props: "group_text bo g \<noteq> []" "\<forall>c \<in> set (group_text bo g). c \<noteq> CHR '':'' \<and> c \<noteq> CHR '']'' \<and> c \<noteq> CHR ''[''"
  using show_hex_nonempty show_hex_chars by (simp_all add: group_text_def)

lemma split_groups:
  "split_on (CHR '':'') (join (CHR '':'') (map (group_text bo) gs)) = (if gs = [] then [[]] else map (group_text bo) gs)"
  "split_on (CHR '':'') (join (CHR '':'') (map (group_text bo) gs) @ CHR '':'' # s) =
     (if gs = [] then [[]] else map (group_text bo) gs) @ split_on (CHR '':'') s"
  using group_text_props(2)[of bo]
  by (cases "gs = []"; fastforce intro!: split_on_join split_on_join_append)+

lemma take_groups:
  "takeWhile (\<lambda>p. p \<noteq> []) (map (group_text bo) gs @ [] # ps) = map (group_text bo) gs"
  "takeWhile (\<lambda>p. p \<noteq> []) (rev (map (group_text bo) gs) @ [] # ps) = rev (map (group_text bo) gs)"
  by (simp_all add: takeWhile_append group_text_props)

lemma value_groups: "map (\<lambda>p. of_nat (read_hex p)) (map (group_text bo) gs) = map (byteswapOnLittleEndian bo) gs"
  by (simp add: group_text_def comp_def)

lemma byteswapOnLittleEndian_zero [simp]: "byteswapOnLittleEndian bo (0 :: 16 word) = 0"
proof -
  have "byteswap (0 :: 16 word) = 0" by (rule bit_word_eqI) (simp add: bit_byteswap)
  then show ?thesis by (simp add: byteswapOnLittleEndian_def)
qed

lemma read_ip6_reference:
  assumes "length gs = 8"
  shows "read_ip6 (ip6_reference bo gs) = map (byteswapOnLittleEndian bo) gs"
proof (cases "0 \<in> set gs")
  case False
  have "gs \<noteq> []" using assms by auto
  moreover have "[] \<notin> set (map (group_text bo) gs)" using group_text_props(1)[of bo] by (metis ex_map_conv)
  ultimately show ?thesis using False
    by (simp add: ip6_reference_def read_ip6_def split_groups value_groups del: map_map)
next
  case True
  define a b z where "a = takeWhile (\<lambda>g. g \<noteq> 0) gs" and "b = dropWhile (\<lambda>g. g = 0) (dropWhile (\<lambda>g. g \<noteq> 0) gs)"
    and "z = takeWhile (\<lambda>g. g = 0) (dropWhile (\<lambda>g. g \<noteq> 0) gs)"
  have gs: "gs = a @ z @ b" by (simp add: a_def b_def z_def)
  have "\<forall>g \<in> set z. g = 0" unfolding z_def by (metis (mono_tags, lifting) set_takeWhileD)
  then have z: "z = replicate (length z) 0" by (simp only: replicate_length_same)
  have n: "length z = 8 - length a - length b" using assms arg_cong[OF gs, of length] by simp
  define A B where "A = map (group_text bo) a" and "B = map (group_text bo) b"
  have "split_on (CHR '':'') (ip6_reference bo gs) =
      (if a = [] then [[]] else A) @ [] # (if b = [] then [[]] else B)"
    using True split_groups[of bo] by (simp add: ip6_reference_def a_def[symmetric] b_def[symmetric] A_def B_def)
  moreover have "takeWhile (\<lambda>p. p \<noteq> []) ((if a = [] then [[]] else A) @ [] # (if b = [] then [[]] else B)) = A"
    "rev (takeWhile (\<lambda>p. p \<noteq> []) (rev ((if a = [] then [[]] else A) @ [] # (if b = [] then [[]] else B)))) = B"
    using take_groups[of bo] by (auto simp: A_def B_def)
  ultimately have "read_ip6 (ip6_reference bo gs) = map (\<lambda>p. of_nat (read_hex p)) A @
      replicate (8 - length A - length B) 0 @ map (\<lambda>p. of_nat (read_hex p)) B"
    by (simp add: read_ip6_def Let_def)
  also have "\<dots> = map (byteswapOnLittleEndian bo) a @ replicate (length z) 0 @ map (byteswapOnLittleEndian bo) b"
    unfolding A_def B_def value_groups by (simp add: n)
  also have "\<dots> = map (byteswapOnLittleEndian bo) gs"
    by (subst gs, subst (2) z) simp
  finally show ?thesis .
qed

lemma in6_groups_bytes:
  assumes "length bs = 16"
  shows "length (in6_groups bo bs) = 8"
    "concat (map (\<lambda>g. rev (le_bytes g)) (map (byteswapOnLittleEndian bo) (in6_groups bo bs))) = bs"
proof -
  show "length (in6_groups bo bs) = 8" by (simp add: in6_groups_def)
  have g: "rev (le_bytes (byteswapOnLittleEndian bo g)) = mem_bytes bo g" for g :: "16 word"
    using mem_bytes_network_order[of bo "byteswapOnLittleEndian bo g"] by (simp add: byteswapOnLittleEndian_involution)
  have "mem_bytes bo (mem_word bo (mem_range bs (2 * i) 2) :: 16 word) = mem_range bs (2 * i) 2" if "i < 8" for i
    using that assms by (intro mem_bytes_mem_word) (simp add: mem_range_def)
  then have "concat (map (\<lambda>g. mem_bytes bo g) (in6_groups bo bs)) = concat (map (\<lambda>i. mem_range bs (2 * i) 2) [0..<8])"
    by (intro arg_cong[of _ _ concat]) (simp add: in6_groups_def)
  also have "concat (map (\<lambda>i. mem_range bs (2 * i) 2) [0..<n]) = take (2 * n) bs" for n
  proof (induction n)
    case (Suc n)
    have "take (2 * Suc n) bs = take (2 * n) bs @ take 2 (drop (2 * n) bs)" using take_add[of "2 * n" 2 bs] by simp
    then show ?case using Suc by (simp add: mem_range_def)
  qed simp
  finally show "concat (map (\<lambda>g. rev (le_bytes g)) (map (byteswapOnLittleEndian bo) (in6_groups bo bs))) = bs"
    using assms by (simp add: g comp_def)
qed

lemma ip6_reference_chars: "CHR '']'' \<notin> set (ip6_reference bo gs)" "length gs = 8 \<Longrightarrow> ip6_reference bo gs \<noteq> []"
proof -
  have j: "CHR '']'' \<notin> set (join (CHR '':'') (map (group_text bo) gs))" for gs
    using group_text_props(2)[of bo] by (cases gs) (auto simp: join_concat)
  show "CHR '']'' \<notin> set (ip6_reference bo gs)" by (simp add: ip6_reference_def Let_def j)
  assume "length gs = 8"
  then obtain g rest where "gs = g # rest" by (cases gs) auto
  then show "ip6_reference bo gs \<noteq> []" by (auto simp: ip6_reference_def Let_def join_concat group_text_props)
qed

lemma ip6_host_text:
  assumes "length (sin6_addr a) = 16"
  shows "\<exists>host. lookup_split (ip6_insert bo a) = (host, Some (show_nat (unat (ip6_getPort bo a)))) \<and>
     concat (map (\<lambda>g. rev (le_bytes g)) (read_ip6 host)) = sin6_addr a"
proof -
  let ?host = "ip6_reference bo (in6_groups bo (sin6_addr a))"
  have len: "length (in6_groups bo (sin6_addr a)) = 8" using in6_groups_bytes(1)[OF assms] .
  have "ip6_insert bo a = CHR ''['' # ?host @ CHR '']'' # CHR '':'' # show_nat (unat (ip6_getPort bo a))"
    by (simp add: ip6_insert_def ip6_text_reference[OF len] ip6_getPort_def unat_port)
  moreover have "CHR '']'' \<notin> set ?host" by (rule ip6_reference_chars(1))
  ultimately have "lookup_split (ip6_insert bo a) = (?host, Some (show_nat (unat (ip6_getPort bo a))))"
    using lookup_split_bracket(2) ip6_reference_chars(2)[OF len] by simp
  then show ?thesis using read_ip6_reference[OF len] in6_groups_bytes(2)[OF assms] by auto
qed

subsection \<open>Paths\<close>

lemma c_path: "CHR 0x00 \<notin> set path \<Longrightarrow> takeWhile (\<lambda>b. b \<noteq> 0) (bytes path @ 0 # rest) = bytes path"
proof -
  assume p: "CHR 0x00 \<notin> set path"
  have nz: "of_nat (of_char c) \<noteq> (0 :: byte)" if c: "c \<in> set path" for c :: char
  proof -
    have "c \<noteq> CHR 0x00" using c p by auto
    then have "(of_char c :: nat) \<noteq> 0" using of_char_eq_iff[of c "CHR 0x00", where ?'a = nat] by simp
    moreover have "unat (of_nat (of_char c) :: byte) = of_char c" by (simp add: unat_of_nat)
    ultimately show ?thesis by (metis unsigned_0)
  qed
  have "takeWhile (\<lambda>b. b \<noteq> 0) (bytes path @ 0 # rest) = bytes path @ takeWhile (\<lambda>b. b \<noteq> 0) (0 # rest)"
    by (rule takeWhile_append2) (use nz in \<open>auto simp only: bytes_def set_map\<close>)
  then show ?thesis by simp
qed

text \<open>A path in the file system has room for 107 characters; it is printed as it was given.\<close>

lemma unix_path:
  assumes "CHR 0x00 \<notin> set path" "length path < 2 ^ 31" "path \<noteq> []"
  shows "length path \<le> 107 \<Longrightarrow> \<exists>a. mk_UnixAddress_of path = Inr a \<and> addr_ok a \<and> getAddrLen a = of_nat (length path + 3) \<and>
      address_insert bo a = Inr path"
    "107 < length path \<Longrightarrow> mk_UnixAddress_of path = Inl (Logic_error ''path too long'')"
proof -
  have "unat (of_nat (length path + 1) :: 32 word) = length path + 1" using assms(2) by (subst unat_of_nat) simp
  then have u: "unat (of_nat (length path) + 1 :: 32 word) = length path + 1" by (simp add: add.commute)
  have h: "hd path \<noteq> CHR 0x00" using assms(1,3) by (cases path) auto
  show "107 < length path \<Longrightarrow> mk_UnixAddress_of path = Inl (Logic_error ''path too long'')"
    using u h by (simp add: mk_UnixAddress_of_def Let_def)
  assume l: "length path \<le> 107"
  define m where "m = bytes path @ 0 # zeros (107 - length path)"
  have "overwrite (zeros 108) 0 (take (length path + 1) (bytes path @ [0])) = m"
    using l by (simp add: overwrite_def zeros_def m_def)
  then have a: "mk_UnixAddress_of path = Inr (UnixAddress \<lparr>sun_family = AF_UNIX, sun_path = m\<rparr> (of_nat (length path) + 1 + 2))"
    using u h l by (simp add: mk_UnixAddress_of_def Let_def)
  have "unat (of_nat (length path) + 1 + 2 :: 32 word) = length path + 3"
    using l by (simp add: unat_word_ariths unat_of_nat u)
  then have "(of_nat (length path) + 1 + 2 :: 32 word) \<le> 110" using l by (simp add: word_le_nat_alt)
  moreover have "length m = 108" using l by (simp add: m_def zeros_def)
  moreover have "un_insert \<lparr>sun_family = AF_UNIX, sun_path = m\<rparr> n = Inr path" for n
  proof -
    have t: "takeWhile (\<lambda>b. b \<noteq> 0) m = bytes path" using c_path[OF assms(1)] by (simp add: m_def)
    have "m ! 0 \<noteq> 0"
    proof
      assume "m ! 0 = 0"
      then have "takeWhile (\<lambda>b. b \<noteq> 0) m = []" by (cases m) simp_all
      then show False using t assms(3) by (simp add: bytes_def)
    qed
    then show ?thesis using t by (simp add: un_insert_def chars_bytes m_def)
  qed
  ultimately show "\<exists>a. mk_UnixAddress_of path = Inr a \<and> addr_ok a \<and> getAddrLen a = of_nat (length path + 3) \<and>
      address_insert bo a = Inr path"
    unfolding a by (auto simp: getAddrLen_def address_insert_def)
qed

section \<open>Properties\<close>



text \<open>
  \<open>CountBytes\<close>, which clears the lowest one until none is left, is the number of ones of a value.
  So the length that \<open>GetInterfaceAddresses\<close> reports for an interface is the prefix whose
  subnet mask the system has for it, for both kinds of address, on machines of both byte orders.
\<close>

theorem prefix_length_counted:
  fixes v :: "'a::len word"
  assumes "addr_ok (IPv4Address a4)" "addr_ok (IPv6Address a6)" "family \<in> {AF_UNSPEC, getFamily a}"
    "a = IPv4Address a4 \<and> 2 \<le> unat p \<and> unat p \<le> 32 \<and> ip4_subnetMask bo p = Inr m4 \<and> m = IPv4Address m4 \<or>
     a = IPv6Address a6 \<and> unat p < 128 \<and> ip6_subnetMask p = Inr m6 \<and> m = IPv6Address m6"
  shows "CountBytes v = of_nat (card {i. bit v i}) \<and>
    iface_entry bo family \<lparr>ifa_name = name, ifa_addr = Some (getAddr bo a), ifa_netmask = Some (getAddr bo m)\<rparr> = Inr (Some (Some a, p))"
proof
  show "CountBytes v = of_nat (card {i. bit v i})" by (rule CountBytes_card)
  consider (v4) "a = IPv4Address a4" "2 \<le> unat p" "unat p \<le> 32" "ip4_subnetMask bo p = Inr m4" "m = IPv4Address m4"
    | (v6) "a = IPv6Address a6" "unat p < 128" "ip6_subnetMask p = Inr m6" "m = IPv6Address m6" using assms(4) by blast
  then show "iface_entry bo family \<lparr>ifa_name = name, ifa_addr = Some (getAddr bo a), ifa_netmask = Some (getAddr bo m)\<rparr> = Inr (Some (Some a, p))"
  proof cases
    case v4
    have "length (sin_zero m4) = 8" using v4(4) by (auto simp: ip4_subnetMask_def rbind_eq_Inr_iff zeros_def)
    then show ?thesis using assms(1,3) v4 subnet4_count[OF v4(2-4)]
      by (auto simp: iface_entry_def getFamily_def getAddr_def deref_def family_image create_image images_read_back)
  next
    case v6
    have "length (sin6_addr m6) = 16" using ip6_prefix(3)[of p a6] v6(2,3) assms(2) by auto
    then show ?thesis using assms(2,3) v6 subnet6_count[OF v6(2,3)]
      by (auto simp: iface_entry_def getFamily_def getAddr_def deref_def family_image create_image images_read_back AF_INET_def AF_INET6_def)
  qed
qed

theorem prefix_length_counted_witness:
  "\<exists>m4. ip4_subnetMask CAPTAIN_LITTLE_ENDIAN 24 = Inr m4 \<and>
     iface_entry CAPTAIN_LITTLE_ENDIAN AF_INET \<lparr>ifa_name = ''lo'',
       ifa_addr = Some (getAddr CAPTAIN_LITTLE_ENDIAN (IPv4Address (mk_IPv4Address CAPTAIN_LITTLE_ENDIAN 0x7F000001 0))),
       ifa_netmask = Some (getAddr CAPTAIN_LITTLE_ENDIAN (IPv4Address m4))\<rparr>
     = Inr (Some (Some (IPv4Address (mk_IPv4Address CAPTAIN_LITTLE_ENDIAN 0x7F000001 0)), 24))"
proof -
  let ?a = "mk_IPv4Address CAPTAIN_LITTLE_ENDIAN 0x7F000001 0"
  have ok: "addr_ok (IPv4Address ?a)" "addr_ok (IPv6Address mk_IPv6Address)"
    by (simp_all add: mk_IPv4Address_def mk_IPv6Address_def zeros_def)
  obtain m4 where "ip4_subnetMask CAPTAIN_LITTLE_ENDIAN 24 = Inr m4"
    using ip4_prefix(3)[of 24 CAPTAIN_LITTLE_ENDIAN] by auto
  then show ?thesis
    using prefix_length_counted[OF ok, of AF_INET "IPv4Address ?a" 24 CAPTAIN_LITTLE_ENDIAN m4 "IPv4Address m4" mk_IPv6Address "0 :: byte" "''lo''"]
    by (auto simp: getFamily_def mk_IPv4Address_def)
qed

text \<open>
  C28: A printed address is understood by \<open>Lookup\<close> and stands for the address: \<open>Lookup\<close> splits what \<open>insert\<close>
  prints for an IPv4 or IPv6 address into the host, without brackets, and the port in decimal, and
  the host, read in the dotted or the shortened hexadecimal notation, gives the bytes of the address
  in memory.  So different addresses print differently, and the run of zeros that is shortened can
  be told from the others.
\<close>

theorem address_text_roundtrip:
  assumes "length (sin6_addr a6) = 16"
  shows "\<exists>host4 host6.
     lookup_split (ip4_insert bo a4) = (host4, Some (show_nat (unat (ip4_getPort bo a4)))) \<and>
     lookup_split (ip6_insert bo a6) = (host6, Some (show_nat (unat (ip6_getPort bo a6)))) \<and>
     read_ip4 host4 = mem_bytes bo (sin_addr a4) \<and>
     concat (map (\<lambda>g. rev (le_bytes g)) (read_ip6 host6)) = sin6_addr a6"
  using ip4_text[of bo a4] ip6_host_text[OF assms, of bo] by blast

theorem address_text_roundtrip_witness:
  "\<exists>host. lookup_split (ip6_insert CAPTAIN_BIG_ENDIAN mk_IPv6Address) = (host, Some ''0'') \<and>
     concat (map (\<lambda>g. rev (le_bytes g)) (read_ip6 host)) = zeros 16"
  using address_text_roundtrip[of mk_IPv6Address CAPTAIN_BIG_ENDIAN "mk_IPv4Address CAPTAIN_BIG_ENDIAN 0 0"]
  by (auto simp: mk_IPv6Address_def zeros_def ip6_getPort_def byteswapOnLittleEndian_def show_nat.simps dec_digit_def)

text \<open>
  C30: The order of addresses is the lexicographic order of their bytes in memory, and equality that of
  the bytes: \<open>operator<\<close> and \<open>operator==\<close> never read outside an address and are a strict total order
  and its equality on these images, whatever the classes of the two addresses.  \<open>Address::Create\<close> makes of
  the bytes of an IPv4 or IPv6 address an equal address.
\<close>

theorem address_order:
  assumes "addr_ok a" "addr_ok b"
  shows "address_less bo a b = Inr (addr_image bo a < addr_image bo b) \<and>
    address_eq bo a b = Inr (addr_image bo a = addr_image bo b) \<and>
    address_neq bo a b = Inr (addr_image bo a \<noteq> addr_image bo b) \<and>
    (is_IPAddress a \<longrightarrow> Address_Create bo (Some (getAddr bo a)) (getAddrLen a) = Inr (Some a))"
  using address_less_lex[OF assms] address_eq_image[OF assms] assms(1) create_image
  by (cases a) (auto simp: address_neq_def is_IPAddress_def getAddr_def)

theorem address_order_witness:
  "address_less CAPTAIN_LITTLE_ENDIAN (IPv4Address (mk_IPv4Address CAPTAIN_LITTLE_ENDIAN 1 80)) (IPv6Address mk_IPv6Address) = Inr True"
proof -
  have "addr_ok (IPv4Address (mk_IPv4Address CAPTAIN_LITTLE_ENDIAN 1 80))" "addr_ok (IPv6Address mk_IPv6Address)"
    by (simp_all add: mk_IPv4Address_def mk_IPv6Address_def zeros_def)
  moreover have "addr_image CAPTAIN_LITTLE_ENDIAN (IPv4Address (mk_IPv4Address CAPTAIN_LITTLE_ENDIAN 1 80)) <
      addr_image CAPTAIN_LITTLE_ENDIAN (IPv6Address mk_IPv6Address)"
    by code_simp
  ultimately show ?thesis using address_order by simp
qed

end
