(* ===== verification/Config.thy ===== *)
theory Config
  imports Std_Map "HOL-Library.Countable" "HOL-Library.Char_ord" "HOL-Library.List_Lexorder"
begin

text \<open>
  The configuration system: \<^verbatim>\<open>captain/include/config.h\<close> and \<^verbatim>\<open>captain/config.cpp\<close>.  Variables of different
  C++ types live in one registry; a type is a tag \<open>'t\<close>, its values are values of \<open>'v\<close> that
  \<open>has_type\<close> accepts, and the operations that a template takes from its type parameter (equality,
  the two conversions) are the record \<open>cpp_types\<close>.  Listeners are of type \<open>'l\<close>; what calling one does to
  the rest of the program is the parameter \<open>run\<close> on a state \<open>'s\<close>.  YAML trees are a datatype; reading,
  printing and indexing them is the library's, the record \<open>yaml_lib\<close>.  The locks are not modelled: operations
  are atomic.  A pointer to a variable is the name under which it is registered.

  Proved: the registry is type-safe in every reachable state; loading a file changes the
  variables it names, to the last convertible value, notifying listeners of each change, and nothing else;
  the conversions of containers round-trip.
\<close>

section \<open>YAML\<close>

datatype yaml = Null_node | Scalar string | Sequence "yaml list" | Map_node "(string \<times> yaml) list"

instance yaml :: countable
  by countable_datatype

record yaml_lib =
  yl_Load :: "string \<Rightarrow> yaml option"
  yl_emit :: "yaml \<Rightarrow> string"
  yl_index :: "(string \<times> yaml) list \<Rightarrow> nat \<Rightarrow> yaml"
  yl_as_string :: "yaml \<Rightarrow> string option"

definition node_size :: "yaml \<Rightarrow> nat" where
  "node_size n = (case n of Sequence ys \<Rightarrow> length ys | Map_node kvs \<Rightarrow> length kvs | _ \<Rightarrow> 0)"

definition node_at :: "yaml_lib \<Rightarrow> yaml \<Rightarrow> nat \<Rightarrow> yaml" where
  "node_at lib n i = (case n of Sequence ys \<Rightarrow> ys ! i | Map_node kvs \<Rightarrow> yl_index lib kvs i | _ \<Rightarrow> Null_node)"

definition node_pairs :: "yaml \<Rightarrow> (string \<times> yaml) list" where
  "node_pairs n = (case n of Map_node kvs \<Rightarrow> kvs | _ \<Rightarrow> [])"

section \<open>Conversions of containers\<close>

text \<open>
  The specialisations of \<open>LexicalCast\<close>; \<open>None\<close> is an exception.  Lists and vectors are lists; a \<^verbatim>\<open>std::set\<close>
  is the ascending list of its elements; a map keeps the first of two entries with the same key.
\<close>

definition vector_of_string :: "yaml_lib \<Rightarrow> (string \<Rightarrow> 'a option) \<Rightarrow> string \<Rightarrow> 'a list option" where
  "vector_of_string lib cast v = Option.bind (yl_Load lib v) (\<lambda>node.
     those (map (\<lambda>i. cast (yl_emit lib (node_at lib node i))) [0..<node_size node]))"

definition string_of_vector :: "yaml_lib \<Rightarrow> ('a \<Rightarrow> string option) \<Rightarrow> 'a list \<Rightarrow> string option" where
  "string_of_vector lib cast v = map_option (\<lambda>ys. yl_emit lib (if ys = [] then Null_node else Sequence ys))
     (those (map (\<lambda>i. Option.bind (cast i) (yl_Load lib)) v))"

definition set_of_string :: "yaml_lib \<Rightarrow> (string \<Rightarrow> 'a::linorder option) \<Rightarrow> string \<Rightarrow> 'a list option" where
  "set_of_string lib cast v = Option.bind (yl_Load lib v) (\<lambda>node.
     map_option (\<lambda>xs. foldl (\<lambda>vec x. insort_insert x vec) [] xs)
       (those (map (\<lambda>i. cast (yl_emit lib (node_at lib node i))) [0..<node_size node])))"

definition string_of_set :: "yaml_lib \<Rightarrow> ('a::linorder \<Rightarrow> string option) \<Rightarrow> 'a list \<Rightarrow> string option" where
  "string_of_set lib cast v = map_option (\<lambda>ys. yl_emit lib (if ys = [] then Null_node else Sequence ys))
     (those (map (\<lambda>i. Option.bind (cast i) (yl_Load lib)) v))"

definition unordered_set_of_string :: "yaml_lib \<Rightarrow> (string \<Rightarrow> 'a option) \<Rightarrow> string \<Rightarrow> 'a set option" where
  "unordered_set_of_string lib cast v = Option.bind (yl_Load lib v) (\<lambda>node.
     map_option set (those (map (\<lambda>i. cast (yl_emit lib (node_at lib node i))) [0..<node_size node])))"

definition map_of_string :: "yaml_lib \<Rightarrow> (string \<Rightarrow> 'a option) \<Rightarrow> string \<Rightarrow> (string, 'a) amap option" where
  "map_of_string lib cast v = Option.bind (yl_Load lib v) (\<lambda>node.
     map_option (\<lambda>kvs. foldl (\<lambda>vec (k, x). if map_find (<) k vec = None then map_set (<) k x vec else vec) [] kvs)
       (those (map (\<lambda>(k, n). map_option (Pair k) (cast (yl_emit lib n))) (node_pairs node))))"

definition string_of_map :: "yaml_lib \<Rightarrow> ('a \<Rightarrow> string option) \<Rightarrow> (string, 'a) amap \<Rightarrow> string option" where
  "string_of_map lib cast v = map_option (\<lambda>kvs. yl_emit lib (if kvs = [] then Null_node else Map_node kvs))
     (those (map (\<lambda>(k, x). map_option (Pair k) (Option.bind (cast x) (yl_Load lib))) v))"

definition unordered_map_of_string :: "yaml_lib \<Rightarrow> (string \<Rightarrow> 'a option) \<Rightarrow> string \<Rightarrow> (string \<rightharpoonup> 'a) option" where
  "unordered_map_of_string lib cast v = Option.bind (yl_Load lib v) (\<lambda>node.
     map_option (\<lambda>kvs. foldl (\<lambda>vec (k, x). if vec k = None then vec(k \<mapsto> x) else vec) Map.empty kvs)
       (those (map (\<lambda>(k, n). map_option (Pair k) (cast (yl_emit lib n))) (node_pairs node))))"

text \<open>
  Lists are converted as vectors are.  The hash tables are printed in their order of iteration, \<open>order\<close>.
\<close>

definition list_of_string :: "yaml_lib \<Rightarrow> (string \<Rightarrow> 'a option) \<Rightarrow> string \<Rightarrow> 'a list option" where
  "list_of_string lib cast v = vector_of_string lib cast v"

definition string_of_list :: "yaml_lib \<Rightarrow> ('a \<Rightarrow> string option) \<Rightarrow> 'a list \<Rightarrow> string option" where
  "string_of_list lib cast v = string_of_vector lib cast v"

definition string_of_unordered_set :: "yaml_lib \<Rightarrow> ('a \<Rightarrow> string option) \<Rightarrow> 'a list \<Rightarrow> string option" where
  "string_of_unordered_set lib cast order = string_of_vector lib cast order"

definition string_of_unordered_map :: "yaml_lib \<Rightarrow> ('a \<Rightarrow> string option) \<Rightarrow> (string \<times> 'a) list \<Rightarrow> string option" where
  "string_of_unordered_map lib cast order = string_of_map lib cast order"

section \<open>Variables\<close>

record ('t, 'v) cpp_types =
  has_type :: "'t \<Rightarrow> 'v \<Rightarrow> bool"
  type_eq :: "'t \<Rightarrow> 'v \<Rightarrow> 'v \<Rightarrow> bool"
  from_str :: "'t \<Rightarrow> string \<Rightarrow> 'v option"
  to_str :: "'t \<Rightarrow> 'v \<Rightarrow> string option"

record ('t, 'v, 'l) config_var =
  cv_name :: string
  cv_description :: string
  cv_type :: 't
  cv_val :: 'v
  cv_cbs :: "(64 word, 'l) amap"

definition to_lower :: "char \<Rightarrow> char" where
  "to_lower c = (let n = of_char c :: nat in if 65 \<le> n \<and> n \<le> 90 then char_of (n + 32) else c)"

definition mk_ConfigVar :: "'t \<Rightarrow> string \<Rightarrow> 'v \<Rightarrow> string \<Rightarrow> ('t, 'v, 'l) config_var" where
  "mk_ConfigVar t name default_value description =
     \<lparr>cv_name = map to_lower name, cv_description = description, cv_type = t, cv_val = default_value, cv_cbs = []\<rparr>"

definition cv_toString :: "('t, 'v) cpp_types \<Rightarrow> ('t, 'v, 'l) config_var \<Rightarrow> string" where
  "cv_toString ty var = (case to_str ty (cv_type var) (cv_val var) of Some s \<Rightarrow> s | None \<Rightarrow> [])"

text \<open>Calling the listeners in the order of their keys, with the old and the new value.\<close>

fun run_cbs :: "('l \<Rightarrow> 'v \<Rightarrow> 'v \<Rightarrow> 's \<Rightarrow> 's result) \<Rightarrow> (64 word, 'l) amap \<Rightarrow> 'v \<Rightarrow> 'v \<Rightarrow> 's \<Rightarrow> 's result" where
  "run_cbs run [] old_value new_value s = Inr s"
| "run_cbs run ((k, cb) # cbs) old_value new_value s =
     rbind (run cb old_value new_value s) (\<lambda>s. run_cbs run cbs old_value new_value s)"

definition cv_setValue :: "('t, 'v) cpp_types \<Rightarrow> ('l \<Rightarrow> 'v \<Rightarrow> 'v \<Rightarrow> 's \<Rightarrow> 's result) \<Rightarrow> 'v
    \<Rightarrow> ('t, 'v, 'l) config_var \<Rightarrow> 's \<Rightarrow> (('t, 'v, 'l) config_var \<times> 's) result" where
  "cv_setValue ty run v var s =
     (if type_eq ty (cv_type var) v (cv_val var) then Inr (var, s)
      else rbind (run_cbs run (cv_cbs var) (cv_val var) v s) (\<lambda>s. Inr (var\<lparr>cv_val := v\<rparr>, s)))"

text \<open>\<open>fromString\<close> returns \<^verbatim>\<open>false\<close> whether it could convert or not.\<close>

definition cv_fromString :: "('t, 'v) cpp_types \<Rightarrow> ('l \<Rightarrow> 'v \<Rightarrow> 'v \<Rightarrow> 's \<Rightarrow> 's result) \<Rightarrow> string
    \<Rightarrow> ('t, 'v, 'l) config_var \<Rightarrow> 's \<Rightarrow> (bool \<times> ('t, 'v, 'l) config_var \<times> 's) result" where
  "cv_fromString ty run val var s =
     (case from_str ty (cv_type var) val of
        None \<Rightarrow> Inr (False, var, s)
      | Some v \<Rightarrow> rbind (cv_setValue ty run v var s) (\<lambda>(var, s). Inr (False, var, s)))"

text \<open>The counter for listeners is one per type.\<close>

definition cv_addListener :: "'l \<Rightarrow> ('t \<Rightarrow> 64 word) \<Rightarrow> ('t, 'v, 'l) config_var
    \<Rightarrow> 64 word \<times> ('t \<Rightarrow> 64 word) \<times> ('t, 'v, 'l) config_var" where
  "cv_addListener cb s_fun_id var =
     (let k = s_fun_id (cv_type var) + 1
      in (k, s_fun_id(cv_type var := k), var\<lparr>cv_cbs := map_set (<) k cb (cv_cbs var)\<rparr>))"

definition cv_delListener :: "64 word \<Rightarrow> ('t, 'v, 'l) config_var \<Rightarrow> ('t, 'v, 'l) config_var" where
  "cv_delListener key var = var\<lparr>cv_cbs := map_erase (<) key (cv_cbs var)\<rparr>"

definition cv_getListener :: "64 word \<Rightarrow> ('t, 'v, 'l) config_var \<Rightarrow> 'l option" where
  "cv_getListener key var = map_find (<) key (cv_cbs var)"

definition cv_clearListener :: "('t, 'v, 'l) config_var \<Rightarrow> ('t, 'v, 'l) config_var" where
  "cv_clearListener var = var\<lparr>cv_cbs := []\<rparr>"

section \<open>The registry\<close>

record ('t, 'v, 'l) config =
  cfg_datas :: "string \<rightharpoonup> ('t, 'v, 'l) config_var"
  cfg_fun_id :: "'t \<Rightarrow> 64 word"

definition empty_config :: "('t, 'v, 'l) config" where
  "empty_config = \<lparr>cfg_datas = Map.empty, cfg_fun_id = (\<lambda>_. 0)\<rparr>"

definition valid_name :: "string \<Rightarrow> bool" where
  "valid_name name \<longleftrightarrow> set name \<subseteq> set ''abcdefghikjlmnopqrstuvwxyz._012345678''"

text \<open>\<open>Lookup\<close> with a default value: the name of the variable, \<open>None\<close> for a null pointer.\<close>

definition Config_Lookup :: "'t \<Rightarrow> string \<Rightarrow> 'v \<Rightarrow> string \<Rightarrow> ('t, 'v, 'l) config \<Rightarrow> (string option \<times> ('t, 'v, 'l) config) result" where
  "Config_Lookup t name default_value description c =
     (case cfg_datas c name of
        Some var \<Rightarrow> if cv_type var = t then Inr (Some name, c) else Inr (None, c)
      | None \<Rightarrow>
          if \<not> valid_name name then Inl (Invalid_argument name)
          else Inr (Some name, c\<lparr>cfg_datas := (cfg_datas c)(name \<mapsto> mk_ConfigVar t name default_value description)\<rparr>))"

definition Config_Lookup_existing :: "'t \<Rightarrow> string \<Rightarrow> ('t, 'v, 'l) config \<Rightarrow> string option" where
  "Config_Lookup_existing t name c =
     (case cfg_datas c name of None \<Rightarrow> None | Some var \<Rightarrow> if cv_type var = t then Some name else None)"

definition LookupBase :: "string \<Rightarrow> ('t, 'v, 'l) config \<Rightarrow> ('t, 'v, 'l) config_var option" where
  "LookupBase name c = cfg_datas c name"

text \<open>The variable behind a pointer, written back after an operation on it.\<close>

definition cfg_put :: "string \<Rightarrow> ('t, 'v, 'l) config_var \<Rightarrow> ('t, 'v, 'l) config \<Rightarrow> ('t, 'v, 'l) config" where
  "cfg_put name var c = c\<lparr>cfg_datas := (cfg_datas c)(name \<mapsto> var)\<rparr>"

fun ListAllMember :: "string \<Rightarrow> yaml \<Rightarrow> (string \<times> yaml) list" where
  "ListAllMember prefix node =
     (if \<not> valid_name prefix then []
      else (prefix, node) #
        (case node of
           Map_node kvs \<Rightarrow>
             concat (map (\<lambda>(k, v). ListAllMember (if prefix = [] then k else prefix @ ''.'' @ k) v) kvs)
         | _ \<Rightarrow> []))"

declare ListAllMember.simps [simp del]

definition member_text :: "yaml_lib \<Rightarrow> yaml \<Rightarrow> string" where
  "member_text lib node = (case node of Scalar s \<Rightarrow> s | _ \<Rightarrow> yl_emit lib node)"

fun yaml_loop :: "yaml_lib \<Rightarrow> ('t, 'v) cpp_types \<Rightarrow> ('l \<Rightarrow> 'v \<Rightarrow> 'v \<Rightarrow> 's \<Rightarrow> 's result) \<Rightarrow> (string \<times> yaml) list
    \<Rightarrow> ('t, 'v, 'l) config \<Rightarrow> 's \<Rightarrow> (('t, 'v, 'l) config \<times> 's) result" where
  "yaml_loop lib ty run [] c s = Inr (c, s)"
| "yaml_loop lib ty run ((key, node) # all_nodes) c s =
     (if key = [] then yaml_loop lib ty run all_nodes c s
      else let key = map to_lower key in
        case LookupBase key c of
          None \<Rightarrow> yaml_loop lib ty run all_nodes c s
        | Some var \<Rightarrow>
            rbind (cv_fromString ty run (member_text lib node) var s) (\<lambda>(_, var, s).
              yaml_loop lib ty run all_nodes (cfg_put key var c) s))"

definition LoadFromYaml :: "yaml_lib \<Rightarrow> ('t, 'v) cpp_types \<Rightarrow> ('l \<Rightarrow> 'v \<Rightarrow> 'v \<Rightarrow> 's \<Rightarrow> 's result) \<Rightarrow> yaml
    \<Rightarrow> ('t, 'v, 'l) config \<Rightarrow> 's \<Rightarrow> (('t, 'v, 'l) config \<times> 's) result" where
  "LoadFromYaml lib ty run root c s = yaml_loop lib ty run (ListAllMember [] root) c s"

text \<open>\<open>Visit\<close> calls \<open>cb\<close> on every variable, in the order \<open>names\<close> of the hash map.\<close>

definition Config_Visit :: "(('t, 'v, 'l) config_var \<Rightarrow> 's \<Rightarrow> 's) \<Rightarrow> string list \<Rightarrow> ('t, 'v, 'l) config \<Rightarrow> 's \<Rightarrow> 's" where
  "Config_Visit cb names c s = fold (\<lambda>name. case cfg_datas c name of Some var \<Rightarrow> cb var | None \<Rightarrow> (\<lambda>s. s)) names s"

section \<open>Lemmas: conversions\<close>

interpretation ids: ordered_map "(<) :: 64 word \<Rightarrow> 64 word \<Rightarrow> bool"
  by unfold_locales auto

interpretation keys: ordered_map "(<) :: string \<Rightarrow> string \<Rightarrow> bool"
  by unfold_locales auto

lemma those_Some: "\<forall>x \<in> set xs. f x = Some (g x) \<Longrightarrow> those (map f xs) = Some (map g xs)"
  by (induction xs) auto

text \<open>An element that is printed, parsed, printed by the library and read back.\<close>

definition element_ok :: "yaml_lib \<Rightarrow> ('a \<Rightarrow> string option) \<Rightarrow> (string \<Rightarrow> 'a option) \<Rightarrow> 'a \<Rightarrow> bool" where
  "element_ok lib to from x \<longleftrightarrow> (\<exists>s y. to x = Some s \<and> yl_Load lib s = Some y \<and> from (yl_emit lib y) = Some x)"

lemma element_node:
  "element_ok lib to from x \<Longrightarrow> \<exists>y. Option.bind (to x) (yl_Load lib) = Some y \<and> from (yl_emit lib y) = Some x"
  by (auto simp: element_ok_def)

lemma elements_nodes:
  "\<forall>x \<in> set xs. element_ok lib to from x \<Longrightarrow> \<exists>ys. those (map (\<lambda>i. Option.bind (to i) (yl_Load lib)) xs) = Some ys \<and>
     length ys = length xs \<and> those (map (\<lambda>y. from (yl_emit lib y)) ys) = Some xs"
proof (induction xs)
  case (Cons x xs)
  then obtain ys where "those (map (\<lambda>i. Option.bind (to i) (yl_Load lib)) xs) = Some ys"
    "length ys = length xs" "those (map (\<lambda>y. from (yl_emit lib y)) ys) = Some xs" by auto
  moreover obtain y where "Option.bind (to x) (yl_Load lib) = Some y" "from (yl_emit lib y) = Some x"
    using Cons.prems element_node[of lib to "from" x] by auto
  ultimately show ?case by (intro exI[of _ "y # ys"]) simp
qed simp

lemma node_loop:
  "map (\<lambda>i. from (yl_emit lib (node_at lib (if ys = [] then Null_node else Sequence ys) i)))
     [0..<node_size (if ys = [] then Null_node else Sequence ys)] = map (\<lambda>y. from (yl_emit lib y)) ys"
  by (rule nth_equalityI) (auto simp: node_size_def node_at_def)

lemma vector_roundtrip:
  assumes "\<forall>n. yl_Load lib (yl_emit lib n) = Some n" "\<forall>x \<in> set xs. element_ok lib to from x"
  shows "\<exists>s. string_of_vector lib to xs = Some s \<and> vector_of_string lib from s = Some xs"
proof -
  obtain ys where ys: "those (map (\<lambda>i. Option.bind (to i) (yl_Load lib)) xs) = Some ys"
    "those (map (\<lambda>y. from (yl_emit lib y)) ys) = Some xs" using elements_nodes[OF assms(2)] by blast
  define node where "node = (if ys = [] then Null_node else Sequence ys)"
  have "string_of_vector lib to xs = Some (yl_emit lib node)" by (simp add: string_of_vector_def ys(1) node_def)
  moreover have "vector_of_string lib from (yl_emit lib node) = Some xs"
    using assms(1) ys(2) by (simp add: vector_of_string_def node_loop[of "from" lib ys, folded node_def])
  ultimately show ?thesis by blast
qed

lemma insort_loop: "sorted xs \<Longrightarrow> distinct xs \<Longrightarrow> foldl (\<lambda>vec x. insort_insert x vec) [] xs = (xs :: 'a::linorder list)"
proof (induction xs rule: rev_induct)
  case (snoc x xs)
  have x: "\<forall>y \<in> set xs. y < x" using snoc.prems by (fastforce simp: sorted_append less_le)
  have "insort x xs = xs @ [x]" using x by (induction xs) auto
  moreover have "x \<notin> set xs" using snoc.prems by simp
  ultimately show ?case using snoc by (simp add: insort_insert_insort sorted_append)
qed simp

lemma set_roundtrip:
  assumes "\<forall>n. yl_Load lib (yl_emit lib n) = Some n" "\<forall>x \<in> set xs. element_ok lib to from x" "sorted xs" "distinct xs"
  shows "\<exists>s. string_of_set lib to xs = Some s \<and> set_of_string lib from s = Some xs"
proof -
  obtain ys where ys: "those (map (\<lambda>i. Option.bind (to i) (yl_Load lib)) xs) = Some ys"
    "those (map (\<lambda>y. from (yl_emit lib y)) ys) = Some xs" using elements_nodes[OF assms(2)] by blast
  define node where "node = (if ys = [] then Null_node else Sequence ys)"
  have "string_of_set lib to xs = Some (yl_emit lib node)" by (simp add: string_of_set_def ys(1) node_def)
  moreover have "set_of_string lib from (yl_emit lib node) = Some xs"
    using assms(1) ys(2) by (simp add: set_of_string_def node_loop[of "from" lib ys, folded node_def]
      insort_loop[OF assms(3,4)])
  ultimately show ?thesis by blast
qed

lemma map_entries:
  "\<forall>e \<in> set kvs. element_ok lib to from (snd e) \<Longrightarrow>
   \<exists>ns. those (map (\<lambda>(k, x). map_option (Pair k) (Option.bind (to x) (yl_Load lib))) kvs) = Some ns \<and>
     those (map (\<lambda>(k, n). map_option (Pair k) (from (yl_emit lib n))) ns) = Some kvs"
proof (induction kvs)
  case (Cons e kvs)
  then obtain ns where "those (map (\<lambda>(k, x). map_option (Pair k) (Option.bind (to x) (yl_Load lib))) kvs) = Some ns"
     "those (map (\<lambda>(k, n). map_option (Pair k) (from (yl_emit lib n))) ns) = Some kvs" by auto
  moreover obtain y where "Option.bind (to (snd e)) (yl_Load lib) = Some y" "from (yl_emit lib y) = Some (snd e)"
    using Cons.prems element_node[of lib to "from" "snd e"] by auto
  ultimately show ?case by (intro exI[of _ "(fst e, y) # ns"]) (auto split: prod.splits)
qed simp

lemma map_set_last: "\<forall>e \<in> set m. lt (fst e) k \<Longrightarrow> map_set lt k v m = m @ [(k, v)]"
  by (induction m) auto

lemma map_find_less: "\<forall>e \<in> set m. fst e < k \<Longrightarrow> map_find (<) (k :: string) m = None"
  by (induction m) auto

lemma map_loop:
  "keys.ordered kvs \<Longrightarrow>
   foldl (\<lambda>vec (k, x). if map_find (<) k vec = None then map_set (<) k x vec else vec) [] kvs = kvs"
proof (induction kvs rule: rev_induct)
  case (snoc e kvs)
  have "\<forall>e' \<in> set kvs. fst e' < fst e" "keys.ordered kvs"
    using snoc.prems by (auto simp: keys.ordered_def sorted_wrt_append)
  then show ?case using snoc.IH by (cases e) (simp add: map_find_less map_set_last)
qed simp

lemma map_roundtrip:
  assumes "\<forall>n. yl_Load lib (yl_emit lib n) = Some n" "\<forall>e \<in> set kvs. element_ok lib to from (snd e)" "keys.ordered kvs"
  shows "\<exists>s. string_of_map lib to kvs = Some s \<and> map_of_string lib from s = Some kvs"
  using map_entries[OF assms(2)] assms(1) map_loop[OF assms(3)]
  by (fastforce simp: string_of_map_def map_of_string_def node_pairs_def)

section \<open>Lemmas: loading\<close>

text \<open>The members of a tree: what is reached by keys that are valid names all the way down.\<close>

inductive member_of :: "string \<Rightarrow> yaml \<Rightarrow> string \<Rightarrow> yaml \<Rightarrow> bool" where
  here: "valid_name prefix \<Longrightarrow> member_of prefix node prefix node"
| below: "valid_name prefix \<Longrightarrow> (k, v) \<in> set kvs \<Longrightarrow>
    member_of (if prefix = [] then k else prefix @ ''.'' @ k) v name node \<Longrightarrow> member_of prefix (Map_node kvs) name node"

lemma member_of_list: "(name, n) \<in> set (ListAllMember prefix node) \<longleftrightarrow> member_of prefix node name n"
proof
  show "member_of prefix node name n \<Longrightarrow> (name, n) \<in> set (ListAllMember prefix node)"
  proof (induction rule: member_of.induct)
    case (here prefix node)
    then show ?case by (subst ListAllMember.simps) simp
  next
    case (below prefix k v kvs name node)
    then show ?case by (subst ListAllMember.simps) fastforce
  qed
  show "(name, n) \<in> set (ListAllMember prefix node) \<Longrightarrow> member_of prefix node name n"
  proof (induction prefix node rule: ListAllMember.induct)
    case (1 prefix node)
    show ?case
    proof (cases "valid_name prefix \<and> (name, n) \<noteq> (prefix, node)")
      case True
      then obtain kvs k v where "node = Map_node kvs" "(k, v) \<in> set kvs"
        "(name, n) \<in> set (ListAllMember (if prefix = [] then k else prefix @ ''.'' @ k) v)"
        using 1(2) by (subst (asm) ListAllMember.simps) (auto split: yaml.splits)
      then show ?thesis using 1(1)[of kvs "(k, v)" k v] True by (auto intro: member_of.below)
    next
      case False
      then show ?thesis using 1(2) by (subst (asm) ListAllMember.simps) (auto intro: member_of.here split: if_splits)
    qed
  qed
qed

lemma members_valid: "member_of prefix node name n \<Longrightarrow> valid_name name"
  by (induction rule: member_of.induct) auto

lemma to_lower_letters: "list_all (\<lambda>c. to_lower c = c) ''abcdefghikjlmnopqrstuvwxyz._012345678''"
  by code_simp

lemma to_lower_valid: "valid_name name \<Longrightarrow> map to_lower name = name"
  using to_lower_letters unfolding valid_name_def list_all_iff by (intro map_idI) blast

text \<open>What loading should do to the value of one variable, and whether listeners can fail.\<close>

definition converted :: "yaml_lib \<Rightarrow> ('t, 'v) cpp_types \<Rightarrow> 't \<Rightarrow> yaml list \<Rightarrow> 'v \<Rightarrow> 'v" where
  "converted lib ty t nodes v = foldl (\<lambda>v node. case from_str ty t (member_text lib node) of
     Some w \<Rightarrow> if type_eq ty t w v then v else w | None \<Rightarrow> v) v nodes"

definition total_run :: "('l \<Rightarrow> 'v \<Rightarrow> 'v \<Rightarrow> 's \<Rightarrow> 's result) \<Rightarrow> bool" where
  "total_run run \<longleftrightarrow> (\<forall>cb old new s. \<exists>s'. run cb old new s = Inr s')"

lemma converted_simps:
  "converted lib ty t [] v = v"
  "converted lib ty t (node # nodes) v = converted lib ty t nodes (converted lib ty t [node] v)"
  by (simp_all add: converted_def)

lemma run_cbs_total: "total_run run \<Longrightarrow> \<exists>s'. run_cbs run cbs old new s = Inr s'"
proof (induction cbs arbitrary: s)
  case (Cons a cbs)
  obtain s' where "run (snd a) old new s = Inr s'" using Cons.prems unfolding total_run_def by blast
  then show ?case using Cons.IH[OF Cons.prems, of s'] by (cases a) auto
qed simp

lemma cv_fromString_total:
  assumes "total_run run"
  shows "\<exists>s'. cv_fromString ty run (member_text lib node) var s =
     Inr (False, var\<lparr>cv_val := converted lib ty (cv_type var) [node] (cv_val var)\<rparr>, s')"
proof (cases "from_str ty (cv_type var) (member_text lib node)")
  case None
  then show ?thesis by (simp add: cv_fromString_def converted_def)
next
  case (Some w)
  obtain s' where "run_cbs run (cv_cbs var) (cv_val var) w s = Inr s'" using run_cbs_total[OF assms] by blast
  then show ?thesis using Some by (simp add: cv_fromString_def converted_def cv_setValue_def)
qed

lemma yaml_loop_exact:
  assumes "total_run run" "\<forall>e \<in> set ms. valid_name (fst e)"
  shows "\<exists>c' s'. yaml_loop lib ty run ms c s = Inr (c', s') \<and> cfg_fun_id c' = cfg_fun_id c \<and>
    (\<forall>name. cfg_datas c' name = map_option (\<lambda>var. var\<lparr>cv_val :=
       converted lib ty (cv_type var) (if name = [] then [] else map snd (filter (\<lambda>e. fst e = name) ms)) (cv_val var)\<rparr>)
       (cfg_datas c name))"
  using assms(2)
proof (induction ms arbitrary: c s)
  case Nil
  then show ?case by (simp add: converted_def option.map_ident)
next
  case (Cons e ms)
  obtain key node where e: "e = (key, node)" by (cases e)
  have low: "map to_lower key = key" "\<forall>e \<in> set ms. valid_name (fst e)" using Cons.prems by (auto simp: e to_lower_valid)
  show ?case
  proof (cases "key = [] \<or> cfg_datas c key = None")
    case True
    obtain c' s' where IH: "yaml_loop lib ty run ms c s = Inr (c', s')" "cfg_fun_id c' = cfg_fun_id c"
      "\<And>name. cfg_datas c' name = map_option (\<lambda>var. var\<lparr>cv_val :=
         converted lib ty (cv_type var) (if name = [] then [] else map snd (filter (\<lambda>e. fst e = name) ms)) (cv_val var)\<rparr>)
         (cfg_datas c name)"
      using Cons.IH[OF low(2), of c s] by blast
    have "yaml_loop lib ty run (e # ms) c s = Inr (c', s')"
      using True IH(1) low(1) by (auto simp: e Let_def LookupBase_def)
    then show ?thesis using True IH(2,3) by (auto simp: e)
  next
    case False
    then obtain var where var: "cfg_datas c key = Some var" "key \<noteq> []" by auto
    define var' where "var' = var\<lparr>cv_val := converted lib ty (cv_type var) [node] (cv_val var)\<rparr>"
    obtain s1 where f: "cv_fromString ty run (member_text lib node) var s = Inr (False, var', s1)"
      using cv_fromString_total[OF assms(1)] unfolding var'_def by blast
    obtain c' s' where IH: "yaml_loop lib ty run ms (cfg_put key var' c) s1 = Inr (c', s')"
      "cfg_fun_id c' = cfg_fun_id (cfg_put key var' c)"
      "\<And>name. cfg_datas c' name = map_option (\<lambda>var. var\<lparr>cv_val :=
         converted lib ty (cv_type var) (if name = [] then [] else map snd (filter (\<lambda>e. fst e = name) ms)) (cv_val var)\<rparr>)
         (cfg_datas (cfg_put key var' c) name)"
      using Cons.IH[OF low(2), of "cfg_put key var' c" s1] by blast
    have "yaml_loop lib ty run (e # ms) c s = Inr (c', s')"
      using var f IH(1) low(1) by (simp add: e Let_def LookupBase_def)
    moreover have "cfg_datas c' name = map_option (\<lambda>var. var\<lparr>cv_val :=
         converted lib ty (cv_type var) (if name = [] then [] else map snd (filter (\<lambda>e. fst e = name) (e # ms))) (cv_val var)\<rparr>)
         (cfg_datas c name)" for name
    proof (cases "name = key")
      case True
      have "var'\<lparr>cv_val := v\<rparr> = var\<lparr>cv_val := v\<rparr>" "cv_type var' = cv_type var" for v by (simp_all add: var'_def)
      moreover have "cv_val var' = converted lib ty (cv_type var) [node] (cv_val var)" by (simp add: var'_def)
      moreover have "cfg_datas c' key = Some (var'\<lparr>cv_val := converted lib ty (cv_type var')
          (map snd (filter (\<lambda>e. fst e = key) ms)) (cv_val var')\<rparr>)"
        using IH(3)[of key] var(2) by (simp add: cfg_put_def)
      ultimately show ?thesis
        using var True converted_simps(2)[of lib ty "cv_type var" node "map snd (filter (\<lambda>e. fst e = key) ms)"] by (simp add: e)
    next
      case False
      then show ?thesis using IH(3)[of name] by (auto simp: e cfg_put_def)
    qed
    ultimately show ?thesis using IH(2) by (auto simp: cfg_put_def)
  qed
qed

section \<open>Lemmas: type safety\<close>

definition cfg_ok :: "('t, 'v) cpp_types \<Rightarrow> ('t, 'v, 'l) config \<Rightarrow> bool" where
  "cfg_ok ty c \<longleftrightarrow> (\<forall>name var. cfg_datas c name = Some var \<longrightarrow>
     valid_name name \<and> cv_name var = name \<and> has_type ty (cv_type var) (cv_val var) \<and> ids.ordered (cv_cbs var))"

text \<open>Nothing is removed from the registry, and no variable changes its type.\<close>

definition cfg_extends :: "('t, 'v, 'l) config \<Rightarrow> ('t, 'v, 'l) config \<Rightarrow> bool" where
  "cfg_extends c c' \<longleftrightarrow> (\<forall>name var. cfg_datas c name = Some var \<longrightarrow>
     (\<exists>var'. cfg_datas c' name = Some var' \<and> cv_type var' = cv_type var))"

inductive cfg_step :: "yaml_lib \<Rightarrow> ('t, 'v) cpp_types \<Rightarrow> ('l \<Rightarrow> 'v \<Rightarrow> 'v \<Rightarrow> 's \<Rightarrow> 's result)
    \<Rightarrow> ('t, 'v, 'l) config \<Rightarrow> ('t, 'v, 'l) config \<Rightarrow> bool" for lib ty run where
  lookup: "has_type ty t d \<Longrightarrow> Config_Lookup t name d descr c = Inr (r, c') \<Longrightarrow> cfg_step lib ty run c c'"
| set: "cfg_datas c name = Some var \<Longrightarrow> has_type ty (cv_type var) v \<Longrightarrow> cv_setValue ty run v var s = Inr (var', s') \<Longrightarrow>
    cfg_step lib ty run c (cfg_put name var' c)"
| add: "cfg_datas c name = Some var \<Longrightarrow> cv_addListener cb (cfg_fun_id c) var = (k, f, var') \<Longrightarrow>
    cfg_step lib ty run c ((cfg_put name var' c)\<lparr>cfg_fun_id := f\<rparr>)"
| del: "cfg_datas c name = Some var \<Longrightarrow> cfg_step lib ty run c (cfg_put name (cv_delListener key var) c)"
| clear: "cfg_datas c name = Some var \<Longrightarrow> cfg_step lib ty run c (cfg_put name (cv_clearListener var) c)"
| load: "LoadFromYaml lib ty run root c s = Inr (c', s') \<Longrightarrow> cfg_step lib ty run c c'"

definition conversions_typed :: "('t, 'v) cpp_types \<Rightarrow> bool" where
  "conversions_typed ty \<longleftrightarrow> (\<forall>t s v. from_str ty t s = Some v \<longrightarrow> has_type ty t v)"

lemma cfg_extends_refl: "cfg_extends c c"
  by (simp add: cfg_extends_def)

lemma cfg_extends_trans: "cfg_extends c c' \<Longrightarrow> cfg_extends c' c'' \<Longrightarrow> cfg_extends c c''"
  unfolding cfg_extends_def by metis

text \<open>Writing a variable back keeps both, if its name and type are kept and its value is typed.\<close>

lemma cfg_put_ok:
  assumes "cfg_ok ty c" "cfg_datas c name = Some var" "cv_name var' = cv_name var" "cv_type var' = cv_type var"
    "has_type ty (cv_type var) (cv_val var')" "ids.ordered (cv_cbs var')"
  shows "cfg_ok ty (cfg_put name var' c) \<and> cfg_extends c (cfg_put name var' c)"
  using assms unfolding cfg_ok_def cfg_extends_def by (auto simp: cfg_put_def)

lemma cv_setValue_frame:
  "cv_setValue ty run v var s = Inr (var', s') \<Longrightarrow> cv_name var' = cv_name var \<and> cv_type var' = cv_type var \<and>
     cv_cbs var' = cv_cbs var \<and> cv_val var' \<in> {v, cv_val var}"
  by (auto simp: cv_setValue_def rbind_eq_Inr_iff split: if_splits)

lemma cv_fromString_frame:
  "cv_fromString ty run val var s = Inr (b, var', s') \<Longrightarrow> cv_name var' = cv_name var \<and> cv_type var' = cv_type var \<and>
     cv_cbs var' = cv_cbs var \<and> (cv_val var' = cv_val var \<or> from_str ty (cv_type var) val = Some (cv_val var'))"
  by (auto simp: cv_fromString_def rbind_eq_Inr_iff dest: cv_setValue_frame split: option.splits)

lemma yaml_loop_ok:
  "conversions_typed ty \<Longrightarrow> cfg_ok ty c \<Longrightarrow> yaml_loop lib ty run ms c s = Inr (c', s') \<Longrightarrow> cfg_ok ty c' \<and> cfg_extends c c'"
proof (induction ms arbitrary: c s)
  case (Cons e ms)
  obtain key node where e: "e = (key, node)" by (cases e)
  show ?case
  proof (cases "key = [] \<or> LookupBase (map to_lower key) c = None")
    case True
    then have "yaml_loop lib ty run ms c s = Inr (c', s')" using Cons.prems(3) by (auto simp: e Let_def split: if_splits)
    then show ?thesis using Cons.IH Cons.prems by blast
  next
    case False
    then obtain var where var: "key \<noteq> []" "LookupBase (map to_lower key) c = Some var" by auto
    then obtain b var' s1 where f: "cv_fromString ty run (member_text lib node) var s = Inr (b, var', s1)"
      "yaml_loop lib ty run ms (cfg_put (map to_lower key) var' c) s1 = Inr (c', s')"
      using Cons.prems(3) by (auto simp: e Let_def rbind_eq_Inr_iff)
    have d: "cfg_datas c (map to_lower key) = Some var" using var(2) by (simp add: LookupBase_def)
    then have "has_type ty (cv_type var) (cv_val var) \<and> ids.ordered (cv_cbs var)" using Cons.prems(2) by (simp add: cfg_ok_def)
    then have "has_type ty (cv_type var) (cv_val var') \<and> ids.ordered (cv_cbs var')"
      using cv_fromString_frame[OF f(1)] Cons.prems(1) by (auto simp: conversions_typed_def)
    then have "cfg_ok ty (cfg_put (map to_lower key) var' c) \<and> cfg_extends c (cfg_put (map to_lower key) var' c)"
      using cfg_put_ok[OF Cons.prems(2) d] cv_fromString_frame[OF f(1)] by blast
    then show ?thesis using Cons.IH[OF Cons.prems(1) _ f(2)] cfg_extends_trans by blast
  qed
qed (auto simp: cfg_extends_refl)

lemma cfg_step_ok:
  assumes "cfg_step lib ty run c c'" "conversions_typed ty" "cfg_ok ty c"
  shows "cfg_ok ty c' \<and> cfg_extends c c'"
  using assms
proof (induction rule: cfg_step.induct)
  case (lookup t d name descr c r c')
  show ?case
  proof (cases "c' = c")
    case False
    then have n: "cfg_datas c name = None" "valid_name name"
      "c' = c\<lparr>cfg_datas := (cfg_datas c)(name \<mapsto> mk_ConfigVar t name d descr)\<rparr>"
      using lookup.hyps(2) by (auto simp: Config_Lookup_def split: option.splits if_splits)
    show ?thesis
      using n lookup.hyps(1) lookup.prems(2)
      by (auto simp: cfg_ok_def cfg_extends_def mk_ConfigVar_def to_lower_valid ids.ordered_def)
  qed (use lookup.prems cfg_extends_refl in blast)
next
  case (set c name var v s var' s')
  then have v: "has_type ty (cv_type var) (cv_val var)" "ids.ordered (cv_cbs var)" by (simp_all add: cfg_ok_def)
  show ?case
    using cfg_put_ok[OF set.prems(2) set.hyps(1), of var'] cv_setValue_frame[OF set.hyps(3)] set.hyps(2) v by auto
next
  case (add c name var cb k f var')
  then have v: "has_type ty (cv_type var) (cv_val var)" "ids.ordered (cv_cbs var)" by (simp_all add: cfg_ok_def)
  have "cv_name var' = cv_name var" "cv_type var' = cv_type var" "cv_val var' = cv_val var" "ids.ordered (cv_cbs var')"
    using add.hyps(2) v(2) by (auto simp: cv_addListener_def Let_def ids.ordered_set)
  then have "cfg_ok ty (cfg_put name var' c) \<and> cfg_extends c (cfg_put name var' c)"
    using cfg_put_ok[OF add.prems(2) add.hyps(1)] v(1) by simp
  then show ?case by (simp add: cfg_ok_def cfg_extends_def)
next
  case (del c name var key)
  then have v: "has_type ty (cv_type var) (cv_val var)" "ids.ordered (cv_cbs var)" by (simp_all add: cfg_ok_def)
  then show ?case using cfg_put_ok[OF del.prems(2) del.hyps(1), of "cv_delListener key var"]
    by (simp add: cv_delListener_def ids.ordered_erase)
next
  case (clear c name var)
  then have v: "has_type ty (cv_type var) (cv_val var)" by (simp add: cfg_ok_def)
  then show ?case using cfg_put_ok[OF clear.prems(2) clear.hyps(1), of "cv_clearListener var"]
    by (simp add: cv_clearListener_def ids.ordered_def)
next
  case (load root c s c' s')
  then show ?case unfolding LoadFromYaml_def by (metis yaml_loop_ok)
qed

lemma cfg_reach_ok:
  assumes "(cfg_step lib ty run)\<^sup>*\<^sup>* c c'" "conversions_typed ty" "cfg_ok ty c"
  shows "cfg_ok ty c' \<and> cfg_extends c c'"
  using assms
proof (induction rule: rtranclp_induct)
  case (step c1 c2)
  then show ?case using cfg_step_ok cfg_extends_trans by blast
qed (simp add: cfg_extends_refl)

section \<open>Properties\<close>

text \<open>
  C27: The registry is type-safe.  In every state reached by looking up, setting, listening to and
  loading variables, a variable found with \<open>Lookup\<close> at a type is of that type, and stays
  registered under that name, with that type and with a value of it, in every later state, files loaded
  from YAML included, where a further \<open>Lookup\<close> finds it at this type and gives null at any other; its name is in lower case and of the permitted characters, and its listeners are kept in the order
  of their keys.
\<close>

theorem config_type_safe:
  assumes "conversions_typed ty" "(cfg_step lib ty run)\<^sup>*\<^sup>* empty_config c" "(cfg_step lib ty run)\<^sup>*\<^sup>* c c'"
    "Config_Lookup_existing t name c = Some p"
  shows "\<exists>var. p = name \<and> cfg_datas c' p = Some var \<and> cv_type var = t \<and> has_type ty t (cv_val var) \<and>
    cv_name var = name \<and> valid_name name \<and> ids.ordered (cv_cbs var) \<and>
    (\<forall>t' d descr. Config_Lookup_existing t' name c' = (if t' = t then Some p else None) \<and>
       Config_Lookup t' name d descr c' = Inr (if t' = t then Some p else None, c'))"
proof -
  have "cfg_ok ty c" using cfg_reach_ok[OF assms(2,1)] by (simp add: cfg_ok_def empty_config_def)
  then have ok: "cfg_ok ty c'" "cfg_extends c c'" using cfg_reach_ok[OF assms(3,1)] by blast+
  obtain var where var: "p = name" "cfg_datas c name = Some var" "cv_type var = t"
    using assms(4) by (auto simp: Config_Lookup_existing_def split: option.splits if_splits)
  then obtain var' where "cfg_datas c' name = Some var'" "cv_type var' = t" using ok(2) by (auto simp: cfg_extends_def)
  then show ?thesis using var(1) ok(1) by (auto simp: cfg_ok_def Config_Lookup_existing_def Config_Lookup_def)
qed

text \<open>Two types as an instance: numbers and strings.\<close>

definition two_types :: "(bool, nat + string) cpp_types" where
  "two_types = \<lparr>has_type = (\<lambda>t v. isl v = t), type_eq = (\<lambda>_ v w. v = w),
     from_str = (\<lambda>t s. if t then (if s \<noteq> [] \<and> list_all is_digit s then Some (Inl (dec_val s)) else None) else Some (Inr s)),
     to_str = (\<lambda>_ v. Some (case v of Inl n \<Rightarrow> show_nat n | Inr s \<Rightarrow> s))\<rparr>"

text \<open>A library that reads back what it prints, with numbers for trees.\<close>

definition counting_yaml :: yaml_lib where
  "counting_yaml = \<lparr>yl_Load = (\<lambda>s. Some (from_nat (dec_val s))), yl_emit = (\<lambda>n. show_nat (to_nat n)), yl_index = (\<lambda>_ _. Null_node), yl_as_string = (\<lambda>n. case n of Scalar s \<Rightarrow> Some s | _ \<Rightarrow> None)\<rparr>"

definition silent :: "unit \<Rightarrow> nat + string \<Rightarrow> nat + string \<Rightarrow> unit \<Rightarrow> unit result" where
  "silent cb old_value new_value s = Inr s"

theorem config_type_safe_witness:
  "\<exists>var c'. Config_Lookup True ''tcp.port'' (Inl 80) ''port'' (empty_config :: (bool, nat + string, unit) config) = Inr (Some ''tcp.port'', c') \<and>
     cfg_datas c' ''tcp.port'' = Some var \<and> isl (cv_val var)"
proof -
  have v: "valid_name ''tcp.port''" by (simp add: valid_name_def)
  define c1 :: "(bool, nat + string, unit) config" where
    "c1 = empty_config\<lparr>cfg_datas := [''tcp.port'' \<mapsto> mk_ConfigVar True ''tcp.port'' (Inl 80) ''port'']\<rparr>"
  have l: "Config_Lookup True ''tcp.port'' (Inl 80) ''port'' empty_config = Inr (Some ''tcp.port'', c1)"
    using v by (simp add: Config_Lookup_def empty_config_def c1_def)
  have ty: "conversions_typed two_types" by (auto simp: conversions_typed_def two_types_def split: if_splits)
  have "cfg_step counting_yaml two_types silent empty_config c1"
    by (rule cfg_step.lookup[OF _ l]) (simp add: two_types_def)
  then have "(cfg_step counting_yaml two_types silent)\<^sup>*\<^sup>* empty_config c1" by (rule r_into_rtranclp)
  moreover have "Config_Lookup_existing True ''tcp.port'' c1 = Some ''tcp.port''"
    by (simp add: Config_Lookup_existing_def c1_def mk_ConfigVar_def)
  ultimately show ?thesis using config_type_safe[OF ty _ rtranclp.rtrancl_refl] l by (fastforce simp: two_types_def)
qed



text \<open>
  The conversions of containers are inverse to each other.  Where the library reads back what it prints and each
  element can be printed and read back, a vector, a set and a map are printed, and reading the text gives the
  same container, in the same order.
\<close>

theorem container_roundtrip:
  assumes "\<forall>n. yl_Load lib (yl_emit lib n) = Some n"
    "\<forall>x \<in> set xs. element_ok lib str cast x" "\<forall>x \<in> set us. element_ok lib str' cast' x" "sorted us" "distinct us"
    "\<forall>e \<in> set kvs. element_ok lib str cast (snd e)" "keys.ordered kvs"
  shows "\<exists>s u m. string_of_vector lib str xs = Some s \<and> vector_of_string lib cast s = Some xs \<and>
    string_of_set lib str' us = Some u \<and> set_of_string lib cast' u = Some us \<and>
    string_of_map lib str kvs = Some m \<and> map_of_string lib cast m = Some kvs"
  using vector_roundtrip[OF assms(1,2)] set_roundtrip[OF assms(1,3,4,5)] map_roundtrip[OF assms(1,6,7)] by blast

text \<open>Elements that print as the number of their scalar, to show that all hypotheses can hold.\<close>

definition number_text :: "nat \<Rightarrow> string option" where
  "number_text n = Some (show_nat (to_nat (Scalar (show_nat n))))"

definition text_number :: "string \<Rightarrow> nat option" where
  "text_number s = (case (from_nat (dec_val s) :: yaml) of Scalar t \<Rightarrow> Some (dec_val t) | _ \<Rightarrow> None)"

theorem container_roundtrip_witness:
  "\<exists>s m. string_of_vector counting_yaml number_text [3, 1] = Some s \<and> vector_of_string counting_yaml text_number s = Some [3, 1] \<and>
    string_of_map counting_yaml number_text [(''a'', 7), (''b'', 5)] = Some m \<and>
    map_of_string counting_yaml text_number m = Some [(''a'', 7), (''b'', 5)]"
proof -
  have l: "\<forall>n. yl_Load counting_yaml (yl_emit counting_yaml n) = Some n" by (simp add: counting_yaml_def)
  have e: "element_ok counting_yaml number_text text_number n" for n
    by (simp add: element_ok_def number_text_def text_number_def counting_yaml_def)
  have k: "keys.ordered [(''a'', 7 :: nat), (''b'', 5)]" by (simp add: keys.ordered_def less_char_def)
  show ?thesis
    using container_roundtrip[OF l, where xs = "[3, 1]" and us = "[1 :: nat]" and str = number_text and cast = text_number
      and str' = number_text and cast' = text_number and kvs = "[(''a'', 7), (''b'', 5)]"] e k by auto
qed

end
