(* ===== verification/Log.thy ===== *)
theory Log
  imports Config
begin

text \<open>
  Logging: \<^verbatim>\<open>captain/log.cpp\<close> and \<^verbatim>\<open>captain/include/log.h\<close>.  A pattern is parsed by the two nested loops of
  \<open>LogFormatter::init\<close>, on indices into the pattern as in the code.  Loggers and appenders are shared
  objects: a logger is known by its name, under which the manager keeps it for good, an appender by its address in the
  heap of the state \<open>log_state\<close>, which also has the text written to the standard output and the files.
  An output stream has its position in its file; buffering is not modelled, nor are the locks.  The clock,
  \<^verbatim>\<open>strftime\<close> and whether a file can be opened are parameters.
\<close>

section \<open>Levels and events\<close>

datatype level = UNKNOW | DEBUG | INFO | WARN | ERROR | FATAL

definition level_value :: "level \<Rightarrow> nat" where
  "level_value l = (case l of UNKNOW \<Rightarrow> 0 | DEBUG \<Rightarrow> 1 | INFO \<Rightarrow> 2 | WARN \<Rightarrow> 3 | ERROR \<Rightarrow> 4 | FATAL \<Rightarrow> 5)"

instantiation level :: linorder
begin

definition less_eq_level :: "level \<Rightarrow> level \<Rightarrow> bool" where
  "less_eq_level k l \<longleftrightarrow> level_value k \<le> level_value l"

definition less_level :: "level \<Rightarrow> level \<Rightarrow> bool" where
  "less_level k l \<longleftrightarrow> level_value k < level_value l"

instance
  by standard (auto simp: less_eq_level_def less_level_def level_value_def split: level.splits)

end

definition level_ToString :: "level \<Rightarrow> string" where
  "level_ToString l = (case l of DEBUG \<Rightarrow> ''DEBUG'' | INFO \<Rightarrow> ''INFO'' | WARN \<Rightarrow> ''WARN'' | ERROR \<Rightarrow> ''ERROR''
     | FATAL \<Rightarrow> ''FATAL'' | _ \<Rightarrow> ''UNKNOW'')"

definition level_FromString :: "string \<Rightarrow> level" where
  "level_FromString str =
     (if str = ''debug'' then DEBUG else if str = ''info'' then INFO else if str = ''warn'' then WARN
      else if str = ''error'' then ERROR else if str = ''fatal'' then FATAL
      else if str = ''DEBUG'' then DEBUG else if str = ''INFO'' then INFO else if str = ''WARN'' then WARN
      else if str = ''ERROR'' then ERROR else if str = ''FATAL'' then FATAL else UNKNOW)"

record log_event =
  ev_file :: string
  ev_line :: "32 word"
  ev_elapse :: "32 word"
  ev_threadId :: "32 word"
  ev_fiberId :: "32 word"
  ev_time :: "64 word"
  ev_threadName :: string
  ev_content :: string
  ev_logger :: string
  ev_level :: level

definition mk_LogEvent :: "string \<Rightarrow> level \<Rightarrow> string \<Rightarrow> 32 word \<Rightarrow> 32 word \<Rightarrow> 32 word \<Rightarrow> 32 word \<Rightarrow> 64 word \<Rightarrow> string \<Rightarrow> log_event" where
  "mk_LogEvent logger level file line elapse thread_id fiber_id time thread_name =
     \<lparr>ev_file = file, ev_line = line, ev_elapse = elapse, ev_threadId = thread_id, ev_fiberId = fiber_id, ev_time = time,
      ev_threadName = thread_name, ev_content = [], ev_logger = logger, ev_level = level\<rparr>"

text \<open>Writing to the stream of an event, and \<open>format\<close>, where \<open>text\<close> is what \<^verbatim>\<open>vasprintf\<close> gives, \<open>None\<close> if it fails.\<close>

definition ev_write :: "string \<Rightarrow> log_event \<Rightarrow> log_event" where
  "ev_write s event = event\<lparr>ev_content := ev_content event @ s\<rparr>"

definition ev_format :: "string option \<Rightarrow> log_event \<Rightarrow> log_event" where
  "ev_format text event = (case text of Some s \<Rightarrow> ev_write s event | None \<Rightarrow> event)"

section \<open>Patterns\<close>

datatype format_item =
    MessageItem | LevelItem | ElapseItem | NameItem | ThreadIdItem | NewLineItem | DateTimeItem string
  | FilenameItem | LineItem | TabItem | FiberIdItem | ThreadNameItem | StringItem string

definition mk_DateTimeItem :: "string \<Rightarrow> format_item" where
  "mk_DateTimeItem format = DateTimeItem (if format = [] then ''%Y-%m-%d %H:%M:%S'' else format)"

text \<open>What an item prints; \<open>strftime\<close> stands for the formatting of a time in the local zone.\<close>

definition item_format :: "(string \<Rightarrow> 64 word \<Rightarrow> string) \<Rightarrow> level \<Rightarrow> log_event \<Rightarrow> format_item \<Rightarrow> string" where
  "item_format strftime level event i = (case i of
     MessageItem \<Rightarrow> ev_content event
   | LevelItem \<Rightarrow> level_ToString level
   | ElapseItem \<Rightarrow> show_nat (unat (ev_elapse event))
   | NameItem \<Rightarrow> ev_logger event
   | ThreadIdItem \<Rightarrow> show_nat (unat (ev_threadId event))
   | NewLineItem \<Rightarrow> [CHR 0x0A]
   | DateTimeItem fmt \<Rightarrow> strftime (c_str fmt) (ev_time event)
   | FilenameItem \<Rightarrow> ev_file event
   | LineItem \<Rightarrow> show_int (sint (ev_line event))
   | TabItem \<Rightarrow> [CHR 0x09]
   | FiberIdItem \<Rightarrow> show_nat (unat (ev_fiberId event))
   | ThreadNameItem \<Rightarrow> ev_threadName event
   | StringItem s \<Rightarrow> s)"

definition isalpha :: "char \<Rightarrow> bool" where
  "isalpha c \<longleftrightarrow> (let n = of_char c :: nat in 65 \<le> n \<and> n \<le> 90 \<or> 97 \<le> n \<and> n \<le> 122)"

definition substr :: "string \<Rightarrow> nat \<Rightarrow> nat \<Rightarrow> string" where
  "substr s i n = take n (drop i s)"

text \<open>
  The inner loop, from index \<open>n\<close> on, for the item that starts at index \<open>i\<close>; \<open>fmt_status\<close> is 1 (true) inside
  braces.  It gives the index behind the item, the status, the item's name and its format.
\<close>

function scan_item :: "string \<Rightarrow> nat \<Rightarrow> nat \<Rightarrow> bool \<Rightarrow> nat \<Rightarrow> string \<Rightarrow> nat \<times> bool \<times> string \<times> string" where
  "scan_item m_pattern i n fmt_status fmt_begin str =
     (if n < length m_pattern then
        if \<not> fmt_status \<and> (\<not> isalpha (m_pattern ! n) \<and> m_pattern ! n \<noteq> CHR ''{'' \<and> m_pattern ! n \<noteq> CHR ''}'') then
          (n, fmt_status, substr m_pattern (i + 1) (n - i - 1), [])
        else if \<not> fmt_status \<and> m_pattern ! n = CHR ''{'' then
          scan_item m_pattern i (n + 1) True n (substr m_pattern (i + 1) (n - i - 1))
        else if fmt_status \<and> m_pattern ! n = CHR ''}'' then
          (n + 1, False, str, substr m_pattern (fmt_begin + 1) (n - fmt_begin - 1))
        else
          scan_item m_pattern i (n + 1) fmt_status fmt_begin
            (if n + 1 = length m_pattern \<and> str = [] then drop (i + 1) m_pattern else str)
      else (n, fmt_status, str, []))"
  by auto
termination by (relation "measure (\<lambda>(p, i, n, s, b, str). length p - n)") auto

declare scan_item.simps [simp del]

lemma scan_item_forward: "n \<le> fst (scan_item m_pattern i n fmt_status fmt_begin str)"
proof (induction m_pattern i n fmt_status fmt_begin str rule: scan_item.induct)
  case (1 p i n s b str)
  consider "\<not> n < length p" | "n < length p" "\<not> s \<and> (\<not> isalpha (p ! n) \<and> p ! n \<noteq> CHR ''{'' \<and> p ! n \<noteq> CHR ''}'')"
    | "n < length p" "\<not> s \<and> p ! n = CHR ''{''" | "n < length p" "s \<and> p ! n = CHR ''}''"
    | (on) "n < length p" "\<not> (\<not> s \<and> (\<not> isalpha (p ! n) \<and> p ! n \<noteq> CHR ''{'' \<and> p ! n \<noteq> CHR ''}''))"
      "\<not> (\<not> s \<and> p ! n = CHR ''{'')" "\<not> (s \<and> p ! n = CHR ''}'')" by blast
  then show ?case
  proof cases
    case 3
    have c: "\<not> (\<not> s \<and> (\<not> isalpha (p ! n) \<and> p ! n \<noteq> CHR ''{'' \<and> p ! n \<noteq> CHR ''}''))" using 3(2) by simp
    have e: "scan_item p i n s b str = scan_item p i (n + 1) True n (substr p (i + 1) (n - i - 1))"
      using 3 c by (subst scan_item.simps) (simp only: if_True if_False simp_thms)
    show ?thesis unfolding e using 1(1)[OF 3(1) c 3(2)] by simp
  next
    case on
    then have e: "scan_item p i n s b str = scan_item p i (n + 1) s b (if n + 1 = length p \<and> str = [] then drop (i + 1) p else str)"
      by (subst scan_item.simps) (simp only: if_True if_False)
    show ?thesis unfolding e using 1(2)[OF on] by simp
  qed (subst scan_item.simps, simp)+
qed

lemma scan_item_progress: "(n, r) = scan_item m_pattern i (Suc i) fmt_status fmt_begin str \<Longrightarrow> i < n"
  using scan_item_forward[of "Suc i" m_pattern i fmt_status fmt_begin str] by (metis Suc_le_lessD fst_conv)

text \<open>The outer loop: the pieces of the pattern, with true for items, and whether there was an error.\<close>

function init_loop :: "string \<Rightarrow> nat \<Rightarrow> string \<Rightarrow> (string \<times> string \<times> bool) list \<Rightarrow> bool \<Rightarrow> (string \<times> string \<times> bool) list \<times> bool" where
  "init_loop m_pattern i nstr vec m_error =
     (if i < length m_pattern then
        if m_pattern ! i \<noteq> CHR ''%'' then init_loop m_pattern (i + 1) (nstr @ [m_pattern ! i]) vec m_error
        else if i + 1 < length m_pattern \<and> m_pattern ! (i + 1) = CHR ''%'' then
          init_loop m_pattern (i + 1) (nstr @ ''%'') vec m_error
        else
          (case scan_item m_pattern i (i + 1) False 0 [] of (n, fmt_status, str, fmt) \<Rightarrow>
             if \<not> fmt_status then
               init_loop m_pattern n [] (vec @ (if nstr \<noteq> [] then [(nstr, [], False)] else []) @ [(str, fmt, True)]) m_error
             else init_loop m_pattern (i + 1) nstr (vec @ [(''<<pattern_error>>'', fmt, False)]) True)
      else (vec @ (if nstr \<noteq> [] then [(nstr, [], False)] else []), m_error))"
  by auto
termination
  by (relation "measure (\<lambda>(p, i, s, v, e). length p - i)") (auto dest!: scan_item_progress intro: diff_less_mono2)

declare init_loop.simps [simp del]

text \<open>The table of the items.\<close>

definition s_format_items :: "string \<Rightarrow> string \<Rightarrow> format_item option" where
  "s_format_items str fmt =
     (if str = ''m'' then Some MessageItem else if str = ''p'' then Some LevelItem
      else if str = ''r'' then Some ElapseItem else if str = ''c'' then Some NameItem
      else if str = ''t'' then Some ThreadIdItem else if str = ''n'' then Some NewLineItem
      else if str = ''d'' then Some (mk_DateTimeItem fmt) else if str = ''f'' then Some FilenameItem
      else if str = ''l'' then Some LineItem else if str = ''T'' then Some TabItem
      else if str = ''F'' then Some FiberIdItem else if str = ''N'' then Some ThreadNameItem else None)"

fun item_loop :: "(string \<times> string \<times> bool) list \<Rightarrow> format_item list \<Rightarrow> bool \<Rightarrow> format_item list \<times> bool" where
  "item_loop [] m_items m_error = (m_items, m_error)"
| "item_loop ((str, fmt, typ) # vec) m_items m_error =
     (if \<not> typ then item_loop vec (m_items @ [StringItem str]) m_error
      else case s_format_items str fmt of
        None \<Rightarrow> item_loop vec (m_items @ [StringItem (''<<error_format %'' @ str @ ''>>'')]) True
      | Some i \<Rightarrow> item_loop vec (m_items @ [i]) m_error)"

record log_formatter =
  lf_pattern :: string
  lf_items :: "format_item list"
  lf_error :: bool

definition mk_LogFormatter :: "string \<Rightarrow> log_formatter" where
  "mk_LogFormatter pattern =
     (let (vec, m_error) = init_loop pattern 0 [] [] False; (m_items, m_error) = item_loop vec [] m_error
      in \<lparr>lf_pattern = pattern, lf_items = m_items, lf_error = m_error\<rparr>)"

definition lf_format :: "(string \<Rightarrow> 64 word \<Rightarrow> string) \<Rightarrow> log_formatter \<Rightarrow> level \<Rightarrow> log_event \<Rightarrow> string" where
  "lf_format strftime f level event = concat (map (item_format strftime level event) (lf_items f))"

section \<open>Loggers and appenders\<close>

datatype appender_kind = FileAppender string | StdoutAppender

record log_appender =
  ap_kind :: appender_kind
  ap_level :: level
  ap_hasFormatter :: bool
  ap_formatter :: "log_formatter option"
  ap_good :: bool
  ap_pos :: nat
  ap_lastTime :: "64 word"

record logger =
  lg_name :: string
  lg_level :: level
  lg_appenders :: "nat list"
  lg_formatter :: "log_formatter option"
  lg_root :: "string option"

record log_state =
  ls_loggers :: "string \<rightharpoonup> logger"
  ls_heap :: "nat \<rightharpoonup> log_appender"
  ls_next :: nat
  ls_stdout :: string
  ls_files :: "string \<rightharpoonup> string"

definition default_pattern :: string where
  "default_pattern = ''%d{%Y-%m-%d %H:%M:%S}%T%t%T%N%T%F%T[%p]%T[%c]%T%f:%l%T%m%n''"

definition mk_Logger :: "string \<Rightarrow> logger" where
  "mk_Logger name = \<lparr>lg_name = name, lg_level = DEBUG, lg_appenders = [],
     lg_formatter = Some (mk_LogFormatter default_pattern), lg_root = None\<rparr>"

definition ap_setFormatter :: "log_formatter option \<Rightarrow> log_appender \<Rightarrow> log_appender" where
  "ap_setFormatter val a = a\<lparr>ap_formatter := val, ap_hasFormatter := (val \<noteq> None)\<rparr>"

definition mk_StdoutLogAppender :: log_appender where
  "mk_StdoutLogAppender = \<lparr>ap_kind = StdoutAppender, ap_level = DEBUG, ap_hasFormatter = False, ap_formatter = None,
     ap_good = False, ap_pos = 0, ap_lastTime = 0\<rparr>"

text \<open>
  \<open>reopen\<close> opens the file for output, which empties it; \<open>can_open\<close> says whether that succeeds.
\<close>

definition reopen :: "(string \<Rightarrow> bool) \<Rightarrow> string \<Rightarrow> log_appender \<Rightarrow> (string \<rightharpoonup> string) \<Rightarrow> bool \<times> log_appender \<times> (string \<rightharpoonup> string)" where
  "reopen can_open filename a files =
     (if can_open filename then (True, a\<lparr>ap_good := True, ap_pos := 0\<rparr>, files(filename \<mapsto> []))
      else (False, a\<lparr>ap_good := False\<rparr>, files))"

definition mk_FileLogAppender :: "(string \<Rightarrow> bool) \<Rightarrow> string \<Rightarrow> (string \<rightharpoonup> string) \<Rightarrow> log_appender \<times> (string \<rightharpoonup> string)" where
  "mk_FileLogAppender can_open filename files =
     snd (reopen can_open filename (mk_StdoutLogAppender\<lparr>ap_kind := FileAppender filename\<rparr>) files)"

text \<open>Writing at a position of a file; a gap behind its end is filled with NULs.\<close>

definition write_at :: "string \<Rightarrow> nat \<Rightarrow> string \<Rightarrow> string" where
  "write_at c pos s = take pos (c @ replicate (pos - length c) (CHR 0x00)) @ s @ drop (pos + length s) c"

definition stream_write :: "string \<Rightarrow> string \<Rightarrow> log_appender \<Rightarrow> (string \<rightharpoonup> string) \<Rightarrow> bool \<times> log_appender \<times> (string \<rightharpoonup> string)" where
  "stream_write filename s a files =
     (if ap_good a then
        (True, a\<lparr>ap_pos := ap_pos a + length s\<rparr>,
          files(filename \<mapsto> write_at (case files filename of Some c \<Rightarrow> c | None \<Rightarrow> []) (ap_pos a) s))
      else (False, a, files))"

text \<open>\<open>FileLogAppender::log\<close>: once in each second it reopens its file.  The flag says whether the write succeeded.\<close>

definition file_log :: "(string \<Rightarrow> bool) \<Rightarrow> (string \<Rightarrow> 64 word \<Rightarrow> string) \<Rightarrow> 64 word \<Rightarrow> string \<Rightarrow> level \<Rightarrow> log_event
    \<Rightarrow> log_appender \<Rightarrow> (string \<rightharpoonup> string) \<Rightarrow> (bool \<times> log_appender \<times> (string \<rightharpoonup> string)) result" where
  "file_log can_open strftime now filename level event a files =
     (if level \<ge> ap_level a then
        let (a, files) =
          (if now \<noteq> ap_lastTime a then
             let (_, a, files) = reopen can_open filename a files in (a\<lparr>ap_lastTime := now\<rparr>, files)
           else (a, files))
        in case ap_formatter a of
             None \<Rightarrow> Inl Null_deref
           | Some f \<Rightarrow> Inr (stream_write filename (lf_format strftime f level event) a files)
      else Inr (True, a, files))"

definition appender_log :: "(string \<Rightarrow> bool) \<Rightarrow> (string \<Rightarrow> 64 word \<Rightarrow> string) \<Rightarrow> 64 word \<Rightarrow> nat \<Rightarrow> level \<Rightarrow> log_event
    \<Rightarrow> log_state \<Rightarrow> log_state result" where
  "appender_log can_open strftime now i level event st =
     (case ls_heap st i of
        None \<Rightarrow> Inl Null_deref
      | Some a \<Rightarrow>
         (case ap_kind a of
            FileAppender filename \<Rightarrow>
              rbind (file_log can_open strftime now filename level event a (ls_files st)) (\<lambda>(ok, a, files).
                Inr (st\<lparr>ls_heap := (ls_heap st)(i \<mapsto> a), ls_files := files,
                  ls_stdout := ls_stdout st @ (if ok then [] else ''error'' @ [CHR 0x0A])\<rparr>))
          | StdoutAppender \<Rightarrow>
              if level \<ge> ap_level a then
                (case ap_formatter a of
                   None \<Rightarrow> Inl Null_deref
                 | Some f \<Rightarrow> Inr (st\<lparr>ls_stdout := ls_stdout st @ lf_format strftime f level event\<rparr>))
              else Inr st))"

fun appenders_loop :: "(string \<Rightarrow> bool) \<Rightarrow> (string \<Rightarrow> 64 word \<Rightarrow> string) \<Rightarrow> 64 word \<Rightarrow> nat list \<Rightarrow> level \<Rightarrow> log_event
    \<Rightarrow> log_state \<Rightarrow> log_state result" where
  "appenders_loop can_open strftime now [] level event st = Inr st"
| "appenders_loop can_open strftime now (i # is) level event st =
     rbind (appender_log can_open strftime now i level event st) (\<lambda>st. appenders_loop can_open strftime now is level event st)"

text \<open>\<open>Logger::log\<close>; \<open>None\<close> if it never returns.\<close>

partial_function (option) logger_log :: "(string \<Rightarrow> bool) \<Rightarrow> (string \<Rightarrow> 64 word \<Rightarrow> string) \<Rightarrow> 64 word \<Rightarrow> string \<Rightarrow> level \<Rightarrow> log_event
    \<Rightarrow> log_state \<Rightarrow> log_state result option" where
  "logger_log can_open strftime now name level event st =
     (case ls_loggers st name of
        None \<Rightarrow> Some (Inl Null_deref)
      | Some lg \<Rightarrow>
          if level \<ge> lg_level lg then
            if lg_appenders lg \<noteq> [] then Some (appenders_loop can_open strftime now (lg_appenders lg) level event st)
            else (case lg_root lg of
                    Some r \<Rightarrow> logger_log can_open strftime now r level event st
                  | None \<Rightarrow> Some (Inr st))
          else Some (Inr st))"

definition lg_debug :: "(string \<Rightarrow> bool) \<Rightarrow> (string \<Rightarrow> 64 word \<Rightarrow> string) \<Rightarrow> 64 word \<Rightarrow> string \<Rightarrow> log_event \<Rightarrow> log_state \<Rightarrow> log_state result option" where
  "lg_debug can_open strftime now name event = logger_log can_open strftime now name DEBUG event"

definition lg_info :: "(string \<Rightarrow> bool) \<Rightarrow> (string \<Rightarrow> 64 word \<Rightarrow> string) \<Rightarrow> 64 word \<Rightarrow> string \<Rightarrow> log_event \<Rightarrow> log_state \<Rightarrow> log_state result option" where
  "lg_info can_open strftime now name event = logger_log can_open strftime now name INFO event"

definition lg_warn :: "(string \<Rightarrow> bool) \<Rightarrow> (string \<Rightarrow> 64 word \<Rightarrow> string) \<Rightarrow> 64 word \<Rightarrow> string \<Rightarrow> log_event \<Rightarrow> log_state \<Rightarrow> log_state result option" where
  "lg_warn can_open strftime now name event = logger_log can_open strftime now name WARN event"

definition lg_error :: "(string \<Rightarrow> bool) \<Rightarrow> (string \<Rightarrow> 64 word \<Rightarrow> string) \<Rightarrow> 64 word \<Rightarrow> string \<Rightarrow> log_event \<Rightarrow> log_state \<Rightarrow> log_state result option" where
  "lg_error can_open strftime now name event = logger_log can_open strftime now name ERROR event"

definition lg_fatal :: "(string \<Rightarrow> bool) \<Rightarrow> (string \<Rightarrow> 64 word \<Rightarrow> string) \<Rightarrow> 64 word \<Rightarrow> string \<Rightarrow> log_event \<Rightarrow> log_state \<Rightarrow> log_state result option" where
  "lg_fatal can_open strftime now name event = logger_log can_open strftime now name FATAL event"

text \<open>The macro \<^verbatim>\<open>CAPTAIN_LOG_LEVEL\<close> makes an event and logs it when its wrapper is destroyed.\<close>

definition log_macro :: "(string \<Rightarrow> bool) \<Rightarrow> (string \<Rightarrow> 64 word \<Rightarrow> string) \<Rightarrow> 64 word \<Rightarrow> log_event \<Rightarrow> log_state \<Rightarrow> log_state result option" where
  "log_macro can_open strftime now event st =
     (case ls_loggers st (ev_logger event) of
        None \<Rightarrow> Some (Inl Null_deref)
      | Some lg \<Rightarrow>
          if lg_level lg \<le> ev_level event then logger_log can_open strftime now (ev_logger event) (ev_level event) event st
          else Some (Inr st))"

text \<open>Changing a logger, or an appender in the heap.\<close>

definition upd_logger :: "string \<Rightarrow> (logger \<Rightarrow> logger) \<Rightarrow> log_state \<Rightarrow> log_state" where
  "upd_logger name f st = st\<lparr>ls_loggers := (ls_loggers st)(name := map_option f (ls_loggers st name))\<rparr>"

definition upd_appender :: "nat \<Rightarrow> (log_appender \<Rightarrow> log_appender) \<Rightarrow> log_state \<Rightarrow> log_state" where
  "upd_appender i f st = st\<lparr>ls_heap := (ls_heap st)(i := map_option f (ls_heap st i))\<rparr>"

definition lg_setFormatter :: "log_formatter option \<Rightarrow> string \<Rightarrow> log_state \<Rightarrow> log_state" where
  "lg_setFormatter val name st =
     fold (\<lambda>i. upd_appender i (\<lambda>a. if \<not> ap_hasFormatter a then a\<lparr>ap_formatter := val\<rparr> else a))
       (case ls_loggers st name of Some lg \<Rightarrow> lg_appenders lg | None \<Rightarrow> [])
       (upd_logger name (\<lambda>lg. lg\<lparr>lg_formatter := val\<rparr>) st)"

definition lg_setFormatter_str :: "string \<Rightarrow> string \<Rightarrow> log_state \<Rightarrow> log_state" where
  "lg_setFormatter_str val name st =
     (let new_val = mk_LogFormatter val in
      if lf_error new_val then st\<lparr>ls_stdout := ls_stdout st @ ''Logger setFormatter name='' @ name @ '' value='' @ val @
        '' invalid formatter'' @ [CHR 0x0A]\<rparr>
      else lg_setFormatter (Some new_val) name st)"

definition lg_addAppender :: "nat \<Rightarrow> string \<Rightarrow> log_state \<Rightarrow> log_state" where
  "lg_addAppender i name st =
     upd_logger name (\<lambda>lg. lg\<lparr>lg_appenders := lg_appenders lg @ [i]\<rparr>)
       (upd_appender i (\<lambda>a. if ap_formatter a = None
          then a\<lparr>ap_formatter := (case ls_loggers st name of Some lg \<Rightarrow> lg_formatter lg | None \<Rightarrow> None)\<rparr> else a) st)"

definition lg_delAppender :: "nat \<Rightarrow> string \<Rightarrow> log_state \<Rightarrow> log_state" where
  "lg_delAppender i name = upd_logger name (\<lambda>lg. lg\<lparr>lg_appenders := remove1 i (lg_appenders lg)\<rparr>)"

definition lg_clearAppenders :: "string \<Rightarrow> log_state \<Rightarrow> log_state" where
  "lg_clearAppenders name = upd_logger name (\<lambda>lg. lg\<lparr>lg_appenders := []\<rparr>)"

definition lg_setLevel :: "level \<Rightarrow> string \<Rightarrow> log_state \<Rightarrow> log_state" where
  "lg_setLevel val name = upd_logger name (\<lambda>lg. lg\<lparr>lg_level := val\<rparr>)"

text \<open>A new appender in the heap.\<close>

definition new_appender :: "log_appender \<Rightarrow> log_state \<Rightarrow> nat \<times> log_state" where
  "new_appender a st = (ls_next st, st\<lparr>ls_heap := (ls_heap st)(ls_next st \<mapsto> a), ls_next := Suc (ls_next st)\<rparr>)"

section \<open>The manager\<close>

definition getLogger :: "string \<Rightarrow> log_state \<Rightarrow> log_state" where
  "getLogger name st =
     (case ls_loggers st name of
        Some _ \<Rightarrow> st
      | None \<Rightarrow> st\<lparr>ls_loggers := (ls_loggers st)(name \<mapsto> (mk_Logger name)\<lparr>lg_root := Some ''root''\<rparr>)\<rparr>)"

definition mk_LoggerManager :: "(string \<rightharpoonup> string) \<Rightarrow> log_state" where
  "mk_LoggerManager files =
     (let st = \<lparr>ls_loggers = [''root'' \<mapsto> mk_Logger ''root''], ls_heap = Map.empty, ls_next = 0, ls_stdout = [], ls_files = files\<rparr>;
          (i, st) = new_appender mk_StdoutLogAppender st
      in lg_addAppender i ''root'' st)"

section \<open>Configuration\<close>

datatype appender_type = No_type | File_type | Stdout_type

record log_appender_define =
  lad_type :: appender_type
  lad_level :: level
  lad_formatter :: string
  lad_file :: string

record log_define =
  ld_name :: string
  ld_level :: level
  ld_formatter :: string
  ld_appenders :: "log_appender_define list"

text \<open>\<open>operator==\<close> compares the appenders with themselves.\<close>

definition log_define_eq :: "log_define \<Rightarrow> log_define \<Rightarrow> bool" where
  "log_define_eq d oth \<longleftrightarrow> ld_name d = ld_name oth \<and> ld_level d = ld_level oth \<and> ld_formatter d = ld_formatter oth \<and>
     ld_appenders d = ld_appenders d"

text \<open>A \<^verbatim>\<open>std::set\<close> of definitions: ascending by name.\<close>

definition ld_less :: "log_define \<Rightarrow> log_define \<Rightarrow> bool" where
  "ld_less d oth \<longleftrightarrow> ld_name d < ld_name oth"

definition defs_insert :: "log_define \<Rightarrow> log_define list \<Rightarrow> log_define list" where
  "defs_insert d ds = (if \<exists>e \<in> set ds. ld_name e = ld_name d then ds
     else takeWhile (\<lambda>e. ld_less e d) ds @ d # dropWhile (\<lambda>e. ld_less e d) ds)"

definition defs_find :: "log_define \<Rightarrow> log_define list \<Rightarrow> log_define option" where
  "defs_find d ds = find (\<lambda>e. \<not> ld_less e d \<and> \<not> ld_less d e) ds"

definition defs_eq :: "log_define list \<Rightarrow> log_define list \<Rightarrow> bool" where
  "defs_eq v w \<longleftrightarrow> list_all2 log_define_eq v w"

subsection \<open>The listener on the configuration\<close>

definition add_defined :: "(string \<Rightarrow> bool) \<Rightarrow> string \<Rightarrow> log_appender_define \<Rightarrow> log_state \<Rightarrow> log_state result" where
  "add_defined can_open name a st =
     (let ap = (case lad_type a of
           File_type \<Rightarrow> let (ap, files) = mk_FileLogAppender can_open (lad_file a) (ls_files st) in Some (ap, st\<lparr>ls_files := files\<rparr>)
         | Stdout_type \<Rightarrow> Some (mk_StdoutLogAppender, st)
         | No_type \<Rightarrow> None)
      in case ap of
           None \<Rightarrow> Inl Null_deref
         | Some (ap, st) \<Rightarrow>
             let ap = ap\<lparr>ap_level := lad_level a\<rparr>;
                 fmt = mk_LogFormatter (lad_formatter a);
                 (ap, out) = (if lad_formatter a \<noteq> [] then
                     if \<not> lf_error fmt then (ap_setFormatter (Some fmt) ap, [])
                     else (ap, ''log.name='' @ name @ '' appender type='' @ show_nat (if lad_type a = File_type then 1 else 2) @
                       '' formatter='' @ lad_formatter a @ '' is invalid'' @ [CHR 0x0A])
                   else (ap, []));
                 (i, st) = new_appender ap (st\<lparr>ls_stdout := ls_stdout st @ out\<rparr>)
             in Inr (lg_addAppender i name st))"

fun add_loop :: "(string \<Rightarrow> bool) \<Rightarrow> string \<Rightarrow> log_appender_define list \<Rightarrow> log_state \<Rightarrow> log_state result" where
  "add_loop can_open name [] st = Inr st"
| "add_loop can_open name (a # as) st = rbind (add_defined can_open name a st) (\<lambda>st. add_loop can_open name as st)"

definition apply_define :: "(string \<Rightarrow> bool) \<Rightarrow> log_define list \<Rightarrow> log_define \<Rightarrow> log_state \<Rightarrow> log_state result" where
  "apply_define can_open old_value i st =
     (let logger = (case defs_find i old_value of
           None \<Rightarrow> Some (getLogger (ld_name i) st)
         | Some it \<Rightarrow> if \<not> log_define_eq i it then Some (getLogger (ld_name i) st) else None)
      in case logger of
           None \<Rightarrow> Inl Null_deref
         | Some st \<Rightarrow>
             let st = lg_setLevel (ld_level i) (ld_name i) st;
                 st = (if ld_formatter i \<noteq> [] then lg_setFormatter_str (ld_formatter i) (ld_name i) st else st)
             in add_loop can_open (ld_name i) (ld_appenders i) (lg_clearAppenders (ld_name i) st))"

fun apply_loop :: "(string \<Rightarrow> bool) \<Rightarrow> log_define list \<Rightarrow> log_define list \<Rightarrow> log_state \<Rightarrow> log_state result" where
  "apply_loop can_open old_value [] st = Inr st"
| "apply_loop can_open old_value (i # is) st =
     rbind (apply_define can_open old_value i st) (\<lambda>st. apply_loop can_open old_value is st)"

definition delete_define :: "log_define list \<Rightarrow> log_define \<Rightarrow> log_state \<Rightarrow> log_state" where
  "delete_define new_value i st =
     (if defs_find i new_value = None then lg_clearAppenders (ld_name i) (lg_setLevel UNKNOW (ld_name i) (getLogger (ld_name i) st))
      else st)"

text \<open>The listener, which first logs that it was called; \<open>ev\<close> is the event that the macro makes there.\<close>

definition on_logger_conf_changed :: "(string \<Rightarrow> bool) \<Rightarrow> (string \<Rightarrow> 64 word \<Rightarrow> string) \<Rightarrow> 64 word \<Rightarrow> log_event
    \<Rightarrow> log_define list \<Rightarrow> log_define list \<Rightarrow> log_state \<Rightarrow> log_state result option" where
  "on_logger_conf_changed can_open strftime now ev old_value new_value st =
     map_option (\<lambda>r. rbind r (\<lambda>st. rbind (apply_loop can_open old_value new_value st) (\<lambda>st.
         Inr (fold (delete_define new_value) old_value st))))
       (log_macro can_open strftime now
         (ev\<lparr>ev_logger := ''root'', ev_level := INFO, ev_content := ''on_logger_conf_changed''\<rparr>) st)"

subsection \<open>Definitions as YAML\<close>

text \<open>\<^verbatim>\<open>n[key]\<close> on a map, if defined, and otherwise a default.\<close>

definition yaml_key :: "yaml \<Rightarrow> string \<Rightarrow> yaml option" where
  "yaml_key n key = (case n of Map_node kvs \<Rightarrow> map_of kvs key | _ \<Rightarrow> None)"

definition key_string :: "yaml_lib \<Rightarrow> yaml \<Rightarrow> string \<Rightarrow> string \<Rightarrow> string option" where
  "key_string lib n key d = (case yaml_key n key of None \<Rightarrow> Some d | Some v \<Rightarrow> yl_as_string lib v)"

text \<open>One appender: \<open>None\<close> for an exception, \<open>Some None\<close> where the code skips it.\<close>

definition appender_of_yaml :: "yaml_lib \<Rightarrow> yaml \<Rightarrow> log_appender_define option option" where
  "appender_of_yaml lib a =
     (case yaml_key a ''type'' of
        None \<Rightarrow> Some None
      | Some t \<Rightarrow> Option.bind (yl_as_string lib t) (\<lambda>type.
          if type = ''FileLogAppender'' then
            (case yaml_key a ''file'' of
               None \<Rightarrow> Some None
             | Some f \<Rightarrow> Option.bind (yl_as_string lib f) (\<lambda>file. Option.bind (key_string lib a ''formatter'' []) (\<lambda>formatter.
                 Some (Some \<lparr>lad_type = File_type, lad_level = UNKNOW, lad_formatter = formatter, lad_file = file\<rparr>))))
          else if type = ''StdoutLogAppender'' then
            Some (Some \<lparr>lad_type = Stdout_type, lad_level = UNKNOW, lad_formatter = [], lad_file = []\<rparr>)
          else Some None))"

definition log_define_of_yaml :: "yaml_lib \<Rightarrow> yaml \<Rightarrow> log_define option option" where
  "log_define_of_yaml lib n =
     (case yaml_key n ''name'' of
        None \<Rightarrow> Some None
      | Some nm \<Rightarrow>
          Option.bind (yl_as_string lib nm) (\<lambda>name. Option.bind (key_string lib n ''level'' []) (\<lambda>level.
          Option.bind (key_string lib n ''formatter'' []) (\<lambda>formatter.
          Option.bind (case yaml_key n ''appenders'' of
              None \<Rightarrow> Some []
            | Some as \<Rightarrow> those (map (\<lambda>x. appender_of_yaml lib (node_at lib as x)) [0..<node_size as])) (\<lambda>appenders.
            Some (Some \<lparr>ld_name = name, ld_level = level_FromString level, ld_formatter = formatter,
              ld_appenders = List.map_filter (\<lambda>a. a) appenders\<rparr>))))))"

definition log_defines_of_string :: "yaml_lib \<Rightarrow> string \<Rightarrow> log_define list option" where
  "log_defines_of_string lib v = Option.bind (yl_Load lib v) (\<lambda>node.
     map_option (\<lambda>ds. foldl (\<lambda>vec d. case d of Some ld \<Rightarrow> defs_insert ld vec | None \<Rightarrow> vec) [] ds)
       (those (map (\<lambda>i. log_define_of_yaml lib (node_at lib node i)) [0..<node_size node])))"

definition yaml_of_appender :: "log_appender_define \<Rightarrow> yaml" where
  "yaml_of_appender a = Map_node (
     (case lad_type a of File_type \<Rightarrow> [(''type'', Scalar ''FileLogAppender''), (''file'', Scalar (lad_file a))]
      | Stdout_type \<Rightarrow> [(''type'', Scalar ''StdoutLogAppender'')] | No_type \<Rightarrow> []) @
     (if lad_level a \<noteq> UNKNOW then [(''level'', Scalar (level_ToString (lad_level a)))] else []) @
     (if lad_formatter a \<noteq> [] then [(''formatter'', Scalar (lad_formatter a))] else []))"

text \<open>The formatter of a logger is printed where it is empty.\<close>

definition yaml_of_define :: "log_define \<Rightarrow> yaml" where
  "yaml_of_define i = Map_node (
     [(''name'', Scalar (ld_name i))] @
     (if ld_level i \<noteq> UNKNOW then [(''level'', Scalar (level_ToString (ld_level i)))] else []) @
     (if ld_formatter i = [] then [(''formatter'', Scalar (ld_formatter i))] else []) @
     (if ld_appenders i \<noteq> [] then [(''appenders'', Sequence (map yaml_of_appender (ld_appenders i)))] else []))"

definition string_of_log_defines :: "yaml_lib \<Rightarrow> log_define list \<Rightarrow> string" where
  "string_of_log_defines lib v = yl_emit lib (if v = [] then Null_node else Sequence (map yaml_of_define v))"

subsection \<open>Loggers as YAML\<close>

definition ap_yaml :: "log_appender \<Rightarrow> yaml" where
  "ap_yaml a = Map_node (
     (case ap_kind a of FileAppender filename \<Rightarrow> [(''type'', Scalar ''FileLogAppender''), (''file'', Scalar filename)]
      | StdoutAppender \<Rightarrow> [(''type'', Scalar ''StdoutLogAppender'')]) @
     (if ap_level a \<noteq> UNKNOW then [(''level'', Scalar (level_ToString (ap_level a)))] else []) @
     (case ap_formatter a of Some f \<Rightarrow> if ap_hasFormatter a then [(''formatter'', Scalar (lf_pattern f))] else [] | None \<Rightarrow> []))"

definition ap_toYamlString :: "yaml_lib \<Rightarrow> log_appender \<Rightarrow> string" where
  "ap_toYamlString lib a = yl_emit lib (ap_yaml a)"

definition lg_toYamlString :: "yaml_lib \<Rightarrow> log_state \<Rightarrow> logger \<Rightarrow> string option" where
  "lg_toYamlString lib st lg =
     map_option (\<lambda>as. yl_emit lib (Map_node (
         [(''name'', Scalar (lg_name lg))] @
         (if lg_level lg \<noteq> UNKNOW then [(''level'', Scalar (level_ToString (lg_level lg)))] else []) @
         (case lg_formatter lg of Some f \<Rightarrow> [(''formatter'', Scalar (lf_pattern f))] | None \<Rightarrow> []) @
         (if as \<noteq> [] then [(''appenders'', Sequence as)] else []))))
       (those (map (\<lambda>i. Option.bind (ls_heap st i) (\<lambda>a. yl_Load lib (ap_toYamlString lib a))) (lg_appenders lg)))"

text \<open>All loggers, in the order of the map: \<open>names\<close> ascending.\<close>

definition manager_toYamlString :: "yaml_lib \<Rightarrow> string list \<Rightarrow> log_state \<Rightarrow> string option" where
  "manager_toYamlString lib names st =
     map_option (\<lambda>ys. yl_emit lib (if ys = [] then Null_node else Sequence ys))
       (those (map (\<lambda>name. Option.bind (ls_loggers st name) (\<lambda>lg. Option.bind (lg_toYamlString lib st lg) (yl_Load lib))) names))"

end
