(* ===== verification/Log_Laws.thy ===== *)
theory Log_Laws
  imports Log
begin

text \<open>
  What logging promises, over the model of \<^verbatim>\<open>captain/log.cpp\<close> in theory \<open>Log\<close>: patterns made of well-formed pieces are
  parsed into these pieces; a message reaches the appenders whose level admits it; a log file
  holds the messages of one second; and what the listener on the configuration does to the loggers.
\<close>

section \<open>Patterns\<close>

text \<open>The pieces of a pattern, and how they are written.\<close>

datatype piece = Text string | Item char "string option"

fun piece_text :: "piece \<Rightarrow> string" where
  "piece_text (Text s) = s"
| "piece_text (Item c None) = CHR ''%'' # [c]"
| "piece_text (Item c (Some fmt)) = CHR ''%'' # c # CHR ''{'' # fmt @ ''}''"

fun piece_token :: "piece \<Rightarrow> string \<times> string \<times> bool" where
  "piece_token (Text s) = (s, [], False)"
| "piece_token (Item c fmt) = ([c], case fmt of Some f \<Rightarrow> f | None \<Rightarrow> [], True)"

definition ends_item :: "char \<Rightarrow> bool" where
  "ends_item c \<longleftrightarrow> \<not> isalpha c \<and> c \<noteq> CHR ''{'' \<and> c \<noteq> CHR ''}''"

text \<open>
  Texts are not empty, have no percent sign and do not follow each other; the name of an item is a letter, its format has no
  closing brace; and a text right behind a bare item does not start with a letter or a brace.
\<close>

fun pieces_ok :: "piece list \<Rightarrow> bool" where
  "pieces_ok [] \<longleftrightarrow> True"
| "pieces_ok (Text s # ps) \<longleftrightarrow> s \<noteq> [] \<and> CHR ''%'' \<notin> set s \<and> (case ps of Text _ # _ \<Rightarrow> False | _ \<Rightarrow> True) \<and> pieces_ok ps"
| "pieces_ok (Item c fmt # ps) \<longleftrightarrow> isalpha c \<and>
     (case fmt of Some f \<Rightarrow> CHR ''}'' \<notin> set f | None \<Rightarrow> (case ps of Text s # _ \<Rightarrow> s \<noteq> [] \<and> ends_item (hd s) | _ \<Rightarrow> True)) \<and> pieces_ok ps"

definition render :: "piece list \<Rightarrow> string" where
  "render ps = concat (map piece_text ps)"

lemma render_simps [simp]: "render [] = []" "render (p # ps) = piece_text p @ render ps"
  by (simp_all add: render_def)

lemma isalpha_special: "isalpha c \<Longrightarrow> c \<noteq> CHR ''%'' \<and> c \<noteq> CHR ''{'' \<and> c \<noteq> CHR ''}''"
  by (auto simp: isalpha_def)

text \<open>What comes behind a bare item.\<close>

lemma render_ends:
  "pieces_ok (Item c None # ps) \<Longrightarrow> render ps = [] \<or> ends_item (hd (render ps))"
proof (cases ps)
  case (Cons p qs)
  assume ok: "pieces_ok (Item c None # ps)"
  show ?thesis
  proof (cases p)
    case (Text s)
    then show ?thesis using ok Cons by (cases s) auto
  next
    case (Item d fmt)
    then show ?thesis using Cons by (cases fmt) (auto simp: ends_item_def isalpha_def)
  qed
qed simp

lemma nth_mid: "length a = n \<Longrightarrow> (a @ x # b) ! n = x"
  by auto

text \<open>Inside braces, up to the closing one.\<close>

lemma scan_format:
  assumes "CHR ''}'' \<notin> set g" "length a = b + 1" "str \<noteq> []"
  shows "scan_item (a @ f @ g @ CHR ''}'' # rest) i (b + 1 + length f) True b str =
    (b + 1 + length f + length g + 1, False, str, f @ g)"
  using assms(1)
proof (induction g arbitrary: f)
  case Nil
  have "(a @ f @ CHR ''}'' # rest) ! (b + 1 + length f) = CHR ''}''"
    using nth_mid[of "a @ f" "b + 1 + length f" "CHR ''}''" rest] assms(2) by simp
  then show ?case using assms(2,3)
    by (subst scan_item.simps) (simp add: substr_def)
next
  case (Cons c g)
  have n: "(a @ f @ (c # g) @ CHR ''}'' # rest) ! (b + 1 + length f) = c"
    using nth_mid[of "a @ f" "b + 1 + length f" c "g @ CHR ''}'' # rest"] assms(2) by simp
  have ne: "c \<noteq> CHR ''}''" using Cons.prems by auto
  have "scan_item (a @ f @ (c # g) @ CHR ''}'' # rest) i (b + 1 + length f) True b str =
      scan_item (a @ (f @ [c]) @ g @ CHR ''}'' # rest) i (b + 1 + length (f @ [c])) True b str"
    using n ne assms(2,3) by (subst scan_item.simps) simp
  then show ?case using Cons.IH[of "f @ [c]"] Cons.prems by simp
qed

text \<open>One item, bare or with a format.\<close>

lemma scan_bare:
  assumes "isalpha c" "rest = [] \<or> ends_item (hd rest)"
  shows "scan_item (pre @ CHR ''%'' # c # rest) (length pre) (Suc (length pre)) False 0 [] = (length pre + 2, False, [c], [])"
proof -
  let ?p = "pre @ CHR ''%'' # c # rest"
  have c: "?p ! Suc (length pre) = c" using nth_mid[of "pre @ ''%''" "Suc (length pre)" c rest] by simp
  show ?thesis
  proof (cases rest)
    case Nil
    have "scan_item ?p (length pre) (Suc (length pre)) False 0 [] = scan_item ?p (length pre) (Suc (Suc (length pre))) False 0 [c]"
      using c isalpha_special[OF assms(1)] assms(1) Nil by (subst scan_item.simps) simp
    then show ?thesis using Nil by (subst (asm) (2) scan_item.simps) simp
  next
    case (Cons d ds)
    have "scan_item ?p (length pre) (Suc (length pre)) False 0 [] = scan_item ?p (length pre) (Suc (Suc (length pre))) False 0 []"
      using c isalpha_special[OF assms(1)] assms(1) Cons by (subst scan_item.simps) simp
    moreover have "?p ! Suc (Suc (length pre)) = d"
      using nth_mid[of "pre @ CHR ''%'' # [c]" "Suc (Suc (length pre))" d ds] Cons by simp
    ultimately show ?thesis using assms(2) Cons
      by (subst (asm) (2) scan_item.simps) (simp add: ends_item_def substr_def)
  qed
qed

lemma scan_braces:
  assumes "isalpha c" "CHR ''}'' \<notin> set fmt"
  shows "scan_item (pre @ CHR ''%'' # c # CHR ''{'' # fmt @ CHR ''}'' # rest) (length pre) (Suc (length pre)) False 0 [] =
    (Suc (Suc (Suc (Suc (length pre + length fmt)))), False, [c], fmt)"
proof -
  let ?p = "pre @ CHR ''%'' # c # CHR ''{'' # fmt @ CHR ''}'' # rest"
  have c: "?p ! Suc (length pre) = c" "?p ! Suc (Suc (length pre)) = CHR ''{''"
    using nth_mid[of "pre @ ''%''" "Suc (length pre)" c] nth_mid[of "pre @ CHR ''%'' # [c]" "Suc (Suc (length pre))" "CHR ''{''"]
    by simp_all
  have "scan_item ?p (length pre) (Suc (length pre)) False 0 [] = scan_item ?p (length pre) (Suc (Suc (length pre))) False 0 []"
    using c isalpha_special[OF assms(1)] assms(1) by (subst scan_item.simps) simp
  also have "\<dots> = scan_item ?p (length pre) (Suc (Suc (length pre)) + 1) True (Suc (Suc (length pre))) [c]"
    using c by (subst scan_item.simps) (simp add: substr_def isalpha_def)
  also have "\<dots> = (Suc (Suc (Suc (Suc (length pre + length fmt)))), False, [c], fmt)"
    using scan_format[OF assms(2), of "pre @ CHR ''%'' # c # ''{''" "Suc (Suc (length pre))" "[c]" "[]" rest "length pre"] by simp
  finally show ?thesis .
qed

text \<open>The texts, character by character.\<close>

lemma init_text:
  "CHR ''%'' \<notin> set s \<Longrightarrow> init_loop (pre @ s @ rest) (length pre) nstr vec e =
     init_loop (pre @ s @ rest) (length (pre @ s)) (nstr @ s) vec e"
proof (induction s arbitrary: pre nstr)
  case (Cons c s)
  have "(pre @ (c # s) @ rest) ! length pre = c" "c \<noteq> CHR ''%''" using Cons.prems by auto
  then have "init_loop (pre @ (c # s) @ rest) (length pre) nstr vec e =
      init_loop ((pre @ [c]) @ s @ rest) (length (pre @ [c])) (nstr @ [c]) vec e"
    by (subst init_loop.simps) simp
  also have "\<dots> = init_loop ((pre @ [c]) @ s @ rest) (length ((pre @ [c]) @ s)) ((nstr @ [c]) @ s) vec e"
    using Cons.IH[of "pre @ [c]" "nstr @ [c]"] Cons.prems by simp
  finally show ?case by simp
qed simp

lemma init_item:
  assumes "scan_item (pre @ CHR ''%'' # c # rest) (length pre) (Suc (length pre)) False 0 [] = (n, False, str, fmt)" "isalpha c"
  shows "init_loop (pre @ CHR ''%'' # c # rest) (length pre) nstr vec e =
    init_loop (pre @ CHR ''%'' # c # rest) n [] (vec @ (if nstr \<noteq> [] then [(nstr, [], False)] else []) @ [(str, fmt, True)]) e"
proof -
  have "(pre @ CHR ''%'' # c # rest) ! Suc (length pre) = c" using nth_mid[of "pre @ ''%''" "Suc (length pre)" c rest] by simp
  then show ?thesis using assms(1) isalpha_special[OF assms(2)]
    by (subst init_loop.simps) (simp del: init_loop.simps)
qed

text \<open>Where a text may stand, seen from the text collected so far.\<close>

definition text_allowed :: "string \<Rightarrow> piece list \<Rightarrow> bool" where
  "text_allowed nstr ps \<longleftrightarrow> (nstr \<noteq> [] \<longrightarrow> (case ps of Text _ # _ \<Rightarrow> False | _ \<Rightarrow> True))"

lemma init_pieces:
  "pieces_ok ps \<Longrightarrow> text_allowed nstr ps \<Longrightarrow> init_loop (pre @ render ps) (length pre) nstr vec e =
     (vec @ (if nstr \<noteq> [] then [(nstr, [], False)] else []) @ map piece_token ps, e)"
proof (induction ps arbitrary: pre nstr vec)
  case Nil
  then show ?case by (subst init_loop.simps) simp
next
  case (Cons p ps)
  show ?case
  proof (cases p)
    case (Text s)
    then have s: "nstr = []" "CHR ''%'' \<notin> set s" "s \<noteq> []" "pieces_ok ps" "text_allowed s ps"
      using Cons.prems by (auto simp: text_allowed_def)
    have "init_loop (pre @ render (p # ps)) (length pre) nstr vec e = init_loop ((pre @ s) @ render ps) (length (pre @ s)) s vec e"
      using init_text[OF s(2), of pre "render ps" nstr vec e] by (simp add: Text s(1))
    also have "\<dots> = (vec @ (if s \<noteq> [] then [(s, [], False)] else []) @ map piece_token ps, e)"
      by (rule Cons.IH[OF s(4,5)])
    finally show ?thesis using s(1,3) by (simp add: Text)
  next
    case (Item c fmt)
    then have i: "isalpha c" "pieces_ok ps" using Cons.prems by auto
    have t: "text_allowed [] ps" by (simp add: text_allowed_def)
    let ?v = "vec @ (if nstr \<noteq> [] then [(nstr, [], False)] else [])"
    show ?thesis
    proof (cases fmt)
      case None
      have r: "render ps = [] \<or> ends_item (hd (render ps))" using render_ends[of c ps] Cons.prems(1) by (simp add: Item None)
      have "init_loop (pre @ render (p # ps)) (length pre) nstr vec e =
          init_loop ((pre @ CHR ''%'' # [c]) @ render ps) (length (pre @ CHR ''%'' # [c])) [] (?v @ [([c], [], True)]) e"
        using init_item[OF scan_bare[OF i(1) r] i(1), of pre nstr vec e] by (simp add: Item None)
      also have "\<dots> = (?v @ [([c], [], True)] @ map piece_token ps, e)" by (subst Cons.IH[OF i(2) t]) simp
      finally show ?thesis by (simp add: Item None)
    next
      case (Some f)
      have f: "CHR ''}'' \<notin> set f" using Cons.prems(1) by (simp add: Item Some)
      have "init_loop (pre @ render (p # ps)) (length pre) nstr vec e =
          init_loop ((pre @ CHR ''%'' # c # CHR ''{'' # f @ ''}'') @ render ps)
            (length (pre @ CHR ''%'' # c # CHR ''{'' # f @ ''}'')) [] (?v @ [([c], f, True)]) e"
        using init_item[OF scan_braces[OF i(1) f, of pre "render ps"] i(1), of nstr vec e] by (simp add: Item Some)
      also have "\<dots> = (?v @ [([c], f, True)] @ map piece_token ps, e)" by (subst Cons.IH[OF i(2) t]) simp
      finally show ?thesis by (simp add: Item Some)
    qed
  qed
qed

text \<open>The item that a piece stands for.\<close>

fun piece_item :: "piece \<Rightarrow> format_item option" where
  "piece_item (Text s) = Some (StringItem s)"
| "piece_item (Item c fmt) = s_format_items [c] (case fmt of Some f \<Rightarrow> f | None \<Rightarrow> [])"

definition error_item :: "piece \<Rightarrow> format_item" where
  "error_item p = (case p of Item c _ \<Rightarrow> StringItem (''<<error_format %'' @ [c] @ ''>>'') | Text s \<Rightarrow> StringItem s)"

lemma item_loop_pieces:
  "item_loop (map piece_token ps) is e =
     (is @ map (\<lambda>p. case piece_item p of Some i \<Rightarrow> i | None \<Rightarrow> error_item p) ps, e \<or> (\<exists>p \<in> set ps. piece_item p = None))"
proof (induction ps arbitrary: "is" e)
  case (Cons p ps)
  then show ?case by (cases p) (auto simp: error_item_def split: option.splits)
qed simp

lemma pattern_pieces:
  assumes "pieces_ok ps"
  shows "mk_LogFormatter (render ps) = \<lparr>lf_pattern = render ps,
    lf_items = map (\<lambda>p. case piece_item p of Some i \<Rightarrow> i | None \<Rightarrow> error_item p) ps,
    lf_error = (\<exists>p \<in> set ps. piece_item p = None)\<rparr>"
  using init_pieces[OF assms, of "[]" "[]" "[]" False]
  by (simp add: mk_LogFormatter_def Let_def item_loop_pieces text_allowed_def)

text \<open>A doubled percent sign is not an escape: the second one starts an item, and at the end of a pattern that is an error.\<close>

lemma percent_not_escaped:
  "lf_items (mk_LogFormatter ''100%%'') = [StringItem ''100%'', StringItem ''<<error_format %>>''] \<and> lf_error (mk_LogFormatter ''100%%'')"
  "lf_items (mk_LogFormatter ''%%m'') = [StringItem ''%'', MessageItem]"
  by code_simp+

section \<open>Log files\<close>

text \<open>A file appender on a sequence of calls, each with the time at which it is made.\<close>

definition file_run :: "(string \<Rightarrow> bool) \<Rightarrow> (string \<Rightarrow> 64 word \<Rightarrow> string) \<Rightarrow> string \<Rightarrow> (64 word \<times> level \<times> log_event) list
    \<Rightarrow> log_appender \<Rightarrow> (string \<rightharpoonup> string) \<Rightarrow> (log_appender \<times> (string \<rightharpoonup> string)) result" where
  "file_run can_open strftime filename calls a files =
     foldl (\<lambda>r (now, level, event). rbind r (\<lambda>(a, files).
       rbind (file_log can_open strftime now filename level event a files) (\<lambda>(ok, a, files). Inr (a, files)))) (Inr (a, files)) calls"

text \<open>The last calls with one and the same time.\<close>

definition last_second :: "(64 word \<times> 'b) list \<Rightarrow> (64 word \<times> 'b) list" where
  "last_second calls = rev (takeWhile (\<lambda>c. fst c = fst (last calls)) (rev calls))"

lemma last_second_snoc:
  "last_second (calls @ [c]) = (if calls \<noteq> [] \<and> fst (last calls) = fst c then last_second calls else []) @ [c]"
proof (cases "calls \<noteq> [] \<and> fst (last calls) = fst c")
  case False
  then have "takeWhile (\<lambda>d. fst d = fst c) (rev calls) = []" by (cases calls rule: rev_cases) auto
  then show ?thesis using False by (simp add: last_second_def)
qed (auto simp: last_second_def)

lemma write_at_end: "write_at c (length c) s = c @ s"
  by (simp add: write_at_def)

lemma file_run_content:
  fixes strftime :: "string \<Rightarrow> 64 word \<Rightarrow> string"
  assumes "can_open filename" "ap_good a" "ap_pos a = 0" "files filename = Some []" "ap_formatter a = Some f"
  defines "passing calls \<equiv> filter (\<lambda>(now, level, event). ap_level a \<le> level) calls"
  defines "text calls \<equiv> concat (map (\<lambda>(now, level, event). lf_format strftime f level event) (last_second (passing calls)))"
  shows "\<exists>a' files'. file_run can_open strftime filename calls a files = Inr (a', files') \<and>
    ap_good a' \<and> ap_level a' = ap_level a \<and> ap_formatter a' = Some f \<and>
    (passing calls \<noteq> [] \<longrightarrow> ap_lastTime a' = fst (last (passing calls))) \<and>
    files' filename = Some (text calls) \<and> ap_pos a' = length (text calls) \<and>
    (\<forall>g. g \<noteq> filename \<longrightarrow> files' g = files g)"
proof (induction calls rule: rev_induct)
  case Nil
  then show ?case using assms by (simp add: file_run_def last_second_def)
next
  case (snoc c calls)
  obtain now level event where c: "c = (now, level, event)" by (cases c)
  obtain a' files' where IH: "file_run can_open strftime filename calls a files = Inr (a', files')"
    "ap_good a'" "ap_level a' = ap_level a" "ap_formatter a' = Some f"
    "passing calls \<noteq> [] \<longrightarrow> ap_lastTime a' = fst (last (passing calls))"
    "files' filename = Some (text calls)" "ap_pos a' = length (text calls)" "\<forall>g. g \<noteq> filename \<longrightarrow> files' g = files g"
    using snoc.IH by blast
  have step: "file_run can_open strftime filename (calls @ [c]) a files =
      rbind (file_log can_open strftime now filename level event a' files') (\<lambda>(ok, a, files). Inr (a, files))"
    using IH(1) by (simp add: file_run_def c)
  show ?case
  proof (cases "ap_level a \<le> level")
    case False
    then have "passing (calls @ [c]) = passing calls" by (simp add: passing_def c)
    then show ?thesis using False IH step by (simp add: file_log_def text_def)
  next
    case True
    let ?s = "lf_format strftime f level event"
    have p: "passing (calls @ [c]) = passing calls @ [c]" using True by (simp add: passing_def c)
    have t: "text (calls @ [c]) = (if passing calls \<noteq> [] \<and> fst (last (passing calls)) = now then text calls else []) @ ?s"
      unfolding text_def p last_second_snoc by (simp add: c)
    have t0: "passing calls = [] \<Longrightarrow> text calls = []" by (simp add: text_def last_second_def)
    show ?thesis
    proof (cases "now = ap_lastTime a'")
      case same: True
      have "text (calls @ [c]) = text calls @ ?s"
        using IH(5) same t t0 by auto
      then show ?thesis using True same IH step
        by (simp add: file_log_def Let_def stream_write_def write_at_end p) (simp add: c)
    next
      case new: False
      show ?thesis
      proof (cases "passing calls = [] \<or> fst (last (passing calls)) \<noteq> now")
        case True
        then have "text (calls @ [c]) = ?s" using t by auto
        then show ?thesis using \<open>ap_level a \<le> level\<close> new IH step assms(1) write_at_end[of "[]" ?s]
          by (simp add: file_log_def Let_def stream_write_def reopen_def p) (simp add: c)
      next
        case False
        then show ?thesis using IH(5) new by auto
      qed
    qed
  qed
qed

section \<open>Loggers\<close>

text \<open>
  What holds of the loggers and appenders in every state: \<open>root\<close> exists and is the root of the others, loggers have a
  formatter, and the appenders of a logger exist and have one.
\<close>

definition appender_ok :: "log_state \<Rightarrow> nat \<Rightarrow> bool" where
  "appender_ok st i \<longleftrightarrow> (\<exists>a. ls_heap st i = Some a \<and> ap_formatter a \<noteq> None)"

definition logger_ok :: "log_state \<Rightarrow> string \<Rightarrow> logger \<Rightarrow> bool" where
  "logger_ok st name lg \<longleftrightarrow> lg_name lg = name \<and> lg_formatter lg \<noteq> None \<and>
     lg_root lg = (if name = ''root'' then None else Some ''root'') \<and> (\<forall>i \<in> set (lg_appenders lg). appender_ok st i)"

definition log_ok :: "log_state \<Rightarrow> bool" where
  "log_ok st \<longleftrightarrow> (\<forall>name lg. ls_loggers st name = Some lg \<longrightarrow> logger_ok st name lg) \<and>
     (\<exists>lg. ls_loggers st ''root'' = Some lg) \<and> (\<forall>i. ls_heap st i \<noteq> None \<longrightarrow> i < ls_next st)"

text \<open>What no operation does: removing an appender, its formatter, or changing its kind or level.\<close>

definition heap_kept :: "log_state \<Rightarrow> log_state \<Rightarrow> bool" where
  "heap_kept st st' \<longleftrightarrow> ls_next st \<le> ls_next st' \<and> (\<forall>i a. ls_heap st i = Some a \<longrightarrow>
     (\<exists>a'. ls_heap st' i = Some a' \<and> ap_kind a' = ap_kind a \<and> ap_level a' = ap_level a \<and>
        (ap_formatter a \<noteq> None \<longrightarrow> ap_formatter a' \<noteq> None)))"

lemma heap_kept_refl: "heap_kept st st"
  by (simp add: heap_kept_def)

lemma heap_kept_trans: "heap_kept st st1 \<Longrightarrow> heap_kept st1 st2 \<Longrightarrow> heap_kept st st2"
proof -
  assume k: "heap_kept st st1" "heap_kept st1 st2"
  have "\<exists>a2. ls_heap st2 i = Some a2 \<and> ap_kind a2 = ap_kind a \<and> ap_level a2 = ap_level a \<and>
      (ap_formatter a \<noteq> None \<longrightarrow> ap_formatter a2 \<noteq> None)" if a: "ls_heap st i = Some a" for i a
  proof -
    obtain a1 where a1: "ls_heap st1 i = Some a1" "ap_kind a1 = ap_kind a" "ap_level a1 = ap_level a"
      "ap_formatter a \<noteq> None \<longrightarrow> ap_formatter a1 \<noteq> None" using k(1) a unfolding heap_kept_def by blast
    then obtain a2 where "ls_heap st2 i = Some a2" "ap_kind a2 = ap_kind a1" "ap_level a2 = ap_level a1"
      "ap_formatter a1 \<noteq> None \<longrightarrow> ap_formatter a2 \<noteq> None" using k(2) unfolding heap_kept_def by blast
    then show ?thesis using a1 by auto
  qed
  then show ?thesis using k unfolding heap_kept_def by (auto intro: le_trans)
qed

lemma heap_kept_same: "ls_heap st' = ls_heap st \<Longrightarrow> ls_next st' = ls_next st \<Longrightarrow> heap_kept st st'"
  by (simp add: heap_kept_def)

lemma appender_ok_kept: "appender_ok st i \<Longrightarrow> heap_kept st st' \<Longrightarrow> appender_ok st' i"
  unfolding appender_ok_def heap_kept_def by metis

lemma logger_ok_kept: "logger_ok st name lg \<Longrightarrow> heap_kept st st' \<Longrightarrow> logger_ok st' name lg"
  unfolding logger_ok_def using appender_ok_kept by blast

text \<open>Changing one logger of a state, with the heap kept.\<close>

lemma log_ok_change:
  assumes "log_ok st" "heap_kept st st'" "\<forall>i. ls_heap st' i \<noteq> None \<longrightarrow> i < ls_next st'"
    "ls_loggers st' = (ls_loggers st)(name := Some lg)" "logger_ok st' name lg"
  shows "log_ok st'"
  unfolding log_ok_def
proof (intro conjI allI impI)
  fix name' lg' assume l: "ls_loggers st' name' = Some lg'"
  show "logger_ok st' name' lg'"
  proof (cases "name' = name")
    case False
    then have "logger_ok st name' lg'" using l assms(1,4) by (simp add: log_ok_def)
    then show ?thesis using logger_ok_kept assms(2) by blast
  qed (use l assms(4,5) in simp)
next
  show "\<exists>lg. ls_loggers st' ''root'' = Some lg" using assms(1,4) by (simp add: log_ok_def)
qed (use assms(3) in blast)

lemma log_ok_same:
  assumes "log_ok st" "heap_kept st st'" "\<forall>i. ls_heap st' i \<noteq> None \<longrightarrow> i < ls_next st'" "ls_loggers st' = ls_loggers st"
  shows "log_ok st'"
  using assms(1,3,4) logger_ok_kept[OF _ assms(2)] unfolding log_ok_def by simp

subsection \<open>Writing a message\<close>

lemma file_log_ok:
  assumes "ap_formatter a \<noteq> None"
  shows "\<exists>ok a' files'. file_log can_open strftime now filename level event a files = Inr (ok, a', files') \<and>
    ap_kind a' = ap_kind a \<and> ap_level a' = ap_level a \<and> ap_formatter a' = ap_formatter a"
  using assms by (auto simp: file_log_def Let_def reopen_def stream_write_def split: option.splits)

lemma appender_log_ok:
  assumes "appender_ok st i" "log_ok st"
  shows "\<exists>st'. appender_log can_open strftime now i level event st = Inr st' \<and> heap_kept st st' \<and> log_ok st' \<and>
    ls_loggers st' = ls_loggers st"
proof -
  obtain a where a: "ls_heap st i = Some a" "ap_formatter a \<noteq> None" using assms(1) by (auto simp: appender_ok_def)
  show ?thesis
  proof (cases "ap_kind a")
    case (FileAppender filename)
    obtain ok a' files' where f: "file_log can_open strftime now filename level event a (ls_files st) = Inr (ok, a', files')"
      "ap_kind a' = ap_kind a" "ap_level a' = ap_level a" "ap_formatter a' = ap_formatter a"
      using file_log_ok[OF a(2)] by blast
    define st' where "st' = st\<lparr>ls_heap := (ls_heap st)(i \<mapsto> a'), ls_files := files',
      ls_stdout := ls_stdout st @ (if ok then [] else ''error'' @ [CHR 0x0A])\<rparr>"
    have "appender_log can_open strftime now i level event st = Inr st'"
      using a f by (simp add: appender_log_def FileAppender st'_def)
    moreover have k: "heap_kept st st'" using a f by (simp add: heap_kept_def st'_def)
    moreover have "log_ok st'" using log_ok_same[OF assms(2) k] a(1) assms(2) by (auto simp: st'_def log_ok_def)
    ultimately show ?thesis by (auto simp: st'_def)
  next
    case StdoutAppender
    define st' where "st' = (if ap_level a \<le> level then st\<lparr>ls_stdout := ls_stdout st @ lf_format strftime (the (ap_formatter a)) level event\<rparr> else st)"
    have "appender_log can_open strftime now i level event st = Inr st'"
      using a by (auto simp: appender_log_def StdoutAppender st'_def)
    moreover have k: "heap_kept st st'" by (rule heap_kept_same) (simp_all add: st'_def)
    moreover have "log_ok st'" using log_ok_same[OF assms(2) k] assms(2) by (auto simp: st'_def log_ok_def)
    ultimately show ?thesis by (auto simp: st'_def)
  qed
qed

lemma appenders_loop_ok:
  "\<forall>i \<in> set is. appender_ok st i \<Longrightarrow> log_ok st \<Longrightarrow>
   \<exists>st'. appenders_loop can_open strftime now is level event st = Inr st' \<and> heap_kept st st' \<and> log_ok st' \<and>
     ls_loggers st' = ls_loggers st"
proof (induction "is" arbitrary: st)
  case Nil
  then show ?case by (simp add: heap_kept_refl)
next
  case (Cons i "is")
  obtain st1 where 1: "appender_log can_open strftime now i level event st = Inr st1" "heap_kept st st1" "log_ok st1"
    "ls_loggers st1 = ls_loggers st" using appender_log_ok[of st i can_open strftime now level event] Cons.prems by auto
  have "\<forall>i \<in> set is. appender_ok st1 i" using Cons.prems(1) 1(2) appender_ok_kept by auto
  then obtain st2 where "appenders_loop can_open strftime now is level event st1 = Inr st2" "heap_kept st1 st2" "log_ok st2"
    "ls_loggers st2 = ls_loggers st1" using Cons.IH 1(3) by blast
  then show ?case using 1 heap_kept_trans by auto
qed

text \<open>A message goes to the logger's own appenders, or else to those of the root if that admits its level.\<close>

definition log_targets :: "log_state \<Rightarrow> string \<Rightarrow> level \<Rightarrow> nat list" where
  "log_targets st name level =
     (case ls_loggers st name of None \<Rightarrow> []
      | Some lg \<Rightarrow>
          if level < lg_level lg then []
          else if lg_appenders lg \<noteq> [] then lg_appenders lg
          else (case ls_loggers st ''root'' of Some root \<Rightarrow> if level < lg_level root then [] else lg_appenders root | None \<Rightarrow> []))"

lemma logger_log_ok:
  assumes "log_ok st" "ls_loggers st name = Some lg"
  shows "\<exists>st'. logger_log can_open strftime now name level event st = Some (Inr st') \<and>
    appenders_loop can_open strftime now (log_targets st name level) level event st = Inr st' \<and>
    log_ok st' \<and> heap_kept st st' \<and> ls_loggers st' = ls_loggers st"
proof -
  have lg: "logger_ok st name lg" using assms by (simp add: log_ok_def)
  obtain root where root: "ls_loggers st ''root'' = Some root" "logger_ok st ''root'' root"
    using assms(1) by (auto simp: log_ok_def)
  have r: "logger_log can_open strftime now ''root'' level event st =
      Some (appenders_loop can_open strftime now (if level < lg_level root then [] else lg_appenders root) level event st)"
    using root by (subst logger_log.simps) (auto simp: logger_ok_def)
  have "logger_log can_open strftime now name level event st =
      Some (appenders_loop can_open strftime now (log_targets st name level) level event st)"
  proof (cases "level < lg_level lg \<or> lg_appenders lg \<noteq> []")
    case True
    then show ?thesis using assms(2) by (subst logger_log.simps) (auto simp: log_targets_def)
  next
    case False
    show ?thesis
    proof (cases "name = ''root''")
      case True
      then show ?thesis using r root(1) assms(2) False by (simp add: log_targets_def)
    next
      case other: False
      then have "logger_log can_open strftime now name level event st = logger_log can_open strftime now ''root'' level event st"
        using assms(2) False lg by (subst logger_log.simps) (simp add: logger_ok_def not_less)
      then show ?thesis using r root(1) assms(2) False by (simp add: log_targets_def)
    qed
  qed
  moreover have "\<forall>i \<in> set (log_targets st name level). appender_ok st i"
    using lg root assms(2) by (auto simp: log_targets_def logger_ok_def split: if_splits)
  ultimately show ?thesis using appenders_loop_ok[OF _ assms(1)] by fastforce
qed

subsection \<open>Changing loggers\<close>

lemma upd_logger_ok:
  assumes "log_ok st" "ls_loggers st name = Some lg" "logger_ok st name (f lg)"
  shows "log_ok (upd_logger name f st)" "heap_kept st (upd_logger name f st)"
    "ls_loggers (upd_logger name f st) = (ls_loggers st)(name := Some (f lg))" "ls_heap (upd_logger name f st) = ls_heap st"
proof -
  show k: "heap_kept st (upd_logger name f st)" by (rule heap_kept_same) (simp_all add: upd_logger_def)
  show l: "ls_loggers (upd_logger name f st) = (ls_loggers st)(name := Some (f lg))" "ls_heap (upd_logger name f st) = ls_heap st"
    using assms(2) by (simp_all add: upd_logger_def)
  show "log_ok (upd_logger name f st)"
    using log_ok_change[OF assms(1) k _ l(1)] logger_ok_kept[OF assms(3) k] assms(1) by (simp add: l(2) upd_logger_def log_ok_def)
qed

lemma getLogger_ok:
  assumes "log_ok st"
  shows "log_ok (getLogger name st)" "heap_kept st (getLogger name st)"
    "\<exists>lg. ls_loggers (getLogger name st) = (ls_loggers st)(name := Some lg) \<and> (ls_loggers st name = None \<or> ls_loggers st name = Some lg)"
proof -
  show k: "heap_kept st (getLogger name st)" by (rule heap_kept_same) (simp_all add: getLogger_def split: option.splits)
  show l: "\<exists>lg. ls_loggers (getLogger name st) = (ls_loggers st)(name := Some lg) \<and> (ls_loggers st name = None \<or> ls_loggers st name = Some lg)"
    by (auto simp: getLogger_def split: option.splits)
  show "log_ok (getLogger name st)"
  proof (cases "ls_loggers st name")
    case None
    then have "name \<noteq> ''root''" using assms by (auto simp: log_ok_def)
    then have "logger_ok (getLogger name st) name ((mk_Logger name)\<lparr>lg_root := Some ''root''\<rparr>)"
      by (simp add: logger_ok_def mk_Logger_def)
    moreover have "ls_loggers (getLogger name st) = (ls_loggers st)(name := Some ((mk_Logger name)\<lparr>lg_root := Some ''root''\<rparr>))"
      using None by (simp add: getLogger_def)
    moreover have "\<forall>i. ls_heap (getLogger name st) i \<noteq> None \<longrightarrow> i < ls_next (getLogger name st)"
      using assms unfolding log_ok_def by (simp add: getLogger_def None)
    ultimately show ?thesis using log_ok_change[OF assms k] by blast
  qed (simp add: getLogger_def assms)
qed

lemma fold_appenders:
  assumes "\<And>a. ap_kind (g a) = ap_kind a \<and> ap_level (g a) = ap_level a \<and> (ap_formatter a \<noteq> None \<longrightarrow> ap_formatter (g a) \<noteq> None)"
  shows "heap_kept st (fold (\<lambda>i. upd_appender i g) is st) \<and> ls_loggers (fold (\<lambda>i. upd_appender i g) is st) = ls_loggers st \<and>
    (\<forall>i. ls_heap (fold (\<lambda>i. upd_appender i g) is st) i = None \<longleftrightarrow> ls_heap st i = None) \<and>
    ls_next (fold (\<lambda>i. upd_appender i g) is st) = ls_next st"
proof (induction "is" arbitrary: st)
  case (Cons i "is")
  have k: "heap_kept st (upd_appender i g st)" unfolding heap_kept_def
  proof (intro conjI allI impI)
    fix j a assume "ls_heap st j = Some a"
    then have "ls_heap (upd_appender i g st) j = Some (if j = i then g a else a)" by (auto simp: upd_appender_def)
    then show "\<exists>a'. ls_heap (upd_appender i g st) j = Some a' \<and> ap_kind a' = ap_kind a \<and> ap_level a' = ap_level a \<and>
        (ap_formatter a \<noteq> None \<longrightarrow> ap_formatter a' \<noteq> None)" using assms[of a] by auto
  qed (simp add: upd_appender_def)
  have e: "ls_loggers (upd_appender i g st) = ls_loggers st" "ls_next (upd_appender i g st) = ls_next st"
    "\<forall>j. ls_heap (upd_appender i g st) j = None \<longleftrightarrow> ls_heap st j = None" by (simp_all add: upd_appender_def)
  show ?case using Cons.IH[of "upd_appender i g st"] heap_kept_trans[OF k] unfolding fold_simps e using e(3) by blast
qed (simp add: heap_kept_refl)

lemma lg_setFormatter_ok:
  assumes "log_ok st" "ls_loggers st name = Some lg"
  shows "log_ok (lg_setFormatter (Some val) name st) \<and> heap_kept st (lg_setFormatter (Some val) name st) \<and>
    ls_loggers (lg_setFormatter (Some val) name st) = (ls_loggers st)(name := Some (lg\<lparr>lg_formatter := Some val\<rparr>))"
proof -
  define st1 where "st1 = upd_logger name (\<lambda>lg. lg\<lparr>lg_formatter := Some val\<rparr>) st"
  define g where "g = (\<lambda>a :: log_appender. if \<not> ap_hasFormatter a then a\<lparr>ap_formatter := Some val\<rparr> else a)"
  have "logger_ok st name (lg\<lparr>lg_formatter := Some val\<rparr>)" using assms by (simp add: log_ok_def logger_ok_def)
  note u = upd_logger_ok[OF assms(1,2), of "\<lambda>lg. lg\<lparr>lg_formatter := Some val\<rparr>", OF this, folded st1_def]
  have e: "lg_setFormatter (Some val) name st = fold (\<lambda>i. upd_appender i g) (lg_appenders lg) st1"
    using assms(2) by (simp add: lg_setFormatter_def g_def st1_def cong: if_cong)
  have f: "heap_kept st1 (fold (\<lambda>i. upd_appender i g) (lg_appenders lg) st1)"
    "ls_loggers (fold (\<lambda>i. upd_appender i g) (lg_appenders lg) st1) = ls_loggers st1"
    "\<And>i. ls_heap (fold (\<lambda>i. upd_appender i g) (lg_appenders lg) st1) i = None \<longleftrightarrow> ls_heap st1 i = None"
    "ls_next (fold (\<lambda>i. upd_appender i g) (lg_appenders lg) st1) = ls_next st1"
    using fold_appenders[of g st1 "lg_appenders lg"] by (auto simp: g_def)
  have "log_ok (fold (\<lambda>i. upd_appender i g) (lg_appenders lg) st1)"
    using log_ok_same[OF u(1) f(1) _ f(2)] u(1) f(3,4) by (simp add: log_ok_def)
  then show ?thesis unfolding e using f(1,2) u(2,3) heap_kept_trans assms(2) by auto
qed

lemma lg_setFormatter_str_ok:
  assumes "log_ok st" "ls_loggers st name = Some lg"
  shows "log_ok (lg_setFormatter_str val name st) \<and> heap_kept st (lg_setFormatter_str val name st) \<and>
    (\<exists>f. ls_loggers (lg_setFormatter_str val name st) = (ls_loggers st)(name := Some (lg\<lparr>lg_formatter := Some f\<rparr>)))"
proof (cases "lf_error (mk_LogFormatter val)")
  case True
  obtain f where "lg_formatter lg = Some f" using assms by (fastforce simp: log_ok_def logger_ok_def)
  then have "lg\<lparr>lg_formatter := Some f\<rparr> = lg" by simp
  moreover have k: "heap_kept st (lg_setFormatter_str val name st)"
    using True by (intro heap_kept_same) (simp_all add: lg_setFormatter_str_def)
  moreover have "log_ok (lg_setFormatter_str val name st)"
    using log_ok_same[OF assms(1) k] True assms(1) by (simp add: lg_setFormatter_str_def log_ok_def)
  ultimately show ?thesis using True assms(2)
    by (auto simp: lg_setFormatter_str_def fun_upd_idem intro!: exI[of _ f])
next
  case False
  then have "lg_setFormatter_str val name st = lg_setFormatter (Some (mk_LogFormatter val)) name st"
    by (simp add: lg_setFormatter_str_def Let_def)
  then show ?thesis using lg_setFormatter_ok[OF assms] by auto
qed

lemma new_appender_kept:
  assumes "log_ok st" "new_appender a st = (i, st')"
  shows "heap_kept st st'" "log_ok st'" "ls_loggers st' = ls_loggers st" "ls_heap st' i = Some a"
proof -
  have n: "ls_heap st (ls_next st) = None" using assms(1) unfolding log_ok_def by blast
  show k: "heap_kept st st'" using assms(2) n by (auto simp: new_appender_def heap_kept_def)
  show "ls_loggers st' = ls_loggers st" "ls_heap st' i = Some a" using assms(2) by (auto simp: new_appender_def)
  then show "log_ok st'" using log_ok_same[OF assms(1) k] assms unfolding log_ok_def new_appender_def by fastforce
qed

lemma lg_addAppender_ok:
  assumes "log_ok st" "ls_loggers st name = Some lg" "ls_heap st i = Some a"
  shows "log_ok (lg_addAppender i name st) \<and> heap_kept st (lg_addAppender i name st) \<and>
    ls_loggers (lg_addAppender i name st) = (ls_loggers st)(name := Some (lg\<lparr>lg_appenders := lg_appenders lg @ [i]\<rparr>))"
proof -
  define g where "g = (\<lambda>a :: log_appender. if ap_formatter a = None then a\<lparr>ap_formatter := lg_formatter lg\<rparr> else a)"
  define st1 where "st1 = upd_appender i g st"
  have f: "lg_formatter lg \<noteq> None" using assms(1,2) unfolding log_ok_def logger_ok_def by blast
  have s: "heap_kept st st1" "ls_loggers st1 = ls_loggers st" "\<And>j. ls_heap st1 j = None \<longleftrightarrow> ls_heap st j = None" "ls_next st1 = ls_next st"
    using fold_appenders[of g st "[i]"] f by (auto simp: st1_def g_def)
  have ok1: "log_ok st1" using log_ok_same[OF assms(1) s(1) _ s(2)] assms(1) s(3,4) by (simp add: log_ok_def)
  have "appender_ok st1 i" using assms(3) f by (auto simp: appender_ok_def st1_def upd_appender_def g_def)
  moreover have "logger_ok st1 name lg" using ok1 assms(2) s(2) by (simp add: log_ok_def)
  ultimately have "logger_ok st1 name (lg\<lparr>lg_appenders := lg_appenders lg @ [i]\<rparr>)" by (auto simp: logger_ok_def)
  note u = upd_logger_ok[OF ok1, of name lg "\<lambda>lg. lg\<lparr>lg_appenders := lg_appenders lg @ [i]\<rparr>", OF _ this]
  have e: "lg_addAppender i name st = upd_logger name (\<lambda>lg. lg\<lparr>lg_appenders := lg_appenders lg @ [i]\<rparr>) st1"
    using assms(2) by (simp add: lg_addAppender_def st1_def g_def cong: if_cong)
  show ?thesis unfolding e using u s(1,2) assms(2) heap_kept_trans by auto
qed

section \<open>The configuration of the loggers\<close>

definition kind_of :: "log_appender_define \<Rightarrow> appender_kind" where
  "kind_of a = (if lad_type a = File_type then FileAppender (lad_file a) else StdoutAppender)"

text \<open>A logger is as a definition says: its level, and one appender of the right kind and level for each one defined.\<close>

definition described :: "log_state \<Rightarrow> logger \<Rightarrow> level \<Rightarrow> log_appender_define list \<Rightarrow> bool" where
  "described st lg level as \<longleftrightarrow> lg_level lg = level \<and>
     list_all2 (\<lambda>i a. \<exists>ap. ls_heap st i = Some ap \<and> ap_kind ap = kind_of a \<and> ap_level ap = lad_level a) (lg_appenders lg) as"

lemma described_kept: "described st lg level as \<Longrightarrow> heap_kept st st' \<Longrightarrow> described st' lg level as"
  unfolding described_def
proof (elim conjE, intro conjI)
  assume k: "heap_kept st st'"
    and l: "list_all2 (\<lambda>i a. \<exists>ap. ls_heap st i = Some ap \<and> ap_kind ap = kind_of a \<and> ap_level ap = lad_level a) (lg_appenders lg) as"
  show "list_all2 (\<lambda>i a. \<exists>ap. ls_heap st' i = Some ap \<and> ap_kind ap = kind_of a \<and> ap_level ap = lad_level a) (lg_appenders lg) as"
    using l
  proof (rule list_all2_mono)
    fix i a assume "\<exists>ap. ls_heap st i = Some ap \<and> ap_kind ap = kind_of a \<and> ap_level ap = lad_level a"
    then obtain ap where ap: "ls_heap st i = Some ap" "ap_kind ap = kind_of a" "ap_level ap = lad_level a" by blast
    then obtain ap' where "ls_heap st' i = Some ap'" "ap_kind ap' = ap_kind ap" "ap_level ap' = ap_level ap"
      using k unfolding heap_kept_def by blast
    then show "\<exists>ap. ls_heap st' i = Some ap \<and> ap_kind ap = kind_of a \<and> ap_level ap = lad_level a" using ap by simp
  qed
qed

text \<open>Only the text on the standard output, or the files, change.\<close>

lemma log_ok_output:
  "log_ok st \<Longrightarrow> log_ok (st\<lparr>ls_files := files, ls_stdout := out\<rparr>)"
  "heap_kept st (st\<lparr>ls_files := files, ls_stdout := out\<rparr>)"
  unfolding log_ok_def logger_ok_def appender_ok_def heap_kept_def by simp_all

lemma add_defined_ok:
  assumes "log_ok st" "ls_loggers st name = Some lg" "lad_type a \<noteq> No_type"
  shows "\<exists>st' i ap. add_defined can_open name a st = Inr st' \<and> log_ok st' \<and> heap_kept st st' \<and>
    ls_loggers st' = (ls_loggers st)(name := Some (lg\<lparr>lg_appenders := lg_appenders lg @ [i]\<rparr>)) \<and>
    ls_heap st' i = Some ap \<and> ap_kind ap = kind_of a \<and> ap_level ap = lad_level a"
proof -
  obtain ap files where ap: "(case lad_type a of
           File_type \<Rightarrow> let (ap, files) = mk_FileLogAppender can_open (lad_file a) (ls_files st) in Some (ap, st\<lparr>ls_files := files\<rparr>)
         | Stdout_type \<Rightarrow> Some (mk_StdoutLogAppender, st)
         | No_type \<Rightarrow> None) = Some (ap, st\<lparr>ls_files := files\<rparr>)" "ap_kind ap = kind_of a"
  proof (cases "lad_type a")
    case File_type
    then show ?thesis
      using that[of "fst (mk_FileLogAppender can_open (lad_file a) (ls_files st))" "snd (mk_FileLogAppender can_open (lad_file a) (ls_files st))"]
      by (auto simp: mk_FileLogAppender_def reopen_def kind_of_def)
  next
    case Stdout_type
    then show ?thesis using that[of mk_StdoutLogAppender "ls_files st"] by (simp add: kind_of_def mk_StdoutLogAppender_def)
  qed (use assms(3) in simp)
  define fmt where "fmt = mk_LogFormatter (lad_formatter a)"
  define ap' where "ap' = (if lad_formatter a \<noteq> [] \<and> \<not> lf_error fmt then ap_setFormatter (Some fmt) (ap\<lparr>ap_level := lad_level a\<rparr>)
     else ap\<lparr>ap_level := lad_level a\<rparr>)"
  define out where "out = ls_stdout st @ (if lad_formatter a \<noteq> [] \<and> lf_error fmt then ''log.name='' @ name @ '' appender type='' @
      show_nat (if lad_type a = File_type then 1 else 2) @ '' formatter='' @ lad_formatter a @ '' is invalid'' @ [CHR 0x0A] else [])"
  define st1 where "st1 = st\<lparr>ls_files := files, ls_stdout := out\<rparr>"
  obtain i st2 where n: "new_appender ap' st1 = (i, st2)" by fastforce
  have e: "add_defined can_open name a st = Inr (lg_addAppender i name st2)"
    using n by (auto simp: add_defined_def Let_def ap(1) fmt_def ap'_def out_def st1_def split: if_splits)
  have k: "ap_kind ap' = kind_of a" "ap_level ap' = lad_level a" using ap(2) by (simp_all add: ap'_def ap_setFormatter_def)
  have s1: "log_ok st1" "heap_kept st st1" "ls_loggers st1 = ls_loggers st"
    unfolding st1_def using log_ok_output assms(1) by simp_all
  note s2 = new_appender_kept[OF s1(1) n]
  have s3: "log_ok (lg_addAppender i name st2)" "heap_kept st2 (lg_addAppender i name st2)"
    "ls_loggers (lg_addAppender i name st2) = (ls_loggers st2)(name := Some (lg\<lparr>lg_appenders := lg_appenders lg @ [i]\<rparr>))"
    using lg_addAppender_ok[OF s2(2) _ s2(4), of name lg] s2(3) s1(3) assms(2) by simp_all
  obtain ap'' where "ls_heap (lg_addAppender i name st2) i = Some ap''" "ap_kind ap'' = ap_kind ap'" "ap_level ap'' = ap_level ap'"
    using s3(2) s2(4) unfolding heap_kept_def by blast
  moreover have "heap_kept st (lg_addAppender i name st2)" using s1(2) s2(1) s3(2) heap_kept_trans by blast
  moreover have "ls_loggers (lg_addAppender i name st2) = (ls_loggers st)(name := Some (lg\<lparr>lg_appenders := lg_appenders lg @ [i]\<rparr>))"
    using s3(3) s2(3) s1(3) by simp
  ultimately show ?thesis using e s3(1) k
    by (intro exI[of _ "lg_addAppender i name st2"] exI[of _ i] exI[of _ ap'']) simp
qed

lemma add_loop_ok:
  "log_ok st \<Longrightarrow> ls_loggers st name = Some lg \<Longrightarrow> \<forall>a \<in> set as. lad_type a \<noteq> No_type \<Longrightarrow> described st lg level bs \<Longrightarrow>
   \<exists>st' lg'. add_loop can_open name as st = Inr st' \<and> log_ok st' \<and> heap_kept st st' \<and>
     ls_loggers st' = (ls_loggers st)(name := Some lg') \<and> described st' lg' level (bs @ as)"
proof (induction as arbitrary: st lg bs)
  case Nil
  then have "ls_loggers st = (ls_loggers st)(name := Some lg)" by auto
  then show ?case using Nil heap_kept_refl by (intro exI[of _ st] exI[of _ lg]) simp
next
  case (Cons a as)
  obtain st1 i ap where 1: "add_defined can_open name a st = Inr st1" "log_ok st1" "heap_kept st st1"
    "ls_loggers st1 = (ls_loggers st)(name := Some (lg\<lparr>lg_appenders := lg_appenders lg @ [i]\<rparr>))"
    "ls_heap st1 i = Some ap" "ap_kind ap = kind_of a" "ap_level ap = lad_level a"
    using add_defined_ok[OF Cons.prems(1,2), of a can_open] Cons.prems(3) by auto
  have "described st1 (lg\<lparr>lg_appenders := lg_appenders lg @ [i]\<rparr>) level (bs @ [a])"
    using described_kept[OF Cons.prems(4) 1(3)] 1(5-7) by (auto simp: described_def intro: list_all2_appendI)
  then have d: "described st1 (lg\<lparr>lg_appenders := lg_appenders lg @ [i]\<rparr>) level (bs @ [a])" .
  have n: "ls_loggers st1 name = Some (lg\<lparr>lg_appenders := lg_appenders lg @ [i]\<rparr>)" "\<forall>a \<in> set as. lad_type a \<noteq> No_type"
    using 1(4) Cons.prems(3) by simp_all
  obtain st2 lg' where 2: "add_loop can_open name as st1 = Inr st2" "log_ok st2" "heap_kept st1 st2"
     "ls_loggers st2 = (ls_loggers st1)(name := Some lg')" "described st2 lg' level ((bs @ [a]) @ as)"
    using Cons.IH[OF 1(2) n d] by blast
  have "heap_kept st st2" using heap_kept_trans[OF 1(3) 2(3)] .
  then show ?case using 1(1,4) 2 by (intro exI[of _ st2] exI[of _ lg']) simp
qed

text \<open>A definition that an old one equals, as far as \<open>operator==\<close> looks.\<close>

definition unchanged_in :: "log_define list \<Rightarrow> log_define \<Rightarrow> bool" where
  "unchanged_in old_value i \<longleftrightarrow> (\<exists>it \<in> set old_value. log_define_eq i it)"

lemma defs_find_name:
  assumes "distinct (map ld_name ds)"
  shows "defs_find d ds = Some e \<longleftrightarrow> e \<in> set ds \<and> ld_name e = ld_name d"
    "defs_find d ds = None \<longleftrightarrow> ld_name d \<notin> ld_name ` set ds"
proof -
  have "\<not> ld_less e d \<and> \<not> ld_less d e \<longleftrightarrow> ld_name e = ld_name d" for e
    unfolding ld_less_def using less_linear[of "ld_name e" "ld_name d"] by auto
  then have f: "defs_find d ds = find (\<lambda>e. ld_name e = ld_name d) ds" by (simp add: defs_find_def)
  show "defs_find d ds = Some e \<longleftrightarrow> e \<in> set ds \<and> ld_name e = ld_name d"
    unfolding f using assms
  proof (induction ds)
    case (Cons c ds)
    show ?case
    proof (cases "ld_name c = ld_name d")
      case True
      then have "\<forall>e \<in> set ds. ld_name e \<noteq> ld_name d" using Cons.prems by (auto simp: image_iff)
      then show ?thesis using True by auto
    qed (use Cons in auto)
  qed simp
  show "defs_find d ds = None \<longleftrightarrow> ld_name d \<notin> ld_name ` set ds" unfolding f by (induction ds) auto
qed

lemma apply_define_null:
  assumes "distinct (map ld_name old_value)" "unchanged_in old_value i"
  shows "apply_define can_open old_value i st = Inl Null_deref"
proof -
  obtain it where it: "it \<in> set old_value" "log_define_eq i it" using assms(2) by (auto simp: unchanged_in_def)
  then have "defs_find i old_value = Some it" using defs_find_name(1)[OF assms(1), of i it] by (auto simp: log_define_eq_def)
  then show ?thesis using it(2) by (simp add: apply_define_def)
qed

lemma log_okD: "log_ok st \<Longrightarrow> ls_loggers st name = Some lg \<Longrightarrow> logger_ok st name lg"
  unfolding log_ok_def by blast

lemma logger_ok_update:
  "logger_ok st name lg \<Longrightarrow> logger_ok st name (lg\<lparr>lg_level := l\<rparr>)"
  "logger_ok st name lg \<Longrightarrow> logger_ok st name (lg\<lparr>lg_appenders := []\<rparr>)"
  by (simp_all add: logger_ok_def)

lemma apply_define_ok:
  assumes "log_ok st" "distinct (map ld_name old_value)" "\<not> unchanged_in old_value i" "\<forall>a \<in> set (ld_appenders i). lad_type a \<noteq> No_type"
  shows "\<exists>st' lg. apply_define can_open old_value i st = Inr st' \<and> log_ok st' \<and> heap_kept st st' \<and>
    ls_loggers st' = (ls_loggers st)(ld_name i := Some lg) \<and> described st' lg (ld_level i) (ld_appenders i)"
proof -
  let ?n = "ld_name i"
  have logger: "(case defs_find i old_value of None \<Rightarrow> Some (getLogger ?n st)
      | Some it \<Rightarrow> if \<not> log_define_eq i it then Some (getLogger ?n st) else None) = Some (getLogger ?n st)"
  proof (cases "defs_find i old_value")
    case (Some it)
    then have "it \<in> set old_value" using defs_find_name(1)[OF assms(2)] by blast
    then have "\<not> log_define_eq i it" using assms(3) unfolding unchanged_in_def by blast
    then show ?thesis using Some by simp
  qed simp
  define st1 where "st1 = getLogger ?n st"
  obtain lg1 where s1: "log_ok st1" "heap_kept st st1" "ls_loggers st1 = (ls_loggers st)(?n := Some lg1)"
    using getLogger_ok[OF assms(1), of ?n] unfolding st1_def by blast
  have "logger_ok st1 ?n (lg1\<lparr>lg_level := ld_level i\<rparr>)"
    using logger_ok_update(1)[OF log_okD[OF s1(1)]] s1(3) by simp
  note u2 = upd_logger_ok[OF s1(1), of ?n lg1 "\<lambda>lg. lg\<lparr>lg_level := ld_level i\<rparr>", OF _ this]
  define st2 where "st2 = lg_setLevel (ld_level i) ?n st1"
  have s2: "log_ok st2" "heap_kept st1 st2" "ls_loggers st2 = (ls_loggers st1)(?n := Some (lg1\<lparr>lg_level := ld_level i\<rparr>))"
    using u2 s1(3) by (simp_all add: st2_def lg_setLevel_def)
  define st3 where "st3 = (if ld_formatter i \<noteq> [] then lg_setFormatter_str (ld_formatter i) ?n st2 else st2)"
  have "\<exists>lg3. log_ok st3 \<and> heap_kept st2 st3 \<and> ls_loggers st3 = (ls_loggers st2)(?n := Some lg3) \<and> lg_level lg3 = ld_level i"
  proof (cases "ld_formatter i = []")
    case True
    then show ?thesis using s2 heap_kept_refl by (auto simp: st3_def)
  next
    case False
    then show ?thesis using lg_setFormatter_str_ok[OF s2(1), of ?n "lg1\<lparr>lg_level := ld_level i\<rparr>" "ld_formatter i"] s2(3)
      by (auto simp: st3_def)
  qed
  then obtain lg3 where s3: "log_ok st3" "heap_kept st2 st3" "ls_loggers st3 = (ls_loggers st2)(?n := Some lg3)" "lg_level lg3 = ld_level i"
    by blast
  have "logger_ok st3 ?n (lg3\<lparr>lg_appenders := []\<rparr>)"
    using logger_ok_update(2)[OF log_okD[OF s3(1)]] s3(3) by simp
  note u4 = upd_logger_ok[OF s3(1), of ?n lg3 "\<lambda>lg. lg\<lparr>lg_appenders := []\<rparr>", OF _ this]
  define st4 where "st4 = lg_clearAppenders ?n st3"
  have s4: "log_ok st4" "heap_kept st3 st4" "ls_loggers st4 = (ls_loggers st3)(?n := Some (lg3\<lparr>lg_appenders := []\<rparr>))"
    using u4 s3(3) by (simp_all add: st4_def lg_clearAppenders_def)
  have "described st4 (lg3\<lparr>lg_appenders := []\<rparr>) (ld_level i) []" using s3(4) by (simp add: described_def)
  then obtain st5 lg5 where s5: "add_loop can_open ?n (ld_appenders i) st4 = Inr st5" "log_ok st5" "heap_kept st4 st5"
    "ls_loggers st5 = (ls_loggers st4)(?n := Some lg5)" "described st5 lg5 (ld_level i) (ld_appenders i)"
    using add_loop_ok[OF s4(1) _ assms(4), of ?n "lg3\<lparr>lg_appenders := []\<rparr>" "ld_level i" "[]" can_open] s4(3) by auto
  have "apply_define can_open old_value i st = Inr st5"
    using s5(1) unfolding apply_define_def Let_def logger option.case st4_def st3_def st2_def st1_def .
  moreover have "heap_kept st st5" using s1(2) s2(2) s3(2) s4(2) s5(3) heap_kept_trans by blast
  moreover have "ls_loggers st5 = (ls_loggers st)(?n := Some lg5)" using s1(3) s2(3) s3(3) s4(3) s5(4) by simp
  ultimately show ?thesis using s5(2,5) by blast
qed

lemma apply_loop_null:
  "log_ok st \<Longrightarrow> distinct (map ld_name old_value) \<Longrightarrow> \<forall>i \<in> set is. \<forall>a \<in> set (ld_appenders i). lad_type a \<noteq> No_type \<Longrightarrow>
   \<exists>i \<in> set is. unchanged_in old_value i \<Longrightarrow> apply_loop can_open old_value is st = Inl Null_deref"
proof (induction "is" arbitrary: st)
  case (Cons i "is")
  show ?case
  proof (cases "unchanged_in old_value i")
    case True
    then show ?thesis using apply_define_null[OF Cons.prems(2)] by simp
  next
    case False
    then obtain st1 where "apply_define can_open old_value i st = Inr st1" "log_ok st1"
      using apply_define_ok[OF Cons.prems(1,2), of i can_open] Cons.prems(3) by auto
    then show ?thesis using Cons.IH[of st1] Cons.prems False by auto
  qed
qed simp

lemma apply_loop_ok:
  "log_ok st \<Longrightarrow> distinct (map ld_name old_value) \<Longrightarrow> distinct (map ld_name is) \<Longrightarrow>
   \<forall>i \<in> set is. \<not> unchanged_in old_value i \<and> (\<forall>a \<in> set (ld_appenders i). lad_type a \<noteq> No_type) \<Longrightarrow>
   \<exists>st'. apply_loop can_open old_value is st = Inr st' \<and> log_ok st' \<and> heap_kept st st' \<and>
     (\<forall>i \<in> set is. \<exists>lg. ls_loggers st' (ld_name i) = Some lg \<and> described st' lg (ld_level i) (ld_appenders i)) \<and>
     (\<forall>name. name \<notin> ld_name ` set is \<longrightarrow> ls_loggers st' name = ls_loggers st name)"
proof (induction "is" arbitrary: st)
  case Nil
  then show ?case using heap_kept_refl by simp
next
  case (Cons i "is")
  obtain st1 lg where 1: "apply_define can_open old_value i st = Inr st1" "log_ok st1" "heap_kept st st1"
    "ls_loggers st1 = (ls_loggers st)(ld_name i := Some lg)" "described st1 lg (ld_level i) (ld_appenders i)"
    using apply_define_ok[OF Cons.prems(1,2), of i can_open] Cons.prems(4) by auto
  obtain st2 where 2: "apply_loop can_open old_value is st1 = Inr st2" "log_ok st2" "heap_kept st1 st2"
    "\<forall>i \<in> set is. \<exists>lg. ls_loggers st2 (ld_name i) = Some lg \<and> described st2 lg (ld_level i) (ld_appenders i)"
    "\<forall>name. name \<notin> ld_name ` set is \<longrightarrow> ls_loggers st2 name = ls_loggers st1 name"
    using Cons.IH[OF 1(2)] Cons.prems(2-4) by auto
  have "ld_name i \<notin> ld_name ` set is" using Cons.prems(3) by simp
  then have "ls_loggers st2 (ld_name i) = Some lg" using 2(5) 1(4) by simp
  moreover have "described st2 lg (ld_level i) (ld_appenders i)" using described_kept[OF 1(5) 2(3)] .
  moreover have "heap_kept st st2" using heap_kept_trans[OF 1(3) 2(3)] .
  moreover have "\<forall>name. name \<notin> ld_name ` set (i # is) \<longrightarrow> ls_loggers st2 name = ls_loggers st name"
    using 2(5) 1(4) by simp
  ultimately show ?case using 1(1) 2(1,2,4) by (intro exI[of _ st2]) auto
qed

text \<open>A logger without a definition is closed: no level, no appenders of its own.\<close>

definition closed :: "log_state \<Rightarrow> string \<Rightarrow> bool" where
  "closed st name \<longleftrightarrow> (\<exists>lg. ls_loggers st name = Some lg \<and> lg_level lg = UNKNOW \<and> lg_appenders lg = [])"

lemma delete_define_ok:
  assumes "log_ok st" "distinct (map ld_name new_value)"
  shows "log_ok (delete_define new_value i st) \<and> heap_kept st (delete_define new_value i st) \<and>
    (ld_name i \<notin> ld_name ` set new_value \<longrightarrow> closed (delete_define new_value i st) (ld_name i)) \<and>
    (\<forall>name. (name \<in> ld_name ` set new_value \<or> name \<noteq> ld_name i) \<longrightarrow> ls_loggers (delete_define new_value i st) name = ls_loggers st name)"
proof (cases "ld_name i \<in> ld_name ` set new_value")
  case True
  then have "delete_define new_value i st = st"
    using defs_find_name(2)[OF assms(2), of i] by (auto simp: delete_define_def)
  then show ?thesis using assms(1) heap_kept_refl True by simp
next
  case False
  let ?n = "ld_name i"
  have e: "delete_define new_value i st = lg_clearAppenders ?n (lg_setLevel UNKNOW ?n (getLogger ?n st))"
    using False defs_find_name(2)[OF assms(2), of i] by (simp add: delete_define_def)
  define st1 where "st1 = getLogger ?n st"
  obtain lg where s1: "log_ok st1" "heap_kept st st1" "ls_loggers st1 = (ls_loggers st)(?n := Some lg)"
    using getLogger_ok[OF assms(1), of ?n] unfolding st1_def by blast
  have "logger_ok st1 ?n (lg\<lparr>lg_level := UNKNOW\<rparr>)"
    using logger_ok_update(1)[OF log_okD[OF s1(1)]] s1(3) by simp
  note u2 = upd_logger_ok[OF s1(1), of ?n lg "\<lambda>lg. lg\<lparr>lg_level := UNKNOW\<rparr>", OF _ this]
  define st2 where "st2 = lg_setLevel UNKNOW ?n st1"
  have s2: "log_ok st2" "heap_kept st1 st2" "ls_loggers st2 = (ls_loggers st1)(?n := Some (lg\<lparr>lg_level := UNKNOW\<rparr>))"
    using u2 s1(3) by (simp_all add: st2_def lg_setLevel_def)
  have "logger_ok st2 ?n (lg\<lparr>lg_level := UNKNOW, lg_appenders := []\<rparr>)"
    using logger_ok_update(2)[OF log_okD[OF s2(1)]] s2(3) by simp
  note u3 = upd_logger_ok[OF s2(1), of ?n "lg\<lparr>lg_level := UNKNOW\<rparr>" "\<lambda>lg. lg\<lparr>lg_appenders := []\<rparr>", OF _ this]
  have s3: "log_ok (lg_clearAppenders ?n st2)" "heap_kept st2 (lg_clearAppenders ?n st2)"
    "ls_loggers (lg_clearAppenders ?n st2) = (ls_loggers st2)(?n := Some (lg\<lparr>lg_level := UNKNOW, lg_appenders := []\<rparr>))"
    using u3 s2(3) by (simp_all add: lg_clearAppenders_def)
  have "closed (lg_clearAppenders ?n st2) ?n" using s3(3) by (simp add: closed_def)
  moreover have "heap_kept st (lg_clearAppenders ?n st2)" using s1(2) s2(2) s3(2) heap_kept_trans by blast
  ultimately show ?thesis unfolding e st1_def[symmetric] st2_def[symmetric] using s3(1,3) s2(3) s1(3) False by auto
qed

lemma closed_same: "ls_loggers st' name = ls_loggers st name \<Longrightarrow> closed st' name = closed st name"
  by (simp add: closed_def)

lemma delete_loop_ok:
  assumes "distinct (map ld_name new_value)"
  shows "log_ok st \<Longrightarrow> log_ok (fold (delete_define new_value) is st) \<and> heap_kept st (fold (delete_define new_value) is st) \<and>
    (\<forall>i \<in> set is. ld_name i \<notin> ld_name ` set new_value \<longrightarrow> closed (fold (delete_define new_value) is st) (ld_name i)) \<and>
    (\<forall>name. (name \<in> ld_name ` set new_value \<or> name \<notin> ld_name ` set is) \<longrightarrow>
      ls_loggers (fold (delete_define new_value) is st) name = ls_loggers st name)"
proof (induction "is" rule: rev_induct)
  case Nil
  then show ?case using heap_kept_refl by simp
next
  case (snoc i "is")
  define st1 where "st1 = fold (delete_define new_value) is st"
  have IH: "log_ok st1" "heap_kept st st1"
    "\<forall>i \<in> set is. ld_name i \<notin> ld_name ` set new_value \<longrightarrow> closed st1 (ld_name i)"
    "\<forall>name. (name \<in> ld_name ` set new_value \<or> name \<notin> ld_name ` set is) \<longrightarrow> ls_loggers st1 name = ls_loggers st name"
    using snoc unfolding st1_def by blast+
  have e: "fold (delete_define new_value) (is @ [i]) st = delete_define new_value i st1" by (simp add: st1_def)
  define st2 where "st2 = delete_define new_value i st1"
  have D: "log_ok st2" "heap_kept st1 st2" "ld_name i \<notin> ld_name ` set new_value \<longrightarrow> closed st2 (ld_name i)"
    "\<And>name. (name \<in> ld_name ` set new_value \<or> name \<noteq> ld_name i) \<longrightarrow> ls_loggers st2 name = ls_loggers st1 name"
    using delete_define_ok[OF IH(1) assms, of i] unfolding st2_def by blast+
  have "closed st2 (ld_name j)" if "j \<in> set (is @ [i])" "ld_name j \<notin> ld_name ` set new_value" for j
  proof (cases "ld_name j = ld_name i")
    case False
    then have "j \<in> set is" using that(1) by auto
    then show ?thesis using IH(3) that(2) closed_same[of st2 "ld_name j" st1] D(4) False by blast
  qed (use D(3) that in simp)
  moreover have "heap_kept st st2" using heap_kept_trans[OF IH(2) D(2)] .
  moreover have "ls_loggers st2 name = ls_loggers st name"
    if "name \<in> ld_name ` set new_value \<or> name \<notin> ld_name ` set (is @ [i])" for name
    using that IH(4) D(4) by auto
  ultimately show ?case unfolding e st2_def[symmetric] using D(1) by blast
qed

lemma log_macro_ok:
  assumes "log_ok st" "ls_loggers st (ev_logger event) = Some lg"
  shows "\<exists>st'. log_macro can_open strftime now event st = Some (Inr st') \<and> log_ok st' \<and> heap_kept st st' \<and> ls_loggers st' = ls_loggers st"
proof (cases "lg_level lg \<le> ev_level event")
  case True
  then show ?thesis using logger_log_ok[OF assms, of can_open strftime now "ev_level event" event] assms(2)
    by (auto simp: log_macro_def)
qed (use assms heap_kept_refl in \<open>auto simp: log_macro_def\<close>)

lemma conf_changed_split:
  assumes "log_ok st"
  obtains st1 where "log_ok st1" "ls_loggers st1 = ls_loggers st"
    "on_logger_conf_changed can_open strftime now ev old_value new_value st =
      Some (rbind (apply_loop can_open old_value new_value st1) (\<lambda>st. Inr (fold (delete_define new_value) old_value st)))"
proof -
  let ?ev = "ev\<lparr>ev_logger := ''root'', ev_level := INFO, ev_content := ''on_logger_conf_changed''\<rparr>"
  obtain root where "ls_loggers st (ev_logger ?ev) = Some root" using assms(1) by (auto simp: log_ok_def)
  then obtain st1 where "log_macro can_open strftime now ?ev st = Some (Inr st1)" "log_ok st1" "ls_loggers st1 = ls_loggers st"
    using log_macro_ok[OF assms(1), of ?ev root can_open strftime now] by blast
  then show ?thesis using that[of st1] by (simp add: on_logger_conf_changed_def)
qed

lemma conf_changed_null:
  assumes "log_ok st" "distinct (map ld_name old_value)" "\<forall>i \<in> set new_value. \<forall>a \<in> set (ld_appenders i). lad_type a \<noteq> No_type"
    "\<exists>i \<in> set new_value. unchanged_in old_value i"
  shows "on_logger_conf_changed can_open strftime now ev old_value new_value st = Some (Inl Null_deref)"
proof -
  obtain st1 where 1: "log_ok st1" "on_logger_conf_changed can_open strftime now ev old_value new_value st =
      Some (rbind (apply_loop can_open old_value new_value st1) (\<lambda>st. Inr (fold (delete_define new_value) old_value st)))"
    by (rule conf_changed_split[OF assms(1)])
  show ?thesis unfolding 1(2) using apply_loop_null[OF 1(1) assms(2-4)] by simp
qed

lemma conf_changed_ok:
  assumes "log_ok st" "distinct (map ld_name old_value)" "distinct (map ld_name new_value)"
    "\<forall>i \<in> set new_value. \<forall>a \<in> set (ld_appenders i). lad_type a \<noteq> No_type" "\<not> (\<exists>i \<in> set new_value. unchanged_in old_value i)"
  shows "\<exists>st'. on_logger_conf_changed can_open strftime now ev old_value new_value st = Some (Inr st') \<and> log_ok st' \<and>
      (\<forall>i \<in> set new_value. \<exists>lg. ls_loggers st' (ld_name i) = Some lg \<and> described st' lg (ld_level i) (ld_appenders i)) \<and>
      (\<forall>i \<in> set old_value. ld_name i \<notin> ld_name ` set new_value \<longrightarrow> closed st' (ld_name i)) \<and>
      (\<forall>name. name \<notin> ld_name ` (set new_value \<union> set old_value) \<longrightarrow> ls_loggers st' name = ls_loggers st name)"
proof -
  obtain st1 where 1: "log_ok st1" "ls_loggers st1 = ls_loggers st" "on_logger_conf_changed can_open strftime now ev old_value new_value st =
      Some (rbind (apply_loop can_open old_value new_value st1) (\<lambda>st. Inr (fold (delete_define new_value) old_value st)))"
    by (rule conf_changed_split[OF assms(1)])
  obtain st2 where 2: "apply_loop can_open old_value new_value st1 = Inr st2" "log_ok st2"
    "\<forall>i \<in> set new_value. \<exists>lg. ls_loggers st2 (ld_name i) = Some lg \<and> described st2 lg (ld_level i) (ld_appenders i)"
    "\<forall>name. name \<notin> ld_name ` set new_value \<longrightarrow> ls_loggers st2 name = ls_loggers st1 name"
    using apply_loop_ok[OF 1(1) assms(2,3), of can_open] assms(4,5) by auto
  define st3 where "st3 = fold (delete_define new_value) old_value st2"
  have 3: "log_ok st3" "heap_kept st2 st3" "\<forall>i \<in> set old_value. ld_name i \<notin> ld_name ` set new_value \<longrightarrow> closed st3 (ld_name i)"
    "\<forall>name. (name \<in> ld_name ` set new_value \<or> name \<notin> ld_name ` set old_value) \<longrightarrow> ls_loggers st3 name = ls_loggers st2 name"
    using delete_loop_ok[OF assms(3) 2(2), of old_value] unfolding st3_def by blast+
  have "\<forall>i \<in> set new_value. \<exists>lg. ls_loggers st3 (ld_name i) = Some lg \<and> described st3 lg (ld_level i) (ld_appenders i)"
    using 2(3) 3(4) described_kept[OF _ 3(2)] by (metis imageI)
  moreover have "\<forall>name. name \<notin> ld_name ` (set new_value \<union> set old_value) \<longrightarrow> ls_loggers st3 name = ls_loggers st name"
    using 2(4) 3(4) 1(2) by (simp add: image_Un)
  ultimately show ?thesis unfolding 1(3) using 2(1) 3(1,3) st3_def by auto
qed

section \<open>Runs of the logging system\<close>

text \<open>
  What a program may do with the loggers: every operation of the manager, the loggers and the appenders, with objects that
  exist; messages; and changes of the configuration.
\<close>

inductive log_step :: "log_state \<Rightarrow> log_state \<Rightarrow> bool" where
  get: "log_step st (getLogger name st)"
| level: "ls_loggers st name = Some lg \<Longrightarrow> log_step st (lg_setLevel l name st)"
| clear: "ls_loggers st name = Some lg \<Longrightarrow> log_step st (lg_clearAppenders name st)"
| del: "ls_loggers st name = Some lg \<Longrightarrow> log_step st (lg_delAppender i name st)"
| formatter: "ls_loggers st name = Some lg \<Longrightarrow> log_step st (lg_setFormatter (Some f) name st)"
| formatter_str: "ls_loggers st name = Some lg \<Longrightarrow> log_step st (lg_setFormatter_str val name st)"
| appender: "new_appender a st = (i, st') \<Longrightarrow> log_step st st'"
| add: "ls_loggers st name = Some lg \<Longrightarrow> ls_heap st i = Some a \<Longrightarrow> log_step st (lg_addAppender i name st)"
| ap_formatter: "ls_heap st i = Some a \<Longrightarrow> log_step st (upd_appender i (ap_setFormatter (Some f)) st)"
| ap_level: "ls_heap st i = Some a \<Longrightarrow> log_step st (upd_appender i (\<lambda>a. a\<lparr>ap_level := l\<rparr>) st)"
| message: "logger_log can_open strftime now name level event st = Some (Inr st') \<Longrightarrow> log_step st st'"
| conf: "distinct (map ld_name old_value) \<Longrightarrow> distinct (map ld_name new_value) \<Longrightarrow>
    \<forall>i \<in> set new_value. \<forall>a \<in> set (ld_appenders i). lad_type a \<noteq> No_type \<Longrightarrow>
    on_logger_conf_changed can_open strftime now ev old_value new_value st = Some (Inr st') \<Longrightarrow> log_step st st'"

lemma upd_appender_ok:
  assumes "log_ok st" "\<And>a. ap_formatter a \<noteq> None \<Longrightarrow> ap_formatter (g a) \<noteq> None"
  shows "log_ok (upd_appender i g st)"
proof -
  have "appender_ok (upd_appender i g st) j" if "appender_ok st j" for j
    using that assms(2) by (auto simp: appender_ok_def upd_appender_def)
  then have "logger_ok (upd_appender i g st) name lg" if "logger_ok st name lg" for name lg
    using that unfolding logger_ok_def by blast
  then show ?thesis using assms(1) unfolding log_ok_def by (simp add: upd_appender_def)
qed

lemma log_step_ok: "log_step st st' \<Longrightarrow> log_ok st \<Longrightarrow> log_ok st'"
proof (induction rule: log_step.induct)
  case (level st name lg l)
  then have "logger_ok st name (lg\<lparr>lg_level := l\<rparr>)" using logger_ok_update(1) log_okD by blast
  then show ?case unfolding lg_setLevel_def using upd_logger_ok(1) level by blast
next
  case (clear st name lg)
  then have "logger_ok st name (lg\<lparr>lg_appenders := []\<rparr>)" using logger_ok_update(2) log_okD by blast
  then show ?case unfolding lg_clearAppenders_def
    using upd_logger_ok(1)[OF clear(2,1), of "\<lambda>lg. lg\<lparr>lg_appenders := []\<rparr>"] by simp
next
  case (del st name lg i)
  have "logger_ok st name (lg\<lparr>lg_appenders := remove1 i (lg_appenders lg)\<rparr>)"
    using log_okD[OF del(2,1)] set_remove1_subset[of i "lg_appenders lg"] by (auto simp: logger_ok_def)
  then show ?case unfolding lg_delAppender_def
    using upd_logger_ok(1)[OF del(2,1), of "\<lambda>lg. lg\<lparr>lg_appenders := remove1 i (lg_appenders lg)\<rparr>"] by simp
next
  case (message can_open strftime now name level event st st')
  then obtain lg where "ls_loggers st name = Some lg" by (subst (asm) logger_log.simps) (auto split: option.splits)
  then obtain st1 where "logger_log can_open strftime now name level event st = Some (Inr st1)" "log_ok st1"
    using logger_log_ok[OF message(2), of name lg can_open strftime now level event] by blast
  then show ?case using message(1) by simp
next
  case (conf old_value new_value can_open strftime now ev st st')
  show ?case
  proof (cases "\<exists>i \<in> set new_value. unchanged_in old_value i")
    case True
    then show ?thesis using conf_changed_null[OF conf(5,1,3), of can_open strftime now ev] conf(4) by simp
  next
    case False
    then show ?thesis using conf_changed_ok[OF conf(5,1-3) False, of can_open strftime now ev] conf(4) by auto
  qed
next
  case (add st name lg i a)
  then show ?case using lg_addAppender_ok by blast
next
  case (appender a st i st')
  then show ?case using new_appender_kept(2) by blast
qed (simp_all add: getLogger_ok lg_setFormatter_ok lg_setFormatter_str_ok upd_appender_ok ap_setFormatter_def)

lemma mk_LoggerManager_ok: "log_ok (mk_LoggerManager files)"
proof -
  let ?st = "\<lparr>ls_loggers = [''root'' \<mapsto> mk_Logger ''root''], ls_heap = Map.empty, ls_next = 0, ls_stdout = [], ls_files = files\<rparr>"
  have 0: "log_ok ?st" by (auto simp: log_ok_def logger_ok_def mk_Logger_def split: if_splits)
  obtain i st1 where n: "new_appender mk_StdoutLogAppender ?st = (i, st1)" by fastforce
  have "mk_LoggerManager files = lg_addAppender i ''root'' st1" using n by (simp add: mk_LoggerManager_def)
  then show ?thesis using lg_addAppender_ok[OF new_appender_kept(2)[OF 0 n] _ new_appender_kept(4)[OF 0 n], of "''root''"]
      new_appender_kept(3)[OF 0 n] by simp
qed

lemma reached_ok: "log_step\<^sup>*\<^sup>* st st' \<Longrightarrow> log_ok st \<Longrightarrow> log_ok st'"
  by (induction rule: rtranclp_induct) (use log_step_ok in blast)+

section \<open>Properties\<close>

text \<open>
  C31: a pattern made of well-formed pieces is parsed into exactly these pieces: each text stands for itself, each item for the
  item that its letter names, with its format; the formatter is in error if and only if some letter names no item; and an
  event is formatted as the pieces one after the other.
\<close>

theorem pattern_parsed:
  assumes "pieces_ok ps"
  shows "lf_items (mk_LogFormatter (render ps)) = map (\<lambda>p. case piece_item p of Some i \<Rightarrow> i | None \<Rightarrow> error_item p) ps \<and>
    (lf_error (mk_LogFormatter (render ps)) \<longleftrightarrow> (\<exists>p \<in> set ps. piece_item p = None)) \<and>
    lf_format strftime (mk_LogFormatter (render ps)) level event =
      concat (map (\<lambda>p. item_format strftime level event (case piece_item p of Some i \<Rightarrow> i | None \<Rightarrow> error_item p)) ps)"
  unfolding pattern_pieces[OF assms] lf_format_def by (simp add: comp_def)

definition default_pieces :: "piece list" where
  "default_pieces = [Item CHR ''d'' (Some ''%Y-%m-%d %H:%M:%S''), Item CHR ''T'' None, Item CHR ''t'' None, Item CHR ''T'' None,
     Item CHR ''N'' None, Item CHR ''T'' None, Item CHR ''F'' None, Item CHR ''T'' None, Text ''['', Item CHR ''p'' None,
     Text '']'', Item CHR ''T'' None, Text ''['', Item CHR ''c'' None, Text '']'', Item CHR ''T'' None, Item CHR ''f'' None,
     Text '':'', Item CHR ''l'' None, Item CHR ''T'' None, Item CHR ''m'' None, Item CHR ''n'' None]"

lemma pattern_parsed_witness:
  "render default_pieces = default_pattern \<and> \<not> lf_error (mk_LogFormatter default_pattern) \<and>
   length (lf_items (mk_LogFormatter default_pattern)) = 22"
proof -
  have ok: "pieces_ok default_pieces" by code_simp
  have r: "render default_pieces = default_pattern" by code_simp
  have "lf_items (mk_LogFormatter (render default_pieces)) =
      map (\<lambda>p. case piece_item p of Some i \<Rightarrow> i | None \<Rightarrow> error_item p) default_pieces"
    "lf_error (mk_LogFormatter (render default_pieces)) \<longleftrightarrow> (\<exists>p \<in> set default_pieces. piece_item p = None)"
    using pattern_parsed[OF ok] by blast+
  moreover have "\<not> (\<exists>p \<in> set default_pieces. piece_item p = None)" by code_simp
  moreover have "length default_pieces = 22" by (simp add: default_pieces_def)
  ultimately show ?thesis unfolding r by simp
qed

text \<open>
  a file appender never fails, and after any sequence of messages its file holds exactly the formatted messages of the
  last second in which one was written, in their order; what it wrote before is lost, since it reopens the file for output.
\<close>

theorem log_file_last_second:
  assumes "can_open filename" "mk_FileLogAppender can_open filename files = (a, files1)"
  shows "\<exists>a' files'. file_run can_open strftime filename calls (a\<lparr>ap_formatter := Some f, ap_level := lv\<rparr>) files1 = Inr (a', files') \<and>
    files' filename = Some (concat (map (\<lambda>(now, level, event). lf_format strftime f level event)
      (last_second (filter (\<lambda>(now, level, event). lv \<le> level) calls)))) \<and>
    (\<forall>g. g \<noteq> filename \<longrightarrow> files' g = files g)"
proof -
  have a: "ap_good a" "ap_pos a = 0" "files1 = files(filename \<mapsto> [])"
    using assms by (auto simp: mk_FileLogAppender_def reopen_def)
  show ?thesis
    using file_run_content[of can_open filename "a\<lparr>ap_formatter := Some f, ap_level := lv\<rparr>" files1 f strftime calls] assms(1) a by auto
qed

definition sample_event :: "string \<Rightarrow> log_event" where
  "sample_event content = \<lparr>ev_file = ''a.cpp'', ev_line = 1, ev_elapse = 0, ev_threadId = 1, ev_fiberId = 0, ev_time = 5,
     ev_threadName = ''main'', ev_content = content, ev_logger = ''root'', ev_level = INFO\<rparr>"

definition sample_calls :: "(64 word \<times> level \<times> log_event) list" where
  "sample_calls = [(5, INFO, sample_event ''a''), (5, DEBUG, sample_event ''b''), (6, INFO, sample_event ''c''), (6, ERROR, sample_event ''d'')]"

lemma log_file_last_second_witness:
  "\<exists>a' files'. file_run (\<lambda>g. True) (\<lambda>f t. []) ''x.log''
      sample_calls
      (fst (mk_FileLogAppender (\<lambda>g. True) ''x.log'' Map.empty)\<lparr>ap_formatter := Some (mk_LogFormatter ''%m''), ap_level := INFO\<rparr>)
      (snd (mk_FileLogAppender (\<lambda>g. True) ''x.log'' Map.empty)) = Inr (a', files') \<and>
    files' ''x.log'' = Some ''cd''"
proof -
  have i: "lf_items (mk_LogFormatter ''%m'') = [MessageItem]" by code_simp
  have l: "\<not> INFO \<le> DEBUG" "INFO \<le> ERROR" by code_simp+
  have f: "concat (map (\<lambda>(now, level, event). lf_format (\<lambda>f t. []) (mk_LogFormatter ''%m'') level event)
      (last_second (filter (\<lambda>(now, level, event). INFO \<le> level)
        sample_calls))) = ''cd''"
    by (simp add: last_second_def lf_format_def i l sample_calls_def sample_event_def item_format_def)
  obtain a' files' where "file_run (\<lambda>g. True) (\<lambda>f t. []) ''x.log''
      sample_calls
      (fst (mk_FileLogAppender (\<lambda>g. True) ''x.log'' Map.empty)\<lparr>ap_formatter := Some (mk_LogFormatter ''%m''), ap_level := INFO\<rparr>)
      (snd (mk_FileLogAppender (\<lambda>g. True) ''x.log'' Map.empty)) = Inr (a', files')"
    "files' ''x.log'' = Some (concat (map (\<lambda>(now, level, event). lf_format (\<lambda>f t. []) (mk_LogFormatter ''%m'') level event)
      (last_second (filter (\<lambda>(now, level, event). INFO \<le> level) sample_calls))))"
    using log_file_last_second[of "\<lambda>g. True" "''x.log''" Map.empty "fst (mk_FileLogAppender (\<lambda>g. True) ''x.log'' Map.empty)"
        "snd (mk_FileLogAppender (\<lambda>g. True) ''x.log'' Map.empty)" "\<lambda>f t. []"
        sample_calls
        INFO "mk_LogFormatter ''%m''"] by auto
  then show ?thesis unfolding f by blast
qed



text \<open>
  C32: when the configuration of the loggers changes, the listener dereferences null if some new definition has the name, the
  level and the formatter of an old one (whatever its appenders); otherwise it makes each defined logger as its definition
  says, closes the loggers whose definition is gone, and leaves all others alone.
\<close>

theorem log_reconfigured:
  assumes "log_step\<^sup>*\<^sup>* (mk_LoggerManager files) st" "distinct (map ld_name old_value)" "distinct (map ld_name new_value)"
    "\<forall>i \<in> set new_value. \<forall>a \<in> set (ld_appenders i). lad_type a \<noteq> No_type"
  shows "if \<exists>i \<in> set new_value. \<exists>it \<in> set old_value. ld_name i = ld_name it \<and> ld_level i = ld_level it \<and> ld_formatter i = ld_formatter it
    then on_logger_conf_changed can_open strftime now ev old_value new_value st = Some (Inl Null_deref)
    else \<exists>st'. on_logger_conf_changed can_open strftime now ev old_value new_value st = Some (Inr st') \<and>
      (\<forall>i \<in> set new_value. \<exists>lg. ls_loggers st' (ld_name i) = Some lg \<and> described st' lg (ld_level i) (ld_appenders i)) \<and>
      (\<forall>i \<in> set old_value. ld_name i \<notin> ld_name ` set new_value \<longrightarrow> closed st' (ld_name i)) \<and>
      (\<forall>name. name \<notin> ld_name ` (set new_value \<union> set old_value) \<longrightarrow> ls_loggers st' name = ls_loggers st name)"
proof -
  have u: "(\<exists>i \<in> set new_value. \<exists>it \<in> set old_value. ld_name i = ld_name it \<and> ld_level i = ld_level it \<and> ld_formatter i = ld_formatter it) \<longleftrightarrow>
    (\<exists>i \<in> set new_value. unchanged_in old_value i)" by (simp add: unchanged_in_def log_define_eq_def)
  note ok = reached_ok[OF assms(1) mk_LoggerManager_ok]
  show ?thesis
  proof (cases "\<exists>i \<in> set new_value. unchanged_in old_value i")
    case True
    then show ?thesis unfolding u using conf_changed_null[OF ok assms(2,4) True] by simp
  next
    case False
    then show ?thesis unfolding u if_not_P[OF False]
      using conf_changed_ok[OF ok assms(2-4) False, of can_open strftime now ev] by blast
  qed
qed

definition sample_define :: "string \<Rightarrow> level \<Rightarrow> log_define" where
  "sample_define name level = \<lparr>ld_name = name, ld_level = level, ld_formatter = ''%m%n'',
     ld_appenders = [\<lparr>lad_type = Stdout_type, lad_level = UNKNOW, lad_formatter = [], lad_file = []\<rparr>]\<rparr>"

lemma log_reconfigured_witness:
  "on_logger_conf_changed (\<lambda>g. True) (\<lambda>f t. []) 5 (sample_event []) [sample_define ''system'' INFO]
     [(sample_define ''system'' INFO)\<lparr>ld_appenders := []\<rparr>] (mk_LoggerManager Map.empty) = Some (Inl Null_deref) \<and>
   (\<exists>st' lg. on_logger_conf_changed (\<lambda>g. True) (\<lambda>f t. []) 5 (sample_event []) [sample_define ''system'' INFO]
     [sample_define ''system'' ERROR] (mk_LoggerManager Map.empty) = Some (Inr st') \<and>
     ls_loggers st' ''system'' = Some lg \<and> lg_level lg = ERROR \<and> length (lg_appenders lg) = 1)"
proof
  have 0: "log_step\<^sup>*\<^sup>* (mk_LoggerManager Map.empty) (mk_LoggerManager Map.empty)" by simp
  show "on_logger_conf_changed (\<lambda>g. True) (\<lambda>f t. []) 5 (sample_event []) [sample_define ''system'' INFO]
     [(sample_define ''system'' INFO)\<lparr>ld_appenders := []\<rparr>] (mk_LoggerManager Map.empty) = Some (Inl Null_deref)"
    using log_reconfigured[OF 0, of "[sample_define ''system'' INFO]" "[(sample_define ''system'' INFO)\<lparr>ld_appenders := []\<rparr>]"
        "\<lambda>g. True" "\<lambda>f t. []" 5 "sample_event []"] by (simp add: sample_define_def)
  have "INFO \<noteq> ERROR" by simp
  then obtain st' lg where "on_logger_conf_changed (\<lambda>g. True) (\<lambda>f t. []) 5 (sample_event []) [sample_define ''system'' INFO]
      [sample_define ''system'' ERROR] (mk_LoggerManager Map.empty) = Some (Inr st')" "ls_loggers st' ''system'' = Some lg"
    "described st' lg ERROR (ld_appenders (sample_define ''system'' ERROR))"
    using log_reconfigured[OF 0, of "[sample_define ''system'' INFO]" "[sample_define ''system'' ERROR]"
        "\<lambda>g. True" "\<lambda>f t. []" 5 "sample_event []"] by (auto simp: sample_define_def)
  moreover from this(3) have "lg_level lg = ERROR" "length (lg_appenders lg) = 1"
    by (auto simp: described_def sample_define_def dest: list_all2_lengthD)
  ultimately show "\<exists>st' lg. on_logger_conf_changed (\<lambda>g. True) (\<lambda>f t. []) 5 (sample_event []) [sample_define ''system'' INFO]
     [sample_define ''system'' ERROR] (mk_LoggerManager Map.empty) = Some (Inr st') \<and>
     ls_loggers st' ''system'' = Some lg \<and> lg_level lg = ERROR \<and> length (lg_appenders lg) = 1" by blast
qed

end
