(* ===== verification/Load_Balance.thy ===== *)
theory Load_Balance
  imports Captain_Prelude
begin

text \<open>
  Load balancing over the streams of a service: \<^verbatim>\<open>captain/streams/load_balance.h\<close> and \<^verbatim>\<open>load_balance.cc\<close>.
  Items are shared objects, known by their address in the heap of \<open>lb_world\<close>, which also says which streams are connected
  at the moment and which have been handed to a worker to be closed.  Parameters: the order in which a hash table is
  iterated (\<open>le_order\<close>), and the floating-point formula of \<open>getWeight\<close> with its conversion to an integer (\<open>le_fair\<close>).
  The clock and \<^verbatim>\<open>rand()\<close> are arguments; locks are not modelled, nor is the text of \<open>toString\<close>.
\<close>

section \<open>Statistics\<close>

record holder_stats =
  hs_usedTime :: "32 word"
  hs_total :: "32 word"
  hs_doing :: "32 word"
  hs_timeouts :: "32 word"
  hs_oks :: "32 word"
  hs_errs :: "32 word"

definition no_stats :: holder_stats where
  "no_stats = \<lparr>hs_usedTime = 0, hs_total = 0, hs_doing = 0, hs_timeouts = 0, hs_oks = 0, hs_errs = 0\<rparr>"

definition incUsedTime :: "32 word \<Rightarrow> holder_stats \<Rightarrow> 32 word \<times> holder_stats" where
  "incUsedTime v s = (hs_usedTime s + v, s\<lparr>hs_usedTime := hs_usedTime s + v\<rparr>)"

definition incTotal :: "32 word \<Rightarrow> holder_stats \<Rightarrow> 32 word \<times> holder_stats" where
  "incTotal v s = (hs_total s + v, s\<lparr>hs_total := hs_total s + v\<rparr>)"

definition incDoing :: "32 word \<Rightarrow> holder_stats \<Rightarrow> 32 word \<times> holder_stats" where
  "incDoing v s = (hs_doing s + v, s\<lparr>hs_doing := hs_doing s + v\<rparr>)"

definition incTimeouts :: "32 word \<Rightarrow> holder_stats \<Rightarrow> 32 word \<times> holder_stats" where
  "incTimeouts v s = (hs_timeouts s + v, s\<lparr>hs_timeouts := hs_timeouts s + v\<rparr>)"

definition incOks :: "32 word \<Rightarrow> holder_stats \<Rightarrow> 32 word \<times> holder_stats" where
  "incOks v s = (hs_oks s + v, s\<lparr>hs_oks := hs_oks s + v\<rparr>)"

definition incErrs :: "32 word \<Rightarrow> holder_stats \<Rightarrow> 32 word \<times> holder_stats" where
  "incErrs v s = (hs_errs s + v, s\<lparr>hs_errs := hs_errs s + v\<rparr>)"

definition decDoing :: "32 word \<Rightarrow> holder_stats \<Rightarrow> 32 word \<times> holder_stats" where
  "decDoing v s = (hs_doing s - v, s\<lparr>hs_doing := hs_doing s - v\<rparr>)"

definition hs_clear :: "holder_stats \<Rightarrow> holder_stats" where
  "hs_clear s = s\<lparr>hs_usedTime := 0, hs_total := 0, hs_doing := 0, hs_timeouts := 0, hs_oks := 0, hs_errs := 0\<rparr>"

lemma hs_clear_no_stats [simp]: "hs_clear s = no_stats"
  by (simp add: hs_clear_def no_stats_def)

text \<open>A ring of statistics, one slot for each second.\<close>

record holder_stats_set =
  ss_lastUpdateTime :: "32 word"
  ss_stats :: "holder_stats list"

definition mk_HolderStatsSet :: "32 word \<Rightarrow> holder_stats_set" where
  "mk_HolderStatsSet n = \<lparr>ss_lastUpdateTime = 0, ss_stats = replicate (unat n) no_stats\<rparr>"

function ss_init_loop :: "32 word \<Rightarrow> 32 word \<Rightarrow> nat \<Rightarrow> holder_stats list \<Rightarrow> holder_stats list" where
  "ss_init_loop now t i stats =
     (if t \<le> now \<and> i < length stats then
        ss_init_loop now (t + 1) (i + 1) (stats[unat t mod length stats := hs_clear (stats ! (unat t mod length stats))])
      else stats)"
  by pat_completeness auto
termination
  by (relation "measure (\<lambda>(now, t, i, stats). length stats - i)") auto

declare ss_init_loop.simps [simp del]

definition ss_init :: "32 word \<Rightarrow> holder_stats_set \<Rightarrow> holder_stats_set" where
  "ss_init now s =
     (if ss_lastUpdateTime s < now then
        s\<lparr>ss_stats := ss_init_loop now (ss_lastUpdateTime s + 1) 0 (ss_stats s), ss_lastUpdateTime := now\<rparr>
      else s)"

text \<open>\<open>get\<close> hands out a reference to a slot: its index.\<close>

definition ss_get :: "32 word \<Rightarrow> holder_stats_set \<Rightarrow> (nat \<times> holder_stats_set) result" where
  "ss_get now s =
     (let s = ss_init now s
      in if ss_stats s = [] then Inl Div_by_zero else Inr (unat now mod length (ss_stats s), s))"

definition stats_add :: "holder_stats \<Rightarrow> holder_stats \<Rightarrow> holder_stats" where
  "stats_add rt i = \<lparr>hs_usedTime = hs_usedTime rt + hs_usedTime i, hs_total = hs_total rt + hs_total i,
     hs_doing = hs_doing rt + hs_doing i, hs_timeouts = hs_timeouts rt + hs_timeouts i,
     hs_oks = hs_oks rt + hs_oks i, hs_errs = hs_errs rt + hs_errs i\<rparr>"

definition ss_getTotal :: "holder_stats_set \<Rightarrow> holder_stats" where
  "ss_getTotal s = foldl stats_add no_stats (ss_stats s)"

section \<open>Items\<close>

record lb_item =
  li_fair :: bool
  li_id :: "64 word"
  li_stream :: "nat option"
  li_weight :: "32 word"
  li_stats :: holder_stats_set

record lb_world =
  lw_items :: "nat \<Rightarrow> lb_item"
  lw_next :: nat
  lw_connected :: "nat \<Rightarrow> bool"
  lw_closing :: "nat list"

record lb_env =
  le_order :: "64 word set \<Rightarrow> 64 word list"
  le_fair :: "32 word \<Rightarrow> holder_stats_set \<Rightarrow> 32 word \<Rightarrow> 32 word"

definition mk_LoadBalanceItem :: "bool \<Rightarrow> lb_item" where
  "mk_LoadBalanceItem fair = \<lparr>li_fair = fair, li_id = 0, li_stream = None, li_weight = 0, li_stats = mk_HolderStatsSet 5\<rparr>"

definition upd_item :: "nat \<Rightarrow> (lb_item \<Rightarrow> lb_item) \<Rightarrow> lb_world \<Rightarrow> lb_world" where
  "upd_item p f w = w\<lparr>lw_items := (lw_items w)(p := f (lw_items w p))\<rparr>"

definition li_setStream :: "nat option \<Rightarrow> nat \<Rightarrow> lb_world \<Rightarrow> lb_world" where
  "li_setStream v p = upd_item p (\<lambda>i. i\<lparr>li_stream := v\<rparr>)"

definition li_setId :: "64 word \<Rightarrow> nat \<Rightarrow> lb_world \<Rightarrow> lb_world" where
  "li_setId v p = upd_item p (\<lambda>i. i\<lparr>li_id := v\<rparr>)"

definition li_setWeight :: "32 word \<Rightarrow> nat \<Rightarrow> lb_world \<Rightarrow> lb_world" where
  "li_setWeight v p = upd_item p (\<lambda>i. i\<lparr>li_weight := v\<rparr>)"

definition li_get :: "32 word \<Rightarrow> nat \<Rightarrow> lb_world \<Rightarrow> (nat \<times> lb_world) result" where
  "li_get now p w = rbind (ss_get now (li_stats (lw_items w p))) (\<lambda>(i, s). Inr (i, upd_item p (\<lambda>it. it\<lparr>li_stats := s\<rparr>) w))"

definition item_isValid :: "lb_world \<Rightarrow> nat \<Rightarrow> bool" where
  "item_isValid w p = (case li_stream (lw_items w p) of Some s \<Rightarrow> lw_connected w s | None \<Rightarrow> False)"

definition item_close :: "nat \<Rightarrow> lb_world \<Rightarrow> lb_world" where
  "item_close p w = (case li_stream (lw_items w p) of Some s \<Rightarrow> w\<lparr>lw_closing := lw_closing w @ [s]\<rparr> | None \<Rightarrow> w)"

text \<open>
  \<open>getWeight\<close>: of a plain item its weight; of a fair one what the formula makes of the weight and the statistics,
  which it brings up to date, but at least 1.
\<close>

definition item_getWeight :: "lb_env \<Rightarrow> 32 word \<Rightarrow> nat \<Rightarrow> lb_world \<Rightarrow> (32 word \<times> lb_world) result" where
  "item_getWeight env now p w =
     (let i = lw_items w p in
      if \<not> li_fair i then Inr (li_weight i, w)
      else
        let stats = ss_init now (li_stats i);
            v = le_fair env (li_weight i) stats now;
            w = upd_item p (\<lambda>i. i\<lparr>li_stats := stats\<rparr>) w
        in case li_stream i of
             None \<Rightarrow> Inl Null_deref
           | Some s \<Rightarrow> Inr (if lw_connected w s then (if sint v > 1 then v else 1) else 1, w))"

section \<open>Balancers\<close>

datatype lb_kind = RoundRobin | Weighted

record load_balance =
  lb_kind :: lb_kind
  lb_datas :: "64 word \<rightharpoonup> nat"
  lb_lastInitTime :: "64 word"
  lb_items :: "nat list"
  lb_weights :: "64 word list"

definition mk_LoadBalance :: "lb_kind \<Rightarrow> load_balance" where
  "mk_LoadBalance k = \<lparr>lb_kind = k, lb_datas = Map.empty, lb_lastInitTime = 0, lb_items = [], lb_weights = []\<rparr>"

fun weights_loop :: "lb_env \<Rightarrow> 32 word \<Rightarrow> 64 word \<Rightarrow> nat list \<Rightarrow> lb_world \<Rightarrow> (64 word list \<times> lb_world) result" where
  "weights_loop env now tot [] w = Inr ([], w)"
| "weights_loop env now tot (p # ps) w =
     rbind (item_getWeight env now p w) (\<lambda>(v, w).
       let tot = tot + scast v in
       rbind (weights_loop env now tot ps w) (\<lambda>(ws, w). Inr (tot # ws, w)))"

definition valid_items :: "lb_env \<Rightarrow> load_balance \<Rightarrow> lb_world \<Rightarrow> nat list" where
  "valid_items env lb w = filter (item_isValid w) (map (\<lambda>id. the (lb_datas lb id)) (le_order env (dom (lb_datas lb))))"

definition initNolock :: "lb_env \<Rightarrow> 32 word \<Rightarrow> load_balance \<Rightarrow> lb_world \<Rightarrow> (load_balance \<times> lb_world) result" where
  "initNolock env now lb w =
     (let lb = lb\<lparr>lb_items := valid_items env lb w\<rparr> in
      case lb_kind lb of
        RoundRobin \<Rightarrow> Inr (lb, w)
      | Weighted \<Rightarrow> rbind (weights_loop env now 0 (lb_items lb) w) (\<lambda>(ws, w). Inr (lb\<lparr>lb_weights := ws\<rparr>, w)))"

definition lb_init :: "lb_env \<Rightarrow> 32 word \<Rightarrow> load_balance \<Rightarrow> lb_world \<Rightarrow> (load_balance \<times> lb_world) result" where
  "lb_init env now lb w = initNolock env now lb w"

definition lb_getById :: "64 word \<Rightarrow> load_balance \<Rightarrow> nat option" where
  "lb_getById n lb = lb_datas lb n"

definition lb_add :: "lb_env \<Rightarrow> 32 word \<Rightarrow> nat \<Rightarrow> load_balance \<Rightarrow> lb_world \<Rightarrow> (load_balance \<times> lb_world) result" where
  "lb_add env now v lb w = initNolock env now (lb\<lparr>lb_datas := (lb_datas lb)(li_id (lw_items w v) \<mapsto> v)\<rparr>) w"

definition lb_del :: "lb_env \<Rightarrow> 32 word \<Rightarrow> nat \<Rightarrow> load_balance \<Rightarrow> lb_world \<Rightarrow> (load_balance \<times> lb_world) result" where
  "lb_del env now v lb w = initNolock env now (lb\<lparr>lb_datas := (lb_datas lb)(li_id (lw_items w v) := None)\<rparr>) w"

text \<open>\<open>update\<close> also puts the items that it removes into the map \<open>dels\<close> of the caller.\<close>

definition lb_update :: "lb_env \<Rightarrow> 32 word \<Rightarrow> (64 word \<rightharpoonup> nat) \<Rightarrow> (64 word \<rightharpoonup> nat option) \<Rightarrow> load_balance \<Rightarrow> lb_world
    \<Rightarrow> ((64 word \<rightharpoonup> nat option) \<times> load_balance \<times> lb_world) result" where
  "lb_update env now adds dels lb w =
     (let dels' = (\<lambda>id. if dels id \<noteq> None \<and> lb_datas lb id \<noteq> None then Some (lb_datas lb id) else dels id);
          datas = (\<lambda>id. if dels id \<noteq> None then None else lb_datas lb id)
      in rbind (initNolock env now (lb\<lparr>lb_datas := datas ++ adds\<rparr>) w) (\<lambda>(lb, w). Inr (dels', lb, w)))"

definition lb_set :: "lb_env \<Rightarrow> 32 word \<Rightarrow> nat list \<Rightarrow> load_balance \<Rightarrow> lb_world \<Rightarrow> (load_balance \<times> lb_world) result" where
  "lb_set env now vs lb w =
     initNolock env now (lb\<lparr>lb_datas := foldl (\<lambda>datas i. datas(li_id (lw_items w i) \<mapsto> i)) Map.empty vs\<rparr>) w"

definition checkInit :: "lb_env \<Rightarrow> 32 word \<Rightarrow> 64 word \<Rightarrow> load_balance \<Rightarrow> lb_world \<Rightarrow> (load_balance \<times> lb_world) result" where
  "checkInit env now ts lb w =
     (if ts - lb_lastInitTime lb > 500 then
        rbind (lb_init env now lb w) (\<lambda>(lb, w). Inr (lb\<lparr>lb_lastInitTime := ts\<rparr>, w))
      else Inr (lb, w))"

text \<open>The first valid item from an index on, around the list.\<close>

definition next_valid :: "lb_world \<Rightarrow> nat list \<Rightarrow> nat \<Rightarrow> nat option" where
  "next_valid w items r = find (item_isValid w) (map (\<lambda>i. items ! ((r + i) mod length items)) [0..<length items])"

definition rr_get :: "64 word \<Rightarrow> 64 word \<Rightarrow> load_balance \<Rightarrow> lb_world \<Rightarrow> nat option" where
  "rr_get rand v lb w =
     (if lb_items lb = [] then None
      else let r = unat (ucast ((if v = - 1 then rand else v) mod of_nat (length (lb_items lb))) :: 32 word)
           in next_valid w (lb_items lb) r)"

text \<open>
  \<open>getIdx\<close>: the weights are signed, the number is not, so that they are compared as unsigned numbers.  \<open>None\<close> for \<open>-1\<close>.
\<close>

definition upper_bound :: "64 word list \<Rightarrow> 64 word \<Rightarrow> nat result" where
  "upper_bound ws d =
     (let n = length (takeWhile (\<lambda>x. \<not> d < x) ws)
      in if list_all (\<lambda>x. d < x) (drop n ws) then Inr n else Inl (Undefined ''upper_bound''))"

definition getIdx :: "64 word \<Rightarrow> 64 word \<Rightarrow> load_balance \<Rightarrow> nat option result" where
  "getIdx rand v lb =
     (if lb_weights lb = [] then Inr None
      else let tot = last (lb_weights lb) in
        if tot = 0 then Inl Div_by_zero
        else rbind (upper_bound (lb_weights lb) ((if v = - 1 then rand else v) mod tot)) (\<lambda>it.
          if it = length (lb_weights lb) then Inl (Assert_failed ''it != m_weights.end()'') else Inr (Some it)))"

definition lb_get :: "lb_env \<Rightarrow> 32 word \<Rightarrow> 64 word \<Rightarrow> 64 word \<Rightarrow> 64 word \<Rightarrow> load_balance \<Rightarrow> lb_world
    \<Rightarrow> (nat option \<times> load_balance \<times> lb_world) result" where
  "lb_get env now ts rand v lb w =
     rbind (checkInit env now ts lb w) (\<lambda>(lb, w).
       case lb_kind lb of
         RoundRobin \<Rightarrow> Inr (rr_get rand v lb w, lb, w)
       | Weighted \<Rightarrow> rbind (getIdx rand v lb) (\<lambda>idx.
           Inr (case idx of None \<Rightarrow> None | Some i \<Rightarrow> next_valid w (lb_items lb) i, lb, w)))"

text \<open>\<open>getAsFair\<close> casts the item without a check.\<close>

definition lb_getAsFair :: "lb_env \<Rightarrow> 32 word \<Rightarrow> 64 word \<Rightarrow> 64 word \<Rightarrow> load_balance \<Rightarrow> lb_world
    \<Rightarrow> (nat option \<times> load_balance \<times> lb_world) result" where
  "lb_getAsFair env now ts rand lb w = lb_get env now ts rand (- 1) lb w"

section \<open>The balancers of all services\<close>

datatype lb_type = ROUNDROBIN | WEIGHT | FAIR

record sd_load_balance =
  sd_datas :: "string \<Rightarrow> string \<rightharpoonup> nat"
  sd_types :: "string \<Rightarrow> string \<rightharpoonup> lb_type"
  sd_defaultType :: lb_type
  sd_lbs :: "nat \<Rightarrow> load_balance"
  sd_next :: nat
  sd_query :: "string \<Rightarrow> string set"

definition mk_SDLoadBalance :: sd_load_balance where
  "mk_SDLoadBalance = \<lparr>sd_datas = (\<lambda>_. Map.empty), sd_types = (\<lambda>_. Map.empty), sd_defaultType = FAIR,
     sd_lbs = (\<lambda>_. mk_LoadBalance RoundRobin), sd_next = 0, sd_query = (\<lambda>_. {})\<rparr>"

definition sd_getType :: "string \<Rightarrow> string \<Rightarrow> sd_load_balance \<Rightarrow> lb_type" where
  "sd_getType domain service sd = (case sd_types sd domain service of Some t \<Rightarrow> t | None \<Rightarrow> sd_defaultType sd)"

definition createLoadBalance :: "lb_type \<Rightarrow> load_balance" where
  "createLoadBalance type = (case type of ROUNDROBIN \<Rightarrow> mk_LoadBalance RoundRobin | _ \<Rightarrow> mk_LoadBalance Weighted)"

definition createLoadBalanceItem :: "lb_type \<Rightarrow> lb_item" where
  "createLoadBalanceItem type = mk_LoadBalanceItem (type = FAIR)"

definition sd_get :: "string \<Rightarrow> string \<Rightarrow> bool \<Rightarrow> sd_load_balance \<Rightarrow> nat option \<times> sd_load_balance" where
  "sd_get domain service auto_create sd =
     (case sd_datas sd domain service of
        Some lb \<Rightarrow> (Some lb, sd)
      | None \<Rightarrow>
          if \<not> auto_create then (None, sd)
          else let lb = sd_next sd in
            (Some lb, sd\<lparr>sd_lbs := (sd_lbs sd)(lb := createLoadBalance (sd_getType domain service sd)), sd_next := Suc lb,
               sd_datas := (sd_datas sd)(domain := (sd_datas sd domain)(service \<mapsto> lb))\<rparr>))"

text \<open>New items for the services that came; \<open>cb\<close> is the callback that connects, \<open>None\<close> if it fails.\<close>

fun add_items :: "('info \<Rightarrow> nat option) \<Rightarrow> lb_type \<Rightarrow> (64 word \<times> 'info) list \<Rightarrow> (64 word \<rightharpoonup> nat) \<Rightarrow> lb_world
    \<Rightarrow> (64 word \<rightharpoonup> nat) \<times> lb_world" where
  "add_items cb type [] infos w = (infos, w)"
| "add_items cb type ((n, info) # is) infos w =
     (case cb info of
        None \<Rightarrow> add_items cb type is infos w
      | Some stream \<Rightarrow>
          let p = lw_next w;
              item = (createLoadBalanceItem type)\<lparr>li_id := n, li_stream := Some stream, li_weight := 10000\<rparr>
          in add_items cb type is (infos(n \<mapsto> p)) (w\<lparr>lw_items := (lw_items w)(p := item), lw_next := Suc p\<rparr>))"

definition onServiceChange :: "lb_env \<Rightarrow> ('info \<Rightarrow> nat option) \<Rightarrow> 32 word \<Rightarrow> string \<Rightarrow> string \<Rightarrow> (64 word \<rightharpoonup> 'info) \<Rightarrow> (64 word \<rightharpoonup> 'info)
    \<Rightarrow> sd_load_balance \<Rightarrow> lb_world \<Rightarrow> (sd_load_balance \<times> lb_world) result" where
  "onServiceChange env cb now domain service old_value new_value sd w =
     (let type = sd_getType domain service sd in
      case sd_get domain service True sd of
        (None, sd) \<Rightarrow> Inl Null_deref
      | (Some lb, sd) \<Rightarrow>
          let dels = (\<lambda>id. if id \<in> dom old_value - dom new_value then Some None else None);
              (adds, w) = add_items cb type (map (\<lambda>id. (id, the (new_value id))) (le_order env (dom new_value - dom old_value))) Map.empty w
          in rbind (lb_update env now adds dels (sd_lbs sd lb) w) (\<lambda>(dels, b, w).
               Inr (sd\<lparr>sd_lbs := (sd_lbs sd)(lb := b)\<rparr>,
                    fold (\<lambda>id. case dels id of Some (Some p) \<Rightarrow> item_close p | _ \<Rightarrow> (\<lambda>w. w)) (le_order env (dom dels)) w)))"

definition type_of_name :: "string \<Rightarrow> lb_type" where
  "type_of_name s = (if s = ''round_robin'' then ROUNDROBIN else if s = ''weight'' then WEIGHT else FAIR)"

definition sd_initConf :: "(string \<Rightarrow> string \<rightharpoonup> string) \<Rightarrow> sd_load_balance \<Rightarrow> sd_load_balance" where
  "sd_initConf confs sd = sd\<lparr>sd_query := (\<lambda>domain. dom (confs domain)),
     sd_types := (\<lambda>domain. map_option type_of_name \<circ> confs domain)\<rparr>"

end
