(* ===== verification/Load_Balance_Laws.thy ===== *)
theory Load_Balance_Laws
  imports Load_Balance
begin

text \<open>
  What load balancing promises, over the model in theory \<open>Load_Balance\<close>: the ring of statistics holds the last
  seconds; the weighted balancer gives each item its weight's share of the numbers; a balancer only hands out valid items of its
  map; and a change of the services is carried over exactly.
\<close>

section \<open>The ring of statistics\<close>

lemma length_ss_init_loop [simp]: "length (ss_init_loop now t i stats) = length stats"
proof (induction now t i stats rule: ss_init_loop.induct)
  case (1 now t i stats)
  then show ?case by (subst ss_init_loop.simps) simp
qed

lemma length_ss_init [simp]: "length (ss_stats (ss_init now s)) = length (ss_stats s)"
  by (simp add: ss_init_def)

lemma ss_init_idem [simp]: "ss_init now (ss_init now s) = ss_init now s"
  by (simp add: ss_init_def)

text \<open>The slots that the loop clears: those of the seconds from \<open>t\<close> on, at most one round.\<close>

lemma ss_init_loop_nth:
  "unat now + 1 < 2 ^ 32 \<Longrightarrow> i \<le> length stats \<Longrightarrow> j < length stats \<Longrightarrow>
   ss_init_loop now t i stats ! j =
     (if \<exists>m. unat t \<le> m \<and> m \<le> unat now \<and> m - unat t < length stats - i \<and> m mod length stats = j then no_stats else stats ! j)"
proof (induction now t i stats rule: ss_init_loop.induct)
  case (1 now t i stats)
  show ?case
  proof (cases "t \<le> now \<and> i < length stats")
    case True
    let ?n = "length stats" and ?k = "unat t mod length stats"
    have t1: "unat (t + 1) = unat t + 1"
      using True 1(2) by (auto simp: word_le_nat_alt unat_word_ariths)
    have e: "ss_init_loop now t i stats ! j = ss_init_loop now (t + 1) (i + 1) (stats[?k := no_stats]) ! j"
      using True by (subst ss_init_loop.simps) simp
    have IH: "ss_init_loop now (t + 1) (i + 1) (stats[?k := no_stats]) ! j =
       (if \<exists>m. unat t + 1 \<le> m \<and> m \<le> unat now \<and> m - (unat t + 1) < ?n - (i + 1) \<and> m mod ?n = j then no_stats
        else stats[?k := no_stats] ! j)"
      by (rule 1(1)[OF True 1(2), unfolded hs_clear_no_stats t1 length_list_update]) (use True 1(4) in simp_all)
    have "(\<exists>m. unat t \<le> m \<and> m \<le> unat now \<and> m - unat t < ?n - i \<and> m mod ?n = j) \<longleftrightarrow>
       ?k = j \<or> (\<exists>m. unat t + 1 \<le> m \<and> m \<le> unat now \<and> m - (unat t + 1) < ?n - (i + 1) \<and> m mod ?n = j)" (is "?L \<longleftrightarrow> ?R")
    proof
      assume ?L
      then obtain m where m: "unat t \<le> m" "m \<le> unat now" "m - unat t < ?n - i" "m mod ?n = j" by blast
      show ?R
      proof (cases "m = unat t")
        case False
        then have "unat t + 1 \<le> m" "m - (unat t + 1) < ?n - (i + 1)" using m by auto
        then show ?thesis using m by blast
      qed (use m in simp)
    next
      assume ?R
      then show ?L
      proof
        assume "?k = j"
        then show ?L using True by (intro exI[of _ "unat t"]) (simp add: word_le_nat_alt)
      next
        assume "\<exists>m. unat t + 1 \<le> m \<and> m \<le> unat now \<and> m - (unat t + 1) < ?n - (i + 1) \<and> m mod ?n = j"
        then obtain m where m: "unat t + 1 \<le> m" "m \<le> unat now" "m - (unat t + 1) < ?n - (i + 1)" "m mod ?n = j" by blast
        then have "unat t \<le> m" "m - unat t < ?n - i" by auto
        then show ?L using m by blast
      qed
    qed
    then show ?thesis unfolding e IH using 1(4) by (auto simp: nth_list_update)
  next
    case False
    then have "\<not> (\<exists>m. unat t \<le> m \<and> m \<le> unat now \<and> m - unat t < length stats - i \<and> m mod length stats = j)"
      by (auto simp: word_le_nat_alt)
    then show ?thesis using False by (subst ss_init_loop.simps) auto
  qed
qed

text \<open>A second among the last \<open>n\<close> is not congruent to another one of them.\<close>

lemma same_slot:
  fixes a b n :: nat
  assumes "a mod n = b mod n" "a \<le> b" "b < a + n"
  shows "a = b"
proof -
  have "n dvd b - a" using assms(1,2) by (metis mod_eq_dvd_iff_nat)
  then show ?thesis using assms(2,3) by (metis add.commute diff_is_0_eq' dvd_imp_le le_add_diff_inverse2 less_diff_conv2 linorder_not_le
      nat_less_le order_le_less zero_less_diff)
qed

section \<open>Weights\<close>

text \<open>What \<open>getWeight\<close> returns for a valid item, and the only change that it makes: statistics brought up to date.\<close>

definition weight_of :: "lb_env \<Rightarrow> 32 word \<Rightarrow> lb_world \<Rightarrow> nat \<Rightarrow> 32 word" where
  "weight_of env now w p =
     (let i = lw_items w p in
      if li_fair i then let v = le_fair env (li_weight i) (ss_init now (li_stats i)) now in if sint v > 1 then v else 1
      else li_weight i)"

definition refreshed :: "32 word \<Rightarrow> lb_world \<Rightarrow> lb_world \<Rightarrow> bool" where
  "refreshed now w w' \<longleftrightarrow> lw_next w' = lw_next w \<and> lw_connected w' = lw_connected w \<and> lw_closing w' = lw_closing w \<and>
     (\<forall>q. lw_items w' q = lw_items w q \<or> lw_items w' q = (lw_items w q)\<lparr>li_stats := ss_init now (li_stats (lw_items w q))\<rparr>)"

lemma refreshed_refl: "refreshed now w w"
  by (simp add: refreshed_def)

lemma refreshed_trans: "refreshed now w w1 \<Longrightarrow> refreshed now w1 w2 \<Longrightarrow> refreshed now w w2"
proof -
  assume a: "refreshed now w w1" "refreshed now w1 w2"
  have "lw_items w2 q = lw_items w q \<or> lw_items w2 q = (lw_items w q)\<lparr>li_stats := ss_init now (li_stats (lw_items w q))\<rparr>" for q
  proof -
    have "lw_items w1 q = lw_items w q \<or> lw_items w1 q = (lw_items w q)\<lparr>li_stats := ss_init now (li_stats (lw_items w q))\<rparr>"
      "lw_items w2 q = lw_items w1 q \<or> lw_items w2 q = (lw_items w1 q)\<lparr>li_stats := ss_init now (li_stats (lw_items w1 q))\<rparr>"
      using a unfolding refreshed_def by blast+
    then show ?thesis by (elim disjE) simp_all
  qed
  then show ?thesis using a unfolding refreshed_def by simp
qed

lemma refreshed_same:
  assumes "refreshed now w w'"
  shows "item_isValid w' p = item_isValid w p" "weight_of env now w' p = weight_of env now w p"
    "li_stream (lw_items w' p) = li_stream (lw_items w p)" "li_id (lw_items w' p) = li_id (lw_items w p)"
    "li_weight (lw_items w' p) = li_weight (lw_items w p)" "li_fair (lw_items w' p) = li_fair (lw_items w p)"
proof -
  have c: "lw_connected w' = lw_connected w"
    and i: "lw_items w' p = lw_items w p \<or> lw_items w' p = (lw_items w p)\<lparr>li_stats := ss_init now (li_stats (lw_items w p))\<rparr>"
    using assms unfolding refreshed_def by blast+
  show "li_stream (lw_items w' p) = li_stream (lw_items w p)" using i by (elim disjE) simp_all
  then show "item_isValid w' p = item_isValid w p" by (simp add: item_isValid_def c cong: option.case_cong)
  show "li_id (lw_items w' p) = li_id (lw_items w p)" using i by (elim disjE) simp_all
  show "li_weight (lw_items w' p) = li_weight (lw_items w p)" "li_fair (lw_items w' p) = li_fair (lw_items w p)"
    using i by (elim disjE, simp_all)+
  moreover have "ss_init now (li_stats (lw_items w' p)) = ss_init now (li_stats (lw_items w p))"
    using i by (elim disjE) simp_all
  ultimately show "weight_of env now w' p = weight_of env now w p" by (simp add: weight_of_def Let_def)
qed

lemma item_getWeight_valid:
  assumes "item_isValid w p"
  shows "\<exists>w'. item_getWeight env now p w = Inr (weight_of env now w p, w') \<and> refreshed now w w'"
proof (cases "li_fair (lw_items w p)")
  case True
  obtain s where s: "li_stream (lw_items w p) = Some s" "lw_connected w s"
    using assms by (auto simp: item_isValid_def split: option.splits)
  let ?w = "upd_item p (\<lambda>i. i\<lparr>li_stats := ss_init now (li_stats (lw_items w p))\<rparr>) w"
  have "item_getWeight env now p w = Inr (weight_of env now w p, ?w)"
    using True s by (simp add: item_getWeight_def weight_of_def Let_def upd_item_def)
  moreover have "refreshed now w ?w" by (simp add: refreshed_def upd_item_def)
  ultimately show ?thesis by blast
qed (simp add: item_getWeight_def weight_of_def refreshed_refl)

fun running :: "64 word \<Rightarrow> 64 word list \<Rightarrow> 64 word list" where
  "running t [] = []"
| "running t (x # xs) = (t + x) # running (t + x) xs"

lemma length_running [simp]: "length (running t xs) = length xs"
  by (induction xs arbitrary: t) auto

lemma weights_loop_ok:
  "\<forall>p \<in> set ps. item_isValid w p \<Longrightarrow>
   \<exists>w'. weights_loop env now t ps w = Inr (running t (map (\<lambda>p. scast (weight_of env now w p)) ps), w') \<and> refreshed now w w'"
proof (induction ps arbitrary: t w)
  case (Cons p ps)
  obtain w1 where 1: "item_getWeight env now p w = Inr (weight_of env now w p, w1)" "refreshed now w w1"
    using item_getWeight_valid Cons.prems by fastforce
  have v: "\<forall>q \<in> set ps. item_isValid w1 q" using Cons.prems refreshed_same(1)[OF 1(2)] by simp
  obtain w2 where 2: "weights_loop env now (t + scast (weight_of env now w p)) ps w1 =
      Inr (running (t + scast (weight_of env now w p)) (map (\<lambda>p. scast (weight_of env now w1 p)) ps), w2)" "refreshed now w1 w2"
    using Cons.IH[OF v] by blast
  have "(\<lambda>p. scast (weight_of env now w1 p) :: 64 word) = (\<lambda>p. scast (weight_of env now w p))"
    by (simp add: refreshed_same(2)[OF 1(2)])
  then show ?case using 1(1) 2(1) refreshed_trans[OF 1(2) 2(2)] by (simp add: Let_def)
qed (simp add: refreshed_refl)

lemma initNolock_ok:
  "\<exists>lb' w'. initNolock env now lb w = Inr (lb', w') \<and> refreshed now w w' \<and> lb_items lb' = valid_items env lb w \<and>
     lb_datas lb' = lb_datas lb \<and> lb_kind lb' = lb_kind lb \<and> lb_lastInitTime lb' = lb_lastInitTime lb \<and>
     (lb_kind lb = Weighted \<longrightarrow> lb_weights lb' = running 0 (map (\<lambda>p. scast (weight_of env now w p)) (lb_items lb')))"
proof -
  let ?lb = "lb\<lparr>lb_items := valid_items env lb w\<rparr>"
  have "\<forall>p \<in> set (lb_items ?lb). item_isValid w p" by (simp add: valid_items_def)
  then obtain w1 where "weights_loop env now 0 (lb_items ?lb) w =
      Inr (running 0 (map (\<lambda>p. scast (weight_of env now w p)) (lb_items ?lb)), w1)" "refreshed now w w1"
    using weights_loop_ok by blast
  then show ?thesis by (cases "lb_kind lb") (auto simp: initNolock_def refreshed_refl)
qed

text \<open>Weights that are positive, as natural numbers.\<close>

definition weight_nats :: "lb_env \<Rightarrow> 32 word \<Rightarrow> lb_world \<Rightarrow> nat list \<Rightarrow> nat list" where
  "weight_nats env now w ps = map (\<lambda>p. nat (sint (weight_of env now w p))) ps"

lemma scast_nat: "0 \<le> sint x \<Longrightarrow> scast x = (of_nat (nat (sint x)) :: 64 word)" for x :: "32 word"
proof -
  assume "0 \<le> sint x"
  then obtain n where n: "sint x = int n" by (rule nonneg_int_cases)
  show ?thesis unfolding scast_eq n by simp
qed

lemma sint_bound: "nat (sint x) < 2 ^ 31" for x :: "32 word"
  using sint_lt[of x] by simp

lemma sum_weights_bound:
  "length ps < 2 ^ 31 \<Longrightarrow> sum_list (weight_nats env now w ps) < 2 ^ 62"
proof -
  assume l: "length ps < 2 ^ 31"
  have "sum_list (weight_nats env now w ps) \<le> length ps * 2 ^ 31"
    unfolding weight_nats_def
  proof (induction ps)
    case (Cons p ps)
    then show ?case using sint_bound[of "weight_of env now w p"] by simp
  qed simp
  then show ?thesis using l by simp
qed

lemma upper_bound_running:
  "\<forall>k \<in> set ks. 0 < k \<Longrightarrow> t + sum_list ks < 2 ^ 64 \<Longrightarrow> t \<le> d \<Longrightarrow> d < 2 ^ 64 \<Longrightarrow>
   upper_bound (running (of_nat t) (map of_nat ks)) (of_nat d) =
     Inr (length (takeWhile (\<lambda>i. t + sum_list (take (Suc i) ks) \<le> d) [0..<length ks]))"
proof (induction ks arbitrary: t)
  case (Cons k ks)
  have u: "unat (of_nat (t + k) :: 64 word) = t + k" "unat (of_nat d :: 64 word) = d"
    using Cons.prems by (simp_all add: unat_of_nat del: of_nat_add)
  have below: "\<not> of_nat d < (of_nat t + of_nat k :: 64 word) \<longleftrightarrow> t + k \<le> d"
    using u by (simp add: word_less_nat_alt not_less)
  have shift: "takeWhile (\<lambda>i. t + sum_list (take (Suc i) (k # ks)) \<le> d) [0..<length (k # ks)] =
      (if t + k \<le> d then 0 # map Suc (takeWhile (\<lambda>i. t + k + sum_list (take (Suc i) ks) \<le> d) [0..<length ks]) else [])"
  proof -
    have "[0..<length (k # ks)] = 0 # map Suc [0..<length ks]" by (simp add: upt_conv_Cons map_Suc_upt del: upt_Suc)
    then show ?thesis by (simp add: takeWhile_map comp_def add.assoc)
  qed
  show ?case
  proof (cases "t + k \<le> d")
    case True
    have "upper_bound (running (of_nat (t + k)) (map of_nat ks)) (of_nat d) =
        Inr (length (takeWhile (\<lambda>i. t + k + sum_list (take (Suc i) ks) \<le> d) [0..<length ks]))"
      using Cons.IH[of "t + k"] Cons.prems True by simp
    then show ?thesis using True below unfolding shift
      by (auto simp: upper_bound_def Let_def split: if_splits)
  next
    case False
    have all: "list_all (\<lambda>x. of_nat d < x) (running (of_nat s) (map of_nat js))"
      if "d < s" "s + sum_list js < 2 ^ 64" for s js
      using that
    proof (induction js arbitrary: s)
      case (Cons j js)
      have "unat (of_nat (s + j) :: 64 word) = s + j" using Cons.prems by (simp add: unat_of_nat del: of_nat_add)
      then have "(of_nat d :: 64 word) < of_nat s + of_nat j" using u(2) Cons.prems by (simp add: word_less_nat_alt)
      then show ?case using Cons.IH[of "s + j"] Cons.prems by simp
    qed simp
    have "(of_nat d :: 64 word) < of_nat t + of_nat k" using below False by simp
    moreover have "list_all (\<lambda>x. of_nat d < x) (running (of_nat (t + k)) (map of_nat ks))"
      using all[of "t + k" ks] False Cons.prems by simp
    ultimately show ?thesis unfolding shift using False by (simp add: upper_bound_def)
  qed
qed (simp add: upper_bound_def)

text \<open>The first index whose prefix sum exceeds a number below the total.\<close>

lemma bucket_index:
  fixes ks :: "nat list"
  assumes "d < sum_list ks"
  defines "n \<equiv> length (takeWhile (\<lambda>i. sum_list (take (Suc i) ks) \<le> d) [0..<length ks])"
  shows "n < length ks" "n = i \<longleftrightarrow> i < length ks \<and> sum_list (take i ks) \<le> d \<and> d < sum_list (take (Suc i) ks)"
proof -
  let ?P = "\<lambda>i. sum_list (take (Suc i) ks) \<le> d"
  have mono: "sum_list (take a ks) \<le> sum_list (take b ks)" if "a \<le> b" for a b
  proof -
    have "take b ks = take a ks @ take (b - a) (drop a ks)" using that by (metis le_add_diff_inverse take_add)
    then show ?thesis by simp
  qed
  have ne: "ks \<noteq> []" using assms(1) by auto
  have below: "?P j" if "j < n" for j
  proof -
    have "takeWhile ?P [0..<length ks] ! j = j"
      using that takeWhile_nth[of j ?P "[0..<length ks]"] length_takeWhile_le[of ?P "[0..<length ks]"] by (simp add: n_def)
    then show ?thesis using that nth_mem[of j "takeWhile ?P [0..<length ks]"] set_takeWhileD[of j ?P] by (fastforce simp: n_def)
  qed
  have "n \<le> length ks" using length_takeWhile_le[of ?P "[0..<length ks]"] by (simp add: n_def)
  moreover have "n \<noteq> length ks"
  proof
    assume "n = length ks"
    moreover have "Suc (length ks - 1) = length ks" using ne by simp
    ultimately have "?P (length ks - 1)" using below[of "length ks - 1"] by simp
    then show False using \<open>Suc (length ks - 1) = length ks\<close> assms(1) by simp
  qed
  ultimately show n: "n < length ks" by simp
  have at: "\<not> ?P n" using n nth_length_takeWhile[of ?P "[0..<length ks]"] by (simp add: n_def)
  show "n = i \<longleftrightarrow> i < length ks \<and> sum_list (take i ks) \<le> d \<and> d < sum_list (take (Suc i) ks)"
  proof
    assume i: "n = i"
    have "sum_list (take i ks) \<le> d"
    proof (cases i)
      case (Suc j)
      then show ?thesis using below[of j] i by simp
    qed simp
    then show "i < length ks \<and> sum_list (take i ks) \<le> d \<and> d < sum_list (take (Suc i) ks)" using n at i by simp
  next
    assume i: "i < length ks \<and> sum_list (take i ks) \<le> d \<and> d < sum_list (take (Suc i) ks)"
    have "\<not> n < i"
    proof
      assume "n < i"
      then have "sum_list (take (Suc n) ks) \<le> d" using mono[of "Suc n" i] i by simp
      then show False using at by simp
    qed
    moreover have "\<not> i < n" using below[of i] i by auto
    ultimately show "n = i" by simp
  qed
qed

lemma last_running: "xs \<noteq> [] \<Longrightarrow> last (running t xs) = t + sum_list xs"
proof (induction xs arbitrary: t)
  case (Cons x xs)
  have "running (t + x) xs = [] \<longleftrightarrow> xs = []" by (cases xs) auto
  then show ?case using Cons.IH by (cases "xs = []") (simp_all add: add.assoc)
qed simp

lemma getIdx_running:
  fixes rand v :: "64 word"
  assumes "ks \<noteq> []" "\<forall>k \<in> set ks. 0 < k" "sum_list ks < 2 ^ 62" "lb_weights lb = running 0 (map of_nat ks)"
  defines "d \<equiv> unat (if v = - 1 then rand else v) mod sum_list ks"
  shows "\<exists>i. getIdx rand v lb = Inr (Some i)"
    "getIdx rand v lb = Inr (Some i) \<longleftrightarrow> i < length ks \<and> sum_list (take i ks) \<le> d \<and> d < sum_list (take (Suc i) ks)"
proof -
  have pos: "0 < sum_list ks" using assms(1,2) by (cases ks) auto
  then have d: "d < sum_list ks" by (simp add: d_def)
  have s: "sum_list (map of_nat ks) = (of_nat (sum_list ks) :: 64 word)" by (induction ks) simp_all
  have u: "unat (of_nat (sum_list ks) :: 64 word) = sum_list ks" using assms(3) by (simp add: unat_of_nat)
  have w: "lb_weights lb \<noteq> []" using assms(1,4) by (metis length_0_conv length_map length_running)
  have l: "last (lb_weights lb) = of_nat (sum_list ks)"
    unfolding assms(4) using assms(1) by (subst last_running) (simp_all add: s)
  have z: "(of_nat (sum_list ks) :: 64 word) \<noteq> 0" using u pos by (metis less_irrefl unat_0)
  have m: "(if v = - 1 then rand else v) mod of_nat (sum_list ks) = of_nat d"
  proof -
    have "unat (of_nat d :: 64 word) = d" using d assms(3) by (simp add: unat_of_nat)
    then show ?thesis by (intro word_unat_eq_iff[THEN iffD2]) (simp only: unat_mod u d_def)
  qed
  have b: "upper_bound (lb_weights lb) (of_nat d) =
      Inr (length (takeWhile (\<lambda>i. sum_list (take (Suc i) ks) \<le> d) [0..<length ks]))"
    using upper_bound_running[OF assms(2), of 0 d] assms(3,4) d by simp
  let ?n = "length (takeWhile (\<lambda>i. sum_list (take (Suc i) ks) \<le> d) [0..<length ks])"
  have "length (lb_weights lb) = length ks" by (simp add: assms(4))
  then have g: "getIdx rand v lb = Inr (Some ?n)"
    using w z bucket_index(1)[OF d] by (simp add: getIdx_def Let_def l m b)
  show "\<exists>i. getIdx rand v lb = Inr (Some i)" using g by blast
  show "getIdx rand v lb = Inr (Some i) \<longleftrightarrow> i < length ks \<and> sum_list (take i ks) \<le> d \<and> d < sum_list (take (Suc i) ks)"
    unfolding g using bucket_index(2)[OF d] by simp
qed

text \<open>Weights that add up to zero: the number is taken modulo zero.\<close>

lemma zero_weights:
  assumes "lb_weights lb \<noteq> []" "last (lb_weights lb) = 0"
  shows "getIdx rand v lb = Inl Div_by_zero"
  using assms by (simp add: getIdx_def Let_def)

section \<open>Handing out items\<close>

definition order_ok :: "lb_env \<Rightarrow> bool" where
  "order_ok env \<longleftrightarrow> (\<forall>A. distinct (le_order env A) \<and> set (le_order env A) = A)"

lemma set_valid_items: "order_ok env \<Longrightarrow> set (valid_items env lb w) = {p \<in> ran (lb_datas lb). item_isValid w p}"
  by (fastforce simp: valid_items_def order_ok_def ran_def dom_def image_iff)

lemma next_valid_spec:
  assumes "items \<noteq> []"
  shows "case next_valid w items r of Some p \<Rightarrow> p \<in> set items \<and> item_isValid w p | None \<Rightarrow> \<forall>p \<in> set items. \<not> item_isValid w p"
proof -
  let ?n = "length items"
  have s: "set (map (\<lambda>i. items ! ((r + i) mod ?n)) [0..<?n]) = set items"
  proof
    show "set (map (\<lambda>i. items ! ((r + i) mod ?n)) [0..<?n]) \<subseteq> set items" using assms by auto
    show "set items \<subseteq> set (map (\<lambda>i. items ! ((r + i) mod ?n)) [0..<?n])"
    proof
      fix p assume "p \<in> set items"
      then obtain j where j: "j < ?n" "items ! j = p" by (auto simp: in_set_conv_nth)
      define i where "i = (j + ?n - r mod ?n) mod ?n"
      have "(r + i) mod ?n = j"
      proof -
        have "(r + i) mod ?n = (r mod ?n + (j + ?n - r mod ?n)) mod ?n" unfolding i_def by (simp add: mod_simps)
        also have "r mod ?n + (j + ?n - r mod ?n) = j + ?n" using assms by (simp add: le_add_diff_inverse order_less_imp_le trans_le_add2)
        finally show ?thesis using j(1) by simp
      qed
      moreover have "i < ?n" using assms by (simp add: i_def)
      ultimately show "p \<in> set (map (\<lambda>i. items ! ((r + i) mod ?n)) [0..<?n])" using j(2) by force
    qed
  qed
  show ?thesis
  proof (cases "next_valid w items r")
    case None
    then have "\<not> (\<exists>p. p \<in> set (map (\<lambda>i. items ! ((r + i) mod ?n)) [0..<?n]) \<and> item_isValid w p)"
      unfolding next_valid_def find_None_iff .
    then show ?thesis unfolding s using None by auto
  next
    case (Some p)
    then have "p \<in> set (map (\<lambda>i. items ! ((r + i) mod ?n)) [0..<?n]) \<and> item_isValid w p"
      unfolding next_valid_def find_Some_iff by (metis nth_mem)
    then show ?thesis unfolding s using Some by simp
  qed
qed

text \<open>
  Runs of a balancer: its operations, and what happens around it, which may change every item, their number and the streams
  that are connected.
\<close>

inductive lb_step :: "lb_env \<Rightarrow> load_balance \<times> lb_world \<Rightarrow> load_balance \<times> lb_world \<Rightarrow> bool" for env where
  add: "lb_add env now v lb w = Inr (lb', w') \<Longrightarrow> lb_step env (lb, w) (lb', w')"
| del: "lb_del env now v lb w = Inr (lb', w') \<Longrightarrow> lb_step env (lb, w) (lb', w')"
| update: "lb_update env now adds dels lb w = Inr (dels', lb', w') \<Longrightarrow> lb_step env (lb, w) (lb', w')"
| set: "lb_set env now vs lb w = Inr (lb', w') \<Longrightarrow> lb_step env (lb, w) (lb', w')"
| init: "lb_init env now lb w = Inr (lb', w') \<Longrightarrow> lb_step env (lb, w) (lb', w')"
| get: "lb_get env now ts rand v lb w = Inr (r, lb', w') \<Longrightarrow> lb_step env (lb, w) (lb', w')"
| world: "lb_step env (lb, w) (lb, w')"

definition lb_ok :: "load_balance \<Rightarrow> bool" where
  "lb_ok lb \<longleftrightarrow> set (lb_items lb) \<subseteq> ran (lb_datas lb) \<and> (lb_kind lb = Weighted \<longrightarrow> length (lb_weights lb) = length (lb_items lb))"

lemma initNolock_lb_ok:
  assumes "order_ok env" "initNolock env now lb w = Inr (lb', w')"
  shows "lb_ok lb'" "lb_datas lb' = lb_datas lb" "refreshed now w w'" "lb_items lb' = valid_items env lb w" "lb_kind lb' = lb_kind lb"
proof -
  have i: "refreshed now w w'" "lb_items lb' = valid_items env lb w" "lb_datas lb' = lb_datas lb" "lb_kind lb' = lb_kind lb"
    "lb_kind lb = Weighted \<longrightarrow> lb_weights lb' = running 0 (map (\<lambda>p. scast (weight_of env now w p)) (lb_items lb'))"
    using initNolock_ok[of env now lb w] assms(2) by auto
  show "lb_datas lb' = lb_datas lb" "refreshed now w w'" "lb_items lb' = valid_items env lb w" "lb_kind lb' = lb_kind lb"
    by (fact i)+
  show "lb_ok lb'" using i set_valid_items[OF assms(1), of lb w] unfolding lb_ok_def by auto
qed

lemma checkInit_ok:
  assumes "order_ok env" "checkInit env now ts lb w = Inr (lb', w')" "lb_ok lb"
  shows "lb_ok lb'" "lb_datas lb' = lb_datas lb" "refreshed now w w'" "lb_kind lb' = lb_kind lb"
    "ts - lb_lastInitTime lb > 500 \<Longrightarrow> lb_items lb' = valid_items env lb w"
    "\<not> ts - lb_lastInitTime lb > 500 \<Longrightarrow> lb_items lb' = lb_items lb"
proof -
  have "lb_ok lb' \<and> lb_datas lb' = lb_datas lb \<and> refreshed now w w' \<and> lb_kind lb' = lb_kind lb \<and>
    (ts - lb_lastInitTime lb > 500 \<longrightarrow> lb_items lb' = valid_items env lb w) \<and>
    (\<not> ts - lb_lastInitTime lb > 500 \<longrightarrow> lb_items lb' = lb_items lb)"
  proof (cases "ts - lb_lastInitTime lb > 500")
    case True
    then obtain lb1 where 1: "initNolock env now lb w = Inr (lb1, w')" "lb' = lb1\<lparr>lb_lastInitTime := ts\<rparr>"
      using assms(2) by (auto simp: checkInit_def lb_init_def rbind_eq_Inr_iff)
    show ?thesis using initNolock_lb_ok[OF assms(1) 1(1)] True by (simp add: 1(2) lb_ok_def)
  qed (use assms(2,3) refreshed_refl in \<open>auto simp: checkInit_def\<close>)
  then show "lb_ok lb'" "lb_datas lb' = lb_datas lb" "refreshed now w w'" "lb_kind lb' = lb_kind lb"
    "ts - lb_lastInitTime lb > 500 \<Longrightarrow> lb_items lb' = valid_items env lb w"
    "\<not> ts - lb_lastInitTime lb > 500 \<Longrightarrow> lb_items lb' = lb_items lb" by blast+
qed

lemma lb_get_checkInit:
  assumes "lb_get env now ts rand v lb w = Inr (r, lb', w')"
  shows "checkInit env now ts lb w = Inr (lb', w')"
proof -
  obtain a b where ab: "checkInit env now ts lb w = Inr (a, b)"
    using assms by (auto simp: lb_get_def rbind_eq_Inr_iff)
  then show ?thesis using assms by (cases "lb_kind a") (auto simp: lb_get_def rbind_eq_Inr_iff)
qed

lemma lb_step_ok:
  assumes "lb_step env s s'" "order_ok env" "lb_ok (fst s)"
  shows "lb_ok (fst s')"
  using assms(1)
proof cases
  case (update now adds dels lb w dels' lb' w')
  then show ?thesis using initNolock_lb_ok(1)[OF assms(2)] by (auto simp: lb_update_def Let_def rbind_eq_Inr_iff)
next
  case (get now ts rand v lb w r lb' w')
  then have "checkInit env now ts lb w = Inr (lb', w')" using lb_get_checkInit by blast
  then show ?thesis using checkInit_ok(1)[OF assms(2)] assms(3) get(1,2) by simp
qed (use initNolock_lb_ok(1)[OF assms(2)] assms(3) in \<open>auto simp: lb_add_def lb_del_def lb_set_def lb_init_def\<close>)

lemma lb_reach_ok: "(lb_step env)\<^sup>*\<^sup>* s s' \<Longrightarrow> order_ok env \<Longrightarrow> lb_ok (fst s) \<Longrightarrow> lb_ok (fst s')"
  by (induction rule: rtranclp_induct) (use lb_step_ok in blast)+

lemma mk_LoadBalance_ok: "lb_ok (mk_LoadBalance k)"
  by (simp add: lb_ok_def mk_LoadBalance_def)

lemma lb_get_serves:
  assumes "order_ok env" "lb_ok lb" "lb_get env now ts rand v lb w = Inr (r, lb', w')"
  shows "case r of Some p \<Rightarrow> p \<in> ran (lb_datas lb) \<and> item_isValid w p | None \<Rightarrow> \<forall>p \<in> set (lb_items lb'). \<not> item_isValid w p"
    "ts - lb_lastInitTime lb > 500 \<Longrightarrow> r = None \<longleftrightarrow> \<not> (\<exists>p \<in> ran (lb_datas lb). item_isValid w p)"
proof -
  note c = lb_get_checkInit[OF assms(3)]
  note k = checkInit_ok[OF assms(1) c assms(2)]
  have v: "item_isValid w' = item_isValid w" using refreshed_same(1)[OF k(3)] by blast
  have sub: "set (lb_items lb') \<subseteq> ran (lb_datas lb)" using k(1,2) by (simp add: lb_ok_def)
  have nv: "\<And>q. lb_items lb' \<noteq> [] \<Longrightarrow>
      case next_valid w' (lb_items lb') q of Some p \<Rightarrow> p \<in> set (lb_items lb') \<and> item_isValid w p
      | None \<Rightarrow> \<forall>p \<in> set (lb_items lb'). \<not> item_isValid w p"
    using next_valid_spec[of "lb_items lb'" w'] unfolding v by blast
  have main: "case r of Some p \<Rightarrow> p \<in> set (lb_items lb') \<and> item_isValid w p | None \<Rightarrow> \<forall>p \<in> set (lb_items lb'). \<not> item_isValid w p"
  proof (cases "lb_items lb' = []")
    case True
    have "r = None"
    proof (cases "lb_kind lb'")
      case RoundRobin
      then show ?thesis using assms(3) c True by (simp add: lb_get_def rr_get_def)
    next
      case Weighted
      then have "lb_weights lb' = []" using k(1) True by (simp add: lb_ok_def)
      then show ?thesis using assms(3) c Weighted by (simp add: lb_get_def getIdx_def)
    qed
    then show ?thesis using True by simp
  next
    case False
    show ?thesis
    proof (cases "lb_kind lb'")
      case RoundRobin
      then show ?thesis using assms(3) c False nv by (auto simp: lb_get_def rr_get_def Let_def)
    next
      case Weighted
      then have "lb_weights lb' \<noteq> []" using k(1) False by (auto simp: lb_ok_def)
      then obtain i where "getIdx rand v lb' = Inr (Some i)"
        using assms(3) c Weighted by (auto simp: lb_get_def getIdx_def Let_def rbind_eq_Inr_iff split: if_splits)
      then show ?thesis using assms(3) c False nv Weighted by (auto simp: lb_get_def)
    qed
  qed
  then show "case r of Some p \<Rightarrow> p \<in> ran (lb_datas lb) \<and> item_isValid w p | None \<Rightarrow> \<forall>p \<in> set (lb_items lb'). \<not> item_isValid w p"
    using sub by (cases r) auto
  assume "ts - lb_lastInitTime lb > 500"
  then have "set (lb_items lb') = {p \<in> ran (lb_datas lb). item_isValid w p}"
    using k(5) set_valid_items[OF assms(1)] by simp
  then show "r = None \<longleftrightarrow> \<not> (\<exists>p \<in> ran (lb_datas lb). item_isValid w p)" using main by (cases r) auto
qed

section \<open>Changes of the services\<close>

lemma add_items_ok:
  "add_items cb type is infos w = (infos', w') \<Longrightarrow> distinct (map fst is) \<Longrightarrow>
   lw_connected w' = lw_connected w \<and> lw_closing w' = lw_closing w \<and> lw_next w \<le> lw_next w' \<and>
   (\<forall>q < lw_next w. lw_items w' q = lw_items w q) \<and>
   (\<forall>n. case Option.bind (map_of is n) cb of
      None \<Rightarrow> infos' n = infos n
    | Some stream \<Rightarrow> \<exists>p \<ge> lw_next w. infos' n = Some p \<and>
        lw_items w' p = (createLoadBalanceItem type)\<lparr>li_id := n, li_stream := Some stream, li_weight := 10000\<rparr>)"
proof (induction cb type "is" infos w rule: add_items.induct)
  case (2 cb type n info "is" infos w)
  have d: "map_of is n = None" "distinct (map fst is)" using "2.prems"(2) by (auto simp: map_of_eq_None_iff)
  show ?case
  proof (cases "cb info")
    case None
    then have "add_items cb type is infos w = (infos', w')" using "2.prems"(1) by simp
    note IH = "2.IH"(1)[OF None this d(2)]
    moreover have "infos' n = infos n" using IH d(1) by (auto dest!: spec[of _ n])
    ultimately show ?thesis using None d(1) by (auto split: option.splits)
  next
    case (Some stream)
    let ?item = "(createLoadBalanceItem type)\<lparr>li_id := n, li_stream := Some stream, li_weight := 10000\<rparr>"
    let ?w = "w\<lparr>lw_items := (lw_items w)(lw_next w := ?item), lw_next := Suc (lw_next w)\<rparr>"
    have e: "add_items cb type is (infos(n \<mapsto> lw_next w)) ?w = (infos', w')" using "2.prems"(1) Some by (simp add: Let_def)
    note IH = "2.IH"(2)[OF Some refl refl e d(2)]
    have frame: "lw_connected w' = lw_connected w" "lw_closing w' = lw_closing w" "lw_next w \<le> lw_next w'"
      "\<forall>q < Suc (lw_next w). lw_items w' q = (if q = lw_next w then ?item else lw_items w q)"
      using IH by auto
    have "case Option.bind (map_of ((n, info) # is) m) cb of None \<Rightarrow> infos' m = infos m
      | Some s \<Rightarrow> \<exists>p \<ge> lw_next w. infos' m = Some p \<and>
          lw_items w' p = (createLoadBalanceItem type)\<lparr>li_id := m, li_stream := Some s, li_weight := 10000\<rparr>" for m
    proof (cases "m = n")
      case True
      have "infos' n = Some (lw_next w)" using IH d(1) by (auto dest!: spec[of _ n])
      then show ?thesis using True Some frame(4) by simp
    next
      case False
      have "case Option.bind (map_of is m) cb of None \<Rightarrow> infos' m = (infos(n \<mapsto> lw_next w)) m
        | Some s \<Rightarrow> \<exists>p \<ge> Suc (lw_next w). infos' m = Some p \<and>
          lw_items w' p = (createLoadBalanceItem type)\<lparr>li_id := m, li_stream := Some s, li_weight := 10000\<rparr>"
        using IH[THEN conjunct2, THEN conjunct2, THEN conjunct2, THEN conjunct2, THEN spec, of m] by (simp cong: option.case_cong)
      then show ?thesis using False by (auto split: option.splits intro: Suc_leD)
    qed
    then show ?thesis using frame by auto
  qed
qed simp

lemma close_loop:
  "lw_items (fold (\<lambda>n. case dels n of Some (Some p) \<Rightarrow> item_close p | _ \<Rightarrow> (\<lambda>w. w)) ns w) = lw_items w \<and>
   lw_closing (fold (\<lambda>n. case dels n of Some (Some p) \<Rightarrow> item_close p | _ \<Rightarrow> (\<lambda>w. w)) ns w) =
     lw_closing w @ List.map_filter (\<lambda>n. Option.bind (Option.bind (dels n) (\<lambda>p. p)) (\<lambda>p. li_stream (lw_items w p))) ns"
proof (induction ns arbitrary: w)
  case (Cons n ns)
  define w1 where "w1 = (case dels n of Some (Some p) \<Rightarrow> item_close p | _ \<Rightarrow> (\<lambda>w. w)) w"
  have "lw_items w1 = lw_items w" "lw_closing w1 = lw_closing w @
      (case Option.bind (Option.bind (dels n) (\<lambda>p. p)) (\<lambda>p. li_stream (lw_items w p)) of Some s \<Rightarrow> [s] | None \<Rightarrow> [])"
    by (auto simp: w1_def item_close_def split: option.splits)
  then show ?case using Cons.IH[of w1] by (simp add: w1_def[symmetric] map_filter_simps split: option.splits)
qed (simp add: map_filter_simps)

text \<open>The map of a service before the change.\<close>

definition datas_of :: "string \<Rightarrow> string \<Rightarrow> sd_load_balance \<Rightarrow> 64 word \<rightharpoonup> nat" where
  "datas_of domain service sd = (case sd_datas sd domain service of Some a \<Rightarrow> lb_datas (sd_lbs sd a) | None \<Rightarrow> Map.empty)"

lemma sd_get_create:
  "\<exists>a sd1. sd_get domain service True sd = (Some a, sd1) \<and> sd_datas sd1 domain service = Some a \<and>
     lb_datas (sd_lbs sd1 a) = datas_of domain service sd"
  by (auto simp: sd_get_def Let_def datas_of_def createLoadBalance_def mk_LoadBalance_def split: option.splits lb_type.splits)

section \<open>Properties\<close>

text \<open>
  the ring of statistics holds the last seconds: as long as the clock does not go back, \<open>get\<close> hands out the slot
  of the present second, and each slot holds what was recorded in its second if that is not behind the last update, and nothing
  otherwise.
\<close>

theorem stats_window:
  assumes "ss_stats s \<noteq> []" "ss_lastUpdateTime s \<le> now" "unat now + 1 < 2 ^ 32"
  shows "\<exists>s'. ss_get now s = Inr (unat now mod length (ss_stats s), s') \<and> ss_lastUpdateTime s' = now \<and>
    length (ss_stats s') = length (ss_stats s) \<and>
    (\<forall>m. unat now < m + length (ss_stats s) \<and> m \<le> unat now \<longrightarrow>
       ss_stats s' ! (m mod length (ss_stats s)) =
         (if m \<le> unat (ss_lastUpdateTime s) then ss_stats s ! (m mod length (ss_stats s)) else no_stats))"
proof -
  let ?n = "length (ss_stats s)" and ?l = "unat (ss_lastUpdateTime s)"
  define s' where "s' = ss_init now s"
  have ln: "length (ss_stats s') = ?n" by (simp add: s'_def)
  have g: "ss_get now s = Inr (unat now mod ?n, s')"
    using assms(1) ln by (auto simp: ss_get_def Let_def s'_def[symmetric])
  have last: "ss_lastUpdateTime s' = now" using assms(2) by (auto simp: s'_def ss_init_def)
  have "ss_stats s' ! (m mod ?n) = (if m \<le> ?l then ss_stats s ! (m mod ?n) else no_stats)"
    if m: "unat now < m + ?n" "m \<le> unat now" for m
  proof (cases "ss_lastUpdateTime s < now")
    case True
    have t: "unat (ss_lastUpdateTime s + 1) = ?l + 1"
      using True assms(3) by (auto simp: word_less_nat_alt unat_word_ariths)
    have "ss_stats s' ! (m mod ?n) = (if \<exists>k. ?l + 1 \<le> k \<and> k \<le> unat now \<and> k - (?l + 1) < ?n \<and> k mod ?n = m mod ?n
        then no_stats else ss_stats s ! (m mod ?n))"
      using True assms(1,3) ss_init_loop_nth[OF assms(3), of 0 "ss_stats s" "m mod ?n" "ss_lastUpdateTime s + 1"]
      by (simp add: s'_def ss_init_def t)
    moreover have "(\<exists>k. ?l + 1 \<le> k \<and> k \<le> unat now \<and> k - (?l + 1) < ?n \<and> k mod ?n = m mod ?n) \<longleftrightarrow> \<not> m \<le> ?l"
    proof
      assume "\<exists>k. ?l + 1 \<le> k \<and> k \<le> unat now \<and> k - (?l + 1) < ?n \<and> k mod ?n = m mod ?n"
      then obtain k where k: "?l + 1 \<le> k" "k \<le> unat now" "k mod ?n = m mod ?n" by blast
      show "\<not> m \<le> ?l"
      proof
        assume "m \<le> ?l"
        then have "m = k" using same_slot[of m ?n k] k m by simp
        then show False using k(1) \<open>m \<le> ?l\<close> by simp
      qed
    next
      assume a: "\<not> m \<le> ?l"
      then have "?l + 1 \<le> m" by simp
      then obtain c where c: "m = ?l + 1 + c" using le_Suc_ex by blast
      define k where "k = ?l + 1 + c mod ?n"
      have "k \<le> m" using mod_less_eq_dividend[of c ?n] by (simp only: k_def c add_le_cancel_left)
      moreover have "k mod ?n = m mod ?n" unfolding k_def c by (rule mod_add_right_eq)
      moreover have "k - (?l + 1) < ?n" using assms(1) by (simp add: k_def)
      ultimately show "\<exists>k. ?l + 1 \<le> k \<and> k \<le> unat now \<and> k - (?l + 1) < ?n \<and> k mod ?n = m mod ?n"
        using m(2) by (intro exI[of _ k]) (simp add: k_def)
    qed
    ultimately show ?thesis by simp
  next
    case False
    then have "now = ss_lastUpdateTime s" using assms(2) by simp
    then show ?thesis using m False by (simp add: s'_def ss_init_def)
  qed
  then show ?thesis using g last ln by blast
qed

lemma stats_window_witness:
  "\<exists>s'. ss_get 12 \<lparr>ss_lastUpdateTime = 10, ss_stats = replicate 5 (no_stats\<lparr>hs_oks := 7\<rparr>)\<rparr> = Inr (2, s') \<and>
    ss_stats s' ! 2 = no_stats \<and> ss_stats s' ! 0 = no_stats\<lparr>hs_oks := 7\<rparr>"
proof -
  let ?s = "\<lparr>ss_lastUpdateTime = 10, ss_stats = replicate 5 (no_stats\<lparr>hs_oks := 7\<rparr>)\<rparr>"
  obtain s' where s': "ss_get 12 ?s = Inr (unat (12 :: 32 word) mod length (ss_stats ?s), s')"
    "\<forall>m. unat (12 :: 32 word) < m + length (ss_stats ?s) \<and> m \<le> unat (12 :: 32 word) \<longrightarrow>
       ss_stats s' ! (m mod length (ss_stats ?s)) =
         (if m \<le> unat (ss_lastUpdateTime ?s) then ss_stats ?s ! (m mod length (ss_stats ?s)) else no_stats)"
    using stats_window[of ?s 12] by auto
  have "ss_stats s' ! (12 mod 5) = no_stats" "ss_stats s' ! (10 mod 5) = no_stats\<lparr>hs_oks := 7\<rparr>"
    using s'(2)[rule_format, of 12] s'(2)[rule_format, of 10] by simp_all
  then show ?thesis using s'(1) by simp
qed

text \<open>
  C13: the weighted balancer gives each item exactly its weight: of the numbers below the sum of the weights, the item at an
  index gets an interval as long as its weight, whatever the weights are, as long as they are positive; every other
  number counts modulo the sum.
\<close>

theorem weighted_share:
  assumes "initNolock env now lb w = Inr (lb', w')" "lb_kind lb = Weighted" "lb_items lb' \<noteq> []"
    "\<forall>p \<in> set (lb_items lb'). 0 < sint (weight_of env now w p)" "length (lb_items lb') < 2 ^ 31"
  shows "(\<exists>i. getIdx rand v lb' = Inr (Some i)) \<and>
    (getIdx rand v lb' = Inr (Some i) \<longleftrightarrow> i < length (lb_items lb') \<and>
       (let ks = weight_nats env now w (lb_items lb'); d = unat (if v = - 1 then rand else v) mod sum_list ks
        in sum_list (take i ks) \<le> d \<and> d < sum_list (take i ks) + ks ! i))"
proof -
  let ?ks = "weight_nats env now w (lb_items lb')"
  have w: "lb_weights lb' = running 0 (map (\<lambda>p. scast (weight_of env now w p)) (lb_items lb'))"
    using initNolock_ok[of env now lb w] assms(1,2) by auto
  have "map (\<lambda>p. scast (weight_of env now w p)) (lb_items lb') = (map of_nat ?ks :: 64 word list)"
  proof -
    have e: "scast (weight_of env now w p) = (of_nat (nat (sint (weight_of env now w p))) :: 64 word)" if "p \<in> set (lb_items lb')" for p
      using scast_nat[of "weight_of env now w p"] assms(4) that by force
    show ?thesis unfolding weight_nats_def map_map comp_def by (rule map_cong[OF refl e])
  qed
  then have r: "lb_weights lb' = running 0 (map of_nat ?ks)" using w by simp
  have k: "?ks \<noteq> []" "\<forall>k \<in> set ?ks. 0 < k" "length ?ks = length (lb_items lb')"
  proof -
    show "?ks \<noteq> []" "length ?ks = length (lb_items lb')" by (simp_all add: weight_nats_def assms(3))
    have "0 < nat (sint (weight_of env now w p))" if "p \<in> set (lb_items lb')" for p using assms(4) that by (simp only: zero_less_nat_eq)
    then show "\<forall>k \<in> set ?ks. 0 < k" unfolding weight_nats_def set_map by blast
  qed
  note b = sum_weights_bound[OF assms(5), of env now w]
  have s: "i < length ?ks \<Longrightarrow> sum_list (take (Suc i) ?ks) = sum_list (take i ?ks) + ?ks ! i"
    by (simp add: take_Suc_conv_app_nth)
  have "getIdx rand v lb' = Inr (Some i) \<longleftrightarrow> i < length ?ks \<and>
      sum_list (take i ?ks) \<le> unat (if v = - 1 then rand else v) mod sum_list ?ks \<and>
      unat (if v = - 1 then rand else v) mod sum_list ?ks < sum_list (take i ?ks) + ?ks ! i"
    unfolding getIdx_running(2)[OF k(1,2) b r, where rand = rand and v = v and i = i] by (rule conj_cong[OF refl], simp only: s)
  then show ?thesis unfolding Let_def k(3) using getIdx_running(1)[OF k(1,2) b r, where rand = rand and v = v] by blast
qed

text \<open>An environment and a world for the examples: two connected items of weights 1 and 3.\<close>

definition plain_env :: lb_env where
  "plain_env = \<lparr>le_order = sorted_list_of_set, le_fair = (\<lambda>weight stats now. weight)\<rparr>"

definition two_items :: lb_world where
  "two_items = \<lparr>lw_items = (\<lambda>p. (mk_LoadBalanceItem False)\<lparr>li_id := of_nat p, li_stream := Some p, li_weight := (if p = 0 then 1 else 3)\<rparr>),
     lw_next = 2, lw_connected = (\<lambda>s. True), lw_closing = []\<rparr>"

definition two_datas :: load_balance where
  "two_datas = (mk_LoadBalance Weighted)\<lparr>lb_datas := [7 \<mapsto> 0, 8 \<mapsto> 1]\<rparr>"

lemma plain_env_ok: "order_ok plain_env"
  by (simp add: order_ok_def plain_env_def)

lemma two_items_valid: "valid_items plain_env two_datas two_items = [0, 1]"
  by (simp add: valid_items_def plain_env_def two_datas_def two_items_def item_isValid_def mk_LoadBalance_def insort_insert_key_def)

lemma weighted_share_witness:
  "\<exists>lb' w'. initNolock plain_env 5 two_datas two_items = Inr (lb', w') \<and> lb_items lb' = [0, 1] \<and>
     getIdx 6 (- 1) lb' = Inr (Some 1) \<and> getIdx 6 4 lb' = Inr (Some 0)"
proof -
  obtain lb' w' where i: "initNolock plain_env 5 two_datas two_items = Inr (lb', w')" "lb_items lb' = [0, 1]"
    using initNolock_ok[of plain_env 5 two_datas two_items] two_items_valid by auto
  have w: "weight_of plain_env 5 two_items p = (if p = 0 then 1 else 3)" for p
    by (simp add: weight_of_def two_items_def mk_LoadBalanceItem_def)
  have k: "lb_kind two_datas = Weighted" by (simp add: two_datas_def mk_LoadBalance_def)
  have p: "lb_items lb' \<noteq> []" "\<forall>p \<in> set (lb_items lb'). 0 < sint (weight_of plain_env 5 two_items p)" "length (lb_items lb') < 2 ^ 31"
    using i(2) by (auto simp: w)
  have n: "weight_nats plain_env 5 two_items (lb_items lb') = [1, 3]" by (simp add: weight_nats_def i(2) w)
  note share = weighted_share[OF i(1) k p, unfolded n]
  have "getIdx 6 (- 1) lb' = Inr (Some 1)" using share[of 6 "- 1" 1] by (simp add: i(2) Let_def)
  moreover have "getIdx 6 4 lb' = Inr (Some 0)" using share[of 6 4 0] by (simp add: i(2) Let_def)
  ultimately show ?thesis using i by blast
qed

text \<open>
  in every run of a balancer, whatever happens to its items and streams meanwhile, an item that \<open>get\<close> hands out is
  in its map and is connected, and when the last refresh is more than 500 ms old, \<open>get\<close> finds an item if there is one at
  all that is connected.
\<close>

theorem balancer_serves_valid:
  assumes "order_ok env" "(lb_step env)\<^sup>*\<^sup>* (mk_LoadBalance k, w0) (lb, w)" "lb_get env now ts rand v lb w = Inr (r, lb', w')"
  shows "(\<forall>p. r = Some p \<longrightarrow> (\<exists>n. lb_getById n lb = Some p) \<and> item_isValid w p) \<and>
    (ts - lb_lastInitTime lb > 500 \<longrightarrow> (r = None \<longleftrightarrow> \<not> (\<exists>n p. lb_getById n lb = Some p \<and> item_isValid w p)))"
proof -
  have ok: "lb_ok lb" using lb_reach_ok[OF assms(2,1)] mk_LoadBalance_ok by simp
  have "(\<exists>p \<in> ran (lb_datas lb). item_isValid w p) \<longleftrightarrow> (\<exists>n p. lb_getById n lb = Some p \<and> item_isValid w p)"
    by (auto simp: ran_def lb_getById_def)
  then show ?thesis using lb_get_serves[OF assms(1) ok assms(3)] by (auto simp: ran_def lb_getById_def)
qed

lemma balancer_serves_valid_witness:
  "\<exists>lb w n. lb_set plain_env 5 [0, 1] (mk_LoadBalance RoundRobin) two_items = Inr (lb, w) \<and>
     (case lb_get plain_env 6 1000 3 (- 1) lb w of Inr (Some p, _) \<Rightarrow> lb_getById n lb = Some p \<and> item_isValid w p | _ \<Rightarrow> False)"
proof -
  obtain lb w where s: "lb_set plain_env 5 [0, 1] (mk_LoadBalance RoundRobin) two_items = Inr (lb, w)"
    "lb_datas lb = [0 \<mapsto> 0, 1 \<mapsto> 1]" "lb_kind lb = RoundRobin" "refreshed 5 two_items w" "lb_lastInitTime lb = 0"
    using initNolock_ok[of plain_env 5 "(mk_LoadBalance RoundRobin)\<lparr>lb_datas := [0 \<mapsto> 0, 1 \<mapsto> 1]\<rparr>" two_items]
    by (auto simp: lb_set_def two_items_def mk_LoadBalance_def)
  have run: "(lb_step plain_env)\<^sup>*\<^sup>* (mk_LoadBalance RoundRobin, two_items) (lb, w)"
    using lb_step.set[OF s(1)] by (rule r_into_rtranclp)
  obtain lb2 w2 where i: "lb_init plain_env 6 lb w = Inr (lb2, w2)" "lb_kind lb2 = lb_kind lb"
    using initNolock_ok[of plain_env 6 lb w] unfolding lb_init_def by blast
  obtain r lb3 where g: "lb_get plain_env 6 1000 3 (- 1) lb w = Inr (r, lb3, w2)"
    using i s(3,5) by (auto simp: lb_get_def checkInit_def)
  have v: "item_isValid w 0" using refreshed_same(1)[OF s(4), of 0] by (simp add: item_isValid_def two_items_def)
  note b = balancer_serves_valid[OF plain_env_ok run g]
  have "lb_getById 0 lb = Some 0" using s(2) by (simp add: lb_getById_def)
  then have "r \<noteq> None" using b v s(5) by auto
  then obtain p where p: "r = Some p" by auto
  then obtain n where "lb_getById n lb = Some p" "item_isValid w p" using b by blast
  then show ?thesis using s(1) g p by auto
qed

text \<open>
  a change of the services of a name is carried over exactly: the balancer, made if it is missing, loses the services that
  are gone and gets an item for each new one that could be connected; all others stay, also those whose description has
  changed; and the streams of the lost items, and no others, are handed to a worker to be closed.
\<close>

theorem service_change_exact:
  assumes "order_ok env" "\<forall>p \<in> ran (datas_of domain service sd). p < lw_next w"
  shows "\<exists>sd' w' a. onServiceChange env cb now domain service old_value new_value sd w = Inr (sd', w') \<and>
    sd_datas sd' domain service = Some a \<and>
    (\<forall>n. n \<in> dom old_value - dom new_value \<longrightarrow> lb_datas (sd_lbs sd' a) n = None) \<and>
    (\<forall>n. n \<notin> dom old_value - dom new_value \<and> (n \<in> dom new_value - dom old_value \<longrightarrow> cb (the (new_value n)) = None) \<longrightarrow>
       lb_datas (sd_lbs sd' a) n = datas_of domain service sd n) \<and>
    (\<forall>n stream. n \<in> dom new_value - dom old_value \<and> cb (the (new_value n)) = Some stream \<longrightarrow>
       (\<exists>p. lb_datas (sd_lbs sd' a) n = Some p \<and> li_stream (lw_items w' p) = Some stream \<and> li_id (lw_items w' p) = n \<and>
          li_weight (lw_items w' p) = 10000 \<and> li_fair (lw_items w' p) = (sd_getType domain service sd = FAIR))) \<and>
    lw_closing w' = lw_closing w @ List.map_filter (\<lambda>n. Option.bind (datas_of domain service sd n) (\<lambda>p. li_stream (lw_items w p)))
      (le_order env (dom old_value - dom new_value))"
proof -
  let ?type = "sd_getType domain service sd" and ?D = "dom old_value - dom new_value" and ?A = "dom new_value - dom old_value"
  let ?old = "datas_of domain service sd"
  obtain a sd1 where g: "sd_get domain service True sd = (Some a, sd1)" "sd_datas sd1 domain service = Some a"
    "lb_datas (sd_lbs sd1 a) = ?old" using sd_get_create[of domain service sd] by blast
  define dels where "dels = (\<lambda>n. if n \<in> ?D then Some None else None :: nat option option)"
  define news where "news = map (\<lambda>n. (n, the (new_value n))) (le_order env ?A)"
  obtain adds w1 where ai: "add_items cb ?type news Map.empty w = (adds, w1)" by fastforce
  have fst_id: "map fst news = le_order env ?A" by (simp add: news_def comp_def)
  have m: "map_of news n = (if n \<in> ?A then Some (the (new_value n)) else None)" for n
    using assms(1) unfolding news_def order_ok_def by (simp add: map_of_map_restrict restrict_map_def)
  have frame: "lw_closing w1 = lw_closing w" "\<forall>q < lw_next w. lw_items w1 q = lw_items w q"
    and items: "\<And>n. case Option.bind (map_of news n) cb of None \<Rightarrow> adds n = None
      | Some stream \<Rightarrow> \<exists>p \<ge> lw_next w. adds n = Some p \<and>
        lw_items w1 p = (createLoadBalanceItem ?type)\<lparr>li_id := n, li_stream := Some stream, li_weight := 10000\<rparr>"
    using add_items_ok[OF ai] assms(1) unfolding fst_id order_ok_def by auto
  define dels' where "dels' = (\<lambda>n. if dels n \<noteq> None \<and> ?old n \<noteq> None then Some (?old n) else dels n)"
  define datas where "datas = (\<lambda>n. if dels n \<noteq> None then None else ?old n) ++ adds"
  obtain b w2 where i: "initNolock env now ((sd_lbs sd1 a)\<lparr>lb_datas := datas\<rparr>) w1 = Inr (b, w2)"
    "lb_datas b = datas" "refreshed now w1 w2"
    using initNolock_ok[of env now "(sd_lbs sd1 a)\<lparr>lb_datas := datas\<rparr>" w1] by auto
  have u: "lb_update env now adds dels (sd_lbs sd1 a) w1 = Inr (dels', b, w2)"
    using i(1) unfolding lb_update_def Let_def g(3) dels'_def datas_def by simp
  define w3 where "w3 = fold (\<lambda>n. case dels' n of Some (Some p) \<Rightarrow> item_close p | _ \<Rightarrow> (\<lambda>w. w)) (le_order env (dom dels')) w2"
  have o: "onServiceChange env cb now domain service old_value new_value sd w = Inr (sd1\<lparr>sd_lbs := (sd_lbs sd1)(a := b)\<rparr>, w3)"
    using g(1) ai u by (simp add: onServiceChange_def Let_def dels_def news_def w3_def)
  have w3: "lw_items w3 = lw_items w2" "lw_closing w3 = lw_closing w2 @
      List.map_filter (\<lambda>n. Option.bind (Option.bind (dels' n) (\<lambda>p. p)) (\<lambda>p. li_stream (lw_items w2 p))) (le_order env (dom dels'))"
    unfolding w3_def using close_loop by blast+
  have dom': "dom dels' = ?D" by (auto simp: dels'_def dels_def split: if_splits)
  have "Option.bind (Option.bind (dels' n) (\<lambda>p. p)) (\<lambda>p. li_stream (lw_items w2 p)) =
      Option.bind (?old n) (\<lambda>p. li_stream (lw_items w p))" if "n \<in> ?D" for n
  proof (cases "?old n")
    case (Some p)
    then have "p < lw_next w" using assms(2) by (auto simp: ran_def)
    then have "li_stream (lw_items w2 p) = li_stream (lw_items w p)" using frame(2) refreshed_same(3)[OF i(3)] by simp
    then show ?thesis using Some that by (simp add: dels'_def dels_def)
  qed (use that in \<open>simp add: dels'_def dels_def\<close>)
  then have close: "lw_closing w3 = lw_closing w @ List.map_filter (\<lambda>n. Option.bind (?old n) (\<lambda>p. li_stream (lw_items w p))) (le_order env ?D)"
    using w3(2) i(3) frame(1) assms(1) unfolding dom' refreshed_def order_ok_def
    by (auto simp: List.map_filter_def intro!: map_cong filter_cong)
  have gone: "datas n = None" if "n \<in> ?D" for n
    using that items[of n] m[of n] by (auto simp: datas_def dels_def map_add_def split: option.splits if_splits)
  have stay: "datas n = ?old n" if "n \<notin> ?D" "n \<in> ?A \<longrightarrow> cb (the (new_value n)) = None" for n
    using that items[of n] m[of n] by (auto simp: datas_def dels_def map_add_def split: option.splits if_splits)
  have new: "\<exists>p. datas n = Some p \<and> li_stream (lw_items w3 p) = Some stream \<and> li_id (lw_items w3 p) = n \<and>
      li_weight (lw_items w3 p) = 10000 \<and> li_fair (lw_items w3 p) = (?type = FAIR)"
    if n: "n \<in> ?A" "cb (the (new_value n)) = Some stream" for n stream
  proof -
    obtain p where p: "adds n = Some p"
      "lw_items w1 p = (createLoadBalanceItem ?type)\<lparr>li_id := n, li_stream := Some stream, li_weight := 10000\<rparr>"
      using items[of n] m[of n] n by auto
    then show ?thesis using refreshed_same(3-6)[OF i(3), of p]
      by (intro exI[of _ p]) (simp add: datas_def w3(1) createLoadBalanceItem_def mk_LoadBalanceItem_def)
  qed
  let ?sd = "sd1\<lparr>sd_lbs := (sd_lbs sd1)(a := b)\<rparr>"
  have s: "sd_datas ?sd domain service = Some a" "lb_datas (sd_lbs ?sd a) = datas" using g(2) i(2) by simp_all
  show ?thesis
    by (rule exI[of _ ?sd], rule exI[of _ w3], rule exI[of _ a], unfold s(2)) (use o s(1) gone stay new close in blast)
qed

lemma service_change_exact_witness:
  "\<exists>sd' w' a p. onServiceChange plain_env (\<lambda>info. Some info) 5 ''d'' ''s'' [7 \<mapsto> 0] [9 \<mapsto> 4]
      (mk_SDLoadBalance\<lparr>sd_datas := (\<lambda>_. [''s'' \<mapsto> 0]), sd_lbs := (\<lambda>_. two_datas), sd_next := 1\<rparr>) two_items = Inr (sd', w') \<and>
    lb_datas (sd_lbs sd' a) 7 = None \<and> lb_datas (sd_lbs sd' a) 9 = Some p \<and> lw_closing w' = [0]"
proof -
  let ?sd = "mk_SDLoadBalance\<lparr>sd_datas := (\<lambda>_. [''s'' \<mapsto> 0]), sd_lbs := (\<lambda>_. two_datas), sd_next := 1\<rparr>"
  have d: "datas_of ''d'' ''s'' ?sd = [7 \<mapsto> 0, 8 \<mapsto> 1]" by (simp add: datas_of_def two_datas_def)
  have r: "\<forall>p \<in> ran (datas_of ''d'' ''s'' ?sd). p < lw_next two_items"
    unfolding d by (auto simp: two_items_def ran_def split: if_splits)
  obtain sd' w' a where c: "onServiceChange plain_env (\<lambda>info. Some info) 5 ''d'' ''s'' [7 \<mapsto> 0] [9 \<mapsto> 4] ?sd two_items = Inr (sd', w')"
    "\<forall>n. n \<in> dom [7 \<mapsto> (0 :: nat)] - dom [9 \<mapsto> (4 :: nat)] \<longrightarrow> lb_datas (sd_lbs sd' a) n = None"
    "\<forall>n stream. n \<in> dom [9 \<mapsto> (4 :: nat)] - dom [7 \<mapsto> (0 :: nat)] \<and> Some (the ([9 \<mapsto> 4] n)) = Some stream \<longrightarrow>
       (\<exists>p. lb_datas (sd_lbs sd' a) n = Some p)"
    "lw_closing w' = lw_closing two_items @ List.map_filter (\<lambda>n. Option.bind (datas_of ''d'' ''s'' ?sd n) (\<lambda>p. li_stream (lw_items two_items p)))
      (le_order plain_env (dom [7 \<mapsto> (0 :: nat)] - dom [9 \<mapsto> (4 :: nat)]))"
    using service_change_exact[OF plain_env_ok r, of "\<lambda>info. Some info" 5 "[7 \<mapsto> 0]" "[9 \<mapsto> 4]"] by blast
  have "lb_datas (sd_lbs sd' a) 7 = None" using c(2) by simp
  moreover obtain p where "lb_datas (sd_lbs sd' a) 9 = Some p" using c(3) by auto
  moreover have "lw_closing w' = [0]"
    using c(4) unfolding d by (simp add: plain_env_def two_items_def map_filter_simps)
  ultimately show ?thesis using c(1) by blast
qed

end
