(* ===== verification/Threads.thy ===== *)
theory Threads
  imports Captain_Prelude
begin

text \<open>
  Threads, semaphores and locks: \<^verbatim>\<open>captain/thread.cpp\<close> and \<^verbatim>\<open>captain/include/thread.h\<close>.  A lock is seen through one atomic
  attempt to take it, which says whether it succeeded, and its release; a thread that fails tries again (or sleeps, which
  is the same from outside).  The pthread locks behave as POSIX specifies; \<open>CASLock\<close> is an \<^verbatim>\<open>atomic_flag\<close>.  The guards
  are one template over any lock (\<open>guard_step\<close>), so their laws are proved in the locale \<open>exclusive_lock\<close> and hold for
  each lock that meets it.  Starting a thread is a protocol between the constructor and the function \<open>run\<close> of the new thread.

  Proved: guards of all threads on an exclusive lock never hold it together, and never release a lock that they do not hold; guards
  on a read-write lock exclude writers; the constructor of a thread returns only when the new thread has
  its identity and its callback, after which that thread does not touch the object again.
\<close>

section \<open>Semaphores\<close>

text \<open>\<open>rt\<close> is the result of the system call; \<open>None\<close> says that the caller blocks.\<close>

definition mk_Semaphore :: "int \<Rightarrow> 32 word \<Rightarrow> nat result" where
  "mk_Semaphore rt count = (if rt \<noteq> 0 then Inl (Logic_error ''sem_init error'') else Inr (unat count))"

definition sem_wait :: "int \<Rightarrow> nat \<Rightarrow> nat option result" where
  "sem_wait rt n =
     (if rt \<noteq> 0 then Inl (Logic_error ''sem_wait error'') else Inr (if n = 0 then None else Some (n - 1)))"

definition sem_notify :: "int \<Rightarrow> nat \<Rightarrow> nat result" where
  "sem_notify rt n = (if rt \<noteq> 0 then Inl (Logic_error ''sem_post error'') else Inr (n + 1))"

section \<open>Locks\<close>

text \<open>\<^verbatim>\<open>CASLock\<close>: one turn of its loop, and the release.\<close>

definition cas_init :: bool where
  "cas_init = False"

definition cas_lock :: "bool \<Rightarrow> bool \<times> bool" where
  "cas_lock flag = (let (old, flag) = (flag, True) in (\<not> old, flag))"

definition cas_unlock :: "bool \<Rightarrow> bool" where
  "cas_unlock flag = False"

text \<open>\<^verbatim>\<open>Mutex\<close> and \<^verbatim>\<open>Spinlock\<close>: a mutex of POSIX is free or taken.\<close>

definition mutex_lock :: "bool \<Rightarrow> bool \<times> bool" where
  "mutex_lock taken = (if taken then (False, taken) else (True, True))"

definition mutex_unlock :: "bool \<Rightarrow> bool" where
  "mutex_unlock taken = False"

definition null_lock :: "unit \<Rightarrow> bool \<times> unit" where
  "null_lock m = (True, m)"

definition null_unlock :: "unit \<Rightarrow> unit" where
  "null_unlock m = m"

text \<open>\<^verbatim>\<open>RWMutex\<close>: the readers that hold it, or one writer.\<close>

datatype rw_state = Readers nat | Writer

definition rdlock :: "rw_state \<Rightarrow> bool \<times> rw_state" where
  "rdlock m = (case m of Readers n \<Rightarrow> (True, Readers (n + 1)) | Writer \<Rightarrow> (False, Writer))"

definition wrlock :: "rw_state \<Rightarrow> bool \<times> rw_state" where
  "wrlock m = (if m = Readers 0 then (True, Writer) else (False, m))"

definition rw_unlock :: "rw_state \<Rightarrow> rw_state" where
  "rw_unlock m = (case m of Readers n \<Rightarrow> Readers (n - 1) | Writer \<Rightarrow> Readers 0)"

section \<open>Guards\<close>

text \<open>
  \<^verbatim>\<open>ScopedLockImpl\<close> (and the read and write versions, which differ in the lock operation they call).  Each operation
  takes the lock and \<open>m_locked\<close>; \<open>None\<close> says that it has to wait, with the lock as the attempt left it.
\<close>

definition guard_lock :: "('m \<Rightarrow> bool \<times> 'm) \<Rightarrow> bool \<Rightarrow> 'm \<Rightarrow> bool option \<times> 'm" where
  "guard_lock lock m_locked m =
     (if \<not> m_locked then (case lock m of (ok, m) \<Rightarrow> (if ok then Some True else None, m)) else (Some m_locked, m))"

definition guard_make :: "('m \<Rightarrow> bool \<times> 'm) \<Rightarrow> 'm \<Rightarrow> bool option \<times> 'm" where
  "guard_make lock m = (case lock m of (ok, m) \<Rightarrow> (if ok then Some True else None, m))"

definition guard_unlock :: "('m \<Rightarrow> 'm) \<Rightarrow> bool \<Rightarrow> 'm \<Rightarrow> bool \<times> 'm" where
  "guard_unlock unlock m_locked m = (if m_locked then (False, unlock m) else (m_locked, m))"

definition guard_destroy :: "('m \<Rightarrow> 'm) \<Rightarrow> bool \<Rightarrow> 'm \<Rightarrow> 'm" where
  "guard_destroy unlock m_locked m = snd (guard_unlock unlock m_locked m)"

text \<open>Guards of many threads on one lock: guard \<open>g\<close> is there (with its flag) or not.\<close>

inductive guard_step :: "('m \<Rightarrow> bool \<times> 'm) \<Rightarrow> ('m \<Rightarrow> 'm) \<Rightarrow> 'm \<times> (nat \<rightharpoonup> bool) \<Rightarrow> 'm \<times> (nat \<rightharpoonup> bool) \<Rightarrow> bool"
  for lock unlock where
  make: "gs g = None \<Longrightarrow> guard_make lock m = (Some b, m') \<Longrightarrow> guard_step lock unlock (m, gs) (m', gs(g \<mapsto> b))"
| wait: "guard_make lock m = (None, m') \<Longrightarrow> guard_step lock unlock (m, gs) (m', gs)"
| lock: "gs g = Some b \<Longrightarrow> guard_lock lock b m = (Some b', m') \<Longrightarrow> guard_step lock unlock (m, gs) (m', gs(g \<mapsto> b'))"
| unlock: "gs g = Some b \<Longrightarrow> guard_unlock unlock b m = (b', m') \<Longrightarrow> guard_step lock unlock (m, gs) (m', gs(g \<mapsto> b'))"
| destroy: "gs g = Some b \<Longrightarrow> guard_step lock unlock (m, gs) (guard_destroy unlock b m, gs(g := None))"

text \<open>What an exclusive lock promises.\<close>

locale exclusive_lock =
  fixes init :: 'm and lock :: "'m \<Rightarrow> bool \<times> 'm" and unlock :: "'m \<Rightarrow> 'm" and taken :: "'m \<Rightarrow> bool"
  assumes free_init: "\<not> taken init"
    and take_free: "\<not> taken m \<Longrightarrow> fst (lock m) \<and> taken (snd (lock m))"
    and take_taken: "taken m \<Longrightarrow> \<not> fst (lock m) \<and> taken (snd (lock m))"
    and release: "taken m \<Longrightarrow> \<not> taken (unlock m)"
begin

lemma lock_cases:
  obtains "\<not> taken m" "fst (lock m)" "taken (snd (lock m))" | "taken m" "\<not> fst (lock m)" "taken (snd (lock m))"
  using take_free take_taken by blast

definition guards_ok :: "'m \<times> (nat \<rightharpoonup> bool) \<Rightarrow> bool" where
  "guards_ok s \<longleftrightarrow> (\<forall>g h. snd s g = Some True \<and> snd s h = Some True \<longrightarrow> g = h) \<and>
     (taken (fst s) \<longleftrightarrow> (\<exists>g. snd s g = Some True))"

lemma guard_step_ok:
  assumes "guard_step lock unlock s s'" "guards_ok s"
  shows "guards_ok s'"
  using assms
proof (induction rule: guard_step.induct)
  case (make gs g m b m')
  show ?case using make by (cases m rule: lock_cases) (auto simp: guards_ok_def guard_make_def split: prod.splits if_splits)
next
  case (wait m m' gs)
  show ?case using wait by (cases m rule: lock_cases) (auto simp: guards_ok_def guard_make_def split: prod.splits if_splits)
next
  case (lock gs g b m b' m')
  show ?case using lock
    by (cases m rule: lock_cases; cases b) (auto simp: guards_ok_def guard_lock_def split: prod.splits if_splits)
next
  case (unlock gs g b m b' m')
  show ?case
  proof (cases b)
    case False
    then have "gs(g \<mapsto> b') = gs" "m' = m" using unlock(1,2) by (auto simp: guard_unlock_def)
    then show ?thesis using unlock(3) by (simp only:)
  qed (use unlock release in \<open>auto simp: guards_ok_def guard_unlock_def\<close>)
next
  case (destroy gs g b m)
  show ?case
  proof (cases b)
    case False
    then have "\<And>h. (gs(g := None)) h = Some True \<longleftrightarrow> gs h = Some True" "guard_destroy unlock b m = m"
      using destroy(1) by (auto simp: guard_destroy_def guard_unlock_def)
    then show ?thesis using destroy(2) unfolding guards_ok_def fst_conv snd_conv by presburger
  qed (use destroy release in \<open>auto simp: guards_ok_def guard_destroy_def guard_unlock_def\<close>)
qed

lemma guards_reach_ok: "(guard_step lock unlock)\<^sup>*\<^sup>* (init, Map.empty) s \<Longrightarrow> guards_ok s"
  by (induction rule: rtranclp_induct) (use guard_step_ok free_init in \<open>auto simp: guards_ok_def\<close>)

end

interpretation cas: exclusive_lock cas_init cas_lock cas_unlock "\<lambda>m. m"
  by unfold_locales (auto simp: cas_init_def cas_lock_def cas_unlock_def)

interpretation mtx: exclusive_lock False mutex_lock mutex_unlock "\<lambda>m. m"
  by unfold_locales (auto simp: mutex_lock_def mutex_unlock_def)

section \<open>Guards on a read-write lock\<close>

inductive rw_step :: "rw_state \<times> (nat \<rightharpoonup> bool) \<times> (nat \<rightharpoonup> bool) \<Rightarrow> rw_state \<times> (nat \<rightharpoonup> bool) \<times> (nat \<rightharpoonup> bool) \<Rightarrow> bool" where
  read: "guard_step rdlock rw_unlock (m, rs) (m', rs') \<Longrightarrow> rw_step (m, rs, ws) (m', rs', ws)"
| writing: "guard_step wrlock rw_unlock (m, ws) (m', ws') \<Longrightarrow> rw_step (m, rs, ws) (m', rs, ws')"

definition holders :: "(nat \<rightharpoonup> bool) \<Rightarrow> nat set" where
  "holders gs = {g. gs g = Some True}"

definition rw_ok :: "rw_state \<times> (nat \<rightharpoonup> bool) \<times> (nat \<rightharpoonup> bool) \<Rightarrow> bool" where
  "rw_ok s \<longleftrightarrow> (case s of (m, rs, ws) \<Rightarrow> finite (holders rs) \<and>
     (case m of Readers n \<Rightarrow> card (holders rs) = n \<and> holders ws = {}
      | Writer \<Rightarrow> holders rs = {} \<and> (\<exists>g. holders ws = {g})))"

lemma holders_upd [simp]:
  "holders (gs(g \<mapsto> True)) = insert g (holders gs)" "holders (gs(g \<mapsto> False)) = holders gs - {g}" "holders (gs(g := None)) = holders gs - {g}"
  by (auto simp: holders_def)

lemma holders_iff: "g \<in> holders gs \<longleftrightarrow> gs g = Some True"
  by (simp add: holders_def)

lemma rw_step_ok:
  assumes "rw_step s s'" "rw_ok s"
  shows "rw_ok s'"
  using assms
proof (induction rule: rw_step.induct)
  case (read m rs m' rs' ws)
  from read(1) show ?case
  proof cases
    case (make g b)
    then show ?thesis using read(2) by (cases m) (auto simp: rw_ok_def guard_make_def rdlock_def holders_iff)
  next
    case wait
    then show ?thesis using read(2) by (cases m) (auto simp: rw_ok_def guard_make_def rdlock_def)
  next
    case (lock g b b')
    then show ?thesis using read(2)
      by (cases m; cases b) (auto simp: rw_ok_def guard_lock_def rdlock_def holders_iff insert_absorb)
  next
    case (unlock g b b')
    then show ?thesis using read(2)
      by (cases m; cases b) (auto simp: rw_ok_def guard_unlock_def rw_unlock_def holders_iff)
  next
    case (destroy g b)
    then show ?thesis using read(2)
      by (cases m; cases b) (auto simp: rw_ok_def guard_destroy_def guard_unlock_def rw_unlock_def holders_iff)
  qed
next
  case (writing m ws m' ws' rs)
  from writing(1) show ?case
  proof cases
    case (make g b)
    then show ?thesis using writing(2)
      by (auto simp: rw_ok_def guard_make_def wrlock_def holders_iff split: if_splits rw_state.splits)
  next
    case wait
    then show ?thesis using writing(2)
      by (auto simp: rw_ok_def guard_make_def wrlock_def split: if_splits rw_state.splits)
  next
    case (lock g b b')
    then show ?thesis using writing(2)
      by (cases b) (auto simp: rw_ok_def guard_lock_def wrlock_def holders_iff insert_absorb split: if_splits rw_state.splits)
  next
    case (unlock g b b')
    have "holders ws = {g}" if b "m = Writer"
      using unlock that writing(2) by (auto simp: rw_ok_def holders_iff[symmetric])
    moreover have "\<not> b" if "m = Readers n" for n
      using unlock that writing(2) by (auto simp: rw_ok_def holders_iff[symmetric])
    ultimately show ?thesis using writing(2) unlock
      by (cases m; cases b) (auto simp: rw_ok_def guard_unlock_def rw_unlock_def holders_iff)
  next
    case (destroy g b)
    have "holders ws = {g}" if b "m = Writer"
      using destroy that writing(2) by (auto simp: rw_ok_def holders_iff[symmetric])
    moreover have "\<not> b" if "m = Readers n" for n
      using destroy that writing(2) by (auto simp: rw_ok_def holders_iff[symmetric])
    ultimately show ?thesis using writing(2) destroy
      by (cases m; cases b) (auto simp: rw_ok_def guard_destroy_def guard_unlock_def rw_unlock_def holders_iff)
  qed
qed

lemma rw_reach_ok: "rw_step\<^sup>*\<^sup>* (Readers 0, Map.empty, Map.empty) s \<Longrightarrow> rw_ok s"
  by (induction rule: rtranclp_induct) (use rw_step_ok in \<open>auto simp: rw_ok_def holders_def\<close>)

section \<open>Threads\<close>

record 'c thread =
  th_id :: int
  th_thread :: nat
  th_cb :: "'c option"
  th_name :: string
  th_sem :: nat

definition mk_Thread :: "'c \<Rightarrow> string \<Rightarrow> 'c thread" where
  "mk_Thread cb name = \<lparr>th_id = - 1, th_thread = 0, th_cb = Some cb, th_name = (if name = [] then ''UNKNOW'' else name), th_sem = 0\<rparr>"

text \<open>\<open>join\<close>, with the result of \<^verbatim>\<open>pthread_join\<close>; 0 stands for no thread.\<close>

definition thread_join :: "int \<Rightarrow> 'c thread \<Rightarrow> 'c thread result" where
  "thread_join rt th =
     (if th_thread th \<noteq> 0 then
        if rt \<noteq> 0 then Inl (Logic_error ''pthread_join error'') else Inr (th\<lparr>th_thread := 0\<rparr>)
      else Inr th)"

text \<open>
  The creating thread (inside the constructor before and after \<^verbatim>\<open>pthread_create\<close>, behind it, and when it has destroyed the
  object again), and the new thread, at each of the statements of \<open>run\<close>.
\<close>

datatype creator = Creating | Waiting | Returned | Destroyed
datatype runner = Not_started | At_this | At_name | At_id | At_setname | At_swap | At_notify | At_call | Ended

record 'c start_state =
  so_obj :: "'c thread option"
  so_creator :: creator
  so_runner :: runner
  so_this :: bool
  so_thread_name :: string
  so_os_name :: string
  so_local_cb :: "'c option"
  so_called :: "'c list"

definition start_init :: "'c \<Rightarrow> string \<Rightarrow> 'c start_state" where
  "start_init cb name = \<lparr>so_obj = Some (mk_Thread cb name), so_creator = Creating, so_runner = Not_started, so_this = False,
     so_thread_name = ''UNKNOW'', so_os_name = [], so_local_cb = None, so_called = []\<rparr>"

definition with_obj :: "'c start_state \<Rightarrow> ('c thread \<Rightarrow> 'c start_state) \<Rightarrow> 'c start_state result" where
  "with_obj s f = (case so_obj s of None \<Rightarrow> Inl Oob_access | Some th \<Rightarrow> Inr (f th))"

text \<open>The constructor up to \<^verbatim>\<open>pthread_create\<close>, and its wait; the destructor.\<close>

definition thread_create :: "int \<Rightarrow> nat \<Rightarrow> 'c start_state \<Rightarrow> 'c start_state result" where
  "thread_create rt pt s =
     (if rt \<noteq> 0 then Inl (Logic_error ''pthread_create error'')
      else with_obj s (\<lambda>th. s\<lparr>so_obj := Some (th\<lparr>th_thread := pt\<rparr>), so_creator := Waiting, so_runner := At_this\<rparr>))"

definition thread_wait :: "'c start_state \<Rightarrow> 'c start_state option result" where
  "thread_wait s =
     (case so_obj s of
        None \<Rightarrow> Inl Oob_access
      | Some th \<Rightarrow> rbind (sem_wait 0 (th_sem th)) (\<lambda>n.
          Inr (map_option (\<lambda>n. s\<lparr>so_obj := Some (th\<lparr>th_sem := n\<rparr>), so_creator := Returned\<rparr>) n)))"

definition thread_destroy :: "'c start_state \<Rightarrow> 'c start_state" where
  "thread_destroy s = s\<lparr>so_obj := None, so_creator := Destroyed\<rparr>"

text \<open>One statement of \<open>run\<close>, in the thread with the number \<open>tid\<close>.\<close>

definition run_step :: "int \<Rightarrow> 'c start_state \<Rightarrow> 'c start_state result" where
  "run_step tid s =
     (case so_runner s of
        Not_started \<Rightarrow> Inr s
      | At_this \<Rightarrow> Inr (s\<lparr>so_this := True, so_runner := At_name\<rparr>)
      | At_name \<Rightarrow> with_obj s (\<lambda>th. s\<lparr>so_thread_name := th_name th, so_runner := At_id\<rparr>)
      | At_id \<Rightarrow> with_obj s (\<lambda>th. s\<lparr>so_obj := Some (th\<lparr>th_id := tid\<rparr>), so_runner := At_setname\<rparr>)
      | At_setname \<Rightarrow> with_obj s (\<lambda>th. s\<lparr>so_os_name := c_str (take 15 (th_name th)), so_runner := At_swap\<rparr>)
      | At_swap \<Rightarrow> with_obj s (\<lambda>th. s\<lparr>so_local_cb := th_cb th, so_obj := Some (th\<lparr>th_cb := None\<rparr>), so_runner := At_notify\<rparr>)
      | At_notify \<Rightarrow> with_obj s (\<lambda>th. s\<lparr>so_obj := Some (th\<lparr>th_sem := th_sem th + 1\<rparr>), so_runner := At_call\<rparr>)
      | At_call \<Rightarrow> (case so_local_cb s of
            None \<Rightarrow> Inl (Logic_error ''bad_function_call'')
          | Some cb \<Rightarrow> Inr (s\<lparr>so_called := so_called s @ [cb], so_runner := Ended\<rparr>))
      | Ended \<Rightarrow> Inr s)"

inductive start_step :: "int \<Rightarrow> 'c start_state \<Rightarrow> 'c start_state \<Rightarrow> bool" for tid where
  create: "so_creator s = Creating \<Longrightarrow> thread_create 0 pt s = Inr s' \<Longrightarrow> start_step tid s s'"
| wait: "so_creator s = Waiting \<Longrightarrow> thread_wait s = Inr (Some s') \<Longrightarrow> start_step tid s s'"
| destroy: "so_creator s = Returned \<Longrightarrow> start_step tid s (thread_destroy s)"
| run: "run_step tid s = Inr s' \<Longrightarrow> start_step tid s s'"

definition started_by :: "runner \<Rightarrow> nat" where
  "started_by r = (case r of Not_started \<Rightarrow> 0 | At_this \<Rightarrow> 1 | At_name \<Rightarrow> 2 | At_id \<Rightarrow> 3 | At_setname \<Rightarrow> 4 | At_swap \<Rightarrow> 5
     | At_notify \<Rightarrow> 6 | At_call \<Rightarrow> 7 | Ended \<Rightarrow> 8)"

definition start_ok :: "int \<Rightarrow> 'c \<Rightarrow> string \<Rightarrow> 'c start_state \<Rightarrow> bool" where
  "start_ok tid cb name s \<longleftrightarrow>
     (case so_creator s of
        Creating \<Rightarrow> so_runner s = Not_started \<and> so_obj s = Some (mk_Thread cb name) \<and> so_called s = []
      | Waiting \<Rightarrow> so_runner s \<noteq> Not_started \<and> (\<exists>th. so_obj s = Some th \<and> th_name th = th_name (mk_Thread cb name) \<and>
          th_sem th = (if started_by (so_runner s) \<ge> 7 then 1 else 0) \<and>
          th_cb th = (if started_by (so_runner s) \<ge> 6 then None else Some cb) \<and> (started_by (so_runner s) \<ge> 4 \<longrightarrow> th_id th = tid))
      | Returned \<Rightarrow> started_by (so_runner s) \<ge> 7 \<and> (\<exists>th. so_obj s = Some th \<and> th_id th = tid \<and> th_cb th = None)
      | Destroyed \<Rightarrow> started_by (so_runner s) \<ge> 7) \<and>
     (started_by (so_runner s) \<ge> 6 \<longrightarrow> so_local_cb s = Some cb) \<and> so_called s = (if so_runner s = Ended then [cb] else [])"

lemma start_step_ok: "start_step tid s s' \<Longrightarrow> start_ok tid cb name s \<Longrightarrow> start_ok tid cb name s'"
proof (induction rule: start_step.induct)
  case (create s pt s')
  then show ?case
    by (auto simp: thread_create_def with_obj_def start_ok_def started_by_def mk_Thread_def)
next
  case (wait s s')
  then show ?case
    by (auto simp: thread_wait_def sem_wait_def start_ok_def split: option.splits if_splits)
next
  case (destroy s)
  then show ?case by (simp add: thread_destroy_def start_ok_def)
next
  case (run s s')
  then show ?case
    by (cases "so_runner s"; cases "so_creator s") (auto simp: run_step_def with_obj_def start_ok_def started_by_def)
qed

lemma start_reach_ok: "(start_step tid)\<^sup>*\<^sup>* (start_init cb name) s \<Longrightarrow> start_ok tid cb name s"
proof (induction rule: rtranclp_induct)
  case base
  then show ?case by (simp add: start_ok_def start_init_def started_by_def)
next
  case (step y z)
  show ?case by (rule start_step_ok[OF step(2,3)])
qed

text \<open>\<open>SetName\<close>, in a thread with or without an object.\<close>

definition SetName :: "string \<Rightarrow> 'c thread option \<Rightarrow> 'c thread option \<times> string" where
  "SetName name t_thread = (map_option (\<lambda>th. th\<lparr>th_name := name\<rparr>) t_thread, name)"

section \<open>Properties\<close>

text \<open>
  whatever the threads do with their guards, locking and unlocking them again and again or destroying them: on a \<open>CASLock\<close>
  (and on a mutex) no two guards hold the lock at once, the lock is taken exactly while some guard holds it, and it is free
  when all guards are gone.
\<close>

theorem guards_exclusive:
  assumes "(guard_step cas_lock cas_unlock)\<^sup>*\<^sup>* (cas_init, Map.empty) (m, gs)"
    "(guard_step mutex_lock mutex_unlock)\<^sup>*\<^sup>* (False, Map.empty) (m2, gs2)"
  shows "(gs g = Some True \<and> gs h = Some True \<longrightarrow> g = h) \<and> (m \<longleftrightarrow> (\<exists>g. gs g = Some True)) \<and>
    (gs2 g = Some True \<and> gs2 h = Some True \<longrightarrow> g = h) \<and> (m2 \<longleftrightarrow> (\<exists>g. gs2 g = Some True))"
  using cas.guards_reach_ok[OF assms(1)] mtx.guards_reach_ok[OF assms(2)]
  by (simp add: cas.guards_ok_def mtx.guards_ok_def)

lemma guards_exclusive_witness:
  "\<exists>m gs. (guard_step cas_lock cas_unlock)\<^sup>*\<^sup>* (cas_init, Map.empty) (m, gs) \<and> gs 0 = Some True \<and> m \<and> gs 1 \<noteq> Some True"
proof -
  have s: "guard_step cas_lock cas_unlock (cas_init, Map.empty) (True, [0 \<mapsto> True])"
    by (rule guard_step.make) (simp_all add: guard_make_def cas_lock_def cas_init_def)
  have "guard_step cas_lock cas_unlock (True, [0 \<mapsto> True]) (True, [0 \<mapsto> True])"
    by (rule guard_step.wait) (simp add: guard_make_def cas_lock_def)
  with s have r: "(guard_step cas_lock cas_unlock)\<^sup>*\<^sup>* (cas_init, Map.empty) (True, [0 \<mapsto> True])"
    by (meson converse_rtranclp_into_rtranclp r_into_rtranclp)
  have e: "(guard_step mutex_lock mutex_unlock)\<^sup>*\<^sup>* (False, Map.empty) (False, Map.empty)" by simp
  have "[0 \<mapsto> True] (1 :: nat) \<noteq> Some True" using guards_exclusive[OF r e, of 0 1] by auto
  then show ?thesis using r by (intro exI[of _ True] exI[of _ "[0 \<mapsto> True]"]) simp
qed

text \<open>The lock that does nothing lets two guards in.\<close>

lemma null_lock_not_exclusive:
  "\<exists>gs. (guard_step null_lock null_unlock)\<^sup>*\<^sup>* ((), Map.empty) ((), gs) \<and> gs 0 = Some True \<and> gs 1 = Some True"
proof -
  have "guard_step null_lock null_unlock ((), Map.empty) ((), [0 \<mapsto> True])"
    "guard_step null_lock null_unlock ((), [0 \<mapsto> True]) ((), [0 \<mapsto> True, 1 \<mapsto> True])"
    by (rule guard_step.make; simp add: guard_make_def null_lock_def)+
  then have "(guard_step null_lock null_unlock)\<^sup>*\<^sup>* ((), Map.empty) ((), [0 \<mapsto> True, 1 \<mapsto> True])"
    by (meson converse_rtranclp_into_rtranclp r_into_rtranclp)
  then show ?thesis by fastforce
qed

text \<open>
  Guards on a read-write lock: a write guard that holds it holds it alone, and the lock counts exactly the
  read guards that hold it.
\<close>

theorem rw_guards_exclusive:
  assumes "rw_step\<^sup>*\<^sup>* (Readers 0, Map.empty, Map.empty) (m, rs, ws)"
  shows "ws g = Some True \<longrightarrow> (\<forall>h. rs h \<noteq> Some True) \<and> (\<forall>h. ws h = Some True \<longrightarrow> h = g) \<and> m = Writer"
    and "m = Readers n \<longrightarrow> card {g. rs g = Some True} = n"
  using rw_reach_ok[OF assms] by (auto simp: rw_ok_def holders_def set_eq_iff split: rw_state.splits)

text \<open>
  starting a thread, in every interleaving of the creating and the new thread, even if the creator destroys the object as soon as
  its constructor has returned: the new thread never touches the object after that and never fails; when the constructor has returned the
  object has the thread's number and no callback any more; and the callback is called once, after that point of \<open>run\<close>.
\<close>

theorem thread_start_safe:
  assumes "(start_step tid)\<^sup>*\<^sup>* (start_init cb name) s"
  shows "(\<exists>s'. run_step tid s = Inr s') \<and>
    (so_creator s = Returned \<longrightarrow> (\<exists>th. so_obj s = Some th \<and> th_id th = tid \<and> th_cb th = None)) \<and>
    (so_creator s \<in> {Returned, Destroyed} \<longrightarrow> so_runner s \<in> {At_call, Ended}) \<and>
    so_called s = (if so_runner s = Ended then [cb] else [])"
  using start_reach_ok[OF assms]
  by (cases "so_runner s"; cases "so_creator s") (auto simp: run_step_def with_obj_def start_ok_def started_by_def)

lemma thread_start_safe_witness:
  "\<exists>s. (start_step 7)\<^sup>*\<^sup>* (start_init (5 :: nat) ''worker'') s \<and> so_runner s = At_this \<and> (\<exists>s'. run_step 7 s = Inr s')"
proof -
  let ?s = "(start_init (5 :: nat) ''worker'')\<lparr>so_obj := Some ((mk_Thread 5 ''worker'')\<lparr>th_thread := 1\<rparr>), so_creator := Waiting, so_runner := At_this\<rparr>"
  have "start_step 7 (start_init 5 ''worker'') ?s"
    by (rule start_step.create[where pt = 1]) (simp_all add: start_init_def thread_create_def with_obj_def)
  then have r: "(start_step 7)\<^sup>*\<^sup>* (start_init (5 :: nat) ''worker'') ?s" by (rule r_into_rtranclp)
  show ?thesis using r thread_start_safe[OF r] by (intro exI[of _ ?s]) simp
qed

end
