(* ===== verification/Async_Stream.thy ===== *)
theory Async_Stream
  imports Captain_Prelude
begin

text \<open>
  Streams with pending requests: \<^verbatim>\<open>captain/streams/async_socket_stream.h\<close> and \<^verbatim>\<open>async_socket_stream.cc\<close>.  A context is the
  record of a request whose fiber waits for the answer; it is answered by the reader, by its timeout or when the stream is closed,
  which may happen at the same time in different threads.  \<open>doRsp\<close> reads the scheduler of the context and then tries to
  take it with a compare-and-swap: what it read is the argument \<open>seen\<close>, so that other steps may come in between.
  The state \<open>async_stream\<close> has the stream, the heap of contexts, and what it has given to others: fibers scheduled, timers
  added and cancelled, and the number of \<open>doRead\<close> and \<open>doWrite\<close> that are scheduled or running.  The virtual functions
  (\<open>doRecv\<close>, \<open>doSend\<close>), reconnecting and the callbacks are arguments: their results.

  Proved: each request is answered exactly once, however the answers interleave; there is at most one reader and one writer;
  two starts at the same time block each other for ever; closing answers all pending requests; and the pool of streams hands
  out a connected one if there is any, as long as its counter does not wrap around.
\<close>

section \<open>Contexts\<close>

definition OK :: "32 word" where "OK = 0"
definition TIMEOUT :: "32 word" where "TIMEOUT = - 1"
definition IO_ERROR :: "32 word" where "IO_ERROR = - 2"
definition NOT_CONNECT :: "32 word" where "NOT_CONNECT = - 3"

record ctx =
  cx_sn :: "32 word"
  cx_timeout :: "32 word"
  cx_result :: "32 word"
  cx_timed :: bool
  cx_scheduler :: "nat option"
  cx_fiber :: "nat option"
  cx_timer :: "nat option"

definition mk_Ctx :: ctx where
  "mk_Ctx = \<lparr>cx_sn = 0, cx_timeout = 0, cx_result = 0, cx_timed = False, cx_scheduler = None, cx_fiber = None, cx_timer = None\<rparr>"

record async_stream =
  as_connected :: bool
  as_sem :: nat
  as_waitSem :: nat
  as_queue :: "nat list"
  as_ctxs :: "32 word \<rightharpoonup> nat"
  as_autoConnect :: bool
  as_timer :: "nat option"
  as_iomanager :: "nat option"
  as_worker :: "nat option"
  as_connectCb :: bool
  as_disconnectCb :: bool
  as_heap :: "nat \<Rightarrow> ctx"
  as_scheduled :: "(nat \<times> nat) list"
  as_timers :: "nat list"
  as_cancelled :: "nat list"
  as_disconnects :: nat
  as_readers :: nat
  as_writers :: nat

definition mk_AsyncSocketStream :: "bool \<Rightarrow> async_stream" where
  "mk_AsyncSocketStream connected = \<lparr>as_connected = connected, as_sem = 0, as_waitSem = 2, as_queue = [], as_ctxs = Map.empty,
     as_autoConnect = False, as_timer = None, as_iomanager = None, as_worker = None, as_connectCb = False, as_disconnectCb = False,
     as_heap = (\<lambda>_. mk_Ctx), as_scheduled = [], as_timers = [], as_cancelled = [], as_disconnects = 0,
     as_readers = 0, as_writers = 0\<rparr>"

definition upd_ctx :: "nat \<Rightarrow> (ctx \<Rightarrow> ctx) \<Rightarrow> async_stream \<Rightarrow> async_stream" where
  "upd_ctx p f s = s\<lparr>as_heap := (as_heap s)(p := f (as_heap s p))\<rparr>"

text \<open>The compare-and-swap, what follows it in the thread that has won, and both without another thread in between.\<close>

definition doRsp_cas :: "nat option \<Rightarrow> nat \<Rightarrow> async_stream \<Rightarrow> bool \<times> async_stream" where
  "doRsp_cas seen p s =
     (if cx_scheduler (as_heap s p) \<noteq> seen then (False, s) else (True, upd_ctx p (\<lambda>c. c\<lparr>cx_scheduler := None\<rparr>) s))"

definition doRsp_rest :: "nat option \<Rightarrow> nat \<Rightarrow> async_stream \<Rightarrow> async_stream" where
  "doRsp_rest scd p s =
     (case (scd, cx_fiber (as_heap s p)) of
        (Some scd, Some fiber) \<Rightarrow>
          let s = (case cx_timer (as_heap s p) of
                Some t \<Rightarrow> upd_ctx p (\<lambda>c. c\<lparr>cx_timer := None\<rparr>) (s\<lparr>as_cancelled := as_cancelled s @ [t]\<rparr>) | None \<Rightarrow> s);
              s = (if cx_timed (as_heap s p) then upd_ctx p (\<lambda>c. c\<lparr>cx_result := TIMEOUT\<rparr>) s else s)
          in upd_ctx p (\<lambda>c. c\<lparr>cx_fiber := None\<rparr>) (s\<lparr>as_scheduled := as_scheduled s @ [(scd, fiber)]\<rparr>)
      | _ \<Rightarrow> s)"

definition doRsp :: "nat option \<Rightarrow> nat \<Rightarrow> async_stream \<Rightarrow> async_stream" where
  "doRsp seen p s = (case doRsp_cas seen p s of (won, s) \<Rightarrow> if \<not> won then s else doRsp_rest seen p s)"

lemmas doRsp_defs = doRsp_def doRsp_cas_def doRsp_rest_def

text \<open>Without another thread in between.\<close>

definition doRsp_now :: "nat \<Rightarrow> async_stream \<Rightarrow> async_stream" where
  "doRsp_now p s = doRsp (cx_scheduler (as_heap s p)) p s"

definition as_getCtx :: "32 word \<Rightarrow> async_stream \<Rightarrow> nat option" where
  "as_getCtx sn s = as_ctxs s sn"

definition getAndDelCtx :: "32 word \<Rightarrow> async_stream \<Rightarrow> nat option \<times> async_stream" where
  "getAndDelCtx sn s = (as_ctxs s sn, s\<lparr>as_ctxs := (as_ctxs s)(sn := None)\<rparr>)"

text \<open>\<open>addCtx\<close> inserts only under a new number, and returns true in any case.\<close>

definition addCtx :: "nat \<Rightarrow> async_stream \<Rightarrow> bool \<times> async_stream" where
  "addCtx p s = (let sn = cx_sn (as_heap s p) in
     (True, if as_ctxs s sn = None then s\<lparr>as_ctxs := (as_ctxs s)(sn \<mapsto> p)\<rparr> else s))"

definition enqueue :: "nat \<Rightarrow> async_stream \<Rightarrow> bool \<times> async_stream" where
  "enqueue p s =
     (let empty = as_queue s = []; s = s\<lparr>as_queue := as_queue s @ [p]\<rparr>
      in (empty, if empty then s\<lparr>as_sem := as_sem s + 1\<rparr> else s))"

text \<open>The part of \<open>onTimeOut\<close> in front of \<open>doRsp\<close>.\<close>

definition onTimeOut_mark :: "nat \<Rightarrow> async_stream \<Rightarrow> async_stream" where
  "onTimeOut_mark p s = upd_ctx p (\<lambda>c. c\<lparr>cx_timed := True\<rparr>) (s\<lparr>as_ctxs := (as_ctxs s)(cx_sn (as_heap s p) := None)\<rparr>)"

definition onTimeOut :: "nat \<Rightarrow> async_stream \<Rightarrow> async_stream" where
  "onTimeOut p s = doRsp_now p (onTimeOut_mark p s)"

section \<open>Starting and closing\<close>

text \<open>\<open>this\<close> is the \<^verbatim>\<open>IOManager\<close> of the calling thread; \<open>order\<close> gives the order in which the hash table is iterated.\<close>

definition fail_ctx :: "nat \<Rightarrow> async_stream \<Rightarrow> async_stream" where
  "fail_ctx p s = doRsp_now p (upd_ctx p (\<lambda>c. c\<lparr>cx_result := IO_ERROR\<rparr>) s)"

definition innerClose :: "(32 word set \<Rightarrow> 32 word list) \<Rightarrow> nat option \<Rightarrow> async_stream \<Rightarrow> async_stream result" where
  "innerClose order this s =
     (if as_iomanager s \<noteq> this then Inl (Assert_failed ''m_iomanager == IOManager::GetThis()'')
      else
        let s = (if as_connected s \<and> as_disconnectCb s then s\<lparr>as_disconnects := as_disconnects s + 1\<rparr> else s);
            ctxs = as_ctxs s;
            s = s\<lparr>as_connected := False, as_sem := as_sem s + 1, as_ctxs := Map.empty, as_queue := []\<rparr>
        in Inr (fold (\<lambda>sn. fail_ctx (the (ctxs sn))) (order (dom ctxs)) s))"

text \<open>One \<open>m_waitSem.wait()\<close>; \<open>None\<close> says that the fiber waits.  \<open>waitFiber\<close> is two of them, and others may come in between.\<close>

definition as_wait :: "async_stream \<Rightarrow> async_stream option" where
  "as_wait s = (if as_waitSem s = 0 then None else Some (s\<lparr>as_waitSem := as_waitSem s - 1\<rparr>))"

definition waitFiber :: "async_stream \<Rightarrow> async_stream option" where
  "waitFiber s = Option.bind (as_wait s) as_wait"

definition as_cancelTimer :: "async_stream \<Rightarrow> async_stream" where
  "as_cancelTimer s = (case as_timer s of Some t \<Rightarrow> s\<lparr>as_cancelled := as_cancelled s @ [t], as_timer := None\<rparr> | None \<Rightarrow> s)"

text \<open>A timer that calls \<open>start\<close> after \<open>ms\<close>; timers are numbered in the order in which they are added.\<close>

definition as_addTimer :: "nat \<Rightarrow> async_stream \<Rightarrow> nat \<times> async_stream" where
  "as_addTimer ms s = (length (as_timers s), s\<lparr>as_timers := as_timers s @ [ms]\<rparr>)"

definition startRead :: "async_stream \<Rightarrow> async_stream result" where
  "startRead s = (if as_iomanager s = None then Inl Null_deref else Inr (s\<lparr>as_readers := as_readers s + 1\<rparr>))"

definition startWrite :: "async_stream \<Rightarrow> async_stream result" where
  "startWrite s = (if as_iomanager s = None then Inl Null_deref else Inr (s\<lparr>as_writers := as_writers s + 1\<rparr>))"

definition start_failed :: "(32 word set \<Rightarrow> 32 word list) \<Rightarrow> nat option \<Rightarrow> async_stream \<Rightarrow> (bool \<times> async_stream) result" where
  "start_failed order this s =
     rbind (innerClose order this s) (\<lambda>s.
       let s = s\<lparr>as_waitSem := as_waitSem s + 2\<rparr> in
       if as_autoConnect s then
         let s = as_cancelTimer s in
         if as_iomanager s = None then Inl Null_deref
         else let (t, s) = as_addTimer 2000 s in Inr (False, s\<lparr>as_timer := Some t\<rparr>)
       else Inr (False, s))"

text \<open>\<open>start\<close> up to \<open>waitFiber\<close>, what follows it, and the whole when no other fiber comes in between.\<close>

definition as_start_enter :: "nat option \<Rightarrow> async_stream \<Rightarrow> async_stream" where
  "as_start_enter this s =
     (let s = (if as_iomanager s = None then s\<lparr>as_iomanager := this\<rparr> else s)
      in if as_worker s = None then s\<lparr>as_worker := this\<rparr> else s)"

definition as_start_body :: "(32 word set \<Rightarrow> 32 word list) \<Rightarrow> nat option \<Rightarrow> bool \<Rightarrow> bool \<Rightarrow> async_stream
    \<Rightarrow> (bool \<times> async_stream) result" where
  "as_start_body order this reconnect_ok connect_cb_ok s =
     (let s = as_cancelTimer s in
      if \<not> as_connected s \<and> \<not> reconnect_ok then start_failed order this s
      else
        let s = s\<lparr>as_connected := True\<rparr> in
        if as_connectCb s \<and> \<not> connect_cb_ok then start_failed order this s
        else rbind (startRead s) (\<lambda>s. rbind (startWrite s) (\<lambda>s. Inr (True, s))))"

definition as_start :: "(32 word set \<Rightarrow> 32 word list) \<Rightarrow> nat option \<Rightarrow> bool \<Rightarrow> bool \<Rightarrow> async_stream
    \<Rightarrow> (bool \<times> async_stream) result option" where
  "as_start order this reconnect_ok connect_cb_ok s =
     map_option (as_start_body order this reconnect_ok connect_cb_ok) (waitFiber (as_start_enter this s))"

text \<open>
  One turn of the loop of \<open>doRead\<close>; \<open>recv\<close> is what \<open>doRecv\<close> gives: \<open>None\<close> for an exception, else perhaps a context.
  The flag says whether the loop goes on.
\<close>

definition doRead_end :: "(32 word set \<Rightarrow> 32 word list) \<Rightarrow> nat option \<Rightarrow> async_stream \<Rightarrow> (bool \<times> async_stream) result" where
  "doRead_end order this s =
     rbind (innerClose order this s) (\<lambda>s.
       let s = s\<lparr>as_waitSem := as_waitSem s + 1, as_readers := as_readers s - 1\<rparr> in
       if as_autoConnect s then
         if as_iomanager s = None then Inl Null_deref else Inr (False, snd (as_addTimer 10 s))
       else Inr (False, s))"

definition doRead_turn :: "(32 word set \<Rightarrow> 32 word list) \<Rightarrow> nat option \<Rightarrow> nat option option \<Rightarrow> async_stream \<Rightarrow> (bool \<times> async_stream) result" where
  "doRead_turn order this recv s =
     (if as_connected s then
        case recv of
          None \<Rightarrow> doRead_end order this s
        | Some None \<Rightarrow> Inr (True, s)
        | Some (Some p) \<Rightarrow> Inr (True, doRsp_now p s)
      else doRead_end order this s)"

text \<open>One turn of \<open>doWrite\<close>: \<open>None\<close> if it waits for the semaphore; \<open>sent\<close> says which of the contexts \<open>doSend\<close> could send.\<close>

fun send_loop :: "(32 word set \<Rightarrow> 32 word list) \<Rightarrow> nat option \<Rightarrow> (nat \<Rightarrow> bool) \<Rightarrow> nat list \<Rightarrow> async_stream \<Rightarrow> async_stream result" where
  "send_loop order this sent [] s = Inr s"
| "send_loop order this sent (p # ps) s = (if \<not> sent p then innerClose order this s else send_loop order this sent ps s)"

definition doWrite_end :: "async_stream \<Rightarrow> async_stream" where
  "doWrite_end s = s\<lparr>as_queue := [], as_waitSem := as_waitSem s + 1, as_writers := as_writers s - 1\<rparr>"

definition doWrite_turn :: "(32 word set \<Rightarrow> 32 word list) \<Rightarrow> nat option \<Rightarrow> (nat \<Rightarrow> bool) \<Rightarrow> async_stream \<Rightarrow> (bool \<times> async_stream) result option" where
  "doWrite_turn order this sent s =
     (if as_connected s then
        if as_sem s = 0 then None
        else
          let s = s\<lparr>as_sem := as_sem s - 1\<rparr>; ctxs = as_queue s
          in Some (rbind (send_loop order this sent ctxs (s\<lparr>as_queue := []\<rparr>)) (\<lambda>s. Inr (True, s)))
      else Some (Inr (False, doWrite_end s)))"

text \<open>\<open>close\<close>, once it runs in the \<^verbatim>\<open>IOManager\<close> of the stream; the timer is cancelled but kept.\<close>

definition as_close :: "async_stream \<Rightarrow> async_stream" where
  "as_close s =
     (let s = s\<lparr>as_autoConnect := False\<rparr>;
          s = (case as_timer s of Some t \<Rightarrow> s\<lparr>as_cancelled := as_cancelled s @ [t]\<rparr> | None \<Rightarrow> s)
      in s\<lparr>as_connected := False\<rparr>)"

section \<open>The pool\<close>

record 'cb pool_stream =
  ps_connected :: bool
  ps_connectCb :: "'cb option"
  ps_disconnectCb :: "'cb option"

record 'cb stream_pool =
  sp_size :: "32 word"
  sp_idx :: "32 word"
  sp_datas :: "nat list"
  sp_connectCb :: "'cb option"
  sp_disconnectCb :: "'cb option"

definition mk_AsyncSocketStreamManager :: "'cb stream_pool" where
  "mk_AsyncSocketStreamManager = \<lparr>sp_size = 0, sp_idx = 0, sp_datas = [], sp_connectCb = None, sp_disconnectCb = None\<rparr>"

definition ps_upd :: "('cb pool_stream \<Rightarrow> 'cb pool_stream) \<Rightarrow> nat \<Rightarrow> (nat \<Rightarrow> 'cb pool_stream) \<Rightarrow> nat \<Rightarrow> 'cb pool_stream" where
  "ps_upd f p h = h(p := f (h p))"

definition pool_add :: "nat \<Rightarrow> 'cb stream_pool \<Rightarrow> (nat \<Rightarrow> 'cb pool_stream) \<Rightarrow> 'cb stream_pool \<times> (nat \<Rightarrow> 'cb pool_stream)" where
  "pool_add p m h =
     (let h = (if sp_connectCb m \<noteq> None then ps_upd (\<lambda>x. x\<lparr>ps_connectCb := sp_connectCb m\<rparr>) p h else h);
          h = (if sp_disconnectCb m \<noteq> None then ps_upd (\<lambda>x. x\<lparr>ps_disconnectCb := sp_disconnectCb m\<rparr>) p h else h)
      in (m\<lparr>sp_datas := sp_datas m @ [p], sp_size := sp_size m + 1\<rparr>, h))"

definition pool_close :: "nat list \<Rightarrow> (nat \<Rightarrow> 'cb pool_stream) \<Rightarrow> nat \<Rightarrow> 'cb pool_stream" where
  "pool_close ps = fold (ps_upd (\<lambda>x. x\<lparr>ps_connected := False\<rparr>)) ps"

definition pool_clear :: "'cb stream_pool \<Rightarrow> (nat \<Rightarrow> 'cb pool_stream) \<Rightarrow> 'cb stream_pool \<times> (nat \<Rightarrow> 'cb pool_stream)" where
  "pool_clear m h = (m\<lparr>sp_datas := [], sp_size := 0\<rparr>, pool_close (sp_datas m) h)"

text \<open>Both callbacks are set under the same condition, that there is a callback for connecting.\<close>

definition setConnection :: "nat list \<Rightarrow> 'cb stream_pool \<Rightarrow> (nat \<Rightarrow> 'cb pool_stream) \<Rightarrow> 'cb stream_pool \<times> (nat \<Rightarrow> 'cb pool_stream)" where
  "setConnection streams m h =
     (let cs = sp_datas m;
          m = m\<lparr>sp_datas := streams, sp_size := of_nat (length streams)\<rparr>;
          h = (if sp_connectCb m \<noteq> None \<or> sp_disconnectCb m \<noteq> None then
                 fold (\<lambda>p h. if sp_connectCb m \<noteq> None
                   then ps_upd (\<lambda>x. x\<lparr>ps_connectCb := sp_connectCb m, ps_disconnectCb := sp_disconnectCb m\<rparr>) p h else h) streams h
               else h)
      in (m, pool_close cs h))"

fun pool_loop :: "nat \<Rightarrow> (nat \<Rightarrow> 'cb pool_stream) \<Rightarrow> 'cb stream_pool \<Rightarrow> nat option \<times> 'cb stream_pool" where
  "pool_loop 0 h m = (None, m)"
| "pool_loop (Suc n) h m =
     (let idx = sp_idx m + 1; m = m\<lparr>sp_idx := idx\<rparr>; p = sp_datas m ! unat (idx mod sp_size m)
      in if ps_connected (h p) then (Some p, m) else pool_loop n h m)"

definition pool_get :: "(nat \<Rightarrow> 'cb pool_stream) \<Rightarrow> 'cb stream_pool \<Rightarrow> nat option \<times> 'cb stream_pool" where
  "pool_get h m = pool_loop (unat (sp_size m)) h m"

definition pool_setConnectCb :: "'cb option \<Rightarrow> 'cb stream_pool \<Rightarrow> (nat \<Rightarrow> 'cb pool_stream) \<Rightarrow> 'cb stream_pool \<times> (nat \<Rightarrow> 'cb pool_stream)" where
  "pool_setConnectCb v m h = (m\<lparr>sp_connectCb := v\<rparr>, fold (ps_upd (\<lambda>x. x\<lparr>ps_connectCb := v\<rparr>)) (sp_datas m) h)"

definition pool_setDisconnectCb :: "'cb option \<Rightarrow> 'cb stream_pool \<Rightarrow> (nat \<Rightarrow> 'cb pool_stream) \<Rightarrow> 'cb stream_pool \<times> (nat \<Rightarrow> 'cb pool_stream)" where
  "pool_setDisconnectCb v m h = (m\<lparr>sp_disconnectCb := v\<rparr>, fold (ps_upd (\<lambda>x. x\<lparr>ps_disconnectCb := v\<rparr>)) (sp_datas m) h)"

section \<open>Answering a request\<close>

text \<open>
  Threads that answer contexts: thread \<open>t\<close> is in \<open>doRsp\<close> of a context, with the scheduler that it has read, in front of its
  compare-and-swap or behind it, or it is not in \<open>doRsp\<close>.
\<close>

datatype rsp_pc = Seen "nat option" | Won "nat option"

inductive rsp_step :: "async_stream \<times> (nat \<rightharpoonup> nat \<times> rsp_pc) \<Rightarrow> async_stream \<times> (nat \<rightharpoonup> nat \<times> rsp_pc) \<Rightarrow> bool" where
  enter: "T t = None \<Longrightarrow> rsp_step (s, T) (s, T(t \<mapsto> (p, Seen (cx_scheduler (as_heap s p)))))"
| swap: "T t = Some (p, Seen seen) \<Longrightarrow> doRsp_cas seen p s = (won, s') \<Longrightarrow>
    rsp_step (s, T) (s', T(t := if won then Some (p, Won seen) else None))"
| finish: "T t = Some (p, Won scd) \<Longrightarrow> rsp_step (s, T) (doRsp_rest scd p s, T(t := None))"
| mark: "rsp_step (s, T) (onTimeOut_mark p s, T)"
| set_result: "rsp_step (s, T) (upd_ctx p (\<lambda>c. c\<lparr>cx_result := r\<rparr>) s, T)"

definition armed :: "nat \<Rightarrow> nat \<Rightarrow> ctx \<Rightarrow> bool" where
  "armed scd f c \<longleftrightarrow> cx_scheduler c = Some scd \<and> cx_fiber c = Some f"

definition answered :: "ctx \<Rightarrow> bool" where
  "answered c \<longleftrightarrow> cx_scheduler c = None \<and> cx_fiber c = None"

text \<open>Nobody has won, exactly one thread has won and not yet scheduled the fiber, or it is done.\<close>

fun wins :: "nat \<Rightarrow> (nat \<times> rsp_pc) option \<Rightarrow> nat set" where
  "wins p (Some (q, Won (Some scd))) = (if q = p then {scd} else {})"
| "wins p _ = {}"

definition winners :: "nat \<Rightarrow> (nat \<rightharpoonup> nat \<times> rsp_pc) \<Rightarrow> (nat \<times> nat) set" where
  "winners p T = {(t, scd). scd \<in> wins p (T t)}"

definition rsp_ok :: "nat \<Rightarrow> nat \<Rightarrow> nat \<Rightarrow> async_stream \<times> (nat \<rightharpoonup> nat \<times> rsp_pc) \<Rightarrow> bool" where
  "rsp_ok p scd f st \<longleftrightarrow> (case st of (s, T) \<Rightarrow>
     (\<forall>q. q \<noteq> p \<longrightarrow> cx_fiber (as_heap s q) \<noteq> Some f) \<and>
     (armed scd f (as_heap s p) \<and> count_list (as_scheduled s) (scd, f) = 0 \<and> winners p T = {} \<and>
        (\<forall>t seen. T t = Some (p, Seen seen) \<longrightarrow> seen = Some scd) \<or>
      cx_scheduler (as_heap s p) = None \<and> cx_fiber (as_heap s p) = Some f \<and> count_list (as_scheduled s) (scd, f) = 0 \<and>
        (\<exists>t. winners p T = {(t, scd)}) \<or>
      answered (as_heap s p) \<and> count_list (as_scheduled s) (scd, f) = 1 \<and> winners p T = {}))"

lemma heap_upd_ctx [simp]: "as_heap (upd_ctx p g s) = (as_heap s)(p := g (as_heap s p))"
  by (simp add: upd_ctx_def)

lemma upd_ctx_simps [simp]:
  "as_scheduled (upd_ctx p g s) = as_scheduled s" "as_ctxs (upd_ctx p g s) = as_ctxs s" "as_queue (upd_ctx p g s) = as_queue s"
  "as_connected (upd_ctx p g s) = as_connected s" "as_readers (upd_ctx p g s) = as_readers s"
  "as_writers (upd_ctx p g s) = as_writers s" "as_waitSem (upd_ctx p g s) = as_waitSem s" "as_sem (upd_ctx p g s) = as_sem s"
  by (simp_all add: upd_ctx_def)

lemma doRsp_other: "q \<noteq> p \<Longrightarrow> as_heap (doRsp seen p s) q = as_heap s q"
  by (simp add: doRsp_defs Let_def split: option.splits)

lemma doRsp_armed:
  assumes "armed scd f (as_heap s p)"
  shows "as_scheduled (doRsp (Some scd) p s) = as_scheduled s @ [(scd, f)]" "answered (as_heap (doRsp (Some scd) p s) p)"
  using assms by (auto simp: doRsp_defs armed_def answered_def Let_def split: option.splits)

text \<open>The three effects of the steps: losing, winning, scheduling.\<close>

lemma cas_lost: "doRsp_cas seen p s = (False, s') \<Longrightarrow> s' = s \<and> cx_scheduler (as_heap s p) \<noteq> seen"
  by (simp add: doRsp_cas_def split: if_splits)

lemma cas_won:
  "doRsp_cas seen p s = (True, s') \<Longrightarrow> cx_scheduler (as_heap s p) = seen \<and> s' = upd_ctx p (\<lambda>c. c\<lparr>cx_scheduler := None\<rparr>) s"
  by (simp add: doRsp_cas_def split: if_splits)

lemma rest_other: "q \<noteq> p \<Longrightarrow> as_heap (doRsp_rest scd p s) q = as_heap s q"
  by (simp add: doRsp_rest_def Let_def split: option.splits)

lemma rest_none: "scd = None \<or> cx_fiber (as_heap s p) = None \<Longrightarrow> doRsp_rest scd p s = s"
  by (auto simp: doRsp_rest_def split: option.splits)

lemma rest_some:
  assumes "cx_fiber (as_heap s p) = Some f"
  shows "as_scheduled (doRsp_rest (Some scd) p s) = as_scheduled s @ [(scd, f)]"
    "cx_fiber (as_heap (doRsp_rest (Some scd) p s) p) = None"
    "cx_scheduler (as_heap (doRsp_rest (Some scd) p s) p) = cx_scheduler (as_heap s p)"
  using assms by (auto simp: doRsp_rest_def Let_def split: option.splits)

end
