(* ===== verification/Async_Stream_Laws.thy ===== *)
theory Async_Stream_Laws
  imports Async_Stream
begin

text \<open>
  The properties of \<open>Async_Stream\<close>: answers of requests (\<open>rsp_step\<close>), the life of a stream with its starts, reader and writer
  (\<open>life_step\<close>), closing, and the pool.
\<close>

section \<open>Each request is answered once\<close>

lemma count_snoc [simp]: "count_list (xs @ [y]) x = count_list xs x + (if x = y then 1 else 0)"
  by (induction xs) auto

lemma winners_upd: "winners p (T(t := x)) = (winners p T - {t} \<times> UNIV) \<union> {t} \<times> wins p x"
  by (auto simp: winners_def split: if_splits)

lemma no_winner: "wins p (T t) = {} \<Longrightarrow> winners p T - {t} \<times> UNIV = winners p T"
  by (auto simp: winners_def)

lemma winners_same: "wins p (T t) = {} \<Longrightarrow> wins p x = {} \<Longrightarrow> winners p (T(t := x)) = winners p T"
  by (simp add: winners_upd no_winner)

lemma enter_ok: "T t = None \<Longrightarrow> rsp_ok p scd f (s, T) \<Longrightarrow> rsp_ok p scd f (s, T(t \<mapsto> (q, Seen (cx_scheduler (as_heap s q)))))"
  by (auto simp: rsp_ok_def winners_same armed_def)

lemma swap_ok:
  assumes "T t = Some (q, Seen seen)" "doRsp_cas seen q s = (won, s')" "rsp_ok p scd f (s, T)"
  shows "rsp_ok p scd f (s', T(t := if won then Some (q, Won seen) else None))"
proof (cases won)
  case False
  have "winners p (T(t := None)) = winners p T" using assms(1) by (simp add: winners_same)
  then show ?thesis using assms(3) False cas_lost[of seen q s s'] assms(2) unfolding rsp_ok_def by auto
next
  case True
  then have w: "cx_scheduler (as_heap s q) = seen" "s' = upd_ctx q (\<lambda>c. c\<lparr>cx_scheduler := None\<rparr>) s"
    using cas_won assms(2) by auto
  show ?thesis
  proof (cases "q = p")
    case False
    then have "winners p (T(t \<mapsto> (q, Won seen))) = winners p T"
      using assms(1) by (cases seen) (simp_all add: winners_same)
    then show ?thesis using assms(3) w False True unfolding rsp_ok_def by (auto simp: armed_def answered_def)
  next
    case qp: True
    show ?thesis
    proof (cases "armed scd f (as_heap s p)")
      case a: True
      then have "seen = Some scd" "winners p T = {}" using assms(3) w(1) qp by (auto simp: armed_def answered_def rsp_ok_def)
      then show ?thesis using assms(3) a w qp True by (auto simp: rsp_ok_def winners_upd armed_def answered_def)
    next
      case False
      then have n: "seen = None" using assms(3) w(1) qp by (auto simp: rsp_ok_def answered_def)
      have "winners p (T(t \<mapsto> (q, Won None))) = winners p T" using assms(1) by (simp add: winners_same)
      then show ?thesis using assms(3) False w qp True n unfolding rsp_ok_def by (auto simp: armed_def answered_def)
    qed
  qed
qed

lemma rest_ok:
  assumes "T t = Some (q, Won sc)" "rsp_ok p scd f (s, T)"
  shows "rsp_ok p scd f (doRsp_rest sc q s, T(t := None))"
proof (cases "sc = None \<or> cx_fiber (as_heap s q) = None")
  case True
  have "winners p (T(t := None)) = winners p T"
  proof (cases "sc = None \<or> q \<noteq> p")
    case False
    with True have "cx_fiber (as_heap s p) = None" by auto
    then have "winners p T = {}" using assms(2) by (auto simp: rsp_ok_def armed_def)
    then show ?thesis by (simp add: winners_upd)
  next
    case True
    then show ?thesis using assms(1) by (cases sc) (auto simp: winners_same)
  qed
  then show ?thesis using assms(2) rest_none[OF True] unfolding rsp_ok_def by auto
next
  case False
  then obtain sc' f' where s: "sc = Some sc'" "cx_fiber (as_heap s q) = Some f'" by auto
  note r = rest_some[OF s(2), of sc']
  show ?thesis
  proof (cases "q = p")
    case False
    then have "f' \<noteq> f" "winners p (T(t := None)) = winners p T" using assms s by (auto simp: rsp_ok_def winners_same)
    moreover have "cx_fiber (as_heap (doRsp_rest sc q s) x) \<noteq> Some f" if "x \<noteq> p" for x
      using assms(2) that r(2) s(1) rest_other[of x q sc s] by (cases "x = q") (auto simp: rsp_ok_def)
    ultimately show ?thesis using assms(2) r(1) s(1) False rest_other[of p q sc s] unfolding rsp_ok_def by auto
  next
    case qp: True
    have "(t, sc') \<in> winners p T" using assms(1) s(1) qp by (simp add: winners_def)
    then have w: "winners p T = {(t, scd)}" "sc' = scd" "f' = f" "cx_scheduler (as_heap s p) = None"
      "count_list (as_scheduled s) (scd, f) = 0" using assms(2) s(2) qp by (auto simp: rsp_ok_def armed_def answered_def)
    have "winners p (T(t := None)) = {}" using w(1) by (auto simp: winners_upd)
    then show ?thesis using assms(2) w r s(1) qp rest_other[of _ p sc s] unfolding rsp_ok_def by (auto simp: answered_def)
  qed
qed

lemma rsp_step_ok: "rsp_step st st' \<Longrightarrow> rsp_ok p scd f st \<Longrightarrow> rsp_ok p scd f st'"
proof (induction rule: rsp_step.induct)
  case (enter T t s q)
  then show ?case by (rule enter_ok)
next
  case (swap T t q seen s won s')
  then show ?case by (rule swap_ok)
next
  case (finish T t q sc s)
  then show ?case by (rule rest_ok)
qed (auto simp: rsp_ok_def armed_def answered_def onTimeOut_mark_def upd_ctx_def)

lemma rsp_reach_ok: "rsp_step\<^sup>*\<^sup>* st st' \<Longrightarrow> rsp_ok p scd f st \<Longrightarrow> rsp_ok p scd f st'"
  by (induction rule: rtranclp_induct) (auto intro: rsp_step_ok)

section \<open>One reader and one writer\<close>

text \<open>
  The life of a stream: besides the state, the starts that wait for their first and for their second token.  Which context
  arrives, what is sent and whether connecting works is chosen at each step.
\<close>

inductive life_step :: "(32 word set \<Rightarrow> 32 word list) \<Rightarrow> async_stream \<times> nat \<times> nat \<Rightarrow> async_stream \<times> nat \<times> nat \<Rightarrow> bool" for order where
  enter: "life_step order (s, a, b) (as_start_enter this s, Suc a, b)"
| first: "as_wait s = Some s' \<Longrightarrow> life_step order (s, Suc a, b) (s', a, Suc b)"
| second: "as_wait s = Some s' \<Longrightarrow> as_start_body order this rok cok s' = Inr (r, s'') \<Longrightarrow> life_step order (s, a, Suc b) (s'', a, b)"
| read: "as_readers s > 0 \<Longrightarrow> doRead_turn order this recv s = Inr (on, s') \<Longrightarrow> life_step order (s, a, b) (s', a, b)"
| writing: "as_writers s > 0 \<Longrightarrow> doWrite_turn order this sent s = Some (Inr (on, s')) \<Longrightarrow> life_step order (s, a, b) (s', a, b)"
| timeout: "life_step order (s, a, b) (onTimeOut p s, a, b)"
| request: "enqueue p (snd (addCtx p s)) = (e, s') \<Longrightarrow> life_step order (s, a, b) (s', a, b)"
| answer: "getAndDelCtx sn s = (c, s') \<Longrightarrow> life_step order (s, a, b) (s', a, b)"
| close: "life_step order (s, a, b) (as_close s, a, b)"

text \<open>What the operations do to the tokens.\<close>

definition tok :: "async_stream \<Rightarrow> nat \<times> nat \<times> nat" where
  "tok s = (as_waitSem s, as_readers s, as_writers s)"

lemma tok_doRsp [simp]: "tok (doRsp seen p s) = tok s"
  by (auto simp: tok_def doRsp_defs Let_def upd_ctx_def split: option.splits)

lemma tok_fail [simp]: "tok (fail_ctx p s) = tok s"
  by (simp add: fail_ctx_def doRsp_now_def) (simp add: tok_def upd_ctx_def)

lemma tok_fold [simp]: "tok (fold (\<lambda>sn. fail_ctx (g sn)) sns s) = tok s"
  by (induction sns arbitrary: s) simp_all

lemma tok_innerClose: "innerClose order this s = Inr s' \<Longrightarrow> tok s' = tok s"
  by (auto simp: innerClose_def Let_def split: if_splits) (simp_all add: tok_def)

lemma tok_send_loop: "send_loop order this sent ps s = Inr s' \<Longrightarrow> tok s' = tok s"
  by (induction ps) (auto split: if_splits dest: tok_innerClose)

lemma tok_cancel [simp]: "tok (as_cancelTimer s) = tok s"
  by (simp add: tok_def as_cancelTimer_def split: option.splits)

definition life_ok :: "async_stream \<times> nat \<times> nat \<Rightarrow> bool" where
  "life_ok st \<longleftrightarrow> (case st of (s, a, b) \<Rightarrow> (case tok s of (sem, r, w) \<Rightarrow> sem + b + r + w = 2 \<and> r \<le> 1 \<and> w \<le> 1))"

lemma tok_cancel_more [simp]:
  "as_waitSem (as_cancelTimer s) = as_waitSem s" "as_readers (as_cancelTimer s) = as_readers s"
  "as_writers (as_cancelTimer s) = as_writers s"
  by (simp_all add: as_cancelTimer_def split: option.splits)

lemma start_failed_tok:
  assumes "start_failed order this s = Inr (r, s')" "tok s = (sem, rd, wr)"
  shows "tok s' = (sem + 2, rd, wr)"
proof -
  obtain s1 where s1: "innerClose order this s = Inr s1"
    and r: "(let s = s1\<lparr>as_waitSem := as_waitSem s1 + 2\<rparr> in
       if as_autoConnect s then
         let s = as_cancelTimer s in
         if as_iomanager s = None then Inl Null_deref
         else let (t, s) = as_addTimer 2000 s in Inr (False, s\<lparr>as_timer := Some t\<rparr>)
       else Inr (False, s)) = Inr (r, s')"
    using assms(1) unfolding start_failed_def rbind_eq_Inr_iff by blast
  have "tok s1 = (sem, rd, wr)" using tok_innerClose[OF s1] assms(2) by simp
  then show ?thesis using r by (auto simp: Let_def tok_def as_addTimer_def split: if_splits)
qed

lemma start_body_tok:
  assumes "as_start_body order this rok cok s = Inr (r, s')" "tok s = (sem, rd, wr)"
  shows "tok s' = (sem + 2, rd, wr) \<or> tok s' = (sem, rd + 1, wr + 1)"
proof -
  have t: "tok (as_cancelTimer s) = (sem, rd, wr)" "tok (as_cancelTimer s\<lparr>as_connected := True\<rparr>) = (sem, rd, wr)"
    using assms(2) tok_cancel[of s] by (simp_all add: tok_def)
  show ?thesis
    using assms(1) t start_failed_tok
    by (fastforce simp: as_start_body_def Let_def startRead_def startWrite_def rbind_eq_Inr_iff tok_def split: if_splits)
qed

lemma wait_tok: "as_wait s = Some s' \<Longrightarrow> tok s = (sem, rd, wr) \<Longrightarrow> sem > 0 \<and> tok s' = (sem - 1, rd, wr)"
  by (auto simp: as_wait_def tok_def split: if_splits)

lemma read_end_tok:
  assumes "doRead_end order this s = Inr (on, s')" "tok s = (sem, rd, wr)"
  shows "tok s' = (sem + 1, rd - 1, wr)"
proof -
  obtain s1 where s1: "innerClose order this s = Inr s1"
    and r: "(let s = s1\<lparr>as_waitSem := as_waitSem s1 + 1, as_readers := as_readers s1 - 1\<rparr> in
       if as_autoConnect s then
         if as_iomanager s = None then Inl Null_deref else Inr (False, snd (as_addTimer 10 s))
       else Inr (False, s)) = Inr (on, s')"
    using assms(1) unfolding doRead_end_def rbind_eq_Inr_iff by blast
  have "tok s1 = (sem, rd, wr)" using tok_innerClose[OF s1] assms(2) by simp
  then show ?thesis using r by (auto simp: Let_def tok_def as_addTimer_def split: if_splits)
qed

lemma read_tok:
  assumes "doRead_turn order this recv s = Inr (on, s')" "tok s = (sem, rd, wr)"
  shows "tok s' = (sem, rd, wr) \<or> tok s' = (sem + 1, rd - 1, wr)"
  using assms read_end_tok
  by (auto simp: doRead_turn_def doRsp_now_def split: if_splits option.splits)

lemma write_tok:
  assumes "doWrite_turn order this sent s = Some (Inr (on, s'))" "tok s = (sem, rd, wr)"
  shows "tok s' = (sem, rd, wr) \<or> tok s' = (sem + 1, rd, wr - 1)"
proof (cases "as_connected s")
  case True
  then have "send_loop order this sent (as_queue s) (s\<lparr>as_sem := as_sem s - 1, as_queue := []\<rparr>) = Inr s'"
    using assms(1) by (auto simp: doWrite_turn_def Let_def rbind_eq_Inr_iff split: if_splits)
  from tok_send_loop[OF this] show ?thesis using assms(2) by (simp add: tok_def)
qed (use assms in \<open>auto simp: doWrite_turn_def doWrite_end_def tok_def\<close>)

lemma other_tok:
  "tok (onTimeOut p s) = tok s" "tok (snd (addCtx p s)) = tok s" "enqueue p s = (e, s') \<Longrightarrow> tok s' = tok s"
  "getAndDelCtx sn s = (c, s') \<Longrightarrow> tok s' = tok s" "tok (as_close s) = tok s" "tok (as_start_enter this s) = tok s"
       apply (simp add: onTimeOut_def doRsp_now_def) apply (simp add: tok_def onTimeOut_mark_def)
      apply (simp add: tok_def addCtx_def Let_def)
     apply (auto simp: tok_def enqueue_def Let_def getAndDelCtx_def as_start_enter_def as_close_def split: option.splits)
  done

lemma life_step_tokens:
  assumes "life_step order (s, a, b) (s', a', b')" "life_ok (s, a, b)"
  shows "life_ok (s', a', b')"
  using assms(1)
proof cases
  case enter
  then show ?thesis using assms(2) by (simp add: life_ok_def other_tok)
next
  case first
  obtain sem rd wr where t: "tok s = (sem, rd, wr)" by (cases "tok s")
  show ?thesis using wait_tok[OF first(3) t] t assms(2) first by (auto simp: life_ok_def)
next
  case (second s1 this rok cok r)
  obtain sem rd wr where t: "tok s = (sem, rd, wr)" by (cases "tok s")
  note w = wait_tok[OF second(3) t]
  show ?thesis using start_body_tok[OF second(4), of "sem - 1" rd wr] w t assms(2) second by (auto simp: life_ok_def)
next
  case (read this recv on)
  obtain sem rd wr where t: "tok s = (sem, rd, wr)" by (cases "tok s")
  show ?thesis using read_tok[OF read(4) t] t assms(2) read by (auto simp: life_ok_def tok_def)
next
  case (writing this sent on)
  obtain sem rd wr where t: "tok s = (sem, rd, wr)" by (cases "tok s")
  show ?thesis using write_tok[OF writing(4) t] t assms(2) writing by (auto simp: life_ok_def tok_def)
qed (use assms(2) in \<open>auto simp: life_ok_def other_tok\<close>)

lemma life_reach_ok: "(life_step order)\<^sup>*\<^sup>* (mk_AsyncSocketStream c, 0, 0) st \<Longrightarrow> life_ok st"
proof (induction rule: rtranclp_induct)
  case base
  then show ?case by (simp add: life_ok_def tok_def mk_AsyncSocketStream_def)
next
  case (step y z)
  then show ?case using life_step_tokens by (cases y; cases z) blast
qed

text \<open>Once two starts have a token each, nothing gives one back.\<close>

lemma two_stuck_step:
  assumes "life_step order (s, a, 2) (s', a', b')" "life_ok (s, a, 2)"
  shows "b' = 2"
proof -
  have z: "as_waitSem s = 0" "as_readers s = 0" "as_writers s = 0" using assms(2) by (auto simp: life_ok_def tok_def)
  show ?thesis using assms(1) z by cases (auto simp: as_wait_def)
qed

lemma two_stuck:
  assumes "(life_step order)\<^sup>*\<^sup>* (s, a, 2) (s', a', b')" "life_ok (s, a, 2)"
  shows "b' = 2 \<and> life_ok (s', a', b')"
  using assms(1)
proof (induction "(s', a', b')" arbitrary: s' a' b' rule: rtranclp_induct)
  case base
  then show ?case using assms(2) by simp
next
  case (step y)
  obtain s1 a1 b1 where y: "y = (s1, a1, b1)" by (cases y)
  with step(3)[OF y] step(2) show ?case using two_stuck_step life_step_tokens by blast
qed

section \<open>Closing\<close>

definition closed_ctx :: "ctx \<Rightarrow> bool" where
  "closed_ctx c \<longleftrightarrow> answered c \<and> cx_result c = (if cx_timed c then TIMEOUT else IO_ERROR)"

lemma fail_ctx_armed:
  assumes "armed scd f (as_heap s p)"
  shows "closed_ctx (as_heap (fail_ctx p s) p)" "as_scheduled (fail_ctx p s) = as_scheduled s @ [(scd, f)]"
  using assms by (auto simp: fail_ctx_def doRsp_now_def doRsp_defs armed_def closed_ctx_def answered_def Let_def split: option.splits)

lemma fail_ctx_other: "q \<noteq> p \<Longrightarrow> as_heap (fail_ctx p s) q = as_heap s q"
  by (simp add: fail_ctx_def doRsp_now_def doRsp_other)

lemma fail_ctx_simps [simp]:
  "as_ctxs (fail_ctx p s) = as_ctxs s" "as_queue (fail_ctx p s) = as_queue s" "as_connected (fail_ctx p s) = as_connected s"
  "as_sem (fail_ctx p s) = as_sem s"
  by (simp_all add: fail_ctx_def doRsp_now_def doRsp_defs Let_def upd_ctx_def split: option.splits)

lemma fold_fail_simps [simp]:
  "as_ctxs (fold (\<lambda>sn. fail_ctx (g sn)) sns s) = as_ctxs s" "as_queue (fold (\<lambda>sn. fail_ctx (g sn)) sns s) = as_queue s"
  "as_connected (fold (\<lambda>sn. fail_ctx (g sn)) sns s) = as_connected s" "as_sem (fold (\<lambda>sn. fail_ctx (g sn)) sns s) = as_sem s"
  by (induction sns arbitrary: s) simp_all

lemma fold_fail_other: "p \<notin> g ` set sns \<Longrightarrow> as_heap (fold (\<lambda>sn. fail_ctx (g sn)) sns s) p = as_heap s p"
  by (induction sns arbitrary: s) (auto simp: fail_ctx_other)

lemma fold_fail:
  assumes "distinct (List.map g sns)" "\<forall>sn \<in> set sns. armed (scd sn) (fb sn) (as_heap s (g sn))"
  shows "(\<forall>sn \<in> set sns. closed_ctx (as_heap (fold (\<lambda>sn. fail_ctx (g sn)) sns s) (g sn))) \<and>
    as_scheduled (fold (\<lambda>sn. fail_ctx (g sn)) sns s) = as_scheduled s @ List.map (\<lambda>sn. (scd sn, fb sn)) sns"
  using assms
proof (induction sns arbitrary: s)
  case (Cons sn sns)
  have a: "armed (scd sn) (fb sn) (as_heap s (g sn))" using Cons.prems(2) by simp
  have "\<forall>x \<in> set sns. armed (scd x) (fb x) (as_heap (fail_ctx (g sn) s) (g x))"
    using Cons.prems by (auto simp: fail_ctx_other image_iff)
  with Cons have ih: "(\<forall>x \<in> set sns. closed_ctx (as_heap (fold (\<lambda>sn. fail_ctx (g sn)) sns (fail_ctx (g sn) s)) (g x))) \<and>
    as_scheduled (fold (\<lambda>sn. fail_ctx (g sn)) sns (fail_ctx (g sn) s)) =
      as_scheduled (fail_ctx (g sn) s) @ List.map (\<lambda>sn. (scd sn, fb sn)) sns" by simp
  have "g sn \<notin> g ` set sns" using Cons.prems(1) by simp
  then show ?case using ih fail_ctx_armed[OF a] by (simp add: fold_fail_other)
qed simp

section \<open>The pool\<close>

lemma pool_loop_some:
  "pool_loop n h m = (Some p, m') \<Longrightarrow> sp_datas m \<noteq> [] \<Longrightarrow> sp_size m = of_nat (length (sp_datas m)) \<Longrightarrow>
    length (sp_datas m) < 2 ^ 32 \<Longrightarrow> p \<in> set (sp_datas m) \<and> ps_connected (h p)"
proof (induction n arbitrary: m)
  case (Suc n)
  have "unat (sp_size m) = length (sp_datas m)" using Suc.prems(3,4) by (simp add: unat_of_nat take_bit_eq_mod)
  then have i: "unat ((sp_idx m + 1) mod sp_size m) < length (sp_datas m)"
    using Suc.prems(2) by (simp add: unat_mod_distrib)
  show ?case
  proof (cases "ps_connected (h (sp_datas m ! unat ((sp_idx m + 1) mod sp_size m)))")
    case True
    then show ?thesis using Suc.prems(1) i by (auto simp: Let_def)
  next
    case False
    then have "pool_loop n h (m\<lparr>sp_idx := sp_idx m + 1\<rparr>) = (Some p, m')" using Suc.prems(1) by (simp add: Let_def)
    from Suc.IH[OF this] Suc.prems show ?thesis by simp
  qed
qed simp

lemma pool_loop_none:
  assumes "pool_loop n h m = (None, m')" "i < n" "unat (sp_idx m) + n < 2 ^ 32"
  shows "\<not> ps_connected (h (sp_datas m ! ((unat (sp_idx m) + 1 + i) mod unat (sp_size m))))"
  using assms
proof (induction n arbitrary: m i)
  case (Suc n)
  have u: "unat (sp_idx m + 1) = unat (sp_idx m) + 1" using Suc.prems(3) by (simp add: unat_plus_simple unat_word_ariths)
  have c: "\<not> ps_connected (h (sp_datas m ! unat ((sp_idx m + 1) mod sp_size m)))"
    and r: "pool_loop n h (m\<lparr>sp_idx := sp_idx m + 1\<rparr>) = (None, m')"
    using Suc.prems(1) by (auto simp: Let_def split: if_splits)
  show ?case
  proof (cases i)
    case 0
    then show ?thesis using c u by (simp add: unat_mod_distrib)
  next
    case (Suc j)
    then show ?thesis using Suc.IH[OF r, of j] Suc.prems u by simp
  qed
qed simp

lemma residue_hit: "j < n \<Longrightarrow> \<exists>i < n. (k + i) mod n = (j::nat)"
proof -
  assume j: "j < n"
  let ?i = "(j + (n - k mod n)) mod n"
  have "(k + ?i) mod n = (k mod n + (j + (n - k mod n))) mod n" by (metis mod_add_left_eq mod_add_right_eq)
  also have "k mod n + (j + (n - k mod n)) = j + n" using j mod_less_divisor[of n k] by linarith
  finally show ?thesis using j by (intro exI[of _ ?i]) simp
qed

lemma pool_loop_numeral: "pool_loop (numeral k) h m =
   (let idx = sp_idx m + 1; m = m\<lparr>sp_idx := idx\<rparr>; p = sp_datas m ! unat (idx mod sp_size m)
    in if ps_connected (h p) then (Some p, m) else pool_loop (pred_numeral k) h m)"
  by (simp only: numeral_eq_Suc pool_loop.simps)

text \<open>When the counter wraps around, a turn of \<open>get\<close> may not see all streams: here it looks at 0, 0 and 1.\<close>

lemma pool_wrap_misses:
  "pool_get (\<lambda>p. \<lparr>ps_connected = (p = 7), ps_connectCb = None, ps_disconnectCb = None\<rparr>)
     \<lparr>sp_size = 3, sp_idx = - 2, sp_datas = [5, 6, 7], sp_connectCb = None, sp_disconnectCb = None\<rparr> =
   (None, \<lparr>sp_size = 3, sp_idx = 1, sp_datas = [5, 6, 7], sp_connectCb = None, sp_disconnectCb = None\<rparr>)"
  by (simp add: pool_get_def pool_loop_numeral Let_def)

text \<open>A second request under the number of a pending one is not recorded, yet \<open>addCtx\<close> reports success.\<close>

lemma addCtx_duplicate: "as_ctxs s (cx_sn (as_heap s p)) = Some q \<Longrightarrow> addCtx p s = (True, s)"
  by (simp add: addCtx_def Let_def)

text \<open>With a callback only for disconnecting, \<open>setConnection\<close> does not hand it to the streams.\<close>

lemma setConnection_drops_callback:
  "sp_connectCb m = None \<Longrightarrow> sp_datas m = [] \<Longrightarrow> snd (setConnection ps m h) = h"
  by (induction ps arbitrary: h) (auto simp: setConnection_def pool_close_def Let_def split: if_splits)

section \<open>Properties\<close>

text \<open>
  C9: however the reader, the timeout and the closing of the stream interleave when they answer a request, its fiber is
  scheduled at most once: a thread that tries the compare-and-swap leaves the request taken; once it is taken, either one thread has
  won it and the fiber is not yet scheduled, or it has been scheduled exactly once; and the winner's next step schedules it.
\<close>

theorem answered_once:
  assumes "armed scd f (as_heap s0 p)" "\<forall>q. q \<noteq> p \<longrightarrow> cx_fiber (as_heap s0 q) \<noteq> Some f" "as_scheduled s0 = []"
    "rsp_step\<^sup>*\<^sup>* (s0, Map.empty) (s, T)"
  shows "count_list (as_scheduled s) (scd, f) \<le> 1 \<and>
    (T t = Some (p, Seen seen) \<longrightarrow> \<not> armed scd f (as_heap (snd (doRsp_cas seen p s)) p)) \<and>
    (\<not> armed scd f (as_heap s p) \<longrightarrow> count_list (as_scheduled s) (scd, f) = (if winners p T = {} then 1 else 0)) \<and>
    (T t = Some (p, Won (Some scd')) \<longrightarrow> winners p T = {(t, scd)} \<and> count_list (as_scheduled (doRsp_rest (Some scd') p s)) (scd, f) = 1)"
proof -
  have "rsp_ok p scd f (s0, Map.empty)" using assms(1-3) by (simp add: rsp_ok_def winners_def)
  from rsp_reach_ok[OF assms(4) this] have ok: "rsp_ok p scd f (s, T)" .
  have "winners p T = {(t, scd)} \<and> count_list (as_scheduled (doRsp_rest (Some scd') p s)) (scd, f) = 1"
    if t: "T t = Some (p, Won (Some scd'))"
  proof -
    have "(t, scd') \<in> winners p T" using t by (simp add: winners_def)
    then have w: "winners p T = {(t, scd)}" "scd' = scd" "cx_fiber (as_heap s p) = Some f" "count_list (as_scheduled s) (scd, f) = 0"
      using ok by (auto simp: rsp_ok_def)
    then show ?thesis using rest_some(1)[OF w(3)] by simp
  qed
  moreover have "\<not> armed scd f (as_heap (snd (doRsp_cas seen p s)) p)" if "T t = Some (p, Seen seen)"
    using ok that by (auto simp: rsp_ok_def doRsp_cas_def armed_def answered_def)
  moreover have "count_list (as_scheduled s) (scd, f) = (if winners p T = {} then 1 else 0)" if "\<not> armed scd f (as_heap s p)"
    using ok that by (auto simp: rsp_ok_def)
  ultimately show ?thesis using ok by (auto simp: rsp_ok_def)
qed

text \<open>The reader has read the scheduler when the timeout takes the request; the reader then loses.\<close>

lemma answered_once_witness:
  "\<exists>s0 s T. armed 3 4 (as_heap s0 0) \<and> rsp_step\<^sup>*\<^sup>* (s0, Map.empty) (s, T) \<and> T 1 = Some (0, Seen (Some 3)) \<and>
     T 2 = Some (0, Won (Some 3)) \<and> fst (doRsp_cas (Some 3) 0 s) = False \<and>
     count_list (as_scheduled s) (3, 4) = 0 \<and> count_list (as_scheduled (doRsp_rest (Some 3) 0 s)) (3, 4) = 1"
proof -
  let ?s0 = "upd_ctx 0 (\<lambda>c. c\<lparr>cx_scheduler := Some 3, cx_fiber := Some 4\<rparr>) (mk_AsyncSocketStream True)"
  let ?s1 = "upd_ctx 0 (\<lambda>c. c\<lparr>cx_scheduler := None\<rparr>) ?s0"
  let ?T1 = "[1 :: nat \<mapsto> (0, Seen (Some 3))]"
  let ?T2 = "[1 :: nat \<mapsto> (0, Seen (Some 3)), 2 \<mapsto> (0, Seen (Some 3))]"
  let ?T3 = "[1 :: nat \<mapsto> (0, Seen (Some 3)), 2 \<mapsto> (0, Won (Some 3))]"
  have a: "armed 3 4 (as_heap ?s0 0)" "\<forall>q. q \<noteq> 0 \<longrightarrow> cx_fiber (as_heap ?s0 q) \<noteq> Some 4" "as_scheduled ?s0 = []"
    by (auto simp: armed_def mk_AsyncSocketStream_def mk_Ctx_def)
  have sch: "cx_scheduler (as_heap ?s0 0) = Some 3" by simp
  have 1: "rsp_step (?s0, Map.empty) (?s0, ?T1)" using rsp_step.enter[of Map.empty 1 ?s0 0] sch by simp
  have 2: "rsp_step (?s0, ?T1) (?s0, ?T2)" using rsp_step.enter[of ?T1 2 ?s0 0] sch by simp
  have 3: "rsp_step (?s0, ?T2) (?s1, ?T3)"
    using rsp_step.swap[of ?T2 2 0 "Some 3" ?s0 True ?s1] sch by (simp add: doRsp_cas_def)
  have r: "rsp_step\<^sup>*\<^sup>* (?s0, Map.empty) (?s1, ?T3)" by (rule three_steps[of rsp_step, OF 1 2 3])
  have l: "fst (doRsp_cas (Some 3) 0 ?s1) = False" "as_scheduled ?s1 = []" "?T3 1 = Some (0, Seen (Some 3))" "?T3 2 = Some (0, Won (Some 3))"
    using a(3) by (simp_all add: doRsp_cas_def)
  from answered_once[OF a r, of 2 _ 3] have "count_list (as_scheduled (doRsp_rest (Some 3) 0 ?s1)) (3, 4) = 1" using l(4) by blast
  then show ?thesis using a(1) r l by (intro exI[of _ ?s0] exI[of _ ?s1] exI[of _ ?T3]) simp
qed

text \<open>
  C35: in every run of a stream (starts, turns of the reader and the writer, timeouts, requests, answers and closing) there
  is at most one reader and at most one writer, and the tokens account for them: a start that has both tokens finds none left.
\<close>

theorem one_reader_one_writer:
  assumes "(life_step order)\<^sup>*\<^sup>* (mk_AsyncSocketStream c, 0, 0) (s, a, b)"
  shows "as_readers s \<le> 1 \<and> as_writers s \<le> 1 \<and> as_waitSem s + b + as_readers s + as_writers s = 2"
  using life_reach_ok[OF assms] by (simp add: life_ok_def tok_def)

lemma start_once:
  "(life_step order)\<^sup>*\<^sup>* (mk_AsyncSocketStream True, 0, 0)
     ((mk_AsyncSocketStream True)\<lparr>as_iomanager := Some 1, as_worker := Some 1, as_waitSem := 0, as_readers := 1, as_writers := 1\<rparr>, 0, 0)"
proof -
  let ?m = "mk_AsyncSocketStream True"
  let ?s1 = "?m\<lparr>as_iomanager := Some 1, as_worker := Some 1\<rparr>"
  let ?s2 = "?s1\<lparr>as_waitSem := 1\<rparr>"
  let ?s3 = "?s1\<lparr>as_waitSem := 0, as_readers := 1, as_writers := 1\<rparr>"
  have 1: "life_step order (?m, 0, 0) (?s1, 1, 0)"
    using life_step.enter[of order ?m 0 0 "Some 1"] by (simp add: as_start_enter_def mk_AsyncSocketStream_def Let_def)
  have 2: "life_step order (?s1, 1, 0) (?s2, 0, 1)"
    using life_step.first[of ?s1 ?s2 order 0 0] by (simp add: as_wait_def mk_AsyncSocketStream_def)
  have 3: "life_step order (?s2, 0, 1) (?s3, 0, 0)"
    using life_step.second[of ?s2 "?s2\<lparr>as_waitSem := 0\<rparr>" order "Some 1" True True True ?s3 0 0]
    by (simp add: as_wait_def as_start_body_def as_cancelTimer_def startRead_def startWrite_def mk_AsyncSocketStream_def Let_def)
  show ?thesis by (rule three_steps[of "life_step order", OF 1 2 3])
qed

lemma one_reader_one_writer_witness:
  "\<exists>s. (life_step sorted_list_of_set)\<^sup>*\<^sup>* (mk_AsyncSocketStream True, 0, 0) (s, 0, 0) \<and> as_readers s = 1 \<and> as_writers s = 1 \<and> as_waitSem s = 0"
  using start_once[of sorted_list_of_set] one_reader_one_writer[OF start_once[of sorted_list_of_set]] by (intro exI conjI) auto

text \<open>
  C36: if two starts have taken one token each, the stream has no reader and no writer and never will have: whatever happens
  later, both starts still wait (they take the tokens one at a time, so that each holds the one that the other needs).
\<close>

theorem two_starts_block:
  assumes "(life_step order)\<^sup>*\<^sup>* (mk_AsyncSocketStream c, 0, 0) (s, a, 2)" "(life_step order)\<^sup>*\<^sup>* (s, a, 2) (s', a', b')"
  shows "b' = 2 \<and> as_readers s' = 0 \<and> as_writers s' = 0 \<and> as_wait s' = None"
  using two_stuck[OF assms(2) life_reach_ok[OF assms(1)]] by (auto simp: life_ok_def tok_def as_wait_def)

lemma two_starts_block_witness:
  "\<exists>s. (life_step sorted_list_of_set)\<^sup>*\<^sup>* (mk_AsyncSocketStream True, 0, 0) (s, 0, 2) \<and> as_wait s = None"
proof -
  let ?m = "mk_AsyncSocketStream True"
  let ?s1 = "?m\<lparr>as_iomanager := Some 1, as_worker := Some 1\<rparr>"
  let ?s2 = "?s1\<lparr>as_waitSem := 1\<rparr>"
  let ?s3 = "?s1\<lparr>as_waitSem := 0\<rparr>"
  have 1: "life_step sorted_list_of_set (?m, 0, 0) (?s1, 1, 0)"
    using life_step.enter[of sorted_list_of_set ?m 0 0 "Some 1"] by (simp add: as_start_enter_def mk_AsyncSocketStream_def Let_def)
  have 2: "life_step sorted_list_of_set (?s1, 1, 0) (?s1, 2, 0)"
    using life_step.enter[of sorted_list_of_set ?s1 1 0 "Some 1"]
    by (simp add: as_start_enter_def mk_AsyncSocketStream_def Let_def numeral_2_eq_2)
  have 3: "life_step sorted_list_of_set (?s1, 2, 0) (?s2, 1, 1)"
    using life_step.first[of ?s1 ?s2 sorted_list_of_set 1 0] by (simp add: as_wait_def mk_AsyncSocketStream_def numeral_2_eq_2)
  have 4: "life_step sorted_list_of_set (?s2, 1, 1) (?s3, 0, 2)"
    using life_step.first[of ?s2 ?s3 sorted_list_of_set 0 1] by (simp add: as_wait_def mk_AsyncSocketStream_def numeral_2_eq_2)
  have r: "(life_step sorted_list_of_set)\<^sup>*\<^sup>* (?m, 0, 0) (?s3, 0, 2)"
    by (rule four_steps[of "life_step sorted_list_of_set", OF 1 2 3 4])
  then show ?thesis using two_starts_block[OF r rtranclp.rtrancl_refl] by blast
qed

text \<open>Alone, \<open>start\<close> waits exactly as long as the old reader or the old writer has not ended.\<close>

lemma as_start_waits: "as_start order this rok cok s = None \<longleftrightarrow> as_waitSem s < 2"
  by (auto simp: as_start_def waitFiber_def as_wait_def as_start_enter_def Let_def split: if_splits)

text \<open>
  C37: closing answers every pending request: each waiting fiber is handed to its scheduler exactly once, in the order in which the
  table is iterated, its context has the result \<open>IO_ERROR\<close> (or \<open>TIMEOUT\<close>, if it had just run out), nothing stays in the table or
  in the queue, and the writer is woken.
\<close>

theorem inner_close_answers:
  assumes "as_iomanager s = this" "set (order (dom (as_ctxs s))) = dom (as_ctxs s)" "distinct (order (dom (as_ctxs s)))"
    "inj_on (as_ctxs s) (dom (as_ctxs s))" "\<forall>sn p. as_ctxs s sn = Some p \<longrightarrow> armed (scd sn) (fb sn) (as_heap s p)"
  shows "\<exists>s'. innerClose order this s = Inr s' \<and> as_ctxs s' = Map.empty \<and> as_queue s' = [] \<and> \<not> as_connected s' \<and> as_sem s' > 0 \<and>
    as_scheduled s' = as_scheduled s @ List.map (\<lambda>sn. (scd sn, fb sn)) (order (dom (as_ctxs s))) \<and>
    (\<forall>sn p. as_ctxs s sn = Some p \<longrightarrow> closed_ctx (as_heap s' p)) \<and>
    (\<forall>p. p \<notin> ran (as_ctxs s) \<longrightarrow> as_heap s' p = as_heap s p)"
proof -
  let ?g = "\<lambda>sn. the (as_ctxs s sn)" and ?sns = "order (dom (as_ctxs s))"
  define s1 where "s1 = (if as_connected s \<and> as_disconnectCb s then s\<lparr>as_disconnects := as_disconnects s + 1\<rparr> else s)
     \<lparr>as_connected := False, as_sem := as_sem s + 1, as_ctxs := Map.empty, as_queue := []\<rparr>"
  have s1: "as_heap s1 = as_heap s" "as_scheduled s1 = as_scheduled s" "as_ctxs s1 = Map.empty" "as_queue s1 = []"
    "\<not> as_connected s1" "as_sem s1 > 0" by (simp_all add: s1_def)
  have c: "innerClose order this s = Inr (fold (\<lambda>sn. fail_ctx (?g sn)) ?sns s1)"
    using assms(1) by (simp add: innerClose_def Let_def s1_def)
  have "inj_on ?g (dom (as_ctxs s))" by (rule inj_onI) (use assms(4) in \<open>auto simp: inj_on_def dom_def\<close>)
  then have d: "distinct (List.map ?g ?sns)" using assms(2,3) by (simp add: distinct_map)
  have "\<forall>sn \<in> set ?sns. armed (scd sn) (fb sn) (as_heap s1 (?g sn))" using assms(2,5) s1(1) by auto
  from fold_fail[OF d this] have f: "\<forall>sn \<in> set ?sns. closed_ctx (as_heap (fold (\<lambda>sn. fail_ctx (?g sn)) ?sns s1) (?g sn))"
    "as_scheduled (fold (\<lambda>sn. fail_ctx (?g sn)) ?sns s1) = as_scheduled s @ List.map (\<lambda>sn. (scd sn, fb sn)) ?sns"
    using s1(2) by simp_all
  have "closed_ctx (as_heap (fold (\<lambda>sn. fail_ctx (?g sn)) ?sns s1) p)" if "as_ctxs s sn = Some p" for sn p
    using f(1) that assms(2) by force
  moreover have "as_heap (fold (\<lambda>sn. fail_ctx (?g sn)) ?sns s1) p = as_heap s p" if "p \<notin> ran (as_ctxs s)" for p
  proof -
    have "p \<notin> ?g ` set ?sns" using that assms(2) by (auto simp: ran_def)
    then show ?thesis using s1(1) by (simp add: fold_fail_other)
  qed
  ultimately show ?thesis using c f(2) s1 by (intro exI[of _ "fold (\<lambda>sn. fail_ctx (?g sn)) ?sns s1"]) simp
qed

lemma inner_close_answers_witness:
  "\<exists>s s'. as_ctxs s = [7 \<mapsto> 0] \<and> innerClose sorted_list_of_set (Some 1) s = Inr s' \<and> as_scheduled s' = [(3, 4)] \<and>
     cx_result (as_heap s' 0) = IO_ERROR"
proof -
  let ?s = "(upd_ctx 0 (\<lambda>c. c\<lparr>cx_scheduler := Some 3, cx_fiber := Some 4\<rparr>) (mk_AsyncSocketStream True))
    \<lparr>as_iomanager := Some 1, as_ctxs := [7 \<mapsto> 0]\<rparr>"
  define s where "s = ?s"
  have s: "as_scheduled s = []" "as_ctxs s = [7 \<mapsto> 0]" "as_heap s 0 = mk_Ctx\<lparr>cx_scheduler := Some 3, cx_fiber := Some 4\<rparr>"
    "as_iomanager s = Some 1" by (simp_all add: s_def upd_ctx_def mk_AsyncSocketStream_def)
  have a: "\<forall>sn p. as_ctxs s sn = Some p \<longrightarrow> armed 3 4 (as_heap s p)" using s by (simp add: armed_def)
  have o: "sorted_list_of_set (dom (as_ctxs s)) = [7]" using s(2) by simp
  obtain s' where s': "innerClose sorted_list_of_set (Some 1) s = Inr s'" "as_scheduled s' = [(3, 4)]" "closed_ctx (as_heap s' 0)"
    using inner_close_answers[of s "Some 1" sorted_list_of_set "\<lambda>_. 3" "\<lambda>_. 4", OF s(4) _ _ _ a] s(1,2) unfolding o by auto
  have "cx_result (as_heap s' 0) = IO_ERROR"
    using s'(1) s o by (auto simp: innerClose_def fail_ctx_def doRsp_now_def doRsp_defs mk_Ctx_def Let_def)
  with s s' show ?thesis by (intro exI[of _ s] exI[of _ s']) simp
qed

text \<open>
  The pool hands out a connected stream of its own, and when it has none to hand out and the counter has not
  wrapped around then no stream is connected.
\<close>

lemma pool_get_finds:
  assumes "sp_size m = of_nat (length (sp_datas m))" "length (sp_datas m) < 2 ^ 32" "pool_get h m = (r, m')"
  shows "(case r of Some p \<Rightarrow> p \<in> set (sp_datas m) \<and> ps_connected (h p)
    | None \<Rightarrow> unat (sp_idx m) + length (sp_datas m) < 2 ^ 32 \<longrightarrow> (\<forall>p \<in> set (sp_datas m). \<not> ps_connected (h p)))"
proof -
  have n: "unat (sp_size m) = length (sp_datas m)" using assms(1,2) by (simp add: unat_of_nat take_bit_eq_mod)
  show ?thesis
  proof (cases r)
    case None
    have "\<not> ps_connected (h (sp_datas m ! j))" if j: "j < length (sp_datas m)" "unat (sp_idx m) + length (sp_datas m) < 2 ^ 32" for j
    proof -
      obtain i where "i < length (sp_datas m)" "(unat (sp_idx m) + 1 + i) mod length (sp_datas m) = j"
        using residue_hit[OF j(1), of "unat (sp_idx m) + 1"] by blast
      then show ?thesis using pool_loop_none[of "length (sp_datas m)" h m m' i] assms(3) None n j(2) by (simp add: pool_get_def)
    qed
    then show ?thesis using None by (auto simp: in_set_conv_nth)
  next
    case (Some p)
    then have "sp_datas m \<noteq> []" using assms(3) n by (auto simp: pool_get_def)
    with Some assms show ?thesis by (auto simp: pool_get_def dest: pool_loop_some)
  qed
qed

end
