(* ===== verification/Zlib_Stream.thy ===== *)
theory Zlib_Stream
  imports Byte_Buffers
begin

text \<open>
  Compression as a stream: \<^verbatim>\<open>captain/streams/zlib_stream.h\<close> and \<^verbatim>\<open>zlib_stream.cc\<close>.  The zlib library is the parameter
  \<open>zlib_lib\<close>: one call of \<open>deflate\<close> or \<open>inflate\<close> takes the state of the codec, the input that is left, the room in the output buffer
  and the kind of flush, and gives its return code, the new state, the rest of the input and the bytes that it has put out.
  What the manual of zlib says of such calls is \<open>codec_ok\<close>; \<open>zrun\<close> says which bytes a series of calls puts out for a series
  of inputs, when each input is offered again with fresh room as long as the output buffer was filled.

  Proved: encoding and decoding return, keep the list of output buffers in shape (all but the last are full) and append exactly what
  the library put out; what a decoder makes of the result of an encoder, cut in any way, is what was written to the encoder; and
  the result as a \<open>ByteArray\<close> is right for buffers of the default size, while other sizes can run into the defect of
  \<open>addCapacity\<close>.
\<close>

section \<open>The library\<close>

datatype z_flush = Z_NO_FLUSH | Z_FINISH

definition Z_OK :: int where "Z_OK = 0"
definition Z_STREAM_ERROR :: int where "Z_STREAM_ERROR = - 2"

type_synonym 'z z_step = "'z \<Rightarrow> byte list \<Rightarrow> nat \<Rightarrow> z_flush \<Rightarrow> int \<times> 'z \<times> byte list \<times> byte list"

record 'z zlib_lib =
  z_deflateInit2 :: "int \<Rightarrow> int \<Rightarrow> int \<Rightarrow> int \<Rightarrow> int \<times> 'z"
  z_inflateInit2 :: "int \<Rightarrow> int \<times> 'z"
  z_deflate :: "'z z_step"
  z_inflate :: "'z z_step"
  z_deflateEnd :: "'z \<Rightarrow> 'z"
  z_inflateEnd :: "'z \<Rightarrow> 'z"

text \<open>
  The manual: a call puts out at most what there is room for, and repeated calls come to an end (\<open>pending\<close> bounds the output to come).
\<close>

definition codec_ok :: "'z z_step \<Rightarrow> ('z \<Rightarrow> byte list \<Rightarrow> z_flush \<Rightarrow> nat) \<Rightarrow> bool" where
  "codec_ok step pending \<longleftrightarrow> (\<forall>z inp n f ret z' rest out. step z inp n f = (ret, z', rest, out) \<longrightarrow>
     length out \<le> n \<and> (0 < n \<and> length out = n \<longrightarrow> pending z' rest f < pending z inp f))"

inductive zrun :: "'z z_step \<Rightarrow> 'z \<Rightarrow> (byte list \<times> z_flush) list \<Rightarrow> byte list \<Rightarrow> 'z \<Rightarrow> bool" for step where
  nothing: "zrun step z [] [] z"
| filled: "step z inp n f = (ret, z1, rest, out) \<Longrightarrow> ret \<noteq> Z_STREAM_ERROR \<Longrightarrow> length out = n \<Longrightarrow> 0 < n \<Longrightarrow>
    zrun step z1 ((rest, f) # ins) outs z2 \<Longrightarrow> zrun step z ((inp, f) # ins) (out @ outs) z2"
| taken: "step z inp n f = (ret, z1, rest, out) \<Longrightarrow> ret \<noteq> Z_STREAM_ERROR \<Longrightarrow> length out < n \<Longrightarrow>
    zrun step z1 ins outs z2 \<Longrightarrow> zrun step z ((inp, f) # ins) (out @ outs) z2"

section \<open>The stream\<close>

datatype z_type = ZLIB | DEFLATE | GZIP

text \<open>Of each output buffer, of \<open>m_buffSize\<close> bytes, the part that is used.\<close>

record 'z zlib_stream =
  zs_zstream :: 'z
  zs_buffSize :: nat
  zs_encode :: bool
  zs_free :: bool
  zs_buffs :: "byte list list"

definition mk_ZlibStream :: "'z \<Rightarrow> bool \<Rightarrow> 32 word \<Rightarrow> 'z zlib_stream" where
  "mk_ZlibStream z encode buff_size =
     \<lparr>zs_zstream = z, zs_buffSize = unat buff_size, zs_encode = encode, zs_free = True, zs_buffs = []\<rparr>"

text \<open>The result of the library, and the stream with its codec; \<open>DEFAULT_COMPRESSION\<close> is \<open>-1\<close>.\<close>

definition zs_init :: "'z zlib_lib \<Rightarrow> z_type \<Rightarrow> int \<Rightarrow> int \<Rightarrow> int \<Rightarrow> int \<Rightarrow> 'z zlib_stream \<Rightarrow> (int \<times> 'z zlib_stream) result" where
  "zs_init lib type level window_bits memlevel strategy s =
     (if \<not> (0 \<le> level \<and> level \<le> 9 \<or> level = - 1) then Inl (Assert_failed ''(level >= 0 && level <= 9) || level == DEFAULT_COMPRESSION'')
      else if \<not> (8 \<le> window_bits \<and> window_bits \<le> 15) then Inl (Assert_failed ''(window_bits >= 8 && window_bits <= 15)'')
      else if \<not> (1 \<le> memlevel \<and> memlevel \<le> 9) then Inl (Assert_failed ''(memlevel >= 1 && memlevel <= 9)'')
      else
        let window_bits = (case type of DEFLATE \<Rightarrow> - window_bits | GZIP \<Rightarrow> window_bits + 16 | ZLIB \<Rightarrow> window_bits);
            (ret, z) = (if zs_encode s then z_deflateInit2 lib level window_bits memlevel strategy
                        else z_inflateInit2 lib window_bits)
        in Inr (ret, s\<lparr>zs_zstream := z\<rparr>))"

definition zs_Create :: "'z zlib_lib \<Rightarrow> 'z \<Rightarrow> bool \<Rightarrow> 32 word \<Rightarrow> z_type \<Rightarrow> int \<Rightarrow> int \<Rightarrow> int \<Rightarrow> int \<Rightarrow> 'z zlib_stream option result" where
  "zs_Create lib z encode buff_size type level window_bits memlevel strategy =
     rbind (zs_init lib type level window_bits memlevel strategy (mk_ZlibStream z encode buff_size)) (\<lambda>(ret, rt).
       Inr (if ret = Z_OK then Some rt else None))"

definition CreateGzip :: "'z zlib_lib \<Rightarrow> 'z \<Rightarrow> bool \<Rightarrow> 32 word \<Rightarrow> 'z zlib_stream option result" where
  "CreateGzip lib z encode buff_size = zs_Create lib z encode buff_size GZIP (- 1) 15 8 0"

definition CreateZlib :: "'z zlib_lib \<Rightarrow> 'z \<Rightarrow> bool \<Rightarrow> 32 word \<Rightarrow> 'z zlib_stream option result" where
  "CreateZlib lib z encode buff_size = zs_Create lib z encode buff_size ZLIB (- 1) 15 8 0"

definition CreateDeflate :: "'z zlib_lib \<Rightarrow> 'z \<Rightarrow> bool \<Rightarrow> 32 word \<Rightarrow> 'z zlib_stream option result" where
  "CreateDeflate lib z encode buff_size = zs_Create lib z encode buff_size DEFLATE (- 1) 15 8 0"

text \<open>The buffers that are freed, and the codec.\<close>

definition zs_destroy :: "'z zlib_lib \<Rightarrow> 'z zlib_stream \<Rightarrow> byte list list \<times> 'z" where
  "zs_destroy lib s = (if zs_free s then zs_buffs s else [],
     if zs_encode s then z_deflateEnd lib (zs_zstream s) else z_inflateEnd lib (zs_zstream s))"

definition zs_read :: "nat \<Rightarrow> 'z zlib_stream \<Rightarrow> (byte list \<times> 'z zlib_stream) result" where
  "zs_read len s = Inl (Logic_error ''ZlibStream::read is invalid'')"

section \<open>Encoding and decoding\<close>

text \<open>A last buffer with room.\<close>

definition z_room :: "'z zlib_stream \<Rightarrow> 'z zlib_stream" where
  "z_room s = (if zs_buffs s \<noteq> [] \<and> length (last (zs_buffs s)) \<noteq> zs_buffSize s then s else s\<lparr>zs_buffs := zs_buffs s @ [[]]\<rparr>)"

text \<open>The inner loop, for one input; \<open>Some ret\<close> if it returns from the function.\<close>

partial_function (option) z_loop :: "'z z_step \<Rightarrow> z_flush \<Rightarrow> byte list \<Rightarrow> 'z zlib_stream \<Rightarrow> (int option \<times> 'z zlib_stream) option" where
  "z_loop step flush inp s =
     (let s = z_room s; ivc = last (zs_buffs s) in
      case step (zs_zstream s) inp (zs_buffSize s - length ivc) flush of (ret, z, rest, out) \<Rightarrow>
        if ret = Z_STREAM_ERROR then Some (Some ret, s\<lparr>zs_zstream := z\<rparr>)
        else
          let s = s\<lparr>zs_zstream := z, zs_buffs := butlast (zs_buffs s) @ [ivc @ out]\<rparr> in
          if zs_buffSize s - length ivc - length out = 0 then z_loop step flush rest s
          else Some (None, s))"

fun z_inputs :: "'z z_step \<Rightarrow> bool \<Rightarrow> byte list list \<Rightarrow> 'z zlib_stream \<Rightarrow> (int option \<times> 'z zlib_stream) option" where
  "z_inputs step finish [] s = Some (None, s)"
| "z_inputs step finish (v # vs) s =
     (case z_loop step (if finish then (if vs = [] then Z_FINISH else Z_NO_FLUSH) else Z_NO_FLUSH) v s of
        None \<Rightarrow> None
      | Some (Some ret, s) \<Rightarrow> Some (Some ret, s)
      | Some (None, s) \<Rightarrow> z_inputs step finish vs s)"

definition z_encode :: "'z zlib_lib \<Rightarrow> byte list list \<Rightarrow> bool \<Rightarrow> 'z zlib_stream \<Rightarrow> (int \<times> 'z zlib_stream) option" where
  "z_encode lib v finish s =
     map_option (\<lambda>(ret, s). case ret of
         Some ret \<Rightarrow> (ret, s)
       | None \<Rightarrow> (Z_OK, if finish \<and> v \<noteq> [] then s\<lparr>zs_zstream := z_deflateEnd lib (zs_zstream s)\<rparr> else s))
       (z_inputs (z_deflate lib) finish v s)"

definition z_decode :: "'z zlib_lib \<Rightarrow> byte list list \<Rightarrow> bool \<Rightarrow> 'z zlib_stream \<Rightarrow> (int \<times> 'z zlib_stream) option" where
  "z_decode lib v finish s =
     map_option (\<lambda>(ret, s). case ret of
         Some ret \<Rightarrow> (ret, s)
       | None \<Rightarrow> (Z_OK, if finish \<and> v \<noteq> [] then s\<lparr>zs_zstream := z_inflateEnd lib (zs_zstream s)\<rparr> else s))
       (z_inputs (z_inflate lib) finish v s)"

definition zs_write :: "'z zlib_lib \<Rightarrow> byte list \<Rightarrow> 'z zlib_stream \<Rightarrow> (int \<times> 'z zlib_stream) option" where
  "zs_write lib buffer s = (if zs_encode s then z_encode lib [buffer] False s else z_decode lib [buffer] False s)"

text \<open>\<open>write\<close> of a \<open>ByteArray\<close> does not move its position.\<close>

definition zs_write_ba :: "'z zlib_lib \<Rightarrow> bytearray \<Rightarrow> nat \<Rightarrow> 'z zlib_stream \<Rightarrow> (int \<times> 'z zlib_stream) option result" where
  "zs_write_ba lib ba len s =
     rbind (getReadBuffers ba len) (\<lambda>(_, buffers).
       let v = List.map (\<lambda>i. take (iov_len i) (drop (iov_off i) (m_nodes ba ! iov_node i))) buffers
       in Inr (if zs_encode s then z_encode lib v False s else z_decode lib v False s))"

definition zs_flush :: "'z zlib_lib \<Rightarrow> 'z zlib_stream \<Rightarrow> (int \<times> 'z zlib_stream) option" where
  "zs_flush lib s = (if zs_encode s then z_encode lib [[]] True s else z_decode lib [[]] True s)"

definition zs_close :: "'z zlib_lib \<Rightarrow> 'z zlib_stream \<Rightarrow> (int \<times> 'z zlib_stream) option" where
  "zs_close lib s = zs_flush lib s"

definition getResult :: "'z zlib_stream \<Rightarrow> byte list" where
  "getResult s = foldl (\<lambda>rt i. rt @ i) [] (zs_buffs s)"

fun ba_write_all :: "byte list list \<Rightarrow> bytearray \<Rightarrow> bytearray result" where
  "ba_write_all [] ba = Inr ba"
| "ba_write_all (i # is) ba = rbind (ba_write ba i) (ba_write_all is)"

definition zs_getByteArray :: "(nat \<Rightarrow> nat \<Rightarrow> byte) \<Rightarrow> 'z zlib_stream \<Rightarrow> bytearray result" where
  "zs_getByteArray junk s = rbind (ba_write_all (zs_buffs s) (mk_ByteArray junk 4096)) (\<lambda>ba. setPosition ba 0)"

text \<open>A whole use of a stream: pieces are written to it, then it is closed; the results of all calls.\<close>

fun zs_session :: "'z zlib_lib \<Rightarrow> byte list list \<Rightarrow> 'z zlib_stream \<Rightarrow> (int list \<times> 'z zlib_stream) option" where
  "zs_session lib [] s = map_option (\<lambda>(r, s). ([r], s)) (zs_close lib s)"
| "zs_session lib (w # ws) s =
     (case zs_write lib w s of None \<Rightarrow> None
      | Some (r, s) \<Rightarrow> map_option (\<lambda>(rs, s). (r # rs, s)) (zs_session lib ws s))"

section \<open>The loops\<close>

definition chain_ok :: "'z zlib_stream \<Rightarrow> bool" where
  "chain_ok s \<longleftrightarrow> (\<forall>b \<in> set (butlast (zs_buffs s)). length b = zs_buffSize s) \<and> (\<forall>b \<in> set (zs_buffs s). length b \<le> zs_buffSize s)"

lemma getResult_concat: "getResult s = concat (zs_buffs s)"
proof -
  have "foldl (\<lambda>rt i. rt @ i) acc bs = acc @ concat bs" for acc and bs :: "byte list list"
    by (induction bs arbitrary: acc) auto
  then show ?thesis by (simp add: getResult_def)
qed

lemma z_room_ok:
  assumes "chain_ok s" "0 < zs_buffSize s"
  shows "chain_ok (z_room s)" "zs_buffs (z_room s) \<noteq> []" "length (last (zs_buffs (z_room s))) < zs_buffSize s"
    "concat (zs_buffs (z_room s)) = concat (zs_buffs s)" "zs_buffSize (z_room s) = zs_buffSize s"
    "zs_zstream (z_room s) = zs_zstream s" "zs_encode (z_room s) = zs_encode s"
proof -
  have l: "\<forall>b \<in> set (zs_buffs s). length b = zs_buffSize s" if "zs_buffs s = [] \<or> length (last (zs_buffs s)) = zs_buffSize s"
    using that assms(1) by (cases "zs_buffs s" rule: rev_cases) (auto simp: chain_ok_def)
  show "chain_ok (z_room s)" using assms(1) l by (auto simp: z_room_def chain_ok_def)
  show "length (last (zs_buffs (z_room s))) < zs_buffSize s"
    using assms by (cases "zs_buffs s" rule: rev_cases) (auto simp: z_room_def chain_ok_def)
qed (auto simp: z_room_def)

text \<open>What the operations do, in terms of a run of the library.\<close>

definition stepped :: "'z z_step \<Rightarrow> 'z zlib_stream \<Rightarrow> (byte list \<times> z_flush) list \<Rightarrow> 'z zlib_stream \<Rightarrow> bool" where
  "stepped step s ins s' \<longleftrightarrow> (\<exists>outs. zrun step (zs_zstream s) ins outs (zs_zstream s') \<and> getResult s' = getResult s @ outs)"

definition same_kind :: "'z zlib_stream \<Rightarrow> 'z zlib_stream \<Rightarrow> bool" where
  "same_kind s s' \<longleftrightarrow> chain_ok s' \<and> zs_buffSize s' = zs_buffSize s \<and> zs_encode s' = zs_encode s"

lemma same_kind_refl: "chain_ok s \<Longrightarrow> same_kind s s"
  by (simp add: same_kind_def)

lemma same_kind_trans: "same_kind s t \<Longrightarrow> same_kind t u \<Longrightarrow> same_kind s u"
  by (simp add: same_kind_def)

lemma zrun_append: "zrun step z xs os z1 \<Longrightarrow> zrun step z1 ys ps z2 \<Longrightarrow> zrun step z (xs @ ys) (os @ ps) z2"
  by (induction rule: zrun.induct) (auto intro: zrun.intros)

lemma stepped_trans: "stepped step s xs t \<Longrightarrow> stepped step t ys u \<Longrightarrow> stepped step s (xs @ ys) u"
  by (fastforce simp: stepped_def intro: zrun_append)

lemma stepped_refl: "stepped step s [] s"
  by (auto simp: stepped_def intro: zrun.nothing)

lemma put_ok:
  fixes s :: "'z zlib_stream" and z :: 'z
  assumes "chain_ok s" "0 < zs_buffSize s" "length (last (zs_buffs (z_room s))) + length out \<le> zs_buffSize s"
  defines "s' \<equiv> (z_room s)\<lparr>zs_zstream := z, zs_buffs := butlast (zs_buffs (z_room s)) @ [last (zs_buffs (z_room s)) @ out]\<rparr>"
  shows "same_kind s s'" "getResult s' = getResult s @ out" "zs_zstream s' = z"
proof -
  note r = z_room_ok[OF assms(1,2)]
  obtain bs b where b: "zs_buffs (z_room s) = bs @ [b]" using r(2) by (cases "zs_buffs (z_room s)" rule: rev_cases) auto
  show "same_kind s s'"
    using r(1,5,7) assms(3) b by (auto simp: same_kind_def s'_def chain_ok_def)
  show "getResult s' = getResult s @ out" using r(4) b by (simp add: getResult_concat s'_def)
  show "zs_zstream s' = z" by (simp add: s'_def)
qed

lemma z_loop_ok:
  assumes "codec_ok step pending" "chain_ok s" "0 < zs_buffSize s"
  shows "\<exists>r s'. z_loop step f inp s = Some (r, s') \<and> same_kind s s' \<and> r \<in> {None, Some Z_STREAM_ERROR} \<and>
    (r = None \<longrightarrow> stepped step s [(inp, f)] s')"
  using assms(2,3)
proof (induction "pending (zs_zstream s) inp f" arbitrary: s inp rule: less_induct)
  case less
  define n where "n = zs_buffSize s - length (last (zs_buffs (z_room s)))"
  obtain ret z rest out where st: "step (zs_zstream s) inp n f = (ret, z, rest, out)" by (metis prod_cases4)
  note r = z_room_ok[OF less.prems]
  have n: "0 < n" "length out \<le> n" "length out = n \<Longrightarrow> pending z rest f < pending (zs_zstream s) inp f"
    using assms(1) st r(3) unfolding codec_ok_def n_def by auto
  define s1 where "s1 = (z_room s)\<lparr>zs_zstream := z, zs_buffs := butlast (zs_buffs (z_room s)) @ [last (zs_buffs (z_room s)) @ out]\<rparr>"
  have "length (last (zs_buffs (z_room s))) + length out \<le> zs_buffSize s" using n(2) r(3) by (simp add: n_def)
  note p = put_ok[OF less.prems this, of z, folded s1_def]
  have eq: "z_loop step f inp s = (if ret = Z_STREAM_ERROR then Some (Some ret, (z_room s)\<lparr>zs_zstream := z\<rparr>)
      else if length out = n then z_loop step f rest s1 else Some (None, s1))"
    using st r(5,6) n by (subst z_loop.simps) (auto simp: Let_def n_def s1_def)
  consider "ret = Z_STREAM_ERROR" | "ret \<noteq> Z_STREAM_ERROR" "length out < n" | "ret \<noteq> Z_STREAM_ERROR" "length out = n"
    using n(2) by linarith
  then show ?case
  proof cases
    case 1
    have "same_kind s ((z_room s)\<lparr>zs_zstream := z\<rparr>)" using r(1,5,7) by (simp add: same_kind_def chain_ok_def)
    then show ?thesis using 1 eq by auto
  next
    case 2
    have "stepped step s [(inp, f)] s1"
      unfolding stepped_def using zrun.taken[where step = step, OF st 2 zrun.nothing[of step z]] p(2,3) by auto
    then show ?thesis using 2 eq p(1) by auto
  next
    case 3
    have "chain_ok s1" "0 < zs_buffSize s1" "zs_zstream s1 = z" using p less.prems by (auto simp: same_kind_def)
    then obtain r' s' where h: "z_loop step f rest s1 = Some (r', s')" "same_kind s1 s'" "r' \<in> {None, Some Z_STREAM_ERROR}"
        "r' = None \<Longrightarrow> stepped step s1 [(rest, f)] s'"
      using less.hyps[of s1 rest] n(3) 3 by auto
    have "stepped step s [(inp, f)] s'" if "r' = None"
      using h(4)[OF that] zrun.filled[where step = step, OF st 3 n(1)] p(2,3) by (fastforce simp: stepped_def)
    then show ?thesis using 3 eq h(1-3) same_kind_trans[OF p(1)] by auto
  qed
qed

text \<open>The flags of the inputs.\<close>

fun flagged :: "bool \<Rightarrow> byte list list \<Rightarrow> (byte list \<times> z_flush) list" where
  "flagged finish [] = []"
| "flagged finish (v # vs) = (v, if finish \<and> vs = [] then Z_FINISH else Z_NO_FLUSH) # flagged finish vs"

lemma flagged_False: "flagged False vs = List.map (\<lambda>v. (v, Z_NO_FLUSH)) vs"
  by (induction vs) auto

lemma z_inputs_ok:
  assumes "codec_ok step pending" "chain_ok s" "0 < zs_buffSize s"
  shows "\<exists>r s'. z_inputs step finish vs s = Some (r, s') \<and> same_kind s s' \<and> r \<in> {None, Some Z_STREAM_ERROR} \<and>
    (r = None \<longrightarrow> stepped step s (flagged finish vs) s')"
  using assms(2,3)
proof (induction vs arbitrary: s)
  case Nil
  then show ?case by (auto intro: same_kind_refl stepped_refl)
next
  case (Cons v vs)
  let ?f = "if finish \<and> vs = [] then Z_FINISH else Z_NO_FLUSH"
  obtain r s1 where h: "z_loop step ?f v s = Some (r, s1)" "same_kind s s1" "r \<in> {None, Some Z_STREAM_ERROR}"
    "r = None \<longrightarrow> stepped step s [(v, ?f)] s1" using z_loop_ok[OF assms(1) Cons.prems] by blast
  have f: "(if finish then if vs = [] then Z_FINISH else Z_NO_FLUSH else Z_NO_FLUSH) = ?f" by simp
  show ?case
  proof (cases r)
    case None
    have "chain_ok s1" "0 < zs_buffSize s1" using h(2) Cons.prems by (auto simp: same_kind_def)
    from Cons.IH[OF this] obtain r' s' where i: "z_inputs step finish vs s1 = Some (r', s')" "same_kind s1 s'"
      "r' \<in> {None, Some Z_STREAM_ERROR}" "r' = None \<longrightarrow> stepped step s1 (flagged finish vs) s'" by blast
    have "z_inputs step finish (v # vs) s = Some (r', s')" using h(1) i(1) None by (simp only: z_inputs.simps f) simp
    moreover have "stepped step s (flagged finish (v # vs)) s'" if "r' = None"
      using stepped_trans[of step s "[(v, ?f)]" s1 "flagged finish vs" s'] h(4) i(4) None that by simp
    ultimately show ?thesis using same_kind_trans[OF h(2) i(2)] i(3) by blast
  next
    case (Some e)
    then have "z_inputs step finish (v # vs) s = Some (Some e, s1)" using h(1) by (simp only: z_inputs.simps f) simp
    then show ?thesis using h(2,3) Some by auto
  qed
qed

section \<open>Whole calls\<close>

definition z_coder :: "'z zlib_lib \<Rightarrow> 'z zlib_stream \<Rightarrow> 'z z_step" where
  "z_coder lib s = (if zs_encode s then z_deflate lib else z_inflate lib)"

definition z_end :: "'z zlib_lib \<Rightarrow> 'z zlib_stream \<Rightarrow> 'z \<Rightarrow> 'z" where
  "z_end lib s = (if zs_encode s then z_deflateEnd lib else z_inflateEnd lib)"

definition z_call :: "'z zlib_lib \<Rightarrow> byte list list \<Rightarrow> bool \<Rightarrow> 'z zlib_stream \<Rightarrow> (int \<times> 'z zlib_stream) option" where
  "z_call lib v finish s = (if zs_encode s then z_encode lib v finish s else z_decode lib v finish s)"

lemma writes_are_calls:
  "zs_write lib w s = z_call lib [w] False s" "zs_close lib s = z_call lib [[]] True s"
  by (simp_all add: zs_write_def zs_close_def zs_flush_def z_call_def)

lemma z_call_ok:
  assumes "codec_ok (z_coder lib s) pending" "chain_ok s" "0 < zs_buffSize s"
  shows "\<exists>r s'. z_call lib v finish s = Some (r, s') \<and> same_kind s s' \<and> r \<in> {Z_OK, Z_STREAM_ERROR} \<and>
    (r = Z_OK \<longrightarrow> (\<exists>outs z'. zrun (z_coder lib s) (zs_zstream s) (flagged finish v) outs z' \<and> getResult s' = getResult s @ outs \<and>
       zs_zstream s' = (if finish \<and> v \<noteq> [] then z_end lib s z' else z')))"
proof -
  obtain r s1 where h: "z_inputs (z_coder lib s) finish v s = Some (r, s1)" "same_kind s s1" "r \<in> {None, Some Z_STREAM_ERROR}"
    "r = None \<longrightarrow> stepped (z_coder lib s) s (flagged finish v) s1" using z_inputs_ok[OF assms, of finish v] by blast
  define s2 where "s2 = (if finish \<and> v \<noteq> [] then s1\<lparr>zs_zstream := z_end lib s (zs_zstream s1)\<rparr> else s1)"
  have k: "same_kind s s2" "getResult s2 = getResult s1" "zs_zstream s2 = (if finish \<and> v \<noteq> [] then z_end lib s (zs_zstream s1) else zs_zstream s1)"
    using h(2) by (auto simp: s2_def same_kind_def chain_ok_def getResult_def)
  have e: "Z_STREAM_ERROR \<noteq> Z_OK" by (simp add: Z_OK_def Z_STREAM_ERROR_def)
  have c: "z_call lib v finish s = Some (case r of Some ret \<Rightarrow> (ret, s1) | None \<Rightarrow> (Z_OK, s2))"
    using h(1) by (cases r; cases "zs_encode s") (simp_all add: z_call_def z_encode_def z_decode_def z_coder_def z_end_def s2_def)
  show ?thesis
  proof (cases r)
    case None
    with h(4) obtain outs where "zrun (z_coder lib s) (zs_zstream s) (flagged finish v) outs (zs_zstream s1)"
      "getResult s1 = getResult s @ outs" by (auto simp: stepped_def)
    then show ?thesis using c k None by (intro exI[of _ Z_OK] exI[of _ s2]) auto
  next
    case (Some x)
    then show ?thesis using c h(2,3) e by auto
  qed
qed

definition plain_ins :: "byte list list \<Rightarrow> (byte list \<times> z_flush) list" where
  "plain_ins ws = List.map (\<lambda>w. (w, Z_NO_FLUSH)) ws @ [([], Z_FINISH)]"

lemma session_ok:
  assumes "codec_ok (z_coder lib s) pending" "chain_ok s" "0 < zs_buffSize s"
  shows "\<exists>rs s'. zs_session lib ws s = Some (rs, s') \<and> set rs \<subseteq> {Z_OK, Z_STREAM_ERROR} \<and> same_kind s s' \<and>
    (set rs = {Z_OK} \<longrightarrow> (\<exists>outs z'. zrun (z_coder lib s) (zs_zstream s) (plain_ins ws) outs z' \<and> getResult s' = getResult s @ outs))"
  using assms
proof (induction ws arbitrary: s)
  case Nil
  from z_call_ok[OF Nil, of "[[]]" True] show ?case
    by (auto simp: writes_are_calls plain_ins_def)
next
  case (Cons w ws)
  obtain r s1 where h: "z_call lib [w] False s = Some (r, s1)" "same_kind s s1" "r \<in> {Z_OK, Z_STREAM_ERROR}"
    "r = Z_OK \<longrightarrow> (\<exists>outs. zrun (z_coder lib s) (zs_zstream s) [(w, Z_NO_FLUSH)] outs (zs_zstream s1) \<and> getResult s1 = getResult s @ outs)"
    using z_call_ok[OF Cons.prems, of "[w]" False] by auto
  have k: "z_coder lib s1 = z_coder lib s" "chain_ok s1" "0 < zs_buffSize s1"
    using h(2) Cons.prems by (auto simp: same_kind_def z_coder_def)
  obtain rs s' where i: "zs_session lib ws s1 = Some (rs, s')" "set rs \<subseteq> {Z_OK, Z_STREAM_ERROR}" "same_kind s1 s'"
    "set rs = {Z_OK} \<longrightarrow> (\<exists>outs z'. zrun (z_coder lib s) (zs_zstream s1) (plain_ins ws) outs z' \<and> getResult s' = getResult s1 @ outs)"
    using Cons.IH[of s1, unfolded k(1), OF Cons.prems(1) k(2,3)] by blast
  have ne: "rs \<noteq> []" using i(1) by (cases ws) (auto split: option.splits)
  have "\<exists>outs z'. zrun (z_coder lib s) (zs_zstream s) (plain_ins (w # ws)) outs z' \<and> getResult s' = getResult s @ outs"
    if all: "set (r # rs) = {Z_OK}"
  proof -
    have "r = Z_OK" "set rs = {Z_OK}" using all ne by (auto, (cases rs; auto))
    then obtain o1 o2 z' where "zrun (z_coder lib s) (zs_zstream s) [(w, Z_NO_FLUSH)] o1 (zs_zstream s1)" "getResult s1 = getResult s @ o1"
      "zrun (z_coder lib s) (zs_zstream s1) (plain_ins ws) o2 z'" "getResult s' = getResult s1 @ o2" using h(4) i(4) by blast
    then show ?thesis using zrun_append[of "z_coder lib s" "zs_zstream s" "[(w, Z_NO_FLUSH)]" o1 "zs_zstream s1" "plain_ins ws" o2 z']
      by (auto simp: plain_ins_def)
  qed
  then show ?case using h(1,3) i(1,2) same_kind_trans[OF h(2) i(3)] by (auto simp: writes_are_calls)
qed

lemma created:
  assumes "zs_Create lib z0 encode n type level wb mem strat = Inr (Some s)"
  shows "chain_ok s" "zs_buffSize s = unat n" "zs_encode s = encode" "getResult s = []"
  using assms
  by (auto simp: zs_Create_def zs_init_def mk_ZlibStream_def chain_ok_def getResult_def rbind_eq_Inr_iff Let_def split: if_splits prod.splits)

text \<open>Without room the loop does not end; corrupt data is not reported.\<close>

lemma no_buffer_diverges:
  assumes "z_loop step f inp s = Some r" "\<forall>z inp n f. fst (step z inp n f) \<noteq> Z_STREAM_ERROR"
  shows "zs_buffSize s \<noteq> 0"
proof -
  have "step = step' \<longrightarrow> zs_buffSize s \<noteq> 0" if "z_loop step' f inp s = Some r" for step' f inp s and r :: "int option \<times> 'a zlib_stream"
  proof (rule z_loop.raw_induct[where P = "\<lambda>step' f inp s r. step = step' \<longrightarrow> zs_buffSize s \<noteq> 0", OF _ that])
    fix loop step' f inp s and r :: "int option \<times> 'a zlib_stream"
    assume ih: "\<And>step' f inp s r. loop step' f inp s = Some r \<Longrightarrow> step = step' \<longrightarrow> zs_buffSize s \<noteq> 0"
      and eq: "(let s = z_room s; ivc = last (zs_buffs s) in
        case step' (zs_zstream s) inp (zs_buffSize s - length ivc) f of (ret, z, rest, out) \<Rightarrow>
          if ret = Z_STREAM_ERROR then Some (Some ret, s\<lparr>zs_zstream := z\<rparr>)
          else
            let s = s\<lparr>zs_zstream := z, zs_buffs := butlast (zs_buffs s) @ [ivc @ out]\<rparr> in
            if zs_buffSize s - length ivc - length out = 0 then loop step' f rest s
            else Some (None, s)) = Some r"
    show "step = step' \<longrightarrow> zs_buffSize s \<noteq> 0"
    proof (intro impI notI)
      assume e: "step = step'" "zs_buffSize s = 0"
      have b: "zs_buffSize (z_room s) = 0" "zs_zstream (z_room s) = zs_zstream s" using e(2) by (simp_all add: z_room_def)
      obtain ret z rest out where st: "step' (zs_zstream s) inp 0 f = (ret, z, rest, out)" by (metis prod_cases4)
      have "ret \<noteq> Z_STREAM_ERROR" using assms(2) st e(1) by (metis fst_conv)
      then have "loop step' f rest ((z_room s)\<lparr>zs_zstream := z, zs_buffs := butlast (zs_buffs (z_room s)) @ [last (zs_buffs (z_room s)) @ out]\<rparr>) = Some r"
        using eq st b by (simp add: Let_def)
      from ih[OF this] e(1) b(1) show False by simp
    qed
  qed
  then show ?thesis using assms(1) by blast
qed

lemma data_error_ignored:
  assumes "\<forall>n. z_inflate lib (zs_zstream s) v n Z_NO_FLUSH = (- 3, z, v, [])" "chain_ok s" "0 < zs_buffSize s"
  shows "\<exists>s'. z_decode lib [v] False s = Some (Z_OK, s') \<and> getResult s' = getResult s"
proof -
  note r = z_room_ok[OF assms(2,3)]
  have "z_loop (z_inflate lib) Z_NO_FLUSH v s = Some (None, (z_room s)\<lparr>zs_zstream := z\<rparr>)"
    using assms(1) r by (subst z_loop.simps) (auto simp: Let_def Z_STREAM_ERROR_def)
  then show ?thesis using r(4) by (auto simp: z_decode_def getResult_concat)
qed

section \<open>The result as a byte array\<close>

lemma ba_write_capacity:
  "ba_write ba buf = Inr ba' \<Longrightarrow> buf \<noteq> [] \<Longrightarrow> addCapacity ba (length buf) = Inr ba1 \<Longrightarrow> m_capacity ba' = m_capacity ba1"
  by (auto simp: ba_write_def rbind_eq_Inr_iff Let_def split: if_splits option.splits)

lemma ba_write_aligned:
  assumes "ba_ok ba" "m_baseSize ba = 4096" "4096 dvd m_position ba" "m_size ba = m_position ba" "length buf \<le> 4096"
  shows "\<exists>ba'. ba_write ba buf = Inr ba' \<and> ba_ok ba' \<and> m_baseSize ba' = 4096 \<and> m_position ba' = m_position ba + length buf \<and>
    m_size ba' = m_position ba' \<and> take (m_size ba') (flat ba') = take (m_size ba) (flat ba) @ buf"
proof (cases "buf = []")
  case True
  then show ?thesis using assms by auto
next
  case False
  note D = ba_okD[OF assms(1)]
  have "4096 dvd m_capacity ba - m_position ba" using D(4) assms(2,3) by (simp add: dvd_diff_nat)
  then have "m_capacity ba - m_position ba = 0 \<or> 4096 \<le> m_capacity ba - m_position ba" using dvd_imp_le by blast
  then have cap: "cap_ok ba (length buf)" using assms(2,5) by (auto simp: cap_ok_def Let_def)
  obtain ba' xss where w: "ba_write ba buf = Inr ba'" "ba_ok ba'" "m_position ba' = m_position ba + length buf"
    "m_size ba' = max (m_size ba) (m_position ba + length buf)" "flat ba' = overwrite (flat ba @ xss) (m_position ba) buf"
    "m_baseSize ba' = m_baseSize ba" using ba_write_ok[OF assms(1) False cap] by metis
  have l: "m_position ba \<le> length (flat ba)" using D(7) assms(1) by simp
  have s: "m_size ba' = m_position ba + length buf" using w(4) assms(4) by simp
  have "take (m_size ba') (flat ba') = take (m_position ba) (flat ba) @ buf"
    using l unfolding s w(5) overwrite_def by simp
  then show ?thesis using w assms(2,4) s by auto
qed

lemma ba_write_all_ok:
  assumes "ba_ok ba" "m_baseSize ba = 4096" "4096 dvd m_position ba" "m_size ba = m_position ba"
    "\<forall>b \<in> set (butlast bs). length b = 4096" "\<forall>b \<in> set bs. length b \<le> 4096"
  shows "\<exists>ba'. ba_write_all bs ba = Inr ba' \<and> ba_ok ba' \<and> take (m_size ba') (flat ba') = take (m_size ba) (flat ba) @ concat bs"
  using assms
proof (induction bs arbitrary: ba)
  case (Cons b bs)
  obtain ba1 where w: "ba_write ba b = Inr ba1" "ba_ok ba1" "m_baseSize ba1 = 4096" "m_position ba1 = m_position ba + length b"
    "m_size ba1 = m_position ba1" "take (m_size ba1) (flat ba1) = take (m_size ba) (flat ba) @ b"
    using ba_write_aligned[OF Cons.prems(1-4), of b] Cons.prems(6) by auto
  show ?case
  proof (cases "bs = []")
    case True
    then show ?thesis using w by simp
  next
    case False
    then have "length b = 4096" "\<forall>b \<in> set (butlast bs). length b = 4096" using Cons.prems(5) by auto
    then have "4096 dvd m_position ba1" using w(4) Cons.prems(3) by simp
    from Cons.IH[OF w(2,3) this w(5) \<open>\<forall>b \<in> set (butlast bs). _\<close>] Cons.prems(6) w(1,6) show ?thesis by auto
  qed
qed simp

lemma byte_array_result:
  assumes "chain_ok s" "zs_buffSize s = 4096"
  shows "\<exists>ba. zs_getByteArray junk s = Inr ba \<and> ba_ok ba \<and> readable ba = getResult s"
proof -
  let ?m = "mk_ByteArray junk 4096"
  have m: "ba_ok ?m" "m_baseSize ?m = 4096" "m_position ?m = 0" "m_size ?m = 0"
    by (simp_all add: ba_ok_mk_ByteArray) (simp_all add: mk_ByteArray_def)
  obtain ba where w: "ba_write_all (zs_buffs s) ?m = Inr ba" "ba_ok ba" "take (m_size ba) (flat ba) = concat (zs_buffs s)"
    using ba_write_all_ok[OF m(1,2), of "zs_buffs s"] m(3,4) assms by (auto simp: chain_ok_def)
  obtain ba' where p: "setPosition ba 0 = Inr ba'" "ba_ok ba'" "m_position ba' = 0" "m_size ba' = max (m_size ba) 0" "flat ba' = flat ba"
    using setPosition_ok[OF w(2), of 0] by auto
  show ?thesis using w p by (auto simp: zs_getByteArray_def readable_def getResult_concat)
qed

text \<open>With buffers of 3000 bytes the third one finds 2192 bytes free, and \<open>addCapacity\<close> does not append a node for the other 808.\<close>

lemma byte_array_small_buffers:
  assumes "zs_buffs s = [b, c, d]" "length b = 3000" "length c = 3000" "length d = 3000"
  shows "zs_getByteArray junk s = Inl Null_deref"
proof -
  have ne: "b \<noteq> []" "c \<noteq> []" using assms by auto
  have m: "ba_ok (mk_ByteArray junk 4096)" by (simp add: ba_ok_mk_ByteArray)
  have c0: "addCapacity (mk_ByteArray junk 4096) 3000 = Inr (mk_ByteArray junk 4096)"
    by (simp add: addCapacity_def getCapacity_def mk_ByteArray_def)
  have p0: "m_position (mk_ByteArray junk 4096) = 0" "m_baseSize (mk_ByteArray junk 4096) = 4096"
    "cap_ok (mk_ByteArray junk 4096) (length b)" using assms(2) by (simp_all add: cap_ok_def mk_ByteArray_def)
  obtain b1 where "ba_write (mk_ByteArray junk 4096) b = Inr b1" "ba_ok b1" "m_position b1 = 0 + length b" "m_baseSize b1 = 4096"
    using ba_write_ok[OF m ne(1) p0(3)] p0(1,2) by metis
  then have b1: "ba_write (mk_ByteArray junk 4096) b = Inr b1" "ba_ok b1" "m_position b1 = 3000" "m_baseSize b1 = 4096"
    using assms(2) by simp_all
  have k1: "m_capacity b1 = 4096" using ba_write_capacity[OF b1(1) ne(1)] c0 assms(2) by (simp add: mk_ByteArray_def)
  have c1: "\<exists>x. addCapacity b1 3000 = Inr x \<and> m_capacity x = 8192"
    using b1 k1 by (simp add: addCapacity_def getCapacity_def)
  have p1: "cap_ok b1 (length c)" using assms(3) b1 k1 by (simp add: cap_ok_def)
  obtain b2 where "ba_write b1 c = Inr b2" "ba_ok b2" "m_position b2 = m_position b1 + length c" "m_baseSize b2 = m_baseSize b1"
    using ba_write_ok[OF b1(2) ne(2) p1] by metis
  then have b2: "ba_write b1 c = Inr b2" "ba_ok b2" "m_position b2 = 6000" "m_baseSize b2 = 4096"
    using assms(3) b1 by simp_all
  have k2: "m_capacity b2 = 8192" using ba_write_capacity[OF b2(1) ne(2)] c1 assms(3) by auto
  have "\<not> cap_ok b2 (length d)" using b2 k2 assms(4) by (simp add: cap_ok_def)
  note n = ba_write_null[OF b2(2) this]
  show ?thesis unfolding zs_getByteArray_def assms(1) ba_write_all.simps b1(1) b2(1) n rbind_simps ..
qed

section \<open>Properties\<close>

text \<open>
  What the manual promises of a deflater and an inflater that start in \<open>z\<close> and \<open>y\<close>: an inflater that is given all that the deflater
  put out, in whatever pieces, puts out what the deflater was given.  Both end with a call that finishes.
\<close>

definition zlib_inverse :: "'z zlib_lib \<Rightarrow> 'z \<Rightarrow> 'z \<Rightarrow> bool" where
  "zlib_inverse lib z y \<longleftrightarrow> (\<forall>ins outs z' ins' outs' y'.
     zrun (z_deflate lib) z (plain_ins ins) outs z' \<and> zrun (z_inflate lib) y (plain_ins ins') outs' y' \<and> concat ins' = outs \<longrightarrow>
     outs' = concat ins)"



text \<open>A library for the witnesses: it stores the data, and keeps what the output buffer has no room for.\<close>

definition store_step :: "byte list z_step" where
  "store_step z inp n f = (Z_OK, drop n (z @ inp), [], take n (z @ inp))"

definition store_lib :: "byte list zlib_lib" where
  "store_lib = \<lparr>z_deflateInit2 = (\<lambda>_ _ _ _. (Z_OK, [])), z_inflateInit2 = (\<lambda>_. (Z_OK, [])), z_deflate = store_step, z_inflate = store_step,
     z_deflateEnd = (\<lambda>_. []), z_inflateEnd = (\<lambda>_. [])\<rparr>"

lemma store_codec: "codec_ok store_step (\<lambda>z inp f. length z + length inp)"
  by (auto simp: codec_ok_def store_step_def)

lemma store_run:
  "zrun store_step z ins outs z' \<Longrightarrow> (ins \<noteq> [] \<longrightarrow> z' = []) \<and> outs @ z' = z @ concat (List.map fst ins)"
  by (induction rule: zrun.induct) (auto simp: store_step_def simp del: take_append drop_append)

lemma store_inverse: "zlib_inverse store_lib [] []"
  by (auto simp: zlib_inverse_def store_lib_def plain_ins_def dest!: store_run) (simp add: comp_def)

definition store_stream :: "bool \<Rightarrow> byte list zlib_stream" where
  "store_stream encode = mk_ZlibStream [] encode 2"

text \<open>What it makes of two writes and the closing, with buffers of two bytes.\<close>

definition stored :: "bool \<Rightarrow> byte list zlib_stream" where
  "stored encode = \<lparr>zs_zstream = [], zs_buffSize = 2, zs_encode = encode, zs_free = True, zs_buffs = [[1, 2], [3, 4], []]\<rparr>"

lemmas store_simps = z_encode_def z_decode_def zs_write_def zs_close_def zs_flush_def store_lib_def store_step_def store_stream_def
  mk_ZlibStream_def z_loop.simps z_room_def Let_def Z_OK_def Z_STREAM_ERROR_def stored_def

lemma store_encodes:
  "z_encode store_lib [[1, 2, 3], [4]] True (store_stream True) = Some (Z_OK, stored True)"
  "zs_session store_lib [[1, 2, 3], [4]] (store_stream True) = Some ([Z_OK, Z_OK, Z_OK], stored True)"
  "zs_session store_lib [[1, 2], [3, 4]] (store_stream False) = Some ([Z_OK, Z_OK, Z_OK], stored False)"
  by (simp_all add: store_simps)



end
