(* ===== verification/Service_Discovery.thy ===== *)
theory Service_Discovery
  imports Address_Laws
begin

text \<open>
  Service discovery over ZooKeeper: \<^verbatim>\<open>captain/streams/service_discovery.h\<close> and \<^verbatim>\<open>service_discovery.cc\<close>.  The client of
  ZooKeeper is the parameter \<open>zk\<close>: its calls take and give the state of the service.  \<^verbatim>\<open>split\<close>, \<^verbatim>\<open>Atoi\<close> and
  \<^verbatim>\<open>inet_addr\<close> come from other libraries and are arguments.  A client that has been closed is a null pointer.  Calls of the
  service callback are recorded with their old and new values.  Hash tables are maps; the order in which one is iterated is
  an argument.

  Proved: registering creates the node of the provider with all its parents and nothing else; a watched list of providers is taken over
  exactly; in every run the callbacks for a service form a chain from the empty list to the present one; and a service named
  \<open>all\<close> makes the queries recur for ever.
\<close>

section \<open>State\<close>

text \<open>\<open>zk_create\<close> also takes whether the node is ephemeral, \<open>zk_getChildren\<close> whether to watch it.\<close>

record 'z zk =
  zk_exists :: "string \<Rightarrow> 'z \<Rightarrow> int \<times> 'z"
  zk_create :: "string \<Rightarrow> string \<Rightarrow> bool \<Rightarrow> 'z \<Rightarrow> int \<times> 'z"
  zk_getChildren :: "string \<Rightarrow> bool \<Rightarrow> 'z \<Rightarrow> int \<times> string list \<times> 'z"
  zk_reconnect :: "'z \<Rightarrow> bool \<times> 'z"

definition ZOK :: int where "ZOK = 0"
definition ZNODEEXISTS :: int where "ZNODEEXISTS = - 110"

record service_info =
  si_id :: "64 word"
  si_port :: "16 word"
  si_ip :: string
  si_data :: string

type_synonym infos = "64 word \<rightharpoonup> service_info"

record 'z discovery =
  dc_datas :: "string \<Rightarrow> string \<Rightarrow> infos"
  dc_registerInfos :: "string \<Rightarrow> string \<Rightarrow> string \<rightharpoonup> string"
  dc_queryInfos :: "string \<rightharpoonup> string set"
  dc_cb :: bool
  dc_calls :: "(string \<times> string \<times> infos \<times> infos) list"
  dc_selfInfo :: string
  dc_selfData :: string
  dc_client :: "'z option"
  dc_timer :: "nat option"

definition mk_ZKServiceDiscovery :: "'z discovery" where
  "mk_ZKServiceDiscovery = \<lparr>dc_datas = (\<lambda>_ _. Map.empty), dc_registerInfos = (\<lambda>_ _. Map.empty), dc_queryInfos = Map.empty,
     dc_cb = False, dc_calls = [], dc_selfInfo = [], dc_selfData = [], dc_client = None, dc_timer = None\<rparr>"

text \<open>The first and the last position of a character.\<close>

fun find_char :: "char \<Rightarrow> string \<Rightarrow> nat option" where
  "find_char c [] = None"
| "find_char c (x # xs) = (if x = c then Some 0 else map_option Suc (find_char c xs))"

fun find_last_of :: "char \<Rightarrow> string \<Rightarrow> nat option" where
  "find_last_of c [] = None"
| "find_last_of c (x # xs) = (case find_last_of c xs of Some i \<Rightarrow> Some (Suc i) | None \<Rightarrow> if x = c then Some 0 else None)"

lemma find_last_of_less: "find_last_of c s = Some i \<Longrightarrow> i < length s"
  by (induction s arbitrary: i) (auto split: option.splits if_splits)

definition ServiceItemInfo_Create :: "(string \<Rightarrow> 32 word) \<Rightarrow> (string \<Rightarrow> int) \<Rightarrow> string \<Rightarrow> string \<Rightarrow> service_info option" where
  "ServiceItemInfo_Create inet_addr atoi ip_and_port data =
     (case find_char (CHR '':'') ip_and_port of
        None \<Rightarrow> None
      | Some pos \<Rightarrow>
          let ip = take pos ip_and_port; port = atoi (drop (pos + 1) ip_and_port); ip_addr = inet_addr ip
          in if ip_addr = 0 then None
             else Some \<lparr>si_id = push_bit 32 (ucast ip_addr) OR of_int port, si_port = of_int port, si_ip = ip, si_data = data\<rparr>)"

section \<open>What is registered and asked for\<close>

definition dc_setQueryServer :: "(string \<rightharpoonup> string set) \<Rightarrow> 'z discovery \<Rightarrow> 'z discovery" where
  "dc_setQueryServer v d = d\<lparr>dc_queryInfos := v\<rparr>"

definition dc_registerServer :: "string \<Rightarrow> string \<Rightarrow> string \<Rightarrow> string \<Rightarrow> 'z discovery \<Rightarrow> 'z discovery" where
  "dc_registerServer domain service ip_and_port data d =
     d\<lparr>dc_registerInfos := (dc_registerInfos d)(domain := (dc_registerInfos d domain)(service :=
         (dc_registerInfos d domain service)(ip_and_port \<mapsto> data)))\<rparr>"

definition dc_queryServer :: "string \<Rightarrow> string \<Rightarrow> 'z discovery \<Rightarrow> 'z discovery" where
  "dc_queryServer domain service d =
     d\<lparr>dc_queryInfos := (dc_queryInfos d)(domain \<mapsto> insert service (case dc_queryInfos d domain of Some s \<Rightarrow> s | None \<Rightarrow> {}))\<rparr>"

definition dc_listServer :: "'z discovery \<Rightarrow> string \<Rightarrow> string \<Rightarrow> infos" where
  "dc_listServer d = dc_datas d"

definition dc_listRegisterServer :: "'z discovery \<Rightarrow> string \<Rightarrow> string \<Rightarrow> string \<rightharpoonup> string" where
  "dc_listRegisterServer d = dc_registerInfos d"

definition dc_listQueryServer :: "'z discovery \<Rightarrow> string \<rightharpoonup> string set" where
  "dc_listQueryServer d = dc_queryInfos d"

section \<open>Paths\<close>

definition GetProvidersPath :: "string \<Rightarrow> string \<Rightarrow> string" where
  "GetProvidersPath domain service = ''/sylar/'' @ domain @ ''/'' @ service @ ''/providers''"

definition GetConsumersPath :: "string \<Rightarrow> string \<Rightarrow> string" where
  "GetConsumersPath domain service = ''/sylar/'' @ domain @ ''/'' @ service @ ''/consumers''"

definition GetDomainPath :: "string \<Rightarrow> string" where
  "GetDomainPath domain = ''/sylar/'' @ domain"

definition ParseDomainService :: "(string \<Rightarrow> char \<Rightarrow> string list) \<Rightarrow> string \<Rightarrow> (string \<times> string) option" where
  "ParseDomainService split path = (let v = split path (CHR ''/'') in if length v \<noteq> 5 then None else Some (v ! 2, v ! 3))"

text \<open>A call of the client.\<close>

definition with_client :: "('z \<Rightarrow> 'a \<times> 'z) \<Rightarrow> 'z discovery \<Rightarrow> ('a \<times> 'z discovery) result" where
  "with_client f d = (case dc_client d of None \<Rightarrow> Inl Null_deref | Some z \<Rightarrow> (case f z of (a, z) \<Rightarrow> Inr (a, d\<lparr>dc_client := Some z\<rparr>)))"

function existsOrCreate :: "'z zk \<Rightarrow> string \<Rightarrow> 'z discovery \<Rightarrow> (bool \<times> 'z discovery) result" where
  "existsOrCreate zk path d =
     rbind (with_client (zk_exists zk path) d) (\<lambda>(v, d).
       if v = ZOK then Inr (True, d)
       else case find_last_of (CHR ''/'') path of
         None \<Rightarrow> Inr (False, d)
       | Some pos \<Rightarrow>
           rbind (if pos = 0 then Inr (True, d) else existsOrCreate zk (take pos path) d) (\<lambda>(ok, d).
             if ok then rbind (with_client (zk_create zk path [] False) d) (\<lambda>(v, d). Inr (v = ZOK, d))
             else Inr (False, d)))"
  by pat_completeness auto
termination
  by (relation "measure (\<lambda>(zk, path, d). length path)") (auto dest: find_last_of_less)

declare existsOrCreate.simps [simp del]

definition registerInfo :: "'z zk \<Rightarrow> string \<Rightarrow> string \<Rightarrow> string \<Rightarrow> string \<Rightarrow> 'z discovery \<Rightarrow> (bool \<times> 'z discovery) result" where
  "registerInfo zk domain service ip_and_port data d =
     (let path = GetProvidersPath domain service in
      rbind (existsOrCreate zk path d) (\<lambda>(v, d).
        if \<not> v then Inr (False, d)
        else rbind (with_client (zk_create zk (path @ ''/'' @ ip_and_port) data True) d) (\<lambda>(rt, d).
          Inr (rt = ZOK \<or> rt = ZNODEEXISTS, d))))"

text \<open>For the service \<open>all\<close> the queries go through the services of the domain, which may recur for ever.\<close>

definition queryInfo_one :: "'z zk \<Rightarrow> string \<Rightarrow> string \<Rightarrow> 'z discovery \<Rightarrow> (bool \<times> 'z discovery) result" where
  "queryInfo_one zk domain service d =
     (let path = GetConsumersPath domain service in
      rbind (existsOrCreate zk path d) (\<lambda>(v, d).
        if \<not> v then Inr (False, d)
        else if dc_selfInfo d = [] then Inr (False, d)
        else rbind (with_client (zk_create zk (path @ ''/'' @ dc_selfInfo d) (dc_selfData d) True) d) (\<lambda>(rt, d).
          Inr (rt = ZOK \<or> rt = ZNODEEXISTS, d))))"

section \<open>The providers of a service\<close>

definition parse_infos :: "(string \<Rightarrow> 32 word) \<Rightarrow> (string \<Rightarrow> int) \<Rightarrow> string list \<Rightarrow> infos" where
  "parse_infos inet_addr atoi vals =
     foldl (\<lambda>infos i. case ServiceItemInfo_Create inet_addr atoi i [] of None \<Rightarrow> infos | Some info \<Rightarrow> infos(si_id info \<mapsto> info)) Map.empty vals"

definition queried :: "string \<Rightarrow> string \<Rightarrow> 'z discovery \<Rightarrow> bool" where
  "queried domain service d = (case dc_queryInfos d domain of None \<Rightarrow> False | Some s \<Rightarrow> service \<in> s \<or> ''all'' \<in> s)"

definition dc_notify :: "string \<Rightarrow> string \<Rightarrow> infos \<Rightarrow> infos \<Rightarrow> 'z discovery \<Rightarrow> 'z discovery result" where
  "dc_notify domain service old_value new_value d =
     (if dc_cb d then Inr (d\<lparr>dc_calls := dc_calls d @ [(domain, service, old_value, new_value)]\<rparr>)
      else Inl (Logic_error ''bad_function_call''))"

definition dc_getChildren :: "'z zk \<Rightarrow> (string \<Rightarrow> char \<Rightarrow> string list) \<Rightarrow> (string \<Rightarrow> 32 word) \<Rightarrow> (string \<Rightarrow> int) \<Rightarrow> string \<Rightarrow> 'z discovery
    \<Rightarrow> (bool \<times> 'z discovery) result" where
  "dc_getChildren zk split inet_addr atoi path d =
     (case ParseDomainService split path of
        None \<Rightarrow> Inr (False, d)
      | Some (domain, service) \<Rightarrow>
          if \<not> queried domain service d then Inr (False, d)
          else rbind (with_client (\<lambda>z. case zk_getChildren zk path True z of (v, vals, z) \<Rightarrow> ((v, vals), z)) d) (\<lambda>((v, vals), d).
            if v \<noteq> ZOK then Inr (False, d)
            else
              let new_vals = parse_infos inet_addr atoi vals; infos = dc_datas d domain service in
              rbind (dc_notify domain service infos new_vals
                  (d\<lparr>dc_datas := (dc_datas d)(domain := (dc_datas d domain)(service := new_vals))\<rparr>)) (\<lambda>d. Inr (True, d))))"

definition queryData_one :: "'z zk \<Rightarrow> (string \<Rightarrow> char \<Rightarrow> string list) \<Rightarrow> (string \<Rightarrow> 32 word) \<Rightarrow> (string \<Rightarrow> int) \<Rightarrow> string \<Rightarrow> string
    \<Rightarrow> 'z discovery \<Rightarrow> (bool \<times> 'z discovery) result" where
  "queryData_one zk split inet_addr atoi domain service d =
     dc_getChildren zk split inet_addr atoi (GetProvidersPath domain service) d"

text \<open>
  \<open>queryInfo\<close> and \<open>queryData\<close> are the same recursion over what they do for one service.  The list is that of the children
  still to be visited, on the stack of calls; \<open>rt\<close> is the conjunction of the results so far.
\<close>

partial_function (option) query_loop :: "'z zk \<Rightarrow> (string \<Rightarrow> 'z discovery \<Rightarrow> (bool \<times> 'z discovery) result) \<Rightarrow> string \<Rightarrow> string list \<Rightarrow> bool
    \<Rightarrow> 'z discovery \<Rightarrow> (bool \<times> 'z discovery) result option" where
  "query_loop zk one domain services rt d =
     (case services of
        [] \<Rightarrow> Some (Inr (rt, d))
      | service # rest \<Rightarrow>
          if service \<noteq> ''all'' then
            (case one service d of
               Inl e \<Rightarrow> Some (Inl e)
             | Inr (v, d) \<Rightarrow> query_loop zk one domain rest (rt \<and> v) d)
          else
            (case with_client (\<lambda>z. case zk_getChildren zk (GetDomainPath domain) False z of (v, vals, z) \<Rightarrow> (vals, z)) d of
               Inl e \<Rightarrow> Some (Inl e)
             | Inr (children, d) \<Rightarrow> query_loop zk one domain (children @ rest) rt d))"

definition queryInfo :: "'z zk \<Rightarrow> string \<Rightarrow> string \<Rightarrow> 'z discovery \<Rightarrow> (bool \<times> 'z discovery) result option" where
  "queryInfo zk domain service d = query_loop zk (queryInfo_one zk domain) domain [service] True d"

definition queryData :: "'z zk \<Rightarrow> (string \<Rightarrow> char \<Rightarrow> string list) \<Rightarrow> (string \<Rightarrow> 32 word) \<Rightarrow> (string \<Rightarrow> int) \<Rightarrow> string \<Rightarrow> string
    \<Rightarrow> 'z discovery \<Rightarrow> (bool \<times> 'z discovery) result option" where
  "queryData zk split inet_addr atoi domain service d =
     query_loop zk (queryData_one zk split inet_addr atoi domain) domain [service] True d"

section \<open>Notifications\<close>

fun register_all :: "'z zk \<Rightarrow> (string \<times> string \<times> string \<times> string) list \<Rightarrow> 'z discovery \<Rightarrow> 'z discovery result" where
  "register_all zk [] d = Inr d"
| "register_all zk ((domain, service, ip_and_port, data) # rinfo) d =
     rbind (registerInfo zk domain service ip_and_port data d) (\<lambda>(_, d). register_all zk rinfo d)"

fun query_all :: "(string \<Rightarrow> string \<Rightarrow> 'z discovery \<Rightarrow> (bool \<times> 'z discovery) result option) \<Rightarrow> (string \<times> string) list \<Rightarrow> 'z discovery
    \<Rightarrow> 'z discovery result option" where
  "query_all query [] d = Some (Inr d)"
| "query_all query ((domain, service) # qinfo) d =
     (case query domain service d of
        None \<Rightarrow> None
      | Some (Inl e) \<Rightarrow> Some (Inl e)
      | Some (Inr (_, d)) \<Rightarrow> query_all query qinfo d)"

text \<open>\<open>rinfo\<close> and \<open>qinfo\<close> list what is registered and asked for, in the order of the hash tables.\<close>

definition onZKConnect :: "'z zk \<Rightarrow> (string \<Rightarrow> char \<Rightarrow> string list) \<Rightarrow> (string \<Rightarrow> 32 word) \<Rightarrow> (string \<Rightarrow> int)
    \<Rightarrow> ((string \<Rightarrow> string \<Rightarrow> string \<rightharpoonup> string) \<Rightarrow> (string \<times> string \<times> string \<times> string) list)
    \<Rightarrow> ((string \<rightharpoonup> string set) \<Rightarrow> (string \<times> string) list) \<Rightarrow> 'z discovery \<Rightarrow> 'z discovery result option" where
  "onZKConnect zk split inet_addr atoi rinfo qinfo d =
     (let r = rinfo (dc_registerInfos d); q = qinfo (dc_queryInfos d) in
      case register_all zk r d of
        Inl e \<Rightarrow> Some (Inl e)
      | Inr d \<Rightarrow>
          (case query_all (queryInfo zk) q d of
             None \<Rightarrow> None
           | Some (Inl e) \<Rightarrow> Some (Inl e)
           | Some (Inr d) \<Rightarrow> query_all (queryData zk split inet_addr atoi) q d))"

datatype zk_state = CONNECTED | EXPIRED_SESSION | Other_state
datatype zk_event = SESSION | CHILD | CHANGED | DELETED | Other_event

definition onWatch :: "'z zk \<Rightarrow> (string \<Rightarrow> char \<Rightarrow> string list) \<Rightarrow> (string \<Rightarrow> 32 word) \<Rightarrow> (string \<Rightarrow> int)
    \<Rightarrow> ((string \<Rightarrow> string \<Rightarrow> string \<rightharpoonup> string) \<Rightarrow> (string \<times> string \<times> string \<times> string) list)
    \<Rightarrow> ((string \<rightharpoonup> string set) \<Rightarrow> (string \<times> string) list) \<Rightarrow> zk_event \<Rightarrow> zk_state \<Rightarrow> string \<Rightarrow> 'z discovery \<Rightarrow> 'z discovery result option" where
  "onWatch zk split inet_addr atoi rinfo qinfo type stat path d =
     (case (stat, type) of
        (CONNECTED, SESSION) \<Rightarrow> onZKConnect zk split inet_addr atoi rinfo qinfo d
      | (CONNECTED, CHILD) \<Rightarrow> Some (rbind (dc_getChildren zk split inet_addr atoi path d) (\<lambda>(_, d). Inr d))
      | (EXPIRED_SESSION, SESSION) \<Rightarrow> Some (rbind (with_client (zk_reconnect zk) d) (\<lambda>(_, d). Inr d))
      | _ \<Rightarrow> Some (Inr d))"

text \<open>\<open>z\<close> is the new client, \<open>t\<close> the timer that calls \<open>onZKConnect\<close> every minute; \<open>stop\<close> also gives the timer that it cancels.\<close>

definition dc_start :: "'z \<Rightarrow> nat option \<Rightarrow> 'z discovery \<Rightarrow> 'z discovery result" where
  "dc_start z t d =
     (if dc_client d \<noteq> None then Inr d
      else case t of None \<Rightarrow> Inl Null_deref | Some t \<Rightarrow> Inr (d\<lparr>dc_client := Some z, dc_timer := Some t\<rparr>))"

definition dc_stop :: "'z discovery \<Rightarrow> nat option \<times> 'z discovery" where
  "dc_stop d = (dc_timer d, d\<lparr>dc_client := None, dc_timer := None\<rparr>)"

section \<open>What does not change\<close>

definition same_view :: "'z discovery \<Rightarrow> 'z discovery \<Rightarrow> bool" where
  "same_view d d' \<longleftrightarrow> dc_datas d' = dc_datas d \<and> dc_calls d' = dc_calls d"

lemma same_view_trans: "same_view a b \<Longrightarrow> same_view b c \<Longrightarrow> same_view a c"
  by (simp add: same_view_def)

lemma with_client_InrD: "with_client f d = Inr (a, d') \<Longrightarrow> \<exists>z z'. dc_client d = Some z \<and> f z = (a, z') \<and> d' = d\<lparr>dc_client := Some z'\<rparr>"
  by (auto simp: with_client_def split: option.splits prod.splits)

lemma with_client_view: "with_client f d = Inr (a, d') \<Longrightarrow> same_view d d'"
  by (auto simp: same_view_def dest: with_client_InrD)

lemma existsOrCreate_view: "existsOrCreate zk path d = Inr (b, d') \<Longrightarrow> same_view d d'"
proof (induction zk path d arbitrary: b d' rule: existsOrCreate.induct)
  case (1 zk path d)
  obtain v d1 where v: "with_client (zk_exists zk path) d = Inr (v, d1)"
    using "1.prems" by (subst (asm) existsOrCreate.simps) (auto simp: rbind_eq_Inr_iff)
  note s1 = with_client_view[OF v]
  show ?case
  proof (cases "v = ZOK \<or> find_last_of (CHR ''/'') path = None")
    case True
    then show ?thesis using "1.prems" v s1 by (subst (asm) existsOrCreate.simps) (auto split: if_splits)
  next
    case False
    then obtain pos where pos: "find_last_of (CHR ''/'') path = Some pos" by auto
    define r where "r = (if pos = 0 then Inr (True, d1) else existsOrCreate zk (take pos path) d1)"
    have eq: "rbind r (\<lambda>(ok, d). if ok then rbind (with_client (zk_create zk path [] False) d) (\<lambda>(v, d). Inr (v = ZOK, d))
        else Inr (False, d)) = Inr (b, d')"
      using "1.prems" v False pos by (subst (asm) existsOrCreate.simps) (simp add: r_def)
    then obtain ok d2 where r: "r = Inr (ok, d2)" by (auto simp: rbind_eq_Inr_iff)
    have s2: "same_view d1 d2"
    proof (cases "pos = 0")
      case True
      then show ?thesis using r by (simp add: r_def same_view_def)
    next
      case p: False
      then have "existsOrCreate zk (take pos path) d1 = Inr (ok, d2)" using r by (simp add: r_def)
      from "1.IH"[OF v refl _ pos p this] False show ?thesis by blast
    qed
    show ?thesis
    proof (cases ok)
      case True
      then obtain v' where w: "with_client (zk_create zk path [] False) d2 = Inr (v', d')"
        using eq r by (auto simp: rbind_eq_Inr_iff)
      show ?thesis by (rule same_view_trans[OF s1 same_view_trans[OF s2 with_client_view[OF w]]])
    next
      case False
      then have "d' = d2" using eq r by simp
      then show ?thesis using same_view_trans[OF s1 s2] by simp
    qed
  qed
qed

section \<open>What the callbacks have seen\<close>

fun chained :: "infos \<Rightarrow> (infos \<times> infos) list \<Rightarrow> infos \<Rightarrow> bool" where
  "chained a [] b \<longleftrightarrow> a = b"
| "chained a ((old_value, new_value) # xs) b \<longleftrightarrow> a = old_value \<and> chained new_value xs b"

lemma chained_snoc: "chained a xs b \<Longrightarrow> chained a (xs @ [(b, c)]) c"
  by (induction a xs b rule: chained.induct) auto

definition calls_of :: "string \<Rightarrow> string \<Rightarrow> (string \<times> string \<times> infos \<times> infos) list \<Rightarrow> (infos \<times> infos) list" where
  "calls_of domain service calls = List.map (snd \<circ> snd) (filter (\<lambda>c. fst c = domain \<and> fst (snd c) = service) calls)"

definition view_ok :: "'z discovery \<Rightarrow> bool" where
  "view_ok d \<longleftrightarrow> (\<forall>domain service. chained Map.empty (calls_of domain service (dc_calls d)) (dc_datas d domain service) \<and>
     (\<forall>n info. dc_datas d domain service n = Some info \<longrightarrow> si_id info = n))"

lemma view_ok_same: "same_view d d' \<Longrightarrow> view_ok d \<Longrightarrow> view_ok d'"
  by (simp add: same_view_def view_ok_def)

lemma view_ok_init: "view_ok mk_ZKServiceDiscovery"
  by (simp add: view_ok_def mk_ZKServiceDiscovery_def calls_of_def)

lemma registerInfo_view: "registerInfo zk domain service ip data d = Inr (b, d') \<Longrightarrow> same_view d d'"
  by (auto simp: registerInfo_def Let_def rbind_eq_Inr_iff split: if_splits
      dest!: existsOrCreate_view with_client_view intro: same_view_trans)

lemma queryInfo_one_view: "queryInfo_one zk domain service d = Inr (b, d') \<Longrightarrow> same_view d d'"
  by (auto simp: queryInfo_one_def Let_def rbind_eq_Inr_iff split: if_splits
      dest!: existsOrCreate_view with_client_view intro: same_view_trans)

lemma parse_infos_ids: "parse_infos inet_addr atoi vals n = Some info \<Longrightarrow> si_id info = n"
proof -
  have "foldl (\<lambda>infos i. case ServiceItemInfo_Create inet_addr atoi i [] of None \<Rightarrow> infos | Some info \<Rightarrow> infos(si_id info \<mapsto> info)) m vals n = Some info
    \<Longrightarrow> (\<forall>n info. m n = Some info \<longrightarrow> si_id info = n) \<Longrightarrow> si_id info = n" for m
    by (induction vals arbitrary: m) (auto split: option.splits if_splits)
  then show "parse_infos inet_addr atoi vals n = Some info \<Longrightarrow> si_id info = n" by (auto simp: parse_infos_def)
qed

lemma notified_ok:
  assumes "view_ok d" "\<forall>n info. new_value n = Some info \<longrightarrow> si_id info = n"
    "dc_notify domain service (dc_datas d domain service) new_value
      (d\<lparr>dc_datas := (dc_datas d)(domain := (dc_datas d domain)(service := new_value))\<rparr>) = Inr d'"
  shows "view_ok d'"
proof -
  have d': "dc_datas d' = (dc_datas d)(domain := (dc_datas d domain)(service := new_value))"
    "dc_calls d' = dc_calls d @ [(domain, service, dc_datas d domain service, new_value)]"
    using assms(3) by (auto simp: dc_notify_def split: if_splits)
  have "calls_of dom svc (dc_calls d') = calls_of dom svc (dc_calls d) @
      (if dom = domain \<and> svc = service then [(dc_datas d domain service, new_value)] else [])" for dom svc
    by (simp add: d' calls_of_def)
  then show ?thesis using assms(1,2) by (auto simp: view_ok_def d' chained_snoc)
qed

lemma dc_getChildren_ok:
  assumes "dc_getChildren zk split inet_addr atoi path d = Inr (b, d')" "view_ok d"
  shows "view_ok d'"
proof (cases "ParseDomainService split path")
  case None
  then show ?thesis using assms by (simp add: dc_getChildren_def)
next
  case (Some ds)
  obtain domain service where ds: "ds = (domain, service)" by (cases ds)
  show ?thesis
  proof (cases "queried domain service d")
    case False
    then show ?thesis using assms Some ds by (simp add: dc_getChildren_def)
  next
    case True
    then obtain v vals d1 where w: "with_client (\<lambda>z. case zk_getChildren zk path True z of (v, vals, z) \<Rightarrow> ((v, vals), z)) d = Inr ((v, vals), d1)"
      using assms(1) Some ds by (auto simp: dc_getChildren_def rbind_eq_Inr_iff)
    have ok: "view_ok d1" by (rule view_ok_same[OF with_client_view[OF w] assms(2)])
    show ?thesis
    proof (cases "v = ZOK")
      case False
      then show ?thesis using assms(1) Some ds True w ok by (simp add: dc_getChildren_def)
    next
      case v: True
      then have "dc_notify domain service (dc_datas d1 domain service) (parse_infos inet_addr atoi vals)
          (d1\<lparr>dc_datas := (dc_datas d1)(domain := (dc_datas d1 domain)(service := parse_infos inet_addr atoi vals))\<rparr>) = Inr d'"
        using assms(1) Some ds True w by (simp add: dc_getChildren_def rbind_eq_Inr_iff Let_def)
      from notified_ok[OF ok _ this] show ?thesis using parse_infos_ids by blast
    qed
  qed
qed

definition keeps_view :: "(string \<Rightarrow> 'z discovery \<Rightarrow> (bool \<times> 'z discovery) result) \<Rightarrow> bool" where
  "keeps_view one \<longleftrightarrow> (\<forall>service d b d'. one service d = Inr (b, d') \<longrightarrow> view_ok d \<longrightarrow> view_ok d')"

definition good_view :: "(bool \<times> 'z discovery) result \<Rightarrow> bool" where
  "good_view r \<longleftrightarrow> (case r of Inr (b, d') \<Rightarrow> view_ok d' | Inl e \<Rightarrow> True)"

lemma query_loop_good:
  assumes "query_loop zk one domain services rt d = Some r"
  shows "view_ok d \<longrightarrow> keeps_view one \<longrightarrow> good_view r"
proof (rule query_loop.raw_induct[OF _ assms, where P = "\<lambda>zk one domain services rt d r. view_ok d \<longrightarrow> keeps_view one \<longrightarrow> good_view r"])
  fix loop zk one domain services rt and d :: "'a discovery" and r
  assume ih: "\<And>zk one domain services rt d r. loop zk one domain services rt d = Some r \<Longrightarrow> view_ok d \<longrightarrow> keeps_view one \<longrightarrow> good_view r"
    and eq: "(case services of
        [] \<Rightarrow> Some (Inr (rt, d))
      | service # rest \<Rightarrow>
          if service \<noteq> ''all'' then
            (case one service d of
               Inl e \<Rightarrow> Some (Inl e)
             | Inr (v, d) \<Rightarrow> loop zk one domain rest (rt \<and> v) d)
          else
            (case with_client (\<lambda>z. case zk_getChildren zk (GetDomainPath domain) False z of (v, vals, z) \<Rightarrow> (vals, z)) d of
               Inl e \<Rightarrow> Some (Inl e)
             | Inr (children, d) \<Rightarrow> loop zk one domain (children @ rest) rt d)) = Some r"
  show "view_ok d \<longrightarrow> keeps_view one \<longrightarrow> good_view r"
  proof (intro impI)
    assume ok: "view_ok d" and k: "keeps_view one"
    let ?c = "with_client (\<lambda>z. case zk_getChildren zk (GetDomainPath domain) False z of (v, vals, z) \<Rightarrow> (vals, z)) d"
    consider "services = []" | service rest where "services = service # rest" "service \<noteq> ''all''" | rest where "services = ''all'' # rest"
      by (cases services) auto
    then show "good_view r"
    proof cases
      case 1
      then show ?thesis using eq ok by (auto simp: good_view_def)
    next
      case (2 service rest)
      show ?thesis
      proof (cases "one service d")
        case (Inl e)
        then have "r = Inl e" using eq 2 by simp
        then show ?thesis by (simp add: good_view_def)
      next
        case (Inr p)
        obtain v d1 where p: "p = (v, d1)" by (cases p)
        then have "view_ok d1" using k ok Inr by (auto simp: keeps_view_def)
        moreover have "loop zk one domain rest (rt \<and> v) d1 = Some r" using eq 2 Inr p by simp
        ultimately show ?thesis using ih k by blast
      qed
    next
      case (3 rest)
      show ?thesis
      proof (cases ?c)
        case (Inl e)
        then have "Some (Inl e) = Some r" using eq by (simp only: 3 list.case if_False simp_thms sum.case)
        then have "r = Inl e" by simp
        then show ?thesis by (simp add: good_view_def)
      next
        case (Inr p)
        obtain cs d1 where p: "p = (cs, d1)" by (cases p)
        have "view_ok d1" by (rule view_ok_same[OF with_client_view ok]) (use Inr p in simp)
        moreover have "loop zk one domain (cs @ rest) rt d1 = Some r" using eq by (simp only: 3 Inr p list.case if_False simp_thms sum.case prod.case)
        ultimately show ?thesis using ih k by blast
      qed
    qed
  qed
qed

lemma queryInfo_ok: "queryInfo zk domain service d = Some (Inr (b, d')) \<Longrightarrow> view_ok d \<Longrightarrow> view_ok d'"
  using query_loop_good[of zk "queryInfo_one zk domain" domain "[service]" True d "Inr (b, d')"] queryInfo_one_view view_ok_same
  by (fastforce simp: queryInfo_def good_view_def keeps_view_def)

lemma queryData_ok: "queryData zk split inet_addr atoi domain service d = Some (Inr (b, d')) \<Longrightarrow> view_ok d \<Longrightarrow> view_ok d'"
  using query_loop_good[of zk "queryData_one zk split inet_addr atoi domain" domain "[service]" True d "Inr (b, d')"] dc_getChildren_ok
  by (fastforce simp: queryData_def queryData_one_def good_view_def keeps_view_def)

lemma register_all_view: "register_all zk rs d = Inr d' \<Longrightarrow> same_view d d'"
proof (induction zk rs d rule: register_all.induct)
  case (1 zk d)
  then show ?case by (simp add: same_view_def)
next
  case (2 zk domain service ip data rinfo d)
  then obtain b d1 where r: "registerInfo zk domain service ip data d = Inr (b, d1)" "register_all zk rinfo d1 = Inr d'"
    by (auto simp: rbind_eq_Inr_iff)
  show ?case by (rule same_view_trans[OF registerInfo_view[OF r(1)] "2.IH"[OF r(1) refl r(2)]])
qed

lemma query_all_ok:
  assumes "query_all query qs d = Some (Inr d')" "view_ok d"
    "\<And>domain service d b d'. query domain service d = Some (Inr (b, d')) \<Longrightarrow> view_ok d \<Longrightarrow> view_ok d'"
  shows "view_ok d'"
  using assms(1,2)
proof (induction qs arbitrary: d)
  case (Cons q qs)
  obtain domain service where q: "q = (domain, service)" by (cases q)
  obtain b d1 where h: "query domain service d = Some (Inr (b, d1))" "query_all query qs d1 = Some (Inr d')"
    using Cons.prems(1) q by (auto split: option.splits sum.splits)
  show ?case by (rule Cons.IH[OF h(2) assms(3)[OF h(1) Cons.prems(2)]])
qed simp

section \<open>Runs\<close>

text \<open>
  What can happen to a discovery once its callback is set: servers are registered and asked for, it is started and stopped, its timer and
  the client call it.
\<close>

inductive discovery_step :: "'z zk \<Rightarrow> (string \<Rightarrow> char \<Rightarrow> string list) \<Rightarrow> (string \<Rightarrow> 32 word) \<Rightarrow> (string \<Rightarrow> int)
    \<Rightarrow> ((string \<Rightarrow> string \<Rightarrow> string \<rightharpoonup> string) \<Rightarrow> (string \<times> string \<times> string \<times> string) list)
    \<Rightarrow> ((string \<rightharpoonup> string set) \<Rightarrow> (string \<times> string) list) \<Rightarrow> 'z discovery \<Rightarrow> 'z discovery \<Rightarrow> bool"
  for zk split inet_addr atoi rinfo qinfo where
  set_callback: "discovery_step zk split inet_addr atoi rinfo qinfo d (d\<lparr>dc_cb := True\<rparr>)"
| set_self: "discovery_step zk split inet_addr atoi rinfo qinfo d (d\<lparr>dc_selfInfo := i, dc_selfData := j\<rparr>)"
| register: "discovery_step zk split inet_addr atoi rinfo qinfo d (dc_registerServer domain service ip data d)"
| query: "discovery_step zk split inet_addr atoi rinfo qinfo d (dc_queryServer domain service d)"
| set_query: "discovery_step zk split inet_addr atoi rinfo qinfo d (dc_setQueryServer v d)"
| start: "dc_start z t d = Inr d' \<Longrightarrow> discovery_step zk split inet_addr atoi rinfo qinfo d d'"
| stop: "discovery_step zk split inet_addr atoi rinfo qinfo d (snd (dc_stop d))"
| timer: "onZKConnect zk split inet_addr atoi rinfo qinfo d = Some (Inr d') \<Longrightarrow> discovery_step zk split inet_addr atoi rinfo qinfo d d'"
| watch: "onWatch zk split inet_addr atoi rinfo qinfo type stat path d = Some (Inr d') \<Longrightarrow>
    discovery_step zk split inet_addr atoi rinfo qinfo d d'"

lemma onZKConnect_ok:
  assumes "onZKConnect zk split inet_addr atoi rinfo qinfo d = Some (Inr d')" "view_ok d"
  shows "view_ok d'"
proof -
  obtain d1 d2 where h: "register_all zk (rinfo (dc_registerInfos d)) d = Inr d1"
    "query_all (queryInfo zk) (qinfo (dc_queryInfos d)) d1 = Some (Inr d2)"
    "query_all (queryData zk split inet_addr atoi) (qinfo (dc_queryInfos d)) d2 = Some (Inr d')"
    using assms(1) by (auto simp: onZKConnect_def Let_def split: sum.splits option.splits)
  have "view_ok d1" by (rule view_ok_same[OF register_all_view[OF h(1)] assms(2)])
  with h(2) have "view_ok d2" by (rule query_all_ok) (rule queryInfo_ok)
  with h(3) show ?thesis by (rule query_all_ok) (rule queryData_ok)
qed

lemma onWatch_ok:
  assumes "onWatch zk split inet_addr atoi rinfo qinfo type stat path d = Some (Inr d')" "view_ok d"
  shows "view_ok d'"
proof (cases stat)
  case CONNECTED
  note simps = onWatch_def CONNECTED prod.case zk_state.case
  show ?thesis
  proof (cases type)
    case SESSION
    from assms(1) have "onZKConnect zk split inet_addr atoi rinfo qinfo d = Some (Inr d')" by (simp only: simps SESSION zk_event.case)
    then show ?thesis using assms(2) by (rule onZKConnect_ok)
  next
    case CHILD
    from assms(1) have "rbind (dc_getChildren zk split inet_addr atoi path d) (\<lambda>(_, d). Inr d) = Inr d'"
      by (simp only: simps CHILD zk_event.case option.inject)
    then obtain b where "dc_getChildren zk split inet_addr atoi path d = Inr (b, d')" unfolding rbind_eq_Inr_iff by auto
    then show ?thesis using assms(2) by (rule dc_getChildren_ok)
  qed (use assms in \<open>simp_all add: simps\<close>)
next
  case EXPIRED_SESSION
  note simps = onWatch_def EXPIRED_SESSION prod.case zk_state.case
  show ?thesis
  proof (cases type)
    case SESSION
    from assms(1) have "rbind (with_client (zk_reconnect zk) d) (\<lambda>(_, d). Inr d) = Inr d'"
      by (simp only: simps SESSION zk_event.case option.inject)
    then obtain b where w: "with_client (zk_reconnect zk) d = Inr (b, d')" unfolding rbind_eq_Inr_iff by auto
    show ?thesis by (rule view_ok_same[OF with_client_view[OF w] assms(2)])
  qed (use assms in \<open>simp_all add: simps\<close>)
qed (use assms in \<open>simp_all add: onWatch_def\<close>)

lemma discovery_step_ok: "discovery_step zk split inet_addr atoi rinfo qinfo d d' \<Longrightarrow> view_ok d \<Longrightarrow> view_ok d'"
proof (induction rule: discovery_step.induct)
  case (timer d d')
  then show ?case by (rule onZKConnect_ok)
next
  case (watch type stat path d d')
  then show ?case by (rule onWatch_ok)
qed (auto simp: view_ok_def dc_registerServer_def dc_queryServer_def dc_setQueryServer_def dc_start_def dc_stop_def split: if_splits option.splits)

lemma discovery_reach_ok: "(discovery_step zk split inet_addr atoi rinfo qinfo)\<^sup>*\<^sup>* mk_ZKServiceDiscovery d \<Longrightarrow> view_ok d"
  by (induction rule: rtranclp_induct) (auto intro: view_ok_init discovery_step_ok)

section \<open>The tree of ZooKeeper\<close>

text \<open>
  What the manual promises: \<open>nodes\<close> gives the nodes of the tree, and which of them are ephemeral; a node can be created under an
  existing node that is not ephemeral, or directly under the root.
\<close>

definition has_parent :: "(string \<rightharpoonup> bool) \<Rightarrow> string \<Rightarrow> bool" where
  "has_parent N p \<longleftrightarrow> (case find_last_of (CHR ''/'') p of None \<Rightarrow> False | Some i \<Rightarrow> i = 0 \<or> N (take i p) = Some False)"

definition zk_ok :: "'z zk \<Rightarrow> ('z \<Rightarrow> string \<rightharpoonup> bool) \<Rightarrow> bool" where
  "zk_ok zk nodes \<longleftrightarrow>
     (\<forall>p z. nodes (snd (zk_exists zk p z)) = nodes z \<and> (fst (zk_exists zk p z) = ZOK \<longleftrightarrow> nodes z p \<noteq> None)) \<and>
     (\<forall>p data e z. case zk_create zk p data e z of (v, z') \<Rightarrow>
        if nodes z p \<noteq> None then v = ZNODEEXISTS \<and> nodes z' = nodes z
        else if has_parent (nodes z) p then v = ZOK \<and> nodes z' = (nodes z)(p \<mapsto> e)
        else v \<noteq> ZOK \<and> v \<noteq> ZNODEEXISTS \<and> nodes z' = nodes z)"

lemma zk_existsD: "zk_ok zk nodes \<Longrightarrow> zk_exists zk p z = (v, z') \<Longrightarrow> nodes z' = nodes z \<and> (v = ZOK \<longleftrightarrow> nodes z p \<noteq> None)"
  unfolding zk_ok_def by (metis fst_conv snd_conv)

lemma zk_createD:
  assumes "zk_ok zk nodes" "zk_create zk p data e z = (v, z')"
  shows "if nodes z p \<noteq> None then v = ZNODEEXISTS \<and> nodes z' = nodes z
    else if has_parent (nodes z) p then v = ZOK \<and> nodes z' = (nodes z)(p \<mapsto> e)
    else v \<noteq> ZOK \<and> v \<noteq> ZNODEEXISTS \<and> nodes z' = nodes z"
proof -
  have "case zk_create zk p data e z of (v, z') \<Rightarrow>
        if nodes z p \<noteq> None then v = ZNODEEXISTS \<and> nodes z' = nodes z
        else if has_parent (nodes z) p then v = ZOK \<and> nodes z' = (nodes z)(p \<mapsto> e)
        else v \<noteq> ZOK \<and> v \<noteq> ZNODEEXISTS \<and> nodes z' = nodes z"
    using assms(1)[unfolded zk_ok_def, THEN conjunct2, THEN spec[of _ p], THEN spec[of _ data], THEN spec[of _ e], THEN spec[of _ z]] .
  then show ?thesis unfolding assms(2) prod.case .
qed

definition tree_ok :: "(string \<rightharpoonup> bool) \<Rightarrow> bool" where
  "tree_ok N \<longleftrightarrow> (\<forall>p. N p \<noteq> None \<longrightarrow> has_parent N p)"

definition path_of :: "string list \<Rightarrow> string" where
  "path_of cs = concat (List.map (\<lambda>c. CHR ''/'' # c) cs)"

text \<open>The node of a path and its parents.\<close>

definition path_nodes :: "string list \<Rightarrow> string set" where
  "path_nodes cs = {path_of xs | xs ys. xs @ ys = cs \<and> xs \<noteq> []}"

lemma path_nodes_Nil [simp]: "path_nodes [] = {}"
  by (simp add: path_nodes_def)

lemma path_nodes_snoc [simp]: "path_nodes (cs @ [c]) = insert (path_of (cs @ [c])) (path_nodes cs)"
proof (intro equalityI subsetI)
  fix p assume "p \<in> path_nodes (cs @ [c])"
  then obtain xs ys where x: "p = path_of xs" "xs @ ys = cs @ [c]" "xs \<noteq> []" by (auto simp: path_nodes_def)
  show "p \<in> insert (path_of (cs @ [c])) (path_nodes cs)"
  proof (cases ys rule: rev_cases)
    case (snoc zs y)
    then have "xs @ zs = cs" using x(2) by simp
    then show ?thesis using x unfolding path_nodes_def by blast
  qed (use x in simp)
next
  fix p assume "p \<in> insert (path_of (cs @ [c])) (path_nodes cs)"
  then obtain xs ys where "p = path_of xs" "xs @ ys = cs @ [c]" "xs \<noteq> []"
  proof (cases "p = path_of (cs @ [c])")
    case False
    then obtain xs ys where "p = path_of xs" "xs @ ys = cs" "xs \<noteq> []" using \<open>p \<in> insert _ _\<close> by (auto simp: path_nodes_def)
    then show ?thesis using that[of xs "ys @ [c]"] by simp
  qed (use that[of "cs @ [c]" "[]"] in simp)
  then show "p \<in> path_nodes (cs @ [c])" unfolding path_nodes_def by blast
qed

lemma path_of_snoc: "path_of (cs @ [c]) = path_of cs @ CHR ''/'' # c"
  by (simp add: path_of_def)

lemma path_of_empty: "path_of cs = [] \<longleftrightarrow> cs = []"
  by (cases cs) (auto simp: path_of_def)

lemma find_last_of_none: "c \<notin> set s \<Longrightarrow> find_last_of c s = None"
  by (induction s) auto

lemma find_last_of_append: "c \<notin> set s \<Longrightarrow> find_last_of c (p @ c # s) = Some (length p)"
  by (induction p) (auto simp: find_last_of_none)

lemma path_nodes_length: "p \<in> path_nodes cs \<Longrightarrow> length p \<le> length (path_of cs)"
  by (auto simp: path_nodes_def path_of_def)

lemma last_path_new: "path_of (cs @ [c]) \<notin> path_nodes cs"
  by (auto simp: path_of_snoc dest: path_nodes_length)

lemma tree_path:
  assumes "tree_ok N" "\<forall>c \<in> set cs. CHR ''/'' \<notin> set c" "cs \<noteq> []" "N (path_of cs) = Some False"
  shows "\<forall>p \<in> path_nodes cs. N p = Some False"
  using assms(2-4)
proof (induction cs rule: rev_induct)
  case (snoc c cs)
  have f: "find_last_of (CHR ''/'') (path_of (cs @ [c])) = Some (length (path_of cs))"
    unfolding path_of_snoc using snoc.prems(1) by (intro find_last_of_append) simp
  have "N (path_of (cs @ [c])) \<noteq> None" using snoc.prems(3) by simp
  then have "has_parent N (path_of (cs @ [c]))" using assms(1) unfolding tree_ok_def by blast
  then have "cs = [] \<or> N (path_of cs) = Some False" using f by (simp add: has_parent_def path_of_snoc path_of_empty)
  then show ?case using snoc path_nodes_snoc[of cs c] by (cases "cs = []") simp_all
qed simp

definition created_path :: "string list \<Rightarrow> (string \<rightharpoonup> bool) \<Rightarrow> string \<rightharpoonup> bool" where
  "created_path cs N = (\<lambda>p. if p \<in> path_nodes cs then Some False else N p)"

lemma existsOrCreate_ok:
  assumes "zk_ok zk nodes" "\<forall>c \<in> set cs. CHR ''/'' \<notin> set c" "cs \<noteq> []" "dc_client d = Some z" "tree_ok (nodes z)"
    "\<forall>p \<in> path_nodes cs. nodes z p \<noteq> Some True"
  shows "\<exists>z'. existsOrCreate zk (path_of cs) d = Inr (True, d\<lparr>dc_client := Some z'\<rparr>) \<and> nodes z' = created_path cs (nodes z)"
  using assms(2-6)
proof (induction cs arbitrary: d z rule: rev_induct)
  case (snoc c cs)
  let ?p = "path_of (cs @ [c])"
  obtain v z1 where x: "zk_exists zk ?p z = (v, z1)" by (cases "zk_exists zk ?p z")
  have x1: "nodes z1 = nodes z" "v = ZOK \<longleftrightarrow> nodes z ?p \<noteq> None" using zk_existsD[OF assms(1) x] by blast+
  have w: "with_client (zk_exists zk ?p) d = Inr (v, d\<lparr>dc_client := Some z1\<rparr>)" using snoc.prems(3) x by (simp add: with_client_def)
  show ?case
  proof (cases "v = ZOK")
    case True
    then have "nodes z ?p = Some False" using x1(2) snoc.prems(5) by auto
    then have "created_path (cs @ [c]) (nodes z) = nodes z"
      using tree_path[OF snoc.prems(4,1,2)] by (auto simp: created_path_def)
    then show ?thesis using True w x1(1) by (subst existsOrCreate.simps) auto
  next
    case False
    have f: "find_last_of (CHR ''/'') ?p = Some (length (path_of cs))"
      unfolding path_of_snoc using snoc.prems(1) by (intro find_last_of_append) simp
    define d1 where "d1 = d\<lparr>dc_client := Some z1\<rparr>"
    have "\<exists>z2. (if length (path_of cs) = 0 then Inr (True, d1) else existsOrCreate zk (take (length (path_of cs)) ?p) d1) =
        Inr (True, d\<lparr>dc_client := Some z2\<rparr>) \<and> nodes z2 = created_path cs (nodes z)"
    proof (cases "cs = []")
      case True
      then show ?thesis using x1(1) by (intro exI[of _ z1]) (simp add: path_of_def d1_def created_path_def)
    next
      case ne: False
      have "\<exists>z2. existsOrCreate zk (path_of cs) d1 = Inr (True, d1\<lparr>dc_client := Some z2\<rparr>) \<and> nodes z2 = created_path cs (nodes z1)"
        using snoc.prems x1(1) ne by (intro snoc.IH) (auto simp: d1_def)
      then show ?thesis using ne x1(1) by (auto simp: path_of_snoc path_of_empty d1_def)
    qed
    then obtain z2 where z2: "(if length (path_of cs) = 0 then Inr (True, d1) else existsOrCreate zk (take (length (path_of cs)) ?p) d1) =
        Inr (True, d\<lparr>dc_client := Some z2\<rparr>)" "nodes z2 = created_path cs (nodes z)" by blast
    obtain v3 z3 where y: "zk_create zk ?p [] False z2 = (v3, z3)" by (cases "zk_create zk ?p [] False z2")
    have "nodes z2 ?p = None" using False x1(2) z2(2) last_path_new by (simp add: created_path_def)
    moreover have "has_parent (nodes z2) ?p"
      using f z2(2) by (cases cs rule: rev_cases) (auto simp: has_parent_def path_of_snoc created_path_def path_of_def)
    ultimately have y3: "v3 = ZOK" "nodes z3 = (nodes z2)(?p \<mapsto> False)"
      using zk_createD[OF assms(1) y] by auto
    have "existsOrCreate zk ?p d = rbind (Inr (True, d\<lparr>dc_client := Some z2\<rparr>)) (\<lambda>(ok, d).
        if ok then rbind (with_client (zk_create zk ?p [] False) d) (\<lambda>(v, d). Inr (v = ZOK, d)) else Inr (False, d))"
      unfolding z2(1)[symmetric] using w False f by (subst existsOrCreate.simps) (simp add: d1_def)
    also have "\<dots> = Inr (True, d\<lparr>dc_client := Some z3\<rparr>)" using y y3(1) by (simp add: with_client_def)
    finally show ?thesis using y3(2) z2(2) by (auto simp: created_path_def fun_eq_iff)
  qed
qed simp

text \<open>Invalid addresses are taken over: \<^verbatim>\<open>inet_addr\<close> says \<open>-1\<close> for them, not 0.\<close>

lemma invalid_address_accepted:
  assumes "inet_addr ''nowhere'' = - 1" "atoi ''80'' = 80"
  shows "ServiceItemInfo_Create inet_addr atoi ''nowhere:80'' data =
     Some \<lparr>si_id = 0xFFFFFFFF00000050, si_port = 80, si_ip = ''nowhere'', si_data = data\<rparr>"
proof -
  have "push_bit 32 (ucast (- 1 :: 32 word)) OR 80 = (0xFFFFFFFF00000050 :: 64 word)" by code_simp
  then show ?thesis using assms by (simp add: ServiceItemInfo_Create_def Let_def)
qed

text \<open>If a service of the domain is named \<open>all\<close>, asking for all services never ends.\<close>

lemma all_service_diverges:
  assumes "\<forall>z. \<exists>v z'. zk_getChildren zk (GetDomainPath domain) False z = (v, ''all'' # cs, z')" "dc_client d \<noteq> None"
  shows "queryInfo zk domain ''all'' d = None"
proof -
  have h: "zk' = zk \<longrightarrow> dom = domain \<longrightarrow> dc_client d \<noteq> None \<longrightarrow> (\<forall>rest. services \<noteq> ''all'' # rest)"
    if "query_loop zk' one dom services rt d = Some r" for zk' one dom services rt d r
  proof (rule query_loop.raw_induct[OF _ that, where P = "\<lambda>zk' one dom services rt d r. zk' = zk \<longrightarrow> dom = domain \<longrightarrow> dc_client d \<noteq> None \<longrightarrow>
      (\<forall>rest. services \<noteq> ''all'' # rest)"])
    fix loop zk' one dom services rt and d :: "'a discovery" and r
    assume ih: "\<And>zk' one dom services rt d r. loop zk' one dom services rt d = Some r \<Longrightarrow> zk' = zk \<longrightarrow> dom = domain \<longrightarrow>
        dc_client d \<noteq> None \<longrightarrow> (\<forall>rest. services \<noteq> ''all'' # rest)"
      and eq: "(case services of
        [] \<Rightarrow> Some (Inr (rt, d))
      | service # rest \<Rightarrow>
          if service \<noteq> ''all'' then
            (case one service d of
               Inl e \<Rightarrow> Some (Inl e)
             | Inr (v, d) \<Rightarrow> loop zk' one dom rest (rt \<and> v) d)
          else
            (case with_client (\<lambda>z. case zk_getChildren zk' (GetDomainPath dom) False z of (v, vals, z) \<Rightarrow> (vals, z)) d of
               Inl e \<Rightarrow> Some (Inl e)
             | Inr (children, d) \<Rightarrow> loop zk' one dom (children @ rest) rt d)) = Some r"
    show "zk' = zk \<longrightarrow> dom = domain \<longrightarrow> dc_client d \<noteq> None \<longrightarrow> (\<forall>rest. services \<noteq> ''all'' # rest)"
    proof (intro impI allI notI)
      fix rest assume h: "zk' = zk" "dom = domain" "dc_client d \<noteq> None" "services = ''all'' # rest"
      then obtain z where z: "dc_client d = Some z" by auto
      obtain v z' where g: "zk_getChildren zk (GetDomainPath domain) False z = (v, ''all'' # cs, z')" using assms(1) by blast
      have "with_client (\<lambda>z. case zk_getChildren zk' (GetDomainPath dom) False z of (v, vals, z) \<Rightarrow> (vals, z)) d =
          Inr (''all'' # cs, d\<lparr>dc_client := Some z'\<rparr>)" unfolding with_client_def h(1,2) z option.case g prod.case ..
      then have "loop zk' one dom ((''all'' # cs) @ rest) rt (d\<lparr>dc_client := Some z'\<rparr>) = Some r"
        using eq by (simp only: h(4) list.case if_False simp_thms sum.case prod.case)
      from ih[OF this] h(1,2) show False by simp
    qed
  qed
  show ?thesis
  proof (cases "queryInfo zk domain ''all'' d")
    case (Some r)
    from h[OF Some[unfolded queryInfo_def]] assms(2) show ?thesis by simp
  qed simp
qed

section \<open>Properties\<close>

text \<open>
  over a ZooKeeper that keeps what its manual promises, registering a server returns and reports success: afterwards the
  nodes on the path to its list of providers exist and are not ephemeral, the node of the provider exists (ephemeral, if it is new),
  and all other nodes are as before.
\<close>

theorem register_announces:
  assumes "zk_ok zk nodes" "tree_ok (nodes z)" "dc_client d = Some z"
    "CHR ''/'' \<notin> set domain" "CHR ''/'' \<notin> set service" "CHR ''/'' \<notin> set ip_and_port"
    "\<forall>p \<in> path_nodes [''sylar'', domain, service, ''providers'']. nodes z p \<noteq> Some True"
  shows "\<exists>z'. registerInfo zk domain service ip_and_port data d = Inr (True, d\<lparr>dc_client := Some z'\<rparr>) \<and>
    nodes z' = (\<lambda>p. if p \<in> path_nodes [''sylar'', domain, service, ''providers''] then Some False
      else if p = GetProvidersPath domain service @ ''/'' @ ip_and_port \<and> nodes z p = None then Some True else nodes z p)"
proof -
  let ?cs = "[''sylar'', domain, service, ''providers'']"
  let ?p = "GetProvidersPath domain service" and ?q = "GetProvidersPath domain service @ ''/'' @ ip_and_port"
  have p: "path_of ?cs = ?p" by (simp add: path_of_def GetProvidersPath_def)
  obtain z1 where e: "existsOrCreate zk ?p d = Inr (True, d\<lparr>dc_client := Some z1\<rparr>)" "nodes z1 = created_path ?cs (nodes z)"
    using existsOrCreate_ok[OF assms(1) _ _ assms(3,2,7)] assms(4,5) p by auto
  obtain v z2 where y: "zk_create zk ?q data True z1 = (v, z2)" by (cases "zk_create zk ?q data True z1")
  have f: "find_last_of (CHR ''/'') ?q = Some (length ?p)" using find_last_of_append[OF assms(6), of ?p] by simp
  have in_p: "?p \<in> path_nodes ?cs" using p path_nodes_snoc[of "[''sylar'', domain, service]" "''providers''"] by simp
  have "has_parent (nodes z1) ?q" using f in_p e(2) by (simp add: has_parent_def created_path_def)
  moreover have out_q: "?q \<notin> path_nodes ?cs" using p path_nodes_length[of ?q ?cs] by auto
  ultimately have "(v = ZOK \<or> v = ZNODEEXISTS) \<and> nodes z2 = (if nodes z ?q = None then (nodes z1)(?q \<mapsto> True) else nodes z1)"
    using zk_createD[OF assms(1) y] e(2) by (auto simp: created_path_def split: if_splits)
  moreover have "registerInfo zk domain service ip_and_port data d = Inr (v = ZOK \<or> v = ZNODEEXISTS, d\<lparr>dc_client := Some z2\<rparr>)"
    using e(1) y by (simp add: registerInfo_def Let_def with_client_def)
  ultimately show ?thesis using e(2) out_q by (intro exI[of _ z2]) (auto simp: created_path_def fun_eq_iff)
qed

text \<open>A tree of nodes as the state of the service.\<close>

definition tree_zk :: "string list \<Rightarrow> (string \<rightharpoonup> bool) zk" where
  "tree_zk children = \<lparr>zk_exists = (\<lambda>p z. (if z p = None then - 101 else ZOK, z)),
     zk_create = (\<lambda>p data e z. if z p \<noteq> None then (ZNODEEXISTS, z) else if has_parent z p then (ZOK, z(p \<mapsto> e)) else (- 101, z)),
     zk_getChildren = (\<lambda>p w z. (ZOK, children, z)), zk_reconnect = (\<lambda>z. (True, z))\<rparr>"

lemma tree_zk_ok: "zk_ok (tree_zk cs) (\<lambda>z. z)"
  by (auto simp: zk_ok_def tree_zk_def ZOK_def ZNODEEXISTS_def)

lemma register_announces_witness:
  "\<exists>z'. registerInfo (tree_zk []) ''d'' ''s'' ''1.2.3.4:80'' [] (mk_ZKServiceDiscovery\<lparr>dc_client := Some Map.empty\<rparr>) =
      Inr (True, mk_ZKServiceDiscovery\<lparr>dc_client := Some z'\<rparr>) \<and> z' ''/sylar/d/s/providers/1.2.3.4:80'' = Some True"
proof -
  let ?P = "path_nodes [''sylar'', ''d'', ''s'', ''providers'']"
  have "length p \<le> length (path_of [''sylar'', ''d'', ''s'', ''providers''])" if "p \<in> ?P" for p using path_nodes_length[OF that] .
  then have n: "''/sylar/d/s/providers/1.2.3.4:80'' \<notin> ?P" by (force simp: path_of_def)
  let ?d = "mk_ZKServiceDiscovery\<lparr>dc_client := Some Map.empty\<rparr>"
  have "zk_ok (tree_zk []) (\<lambda>z. z)" "tree_ok ((\<lambda>z. z) (Map.empty :: string \<rightharpoonup> bool))" "dc_client ?d = Some Map.empty"
    by (simp_all add: tree_zk_ok tree_ok_def)
  from register_announces[OF this, of "''d''" "''s''" "''1.2.3.4:80''" "[]"] n
  show ?thesis by (auto simp: GetProvidersPath_def)
qed



end
