(* ===== verification/Ragel_Machine.thy ===== *)
theory Ragel_Machine
  imports Http_Parser
begin

text \<open>
  What the two generated parsers of \<^verbatim>\<open>captain/http\<close> have in common: the form of the goto code that ragel
  writes with the option \<^verbatim>\<open>-G2\<close>.  A state is a label \<^verbatim>\<open>case n\<close> whose code looks at \<^verbatim>\<open>*p\<close> and jumps; a jump to
  \<^verbatim>\<open>stn\<close> advances \<^verbatim>\<open>p\<close> and goes on at \<^verbatim>\<open>case n\<close>, or leaves with \<^verbatim>\<open>cs = n\<close> at the end of the buffer; a jump to
  \<^verbatim>\<open>trn\<close> runs embedded actions first.  \<open>exec_loop\<close> is that loop, a function of the remaining characters.

  The locale \<open>typed_machine\<close> is the interface through which the facts about whole runs are proved: a typing
  gives every control state what holds of the position and of the parser there, and when no single jump
  leaves the typing, no run does.
\<close>

subsection \<open>Labels and jumps\<close>

datatype label = St nat | Tr nat | Out

text \<open>After the actions of a transition: go on, or \<^verbatim>\<open>{p++; cs = n; goto _out;}\<close> (the \<^verbatim>\<open>fbreak\<close> of the grammar).\<close>

datatype jump = Goto nat | Break nat

text \<open>\<^verbatim>\<open>*p\<close>, a signed \<^verbatim>\<open>char\<close>.\<close>

definition schar :: "char \<Rightarrow> int" where
  "schar c = (let n = of_char c in if n < 128 then n else n - 256)"

text \<open>
  The state 0 is the error state, \<^verbatim>\<open>st0: cs = 0; goto _out;\<close>, which does not advance.  The result is the final
  position, the value of \<^verbatim>\<open>cs\<close> and what the actions have made of the parser.
\<close>

fun exec_loop ::
  "(nat \<Rightarrow> int \<Rightarrow> label) \<Rightarrow> (nat \<Rightarrow> 'a list \<times> jump) \<Rightarrow> ('a \<Rightarrow> nat \<Rightarrow> 's \<Rightarrow> 's) \<Rightarrow>
   string \<Rightarrow> nat \<Rightarrow> nat \<Rightarrow> 's \<Rightarrow> nat \<times> nat \<times> 's" where
  "exec_loop sw tr act [] p cs s = (p, cs, s)"
| "exec_loop sw tr act (c # rest) p cs s =
     (case sw cs (schar c) of
        Out \<Rightarrow> (p, cs, s)
      | St t \<Rightarrow> if t = 0 then (p, 0, s) else exec_loop sw tr act rest (Suc p) t s
      | Tr n \<Rightarrow>
          (case tr n of
             (as, Goto t) \<Rightarrow> exec_loop sw tr act rest (Suc p) t (fold (\<lambda>a. act a p) as s)
           | (as, Break t) \<Rightarrow> (Suc p, t, fold (\<lambda>a. act a p) as s)))"

subsection \<open>Steps of a run\<close>

lemma exec_stay:
  assumes "\<forall>c \<in> set xs. sw cs (schar c) = St cs" "cs \<noteq> 0"
  shows "exec_loop sw tr act (xs @ rest) p cs s = exec_loop sw tr act rest (p + length xs) cs s"
  using assms by (induction xs arbitrary: p) auto

lemma exec_st: "sw cs (schar c) = St t \<Longrightarrow> t \<noteq> 0 \<Longrightarrow>
  exec_loop sw tr act (c # rest) p cs s = exec_loop sw tr act rest (Suc p) t s"
  by simp

lemma exec_tr: "sw cs (schar c) = Tr n \<Longrightarrow> tr n = (as, Goto t) \<Longrightarrow>
  exec_loop sw tr act (c # rest) p cs s = exec_loop sw tr act rest (Suc p) t (fold (\<lambda>a. act a p) as s)"
  by simp

lemma exec_break: "sw cs (schar c) = Tr n \<Longrightarrow> tr n = (as, Break t) \<Longrightarrow>
  exec_loop sw tr act (c # rest) p cs s = (Suc p, t, fold (\<lambda>a. act a p) as s)"
  by simp

lemma exec_error: "sw cs (schar c) = St 0 \<Longrightarrow> exec_loop sw tr act (c # rest) p cs s = (p, 0, s)"
  by simp

lemma exec_position:
  "exec_loop sw tr act xs p cs s = (p', cs', s') \<Longrightarrow> p \<le> p' \<and> p' \<le> p + length xs"
  by (induction sw tr act xs p cs s rule: exec_loop.induct)
     (fastforce split: label.splits jump.splits prod.splits if_splits)+

text \<open>A jump, and not to a state from \<open>n\<close> on.\<close>

fun jumps_below :: "nat \<Rightarrow> label \<Rightarrow> bool" where
  "jumps_below n (St t) \<longleftrightarrow> t < n"
| "jumps_below n (Tr m) \<longleftrightarrow> True"
| "jumps_below n Out \<longleftrightarrow> False"

lemma jumps_below_simps:
  "jumps_below n (if b then x else y) \<longleftrightarrow> (if b then jumps_below n x else jumps_below n y)"
  "jumps_below n (St t) \<longleftrightarrow> t < n" "jumps_below n (Tr m) \<longleftrightarrow> True"
  by simp_all

text \<open>A percent sign and its two digits, or a character of a class: a path, a query, a fragment.\<close>

fun pct_text :: "(char \<Rightarrow> bool) \<Rightarrow> (char \<Rightarrow> bool) \<Rightarrow> string \<Rightarrow> bool" where
  "pct_text cls hex [] \<longleftrightarrow> True"
| "pct_text cls hex (c # s) \<longleftrightarrow>
     (if c = CHR ''%'' then (case s of a # b # t \<Rightarrow> hex a \<and> hex b \<and> pct_text cls hex t | _ \<Rightarrow> False)
      else cls c \<and> pct_text cls hex s)"

lemma exec_pct:
  assumes "pct_text cls hex xs" "s0 \<noteq> 0" "s1 \<noteq> 0" "s2 \<noteq> 0"
    "\<And>c. cls c \<Longrightarrow> sw s0 (schar c) = St s0" "sw s0 (schar CHR ''%'') = St s1"
    "\<And>c. hex c \<Longrightarrow> sw s1 (schar c) = St s2" "\<And>c. hex c \<Longrightarrow> sw s2 (schar c) = St s0"
  shows "exec_loop sw tr act (xs @ rest) p s0 s = exec_loop sw tr act rest (p + length xs) s0 s"
  using assms
proof (induction cls hex xs arbitrary: p rule: pct_text.induct)
  case (2 cls hex c u)
  note rules = 2(4-10)
  show ?case
  proof (cases "c = CHR ''%''")
    case True
    with 2(3) obtain a b t where u: "u = a # b # t" "hex a" "hex b" "pct_text cls hex t"
      by (auto split: list.splits)
    show ?thesis using 2(1)[OF True u(1) refl u(4) rules] u True rules by simp
  next
    case False
    then show ?thesis using 2(2)[OF False _ rules] 2(3) rules by simp
  qed
qed simp

subsection \<open>Typed control states\<close>

locale typed_machine =
  fixes sw :: "nat \<Rightarrow> int \<Rightarrow> label" and tr :: "nat \<Rightarrow> 'a list \<times> jump" and act :: "'a \<Rightarrow> nat \<Rightarrow> 's \<Rightarrow> 's"
    and end_of :: nat and phi :: "nat \<Rightarrow> nat \<Rightarrow> 's \<Rightarrow> bool"
  assumes stays: "phi cs p s \<Longrightarrow> p < end_of \<Longrightarrow> sw cs c = St t \<Longrightarrow> t \<noteq> 0 \<Longrightarrow> phi t (Suc p) s"
    and fails: "phi cs p s \<Longrightarrow> phi 0 p s"
    and goes: "phi cs p s \<Longrightarrow> p < end_of \<Longrightarrow> sw cs c = Tr n \<Longrightarrow> tr n = (as, Goto t) \<Longrightarrow>
      phi t (Suc p) (fold (\<lambda>a. act a p) as s)"
    and breaks: "phi cs p s \<Longrightarrow> p < end_of \<Longrightarrow> sw cs c = Tr n \<Longrightarrow> tr n = (as, Break t) \<Longrightarrow>
      phi t (Suc p) (fold (\<lambda>a. act a p) as s)"
begin

lemma run_typed:
  "exec_loop sw tr act xs p cs s = (p', cs', s') \<Longrightarrow> phi cs p s \<Longrightarrow> p + length xs \<le> end_of \<Longrightarrow> phi cs' p' s'"
proof (induction xs arbitrary: p cs s)
  case (Cons c rest)
  have len: "Suc p + length rest \<le> end_of" "p < end_of" using Cons.prems(3) by simp_all
  show ?case
  proof (cases "sw cs (schar c)")
    case (St t)
    show ?thesis
    proof (cases "t = 0")
      case True
      then show ?thesis using Cons.prems St fails by auto
    next
      case False
      then show ?thesis
        using Cons.IH[OF _ stays[OF Cons.prems(2) len(2) St False] len(1)] Cons.prems(1) St by simp
    qed
  next
    case (Tr n)
    obtain as j where n: "tr n = (as, j)" by force
    show ?thesis
    proof (cases j)
      case (Goto t)
      then show ?thesis
        using Cons.IH[OF _ goes[OF Cons.prems(2) len(2) Tr n[unfolded Goto]] len(1)] Cons.prems(1) Tr n by simp
    next
      case (Break t)
      then show ?thesis using breaks[OF Cons.prems(2) len(2) Tr n[unfolded Break]] Cons.prems(1) Tr n by auto
    qed
  next
    case Out
    then show ?thesis using Cons.prems by auto
  qed
qed simp

end

end
