(* ===== verification/Http11_Machine.thy ===== *)
theory Http11_Machine
  imports Ragel_Machine
begin

text \<open>
  The state machine of the request parser, \<^verbatim>\<open>captain/http/http11_parser.rl.cpp\<close>: one definition per
  label of \<^verbatim>\<open>http_parser_execute\<close>.  \<open>http_case_n\<close> is the code at \<^verbatim>\<open>case n\<close>, a function of \<^verbatim>\<open>*p\<close> that says
  where it jumps; \<open>http_tr_n\<close> is the code at \<^verbatim>\<open>trn\<close>, the embedded actions in their order and the jump
  after them.  The actions are named as in the grammar \<^verbatim>\<open>http11_parser.rl\<close>.
\<close>

datatype http_action =
    A_mark
  | A_start_field
  | A_write_field
  | A_start_value
  | A_write_value
  | A_request_method
  | A_request_uri
  | A_fragment
  | A_start_query
  | A_query_string
  | A_http_version
  | A_request_path
  | A_done
  | A_xml
  | A_json

subsection \<open>Transitions\<close>

definition http_tr_0 :: "http_action list \<times> jump" where
  "http_tr_0 = ([A_mark], Goto 2)"

definition http_tr_2 :: "http_action list \<times> jump" where
  "http_tr_2 = ([A_mark], Goto 194)"

definition http_tr_3 :: "http_action list \<times> jump" where
  "http_tr_3 = ([A_mark], Goto 198)"

definition http_tr_4 :: "http_action list \<times> jump" where
  "http_tr_4 = ([A_request_method], Goto 3)"

definition http_tr_6 :: "http_action list \<times> jump" where
  "http_tr_6 = ([A_mark, A_request_path, A_request_uri], Goto 4)"

definition http_tr_7 :: "http_action list \<times> jump" where
  "http_tr_7 = ([A_mark], Goto 19)"

definition http_tr_8 :: "http_action list \<times> jump" where
  "http_tr_8 = ([A_mark, A_request_path, A_request_uri], Goto 20)"

definition http_tr_9 :: "http_action list \<times> jump" where
  "http_tr_9 = ([A_mark], Goto 24)"

definition http_tr_10 :: "http_action list \<times> jump" where
  "http_tr_10 = ([A_mark], Goto 33)"

definition http_tr_11 :: "http_action list \<times> jump" where
  "http_tr_11 = ([A_mark, A_request_path], Goto 29)"

definition http_tr_12 :: "http_action list \<times> jump" where
  "http_tr_12 = ([A_mark], Goto 173)"

definition http_tr_13 :: "http_action list \<times> jump" where
  "http_tr_13 = ([A_mark], Goto 5)"

definition http_tr_21 :: "http_action list \<times> jump" where
  "http_tr_21 = ([A_http_version], Goto 13)"

definition http_tr_22 :: "http_action list \<times> jump" where
  "http_tr_22 = ([A_http_version], Goto 17)"

definition http_tr_23 :: "http_action list \<times> jump" where
  "http_tr_23 = ([A_start_field], Goto 14)"

definition http_tr_24 :: "http_action list \<times> jump" where
  "http_tr_24 = ([A_start_field, A_done], Break 348)"

definition http_tr_25 :: "http_action list \<times> jump" where
  "http_tr_25 = ([A_start_field], Goto 18)"

definition http_tr_27 :: "http_action list \<times> jump" where
  "http_tr_27 = ([A_write_field], Goto 15)"

definition http_tr_28 :: "http_action list \<times> jump" where
  "http_tr_28 = ([A_start_value], Goto 16)"

definition http_tr_29 :: "http_action list \<times> jump" where
  "http_tr_29 = ([A_start_value], Goto 15)"

definition http_tr_30 :: "http_action list \<times> jump" where
  "http_tr_30 = ([A_start_value, A_write_value], Goto 13)"

definition http_tr_31 :: "http_action list \<times> jump" where
  "http_tr_31 = ([A_start_value, A_write_value], Goto 17)"

definition http_tr_33 :: "http_action list \<times> jump" where
  "http_tr_33 = ([A_write_value], Goto 13)"

definition http_tr_34 :: "http_action list \<times> jump" where
  "http_tr_34 = ([A_write_value], Goto 17)"

definition http_tr_36 :: "http_action list \<times> jump" where
  "http_tr_36 = ([A_done], Break 348)"

definition http_tr_37 :: "http_action list \<times> jump" where
  "http_tr_37 = ([A_request_path, A_request_uri], Goto 4)"

definition http_tr_39 :: "http_action list \<times> jump" where
  "http_tr_39 = ([A_request_path, A_request_uri], Goto 20)"

definition http_tr_42 :: "http_action list \<times> jump" where
  "http_tr_42 = ([A_request_path], Goto 29)"

definition http_tr_43 :: "http_action list \<times> jump" where
  "http_tr_43 = ([A_mark, A_fragment], Goto 4)"

definition http_tr_44 :: "http_action list \<times> jump" where
  "http_tr_44 = ([A_mark], Goto 21)"

definition http_tr_45 :: "http_action list \<times> jump" where
  "http_tr_45 = ([A_mark], Goto 22)"

definition http_tr_46 :: "http_action list \<times> jump" where
  "http_tr_46 = ([A_fragment], Goto 4)"

definition http_tr_53 :: "http_action list \<times> jump" where
  "http_tr_53 = ([A_start_query, A_query_string, A_request_uri], Goto 4)"

definition http_tr_54 :: "http_action list \<times> jump" where
  "http_tr_54 = ([A_start_query], Goto 30)"

definition http_tr_55 :: "http_action list \<times> jump" where
  "http_tr_55 = ([A_start_query, A_query_string, A_request_uri], Goto 20)"

definition http_tr_56 :: "http_action list \<times> jump" where
  "http_tr_56 = ([A_start_query], Goto 31)"

definition http_tr_57 :: "http_action list \<times> jump" where
  "http_tr_57 = ([A_query_string, A_request_uri], Goto 4)"

definition http_tr_59 :: "http_action list \<times> jump" where
  "http_tr_59 = ([A_query_string, A_request_uri], Goto 20)"

definition http_tr_203 :: "http_action list \<times> jump" where
  "http_tr_203 = ([A_mark], Goto 26)"

definition http_tr_204 :: "http_action list \<times> jump" where
  "http_tr_204 = ([A_mark], Goto 27)"

definition http_tr_224 :: "http_action list \<times> jump" where
  "http_tr_224 = ([A_request_path], Goto 196)"

definition http_tr_227 :: "http_action list \<times> jump" where
  "http_tr_227 = ([A_xml, A_done], Break 349)"

definition http_tr_228 :: "http_action list \<times> jump" where
  "http_tr_228 = ([A_request_path], Goto 199)"

definition http_tr_232 :: "http_action list \<times> jump" where
  "http_tr_232 = ([A_mark], Goto 200)"

definition http_tr_235 :: "http_action list \<times> jump" where
  "http_tr_235 = ([A_json, A_done], Break 349)"

text \<open>The actions of a label \<^verbatim>\<open>tr<n>\<close>; the code has no other such label.\<close>

definition http_transition :: "nat \<Rightarrow> http_action list \<times> jump" where
  "http_transition n =
    (if n = 0 then http_tr_0
     else if n = 2 then http_tr_2
     else if n = 3 then http_tr_3
     else if n = 4 then http_tr_4
     else if n = 6 then http_tr_6
     else if n = 7 then http_tr_7
     else if n = 8 then http_tr_8
     else if n = 9 then http_tr_9
     else if n = 10 then http_tr_10
     else if n = 11 then http_tr_11
     else if n = 12 then http_tr_12
     else if n = 13 then http_tr_13
     else if n = 21 then http_tr_21
     else if n = 22 then http_tr_22
     else if n = 23 then http_tr_23
     else if n = 24 then http_tr_24
     else if n = 25 then http_tr_25
     else if n = 27 then http_tr_27
     else if n = 28 then http_tr_28
     else if n = 29 then http_tr_29
     else if n = 30 then http_tr_30
     else if n = 31 then http_tr_31
     else if n = 33 then http_tr_33
     else if n = 34 then http_tr_34
     else if n = 36 then http_tr_36
     else if n = 37 then http_tr_37
     else if n = 39 then http_tr_39
     else if n = 42 then http_tr_42
     else if n = 43 then http_tr_43
     else if n = 44 then http_tr_44
     else if n = 45 then http_tr_45
     else if n = 46 then http_tr_46
     else if n = 53 then http_tr_53
     else if n = 54 then http_tr_54
     else if n = 55 then http_tr_55
     else if n = 56 then http_tr_56
     else if n = 57 then http_tr_57
     else if n = 59 then http_tr_59
     else if n = 203 then http_tr_203
     else if n = 204 then http_tr_204
     else if n = 224 then http_tr_224
     else if n = 227 then http_tr_227
     else if n = 228 then http_tr_228
     else if n = 232 then http_tr_232
     else if n = 235 then http_tr_235
     else ([], Break 0))"

subsection \<open>States\<close>

text \<open>
  The characters \<^verbatim>\<open>^\<close>, \<^verbatim>\<open>{\<close> and \<^verbatim>\<open>}\<close> are compared after widening: 256 is added to them, and another 256
  if \<^verbatim>\<open>uri_relaxed\<close> is set.  The same lines open each state that widens.
\<close>

definition http_widec :: "bool \<Rightarrow> int \<Rightarrow> int" where
  "http_widec relaxed c =
    (if c < 123 then
       (if 94 \<le> c \<and> c \<le> 94 then 128 + (c - - 128) + (if relaxed then 256 else 0) else c)
     else if 123 < c then
       (if 125 \<le> c \<and> c \<le> 125 then 128 + (c - - 128) + (if relaxed then 256 else 0) else c)
     else 128 + (c - - 128) + (if relaxed then 256 else 0))"

definition http_case_1 :: "int \<Rightarrow> label" where
  "http_case_1 c =
   (if c = 60 then Tr 2
    else if c = 64 then Tr 3
    else if 57 < c then
      (if 65 \<le> c \<and> c \<le> 90 then Tr 0
      else St 0)
    else if 48 \<le> c then Tr 0
    else St 0)"

definition http_case_2 :: "int \<Rightarrow> label" where
  "http_case_2 c =
   (if c = 32 then Tr 4
    else if 57 < c then
      (if 65 \<le> c \<and> c \<le> 90 then St 175
      else St 0)
    else if 48 \<le> c then St 175
    else St 0)"

definition http_case_3 :: "bool \<Rightarrow> int \<Rightarrow> label" where
  "http_case_3 relaxed c =
    (let widec = http_widec relaxed c in
     if widec = 32 then Tr 6
     else if widec = 33 then Tr 7
     else if widec = 35 then Tr 8
     else if widec = 37 then Tr 9
     else if widec = 47 then Tr 10
     else if widec = 59 then Tr 7
     else if widec = 61 then Tr 7
     else if widec = 63 then Tr 11
     else if widec = 64 then Tr 7
     else if widec = 95 then Tr 7
     else if widec = 126 then Tr 7
     else if widec = 606 then Tr 7
     else if widec = 635 then Tr 7
     else if widec = 637 then Tr 7
     else if widec < 65 then
       (if 36 \<le> widec \<and> widec \<le> 57 then Tr 7
       else St 0)
     else if 90 < widec then
       (if 97 \<le> widec \<and> widec \<le> 122 then Tr 12
       else St 0)
     else Tr 12)"

definition http_case_4 :: "int \<Rightarrow> label" where
  "http_case_4 c =
   (if c = 72 then Tr 13
    else St 0)"

definition http_case_5 :: "int \<Rightarrow> label" where
  "http_case_5 c =
   (if c = 84 then St 6
    else St 0)"

definition http_case_6 :: "int \<Rightarrow> label" where
  "http_case_6 c =
   (if c = 84 then St 7
    else St 0)"

definition http_case_7 :: "int \<Rightarrow> label" where
  "http_case_7 c =
   (if c = 80 then St 8
    else St 0)"

definition http_case_8 :: "int \<Rightarrow> label" where
  "http_case_8 c =
   (if c = 47 then St 9
    else St 0)"

definition http_case_9 :: "int \<Rightarrow> label" where
  "http_case_9 c =
   (if c = 49 then St 10
    else St 0)"

definition http_case_10 :: "int \<Rightarrow> label" where
  "http_case_10 c =
   (if c = 46 then St 11
    else St 0)"

definition http_case_11 :: "int \<Rightarrow> label" where
  "http_case_11 c =
   (if 48 \<le> c \<and> c \<le> 49 then St 12
    else St 0)"

definition http_case_12 :: "int \<Rightarrow> label" where
  "http_case_12 c =
   (if c = 10 then Tr 21
    else if c = 13 then Tr 22
    else St 0)"

definition http_case_13 :: "int \<Rightarrow> label" where
  "http_case_13 c =
   (if c = 10 then Tr 24
    else if c = 13 then Tr 25
    else if c = 33 then Tr 23
    else if c = 124 then Tr 23
    else if c = 126 then Tr 23
    else if c < 42 then
      (if c < 11 then
        (if 1 \<le> c \<and> c \<le> 8 then Tr 23
        else St 0)
      else if 31 < c then
        (if 35 \<le> c \<and> c \<le> 39 then Tr 23
        else St 0)
      else Tr 23)
    else if 43 < c then
      (if c < 48 then
        (if 45 \<le> c \<and> c \<le> 46 then Tr 23
        else St 0)
      else if 57 < c then
        (if 90 < c then
          (if 94 \<le> c \<and> c \<le> 122 then Tr 23
          else St 0)
        else if 65 \<le> c then Tr 23
        else St 0)
      else Tr 23)
    else Tr 23)"

definition http_case_14 :: "int \<Rightarrow> label" where
  "http_case_14 c =
   (if c = 33 then St 14
    else if c = 58 then Tr 27
    else if c = 124 then St 14
    else if c = 126 then St 14
    else if c < 42 then
      (if c < 10 then
        (if 1 \<le> c \<and> c \<le> 8 then St 14
        else St 0)
      else if 31 < c then
        (if 35 \<le> c \<and> c \<le> 39 then St 14
        else St 0)
      else St 14)
    else if 43 < c then
      (if c < 48 then
        (if 45 \<le> c \<and> c \<le> 46 then St 14
        else St 0)
      else if 57 < c then
        (if 90 < c then
          (if 94 \<le> c \<and> c \<le> 122 then St 14
          else St 0)
        else if 65 \<le> c then St 14
        else St 0)
      else St 14)
    else St 14)"

definition http_case_15 :: "int \<Rightarrow> label" where
  "http_case_15 c =
   (if c = 0 then St 0
    else if c = 9 then Tr 29
    else if c = 10 then Tr 30
    else if c = 13 then Tr 31
    else if c = 32 then Tr 29
    else if c = 127 then St 0
    else Tr 28)"

definition http_case_16 :: "int \<Rightarrow> label" where
  "http_case_16 c =
   (if c = 0 then St 0
    else if c = 10 then Tr 33
    else if c = 13 then Tr 34
    else if c = 127 then St 0
    else St 16)"

definition http_case_17 :: "int \<Rightarrow> label" where
  "http_case_17 c =
   (if c = 10 then St 13
    else St 0)"

definition http_case_18 :: "int \<Rightarrow> label" where
  "http_case_18 c =
   (if c = 10 then Tr 36
    else if c = 33 then St 14
    else if c = 58 then Tr 27
    else if c = 124 then St 14
    else if c = 126 then St 14
    else if c < 42 then
      (if c < 11 then
        (if 1 \<le> c \<and> c \<le> 8 then St 14
        else St 0)
      else if 31 < c then
        (if 35 \<le> c \<and> c \<le> 39 then St 14
        else St 0)
      else St 14)
    else if 43 < c then
      (if c < 48 then
        (if 45 \<le> c \<and> c \<le> 46 then St 14
        else St 0)
      else if 57 < c then
        (if 90 < c then
          (if 94 \<le> c \<and> c \<le> 122 then St 14
          else St 0)
        else if 65 \<le> c then St 14
        else St 0)
      else St 14)
    else St 14)"

definition http_case_19 :: "bool \<Rightarrow> int \<Rightarrow> label" where
  "http_case_19 relaxed c =
    (let widec = http_widec relaxed c in
     if widec = 32 then Tr 37
     else if widec = 33 then St 19
     else if widec = 35 then Tr 39
     else if widec = 37 then St 24
     else if widec = 47 then St 26
     else if widec = 59 then St 19
     else if widec = 61 then St 19
     else if widec = 63 then Tr 42
     else if widec = 95 then St 19
     else if widec = 126 then St 19
     else if widec = 606 then St 19
     else if widec = 635 then St 19
     else if widec = 637 then St 19
     else if widec < 64 then
       (if 36 \<le> widec \<and> widec \<le> 57 then St 19
       else St 0)
     else if 90 < widec then
       (if 97 \<le> widec \<and> widec \<le> 122 then St 19
       else St 0)
     else St 19)"

definition http_case_20 :: "bool \<Rightarrow> int \<Rightarrow> label" where
  "http_case_20 relaxed c =
    (let widec = http_widec relaxed c in
     if widec = 32 then Tr 43
     else if widec = 33 then Tr 44
     else if widec = 37 then Tr 45
     else if widec = 61 then Tr 44
     else if widec = 95 then Tr 44
     else if widec = 126 then Tr 44
     else if widec = 606 then Tr 44
     else if widec = 635 then Tr 44
     else if widec = 637 then Tr 44
     else if widec < 63 then
       (if 36 \<le> widec \<and> widec \<le> 59 then Tr 44
       else St 0)
     else if 90 < widec then
       (if 97 \<le> widec \<and> widec \<le> 122 then Tr 44
       else St 0)
     else Tr 44)"

definition http_case_21 :: "bool \<Rightarrow> int \<Rightarrow> label" where
  "http_case_21 relaxed c =
    (let widec = http_widec relaxed c in
     if widec = 32 then Tr 46
     else if widec = 33 then St 21
     else if widec = 37 then St 22
     else if widec = 61 then St 21
     else if widec = 95 then St 21
     else if widec = 126 then St 21
     else if widec = 606 then St 21
     else if widec = 635 then St 21
     else if widec = 637 then St 21
     else if widec < 63 then
       (if 36 \<le> widec \<and> widec \<le> 59 then St 21
       else St 0)
     else if 90 < widec then
       (if 97 \<le> widec \<and> widec \<le> 122 then St 21
       else St 0)
     else St 21)"

definition http_case_22 :: "int \<Rightarrow> label" where
  "http_case_22 c =
   (if c < 65 then
      (if 48 \<le> c \<and> c \<le> 57 then St 23
      else St 0)
    else if 70 < c then
      (if 97 \<le> c \<and> c \<le> 102 then St 23
      else St 0)
    else St 23)"

definition http_case_23 :: "int \<Rightarrow> label" where
  "http_case_23 c =
   (if c < 65 then
      (if 48 \<le> c \<and> c \<le> 57 then St 21
      else St 0)
    else if 70 < c then
      (if 97 \<le> c \<and> c \<le> 102 then St 21
      else St 0)
    else St 21)"

definition http_case_24 :: "int \<Rightarrow> label" where
  "http_case_24 c =
   (if c < 65 then
      (if 48 \<le> c \<and> c \<le> 57 then St 25
      else St 0)
    else if 70 < c then
      (if 97 \<le> c \<and> c \<le> 102 then St 25
      else St 0)
    else St 25)"

definition http_case_25 :: "int \<Rightarrow> label" where
  "http_case_25 c =
   (if c < 65 then
      (if 48 \<le> c \<and> c \<le> 57 then St 19
      else St 0)
    else if 70 < c then
      (if 97 \<le> c \<and> c \<le> 102 then St 19
      else St 0)
    else St 19)"

definition http_case_26 :: "bool \<Rightarrow> int \<Rightarrow> label" where
  "http_case_26 relaxed c =
    (let widec = http_widec relaxed c in
     if widec = 32 then Tr 37
     else if widec = 33 then St 26
     else if widec = 35 then Tr 39
     else if widec = 37 then St 27
     else if widec = 61 then St 26
     else if widec = 63 then Tr 42
     else if widec = 95 then St 26
     else if widec = 126 then St 26
     else if widec = 606 then St 26
     else if widec = 635 then St 26
     else if widec = 637 then St 26
     else if widec < 64 then
       (if 36 \<le> widec \<and> widec \<le> 59 then St 26
       else St 0)
     else if 90 < widec then
       (if 97 \<le> widec \<and> widec \<le> 122 then St 26
       else St 0)
     else St 26)"

definition http_case_27 :: "int \<Rightarrow> label" where
  "http_case_27 c =
   (if c < 65 then
      (if 48 \<le> c \<and> c \<le> 57 then St 28
      else St 0)
    else if 70 < c then
      (if 97 \<le> c \<and> c \<le> 102 then St 28
      else St 0)
    else St 28)"

definition http_case_28 :: "int \<Rightarrow> label" where
  "http_case_28 c =
   (if c < 65 then
      (if 48 \<le> c \<and> c \<le> 57 then St 26
      else St 0)
    else if 70 < c then
      (if 97 \<le> c \<and> c \<le> 102 then St 26
      else St 0)
    else St 26)"

definition http_case_29 :: "bool \<Rightarrow> int \<Rightarrow> label" where
  "http_case_29 relaxed c =
    (let widec = http_widec relaxed c in
     if widec = 32 then Tr 53
     else if widec = 33 then Tr 54
     else if widec = 35 then Tr 55
     else if widec = 37 then Tr 56
     else if widec = 61 then Tr 54
     else if widec = 95 then Tr 54
     else if widec = 126 then Tr 54
     else if widec = 606 then Tr 54
     else if widec = 635 then Tr 54
     else if widec = 637 then Tr 54
     else if widec < 63 then
       (if 36 \<le> widec \<and> widec \<le> 59 then Tr 54
       else St 0)
     else if 90 < widec then
       (if 97 \<le> widec \<and> widec \<le> 122 then Tr 54
       else St 0)
     else Tr 54)"

definition http_case_30 :: "bool \<Rightarrow> int \<Rightarrow> label" where
  "http_case_30 relaxed c =
    (let widec = http_widec relaxed c in
     if widec = 32 then Tr 57
     else if widec = 33 then St 30
     else if widec = 35 then Tr 59
     else if widec = 37 then St 31
     else if widec = 61 then St 30
     else if widec = 95 then St 30
     else if widec = 126 then St 30
     else if widec = 606 then St 30
     else if widec = 635 then St 30
     else if widec = 637 then St 30
     else if widec < 63 then
       (if 36 \<le> widec \<and> widec \<le> 59 then St 30
       else St 0)
     else if 90 < widec then
       (if 97 \<le> widec \<and> widec \<le> 122 then St 30
       else St 0)
     else St 30)"

definition http_case_31 :: "int \<Rightarrow> label" where
  "http_case_31 c =
   (if c < 65 then
      (if 48 \<le> c \<and> c \<le> 57 then St 32
      else St 0)
    else if 70 < c then
      (if 97 \<le> c \<and> c \<le> 102 then St 32
      else St 0)
    else St 32)"

definition http_case_32 :: "int \<Rightarrow> label" where
  "http_case_32 c =
   (if c < 65 then
      (if 48 \<le> c \<and> c \<le> 57 then St 30
      else St 0)
    else if 70 < c then
      (if 97 \<le> c \<and> c \<le> 102 then St 30
      else St 0)
    else St 30)"

definition http_case_33 :: "bool \<Rightarrow> int \<Rightarrow> label" where
  "http_case_33 relaxed c =
    (let widec = http_widec relaxed c in
     if widec = 32 then Tr 37
     else if widec = 33 then St 26
     else if widec = 35 then Tr 39
     else if widec = 37 then St 27
     else if widec = 47 then St 34
     else if widec = 61 then St 26
     else if widec = 63 then Tr 42
     else if widec = 95 then St 26
     else if widec = 126 then St 26
     else if widec = 606 then St 26
     else if widec = 635 then St 26
     else if widec = 637 then St 26
     else if widec < 64 then
       (if 36 \<le> widec \<and> widec \<le> 59 then St 26
       else St 0)
     else if 90 < widec then
       (if 97 \<le> widec \<and> widec \<le> 122 then St 26
       else St 0)
     else St 26)"

definition http_case_34 :: "bool \<Rightarrow> int \<Rightarrow> label" where
  "http_case_34 relaxed c =
    (let widec = http_widec relaxed c in
     if widec = 32 then Tr 37
     else if widec = 33 then St 35
     else if widec = 35 then Tr 39
     else if widec = 37 then St 36
     else if widec = 47 then St 26
     else if widec = 58 then St 38
     else if widec = 61 then St 35
     else if widec = 63 then Tr 42
     else if widec = 64 then St 42
     else if widec = 91 then St 47
     else if widec = 95 then St 35
     else if widec = 126 then St 35
     else if widec = 606 then St 35
     else if widec = 635 then St 35
     else if widec = 637 then St 35
     else if widec < 65 then
       (if 36 \<le> widec \<and> widec \<le> 59 then St 35
       else St 0)
     else if 90 < widec then
       (if 97 \<le> widec \<and> widec \<le> 122 then St 35
       else St 0)
     else St 35)"

definition http_case_35 :: "bool \<Rightarrow> int \<Rightarrow> label" where
  "http_case_35 relaxed c =
    (let widec = http_widec relaxed c in
     if widec = 32 then Tr 37
     else if widec = 33 then St 35
     else if widec = 35 then Tr 39
     else if widec = 37 then St 36
     else if widec = 47 then St 26
     else if widec = 58 then St 38
     else if widec = 61 then St 35
     else if widec = 63 then Tr 42
     else if widec = 64 then St 42
     else if widec = 95 then St 35
     else if widec = 126 then St 35
     else if widec = 606 then St 35
     else if widec = 635 then St 35
     else if widec = 637 then St 35
     else if widec < 65 then
       (if 36 \<le> widec \<and> widec \<le> 59 then St 35
       else St 0)
     else if 90 < widec then
       (if 97 \<le> widec \<and> widec \<le> 122 then St 35
       else St 0)
     else St 35)"

definition http_case_36 :: "int \<Rightarrow> label" where
  "http_case_36 c =
   (if c < 65 then
      (if 48 \<le> c \<and> c \<le> 57 then St 37
      else St 0)
    else if 70 < c then
      (if 97 \<le> c \<and> c \<le> 102 then St 37
      else St 0)
    else St 37)"

definition http_case_37 :: "int \<Rightarrow> label" where
  "http_case_37 c =
   (if c < 65 then
      (if 48 \<le> c \<and> c \<le> 57 then St 35
      else St 0)
    else if 70 < c then
      (if 97 \<le> c \<and> c \<le> 102 then St 35
      else St 0)
    else St 35)"

definition http_case_38 :: "bool \<Rightarrow> int \<Rightarrow> label" where
  "http_case_38 relaxed c =
    (let widec = http_widec relaxed c in
     if widec = 32 then Tr 37
     else if widec = 33 then St 39
     else if widec = 35 then Tr 39
     else if widec = 37 then St 40
     else if widec = 47 then St 26
     else if widec = 61 then St 39
     else if widec = 63 then Tr 42
     else if widec = 64 then St 42
     else if widec = 95 then St 39
     else if widec = 126 then St 39
     else if widec = 606 then St 39
     else if widec = 635 then St 39
     else if widec = 637 then St 39
     else if widec < 58 then
       (if 46 < widec then
         (if 48 \<le> widec \<and> widec \<le> 57 then St 38
         else St 0)
       else if 36 \<le> widec then St 39
       else St 0)
     else if 59 < widec then
       (if 90 < widec then
         (if 97 \<le> widec \<and> widec \<le> 122 then St 39
         else St 0)
       else if 65 \<le> widec then St 39
       else St 0)
     else St 39)"

definition http_case_39 :: "bool \<Rightarrow> int \<Rightarrow> label" where
  "http_case_39 relaxed c =
    (let widec = http_widec relaxed c in
     if widec = 33 then St 39
     else if widec = 37 then St 40
     else if widec = 61 then St 39
     else if widec = 64 then St 42
     else if widec = 95 then St 39
     else if widec = 126 then St 39
     else if widec = 606 then St 39
     else if widec = 635 then St 39
     else if widec = 637 then St 39
     else if widec < 48 then
       (if 36 \<le> widec \<and> widec \<le> 46 then St 39
       else St 0)
     else if 59 < widec then
       (if 90 < widec then
         (if 97 \<le> widec \<and> widec \<le> 122 then St 39
         else St 0)
       else if 65 \<le> widec then St 39
       else St 0)
     else St 39)"

definition http_case_40 :: "int \<Rightarrow> label" where
  "http_case_40 c =
   (if c < 65 then
      (if 48 \<le> c \<and> c \<le> 57 then St 41
      else St 0)
    else if 70 < c then
      (if 97 \<le> c \<and> c \<le> 102 then St 41
      else St 0)
    else St 41)"

definition http_case_41 :: "int \<Rightarrow> label" where
  "http_case_41 c =
   (if c < 65 then
      (if 48 \<le> c \<and> c \<le> 57 then St 39
      else St 0)
    else if 70 < c then
      (if 97 \<le> c \<and> c \<le> 102 then St 39
      else St 0)
    else St 39)"

definition http_case_42 :: "bool \<Rightarrow> int \<Rightarrow> label" where
  "http_case_42 relaxed c =
    (let widec = http_widec relaxed c in
     if widec = 32 then Tr 37
     else if widec = 33 then St 43
     else if widec = 35 then Tr 39
     else if widec = 37 then St 44
     else if widec = 47 then St 26
     else if widec = 58 then St 46
     else if widec = 61 then St 43
     else if widec = 63 then Tr 42
     else if widec = 91 then St 47
     else if widec = 95 then St 43
     else if widec = 126 then St 43
     else if widec = 606 then St 43
     else if widec = 635 then St 43
     else if widec = 637 then St 43
     else if widec < 65 then
       (if 36 \<le> widec \<and> widec \<le> 59 then St 43
       else St 0)
     else if 90 < widec then
       (if 97 \<le> widec \<and> widec \<le> 122 then St 43
       else St 0)
     else St 43)"

definition http_case_43 :: "bool \<Rightarrow> int \<Rightarrow> label" where
  "http_case_43 relaxed c =
    (let widec = http_widec relaxed c in
     if widec = 32 then Tr 37
     else if widec = 33 then St 43
     else if widec = 35 then Tr 39
     else if widec = 37 then St 44
     else if widec = 47 then St 26
     else if widec = 58 then St 46
     else if widec = 61 then St 43
     else if widec = 63 then Tr 42
     else if widec = 95 then St 43
     else if widec = 126 then St 43
     else if widec = 606 then St 43
     else if widec = 635 then St 43
     else if widec = 637 then St 43
     else if widec < 65 then
       (if 36 \<le> widec \<and> widec \<le> 59 then St 43
       else St 0)
     else if 90 < widec then
       (if 97 \<le> widec \<and> widec \<le> 122 then St 43
       else St 0)
     else St 43)"

definition http_case_44 :: "int \<Rightarrow> label" where
  "http_case_44 c =
   (if c < 65 then
      (if 48 \<le> c \<and> c \<le> 57 then St 45
      else St 0)
    else if 70 < c then
      (if 97 \<le> c \<and> c \<le> 102 then St 45
      else St 0)
    else St 45)"

definition http_case_45 :: "int \<Rightarrow> label" where
  "http_case_45 c =
   (if c < 65 then
      (if 48 \<le> c \<and> c \<le> 57 then St 43
      else St 0)
    else if 70 < c then
      (if 97 \<le> c \<and> c \<le> 102 then St 43
      else St 0)
    else St 43)"

definition http_case_46 :: "int \<Rightarrow> label" where
  "http_case_46 c =
   (if c = 32 then Tr 37
    else if c = 35 then Tr 39
    else if c = 47 then St 26
    else if c = 63 then Tr 42
    else if 48 \<le> c \<and> c \<le> 57 then St 46
    else St 0)"

definition http_case_47 :: "int \<Rightarrow> label" where
  "http_case_47 c =
   (if c = 6 then St 48
    else if c = 58 then St 167
    else if c = 118 then St 169
    else if c < 65 then
      (if 48 \<le> c \<and> c \<le> 57 then St 91
      else St 0)
    else if 70 < c then
      (if 97 \<le> c \<and> c \<le> 102 then St 91
      else St 0)
    else St 91)"

definition http_case_48 :: "int \<Rightarrow> label" where
  "http_case_48 c =
   (if c < 65 then
      (if 48 \<le> c \<and> c \<le> 57 then St 49
      else St 0)
    else if 70 < c then
      (if 97 \<le> c \<and> c \<le> 102 then St 49
      else St 0)
    else St 49)"

definition http_case_49 :: "int \<Rightarrow> label" where
  "http_case_49 c =
   (if c = 58 then St 53
    else if c < 65 then
      (if 48 \<le> c \<and> c \<le> 57 then St 50
      else St 0)
    else if 70 < c then
      (if 97 \<le> c \<and> c \<le> 102 then St 50
      else St 0)
    else St 50)"

definition http_case_50 :: "int \<Rightarrow> label" where
  "http_case_50 c =
   (if c = 58 then St 53
    else if c < 65 then
      (if 48 \<le> c \<and> c \<le> 57 then St 51
      else St 0)
    else if 70 < c then
      (if 97 \<le> c \<and> c \<le> 102 then St 51
      else St 0)
    else St 51)"

definition http_case_51 :: "int \<Rightarrow> label" where
  "http_case_51 c =
   (if c = 58 then St 53
    else if c < 65 then
      (if 48 \<le> c \<and> c \<le> 57 then St 52
      else St 0)
    else if 70 < c then
      (if 97 \<le> c \<and> c \<le> 102 then St 52
      else St 0)
    else St 52)"

definition http_case_52 :: "int \<Rightarrow> label" where
  "http_case_52 c =
   (if c = 58 then St 53
    else St 0)"

definition http_case_53 :: "int \<Rightarrow> label" where
  "http_case_53 c =
   (if c = 49 then St 84
    else if c = 50 then St 87
    else if c < 65 then
      (if 48 \<le> c \<and> c \<le> 57 then St 54
      else St 0)
    else if 70 < c then
      (if 97 \<le> c \<and> c \<le> 102 then St 90
      else St 0)
    else St 90)"

definition http_case_54 :: "int \<Rightarrow> label" where
  "http_case_54 c =
   (if c = 46 then St 55
    else if c = 58 then St 80
    else if c < 65 then
      (if 48 \<le> c \<and> c \<le> 57 then St 77
      else St 0)
    else if 70 < c then
      (if 97 \<le> c \<and> c \<le> 102 then St 77
      else St 0)
    else St 77)"

definition http_case_55 :: "int \<Rightarrow> label" where
  "http_case_55 c =
   (if c = 49 then St 72
    else if c = 50 then St 74
    else if 48 \<le> c \<and> c \<le> 57 then St 56
    else St 0)"

definition http_case_56 :: "int \<Rightarrow> label" where
  "http_case_56 c =
   (if c = 46 then St 57
    else St 0)"

definition http_case_57 :: "int \<Rightarrow> label" where
  "http_case_57 c =
   (if c = 49 then St 67
    else if c = 50 then St 69
    else if 48 \<le> c \<and> c \<le> 57 then St 58
    else St 0)"

definition http_case_58 :: "int \<Rightarrow> label" where
  "http_case_58 c =
   (if c = 46 then St 59
    else St 0)"

definition http_case_59 :: "int \<Rightarrow> label" where
  "http_case_59 c =
   (if c = 49 then St 62
    else if c = 50 then St 64
    else if 48 \<le> c \<and> c \<le> 57 then St 60
    else St 0)"

definition http_case_60 :: "int \<Rightarrow> label" where
  "http_case_60 c =
   (if c = 93 then St 61
    else St 0)"

definition http_case_61 :: "int \<Rightarrow> label" where
  "http_case_61 c =
   (if c = 32 then Tr 37
    else if c = 35 then Tr 39
    else if c = 47 then St 26
    else if c = 58 then St 46
    else if c = 63 then Tr 42
    else St 0)"

definition http_case_62 :: "int \<Rightarrow> label" where
  "http_case_62 c =
   (if c = 93 then St 61
    else if 48 \<le> c \<and> c \<le> 57 then St 63
    else St 0)"

definition http_case_63 :: "int \<Rightarrow> label" where
  "http_case_63 c =
   (if c = 93 then St 61
    else if 48 \<le> c \<and> c \<le> 57 then St 60
    else St 0)"

definition http_case_64 :: "int \<Rightarrow> label" where
  "http_case_64 c =
   (if c = 48 then St 65
    else if c = 53 then St 66
    else if c = 93 then St 61
    else St 0)"

definition http_case_65 :: "int \<Rightarrow> label" where
  "http_case_65 c =
   (if 48 \<le> c \<and> c \<le> 57 then St 60
    else St 0)"

definition http_case_66 :: "int \<Rightarrow> label" where
  "http_case_66 c =
   (if c = 48 then St 60
    else St 0)"

definition http_case_67 :: "int \<Rightarrow> label" where
  "http_case_67 c =
   (if c = 46 then St 59
    else if 48 \<le> c \<and> c \<le> 57 then St 68
    else St 0)"

definition http_case_68 :: "int \<Rightarrow> label" where
  "http_case_68 c =
   (if c = 46 then St 59
    else if 48 \<le> c \<and> c \<le> 57 then St 58
    else St 0)"

definition http_case_69 :: "int \<Rightarrow> label" where
  "http_case_69 c =
   (if c = 46 then St 59
    else if c = 48 then St 70
    else if c = 53 then St 71
    else St 0)"

definition http_case_70 :: "int \<Rightarrow> label" where
  "http_case_70 c =
   (if 48 \<le> c \<and> c \<le> 57 then St 58
    else St 0)"

definition http_case_71 :: "int \<Rightarrow> label" where
  "http_case_71 c =
   (if c = 48 then St 58
    else St 0)"

definition http_case_72 :: "int \<Rightarrow> label" where
  "http_case_72 c =
   (if c = 46 then St 57
    else if 48 \<le> c \<and> c \<le> 57 then St 73
    else St 0)"

definition http_case_73 :: "int \<Rightarrow> label" where
  "http_case_73 c =
   (if c = 46 then St 57
    else if 48 \<le> c \<and> c \<le> 57 then St 56
    else St 0)"

definition http_case_74 :: "int \<Rightarrow> label" where
  "http_case_74 c =
   (if c = 46 then St 57
    else if c = 48 then St 75
    else if c = 53 then St 76
    else St 0)"

definition http_case_75 :: "int \<Rightarrow> label" where
  "http_case_75 c =
   (if 48 \<le> c \<and> c \<le> 57 then St 56
    else St 0)"

definition http_case_76 :: "int \<Rightarrow> label" where
  "http_case_76 c =
   (if c = 48 then St 56
    else St 0)"

definition http_case_77 :: "int \<Rightarrow> label" where
  "http_case_77 c =
   (if c = 58 then St 80
    else if c < 65 then
      (if 48 \<le> c \<and> c \<le> 57 then St 78
      else St 0)
    else if 70 < c then
      (if 97 \<le> c \<and> c \<le> 102 then St 78
      else St 0)
    else St 78)"

definition http_case_78 :: "int \<Rightarrow> label" where
  "http_case_78 c =
   (if c = 58 then St 80
    else if c < 65 then
      (if 48 \<le> c \<and> c \<le> 57 then St 79
      else St 0)
    else if 70 < c then
      (if 97 \<le> c \<and> c \<le> 102 then St 79
      else St 0)
    else St 79)"

definition http_case_79 :: "int \<Rightarrow> label" where
  "http_case_79 c =
   (if c = 58 then St 80
    else St 0)"

definition http_case_80 :: "int \<Rightarrow> label" where
  "http_case_80 c =
   (if c < 65 then
      (if 48 \<le> c \<and> c \<le> 57 then St 81
      else St 0)
    else if 70 < c then
      (if 97 \<le> c \<and> c \<le> 102 then St 81
      else St 0)
    else St 81)"

definition http_case_81 :: "int \<Rightarrow> label" where
  "http_case_81 c =
   (if c = 93 then St 61
    else if c < 65 then
      (if 48 \<le> c \<and> c \<le> 57 then St 82
      else St 0)
    else if 70 < c then
      (if 97 \<le> c \<and> c \<le> 102 then St 82
      else St 0)
    else St 82)"

definition http_case_82 :: "int \<Rightarrow> label" where
  "http_case_82 c =
   (if c = 93 then St 61
    else if c < 65 then
      (if 48 \<le> c \<and> c \<le> 57 then St 83
      else St 0)
    else if 70 < c then
      (if 97 \<le> c \<and> c \<le> 102 then St 83
      else St 0)
    else St 83)"

definition http_case_83 :: "int \<Rightarrow> label" where
  "http_case_83 c =
   (if c = 93 then St 61
    else if c < 65 then
      (if 48 \<le> c \<and> c \<le> 57 then St 60
      else St 0)
    else if 70 < c then
      (if 97 \<le> c \<and> c \<le> 102 then St 60
      else St 0)
    else St 60)"

definition http_case_84 :: "int \<Rightarrow> label" where
  "http_case_84 c =
   (if c = 46 then St 55
    else if c = 58 then St 80
    else if c < 65 then
      (if 48 \<le> c \<and> c \<le> 57 then St 85
      else St 0)
    else if 70 < c then
      (if 97 \<le> c \<and> c \<le> 102 then St 77
      else St 0)
    else St 77)"

definition http_case_85 :: "int \<Rightarrow> label" where
  "http_case_85 c =
   (if c = 46 then St 55
    else if c = 58 then St 80
    else if c < 65 then
      (if 48 \<le> c \<and> c \<le> 57 then St 86
      else St 0)
    else if 70 < c then
      (if 97 \<le> c \<and> c \<le> 102 then St 78
      else St 0)
    else St 78)"

definition http_case_86 :: "int \<Rightarrow> label" where
  "http_case_86 c =
   (if c = 46 then St 55
    else if c = 58 then St 80
    else if c < 65 then
      (if 48 \<le> c \<and> c \<le> 57 then St 79
      else St 0)
    else if 70 < c then
      (if 97 \<le> c \<and> c \<le> 102 then St 79
      else St 0)
    else St 79)"

definition http_case_87 :: "int \<Rightarrow> label" where
  "http_case_87 c =
   (if c = 46 then St 55
    else if c = 48 then St 88
    else if c = 53 then St 89
    else if c = 58 then St 80
    else if c < 65 then
      (if 49 \<le> c \<and> c \<le> 57 then St 77
      else St 0)
    else if 70 < c then
      (if 97 \<le> c \<and> c \<le> 102 then St 77
      else St 0)
    else St 77)"

definition http_case_88 :: "int \<Rightarrow> label" where
  "http_case_88 c =
   (if c = 58 then St 80
    else if c < 65 then
      (if 48 \<le> c \<and> c \<le> 57 then St 86
      else St 0)
    else if 70 < c then
      (if 97 \<le> c \<and> c \<le> 102 then St 78
      else St 0)
    else St 78)"

definition http_case_89 :: "int \<Rightarrow> label" where
  "http_case_89 c =
   (if c = 48 then St 86
    else if c = 58 then St 80
    else if c < 65 then
      (if 49 \<le> c \<and> c \<le> 57 then St 78
      else St 0)
    else if 70 < c then
      (if 97 \<le> c \<and> c \<le> 102 then St 78
      else St 0)
    else St 78)"

definition http_case_90 :: "int \<Rightarrow> label" where
  "http_case_90 c =
   (if c = 58 then St 80
    else if c < 65 then
      (if 48 \<le> c \<and> c \<le> 57 then St 77
      else St 0)
    else if 70 < c then
      (if 97 \<le> c \<and> c \<le> 102 then St 77
      else St 0)
    else St 77)"

definition http_case_91 :: "int \<Rightarrow> label" where
  "http_case_91 c =
   (if c = 58 then St 95
    else if c < 65 then
      (if 48 \<le> c \<and> c \<le> 57 then St 92
      else St 0)
    else if 70 < c then
      (if 97 \<le> c \<and> c \<le> 102 then St 92
      else St 0)
    else St 92)"

definition http_case_92 :: "int \<Rightarrow> label" where
  "http_case_92 c =
   (if c = 58 then St 95
    else if c < 65 then
      (if 48 \<le> c \<and> c \<le> 57 then St 93
      else St 0)
    else if 70 < c then
      (if 97 \<le> c \<and> c \<le> 102 then St 93
      else St 0)
    else St 93)"

definition http_case_93 :: "int \<Rightarrow> label" where
  "http_case_93 c =
   (if c = 58 then St 95
    else if c < 65 then
      (if 48 \<le> c \<and> c \<le> 57 then St 94
      else St 0)
    else if 70 < c then
      (if 97 \<le> c \<and> c \<le> 102 then St 94
      else St 0)
    else St 94)"

definition http_case_94 :: "int \<Rightarrow> label" where
  "http_case_94 c =
   (if c = 58 then St 95
    else St 0)"

definition http_case_95 :: "int \<Rightarrow> label" where
  "http_case_95 c =
   (if c = 58 then St 166
    else if c < 65 then
      (if 48 \<le> c \<and> c \<le> 57 then St 96
      else St 0)
    else if 70 < c then
      (if 97 \<le> c \<and> c \<le> 102 then St 96
      else St 0)
    else St 96)"

definition http_case_96 :: "int \<Rightarrow> label" where
  "http_case_96 c =
   (if c = 58 then St 100
    else if c < 65 then
      (if 48 \<le> c \<and> c \<le> 57 then St 97
      else St 0)
    else if 70 < c then
      (if 97 \<le> c \<and> c \<le> 102 then St 97
      else St 0)
    else St 97)"

definition http_case_97 :: "int \<Rightarrow> label" where
  "http_case_97 c =
   (if c = 58 then St 100
    else if c < 65 then
      (if 48 \<le> c \<and> c \<le> 57 then St 98
      else St 0)
    else if 70 < c then
      (if 97 \<le> c \<and> c \<le> 102 then St 98
      else St 0)
    else St 98)"

definition http_case_98 :: "int \<Rightarrow> label" where
  "http_case_98 c =
   (if c = 58 then St 100
    else if c < 65 then
      (if 48 \<le> c \<and> c \<le> 57 then St 99
      else St 0)
    else if 70 < c then
      (if 97 \<le> c \<and> c \<le> 102 then St 99
      else St 0)
    else St 99)"

definition http_case_99 :: "int \<Rightarrow> label" where
  "http_case_99 c =
   (if c = 58 then St 100
    else St 0)"

definition http_case_100 :: "int \<Rightarrow> label" where
  "http_case_100 c =
   (if c = 58 then St 165
    else if c < 65 then
      (if 48 \<le> c \<and> c \<le> 57 then St 101
      else St 0)
    else if 70 < c then
      (if 97 \<le> c \<and> c \<le> 102 then St 101
      else St 0)
    else St 101)"

definition http_case_101 :: "int \<Rightarrow> label" where
  "http_case_101 c =
   (if c = 58 then St 105
    else if c < 65 then
      (if 48 \<le> c \<and> c \<le> 57 then St 102
      else St 0)
    else if 70 < c then
      (if 97 \<le> c \<and> c \<le> 102 then St 102
      else St 0)
    else St 102)"

definition http_case_102 :: "int \<Rightarrow> label" where
  "http_case_102 c =
   (if c = 58 then St 105
    else if c < 65 then
      (if 48 \<le> c \<and> c \<le> 57 then St 103
      else St 0)
    else if 70 < c then
      (if 97 \<le> c \<and> c \<le> 102 then St 103
      else St 0)
    else St 103)"

definition http_case_103 :: "int \<Rightarrow> label" where
  "http_case_103 c =
   (if c = 58 then St 105
    else if c < 65 then
      (if 48 \<le> c \<and> c \<le> 57 then St 104
      else St 0)
    else if 70 < c then
      (if 97 \<le> c \<and> c \<le> 102 then St 104
      else St 0)
    else St 104)"

definition http_case_104 :: "int \<Rightarrow> label" where
  "http_case_104 c =
   (if c = 58 then St 105
    else St 0)"

definition http_case_105 :: "int \<Rightarrow> label" where
  "http_case_105 c =
   (if c = 58 then St 164
    else if c < 65 then
      (if 48 \<le> c \<and> c \<le> 57 then St 106
      else St 0)
    else if 70 < c then
      (if 97 \<le> c \<and> c \<le> 102 then St 106
      else St 0)
    else St 106)"

definition http_case_106 :: "int \<Rightarrow> label" where
  "http_case_106 c =
   (if c = 58 then St 110
    else if c < 65 then
      (if 48 \<le> c \<and> c \<le> 57 then St 107
      else St 0)
    else if 70 < c then
      (if 97 \<le> c \<and> c \<le> 102 then St 107
      else St 0)
    else St 107)"

definition http_case_107 :: "int \<Rightarrow> label" where
  "http_case_107 c =
   (if c = 58 then St 110
    else if c < 65 then
      (if 48 \<le> c \<and> c \<le> 57 then St 108
      else St 0)
    else if 70 < c then
      (if 97 \<le> c \<and> c \<le> 102 then St 108
      else St 0)
    else St 108)"

definition http_case_108 :: "int \<Rightarrow> label" where
  "http_case_108 c =
   (if c = 58 then St 110
    else if c < 65 then
      (if 48 \<le> c \<and> c \<le> 57 then St 109
      else St 0)
    else if 70 < c then
      (if 97 \<le> c \<and> c \<le> 102 then St 109
      else St 0)
    else St 109)"

definition http_case_109 :: "int \<Rightarrow> label" where
  "http_case_109 c =
   (if c = 58 then St 110
    else St 0)"

definition http_case_110 :: "int \<Rightarrow> label" where
  "http_case_110 c =
   (if c = 58 then St 163
    else if c < 65 then
      (if 48 \<le> c \<and> c \<le> 57 then St 111
      else St 0)
    else if 70 < c then
      (if 97 \<le> c \<and> c \<le> 102 then St 111
      else St 0)
    else St 111)"

definition http_case_111 :: "int \<Rightarrow> label" where
  "http_case_111 c =
   (if c = 58 then St 115
    else if c < 65 then
      (if 48 \<le> c \<and> c \<le> 57 then St 112
      else St 0)
    else if 70 < c then
      (if 97 \<le> c \<and> c \<le> 102 then St 112
      else St 0)
    else St 112)"

definition http_case_112 :: "int \<Rightarrow> label" where
  "http_case_112 c =
   (if c = 58 then St 115
    else if c < 65 then
      (if 48 \<le> c \<and> c \<le> 57 then St 113
      else St 0)
    else if 70 < c then
      (if 97 \<le> c \<and> c \<le> 102 then St 113
      else St 0)
    else St 113)"

definition http_case_113 :: "int \<Rightarrow> label" where
  "http_case_113 c =
   (if c = 58 then St 115
    else if c < 65 then
      (if 48 \<le> c \<and> c \<le> 57 then St 114
      else St 0)
    else if 70 < c then
      (if 97 \<le> c \<and> c \<le> 102 then St 114
      else St 0)
    else St 114)"

definition http_case_114 :: "int \<Rightarrow> label" where
  "http_case_114 c =
   (if c = 58 then St 115
    else St 0)"

definition http_case_115 :: "int \<Rightarrow> label" where
  "http_case_115 c =
   (if c = 58 then St 151
    else if c < 65 then
      (if 48 \<le> c \<and> c \<le> 57 then St 116
      else St 0)
    else if 70 < c then
      (if 97 \<le> c \<and> c \<le> 102 then St 116
      else St 0)
    else St 116)"

definition http_case_116 :: "int \<Rightarrow> label" where
  "http_case_116 c =
   (if c = 58 then St 120
    else if c < 65 then
      (if 48 \<le> c \<and> c \<le> 57 then St 117
      else St 0)
    else if 70 < c then
      (if 97 \<le> c \<and> c \<le> 102 then St 117
      else St 0)
    else St 117)"

definition http_case_117 :: "int \<Rightarrow> label" where
  "http_case_117 c =
   (if c = 58 then St 120
    else if c < 65 then
      (if 48 \<le> c \<and> c \<le> 57 then St 118
      else St 0)
    else if 70 < c then
      (if 97 \<le> c \<and> c \<le> 102 then St 118
      else St 0)
    else St 118)"

definition http_case_118 :: "int \<Rightarrow> label" where
  "http_case_118 c =
   (if c = 58 then St 120
    else if c < 65 then
      (if 48 \<le> c \<and> c \<le> 57 then St 119
      else St 0)
    else if 70 < c then
      (if 97 \<le> c \<and> c \<le> 102 then St 119
      else St 0)
    else St 119)"

definition http_case_119 :: "int \<Rightarrow> label" where
  "http_case_119 c =
   (if c = 58 then St 120
    else St 0)"

definition http_case_120 :: "int \<Rightarrow> label" where
  "http_case_120 c =
   (if c = 58 then St 150
    else if c < 65 then
      (if 48 \<le> c \<and> c \<le> 57 then St 121
      else St 0)
    else if 70 < c then
      (if 97 \<le> c \<and> c \<le> 102 then St 121
      else St 0)
    else St 121)"

definition http_case_121 :: "int \<Rightarrow> label" where
  "http_case_121 c =
   (if c = 58 then St 125
    else if c < 65 then
      (if 48 \<le> c \<and> c \<le> 57 then St 122
      else St 0)
    else if 70 < c then
      (if 97 \<le> c \<and> c \<le> 102 then St 122
      else St 0)
    else St 122)"

definition http_case_122 :: "int \<Rightarrow> label" where
  "http_case_122 c =
   (if c = 58 then St 125
    else if c < 65 then
      (if 48 \<le> c \<and> c \<le> 57 then St 123
      else St 0)
    else if 70 < c then
      (if 97 \<le> c \<and> c \<le> 102 then St 123
      else St 0)
    else St 123)"

definition http_case_123 :: "int \<Rightarrow> label" where
  "http_case_123 c =
   (if c = 58 then St 125
    else if c < 65 then
      (if 48 \<le> c \<and> c \<le> 57 then St 124
      else St 0)
    else if 70 < c then
      (if 97 \<le> c \<and> c \<le> 102 then St 124
      else St 0)
    else St 124)"

definition http_case_124 :: "int \<Rightarrow> label" where
  "http_case_124 c =
   (if c = 58 then St 125
    else St 0)"

definition http_case_125 :: "int \<Rightarrow> label" where
  "http_case_125 c =
   (if c = 58 then St 126
    else if c < 65 then
      (if 48 \<le> c \<and> c \<le> 57 then St 121
      else St 0)
    else if 70 < c then
      (if 97 \<le> c \<and> c \<le> 102 then St 121
      else St 0)
    else St 121)"

definition http_case_126 :: "int \<Rightarrow> label" where
  "http_case_126 c =
   (if c = 49 then St 143
    else if c = 50 then St 146
    else if c = 93 then St 61
    else if c < 48 then
      (if 2 \<le> c \<and> c \<le> 3 then St 48
      else St 0)
    else if 57 < c then
      (if 70 < c then
        (if 97 \<le> c \<and> c \<le> 102 then St 149
        else St 0)
      else if 65 \<le> c then St 149
      else St 0)
    else St 127)"

definition http_case_127 :: "int \<Rightarrow> label" where
  "http_case_127 c =
   (if c = 46 then St 55
    else if c = 58 then St 131
    else if c = 93 then St 61
    else if c < 65 then
      (if 48 \<le> c \<and> c \<le> 57 then St 128
      else St 0)
    else if 70 < c then
      (if 97 \<le> c \<and> c \<le> 102 then St 128
      else St 0)
    else St 128)"

definition http_case_128 :: "int \<Rightarrow> label" where
  "http_case_128 c =
   (if c = 58 then St 131
    else if c = 93 then St 61
    else if c < 65 then
      (if 48 \<le> c \<and> c \<le> 57 then St 129
      else St 0)
    else if 70 < c then
      (if 97 \<le> c \<and> c \<le> 102 then St 129
      else St 0)
    else St 129)"

definition http_case_129 :: "int \<Rightarrow> label" where
  "http_case_129 c =
   (if c = 58 then St 131
    else if c = 93 then St 61
    else if c < 65 then
      (if 48 \<le> c \<and> c \<le> 57 then St 130
      else St 0)
    else if 70 < c then
      (if 97 \<le> c \<and> c \<le> 102 then St 130
      else St 0)
    else St 130)"

definition http_case_130 :: "int \<Rightarrow> label" where
  "http_case_130 c =
   (if c = 58 then St 131
    else if c = 93 then St 61
    else St 0)"

definition http_case_131 :: "int \<Rightarrow> label" where
  "http_case_131 c =
   (if c = 49 then St 136
    else if c = 50 then St 139
    else if c < 65 then
      (if 48 \<le> c \<and> c \<le> 57 then St 132
      else St 0)
    else if 70 < c then
      (if 97 \<le> c \<and> c \<le> 102 then St 142
      else St 0)
    else St 142)"

definition http_case_132 :: "int \<Rightarrow> label" where
  "http_case_132 c =
   (if c = 46 then St 55
    else if c = 58 then St 80
    else if c = 93 then St 61
    else if c < 65 then
      (if 48 \<le> c \<and> c \<le> 57 then St 133
      else St 0)
    else if 70 < c then
      (if 97 \<le> c \<and> c \<le> 102 then St 133
      else St 0)
    else St 133)"

definition http_case_133 :: "int \<Rightarrow> label" where
  "http_case_133 c =
   (if c = 58 then St 80
    else if c = 93 then St 61
    else if c < 65 then
      (if 48 \<le> c \<and> c \<le> 57 then St 134
      else St 0)
    else if 70 < c then
      (if 97 \<le> c \<and> c \<le> 102 then St 134
      else St 0)
    else St 134)"

definition http_case_134 :: "int \<Rightarrow> label" where
  "http_case_134 c =
   (if c = 58 then St 80
    else if c = 93 then St 61
    else if c < 65 then
      (if 48 \<le> c \<and> c \<le> 57 then St 135
      else St 0)
    else if 70 < c then
      (if 97 \<le> c \<and> c \<le> 102 then St 135
      else St 0)
    else St 135)"

definition http_case_135 :: "int \<Rightarrow> label" where
  "http_case_135 c =
   (if c = 58 then St 80
    else if c = 93 then St 61
    else St 0)"

definition http_case_136 :: "int \<Rightarrow> label" where
  "http_case_136 c =
   (if c = 46 then St 55
    else if c = 58 then St 80
    else if c = 93 then St 61
    else if c < 65 then
      (if 48 \<le> c \<and> c \<le> 57 then St 137
      else St 0)
    else if 70 < c then
      (if 97 \<le> c \<and> c \<le> 102 then St 133
      else St 0)
    else St 133)"

definition http_case_137 :: "int \<Rightarrow> label" where
  "http_case_137 c =
   (if c = 46 then St 55
    else if c = 58 then St 80
    else if c = 93 then St 61
    else if c < 65 then
      (if 48 \<le> c \<and> c \<le> 57 then St 138
      else St 0)
    else if 70 < c then
      (if 97 \<le> c \<and> c \<le> 102 then St 134
      else St 0)
    else St 134)"

definition http_case_138 :: "int \<Rightarrow> label" where
  "http_case_138 c =
   (if c = 46 then St 55
    else if c = 58 then St 80
    else if c = 93 then St 61
    else if c < 65 then
      (if 48 \<le> c \<and> c \<le> 57 then St 135
      else St 0)
    else if 70 < c then
      (if 97 \<le> c \<and> c \<le> 102 then St 135
      else St 0)
    else St 135)"

definition http_case_139 :: "int \<Rightarrow> label" where
  "http_case_139 c =
   (if c = 46 then St 55
    else if c = 48 then St 140
    else if c = 53 then St 141
    else if c = 58 then St 80
    else if c = 93 then St 61
    else if c < 65 then
      (if 49 \<le> c \<and> c \<le> 57 then St 133
      else St 0)
    else if 70 < c then
      (if 97 \<le> c \<and> c \<le> 102 then St 133
      else St 0)
    else St 133)"

definition http_case_140 :: "int \<Rightarrow> label" where
  "http_case_140 c =
   (if c = 58 then St 80
    else if c = 93 then St 61
    else if c < 65 then
      (if 48 \<le> c \<and> c \<le> 57 then St 138
      else St 0)
    else if 70 < c then
      (if 97 \<le> c \<and> c \<le> 102 then St 134
      else St 0)
    else St 134)"

definition http_case_141 :: "int \<Rightarrow> label" where
  "http_case_141 c =
   (if c = 48 then St 138
    else if c = 58 then St 80
    else if c = 93 then St 61
    else if c < 65 then
      (if 49 \<le> c \<and> c \<le> 57 then St 134
      else St 0)
    else if 70 < c then
      (if 97 \<le> c \<and> c \<le> 102 then St 134
      else St 0)
    else St 134)"

definition http_case_142 :: "int \<Rightarrow> label" where
  "http_case_142 c =
   (if c = 58 then St 80
    else if c = 93 then St 61
    else if c < 65 then
      (if 48 \<le> c \<and> c \<le> 57 then St 133
      else St 0)
    else if 70 < c then
      (if 97 \<le> c \<and> c \<le> 102 then St 133
      else St 0)
    else St 133)"

definition http_case_143 :: "int \<Rightarrow> label" where
  "http_case_143 c =
   (if c = 46 then St 55
    else if c = 58 then St 131
    else if c = 93 then St 61
    else if c < 65 then
      (if 48 \<le> c \<and> c \<le> 57 then St 144
      else St 0)
    else if 70 < c then
      (if 97 \<le> c \<and> c \<le> 102 then St 128
      else St 0)
    else St 128)"

definition http_case_144 :: "int \<Rightarrow> label" where
  "http_case_144 c =
   (if c = 46 then St 55
    else if c = 58 then St 131
    else if c = 93 then St 61
    else if c < 65 then
      (if 48 \<le> c \<and> c \<le> 57 then St 145
      else St 0)
    else if 70 < c then
      (if 97 \<le> c \<and> c \<le> 102 then St 129
      else St 0)
    else St 129)"

definition http_case_145 :: "int \<Rightarrow> label" where
  "http_case_145 c =
   (if c = 46 then St 55
    else if c = 58 then St 131
    else if c = 93 then St 61
    else if c < 65 then
      (if 48 \<le> c \<and> c \<le> 57 then St 130
      else St 0)
    else if 70 < c then
      (if 97 \<le> c \<and> c \<le> 102 then St 130
      else St 0)
    else St 130)"

definition http_case_146 :: "int \<Rightarrow> label" where
  "http_case_146 c =
   (if c = 46 then St 55
    else if c = 48 then St 147
    else if c = 53 then St 148
    else if c = 58 then St 131
    else if c = 93 then St 61
    else if c < 65 then
      (if 49 \<le> c \<and> c \<le> 57 then St 128
      else St 0)
    else if 70 < c then
      (if 97 \<le> c \<and> c \<le> 102 then St 128
      else St 0)
    else St 128)"

definition http_case_147 :: "int \<Rightarrow> label" where
  "http_case_147 c =
   (if c = 58 then St 131
    else if c = 93 then St 61
    else if c < 65 then
      (if 48 \<le> c \<and> c \<le> 57 then St 145
      else St 0)
    else if 70 < c then
      (if 97 \<le> c \<and> c \<le> 102 then St 129
      else St 0)
    else St 129)"

definition http_case_148 :: "int \<Rightarrow> label" where
  "http_case_148 c =
   (if c = 48 then St 145
    else if c = 58 then St 131
    else if c = 93 then St 61
    else if c < 65 then
      (if 49 \<le> c \<and> c \<le> 57 then St 129
      else St 0)
    else if 70 < c then
      (if 97 \<le> c \<and> c \<le> 102 then St 129
      else St 0)
    else St 129)"

definition http_case_149 :: "int \<Rightarrow> label" where
  "http_case_149 c =
   (if c = 58 then St 131
    else if c = 93 then St 61
    else if c < 65 then
      (if 48 \<le> c \<and> c \<le> 57 then St 128
      else St 0)
    else if 70 < c then
      (if 97 \<le> c \<and> c \<le> 102 then St 128
      else St 0)
    else St 128)"

definition http_case_150 :: "int \<Rightarrow> label" where
  "http_case_150 c =
   (if c = 49 then St 143
    else if c = 50 then St 146
    else if c < 48 then
      (if 2 \<le> c \<and> c \<le> 3 then St 48
      else St 0)
    else if 57 < c then
      (if 70 < c then
        (if 97 \<le> c \<and> c \<le> 102 then St 149
        else St 0)
      else if 65 \<le> c then St 149
      else St 0)
    else St 127)"

definition http_case_151 :: "int \<Rightarrow> label" where
  "http_case_151 c =
   (if c = 49 then St 156
    else if c = 50 then St 159
    else if c < 48 then
      (if 2 \<le> c \<and> c \<le> 3 then St 48
      else St 0)
    else if 57 < c then
      (if 70 < c then
        (if 97 \<le> c \<and> c \<le> 102 then St 162
        else St 0)
      else if 65 \<le> c then St 162
      else St 0)
    else St 152)"

definition http_case_152 :: "int \<Rightarrow> label" where
  "http_case_152 c =
   (if c = 46 then St 55
    else if c = 58 then St 131
    else if c < 65 then
      (if 48 \<le> c \<and> c \<le> 57 then St 153
      else St 0)
    else if 70 < c then
      (if 97 \<le> c \<and> c \<le> 102 then St 153
      else St 0)
    else St 153)"

definition http_case_153 :: "int \<Rightarrow> label" where
  "http_case_153 c =
   (if c = 58 then St 131
    else if c < 65 then
      (if 48 \<le> c \<and> c \<le> 57 then St 154
      else St 0)
    else if 70 < c then
      (if 97 \<le> c \<and> c \<le> 102 then St 154
      else St 0)
    else St 154)"

definition http_case_154 :: "int \<Rightarrow> label" where
  "http_case_154 c =
   (if c = 58 then St 131
    else if c < 65 then
      (if 48 \<le> c \<and> c \<le> 57 then St 155
      else St 0)
    else if 70 < c then
      (if 97 \<le> c \<and> c \<le> 102 then St 155
      else St 0)
    else St 155)"

definition http_case_155 :: "int \<Rightarrow> label" where
  "http_case_155 c =
   (if c = 58 then St 131
    else St 0)"

definition http_case_156 :: "int \<Rightarrow> label" where
  "http_case_156 c =
   (if c = 46 then St 55
    else if c = 58 then St 131
    else if c < 65 then
      (if 48 \<le> c \<and> c \<le> 57 then St 157
      else St 0)
    else if 70 < c then
      (if 97 \<le> c \<and> c \<le> 102 then St 153
      else St 0)
    else St 153)"

definition http_case_157 :: "int \<Rightarrow> label" where
  "http_case_157 c =
   (if c = 46 then St 55
    else if c = 58 then St 131
    else if c < 65 then
      (if 48 \<le> c \<and> c \<le> 57 then St 158
      else St 0)
    else if 70 < c then
      (if 97 \<le> c \<and> c \<le> 102 then St 154
      else St 0)
    else St 154)"

definition http_case_158 :: "int \<Rightarrow> label" where
  "http_case_158 c =
   (if c = 46 then St 55
    else if c = 58 then St 131
    else if c < 65 then
      (if 48 \<le> c \<and> c \<le> 57 then St 155
      else St 0)
    else if 70 < c then
      (if 97 \<le> c \<and> c \<le> 102 then St 155
      else St 0)
    else St 155)"

definition http_case_159 :: "int \<Rightarrow> label" where
  "http_case_159 c =
   (if c = 46 then St 55
    else if c = 48 then St 160
    else if c = 53 then St 161
    else if c = 58 then St 131
    else if c < 65 then
      (if 49 \<le> c \<and> c \<le> 57 then St 153
      else St 0)
    else if 70 < c then
      (if 97 \<le> c \<and> c \<le> 102 then St 153
      else St 0)
    else St 153)"

definition http_case_160 :: "int \<Rightarrow> label" where
  "http_case_160 c =
   (if c = 58 then St 131
    else if c < 65 then
      (if 48 \<le> c \<and> c \<le> 57 then St 158
      else St 0)
    else if 70 < c then
      (if 97 \<le> c \<and> c \<le> 102 then St 154
      else St 0)
    else St 154)"

definition http_case_161 :: "int \<Rightarrow> label" where
  "http_case_161 c =
   (if c = 48 then St 158
    else if c = 58 then St 131
    else if c < 65 then
      (if 49 \<le> c \<and> c \<le> 57 then St 154
      else St 0)
    else if 70 < c then
      (if 97 \<le> c \<and> c \<le> 102 then St 154
      else St 0)
    else St 154)"

definition http_case_162 :: "int \<Rightarrow> label" where
  "http_case_162 c =
   (if c = 58 then St 131
    else if c < 65 then
      (if 48 \<le> c \<and> c \<le> 57 then St 153
      else St 0)
    else if 70 < c then
      (if 97 \<le> c \<and> c \<le> 102 then St 153
      else St 0)
    else St 153)"

definition http_case_163 :: "int \<Rightarrow> label" where
  "http_case_163 c =
   (if c < 48 then
      (if 2 \<le> c \<and> c \<le> 3 then St 48
      else St 0)
    else if 57 < c then
      (if 70 < c then
        (if 97 \<le> c \<and> c \<le> 102 then St 49
        else St 0)
      else if 65 \<le> c then St 49
      else St 0)
    else St 49)"

definition http_case_164 :: "int \<Rightarrow> label" where
  "http_case_164 c =
   (if 2 \<le> c \<and> c \<le> 3 then St 48
    else St 0)"

definition http_case_165 :: "int \<Rightarrow> label" where
  "http_case_165 c =
   (if c = 3 then St 48
    else St 0)"

definition http_case_166 :: "int \<Rightarrow> label" where
  "http_case_166 c =
   (if c = 4 then St 48
    else St 0)"

definition http_case_167 :: "int \<Rightarrow> label" where
  "http_case_167 c =
   (if c = 58 then St 168
    else St 0)"

definition http_case_168 :: "int \<Rightarrow> label" where
  "http_case_168 c =
   (if c = 49 then St 143
    else if c = 50 then St 146
    else if c = 93 then St 61
    else if c < 48 then
      (if 2 \<le> c \<and> c \<le> 5 then St 48
      else St 0)
    else if 57 < c then
      (if 70 < c then
        (if 97 \<le> c \<and> c \<le> 102 then St 149
        else St 0)
      else if 65 \<le> c then St 149
      else St 0)
    else St 127)"

definition http_case_169 :: "int \<Rightarrow> label" where
  "http_case_169 c =
   (if c < 65 then
      (if 48 \<le> c \<and> c \<le> 57 then St 170
      else St 0)
    else if 70 < c then
      (if 97 \<le> c \<and> c \<le> 102 then St 170
      else St 0)
    else St 170)"

definition http_case_170 :: "int \<Rightarrow> label" where
  "http_case_170 c =
   (if c = 46 then St 171
    else if c < 65 then
      (if 48 \<le> c \<and> c \<le> 57 then St 170
      else St 0)
    else if 70 < c then
      (if 97 \<le> c \<and> c \<le> 102 then St 170
      else St 0)
    else St 170)"

definition http_case_171 :: "bool \<Rightarrow> int \<Rightarrow> label" where
  "http_case_171 relaxed c =
    (let widec = http_widec relaxed c in
     if widec = 33 then St 172
     else if widec = 36 then St 172
     else if widec = 61 then St 172
     else if widec = 95 then St 172
     else if widec = 126 then St 172
     else if widec = 606 then St 172
     else if widec = 635 then St 172
     else if widec = 637 then St 172
     else if widec < 48 then
       (if 38 \<le> widec \<and> widec \<le> 46 then St 172
       else St 0)
     else if 59 < widec then
       (if 90 < widec then
         (if 97 \<le> widec \<and> widec \<le> 122 then St 172
         else St 0)
       else if 65 \<le> widec then St 172
       else St 0)
     else St 172)"

definition http_case_172 :: "bool \<Rightarrow> int \<Rightarrow> label" where
  "http_case_172 relaxed c =
    (let widec = http_widec relaxed c in
     if widec = 33 then St 172
     else if widec = 36 then St 172
     else if widec = 61 then St 172
     else if widec = 93 then St 61
     else if widec = 95 then St 172
     else if widec = 126 then St 172
     else if widec = 606 then St 172
     else if widec = 635 then St 172
     else if widec = 637 then St 172
     else if widec < 48 then
       (if 38 \<le> widec \<and> widec \<le> 46 then St 172
       else St 0)
     else if 59 < widec then
       (if 90 < widec then
         (if 97 \<le> widec \<and> widec \<le> 122 then St 172
         else St 0)
       else if 65 \<le> widec then St 172
       else St 0)
     else St 172)"

definition http_case_173 :: "bool \<Rightarrow> int \<Rightarrow> label" where
  "http_case_173 relaxed c =
    (let widec = http_widec relaxed c in
     if widec = 32 then Tr 37
     else if widec = 33 then St 19
     else if widec = 35 then Tr 39
     else if widec = 37 then St 24
     else if widec = 43 then St 173
     else if widec = 47 then St 26
     else if widec = 58 then St 174
     else if widec = 59 then St 19
     else if widec = 61 then St 19
     else if widec = 63 then Tr 42
     else if widec = 64 then St 19
     else if widec = 95 then St 19
     else if widec = 126 then St 19
     else if widec = 606 then St 19
     else if widec = 635 then St 19
     else if widec = 637 then St 19
     else if widec < 45 then
       (if 36 \<le> widec \<and> widec \<le> 44 then St 19
       else St 0)
     else if 57 < widec then
       (if 90 < widec then
         (if 97 \<le> widec \<and> widec \<le> 122 then St 173
         else St 0)
       else if 65 \<le> widec then St 173
       else St 0)
     else St 173)"

definition http_case_174 :: "bool \<Rightarrow> int \<Rightarrow> label" where
  "http_case_174 relaxed c =
    (let widec = http_widec relaxed c in
     if widec = 32 then Tr 6
     else if widec = 33 then Tr 203
     else if widec = 35 then Tr 8
     else if widec = 37 then Tr 204
     else if widec = 47 then Tr 10
     else if widec = 61 then Tr 203
     else if widec = 63 then Tr 11
     else if widec = 95 then Tr 203
     else if widec = 126 then Tr 203
     else if widec = 606 then Tr 203
     else if widec = 635 then Tr 203
     else if widec = 637 then Tr 203
     else if widec < 64 then
       (if 36 \<le> widec \<and> widec \<le> 59 then Tr 203
       else St 0)
     else if 90 < widec then
       (if 97 \<le> widec \<and> widec \<le> 122 then Tr 203
       else St 0)
     else Tr 203)"

definition http_case_175 :: "int \<Rightarrow> label" where
  "http_case_175 c =
   (if c = 32 then Tr 4
    else if 57 < c then
      (if 65 \<le> c \<and> c \<le> 90 then St 176
      else St 0)
    else if 48 \<le> c then St 176
    else St 0)"

definition http_case_176 :: "int \<Rightarrow> label" where
  "http_case_176 c =
   (if c = 32 then Tr 4
    else if 57 < c then
      (if 65 \<le> c \<and> c \<le> 90 then St 177
      else St 0)
    else if 48 \<le> c then St 177
    else St 0)"

definition http_case_177 :: "int \<Rightarrow> label" where
  "http_case_177 c =
   (if c = 32 then Tr 4
    else if 57 < c then
      (if 65 \<le> c \<and> c \<le> 90 then St 178
      else St 0)
    else if 48 \<le> c then St 178
    else St 0)"

definition http_case_178 :: "int \<Rightarrow> label" where
  "http_case_178 c =
   (if c = 32 then Tr 4
    else if 57 < c then
      (if 65 \<le> c \<and> c \<le> 90 then St 179
      else St 0)
    else if 48 \<le> c then St 179
    else St 0)"

definition http_case_179 :: "int \<Rightarrow> label" where
  "http_case_179 c =
   (if c = 32 then Tr 4
    else if 57 < c then
      (if 65 \<le> c \<and> c \<le> 90 then St 180
      else St 0)
    else if 48 \<le> c then St 180
    else St 0)"

definition http_case_180 :: "int \<Rightarrow> label" where
  "http_case_180 c =
   (if c = 32 then Tr 4
    else if 57 < c then
      (if 65 \<le> c \<and> c \<le> 90 then St 181
      else St 0)
    else if 48 \<le> c then St 181
    else St 0)"

definition http_case_181 :: "int \<Rightarrow> label" where
  "http_case_181 c =
   (if c = 32 then Tr 4
    else if 57 < c then
      (if 65 \<le> c \<and> c \<le> 90 then St 182
      else St 0)
    else if 48 \<le> c then St 182
    else St 0)"

definition http_case_182 :: "int \<Rightarrow> label" where
  "http_case_182 c =
   (if c = 32 then Tr 4
    else if 57 < c then
      (if 65 \<le> c \<and> c \<le> 90 then St 183
      else St 0)
    else if 48 \<le> c then St 183
    else St 0)"

definition http_case_183 :: "int \<Rightarrow> label" where
  "http_case_183 c =
   (if c = 32 then Tr 4
    else if 57 < c then
      (if 65 \<le> c \<and> c \<le> 90 then St 184
      else St 0)
    else if 48 \<le> c then St 184
    else St 0)"

definition http_case_184 :: "int \<Rightarrow> label" where
  "http_case_184 c =
   (if c = 32 then Tr 4
    else if 57 < c then
      (if 65 \<le> c \<and> c \<le> 90 then St 185
      else St 0)
    else if 48 \<le> c then St 185
    else St 0)"

definition http_case_185 :: "int \<Rightarrow> label" where
  "http_case_185 c =
   (if c = 32 then Tr 4
    else if 57 < c then
      (if 65 \<le> c \<and> c \<le> 90 then St 186
      else St 0)
    else if 48 \<le> c then St 186
    else St 0)"

definition http_case_186 :: "int \<Rightarrow> label" where
  "http_case_186 c =
   (if c = 32 then Tr 4
    else if 57 < c then
      (if 65 \<le> c \<and> c \<le> 90 then St 187
      else St 0)
    else if 48 \<le> c then St 187
    else St 0)"

definition http_case_187 :: "int \<Rightarrow> label" where
  "http_case_187 c =
   (if c = 32 then Tr 4
    else if 57 < c then
      (if 65 \<le> c \<and> c \<le> 90 then St 188
      else St 0)
    else if 48 \<le> c then St 188
    else St 0)"

definition http_case_188 :: "int \<Rightarrow> label" where
  "http_case_188 c =
   (if c = 32 then Tr 4
    else if 57 < c then
      (if 65 \<le> c \<and> c \<le> 90 then St 189
      else St 0)
    else if 48 \<le> c then St 189
    else St 0)"

definition http_case_189 :: "int \<Rightarrow> label" where
  "http_case_189 c =
   (if c = 32 then Tr 4
    else if 57 < c then
      (if 65 \<le> c \<and> c \<le> 90 then St 190
      else St 0)
    else if 48 \<le> c then St 190
    else St 0)"

definition http_case_190 :: "int \<Rightarrow> label" where
  "http_case_190 c =
   (if c = 32 then Tr 4
    else if 57 < c then
      (if 65 \<le> c \<and> c \<le> 90 then St 191
      else St 0)
    else if 48 \<le> c then St 191
    else St 0)"

definition http_case_191 :: "int \<Rightarrow> label" where
  "http_case_191 c =
   (if c = 32 then Tr 4
    else if 57 < c then
      (if 65 \<le> c \<and> c \<le> 90 then St 192
      else St 0)
    else if 48 \<le> c then St 192
    else St 0)"

definition http_case_192 :: "int \<Rightarrow> label" where
  "http_case_192 c =
   (if c = 32 then Tr 4
    else if 57 < c then
      (if 65 \<le> c \<and> c \<le> 90 then St 193
      else St 0)
    else if 48 \<le> c then St 193
    else St 0)"

definition http_case_193 :: "int \<Rightarrow> label" where
  "http_case_193 c =
   (if c = 32 then Tr 4
    else St 0)"

definition http_case_194 :: "int \<Rightarrow> label" where
  "http_case_194 c =
   (if c < 48 then
      (if 45 \<le> c \<and> c \<le> 46 then St 195
      else St 0)
    else if 57 < c then
      (if 90 < c then
        (if 97 \<le> c \<and> c \<le> 122 then St 195
        else St 0)
      else if 65 \<le> c then St 195
      else St 0)
    else St 195)"

definition http_case_195 :: "int \<Rightarrow> label" where
  "http_case_195 c =
   (if c = 32 then Tr 224
    else if c = 47 then Tr 224
    else if c = 62 then Tr 224
    else if c < 45 then
      (if 9 \<le> c \<and> c \<le> 13 then Tr 224
      else St 0)
    else if 57 < c then
      (if 90 < c then
        (if 97 \<le> c \<and> c \<le> 122 then St 195
        else St 0)
      else if 65 \<le> c then St 195
      else St 0)
    else St 195)"

definition http_case_196 :: "int \<Rightarrow> label" where
  "http_case_196 c =
   (if c = 62 then St 197
    else St 196)"

definition http_case_197 :: "int \<Rightarrow> label" where
  "http_case_197 c =
   (if c = 0 then Tr 227
    else if c = 62 then St 197
    else St 196)"

definition http_case_198 :: "bool \<Rightarrow> int \<Rightarrow> label" where
  "http_case_198 relaxed c =
    (let widec = http_widec relaxed c in
     if widec = 32 then Tr 228
     else if widec = 33 then St 202
     else if widec = 37 then St 203
     else if widec = 47 then St 208
     else if widec = 59 then St 202
     else if widec = 61 then St 202
     else if widec = 95 then St 202
     else if widec = 126 then St 202
     else if widec = 606 then St 202
     else if widec = 635 then St 202
     else if widec = 637 then St 202
     else if widec < 64 then
       (if 36 \<le> widec \<and> widec \<le> 57 then St 202
       else St 0)
     else if 90 < widec then
       (if 97 \<le> widec \<and> widec \<le> 122 then St 202
       else St 0)
     else St 202)"

definition http_case_199 :: "int \<Rightarrow> label" where
  "http_case_199 c =
   (if c = 123 then Tr 232
    else St 0)"

definition http_case_200 :: "int \<Rightarrow> label" where
  "http_case_200 c =
   (if c = 125 then St 201
    else St 200)"

definition http_case_201 :: "int \<Rightarrow> label" where
  "http_case_201 c =
   (if c = 0 then Tr 235
    else if c = 125 then St 201
    else St 200)"

definition http_case_202 :: "bool \<Rightarrow> int \<Rightarrow> label" where
  "http_case_202 relaxed c =
    (let widec = http_widec relaxed c in
     if widec = 32 then Tr 228
     else if widec = 33 then St 202
     else if widec = 37 then St 203
     else if widec = 47 then St 205
     else if widec = 59 then St 202
     else if widec = 61 then St 202
     else if widec = 95 then St 202
     else if widec = 126 then St 202
     else if widec = 606 then St 202
     else if widec = 635 then St 202
     else if widec = 637 then St 202
     else if widec < 64 then
       (if 36 \<le> widec \<and> widec \<le> 57 then St 202
       else St 0)
     else if 90 < widec then
       (if 97 \<le> widec \<and> widec \<le> 122 then St 202
       else St 0)
     else St 202)"

definition http_case_203 :: "int \<Rightarrow> label" where
  "http_case_203 c =
   (if c < 65 then
      (if 48 \<le> c \<and> c \<le> 57 then St 204
      else St 0)
    else if 70 < c then
      (if 97 \<le> c \<and> c \<le> 102 then St 204
      else St 0)
    else St 204)"

definition http_case_204 :: "int \<Rightarrow> label" where
  "http_case_204 c =
   (if c < 65 then
      (if 48 \<le> c \<and> c \<le> 57 then St 202
      else St 0)
    else if 70 < c then
      (if 97 \<le> c \<and> c \<le> 102 then St 202
      else St 0)
    else St 202)"

definition http_case_205 :: "bool \<Rightarrow> int \<Rightarrow> label" where
  "http_case_205 relaxed c =
    (let widec = http_widec relaxed c in
     if widec = 32 then Tr 228
     else if widec = 33 then St 205
     else if widec = 37 then St 206
     else if widec = 61 then St 205
     else if widec = 95 then St 205
     else if widec = 126 then St 205
     else if widec = 606 then St 205
     else if widec = 635 then St 205
     else if widec = 637 then St 205
     else if widec < 64 then
       (if 36 \<le> widec \<and> widec \<le> 59 then St 205
       else St 0)
     else if 90 < widec then
       (if 97 \<le> widec \<and> widec \<le> 122 then St 205
       else St 0)
     else St 205)"

definition http_case_206 :: "int \<Rightarrow> label" where
  "http_case_206 c =
   (if c < 65 then
      (if 48 \<le> c \<and> c \<le> 57 then St 207
      else St 0)
    else if 70 < c then
      (if 97 \<le> c \<and> c \<le> 102 then St 207
      else St 0)
    else St 207)"

definition http_case_207 :: "int \<Rightarrow> label" where
  "http_case_207 c =
   (if c < 65 then
      (if 48 \<le> c \<and> c \<le> 57 then St 205
      else St 0)
    else if 70 < c then
      (if 97 \<le> c \<and> c \<le> 102 then St 205
      else St 0)
    else St 205)"

definition http_case_208 :: "bool \<Rightarrow> int \<Rightarrow> label" where
  "http_case_208 relaxed c =
    (let widec = http_widec relaxed c in
     if widec = 32 then Tr 228
     else if widec = 33 then St 205
     else if widec = 37 then St 206
     else if widec = 47 then St 209
     else if widec = 61 then St 205
     else if widec = 95 then St 205
     else if widec = 126 then St 205
     else if widec = 606 then St 205
     else if widec = 635 then St 205
     else if widec = 637 then St 205
     else if widec < 64 then
       (if 36 \<le> widec \<and> widec \<le> 59 then St 205
       else St 0)
     else if 90 < widec then
       (if 97 \<le> widec \<and> widec \<le> 122 then St 205
       else St 0)
     else St 205)"

definition http_case_209 :: "bool \<Rightarrow> int \<Rightarrow> label" where
  "http_case_209 relaxed c =
    (let widec = http_widec relaxed c in
     if widec = 32 then Tr 228
     else if widec = 33 then St 210
     else if widec = 37 then St 211
     else if widec = 47 then St 205
     else if widec = 58 then St 213
     else if widec = 61 then St 210
     else if widec = 64 then St 217
     else if widec = 91 then St 222
     else if widec = 95 then St 210
     else if widec = 126 then St 210
     else if widec = 606 then St 210
     else if widec = 635 then St 210
     else if widec = 637 then St 210
     else if widec < 65 then
       (if 36 \<le> widec \<and> widec \<le> 59 then St 210
       else St 0)
     else if 90 < widec then
       (if 97 \<le> widec \<and> widec \<le> 122 then St 210
       else St 0)
     else St 210)"

definition http_case_210 :: "bool \<Rightarrow> int \<Rightarrow> label" where
  "http_case_210 relaxed c =
    (let widec = http_widec relaxed c in
     if widec = 32 then Tr 228
     else if widec = 33 then St 210
     else if widec = 37 then St 211
     else if widec = 47 then St 205
     else if widec = 58 then St 213
     else if widec = 61 then St 210
     else if widec = 64 then St 217
     else if widec = 95 then St 210
     else if widec = 126 then St 210
     else if widec = 606 then St 210
     else if widec = 635 then St 210
     else if widec = 637 then St 210
     else if widec < 65 then
       (if 36 \<le> widec \<and> widec \<le> 59 then St 210
       else St 0)
     else if 90 < widec then
       (if 97 \<le> widec \<and> widec \<le> 122 then St 210
       else St 0)
     else St 210)"

definition http_case_211 :: "int \<Rightarrow> label" where
  "http_case_211 c =
   (if c < 65 then
      (if 48 \<le> c \<and> c \<le> 57 then St 212
      else St 0)
    else if 70 < c then
      (if 97 \<le> c \<and> c \<le> 102 then St 212
      else St 0)
    else St 212)"

definition http_case_212 :: "int \<Rightarrow> label" where
  "http_case_212 c =
   (if c < 65 then
      (if 48 \<le> c \<and> c \<le> 57 then St 210
      else St 0)
    else if 70 < c then
      (if 97 \<le> c \<and> c \<le> 102 then St 210
      else St 0)
    else St 210)"

definition http_case_213 :: "bool \<Rightarrow> int \<Rightarrow> label" where
  "http_case_213 relaxed c =
    (let widec = http_widec relaxed c in
     if widec = 32 then Tr 228
     else if widec = 33 then St 214
     else if widec = 37 then St 215
     else if widec = 47 then St 205
     else if widec = 61 then St 214
     else if widec = 64 then St 217
     else if widec = 95 then St 214
     else if widec = 126 then St 214
     else if widec = 606 then St 214
     else if widec = 635 then St 214
     else if widec = 637 then St 214
     else if widec < 58 then
       (if 46 < widec then
         (if 48 \<le> widec \<and> widec \<le> 57 then St 213
         else St 0)
       else if 36 \<le> widec then St 214
       else St 0)
     else if 59 < widec then
       (if 90 < widec then
         (if 97 \<le> widec \<and> widec \<le> 122 then St 214
         else St 0)
       else if 65 \<le> widec then St 214
       else St 0)
     else St 214)"

definition http_case_214 :: "bool \<Rightarrow> int \<Rightarrow> label" where
  "http_case_214 relaxed c =
    (let widec = http_widec relaxed c in
     if widec = 33 then St 214
     else if widec = 37 then St 215
     else if widec = 61 then St 214
     else if widec = 64 then St 217
     else if widec = 95 then St 214
     else if widec = 126 then St 214
     else if widec = 606 then St 214
     else if widec = 635 then St 214
     else if widec = 637 then St 214
     else if widec < 48 then
       (if 36 \<le> widec \<and> widec \<le> 46 then St 214
       else St 0)
     else if 59 < widec then
       (if 90 < widec then
         (if 97 \<le> widec \<and> widec \<le> 122 then St 214
         else St 0)
       else if 65 \<le> widec then St 214
       else St 0)
     else St 214)"

definition http_case_215 :: "int \<Rightarrow> label" where
  "http_case_215 c =
   (if c < 65 then
      (if 48 \<le> c \<and> c \<le> 57 then St 216
      else St 0)
    else if 70 < c then
      (if 97 \<le> c \<and> c \<le> 102 then St 216
      else St 0)
    else St 216)"

definition http_case_216 :: "int \<Rightarrow> label" where
  "http_case_216 c =
   (if c < 65 then
      (if 48 \<le> c \<and> c \<le> 57 then St 214
      else St 0)
    else if 70 < c then
      (if 97 \<le> c \<and> c \<le> 102 then St 214
      else St 0)
    else St 214)"

definition http_case_217 :: "bool \<Rightarrow> int \<Rightarrow> label" where
  "http_case_217 relaxed c =
    (let widec = http_widec relaxed c in
     if widec = 32 then Tr 228
     else if widec = 33 then St 218
     else if widec = 37 then St 219
     else if widec = 47 then St 205
     else if widec = 58 then St 221
     else if widec = 61 then St 218
     else if widec = 91 then St 222
     else if widec = 95 then St 218
     else if widec = 126 then St 218
     else if widec = 606 then St 218
     else if widec = 635 then St 218
     else if widec = 637 then St 218
     else if widec < 65 then
       (if 36 \<le> widec \<and> widec \<le> 59 then St 218
       else St 0)
     else if 90 < widec then
       (if 97 \<le> widec \<and> widec \<le> 122 then St 218
       else St 0)
     else St 218)"

definition http_case_218 :: "bool \<Rightarrow> int \<Rightarrow> label" where
  "http_case_218 relaxed c =
    (let widec = http_widec relaxed c in
     if widec = 32 then Tr 228
     else if widec = 33 then St 218
     else if widec = 37 then St 219
     else if widec = 47 then St 205
     else if widec = 58 then St 221
     else if widec = 61 then St 218
     else if widec = 95 then St 218
     else if widec = 126 then St 218
     else if widec = 606 then St 218
     else if widec = 635 then St 218
     else if widec = 637 then St 218
     else if widec < 65 then
       (if 36 \<le> widec \<and> widec \<le> 59 then St 218
       else St 0)
     else if 90 < widec then
       (if 97 \<le> widec \<and> widec \<le> 122 then St 218
       else St 0)
     else St 218)"

definition http_case_219 :: "int \<Rightarrow> label" where
  "http_case_219 c =
   (if c < 65 then
      (if 48 \<le> c \<and> c \<le> 57 then St 220
      else St 0)
    else if 70 < c then
      (if 97 \<le> c \<and> c \<le> 102 then St 220
      else St 0)
    else St 220)"

definition http_case_220 :: "int \<Rightarrow> label" where
  "http_case_220 c =
   (if c < 65 then
      (if 48 \<le> c \<and> c \<le> 57 then St 218
      else St 0)
    else if 70 < c then
      (if 97 \<le> c \<and> c \<le> 102 then St 218
      else St 0)
    else St 218)"

definition http_case_221 :: "int \<Rightarrow> label" where
  "http_case_221 c =
   (if c = 32 then Tr 228
    else if c = 47 then St 205
    else if 48 \<le> c \<and> c \<le> 57 then St 221
    else St 0)"

definition http_case_222 :: "int \<Rightarrow> label" where
  "http_case_222 c =
   (if c = 6 then St 223
    else if c = 58 then St 342
    else if c = 118 then St 344
    else if c < 65 then
      (if 48 \<le> c \<and> c \<le> 57 then St 266
      else St 0)
    else if 70 < c then
      (if 97 \<le> c \<and> c \<le> 102 then St 266
      else St 0)
    else St 266)"

definition http_case_223 :: "int \<Rightarrow> label" where
  "http_case_223 c =
   (if c < 65 then
      (if 48 \<le> c \<and> c \<le> 57 then St 224
      else St 0)
    else if 70 < c then
      (if 97 \<le> c \<and> c \<le> 102 then St 224
      else St 0)
    else St 224)"

definition http_case_224 :: "int \<Rightarrow> label" where
  "http_case_224 c =
   (if c = 58 then St 228
    else if c < 65 then
      (if 48 \<le> c \<and> c \<le> 57 then St 225
      else St 0)
    else if 70 < c then
      (if 97 \<le> c \<and> c \<le> 102 then St 225
      else St 0)
    else St 225)"

definition http_case_225 :: "int \<Rightarrow> label" where
  "http_case_225 c =
   (if c = 58 then St 228
    else if c < 65 then
      (if 48 \<le> c \<and> c \<le> 57 then St 226
      else St 0)
    else if 70 < c then
      (if 97 \<le> c \<and> c \<le> 102 then St 226
      else St 0)
    else St 226)"

definition http_case_226 :: "int \<Rightarrow> label" where
  "http_case_226 c =
   (if c = 58 then St 228
    else if c < 65 then
      (if 48 \<le> c \<and> c \<le> 57 then St 227
      else St 0)
    else if 70 < c then
      (if 97 \<le> c \<and> c \<le> 102 then St 227
      else St 0)
    else St 227)"

definition http_case_227 :: "int \<Rightarrow> label" where
  "http_case_227 c =
   (if c = 58 then St 228
    else St 0)"

definition http_case_228 :: "int \<Rightarrow> label" where
  "http_case_228 c =
   (if c = 49 then St 259
    else if c = 50 then St 262
    else if c < 65 then
      (if 48 \<le> c \<and> c \<le> 57 then St 229
      else St 0)
    else if 70 < c then
      (if 97 \<le> c \<and> c \<le> 102 then St 265
      else St 0)
    else St 265)"

definition http_case_229 :: "int \<Rightarrow> label" where
  "http_case_229 c =
   (if c = 46 then St 230
    else if c = 58 then St 255
    else if c < 65 then
      (if 48 \<le> c \<and> c \<le> 57 then St 252
      else St 0)
    else if 70 < c then
      (if 97 \<le> c \<and> c \<le> 102 then St 252
      else St 0)
    else St 252)"

definition http_case_230 :: "int \<Rightarrow> label" where
  "http_case_230 c =
   (if c = 49 then St 247
    else if c = 50 then St 249
    else if 48 \<le> c \<and> c \<le> 57 then St 231
    else St 0)"

definition http_case_231 :: "int \<Rightarrow> label" where
  "http_case_231 c =
   (if c = 46 then St 232
    else St 0)"

definition http_case_232 :: "int \<Rightarrow> label" where
  "http_case_232 c =
   (if c = 49 then St 242
    else if c = 50 then St 244
    else if 48 \<le> c \<and> c \<le> 57 then St 233
    else St 0)"

definition http_case_233 :: "int \<Rightarrow> label" where
  "http_case_233 c =
   (if c = 46 then St 234
    else St 0)"

definition http_case_234 :: "int \<Rightarrow> label" where
  "http_case_234 c =
   (if c = 49 then St 237
    else if c = 50 then St 239
    else if 48 \<le> c \<and> c \<le> 57 then St 235
    else St 0)"

definition http_case_235 :: "int \<Rightarrow> label" where
  "http_case_235 c =
   (if c = 93 then St 236
    else St 0)"

definition http_case_236 :: "int \<Rightarrow> label" where
  "http_case_236 c =
   (if c = 32 then Tr 228
    else if c = 47 then St 205
    else if c = 58 then St 221
    else St 0)"

definition http_case_237 :: "int \<Rightarrow> label" where
  "http_case_237 c =
   (if c = 93 then St 236
    else if 48 \<le> c \<and> c \<le> 57 then St 238
    else St 0)"

definition http_case_238 :: "int \<Rightarrow> label" where
  "http_case_238 c =
   (if c = 93 then St 236
    else if 48 \<le> c \<and> c \<le> 57 then St 235
    else St 0)"

definition http_case_239 :: "int \<Rightarrow> label" where
  "http_case_239 c =
   (if c = 48 then St 240
    else if c = 53 then St 241
    else if c = 93 then St 236
    else St 0)"

definition http_case_240 :: "int \<Rightarrow> label" where
  "http_case_240 c =
   (if 48 \<le> c \<and> c \<le> 57 then St 235
    else St 0)"

definition http_case_241 :: "int \<Rightarrow> label" where
  "http_case_241 c =
   (if c = 48 then St 235
    else St 0)"

definition http_case_242 :: "int \<Rightarrow> label" where
  "http_case_242 c =
   (if c = 46 then St 234
    else if 48 \<le> c \<and> c \<le> 57 then St 243
    else St 0)"

definition http_case_243 :: "int \<Rightarrow> label" where
  "http_case_243 c =
   (if c = 46 then St 234
    else if 48 \<le> c \<and> c \<le> 57 then St 233
    else St 0)"

definition http_case_244 :: "int \<Rightarrow> label" where
  "http_case_244 c =
   (if c = 46 then St 234
    else if c = 48 then St 245
    else if c = 53 then St 246
    else St 0)"

definition http_case_245 :: "int \<Rightarrow> label" where
  "http_case_245 c =
   (if 48 \<le> c \<and> c \<le> 57 then St 233
    else St 0)"

definition http_case_246 :: "int \<Rightarrow> label" where
  "http_case_246 c =
   (if c = 48 then St 233
    else St 0)"

definition http_case_247 :: "int \<Rightarrow> label" where
  "http_case_247 c =
   (if c = 46 then St 232
    else if 48 \<le> c \<and> c \<le> 57 then St 248
    else St 0)"

definition http_case_248 :: "int \<Rightarrow> label" where
  "http_case_248 c =
   (if c = 46 then St 232
    else if 48 \<le> c \<and> c \<le> 57 then St 231
    else St 0)"

definition http_case_249 :: "int \<Rightarrow> label" where
  "http_case_249 c =
   (if c = 46 then St 232
    else if c = 48 then St 250
    else if c = 53 then St 251
    else St 0)"

definition http_case_250 :: "int \<Rightarrow> label" where
  "http_case_250 c =
   (if 48 \<le> c \<and> c \<le> 57 then St 231
    else St 0)"

definition http_case_251 :: "int \<Rightarrow> label" where
  "http_case_251 c =
   (if c = 48 then St 231
    else St 0)"

definition http_case_252 :: "int \<Rightarrow> label" where
  "http_case_252 c =
   (if c = 58 then St 255
    else if c < 65 then
      (if 48 \<le> c \<and> c \<le> 57 then St 253
      else St 0)
    else if 70 < c then
      (if 97 \<le> c \<and> c \<le> 102 then St 253
      else St 0)
    else St 253)"

definition http_case_253 :: "int \<Rightarrow> label" where
  "http_case_253 c =
   (if c = 58 then St 255
    else if c < 65 then
      (if 48 \<le> c \<and> c \<le> 57 then St 254
      else St 0)
    else if 70 < c then
      (if 97 \<le> c \<and> c \<le> 102 then St 254
      else St 0)
    else St 254)"

definition http_case_254 :: "int \<Rightarrow> label" where
  "http_case_254 c =
   (if c = 58 then St 255
    else St 0)"

definition http_case_255 :: "int \<Rightarrow> label" where
  "http_case_255 c =
   (if c < 65 then
      (if 48 \<le> c \<and> c \<le> 57 then St 256
      else St 0)
    else if 70 < c then
      (if 97 \<le> c \<and> c \<le> 102 then St 256
      else St 0)
    else St 256)"

definition http_case_256 :: "int \<Rightarrow> label" where
  "http_case_256 c =
   (if c = 93 then St 236
    else if c < 65 then
      (if 48 \<le> c \<and> c \<le> 57 then St 257
      else St 0)
    else if 70 < c then
      (if 97 \<le> c \<and> c \<le> 102 then St 257
      else St 0)
    else St 257)"

definition http_case_257 :: "int \<Rightarrow> label" where
  "http_case_257 c =
   (if c = 93 then St 236
    else if c < 65 then
      (if 48 \<le> c \<and> c \<le> 57 then St 258
      else St 0)
    else if 70 < c then
      (if 97 \<le> c \<and> c \<le> 102 then St 258
      else St 0)
    else St 258)"

definition http_case_258 :: "int \<Rightarrow> label" where
  "http_case_258 c =
   (if c = 93 then St 236
    else if c < 65 then
      (if 48 \<le> c \<and> c \<le> 57 then St 235
      else St 0)
    else if 70 < c then
      (if 97 \<le> c \<and> c \<le> 102 then St 235
      else St 0)
    else St 235)"

definition http_case_259 :: "int \<Rightarrow> label" where
  "http_case_259 c =
   (if c = 46 then St 230
    else if c = 58 then St 255
    else if c < 65 then
      (if 48 \<le> c \<and> c \<le> 57 then St 260
      else St 0)
    else if 70 < c then
      (if 97 \<le> c \<and> c \<le> 102 then St 252
      else St 0)
    else St 252)"

definition http_case_260 :: "int \<Rightarrow> label" where
  "http_case_260 c =
   (if c = 46 then St 230
    else if c = 58 then St 255
    else if c < 65 then
      (if 48 \<le> c \<and> c \<le> 57 then St 261
      else St 0)
    else if 70 < c then
      (if 97 \<le> c \<and> c \<le> 102 then St 253
      else St 0)
    else St 253)"

definition http_case_261 :: "int \<Rightarrow> label" where
  "http_case_261 c =
   (if c = 46 then St 230
    else if c = 58 then St 255
    else if c < 65 then
      (if 48 \<le> c \<and> c \<le> 57 then St 254
      else St 0)
    else if 70 < c then
      (if 97 \<le> c \<and> c \<le> 102 then St 254
      else St 0)
    else St 254)"

definition http_case_262 :: "int \<Rightarrow> label" where
  "http_case_262 c =
   (if c = 46 then St 230
    else if c = 48 then St 263
    else if c = 53 then St 264
    else if c = 58 then St 255
    else if c < 65 then
      (if 49 \<le> c \<and> c \<le> 57 then St 252
      else St 0)
    else if 70 < c then
      (if 97 \<le> c \<and> c \<le> 102 then St 252
      else St 0)
    else St 252)"

definition http_case_263 :: "int \<Rightarrow> label" where
  "http_case_263 c =
   (if c = 58 then St 255
    else if c < 65 then
      (if 48 \<le> c \<and> c \<le> 57 then St 261
      else St 0)
    else if 70 < c then
      (if 97 \<le> c \<and> c \<le> 102 then St 253
      else St 0)
    else St 253)"

definition http_case_264 :: "int \<Rightarrow> label" where
  "http_case_264 c =
   (if c = 48 then St 261
    else if c = 58 then St 255
    else if c < 65 then
      (if 49 \<le> c \<and> c \<le> 57 then St 253
      else St 0)
    else if 70 < c then
      (if 97 \<le> c \<and> c \<le> 102 then St 253
      else St 0)
    else St 253)"

definition http_case_265 :: "int \<Rightarrow> label" where
  "http_case_265 c =
   (if c = 58 then St 255
    else if c < 65 then
      (if 48 \<le> c \<and> c \<le> 57 then St 252
      else St 0)
    else if 70 < c then
      (if 97 \<le> c \<and> c \<le> 102 then St 252
      else St 0)
    else St 252)"

definition http_case_266 :: "int \<Rightarrow> label" where
  "http_case_266 c =
   (if c = 58 then St 270
    else if c < 65 then
      (if 48 \<le> c \<and> c \<le> 57 then St 267
      else St 0)
    else if 70 < c then
      (if 97 \<le> c \<and> c \<le> 102 then St 267
      else St 0)
    else St 267)"

definition http_case_267 :: "int \<Rightarrow> label" where
  "http_case_267 c =
   (if c = 58 then St 270
    else if c < 65 then
      (if 48 \<le> c \<and> c \<le> 57 then St 268
      else St 0)
    else if 70 < c then
      (if 97 \<le> c \<and> c \<le> 102 then St 268
      else St 0)
    else St 268)"

definition http_case_268 :: "int \<Rightarrow> label" where
  "http_case_268 c =
   (if c = 58 then St 270
    else if c < 65 then
      (if 48 \<le> c \<and> c \<le> 57 then St 269
      else St 0)
    else if 70 < c then
      (if 97 \<le> c \<and> c \<le> 102 then St 269
      else St 0)
    else St 269)"

definition http_case_269 :: "int \<Rightarrow> label" where
  "http_case_269 c =
   (if c = 58 then St 270
    else St 0)"

definition http_case_270 :: "int \<Rightarrow> label" where
  "http_case_270 c =
   (if c = 58 then St 341
    else if c < 65 then
      (if 48 \<le> c \<and> c \<le> 57 then St 271
      else St 0)
    else if 70 < c then
      (if 97 \<le> c \<and> c \<le> 102 then St 271
      else St 0)
    else St 271)"

definition http_case_271 :: "int \<Rightarrow> label" where
  "http_case_271 c =
   (if c = 58 then St 275
    else if c < 65 then
      (if 48 \<le> c \<and> c \<le> 57 then St 272
      else St 0)
    else if 70 < c then
      (if 97 \<le> c \<and> c \<le> 102 then St 272
      else St 0)
    else St 272)"

definition http_case_272 :: "int \<Rightarrow> label" where
  "http_case_272 c =
   (if c = 58 then St 275
    else if c < 65 then
      (if 48 \<le> c \<and> c \<le> 57 then St 273
      else St 0)
    else if 70 < c then
      (if 97 \<le> c \<and> c \<le> 102 then St 273
      else St 0)
    else St 273)"

definition http_case_273 :: "int \<Rightarrow> label" where
  "http_case_273 c =
   (if c = 58 then St 275
    else if c < 65 then
      (if 48 \<le> c \<and> c \<le> 57 then St 274
      else St 0)
    else if 70 < c then
      (if 97 \<le> c \<and> c \<le> 102 then St 274
      else St 0)
    else St 274)"

definition http_case_274 :: "int \<Rightarrow> label" where
  "http_case_274 c =
   (if c = 58 then St 275
    else St 0)"

definition http_case_275 :: "int \<Rightarrow> label" where
  "http_case_275 c =
   (if c = 58 then St 340
    else if c < 65 then
      (if 48 \<le> c \<and> c \<le> 57 then St 276
      else St 0)
    else if 70 < c then
      (if 97 \<le> c \<and> c \<le> 102 then St 276
      else St 0)
    else St 276)"

definition http_case_276 :: "int \<Rightarrow> label" where
  "http_case_276 c =
   (if c = 58 then St 280
    else if c < 65 then
      (if 48 \<le> c \<and> c \<le> 57 then St 277
      else St 0)
    else if 70 < c then
      (if 97 \<le> c \<and> c \<le> 102 then St 277
      else St 0)
    else St 277)"

definition http_case_277 :: "int \<Rightarrow> label" where
  "http_case_277 c =
   (if c = 58 then St 280
    else if c < 65 then
      (if 48 \<le> c \<and> c \<le> 57 then St 278
      else St 0)
    else if 70 < c then
      (if 97 \<le> c \<and> c \<le> 102 then St 278
      else St 0)
    else St 278)"

definition http_case_278 :: "int \<Rightarrow> label" where
  "http_case_278 c =
   (if c = 58 then St 280
    else if c < 65 then
      (if 48 \<le> c \<and> c \<le> 57 then St 279
      else St 0)
    else if 70 < c then
      (if 97 \<le> c \<and> c \<le> 102 then St 279
      else St 0)
    else St 279)"

definition http_case_279 :: "int \<Rightarrow> label" where
  "http_case_279 c =
   (if c = 58 then St 280
    else St 0)"

definition http_case_280 :: "int \<Rightarrow> label" where
  "http_case_280 c =
   (if c = 58 then St 339
    else if c < 65 then
      (if 48 \<le> c \<and> c \<le> 57 then St 281
      else St 0)
    else if 70 < c then
      (if 97 \<le> c \<and> c \<le> 102 then St 281
      else St 0)
    else St 281)"

definition http_case_281 :: "int \<Rightarrow> label" where
  "http_case_281 c =
   (if c = 58 then St 285
    else if c < 65 then
      (if 48 \<le> c \<and> c \<le> 57 then St 282
      else St 0)
    else if 70 < c then
      (if 97 \<le> c \<and> c \<le> 102 then St 282
      else St 0)
    else St 282)"

definition http_case_282 :: "int \<Rightarrow> label" where
  "http_case_282 c =
   (if c = 58 then St 285
    else if c < 65 then
      (if 48 \<le> c \<and> c \<le> 57 then St 283
      else St 0)
    else if 70 < c then
      (if 97 \<le> c \<and> c \<le> 102 then St 283
      else St 0)
    else St 283)"

definition http_case_283 :: "int \<Rightarrow> label" where
  "http_case_283 c =
   (if c = 58 then St 285
    else if c < 65 then
      (if 48 \<le> c \<and> c \<le> 57 then St 284
      else St 0)
    else if 70 < c then
      (if 97 \<le> c \<and> c \<le> 102 then St 284
      else St 0)
    else St 284)"

definition http_case_284 :: "int \<Rightarrow> label" where
  "http_case_284 c =
   (if c = 58 then St 285
    else St 0)"

definition http_case_285 :: "int \<Rightarrow> label" where
  "http_case_285 c =
   (if c = 58 then St 338
    else if c < 65 then
      (if 48 \<le> c \<and> c \<le> 57 then St 286
      else St 0)
    else if 70 < c then
      (if 97 \<le> c \<and> c \<le> 102 then St 286
      else St 0)
    else St 286)"

definition http_case_286 :: "int \<Rightarrow> label" where
  "http_case_286 c =
   (if c = 58 then St 290
    else if c < 65 then
      (if 48 \<le> c \<and> c \<le> 57 then St 287
      else St 0)
    else if 70 < c then
      (if 97 \<le> c \<and> c \<le> 102 then St 287
      else St 0)
    else St 287)"

definition http_case_287 :: "int \<Rightarrow> label" where
  "http_case_287 c =
   (if c = 58 then St 290
    else if c < 65 then
      (if 48 \<le> c \<and> c \<le> 57 then St 288
      else St 0)
    else if 70 < c then
      (if 97 \<le> c \<and> c \<le> 102 then St 288
      else St 0)
    else St 288)"

definition http_case_288 :: "int \<Rightarrow> label" where
  "http_case_288 c =
   (if c = 58 then St 290
    else if c < 65 then
      (if 48 \<le> c \<and> c \<le> 57 then St 289
      else St 0)
    else if 70 < c then
      (if 97 \<le> c \<and> c \<le> 102 then St 289
      else St 0)
    else St 289)"

definition http_case_289 :: "int \<Rightarrow> label" where
  "http_case_289 c =
   (if c = 58 then St 290
    else St 0)"

definition http_case_290 :: "int \<Rightarrow> label" where
  "http_case_290 c =
   (if c = 58 then St 326
    else if c < 65 then
      (if 48 \<le> c \<and> c \<le> 57 then St 291
      else St 0)
    else if 70 < c then
      (if 97 \<le> c \<and> c \<le> 102 then St 291
      else St 0)
    else St 291)"

definition http_case_291 :: "int \<Rightarrow> label" where
  "http_case_291 c =
   (if c = 58 then St 295
    else if c < 65 then
      (if 48 \<le> c \<and> c \<le> 57 then St 292
      else St 0)
    else if 70 < c then
      (if 97 \<le> c \<and> c \<le> 102 then St 292
      else St 0)
    else St 292)"

definition http_case_292 :: "int \<Rightarrow> label" where
  "http_case_292 c =
   (if c = 58 then St 295
    else if c < 65 then
      (if 48 \<le> c \<and> c \<le> 57 then St 293
      else St 0)
    else if 70 < c then
      (if 97 \<le> c \<and> c \<le> 102 then St 293
      else St 0)
    else St 293)"

definition http_case_293 :: "int \<Rightarrow> label" where
  "http_case_293 c =
   (if c = 58 then St 295
    else if c < 65 then
      (if 48 \<le> c \<and> c \<le> 57 then St 294
      else St 0)
    else if 70 < c then
      (if 97 \<le> c \<and> c \<le> 102 then St 294
      else St 0)
    else St 294)"

definition http_case_294 :: "int \<Rightarrow> label" where
  "http_case_294 c =
   (if c = 58 then St 295
    else St 0)"

definition http_case_295 :: "int \<Rightarrow> label" where
  "http_case_295 c =
   (if c = 58 then St 325
    else if c < 65 then
      (if 48 \<le> c \<and> c \<le> 57 then St 296
      else St 0)
    else if 70 < c then
      (if 97 \<le> c \<and> c \<le> 102 then St 296
      else St 0)
    else St 296)"

definition http_case_296 :: "int \<Rightarrow> label" where
  "http_case_296 c =
   (if c = 58 then St 300
    else if c < 65 then
      (if 48 \<le> c \<and> c \<le> 57 then St 297
      else St 0)
    else if 70 < c then
      (if 97 \<le> c \<and> c \<le> 102 then St 297
      else St 0)
    else St 297)"

definition http_case_297 :: "int \<Rightarrow> label" where
  "http_case_297 c =
   (if c = 58 then St 300
    else if c < 65 then
      (if 48 \<le> c \<and> c \<le> 57 then St 298
      else St 0)
    else if 70 < c then
      (if 97 \<le> c \<and> c \<le> 102 then St 298
      else St 0)
    else St 298)"

definition http_case_298 :: "int \<Rightarrow> label" where
  "http_case_298 c =
   (if c = 58 then St 300
    else if c < 65 then
      (if 48 \<le> c \<and> c \<le> 57 then St 299
      else St 0)
    else if 70 < c then
      (if 97 \<le> c \<and> c \<le> 102 then St 299
      else St 0)
    else St 299)"

definition http_case_299 :: "int \<Rightarrow> label" where
  "http_case_299 c =
   (if c = 58 then St 300
    else St 0)"

definition http_case_300 :: "int \<Rightarrow> label" where
  "http_case_300 c =
   (if c = 58 then St 301
    else if c < 65 then
      (if 48 \<le> c \<and> c \<le> 57 then St 296
      else St 0)
    else if 70 < c then
      (if 97 \<le> c \<and> c \<le> 102 then St 296
      else St 0)
    else St 296)"

definition http_case_301 :: "int \<Rightarrow> label" where
  "http_case_301 c =
   (if c = 49 then St 318
    else if c = 50 then St 321
    else if c = 93 then St 236
    else if c < 48 then
      (if 2 \<le> c \<and> c \<le> 3 then St 223
      else St 0)
    else if 57 < c then
      (if 70 < c then
        (if 97 \<le> c \<and> c \<le> 102 then St 324
        else St 0)
      else if 65 \<le> c then St 324
      else St 0)
    else St 302)"

definition http_case_302 :: "int \<Rightarrow> label" where
  "http_case_302 c =
   (if c = 46 then St 230
    else if c = 58 then St 306
    else if c = 93 then St 236
    else if c < 65 then
      (if 48 \<le> c \<and> c \<le> 57 then St 303
      else St 0)
    else if 70 < c then
      (if 97 \<le> c \<and> c \<le> 102 then St 303
      else St 0)
    else St 303)"

definition http_case_303 :: "int \<Rightarrow> label" where
  "http_case_303 c =
   (if c = 58 then St 306
    else if c = 93 then St 236
    else if c < 65 then
      (if 48 \<le> c \<and> c \<le> 57 then St 304
      else St 0)
    else if 70 < c then
      (if 97 \<le> c \<and> c \<le> 102 then St 304
      else St 0)
    else St 304)"

definition http_case_304 :: "int \<Rightarrow> label" where
  "http_case_304 c =
   (if c = 58 then St 306
    else if c = 93 then St 236
    else if c < 65 then
      (if 48 \<le> c \<and> c \<le> 57 then St 305
      else St 0)
    else if 70 < c then
      (if 97 \<le> c \<and> c \<le> 102 then St 305
      else St 0)
    else St 305)"

definition http_case_305 :: "int \<Rightarrow> label" where
  "http_case_305 c =
   (if c = 58 then St 306
    else if c = 93 then St 236
    else St 0)"

definition http_case_306 :: "int \<Rightarrow> label" where
  "http_case_306 c =
   (if c = 49 then St 311
    else if c = 50 then St 314
    else if c < 65 then
      (if 48 \<le> c \<and> c \<le> 57 then St 307
      else St 0)
    else if 70 < c then
      (if 97 \<le> c \<and> c \<le> 102 then St 317
      else St 0)
    else St 317)"

definition http_case_307 :: "int \<Rightarrow> label" where
  "http_case_307 c =
   (if c = 46 then St 230
    else if c = 58 then St 255
    else if c = 93 then St 236
    else if c < 65 then
      (if 48 \<le> c \<and> c \<le> 57 then St 308
      else St 0)
    else if 70 < c then
      (if 97 \<le> c \<and> c \<le> 102 then St 308
      else St 0)
    else St 308)"

definition http_case_308 :: "int \<Rightarrow> label" where
  "http_case_308 c =
   (if c = 58 then St 255
    else if c = 93 then St 236
    else if c < 65 then
      (if 48 \<le> c \<and> c \<le> 57 then St 309
      else St 0)
    else if 70 < c then
      (if 97 \<le> c \<and> c \<le> 102 then St 309
      else St 0)
    else St 309)"

definition http_case_309 :: "int \<Rightarrow> label" where
  "http_case_309 c =
   (if c = 58 then St 255
    else if c = 93 then St 236
    else if c < 65 then
      (if 48 \<le> c \<and> c \<le> 57 then St 310
      else St 0)
    else if 70 < c then
      (if 97 \<le> c \<and> c \<le> 102 then St 310
      else St 0)
    else St 310)"

definition http_case_310 :: "int \<Rightarrow> label" where
  "http_case_310 c =
   (if c = 58 then St 255
    else if c = 93 then St 236
    else St 0)"

definition http_case_311 :: "int \<Rightarrow> label" where
  "http_case_311 c =
   (if c = 46 then St 230
    else if c = 58 then St 255
    else if c = 93 then St 236
    else if c < 65 then
      (if 48 \<le> c \<and> c \<le> 57 then St 312
      else St 0)
    else if 70 < c then
      (if 97 \<le> c \<and> c \<le> 102 then St 308
      else St 0)
    else St 308)"

definition http_case_312 :: "int \<Rightarrow> label" where
  "http_case_312 c =
   (if c = 46 then St 230
    else if c = 58 then St 255
    else if c = 93 then St 236
    else if c < 65 then
      (if 48 \<le> c \<and> c \<le> 57 then St 313
      else St 0)
    else if 70 < c then
      (if 97 \<le> c \<and> c \<le> 102 then St 309
      else St 0)
    else St 309)"

definition http_case_313 :: "int \<Rightarrow> label" where
  "http_case_313 c =
   (if c = 46 then St 230
    else if c = 58 then St 255
    else if c = 93 then St 236
    else if c < 65 then
      (if 48 \<le> c \<and> c \<le> 57 then St 310
      else St 0)
    else if 70 < c then
      (if 97 \<le> c \<and> c \<le> 102 then St 310
      else St 0)
    else St 310)"

definition http_case_314 :: "int \<Rightarrow> label" where
  "http_case_314 c =
   (if c = 46 then St 230
    else if c = 48 then St 315
    else if c = 53 then St 316
    else if c = 58 then St 255
    else if c = 93 then St 236
    else if c < 65 then
      (if 49 \<le> c \<and> c \<le> 57 then St 308
      else St 0)
    else if 70 < c then
      (if 97 \<le> c \<and> c \<le> 102 then St 308
      else St 0)
    else St 308)"

definition http_case_315 :: "int \<Rightarrow> label" where
  "http_case_315 c =
   (if c = 58 then St 255
    else if c = 93 then St 236
    else if c < 65 then
      (if 48 \<le> c \<and> c \<le> 57 then St 313
      else St 0)
    else if 70 < c then
      (if 97 \<le> c \<and> c \<le> 102 then St 309
      else St 0)
    else St 309)"

definition http_case_316 :: "int \<Rightarrow> label" where
  "http_case_316 c =
   (if c = 48 then St 313
    else if c = 58 then St 255
    else if c = 93 then St 236
    else if c < 65 then
      (if 49 \<le> c \<and> c \<le> 57 then St 309
      else St 0)
    else if 70 < c then
      (if 97 \<le> c \<and> c \<le> 102 then St 309
      else St 0)
    else St 309)"

definition http_case_317 :: "int \<Rightarrow> label" where
  "http_case_317 c =
   (if c = 58 then St 255
    else if c = 93 then St 236
    else if c < 65 then
      (if 48 \<le> c \<and> c \<le> 57 then St 308
      else St 0)
    else if 70 < c then
      (if 97 \<le> c \<and> c \<le> 102 then St 308
      else St 0)
    else St 308)"

definition http_case_318 :: "int \<Rightarrow> label" where
  "http_case_318 c =
   (if c = 46 then St 230
    else if c = 58 then St 306
    else if c = 93 then St 236
    else if c < 65 then
      (if 48 \<le> c \<and> c \<le> 57 then St 319
      else St 0)
    else if 70 < c then
      (if 97 \<le> c \<and> c \<le> 102 then St 303
      else St 0)
    else St 303)"

definition http_case_319 :: "int \<Rightarrow> label" where
  "http_case_319 c =
   (if c = 46 then St 230
    else if c = 58 then St 306
    else if c = 93 then St 236
    else if c < 65 then
      (if 48 \<le> c \<and> c \<le> 57 then St 320
      else St 0)
    else if 70 < c then
      (if 97 \<le> c \<and> c \<le> 102 then St 304
      else St 0)
    else St 304)"

definition http_case_320 :: "int \<Rightarrow> label" where
  "http_case_320 c =
   (if c = 46 then St 230
    else if c = 58 then St 306
    else if c = 93 then St 236
    else if c < 65 then
      (if 48 \<le> c \<and> c \<le> 57 then St 305
      else St 0)
    else if 70 < c then
      (if 97 \<le> c \<and> c \<le> 102 then St 305
      else St 0)
    else St 305)"

definition http_case_321 :: "int \<Rightarrow> label" where
  "http_case_321 c =
   (if c = 46 then St 230
    else if c = 48 then St 322
    else if c = 53 then St 323
    else if c = 58 then St 306
    else if c = 93 then St 236
    else if c < 65 then
      (if 49 \<le> c \<and> c \<le> 57 then St 303
      else St 0)
    else if 70 < c then
      (if 97 \<le> c \<and> c \<le> 102 then St 303
      else St 0)
    else St 303)"

definition http_case_322 :: "int \<Rightarrow> label" where
  "http_case_322 c =
   (if c = 58 then St 306
    else if c = 93 then St 236
    else if c < 65 then
      (if 48 \<le> c \<and> c \<le> 57 then St 320
      else St 0)
    else if 70 < c then
      (if 97 \<le> c \<and> c \<le> 102 then St 304
      else St 0)
    else St 304)"

definition http_case_323 :: "int \<Rightarrow> label" where
  "http_case_323 c =
   (if c = 48 then St 320
    else if c = 58 then St 306
    else if c = 93 then St 236
    else if c < 65 then
      (if 49 \<le> c \<and> c \<le> 57 then St 304
      else St 0)
    else if 70 < c then
      (if 97 \<le> c \<and> c \<le> 102 then St 304
      else St 0)
    else St 304)"

definition http_case_324 :: "int \<Rightarrow> label" where
  "http_case_324 c =
   (if c = 58 then St 306
    else if c = 93 then St 236
    else if c < 65 then
      (if 48 \<le> c \<and> c \<le> 57 then St 303
      else St 0)
    else if 70 < c then
      (if 97 \<le> c \<and> c \<le> 102 then St 303
      else St 0)
    else St 303)"

definition http_case_325 :: "int \<Rightarrow> label" where
  "http_case_325 c =
   (if c = 49 then St 318
    else if c = 50 then St 321
    else if c < 48 then
      (if 2 \<le> c \<and> c \<le> 3 then St 223
      else St 0)
    else if 57 < c then
      (if 70 < c then
        (if 97 \<le> c \<and> c \<le> 102 then St 324
        else St 0)
      else if 65 \<le> c then St 324
      else St 0)
    else St 302)"

definition http_case_326 :: "int \<Rightarrow> label" where
  "http_case_326 c =
   (if c = 49 then St 331
    else if c = 50 then St 334
    else if c < 48 then
      (if 2 \<le> c \<and> c \<le> 3 then St 223
      else St 0)
    else if 57 < c then
      (if 70 < c then
        (if 97 \<le> c \<and> c \<le> 102 then St 337
        else St 0)
      else if 65 \<le> c then St 337
      else St 0)
    else St 327)"

definition http_case_327 :: "int \<Rightarrow> label" where
  "http_case_327 c =
   (if c = 46 then St 230
    else if c = 58 then St 306
    else if c < 65 then
      (if 48 \<le> c \<and> c \<le> 57 then St 328
      else St 0)
    else if 70 < c then
      (if 97 \<le> c \<and> c \<le> 102 then St 328
      else St 0)
    else St 328)"

definition http_case_328 :: "int \<Rightarrow> label" where
  "http_case_328 c =
   (if c = 58 then St 306
    else if c < 65 then
      (if 48 \<le> c \<and> c \<le> 57 then St 329
      else St 0)
    else if 70 < c then
      (if 97 \<le> c \<and> c \<le> 102 then St 329
      else St 0)
    else St 329)"

definition http_case_329 :: "int \<Rightarrow> label" where
  "http_case_329 c =
   (if c = 58 then St 306
    else if c < 65 then
      (if 48 \<le> c \<and> c \<le> 57 then St 330
      else St 0)
    else if 70 < c then
      (if 97 \<le> c \<and> c \<le> 102 then St 330
      else St 0)
    else St 330)"

definition http_case_330 :: "int \<Rightarrow> label" where
  "http_case_330 c =
   (if c = 58 then St 306
    else St 0)"

definition http_case_331 :: "int \<Rightarrow> label" where
  "http_case_331 c =
   (if c = 46 then St 230
    else if c = 58 then St 306
    else if c < 65 then
      (if 48 \<le> c \<and> c \<le> 57 then St 332
      else St 0)
    else if 70 < c then
      (if 97 \<le> c \<and> c \<le> 102 then St 328
      else St 0)
    else St 328)"

definition http_case_332 :: "int \<Rightarrow> label" where
  "http_case_332 c =
   (if c = 46 then St 230
    else if c = 58 then St 306
    else if c < 65 then
      (if 48 \<le> c \<and> c \<le> 57 then St 333
      else St 0)
    else if 70 < c then
      (if 97 \<le> c \<and> c \<le> 102 then St 329
      else St 0)
    else St 329)"

definition http_case_333 :: "int \<Rightarrow> label" where
  "http_case_333 c =
   (if c = 46 then St 230
    else if c = 58 then St 306
    else if c < 65 then
      (if 48 \<le> c \<and> c \<le> 57 then St 330
      else St 0)
    else if 70 < c then
      (if 97 \<le> c \<and> c \<le> 102 then St 330
      else St 0)
    else St 330)"

definition http_case_334 :: "int \<Rightarrow> label" where
  "http_case_334 c =
   (if c = 46 then St 230
    else if c = 48 then St 335
    else if c = 53 then St 336
    else if c = 58 then St 306
    else if c < 65 then
      (if 49 \<le> c \<and> c \<le> 57 then St 328
      else St 0)
    else if 70 < c then
      (if 97 \<le> c \<and> c \<le> 102 then St 328
      else St 0)
    else St 328)"

definition http_case_335 :: "int \<Rightarrow> label" where
  "http_case_335 c =
   (if c = 58 then St 306
    else if c < 65 then
      (if 48 \<le> c \<and> c \<le> 57 then St 333
      else St 0)
    else if 70 < c then
      (if 97 \<le> c \<and> c \<le> 102 then St 329
      else St 0)
    else St 329)"

definition http_case_336 :: "int \<Rightarrow> label" where
  "http_case_336 c =
   (if c = 48 then St 333
    else if c = 58 then St 306
    else if c < 65 then
      (if 49 \<le> c \<and> c \<le> 57 then St 329
      else St 0)
    else if 70 < c then
      (if 97 \<le> c \<and> c \<le> 102 then St 329
      else St 0)
    else St 329)"

definition http_case_337 :: "int \<Rightarrow> label" where
  "http_case_337 c =
   (if c = 58 then St 306
    else if c < 65 then
      (if 48 \<le> c \<and> c \<le> 57 then St 328
      else St 0)
    else if 70 < c then
      (if 97 \<le> c \<and> c \<le> 102 then St 328
      else St 0)
    else St 328)"

definition http_case_338 :: "int \<Rightarrow> label" where
  "http_case_338 c =
   (if c < 48 then
      (if 2 \<le> c \<and> c \<le> 3 then St 223
      else St 0)
    else if 57 < c then
      (if 70 < c then
        (if 97 \<le> c \<and> c \<le> 102 then St 224
        else St 0)
      else if 65 \<le> c then St 224
      else St 0)
    else St 224)"

definition http_case_339 :: "int \<Rightarrow> label" where
  "http_case_339 c =
   (if 2 \<le> c \<and> c \<le> 3 then St 223
    else St 0)"

definition http_case_340 :: "int \<Rightarrow> label" where
  "http_case_340 c =
   (if c = 3 then St 223
    else St 0)"

definition http_case_341 :: "int \<Rightarrow> label" where
  "http_case_341 c =
   (if c = 4 then St 223
    else St 0)"

definition http_case_342 :: "int \<Rightarrow> label" where
  "http_case_342 c =
   (if c = 58 then St 343
    else St 0)"

definition http_case_343 :: "int \<Rightarrow> label" where
  "http_case_343 c =
   (if c = 49 then St 318
    else if c = 50 then St 321
    else if c = 93 then St 236
    else if c < 48 then
      (if 2 \<le> c \<and> c \<le> 5 then St 223
      else St 0)
    else if 57 < c then
      (if 70 < c then
        (if 97 \<le> c \<and> c \<le> 102 then St 324
        else St 0)
      else if 65 \<le> c then St 324
      else St 0)
    else St 302)"

definition http_case_344 :: "int \<Rightarrow> label" where
  "http_case_344 c =
   (if c < 65 then
      (if 48 \<le> c \<and> c \<le> 57 then St 345
      else St 0)
    else if 70 < c then
      (if 97 \<le> c \<and> c \<le> 102 then St 345
      else St 0)
    else St 345)"

definition http_case_345 :: "int \<Rightarrow> label" where
  "http_case_345 c =
   (if c = 46 then St 346
    else if c < 65 then
      (if 48 \<le> c \<and> c \<le> 57 then St 345
      else St 0)
    else if 70 < c then
      (if 97 \<le> c \<and> c \<le> 102 then St 345
      else St 0)
    else St 345)"

definition http_case_346 :: "bool \<Rightarrow> int \<Rightarrow> label" where
  "http_case_346 relaxed c =
    (let widec = http_widec relaxed c in
     if widec = 33 then St 347
     else if widec = 36 then St 347
     else if widec = 61 then St 347
     else if widec = 95 then St 347
     else if widec = 126 then St 347
     else if widec = 606 then St 347
     else if widec = 635 then St 347
     else if widec = 637 then St 347
     else if widec < 48 then
       (if 38 \<le> widec \<and> widec \<le> 46 then St 347
       else St 0)
     else if 59 < widec then
       (if 90 < widec then
         (if 97 \<le> widec \<and> widec \<le> 122 then St 347
         else St 0)
       else if 65 \<le> widec then St 347
       else St 0)
     else St 347)"

definition http_case_347 :: "bool \<Rightarrow> int \<Rightarrow> label" where
  "http_case_347 relaxed c =
    (let widec = http_widec relaxed c in
     if widec = 33 then St 347
     else if widec = 36 then St 347
     else if widec = 61 then St 347
     else if widec = 93 then St 236
     else if widec = 95 then St 347
     else if widec = 126 then St 347
     else if widec = 606 then St 347
     else if widec = 635 then St 347
     else if widec = 637 then St 347
     else if widec < 48 then
       (if 38 \<le> widec \<and> widec \<le> 46 then St 347
       else St 0)
     else if 59 < widec then
       (if 90 < widec then
         (if 97 \<le> widec \<and> widec \<le> 122 then St 347
         else St 0)
       else if 65 \<le> widec then St 347
       else St 0)
     else St 347)"

definition http_case_348 :: "int \<Rightarrow> label" where
  "http_case_348 c =
   (if c = 33 then St 14
    else if c = 58 then Tr 27
    else if c = 124 then St 14
    else if c = 126 then St 14
    else if c < 42 then
      (if c < 10 then
        (if 1 \<le> c \<and> c \<le> 8 then St 14
        else St 0)
      else if 31 < c then
        (if 35 \<le> c \<and> c \<le> 39 then St 14
        else St 0)
      else St 14)
    else if 43 < c then
      (if c < 48 then
        (if 45 \<le> c \<and> c \<le> 46 then St 14
        else St 0)
      else if 57 < c then
        (if 90 < c then
          (if 94 \<le> c \<and> c \<le> 122 then St 14
          else St 0)
        else if 65 \<le> c then St 14
        else St 0)
      else St 14)
    else St 14)"

definition http_case_349 :: "int \<Rightarrow> label" where
  "http_case_349 c =
   St 0"

subsection \<open>The switch\<close>

text \<open>\<^verbatim>\<open>switch ( cs )\<close>: the code at the label of the state, in groups; a value without a label leaves the switch.\<close>

definition http_switch_0 :: "bool \<Rightarrow> nat \<Rightarrow> int \<Rightarrow> label" where
  "http_switch_0 relaxed cs c =
    (if cs = 1 then http_case_1 c
     else if cs = 2 then http_case_2 c
     else if cs = 3 then http_case_3 relaxed c
     else if cs = 4 then http_case_4 c
     else if cs = 5 then http_case_5 c
     else if cs = 6 then http_case_6 c
     else if cs = 7 then http_case_7 c
     else if cs = 8 then http_case_8 c
     else if cs = 9 then http_case_9 c
     else if cs = 10 then http_case_10 c
     else if cs = 11 then http_case_11 c
     else if cs = 12 then http_case_12 c
     else if cs = 13 then http_case_13 c
     else if cs = 14 then http_case_14 c
     else if cs = 15 then http_case_15 c
     else if cs = 16 then http_case_16 c
     else if cs = 17 then http_case_17 c
     else if cs = 18 then http_case_18 c
     else if cs = 19 then http_case_19 relaxed c
     else Out)"

definition http_switch_1 :: "bool \<Rightarrow> nat \<Rightarrow> int \<Rightarrow> label" where
  "http_switch_1 relaxed cs c =
    (if cs = 20 then http_case_20 relaxed c
     else if cs = 21 then http_case_21 relaxed c
     else if cs = 22 then http_case_22 c
     else if cs = 23 then http_case_23 c
     else if cs = 24 then http_case_24 c
     else if cs = 25 then http_case_25 c
     else if cs = 26 then http_case_26 relaxed c
     else if cs = 27 then http_case_27 c
     else if cs = 28 then http_case_28 c
     else if cs = 29 then http_case_29 relaxed c
     else if cs = 30 then http_case_30 relaxed c
     else if cs = 31 then http_case_31 c
     else if cs = 32 then http_case_32 c
     else if cs = 33 then http_case_33 relaxed c
     else if cs = 34 then http_case_34 relaxed c
     else if cs = 35 then http_case_35 relaxed c
     else if cs = 36 then http_case_36 c
     else if cs = 37 then http_case_37 c
     else if cs = 38 then http_case_38 relaxed c
     else if cs = 39 then http_case_39 relaxed c
     else Out)"

definition http_switch_2 :: "bool \<Rightarrow> nat \<Rightarrow> int \<Rightarrow> label" where
  "http_switch_2 relaxed cs c =
    (if cs = 40 then http_case_40 c
     else if cs = 41 then http_case_41 c
     else if cs = 42 then http_case_42 relaxed c
     else if cs = 43 then http_case_43 relaxed c
     else if cs = 44 then http_case_44 c
     else if cs = 45 then http_case_45 c
     else if cs = 46 then http_case_46 c
     else if cs = 47 then http_case_47 c
     else if cs = 48 then http_case_48 c
     else if cs = 49 then http_case_49 c
     else if cs = 50 then http_case_50 c
     else if cs = 51 then http_case_51 c
     else if cs = 52 then http_case_52 c
     else if cs = 53 then http_case_53 c
     else if cs = 54 then http_case_54 c
     else if cs = 55 then http_case_55 c
     else if cs = 56 then http_case_56 c
     else if cs = 57 then http_case_57 c
     else if cs = 58 then http_case_58 c
     else if cs = 59 then http_case_59 c
     else Out)"

definition http_switch_3 :: "nat \<Rightarrow> int \<Rightarrow> label" where
  "http_switch_3 cs c =
    (if cs = 60 then http_case_60 c
     else if cs = 61 then http_case_61 c
     else if cs = 62 then http_case_62 c
     else if cs = 63 then http_case_63 c
     else if cs = 64 then http_case_64 c
     else if cs = 65 then http_case_65 c
     else if cs = 66 then http_case_66 c
     else if cs = 67 then http_case_67 c
     else if cs = 68 then http_case_68 c
     else if cs = 69 then http_case_69 c
     else if cs = 70 then http_case_70 c
     else if cs = 71 then http_case_71 c
     else if cs = 72 then http_case_72 c
     else if cs = 73 then http_case_73 c
     else if cs = 74 then http_case_74 c
     else if cs = 75 then http_case_75 c
     else if cs = 76 then http_case_76 c
     else if cs = 77 then http_case_77 c
     else if cs = 78 then http_case_78 c
     else if cs = 79 then http_case_79 c
     else Out)"

definition http_switch_4 :: "nat \<Rightarrow> int \<Rightarrow> label" where
  "http_switch_4 cs c =
    (if cs = 80 then http_case_80 c
     else if cs = 81 then http_case_81 c
     else if cs = 82 then http_case_82 c
     else if cs = 83 then http_case_83 c
     else if cs = 84 then http_case_84 c
     else if cs = 85 then http_case_85 c
     else if cs = 86 then http_case_86 c
     else if cs = 87 then http_case_87 c
     else if cs = 88 then http_case_88 c
     else if cs = 89 then http_case_89 c
     else if cs = 90 then http_case_90 c
     else if cs = 91 then http_case_91 c
     else if cs = 92 then http_case_92 c
     else if cs = 93 then http_case_93 c
     else if cs = 94 then http_case_94 c
     else if cs = 95 then http_case_95 c
     else if cs = 96 then http_case_96 c
     else if cs = 97 then http_case_97 c
     else if cs = 98 then http_case_98 c
     else if cs = 99 then http_case_99 c
     else Out)"

definition http_switch_5 :: "nat \<Rightarrow> int \<Rightarrow> label" where
  "http_switch_5 cs c =
    (if cs = 100 then http_case_100 c
     else if cs = 101 then http_case_101 c
     else if cs = 102 then http_case_102 c
     else if cs = 103 then http_case_103 c
     else if cs = 104 then http_case_104 c
     else if cs = 105 then http_case_105 c
     else if cs = 106 then http_case_106 c
     else if cs = 107 then http_case_107 c
     else if cs = 108 then http_case_108 c
     else if cs = 109 then http_case_109 c
     else if cs = 110 then http_case_110 c
     else if cs = 111 then http_case_111 c
     else if cs = 112 then http_case_112 c
     else if cs = 113 then http_case_113 c
     else if cs = 114 then http_case_114 c
     else if cs = 115 then http_case_115 c
     else if cs = 116 then http_case_116 c
     else if cs = 117 then http_case_117 c
     else if cs = 118 then http_case_118 c
     else if cs = 119 then http_case_119 c
     else Out)"

definition http_switch_6 :: "nat \<Rightarrow> int \<Rightarrow> label" where
  "http_switch_6 cs c =
    (if cs = 120 then http_case_120 c
     else if cs = 121 then http_case_121 c
     else if cs = 122 then http_case_122 c
     else if cs = 123 then http_case_123 c
     else if cs = 124 then http_case_124 c
     else if cs = 125 then http_case_125 c
     else if cs = 126 then http_case_126 c
     else if cs = 127 then http_case_127 c
     else if cs = 128 then http_case_128 c
     else if cs = 129 then http_case_129 c
     else if cs = 130 then http_case_130 c
     else if cs = 131 then http_case_131 c
     else if cs = 132 then http_case_132 c
     else if cs = 133 then http_case_133 c
     else if cs = 134 then http_case_134 c
     else if cs = 135 then http_case_135 c
     else if cs = 136 then http_case_136 c
     else if cs = 137 then http_case_137 c
     else if cs = 138 then http_case_138 c
     else if cs = 139 then http_case_139 c
     else Out)"

definition http_switch_7 :: "nat \<Rightarrow> int \<Rightarrow> label" where
  "http_switch_7 cs c =
    (if cs = 140 then http_case_140 c
     else if cs = 141 then http_case_141 c
     else if cs = 142 then http_case_142 c
     else if cs = 143 then http_case_143 c
     else if cs = 144 then http_case_144 c
     else if cs = 145 then http_case_145 c
     else if cs = 146 then http_case_146 c
     else if cs = 147 then http_case_147 c
     else if cs = 148 then http_case_148 c
     else if cs = 149 then http_case_149 c
     else if cs = 150 then http_case_150 c
     else if cs = 151 then http_case_151 c
     else if cs = 152 then http_case_152 c
     else if cs = 153 then http_case_153 c
     else if cs = 154 then http_case_154 c
     else if cs = 155 then http_case_155 c
     else if cs = 156 then http_case_156 c
     else if cs = 157 then http_case_157 c
     else if cs = 158 then http_case_158 c
     else if cs = 159 then http_case_159 c
     else Out)"

definition http_switch_8 :: "bool \<Rightarrow> nat \<Rightarrow> int \<Rightarrow> label" where
  "http_switch_8 relaxed cs c =
    (if cs = 160 then http_case_160 c
     else if cs = 161 then http_case_161 c
     else if cs = 162 then http_case_162 c
     else if cs = 163 then http_case_163 c
     else if cs = 164 then http_case_164 c
     else if cs = 165 then http_case_165 c
     else if cs = 166 then http_case_166 c
     else if cs = 167 then http_case_167 c
     else if cs = 168 then http_case_168 c
     else if cs = 169 then http_case_169 c
     else if cs = 170 then http_case_170 c
     else if cs = 171 then http_case_171 relaxed c
     else if cs = 172 then http_case_172 relaxed c
     else if cs = 173 then http_case_173 relaxed c
     else if cs = 174 then http_case_174 relaxed c
     else if cs = 175 then http_case_175 c
     else if cs = 176 then http_case_176 c
     else if cs = 177 then http_case_177 c
     else if cs = 178 then http_case_178 c
     else if cs = 179 then http_case_179 c
     else Out)"

definition http_switch_9 :: "bool \<Rightarrow> nat \<Rightarrow> int \<Rightarrow> label" where
  "http_switch_9 relaxed cs c =
    (if cs = 180 then http_case_180 c
     else if cs = 181 then http_case_181 c
     else if cs = 182 then http_case_182 c
     else if cs = 183 then http_case_183 c
     else if cs = 184 then http_case_184 c
     else if cs = 185 then http_case_185 c
     else if cs = 186 then http_case_186 c
     else if cs = 187 then http_case_187 c
     else if cs = 188 then http_case_188 c
     else if cs = 189 then http_case_189 c
     else if cs = 190 then http_case_190 c
     else if cs = 191 then http_case_191 c
     else if cs = 192 then http_case_192 c
     else if cs = 193 then http_case_193 c
     else if cs = 194 then http_case_194 c
     else if cs = 195 then http_case_195 c
     else if cs = 196 then http_case_196 c
     else if cs = 197 then http_case_197 c
     else if cs = 198 then http_case_198 relaxed c
     else if cs = 199 then http_case_199 c
     else Out)"

definition http_switch_10 :: "bool \<Rightarrow> nat \<Rightarrow> int \<Rightarrow> label" where
  "http_switch_10 relaxed cs c =
    (if cs = 200 then http_case_200 c
     else if cs = 201 then http_case_201 c
     else if cs = 202 then http_case_202 relaxed c
     else if cs = 203 then http_case_203 c
     else if cs = 204 then http_case_204 c
     else if cs = 205 then http_case_205 relaxed c
     else if cs = 206 then http_case_206 c
     else if cs = 207 then http_case_207 c
     else if cs = 208 then http_case_208 relaxed c
     else if cs = 209 then http_case_209 relaxed c
     else if cs = 210 then http_case_210 relaxed c
     else if cs = 211 then http_case_211 c
     else if cs = 212 then http_case_212 c
     else if cs = 213 then http_case_213 relaxed c
     else if cs = 214 then http_case_214 relaxed c
     else if cs = 215 then http_case_215 c
     else if cs = 216 then http_case_216 c
     else if cs = 217 then http_case_217 relaxed c
     else if cs = 218 then http_case_218 relaxed c
     else if cs = 219 then http_case_219 c
     else Out)"

definition http_switch_11 :: "nat \<Rightarrow> int \<Rightarrow> label" where
  "http_switch_11 cs c =
    (if cs = 220 then http_case_220 c
     else if cs = 221 then http_case_221 c
     else if cs = 222 then http_case_222 c
     else if cs = 223 then http_case_223 c
     else if cs = 224 then http_case_224 c
     else if cs = 225 then http_case_225 c
     else if cs = 226 then http_case_226 c
     else if cs = 227 then http_case_227 c
     else if cs = 228 then http_case_228 c
     else if cs = 229 then http_case_229 c
     else if cs = 230 then http_case_230 c
     else if cs = 231 then http_case_231 c
     else if cs = 232 then http_case_232 c
     else if cs = 233 then http_case_233 c
     else if cs = 234 then http_case_234 c
     else if cs = 235 then http_case_235 c
     else if cs = 236 then http_case_236 c
     else if cs = 237 then http_case_237 c
     else if cs = 238 then http_case_238 c
     else if cs = 239 then http_case_239 c
     else Out)"

definition http_switch_12 :: "nat \<Rightarrow> int \<Rightarrow> label" where
  "http_switch_12 cs c =
    (if cs = 240 then http_case_240 c
     else if cs = 241 then http_case_241 c
     else if cs = 242 then http_case_242 c
     else if cs = 243 then http_case_243 c
     else if cs = 244 then http_case_244 c
     else if cs = 245 then http_case_245 c
     else if cs = 246 then http_case_246 c
     else if cs = 247 then http_case_247 c
     else if cs = 248 then http_case_248 c
     else if cs = 249 then http_case_249 c
     else if cs = 250 then http_case_250 c
     else if cs = 251 then http_case_251 c
     else if cs = 252 then http_case_252 c
     else if cs = 253 then http_case_253 c
     else if cs = 254 then http_case_254 c
     else if cs = 255 then http_case_255 c
     else if cs = 256 then http_case_256 c
     else if cs = 257 then http_case_257 c
     else if cs = 258 then http_case_258 c
     else if cs = 259 then http_case_259 c
     else Out)"

definition http_switch_13 :: "nat \<Rightarrow> int \<Rightarrow> label" where
  "http_switch_13 cs c =
    (if cs = 260 then http_case_260 c
     else if cs = 261 then http_case_261 c
     else if cs = 262 then http_case_262 c
     else if cs = 263 then http_case_263 c
     else if cs = 264 then http_case_264 c
     else if cs = 265 then http_case_265 c
     else if cs = 266 then http_case_266 c
     else if cs = 267 then http_case_267 c
     else if cs = 268 then http_case_268 c
     else if cs = 269 then http_case_269 c
     else if cs = 270 then http_case_270 c
     else if cs = 271 then http_case_271 c
     else if cs = 272 then http_case_272 c
     else if cs = 273 then http_case_273 c
     else if cs = 274 then http_case_274 c
     else if cs = 275 then http_case_275 c
     else if cs = 276 then http_case_276 c
     else if cs = 277 then http_case_277 c
     else if cs = 278 then http_case_278 c
     else if cs = 279 then http_case_279 c
     else Out)"

definition http_switch_14 :: "nat \<Rightarrow> int \<Rightarrow> label" where
  "http_switch_14 cs c =
    (if cs = 280 then http_case_280 c
     else if cs = 281 then http_case_281 c
     else if cs = 282 then http_case_282 c
     else if cs = 283 then http_case_283 c
     else if cs = 284 then http_case_284 c
     else if cs = 285 then http_case_285 c
     else if cs = 286 then http_case_286 c
     else if cs = 287 then http_case_287 c
     else if cs = 288 then http_case_288 c
     else if cs = 289 then http_case_289 c
     else if cs = 290 then http_case_290 c
     else if cs = 291 then http_case_291 c
     else if cs = 292 then http_case_292 c
     else if cs = 293 then http_case_293 c
     else if cs = 294 then http_case_294 c
     else if cs = 295 then http_case_295 c
     else if cs = 296 then http_case_296 c
     else if cs = 297 then http_case_297 c
     else if cs = 298 then http_case_298 c
     else if cs = 299 then http_case_299 c
     else Out)"

definition http_switch_15 :: "nat \<Rightarrow> int \<Rightarrow> label" where
  "http_switch_15 cs c =
    (if cs = 300 then http_case_300 c
     else if cs = 301 then http_case_301 c
     else if cs = 302 then http_case_302 c
     else if cs = 303 then http_case_303 c
     else if cs = 304 then http_case_304 c
     else if cs = 305 then http_case_305 c
     else if cs = 306 then http_case_306 c
     else if cs = 307 then http_case_307 c
     else if cs = 308 then http_case_308 c
     else if cs = 309 then http_case_309 c
     else if cs = 310 then http_case_310 c
     else if cs = 311 then http_case_311 c
     else if cs = 312 then http_case_312 c
     else if cs = 313 then http_case_313 c
     else if cs = 314 then http_case_314 c
     else if cs = 315 then http_case_315 c
     else if cs = 316 then http_case_316 c
     else if cs = 317 then http_case_317 c
     else if cs = 318 then http_case_318 c
     else if cs = 319 then http_case_319 c
     else Out)"

definition http_switch_16 :: "nat \<Rightarrow> int \<Rightarrow> label" where
  "http_switch_16 cs c =
    (if cs = 320 then http_case_320 c
     else if cs = 321 then http_case_321 c
     else if cs = 322 then http_case_322 c
     else if cs = 323 then http_case_323 c
     else if cs = 324 then http_case_324 c
     else if cs = 325 then http_case_325 c
     else if cs = 326 then http_case_326 c
     else if cs = 327 then http_case_327 c
     else if cs = 328 then http_case_328 c
     else if cs = 329 then http_case_329 c
     else if cs = 330 then http_case_330 c
     else if cs = 331 then http_case_331 c
     else if cs = 332 then http_case_332 c
     else if cs = 333 then http_case_333 c
     else if cs = 334 then http_case_334 c
     else if cs = 335 then http_case_335 c
     else if cs = 336 then http_case_336 c
     else if cs = 337 then http_case_337 c
     else if cs = 338 then http_case_338 c
     else if cs = 339 then http_case_339 c
     else Out)"

definition http_switch_17 :: "bool \<Rightarrow> nat \<Rightarrow> int \<Rightarrow> label" where
  "http_switch_17 relaxed cs c =
    (if cs = 340 then http_case_340 c
     else if cs = 341 then http_case_341 c
     else if cs = 342 then http_case_342 c
     else if cs = 343 then http_case_343 c
     else if cs = 344 then http_case_344 c
     else if cs = 345 then http_case_345 c
     else if cs = 346 then http_case_346 relaxed c
     else if cs = 347 then http_case_347 relaxed c
     else if cs = 348 then http_case_348 c
     else if cs = 349 then http_case_349 c
     else Out)"

definition http_switch :: "bool \<Rightarrow> nat \<Rightarrow> int \<Rightarrow> label" where
  "http_switch relaxed cs c =
    (if cs < 20 then http_switch_0 relaxed cs c
     else if cs < 40 then http_switch_1 relaxed cs c
     else if cs < 60 then http_switch_2 relaxed cs c
     else if cs < 80 then http_switch_3 cs c
     else if cs < 100 then http_switch_4 cs c
     else if cs < 120 then http_switch_5 cs c
     else if cs < 140 then http_switch_6 cs c
     else if cs < 160 then http_switch_7 cs c
     else if cs < 180 then http_switch_8 relaxed cs c
     else if cs < 200 then http_switch_9 relaxed cs c
     else if cs < 220 then http_switch_10 relaxed cs c
     else if cs < 240 then http_switch_11 cs c
     else if cs < 260 then http_switch_12 cs c
     else if cs < 280 then http_switch_13 cs c
     else if cs < 300 then http_switch_14 cs c
     else if cs < 320 then http_switch_15 cs c
     else if cs < 340 then http_switch_16 cs c
     else http_switch_17 relaxed cs c)"

subsection \<open>Looking up states and transitions\<close>

lemma http_switch_at_0:
  "http_switch relaxed 1 = http_case_1"
  "http_switch relaxed 2 = http_case_2"
  "http_switch relaxed 3 = http_case_3 relaxed"
  "http_switch relaxed 4 = http_case_4"
  "http_switch relaxed 5 = http_case_5"
  "http_switch relaxed 6 = http_case_6"
  "http_switch relaxed 7 = http_case_7"
  "http_switch relaxed 8 = http_case_8"
  "http_switch relaxed 9 = http_case_9"
  "http_switch relaxed 10 = http_case_10"
  "http_switch relaxed 11 = http_case_11"
  "http_switch relaxed 12 = http_case_12"
  "http_switch relaxed 13 = http_case_13"
  "http_switch relaxed 14 = http_case_14"
  "http_switch relaxed 15 = http_case_15"
  "http_switch relaxed 16 = http_case_16"
  "http_switch relaxed 17 = http_case_17"
  "http_switch relaxed 18 = http_case_18"
  "http_switch relaxed 19 = http_case_19 relaxed"
  by (simp_all add: fun_eq_iff http_switch_def http_switch_0_def)

lemma http_switch_at_1:
  "http_switch relaxed 20 = http_case_20 relaxed"
  "http_switch relaxed 21 = http_case_21 relaxed"
  "http_switch relaxed 22 = http_case_22"
  "http_switch relaxed 23 = http_case_23"
  "http_switch relaxed 24 = http_case_24"
  "http_switch relaxed 25 = http_case_25"
  "http_switch relaxed 26 = http_case_26 relaxed"
  "http_switch relaxed 27 = http_case_27"
  "http_switch relaxed 28 = http_case_28"
  "http_switch relaxed 29 = http_case_29 relaxed"
  "http_switch relaxed 30 = http_case_30 relaxed"
  "http_switch relaxed 31 = http_case_31"
  "http_switch relaxed 32 = http_case_32"
  "http_switch relaxed 33 = http_case_33 relaxed"
  "http_switch relaxed 34 = http_case_34 relaxed"
  "http_switch relaxed 35 = http_case_35 relaxed"
  "http_switch relaxed 36 = http_case_36"
  "http_switch relaxed 37 = http_case_37"
  "http_switch relaxed 38 = http_case_38 relaxed"
  "http_switch relaxed 39 = http_case_39 relaxed"
  by (simp_all add: fun_eq_iff http_switch_def http_switch_1_def)

lemma http_switch_at_2:
  "http_switch relaxed 40 = http_case_40"
  "http_switch relaxed 41 = http_case_41"
  "http_switch relaxed 42 = http_case_42 relaxed"
  "http_switch relaxed 43 = http_case_43 relaxed"
  "http_switch relaxed 44 = http_case_44"
  "http_switch relaxed 45 = http_case_45"
  "http_switch relaxed 46 = http_case_46"
  "http_switch relaxed 47 = http_case_47"
  "http_switch relaxed 48 = http_case_48"
  "http_switch relaxed 49 = http_case_49"
  "http_switch relaxed 50 = http_case_50"
  "http_switch relaxed 51 = http_case_51"
  "http_switch relaxed 52 = http_case_52"
  "http_switch relaxed 53 = http_case_53"
  "http_switch relaxed 54 = http_case_54"
  "http_switch relaxed 55 = http_case_55"
  "http_switch relaxed 56 = http_case_56"
  "http_switch relaxed 57 = http_case_57"
  "http_switch relaxed 58 = http_case_58"
  "http_switch relaxed 59 = http_case_59"
  by (simp_all add: fun_eq_iff http_switch_def http_switch_2_def)

lemma http_switch_at_3:
  "http_switch relaxed 60 = http_case_60"
  "http_switch relaxed 61 = http_case_61"
  "http_switch relaxed 62 = http_case_62"
  "http_switch relaxed 63 = http_case_63"
  "http_switch relaxed 64 = http_case_64"
  "http_switch relaxed 65 = http_case_65"
  "http_switch relaxed 66 = http_case_66"
  "http_switch relaxed 67 = http_case_67"
  "http_switch relaxed 68 = http_case_68"
  "http_switch relaxed 69 = http_case_69"
  "http_switch relaxed 70 = http_case_70"
  "http_switch relaxed 71 = http_case_71"
  "http_switch relaxed 72 = http_case_72"
  "http_switch relaxed 73 = http_case_73"
  "http_switch relaxed 74 = http_case_74"
  "http_switch relaxed 75 = http_case_75"
  "http_switch relaxed 76 = http_case_76"
  "http_switch relaxed 77 = http_case_77"
  "http_switch relaxed 78 = http_case_78"
  "http_switch relaxed 79 = http_case_79"
  by (simp_all add: fun_eq_iff http_switch_def http_switch_3_def)

lemma http_switch_at_4:
  "http_switch relaxed 80 = http_case_80"
  "http_switch relaxed 81 = http_case_81"
  "http_switch relaxed 82 = http_case_82"
  "http_switch relaxed 83 = http_case_83"
  "http_switch relaxed 84 = http_case_84"
  "http_switch relaxed 85 = http_case_85"
  "http_switch relaxed 86 = http_case_86"
  "http_switch relaxed 87 = http_case_87"
  "http_switch relaxed 88 = http_case_88"
  "http_switch relaxed 89 = http_case_89"
  "http_switch relaxed 90 = http_case_90"
  "http_switch relaxed 91 = http_case_91"
  "http_switch relaxed 92 = http_case_92"
  "http_switch relaxed 93 = http_case_93"
  "http_switch relaxed 94 = http_case_94"
  "http_switch relaxed 95 = http_case_95"
  "http_switch relaxed 96 = http_case_96"
  "http_switch relaxed 97 = http_case_97"
  "http_switch relaxed 98 = http_case_98"
  "http_switch relaxed 99 = http_case_99"
  by (simp_all add: fun_eq_iff http_switch_def http_switch_4_def)

lemma http_switch_at_5:
  "http_switch relaxed 100 = http_case_100"
  "http_switch relaxed 101 = http_case_101"
  "http_switch relaxed 102 = http_case_102"
  "http_switch relaxed 103 = http_case_103"
  "http_switch relaxed 104 = http_case_104"
  "http_switch relaxed 105 = http_case_105"
  "http_switch relaxed 106 = http_case_106"
  "http_switch relaxed 107 = http_case_107"
  "http_switch relaxed 108 = http_case_108"
  "http_switch relaxed 109 = http_case_109"
  "http_switch relaxed 110 = http_case_110"
  "http_switch relaxed 111 = http_case_111"
  "http_switch relaxed 112 = http_case_112"
  "http_switch relaxed 113 = http_case_113"
  "http_switch relaxed 114 = http_case_114"
  "http_switch relaxed 115 = http_case_115"
  "http_switch relaxed 116 = http_case_116"
  "http_switch relaxed 117 = http_case_117"
  "http_switch relaxed 118 = http_case_118"
  "http_switch relaxed 119 = http_case_119"
  by (simp_all add: fun_eq_iff http_switch_def http_switch_5_def)

lemma http_switch_at_6:
  "http_switch relaxed 120 = http_case_120"
  "http_switch relaxed 121 = http_case_121"
  "http_switch relaxed 122 = http_case_122"
  "http_switch relaxed 123 = http_case_123"
  "http_switch relaxed 124 = http_case_124"
  "http_switch relaxed 125 = http_case_125"
  "http_switch relaxed 126 = http_case_126"
  "http_switch relaxed 127 = http_case_127"
  "http_switch relaxed 128 = http_case_128"
  "http_switch relaxed 129 = http_case_129"
  "http_switch relaxed 130 = http_case_130"
  "http_switch relaxed 131 = http_case_131"
  "http_switch relaxed 132 = http_case_132"
  "http_switch relaxed 133 = http_case_133"
  "http_switch relaxed 134 = http_case_134"
  "http_switch relaxed 135 = http_case_135"
  "http_switch relaxed 136 = http_case_136"
  "http_switch relaxed 137 = http_case_137"
  "http_switch relaxed 138 = http_case_138"
  "http_switch relaxed 139 = http_case_139"
  by (simp_all add: fun_eq_iff http_switch_def http_switch_6_def)

lemma http_switch_at_7:
  "http_switch relaxed 140 = http_case_140"
  "http_switch relaxed 141 = http_case_141"
  "http_switch relaxed 142 = http_case_142"
  "http_switch relaxed 143 = http_case_143"
  "http_switch relaxed 144 = http_case_144"
  "http_switch relaxed 145 = http_case_145"
  "http_switch relaxed 146 = http_case_146"
  "http_switch relaxed 147 = http_case_147"
  "http_switch relaxed 148 = http_case_148"
  "http_switch relaxed 149 = http_case_149"
  "http_switch relaxed 150 = http_case_150"
  "http_switch relaxed 151 = http_case_151"
  "http_switch relaxed 152 = http_case_152"
  "http_switch relaxed 153 = http_case_153"
  "http_switch relaxed 154 = http_case_154"
  "http_switch relaxed 155 = http_case_155"
  "http_switch relaxed 156 = http_case_156"
  "http_switch relaxed 157 = http_case_157"
  "http_switch relaxed 158 = http_case_158"
  "http_switch relaxed 159 = http_case_159"
  by (simp_all add: fun_eq_iff http_switch_def http_switch_7_def)

lemma http_switch_at_8:
  "http_switch relaxed 160 = http_case_160"
  "http_switch relaxed 161 = http_case_161"
  "http_switch relaxed 162 = http_case_162"
  "http_switch relaxed 163 = http_case_163"
  "http_switch relaxed 164 = http_case_164"
  "http_switch relaxed 165 = http_case_165"
  "http_switch relaxed 166 = http_case_166"
  "http_switch relaxed 167 = http_case_167"
  "http_switch relaxed 168 = http_case_168"
  "http_switch relaxed 169 = http_case_169"
  "http_switch relaxed 170 = http_case_170"
  "http_switch relaxed 171 = http_case_171 relaxed"
  "http_switch relaxed 172 = http_case_172 relaxed"
  "http_switch relaxed 173 = http_case_173 relaxed"
  "http_switch relaxed 174 = http_case_174 relaxed"
  "http_switch relaxed 175 = http_case_175"
  "http_switch relaxed 176 = http_case_176"
  "http_switch relaxed 177 = http_case_177"
  "http_switch relaxed 178 = http_case_178"
  "http_switch relaxed 179 = http_case_179"
  by (simp_all add: fun_eq_iff http_switch_def http_switch_8_def)

lemma http_switch_at_9:
  "http_switch relaxed 180 = http_case_180"
  "http_switch relaxed 181 = http_case_181"
  "http_switch relaxed 182 = http_case_182"
  "http_switch relaxed 183 = http_case_183"
  "http_switch relaxed 184 = http_case_184"
  "http_switch relaxed 185 = http_case_185"
  "http_switch relaxed 186 = http_case_186"
  "http_switch relaxed 187 = http_case_187"
  "http_switch relaxed 188 = http_case_188"
  "http_switch relaxed 189 = http_case_189"
  "http_switch relaxed 190 = http_case_190"
  "http_switch relaxed 191 = http_case_191"
  "http_switch relaxed 192 = http_case_192"
  "http_switch relaxed 193 = http_case_193"
  "http_switch relaxed 194 = http_case_194"
  "http_switch relaxed 195 = http_case_195"
  "http_switch relaxed 196 = http_case_196"
  "http_switch relaxed 197 = http_case_197"
  "http_switch relaxed 198 = http_case_198 relaxed"
  "http_switch relaxed 199 = http_case_199"
  by (simp_all add: fun_eq_iff http_switch_def http_switch_9_def)

lemma http_switch_at_10:
  "http_switch relaxed 200 = http_case_200"
  "http_switch relaxed 201 = http_case_201"
  "http_switch relaxed 202 = http_case_202 relaxed"
  "http_switch relaxed 203 = http_case_203"
  "http_switch relaxed 204 = http_case_204"
  "http_switch relaxed 205 = http_case_205 relaxed"
  "http_switch relaxed 206 = http_case_206"
  "http_switch relaxed 207 = http_case_207"
  "http_switch relaxed 208 = http_case_208 relaxed"
  "http_switch relaxed 209 = http_case_209 relaxed"
  "http_switch relaxed 210 = http_case_210 relaxed"
  "http_switch relaxed 211 = http_case_211"
  "http_switch relaxed 212 = http_case_212"
  "http_switch relaxed 213 = http_case_213 relaxed"
  "http_switch relaxed 214 = http_case_214 relaxed"
  "http_switch relaxed 215 = http_case_215"
  "http_switch relaxed 216 = http_case_216"
  "http_switch relaxed 217 = http_case_217 relaxed"
  "http_switch relaxed 218 = http_case_218 relaxed"
  "http_switch relaxed 219 = http_case_219"
  by (simp_all add: fun_eq_iff http_switch_def http_switch_10_def)

lemma http_switch_at_11:
  "http_switch relaxed 220 = http_case_220"
  "http_switch relaxed 221 = http_case_221"
  "http_switch relaxed 222 = http_case_222"
  "http_switch relaxed 223 = http_case_223"
  "http_switch relaxed 224 = http_case_224"
  "http_switch relaxed 225 = http_case_225"
  "http_switch relaxed 226 = http_case_226"
  "http_switch relaxed 227 = http_case_227"
  "http_switch relaxed 228 = http_case_228"
  "http_switch relaxed 229 = http_case_229"
  "http_switch relaxed 230 = http_case_230"
  "http_switch relaxed 231 = http_case_231"
  "http_switch relaxed 232 = http_case_232"
  "http_switch relaxed 233 = http_case_233"
  "http_switch relaxed 234 = http_case_234"
  "http_switch relaxed 235 = http_case_235"
  "http_switch relaxed 236 = http_case_236"
  "http_switch relaxed 237 = http_case_237"
  "http_switch relaxed 238 = http_case_238"
  "http_switch relaxed 239 = http_case_239"
  by (simp_all add: fun_eq_iff http_switch_def http_switch_11_def)

lemma http_switch_at_12:
  "http_switch relaxed 240 = http_case_240"
  "http_switch relaxed 241 = http_case_241"
  "http_switch relaxed 242 = http_case_242"
  "http_switch relaxed 243 = http_case_243"
  "http_switch relaxed 244 = http_case_244"
  "http_switch relaxed 245 = http_case_245"
  "http_switch relaxed 246 = http_case_246"
  "http_switch relaxed 247 = http_case_247"
  "http_switch relaxed 248 = http_case_248"
  "http_switch relaxed 249 = http_case_249"
  "http_switch relaxed 250 = http_case_250"
  "http_switch relaxed 251 = http_case_251"
  "http_switch relaxed 252 = http_case_252"
  "http_switch relaxed 253 = http_case_253"
  "http_switch relaxed 254 = http_case_254"
  "http_switch relaxed 255 = http_case_255"
  "http_switch relaxed 256 = http_case_256"
  "http_switch relaxed 257 = http_case_257"
  "http_switch relaxed 258 = http_case_258"
  "http_switch relaxed 259 = http_case_259"
  by (simp_all add: fun_eq_iff http_switch_def http_switch_12_def)

lemma http_switch_at_13:
  "http_switch relaxed 260 = http_case_260"
  "http_switch relaxed 261 = http_case_261"
  "http_switch relaxed 262 = http_case_262"
  "http_switch relaxed 263 = http_case_263"
  "http_switch relaxed 264 = http_case_264"
  "http_switch relaxed 265 = http_case_265"
  "http_switch relaxed 266 = http_case_266"
  "http_switch relaxed 267 = http_case_267"
  "http_switch relaxed 268 = http_case_268"
  "http_switch relaxed 269 = http_case_269"
  "http_switch relaxed 270 = http_case_270"
  "http_switch relaxed 271 = http_case_271"
  "http_switch relaxed 272 = http_case_272"
  "http_switch relaxed 273 = http_case_273"
  "http_switch relaxed 274 = http_case_274"
  "http_switch relaxed 275 = http_case_275"
  "http_switch relaxed 276 = http_case_276"
  "http_switch relaxed 277 = http_case_277"
  "http_switch relaxed 278 = http_case_278"
  "http_switch relaxed 279 = http_case_279"
  by (simp_all add: fun_eq_iff http_switch_def http_switch_13_def)

lemma http_switch_at_14:
  "http_switch relaxed 280 = http_case_280"
  "http_switch relaxed 281 = http_case_281"
  "http_switch relaxed 282 = http_case_282"
  "http_switch relaxed 283 = http_case_283"
  "http_switch relaxed 284 = http_case_284"
  "http_switch relaxed 285 = http_case_285"
  "http_switch relaxed 286 = http_case_286"
  "http_switch relaxed 287 = http_case_287"
  "http_switch relaxed 288 = http_case_288"
  "http_switch relaxed 289 = http_case_289"
  "http_switch relaxed 290 = http_case_290"
  "http_switch relaxed 291 = http_case_291"
  "http_switch relaxed 292 = http_case_292"
  "http_switch relaxed 293 = http_case_293"
  "http_switch relaxed 294 = http_case_294"
  "http_switch relaxed 295 = http_case_295"
  "http_switch relaxed 296 = http_case_296"
  "http_switch relaxed 297 = http_case_297"
  "http_switch relaxed 298 = http_case_298"
  "http_switch relaxed 299 = http_case_299"
  by (simp_all add: fun_eq_iff http_switch_def http_switch_14_def)

lemma http_switch_at_15:
  "http_switch relaxed 300 = http_case_300"
  "http_switch relaxed 301 = http_case_301"
  "http_switch relaxed 302 = http_case_302"
  "http_switch relaxed 303 = http_case_303"
  "http_switch relaxed 304 = http_case_304"
  "http_switch relaxed 305 = http_case_305"
  "http_switch relaxed 306 = http_case_306"
  "http_switch relaxed 307 = http_case_307"
  "http_switch relaxed 308 = http_case_308"
  "http_switch relaxed 309 = http_case_309"
  "http_switch relaxed 310 = http_case_310"
  "http_switch relaxed 311 = http_case_311"
  "http_switch relaxed 312 = http_case_312"
  "http_switch relaxed 313 = http_case_313"
  "http_switch relaxed 314 = http_case_314"
  "http_switch relaxed 315 = http_case_315"
  "http_switch relaxed 316 = http_case_316"
  "http_switch relaxed 317 = http_case_317"
  "http_switch relaxed 318 = http_case_318"
  "http_switch relaxed 319 = http_case_319"
  by (simp_all add: fun_eq_iff http_switch_def http_switch_15_def)

lemma http_switch_at_16:
  "http_switch relaxed 320 = http_case_320"
  "http_switch relaxed 321 = http_case_321"
  "http_switch relaxed 322 = http_case_322"
  "http_switch relaxed 323 = http_case_323"
  "http_switch relaxed 324 = http_case_324"
  "http_switch relaxed 325 = http_case_325"
  "http_switch relaxed 326 = http_case_326"
  "http_switch relaxed 327 = http_case_327"
  "http_switch relaxed 328 = http_case_328"
  "http_switch relaxed 329 = http_case_329"
  "http_switch relaxed 330 = http_case_330"
  "http_switch relaxed 331 = http_case_331"
  "http_switch relaxed 332 = http_case_332"
  "http_switch relaxed 333 = http_case_333"
  "http_switch relaxed 334 = http_case_334"
  "http_switch relaxed 335 = http_case_335"
  "http_switch relaxed 336 = http_case_336"
  "http_switch relaxed 337 = http_case_337"
  "http_switch relaxed 338 = http_case_338"
  "http_switch relaxed 339 = http_case_339"
  by (simp_all add: fun_eq_iff http_switch_def http_switch_16_def)

lemma http_switch_at_17:
  "http_switch relaxed 340 = http_case_340"
  "http_switch relaxed 341 = http_case_341"
  "http_switch relaxed 342 = http_case_342"
  "http_switch relaxed 343 = http_case_343"
  "http_switch relaxed 344 = http_case_344"
  "http_switch relaxed 345 = http_case_345"
  "http_switch relaxed 346 = http_case_346 relaxed"
  "http_switch relaxed 347 = http_case_347 relaxed"
  "http_switch relaxed 348 = http_case_348"
  "http_switch relaxed 349 = http_case_349"
  by (simp_all add: fun_eq_iff http_switch_def http_switch_17_def)

lemmas http_switch_at =
  http_switch_at_0 http_switch_at_1 http_switch_at_2 http_switch_at_3 http_switch_at_4 http_switch_at_5 http_switch_at_6 http_switch_at_7 http_switch_at_8 http_switch_at_9 http_switch_at_10 http_switch_at_11 http_switch_at_12 http_switch_at_13 http_switch_at_14 http_switch_at_15 http_switch_at_16 http_switch_at_17

lemma http_transition_at:
  "http_transition 0 = http_tr_0"
  "http_transition 2 = http_tr_2"
  "http_transition 3 = http_tr_3"
  "http_transition 4 = http_tr_4"
  "http_transition 6 = http_tr_6"
  "http_transition 7 = http_tr_7"
  "http_transition 8 = http_tr_8"
  "http_transition 9 = http_tr_9"
  "http_transition 10 = http_tr_10"
  "http_transition 11 = http_tr_11"
  "http_transition 12 = http_tr_12"
  "http_transition 13 = http_tr_13"
  "http_transition 21 = http_tr_21"
  "http_transition 22 = http_tr_22"
  "http_transition 23 = http_tr_23"
  "http_transition 24 = http_tr_24"
  "http_transition 25 = http_tr_25"
  "http_transition 27 = http_tr_27"
  "http_transition 28 = http_tr_28"
  "http_transition 29 = http_tr_29"
  "http_transition 30 = http_tr_30"
  "http_transition 31 = http_tr_31"
  "http_transition 33 = http_tr_33"
  "http_transition 34 = http_tr_34"
  "http_transition 36 = http_tr_36"
  "http_transition 37 = http_tr_37"
  "http_transition 39 = http_tr_39"
  "http_transition 42 = http_tr_42"
  "http_transition 43 = http_tr_43"
  "http_transition 44 = http_tr_44"
  "http_transition 45 = http_tr_45"
  "http_transition 46 = http_tr_46"
  "http_transition 53 = http_tr_53"
  "http_transition 54 = http_tr_54"
  "http_transition 55 = http_tr_55"
  "http_transition 56 = http_tr_56"
  "http_transition 57 = http_tr_57"
  "http_transition 59 = http_tr_59"
  "http_transition 203 = http_tr_203"
  "http_transition 204 = http_tr_204"
  "http_transition 224 = http_tr_224"
  "http_transition 227 = http_tr_227"
  "http_transition 228 = http_tr_228"
  "http_transition 232 = http_tr_232"
  "http_transition 235 = http_tr_235"
  by (simp_all add: http_transition_def)

lemmas http_tr_defs =
  http_tr_0_def http_tr_2_def http_tr_3_def http_tr_4_def http_tr_6_def http_tr_7_def http_tr_8_def http_tr_9_def
  http_tr_10_def http_tr_11_def http_tr_12_def http_tr_13_def http_tr_21_def http_tr_22_def http_tr_23_def http_tr_24_def
  http_tr_25_def http_tr_27_def http_tr_28_def http_tr_29_def http_tr_30_def http_tr_31_def http_tr_33_def http_tr_34_def
  http_tr_36_def http_tr_37_def http_tr_39_def http_tr_42_def http_tr_43_def http_tr_44_def http_tr_45_def http_tr_46_def
  http_tr_53_def http_tr_54_def http_tr_55_def http_tr_56_def http_tr_57_def http_tr_59_def http_tr_203_def http_tr_204_def
  http_tr_224_def http_tr_227_def http_tr_228_def http_tr_232_def http_tr_235_def

lemmas http_case_defs =
  http_case_1_def http_case_2_def http_case_3_def http_case_4_def http_case_5_def http_case_6_def
  http_case_7_def http_case_8_def http_case_9_def http_case_10_def http_case_11_def http_case_12_def
  http_case_13_def http_case_14_def http_case_15_def http_case_16_def http_case_17_def http_case_18_def
  http_case_19_def http_case_20_def http_case_21_def http_case_22_def http_case_23_def http_case_24_def
  http_case_25_def http_case_26_def http_case_27_def http_case_28_def http_case_29_def http_case_30_def
  http_case_31_def http_case_32_def http_case_33_def http_case_34_def http_case_35_def http_case_36_def
  http_case_37_def http_case_38_def http_case_39_def http_case_40_def http_case_41_def http_case_42_def
  http_case_43_def http_case_44_def http_case_45_def http_case_46_def http_case_47_def http_case_48_def
  http_case_49_def http_case_50_def http_case_51_def http_case_52_def http_case_53_def http_case_54_def
  http_case_55_def http_case_56_def http_case_57_def http_case_58_def http_case_59_def http_case_60_def
  http_case_61_def http_case_62_def http_case_63_def http_case_64_def http_case_65_def http_case_66_def
  http_case_67_def http_case_68_def http_case_69_def http_case_70_def http_case_71_def http_case_72_def
  http_case_73_def http_case_74_def http_case_75_def http_case_76_def http_case_77_def http_case_78_def
  http_case_79_def http_case_80_def http_case_81_def http_case_82_def http_case_83_def http_case_84_def
  http_case_85_def http_case_86_def http_case_87_def http_case_88_def http_case_89_def http_case_90_def
  http_case_91_def http_case_92_def http_case_93_def http_case_94_def http_case_95_def http_case_96_def
  http_case_97_def http_case_98_def http_case_99_def http_case_100_def http_case_101_def http_case_102_def
  http_case_103_def http_case_104_def http_case_105_def http_case_106_def http_case_107_def http_case_108_def
  http_case_109_def http_case_110_def http_case_111_def http_case_112_def http_case_113_def http_case_114_def
  http_case_115_def http_case_116_def http_case_117_def http_case_118_def http_case_119_def http_case_120_def
  http_case_121_def http_case_122_def http_case_123_def http_case_124_def http_case_125_def http_case_126_def
  http_case_127_def http_case_128_def http_case_129_def http_case_130_def http_case_131_def http_case_132_def
  http_case_133_def http_case_134_def http_case_135_def http_case_136_def http_case_137_def http_case_138_def
  http_case_139_def http_case_140_def http_case_141_def http_case_142_def http_case_143_def http_case_144_def
  http_case_145_def http_case_146_def http_case_147_def http_case_148_def http_case_149_def http_case_150_def
  http_case_151_def http_case_152_def http_case_153_def http_case_154_def http_case_155_def http_case_156_def
  http_case_157_def http_case_158_def http_case_159_def http_case_160_def http_case_161_def http_case_162_def
  http_case_163_def http_case_164_def http_case_165_def http_case_166_def http_case_167_def http_case_168_def
  http_case_169_def http_case_170_def http_case_171_def http_case_172_def http_case_173_def http_case_174_def
  http_case_175_def http_case_176_def http_case_177_def http_case_178_def http_case_179_def http_case_180_def
  http_case_181_def http_case_182_def http_case_183_def http_case_184_def http_case_185_def http_case_186_def
  http_case_187_def http_case_188_def http_case_189_def http_case_190_def http_case_191_def http_case_192_def
  http_case_193_def http_case_194_def http_case_195_def http_case_196_def http_case_197_def http_case_198_def
  http_case_199_def http_case_200_def http_case_201_def http_case_202_def http_case_203_def http_case_204_def
  http_case_205_def http_case_206_def http_case_207_def http_case_208_def http_case_209_def http_case_210_def
  http_case_211_def http_case_212_def http_case_213_def http_case_214_def http_case_215_def http_case_216_def
  http_case_217_def http_case_218_def http_case_219_def http_case_220_def http_case_221_def http_case_222_def
  http_case_223_def http_case_224_def http_case_225_def http_case_226_def http_case_227_def http_case_228_def
  http_case_229_def http_case_230_def http_case_231_def http_case_232_def http_case_233_def http_case_234_def
  http_case_235_def http_case_236_def http_case_237_def http_case_238_def http_case_239_def http_case_240_def
  http_case_241_def http_case_242_def http_case_243_def http_case_244_def http_case_245_def http_case_246_def
  http_case_247_def http_case_248_def http_case_249_def http_case_250_def http_case_251_def http_case_252_def
  http_case_253_def http_case_254_def http_case_255_def http_case_256_def http_case_257_def http_case_258_def
  http_case_259_def http_case_260_def http_case_261_def http_case_262_def http_case_263_def http_case_264_def
  http_case_265_def http_case_266_def http_case_267_def http_case_268_def http_case_269_def http_case_270_def
  http_case_271_def http_case_272_def http_case_273_def http_case_274_def http_case_275_def http_case_276_def
  http_case_277_def http_case_278_def http_case_279_def http_case_280_def http_case_281_def http_case_282_def
  http_case_283_def http_case_284_def http_case_285_def http_case_286_def http_case_287_def http_case_288_def
  http_case_289_def http_case_290_def http_case_291_def http_case_292_def http_case_293_def http_case_294_def
  http_case_295_def http_case_296_def http_case_297_def http_case_298_def http_case_299_def http_case_300_def
  http_case_301_def http_case_302_def http_case_303_def http_case_304_def http_case_305_def http_case_306_def
  http_case_307_def http_case_308_def http_case_309_def http_case_310_def http_case_311_def http_case_312_def
  http_case_313_def http_case_314_def http_case_315_def http_case_316_def http_case_317_def http_case_318_def
  http_case_319_def http_case_320_def http_case_321_def http_case_322_def http_case_323_def http_case_324_def
  http_case_325_def http_case_326_def http_case_327_def http_case_328_def http_case_329_def http_case_330_def
  http_case_331_def http_case_332_def http_case_333_def http_case_334_def http_case_335_def http_case_336_def
  http_case_337_def http_case_338_def http_case_339_def http_case_340_def http_case_341_def http_case_342_def
  http_case_343_def http_case_344_def http_case_345_def http_case_346_def http_case_347_def http_case_348_def
  http_case_349_def

text \<open>No state jumps into a final state by itself: only a transition that runs the action \<^verbatim>\<open>done\<close> ends there.\<close>

lemma http_case_jumps_0:
  "jumps_below 348 (http_case_1 c)"
  "jumps_below 348 (http_case_2 c)"
  "jumps_below 348 (http_case_3 relaxed c)"
  "jumps_below 348 (http_case_4 c)"
  "jumps_below 348 (http_case_5 c)"
  "jumps_below 348 (http_case_6 c)"
  "jumps_below 348 (http_case_7 c)"
  "jumps_below 348 (http_case_8 c)"
  "jumps_below 348 (http_case_9 c)"
  "jumps_below 348 (http_case_10 c)"
  "jumps_below 348 (http_case_11 c)"
  "jumps_below 348 (http_case_12 c)"
  "jumps_below 348 (http_case_13 c)"
  "jumps_below 348 (http_case_14 c)"
  "jumps_below 348 (http_case_15 c)"
  "jumps_below 348 (http_case_16 c)"
  "jumps_below 348 (http_case_17 c)"
  "jumps_below 348 (http_case_18 c)"
  "jumps_below 348 (http_case_19 relaxed c)"
  unfolding http_case_1_def http_case_2_def http_case_3_def http_case_4_def http_case_5_def http_case_6_def
    http_case_7_def http_case_8_def http_case_9_def http_case_10_def http_case_11_def http_case_12_def
    http_case_13_def http_case_14_def http_case_15_def http_case_16_def http_case_17_def http_case_18_def
    http_case_19_def Let_def
  by (simp_all only: jumps_below_simps if_cancel) simp_all

lemma http_targets_0:
  assumes "1 \<le> cs" "cs \<le> 19"
  shows "jumps_below 348 (http_switch_0 relaxed cs c)"
proof -
  have "cs \<in> {1, 2, 3, 4, 5, 6, 7, 8, 9, 10, 11, 12, 13, 14, 15, 16, 17, 18, 19}" using assms by simp presburger
  then show ?thesis by (auto simp: http_switch_0_def http_case_jumps_0)
qed

lemma http_case_jumps_1:
  "jumps_below 348 (http_case_20 relaxed c)"
  "jumps_below 348 (http_case_21 relaxed c)"
  "jumps_below 348 (http_case_22 c)"
  "jumps_below 348 (http_case_23 c)"
  "jumps_below 348 (http_case_24 c)"
  "jumps_below 348 (http_case_25 c)"
  "jumps_below 348 (http_case_26 relaxed c)"
  "jumps_below 348 (http_case_27 c)"
  "jumps_below 348 (http_case_28 c)"
  "jumps_below 348 (http_case_29 relaxed c)"
  "jumps_below 348 (http_case_30 relaxed c)"
  "jumps_below 348 (http_case_31 c)"
  "jumps_below 348 (http_case_32 c)"
  "jumps_below 348 (http_case_33 relaxed c)"
  "jumps_below 348 (http_case_34 relaxed c)"
  "jumps_below 348 (http_case_35 relaxed c)"
  "jumps_below 348 (http_case_36 c)"
  "jumps_below 348 (http_case_37 c)"
  "jumps_below 348 (http_case_38 relaxed c)"
  "jumps_below 348 (http_case_39 relaxed c)"
  unfolding http_case_20_def http_case_21_def http_case_22_def http_case_23_def http_case_24_def http_case_25_def
    http_case_26_def http_case_27_def http_case_28_def http_case_29_def http_case_30_def http_case_31_def
    http_case_32_def http_case_33_def http_case_34_def http_case_35_def http_case_36_def http_case_37_def
    http_case_38_def http_case_39_def Let_def
  by (simp_all only: jumps_below_simps if_cancel) simp_all

lemma http_targets_1:
  assumes "20 \<le> cs" "cs \<le> 39"
  shows "jumps_below 348 (http_switch_1 relaxed cs c)"
proof -
  have "cs \<in> {20, 21, 22, 23, 24, 25, 26, 27, 28, 29, 30, 31, 32, 33, 34, 35, 36, 37, 38, 39}" using assms by simp presburger
  then show ?thesis by (auto simp: http_switch_1_def http_case_jumps_1)
qed

lemma http_case_jumps_2:
  "jumps_below 348 (http_case_40 c)"
  "jumps_below 348 (http_case_41 c)"
  "jumps_below 348 (http_case_42 relaxed c)"
  "jumps_below 348 (http_case_43 relaxed c)"
  "jumps_below 348 (http_case_44 c)"
  "jumps_below 348 (http_case_45 c)"
  "jumps_below 348 (http_case_46 c)"
  "jumps_below 348 (http_case_47 c)"
  "jumps_below 348 (http_case_48 c)"
  "jumps_below 348 (http_case_49 c)"
  "jumps_below 348 (http_case_50 c)"
  "jumps_below 348 (http_case_51 c)"
  "jumps_below 348 (http_case_52 c)"
  "jumps_below 348 (http_case_53 c)"
  "jumps_below 348 (http_case_54 c)"
  "jumps_below 348 (http_case_55 c)"
  "jumps_below 348 (http_case_56 c)"
  "jumps_below 348 (http_case_57 c)"
  "jumps_below 348 (http_case_58 c)"
  "jumps_below 348 (http_case_59 c)"
  unfolding http_case_40_def http_case_41_def http_case_42_def http_case_43_def http_case_44_def http_case_45_def
    http_case_46_def http_case_47_def http_case_48_def http_case_49_def http_case_50_def http_case_51_def
    http_case_52_def http_case_53_def http_case_54_def http_case_55_def http_case_56_def http_case_57_def
    http_case_58_def http_case_59_def Let_def
  by (simp_all only: jumps_below_simps if_cancel) simp_all

lemma http_targets_2:
  assumes "40 \<le> cs" "cs \<le> 59"
  shows "jumps_below 348 (http_switch_2 relaxed cs c)"
proof -
  have "cs \<in> {40, 41, 42, 43, 44, 45, 46, 47, 48, 49, 50, 51, 52, 53, 54, 55, 56, 57, 58, 59}" using assms by simp presburger
  then show ?thesis by (auto simp: http_switch_2_def http_case_jumps_2)
qed

lemma http_case_jumps_3:
  "jumps_below 348 (http_case_60 c)"
  "jumps_below 348 (http_case_61 c)"
  "jumps_below 348 (http_case_62 c)"
  "jumps_below 348 (http_case_63 c)"
  "jumps_below 348 (http_case_64 c)"
  "jumps_below 348 (http_case_65 c)"
  "jumps_below 348 (http_case_66 c)"
  "jumps_below 348 (http_case_67 c)"
  "jumps_below 348 (http_case_68 c)"
  "jumps_below 348 (http_case_69 c)"
  "jumps_below 348 (http_case_70 c)"
  "jumps_below 348 (http_case_71 c)"
  "jumps_below 348 (http_case_72 c)"
  "jumps_below 348 (http_case_73 c)"
  "jumps_below 348 (http_case_74 c)"
  "jumps_below 348 (http_case_75 c)"
  "jumps_below 348 (http_case_76 c)"
  "jumps_below 348 (http_case_77 c)"
  "jumps_below 348 (http_case_78 c)"
  "jumps_below 348 (http_case_79 c)"
  unfolding http_case_60_def http_case_61_def http_case_62_def http_case_63_def http_case_64_def http_case_65_def
    http_case_66_def http_case_67_def http_case_68_def http_case_69_def http_case_70_def http_case_71_def
    http_case_72_def http_case_73_def http_case_74_def http_case_75_def http_case_76_def http_case_77_def
    http_case_78_def http_case_79_def Let_def
  by (simp_all only: jumps_below_simps if_cancel) simp_all

lemma http_targets_3:
  assumes "60 \<le> cs" "cs \<le> 79"
  shows "jumps_below 348 (http_switch_3 cs c)"
proof -
  have "cs \<in> {60, 61, 62, 63, 64, 65, 66, 67, 68, 69, 70, 71, 72, 73, 74, 75, 76, 77, 78, 79}" using assms by simp presburger
  then show ?thesis by (auto simp: http_switch_3_def http_case_jumps_3)
qed

lemma http_case_jumps_4:
  "jumps_below 348 (http_case_80 c)"
  "jumps_below 348 (http_case_81 c)"
  "jumps_below 348 (http_case_82 c)"
  "jumps_below 348 (http_case_83 c)"
  "jumps_below 348 (http_case_84 c)"
  "jumps_below 348 (http_case_85 c)"
  "jumps_below 348 (http_case_86 c)"
  "jumps_below 348 (http_case_87 c)"
  "jumps_below 348 (http_case_88 c)"
  "jumps_below 348 (http_case_89 c)"
  "jumps_below 348 (http_case_90 c)"
  "jumps_below 348 (http_case_91 c)"
  "jumps_below 348 (http_case_92 c)"
  "jumps_below 348 (http_case_93 c)"
  "jumps_below 348 (http_case_94 c)"
  "jumps_below 348 (http_case_95 c)"
  "jumps_below 348 (http_case_96 c)"
  "jumps_below 348 (http_case_97 c)"
  "jumps_below 348 (http_case_98 c)"
  "jumps_below 348 (http_case_99 c)"
  unfolding http_case_80_def http_case_81_def http_case_82_def http_case_83_def http_case_84_def http_case_85_def
    http_case_86_def http_case_87_def http_case_88_def http_case_89_def http_case_90_def http_case_91_def
    http_case_92_def http_case_93_def http_case_94_def http_case_95_def http_case_96_def http_case_97_def
    http_case_98_def http_case_99_def Let_def
  by (simp_all only: jumps_below_simps if_cancel) simp_all

lemma http_targets_4:
  assumes "80 \<le> cs" "cs \<le> 99"
  shows "jumps_below 348 (http_switch_4 cs c)"
proof -
  have "cs \<in> {80, 81, 82, 83, 84, 85, 86, 87, 88, 89, 90, 91, 92, 93, 94, 95, 96, 97, 98, 99}" using assms by simp presburger
  then show ?thesis by (auto simp: http_switch_4_def http_case_jumps_4)
qed

lemma http_case_jumps_5:
  "jumps_below 348 (http_case_100 c)"
  "jumps_below 348 (http_case_101 c)"
  "jumps_below 348 (http_case_102 c)"
  "jumps_below 348 (http_case_103 c)"
  "jumps_below 348 (http_case_104 c)"
  "jumps_below 348 (http_case_105 c)"
  "jumps_below 348 (http_case_106 c)"
  "jumps_below 348 (http_case_107 c)"
  "jumps_below 348 (http_case_108 c)"
  "jumps_below 348 (http_case_109 c)"
  "jumps_below 348 (http_case_110 c)"
  "jumps_below 348 (http_case_111 c)"
  "jumps_below 348 (http_case_112 c)"
  "jumps_below 348 (http_case_113 c)"
  "jumps_below 348 (http_case_114 c)"
  "jumps_below 348 (http_case_115 c)"
  "jumps_below 348 (http_case_116 c)"
  "jumps_below 348 (http_case_117 c)"
  "jumps_below 348 (http_case_118 c)"
  "jumps_below 348 (http_case_119 c)"
  unfolding http_case_100_def http_case_101_def http_case_102_def http_case_103_def http_case_104_def http_case_105_def
    http_case_106_def http_case_107_def http_case_108_def http_case_109_def http_case_110_def http_case_111_def
    http_case_112_def http_case_113_def http_case_114_def http_case_115_def http_case_116_def http_case_117_def
    http_case_118_def http_case_119_def Let_def
  by (simp_all only: jumps_below_simps if_cancel) simp_all

lemma http_targets_5:
  assumes "100 \<le> cs" "cs \<le> 119"
  shows "jumps_below 348 (http_switch_5 cs c)"
proof -
  have "cs \<in> {100, 101, 102, 103, 104, 105, 106, 107, 108, 109, 110, 111, 112, 113, 114, 115, 116, 117, 118, 119}" using assms by simp presburger
  then show ?thesis by (auto simp: http_switch_5_def http_case_jumps_5)
qed

lemma http_case_jumps_6:
  "jumps_below 348 (http_case_120 c)"
  "jumps_below 348 (http_case_121 c)"
  "jumps_below 348 (http_case_122 c)"
  "jumps_below 348 (http_case_123 c)"
  "jumps_below 348 (http_case_124 c)"
  "jumps_below 348 (http_case_125 c)"
  "jumps_below 348 (http_case_126 c)"
  "jumps_below 348 (http_case_127 c)"
  "jumps_below 348 (http_case_128 c)"
  "jumps_below 348 (http_case_129 c)"
  "jumps_below 348 (http_case_130 c)"
  "jumps_below 348 (http_case_131 c)"
  "jumps_below 348 (http_case_132 c)"
  "jumps_below 348 (http_case_133 c)"
  "jumps_below 348 (http_case_134 c)"
  "jumps_below 348 (http_case_135 c)"
  "jumps_below 348 (http_case_136 c)"
  "jumps_below 348 (http_case_137 c)"
  "jumps_below 348 (http_case_138 c)"
  "jumps_below 348 (http_case_139 c)"
  unfolding http_case_120_def http_case_121_def http_case_122_def http_case_123_def http_case_124_def http_case_125_def
    http_case_126_def http_case_127_def http_case_128_def http_case_129_def http_case_130_def http_case_131_def
    http_case_132_def http_case_133_def http_case_134_def http_case_135_def http_case_136_def http_case_137_def
    http_case_138_def http_case_139_def Let_def
  by (simp_all only: jumps_below_simps if_cancel) simp_all

lemma http_targets_6:
  assumes "120 \<le> cs" "cs \<le> 139"
  shows "jumps_below 348 (http_switch_6 cs c)"
proof -
  have "cs \<in> {120, 121, 122, 123, 124, 125, 126, 127, 128, 129, 130, 131, 132, 133, 134, 135, 136, 137, 138, 139}" using assms by simp presburger
  then show ?thesis by (auto simp: http_switch_6_def http_case_jumps_6)
qed

lemma http_case_jumps_7:
  "jumps_below 348 (http_case_140 c)"
  "jumps_below 348 (http_case_141 c)"
  "jumps_below 348 (http_case_142 c)"
  "jumps_below 348 (http_case_143 c)"
  "jumps_below 348 (http_case_144 c)"
  "jumps_below 348 (http_case_145 c)"
  "jumps_below 348 (http_case_146 c)"
  "jumps_below 348 (http_case_147 c)"
  "jumps_below 348 (http_case_148 c)"
  "jumps_below 348 (http_case_149 c)"
  "jumps_below 348 (http_case_150 c)"
  "jumps_below 348 (http_case_151 c)"
  "jumps_below 348 (http_case_152 c)"
  "jumps_below 348 (http_case_153 c)"
  "jumps_below 348 (http_case_154 c)"
  "jumps_below 348 (http_case_155 c)"
  "jumps_below 348 (http_case_156 c)"
  "jumps_below 348 (http_case_157 c)"
  "jumps_below 348 (http_case_158 c)"
  "jumps_below 348 (http_case_159 c)"
  unfolding http_case_140_def http_case_141_def http_case_142_def http_case_143_def http_case_144_def http_case_145_def
    http_case_146_def http_case_147_def http_case_148_def http_case_149_def http_case_150_def http_case_151_def
    http_case_152_def http_case_153_def http_case_154_def http_case_155_def http_case_156_def http_case_157_def
    http_case_158_def http_case_159_def Let_def
  by (simp_all only: jumps_below_simps if_cancel) simp_all

lemma http_targets_7:
  assumes "140 \<le> cs" "cs \<le> 159"
  shows "jumps_below 348 (http_switch_7 cs c)"
proof -
  have "cs \<in> {140, 141, 142, 143, 144, 145, 146, 147, 148, 149, 150, 151, 152, 153, 154, 155, 156, 157, 158, 159}" using assms by simp presburger
  then show ?thesis by (auto simp: http_switch_7_def http_case_jumps_7)
qed

lemma http_case_jumps_8:
  "jumps_below 348 (http_case_160 c)"
  "jumps_below 348 (http_case_161 c)"
  "jumps_below 348 (http_case_162 c)"
  "jumps_below 348 (http_case_163 c)"
  "jumps_below 348 (http_case_164 c)"
  "jumps_below 348 (http_case_165 c)"
  "jumps_below 348 (http_case_166 c)"
  "jumps_below 348 (http_case_167 c)"
  "jumps_below 348 (http_case_168 c)"
  "jumps_below 348 (http_case_169 c)"
  "jumps_below 348 (http_case_170 c)"
  "jumps_below 348 (http_case_171 relaxed c)"
  "jumps_below 348 (http_case_172 relaxed c)"
  "jumps_below 348 (http_case_173 relaxed c)"
  "jumps_below 348 (http_case_174 relaxed c)"
  "jumps_below 348 (http_case_175 c)"
  "jumps_below 348 (http_case_176 c)"
  "jumps_below 348 (http_case_177 c)"
  "jumps_below 348 (http_case_178 c)"
  "jumps_below 348 (http_case_179 c)"
  unfolding http_case_160_def http_case_161_def http_case_162_def http_case_163_def http_case_164_def http_case_165_def
    http_case_166_def http_case_167_def http_case_168_def http_case_169_def http_case_170_def http_case_171_def
    http_case_172_def http_case_173_def http_case_174_def http_case_175_def http_case_176_def http_case_177_def
    http_case_178_def http_case_179_def Let_def
  by (simp_all only: jumps_below_simps if_cancel) simp_all

lemma http_targets_8:
  assumes "160 \<le> cs" "cs \<le> 179"
  shows "jumps_below 348 (http_switch_8 relaxed cs c)"
proof -
  have "cs \<in> {160, 161, 162, 163, 164, 165, 166, 167, 168, 169, 170, 171, 172, 173, 174, 175, 176, 177, 178, 179}" using assms by simp presburger
  then show ?thesis by (auto simp: http_switch_8_def http_case_jumps_8)
qed

lemma http_case_jumps_9:
  "jumps_below 348 (http_case_180 c)"
  "jumps_below 348 (http_case_181 c)"
  "jumps_below 348 (http_case_182 c)"
  "jumps_below 348 (http_case_183 c)"
  "jumps_below 348 (http_case_184 c)"
  "jumps_below 348 (http_case_185 c)"
  "jumps_below 348 (http_case_186 c)"
  "jumps_below 348 (http_case_187 c)"
  "jumps_below 348 (http_case_188 c)"
  "jumps_below 348 (http_case_189 c)"
  "jumps_below 348 (http_case_190 c)"
  "jumps_below 348 (http_case_191 c)"
  "jumps_below 348 (http_case_192 c)"
  "jumps_below 348 (http_case_193 c)"
  "jumps_below 348 (http_case_194 c)"
  "jumps_below 348 (http_case_195 c)"
  "jumps_below 348 (http_case_196 c)"
  "jumps_below 348 (http_case_197 c)"
  "jumps_below 348 (http_case_198 relaxed c)"
  "jumps_below 348 (http_case_199 c)"
  unfolding http_case_180_def http_case_181_def http_case_182_def http_case_183_def http_case_184_def http_case_185_def
    http_case_186_def http_case_187_def http_case_188_def http_case_189_def http_case_190_def http_case_191_def
    http_case_192_def http_case_193_def http_case_194_def http_case_195_def http_case_196_def http_case_197_def
    http_case_198_def http_case_199_def Let_def
  by (simp_all only: jumps_below_simps if_cancel) simp_all

lemma http_targets_9:
  assumes "180 \<le> cs" "cs \<le> 199"
  shows "jumps_below 348 (http_switch_9 relaxed cs c)"
proof -
  have "cs \<in> {180, 181, 182, 183, 184, 185, 186, 187, 188, 189, 190, 191, 192, 193, 194, 195, 196, 197, 198, 199}" using assms by simp presburger
  then show ?thesis by (auto simp: http_switch_9_def http_case_jumps_9)
qed

lemma http_case_jumps_10:
  "jumps_below 348 (http_case_200 c)"
  "jumps_below 348 (http_case_201 c)"
  "jumps_below 348 (http_case_202 relaxed c)"
  "jumps_below 348 (http_case_203 c)"
  "jumps_below 348 (http_case_204 c)"
  "jumps_below 348 (http_case_205 relaxed c)"
  "jumps_below 348 (http_case_206 c)"
  "jumps_below 348 (http_case_207 c)"
  "jumps_below 348 (http_case_208 relaxed c)"
  "jumps_below 348 (http_case_209 relaxed c)"
  "jumps_below 348 (http_case_210 relaxed c)"
  "jumps_below 348 (http_case_211 c)"
  "jumps_below 348 (http_case_212 c)"
  "jumps_below 348 (http_case_213 relaxed c)"
  "jumps_below 348 (http_case_214 relaxed c)"
  "jumps_below 348 (http_case_215 c)"
  "jumps_below 348 (http_case_216 c)"
  "jumps_below 348 (http_case_217 relaxed c)"
  "jumps_below 348 (http_case_218 relaxed c)"
  "jumps_below 348 (http_case_219 c)"
  unfolding http_case_200_def http_case_201_def http_case_202_def http_case_203_def http_case_204_def http_case_205_def
    http_case_206_def http_case_207_def http_case_208_def http_case_209_def http_case_210_def http_case_211_def
    http_case_212_def http_case_213_def http_case_214_def http_case_215_def http_case_216_def http_case_217_def
    http_case_218_def http_case_219_def Let_def
  by (simp_all only: jumps_below_simps if_cancel) simp_all

lemma http_targets_10:
  assumes "200 \<le> cs" "cs \<le> 219"
  shows "jumps_below 348 (http_switch_10 relaxed cs c)"
proof -
  have "cs \<in> {200, 201, 202, 203, 204, 205, 206, 207, 208, 209, 210, 211, 212, 213, 214, 215, 216, 217, 218, 219}" using assms by simp presburger
  then show ?thesis by (auto simp: http_switch_10_def http_case_jumps_10)
qed

lemma http_case_jumps_11:
  "jumps_below 348 (http_case_220 c)"
  "jumps_below 348 (http_case_221 c)"
  "jumps_below 348 (http_case_222 c)"
  "jumps_below 348 (http_case_223 c)"
  "jumps_below 348 (http_case_224 c)"
  "jumps_below 348 (http_case_225 c)"
  "jumps_below 348 (http_case_226 c)"
  "jumps_below 348 (http_case_227 c)"
  "jumps_below 348 (http_case_228 c)"
  "jumps_below 348 (http_case_229 c)"
  "jumps_below 348 (http_case_230 c)"
  "jumps_below 348 (http_case_231 c)"
  "jumps_below 348 (http_case_232 c)"
  "jumps_below 348 (http_case_233 c)"
  "jumps_below 348 (http_case_234 c)"
  "jumps_below 348 (http_case_235 c)"
  "jumps_below 348 (http_case_236 c)"
  "jumps_below 348 (http_case_237 c)"
  "jumps_below 348 (http_case_238 c)"
  "jumps_below 348 (http_case_239 c)"
  unfolding http_case_220_def http_case_221_def http_case_222_def http_case_223_def http_case_224_def http_case_225_def
    http_case_226_def http_case_227_def http_case_228_def http_case_229_def http_case_230_def http_case_231_def
    http_case_232_def http_case_233_def http_case_234_def http_case_235_def http_case_236_def http_case_237_def
    http_case_238_def http_case_239_def Let_def
  by (simp_all only: jumps_below_simps if_cancel) simp_all

lemma http_targets_11:
  assumes "220 \<le> cs" "cs \<le> 239"
  shows "jumps_below 348 (http_switch_11 cs c)"
proof -
  have "cs \<in> {220, 221, 222, 223, 224, 225, 226, 227, 228, 229, 230, 231, 232, 233, 234, 235, 236, 237, 238, 239}" using assms by simp presburger
  then show ?thesis by (auto simp: http_switch_11_def http_case_jumps_11)
qed

lemma http_case_jumps_12:
  "jumps_below 348 (http_case_240 c)"
  "jumps_below 348 (http_case_241 c)"
  "jumps_below 348 (http_case_242 c)"
  "jumps_below 348 (http_case_243 c)"
  "jumps_below 348 (http_case_244 c)"
  "jumps_below 348 (http_case_245 c)"
  "jumps_below 348 (http_case_246 c)"
  "jumps_below 348 (http_case_247 c)"
  "jumps_below 348 (http_case_248 c)"
  "jumps_below 348 (http_case_249 c)"
  "jumps_below 348 (http_case_250 c)"
  "jumps_below 348 (http_case_251 c)"
  "jumps_below 348 (http_case_252 c)"
  "jumps_below 348 (http_case_253 c)"
  "jumps_below 348 (http_case_254 c)"
  "jumps_below 348 (http_case_255 c)"
  "jumps_below 348 (http_case_256 c)"
  "jumps_below 348 (http_case_257 c)"
  "jumps_below 348 (http_case_258 c)"
  "jumps_below 348 (http_case_259 c)"
  unfolding http_case_240_def http_case_241_def http_case_242_def http_case_243_def http_case_244_def http_case_245_def
    http_case_246_def http_case_247_def http_case_248_def http_case_249_def http_case_250_def http_case_251_def
    http_case_252_def http_case_253_def http_case_254_def http_case_255_def http_case_256_def http_case_257_def
    http_case_258_def http_case_259_def Let_def
  by (simp_all only: jumps_below_simps if_cancel) simp_all

lemma http_targets_12:
  assumes "240 \<le> cs" "cs \<le> 259"
  shows "jumps_below 348 (http_switch_12 cs c)"
proof -
  have "cs \<in> {240, 241, 242, 243, 244, 245, 246, 247, 248, 249, 250, 251, 252, 253, 254, 255, 256, 257, 258, 259}" using assms by simp presburger
  then show ?thesis by (auto simp: http_switch_12_def http_case_jumps_12)
qed

lemma http_case_jumps_13:
  "jumps_below 348 (http_case_260 c)"
  "jumps_below 348 (http_case_261 c)"
  "jumps_below 348 (http_case_262 c)"
  "jumps_below 348 (http_case_263 c)"
  "jumps_below 348 (http_case_264 c)"
  "jumps_below 348 (http_case_265 c)"
  "jumps_below 348 (http_case_266 c)"
  "jumps_below 348 (http_case_267 c)"
  "jumps_below 348 (http_case_268 c)"
  "jumps_below 348 (http_case_269 c)"
  "jumps_below 348 (http_case_270 c)"
  "jumps_below 348 (http_case_271 c)"
  "jumps_below 348 (http_case_272 c)"
  "jumps_below 348 (http_case_273 c)"
  "jumps_below 348 (http_case_274 c)"
  "jumps_below 348 (http_case_275 c)"
  "jumps_below 348 (http_case_276 c)"
  "jumps_below 348 (http_case_277 c)"
  "jumps_below 348 (http_case_278 c)"
  "jumps_below 348 (http_case_279 c)"
  unfolding http_case_260_def http_case_261_def http_case_262_def http_case_263_def http_case_264_def http_case_265_def
    http_case_266_def http_case_267_def http_case_268_def http_case_269_def http_case_270_def http_case_271_def
    http_case_272_def http_case_273_def http_case_274_def http_case_275_def http_case_276_def http_case_277_def
    http_case_278_def http_case_279_def Let_def
  by (simp_all only: jumps_below_simps if_cancel) simp_all

lemma http_targets_13:
  assumes "260 \<le> cs" "cs \<le> 279"
  shows "jumps_below 348 (http_switch_13 cs c)"
proof -
  have "cs \<in> {260, 261, 262, 263, 264, 265, 266, 267, 268, 269, 270, 271, 272, 273, 274, 275, 276, 277, 278, 279}" using assms by simp presburger
  then show ?thesis by (auto simp: http_switch_13_def http_case_jumps_13)
qed

lemma http_case_jumps_14:
  "jumps_below 348 (http_case_280 c)"
  "jumps_below 348 (http_case_281 c)"
  "jumps_below 348 (http_case_282 c)"
  "jumps_below 348 (http_case_283 c)"
  "jumps_below 348 (http_case_284 c)"
  "jumps_below 348 (http_case_285 c)"
  "jumps_below 348 (http_case_286 c)"
  "jumps_below 348 (http_case_287 c)"
  "jumps_below 348 (http_case_288 c)"
  "jumps_below 348 (http_case_289 c)"
  "jumps_below 348 (http_case_290 c)"
  "jumps_below 348 (http_case_291 c)"
  "jumps_below 348 (http_case_292 c)"
  "jumps_below 348 (http_case_293 c)"
  "jumps_below 348 (http_case_294 c)"
  "jumps_below 348 (http_case_295 c)"
  "jumps_below 348 (http_case_296 c)"
  "jumps_below 348 (http_case_297 c)"
  "jumps_below 348 (http_case_298 c)"
  "jumps_below 348 (http_case_299 c)"
  unfolding http_case_280_def http_case_281_def http_case_282_def http_case_283_def http_case_284_def http_case_285_def
    http_case_286_def http_case_287_def http_case_288_def http_case_289_def http_case_290_def http_case_291_def
    http_case_292_def http_case_293_def http_case_294_def http_case_295_def http_case_296_def http_case_297_def
    http_case_298_def http_case_299_def Let_def
  by (simp_all only: jumps_below_simps if_cancel) simp_all

lemma http_targets_14:
  assumes "280 \<le> cs" "cs \<le> 299"
  shows "jumps_below 348 (http_switch_14 cs c)"
proof -
  have "cs \<in> {280, 281, 282, 283, 284, 285, 286, 287, 288, 289, 290, 291, 292, 293, 294, 295, 296, 297, 298, 299}" using assms by simp presburger
  then show ?thesis by (auto simp: http_switch_14_def http_case_jumps_14)
qed

lemma http_case_jumps_15:
  "jumps_below 348 (http_case_300 c)"
  "jumps_below 348 (http_case_301 c)"
  "jumps_below 348 (http_case_302 c)"
  "jumps_below 348 (http_case_303 c)"
  "jumps_below 348 (http_case_304 c)"
  "jumps_below 348 (http_case_305 c)"
  "jumps_below 348 (http_case_306 c)"
  "jumps_below 348 (http_case_307 c)"
  "jumps_below 348 (http_case_308 c)"
  "jumps_below 348 (http_case_309 c)"
  "jumps_below 348 (http_case_310 c)"
  "jumps_below 348 (http_case_311 c)"
  "jumps_below 348 (http_case_312 c)"
  "jumps_below 348 (http_case_313 c)"
  "jumps_below 348 (http_case_314 c)"
  "jumps_below 348 (http_case_315 c)"
  "jumps_below 348 (http_case_316 c)"
  "jumps_below 348 (http_case_317 c)"
  "jumps_below 348 (http_case_318 c)"
  "jumps_below 348 (http_case_319 c)"
  unfolding http_case_300_def http_case_301_def http_case_302_def http_case_303_def http_case_304_def http_case_305_def
    http_case_306_def http_case_307_def http_case_308_def http_case_309_def http_case_310_def http_case_311_def
    http_case_312_def http_case_313_def http_case_314_def http_case_315_def http_case_316_def http_case_317_def
    http_case_318_def http_case_319_def Let_def
  by (simp_all only: jumps_below_simps if_cancel) simp_all

lemma http_targets_15:
  assumes "300 \<le> cs" "cs \<le> 319"
  shows "jumps_below 348 (http_switch_15 cs c)"
proof -
  have "cs \<in> {300, 301, 302, 303, 304, 305, 306, 307, 308, 309, 310, 311, 312, 313, 314, 315, 316, 317, 318, 319}" using assms by simp presburger
  then show ?thesis by (auto simp: http_switch_15_def http_case_jumps_15)
qed

lemma http_case_jumps_16:
  "jumps_below 348 (http_case_320 c)"
  "jumps_below 348 (http_case_321 c)"
  "jumps_below 348 (http_case_322 c)"
  "jumps_below 348 (http_case_323 c)"
  "jumps_below 348 (http_case_324 c)"
  "jumps_below 348 (http_case_325 c)"
  "jumps_below 348 (http_case_326 c)"
  "jumps_below 348 (http_case_327 c)"
  "jumps_below 348 (http_case_328 c)"
  "jumps_below 348 (http_case_329 c)"
  "jumps_below 348 (http_case_330 c)"
  "jumps_below 348 (http_case_331 c)"
  "jumps_below 348 (http_case_332 c)"
  "jumps_below 348 (http_case_333 c)"
  "jumps_below 348 (http_case_334 c)"
  "jumps_below 348 (http_case_335 c)"
  "jumps_below 348 (http_case_336 c)"
  "jumps_below 348 (http_case_337 c)"
  "jumps_below 348 (http_case_338 c)"
  "jumps_below 348 (http_case_339 c)"
  unfolding http_case_320_def http_case_321_def http_case_322_def http_case_323_def http_case_324_def http_case_325_def
    http_case_326_def http_case_327_def http_case_328_def http_case_329_def http_case_330_def http_case_331_def
    http_case_332_def http_case_333_def http_case_334_def http_case_335_def http_case_336_def http_case_337_def
    http_case_338_def http_case_339_def Let_def
  by (simp_all only: jumps_below_simps if_cancel) simp_all

lemma http_targets_16:
  assumes "320 \<le> cs" "cs \<le> 339"
  shows "jumps_below 348 (http_switch_16 cs c)"
proof -
  have "cs \<in> {320, 321, 322, 323, 324, 325, 326, 327, 328, 329, 330, 331, 332, 333, 334, 335, 336, 337, 338, 339}" using assms by simp presburger
  then show ?thesis by (auto simp: http_switch_16_def http_case_jumps_16)
qed

lemma http_case_jumps_17:
  "jumps_below 348 (http_case_340 c)"
  "jumps_below 348 (http_case_341 c)"
  "jumps_below 348 (http_case_342 c)"
  "jumps_below 348 (http_case_343 c)"
  "jumps_below 348 (http_case_344 c)"
  "jumps_below 348 (http_case_345 c)"
  "jumps_below 348 (http_case_346 relaxed c)"
  "jumps_below 348 (http_case_347 relaxed c)"
  "jumps_below 348 (http_case_348 c)"
  "jumps_below 348 (http_case_349 c)"
  unfolding http_case_340_def http_case_341_def http_case_342_def http_case_343_def http_case_344_def http_case_345_def
    http_case_346_def http_case_347_def http_case_348_def http_case_349_def Let_def
  by (simp_all only: jumps_below_simps if_cancel) simp_all

lemma http_targets_17:
  assumes "340 \<le> cs" "cs \<le> 349"
  shows "jumps_below 348 (http_switch_17 relaxed cs c)"
proof -
  have "cs \<in> {340, 341, 342, 343, 344, 345, 346, 347, 348, 349}" using assms by simp presburger
  then show ?thesis by (auto simp: http_switch_17_def http_case_jumps_17)
qed

lemma http_targets: "1 \<le> cs \<Longrightarrow> cs \<le> 349 \<Longrightarrow> jumps_below 348 (http_switch relaxed cs c)"
  by (simp add: http_switch_def http_targets_0 http_targets_1 http_targets_2 http_targets_3 http_targets_4 http_targets_5 http_targets_6 http_targets_7 http_targets_8 http_targets_9 http_targets_10 http_targets_11 http_targets_12 http_targets_13 http_targets_14 http_targets_15 http_targets_16 http_targets_17)

end
