(* ===== verification/Http11_Parser.thy ===== *)
theory Http11_Parser
  imports Http11_Machine "HOL-Library.Sublist"
begin

text \<open>
  The request parser \<^verbatim>\<open>captain/http/http11_parser.rl.cpp\<close> around its state machine: the parser's record, the
  embedded actions, \<^verbatim>\<open>http_parser_init\<close>, \<^verbatim>\<open>http_parser_execute\<close> and the tests at its end.  All callbacks are
  set, as the constructor of \<^verbatim>\<open>HttpRequestParser\<close> sets them; a callback is the event it gets.

  The buffer is the string of its \<^verbatim>\<open>len\<close> characters, a position \<^verbatim>\<open>p\<close> the number of characters before it; the
  marks are 64-bit offsets, whose difference to a position wraps around.

  The typing of the control states says which marks may be read where; it shows that the callbacks get
  texts inside the buffer, and that the assertions at the end of a call hold.
\<close>

subsection \<open>The parser\<close>

record http_parser =
  ps_cs :: nat
  ps_body_start :: "64 word"
  ps_content_len :: "32 word"
  ps_nread :: "64 word"
  ps_mark :: "64 word"
  ps_field_start :: "64 word"
  ps_field_len :: "64 word"
  ps_query_start :: "64 word"
  ps_xml_sent :: int
  ps_json_sent :: int
  ps_uri_relaxed :: int

definition http_parser_start :: nat where "http_parser_start = 1"
definition http_parser_first_final :: nat where "http_parser_first_final = 348"
definition http_parser_error :: nat where "http_parser_error = 0"

text \<open>\<open>query_start\<close> and \<open>uri_relaxed\<close> keep what the memory holds.\<close>

definition http_parser_init :: "http_parser \<Rightarrow> http_parser" where
  "http_parser_init parser = parser\<lparr>ps_cs := http_parser_start, ps_body_start := 0, ps_content_len := 0,
     ps_mark := 0, ps_nread := 0, ps_field_len := 0, ps_field_start := 0, ps_xml_sent := 0, ps_json_sent := 0\<rparr>"

text \<open>A parser in memory that was all zero.\<close>

definition zero_memory :: http_parser where
  "zero_memory = \<lparr>ps_cs = 0, ps_body_start = 0, ps_content_len = 0, ps_nread = 0, ps_mark = 0, ps_field_start = 0,
     ps_field_len = 0, ps_query_start = 0, ps_xml_sent = 0, ps_json_sent = 0, ps_uri_relaxed = 0\<rparr>"

subsection \<open>The embedded actions\<close>

text \<open>\<^verbatim>\<open>LEN(AT, FPC)\<close> and \<^verbatim>\<open>PTR_TO(F)\<close>.\<close>

definition LEN :: "64 word \<Rightarrow> nat \<Rightarrow> 64 word" where
  "LEN at fpc = of_nat fpc - at"

definition PTR_TO :: "string \<Rightarrow> 64 word \<Rightarrow> string" where
  "PTR_TO buffer f = drop (unat f) buffer"

fun http_act :: "string \<Rightarrow> http_action \<Rightarrow> nat \<Rightarrow> http_parser \<times> request_event list \<Rightarrow> http_parser \<times> request_event list" where
  "http_act buffer A_mark p (m, es) = (m\<lparr>ps_mark := of_nat p\<rparr>, es)"
| "http_act buffer A_start_field p (m, es) = (m\<lparr>ps_field_start := of_nat p\<rparr>, es)"
| "http_act buffer A_write_field p (m, es) = (m\<lparr>ps_field_len := LEN (ps_field_start m) p\<rparr>, es)"
| "http_act buffer A_start_value p (m, es) = (m\<lparr>ps_mark := of_nat p\<rparr>, es)"
| "http_act buffer A_write_value p (m, es) =
     (m, es @ [Request_field (PTR_TO buffer (ps_field_start m)) (unat (ps_field_len m))
                             (PTR_TO buffer (ps_mark m)) (unat (LEN (ps_mark m) p))])"
| "http_act buffer A_request_method p (m, es) =
     (m, es @ [Request_method (PTR_TO buffer (ps_mark m)) (unat (LEN (ps_mark m) p))])"
| "http_act buffer A_request_uri p (m, es) =
     (m, es @ [Request_uri (PTR_TO buffer (ps_mark m)) (unat (LEN (ps_mark m) p))])"
| "http_act buffer A_fragment p (m, es) =
     (m, es @ [Request_fragment (PTR_TO buffer (ps_mark m)) (unat (LEN (ps_mark m) p))])"
| "http_act buffer A_start_query p (m, es) = (m\<lparr>ps_query_start := of_nat p\<rparr>, es)"
| "http_act buffer A_query_string p (m, es) =
     (m, es @ [Request_query (PTR_TO buffer (ps_query_start m)) (unat (LEN (ps_query_start m) p))])"
| "http_act buffer A_http_version p (m, es) =
     (m, es @ [Request_version (PTR_TO buffer (ps_mark m)) (unat (LEN (ps_mark m) p))])"
| "http_act buffer A_request_path p (m, es) =
     (m, es @ [Request_path (PTR_TO buffer (ps_mark m)) (unat (LEN (ps_mark m) p))])"
| "http_act buffer A_done p (m, es) =
     (if ps_xml_sent m \<noteq> 0 \<or> ps_json_sent m \<noteq> 0 then
        (m\<lparr>ps_body_start := ps_mark m, ps_content_len := ucast (of_nat p - ps_mark m + 1 :: 64 word)\<rparr>, es)
      else (m\<lparr>ps_body_start := of_nat p + 1\<rparr>,
            es @ [Request_header_done (drop (Suc p) buffer) (length buffer - p - 1)]))"
| "http_act buffer A_xml p (m, es) = (m\<lparr>ps_xml_sent := 1\<rparr>, es)"
| "http_act buffer A_json p (m, es) = (m\<lparr>ps_json_sent := 1\<rparr>, es)"

subsection \<open>Executing\<close>

definition http_parser_has_error :: "http_parser \<Rightarrow> bool" where
  "http_parser_has_error parser \<longleftrightarrow> ps_cs parser = http_parser_error"

definition http_parser_is_finished :: "http_parser \<Rightarrow> bool" where
  "http_parser_is_finished parser \<longleftrightarrow> ps_cs parser \<ge> http_parser_first_final"

definition http_parser_finish :: "http_parser \<Rightarrow> int" where
  "http_parser_finish parser =
     (if http_parser_has_error parser then - 1 else if http_parser_is_finished parser then 1 else 0)"

text \<open>The state machine, from \<^verbatim>\<open>p = buffer + off\<close> to \<^verbatim>\<open>pe = buffer + len\<close>.\<close>

definition http_exec :: "http_parser \<Rightarrow> string \<Rightarrow> nat \<Rightarrow> nat \<times> nat \<times> http_parser \<times> request_event list" where
  "http_exec m buffer off =
     exec_loop (http_switch (ps_uri_relaxed m \<noteq> 0)) http_transition (http_act buffer)
       (drop off buffer) off (ps_cs m) (m, [])"

text \<open>
  The body of \<^verbatim>\<open>http_parser_execute\<close> without its assertions, and the whole function, \<open>None\<close> when an assertion
  fails.
\<close>

definition http_parser_run :: "http_parser \<Rightarrow> string \<Rightarrow> nat \<Rightarrow> nat \<times> http_parser \<times> request_event list" where
  "http_parser_run parser buffer off =
     (if length buffer = 0 then (0, parser, [])
      else
        let m0 = parser\<lparr>ps_nread := 0, ps_mark := 0, ps_field_len := 0, ps_field_start := 0\<rparr>;
            (p, cs, m1, es) = http_exec m0 buffer off;
            m2 = (if http_parser_has_error m1 then m1 else m1\<lparr>ps_cs := cs\<rparr>);
            m3 = m2\<lparr>ps_nread := ps_nread m2 + of_nat (p - off)\<rparr>
        in (unat (ps_nread m3), m3, es))"

definition http_parser_asserts :: "http_parser \<Rightarrow> nat \<Rightarrow> bool" where
  "http_parser_asserts parser len \<longleftrightarrow>
     unat (ps_nread parser) \<le> len \<and> unat (ps_body_start parser) \<le> len \<and> unat (ps_mark parser) < len \<and>
     unat (ps_field_len parser) \<le> len \<and> unat (ps_field_start parser) < len"

definition http_parser_execute :: "http_parser \<Rightarrow> string \<Rightarrow> nat \<Rightarrow> (nat \<times> http_parser \<times> request_event list) option" where
  "http_parser_execute parser buffer off =
     (if length buffer = 0 then Some (0, parser, [])
      else if \<not> off \<le> length buffer then None
      else if int (length buffer - off) \<noteq> sint (of_nat (length buffer) :: 32 word) - sint (of_nat off :: 32 word) then None
      else
        let r = http_parser_run parser buffer off
        in if http_parser_asserts (fst (snd r)) (length buffer) then Some r else None)"

text \<open>The parser as \<^verbatim>\<open>HttpRequestParser\<close> uses it, in memory that holds \<open>mem\<close>.\<close>

definition http11 :: "http_parser \<Rightarrow> (http_parser, request_event) ragel" where
  "http11 mem = \<lparr>rg_init = http_parser_init mem,
     rg_execute = (\<lambda>parser data. http_parser_run parser data 0),
     rg_finish = http_parser_finish, rg_has_error = http_parser_has_error\<rparr>"

subsection \<open>The typing of the control states\<close>

text \<open>The texts that an event hands to its callback.\<close>

fun request_texts :: "request_event \<Rightarrow> (string \<times> nat) list" where
  "request_texts (Request_method at n) = [(at, n)]"
| "request_texts (Request_uri at n) = [(at, n)]"
| "request_texts (Request_fragment at n) = [(at, n)]"
| "request_texts (Request_path at n) = [(at, n)]"
| "request_texts (Request_query at n) = [(at, n)]"
| "request_texts (Request_version at n) = [(at, n)]"
| "request_texts (Request_header_done at n) = [(at, n)]"
| "request_texts (Request_field field flen val vlen) = [(field, flen), (val, vlen)]"

text \<open>A text inside the buffer: it begins there and is not longer than what follows.\<close>

definition in_buffer :: "string \<Rightarrow> string \<times> nat \<Rightarrow> bool" where
  "in_buffer buffer t \<longleftrightarrow> suffix (fst t) buffer \<and> snd t \<le> length (fst t)"

definition events_in_buffer :: "string \<Rightarrow> request_event list \<Rightarrow> bool" where
  "events_in_buffer buffer es \<longleftrightarrow> (\<forall>e \<in> set es. \<forall>t \<in> set (request_texts e). in_buffer buffer t)"

text \<open>
  No mark is past \<open>p\<close>, and the field name ends before \<open>p\<close>, unless the control state is one that reads the
  name (14, 18, 348) or the error state.
\<close>

definition marks_ok :: "string \<Rightarrow> nat \<Rightarrow> http_parser \<Rightarrow> bool" where
  "marks_ok buffer p m \<longleftrightarrow>
     unat (ps_mark m) \<le> p \<and> unat (ps_mark m) < length buffer \<and>
     unat (ps_field_start m) \<le> p \<and> unat (ps_field_start m) < length buffer \<and>
     unat (ps_field_len m) \<le> length buffer \<and> unat (ps_query_start m) \<le> p \<and> unat (ps_body_start m) \<le> length buffer"

definition field_ok :: "nat \<Rightarrow> http_parser \<Rightarrow> bool" where
  "field_ok p m \<longleftrightarrow> unat (ps_field_start m) + unat (ps_field_len m) \<le> p"

definition http_typing :: "string \<Rightarrow> nat \<Rightarrow> nat \<Rightarrow> http_parser \<times> request_event list \<Rightarrow> bool" where
  "http_typing buffer cs p s \<longleftrightarrow>
     marks_ok buffer p (fst s) \<and> (cs \<in> {0, 14, 18, 348} \<or> field_ok p (fst s)) \<and> events_in_buffer buffer (snd s)"

lemma unat_position: "p < 2 ^ 64 \<Longrightarrow> unat (of_nat p :: 64 word) = p"
  by (simp add: unat_of_nat take_bit_nat_eq_self)

lemma LEN_inside: "unat at \<le> p \<Longrightarrow> p < 2 ^ 64 \<Longrightarrow> unat (LEN at p) = p - unat at"
  by (simp add: LEN_def unat_sub unat_position word_le_nat_alt)

lemma in_buffer_PTR: "unat at + n \<le> length buffer \<Longrightarrow> in_buffer buffer (PTR_TO buffer at, n)"
  by (simp add: in_buffer_def PTR_TO_def suffix_drop)

lemma events_in_buffer_simps [simp]:
  "events_in_buffer buffer []"
  "events_in_buffer buffer (es @ fs) \<longleftrightarrow> events_in_buffer buffer es \<and> events_in_buffer buffer fs"
  "events_in_buffer buffer [e] \<longleftrightarrow> (\<forall>t \<in> set (request_texts e). in_buffer buffer t)"
  by (auto simp: events_in_buffer_def)

text \<open>An action that does not start a field keeps the marks and the field in order.\<close>

lemma http_act_typed:
  assumes "marks_ok buffer p m" "field_ok p m" "events_in_buffer buffer es"
    and "p < length buffer" "length buffer < 2 ^ 64" "a \<noteq> A_start_field" "http_act buffer a p (m, es) = (m', es')"
  shows "marks_ok buffer (Suc p) m' \<and> marks_ok buffer p m' \<and> field_ok p m' \<and> events_in_buffer buffer es'"
proof -
  have p: "p < 2 ^ 64" "Suc p < 2 ^ 64" using assms(4,5) by simp_all
  have fin: "unat (1 + of_nat p :: 64 word) = Suc p" using unat_position[OF p(2)] by simp
  show ?thesis
    using assms p fin
    by (cases a) (auto simp: marks_ok_def field_ok_def unat_position LEN_inside in_buffer_def PTR_TO_def
        suffix_drop ac_simps split: if_splits)
qed

lemma fold_http_act_typed:
  assumes "marks_ok buffer p (fst s)" "field_ok p (fst s)" "events_in_buffer buffer (snd s)"
    and "p < length buffer" "length buffer < 2 ^ 64" "A_start_field \<notin> set as"
  shows "marks_ok buffer p (fst (fold (\<lambda>a. http_act buffer a p) as s)) \<and>
         field_ok p (fst (fold (\<lambda>a. http_act buffer a p) as s)) \<and>
         events_in_buffer buffer (snd (fold (\<lambda>a. http_act buffer a p) as s))"
  using assms
proof (induction as arbitrary: s)
  case (Cons a as)
  obtain m es where s: "s = (m, es)" by force
  obtain m' es' where a: "http_act buffer a p (m, es) = (m', es')" by force
  have "marks_ok buffer p m' \<and> field_ok p m' \<and> events_in_buffer buffer es'"
    using http_act_typed[OF _ _ _ _ _ _ a] Cons.prems s by auto
  then show ?case using Cons.IH[of "(m', es')"] Cons.prems a s by auto
qed simp

text \<open>
  The states that read a field name, and the transitions that start one.  The state 348, at the end of a
  request, goes on as one of them: a line feed may stand in a token (see \<open>control_in_name\<close>).
\<close>

lemma http_name_states:
  "http_switch relaxed 14 c = St t \<Longrightarrow> t \<in> {0, 14}" "http_switch relaxed 14 c = Tr n \<Longrightarrow> n = 27"
  "http_switch relaxed 18 c = St t \<Longrightarrow> t \<in> {0, 14}" "http_switch relaxed 18 c = Tr n \<Longrightarrow> n \<in> {27, 36}"
  "http_switch relaxed 348 c = St t \<Longrightarrow> t \<in> {0, 14}" "http_switch relaxed 348 c = Tr n \<Longrightarrow> n = 27"
  by (auto simp: http_switch_at http_case_14_def http_case_18_def http_case_348_def split: if_splits)

lemma http_switch_0 [simp]: "http_switch relaxed 0 c = Out"
  by (simp add: http_switch_def http_switch_0_def)

lemma http_start_field:
  "http_transition n = (as, j) \<Longrightarrow> A_start_field \<in> set as \<Longrightarrow>
   (as, j) \<in> {([A_start_field], Goto 14), ([A_start_field], Goto 18), ([A_start_field, A_done], Break 348)}"
  unfolding http_transition_def by (auto simp: http_tr_defs split: if_splits)

lemma http_tr_name [simp]:
  "http_transition 27 = ([A_write_field], Goto 15)" "http_transition 36 = ([A_done], Break 348)"
  by (simp_all add: http_transition_at http_tr_defs)

fun jump_to :: "jump \<Rightarrow> nat" where
  "jump_to (Goto t) = t"
| "jump_to (Break t) = t"

lemma typing_later: "marks_ok buffer p m \<Longrightarrow> marks_ok buffer (Suc p) m" "field_ok p m \<Longrightarrow> field_ok (Suc p) m"
  by (auto simp: marks_ok_def field_ok_def)

lemma http_transition_typed:
  assumes typed: "http_typing buffer cs p s" and p: "p < length buffer" "length buffer < 2 ^ 64"
    and sw: "http_switch relaxed cs c = Tr n" and tr: "http_transition n = (as, j)"
  shows "http_typing buffer (jump_to j) (Suc p) (fold (\<lambda>a. http_act buffer a p) as s)"
proof (cases "field_ok p (fst s) \<and> A_start_field \<notin> set as")
  case True
  then show ?thesis
    using fold_http_act_typed[OF _ _ _ p, of s as] typed by (auto simp: http_typing_def intro: typing_later)
next
  case False
  obtain m es where s: "s = (m, es)" by force
  have word: "p < 2 ^ 64" "Suc p < 2 ^ 64" using p by simp_all
  have fin: "unat (1 + of_nat p :: 64 word) = Suc p" using unat_position[OF word(2)] by simp
  have "cs \<in> {14, 18, 348} \<and> n \<in> {27, 36} \<or> A_start_field \<in> set as"
    using False typed sw http_name_states by (fastforce simp: http_typing_def)
  then have "(as, j) \<in> {([A_write_field], Goto 15), ([A_done], Break 348), ([A_start_field], Goto 14),
      ([A_start_field], Goto 18), ([A_start_field, A_done], Break 348)}"
    using http_start_field[OF tr] tr by auto
  then show ?thesis
    using typed p word fin s
    by (auto simp: http_typing_def marks_ok_def field_ok_def unat_position LEN_inside in_buffer_def suffix_drop ac_simps)
qed

interpretation http: typed_machine "http_switch relaxed" http_transition "http_act buffer" "length buffer"
    "\<lambda>cs p s. http_typing buffer cs p s \<and> length buffer < 2 ^ 64" for relaxed buffer
proof unfold_locales
  fix cs p c t n as and s :: "http_parser \<times> request_event list"
  assume typed: "http_typing buffer cs p s \<and> length buffer < 2 ^ 64"
  show "http_typing buffer 0 p s \<and> length buffer < 2 ^ 64" using typed by (simp add: http_typing_def)
  assume p: "p < length buffer"
  show "http_switch relaxed cs c = St t \<Longrightarrow> t \<noteq> 0 \<Longrightarrow> http_typing buffer t (Suc p) s \<and> length buffer < 2 ^ 64"
    using typed http_name_states by (fastforce simp: http_typing_def intro: typing_later)
  assume sw: "http_switch relaxed cs c = Tr n"
  show "http_transition n = (as, Goto t) \<Longrightarrow>
      http_typing buffer t (Suc p) (fold (\<lambda>a. http_act buffer a p) as s) \<and> length buffer < 2 ^ 64"
    using http_transition_typed[OF _ p _ sw] typed by fastforce
  show "http_transition n = (as, Break t) \<Longrightarrow>
      http_typing buffer t (Suc p) (fold (\<lambda>a. http_act buffer a p) as s) \<and> length buffer < 2 ^ 64"
    using http_transition_typed[OF _ p _ sw] typed by fastforce
qed

subsection \<open>What a call of the parser does\<close>

lemma http_act_keeps [simp]:
  "ps_cs (fst (http_act buffer a p s)) = ps_cs (fst s)" "ps_nread (fst (http_act buffer a p s)) = ps_nread (fst s)"
  by (cases s; cases a; simp)+

lemma fold_http_act_keeps:
  "ps_cs (fst (fold (\<lambda>a. http_act buffer a p) as s)) = ps_cs (fst s) \<and>
   ps_nread (fst (fold (\<lambda>a. http_act buffer a p) as s)) = ps_nread (fst s)"
  by (induction as arbitrary: s) auto

lemma exec_keeps:
  "exec_loop sw tr (http_act buffer) xs p cs s = (p', cs', s') \<Longrightarrow>
   ps_cs (fst s') = ps_cs (fst s) \<and> ps_nread (fst s') = ps_nread (fst s)"
  by (induction sw tr "http_act buffer" xs p cs s rule: exec_loop.induct)
     (fastforce simp: fold_http_act_keeps split: label.splits jump.splits prod.splits if_splits)+

text \<open>A run ends in the error state, in a final state, at the end of the buffer, or had no state to start from.\<close>

lemma http_break: "http_transition n = (as, Break t) \<Longrightarrow> t \<in> {0, 348, 349}"
  unfolding http_transition_def by (auto simp: http_tr_defs split: if_splits)

lemma http_goto: "http_transition n = (as, Goto t) \<Longrightarrow> 1 \<le> t \<and> t < 348"
  unfolding http_transition_def by (auto simp: http_tr_defs split: if_splits)

lemma exec_progress:
  "exec_loop (http_switch relaxed) http_transition act xs p cs s = (p', cs', s') \<Longrightarrow> 1 \<le> cs \<Longrightarrow> cs \<le> 349 \<Longrightarrow>
   cs' \<le> 349 \<and> (cs' = 0 \<or> cs' \<in> {348, 349} \<or> p' = p + length xs)"
proof (induction xs arbitrary: p cs s)
  case (Cons c xs)
  have jumps: "jumps_below 348 (http_switch relaxed cs (schar c))" using Cons.prems by (intro http_targets)
  show ?case
  proof (cases "http_switch relaxed cs (schar c)")
    case (St t)
    then show ?thesis using Cons.IH[of "Suc p" t s] Cons.prems jumps by (auto split: if_splits)
  next
    case (Tr n)
    obtain as j where n: "http_transition n = (as, j)" by force
    then show ?thesis
      using Cons.IH[of "Suc p" "jump_to j" "fold (\<lambda>a. act a p) as s"] Cons.prems Tr http_goto[of n as] http_break[of n as]
      by (cases j) auto
  qed (use jumps in simp)
qed simp

lemma http_parser_run_unfold:
  assumes "buffer \<noteq> []" "length buffer < 2 ^ 64"
    and "http_exec (m\<lparr>ps_nread := 0, ps_mark := 0, ps_field_len := 0, ps_field_start := 0\<rparr>) buffer off = (p, cs, m1, es)"
    and "off \<le> length buffer"
  shows "http_parser_run m buffer off =
     (p - off, (if http_parser_has_error m then m1 else m1\<lparr>ps_cs := cs\<rparr>)\<lparr>ps_nread := of_nat (p - off)\<rparr>, es) \<and>
     off \<le> p \<and> p \<le> length buffer"
proof -
  let ?m0 = "m\<lparr>ps_nread := 0, ps_mark := 0, ps_field_len := 0, ps_field_start := 0\<rparr>"
  have keep: "ps_cs m1 = ps_cs m" "ps_nread m1 = 0"
    using exec_keeps[OF assms(3)[unfolded http_exec_def]] by simp_all
  have p: "off \<le> p" "p \<le> length buffer"
    using exec_position[OF assms(3)[unfolded http_exec_def]] assms(4) by simp_all
  then have "unat (of_nat (p - off) :: 64 word) = p - off" using assms(2) by (intro unat_position) simp
  then show ?thesis
    using assms(1,3) keep p by (auto simp: http_parser_run_def Let_def http_parser_has_error_def)
qed



text \<open>
  C17: A call makes progress.  On a non-empty buffer it ends with an error, or with the message finished, or
  has consumed all of the text; and a parser in the error state stays in it, consumes nothing and calls nobody.
\<close>

theorem http_parser_progress:
  assumes "buffer \<noteq> []" "length buffer < 2 ^ 64" "off \<le> length buffer" "ps_cs m \<le> 349"
    and "http_parser_run m buffer off = (n, m', es)"
  shows "(http_parser_has_error m' \<or> http_parser_is_finished m' \<or> n = length buffer - off) \<and>
     (http_parser_has_error m \<longrightarrow> http_parser_has_error m' \<and> n = 0 \<and> es = []) \<and> ps_cs m' \<le> 349"
proof -
  let ?m0 = "m\<lparr>ps_nread := 0, ps_mark := 0, ps_field_len := 0, ps_field_start := 0\<rparr>"
  obtain p cs m1 fs where ex: "http_exec ?m0 buffer off = (p, cs, m1, fs)" by (metis prod_cases4)
  note run = http_parser_run_unfold[OF assms(1,2) ex assms(3)]
  have keep: "ps_cs m1 = ps_cs m" using exec_keeps[OF ex[unfolded http_exec_def]] by simp
  show ?thesis
  proof (cases "http_parser_has_error m")
    case True
    then have "p = off \<and> fs = []" using ex assms(1,3)
      by (cases "drop off buffer") (auto simp: http_exec_def http_parser_has_error_def http_parser_error_def)
    then show ?thesis using run keep assms(5) True by (auto simp: http_parser_has_error_def http_parser_error_def)
  next
    case False
    then have "cs \<le> 349 \<and> (cs = 0 \<or> cs \<in> {348, 349} \<or> p = off + length (drop off buffer))"
      using exec_progress[OF ex[unfolded http_exec_def]] assms(4)
      by (simp add: http_parser_has_error_def http_parser_error_def)
    then show ?thesis
      using run assms(3,5) False
      by (auto simp: http_parser_has_error_def http_parser_error_def http_parser_is_finished_def http_parser_first_final_def)
  qed
qed

theorem http_parser_progress_witness:
  "\<exists>n m es. http_parser_run (http_parser_init zero_memory) ''GET / HTTP/1.1'' 0 = (n, m, es) \<and>
     (http_parser_has_error m \<or> http_parser_is_finished m \<or> n = length ''GET / HTTP/1.1'')"
proof -
  obtain n m es where run: "http_parser_run (http_parser_init zero_memory) ''GET / HTTP/1.1'' 0 = (n, m, es)"
    by (metis prod_cases3)
  then show ?thesis
    using http_parser_progress[OF _ _ _ _ run] by (simp add: http_parser_init_def http_parser_start_def zero_memory_def)
qed

end
