(* ===== verification/Http11_Laws.thy ===== *)
theory Http11_Laws
  imports Http11_Parser
begin

text \<open>
  What the state machine of requests reads.  \<open>reads a xs b f\<close> is a triple about a stretch \<open>xs\<close> of the buffer:
  from the state \<open>a\<close>, wherever the stretch stands and whatever follows it, the machine gets to the state \<open>b\<close>
  right behind it, and the callbacks made on the way change the request by \<open>f\<close>.  Triples compose; the parts of a
  request (method, path, query, fragment, version, header lines) each have theirs, and the printed request of
  \<open>rq_dump\<close> is read back from them.
\<close>

subsection \<open>Characters\<close>

definition char_in :: "(nat \<times> nat) list \<Rightarrow> char \<Rightarrow> bool" where
  "char_in rs c \<longleftrightarrow> (\<exists>(a, b) \<in> set rs. a \<le> of_char c \<and> of_char c \<le> b)"

text \<open>
  The characters of a path (without the percent sign), of a query or fragment, of a header name and of a
  header value; a space or tab may stand inside a value.
\<close>

definition path_char :: "char \<Rightarrow> bool" where
  "path_char = char_in [(33, 33), (36, 36), (38, 59), (61, 61), (64, 90), (95, 95), (97, 122), (126, 126)]"

definition query_char :: "char \<Rightarrow> bool" where
  "query_char = char_in [(33, 33), (36, 36), (38, 59), (61, 61), (63, 90), (95, 95), (97, 122), (126, 126)]"

definition hex_char :: "char \<Rightarrow> bool" where
  "hex_char = char_in [(48, 57), (65, 70), (97, 102)]"

definition name_char :: "char \<Rightarrow> bool" where
  "name_char = char_in [(33, 33), (35, 39), (42, 43), (45, 46), (48, 57), (65, 90), (94, 122), (124, 124), (126, 126)]"

definition value_char :: "char \<Rightarrow> bool" where
  "value_char = char_in [(9, 9), (32, 126), (128, 255)]"

definition method_char :: "char \<Rightarrow> bool" where
  "method_char = char_in [(48, 57), (65, 90)]"

lemmas char_defs = char_in_def path_char_def query_char_def hex_char_def name_char_def value_char_def method_char_def

lemma schar_ascii: "(of_char c :: nat) < 128 \<Longrightarrow> schar c = int (of_char c)"
  by (simp add: schar_def Let_def) (metis of_nat_of_char of_nat_less_iff of_nat_numeral)

lemma schar_high: "128 \<le> (of_char c :: nat) \<Longrightarrow> schar c = int (of_char c) - 256"
  by (simp add: schar_def Let_def) (metis of_nat_of_char of_nat_le_iff of_nat_numeral not_le)

lemma of_char_ge [simp]: "256 \<le> n \<Longrightarrow> (of_char c :: nat) \<noteq> n"
  using nat_of_char_less_256[of c] by linarith

lemma of_char_other: "c \<noteq> d \<Longrightarrow> (of_char c :: nat) \<noteq> of_char d"
  by (simp only: of_char_eq_iff simp_thms)

lemma schar_special [simp]:
  "schar CHR '' '' = 32" "schar CHR ''%'' = 37" "schar CHR ''?'' = 63" "schar CHR ''#'' = 35" "schar CHR ''/'' = 47"
  "schar CHR '':'' = 58" "schar CHR 0x0D = 13" "schar CHR 0x0A = 10"
  by (simp_all add: schar_def)

subsection \<open>Where the machine goes\<close>

text \<open>The three loops over percent-encoded text: path, query and fragment.\<close>

lemma path_loop:
  "path_char c \<Longrightarrow> http_switch r 26 (schar c) = St 26" "http_switch r 26 (schar CHR ''%'') = St 27"
  "hex_char c \<Longrightarrow> http_switch r 27 (schar c) = St 28" "hex_char c \<Longrightarrow> http_switch r 28 (schar c) = St 26"
  by (auto simp: http_switch_at http_case_26_def http_case_27_def http_case_28_def http_widec_def char_defs schar_ascii)

lemma query_loop:
  "query_char c \<Longrightarrow> http_switch r 30 (schar c) = St 30" "http_switch r 30 (schar CHR ''%'') = St 31"
  "hex_char c \<Longrightarrow> http_switch r 31 (schar c) = St 32" "hex_char c \<Longrightarrow> http_switch r 32 (schar c) = St 30"
  by (auto simp: http_switch_at http_case_30_def http_case_31_def http_case_32_def http_widec_def char_defs schar_ascii)

lemma fragment_loop:
  "query_char c \<Longrightarrow> http_switch r 21 (schar c) = St 21" "http_switch r 21 (schar CHR ''%'') = St 22"
  "hex_char c \<Longrightarrow> http_switch r 22 (schar c) = St 23" "hex_char c \<Longrightarrow> http_switch r 23 (schar c) = St 21"
  by (auto simp: http_switch_at http_case_21_def http_case_22_def http_case_23_def http_widec_def char_defs schar_ascii)

text \<open>Their first characters, which set the mark, and the characters that end them.\<close>

lemma path_start:
  "http_switch r 3 (schar CHR ''/'') = Tr 10"
  "http_switch r 33 (schar CHR ''%'') = St 27" "http_switch r 33 (schar CHR '' '') = Tr 37"
  "http_switch r 33 (schar CHR ''?'') = Tr 42" "http_switch r 33 (schar CHR ''#'') = Tr 39"
  by (simp_all add: http_switch_at http_case_3_def http_case_33_def http_widec_def)

lemma path_second:
  assumes "path_char c" "c \<noteq> CHR ''/''"
  shows "http_switch r 33 (schar c) = St 26"
proof -
  have n: "(of_char c :: nat) \<noteq> 47" "(of_char c :: nat) < 128"
    using of_char_other[OF assms(2)] assms(1) by (auto simp: char_defs)
  have "http_widec r (schar c) = schar c"
    using assms(1) n by (auto simp: http_widec_def char_defs schar_ascii)
  then show ?thesis
    using assms(1) n by (auto simp: http_switch_at http_case_33_def char_defs schar_ascii)
qed

lemma query_start:
  "query_char c \<Longrightarrow> http_switch r 29 (schar c) = Tr 54" "http_switch r 29 (schar CHR ''%'') = Tr 56"
  "query_char c \<Longrightarrow> http_switch r 20 (schar c) = Tr 44" "http_switch r 20 (schar CHR ''%'') = Tr 45"
  by (auto simp: http_switch_at http_case_29_def http_case_20_def http_widec_def char_defs schar_ascii)

lemma text_ends:
  "http_switch r 26 (schar CHR '' '') = Tr 37" "http_switch r 26 (schar CHR ''?'') = Tr 42"
  "http_switch r 26 (schar CHR ''#'') = Tr 39" "http_switch r 30 (schar CHR '' '') = Tr 57"
  "http_switch r 30 (schar CHR ''#'') = Tr 59" "http_switch r 21 (schar CHR '' '') = Tr 46"
  by (simp_all add: http_switch_at http_case_26_def http_case_30_def http_case_21_def http_widec_def)

text \<open>Header lines: the name, the colon, spaces, the value, the end of the line; and the empty line.\<close>

lemma name_loop:
  "name_char c \<Longrightarrow> http_switch r 13 (schar c) = Tr 23" "name_char c \<Longrightarrow> http_switch r 14 (schar c) = St 14"
  "http_switch r 14 (schar CHR '':'') = Tr 27"
  by (auto simp: http_switch_at http_case_13_def http_case_14_def char_defs schar_ascii)

lemma value_loop:
  "value_char c \<Longrightarrow> http_switch r 16 (schar c) = St 16" "http_switch r 15 (schar CHR '' '') = Tr 29"
  by (auto simp: http_switch_at http_case_15_def http_case_16_def char_defs schar_ascii schar_high)

lemma value_start:
  assumes "value_char c" "c \<noteq> CHR '' ''" "c \<noteq> CHR 0x09"
  shows "http_switch r 15 (schar c) = Tr 28"
proof -
  have "(of_char c :: nat) \<noteq> 32" "(of_char c :: nat) \<noteq> 9"
    using of_char_other[OF assms(2)] of_char_other[OF assms(3)] by simp_all
  then show ?thesis
    using assms(1) by (auto simp: http_switch_at http_case_15_def char_defs schar_ascii schar_high)
qed

lemma line_ends:
  "http_switch r 15 (schar CHR 0x0D) = Tr 31" "http_switch r 16 (schar CHR 0x0D) = Tr 34"
  "http_switch r 17 (schar CHR 0x0A) = St 13" "http_switch r 13 (schar CHR 0x0D) = Tr 25"
  "http_switch r 18 (schar CHR 0x0A) = Tr 36"
  by (simp_all add: http_switch_at http_case_15_def http_case_16_def http_case_17_def http_case_13_def http_case_18_def)

text \<open>The method: a first and a second character, then at most 18 more, counted by the state.\<close>

lemma method_states:
  "method_char c \<Longrightarrow> http_switch r 1 (schar c) = Tr 0" "method_char c \<Longrightarrow> http_switch r 2 (schar c) = St 175"
  "http_switch r 2 (schar CHR '' '') = Tr 4"
  by (auto simp: http_switch_at http_case_1_def http_case_2_def char_defs schar_ascii simp del: One_nat_def)

lemma method_count:
  assumes "175 \<le> cs" "cs \<le> 193"
  shows "cs < 193 \<Longrightarrow> method_char c \<Longrightarrow> http_switch r cs (schar c) = St (Suc cs)"
    and "http_switch r cs (schar CHR '' '') = Tr 4"
proof -
  have "cs \<in> {175, 176, 177, 178, 179, 180, 181, 182, 183, 184, 185, 186, 187, 188, 189, 190, 191, 192, 193}"
    using assms by simp presburger
  then show "cs < 193 \<Longrightarrow> method_char c \<Longrightarrow> http_switch r cs (schar c) = St (Suc cs)"
    and "http_switch r cs (schar CHR '' '') = Tr 4"
    unfolding method_char_def char_in_def
    by (auto simp: http_switch_at http_case_175_def http_case_176_def http_case_177_def http_case_178_def
        http_case_179_def http_case_180_def http_case_181_def http_case_182_def http_case_183_def http_case_184_def
        http_case_185_def http_case_186_def http_case_187_def http_case_188_def http_case_189_def http_case_190_def
        http_case_191_def http_case_192_def http_case_193_def schar_ascii)
qed

subsection \<open>Triples\<close>

type_synonym req = "http_parser request_parser"

definition reads :: "bool \<Rightarrow> nat \<Rightarrow> string \<Rightarrow> nat \<Rightarrow> (req \<Rightarrow> req) \<Rightarrow> bool" where
  "reads r a xs b f \<longleftrightarrow>
     (\<forall>pre rest m es. length (pre @ xs @ rest) < 2 ^ 64 \<longrightarrow>
        (\<exists>m' es'. exec_loop (http_switch r) http_transition (http_act (pre @ xs @ rest)) (xs @ rest) (length pre) a (m, es) =
             exec_loop (http_switch r) http_transition (http_act (pre @ xs @ rest)) rest (length (pre @ xs)) b (m', es @ es') \<and>
           fold on_request es' = f))"

lemma readsI:
  assumes "\<And>pre rest m es. length (pre @ xs @ rest) < 2 ^ 64 \<Longrightarrow>
     \<exists>m' es'. exec_loop (http_switch r) http_transition (http_act (pre @ xs @ rest)) (xs @ rest) (length pre) a (m, es) =
          exec_loop (http_switch r) http_transition (http_act (pre @ xs @ rest)) rest (length (pre @ xs)) b (m', es @ es') \<and>
        fold on_request es' = f"
  shows "reads r a xs b f"
  using assms unfolding reads_def by blast

lemma reads_append:
  assumes "reads r a xs b f" "reads r b ys c g"
  shows "reads r a (xs @ ys) c (g \<circ> f)"
proof (rule readsI)
  fix pre rest :: string and m :: http_parser and es
  assume len: "length (pre @ (xs @ ys) @ rest) < 2 ^ 64"
  obtain m1 es1 where 1: "exec_loop (http_switch r) http_transition (http_act (pre @ xs @ ys @ rest)) (xs @ ys @ rest) (length pre) a (m, es) =
      exec_loop (http_switch r) http_transition (http_act (pre @ xs @ ys @ rest)) (ys @ rest) (length (pre @ xs)) b (m1, es @ es1)"
      "fold on_request es1 = f"
    using assms(1) len unfolding reads_def by (metis append.assoc)
  obtain m2 es2 where 2: "exec_loop (http_switch r) http_transition (http_act ((pre @ xs) @ ys @ rest)) (ys @ rest) (length (pre @ xs)) b (m1, es @ es1) =
      exec_loop (http_switch r) http_transition (http_act ((pre @ xs) @ ys @ rest)) rest (length ((pre @ xs) @ ys)) c (m2, (es @ es1) @ es2)"
      "fold on_request es2 = g"
    using assms(2) len unfolding reads_def by (metis append.assoc)
  show "\<exists>m' es'. exec_loop (http_switch r) http_transition (http_act (pre @ (xs @ ys) @ rest)) ((xs @ ys) @ rest) (length pre) a (m, es) =
        exec_loop (http_switch r) http_transition (http_act (pre @ (xs @ ys) @ rest)) rest (length (pre @ xs @ ys)) c (m', es @ es') \<and>
      fold on_request es' = g \<circ> f"
    using 1 2 by (intro exI[of _ m2] exI[of _ "es1 @ es2"]) simp
qed

text \<open>The text of an event: from a mark in the buffer to a later position.\<close>

lemma PTR_TO_here: "length pre < 2 ^ 64 \<Longrightarrow> PTR_TO (pre @ t) (of_nat (length pre)) = t"
  by (simp add: PTR_TO_def unat_position)

lemma LEN_from: "a \<le> p \<Longrightarrow> p < 2 ^ 64 \<Longrightarrow> unat (LEN (of_nat a) p) = p - a"
  by (subst LEN_inside) (simp_all add: unat_position)

lemma http_trs [simp]:
  "http_transition 0 = ([A_mark], Goto 2)" "http_transition 4 = ([A_request_method], Goto 3)"
  "http_transition 10 = ([A_mark], Goto 33)" "http_transition 37 = ([A_request_path, A_request_uri], Goto 4)"
  "http_transition 42 = ([A_request_path], Goto 29)" "http_transition 39 = ([A_request_path, A_request_uri], Goto 20)"
  "http_transition 54 = ([A_start_query], Goto 30)" "http_transition 56 = ([A_start_query], Goto 31)"
  "http_transition 57 = ([A_query_string, A_request_uri], Goto 4)" "http_transition 59 = ([A_query_string, A_request_uri], Goto 20)"
  "http_transition 44 = ([A_mark], Goto 21)" "http_transition 45 = ([A_mark], Goto 22)"
  "http_transition 46 = ([A_fragment], Goto 4)" "http_transition 13 = ([A_mark], Goto 5)"
  "http_transition 22 = ([A_http_version], Goto 17)" "http_transition 23 = ([A_start_field], Goto 14)"
  "http_transition 28 = ([A_start_value], Goto 16)"
  "http_transition 29 = ([A_start_value], Goto 15)" "http_transition 31 = ([A_start_value, A_write_value], Goto 17)"
  "http_transition 34 = ([A_write_value], Goto 17)" "http_transition 25 = ([A_start_field], Goto 18)"
  by (simp_all add: http_transition_at http_tr_defs)

subsection \<open>The method\<close>

lemma method_rest:
  "\<forall>c \<in> set xs. method_char c \<Longrightarrow> 175 \<le> cs \<Longrightarrow> cs + length xs \<le> 193 \<Longrightarrow>
   exec_loop (http_switch r) tr act (xs @ rest) p cs s = exec_loop (http_switch r) tr act rest (p + length xs) (cs + length xs) s"
proof (induction xs arbitrary: cs p)
  case (Cons c xs)
  then have "http_switch r cs (schar c) = St (Suc cs)" by (intro method_count) simp_all
  then show ?case using Cons.IH[of "Suc cs" "Suc p"] Cons.prems by simp
qed simp

lemma reads_method:
  assumes "\<forall>c \<in> set mth. method_char c" "2 \<le> length mth" "length mth \<le> 20"
    and "\<And>rest. CharsToHttpMethod (mth @ rest) = i" "i \<noteq> INVALID_METHOD"
  shows "reads r 1 (mth @ '' '') 3 (\<lambda>parser. parser\<lparr>rp_data := (rp_data parser)\<lparr>rq_method := i\<rparr>\<rparr>)"
proof (rule readsI)
  fix pre rest :: string and m :: http_parser and es
  let ?b = "pre @ (mth @ '' '') @ rest" and ?m = "m\<lparr>ps_mark := of_nat (length pre)\<rparr>"
  assume len: "length ?b < 2 ^ 64"
  obtain c d xs where mth: "mth = c # d # xs" using assms(2) by (cases mth; cases "tl mth") auto
  have "exec_loop (http_switch r) http_transition (http_act ?b) ((mth @ '' '') @ rest) (length pre) 1 (m, es) =
      exec_loop (http_switch r) http_transition (http_act ?b) ('' '' @ rest) (length pre + 2 + length xs) (175 + length xs) (?m, es)"
    using assms(1,3) method_states(1)[of c r] method_states(2)[of d r]
      method_rest[of xs 175 r http_transition "http_act ?b" "'' '' @ rest" "length pre + 2" "(?m, es)"]
    by (simp add: mth del: One_nat_def)
  also have "\<dots> = exec_loop (http_switch r) http_transition (http_act ?b) rest (length (pre @ mth @ '' '')) 3
      (?m, es @ [Request_method (PTR_TO ?b (of_nat (length pre))) (unat (LEN (of_nat (length pre)) (length pre + 2 + length xs)))])"
    using assms(3) method_count(2)[of "175 + length xs" r] by (simp add: mth)
  finally show "\<exists>m' es'. exec_loop (http_switch r) http_transition (http_act ?b) ((mth @ '' '') @ rest) (length pre) 1 (m, es) =
        exec_loop (http_switch r) http_transition (http_act ?b) rest (length (pre @ mth @ '' '')) 3 (m', es @ es') \<and>
      fold on_request es' = (\<lambda>parser. parser\<lparr>rp_data := (rp_data parser)\<lparr>rq_method := i\<rparr>\<rparr>)"
    using PTR_TO_here[of pre "mth @ '' '' @ rest"] len assms(4)[of "'' '' @ rest"] assms(5)
    by (intro exI conjI) (assumption, simp add: fun_eq_iff on_request_method_def)
qed

end
