(* ===== verification/Http_Roundtrip.thy ===== *)
theory Http_Roundtrip
  imports Http11_Laws
begin

text \<open>
  The printed request is read back: the parts of a request behind the method as triples of the state machine
  (\<open>reads\<close>), their composition along \<open>rq_dump\<close>, and the request parser (\<open>rp_execute\<close>) on the whole text.
\<close>

subsection \<open>The request target\<close>

text \<open>The target after its delimiter: the three ways a path or a query ends.\<close>

lemma reads_pct:
  assumes "pct_text cls hex_char xs" "s0 \<noteq> 0" "s1 \<noteq> 0" "s2 \<noteq> 0" "xs \<noteq> []"
    "\<And>c. cls c \<Longrightarrow> http_switch r s0 (schar c) = St s0" "http_switch r s0 (schar CHR ''%'') = St s1"
    "\<And>c. hex_char c \<Longrightarrow> http_switch r s1 (schar c) = St s2" "\<And>c. hex_char c \<Longrightarrow> http_switch r s2 (schar c) = St s0"
    "\<And>c. cls c \<Longrightarrow> http_switch r a (schar c) = Tr n" "http_switch r a (schar CHR ''%'') = Tr n'"
    "http_transition n = (as, Goto s0)" "http_transition n' = (as, Goto s1)"
  shows "exec_loop (http_switch r) http_transition act (xs @ rest) p a s =
     exec_loop (http_switch r) http_transition act rest (p + length xs) s0 (fold (\<lambda>a. act a p) as s)"
proof -
  obtain c t where xs: "xs = c # t" using assms(5) by (cases xs) auto
  show ?thesis
  proof (cases "c = CHR ''%''")
    case True
    then obtain d e u where t: "t = d # e # u" "hex_char d" "hex_char e" "pct_text cls hex_char u"
      using assms(1) xs by (auto split: list.splits)
    show ?thesis
      using exec_pct[where sw = "http_switch r" and tr = http_transition and act = act and rest = rest, OF t(4) assms(2-4,6-9)] t xs True assms by simp
  next
    case False
    then show ?thesis
      using exec_pct[where sw = "http_switch r" and tr = http_transition and act = act and xs = t and rest = rest and cls = cls and hex = hex_char, OF _ assms(2-4,6-9)] xs assms by simp
  qed
qed

lemma exec_same:
  "sw a (schar c) = sw b (schar c) \<Longrightarrow> sw b (schar c) \<noteq> Out \<Longrightarrow>
   exec_loop sw tr act (c # rest) p a s = exec_loop sw tr act (c # rest) p b s"
  by (cases "sw b (schar c)") simp_all

abbreviation set_path :: "string \<Rightarrow> req \<Rightarrow> req" where
  "set_path path parser \<equiv> parser\<lparr>rp_data := (rp_data parser)\<lparr>rq_path := path\<rparr>\<rparr>"

abbreviation set_query :: "string \<Rightarrow> req \<Rightarrow> req" where
  "set_query q parser \<equiv> parser\<lparr>rp_data := (rp_data parser)\<lparr>rq_query := q\<rparr>\<rparr>"

abbreviation set_fragment :: "string \<Rightarrow> req \<Rightarrow> req" where
  "set_fragment f parser \<equiv> parser\<lparr>rp_data := (rp_data parser)\<lparr>rq_fragment := f\<rparr>\<rparr>"

definition path_ok :: "string \<Rightarrow> bool" where
  "path_ok path \<longleftrightarrow> (case path of [] \<Rightarrow> False | c # t \<Rightarrow>
     c = CHR ''/'' \<and> (t = [] \<or> hd t \<noteq> CHR ''/'') \<and> pct_text path_char hex_char t)"

lemma reads_path:
  assumes "path_ok path" "(d, n, t) \<in> {(CHR '' '', 37 :: nat, 4 :: nat), (CHR ''?'', 42, 29), (CHR ''#'', 39, 20)}"
  shows "reads r 3 (path @ [d]) t (set_path path)"
proof (rule readsI)
  fix pre rest :: string and m :: http_parser and es
  let ?b = "pre @ (path @ [d]) @ rest" and ?m = "m\<lparr>ps_mark := of_nat (length pre)\<rparr>"
  let ?p = "length pre + length path"
  assume len: "length ?b < 2 ^ 64"
  obtain u where path: "path = CHR ''/'' # u" "u = [] \<or> hd u \<noteq> CHR ''/''" "pct_text path_char hex_char u"
    using assms(1) by (auto simp: path_ok_def split: list.splits)
  have d: "http_switch r 26 (schar d) = Tr n" "http_switch r 33 (schar d) = Tr n"
    using assms(2) text_ends path_start by auto
  have "http_switch r 33 (schar (hd (u @ [d]))) = http_switch r 26 (schar (hd (u @ [d]))) \<and>
      http_switch r 26 (schar (hd (u @ [d]))) \<noteq> Out"
    using path(2,3) d path_second[of "hd u" r] path_start(2)[of r] path_loop(1)[of "hd u" r] path_loop(2)[of r]
    by (cases u) (auto split: if_splits)
  then have "exec_loop (http_switch r) http_transition (http_act ?b) ((u @ [d]) @ rest) (Suc (length pre)) 33 (?m, es) =
      exec_loop (http_switch r) http_transition (http_act ?b) ((u @ [d]) @ rest) (Suc (length pre)) 26 (?m, es)"
    using exec_same[where sw = "http_switch r" and tr = http_transition and act = "http_act ?b" and a = 33 and c = "hd (u @ [d])" and b = 26 and rest = "tl (u @ [d]) @ rest"]
    by (cases u) simp_all
  also have "\<dots> = exec_loop (http_switch r) http_transition (http_act ?b) (d # rest) ?p 26 (?m, es)"
    using exec_pct[where sw = "http_switch r" and tr = http_transition and act = "http_act ?b" and rest = "d # rest", OF path(3) _ _ _ path_loop] path(1)
    by (simp del: exec_loop.simps)
  finally have run: "exec_loop (http_switch r) http_transition (http_act ?b) ((path @ [d]) @ rest) (length pre) 3 (m, es) =
      exec_loop (http_switch r) http_transition (http_act ?b) (d # rest) ?p 26 (?m, es)"
    using path(1) path_start(1) by simp
  have taken: "take (unat (LEN (of_nat (length pre)) ?p)) (PTR_TO ?b (of_nat (length pre))) = path"
    using PTR_TO_here[of pre "path @ d # rest"] LEN_from[of "length pre" ?p] len by simp
  show "\<exists>m' es'. exec_loop (http_switch r) http_transition (http_act ?b) ((path @ [d]) @ rest) (length pre) 3 (m, es) =
        exec_loop (http_switch r) http_transition (http_act ?b) rest (length (pre @ path @ [d])) t (m', es @ es') \<and>
      fold on_request es' = set_path path"
    unfolding run using assms(2) d(1) taken
    by (elim insertE) (auto intro!: exI simp: on_request_path_def fun_eq_iff)
qed

lemma reads_query:
  assumes "pct_text query_char hex_char q" "q \<noteq> []" "(d, n, t) \<in> {(CHR '' '', 57 :: nat, 4 :: nat), (CHR ''#'', 59, 20)}"
  shows "reads r 29 (q @ [d]) t (set_query q)"
proof (rule readsI)
  fix pre rest :: string and m :: http_parser and es
  let ?b = "pre @ (q @ [d]) @ rest" and ?m = "m\<lparr>ps_query_start := of_nat (length pre)\<rparr>"
  let ?p = "length pre + length q"
  assume len: "length ?b < 2 ^ 64"
  have d: "http_switch r 30 (schar d) = Tr n" using assms(3) text_ends by auto
  have run: "exec_loop (http_switch r) http_transition (http_act ?b) (q @ d # rest) (length pre) 29 (m, es) =
      exec_loop (http_switch r) http_transition (http_act ?b) (d # rest) ?p 30 (?m, es)"
    using reads_pct[where act = "http_act ?b", OF assms(1) _ _ _ assms(2) query_loop query_start(1,2) http_trs(7,8)]
    by (simp del: exec_loop.simps)
  have taken: "take (unat (LEN (of_nat (length pre)) ?p)) (PTR_TO ?b (of_nat (length pre))) = q"
    using PTR_TO_here[of pre "q @ d # rest"] LEN_from[of "length pre" ?p] len by simp
  show "\<exists>m' es'. exec_loop (http_switch r) http_transition (http_act ?b) ((q @ [d]) @ rest) (length pre) 29 (m, es) =
        exec_loop (http_switch r) http_transition (http_act ?b) rest (length (pre @ q @ [d])) t (m', es @ es') \<and>
      fold on_request es' = set_query q"
    using run assms(3) d taken
    by (elim insertE) (auto intro!: exI simp: on_request_query_def fun_eq_iff)
qed

lemma reads_fragment:
  assumes "pct_text query_char hex_char f" "f \<noteq> []"
  shows "reads r 20 (f @ '' '') 4 (set_fragment f)"
proof (rule readsI)
  fix pre rest :: string and m :: http_parser and es
  let ?b = "pre @ (f @ '' '') @ rest" and ?m = "m\<lparr>ps_mark := of_nat (length pre)\<rparr>"
  let ?p = "length pre + length f"
  assume len: "length ?b < 2 ^ 64"
  have run: "exec_loop (http_switch r) http_transition (http_act ?b) (f @ CHR '' '' # rest) (length pre) 20 (m, es) =
      exec_loop (http_switch r) http_transition (http_act ?b) (CHR '' '' # rest) ?p 21 (?m, es)"
    using reads_pct[where act = "http_act ?b", OF assms(1) _ _ _ assms(2) fragment_loop query_start(3,4) http_trs(11,12)]
    by (simp del: exec_loop.simps)
  have taken: "take (unat (LEN (of_nat (length pre)) ?p)) (PTR_TO ?b (of_nat (length pre))) = f"
    using PTR_TO_here[of pre "f @ '' '' @ rest"] LEN_from[of "length pre" ?p] len by simp
  show "\<exists>m' es'. exec_loop (http_switch r) http_transition (http_act ?b) ((f @ '' '') @ rest) (length pre) 20 (m, es) =
        exec_loop (http_switch r) http_transition (http_act ?b) rest (length (pre @ f @ '' '')) 4 (m', es @ es') \<and>
      fold on_request es' = set_fragment f"
    using run text_ends taken by (auto intro!: exI simp: on_request_fragment_def fun_eq_iff)
qed

subsection \<open>The version\<close>

abbreviation set_version :: "8 word \<Rightarrow> req \<Rightarrow> req" where
  "set_version v parser \<equiv> parser\<lparr>rp_data := (rp_data parser)\<lparr>rq_version := v\<rparr>\<rparr>"

lemma version_states:
  "http_switch r 4 (schar CHR ''H'') = Tr 13" "http_switch r 5 (schar CHR ''T'') = St 6"
  "http_switch r 6 (schar CHR ''T'') = St 7" "http_switch r 7 (schar CHR ''P'') = St 8"
  "http_switch r 8 (schar CHR ''/'') = St 9" "http_switch r 9 (schar CHR ''1'') = St 10"
  "http_switch r 10 (schar CHR ''.'') = St 11" "v \<in> {CHR ''0'', CHR ''1''} \<Longrightarrow> http_switch r 11 (schar v) = St 12"
  "http_switch r 12 (schar CHR 0x0D) = Tr 22"
  by (auto simp: http_switch_at http_case_4_def http_case_5_def http_case_6_def http_case_7_def http_case_8_def
      http_case_9_def http_case_10_def http_case_11_def http_case_12_def schar_def)

lemma version_event:
  "v \<in> {(CHR ''0'', 0x10), (CHR ''1'', 0x11)} \<Longrightarrow>
   on_request_version (''HTTP/1.'' @ fst v # t) 8 = set_version (snd v)"
  by (auto simp: on_request_version_def strncmp_eq_def c_str_def fun_eq_iff)

lemma reads_version:
  assumes "v \<in> {(CHR ''0'', 0x10), (CHR ''1'', 0x11)}"
  shows "reads r 4 (''HTTP/1.'' @ fst v # CRLF) 13 (set_version (snd v))"
proof (rule readsI)
  fix pre rest :: string and m :: http_parser and es
  let ?b = "pre @ (''HTTP/1.'' @ fst v # CRLF) @ rest" and ?m = "m\<lparr>ps_mark := of_nat (length pre)\<rparr>"
  let ?p = "Suc (Suc (Suc (Suc (Suc (Suc (Suc (Suc (length pre))))))))"
  assume len: "length ?b < 2 ^ 64"
  have run: "exec_loop (http_switch r) http_transition (http_act ?b) ((''HTTP/1.'' @ fst v # CRLF) @ rest) (length pre) 4 (m, es) =
      exec_loop (http_switch r) http_transition (http_act ?b) rest (length (pre @ ''HTTP/1.'' @ fst v # CRLF)) 13
        (?m, es @ [Request_version (PTR_TO ?b (of_nat (length pre))) (unat (LEN (of_nat (length pre)) ?p))])"
    using version_states(1-7,9)[of r] version_states(8)[of "fst v" r] line_ends(3)[of r] assms
    by (auto simp: CRLF_def simp del: schar_special)
  have taken: "PTR_TO ?b (of_nat (length pre)) = ''HTTP/1.'' @ fst v # CRLF @ rest"
    "unat (LEN (of_nat (length pre)) ?p) = 8"
    using PTR_TO_here[of pre "''HTTP/1.'' @ fst v # CRLF @ rest"] LEN_from[of "length pre" ?p] len by simp_all
  show "\<exists>m' es'. exec_loop (http_switch r) http_transition (http_act ?b) ((''HTTP/1.'' @ fst v # CRLF) @ rest) (length pre) 4 (m, es) =
        exec_loop (http_switch r) http_transition (http_act ?b) rest (length (pre @ ''HTTP/1.'' @ fst v # CRLF)) 13 (m', es @ es') \<and>
      fold on_request es' = set_version (snd v)"
    unfolding run taken by (intro exI conjI) (rule refl, use version_event[OF assms, of "CRLF @ rest"] in simp)
qed

subsection \<open>Header lines\<close>

definition name_ok :: "string \<Rightarrow> bool" where
  "name_ok k \<longleftrightarrow> k \<noteq> [] \<and> (\<forall>c \<in> set k. name_char c)"

definition value_ok :: "string \<Rightarrow> bool" where
  "value_ok v \<longleftrightarrow> (\<forall>c \<in> set v. value_char c) \<and> (v = [] \<or> hd v \<noteq> CHR '' '' \<and> hd v \<noteq> CHR 0x09)"

abbreviation set_field :: "string \<Rightarrow> string \<Rightarrow> req \<Rightarrow> req" where
  "set_field k v parser \<equiv> parser\<lparr>rp_data := rq_setHeader k v (rp_data parser)\<rparr>"

lemma exec_name:
  assumes "name_ok k"
  shows "exec_loop (http_switch r) http_transition (http_act b) (k @ CHR '':'' # t) p 13 (m, es) =
     exec_loop (http_switch r) http_transition (http_act b) t (Suc (p + length k)) 15
       (m\<lparr>ps_field_start := of_nat p, ps_field_len := LEN (of_nat p) (p + length k)\<rparr>, es)"
proof -
  obtain c u where k: "k = c # u" "name_char c" "\<forall>c \<in> set u. http_switch r 14 (schar c) = St 14"
    using assms name_loop(2) by (cases k) (auto simp: name_ok_def)
  let ?m = "m\<lparr>ps_field_start := of_nat p\<rparr>"
  have "exec_loop (http_switch r) http_transition (http_act b) (k @ CHR '':'' # t) p 13 (m, es) =
      exec_loop (http_switch r) http_transition (http_act b) (u @ CHR '':'' # t) (Suc p) 14 (?m, es)"
    using k name_loop(1)[of c r] by simp
  also have "\<dots> = exec_loop (http_switch r) http_transition (http_act b) (CHR '':'' # t) (p + length k) 14 (?m, es)"
    using exec_stay[where sw = "http_switch r" and tr = http_transition and act = "http_act b", OF k(3)] k(1)
    by (simp del: exec_loop.simps)
  finally show ?thesis using name_loop(3)[of r] by simp
qed

lemma exec_value:
  assumes "value_ok v"
  shows "exec_loop (http_switch r) http_transition (http_act b) (v @ CRLF @ t) q 15 (m, es) =
     exec_loop (http_switch r) http_transition (http_act b) t (Suc (Suc (q + length v))) 13
       (m\<lparr>ps_mark := of_nat q\<rparr>, es @ [Request_field (PTR_TO b (ps_field_start m)) (unat (ps_field_len m))
          (PTR_TO b (of_nat q)) (unat (LEN (of_nat q) (q + length v)))])"
proof (cases v)
  case Nil
  then show ?thesis using line_ends(1,3)[of r] by (simp add: CRLF_def)
next
  case (Cons c u)
  have v: "\<forall>c \<in> set u. http_switch r 16 (schar c) = St 16" "http_switch r 15 (schar c) = Tr 28"
    using assms value_loop(1) value_start Cons by (auto simp: value_ok_def)
  have "exec_loop (http_switch r) http_transition (http_act b) (v @ CRLF @ t) q 15 (m, es) =
      exec_loop (http_switch r) http_transition (http_act b) (u @ CRLF @ t) (Suc q) 16 (m\<lparr>ps_mark := of_nat q\<rparr>, es)"
    using Cons v(2) by simp
  also have "\<dots> = exec_loop (http_switch r) http_transition (http_act b) (CRLF @ t) (q + length v) 16 (m\<lparr>ps_mark := of_nat q\<rparr>, es)"
    using exec_stay[where sw = "http_switch r" and tr = http_transition and act = "http_act b", OF v(1)] Cons
    by (simp del: exec_loop.simps)
  finally show ?thesis using line_ends(2,3)[of r] by (simp add: CRLF_def)
qed

lemma reads_field:
  assumes "name_ok k" "value_ok v" "sp \<in> {[], '' ''}"
  shows "reads r 13 (k @ CHR '':'' # sp @ v @ CRLF) 13 (set_field k v)"
proof (rule readsI)
  fix pre rest :: string and m :: http_parser and es
  let ?x = "k @ CHR '':'' # sp @ v @ CRLF"
  let ?b = "pre @ ?x @ rest" and ?p = "length pre" and ?q = "Suc (length pre + length k) + length sp"
  let ?m = "m\<lparr>ps_field_start := of_nat ?p, ps_field_len := LEN (of_nat ?p) (?p + length k)\<rparr>"
  assume len: "length ?b < 2 ^ 64"
  have "exec_loop (http_switch r) http_transition (http_act ?b) (?x @ rest) ?p 13 (m, es) =
      exec_loop (http_switch r) http_transition (http_act ?b) (sp @ v @ CRLF @ rest) (Suc (?p + length k)) 15 (?m, es)"
    using exec_name[OF assms(1)] by simp
  moreover obtain mk where "exec_loop (http_switch r) http_transition (http_act ?b) (sp @ v @ CRLF @ rest) (Suc (?p + length k)) 15 (?m, es) =
      exec_loop (http_switch r) http_transition (http_act ?b) (v @ CRLF @ rest) ?q 15 (?m\<lparr>ps_mark := mk\<rparr>, es)"
  proof (cases "sp = []")
    case True
    then show ?thesis using that[of "ps_mark m"] by (simp del: exec_loop.simps)
  next
    case False
    then have "sp = '' ''" using assms(3) by simp
    then show ?thesis using that[of "of_nat (Suc (?p + length k))"] value_loop(2)[of r] by simp
  qed
  ultimately have run: "exec_loop (http_switch r) http_transition (http_act ?b) (?x @ rest) ?p 13 (m, es) =
      exec_loop (http_switch r) http_transition (http_act ?b) (v @ CRLF @ rest) ?q 15 (?m\<lparr>ps_mark := mk\<rparr>, es)"
    by (rule trans)
  have taken: "PTR_TO ?b (of_nat ?p) = ?x @ rest" "PTR_TO ?b (of_nat ?q) = v @ CRLF @ rest"
    "unat (LEN (of_nat ?p) (?p + length k)) = length k" "unat (LEN (of_nat ?q) (?q + length v)) = length v"
    using PTR_TO_here[of pre "?x @ rest"] PTR_TO_here[of "pre @ k @ CHR '':'' # sp" "v @ CRLF @ rest"] len
      LEN_from[of ?p "?p + length k"] LEN_from[of ?q "?q + length v"] by (simp_all add: CRLF_def add.assoc)
  have pos: "Suc (Suc (?q + length v)) = length (pre @ ?x)" by (simp add: CRLF_def)
  have fin: "exec_loop (http_switch r) http_transition (http_act ?b) (?x @ rest) ?p 13 (m, es) =
      exec_loop (http_switch r) http_transition (http_act ?b) rest (length (pre @ ?x)) 13
        (?m\<lparr>ps_mark := of_nat ?q\<rparr>, es @ [Request_field (?x @ rest) (length k) (v @ CRLF @ rest) (length v)])"
    unfolding run exec_value[OF assms(2)] pos[symmetric] using taken by simp
  have "fold on_request [Request_field (?x @ rest) (length k) (v @ CRLF @ rest) (length v)] = set_field k v"
    using assms(1) by (simp add: name_ok_def fun_eq_iff on_request_http_field_def)
  with fin show "\<exists>m' es'. exec_loop (http_switch r) http_transition (http_act ?b) (?x @ rest) (length pre) 13 (m, es) =
        exec_loop (http_switch r) http_transition (http_act ?b) rest (length (pre @ ?x)) 13 (m', es @ es') \<and>
      fold on_request es' = set_field k v"
    by blast
qed

subsection \<open>The printed request\<close>

text \<open>The header lines in the order of \<open>rq_dump\<close>: the name, what follows the colon, the value.\<close>

definition dump_fields :: "http_request \<Rightarrow> (string \<times> string \<times> string) list" where
  "dump_fields rq = (''connection'', '' '', if rq_close rq then ''close'' else ''keep-alive'') #
     map (\<lambda>(k, v). (k, [], v)) (filter (\<lambda>e. \<not> is_connection (fst e)) (rq_headers rq)) @
     (if rq_body rq = [] then [] else [(''content-length'', '' '', show_nat (length (rq_body rq)))])"

definition field_line :: "string \<times> string \<times> string \<Rightarrow> string" where
  "field_line f = (case f of (k, sp, v) \<Rightarrow> k @ CHR '':'' # sp @ v @ CRLF)"

definition set_fields :: "(string \<times> string \<times> string) list \<Rightarrow> req \<Rightarrow> req" where
  "set_fields fs = fold (\<lambda>(k, sp, v). set_field k v) fs"

text \<open>The target with its delimiters, up to and with the space behind it.\<close>

definition target_text :: "http_request \<Rightarrow> string" where
  "target_text rq = rq_path rq @ (if rq_query rq = [] then [] else CHR ''?'' # rq_query rq) @
     (if rq_fragment rq = [] then [] else CHR ''#'' # rq_fragment rq) @ '' ''"

lemma show_nat_two: "show_nat (Suc (Suc 0)) = ''2''"
  by (subst show_nat.simps) (simp add: dec_digit_def)

lemma dump_versions: "dump_version 0x10 = ''1.0''" "dump_version 0x11 = ''1.1''"
proof -
  have "show_nat 0 = ''0''" "show_nat 1 = ''1''" by (subst show_nat.simps, simp add: dec_digit_def)+
  then show "dump_version 0x10 = ''1.0''" "dump_version 0x11 = ''1.1''" by (simp_all add: dump_version_def)
qed

lemma rq_dump_parts:
  "rq_version rq \<in> {0x10, 0x11} \<Longrightarrow>
   rq_dump rq = (HttpMethodToString (rq_method rq) @ '' '') @ target_text rq @
     (''HTTP/1.'' @ (if rq_version rq = 0x10 then CHR ''0'' else CHR ''1'') # CRLF) @
     concat (map field_line (dump_fields rq)) @ CRLF @ rq_body rq"
proof -
  have lines: "concat (map (\<lambda>(k, v). if is_connection k then [] else k @ '':'' @ v @ CRLF) m) =
      concat (map (field_line \<circ> (\<lambda>(k, v). (k, [], v))) (filter (\<lambda>e. \<not> is_connection (fst e)) m))" for m
    by (induction m) (auto simp: field_line_def)
  assume "rq_version rq \<in> {0x10, 0x11}"
  then show ?thesis
    by (auto simp: rq_dump_def target_text_def dump_versions dump_connection_def dump_body_def dump_fields_def
        lines field_line_def)
qed

text \<open>What can be printed and read: a method that the grammar has, a plain target, headers without control characters.\<close>

definition printable :: "http_request \<Rightarrow> bool" where
  "printable rq \<longleftrightarrow>
     rq_method rq < INVALID_METHOD \<and> HttpMethodToString (rq_method rq) \<noteq> ''M-SEARCH'' \<and>
     rq_version rq \<in> {0x10, 0x11} \<and> path_ok (rq_path rq) \<and>
     pct_text query_char hex_char (rq_query rq) \<and> pct_text query_char hex_char (rq_fragment rq) \<and>
     (\<forall>(k, v) \<in> set (rq_headers rq). name_ok k \<and> value_ok v)"

lemma method_names:
  "list_all (\<lambda>s. s = ''M-SEARCH'' \<or> list_all method_char s \<and> 2 \<le> length s \<and> length s \<le> 20) method_table"
  by (simp add: method_table_def char_defs)

lemma reads_nil: "reads r a [] a id"
  unfolding reads_def by (auto intro!: exI[of _ "[]"] simp: id_def)

lemma reads_target:
  assumes "path_ok (rq_path rq)" "pct_text query_char hex_char (rq_query rq)" "pct_text query_char hex_char (rq_fragment rq)"
  shows "reads r 3 (target_text rq) 4
     ((if rq_fragment rq = [] then id else set_fragment (rq_fragment rq)) \<circ>
      (if rq_query rq = [] then id else set_query (rq_query rq)) \<circ> set_path (rq_path rq))"
proof -
  note path = reads_path[OF assms(1)]
  have frag: "rq_fragment rq \<noteq> [] \<Longrightarrow> reads r 20 (rq_fragment rq @ '' '') 4 (set_fragment (rq_fragment rq))"
    using reads_fragment assms(3) by blast
  show ?thesis
  proof (cases "rq_query rq = []")
    case True
    then show ?thesis
      using path[of "CHR '' ''" 37 4] reads_append[OF path[of "CHR ''#''" 39 20] frag]
      by (auto simp: target_text_def)
  next
    case False
    note query = reads_query[OF assms(2) False]
    have q: "reads r 3 ((rq_path rq @ ''?'') @ rq_query rq @ [d]) t (set_query (rq_query rq) \<circ> set_path (rq_path rq))"
      if "(d, n, t) \<in> {(CHR '' '', 57 :: nat, 4 :: nat), (CHR ''#'', 59, 20)}" for d n t
      using reads_append[OF path[of "CHR ''?''" 42 29] query[OF that]] by simp
    show ?thesis
      using False q[of "CHR '' ''" 57 4] reads_append[OF q[of "CHR ''#''" 59 20] frag]
      by (auto simp: target_text_def comp_assoc)
  qed
qed

lemma reads_fields:
  assumes "\<forall>(k, sp, v) \<in> set fs. name_ok k \<and> value_ok v \<and> sp \<in> {[], '' ''}"
  shows "reads r 13 (concat (map field_line fs)) 13 (set_fields fs)"
  using assms
proof (induction fs)
  case Nil
  then show ?case using reads_nil by (simp add: set_fields_def id_def)
next
  case (Cons f fs)
  obtain k sp v where f: "f = (k, sp, v)" by (cases f)
  have "reads r 13 (field_line f) 13 (set_field k v)"
    using reads_field[of k v sp r] Cons.prems f by (auto simp: field_line_def)
  then show ?case
    using reads_append[of r 13 "field_line f" 13 "set_field k v" "concat (map field_line fs)" 13 "set_fields fs"] Cons f
    by (simp add: set_fields_def comp_def)
qed

subsection \<open>Reading it back\<close>

lemma exec_end:
  "\<exists>m' es'. exec_loop (http_switch r) http_transition (http_act b) (CRLF @ rest) p 13 (m, es) =
      (Suc (Suc p), 348, (m', es @ es')) \<and> fold on_request es' = (id :: req \<Rightarrow> req)"
  using line_ends(4,5)[of r] by (auto simp: CRLF_def fun_eq_iff)

lemma readsD:
  "reads r a xs b f \<Longrightarrow> length (pre @ xs @ rest) < 2 ^ 64 \<Longrightarrow>
   \<exists>m' es'. exec_loop (http_switch r) http_transition (http_act (pre @ xs @ rest)) (xs @ rest) (length pre) a (m, es) =
        exec_loop (http_switch r) http_transition (http_act (pre @ xs @ rest)) rest (length (pre @ xs)) b (m', es @ es') \<and>
      fold on_request es' = f"
  unfolding reads_def by blast

lemma exec_request:
  assumes "reads r 1 xs 13 f" "length (xs @ CRLF @ rest) < 2 ^ 64"
  shows "\<exists>m' es. exec_loop (http_switch r) http_transition (http_act (xs @ CRLF @ rest)) (xs @ CRLF @ rest) 0 1 (m, []) =
      (length xs + 2, 348, (m', es)) \<and> fold on_request es = f"
proof -
  obtain m1 es1 where run: "exec_loop (http_switch r) http_transition (http_act (xs @ CRLF @ rest)) (xs @ CRLF @ rest) 0 1 (m, []) =
      exec_loop (http_switch r) http_transition (http_act (xs @ CRLF @ rest)) (CRLF @ rest) (length xs) 13 (m1, es1)"
      "fold on_request es1 = f"
    using readsD[OF assms(1), of "[]" "CRLF @ rest" m "[]"] assms(2) by auto
  then show ?thesis
    using exec_end[of r "xs @ CRLF @ rest" rest "length xs" m1 es1] by (auto simp: comp_def id_def fun_eq_iff)
qed

text \<open>What the parser makes of the header lines.\<close>

definition parsed_headers :: "http_request \<Rightarrow> header_map" where
  "parsed_headers rq = fold (\<lambda>(k, sp, v). map_set CaseInsensitiveLess k v) (dump_fields rq) []"

lemma set_fields_data:
  "rp_data (set_fields fs parser) =
     (rp_data parser)\<lparr>rq_headers := fold (\<lambda>(k, sp, v). map_set CaseInsensitiveLess k v) fs (rq_headers (rp_data parser))\<rparr> \<and>
   rp_error (set_fields fs parser) = rp_error parser \<and> rp_parser (set_fields fs parser) = rp_parser parser"
  by (induction fs arbitrary: parser) (auto simp: set_fields_def rq_setHeader_def)

lemma value_ok_number: "value_ok (show_nat n)"
proof -
  have "value_char c" "c \<noteq> CHR '' ''" "c \<noteq> CHR 0x09" if "is_digit c" for c
    using that by (auto simp: is_digit_def char_defs)
  then show ?thesis using show_nat_digits[of n] by (cases "show_nat n") (auto simp: value_ok_def)
qed

lemma dump_fields_ok:
  assumes "printable rq"
  shows "\<forall>(k, sp, v) \<in> set (dump_fields rq). name_ok k \<and> value_ok v \<and> sp \<in> {[], '' ''}"
proof -
  have "name_ok ''connection''" "name_ok ''content-length''" "value_ok ''close''" "value_ok ''keep-alive''"
    by (simp_all add: name_ok_def value_ok_def char_defs)
  then show ?thesis using assms value_ok_number by (auto simp: dump_fields_def printable_def)
qed

lemma reads_request:
  assumes "printable rq"
  defines "v \<equiv> if rq_version rq = 0x10 then CHR ''0'' else CHR ''1''"
  shows "reads r 1 ((HttpMethodToString (rq_method rq) @ '' '') @ target_text rq @ (''HTTP/1.'' @ v # CRLF) @
       concat (map field_line (dump_fields rq))) 13
     (set_fields (dump_fields rq) \<circ> set_version (rq_version rq) \<circ>
      ((if rq_fragment rq = [] then id else set_fragment (rq_fragment rq)) \<circ>
       (if rq_query rq = [] then id else set_query (rq_query rq)) \<circ> set_path (rq_path rq)) \<circ>
      (\<lambda>parser. parser\<lparr>rp_data := (rp_data parser)\<lparr>rq_method := rq_method rq\<rparr>\<rparr>))"
proof -
  have rq: "rq_method rq < INVALID_METHOD" "HttpMethodToString (rq_method rq) \<noteq> ''M-SEARCH''"
    "rq_version rq \<in> {0x10, 0x11}" "path_ok (rq_path rq)"
    "pct_text query_char hex_char (rq_query rq)" "pct_text query_char hex_char (rq_fragment rq)"
    using assms(1) by (simp_all add: printable_def)
  have "length method_table = INVALID_METHOD" by (simp add: INVALID_METHOD_def method_table_def)
  then have "HttpMethodToString (rq_method rq) \<in> set method_table"
    using rq(1) by (simp add: HttpMethodToString_def)
  then have "\<forall>c \<in> set (HttpMethodToString (rq_method rq)). method_char c" "2 \<le> length (HttpMethodToString (rq_method rq))"
    "length (HttpMethodToString (rq_method rq)) \<le> 20"
    using method_names rq(2) by (auto simp: list_all_iff)
  from reads_method[OF this method_roundtrip[OF rq(1), THEN conjunct2, THEN conjunct1]]
  have mth: "reads r 1 (HttpMethodToString (rq_method rq) @ '' '') 3
      (\<lambda>parser. parser\<lparr>rp_data := (rp_data parser)\<lparr>rq_method := rq_method rq\<rparr>\<rparr>)"
    using rq(1) by simp
  have "reads r 4 (''HTTP/1.'' @ v # CRLF) 13 (set_version (rq_version rq))"
    using reads_version[of "(v, rq_version rq)" r] rq(3) by (auto simp: v_def)
  note reads_append[OF this reads_fields[OF dump_fields_ok[OF assms(1)]]]
  from reads_append[OF mth reads_append[OF reads_target[OF rq(4-6)] this]]
  show ?thesis by (simp only: comp_assoc append_assoc)
qed

lemma http_execute_dump:
  assumes "printable rq" "length (rq_dump rq) < 2 ^ 64"
  shows "\<exists>m es. http_parser_run (http_parser_init mem) (rq_dump rq) 0 =
       (length (rq_dump rq) - length (rq_body rq), m, es) \<and> ps_cs m = 348 \<and>
     fold on_request es = set_fields (dump_fields rq) \<circ> set_version (rq_version rq) \<circ>
      ((if rq_fragment rq = [] then id else set_fragment (rq_fragment rq)) \<circ>
       (if rq_query rq = [] then id else set_query (rq_query rq)) \<circ> set_path (rq_path rq)) \<circ>
      (\<lambda>parser. parser\<lparr>rp_data := (rp_data parser)\<lparr>rq_method := rq_method rq\<rparr>\<rparr>)"
proof -
  let ?v = "if rq_version rq = 0x10 then CHR ''0'' else CHR ''1''"
  let ?xs = "(HttpMethodToString (rq_method rq) @ '' '') @ target_text rq @ (''HTTP/1.'' @ ?v # CRLF) @
       concat (map field_line (dump_fields rq))"
  let ?start = "http_parser_init mem"
  let ?mz = "?start\<lparr>ps_nread := 0, ps_mark := 0, ps_field_len := 0, ps_field_start := 0\<rparr>"
  have dump: "rq_dump rq = ?xs @ CRLF @ rq_body rq"
    using rq_dump_parts[of rq] assms(1) by (simp add: printable_def)
  have init: "ps_cs ?mz = 1" by (simp add: http_parser_init_def http_parser_start_def)
  obtain m1 es where run: "http_exec ?mz (rq_dump rq) 0 = (length ?xs + 2, 348, (m1, es))"
      "fold on_request es = set_fields (dump_fields rq) \<circ> set_version (rq_version rq) \<circ>
      ((if rq_fragment rq = [] then id else set_fragment (rq_fragment rq)) \<circ>
       (if rq_query rq = [] then id else set_query (rq_query rq)) \<circ> set_path (rq_path rq)) \<circ>
      (\<lambda>parser. parser\<lparr>rp_data := (rp_data parser)\<lparr>rq_method := rq_method rq\<rparr>\<rparr>)"
    using exec_request[OF reads_request[OF assms(1)] assms(2)[unfolded dump], of "ps_uri_relaxed ?mz \<noteq> 0" ?mz]
    unfolding http_exec_def dump[symmetric] init drop_0 by blast
  have ne: "rq_dump rq \<noteq> []" by (simp add: dump CRLF_def)
  have noerr: "\<not> http_parser_has_error ?start"
    by (simp add: http_parser_has_error_def http_parser_error_def http_parser_init_def http_parser_start_def)
  have "length ?xs + 2 = length (rq_dump rq) - length (rq_body rq)" by (simp add: dump CRLF_def)
  then show ?thesis
    using http_parser_run_unfold[OF ne assms(2) run(1)] noerr run(2) by simp
qed

lemma final_data:
  fixes parser :: req
  assumes "fold on_request es = set_fields (dump_fields rq) \<circ> set_version (rq_version rq) \<circ>
      ((if rq_fragment rq = [] then id else set_fragment (rq_fragment rq)) \<circ>
       (if rq_query rq = [] then id else set_query (rq_query rq)) \<circ> set_path (rq_path rq)) \<circ>
      (\<lambda>parser. parser\<lparr>rp_data := (rp_data parser)\<lparr>rq_method := rq_method rq\<rparr>\<rparr>)"
    and "rp_data parser = mk_HttpRequest 0x11 True"
  shows "rp_data (fold on_request es parser) = (mk_HttpRequest 0x11 True)\<lparr>rq_method := rq_method rq,
      rq_version := rq_version rq, rq_path := rq_path rq, rq_query := rq_query rq, rq_fragment := rq_fragment rq,
      rq_headers := parsed_headers rq\<rparr>"
    and "rp_error (fold on_request es parser) = rp_error parser"
  using set_fields_data[of "dump_fields rq"] assms(2)
  by (simp_all add: assms(1) parsed_headers_def mk_HttpRequest_def)

text \<open>Looking a header up in what was parsed.\<close>

lemma is_connection_fold: "is_connection k \<longleftrightarrow> casefold k = casefold ''connection''"
  by (simp add: is_connection_def strcasecmp_zero casefold_def c_str_def)

lemma fold_fields:
  "fold (\<lambda>(k, sp, v). map_set CaseInsensitiveLess k v) (map (\<lambda>(k, v). (k, s, v)) l) m =
   fold (\<lambda>(k, v). map_set CaseInsensitiveLess k v) l m"
  by (induction l arbitrary: m) auto

lemma parsed_header:
  assumes "hdr.ordered (rq_headers rq)"
  shows "map_find CaseInsensitiveLess k (parsed_headers rq) =
     (if rq_body rq \<noteq> [] \<and> casefold k = casefold ''content-length'' then Some (show_nat (length (rq_body rq)))
      else if casefold k = casefold ''connection'' then Some (if rq_close rq then ''close'' else ''keep-alive'')
      else map_find CaseInsensitiveLess k (rq_headers rq))"
proof -
  let ?l = "filter (\<lambda>e. \<not> is_connection (fst e)) (rq_headers rq)"
  let ?c = "[(''connection'', if rq_close rq then ''close'' else ''keep-alive'')]"
  have others: "map_find CaseInsensitiveLess k ?l = (if \<not> is_connection k then map_find CaseInsensitiveLess k (rq_headers rq) else None)"
    by (rule hdr.find_kept) (simp add: is_connection_fold same_casefold)
  have "map_find CaseInsensitiveLess k (fold (\<lambda>(k, v). map_set CaseInsensitiveLess k v) ?l ?c) =
      (if casefold k = casefold ''connection'' then Some (snd (hd ?c)) else map_find CaseInsensitiveLess k (rq_headers rq))"
    using hdr.find_fold_set[OF hdr.ordered_filter[OF assms], of k "\<lambda>e. \<not> is_connection (fst e)" ?c] others
    by (auto simp: is_connection_fold same_casefold hdr.find_simp simp del: map_find.simps(2) split: option.splits)
  then show ?thesis
    by (auto simp: parsed_headers_def dump_fields_def fold_fields hdr.find_set same_casefold)
qed

text \<open>For a request that the grammar can express, the parser on the printed
  text consumes all of it but the body, ends finished and without an error, and holds the same method,
  version, path, query and fragment; every header is found with its value, for every spelling of its name,
  \<open>connection\<close> says what the flag was, and \<open>content-length\<close> is the length of the body when there is one.
\<close>

lemma request_read_back:
  assumes "printable rq" "length (rq_dump rq) < 2 ^ 64" "hdr.ordered (rq_headers rq)"
  shows "\<exists>p. rp_execute (http11 mem) (rq_dump rq) (mk_HttpRequestParser (http11 mem)) =
         (length (rq_dump rq) - length (rq_body rq), rq_body rq, p) \<and>
       rp_isFinished (http11 mem) p = 1 \<and> \<not> rp_hasError (http11 mem) p \<and>
       rq_method (rp_data p) = rq_method rq \<and> rq_version (rp_data p) = rq_version rq \<and>
       rq_path (rp_data p) = rq_path rq \<and> rq_query (rp_data p) = rq_query rq \<and> rq_fragment (rp_data p) = rq_fragment rq \<and>
       (\<forall>k def. rq_getHeader k def (rp_data p) =
          (if rq_body rq \<noteq> [] \<and> casefold k = casefold ''content-length'' then show_nat (length (rq_body rq))
           else if casefold k = casefold ''connection'' then (if rq_close rq then ''close'' else ''keep-alive'')
           else rq_getHeader k def rq))"
proof -
  obtain m es where run: "http_parser_run (http_parser_init mem) (rq_dump rq) 0 =
       (length (rq_dump rq) - length (rq_body rq), m, es)" "ps_cs m = 348"
    and data: "fold on_request es = set_fields (dump_fields rq) \<circ> set_version (rq_version rq) \<circ>
      ((if rq_fragment rq = [] then id else set_fragment (rq_fragment rq)) \<circ>
       (if rq_query rq = [] then id else set_query (rq_query rq)) \<circ> set_path (rq_path rq)) \<circ>
      (\<lambda>parser. parser\<lparr>rp_data := (rp_data parser)\<lparr>rq_method := rq_method rq\<rparr>\<rparr>)"
    using http_execute_dump[OF assms(1,2), of mem] by blast
  let ?init = "mk_HttpRequestParser (http11 mem)"
  let ?p = "(fold on_request es ?init)\<lparr>rp_parser := m\<rparr>"
  have init: "rp_data ?init = mk_HttpRequest 0x11 True" "rp_error ?init = 0" "rp_parser ?init = http_parser_init mem"
    by (simp_all add: mk_HttpRequestParser_def http11_def)
  note final = final_data[OF data init(1)]
  obtain xs where "rq_dump rq = xs @ rq_body rq"
    using rq_dump_parts[of rq] assms(1) unfolding printable_def by (metis append_assoc)
  then have body: "drop (length (rq_dump rq) - length (rq_body rq)) (rq_dump rq) = rq_body rq" by simp
  have exec: "rp_execute (http11 mem) (rq_dump rq) (mk_HttpRequestParser (http11 mem)) =
      (length (rq_dump rq) - length (rq_body rq), rq_body rq, ?p)"
    using run(1) body init(3) by (simp add: rp_execute_def http11_def)
  have fin: "rp_isFinished (http11 mem) ?p = 1" "\<not> rp_hasError (http11 mem) ?p"
    using final(2) init(2) run(2)
    by (simp_all add: rp_isFinished_def rp_hasError_def http11_def http_parser_finish_def http_parser_has_error_def
        http_parser_error_def http_parser_is_finished_def http_parser_first_final_def)
  have headers: "rq_getHeader k def (rp_data ?p) =
      (if rq_body rq \<noteq> [] \<and> casefold k = casefold ''content-length'' then show_nat (length (rq_body rq))
       else if casefold k = casefold ''connection'' then (if rq_close rq then ''close'' else ''keep-alive'')
       else rq_getHeader k def rq)" for k def
    using parsed_header[OF assms(3), of k]
    by (simp add: final(1) rq_getHeader_def find_or_def)
  show ?thesis using exec fin headers by (intro exI[of _ ?p]) (simp add: final(1))
qed

end
