(* ===== verification/Http_Exchange.thy ===== *)
theory Http_Exchange
  imports Http_Roundtrip Http_Server
begin

text \<open>
  The request parser in the session: a printed request through the state machine, and through
  \<open>recv_message\<close> of \<^verbatim>\<open>captain/http/http_session.cpp\<close>, with the generated parser \<open>http11\<close> for the parameter
  that the other theories leave open.  Then what the machine makes of texts at its edges: a request that
  arrives in two reads, control characters in a header name, the method \<^verbatim>\<open>M-SEARCH\<close>.
\<close>

subsection \<open>Evaluating the machine\<close>

lemmas http_eval = http_switch_at http_switch_at_0(1)[unfolded One_nat_def] http_case_defs http_transition_at http_tr_defs http_widec_def schar_def
  http_exec_def http_parser_has_error_def http_parser_error_def LEN_def PTR_TO_def

lemmas parse_eval = rp_execute_def http11_def mk_HttpRequestParser_def http_parser_run_def http_parser_init_def
  http_parser_start_def on_request_path_def on_request_method_def on_request_version_def
  strncmp_eq_def c_str_def CharsToHttpMethod_def method_table_def INVALID_METHOD_def mk_HttpRequest_def
  rp_hasError_def rp_isFinished_def http_parser_finish_def http_parser_is_finished_def http_parser_first_final_def
  on_request_http_field_def rq_setHeader_def Let_def on_request_query_def

abbreviation new_parser :: req where
  "new_parser \<equiv> mk_HttpRequestParser (http11 zero_memory)"

text \<open>The parser after a text, and the calls the machine makes on it.\<close>

abbreviation parse :: "string \<Rightarrow> req \<Rightarrow> req" where
  "parse t parser \<equiv> snd (snd (rp_execute (http11 zero_memory) t parser))"

abbreviation calls :: "string \<Rightarrow> req \<Rightarrow> request_event list" where
  "calls t parser \<equiv> snd (snd (rg_execute (http11 zero_memory) (rp_parser parser) t))"

subsection \<open>Texts at the edges\<close>

text \<open>
  A request that arrives in two reads.  The second call starts its marks at the new buffer, from which the
  consumed text is gone: a path cut in two is replaced by its second half, and the end of a query cut in
  two is reported with a length that has wrapped around.
\<close>

lemma split_path:
  "rq_path (rp_data (parse (''dex HTTP/1.1'' @ CRLF @ CRLF) (parse ''GET /in'' new_parser))) = ''dex''"
  "rq_path (rp_data (parse (''GET /index HTTP/1.1'' @ CRLF @ CRLF) new_parser)) = ''/index''"
  by (simp_all add: parse_eval zero_memory_def http_eval CRLF_def)

lemma split_method:
  "\<not> rp_hasError (http11 zero_memory) (parse ''GET /'' new_parser)"
  "rp_hasError (http11 zero_memory) (parse ''T /'' (parse ''GE'' new_parser))"
  by (simp_all add: parse_eval zero_memory_def http_eval CRLF_def)

lemma split_query:
  "hd (calls '' HTTP/1.1'' (parse ''GET /search?q=1'' new_parser)) = Request_query [] (2 ^ 64 - 12)"
  by (simp add: parse_eval zero_memory_def http_eval CRLF_def)

text \<open>
  \<^verbatim>\<open>HTTP_CTL\<close> of the grammar is \<^verbatim>\<open>(0 - 31) | 127\<close>, a difference of sets where a range was meant: control
  characters are token characters, and a line end inside a header name does not end the line.
\<close>

lemma control_in_name:
  "rq_headers (rp_data (parse (''GET / HTTP/1.1'' @ CRLF @ ''A'' @ CRLF @ ''B: c'' @ CRLF @ CRLF) new_parser)) =
     [(''A'' @ CRLF @ ''B'', ''c'')]"
  by (simp add: parse_eval zero_memory_def http_eval CRLF_def)

lemma m_search_rejected:
  "StringToHttpMethod ''M-SEARCH'' = 24" "rp_hasError (http11 zero_memory) (parse ''M-SEARCH * HTTP/1.1'' new_parser)"
  by (simp_all add: parse_eval zero_memory_def http_eval StringToHttpMethod_def)

subsection \<open>Printed requests\<close>

text \<open>
  C4: A printed request is read back.  For a request that the grammar can express, the parser on the printed
  text consumes all of it but the body, ends finished and without an error, and holds the same method,
  version, path, query and fragment; every header is found with its value, for every spelling of its name,
  \<open>connection\<close> says what the flag was, and \<open>content-length\<close> is the length of the body when there is one.
\<close>

theorem request_roundtrip:
  assumes "printable rq" "length (rq_dump rq) < 2 ^ 64" "hdr.ordered (rq_headers rq)"
  shows "\<exists>p. rp_execute (http11 mem) (rq_dump rq) (mk_HttpRequestParser (http11 mem)) =
         (length (rq_dump rq) - length (rq_body rq), rq_body rq, p) \<and>
       rp_isFinished (http11 mem) p = 1 \<and> \<not> rp_hasError (http11 mem) p \<and>
       rq_method (rp_data p) = rq_method rq \<and> rq_version (rp_data p) = rq_version rq \<and>
       rq_path (rp_data p) = rq_path rq \<and> rq_query (rp_data p) = rq_query rq \<and> rq_fragment (rp_data p) = rq_fragment rq \<and>
       (\<forall>k def. rq_getHeader k def (rp_data p) =
          (if rq_body rq \<noteq> [] \<and> casefold k = casefold ''content-length'' then show_nat (length (rq_body rq))
           else if casefold k = casefold ''connection'' then (if rq_close rq then ''close'' else ''keep-alive'')
           else rq_getHeader k def rq))"
  using request_read_back[OF assms] by blast

definition sample_request :: http_request where
  "sample_request = (mk_HttpRequest 0x11 False)\<lparr>rq_method := 3, rq_path := ''/a%20b'', rq_query := ''q=1'',
     rq_headers := [(''Host'', ''h:80'')], rq_body := ''xy''\<rparr>"

lemma sample_printable: "printable sample_request" "hdr.ordered (rq_headers sample_request)"
  "length (rq_dump sample_request) < 2 ^ 31"
  by (simp_all add: sample_request_def mk_HttpRequest_def printable_def INVALID_METHOD_def HttpMethodToString_def
      method_table_def path_ok_def name_ok_def value_ok_def char_defs hdr.ordered_def
      rq_dump_def dump_connection_def dump_body_def dump_versions CRLF_def is_connection_def lower_def c_str_def
      show_nat_two)

theorem request_roundtrip_witness:
  "\<exists>p. rp_execute (http11 zero_memory) (rq_dump sample_request) (mk_HttpRequestParser (http11 zero_memory)) =
         (length (rq_dump sample_request) - 2, ''xy'', p) \<and>
       rq_path (rp_data p) = ''/a%20b'' \<and> rq_getHeader ''HOST'' [] (rp_data p) = ''h:80''"
  using request_roundtrip[OF sample_printable(1) _ sample_printable(2), of zero_memory] sample_printable(3)
  by (auto simp: sample_request_def mk_HttpRequest_def rq_getHeader_def find_or_def casefold_def c_str_def lower_def
      CaseInsensitiveLess_def)

text \<open>
  C2: A session receives a printed request.  When the first read of \<open>recvRequest\<close> brings the whole printed
  text of a request with a body, the session delivers it: method, version, path, query, fragment and body are
  those of the request, every other header has its value, and nothing is read beyond the text.  The number
  that \<^verbatim>\<open>boost::lexical_cast\<close> makes of the printed length is a hypothesis.
\<close>

theorem recv_printed_request:
  assumes "printable rq" "hdr.ordered (rq_headers rq)" "rq_body rq \<noteq> []"
    and "length (rq_dump rq) < 2 ^ 31" "length (rq_dump rq) \<le> buff_size" "buff_size < 2 ^ 31"
    and "rd buff_size k = (int (length (rq_dump rq)), bytes (rq_dump rq), k')"
    and "lexical_cast (show_nat (length (rq_body rq))) = Some (of_nat (length (rq_body rq)))"
  shows "\<exists>rq'. recv_message (http11 mem) lexical_cast rd buff_size k = Some (Some rq', k') \<and>
       rq_method rq' = rq_method rq \<and> rq_version rq' = rq_version rq \<and> rq_path rq' = rq_path rq \<and>
       rq_query rq' = rq_query rq \<and> rq_fragment rq' = rq_fragment rq \<and> rq_body rq' = rq_body rq \<and>
       (\<forall>n def. casefold n \<noteq> casefold ''content-length'' \<longrightarrow> casefold n \<noteq> casefold ''connection'' \<longrightarrow>
          rq_getHeader n def rq' = rq_getHeader n def rq)"
proof -
  have "length (rq_dump rq) < 2 ^ 64" using assms(4) by simp
  from request_read_back[OF assms(1) this assms(2), of mem] obtain p where
    exec: "rp_execute (http11 mem) (rq_dump rq) (mk_HttpRequestParser (http11 mem)) =
         (length (rq_dump rq) - length (rq_body rq), rq_body rq, p)" and
    fin: "rp_isFinished (http11 mem) p = 1" "\<not> rp_hasError (http11 mem) p" and
    data: "rq_method (rp_data p) = rq_method rq" "rq_version (rp_data p) = rq_version rq"
       "rq_path (rp_data p) = rq_path rq" "rq_query (rp_data p) = rq_query rq" "rq_fragment (rp_data p) = rq_fragment rq" and
    headers: "\<And>k def. rq_getHeader k def (rp_data p) =
          (if rq_body rq \<noteq> [] \<and> casefold k = casefold ''content-length'' then show_nat (length (rq_body rq))
           else if casefold k = casefold ''connection'' then (if rq_close rq then ''close'' else ''keep-alive'')
           else rq_getHeader k def rq)"
    by blast
  have body: "length (rq_body rq) < length (rq_dump rq)"
    by (simp add: rq_dump_def dump_body_def CRLF_def)
  have small: "length (rq_body rq) < 2 ^ 31" using body assms(4) by linarith
  have "rq_getHeader ''content-length'' [] (rp_data p) = show_nat (length (rq_body rq))"
    using headers[of "''content-length''"] assms(3) by simp
  then have "map_find CaseInsensitiveLess ''content-length'' (rq_headers (rp_data p)) = Some (show_nat (length (rq_body rq)))"
    using show_nat_digits(2)[of "length (rq_body rq)"]
    by (cases "map_find CaseInsensitiveLess ''content-length'' (rq_headers (rp_data p))") (simp_all add: rq_getHeader_def find_or_def)
  then have "rp_getContentLength lexical_cast p = of_nat (length (rq_body rq))"
    using assms(8) by (simp add: rp_getContentLength_def rq_getHeaderAs_def getAs_def)
  then have len: "sint (rp_getContentLength lexical_cast p) = int (length (rq_body rq))"
    using small by (simp add: signed_of_nat signed_take_bit_int_eq_self)
  have "0 < length (rq_dump rq)" using body by linarith
  moreover have "int (length (rq_body rq)) \<noteq> to_int32 (int buff_size)"
    using body assms(5,6) by (subst to_int32_id) auto
  ultimately have "recv_loop (http11 mem) rd buff_size [] (mk_HttpRequestParser (http11 mem)) k = Some (Some (p, rq_body rq), k')"
    using assms(7) exec fin by (subst recv_loop.simps) (simp add: chars_bytes)
  moreover have "recv_body rd (int (length (rq_body rq))) (rq_body rq) (rp_data p) k' =
      (Some ((rp_data p)\<lparr>rq_body := rq_body rq\<rparr>), k')"
    using assms(3) by (simp add: recv_body_def overwrite_def Let_def)
  ultimately have "recv_message (http11 mem) lexical_cast rd buff_size k = Some (Some ((rp_data p)\<lparr>rq_body := rq_body rq\<rparr>), k')"
    by (simp add: recv_message_def len)
  moreover have "rq_getHeader n def ((rp_data p)\<lparr>rq_body := rq_body rq\<rparr>) = rq_getHeader n def (rp_data p)" for n def
    by (simp add: rq_getHeader_def)
  ultimately show ?thesis
    using data headers by (intro exI[of _ "(rp_data p)\<lparr>rq_body := rq_body rq\<rparr>"]) simp
qed

theorem recv_printed_request_witness:
  "\<exists>rq'. recv_message (http11 zero_memory) (\<lambda>s. Some (of_nat (dec_val s)))
       (\<lambda>n k. (int (length (rq_dump sample_request)), bytes (rq_dump sample_request), k)) 4096 () = Some (Some rq', ()) \<and>
     rq_body rq' = ''xy''"
proof -
  have "length (rq_dump sample_request) \<le> 4096"
    by (simp add: sample_request_def mk_HttpRequest_def HttpMethodToString_def method_table_def
      rq_dump_def dump_connection_def dump_body_def dump_versions CRLF_def is_connection_def lower_def c_str_def show_nat_two)
  then show ?thesis
    using recv_printed_request[OF sample_printable(1,2) _ sample_printable(3), of 4096
      "\<lambda>n k. (int (length (rq_dump sample_request)), bytes (rq_dump sample_request), k)" "()" "()"
      "\<lambda>s. Some (of_nat (dec_val s))" zero_memory]
    by (auto simp: sample_request_def mk_HttpRequest_def)
qed

end
