(* ===== verification/Httpclient_Machine.thy ===== *)
theory Httpclient_Machine
  imports Ragel_Machine
begin

text \<open>
  The state machine of the response parser, \<^verbatim>\<open>captain/http/httpclient_parser.rl.cpp\<close>, in the form of
  \<open>Http11_Machine\<close>: \<open>client_case_n\<close> is the code at \<^verbatim>\<open>case n\<close>, \<open>client_tr_n\<close> the code at \<^verbatim>\<open>trn\<close>.
\<close>

datatype client_action =
    C_mark
  | C_start_field
  | C_write_field
  | C_start_value
  | C_write_content_len
  | C_write_connection_close
  | C_write_value
  | C_reason_phrase
  | C_status_code
  | C_http_version
  | C_chunk_size
  | C_trans_chunked
  | C_done

subsection \<open>Transitions\<close>

definition client_tr_0 :: "client_action list \<times> jump" where
  "client_tr_0 = ([C_mark], Goto 2)"

definition client_tr_2 :: "client_action list \<times> jump" where
  "client_tr_2 = ([C_mark], Goto 8)"

definition client_tr_3 :: "client_action list \<times> jump" where
  "client_tr_3 = ([C_chunk_size, C_done], Break 120)"

definition client_tr_4 :: "client_action list \<times> jump" where
  "client_tr_4 = ([C_chunk_size], Goto 3)"

definition client_tr_6 :: "client_action list \<times> jump" where
  "client_tr_6 = ([C_chunk_size], Goto 4)"

definition client_tr_7 :: "client_action list \<times> jump" where
  "client_tr_7 = ([C_done], Break 120)"

definition client_tr_8 :: "client_action list \<times> jump" where
  "client_tr_8 = ([C_start_field], Goto 5)"

definition client_tr_9 :: "client_action list \<times> jump" where
  "client_tr_9 = ([C_write_field, C_start_value, C_write_value, C_done], Break 120)"

definition client_tr_10 :: "client_action list \<times> jump" where
  "client_tr_10 = ([C_write_field, C_start_value, C_write_value], Goto 3)"

definition client_tr_12 :: "client_action list \<times> jump" where
  "client_tr_12 = ([C_write_field, C_start_value, C_write_value], Goto 4)"

definition client_tr_13 :: "client_action list \<times> jump" where
  "client_tr_13 = ([C_write_field, C_start_value], Goto 6)"

definition client_tr_14 :: "client_action list \<times> jump" where
  "client_tr_14 = ([C_start_value], Goto 7)"

definition client_tr_15 :: "client_action list \<times> jump" where
  "client_tr_15 = ([C_write_value, C_done], Break 120)"

definition client_tr_16 :: "client_action list \<times> jump" where
  "client_tr_16 = ([C_write_value], Goto 3)"

definition client_tr_18 :: "client_action list \<times> jump" where
  "client_tr_18 = ([C_write_value], Goto 4)"

definition client_tr_26 :: "client_action list \<times> jump" where
  "client_tr_26 = ([C_http_version], Goto 16)"

definition client_tr_27 :: "client_action list \<times> jump" where
  "client_tr_27 = ([C_mark], Goto 17)"

definition client_tr_28 :: "client_action list \<times> jump" where
  "client_tr_28 = ([C_status_code], Goto 18)"

definition client_tr_30 :: "client_action list \<times> jump" where
  "client_tr_30 = ([C_mark], Goto 19)"

definition client_tr_32 :: "client_action list \<times> jump" where
  "client_tr_32 = ([C_reason_phrase], Goto 20)"

definition client_tr_33 :: "client_action list \<times> jump" where
  "client_tr_33 = ([C_reason_phrase], Goto 24)"

definition client_tr_35 :: "client_action list \<times> jump" where
  "client_tr_35 = ([C_start_field], Goto 21)"

definition client_tr_36 :: "client_action list \<times> jump" where
  "client_tr_36 = ([C_start_field], Goto 25)"

definition client_tr_37 :: "client_action list \<times> jump" where
  "client_tr_37 = ([C_start_field], Goto 44)"

definition client_tr_39 :: "client_action list \<times> jump" where
  "client_tr_39 = ([C_write_field], Goto 22)"

definition client_tr_40 :: "client_action list \<times> jump" where
  "client_tr_40 = ([C_start_value], Goto 23)"

definition client_tr_41 :: "client_action list \<times> jump" where
  "client_tr_41 = ([C_start_value], Goto 22)"

definition client_tr_42 :: "client_action list \<times> jump" where
  "client_tr_42 = ([C_start_value, C_write_value], Goto 20)"

definition client_tr_43 :: "client_action list \<times> jump" where
  "client_tr_43 = ([C_start_value, C_write_value], Goto 24)"

definition client_tr_45 :: "client_action list \<times> jump" where
  "client_tr_45 = ([C_write_value], Goto 20)"

definition client_tr_46 :: "client_action list \<times> jump" where
  "client_tr_46 = ([C_write_value], Goto 24)"

definition client_tr_58 :: "client_action list \<times> jump" where
  "client_tr_58 = ([C_write_field], Goto 35)"

definition client_tr_59 :: "client_action list \<times> jump" where
  "client_tr_59 = ([C_start_value], Goto 35)"

definition client_tr_60 :: "client_action list \<times> jump" where
  "client_tr_60 = ([C_start_value, C_write_value], Goto 36)"

definition client_tr_61 :: "client_action list \<times> jump" where
  "client_tr_61 = ([C_start_value, C_write_value], Goto 95)"

definition client_tr_62 :: "client_action list \<times> jump" where
  "client_tr_62 = ([C_start_value], Goto 96)"

definition client_tr_64 :: "client_action list \<times> jump" where
  "client_tr_64 = ([C_done], Break 122)"

definition client_tr_66 :: "client_action list \<times> jump" where
  "client_tr_66 = ([C_start_field], Goto 90)"

definition client_tr_74 :: "client_action list \<times> jump" where
  "client_tr_74 = ([C_write_connection_close, C_done], Break 120)"

definition client_tr_75 :: "client_action list \<times> jump" where
  "client_tr_75 = ([C_write_connection_close], Goto 3)"

definition client_tr_76 :: "client_action list \<times> jump" where
  "client_tr_76 = ([C_write_connection_close, C_start_field], Goto 21)"

definition client_tr_77 :: "client_action list \<times> jump" where
  "client_tr_77 = ([C_write_connection_close, C_start_field], Goto 25)"

definition client_tr_78 :: "client_action list \<times> jump" where
  "client_tr_78 = ([C_write_connection_close, C_start_field], Goto 44)"

definition client_tr_95 :: "client_action list \<times> jump" where
  "client_tr_95 = ([C_write_field], Goto 61)"

definition client_tr_96 :: "client_action list \<times> jump" where
  "client_tr_96 = ([C_start_value], Goto 61)"

definition client_tr_97 :: "client_action list \<times> jump" where
  "client_tr_97 = ([C_start_value, C_write_value], Goto 62)"

definition client_tr_98 :: "client_action list \<times> jump" where
  "client_tr_98 = ([C_start_value, C_write_value], Goto 80)"

definition client_tr_99 :: "client_action list \<times> jump" where
  "client_tr_99 = ([C_start_value], Goto 81)"

definition client_tr_101 :: "client_action list \<times> jump" where
  "client_tr_101 = ([C_done], Break 121)"

definition client_tr_103 :: "client_action list \<times> jump" where
  "client_tr_103 = ([C_start_value, C_start_field], Goto 73)"

definition client_tr_104 :: "client_action list \<times> jump" where
  "client_tr_104 = ([C_start_value], Goto 64)"

definition client_tr_111 :: "client_action list \<times> jump" where
  "client_tr_111 = ([C_write_value, C_trans_chunked], Goto 20)"

definition client_tr_112 :: "client_action list \<times> jump" where
  "client_tr_112 = ([C_write_value], Goto 71)"

definition client_tr_113 :: "client_action list \<times> jump" where
  "client_tr_113 = ([C_trans_chunked], Goto 20)"

definition client_tr_136 :: "client_action list \<times> jump" where
  "client_tr_136 = ([C_write_value], Goto 43)"

definition client_tr_137 :: "client_action list \<times> jump" where
  "client_tr_137 = ([C_write_value], Goto 88)"

definition client_tr_148 :: "client_action list \<times> jump" where
  "client_tr_148 = ([C_write_field], Goto 112)"

definition client_tr_149 :: "client_action list \<times> jump" where
  "client_tr_149 = ([C_start_value], Goto 112)"

definition client_tr_150 :: "client_action list \<times> jump" where
  "client_tr_150 = ([C_start_value, C_write_value], Goto 113)"

definition client_tr_151 :: "client_action list \<times> jump" where
  "client_tr_151 = ([C_start_value, C_write_value], Goto 118)"

definition client_tr_152 :: "client_action list \<times> jump" where
  "client_tr_152 = ([C_start_value], Goto 119)"

definition client_tr_154 :: "client_action list \<times> jump" where
  "client_tr_154 = ([C_done], Break 123)"

definition client_tr_156 :: "client_action list \<times> jump" where
  "client_tr_156 = ([C_start_value, C_start_field], Goto 117)"

definition client_tr_157 :: "client_action list \<times> jump" where
  "client_tr_157 = ([C_start_value], Goto 115)"

definition client_tr_158 :: "client_action list \<times> jump" where
  "client_tr_158 = ([C_write_content_len, C_write_value], Goto 20)"

definition client_tr_159 :: "client_action list \<times> jump" where
  "client_tr_159 = ([C_write_content_len, C_write_value], Goto 24)"

text \<open>The actions of a label \<^verbatim>\<open>tr<n>\<close>; the code has no other such label.\<close>

definition client_transition :: "nat \<Rightarrow> client_action list \<times> jump" where
  "client_transition n =
    (if n = 0 then client_tr_0
     else if n = 2 then client_tr_2
     else if n = 3 then client_tr_3
     else if n = 4 then client_tr_4
     else if n = 6 then client_tr_6
     else if n = 7 then client_tr_7
     else if n = 8 then client_tr_8
     else if n = 9 then client_tr_9
     else if n = 10 then client_tr_10
     else if n = 12 then client_tr_12
     else if n = 13 then client_tr_13
     else if n = 14 then client_tr_14
     else if n = 15 then client_tr_15
     else if n = 16 then client_tr_16
     else if n = 18 then client_tr_18
     else if n = 26 then client_tr_26
     else if n = 27 then client_tr_27
     else if n = 28 then client_tr_28
     else if n = 30 then client_tr_30
     else if n = 32 then client_tr_32
     else if n = 33 then client_tr_33
     else if n = 35 then client_tr_35
     else if n = 36 then client_tr_36
     else if n = 37 then client_tr_37
     else if n = 39 then client_tr_39
     else if n = 40 then client_tr_40
     else if n = 41 then client_tr_41
     else if n = 42 then client_tr_42
     else if n = 43 then client_tr_43
     else if n = 45 then client_tr_45
     else if n = 46 then client_tr_46
     else if n = 58 then client_tr_58
     else if n = 59 then client_tr_59
     else if n = 60 then client_tr_60
     else if n = 61 then client_tr_61
     else if n = 62 then client_tr_62
     else if n = 64 then client_tr_64
     else if n = 66 then client_tr_66
     else if n = 74 then client_tr_74
     else if n = 75 then client_tr_75
     else if n = 76 then client_tr_76
     else if n = 77 then client_tr_77
     else if n = 78 then client_tr_78
     else if n = 95 then client_tr_95
     else if n = 96 then client_tr_96
     else if n = 97 then client_tr_97
     else if n = 98 then client_tr_98
     else if n = 99 then client_tr_99
     else if n = 101 then client_tr_101
     else if n = 103 then client_tr_103
     else if n = 104 then client_tr_104
     else if n = 111 then client_tr_111
     else if n = 112 then client_tr_112
     else if n = 113 then client_tr_113
     else if n = 136 then client_tr_136
     else if n = 137 then client_tr_137
     else if n = 148 then client_tr_148
     else if n = 149 then client_tr_149
     else if n = 150 then client_tr_150
     else if n = 151 then client_tr_151
     else if n = 152 then client_tr_152
     else if n = 154 then client_tr_154
     else if n = 156 then client_tr_156
     else if n = 157 then client_tr_157
     else if n = 158 then client_tr_158
     else if n = 159 then client_tr_159
     else ([], Break 0))"

subsection \<open>States\<close>

definition client_case_1 :: "int \<Rightarrow> label" where
  "client_case_1 c =
   (if c = 72 then Tr 2
    else if c < 65 then
      (if 48 \<le> c \<and> c \<le> 57 then Tr 0
      else St 0)
    else if 70 < c then
      (if 97 \<le> c \<and> c \<le> 102 then Tr 0
      else St 0)
    else Tr 0)"

definition client_case_2 :: "int \<Rightarrow> label" where
  "client_case_2 c =
   (if c = 10 then Tr 3
    else if c = 13 then Tr 4
    else if c = 59 then Tr 6
    else if c < 65 then
      (if 48 \<le> c \<and> c \<le> 57 then St 2
      else St 0)
    else if 70 < c then
      (if 97 \<le> c \<and> c \<le> 102 then St 2
      else St 0)
    else St 2)"

definition client_case_3 :: "int \<Rightarrow> label" where
  "client_case_3 c =
   (if c = 10 then Tr 7
    else St 0)"

definition client_case_4 :: "int \<Rightarrow> label" where
  "client_case_4 c =
   (if c = 33 then Tr 8
    else if c = 124 then Tr 8
    else if c = 126 then Tr 8
    else if c < 45 then
      (if 39 < c then
        (if 42 \<le> c \<and> c \<le> 43 then Tr 8
        else St 0)
      else if 35 \<le> c then Tr 8
      else St 0)
    else if 46 < c then
      (if c < 65 then
        (if 48 \<le> c \<and> c \<le> 57 then Tr 8
        else St 0)
      else if 90 < c then
        (if 94 \<le> c \<and> c \<le> 122 then Tr 8
        else St 0)
      else Tr 8)
    else Tr 8)"

definition client_case_5 :: "int \<Rightarrow> label" where
  "client_case_5 c =
   (if c = 10 then Tr 9
    else if c = 13 then Tr 10
    else if c = 33 then St 5
    else if c = 59 then Tr 12
    else if c = 61 then Tr 13
    else if c = 124 then St 5
    else if c = 126 then St 5
    else if c < 45 then
      (if 39 < c then
        (if 42 \<le> c \<and> c \<le> 43 then St 5
        else St 0)
      else if 35 \<le> c then St 5
      else St 0)
    else if 46 < c then
      (if c < 65 then
        (if 48 \<le> c \<and> c \<le> 57 then St 5
        else St 0)
      else if 90 < c then
        (if 94 \<le> c \<and> c \<le> 122 then St 5
        else St 0)
      else St 5)
    else St 5)"

definition client_case_6 :: "int \<Rightarrow> label" where
  "client_case_6 c =
   (if c = 33 then Tr 14
    else if c = 124 then Tr 14
    else if c = 126 then Tr 14
    else if c < 45 then
      (if 39 < c then
        (if 42 \<le> c \<and> c \<le> 43 then Tr 14
        else St 0)
      else if 35 \<le> c then Tr 14
      else St 0)
    else if 46 < c then
      (if c < 65 then
        (if 48 \<le> c \<and> c \<le> 57 then Tr 14
        else St 0)
      else if 90 < c then
        (if 94 \<le> c \<and> c \<le> 122 then Tr 14
        else St 0)
      else Tr 14)
    else Tr 14)"

definition client_case_7 :: "int \<Rightarrow> label" where
  "client_case_7 c =
   (if c = 10 then Tr 15
    else if c = 13 then Tr 16
    else if c = 33 then St 7
    else if c = 59 then Tr 18
    else if c = 124 then St 7
    else if c = 126 then St 7
    else if c < 45 then
      (if 39 < c then
        (if 42 \<le> c \<and> c \<le> 43 then St 7
        else St 0)
      else if 35 \<le> c then St 7
      else St 0)
    else if 46 < c then
      (if c < 65 then
        (if 48 \<le> c \<and> c \<le> 57 then St 7
        else St 0)
      else if 90 < c then
        (if 94 \<le> c \<and> c \<le> 122 then St 7
        else St 0)
      else St 7)
    else St 7)"

definition client_case_8 :: "int \<Rightarrow> label" where
  "client_case_8 c =
   (if c = 84 then St 9
    else St 0)"

definition client_case_9 :: "int \<Rightarrow> label" where
  "client_case_9 c =
   (if c = 84 then St 10
    else St 0)"

definition client_case_10 :: "int \<Rightarrow> label" where
  "client_case_10 c =
   (if c = 80 then St 11
    else St 0)"

definition client_case_11 :: "int \<Rightarrow> label" where
  "client_case_11 c =
   (if c = 47 then St 12
    else St 0)"

definition client_case_12 :: "int \<Rightarrow> label" where
  "client_case_12 c =
   (if 48 \<le> c \<and> c \<le> 57 then St 13
    else St 0)"

definition client_case_13 :: "int \<Rightarrow> label" where
  "client_case_13 c =
   (if c = 46 then St 14
    else if 48 \<le> c \<and> c \<le> 57 then St 13
    else St 0)"

definition client_case_14 :: "int \<Rightarrow> label" where
  "client_case_14 c =
   (if 48 \<le> c \<and> c \<le> 57 then St 15
    else St 0)"

definition client_case_15 :: "int \<Rightarrow> label" where
  "client_case_15 c =
   (if c = 32 then Tr 26
    else if 48 \<le> c \<and> c \<le> 57 then St 15
    else St 0)"

definition client_case_16 :: "int \<Rightarrow> label" where
  "client_case_16 c =
   (if 48 \<le> c \<and> c \<le> 57 then Tr 27
    else St 0)"

definition client_case_17 :: "int \<Rightarrow> label" where
  "client_case_17 c =
   (if c = 32 then Tr 28
    else if 48 \<le> c \<and> c \<le> 57 then St 17
    else St 0)"

definition client_case_18 :: "int \<Rightarrow> label" where
  "client_case_18 c =
   (if c = 10 then St 0
    else Tr 30)"

definition client_case_19 :: "int \<Rightarrow> label" where
  "client_case_19 c =
   (if c = 10 then Tr 32
    else if c = 13 then Tr 33
    else St 19)"

definition client_case_20 :: "int \<Rightarrow> label" where
  "client_case_20 c =
   (if c = 10 then Tr 7
    else if c = 13 then St 3
    else if c = 33 then Tr 35
    else if c = 67 then Tr 36
    else if c = 84 then Tr 37
    else if c = 99 then Tr 36
    else if c = 116 then Tr 37
    else if c = 124 then Tr 35
    else if c = 126 then Tr 35
    else if c < 45 then
      (if 39 < c then
        (if 42 \<le> c \<and> c \<le> 43 then Tr 35
        else St 0)
      else if 35 \<le> c then Tr 35
      else St 0)
    else if 46 < c then
      (if c < 65 then
        (if 48 \<le> c \<and> c \<le> 57 then Tr 35
        else St 0)
      else if 90 < c then
        (if 94 \<le> c \<and> c \<le> 122 then Tr 35
        else St 0)
      else Tr 35)
    else Tr 35)"

definition client_case_21 :: "int \<Rightarrow> label" where
  "client_case_21 c =
   (if c = 33 then St 21
    else if c = 58 then Tr 39
    else if c = 124 then St 21
    else if c = 126 then St 21
    else if c < 45 then
      (if 39 < c then
        (if 42 \<le> c \<and> c \<le> 43 then St 21
        else St 0)
      else if 35 \<le> c then St 21
      else St 0)
    else if 46 < c then
      (if c < 65 then
        (if 48 \<le> c \<and> c \<le> 57 then St 21
        else St 0)
      else if 90 < c then
        (if 94 \<le> c \<and> c \<le> 122 then St 21
        else St 0)
      else St 21)
    else St 21)"

definition client_case_22 :: "int \<Rightarrow> label" where
  "client_case_22 c =
   (if c = 10 then Tr 42
    else if c = 13 then Tr 43
    else if c = 32 then Tr 41
    else if 9 \<le> c \<and> c \<le> 12 then Tr 41
    else Tr 40)"

definition client_case_23 :: "int \<Rightarrow> label" where
  "client_case_23 c =
   (if c = 10 then Tr 45
    else if c = 13 then Tr 46
    else St 23)"

definition client_case_24 :: "int \<Rightarrow> label" where
  "client_case_24 c =
   (if c = 10 then St 20
    else St 0)"

definition client_case_25 :: "int \<Rightarrow> label" where
  "client_case_25 c =
   (if c = 33 then St 21
    else if c = 58 then Tr 39
    else if c = 79 then St 26
    else if c = 111 then St 26
    else if c = 124 then St 21
    else if c = 126 then St 21
    else if c < 45 then
      (if 39 < c then
        (if 42 \<le> c \<and> c \<le> 43 then St 21
        else St 0)
      else if 35 \<le> c then St 21
      else St 0)
    else if 46 < c then
      (if c < 65 then
        (if 48 \<le> c \<and> c \<le> 57 then St 21
        else St 0)
      else if 90 < c then
        (if 94 \<le> c \<and> c \<le> 122 then St 21
        else St 0)
      else St 21)
    else St 21)"

definition client_case_26 :: "int \<Rightarrow> label" where
  "client_case_26 c =
   (if c = 33 then St 21
    else if c = 58 then Tr 39
    else if c = 78 then St 27
    else if c = 110 then St 27
    else if c = 124 then St 21
    else if c = 126 then St 21
    else if c < 45 then
      (if 39 < c then
        (if 42 \<le> c \<and> c \<le> 43 then St 21
        else St 0)
      else if 35 \<le> c then St 21
      else St 0)
    else if 46 < c then
      (if c < 65 then
        (if 48 \<le> c \<and> c \<le> 57 then St 21
        else St 0)
      else if 90 < c then
        (if 94 \<le> c \<and> c \<le> 122 then St 21
        else St 0)
      else St 21)
    else St 21)"

definition client_case_27 :: "int \<Rightarrow> label" where
  "client_case_27 c =
   (if c = 33 then St 21
    else if c = 58 then Tr 39
    else if c = 78 then St 28
    else if c = 84 then St 101
    else if c = 110 then St 28
    else if c = 116 then St 101
    else if c = 124 then St 21
    else if c = 126 then St 21
    else if c < 45 then
      (if 39 < c then
        (if 42 \<le> c \<and> c \<le> 43 then St 21
        else St 0)
      else if 35 \<le> c then St 21
      else St 0)
    else if 46 < c then
      (if c < 65 then
        (if 48 \<le> c \<and> c \<le> 57 then St 21
        else St 0)
      else if 90 < c then
        (if 94 \<le> c \<and> c \<le> 122 then St 21
        else St 0)
      else St 21)
    else St 21)"

definition client_case_28 :: "int \<Rightarrow> label" where
  "client_case_28 c =
   (if c = 33 then St 21
    else if c = 58 then Tr 39
    else if c = 69 then St 29
    else if c = 101 then St 29
    else if c = 124 then St 21
    else if c = 126 then St 21
    else if c < 45 then
      (if 39 < c then
        (if 42 \<le> c \<and> c \<le> 43 then St 21
        else St 0)
      else if 35 \<le> c then St 21
      else St 0)
    else if 46 < c then
      (if c < 65 then
        (if 48 \<le> c \<and> c \<le> 57 then St 21
        else St 0)
      else if 90 < c then
        (if 94 \<le> c \<and> c \<le> 122 then St 21
        else St 0)
      else St 21)
    else St 21)"

definition client_case_29 :: "int \<Rightarrow> label" where
  "client_case_29 c =
   (if c = 33 then St 21
    else if c = 58 then Tr 39
    else if c = 67 then St 30
    else if c = 99 then St 30
    else if c = 124 then St 21
    else if c = 126 then St 21
    else if c < 45 then
      (if 39 < c then
        (if 42 \<le> c \<and> c \<le> 43 then St 21
        else St 0)
      else if 35 \<le> c then St 21
      else St 0)
    else if 46 < c then
      (if c < 65 then
        (if 48 \<le> c \<and> c \<le> 57 then St 21
        else St 0)
      else if 90 < c then
        (if 94 \<le> c \<and> c \<le> 122 then St 21
        else St 0)
      else St 21)
    else St 21)"

definition client_case_30 :: "int \<Rightarrow> label" where
  "client_case_30 c =
   (if c = 33 then St 21
    else if c = 58 then Tr 39
    else if c = 84 then St 31
    else if c = 116 then St 31
    else if c = 124 then St 21
    else if c = 126 then St 21
    else if c < 45 then
      (if 39 < c then
        (if 42 \<le> c \<and> c \<le> 43 then St 21
        else St 0)
      else if 35 \<le> c then St 21
      else St 0)
    else if 46 < c then
      (if c < 65 then
        (if 48 \<le> c \<and> c \<le> 57 then St 21
        else St 0)
      else if 90 < c then
        (if 94 \<le> c \<and> c \<le> 122 then St 21
        else St 0)
      else St 21)
    else St 21)"

definition client_case_31 :: "int \<Rightarrow> label" where
  "client_case_31 c =
   (if c = 33 then St 21
    else if c = 58 then Tr 39
    else if c = 73 then St 32
    else if c = 105 then St 32
    else if c = 124 then St 21
    else if c = 126 then St 21
    else if c < 45 then
      (if 39 < c then
        (if 42 \<le> c \<and> c \<le> 43 then St 21
        else St 0)
      else if 35 \<le> c then St 21
      else St 0)
    else if 46 < c then
      (if c < 65 then
        (if 48 \<le> c \<and> c \<le> 57 then St 21
        else St 0)
      else if 90 < c then
        (if 94 \<le> c \<and> c \<le> 122 then St 21
        else St 0)
      else St 21)
    else St 21)"

definition client_case_32 :: "int \<Rightarrow> label" where
  "client_case_32 c =
   (if c = 33 then St 21
    else if c = 58 then Tr 39
    else if c = 79 then St 33
    else if c = 111 then St 33
    else if c = 124 then St 21
    else if c = 126 then St 21
    else if c < 45 then
      (if 39 < c then
        (if 42 \<le> c \<and> c \<le> 43 then St 21
        else St 0)
      else if 35 \<le> c then St 21
      else St 0)
    else if 46 < c then
      (if c < 65 then
        (if 48 \<le> c \<and> c \<le> 57 then St 21
        else St 0)
      else if 90 < c then
        (if 94 \<le> c \<and> c \<le> 122 then St 21
        else St 0)
      else St 21)
    else St 21)"

definition client_case_33 :: "int \<Rightarrow> label" where
  "client_case_33 c =
   (if c = 33 then St 21
    else if c = 58 then Tr 39
    else if c = 78 then St 34
    else if c = 110 then St 34
    else if c = 124 then St 21
    else if c = 126 then St 21
    else if c < 45 then
      (if 39 < c then
        (if 42 \<le> c \<and> c \<le> 43 then St 21
        else St 0)
      else if 35 \<le> c then St 21
      else St 0)
    else if 46 < c then
      (if c < 65 then
        (if 48 \<le> c \<and> c \<le> 57 then St 21
        else St 0)
      else if 90 < c then
        (if 94 \<le> c \<and> c \<le> 122 then St 21
        else St 0)
      else St 21)
    else St 21)"

definition client_case_34 :: "int \<Rightarrow> label" where
  "client_case_34 c =
   (if c = 33 then St 21
    else if c = 58 then Tr 58
    else if c = 124 then St 21
    else if c = 126 then St 21
    else if c < 45 then
      (if 39 < c then
        (if 42 \<le> c \<and> c \<le> 43 then St 21
        else St 0)
      else if 35 \<le> c then St 21
      else St 0)
    else if 46 < c then
      (if c < 65 then
        (if 48 \<le> c \<and> c \<le> 57 then St 21
        else St 0)
      else if 90 < c then
        (if 94 \<le> c \<and> c \<le> 122 then St 21
        else St 0)
      else St 21)
    else St 21)"

definition client_case_35 :: "int \<Rightarrow> label" where
  "client_case_35 c =
   (if c = 10 then Tr 60
    else if c = 13 then Tr 61
    else if c = 32 then Tr 59
    else if c = 67 then Tr 62
    else if c = 99 then Tr 62
    else if 9 \<le> c \<and> c \<le> 12 then Tr 59
    else Tr 40)"

definition client_case_36 :: "int \<Rightarrow> label" where
  "client_case_36 c =
   (if c = 10 then Tr 64
    else if c = 13 then St 89
    else if c = 32 then St 37
    else if c = 33 then Tr 35
    else if c = 67 then Tr 66
    else if c = 84 then Tr 37
    else if c = 99 then Tr 66
    else if c = 116 then Tr 37
    else if c = 124 then Tr 35
    else if c = 126 then Tr 35
    else if c < 45 then
      (if c < 35 then
        (if 9 \<le> c \<and> c \<le> 12 then St 37
        else St 0)
      else if 39 < c then
        (if 42 \<le> c \<and> c \<le> 43 then Tr 35
        else St 0)
      else Tr 35)
    else if 46 < c then
      (if c < 65 then
        (if 48 \<le> c \<and> c \<le> 57 then Tr 35
        else St 0)
      else if 90 < c then
        (if 94 \<le> c \<and> c \<le> 122 then Tr 35
        else St 0)
      else Tr 35)
    else Tr 35)"

definition client_case_37 :: "int \<Rightarrow> label" where
  "client_case_37 c =
   (if c = 32 then St 37
    else if c = 67 then St 38
    else if c = 99 then St 38
    else if 9 \<le> c \<and> c \<le> 13 then St 37
    else St 0)"

definition client_case_38 :: "int \<Rightarrow> label" where
  "client_case_38 c =
   (if c = 76 then St 39
    else if c = 108 then St 39
    else St 0)"

definition client_case_39 :: "int \<Rightarrow> label" where
  "client_case_39 c =
   (if c = 79 then St 40
    else if c = 111 then St 40
    else St 0)"

definition client_case_40 :: "int \<Rightarrow> label" where
  "client_case_40 c =
   (if c = 83 then St 41
    else if c = 115 then St 41
    else St 0)"

definition client_case_41 :: "int \<Rightarrow> label" where
  "client_case_41 c =
   (if c = 69 then St 42
    else if c = 101 then St 42
    else St 0)"

definition client_case_42 :: "int \<Rightarrow> label" where
  "client_case_42 c =
   (if c = 10 then St 43
    else if c = 13 then St 88
    else St 0)"

definition client_case_43 :: "int \<Rightarrow> label" where
  "client_case_43 c =
   (if c = 10 then Tr 74
    else if c = 13 then Tr 75
    else if c = 33 then Tr 76
    else if c = 67 then Tr 77
    else if c = 84 then Tr 78
    else if c = 99 then Tr 77
    else if c = 116 then Tr 78
    else if c = 124 then Tr 76
    else if c = 126 then Tr 76
    else if c < 45 then
      (if 39 < c then
        (if 42 \<le> c \<and> c \<le> 43 then Tr 76
        else St 0)
      else if 35 \<le> c then Tr 76
      else St 0)
    else if 46 < c then
      (if c < 65 then
        (if 48 \<le> c \<and> c \<le> 57 then Tr 76
        else St 0)
      else if 90 < c then
        (if 94 \<le> c \<and> c \<le> 122 then Tr 76
        else St 0)
      else Tr 76)
    else Tr 76)"

definition client_case_44 :: "int \<Rightarrow> label" where
  "client_case_44 c =
   (if c = 33 then St 21
    else if c = 58 then Tr 39
    else if c = 82 then St 45
    else if c = 114 then St 45
    else if c = 124 then St 21
    else if c = 126 then St 21
    else if c < 45 then
      (if 39 < c then
        (if 42 \<le> c \<and> c \<le> 43 then St 21
        else St 0)
      else if 35 \<le> c then St 21
      else St 0)
    else if 46 < c then
      (if c < 65 then
        (if 48 \<le> c \<and> c \<le> 57 then St 21
        else St 0)
      else if 90 < c then
        (if 94 \<le> c \<and> c \<le> 122 then St 21
        else St 0)
      else St 21)
    else St 21)"

definition client_case_45 :: "int \<Rightarrow> label" where
  "client_case_45 c =
   (if c = 33 then St 21
    else if c = 58 then Tr 39
    else if c = 65 then St 46
    else if c = 97 then St 46
    else if c = 124 then St 21
    else if c = 126 then St 21
    else if c < 45 then
      (if 39 < c then
        (if 42 \<le> c \<and> c \<le> 43 then St 21
        else St 0)
      else if 35 \<le> c then St 21
      else St 0)
    else if 46 < c then
      (if c < 66 then
        (if 48 \<le> c \<and> c \<le> 57 then St 21
        else St 0)
      else if 90 < c then
        (if 94 \<le> c \<and> c \<le> 122 then St 21
        else St 0)
      else St 21)
    else St 21)"

definition client_case_46 :: "int \<Rightarrow> label" where
  "client_case_46 c =
   (if c = 33 then St 21
    else if c = 58 then Tr 39
    else if c = 78 then St 47
    else if c = 110 then St 47
    else if c = 124 then St 21
    else if c = 126 then St 21
    else if c < 45 then
      (if 39 < c then
        (if 42 \<le> c \<and> c \<le> 43 then St 21
        else St 0)
      else if 35 \<le> c then St 21
      else St 0)
    else if 46 < c then
      (if c < 65 then
        (if 48 \<le> c \<and> c \<le> 57 then St 21
        else St 0)
      else if 90 < c then
        (if 94 \<le> c \<and> c \<le> 122 then St 21
        else St 0)
      else St 21)
    else St 21)"

definition client_case_47 :: "int \<Rightarrow> label" where
  "client_case_47 c =
   (if c = 33 then St 21
    else if c = 58 then Tr 39
    else if c = 83 then St 48
    else if c = 115 then St 48
    else if c = 124 then St 21
    else if c = 126 then St 21
    else if c < 45 then
      (if 39 < c then
        (if 42 \<le> c \<and> c \<le> 43 then St 21
        else St 0)
      else if 35 \<le> c then St 21
      else St 0)
    else if 46 < c then
      (if c < 65 then
        (if 48 \<le> c \<and> c \<le> 57 then St 21
        else St 0)
      else if 90 < c then
        (if 94 \<le> c \<and> c \<le> 122 then St 21
        else St 0)
      else St 21)
    else St 21)"

definition client_case_48 :: "int \<Rightarrow> label" where
  "client_case_48 c =
   (if c = 33 then St 21
    else if c = 58 then Tr 39
    else if c = 70 then St 49
    else if c = 102 then St 49
    else if c = 124 then St 21
    else if c = 126 then St 21
    else if c < 45 then
      (if 39 < c then
        (if 42 \<le> c \<and> c \<le> 43 then St 21
        else St 0)
      else if 35 \<le> c then St 21
      else St 0)
    else if 46 < c then
      (if c < 65 then
        (if 48 \<le> c \<and> c \<le> 57 then St 21
        else St 0)
      else if 90 < c then
        (if 94 \<le> c \<and> c \<le> 122 then St 21
        else St 0)
      else St 21)
    else St 21)"

definition client_case_49 :: "int \<Rightarrow> label" where
  "client_case_49 c =
   (if c = 33 then St 21
    else if c = 58 then Tr 39
    else if c = 69 then St 50
    else if c = 101 then St 50
    else if c = 124 then St 21
    else if c = 126 then St 21
    else if c < 45 then
      (if 39 < c then
        (if 42 \<le> c \<and> c \<le> 43 then St 21
        else St 0)
      else if 35 \<le> c then St 21
      else St 0)
    else if 46 < c then
      (if c < 65 then
        (if 48 \<le> c \<and> c \<le> 57 then St 21
        else St 0)
      else if 90 < c then
        (if 94 \<le> c \<and> c \<le> 122 then St 21
        else St 0)
      else St 21)
    else St 21)"

definition client_case_50 :: "int \<Rightarrow> label" where
  "client_case_50 c =
   (if c = 33 then St 21
    else if c = 58 then Tr 39
    else if c = 82 then St 51
    else if c = 114 then St 51
    else if c = 124 then St 21
    else if c = 126 then St 21
    else if c < 45 then
      (if 39 < c then
        (if 42 \<le> c \<and> c \<le> 43 then St 21
        else St 0)
      else if 35 \<le> c then St 21
      else St 0)
    else if 46 < c then
      (if c < 65 then
        (if 48 \<le> c \<and> c \<le> 57 then St 21
        else St 0)
      else if 90 < c then
        (if 94 \<le> c \<and> c \<le> 122 then St 21
        else St 0)
      else St 21)
    else St 21)"

definition client_case_51 :: "int \<Rightarrow> label" where
  "client_case_51 c =
   (if c = 33 then St 21
    else if c = 45 then St 52
    else if c = 46 then St 21
    else if c = 58 then Tr 39
    else if c = 124 then St 21
    else if c = 126 then St 21
    else if c < 48 then
      (if 39 < c then
        (if 42 \<le> c \<and> c \<le> 43 then St 21
        else St 0)
      else if 35 \<le> c then St 21
      else St 0)
    else if 57 < c then
      (if 90 < c then
        (if 94 \<le> c \<and> c \<le> 122 then St 21
        else St 0)
      else if 65 \<le> c then St 21
      else St 0)
    else St 21)"

definition client_case_52 :: "int \<Rightarrow> label" where
  "client_case_52 c =
   (if c = 33 then St 21
    else if c = 58 then Tr 39
    else if c = 69 then St 53
    else if c = 101 then St 53
    else if c = 124 then St 21
    else if c = 126 then St 21
    else if c < 45 then
      (if 39 < c then
        (if 42 \<le> c \<and> c \<le> 43 then St 21
        else St 0)
      else if 35 \<le> c then St 21
      else St 0)
    else if 46 < c then
      (if c < 65 then
        (if 48 \<le> c \<and> c \<le> 57 then St 21
        else St 0)
      else if 90 < c then
        (if 94 \<le> c \<and> c \<le> 122 then St 21
        else St 0)
      else St 21)
    else St 21)"

definition client_case_53 :: "int \<Rightarrow> label" where
  "client_case_53 c =
   (if c = 33 then St 21
    else if c = 58 then Tr 39
    else if c = 78 then St 54
    else if c = 110 then St 54
    else if c = 124 then St 21
    else if c = 126 then St 21
    else if c < 45 then
      (if 39 < c then
        (if 42 \<le> c \<and> c \<le> 43 then St 21
        else St 0)
      else if 35 \<le> c then St 21
      else St 0)
    else if 46 < c then
      (if c < 65 then
        (if 48 \<le> c \<and> c \<le> 57 then St 21
        else St 0)
      else if 90 < c then
        (if 94 \<le> c \<and> c \<le> 122 then St 21
        else St 0)
      else St 21)
    else St 21)"

definition client_case_54 :: "int \<Rightarrow> label" where
  "client_case_54 c =
   (if c = 33 then St 21
    else if c = 58 then Tr 39
    else if c = 67 then St 55
    else if c = 99 then St 55
    else if c = 124 then St 21
    else if c = 126 then St 21
    else if c < 45 then
      (if 39 < c then
        (if 42 \<le> c \<and> c \<le> 43 then St 21
        else St 0)
      else if 35 \<le> c then St 21
      else St 0)
    else if 46 < c then
      (if c < 65 then
        (if 48 \<le> c \<and> c \<le> 57 then St 21
        else St 0)
      else if 90 < c then
        (if 94 \<le> c \<and> c \<le> 122 then St 21
        else St 0)
      else St 21)
    else St 21)"

definition client_case_55 :: "int \<Rightarrow> label" where
  "client_case_55 c =
   (if c = 33 then St 21
    else if c = 58 then Tr 39
    else if c = 79 then St 56
    else if c = 111 then St 56
    else if c = 124 then St 21
    else if c = 126 then St 21
    else if c < 45 then
      (if 39 < c then
        (if 42 \<le> c \<and> c \<le> 43 then St 21
        else St 0)
      else if 35 \<le> c then St 21
      else St 0)
    else if 46 < c then
      (if c < 65 then
        (if 48 \<le> c \<and> c \<le> 57 then St 21
        else St 0)
      else if 90 < c then
        (if 94 \<le> c \<and> c \<le> 122 then St 21
        else St 0)
      else St 21)
    else St 21)"

definition client_case_56 :: "int \<Rightarrow> label" where
  "client_case_56 c =
   (if c = 33 then St 21
    else if c = 58 then Tr 39
    else if c = 68 then St 57
    else if c = 100 then St 57
    else if c = 124 then St 21
    else if c = 126 then St 21
    else if c < 45 then
      (if 39 < c then
        (if 42 \<le> c \<and> c \<le> 43 then St 21
        else St 0)
      else if 35 \<le> c then St 21
      else St 0)
    else if 46 < c then
      (if c < 65 then
        (if 48 \<le> c \<and> c \<le> 57 then St 21
        else St 0)
      else if 90 < c then
        (if 94 \<le> c \<and> c \<le> 122 then St 21
        else St 0)
      else St 21)
    else St 21)"

definition client_case_57 :: "int \<Rightarrow> label" where
  "client_case_57 c =
   (if c = 33 then St 21
    else if c = 58 then Tr 39
    else if c = 73 then St 58
    else if c = 105 then St 58
    else if c = 124 then St 21
    else if c = 126 then St 21
    else if c < 45 then
      (if 39 < c then
        (if 42 \<le> c \<and> c \<le> 43 then St 21
        else St 0)
      else if 35 \<le> c then St 21
      else St 0)
    else if 46 < c then
      (if c < 65 then
        (if 48 \<le> c \<and> c \<le> 57 then St 21
        else St 0)
      else if 90 < c then
        (if 94 \<le> c \<and> c \<le> 122 then St 21
        else St 0)
      else St 21)
    else St 21)"

definition client_case_58 :: "int \<Rightarrow> label" where
  "client_case_58 c =
   (if c = 33 then St 21
    else if c = 58 then Tr 39
    else if c = 78 then St 59
    else if c = 110 then St 59
    else if c = 124 then St 21
    else if c = 126 then St 21
    else if c < 45 then
      (if 39 < c then
        (if 42 \<le> c \<and> c \<le> 43 then St 21
        else St 0)
      else if 35 \<le> c then St 21
      else St 0)
    else if 46 < c then
      (if c < 65 then
        (if 48 \<le> c \<and> c \<le> 57 then St 21
        else St 0)
      else if 90 < c then
        (if 94 \<le> c \<and> c \<le> 122 then St 21
        else St 0)
      else St 21)
    else St 21)"

definition client_case_59 :: "int \<Rightarrow> label" where
  "client_case_59 c =
   (if c = 33 then St 21
    else if c = 58 then Tr 39
    else if c = 71 then St 60
    else if c = 103 then St 60
    else if c = 124 then St 21
    else if c = 126 then St 21
    else if c < 45 then
      (if 39 < c then
        (if 42 \<le> c \<and> c \<le> 43 then St 21
        else St 0)
      else if 35 \<le> c then St 21
      else St 0)
    else if 46 < c then
      (if c < 65 then
        (if 48 \<le> c \<and> c \<le> 57 then St 21
        else St 0)
      else if 90 < c then
        (if 94 \<le> c \<and> c \<le> 122 then St 21
        else St 0)
      else St 21)
    else St 21)"

definition client_case_60 :: "int \<Rightarrow> label" where
  "client_case_60 c =
   (if c = 33 then St 21
    else if c = 58 then Tr 95
    else if c = 124 then St 21
    else if c = 126 then St 21
    else if c < 45 then
      (if 39 < c then
        (if 42 \<le> c \<and> c \<le> 43 then St 21
        else St 0)
      else if 35 \<le> c then St 21
      else St 0)
    else if 46 < c then
      (if c < 65 then
        (if 48 \<le> c \<and> c \<le> 57 then St 21
        else St 0)
      else if 90 < c then
        (if 94 \<le> c \<and> c \<le> 122 then St 21
        else St 0)
      else St 21)
    else St 21)"

definition client_case_61 :: "int \<Rightarrow> label" where
  "client_case_61 c =
   (if c = 10 then Tr 97
    else if c = 13 then Tr 98
    else if c = 32 then Tr 96
    else if c = 67 then Tr 99
    else if c = 99 then Tr 99
    else if 9 \<le> c \<and> c \<le> 12 then Tr 96
    else Tr 40)"

definition client_case_62 :: "int \<Rightarrow> label" where
  "client_case_62 c =
   (if c = 10 then Tr 101
    else if c = 13 then St 72
    else if c = 32 then St 63
    else if c = 33 then Tr 35
    else if c = 67 then Tr 103
    else if c = 84 then Tr 37
    else if c = 99 then Tr 103
    else if c = 116 then Tr 37
    else if c = 124 then Tr 35
    else if c = 126 then Tr 35
    else if c < 45 then
      (if c < 35 then
        (if 9 \<le> c \<and> c \<le> 12 then St 63
        else St 0)
      else if 39 < c then
        (if 42 \<le> c \<and> c \<le> 43 then Tr 35
        else St 0)
      else Tr 35)
    else if 46 < c then
      (if c < 65 then
        (if 48 \<le> c \<and> c \<le> 57 then Tr 35
        else St 0)
      else if 90 < c then
        (if 94 \<le> c \<and> c \<le> 122 then Tr 35
        else St 0)
      else Tr 35)
    else Tr 35)"

definition client_case_63 :: "int \<Rightarrow> label" where
  "client_case_63 c =
   (if c = 32 then St 63
    else if c = 67 then Tr 104
    else if c = 99 then Tr 104
    else if 9 \<le> c \<and> c \<le> 13 then St 63
    else St 0)"

definition client_case_64 :: "int \<Rightarrow> label" where
  "client_case_64 c =
   (if c = 72 then St 65
    else if c = 104 then St 65
    else St 0)"

definition client_case_65 :: "int \<Rightarrow> label" where
  "client_case_65 c =
   (if c = 85 then St 66
    else if c = 117 then St 66
    else St 0)"

definition client_case_66 :: "int \<Rightarrow> label" where
  "client_case_66 c =
   (if c = 78 then St 67
    else if c = 110 then St 67
    else St 0)"

definition client_case_67 :: "int \<Rightarrow> label" where
  "client_case_67 c =
   (if c = 75 then St 68
    else if c = 107 then St 68
    else St 0)"

definition client_case_68 :: "int \<Rightarrow> label" where
  "client_case_68 c =
   (if c = 69 then St 69
    else if c = 101 then St 69
    else St 0)"

definition client_case_69 :: "int \<Rightarrow> label" where
  "client_case_69 c =
   (if c = 68 then St 70
    else if c = 100 then St 70
    else St 0)"

definition client_case_70 :: "int \<Rightarrow> label" where
  "client_case_70 c =
   (if c = 10 then Tr 111
    else if c = 13 then Tr 112
    else St 0)"

definition client_case_71 :: "int \<Rightarrow> label" where
  "client_case_71 c =
   (if c = 10 then Tr 113
    else St 0)"

definition client_case_72 :: "int \<Rightarrow> label" where
  "client_case_72 c =
   (if c = 10 then Tr 101
    else if c = 32 then St 63
    else if c = 67 then Tr 104
    else if c = 99 then Tr 104
    else if 9 \<le> c \<and> c \<le> 13 then St 63
    else St 0)"

definition client_case_73 :: "int \<Rightarrow> label" where
  "client_case_73 c =
   (if c = 33 then St 21
    else if c = 58 then Tr 39
    else if c = 72 then St 74
    else if c = 79 then St 26
    else if c = 104 then St 74
    else if c = 111 then St 26
    else if c = 124 then St 21
    else if c = 126 then St 21
    else if c < 45 then
      (if 39 < c then
        (if 42 \<le> c \<and> c \<le> 43 then St 21
        else St 0)
      else if 35 \<le> c then St 21
      else St 0)
    else if 46 < c then
      (if c < 65 then
        (if 48 \<le> c \<and> c \<le> 57 then St 21
        else St 0)
      else if 90 < c then
        (if 94 \<le> c \<and> c \<le> 122 then St 21
        else St 0)
      else St 21)
    else St 21)"

definition client_case_74 :: "int \<Rightarrow> label" where
  "client_case_74 c =
   (if c = 33 then St 21
    else if c = 58 then Tr 39
    else if c = 85 then St 75
    else if c = 117 then St 75
    else if c = 124 then St 21
    else if c = 126 then St 21
    else if c < 45 then
      (if 39 < c then
        (if 42 \<le> c \<and> c \<le> 43 then St 21
        else St 0)
      else if 35 \<le> c then St 21
      else St 0)
    else if 46 < c then
      (if c < 65 then
        (if 48 \<le> c \<and> c \<le> 57 then St 21
        else St 0)
      else if 90 < c then
        (if 94 \<le> c \<and> c \<le> 122 then St 21
        else St 0)
      else St 21)
    else St 21)"

definition client_case_75 :: "int \<Rightarrow> label" where
  "client_case_75 c =
   (if c = 33 then St 21
    else if c = 58 then Tr 39
    else if c = 78 then St 76
    else if c = 110 then St 76
    else if c = 124 then St 21
    else if c = 126 then St 21
    else if c < 45 then
      (if 39 < c then
        (if 42 \<le> c \<and> c \<le> 43 then St 21
        else St 0)
      else if 35 \<le> c then St 21
      else St 0)
    else if 46 < c then
      (if c < 65 then
        (if 48 \<le> c \<and> c \<le> 57 then St 21
        else St 0)
      else if 90 < c then
        (if 94 \<le> c \<and> c \<le> 122 then St 21
        else St 0)
      else St 21)
    else St 21)"

definition client_case_76 :: "int \<Rightarrow> label" where
  "client_case_76 c =
   (if c = 33 then St 21
    else if c = 58 then Tr 39
    else if c = 75 then St 77
    else if c = 107 then St 77
    else if c = 124 then St 21
    else if c = 126 then St 21
    else if c < 45 then
      (if 39 < c then
        (if 42 \<le> c \<and> c \<le> 43 then St 21
        else St 0)
      else if 35 \<le> c then St 21
      else St 0)
    else if 46 < c then
      (if c < 65 then
        (if 48 \<le> c \<and> c \<le> 57 then St 21
        else St 0)
      else if 90 < c then
        (if 94 \<le> c \<and> c \<le> 122 then St 21
        else St 0)
      else St 21)
    else St 21)"

definition client_case_77 :: "int \<Rightarrow> label" where
  "client_case_77 c =
   (if c = 33 then St 21
    else if c = 58 then Tr 39
    else if c = 69 then St 78
    else if c = 101 then St 78
    else if c = 124 then St 21
    else if c = 126 then St 21
    else if c < 45 then
      (if 39 < c then
        (if 42 \<le> c \<and> c \<le> 43 then St 21
        else St 0)
      else if 35 \<le> c then St 21
      else St 0)
    else if 46 < c then
      (if c < 65 then
        (if 48 \<le> c \<and> c \<le> 57 then St 21
        else St 0)
      else if 90 < c then
        (if 94 \<le> c \<and> c \<le> 122 then St 21
        else St 0)
      else St 21)
    else St 21)"

definition client_case_78 :: "int \<Rightarrow> label" where
  "client_case_78 c =
   (if c = 33 then St 21
    else if c = 58 then Tr 39
    else if c = 68 then St 79
    else if c = 100 then St 79
    else if c = 124 then St 21
    else if c = 126 then St 21
    else if c < 45 then
      (if 39 < c then
        (if 42 \<le> c \<and> c \<le> 43 then St 21
        else St 0)
      else if 35 \<le> c then St 21
      else St 0)
    else if 46 < c then
      (if c < 65 then
        (if 48 \<le> c \<and> c \<le> 57 then St 21
        else St 0)
      else if 90 < c then
        (if 94 \<le> c \<and> c \<le> 122 then St 21
        else St 0)
      else St 21)
    else St 21)"

definition client_case_79 :: "int \<Rightarrow> label" where
  "client_case_79 c =
   (if c = 10 then Tr 111
    else if c = 13 then Tr 112
    else if c = 33 then St 21
    else if c = 58 then Tr 39
    else if c = 124 then St 21
    else if c = 126 then St 21
    else if c < 45 then
      (if 39 < c then
        (if 42 \<le> c \<and> c \<le> 43 then St 21
        else St 0)
      else if 35 \<le> c then St 21
      else St 0)
    else if 46 < c then
      (if c < 65 then
        (if 48 \<le> c \<and> c \<le> 57 then St 21
        else St 0)
      else if 90 < c then
        (if 94 \<le> c \<and> c \<le> 122 then St 21
        else St 0)
      else St 21)
    else St 21)"

definition client_case_80 :: "int \<Rightarrow> label" where
  "client_case_80 c =
   (if c = 10 then St 62
    else if c = 32 then St 63
    else if c = 67 then Tr 104
    else if c = 99 then Tr 104
    else if 9 \<le> c \<and> c \<le> 13 then St 63
    else St 0)"

definition client_case_81 :: "int \<Rightarrow> label" where
  "client_case_81 c =
   (if c = 10 then Tr 45
    else if c = 13 then Tr 46
    else if c = 72 then St 82
    else if c = 104 then St 82
    else St 23)"

definition client_case_82 :: "int \<Rightarrow> label" where
  "client_case_82 c =
   (if c = 10 then Tr 45
    else if c = 13 then Tr 46
    else if c = 85 then St 83
    else if c = 117 then St 83
    else St 23)"

definition client_case_83 :: "int \<Rightarrow> label" where
  "client_case_83 c =
   (if c = 10 then Tr 45
    else if c = 13 then Tr 46
    else if c = 78 then St 84
    else if c = 110 then St 84
    else St 23)"

definition client_case_84 :: "int \<Rightarrow> label" where
  "client_case_84 c =
   (if c = 10 then Tr 45
    else if c = 13 then Tr 46
    else if c = 75 then St 85
    else if c = 107 then St 85
    else St 23)"

definition client_case_85 :: "int \<Rightarrow> label" where
  "client_case_85 c =
   (if c = 10 then Tr 45
    else if c = 13 then Tr 46
    else if c = 69 then St 86
    else if c = 101 then St 86
    else St 23)"

definition client_case_86 :: "int \<Rightarrow> label" where
  "client_case_86 c =
   (if c = 10 then Tr 45
    else if c = 13 then Tr 46
    else if c = 68 then St 87
    else if c = 100 then St 87
    else St 23)"

definition client_case_87 :: "int \<Rightarrow> label" where
  "client_case_87 c =
   (if c = 10 then Tr 111
    else if c = 13 then Tr 112
    else St 23)"

definition client_case_88 :: "int \<Rightarrow> label" where
  "client_case_88 c =
   (if c = 10 then St 43
    else St 0)"

definition client_case_89 :: "int \<Rightarrow> label" where
  "client_case_89 c =
   (if c = 10 then Tr 64
    else if c = 32 then St 37
    else if c = 67 then St 38
    else if c = 99 then St 38
    else if 9 \<le> c \<and> c \<le> 13 then St 37
    else St 0)"

definition client_case_90 :: "int \<Rightarrow> label" where
  "client_case_90 c =
   (if c = 33 then St 21
    else if c = 58 then Tr 39
    else if c = 76 then St 91
    else if c = 79 then St 26
    else if c = 108 then St 91
    else if c = 111 then St 26
    else if c = 124 then St 21
    else if c = 126 then St 21
    else if c < 45 then
      (if 39 < c then
        (if 42 \<le> c \<and> c \<le> 43 then St 21
        else St 0)
      else if 35 \<le> c then St 21
      else St 0)
    else if 46 < c then
      (if c < 65 then
        (if 48 \<le> c \<and> c \<le> 57 then St 21
        else St 0)
      else if 90 < c then
        (if 94 \<le> c \<and> c \<le> 122 then St 21
        else St 0)
      else St 21)
    else St 21)"

definition client_case_91 :: "int \<Rightarrow> label" where
  "client_case_91 c =
   (if c = 33 then St 21
    else if c = 58 then Tr 39
    else if c = 79 then St 92
    else if c = 111 then St 92
    else if c = 124 then St 21
    else if c = 126 then St 21
    else if c < 45 then
      (if 39 < c then
        (if 42 \<le> c \<and> c \<le> 43 then St 21
        else St 0)
      else if 35 \<le> c then St 21
      else St 0)
    else if 46 < c then
      (if c < 65 then
        (if 48 \<le> c \<and> c \<le> 57 then St 21
        else St 0)
      else if 90 < c then
        (if 94 \<le> c \<and> c \<le> 122 then St 21
        else St 0)
      else St 21)
    else St 21)"

definition client_case_92 :: "int \<Rightarrow> label" where
  "client_case_92 c =
   (if c = 33 then St 21
    else if c = 58 then Tr 39
    else if c = 83 then St 93
    else if c = 115 then St 93
    else if c = 124 then St 21
    else if c = 126 then St 21
    else if c < 45 then
      (if 39 < c then
        (if 42 \<le> c \<and> c \<le> 43 then St 21
        else St 0)
      else if 35 \<le> c then St 21
      else St 0)
    else if 46 < c then
      (if c < 65 then
        (if 48 \<le> c \<and> c \<le> 57 then St 21
        else St 0)
      else if 90 < c then
        (if 94 \<le> c \<and> c \<le> 122 then St 21
        else St 0)
      else St 21)
    else St 21)"

definition client_case_93 :: "int \<Rightarrow> label" where
  "client_case_93 c =
   (if c = 33 then St 21
    else if c = 58 then Tr 39
    else if c = 69 then St 94
    else if c = 101 then St 94
    else if c = 124 then St 21
    else if c = 126 then St 21
    else if c < 45 then
      (if 39 < c then
        (if 42 \<le> c \<and> c \<le> 43 then St 21
        else St 0)
      else if 35 \<le> c then St 21
      else St 0)
    else if 46 < c then
      (if c < 65 then
        (if 48 \<le> c \<and> c \<le> 57 then St 21
        else St 0)
      else if 90 < c then
        (if 94 \<le> c \<and> c \<le> 122 then St 21
        else St 0)
      else St 21)
    else St 21)"

definition client_case_94 :: "int \<Rightarrow> label" where
  "client_case_94 c =
   (if c = 10 then St 43
    else if c = 13 then St 88
    else if c = 33 then St 21
    else if c = 58 then Tr 39
    else if c = 124 then St 21
    else if c = 126 then St 21
    else if c < 45 then
      (if 39 < c then
        (if 42 \<le> c \<and> c \<le> 43 then St 21
        else St 0)
      else if 35 \<le> c then St 21
      else St 0)
    else if 46 < c then
      (if c < 65 then
        (if 48 \<le> c \<and> c \<le> 57 then St 21
        else St 0)
      else if 90 < c then
        (if 94 \<le> c \<and> c \<le> 122 then St 21
        else St 0)
      else St 21)
    else St 21)"

definition client_case_95 :: "int \<Rightarrow> label" where
  "client_case_95 c =
   (if c = 10 then St 36
    else if c = 32 then St 37
    else if c = 67 then St 38
    else if c = 99 then St 38
    else if 9 \<le> c \<and> c \<le> 13 then St 37
    else St 0)"

definition client_case_96 :: "int \<Rightarrow> label" where
  "client_case_96 c =
   (if c = 10 then Tr 45
    else if c = 13 then Tr 46
    else if c = 76 then St 97
    else if c = 108 then St 97
    else St 23)"

definition client_case_97 :: "int \<Rightarrow> label" where
  "client_case_97 c =
   (if c = 10 then Tr 45
    else if c = 13 then Tr 46
    else if c = 79 then St 98
    else if c = 111 then St 98
    else St 23)"

definition client_case_98 :: "int \<Rightarrow> label" where
  "client_case_98 c =
   (if c = 10 then Tr 45
    else if c = 13 then Tr 46
    else if c = 83 then St 99
    else if c = 115 then St 99
    else St 23)"

definition client_case_99 :: "int \<Rightarrow> label" where
  "client_case_99 c =
   (if c = 10 then Tr 45
    else if c = 13 then Tr 46
    else if c = 69 then St 100
    else if c = 101 then St 100
    else St 23)"

definition client_case_100 :: "int \<Rightarrow> label" where
  "client_case_100 c =
   (if c = 10 then Tr 136
    else if c = 13 then Tr 137
    else St 23)"

definition client_case_101 :: "int \<Rightarrow> label" where
  "client_case_101 c =
   (if c = 33 then St 21
    else if c = 58 then Tr 39
    else if c = 69 then St 102
    else if c = 101 then St 102
    else if c = 124 then St 21
    else if c = 126 then St 21
    else if c < 45 then
      (if 39 < c then
        (if 42 \<le> c \<and> c \<le> 43 then St 21
        else St 0)
      else if 35 \<le> c then St 21
      else St 0)
    else if 46 < c then
      (if c < 65 then
        (if 48 \<le> c \<and> c \<le> 57 then St 21
        else St 0)
      else if 90 < c then
        (if 94 \<le> c \<and> c \<le> 122 then St 21
        else St 0)
      else St 21)
    else St 21)"

definition client_case_102 :: "int \<Rightarrow> label" where
  "client_case_102 c =
   (if c = 33 then St 21
    else if c = 58 then Tr 39
    else if c = 78 then St 103
    else if c = 110 then St 103
    else if c = 124 then St 21
    else if c = 126 then St 21
    else if c < 45 then
      (if 39 < c then
        (if 42 \<le> c \<and> c \<le> 43 then St 21
        else St 0)
      else if 35 \<le> c then St 21
      else St 0)
    else if 46 < c then
      (if c < 65 then
        (if 48 \<le> c \<and> c \<le> 57 then St 21
        else St 0)
      else if 90 < c then
        (if 94 \<le> c \<and> c \<le> 122 then St 21
        else St 0)
      else St 21)
    else St 21)"

definition client_case_103 :: "int \<Rightarrow> label" where
  "client_case_103 c =
   (if c = 33 then St 21
    else if c = 58 then Tr 39
    else if c = 84 then St 104
    else if c = 116 then St 104
    else if c = 124 then St 21
    else if c = 126 then St 21
    else if c < 45 then
      (if 39 < c then
        (if 42 \<le> c \<and> c \<le> 43 then St 21
        else St 0)
      else if 35 \<le> c then St 21
      else St 0)
    else if 46 < c then
      (if c < 65 then
        (if 48 \<le> c \<and> c \<le> 57 then St 21
        else St 0)
      else if 90 < c then
        (if 94 \<le> c \<and> c \<le> 122 then St 21
        else St 0)
      else St 21)
    else St 21)"

definition client_case_104 :: "int \<Rightarrow> label" where
  "client_case_104 c =
   (if c = 33 then St 21
    else if c = 45 then St 105
    else if c = 46 then St 21
    else if c = 58 then Tr 39
    else if c = 124 then St 21
    else if c = 126 then St 21
    else if c < 48 then
      (if 39 < c then
        (if 42 \<le> c \<and> c \<le> 43 then St 21
        else St 0)
      else if 35 \<le> c then St 21
      else St 0)
    else if 57 < c then
      (if 90 < c then
        (if 94 \<le> c \<and> c \<le> 122 then St 21
        else St 0)
      else if 65 \<le> c then St 21
      else St 0)
    else St 21)"

definition client_case_105 :: "int \<Rightarrow> label" where
  "client_case_105 c =
   (if c = 33 then St 21
    else if c = 58 then Tr 39
    else if c = 76 then St 106
    else if c = 108 then St 106
    else if c = 124 then St 21
    else if c = 126 then St 21
    else if c < 45 then
      (if 39 < c then
        (if 42 \<le> c \<and> c \<le> 43 then St 21
        else St 0)
      else if 35 \<le> c then St 21
      else St 0)
    else if 46 < c then
      (if c < 65 then
        (if 48 \<le> c \<and> c \<le> 57 then St 21
        else St 0)
      else if 90 < c then
        (if 94 \<le> c \<and> c \<le> 122 then St 21
        else St 0)
      else St 21)
    else St 21)"

definition client_case_106 :: "int \<Rightarrow> label" where
  "client_case_106 c =
   (if c = 33 then St 21
    else if c = 58 then Tr 39
    else if c = 69 then St 107
    else if c = 101 then St 107
    else if c = 124 then St 21
    else if c = 126 then St 21
    else if c < 45 then
      (if 39 < c then
        (if 42 \<le> c \<and> c \<le> 43 then St 21
        else St 0)
      else if 35 \<le> c then St 21
      else St 0)
    else if 46 < c then
      (if c < 65 then
        (if 48 \<le> c \<and> c \<le> 57 then St 21
        else St 0)
      else if 90 < c then
        (if 94 \<le> c \<and> c \<le> 122 then St 21
        else St 0)
      else St 21)
    else St 21)"

definition client_case_107 :: "int \<Rightarrow> label" where
  "client_case_107 c =
   (if c = 33 then St 21
    else if c = 58 then Tr 39
    else if c = 78 then St 108
    else if c = 110 then St 108
    else if c = 124 then St 21
    else if c = 126 then St 21
    else if c < 45 then
      (if 39 < c then
        (if 42 \<le> c \<and> c \<le> 43 then St 21
        else St 0)
      else if 35 \<le> c then St 21
      else St 0)
    else if 46 < c then
      (if c < 65 then
        (if 48 \<le> c \<and> c \<le> 57 then St 21
        else St 0)
      else if 90 < c then
        (if 94 \<le> c \<and> c \<le> 122 then St 21
        else St 0)
      else St 21)
    else St 21)"

definition client_case_108 :: "int \<Rightarrow> label" where
  "client_case_108 c =
   (if c = 33 then St 21
    else if c = 58 then Tr 39
    else if c = 71 then St 109
    else if c = 103 then St 109
    else if c = 124 then St 21
    else if c = 126 then St 21
    else if c < 45 then
      (if 39 < c then
        (if 42 \<le> c \<and> c \<le> 43 then St 21
        else St 0)
      else if 35 \<le> c then St 21
      else St 0)
    else if 46 < c then
      (if c < 65 then
        (if 48 \<le> c \<and> c \<le> 57 then St 21
        else St 0)
      else if 90 < c then
        (if 94 \<le> c \<and> c \<le> 122 then St 21
        else St 0)
      else St 21)
    else St 21)"

definition client_case_109 :: "int \<Rightarrow> label" where
  "client_case_109 c =
   (if c = 33 then St 21
    else if c = 58 then Tr 39
    else if c = 84 then St 110
    else if c = 116 then St 110
    else if c = 124 then St 21
    else if c = 126 then St 21
    else if c < 45 then
      (if 39 < c then
        (if 42 \<le> c \<and> c \<le> 43 then St 21
        else St 0)
      else if 35 \<le> c then St 21
      else St 0)
    else if 46 < c then
      (if c < 65 then
        (if 48 \<le> c \<and> c \<le> 57 then St 21
        else St 0)
      else if 90 < c then
        (if 94 \<le> c \<and> c \<le> 122 then St 21
        else St 0)
      else St 21)
    else St 21)"

definition client_case_110 :: "int \<Rightarrow> label" where
  "client_case_110 c =
   (if c = 33 then St 21
    else if c = 58 then Tr 39
    else if c = 72 then St 111
    else if c = 104 then St 111
    else if c = 124 then St 21
    else if c = 126 then St 21
    else if c < 45 then
      (if 39 < c then
        (if 42 \<le> c \<and> c \<le> 43 then St 21
        else St 0)
      else if 35 \<le> c then St 21
      else St 0)
    else if 46 < c then
      (if c < 65 then
        (if 48 \<le> c \<and> c \<le> 57 then St 21
        else St 0)
      else if 90 < c then
        (if 94 \<le> c \<and> c \<le> 122 then St 21
        else St 0)
      else St 21)
    else St 21)"

definition client_case_111 :: "int \<Rightarrow> label" where
  "client_case_111 c =
   (if c = 33 then St 21
    else if c = 58 then Tr 148
    else if c = 124 then St 21
    else if c = 126 then St 21
    else if c < 45 then
      (if 39 < c then
        (if 42 \<le> c \<and> c \<le> 43 then St 21
        else St 0)
      else if 35 \<le> c then St 21
      else St 0)
    else if 46 < c then
      (if c < 65 then
        (if 48 \<le> c \<and> c \<le> 57 then St 21
        else St 0)
      else if 90 < c then
        (if 94 \<le> c \<and> c \<le> 122 then St 21
        else St 0)
      else St 21)
    else St 21)"

definition client_case_112 :: "int \<Rightarrow> label" where
  "client_case_112 c =
   (if c = 10 then Tr 150
    else if c = 13 then Tr 151
    else if c = 32 then Tr 149
    else if 12 < c then
      (if 48 \<le> c \<and> c \<le> 57 then Tr 152
      else Tr 40)
    else if 9 \<le> c then Tr 149
    else Tr 40)"

definition client_case_113 :: "int \<Rightarrow> label" where
  "client_case_113 c =
   (if c = 10 then Tr 154
    else if c = 13 then St 116
    else if c = 32 then St 114
    else if c = 33 then Tr 35
    else if c = 67 then Tr 36
    else if c = 84 then Tr 37
    else if c = 99 then Tr 36
    else if c = 116 then Tr 37
    else if c = 124 then Tr 35
    else if c = 126 then Tr 35
    else if c < 45 then
      (if c < 35 then
        (if 9 \<le> c \<and> c \<le> 12 then St 114
        else St 0)
      else if 39 < c then
        (if 42 \<le> c \<and> c \<le> 43 then Tr 35
        else St 0)
      else Tr 35)
    else if 46 < c then
      (if c < 65 then
        (if 48 \<le> c \<and> c \<le> 57 then Tr 156
        else St 0)
      else if 90 < c then
        (if 94 \<le> c \<and> c \<le> 122 then Tr 35
        else St 0)
      else Tr 35)
    else Tr 35)"

definition client_case_114 :: "int \<Rightarrow> label" where
  "client_case_114 c =
   (if c = 32 then St 114
    else if 13 < c then
      (if 48 \<le> c \<and> c \<le> 57 then Tr 157
      else St 0)
    else if 9 \<le> c then St 114
    else St 0)"

definition client_case_115 :: "int \<Rightarrow> label" where
  "client_case_115 c =
   (if c = 10 then Tr 158
    else if c = 13 then Tr 159
    else if 48 \<le> c \<and> c \<le> 57 then St 115
    else St 0)"

definition client_case_116 :: "int \<Rightarrow> label" where
  "client_case_116 c =
   (if c = 10 then Tr 154
    else if c = 32 then St 114
    else if 13 < c then
      (if 48 \<le> c \<and> c \<le> 57 then Tr 157
      else St 0)
    else if 9 \<le> c then St 114
    else St 0)"

definition client_case_117 :: "int \<Rightarrow> label" where
  "client_case_117 c =
   (if c = 10 then Tr 158
    else if c = 13 then Tr 159
    else if c = 33 then St 21
    else if c = 58 then Tr 39
    else if c = 124 then St 21
    else if c = 126 then St 21
    else if c < 45 then
      (if 39 < c then
        (if 42 \<le> c \<and> c \<le> 43 then St 21
        else St 0)
      else if 35 \<le> c then St 21
      else St 0)
    else if 46 < c then
      (if c < 65 then
        (if 48 \<le> c \<and> c \<le> 57 then St 117
        else St 0)
      else if 90 < c then
        (if 94 \<le> c \<and> c \<le> 122 then St 21
        else St 0)
      else St 21)
    else St 21)"

definition client_case_118 :: "int \<Rightarrow> label" where
  "client_case_118 c =
   (if c = 10 then St 113
    else if c = 32 then St 114
    else if 13 < c then
      (if 48 \<le> c \<and> c \<le> 57 then Tr 157
      else St 0)
    else if 9 \<le> c then St 114
    else St 0)"

definition client_case_119 :: "int \<Rightarrow> label" where
  "client_case_119 c =
   (if c = 10 then Tr 158
    else if c = 13 then Tr 159
    else if 48 \<le> c \<and> c \<le> 57 then St 119
    else St 23)"

definition client_case_120 :: "int \<Rightarrow> label" where
  "client_case_120 c =
   St 0"

definition client_case_121 :: "int \<Rightarrow> label" where
  "client_case_121 c =
   (if c = 32 then St 63
    else if c = 67 then Tr 104
    else if c = 99 then Tr 104
    else if 9 \<le> c \<and> c \<le> 13 then St 63
    else St 0)"

definition client_case_122 :: "int \<Rightarrow> label" where
  "client_case_122 c =
   (if c = 32 then St 37
    else if c = 67 then St 38
    else if c = 99 then St 38
    else if 9 \<le> c \<and> c \<le> 13 then St 37
    else St 0)"

definition client_case_123 :: "int \<Rightarrow> label" where
  "client_case_123 c =
   (if c = 32 then St 114
    else if 13 < c then
      (if 48 \<le> c \<and> c \<le> 57 then Tr 157
      else St 0)
    else if 9 \<le> c then St 114
    else St 0)"

subsection \<open>The switch\<close>

text \<open>\<^verbatim>\<open>switch ( cs )\<close>: the code at the label of the state, in groups; a value without a label leaves the switch.\<close>

definition client_switch_0 :: "nat \<Rightarrow> int \<Rightarrow> label" where
  "client_switch_0 cs c =
    (if cs = 1 then client_case_1 c
     else if cs = 2 then client_case_2 c
     else if cs = 3 then client_case_3 c
     else if cs = 4 then client_case_4 c
     else if cs = 5 then client_case_5 c
     else if cs = 6 then client_case_6 c
     else if cs = 7 then client_case_7 c
     else if cs = 8 then client_case_8 c
     else if cs = 9 then client_case_9 c
     else if cs = 10 then client_case_10 c
     else if cs = 11 then client_case_11 c
     else if cs = 12 then client_case_12 c
     else if cs = 13 then client_case_13 c
     else if cs = 14 then client_case_14 c
     else if cs = 15 then client_case_15 c
     else if cs = 16 then client_case_16 c
     else if cs = 17 then client_case_17 c
     else if cs = 18 then client_case_18 c
     else if cs = 19 then client_case_19 c
     else Out)"

definition client_switch_1 :: "nat \<Rightarrow> int \<Rightarrow> label" where
  "client_switch_1 cs c =
    (if cs = 20 then client_case_20 c
     else if cs = 21 then client_case_21 c
     else if cs = 22 then client_case_22 c
     else if cs = 23 then client_case_23 c
     else if cs = 24 then client_case_24 c
     else if cs = 25 then client_case_25 c
     else if cs = 26 then client_case_26 c
     else if cs = 27 then client_case_27 c
     else if cs = 28 then client_case_28 c
     else if cs = 29 then client_case_29 c
     else if cs = 30 then client_case_30 c
     else if cs = 31 then client_case_31 c
     else if cs = 32 then client_case_32 c
     else if cs = 33 then client_case_33 c
     else if cs = 34 then client_case_34 c
     else if cs = 35 then client_case_35 c
     else if cs = 36 then client_case_36 c
     else if cs = 37 then client_case_37 c
     else if cs = 38 then client_case_38 c
     else if cs = 39 then client_case_39 c
     else Out)"

definition client_switch_2 :: "nat \<Rightarrow> int \<Rightarrow> label" where
  "client_switch_2 cs c =
    (if cs = 40 then client_case_40 c
     else if cs = 41 then client_case_41 c
     else if cs = 42 then client_case_42 c
     else if cs = 43 then client_case_43 c
     else if cs = 44 then client_case_44 c
     else if cs = 45 then client_case_45 c
     else if cs = 46 then client_case_46 c
     else if cs = 47 then client_case_47 c
     else if cs = 48 then client_case_48 c
     else if cs = 49 then client_case_49 c
     else if cs = 50 then client_case_50 c
     else if cs = 51 then client_case_51 c
     else if cs = 52 then client_case_52 c
     else if cs = 53 then client_case_53 c
     else if cs = 54 then client_case_54 c
     else if cs = 55 then client_case_55 c
     else if cs = 56 then client_case_56 c
     else if cs = 57 then client_case_57 c
     else if cs = 58 then client_case_58 c
     else if cs = 59 then client_case_59 c
     else Out)"

definition client_switch_3 :: "nat \<Rightarrow> int \<Rightarrow> label" where
  "client_switch_3 cs c =
    (if cs = 60 then client_case_60 c
     else if cs = 61 then client_case_61 c
     else if cs = 62 then client_case_62 c
     else if cs = 63 then client_case_63 c
     else if cs = 64 then client_case_64 c
     else if cs = 65 then client_case_65 c
     else if cs = 66 then client_case_66 c
     else if cs = 67 then client_case_67 c
     else if cs = 68 then client_case_68 c
     else if cs = 69 then client_case_69 c
     else if cs = 70 then client_case_70 c
     else if cs = 71 then client_case_71 c
     else if cs = 72 then client_case_72 c
     else if cs = 73 then client_case_73 c
     else if cs = 74 then client_case_74 c
     else if cs = 75 then client_case_75 c
     else if cs = 76 then client_case_76 c
     else if cs = 77 then client_case_77 c
     else if cs = 78 then client_case_78 c
     else if cs = 79 then client_case_79 c
     else Out)"

definition client_switch_4 :: "nat \<Rightarrow> int \<Rightarrow> label" where
  "client_switch_4 cs c =
    (if cs = 80 then client_case_80 c
     else if cs = 81 then client_case_81 c
     else if cs = 82 then client_case_82 c
     else if cs = 83 then client_case_83 c
     else if cs = 84 then client_case_84 c
     else if cs = 85 then client_case_85 c
     else if cs = 86 then client_case_86 c
     else if cs = 87 then client_case_87 c
     else if cs = 88 then client_case_88 c
     else if cs = 89 then client_case_89 c
     else if cs = 90 then client_case_90 c
     else if cs = 91 then client_case_91 c
     else if cs = 92 then client_case_92 c
     else if cs = 93 then client_case_93 c
     else if cs = 94 then client_case_94 c
     else if cs = 95 then client_case_95 c
     else if cs = 96 then client_case_96 c
     else if cs = 97 then client_case_97 c
     else if cs = 98 then client_case_98 c
     else if cs = 99 then client_case_99 c
     else Out)"

definition client_switch_5 :: "nat \<Rightarrow> int \<Rightarrow> label" where
  "client_switch_5 cs c =
    (if cs = 100 then client_case_100 c
     else if cs = 101 then client_case_101 c
     else if cs = 102 then client_case_102 c
     else if cs = 103 then client_case_103 c
     else if cs = 104 then client_case_104 c
     else if cs = 105 then client_case_105 c
     else if cs = 106 then client_case_106 c
     else if cs = 107 then client_case_107 c
     else if cs = 108 then client_case_108 c
     else if cs = 109 then client_case_109 c
     else if cs = 110 then client_case_110 c
     else if cs = 111 then client_case_111 c
     else if cs = 112 then client_case_112 c
     else if cs = 113 then client_case_113 c
     else if cs = 114 then client_case_114 c
     else if cs = 115 then client_case_115 c
     else if cs = 116 then client_case_116 c
     else if cs = 117 then client_case_117 c
     else if cs = 118 then client_case_118 c
     else if cs = 119 then client_case_119 c
     else Out)"

definition client_switch_6 :: "nat \<Rightarrow> int \<Rightarrow> label" where
  "client_switch_6 cs c =
    (if cs = 120 then client_case_120 c
     else if cs = 121 then client_case_121 c
     else if cs = 122 then client_case_122 c
     else if cs = 123 then client_case_123 c
     else Out)"

definition client_switch :: "nat \<Rightarrow> int \<Rightarrow> label" where
  "client_switch cs c =
    (if cs < 20 then client_switch_0 cs c
     else if cs < 40 then client_switch_1 cs c
     else if cs < 60 then client_switch_2 cs c
     else if cs < 80 then client_switch_3 cs c
     else if cs < 100 then client_switch_4 cs c
     else if cs < 120 then client_switch_5 cs c
     else client_switch_6 cs c)"

subsection \<open>Looking up states and transitions\<close>

lemma client_switch_at_0:
  "client_switch 1 = client_case_1"
  "client_switch 2 = client_case_2"
  "client_switch 3 = client_case_3"
  "client_switch 4 = client_case_4"
  "client_switch 5 = client_case_5"
  "client_switch 6 = client_case_6"
  "client_switch 7 = client_case_7"
  "client_switch 8 = client_case_8"
  "client_switch 9 = client_case_9"
  "client_switch 10 = client_case_10"
  "client_switch 11 = client_case_11"
  "client_switch 12 = client_case_12"
  "client_switch 13 = client_case_13"
  "client_switch 14 = client_case_14"
  "client_switch 15 = client_case_15"
  "client_switch 16 = client_case_16"
  "client_switch 17 = client_case_17"
  "client_switch 18 = client_case_18"
  "client_switch 19 = client_case_19"
  by (simp_all add: fun_eq_iff client_switch_def client_switch_0_def)

lemma client_switch_at_1:
  "client_switch 20 = client_case_20"
  "client_switch 21 = client_case_21"
  "client_switch 22 = client_case_22"
  "client_switch 23 = client_case_23"
  "client_switch 24 = client_case_24"
  "client_switch 25 = client_case_25"
  "client_switch 26 = client_case_26"
  "client_switch 27 = client_case_27"
  "client_switch 28 = client_case_28"
  "client_switch 29 = client_case_29"
  "client_switch 30 = client_case_30"
  "client_switch 31 = client_case_31"
  "client_switch 32 = client_case_32"
  "client_switch 33 = client_case_33"
  "client_switch 34 = client_case_34"
  "client_switch 35 = client_case_35"
  "client_switch 36 = client_case_36"
  "client_switch 37 = client_case_37"
  "client_switch 38 = client_case_38"
  "client_switch 39 = client_case_39"
  by (simp_all add: fun_eq_iff client_switch_def client_switch_1_def)

lemma client_switch_at_2:
  "client_switch 40 = client_case_40"
  "client_switch 41 = client_case_41"
  "client_switch 42 = client_case_42"
  "client_switch 43 = client_case_43"
  "client_switch 44 = client_case_44"
  "client_switch 45 = client_case_45"
  "client_switch 46 = client_case_46"
  "client_switch 47 = client_case_47"
  "client_switch 48 = client_case_48"
  "client_switch 49 = client_case_49"
  "client_switch 50 = client_case_50"
  "client_switch 51 = client_case_51"
  "client_switch 52 = client_case_52"
  "client_switch 53 = client_case_53"
  "client_switch 54 = client_case_54"
  "client_switch 55 = client_case_55"
  "client_switch 56 = client_case_56"
  "client_switch 57 = client_case_57"
  "client_switch 58 = client_case_58"
  "client_switch 59 = client_case_59"
  by (simp_all add: fun_eq_iff client_switch_def client_switch_2_def)

lemma client_switch_at_3:
  "client_switch 60 = client_case_60"
  "client_switch 61 = client_case_61"
  "client_switch 62 = client_case_62"
  "client_switch 63 = client_case_63"
  "client_switch 64 = client_case_64"
  "client_switch 65 = client_case_65"
  "client_switch 66 = client_case_66"
  "client_switch 67 = client_case_67"
  "client_switch 68 = client_case_68"
  "client_switch 69 = client_case_69"
  "client_switch 70 = client_case_70"
  "client_switch 71 = client_case_71"
  "client_switch 72 = client_case_72"
  "client_switch 73 = client_case_73"
  "client_switch 74 = client_case_74"
  "client_switch 75 = client_case_75"
  "client_switch 76 = client_case_76"
  "client_switch 77 = client_case_77"
  "client_switch 78 = client_case_78"
  "client_switch 79 = client_case_79"
  by (simp_all add: fun_eq_iff client_switch_def client_switch_3_def)

lemma client_switch_at_4:
  "client_switch 80 = client_case_80"
  "client_switch 81 = client_case_81"
  "client_switch 82 = client_case_82"
  "client_switch 83 = client_case_83"
  "client_switch 84 = client_case_84"
  "client_switch 85 = client_case_85"
  "client_switch 86 = client_case_86"
  "client_switch 87 = client_case_87"
  "client_switch 88 = client_case_88"
  "client_switch 89 = client_case_89"
  "client_switch 90 = client_case_90"
  "client_switch 91 = client_case_91"
  "client_switch 92 = client_case_92"
  "client_switch 93 = client_case_93"
  "client_switch 94 = client_case_94"
  "client_switch 95 = client_case_95"
  "client_switch 96 = client_case_96"
  "client_switch 97 = client_case_97"
  "client_switch 98 = client_case_98"
  "client_switch 99 = client_case_99"
  by (simp_all add: fun_eq_iff client_switch_def client_switch_4_def)

lemma client_switch_at_5:
  "client_switch 100 = client_case_100"
  "client_switch 101 = client_case_101"
  "client_switch 102 = client_case_102"
  "client_switch 103 = client_case_103"
  "client_switch 104 = client_case_104"
  "client_switch 105 = client_case_105"
  "client_switch 106 = client_case_106"
  "client_switch 107 = client_case_107"
  "client_switch 108 = client_case_108"
  "client_switch 109 = client_case_109"
  "client_switch 110 = client_case_110"
  "client_switch 111 = client_case_111"
  "client_switch 112 = client_case_112"
  "client_switch 113 = client_case_113"
  "client_switch 114 = client_case_114"
  "client_switch 115 = client_case_115"
  "client_switch 116 = client_case_116"
  "client_switch 117 = client_case_117"
  "client_switch 118 = client_case_118"
  "client_switch 119 = client_case_119"
  by (simp_all add: fun_eq_iff client_switch_def client_switch_5_def)

lemma client_switch_at_6:
  "client_switch 120 = client_case_120"
  "client_switch 121 = client_case_121"
  "client_switch 122 = client_case_122"
  "client_switch 123 = client_case_123"
  by (simp_all add: fun_eq_iff client_switch_def client_switch_6_def)

lemmas client_switch_at =
  client_switch_at_0 client_switch_at_1 client_switch_at_2 client_switch_at_3 client_switch_at_4 client_switch_at_5 client_switch_at_6

lemma client_transition_at:
  "client_transition 0 = client_tr_0"
  "client_transition 2 = client_tr_2"
  "client_transition 3 = client_tr_3"
  "client_transition 4 = client_tr_4"
  "client_transition 6 = client_tr_6"
  "client_transition 7 = client_tr_7"
  "client_transition 8 = client_tr_8"
  "client_transition 9 = client_tr_9"
  "client_transition 10 = client_tr_10"
  "client_transition 12 = client_tr_12"
  "client_transition 13 = client_tr_13"
  "client_transition 14 = client_tr_14"
  "client_transition 15 = client_tr_15"
  "client_transition 16 = client_tr_16"
  "client_transition 18 = client_tr_18"
  "client_transition 26 = client_tr_26"
  "client_transition 27 = client_tr_27"
  "client_transition 28 = client_tr_28"
  "client_transition 30 = client_tr_30"
  "client_transition 32 = client_tr_32"
  "client_transition 33 = client_tr_33"
  "client_transition 35 = client_tr_35"
  "client_transition 36 = client_tr_36"
  "client_transition 37 = client_tr_37"
  "client_transition 39 = client_tr_39"
  "client_transition 40 = client_tr_40"
  "client_transition 41 = client_tr_41"
  "client_transition 42 = client_tr_42"
  "client_transition 43 = client_tr_43"
  "client_transition 45 = client_tr_45"
  "client_transition 46 = client_tr_46"
  "client_transition 58 = client_tr_58"
  "client_transition 59 = client_tr_59"
  "client_transition 60 = client_tr_60"
  "client_transition 61 = client_tr_61"
  "client_transition 62 = client_tr_62"
  "client_transition 64 = client_tr_64"
  "client_transition 66 = client_tr_66"
  "client_transition 74 = client_tr_74"
  "client_transition 75 = client_tr_75"
  "client_transition 76 = client_tr_76"
  "client_transition 77 = client_tr_77"
  "client_transition 78 = client_tr_78"
  "client_transition 95 = client_tr_95"
  "client_transition 96 = client_tr_96"
  "client_transition 97 = client_tr_97"
  "client_transition 98 = client_tr_98"
  "client_transition 99 = client_tr_99"
  "client_transition 101 = client_tr_101"
  "client_transition 103 = client_tr_103"
  "client_transition 104 = client_tr_104"
  "client_transition 111 = client_tr_111"
  "client_transition 112 = client_tr_112"
  "client_transition 113 = client_tr_113"
  "client_transition 136 = client_tr_136"
  "client_transition 137 = client_tr_137"
  "client_transition 148 = client_tr_148"
  "client_transition 149 = client_tr_149"
  "client_transition 150 = client_tr_150"
  "client_transition 151 = client_tr_151"
  "client_transition 152 = client_tr_152"
  "client_transition 154 = client_tr_154"
  "client_transition 156 = client_tr_156"
  "client_transition 157 = client_tr_157"
  "client_transition 158 = client_tr_158"
  "client_transition 159 = client_tr_159"
  by (simp_all add: client_transition_def)

lemmas client_tr_defs =
  client_tr_0_def client_tr_2_def client_tr_3_def client_tr_4_def client_tr_6_def client_tr_7_def client_tr_8_def client_tr_9_def
  client_tr_10_def client_tr_12_def client_tr_13_def client_tr_14_def client_tr_15_def client_tr_16_def client_tr_18_def client_tr_26_def
  client_tr_27_def client_tr_28_def client_tr_30_def client_tr_32_def client_tr_33_def client_tr_35_def client_tr_36_def client_tr_37_def
  client_tr_39_def client_tr_40_def client_tr_41_def client_tr_42_def client_tr_43_def client_tr_45_def client_tr_46_def client_tr_58_def
  client_tr_59_def client_tr_60_def client_tr_61_def client_tr_62_def client_tr_64_def client_tr_66_def client_tr_74_def client_tr_75_def
  client_tr_76_def client_tr_77_def client_tr_78_def client_tr_95_def client_tr_96_def client_tr_97_def client_tr_98_def client_tr_99_def
  client_tr_101_def client_tr_103_def client_tr_104_def client_tr_111_def client_tr_112_def client_tr_113_def client_tr_136_def client_tr_137_def
  client_tr_148_def client_tr_149_def client_tr_150_def client_tr_151_def client_tr_152_def client_tr_154_def client_tr_156_def client_tr_157_def
  client_tr_158_def client_tr_159_def

lemmas client_case_defs =
  client_case_1_def client_case_2_def client_case_3_def client_case_4_def client_case_5_def client_case_6_def
  client_case_7_def client_case_8_def client_case_9_def client_case_10_def client_case_11_def client_case_12_def
  client_case_13_def client_case_14_def client_case_15_def client_case_16_def client_case_17_def client_case_18_def
  client_case_19_def client_case_20_def client_case_21_def client_case_22_def client_case_23_def client_case_24_def
  client_case_25_def client_case_26_def client_case_27_def client_case_28_def client_case_29_def client_case_30_def
  client_case_31_def client_case_32_def client_case_33_def client_case_34_def client_case_35_def client_case_36_def
  client_case_37_def client_case_38_def client_case_39_def client_case_40_def client_case_41_def client_case_42_def
  client_case_43_def client_case_44_def client_case_45_def client_case_46_def client_case_47_def client_case_48_def
  client_case_49_def client_case_50_def client_case_51_def client_case_52_def client_case_53_def client_case_54_def
  client_case_55_def client_case_56_def client_case_57_def client_case_58_def client_case_59_def client_case_60_def
  client_case_61_def client_case_62_def client_case_63_def client_case_64_def client_case_65_def client_case_66_def
  client_case_67_def client_case_68_def client_case_69_def client_case_70_def client_case_71_def client_case_72_def
  client_case_73_def client_case_74_def client_case_75_def client_case_76_def client_case_77_def client_case_78_def
  client_case_79_def client_case_80_def client_case_81_def client_case_82_def client_case_83_def client_case_84_def
  client_case_85_def client_case_86_def client_case_87_def client_case_88_def client_case_89_def client_case_90_def
  client_case_91_def client_case_92_def client_case_93_def client_case_94_def client_case_95_def client_case_96_def
  client_case_97_def client_case_98_def client_case_99_def client_case_100_def client_case_101_def client_case_102_def
  client_case_103_def client_case_104_def client_case_105_def client_case_106_def client_case_107_def client_case_108_def
  client_case_109_def client_case_110_def client_case_111_def client_case_112_def client_case_113_def client_case_114_def
  client_case_115_def client_case_116_def client_case_117_def client_case_118_def client_case_119_def client_case_120_def
  client_case_121_def client_case_122_def client_case_123_def

text \<open>No state jumps into a final state by itself: only a transition that runs the action \<^verbatim>\<open>done\<close> ends there.\<close>

lemma client_case_jumps_0:
  "jumps_below 120 (client_case_1 c)"
  "jumps_below 120 (client_case_2 c)"
  "jumps_below 120 (client_case_3 c)"
  "jumps_below 120 (client_case_4 c)"
  "jumps_below 120 (client_case_5 c)"
  "jumps_below 120 (client_case_6 c)"
  "jumps_below 120 (client_case_7 c)"
  "jumps_below 120 (client_case_8 c)"
  "jumps_below 120 (client_case_9 c)"
  "jumps_below 120 (client_case_10 c)"
  "jumps_below 120 (client_case_11 c)"
  "jumps_below 120 (client_case_12 c)"
  "jumps_below 120 (client_case_13 c)"
  "jumps_below 120 (client_case_14 c)"
  "jumps_below 120 (client_case_15 c)"
  "jumps_below 120 (client_case_16 c)"
  "jumps_below 120 (client_case_17 c)"
  "jumps_below 120 (client_case_18 c)"
  "jumps_below 120 (client_case_19 c)"
  unfolding client_case_1_def client_case_2_def client_case_3_def client_case_4_def client_case_5_def client_case_6_def
    client_case_7_def client_case_8_def client_case_9_def client_case_10_def client_case_11_def client_case_12_def
    client_case_13_def client_case_14_def client_case_15_def client_case_16_def client_case_17_def client_case_18_def
    client_case_19_def Let_def
  by (simp_all only: jumps_below_simps if_cancel) simp_all

lemma client_targets_0:
  assumes "1 \<le> cs" "cs \<le> 19"
  shows "jumps_below 120 (client_switch_0 cs c)"
proof -
  have "cs \<in> {1, 2, 3, 4, 5, 6, 7, 8, 9, 10, 11, 12, 13, 14, 15, 16, 17, 18, 19}" using assms by simp presburger
  then show ?thesis by (auto simp: client_switch_0_def client_case_jumps_0)
qed

lemma client_case_jumps_1:
  "jumps_below 120 (client_case_20 c)"
  "jumps_below 120 (client_case_21 c)"
  "jumps_below 120 (client_case_22 c)"
  "jumps_below 120 (client_case_23 c)"
  "jumps_below 120 (client_case_24 c)"
  "jumps_below 120 (client_case_25 c)"
  "jumps_below 120 (client_case_26 c)"
  "jumps_below 120 (client_case_27 c)"
  "jumps_below 120 (client_case_28 c)"
  "jumps_below 120 (client_case_29 c)"
  "jumps_below 120 (client_case_30 c)"
  "jumps_below 120 (client_case_31 c)"
  "jumps_below 120 (client_case_32 c)"
  "jumps_below 120 (client_case_33 c)"
  "jumps_below 120 (client_case_34 c)"
  "jumps_below 120 (client_case_35 c)"
  "jumps_below 120 (client_case_36 c)"
  "jumps_below 120 (client_case_37 c)"
  "jumps_below 120 (client_case_38 c)"
  "jumps_below 120 (client_case_39 c)"
  unfolding client_case_20_def client_case_21_def client_case_22_def client_case_23_def client_case_24_def client_case_25_def
    client_case_26_def client_case_27_def client_case_28_def client_case_29_def client_case_30_def client_case_31_def
    client_case_32_def client_case_33_def client_case_34_def client_case_35_def client_case_36_def client_case_37_def
    client_case_38_def client_case_39_def Let_def
  by (simp_all only: jumps_below_simps if_cancel) simp_all

lemma client_targets_1:
  assumes "20 \<le> cs" "cs \<le> 39"
  shows "jumps_below 120 (client_switch_1 cs c)"
proof -
  have "cs \<in> {20, 21, 22, 23, 24, 25, 26, 27, 28, 29, 30, 31, 32, 33, 34, 35, 36, 37, 38, 39}" using assms by simp presburger
  then show ?thesis by (auto simp: client_switch_1_def client_case_jumps_1)
qed

lemma client_case_jumps_2:
  "jumps_below 120 (client_case_40 c)"
  "jumps_below 120 (client_case_41 c)"
  "jumps_below 120 (client_case_42 c)"
  "jumps_below 120 (client_case_43 c)"
  "jumps_below 120 (client_case_44 c)"
  "jumps_below 120 (client_case_45 c)"
  "jumps_below 120 (client_case_46 c)"
  "jumps_below 120 (client_case_47 c)"
  "jumps_below 120 (client_case_48 c)"
  "jumps_below 120 (client_case_49 c)"
  "jumps_below 120 (client_case_50 c)"
  "jumps_below 120 (client_case_51 c)"
  "jumps_below 120 (client_case_52 c)"
  "jumps_below 120 (client_case_53 c)"
  "jumps_below 120 (client_case_54 c)"
  "jumps_below 120 (client_case_55 c)"
  "jumps_below 120 (client_case_56 c)"
  "jumps_below 120 (client_case_57 c)"
  "jumps_below 120 (client_case_58 c)"
  "jumps_below 120 (client_case_59 c)"
  unfolding client_case_40_def client_case_41_def client_case_42_def client_case_43_def client_case_44_def client_case_45_def
    client_case_46_def client_case_47_def client_case_48_def client_case_49_def client_case_50_def client_case_51_def
    client_case_52_def client_case_53_def client_case_54_def client_case_55_def client_case_56_def client_case_57_def
    client_case_58_def client_case_59_def Let_def
  by (simp_all only: jumps_below_simps if_cancel) simp_all

lemma client_targets_2:
  assumes "40 \<le> cs" "cs \<le> 59"
  shows "jumps_below 120 (client_switch_2 cs c)"
proof -
  have "cs \<in> {40, 41, 42, 43, 44, 45, 46, 47, 48, 49, 50, 51, 52, 53, 54, 55, 56, 57, 58, 59}" using assms by simp presburger
  then show ?thesis by (auto simp: client_switch_2_def client_case_jumps_2)
qed

lemma client_case_jumps_3:
  "jumps_below 120 (client_case_60 c)"
  "jumps_below 120 (client_case_61 c)"
  "jumps_below 120 (client_case_62 c)"
  "jumps_below 120 (client_case_63 c)"
  "jumps_below 120 (client_case_64 c)"
  "jumps_below 120 (client_case_65 c)"
  "jumps_below 120 (client_case_66 c)"
  "jumps_below 120 (client_case_67 c)"
  "jumps_below 120 (client_case_68 c)"
  "jumps_below 120 (client_case_69 c)"
  "jumps_below 120 (client_case_70 c)"
  "jumps_below 120 (client_case_71 c)"
  "jumps_below 120 (client_case_72 c)"
  "jumps_below 120 (client_case_73 c)"
  "jumps_below 120 (client_case_74 c)"
  "jumps_below 120 (client_case_75 c)"
  "jumps_below 120 (client_case_76 c)"
  "jumps_below 120 (client_case_77 c)"
  "jumps_below 120 (client_case_78 c)"
  "jumps_below 120 (client_case_79 c)"
  unfolding client_case_60_def client_case_61_def client_case_62_def client_case_63_def client_case_64_def client_case_65_def
    client_case_66_def client_case_67_def client_case_68_def client_case_69_def client_case_70_def client_case_71_def
    client_case_72_def client_case_73_def client_case_74_def client_case_75_def client_case_76_def client_case_77_def
    client_case_78_def client_case_79_def Let_def
  by (simp_all only: jumps_below_simps if_cancel) simp_all

lemma client_targets_3:
  assumes "60 \<le> cs" "cs \<le> 79"
  shows "jumps_below 120 (client_switch_3 cs c)"
proof -
  have "cs \<in> {60, 61, 62, 63, 64, 65, 66, 67, 68, 69, 70, 71, 72, 73, 74, 75, 76, 77, 78, 79}" using assms by simp presburger
  then show ?thesis by (auto simp: client_switch_3_def client_case_jumps_3)
qed

lemma client_case_jumps_4:
  "jumps_below 120 (client_case_80 c)"
  "jumps_below 120 (client_case_81 c)"
  "jumps_below 120 (client_case_82 c)"
  "jumps_below 120 (client_case_83 c)"
  "jumps_below 120 (client_case_84 c)"
  "jumps_below 120 (client_case_85 c)"
  "jumps_below 120 (client_case_86 c)"
  "jumps_below 120 (client_case_87 c)"
  "jumps_below 120 (client_case_88 c)"
  "jumps_below 120 (client_case_89 c)"
  "jumps_below 120 (client_case_90 c)"
  "jumps_below 120 (client_case_91 c)"
  "jumps_below 120 (client_case_92 c)"
  "jumps_below 120 (client_case_93 c)"
  "jumps_below 120 (client_case_94 c)"
  "jumps_below 120 (client_case_95 c)"
  "jumps_below 120 (client_case_96 c)"
  "jumps_below 120 (client_case_97 c)"
  "jumps_below 120 (client_case_98 c)"
  "jumps_below 120 (client_case_99 c)"
  unfolding client_case_80_def client_case_81_def client_case_82_def client_case_83_def client_case_84_def client_case_85_def
    client_case_86_def client_case_87_def client_case_88_def client_case_89_def client_case_90_def client_case_91_def
    client_case_92_def client_case_93_def client_case_94_def client_case_95_def client_case_96_def client_case_97_def
    client_case_98_def client_case_99_def Let_def
  by (simp_all only: jumps_below_simps if_cancel) simp_all

lemma client_targets_4:
  assumes "80 \<le> cs" "cs \<le> 99"
  shows "jumps_below 120 (client_switch_4 cs c)"
proof -
  have "cs \<in> {80, 81, 82, 83, 84, 85, 86, 87, 88, 89, 90, 91, 92, 93, 94, 95, 96, 97, 98, 99}" using assms by simp presburger
  then show ?thesis by (auto simp: client_switch_4_def client_case_jumps_4)
qed

lemma client_case_jumps_5:
  "jumps_below 120 (client_case_100 c)"
  "jumps_below 120 (client_case_101 c)"
  "jumps_below 120 (client_case_102 c)"
  "jumps_below 120 (client_case_103 c)"
  "jumps_below 120 (client_case_104 c)"
  "jumps_below 120 (client_case_105 c)"
  "jumps_below 120 (client_case_106 c)"
  "jumps_below 120 (client_case_107 c)"
  "jumps_below 120 (client_case_108 c)"
  "jumps_below 120 (client_case_109 c)"
  "jumps_below 120 (client_case_110 c)"
  "jumps_below 120 (client_case_111 c)"
  "jumps_below 120 (client_case_112 c)"
  "jumps_below 120 (client_case_113 c)"
  "jumps_below 120 (client_case_114 c)"
  "jumps_below 120 (client_case_115 c)"
  "jumps_below 120 (client_case_116 c)"
  "jumps_below 120 (client_case_117 c)"
  "jumps_below 120 (client_case_118 c)"
  "jumps_below 120 (client_case_119 c)"
  unfolding client_case_100_def client_case_101_def client_case_102_def client_case_103_def client_case_104_def client_case_105_def
    client_case_106_def client_case_107_def client_case_108_def client_case_109_def client_case_110_def client_case_111_def
    client_case_112_def client_case_113_def client_case_114_def client_case_115_def client_case_116_def client_case_117_def
    client_case_118_def client_case_119_def Let_def
  by (simp_all only: jumps_below_simps if_cancel) simp_all

lemma client_targets_5:
  assumes "100 \<le> cs" "cs \<le> 119"
  shows "jumps_below 120 (client_switch_5 cs c)"
proof -
  have "cs \<in> {100, 101, 102, 103, 104, 105, 106, 107, 108, 109, 110, 111, 112, 113, 114, 115, 116, 117, 118, 119}" using assms by simp presburger
  then show ?thesis by (auto simp: client_switch_5_def client_case_jumps_5)
qed

lemma client_case_jumps_6:
  "jumps_below 120 (client_case_120 c)"
  "jumps_below 120 (client_case_121 c)"
  "jumps_below 120 (client_case_122 c)"
  "jumps_below 120 (client_case_123 c)"
  unfolding client_case_120_def client_case_121_def client_case_122_def client_case_123_def Let_def
  by (simp_all only: jumps_below_simps if_cancel) simp_all

lemma client_targets_6:
  assumes "120 \<le> cs" "cs \<le> 123"
  shows "jumps_below 120 (client_switch_6 cs c)"
proof -
  have "cs \<in> {120, 121, 122, 123}" using assms by simp presburger
  then show ?thesis by (auto simp: client_switch_6_def client_case_jumps_6)
qed

lemma client_targets: "1 \<le> cs \<Longrightarrow> cs \<le> 123 \<Longrightarrow> jumps_below 120 (client_switch cs c)"
  by (simp add: client_switch_def client_targets_0 client_targets_1 client_targets_2 client_targets_3 client_targets_4 client_targets_5 client_targets_6)

end
