(* ===== verification/Httpclient_Parser.thy ===== *)
theory Httpclient_Parser
  imports Httpclient_Machine Http11_Parser
begin

text \<open>
  The response parser \<^verbatim>\<open>captain/http/httpclient_parser.rl.cpp\<close> around its state machine, in the form of
  \<open>Http11_Parser\<close>.  It resets no mark between calls and counts \<^verbatim>\<open>nread\<close> over all of them; the theorem says
  what follows for a response that arrives in pieces.
\<close>

subsection \<open>The parser\<close>

record httpclient_parser =
  pc_cs :: nat
  pc_body_start :: "64 word"
  pc_content_len :: "32 word"
  pc_status :: "32 word"
  pc_chunked :: int
  pc_chunks_done :: int
  pc_close :: int
  pc_nread :: "64 word"
  pc_mark :: "64 word"
  pc_field_start :: "64 word"
  pc_field_len :: "64 word"

definition httpclient_parser_start :: nat where "httpclient_parser_start = 1"
definition httpclient_parser_first_final :: nat where "httpclient_parser_first_final = 120"
definition httpclient_parser_error :: nat where "httpclient_parser_error = 0"

text \<open>\<open>status\<close> keeps what the memory holds.\<close>

definition httpclient_parser_init :: "httpclient_parser \<Rightarrow> httpclient_parser" where
  "httpclient_parser_init parser = parser\<lparr>pc_cs := httpclient_parser_start, pc_body_start := 0, pc_content_len := - 1,
     pc_chunked := 0, pc_chunks_done := 0, pc_mark := 0, pc_nread := 0, pc_field_len := 0, pc_field_start := 0, pc_close := 0\<rparr>"

subsection \<open>\<^verbatim>\<open>strtol\<close>\<close>

text \<open>The value of a digit in bases up to 16.\<close>

definition digit_of :: "char \<Rightarrow> nat option" where
  "digit_of c =
     (let n = of_char c in
      if 48 \<le> n \<and> n \<le> 57 then Some (n - 48)
      else if 97 \<le> n \<and> n \<le> 102 then Some (n - 87)
      else if 65 \<le> n \<and> n \<le> 70 then Some (n - 55)
      else None)"

fun strtol_digits :: "nat \<Rightarrow> nat \<Rightarrow> string \<Rightarrow> nat" where
  "strtol_digits base acc [] = acc"
| "strtol_digits base acc (c # s) =
     (case digit_of c of
        None \<Rightarrow> acc
      | Some d \<Rightarrow> if d < base then strtol_digits base (base * acc + d) s else acc)"

text \<open>Spaces, a sign, for base 16 the prefix \<^verbatim>\<open>0x\<close> before a digit, and the digits; values out of the range of \<^verbatim>\<open>long\<close> are cut.\<close>

definition strtol :: "string \<Rightarrow> nat \<Rightarrow> int" where
  "strtol s base =
     (let s = dropWhile is_space (c_str s);
          (neg, s) = (case s of [] \<Rightarrow> (False, s) | c # t \<Rightarrow> if c = CHR ''-'' then (True, t) else if c = CHR ''+'' then (False, t) else (False, s));
          s = (if base = 16 \<and> length s \<ge> 3 \<and> s ! 0 = CHR ''0'' \<and> s ! 1 \<in> {CHR ''x'', CHR ''X''} \<and> digit_of (s ! 2) \<noteq> None then drop 2 s else s);
          n = int (strtol_digits base 0 s)
      in max (- (2 ^ 63)) (min (2 ^ 63 - 1) (if neg then - n else n)))"

subsection \<open>The embedded actions\<close>

fun client_act :: "string \<Rightarrow> client_action \<Rightarrow> nat \<Rightarrow> httpclient_parser \<times> response_event list \<Rightarrow> httpclient_parser \<times> response_event list" where
  "client_act buffer C_mark p (m, es) = (m\<lparr>pc_mark := of_nat p\<rparr>, es)"
| "client_act buffer C_start_field p (m, es) = (m\<lparr>pc_field_start := of_nat p\<rparr>, es)"
| "client_act buffer C_write_field p (m, es) = (m\<lparr>pc_field_len := LEN (pc_field_start m) p\<rparr>, es)"
| "client_act buffer C_start_value p (m, es) = (m\<lparr>pc_mark := of_nat p\<rparr>, es)"
| "client_act buffer C_write_content_len p (m, es) =
     (m\<lparr>pc_content_len := word_of_int (strtol (PTR_TO buffer (pc_mark m)) 10)\<rparr>, es)"
| "client_act buffer C_write_connection_close p (m, es) = (m\<lparr>pc_close := 1\<rparr>, es)"
| "client_act buffer C_write_value p (m, es) =
     (m, es @ [Response_field (PTR_TO buffer (pc_field_start m)) (unat (pc_field_len m))
                              (PTR_TO buffer (pc_mark m)) (unat (LEN (pc_mark m) p))])"
| "client_act buffer C_reason_phrase p (m, es) =
     (m, es @ [Response_reason (PTR_TO buffer (pc_mark m)) (unat (LEN (pc_mark m) p))])"
| "client_act buffer C_status_code p (m, es) =
     (m\<lparr>pc_status := word_of_int (strtol (PTR_TO buffer (pc_mark m)) 10)\<rparr>,
      es @ [Response_status (PTR_TO buffer (pc_mark m)) (unat (LEN (pc_mark m) p))])"
| "client_act buffer C_http_version p (m, es) =
     (m, es @ [Response_version (PTR_TO buffer (pc_mark m)) (unat (LEN (pc_mark m) p))])"
| "client_act buffer C_chunk_size p (m, es) =
     (let len = word_of_int (strtol (PTR_TO buffer (pc_mark m)) 16);
          fin = sint len \<le> 0;
          m' = m\<lparr>pc_chunked := 1, pc_content_len := len, pc_chunks_done := (if fin then 1 else 0)\<rparr>
      in (m', es @ [if fin then Response_last_chunk (PTR_TO buffer (pc_mark m)) (unat (LEN (pc_mark m) p))
                    else Response_chunk (PTR_TO buffer (pc_mark m)) (unat (LEN (pc_mark m) p))]))"
| "client_act buffer C_trans_chunked p (m, es) = (m\<lparr>pc_chunked := 1\<rparr>, es)"
| "client_act buffer C_done p (m, es) =
     (m\<lparr>pc_body_start := of_nat p + 1\<rparr>, es @ [Response_header_done (drop (Suc p) buffer) (length buffer - p - 1)])"

subsection \<open>Executing\<close>

definition httpclient_parser_has_error :: "httpclient_parser \<Rightarrow> bool" where
  "httpclient_parser_has_error parser \<longleftrightarrow> pc_cs parser = httpclient_parser_error"

definition httpclient_parser_is_finished :: "httpclient_parser \<Rightarrow> bool" where
  "httpclient_parser_is_finished parser \<longleftrightarrow> pc_cs parser = httpclient_parser_first_final"

definition httpclient_parser_finish :: "httpclient_parser \<Rightarrow> int" where
  "httpclient_parser_finish parser =
     (if httpclient_parser_has_error parser then - 1 else if httpclient_parser_is_finished parser then 1 else 0)"

definition client_exec :: "httpclient_parser \<Rightarrow> string \<Rightarrow> nat \<Rightarrow> nat \<times> nat \<times> httpclient_parser \<times> response_event list" where
  "client_exec m buffer off =
     exec_loop client_switch client_transition (client_act buffer) (drop off buffer) off (pc_cs m) (m, [])"

text \<open>
  The body of \<^verbatim>\<open>httpclient_parser_execute\<close> without its assertions: the three \<^verbatim>\<open>check\<close>s return \<^verbatim>\<open>-1\<close>, otherwise the
  result is \<^verbatim>\<open>nread\<close> as an \<^verbatim>\<open>int\<close>.
\<close>

definition httpclient_parser_run :: "httpclient_parser \<Rightarrow> string \<Rightarrow> nat \<Rightarrow> int \<times> httpclient_parser \<times> response_event list" where
  "httpclient_parser_run parser buffer off =
     (let (p, cs, m1, es) = client_exec parser buffer off;
          m2 = m1\<lparr>pc_cs := cs, pc_nread := pc_nread m1 + of_nat (p - off)\<rparr>;
          len = length buffer
      in if \<not> unat (pc_mark m2) < len then (- 1, m2, es)
         else if \<not> unat (pc_field_len m2) \<le> len then (- 1, m2, es)
         else if \<not> unat (pc_field_start m2) < len then (- 1, m2, es)
         else (sint (ucast (pc_nread m2) :: 32 word), m2, es))"

text \<open>The whole function; \<open>None\<close> is a failed assertion, \<open>nul\<close> says whether a \<^verbatim>\<open>NUL\<close> follows the buffer.\<close>

definition httpclient_parser_execute :: "httpclient_parser \<Rightarrow> string \<Rightarrow> nat \<Rightarrow> bool \<Rightarrow> (int \<times> httpclient_parser \<times> response_event list) option" where
  "httpclient_parser_execute parser buffer off nul =
     (if \<not> off \<le> length buffer then None
      else if \<not> nul then None
      else if int (length buffer - off) \<noteq> sint (of_nat (length buffer) :: 32 word) - sint (of_nat off :: 32 word) then None
      else
        let r = httpclient_parser_run parser buffer off; m = fst (snd r)
        in if \<not> unat (pc_nread m) \<le> length buffer then None
           else if \<not> unat (pc_body_start m) \<le> length buffer then None
           else Some r)"

text \<open>
  The parser as \<^verbatim>\<open>HttpResponseParser\<close> uses it, in memory that holds \<open>mem\<close>; the result becomes a \<^verbatim>\<open>size_t\<close>.
\<close>

definition httpclient :: "httpclient_parser \<Rightarrow> (httpclient_parser, response_event) ragel" where
  "httpclient mem = \<lparr>rg_init = httpclient_parser_init mem,
     rg_execute = (\<lambda>parser data. let (n, m, es) = httpclient_parser_run parser data 0
                                in (unat (word_of_int n :: 64 word), m, es)),
     rg_finish = httpclient_parser_finish, rg_has_error = httpclient_parser_has_error\<rparr>"

subsection \<open>What a call does\<close>

lemma client_act_keeps [simp]:
  "pc_cs (fst (client_act buffer a p s)) = pc_cs (fst s)" "pc_nread (fst (client_act buffer a p s)) = pc_nread (fst s)"
  by (cases s; cases a; simp add: Let_def)+

lemma fold_client_act_keeps:
  "pc_cs (fst (fold (\<lambda>a. client_act buffer a p) as s)) = pc_cs (fst s) \<and>
   pc_nread (fst (fold (\<lambda>a. client_act buffer a p) as s)) = pc_nread (fst s)"
  by (induction as arbitrary: s) auto

lemma client_exec_keeps:
  "exec_loop sw tr (client_act buffer) xs p cs s = (p', cs', s') \<Longrightarrow>
   pc_cs (fst s') = pc_cs (fst s) \<and> pc_nread (fst s') = pc_nread (fst s)"
  by (induction sw tr "client_act buffer" xs p cs s rule: exec_loop.induct)
     (fastforce simp: fold_client_act_keeps split: label.splits jump.splits prod.splits if_splits)+

lemma client_break: "client_transition n = (as, Break t) \<Longrightarrow> t \<in> {0, 120, 121, 122, 123}"
  unfolding client_transition_def by (auto simp: client_tr_defs split: if_splits)

lemma client_goto: "client_transition n = (as, Goto t) \<Longrightarrow> 1 \<le> t \<and> t < 120"
  unfolding client_transition_def by (auto simp: client_tr_defs split: if_splits)

lemma client_progress:
  "exec_loop client_switch client_transition act xs p cs s = (p', cs', s') \<Longrightarrow> 1 \<le> cs \<Longrightarrow> cs \<le> 123 \<Longrightarrow>
   cs' \<le> 123 \<and> (cs' = 0 \<or> cs' \<in> {120, 121, 122, 123} \<or> p' = p + length xs)"
proof (induction xs arbitrary: p cs s)
  case (Cons c xs)
  have jumps: "jumps_below 120 (client_switch cs (schar c))" using Cons.prems by (intro client_targets)
  show ?case
  proof (cases "client_switch cs (schar c)")
    case (St t)
    then show ?thesis using Cons.IH[of "Suc p" t s] Cons.prems jumps by (auto split: if_splits)
  next
    case (Tr n)
    obtain as j where n: "client_transition n = (as, j)" by force
    then show ?thesis
      using Cons.IH[of "Suc p" "jump_to j" "fold (\<lambda>a. act a p) as s"] Cons.prems Tr client_goto[of n as] client_break[of n as]
      by (cases j) auto
  qed (use jumps in simp)
qed simp

text \<open>
  C16: A response that arrives in two reads stops the program.  \<^verbatim>\<open>nread\<close> is not reset between calls, so the
  assertion that no more is read than the buffer holds compares the sum of both calls with the second
  buffer: whenever a first piece of a response has been consumed without the response being complete and the
  second piece is shorter, \<^verbatim>\<open>httpclient_parser_execute\<close> fails its assertion, whatever the second piece is.
\<close>

theorem client_split_aborts:
  assumes "httpclient_parser_execute (httpclient_parser_init mem) xs 0 nul = Some (n, m, es)"
    and "\<not> httpclient_parser_has_error m" "pc_cs m < httpclient_parser_first_final"
    and "length ys < length xs" "length xs < 2 ^ 31"
  shows "httpclient_parser_execute m ys 0 nul' = None"
proof -
  let ?m = "httpclient_parser_init mem"
  obtain p cs m1 fs where ex: "client_exec ?m xs 0 = (p, cs, m1, fs)" by (metis prod_cases4)
  obtain p' cs' m2 gs where ex2: "client_exec m ys 0 = (p', cs', m2, gs)" by (metis prod_cases4)
  note ex' = ex[unfolded client_exec_def] and ex2' = ex2[unfolded client_exec_def]
  have "httpclient_parser_run ?m xs 0 = (n, m, es)"
    using assms(1) by (auto simp: httpclient_parser_execute_def Let_def split: if_splits)
  then have m: "pc_nread m = pc_nread m1 + of_nat p" "pc_cs m = cs"
    using ex by (auto simp: httpclient_parser_run_def Let_def split: if_splits)
  have "pc_nread m1 = 0" using client_exec_keeps[OF ex'] by (simp add: httpclient_parser_init_def)
  moreover have "p = length xs"
    using client_progress[OF ex'] assms(2,3) m(2)
    by (auto simp: httpclient_parser_init_def httpclient_parser_start_def httpclient_parser_has_error_def httpclient_parser_error_def
        httpclient_parser_first_final_def)
  ultimately have n: "pc_nread m = of_nat (length xs)" using m(1) by simp
  have bound: "p' \<le> length ys" using exec_position[OF ex2'] by simp
  have "pc_nread m2 = of_nat (length xs)" using client_exec_keeps[OF ex2'] n by simp
  then have "pc_nread (fst (snd (httpclient_parser_run m ys 0))) = of_nat (length xs + p')"
    using ex2 by (auto simp: httpclient_parser_run_def Let_def)
  moreover have "unat (of_nat (length xs + p') :: 64 word) = length xs + p'"
    using bound assms(4,5) by (intro unat_position) simp
  ultimately have "\<not> unat (pc_nread (fst (snd (httpclient_parser_run m ys 0)))) \<le> length ys"
    using assms(4) by simp
  then show ?thesis unfolding httpclient_parser_execute_def Let_def by simp
qed

definition zero_client :: httpclient_parser where
  "zero_client = \<lparr>pc_cs = 0, pc_body_start = 0, pc_content_len = 0, pc_status = 0, pc_chunked = 0, pc_chunks_done = 0,
     pc_close = 0, pc_nread = 0, pc_mark = 0, pc_field_start = 0, pc_field_len = 0\<rparr>"

lemmas client_eval = client_switch_at client_switch_at_0(1)[unfolded One_nat_def] client_case_defs client_transition_at
  client_tr_defs schar_def client_exec_def httpclient_parser_run_def httpclient_parser_has_error_def
  httpclient_parser_error_def httpclient_parser_init_def httpclient_parser_start_def LEN_def PTR_TO_def

theorem client_split_aborts_witness:
  "\<exists>n m es. httpclient_parser_execute (httpclient_parser_init zero_client) ''HTTP/1.1 200 O'' 0 True = Some (n, m, es) \<and>
     httpclient_parser_execute m [CHR ''K'', CHR 0x0D, CHR 0x0A] 0 True = None"
proof -
  obtain n m es where first: "httpclient_parser_execute (httpclient_parser_init zero_client) ''HTTP/1.1 200 O'' 0 True = Some (n, m, es)"
      "pc_cs m = 19"
    by (simp add: httpclient_parser_execute_def client_eval zero_client_def strtol_def Let_def)
  then show ?thesis
    using client_split_aborts[OF first(1)]
    by (auto simp: httpclient_parser_has_error_def httpclient_parser_error_def httpclient_parser_first_final_def)
qed

end
