(* ===== verification/Httpclient_Laws.thy ===== *)
theory Httpclient_Laws
  imports Httpclient_Parser Http11_Laws
begin

text \<open>
  What the state machine of responses reads, as triples in the form of \<open>Http11_Laws\<close>.  The names and values of
  some headers (\<^verbatim>\<open>Connection\<close>, \<^verbatim>\<open>Content-Length\<close>, \<^verbatim>\<open>Transfer-Encoding\<close>) are followed letter by letter,
  so a header line is read in one of many states; the triples are about sets of states.
\<close>

subsection \<open>Sets of states\<close>

text \<open>Behind the start of a line; inside a name; behind a colon; inside a value.\<close>

definition line_states :: "nat set" where "line_states = {20, 43}"

definition name_states :: "nat set" where
  "name_states = {21, 25, 26, 27, 28, 29, 30, 31, 32, 33, 34, 44, 45, 46, 47, 48, 49, 50, 51, 52, 53, 54, 55, 56, 57, 58,
     59, 60, 101, 102, 103, 104, 105, 106, 107, 108, 109, 110, 111}"

definition colon_states :: "nat set" where "colon_states = {22, 35, 61, 112}"

definition value_states :: "nat set" where
  "value_states = {23, 81, 82, 83, 84, 85, 86, 87, 96, 97, 98, 99, 100, 119}"

fun goes_to :: "nat set \<Rightarrow> label \<Rightarrow> bool" where
  "goes_to T (St t) \<longleftrightarrow> t \<in> T"
| "goes_to T (Tr n) \<longleftrightarrow> False"
| "goes_to T Out \<longleftrightarrow> False"

text \<open>A transition with these actions into the set.\<close>

fun runs_to :: "client_action list set \<Rightarrow> nat set \<Rightarrow> label \<Rightarrow> bool" where
  "runs_to A T (Tr n) \<longleftrightarrow> fst (client_transition n) \<in> A \<and> (case snd (client_transition n) of Goto t \<Rightarrow> t \<in> T | _ \<Rightarrow> False)"
| "runs_to A T (St t) \<longleftrightarrow> False"
| "runs_to A T Out \<longleftrightarrow> False"

lemma goes_to_cond: "goes_to T (if b then x else y) \<longleftrightarrow> (if b then goes_to T x else goes_to T y)"
  by simp

lemma runs_to_cond: "runs_to A T (if b then x else y) \<longleftrightarrow> (if b then runs_to A T x else runs_to A T y)"
  by simp

subsection \<open>Characters as numbers\<close>

definition name_code :: "int \<Rightarrow> bool" where
  "name_code n \<longleftrightarrow> n = 33 \<or> 35 \<le> n \<and> n \<le> 39 \<or> 42 \<le> n \<and> n \<le> 43 \<or> 45 \<le> n \<and> n \<le> 46 \<or> 48 \<le> n \<and> n \<le> 57 \<or>
     65 \<le> n \<and> n \<le> 90 \<or> 94 \<le> n \<and> n \<le> 122 \<or> n = 124 \<or> n = 126"

definition value_code :: "int \<Rightarrow> bool" where
  "value_code n \<longleftrightarrow> - 128 \<le> n \<and> n \<le> - 1 \<or> n = 9 \<or> 32 \<le> n \<and> n \<le> 126"

lemma name_code:
  assumes "name_char c"
  shows "name_code (schar c)"
proof -
  have "(of_char c :: nat) < 128" using assms by (auto simp: char_defs)
  then have "schar c = int (of_char c)" by (rule schar_ascii)
  then show ?thesis using assms unfolding char_defs name_code_def by simp presburger
qed

lemma value_code:
  assumes "value_char c"
  shows "value_code (schar c)"
proof (cases "(of_char c :: nat) < 128")
  case True
  then show ?thesis using assms schar_ascii[OF True] unfolding char_defs value_code_def by simp presburger
next
  case False
  then have "schar c = int (of_char c) - 256" by (intro schar_high) simp
  then show ?thesis using False nat_of_char_less_256[of c] unfolding value_code_def by linarith
qed

lemma schar_eq: "schar c = schar d \<longleftrightarrow> c = d"
proof
  have small: "schar x = int (of_char x) \<and> (of_char x :: nat) < 128 \<or> schar x = int (of_char x) - 256 \<and> 128 \<le> (of_char x :: nat)" for x
    using schar_ascii[of x] schar_high[of x] by linarith
  assume "schar c = schar d"
  then have "(of_char c :: nat) = of_char d"
    using small[of c] small[of d] nat_of_char_less_256[of c] nat_of_char_less_256[of d] by linarith
  then show "c = d" by (simp only: of_char_eq_iff)
qed simp

subsection \<open>Where the machine goes\<close>

lemma name_in:
  "goes_to name_states (St 21)" "goes_to name_states (St 25)" "goes_to name_states (St 26)" "goes_to name_states (St 27)"
  "goes_to name_states (St 28)" "goes_to name_states (St 29)" "goes_to name_states (St 30)" "goes_to name_states (St 31)"
  "goes_to name_states (St 32)" "goes_to name_states (St 33)" "goes_to name_states (St 34)" "goes_to name_states (St 44)"
  "goes_to name_states (St 45)" "goes_to name_states (St 46)" "goes_to name_states (St 47)" "goes_to name_states (St 48)"
  "goes_to name_states (St 49)" "goes_to name_states (St 50)" "goes_to name_states (St 51)" "goes_to name_states (St 52)"
  "goes_to name_states (St 53)" "goes_to name_states (St 54)" "goes_to name_states (St 55)" "goes_to name_states (St 56)"
  "goes_to name_states (St 57)" "goes_to name_states (St 58)" "goes_to name_states (St 59)" "goes_to name_states (St 60)"
  "goes_to name_states (St 101)" "goes_to name_states (St 102)" "goes_to name_states (St 103)" "goes_to name_states (St 104)"
  "goes_to name_states (St 105)" "goes_to name_states (St 106)" "goes_to name_states (St 107)" "goes_to name_states (St 108)"
  "goes_to name_states (St 109)" "goes_to name_states (St 110)" "goes_to name_states (St 111)"
  by (simp_all add: name_states_def)

lemma value_in:
  "goes_to value_states (St 23)" "goes_to value_states (St 81)" "goes_to value_states (St 82)" "goes_to value_states (St 83)"
  "goes_to value_states (St 84)" "goes_to value_states (St 85)" "goes_to value_states (St 86)" "goes_to value_states (St 87)"
  "goes_to value_states (St 96)" "goes_to value_states (St 97)" "goes_to value_states (St 98)" "goes_to value_states (St 99)"
  "goes_to value_states (St 100)" "goes_to value_states (St 119)"
  by (simp_all add: value_states_def)

lemma name_case_0:
  "name_code n \<Longrightarrow> goes_to name_states (client_case_21 n)"
  "name_code n \<Longrightarrow> goes_to name_states (client_case_25 n)"
  "name_code n \<Longrightarrow> goes_to name_states (client_case_26 n)"
  "name_code n \<Longrightarrow> goes_to name_states (client_case_27 n)"
  "name_code n \<Longrightarrow> goes_to name_states (client_case_28 n)"
  "name_code n \<Longrightarrow> goes_to name_states (client_case_29 n)"
  "name_code n \<Longrightarrow> goes_to name_states (client_case_30 n)"
  "name_code n \<Longrightarrow> goes_to name_states (client_case_31 n)"
  "name_code n \<Longrightarrow> goes_to name_states (client_case_32 n)"
  "name_code n \<Longrightarrow> goes_to name_states (client_case_33 n)"
  unfolding name_code_def client_case_21_def client_case_25_def client_case_26_def client_case_27_def client_case_28_def
    client_case_29_def client_case_30_def client_case_31_def client_case_32_def client_case_33_def
  by (elim disjE; simp add: goes_to_cond name_in del: goes_to.simps)+

lemma name_case_1:
  "name_code n \<Longrightarrow> goes_to name_states (client_case_34 n)"
  "name_code n \<Longrightarrow> goes_to name_states (client_case_44 n)"
  "name_code n \<Longrightarrow> goes_to name_states (client_case_45 n)"
  "name_code n \<Longrightarrow> goes_to name_states (client_case_46 n)"
  "name_code n \<Longrightarrow> goes_to name_states (client_case_47 n)"
  "name_code n \<Longrightarrow> goes_to name_states (client_case_48 n)"
  "name_code n \<Longrightarrow> goes_to name_states (client_case_49 n)"
  "name_code n \<Longrightarrow> goes_to name_states (client_case_50 n)"
  "name_code n \<Longrightarrow> goes_to name_states (client_case_51 n)"
  "name_code n \<Longrightarrow> goes_to name_states (client_case_52 n)"
  unfolding name_code_def client_case_34_def client_case_44_def client_case_45_def client_case_46_def client_case_47_def
    client_case_48_def client_case_49_def client_case_50_def client_case_51_def client_case_52_def
  by (elim disjE; simp add: goes_to_cond name_in del: goes_to.simps)+

lemma name_case_2:
  "name_code n \<Longrightarrow> goes_to name_states (client_case_53 n)"
  "name_code n \<Longrightarrow> goes_to name_states (client_case_54 n)"
  "name_code n \<Longrightarrow> goes_to name_states (client_case_55 n)"
  "name_code n \<Longrightarrow> goes_to name_states (client_case_56 n)"
  "name_code n \<Longrightarrow> goes_to name_states (client_case_57 n)"
  "name_code n \<Longrightarrow> goes_to name_states (client_case_58 n)"
  "name_code n \<Longrightarrow> goes_to name_states (client_case_59 n)"
  "name_code n \<Longrightarrow> goes_to name_states (client_case_60 n)"
  "name_code n \<Longrightarrow> goes_to name_states (client_case_101 n)"
  "name_code n \<Longrightarrow> goes_to name_states (client_case_102 n)"
  unfolding name_code_def client_case_53_def client_case_54_def client_case_55_def client_case_56_def client_case_57_def
    client_case_58_def client_case_59_def client_case_60_def client_case_101_def client_case_102_def
  by (elim disjE; simp add: goes_to_cond name_in del: goes_to.simps)+

lemma name_case_3:
  "name_code n \<Longrightarrow> goes_to name_states (client_case_103 n)"
  "name_code n \<Longrightarrow> goes_to name_states (client_case_104 n)"
  "name_code n \<Longrightarrow> goes_to name_states (client_case_105 n)"
  "name_code n \<Longrightarrow> goes_to name_states (client_case_106 n)"
  "name_code n \<Longrightarrow> goes_to name_states (client_case_107 n)"
  "name_code n \<Longrightarrow> goes_to name_states (client_case_108 n)"
  "name_code n \<Longrightarrow> goes_to name_states (client_case_109 n)"
  "name_code n \<Longrightarrow> goes_to name_states (client_case_110 n)"
  "name_code n \<Longrightarrow> goes_to name_states (client_case_111 n)"
  unfolding name_code_def client_case_103_def client_case_104_def client_case_105_def client_case_106_def
    client_case_107_def client_case_108_def client_case_109_def client_case_110_def client_case_111_def
  by (elim disjE; simp add: goes_to_cond name_in del: goes_to.simps)+

lemma value_case_0:
  "value_code n \<Longrightarrow> goes_to value_states (client_case_23 n)"
  "value_code n \<Longrightarrow> goes_to value_states (client_case_81 n)"
  "value_code n \<Longrightarrow> goes_to value_states (client_case_82 n)"
  "value_code n \<Longrightarrow> goes_to value_states (client_case_83 n)"
  "value_code n \<Longrightarrow> goes_to value_states (client_case_84 n)"
  "value_code n \<Longrightarrow> goes_to value_states (client_case_85 n)"
  "value_code n \<Longrightarrow> goes_to value_states (client_case_86 n)"
  "value_code n \<Longrightarrow> goes_to value_states (client_case_87 n)"
  "value_code n \<Longrightarrow> goes_to value_states (client_case_96 n)"
  "value_code n \<Longrightarrow> goes_to value_states (client_case_97 n)"
  unfolding value_code_def client_case_23_def client_case_81_def client_case_82_def client_case_83_def client_case_84_def
    client_case_85_def client_case_86_def client_case_87_def client_case_96_def client_case_97_def
  by (elim disjE; simp add: goes_to_cond value_in del: goes_to.simps)+

lemma value_case_1:
  "value_code n \<Longrightarrow> goes_to value_states (client_case_98 n)"
  "value_code n \<Longrightarrow> goes_to value_states (client_case_99 n)"
  "value_code n \<Longrightarrow> goes_to value_states (client_case_100 n)"
  "value_code n \<Longrightarrow> goes_to value_states (client_case_119 n)"
  unfolding value_code_def client_case_98_def client_case_99_def
    client_case_100_def client_case_119_def
  by (elim disjE; simp add: goes_to_cond value_in del: goes_to.simps)+

lemma name_next: "s \<in> name_states \<Longrightarrow> name_code n \<Longrightarrow> goes_to name_states (client_switch s n)"
  unfolding name_states_def[THEN arg_cong[where f = "\<lambda>S. s \<in> S"]]
  by (elim insertE emptyE; simp only: client_switch_at name_case_0 name_case_1 name_case_2 name_case_3)

lemma name_first:
  assumes "s \<in> line_states" "name_code n"
  shows "runs_to {[C_start_field], [C_write_connection_close, C_start_field]} name_states (client_switch s n)"
proof -
  have runs: "runs_to {[C_start_field], [C_write_connection_close, C_start_field]} name_states (Tr k)"
    if "k \<in> {35, 36, 37, 76, 77, 78}" for k
    using that by (auto simp: client_transition_at client_tr_defs name_states_def)
  have "s = 20 \<or> s = 43" using assms(1) by (simp add: line_states_def)
  then show ?thesis
    using assms(2) unfolding name_code_def
    by (elim disjE; simp add: client_switch_at client_case_20_def client_case_43_def runs_to_cond runs del: runs_to.simps)
qed

lemma name_colon: "s \<in> name_states \<Longrightarrow> runs_to {[C_write_field]} colon_states (client_switch s 58)"
  unfolding name_states_def
  by (elim insertE emptyE; simp add: client_switch_at client_case_defs client_transition_at client_tr_defs colon_states_def)

lemma colon_space: "s \<in> colon_states \<Longrightarrow> runs_to {[C_start_value]} {s} (client_switch s 32)"
  unfolding colon_states_def
  by (elim insertE emptyE; simp add: client_switch_at client_case_defs client_transition_at client_tr_defs)

lemma value_first:
  assumes "s \<in> colon_states" "value_code n" "n \<noteq> 32" "n \<noteq> 9"
  shows "runs_to {[C_start_value]} value_states (client_switch s n)"
proof -
  have runs: "runs_to {[C_start_value]} value_states (Tr k)" if "k \<in> {40, 62, 99, 152}" for k
    using that by (auto simp: client_transition_at client_tr_defs value_states_def)
  have "s = 22 \<or> s = 35 \<or> s = 61 \<or> s = 112" using assms(1) by (simp add: colon_states_def)
  then show ?thesis
    using assms(2-4) unfolding value_code_def
    by (elim disjE; simp add: client_switch_at client_case_22_def client_case_35_def client_case_61_def
        client_case_112_def runs_to_cond runs del: runs_to.simps)
qed

lemma value_next: "s \<in> value_states \<Longrightarrow> value_code n \<Longrightarrow> goes_to value_states (client_switch s n)"
  unfolding value_states_def[THEN arg_cong[where f = "\<lambda>S. s \<in> S"]]
  by (elim insertE emptyE; simp only: client_switch_at value_case_0 value_case_1)

lemma value_end:
  "s \<in> value_states \<Longrightarrow> runs_to {[C_write_value], [C_write_content_len, C_write_value]} {24, 71, 88} (client_switch s 13)"
  unfolding value_states_def
  by (elim insertE emptyE; simp add: client_switch_at client_case_defs client_transition_at client_tr_defs)

lemma line_feed:
  "client_switch 24 10 = St 20" "client_switch 88 10 = St 43" "runs_to {[C_trans_chunked]} {20} (client_switch 71 10)"
  by (simp_all add: client_switch_at client_case_defs client_transition_at client_tr_defs)

subsection \<open>The marks of the first call\<close>

text \<open>
  In the first call of a message the marks lie in the buffer and a name begins before the position; so no
  assertion and none of the three checks behind the machine fails.  Later calls keep the marks of the
  ones before, and fail (see \<open>Httpclient_Parser\<close>).
\<close>

definition client_ok :: "nat \<Rightarrow> nat \<Rightarrow> httpclient_parser \<Rightarrow> bool" where
  "client_ok len p m \<longleftrightarrow> p \<le> len \<and> unat (pc_mark m) < len \<and> unat (pc_field_start m) \<le> p \<and>
     unat (pc_field_start m) < len \<and> unat (pc_field_len m) \<le> len \<and> unat (pc_body_start m) \<le> len"

lemma client_act_ok:
  assumes "client_ok len p (fst s)" "p < len" "len < 2 ^ 64"
  shows "client_ok len p (fst (client_act buffer a p s))"
proof -
  obtain m es where s: "s = (m, es)" by force
  have word: "p < 2 ^ 64" "Suc p < 2 ^ 64" using assms by simp_all
  have "unat (1 + of_nat p :: 64 word) = Suc p" using unat_position[OF word(2)] by simp
  moreover have "unat (LEN (pc_field_start m) p) \<le> len"
    using assms s word by (subst LEN_inside) (auto simp: client_ok_def)
  ultimately show ?thesis
    using assms unat_position[OF word(1)] s by (cases a) (auto simp: client_ok_def Let_def ac_simps)
qed

interpretation client: typed_machine client_switch client_transition "client_act buffer" "length buffer"
    "\<lambda>cs p s. client_ok (length buffer) p (fst s) \<and> length buffer < 2 ^ 64" for buffer
proof unfold_locales
  fix cs p c t n as and s :: "httpclient_parser \<times> response_event list"
  assume ok: "client_ok (length buffer) p (fst s) \<and> length buffer < 2 ^ 64"
  then show "client_ok (length buffer) p (fst s) \<and> length buffer < 2 ^ 64" .
  assume p: "p < length buffer"
  then show "client_ok (length buffer) (Suc p) (fst s) \<and> length buffer < 2 ^ 64" using ok by (auto simp: client_ok_def)
  have "client_ok (length buffer) p (fst (fold (\<lambda>a. client_act buffer a p) as s))"
    using ok p by (induction as arbitrary: s) (simp_all add: client_act_ok)
  then have "client_ok (length buffer) (Suc p) (fst (fold (\<lambda>a. client_act buffer a p) as s))"
    using p by (auto simp: client_ok_def)
  then show "client_ok (length buffer) (Suc p) (fst (fold (\<lambda>a. client_act buffer a p) as s)) \<and> length buffer < 2 ^ 64"
    and "client_ok (length buffer) (Suc p) (fst (fold (\<lambda>a. client_act buffer a p) as s)) \<and> length buffer < 2 ^ 64"
    using ok by simp_all
qed

lemma client_first_call:
  assumes "buffer \<noteq> []" "length buffer < 2 ^ 31"
    and "client_exec (httpclient_parser_init mem) buffer 0 = (p, cs, m, es)"
  shows "p \<le> length buffer"
    and "httpclient_parser_run (httpclient_parser_init mem) buffer 0 = (int p, m\<lparr>pc_cs := cs, pc_nread := of_nat p\<rparr>, es)"
    and "httpclient_parser_execute (httpclient_parser_init mem) buffer 0 True = Some (int p, m\<lparr>pc_cs := cs, pc_nread := of_nat p\<rparr>, es)"
proof -
  note ex = assms(3)[unfolded client_exec_def]
  show p: "p \<le> length buffer" using exec_position[OF ex] by simp
  have "client_ok (length buffer) 0 (httpclient_parser_init mem)"
    using assms(1) by (simp add: client_ok_def httpclient_parser_init_def)
  then have ok: "client_ok (length buffer) p m" using client.run_typed[OF ex] assms(2) by simp
  have "pc_nread m = 0" using client_exec_keeps[OF ex] by (simp add: httpclient_parser_init_def)
  moreover have "sint (ucast (of_nat p :: 64 word) :: 32 word) = int p"
    using p assms(2) by (simp add: signed_of_nat signed_take_bit_int_eq_self unsigned_of_nat take_bit_nat_eq_self)
  ultimately show run: "httpclient_parser_run (httpclient_parser_init mem) buffer 0 = (int p, m\<lparr>pc_cs := cs, pc_nread := of_nat p\<rparr>, es)"
    using ok assms(3) by (simp add: httpclient_parser_run_def client_ok_def)
  have "sint (of_nat (length buffer) :: 32 word) = int (length buffer)" "unat (of_nat p :: 64 word) = p"
    using p assms(2) by (simp_all add: signed_of_nat signed_take_bit_int_eq_self unat_position)
  then show "httpclient_parser_execute (httpclient_parser_init mem) buffer 0 True =
      Some (int p, m\<lparr>pc_cs := cs, pc_nread := of_nat p\<rparr>, es)"
    using run ok p by (simp add: httpclient_parser_execute_def client_ok_def)
qed

end
