(* ===== verification/Http_Response.thy ===== *)
theory Http_Response
  imports Httpclient_Laws Http_Roundtrip
begin

text \<open>
  The printed response is read back: the parts of a response as triples of its state machine, in the form of
  \<open>Http11_Laws\<close> but between sets of states, their composition along \<open>rs_dump\<close>, and the response parser on the
  whole text, with the assertions and checks behind the machine.
\<close>

subsection \<open>Runs within a set of states\<close>

lemma exec_within:
  assumes "\<And>s c. s \<in> S \<Longrightarrow> P c \<Longrightarrow> goes_to S (sw s (schar c))" "0 \<notin> S"
  shows "s \<in> S \<Longrightarrow> \<forall>c \<in> set xs. P c \<Longrightarrow>
     \<exists>t \<in> S. exec_loop sw tr act (xs @ rest) p s st = exec_loop sw tr act rest (p + length xs) t st"
proof (induction xs arbitrary: s p)
  case (Cons c xs)
  then obtain t where t: "sw s (schar c) = St t" "t \<in> S"
    using assms(1)[of s c] by (cases "sw s (schar c)") auto
  then have "t \<noteq> 0" using assms(2) by metis
  then show ?case using Cons.IH[OF t(2), of "Suc p"] Cons.prems t by simp
qed auto

lemma exec_runs:
  assumes "runs_to A T (client_switch s (schar c))" "xs = c # rest"
  obtains as t where "as \<in> A" "t \<in> T" "exec_loop client_switch client_transition act xs p s st =
     exec_loop client_switch client_transition act rest (Suc p) t (fold (\<lambda>a. act a p) as st)"
proof -
  obtain n where n: "client_switch s (schar c) = Tr n" using assms by (cases "client_switch s (schar c)") auto
  obtain as j where j: "client_transition n = (as, j)" by force
  show thesis using assms n j that by (cases j) auto
qed

lemma states_nonzero: "0 \<notin> name_states" "0 \<notin> value_states"
  by (simp_all add: name_states_def value_states_def)

subsection \<open>Triples\<close>

type_synonym res = "httpclient_parser response_parser"

definition creads :: "nat set \<Rightarrow> string \<Rightarrow> nat set \<Rightarrow> (res \<Rightarrow> res) \<Rightarrow> bool" where
  "creads A xs B f \<longleftrightarrow>
     (\<forall>a \<in> A. \<forall>pre rest m es. length (pre @ xs @ rest) < 2 ^ 64 \<longrightarrow>
        (\<exists>b \<in> B. \<exists>m' es'. exec_loop client_switch client_transition (client_act (pre @ xs @ rest)) (xs @ rest) (length pre) a (m, es) =
             exec_loop client_switch client_transition (client_act (pre @ xs @ rest)) rest (length (pre @ xs)) b (m', es @ es') \<and>
           fold on_response es' = f))"

lemma creadsI:
  assumes "\<And>a pre rest m es. a \<in> A \<Longrightarrow> length (pre @ xs @ rest) < 2 ^ 64 \<Longrightarrow>
     \<exists>b \<in> B. \<exists>m' es'. exec_loop client_switch client_transition (client_act (pre @ xs @ rest)) (xs @ rest) (length pre) a (m, es) =
          exec_loop client_switch client_transition (client_act (pre @ xs @ rest)) rest (length (pre @ xs)) b (m', es @ es') \<and>
        fold on_response es' = f"
  shows "creads A xs B f"
  using assms unfolding creads_def by blast

lemma creadsD:
  "creads A xs B f \<Longrightarrow> a \<in> A \<Longrightarrow> length (pre @ xs @ rest) < 2 ^ 64 \<Longrightarrow>
   \<exists>b \<in> B. \<exists>m' es'. exec_loop client_switch client_transition (client_act (pre @ xs @ rest)) (xs @ rest) (length pre) a (m, es) =
        exec_loop client_switch client_transition (client_act (pre @ xs @ rest)) rest (length (pre @ xs)) b (m', es @ es') \<and>
      fold on_response es' = f"
  unfolding creads_def by blast

lemma creads_nil: "creads A [] A id"
  unfolding creads_def by (auto intro!: bexI exI[of _ "[]"] simp: id_def)

lemma creads_append:
  assumes "creads A xs B f" "creads B ys C g"
  shows "creads A (xs @ ys) C (g \<circ> f)"
proof (rule creadsI)
  fix a pre rest and m :: httpclient_parser and es
  assume a: "a \<in> A" and len: "length (pre @ (xs @ ys) @ rest) < 2 ^ 64"
  obtain b m1 es1 where 1: "exec_loop client_switch client_transition (client_act (pre @ xs @ ys @ rest)) (xs @ ys @ rest) (length pre) a (m, es) =
      exec_loop client_switch client_transition (client_act (pre @ xs @ ys @ rest)) (ys @ rest) (length (pre @ xs)) b (m1, es @ es1)"
      "fold on_response es1 = f" "b \<in> B"
    using creadsD[OF assms(1) a, of pre "ys @ rest" m es] len by auto
  obtain c m2 es2 where 2: "exec_loop client_switch client_transition (client_act ((pre @ xs) @ ys @ rest)) (ys @ rest) (length (pre @ xs)) b (m1, es @ es1) =
      exec_loop client_switch client_transition (client_act ((pre @ xs) @ ys @ rest)) rest (length ((pre @ xs) @ ys)) c (m2, (es @ es1) @ es2)"
      "fold on_response es2 = g" "c \<in> C"
    using creadsD[OF assms(2) 1(3), of "pre @ xs" rest m1 "es @ es1"] len by auto
  show "\<exists>b \<in> C. \<exists>m' es'. exec_loop client_switch client_transition (client_act (pre @ (xs @ ys) @ rest)) ((xs @ ys) @ rest) (length pre) a (m, es) =
        exec_loop client_switch client_transition (client_act (pre @ (xs @ ys) @ rest)) rest (length (pre @ xs @ ys)) b (m', es @ es') \<and>
      fold on_response es' = g \<circ> f"
    using 1(1,2) 2 by (intro bexI[of _ c] exI[of _ m2] exI[of _ "es1 @ es2"]) (simp_all del: exec_loop.simps)
qed

subsection \<open>Header lines\<close>

abbreviation put_field :: "string \<Rightarrow> string \<Rightarrow> res \<Rightarrow> res" where
  "put_field k v parser \<equiv> parser\<lparr>sp_data := rs_setHeader k v (sp_data parser)\<rparr>"

lemma client_name:
  assumes "s \<in> line_states" "name_ok k"
  shows "\<exists>t \<in> colon_states. \<exists>m'. exec_loop client_switch client_transition (client_act b) (k @ CHR '':'' # rest) p s (m, es) =
       exec_loop client_switch client_transition (client_act b) rest (Suc (p + length k)) t (m', es) \<and>
     pc_field_start m' = of_nat p \<and> pc_field_len m' = LEN (of_nat p) (p + length k)"
proof -
  obtain c u where k: "k = c # u" "name_char c" "\<forall>c \<in> set u. name_char c"
    using assms(2) by (cases k) (auto simp: name_ok_def)
  have x: "k @ CHR '':'' # rest = c # (u @ CHR '':'' # rest)" using k(1) by simp
  obtain as t1 where 1: "as \<in> {[C_start_field], [C_write_connection_close, C_start_field]}" "t1 \<in> name_states"
      "exec_loop client_switch client_transition (client_act b) (k @ CHR '':'' # rest) p s (m, es) =
       exec_loop client_switch client_transition (client_act b) (u @ CHR '':'' # rest) (Suc p) t1 (fold (\<lambda>a. client_act b a p) as (m, es))"
    by (rule exec_runs[OF name_first[OF assms(1) name_code[OF k(2)]] x])
  obtain m1 where m1: "fold (\<lambda>a. client_act b a p) as (m, es) = (m1, es)" "pc_field_start m1 = of_nat p"
    using 1(1) by fastforce
  obtain t2 where 2: "t2 \<in> name_states"
      "exec_loop client_switch client_transition (client_act b) (u @ CHR '':'' # rest) (Suc p) t1 (m1, es) =
       exec_loop client_switch client_transition (client_act b) (CHR '':'' # rest) (p + length k) t2 (m1, es)"
    using exec_within[where sw = client_switch and P = name_char and xs = u and tr = client_transition and act = "client_act b"
        and p = "Suc p" and st = "(m1, es)" and rest = "CHR '':'' # rest", OF name_next[OF _ name_code] states_nonzero(1) 1(2) k(3)] k(1)
    by (auto simp del: exec_loop.simps)
  obtain t where 3: "t \<in> colon_states"
      "exec_loop client_switch client_transition (client_act b) (CHR '':'' # rest) (p + length k) t2 (m1, es) =
       exec_loop client_switch client_transition (client_act b) rest (Suc (p + length k)) t
         (m1\<lparr>pc_field_len := LEN (pc_field_start m1) (p + length k)\<rparr>, es)"
    by (rule exec_runs[where c = "CHR '':''", OF name_colon[OF 2(1), folded schar_special(6)] refl, where act = "client_act b" and st = "(m1, es)"])
      simp
  show ?thesis using 1(3) m1 2(2) 3 by (intro bexI[of _ t] exI) (auto simp del: exec_loop.simps)
qed

lemma client_value:
  assumes "s \<in> colon_states" "value_ok v" "v \<noteq> []"
  shows "\<exists>t \<in> line_states. \<exists>m'. exec_loop client_switch client_transition (client_act b) (v @ CRLF @ rest) q s (m, es) =
     exec_loop client_switch client_transition (client_act b) rest (Suc (Suc (q + length v))) t
       (m', es @ [Response_field (PTR_TO b (pc_field_start m)) (unat (pc_field_len m))
          (PTR_TO b (of_nat q)) (unat (LEN (of_nat q) (q + length v)))])"
proof -
  obtain c u where v: "v = c # u" "value_char c" "\<forall>c \<in> set u. value_char c" "schar c \<noteq> 32" "schar c \<noteq> 9"
    using assms(2,3) schar_eq[of _ "CHR '' ''"] schar_eq[of _ "CHR 0x09"] by (cases v) (auto simp: value_ok_def schar_def[of "CHR 0x09"])
  let ?m = "m\<lparr>pc_mark := of_nat q\<rparr>"
  have x: "v @ CRLF @ rest = c # (u @ CRLF @ rest)" using v(1) by simp
  obtain t1 where 1: "t1 \<in> value_states"
      "exec_loop client_switch client_transition (client_act b) (v @ CRLF @ rest) q s (m, es) =
       exec_loop client_switch client_transition (client_act b) (u @ CRLF @ rest) (Suc q) t1 (?m, es)"
    by (rule exec_runs[OF value_first[OF assms(1) value_code[OF v(2)] v(4,5)] x, where act = "client_act b" and st = "(m, es)"]) simp
  obtain t2 where 2: "t2 \<in> value_states"
      "exec_loop client_switch client_transition (client_act b) (u @ CRLF @ rest) (Suc q) t1 (?m, es) =
       exec_loop client_switch client_transition (client_act b) (CRLF @ rest) (q + length v) t2 (?m, es)"
    using exec_within[where sw = client_switch and P = value_char and xs = u and tr = client_transition and act = "client_act b"
        and p = "Suc q" and st = "(?m, es)" and rest = "CRLF @ rest", OF value_next[OF _ value_code] states_nonzero(2) 1(1) v(3)] v(1)
    by (auto simp del: exec_loop.simps)
  let ?e = "Response_field (PTR_TO b (pc_field_start m)) (unat (pc_field_len m))
          (PTR_TO b (of_nat q)) (unat (LEN (of_nat q) (q + length v)))"
  have y: "CRLF @ rest = CHR 0x0D # CHR 0x0A # rest" by (simp add: CRLF_def)
  obtain as t3 where 3: "as \<in> {[C_write_value], [C_write_content_len, C_write_value]}" "t3 \<in> {24, 71, 88}"
      "exec_loop client_switch client_transition (client_act b) (CRLF @ rest) (q + length v) t2 (?m, es) =
       exec_loop client_switch client_transition (client_act b) (CHR 0x0A # rest) (Suc (q + length v)) t3
         (fold (\<lambda>a. client_act b a (q + length v)) as (?m, es))"
    by (rule exec_runs[where c = "CHR 0x0D", OF value_end[OF 2(1), folded schar_special(7)] y])
  obtain m1 where m1: "fold (\<lambda>a. client_act b a (q + length v)) as (?m, es) = (m1, es @ [?e])"
    using 3(1) by auto
  have "\<exists>t \<in> line_states. \<exists>m'. exec_loop client_switch client_transition (client_act b) (CHR 0x0A # rest) (Suc (q + length v)) t3 (m1, es @ [?e]) =
      exec_loop client_switch client_transition (client_act b) rest (Suc (Suc (q + length v))) t (m', es @ [?e])"
  proof (cases "t3 = 71")
    case True
    show ?thesis unfolding True
      by (rule exec_runs[where c = "CHR 0x0A", OF line_feed(3)[folded schar_special(8)] refl,
          where act = "client_act b" and st = "(m1, es @ [?e])"]) (auto simp: line_states_def)
  qed (use 3(2) line_feed(1,2) in \<open>auto simp: line_states_def\<close>)
  then show ?thesis using 1(2) 2(2) 3(3) m1 by (simp del: exec_loop.simps)
qed

lemma creads_field:
  assumes "name_ok k" "value_ok v" "v \<noteq> []"
  shows "creads line_states (k @ CHR '':'' # '' '' @ v @ CRLF) line_states (put_field k v)"
proof (rule creadsI)
  fix a pre rest and m :: httpclient_parser and es
  let ?x = "k @ CHR '':'' # '' '' @ v @ CRLF"
  let ?b = "pre @ ?x @ rest" and ?p = "length pre" and ?q = "Suc (Suc (length pre + length k))"
  assume a: "a \<in> line_states" and len: "length ?b < 2 ^ 64"
  obtain t m1 where 1: "t \<in> colon_states" "pc_field_start m1 = of_nat ?p" "pc_field_len m1 = LEN (of_nat ?p) (?p + length k)"
      "exec_loop client_switch client_transition (client_act ?b) (?x @ rest) ?p a (m, es) =
       exec_loop client_switch client_transition (client_act ?b) ('' '' @ v @ CRLF @ rest) (Suc (?p + length k)) t (m1, es)"
    using client_name[OF a assms(1), of ?b "'' '' @ v @ CRLF @ rest" ?p m es] by (auto simp del: exec_loop.simps)
  have 2: "exec_loop client_switch client_transition (client_act ?b) ('' '' @ v @ CRLF @ rest) (Suc (?p + length k)) t (m1, es) =
      exec_loop client_switch client_transition (client_act ?b) (v @ CRLF @ rest) ?q t (m1\<lparr>pc_mark := of_nat (Suc (?p + length k))\<rparr>, es)"
    by (rule exec_runs[where c = "CHR '' ''", OF colon_space[OF 1(1), folded schar_special(1)],
        where xs = "'' '' @ v @ CRLF @ rest" and act = "client_act ?b" and st = "(m1, es)"
        and p = "Suc (?p + length k)"]) (simp_all del: exec_loop.simps)
  obtain t2 m2 where 3: "t2 \<in> line_states"
      "exec_loop client_switch client_transition (client_act ?b) (v @ CRLF @ rest) ?q t (m1\<lparr>pc_mark := of_nat (Suc (?p + length k))\<rparr>, es) =
       exec_loop client_switch client_transition (client_act ?b) rest (Suc (Suc (?q + length v))) t2
         (m2, es @ [Response_field (PTR_TO ?b (of_nat ?p)) (unat (LEN (of_nat ?p) (?p + length k)))
            (PTR_TO ?b (of_nat ?q)) (unat (LEN (of_nat ?q) (?q + length v)))])"
    using client_value[OF 1(1) assms(2,3), of ?b rest ?q "m1\<lparr>pc_mark := of_nat (Suc (?p + length k))\<rparr>" es] 1(2,3)
    by (auto simp del: exec_loop.simps)
  have taken: "PTR_TO ?b (of_nat ?p) = ?x @ rest" "PTR_TO ?b (of_nat ?q) = v @ CRLF @ rest"
    "unat (LEN (of_nat ?p) (?p + length k)) = length k" "unat (LEN (of_nat ?q) (?q + length v)) = length v"
    using PTR_TO_here[of pre "?x @ rest"] PTR_TO_here[of "pre @ k @ CHR '':'' # '' ''" "v @ CRLF @ rest"] len
      LEN_from[of ?p "?p + length k"] LEN_from[of ?q "?q + length v"] by (simp_all add: CRLF_def add.assoc)
  have pos: "Suc (Suc (?q + length v)) = length (pre @ ?x)" by (simp add: CRLF_def)
  have "fold on_response [Response_field (?x @ rest) (length k) (v @ CRLF @ rest) (length v)] = put_field k v"
    using assms(1) by (simp add: name_ok_def fun_eq_iff on_response_http_field_def)
  then show "\<exists>b \<in> line_states. \<exists>m' es'. exec_loop client_switch client_transition (client_act ?b) (?x @ rest) ?p a (m, es) =
        exec_loop client_switch client_transition (client_act ?b) rest (length (pre @ ?x)) b (m', es @ es') \<and>
      fold on_response es' = put_field k v"
    using 3(1) unfolding 1(4) 2 3(2) taken pos by blast
qed

definition put_fields :: "(string \<times> string \<times> string) list \<Rightarrow> res \<Rightarrow> res" where
  "put_fields fs = fold (\<lambda>(k, sp, v). put_field k v) fs"

lemma creads_fields:
  assumes "\<forall>(k, sp, v) \<in> set fs. name_ok k \<and> value_ok v \<and> v \<noteq> [] \<and> sp = '' ''"
  shows "creads line_states (concat (map field_line fs)) line_states (put_fields fs)"
  using assms
proof (induction fs)
  case Nil
  then show ?case using creads_nil by (simp add: put_fields_def id_def)
next
  case (Cons f fs)
  obtain k sp v where f: "f = (k, sp, v)" by (cases f)
  have "creads line_states (field_line f) line_states (put_field k v)"
    using creads_field[of k v] Cons.prems f by (auto simp: field_line_def)
  then show ?case
    using creads_append[of line_states "field_line f" line_states "put_field k v" "concat (map field_line fs)" line_states "put_fields fs"]
      Cons f by (simp add: put_fields_def comp_def)
qed

subsection \<open>The status line\<close>

abbreviation put_version :: "8 word \<Rightarrow> res \<Rightarrow> res" where
  "put_version v parser \<equiv> parser\<lparr>sp_data := (sp_data parser)\<lparr>rs_version := v\<rparr>\<rparr>"

abbreviation put_status :: "http_status \<Rightarrow> res \<Rightarrow> res" where
  "put_status n parser \<equiv> parser\<lparr>sp_data := (sp_data parser)\<lparr>rs_status := n\<rparr>\<rparr>"

abbreviation put_reason :: "string \<Rightarrow> res \<Rightarrow> res" where
  "put_reason t parser \<equiv> parser\<lparr>sp_data := (sp_data parser)\<lparr>rs_reason := t\<rparr>\<rparr>"

lemma client_trs [simp]:
  "client_transition 2 = ([C_mark], Goto 8)" "client_transition 26 = ([C_http_version], Goto 16)"
  "client_transition 27 = ([C_mark], Goto 17)" "client_transition 28 = ([C_status_code], Goto 18)"
  "client_transition 30 = ([C_mark], Goto 19)" "client_transition 33 = ([C_reason_phrase], Goto 24)"
  "client_transition 7 = ([C_done], Break 120)" "client_transition 75 = ([C_write_connection_close], Goto 3)"
  by (simp_all add: client_transition_at client_tr_defs)

lemma client_version_states:
  "client_switch (Suc 0) (schar CHR ''H'') = Tr 2" "client_switch 8 (schar CHR ''T'') = St 9"
  "client_switch 9 (schar CHR ''T'') = St 10" "client_switch 10 (schar CHR ''P'') = St 11"
  "client_switch 11 (schar CHR ''/'') = St 12" "client_switch 12 (schar CHR ''1'') = St 13"
  "client_switch 13 (schar CHR ''.'') = St 14" "v \<in> {CHR ''0'', CHR ''1''} \<Longrightarrow> client_switch 14 (schar v) = St 15"
  "client_switch 15 (schar CHR '' '') = Tr 26"
  by (auto simp: client_switch_at client_switch_at_0(1)[unfolded One_nat_def] client_case_1_def client_case_8_def
      client_case_9_def client_case_10_def client_case_11_def client_case_12_def client_case_13_def client_case_14_def
      client_case_15_def schar_def)

lemma response_version_event:
  "v \<in> {(CHR ''0'', 0x10), (CHR ''1'', 0x11)} \<Longrightarrow>
   on_response_version (''HTTP/1.'' @ fst v # t) 8 = put_version (snd v)"
  by (auto simp: on_response_version_def strncmp_eq_def c_str_def fun_eq_iff)

lemma creads_version:
  assumes "v \<in> {(CHR ''0'', 0x10), (CHR ''1'', 0x11)}"
  shows "creads {1} (''HTTP/1.'' @ fst v # '' '') {16} (put_version (snd v))"
proof (rule creadsI)
  fix a pre rest and m :: httpclient_parser and es
  let ?b = "pre @ (''HTTP/1.'' @ fst v # '' '') @ rest" and ?m = "m\<lparr>pc_mark := of_nat (length pre)\<rparr>"
  let ?p = "Suc (Suc (Suc (Suc (Suc (Suc (Suc (Suc (length pre))))))))"
  assume a: "a \<in> {1 :: nat}" and len: "length ?b < 2 ^ 64"
  have run: "exec_loop client_switch client_transition (client_act ?b) ((''HTTP/1.'' @ fst v # '' '') @ rest) (length pre) a (m, es) =
      exec_loop client_switch client_transition (client_act ?b) rest (length (pre @ ''HTTP/1.'' @ fst v # '' '')) 16
        (?m, es @ [Response_version (PTR_TO ?b (of_nat (length pre))) (unat (LEN (of_nat (length pre)) ?p))])"
    using client_version_states(1-7,9) client_version_states(8)[of "fst v"] assms a by (auto simp del: schar_special)
  have taken: "PTR_TO ?b (of_nat (length pre)) = ''HTTP/1.'' @ fst v # '' '' @ rest"
    "unat (LEN (of_nat (length pre)) ?p) = 8"
    using PTR_TO_here[of pre "''HTTP/1.'' @ fst v # '' '' @ rest"] LEN_from[of "length pre" ?p] len by simp_all
  show "\<exists>b \<in> {16}. \<exists>m' es'. exec_loop client_switch client_transition (client_act ?b) ((''HTTP/1.'' @ fst v # '' '') @ rest) (length pre) a (m, es) =
        exec_loop client_switch client_transition (client_act ?b) rest (length (pre @ ''HTTP/1.'' @ fst v # '' '')) b (m', es @ es') \<and>
      fold on_response es' = put_version (snd v)"
    unfolding run taken by (intro bexI exI conjI) (rule refl, use response_version_event[OF assms, of "'' '' @ rest"] in simp_all)
qed

lemma digit_code: "is_digit c \<Longrightarrow> 48 \<le> schar c \<and> schar c \<le> 57"
  by (auto simp: is_digit_def schar_ascii)

lemma status_states:
  "is_digit c \<Longrightarrow> client_switch 16 (schar c) = Tr 27" "is_digit c \<Longrightarrow> client_switch 17 (schar c) = St 17"
  "client_switch 17 (schar CHR '' '') = Tr 28"
  using digit_code[of c] by (auto simp: client_switch_at client_case_16_def client_case_17_def)

lemma atoi_show: "atoi (show_nat n @ '' '' @ t) = int n"
proof -
  have digits: "\<forall>c \<in> set (show_nat n). is_digit c" by (rule show_nat_digits)
  then have "\<forall>c \<in> set (show_nat n). c \<noteq> CHR 0x00" by (auto simp: is_digit_def)
  then have cut: "c_str (show_nat n @ '' '' @ t) = show_nat n @ CHR '' '' # c_str t"
    by (simp add: c_str_def takeWhile_append2)
  obtain c u where n: "show_nat n = c # u" "is_digit c" using show_nat_digits(2)[of n] digits by (cases "show_nat n") auto
  have "takeWhile is_digit (show_nat n @ CHR '' '' # c_str t) = show_nat n"
    using digits by (subst takeWhile_append2) (auto simp: is_digit_def)
  moreover have "\<not> is_space c" "c \<noteq> CHR ''-''" "c \<noteq> CHR ''+''" using n(2) by (auto simp: is_digit_def is_space_def)
  ultimately show ?thesis using dec_val_show_nat[of n] cut n(1) by (simp add: atoi_def)
qed

lemma creads_status: "creads {16} (show_nat n @ '' '') {18} (put_status n)"
proof (rule creadsI)
  fix a pre rest and m :: httpclient_parser and es
  let ?x = "show_nat n @ '' ''"
  let ?b = "pre @ ?x @ rest" and ?m = "m\<lparr>pc_mark := of_nat (length pre)\<rparr>" and ?p = "length pre + length (show_nat n)"
  assume a: "a \<in> {16 :: nat}" and len: "length ?b < 2 ^ 64"
  obtain c u where n: "show_nat n = c # u" "is_digit c" "\<forall>c \<in> set u. client_switch 17 (schar c) = St 17"
    using show_nat_digits[of n] status_states(2) by (cases "show_nat n") auto
  have "exec_loop client_switch client_transition (client_act ?b) (?x @ rest) (length pre) a (m, es) =
      exec_loop client_switch client_transition (client_act ?b) (u @ '' '' @ rest) (Suc (length pre)) 17 (?m, es)"
    using a n(1,2) status_states(1)[of c] by simp
  also have "\<dots> = exec_loop client_switch client_transition (client_act ?b) ('' '' @ rest) ?p 17 (?m, es)"
    using exec_stay[where sw = client_switch and tr = client_transition and act = "client_act ?b", OF n(3)] n(1)
    by (simp del: exec_loop.simps)
  finally have run: "exec_loop client_switch client_transition (client_act ?b) (?x @ rest) (length pre) a (m, es) =
      exec_loop client_switch client_transition (client_act ?b) rest (length (pre @ ?x)) 18
        (?m\<lparr>pc_status := word_of_int (strtol (PTR_TO ?b (of_nat (length pre))) 10)\<rparr>,
         es @ [Response_status (PTR_TO ?b (of_nat (length pre))) (unat (LEN (of_nat (length pre)) ?p))])"
    using status_states(3) by simp
  have taken: "PTR_TO ?b (of_nat (length pre)) = ?x @ rest" using PTR_TO_here[of pre "?x @ rest"] len by simp
  have "fold on_response [Response_status (?x @ rest) k] = put_status n" for k
    using atoi_show[of n rest] by (simp add: fun_eq_iff on_response_status_def)
  then show "\<exists>b \<in> {18}. \<exists>m' es'. exec_loop client_switch client_transition (client_act ?b) (?x @ rest) (length pre) a (m, es) =
        exec_loop client_switch client_transition (client_act ?b) rest (length (pre @ ?x)) b (m', es @ es') \<and>
      fold on_response es' = put_status n"
    unfolding run taken by blast
qed

definition reason_ok :: "string \<Rightarrow> bool" where
  "reason_ok t \<longleftrightarrow> t \<noteq> [] \<and> (\<forall>c \<in> set t. c \<noteq> CHR 0x0D \<and> c \<noteq> CHR 0x0A)"

lemma reason_states:
  "c \<noteq> CHR 0x0A \<Longrightarrow> client_switch 18 (schar c) = Tr 30"
  "c \<noteq> CHR 0x0D \<and> c \<noteq> CHR 0x0A \<Longrightarrow> client_switch 19 (schar c) = St 19"
  "client_switch 19 (schar CHR 0x0D) = Tr 33" "client_switch 24 (schar CHR 0x0A) = St 20"
  using schar_eq[of c "CHR 0x0D"] schar_eq[of c "CHR 0x0A"] line_feed(1)
  by (auto simp: client_switch_at client_case_18_def client_case_19_def)

lemma creads_reason:
  assumes "reason_ok t"
  shows "creads {18} (t @ CRLF) line_states (put_reason t)"
proof (rule creadsI)
  fix a pre rest and m :: httpclient_parser and es
  let ?x = "t @ CRLF"
  let ?b = "pre @ ?x @ rest" and ?m = "m\<lparr>pc_mark := of_nat (length pre)\<rparr>" and ?p = "length pre + length t"
  assume a: "a \<in> {18 :: nat}" and len: "length ?b < 2 ^ 64"
  obtain c u where t: "t = c # u" "c \<noteq> CHR 0x0A" "\<forall>c \<in> set u. client_switch 19 (schar c) = St 19"
    using assms reason_states(2) by (cases t) (auto simp: reason_ok_def)
  have "exec_loop client_switch client_transition (client_act ?b) (?x @ rest) (length pre) a (m, es) =
      exec_loop client_switch client_transition (client_act ?b) (u @ CRLF @ rest) (Suc (length pre)) 19 (?m, es)"
    using a t(1) reason_states(1)[OF t(2)] by simp
  also have "\<dots> = exec_loop client_switch client_transition (client_act ?b) (CRLF @ rest) ?p 19 (?m, es)"
    using exec_stay[where sw = client_switch and tr = client_transition and act = "client_act ?b", OF t(3)] t(1)
    by (simp del: exec_loop.simps)
  finally have run: "exec_loop client_switch client_transition (client_act ?b) (?x @ rest) (length pre) a (m, es) =
      exec_loop client_switch client_transition (client_act ?b) rest (length (pre @ ?x)) 20
        (?m, es @ [Response_reason (PTR_TO ?b (of_nat (length pre))) (unat (LEN (of_nat (length pre)) ?p))])"
    using reason_states(3,4) by (simp add: CRLF_def)
  have taken: "PTR_TO ?b (of_nat (length pre)) = ?x @ rest" "unat (LEN (of_nat (length pre)) ?p) = length t"
    using PTR_TO_here[of pre "?x @ rest"] LEN_from[of "length pre" ?p] len by simp_all
  have "fold on_response [Response_reason (?x @ rest) (length t)] = put_reason t"
    by (simp add: fun_eq_iff on_response_reason_def)
  then show "\<exists>b \<in> line_states. \<exists>m' es'. exec_loop client_switch client_transition (client_act ?b) (?x @ rest) (length pre) a (m, es) =
        exec_loop client_switch client_transition (client_act ?b) rest (length (pre @ ?x)) b (m', es @ es') \<and>
      fold on_response es' = put_reason t"
    unfolding run taken by (intro bexI[of _ 20] exI conjI) (rule refl, simp_all add: line_states_def)
qed

subsection \<open>The end of the head\<close>

lemma client_end_states:
  "client_switch 20 (schar CHR 0x0D) = St 3" "client_switch 43 (schar CHR 0x0D) = Tr 75" "client_switch 3 (schar CHR 0x0A) = Tr 7"
  by (simp_all add: client_switch_at client_case_20_def client_case_43_def client_case_3_def)

lemma client_end:
  assumes "s \<in> line_states"
  shows "\<exists>m' es'. exec_loop client_switch client_transition (client_act b) (CRLF @ rest) p s (m, es) = (Suc (Suc p), 120, (m', es @ es')) \<and>
     fold on_response es' = (id :: res \<Rightarrow> res)"
  using assms client_end_states by (auto simp: line_states_def CRLF_def fun_eq_iff)

subsection \<open>The printed response\<close>

definition reason_text :: "http_response \<Rightarrow> string" where
  "reason_text rs = (if rs_reason rs = [] then HttpStatusToString (rs_status rs) else rs_reason rs)"

text \<open>The header lines in the order of \<open>rs_dump\<close>.\<close>

definition response_fields :: "http_response \<Rightarrow> (string \<times> string \<times> string) list" where
  "response_fields rs = map (\<lambda>(k, v). (k, '' '', v)) (filter (\<lambda>e. \<not> is_connection (fst e)) (rs_headers rs)) @
     (''connection'', '' '', if rs_close rs then ''close'' else ''keep-alive'') #
     (if rs_body rs = [] then [] else [(''content-length'', '' '', show_nat (length (rs_body rs)))])"

text \<open>
  What can be printed and read: a reason within one line, header names and values without control
  characters, no header with an empty value (see \<open>empty_value_unfinished\<close>), a status that fits an \<^verbatim>\<open>int\<close>.
\<close>

definition response_printable :: "http_response \<Rightarrow> bool" where
  "response_printable rs \<longleftrightarrow> rs_version rs \<in> {0x10, 0x11} \<and> rs_status rs < 2 ^ 31 \<and> reason_ok (reason_text rs) \<and>
     (\<forall>(k, v) \<in> set (rs_headers rs). name_ok k \<and> value_ok v \<and> v \<noteq> [])"

definition head_text :: "http_response \<Rightarrow> string" where
  "head_text rs = (''HTTP/1.'' @ (if rs_version rs = 0x10 then CHR ''0'' else CHR ''1'') # '' '') @
     (show_nat (rs_status rs) @ '' '') @ (reason_text rs @ CRLF) @ concat (map field_line (response_fields rs))"

lemma rs_dump_parts:
  assumes "rs_version rs \<in> {0x10, 0x11}"
  shows "rs_dump rs = head_text rs @ CRLF @ rs_body rs"
proof -
  have lines: "concat (map (\<lambda>(k, v). if is_connection k then [] else k @ '': '' @ v @ CRLF) m) =
      concat (map (field_line \<circ> (\<lambda>(k, v). (k, '' '', v))) (filter (\<lambda>e. \<not> is_connection (fst e)) m))" for m
    by (induction m) (auto simp: field_line_def)
  show ?thesis
    using assms by (auto simp: rs_dump_def head_text_def dump_versions dump_connection_def dump_body_def response_fields_def
        reason_text_def lines field_line_def)
qed

lemma response_fields_ok:
  assumes "response_printable rs"
  shows "\<forall>(k, sp, v) \<in> set (response_fields rs). name_ok k \<and> value_ok v \<and> v \<noteq> [] \<and> sp = '' ''"
proof -
  have "name_ok ''connection''" "name_ok ''content-length''" "value_ok ''close''" "value_ok ''keep-alive''"
    by (simp_all add: name_ok_def value_ok_def char_defs)
  then show ?thesis
    using assms value_ok_number show_nat_digits(2) by (auto simp: response_fields_def response_printable_def)
qed

abbreviation put_response :: "http_response \<Rightarrow> res \<Rightarrow> res" where
  "put_response rs \<equiv> put_fields (response_fields rs) \<circ> put_reason (reason_text rs) \<circ> put_status (rs_status rs) \<circ>
     put_version (rs_version rs)"

lemma creads_response:
  assumes "response_printable rs"
  shows "creads {1} (head_text rs) line_states (put_response rs)"
proof -
  let ?v = "if rs_version rs = 0x10 then CHR ''0'' else CHR ''1''"
  have rs: "rs_version rs \<in> {0x10, 0x11}" "reason_ok (reason_text rs)" using assms by (simp_all add: response_printable_def)
  have "creads {1} (''HTTP/1.'' @ ?v # '' '') {16} (put_version (rs_version rs))"
    using creads_version[of "(?v, rs_version rs)"] rs(1) by auto
  from creads_append[OF this creads_append[OF creads_status creads_append[OF creads_reason[OF rs(2)]
        creads_fields[OF response_fields_ok[OF assms]]]]]
  show ?thesis unfolding head_text_def by (simp only: comp_assoc append_assoc)
qed

lemma client_exec_dump:
  assumes "response_printable rs" "length (rs_dump rs) < 2 ^ 31"
  shows "\<exists>m es. client_exec (httpclient_parser_init mem) (rs_dump rs) 0 =
      (length (rs_dump rs) - length (rs_body rs), 120, m, es) \<and> fold on_response es = put_response rs"
proof -
  let ?m = "httpclient_parser_init mem"
  have dump: "rs_dump rs = head_text rs @ CRLF @ rs_body rs"
    using rs_dump_parts assms(1) by (simp add: response_printable_def)
  have len: "length ([] @ head_text rs @ CRLF @ rs_body rs) < 2 ^ 64" using assms(2) dump by simp
  obtain s m1 es1 where 1: "s \<in> line_states" "fold on_response es1 = put_response rs"
      "exec_loop client_switch client_transition (client_act ([] @ head_text rs @ CRLF @ rs_body rs)) (head_text rs @ CRLF @ rs_body rs)
         (length ([] :: string)) 1 (?m, []) =
       exec_loop client_switch client_transition (client_act ([] @ head_text rs @ CRLF @ rs_body rs)) (CRLF @ rs_body rs)
         (length ([] @ head_text rs)) s (m1, [] @ es1)"
    using creadsD[OF creads_response[OF assms(1)] singletonI len, of ?m "[]"] by blast
  obtain m2 es2 where 2: "exec_loop client_switch client_transition (client_act ([] @ head_text rs @ CRLF @ rs_body rs)) (CRLF @ rs_body rs)
       (length ([] @ head_text rs)) s (m1, [] @ es1) = (Suc (Suc (length (head_text rs))), 120, (m2, es1 @ es2))"
      "fold on_response es2 = (id :: res \<Rightarrow> res)"
    using client_end[OF 1(1), of "[] @ head_text rs @ CRLF @ rs_body rs" "rs_body rs" "length (head_text rs)" m1 es1]
    by (auto simp del: exec_loop.simps)
  have "client_exec ?m (rs_dump rs) 0 = (Suc (Suc (length (head_text rs))), 120, (m2, es1 @ es2))"
    using 1(3) 2(1) unfolding client_exec_def dump
    by (simp add: httpclient_parser_init_def httpclient_parser_start_def del: exec_loop.simps)
  moreover have "fold on_response (es1 @ es2) = put_response rs"
    by (rule ext) (simp only: fold_append comp_apply 1(2) 2(2) id_apply)
  ultimately show ?thesis by (auto simp: dump CRLF_def)
qed

lemma put_fields_data:
  "sp_data (put_fields fs parser) =
     (sp_data parser)\<lparr>rs_headers := fold (\<lambda>(k, sp, v). map_set CaseInsensitiveLess k v) fs (rs_headers (sp_data parser))\<rparr> \<and>
   sp_error (put_fields fs parser) = sp_error parser"
  by (induction fs arbitrary: parser) (auto simp: put_fields_def rs_setHeader_def)

lemma response_header:
  assumes "hdr.ordered (rs_headers rs)"
  shows "map_find CaseInsensitiveLess k (fold (\<lambda>(k, sp, v). map_set CaseInsensitiveLess k v) (response_fields rs) []) =
     (if rs_body rs \<noteq> [] \<and> casefold k = casefold ''content-length'' then Some (show_nat (length (rs_body rs)))
      else if casefold k = casefold ''connection'' then Some (if rs_close rs then ''close'' else ''keep-alive'')
      else map_find CaseInsensitiveLess k (rs_headers rs))"
proof -
  let ?l = "filter (\<lambda>e. \<not> is_connection (fst e)) (rs_headers rs)"
  have "map_find CaseInsensitiveLess k ?l = (if \<not> is_connection k then map_find CaseInsensitiveLess k (rs_headers rs) else None)"
    by (rule hdr.find_kept) (simp add: is_connection_fold same_casefold)
  then have "map_find CaseInsensitiveLess k (fold (\<lambda>(k, v). map_set CaseInsensitiveLess k v) ?l []) =
      (if \<not> is_connection k then map_find CaseInsensitiveLess k (rs_headers rs) else None)"
    using hdr.find_fold_set[OF hdr.ordered_filter[OF assms], of k "\<lambda>e. \<not> is_connection (fst e)" "[]"]
    by (auto split: option.splits)
  then show ?thesis
    by (auto simp: response_fields_def fold_fields hdr.find_set same_casefold is_connection_fold)
qed

text \<open>
  C5: A printed response is read back.  On the printed text of a response that the grammar can express, given as one
  buffer, \<^verbatim>\<open>httpclient_parser_execute\<close> fails no assertion and no check and consumes all but the body; the
  response parser ends finished and without an error, with the body left in the buffer, and holds the same status, version and
  reason (the name of the status, when there was none); every header is found with its value for every spelling of
  its name, \<open>connection\<close> says what the flag was, and \<open>content-length\<close> is the length of the body when there is one.
\<close>

theorem response_roundtrip:
  assumes "response_printable rs" "length (rs_dump rs) < 2 ^ 31" "hdr.ordered (rs_headers rs)"
  shows "\<exists>m es p. httpclient_parser_execute (httpclient_parser_init mem) (rs_dump rs) 0 True =
         Some (int (length (rs_dump rs) - length (rs_body rs)), m, es) \<and>
       sp_execute (httpclient mem) (rs_dump rs) chunck (mk_HttpResponseParser (httpclient mem)) =
         (length (rs_dump rs) - length (rs_body rs), rs_body rs, p) \<and> sp_parser p = m \<and>
       sp_isFinished (httpclient mem) p = 1 \<and> \<not> sp_hasError (httpclient mem) p \<and>
       rs_status (sp_data p) = rs_status rs \<and> rs_version (sp_data p) = rs_version rs \<and> rs_reason (sp_data p) = reason_text rs \<and>
       (\<forall>k def. rs_getHeader k def (sp_data p) =
          (if rs_body rs \<noteq> [] \<and> casefold k = casefold ''content-length'' then show_nat (length (rs_body rs))
           else if casefold k = casefold ''connection'' then (if rs_close rs then ''close'' else ''keep-alive'')
           else rs_getHeader k def rs))"
proof -
  let ?n = "length (rs_dump rs) - length (rs_body rs)"
  obtain m es where ex: "client_exec (httpclient_parser_init mem) (rs_dump rs) 0 = (?n, 120, m, es)"
    and data: "fold on_response es = put_response rs"
    using client_exec_dump[OF assms(1,2)] by blast
  have dump: "rs_dump rs = head_text rs @ CRLF @ rs_body rs"
    using rs_dump_parts assms(1) by (simp add: response_printable_def)
  then have ne: "rs_dump rs \<noteq> []" and body: "drop ?n (rs_dump rs) = rs_body rs" by (simp_all add: CRLF_def)
  let ?m = "m\<lparr>pc_cs := 120, pc_nread := of_nat ?n\<rparr>" and ?init = "mk_HttpResponseParser (httpclient mem)"
  let ?p = "(fold on_response es ?init)\<lparr>sp_parser := ?m\<rparr>"
  note run = client_first_call[OF ne assms(2) ex]
  have init: "sp_data ?init = mk_HttpResponse 0x11 True" "sp_error ?init = 0" "sp_parser ?init = httpclient_parser_init mem"
    by (simp_all add: mk_HttpResponseParser_def httpclient_def)
  have final: "sp_data ?p = (mk_HttpResponse 0x11 True)\<lparr>rs_status := rs_status rs, rs_version := rs_version rs,
      rs_reason := reason_text rs, rs_headers := fold (\<lambda>(k, sp, v). map_set CaseInsensitiveLess k v) (response_fields rs) []\<rparr>"
    "sp_error ?p = 0"
    using put_fields_data[of "response_fields rs"] init by (simp_all add: data mk_HttpResponse_def)
  have "unat (of_nat ?n :: 64 word) = ?n" using assms(2) by (intro unat_position) simp
  then have exec: "sp_execute (httpclient mem) (rs_dump rs) chunck ?init = (?n, rs_body rs, ?p)"
    using run(2) body init(3) by (simp add: sp_execute_def httpclient_def)
  have fin: "sp_isFinished (httpclient mem) ?p = 1" "\<not> sp_hasError (httpclient mem) ?p"
    using final(2) by (simp_all add: sp_isFinished_def sp_hasError_def httpclient_def httpclient_parser_finish_def
        httpclient_parser_has_error_def httpclient_parser_error_def httpclient_parser_is_finished_def
        httpclient_parser_first_final_def)
  show ?thesis
    using run(3) exec fin final(1) response_header[OF assms(3)]
    by (intro exI[of _ ?m] exI[of _ es] exI[of _ ?p]) (simp add: rs_getHeader_def find_or_def)
qed

definition sample_response :: http_response where
  "sample_response = (mk_HttpResponse 0x11 False)\<lparr>rs_status := 404, rs_headers := [(''Server'', ''captain/1.0'')], rs_body := ''no''\<rparr>"

lemma sample_response_ok: "response_printable sample_response" "hdr.ordered (rs_headers sample_response)"
  "length (rs_dump sample_response) < 2 ^ 31" "reason_text sample_response = ''Not Found''"
proof -
  have "show_nat 404 = ''404''" by (subst show_nat.simps, subst show_nat.simps, subst show_nat.simps) (simp add: dec_digit_def)
  then show "response_printable sample_response" "hdr.ordered (rs_headers sample_response)"
    "length (rs_dump sample_response) < 2 ^ 31" "reason_text sample_response = ''Not Found''"
    by (simp_all add: sample_response_def mk_HttpResponse_def response_printable_def reason_text_def HttpStatusToString_def
        status_table_def reason_ok_def name_ok_def value_ok_def char_defs hdr.ordered_def rs_dump_def dump_versions
        dump_connection_def dump_body_def CRLF_def is_connection_def lower_def c_str_def show_nat_two)
qed

theorem response_roundtrip_witness:
  "\<exists>p. sp_execute (httpclient zero_client) (rs_dump sample_response) False (mk_HttpResponseParser (httpclient zero_client)) =
         (length (rs_dump sample_response) - 2, ''no'', p) \<and>
       rs_status (sp_data p) = 404 \<and> rs_reason (sp_data p) = ''Not Found'' \<and> rs_getHeader ''SERVER'' [] (sp_data p) = ''captain/1.0''"
  using response_roundtrip[OF sample_response_ok(1,3,2), of zero_client False] sample_response_ok(4)
  by (auto simp: sample_response_def mk_HttpResponse_def rs_getHeader_def find_or_def casefold_def c_str_def lower_def
      CaseInsensitiveLess_def)

subsection \<open>Responses at the edges\<close>

abbreviation after_call :: "string \<Rightarrow> httpclient_parser \<times> response_event list" where
  "after_call t \<equiv> snd (httpclient_parser_run (httpclient_parser_init zero_client) t 0)"

text \<open>
  A response whose last header is a \<^verbatim>\<open>Transfer-Encoding\<close> without a value ends in the final state 121, which
  \<^verbatim>\<open>httpclient_parser_is_finished\<close> does not accept.
\<close>

lemma empty_value_unfinished:
  "httpclient_parser_finish (fst (after_call (''HTTP/1.1 200 OK'' @ CRLF @ ''Transfer-Encoding:'' @ CRLF @ CRLF))) = 0"
  "httpclient_parser_finish (fst (after_call (''HTTP/1.1 200 OK'' @ CRLF @ ''Server:'' @ CRLF @ CRLF))) = 1"
  by (simp_all add: client_eval zero_client_def strtol_def CRLF_def httpclient_parser_finish_def
      httpclient_parser_is_finished_def httpclient_parser_first_final_def)

text \<open>Without a reason, the line end after the status becomes the reason.\<close>

lemma empty_reason:
  "Response_reason (CRLF @ CRLF) 1 \<in> set (snd (after_call (''HTTP/1.1 200 '' @ CRLF @ CRLF)))"
  by (simp add: client_eval zero_client_def strtol_def CRLF_def)

text \<open>
  A line feed behind the colon of \<^verbatim>\<open>Content-Length\<close>: the digits that follow are taken for a value and, with the length
  of the name before, for a name too; the callback is told to read 14 characters where the buffer has five.
\<close>

lemma name_past_buffer:
  "\<exists>at n. Response_field (''5'' @ CRLF @ CRLF) 14 at n \<in>
     set (snd (after_call (''HTTP/1.1 200 OK'' @ CRLF @ ''Content-Length:'' @ CHR 0x0A # ''5'' @ CRLF @ CRLF)))"
  by (simp add: client_eval zero_client_def strtol_def CRLF_def)

end
